(* ===== verification/Prelude.thy ===== *)
theory Prelude
  imports Main "HOL-Library.Word"
begin

text \<open>
  Shared material: the machine types of the Go code, the collections the component
  theories fill, and the generic facts on words, lists and maps they rest on.

  Go's \<open>uint8\<close>, \<open>uint16\<close>, \<open>uint32\<close> and \<open>uint64\<close> are words, so every addition,
  subtraction and multiplication of the model wraps exactly as the code's does.  An
  \<open>int64\<close> on which the code computes is a 64-bit word read with \<open>sint\<close> and compared
  with \<open><s\<close>; an \<open>int64\<close> that is only compared (a Unix time, a deadline) is an \<open>int\<close>.
\<close>

unbundle bit_operations_syntax

type_synonym u8 = "8 word"
type_synonym u16 = "16 word"
type_synonym u32 = "32 word"
type_synonym u64 = "64 word"
type_synonym i64 = "64 word"
type_synonym unixtime = int

named_theorems frame \<open>what an operation leaves unchanged\<close>
named_theorems invs \<open>invariants kept by an operation\<close>
named_theorems evals \<open>evaluation of guards on words\<close>

section \<open>Words\<close>

lemma unat_sub_le: "(b :: 'a::len word) \<le> a \<Longrightarrow> unat (a - b) = unat a - unat b"
  by (simp add: unat_sub word_le_nat_alt)

lemma unat_add_lt: "unat (a :: 'a::len word) + unat b < 2 ^ LENGTH('a) \<Longrightarrow> unat (a + b) = unat a + unat b"
  by (simp add: unat_word_ariths)

lemma unat_mult_lt: "unat (a :: 'a::len word) * unat b < 2 ^ LENGTH('a) \<Longrightarrow> unat (a * b) = unat a * unat b"
  by (simp add: unat_word_ariths)

lemma unat_u8_less [simp]: "unat (x :: u8) < 256"
  using unsigned_less [of x, where ?'a = nat] by simp

lemma unat_u64_less [simp]: "unat (x :: u64) < 18446744073709551616"
  using unsigned_less [of x, where ?'a = nat] by simp

lemma unat_ucast_u8_u64 [simp]: "unat (ucast (x :: u8) :: u64) = unat x"
  by (simp add: unsigned_ucast_eq take_bit_nat_eq_self_iff) (use unat_u8_less [of x] in linarith)

lemma word_neq0_unat: "(x :: 'a::len word) \<noteq> 0 \<longleftrightarrow> 0 < unat x"
  by (simp add: unat_gt_0)

lemma u8_le_99_iff: "(x :: u8) \<le> 99 \<longleftrightarrow> unat x \<le> 99"
  by (simp add: word_le_nat_alt)

lemma u8_succ_unat: "(x :: u8) \<le> 99 \<Longrightarrow> unat (x + 1) = Suc (unat x)"
proof -
  assume "x \<le> 99"
  then have "unat x + unat (1 :: u8) < 2 ^ LENGTH(8)"
    by (simp add: word_le_nat_alt)
  then show ?thesis by (subst unat_add_lt) simp_all
qed

lemma u8_pred_unat: "(x :: u8) \<noteq> 0 \<Longrightarrow> unat (x - 1) = unat x - 1"
  by (simp add: unat_sub_le word_le_nat_alt word_neq0_unat Suc_leI)

lemma len64: "LENGTH(64) - Suc 0 = 63" "LENGTH(64) - 1 = 63"
  by simp_all

lemma sint_small:
  assumes "unat (x :: i64) < 2 ^ 63"
  shows "sint x = int (unat x)"
proof -
  have "int (unat x) < int (2 ^ 63)" using assms by (simp only: of_nat_less_iff)
  then have u: "uint x < 2 ^ 63" by simp
  have "sint x = signed_take_bit 63 (uint x)" using sint_uint [of x] unfolding len64 .
  also have "\<dots> = uint x"
  proof (subst signed_take_bit_int_eq_self_iff)
    have "- (2 ^ 63) \<le> uint x" by (rule order_trans [of _ 0]) simp_all
    with u show "- (2 ^ 63) \<le> uint x \<and> uint x < 2 ^ 63" by blast
  qed
  finally show ?thesis by simp
qed

definition minu :: "u64 \<Rightarrow> u64 \<Rightarrow> u64" where
  "minu a b = (if a < b then a else b)"

lemma minu_le1 [simp]: "minu a b \<le> a" and minu_le2 [simp]: "minu a b \<le> b"
  by (auto simp: minu_def not_less)

lemma unat_minu: "unat (minu a b) = min (unat a) (unat b)"
  by (simp add: minu_def min_def word_less_nat_alt word_le_nat_alt)

lemma minu_absorb1: "a \<le> b \<Longrightarrow> minu a b = a"
  by (auto simp: minu_def)

lemma minu_absorb2: "b \<le> a \<Longrightarrow> minu a b = b"
  by (auto simp: minu_def)

section \<open>Sums of words over lists\<close>

lemma unat_sum_list_words:
  "sum_list (map (\<lambda>x. unat (f x :: 'a::len word)) xs) < 2 ^ LENGTH('a) \<Longrightarrow>
     unat (sum_list (map f xs)) = sum_list (map (\<lambda>x. unat (f x)) xs)"
proof (induction xs)
  case Nil
  then show ?case by simp
next
  case (Cons x xs)
  then have "unat (sum_list (map f xs)) = sum_list (map (\<lambda>x. unat (f x)) xs)" by simp
  with Cons.prems show ?case by (simp add: unat_add_lt)
qed

lemma sum_list_pos_iff_nat: "(0 :: nat) < sum_list xs \<longleftrightarrow> (\<exists>x \<in> set xs. 0 < x)"
  by (induction xs) auto

lemma member_le_sum_list_nat: "x \<in> set xs \<Longrightarrow> (f x :: nat) \<le> sum_list (map f xs)"
  by (induction xs) auto

section \<open>Lists\<close>

lemma nth_append_new [simp]: "(xs @ [x]) ! length xs = x"
  by simp

lemma list_all_nth_conv: "(\<forall>i < length xs. P (xs ! i)) \<longleftrightarrow> (\<forall>x \<in> set xs. P x)"
  by (metis in_set_conv_nth)

end
