(* ===== verification/GoStrings.thy ===== *)
theory GoStrings
  imports Prelude "HOL-Library.Char_ord"
begin

text \<open>
  The functions of Go's \<open>strings\<close> and \<open>strconv\<close> packages that the code calls.  A Go
  string is its list of bytes.  \<open>TrimSpace\<close>, \<open>EqualFold\<close> and \<open>ToLower\<close> are given on
  ASCII text, which is what the code passes them (base58 keys, hexadecimal digests,
  identifiers and the fixed labels \<open>buy\<close>, \<open>limit\<close>, \<open>canceled\<close>, ...): the non-ASCII
  white space that Go also trims does not occur in it.
\<close>

definition isSpace :: "char \<Rightarrow> bool" where
  "isSpace c \<longleftrightarrow> of_char c = (32 :: nat) \<or> (9 \<le> (of_char c :: nat) \<and> of_char c \<le> (13 :: nat))"

definition TrimSpace :: "string \<Rightarrow> string" where
  "TrimSpace s = rev (dropWhile isSpace (rev (dropWhile isSpace s)))"

fun HasPrefix :: "string \<Rightarrow> string \<Rightarrow> bool" where
  "HasPrefix s [] = True"
| "HasPrefix [] (p # ps) = False"
| "HasPrefix (c # s) (p # ps) = (c = p \<and> HasPrefix s ps)"

definition toLowerChar :: "char \<Rightarrow> char" where
  "toLowerChar c = (if 65 \<le> (of_char c :: nat) \<and> of_char c \<le> (90 :: nat)
                    then char_of (of_char c + 32 :: nat) else c)"

definition EqualFold :: "string \<Rightarrow> string \<Rightarrow> bool" where
  "EqualFold s t \<longleftrightarrow> map toLowerChar s = map toLowerChar t"

lemma HasPrefix_iff: "HasPrefix s p \<longleftrightarrow> (\<exists>r. s = p @ r)"
  by (induction s p rule: HasPrefix.induct) auto

lemma dropWhile_rev_idem:
  "dropWhile P (rev (dropWhile P (rev (dropWhile P xs)))) = rev (dropWhile P (rev (dropWhile P xs)))"
proof (cases "dropWhile P xs")
  case Nil
  show ?thesis by (simp only: Nil) simp
next
  case (Cons y ys)
  then have "\<not> P y" by (metis hd_dropWhile list.distinct(1) list.sel(1))
  then have "rev (dropWhile P (rev ys @ [y])) = y # rev (dropWhile P (rev ys))"
    by (simp add: dropWhile_append3)
  with Cons \<open>\<not> P y\<close> show ?thesis by simp
qed

lemma TrimSpace_idem [simp]: "TrimSpace (TrimSpace s) = TrimSpace s"
  unfolding TrimSpace_def by (simp add: dropWhile_rev_idem)

text \<open>A text is trimmed when its ends are no spaces.\<close>

lemma TrimSpace_hd_last: "TrimSpace s = s \<Longrightarrow> s \<noteq> [] \<Longrightarrow> \<not> isSpace (hd s) \<and> \<not> isSpace (last s)"
proof -
  assume t: "TrimSpace s = s" and ne: "s \<noteq> []"
  let ?d = "dropWhile isSpace s"
  have "length (dropWhile isSpace (rev ?d)) \<le> length ?d" by (metis length_dropWhile_le length_rev)
  moreover have "length s = length (dropWhile isSpace (rev ?d))" using t by (metis TrimSpace_def length_rev)
  ultimately have "length s \<le> length ?d" by simp
  then have d: "?d = s" by (metis append_eq_conv_conj le_antisym length_append length_dropWhile_le takeWhile_dropWhile_id
        add_cancel_left_left length_0_conv append_Nil)
  then have "\<not> isSpace (hd s)" using ne hd_dropWhile [of isSpace s] by auto
  moreover have "dropWhile isSpace (rev s) = rev s" using t d by (metis TrimSpace_def rev_rev_ident)
  then have "\<not> isSpace (hd (rev s))" using ne hd_dropWhile [of isSpace "rev s"] by auto
  ultimately show ?thesis by (simp add: hd_rev)
qed

lemma TrimSpace_ends:
  assumes "s \<noteq> []" "\<not> isSpace (hd s)" "\<not> isSpace (last s)"
  shows "TrimSpace s = s"
proof -
  have "dropWhile isSpace xs = xs" if "xs \<noteq> []" "\<not> isSpace (hd xs)" for xs
    using that by (cases xs) auto
  from this [of s] this [of "rev s"] assms show ?thesis by (simp add: TrimSpace_def hd_rev)
qed

lemma TrimSpace_id: "\<forall>c \<in> set s. \<not> isSpace c \<Longrightarrow> TrimSpace s = s"
proof -
  assume *: "\<forall>c \<in> set s. \<not> isSpace c"
  then have "dropWhile isSpace s = s" "dropWhile isSpace (rev s) = rev s"
    by (simp_all add: dropWhile_eq_self_iff hd_rev)
       (metis hd_in_set last_in_set rev.simps(1))+
  then show ?thesis by (simp add: TrimSpace_def)
qed

lemma TrimSpace_Nil [simp]: "TrimSpace [] = []"
  by (simp add: TrimSpace_def)

section \<open>Numbers in a base up to 36\<close>

definition digitChar :: "nat \<Rightarrow> char" where
  "digitChar d = (if d < 10 then char_of (48 + d) else char_of (87 + d))"

fun digitsBase :: "nat \<Rightarrow> nat \<Rightarrow> string" where
  "digitsBase b n = (if b < 2 \<or> n < b then [digitChar n]
                     else digitsBase b (n div b) @ [digitChar (n mod b)])"

declare digitsBase.simps [simp del]

text \<open>\<open>strconv.FormatUint(n, 10)\<close>, and the base-16 form the digests use.\<close>

definition FormatUint10 :: "u64 \<Rightarrow> string" where
  "FormatUint10 n = digitsBase 10 (unat n)"

definition FormatUint16 :: "u64 \<Rightarrow> string" where
  "FormatUint16 n = digitsBase 16 (unat n)"

definition digitVal :: "char \<Rightarrow> nat" where
  "digitVal c = (let k = (of_char c :: nat) in if k < 58 then k - 48 else k - 87)"

definition valueBase :: "nat \<Rightarrow> string \<Rightarrow> nat" where
  "valueBase b s = foldl (\<lambda>acc c. acc * b + digitVal c) 0 s"

lemma digitVal_digitChar: "d < 36 \<Longrightarrow> digitVal (digitChar d) = d"
  by (auto simp: digitVal_def digitChar_def Let_def of_char_of)

text \<open>Reading a numeral back gives the number it was formatted from.\<close>

lemma valueBase_digitsBase: "2 \<le> b \<Longrightarrow> b \<le> 36 \<Longrightarrow> valueBase b (digitsBase b n) = n"
proof (induction b n rule: digitsBase.induct)
  case (1 b n)
  show ?case
  proof (cases "n < b")
    case True
    with "1.prems" show ?thesis
      by (subst digitsBase.simps) (simp add: valueBase_def digitVal_digitChar)
  next
    case False
    with "1.prems" have ih: "valueBase b (digitsBase b (n div b)) = n div b"
      by (intro "1.IH") auto
    have "n mod b < 36" using "1.prems" by (meson less_le_trans mod_less_divisor not_less zero_less_iff_neq_zero le_trans not_numeral_le_zero neq0_conv)
    with ih False "1.prems" show ?thesis
      by (subst digitsBase.simps) (simp add: valueBase_def digitVal_digitChar)
  qed
qed

lemma digitsBase_inject: "2 \<le> b \<Longrightarrow> b \<le> 36 \<Longrightarrow> digitsBase b m = digitsBase b n \<longleftrightarrow> m = n"
  by (metis valueBase_digitsBase)

lemma FormatUint10_inject [simp]: "FormatUint10 m = FormatUint10 n \<longleftrightarrow> m = n"
  by (simp add: FormatUint10_def digitsBase_inject unsigned_word_eqI) (metis unsigned_word_eqI)

end
