(* ===== verification/LotMath.thy ===== *)
theory LotMath
  imports Prelude
begin

text \<open>
  Prices, lots and collateral units: \<open>matching/math.go\<close>, the helpers \<open>costForLots\<close> and
  \<open>lotsForSpend\<close> of \<open>matching/book.go\<close>, and the checked variant of
  \<open>settlement/submission.go\<close>.  A price tick \<open>p\<close> in 1..99 is \<open>p\<close> cents, so \<open>q\<close> lots cost
  \<open>q * p / 100\<close> units, rounded up.

  The Go functions work on \<open>uint64\<close> and wrap; the lemmas named \<open>unat_...\<close> give their value
  as a natural number where the product fits, and the last group shows that the two
  roundings are inverse to each other, which the market-buy path of the book rests on.
\<close>

section \<open>The code\<close>

text \<open>\<open>matching.ceilMulDiv\<close> and \<open>funds.ceilMulDiv\<close> (the same body).  The code's divisor is the
  constant 100 at every call, so Go's division never panics.\<close>

definition ceilMulDiv :: "u64 \<Rightarrow> u64 \<Rightarrow> u64 \<Rightarrow> u64" where
  "ceilMulDiv a b d = (if a = 0 \<or> b = 0 then 0 else (a * b + d - 1) div d)"

definition costForLots :: "u64 \<Rightarrow> u8 \<Rightarrow> u64" where
  "costForLots qtyLots priceTick = ceilMulDiv qtyLots (ucast priceTick) 100"

definition lotsForSpend :: "u64 \<Rightarrow> u8 \<Rightarrow> u64" where
  "lotsForSpend spendAmount priceTick =
     (if priceTick = 0 then 0 else (spendAmount * 100) div ucast priceTick)"

text \<open>The units an order pays or earns for \<open>qty\<close> lots at a YES price: a NO order
  (\<open>OriginalOutcome = 1\<close>) trades at the complement.\<close>

definition actualUnits :: "u8 \<Rightarrow> u64 \<Rightarrow> u8 \<Rightarrow> u64" where
  "actualUnits originalOutcome qty normalizedPrice =
     (if originalOutcome = 1 then ceilMulDiv qty (ucast (100 - normalizedPrice)) 100
      else ceilMulDiv qty (ucast normalizedPrice) 100)"

definition effectivePrice :: "u8 \<Rightarrow> u8 \<Rightarrow> u8" where
  "effectivePrice originalOutcome normalizedPrice =
     (if originalOutcome = 1 then 100 - normalizedPrice else normalizedPrice)"

definition lotsForOutcomeSpend :: "u8 \<Rightarrow> u64 \<Rightarrow> u8 \<Rightarrow> u64" where
  "lotsForOutcomeSpend originalOutcome spendAmount normalizedPrice =
     lotsForSpend spendAmount (effectivePrice originalOutcome normalizedPrice)"

text \<open>The checked arithmetic of \<open>settlement/submission.go\<close>.\<close>

datatype math_error = DenominatorZero | MultiplyOverflow | RoundUpOverflow

definition mulUint64 :: "u64 \<Rightarrow> u64 \<Rightarrow> u64 \<times> bool" where
  "mulUint64 lhs rhs =
     (if lhs = 0 \<or> rhs = 0 then (0, False)
      else let product = lhs * rhs in (product, product div lhs \<noteq> rhs))"

definition ceilMulDivChecked :: "u64 \<Rightarrow> u64 \<Rightarrow> u64 \<Rightarrow> math_error + u64" where
  "ceilMulDivChecked lhs rhs denominator =
     (if denominator = 0 then Inl DenominatorZero
      else let (product, overflow) = mulUint64 lhs rhs in
        if overflow then Inl MultiplyOverflow
        else let quotient = product div denominator in
          if product mod denominator \<noteq> 0
          then if quotient = - 1 then Inl RoundUpOverflow else Inr (quotient + 1)
          else Inr quotient)"

section \<open>Values as natural numbers\<close>

definition cdiv100 :: "nat \<Rightarrow> nat" where
  "cdiv100 n = (n + 99) div 100"

lemma cdiv100_0 [simp]: "cdiv100 0 = 0"
  by (simp add: cdiv100_def)

lemma cdiv100_mono: "m \<le> n \<Longrightarrow> cdiv100 m \<le> cdiv100 n"
  by (simp add: cdiv100_def div_le_mono)

lemma cdiv100_le_iff: "cdiv100 n \<le> k \<longleftrightarrow> n \<le> 100 * k"
  unfolding cdiv100_def by linarith

lemma cdiv100_add_le: "cdiv100 (m + n) \<le> cdiv100 m + cdiv100 n"
  unfolding cdiv100_def by linarith

lemma cdiv100_add_ge: "cdiv100 m + cdiv100 n \<le> cdiv100 (m + n) + 1"
  unfolding cdiv100_def by linarith

lemma unat_ceilMulDiv100:
  assumes "unat a * unat b + 99 < 2 ^ 64"
  shows "unat (ceilMulDiv a b 100) = cdiv100 (unat a * unat b)"
proof (cases "a = 0 \<or> b = 0")
  case True
  then show ?thesis by (auto simp: ceilMulDiv_def)
next
  case False
  have ab: "unat (a * b) = unat a * unat b"
    using assms by (intro unat_mult_lt) simp
  have "unat (a * b + 99) = unat a * unat b + 99"
    using assms by (subst unat_add_lt) (simp_all add: ab)
  moreover have "a * b + 100 - 1 = a * b + 99" by simp
  ultimately have "unat ((a * b + 100 - 1) div 100) = (unat a * unat b + 99) div 100"
    by (simp only: unat_div) simp
  then show ?thesis
    using False by (simp only: ceilMulDiv_def cdiv100_def if_False)
qed

lemma effectivePrice_range:
  assumes "1 \<le> p" "p \<le> 99"
  shows "1 \<le> unat (effectivePrice out p)" "unat (effectivePrice out p) \<le> 99"
    "unat (effectivePrice out p) = (if out = 1 then 100 - unat p else unat p)"
proof -
  have p: "1 \<le> unat p" "unat p \<le> 99"
    using assms by (simp_all add: word_le_nat_alt)
  have "p \<le> 100" using p by (simp add: word_le_nat_alt)
  then have "unat (100 - p) = 100 - unat p" by (simp add: unat_sub_le)
  with p show "1 \<le> unat (effectivePrice out p)" "unat (effectivePrice out p) \<le> 99"
    "unat (effectivePrice out p) = (if out = 1 then 100 - unat p else unat p)"
    by (auto simp: effectivePrice_def)
qed

lemma actualUnits_eff: "actualUnits out q p = ceilMulDiv q (ucast (effectivePrice out p)) 100"
  by (simp add: actualUnits_def effectivePrice_def)

lemma unat_actualUnits:
  assumes "1 \<le> p" "p \<le> 99" "unat q * 99 + 99 < 2 ^ 64"
  shows "unat (actualUnits out q p) = cdiv100 (unat q * unat (effectivePrice out p))"
proof -
  have "unat q * unat (effectivePrice out p) \<le> unat q * 99"
    using effectivePrice_range(2) [OF assms(1,2)] by (rule mult_le_mono2)
  then have "unat q * unat (ucast (effectivePrice out p) :: u64) + 99 < 2 ^ 64"
    using assms(3) by (simp only: unat_ucast_u8_u64)
  then show ?thesis
    unfolding actualUnits_eff by (simp only: unat_ceilMulDiv100 unat_ucast_u8_u64)
qed

lemma unat_lotsForSpend:
  assumes "p \<noteq> 0" "unat s * 100 < 2 ^ 64"
  shows "unat (lotsForSpend s p) = unat s * 100 div unat p"
proof -
  have "unat (s * 100) = unat s * 100"
    using assms(2) by (subst unat_mult_lt) simp_all
  with assms(1) show ?thesis by (simp add: lotsForSpend_def unat_div)
qed

section \<open>The two roundings\<close>

text \<open>Buying as many lots as a spend allows and paying for them costs the spend exactly:
  a tick is below 100, so rounding the lots down loses less than one unit, and rounding the
  price up gives it back.\<close>

lemma cdiv100_lots_exact:
  assumes "1 \<le> p" "p \<le> (100 :: nat)"
  shows "cdiv100 (s * 100 div p * p) = s"
proof -
  have "s * 100 div p * p + s * 100 mod p = s * 100" by simp
  moreover have "s * 100 mod p < p" using assms by simp
  ultimately have "s * 100 div p * p \<le> s * 100" "s * 100 < s * 100 div p * p + 100"
    using assms by linarith+
  then show ?thesis unfolding cdiv100_def by linarith
qed

lemma lots_below_of_cost_above:
  assumes "1 \<le> p" "s < cdiv100 (q * p)"
  shows "s * 100 div p < (q :: nat)"
proof -
  have "s * 100 < q * p"
    using assms(2) unfolding cdiv100_def by linarith
  then show ?thesis using assms(1) by (simp add: div_less_iff_less_mult)
qed

lemma lots_positive:
  assumes "1 \<le> p" "p \<le> (100 :: nat)" "0 < s"
  shows "0 < s * 100 div p"
proof -
  have "p \<le> s * 100" using assms by linarith
  then show ?thesis using assms by (simp add: div_greater_zero_iff)
qed

lemma spend_of_lots_exact:
  assumes "1 \<le> p" "p \<le> 99" "unat s * 100 + 99 < 2 ^ 64"
  shows "actualUnits out (lotsForOutcomeSpend out s p) p = s"
proof -
  let ?e = "effectivePrice out p"
  note e = effectivePrice_range [OF assms(1,2), of out]
  have lots: "unat (lotsForSpend s ?e) = unat s * 100 div unat ?e"
    using e(1) assms(3) by (intro unat_lotsForSpend) auto
  have "unat s * 100 div unat ?e * unat ?e \<le> unat s * 100" by simp
  then have "unat (lotsForSpend s ?e) * unat (ucast ?e :: u64) + 99 < 2 ^ 64"
    using assms(3) by (simp only: lots unat_ucast_u8_u64)
  then have "unat (actualUnits out (lotsForSpend s ?e) p) = cdiv100 (unat s * 100 div unat ?e * unat ?e)"
    by (simp only: actualUnits_eff unat_ceilMulDiv100 unat_ucast_u8_u64 lots)
  also have "\<dots> = unat s" using e by (intro cdiv100_lots_exact) auto
  finally show ?thesis by (simp add: lotsForOutcomeSpend_def unsigned_word_eqI)
qed

lemma lots_of_short_spend:
  assumes "1 \<le> p" "p \<le> 99" "unat s * 100 < 2 ^ 64" "unat q * 99 + 99 < 2 ^ 64"
    and "\<not> actualUnits out q p \<le> s"
  shows "unat (lotsForOutcomeSpend out s p) < unat q"
proof -
  let ?e = "effectivePrice out p"
  note e = effectivePrice_range [OF assms(1,2), of out]
  have "unat s < cdiv100 (unat q * unat ?e)"
    using assms(5) unat_actualUnits [OF assms(1,2,4), of out] by (simp add: word_le_nat_alt)
  then have "unat s * 100 div unat ?e < unat q" using e(1) by (intro lots_below_of_cost_above)
  moreover have "unat (lotsForSpend s ?e) = unat s * 100 div unat ?e"
    using e(1) assms(3) by (intro unat_lotsForSpend) auto
  ultimately show ?thesis by (simp add: lotsForOutcomeSpend_def)
qed

lemma lotsForOutcomeSpend_nonzero:
  assumes "1 \<le> p" "p \<le> 99" "unat s * 100 < 2 ^ 64" "s \<noteq> 0"
  shows "lotsForOutcomeSpend out s p \<noteq> 0"
proof -
  let ?e = "effectivePrice out p"
  note e = effectivePrice_range [OF assms(1,2), of out]
  have "unat (lotsForSpend s ?e) = unat s * 100 div unat ?e"
    using e(1) assms(3) by (intro unat_lotsForSpend) auto
  moreover have "0 < unat s * 100 div unat ?e"
    using e assms(4) by (intro lots_positive) (auto simp: word_neq0_unat)
  ultimately show ?thesis by (simp add: lotsForOutcomeSpend_def word_neq0_unat)
qed

section \<open>The checked variant\<close>

lemma mulUint64_spec:
  "mulUint64 a b = (a * b, 2 ^ 64 \<le> unat a * unat b)"
proof (cases "a = 0 \<or> b = 0")
  case True
  then show ?thesis by (auto simp: mulUint64_def)
next
  case False
  then have a: "0 < unat a" and b: "0 < unat b" by (auto simp: word_neq0_unat)
  show ?thesis
  proof (cases "unat a * unat b < 2 ^ 64")
    case True
    then have "unat (a * b) = unat a * unat b" by (intro unat_mult_lt) simp
    then have "unat (a * b div a) = unat b" using a by (simp add: unat_div)
    with False True show ?thesis by (auto simp: mulUint64_def Let_def intro: unsigned_word_eqI)
  next
    case ov: False
    have "unat (a * b div a) \<noteq> unat b"
    proof
      assume eq: "unat (a * b div a) = unat b"
      then have "unat b * unat a \<le> unat (a * b)"
        by (metis unat_div div_times_less_eq_dividend)
      with ov show False using unat_u64_less [of "a * b"] by (simp add: mult.commute)
    qed
    with False ov show ?thesis by (auto simp: mulUint64_def Let_def)
  qed
qed

lemma ceil_div_exact: "0 < d \<Longrightarrow> n mod d = 0 \<Longrightarrow> (n + d - 1) div d = n div (d :: nat)"
proof -
  assume d: "0 < d" and "n mod d = 0"
  then obtain k where k: "n = d * k" by (auto simp: mod_eq_0_iff_dvd elim: dvdE)
  have "(d * k + d - 1) div d = k"
    using d by (intro div_nat_eqI) (auto simp: algebra_simps)
  with k d show ?thesis by simp
qed

lemma ceil_div_up: "0 < d \<Longrightarrow> 0 < n mod d \<Longrightarrow> (n + d - 1) div d = n div d + (1 :: nat)"
proof -
  assume d: "0 < d" and r: "0 < n mod d"
  obtain q r where n: "n = d * q + r" and "r < d" "0 < r"
    using d r by (metis mod_less_divisor mult_div_mod_eq)
  moreover have "(d * q + r + d - 1) div d = Suc q"
    using \<open>r < d\<close> \<open>0 < r\<close> by (intro div_nat_eqI) (auto simp: algebra_simps)
  ultimately show ?thesis using d by simp
qed

lemma ceilMulDivChecked_ok:
  assumes "d \<noteq> 0" "unat a * unat b < 2 ^ 64"
  shows "\<exists>r. ceilMulDivChecked a b d = Inr r \<and>
           unat r = (unat a * unat b + unat d - 1) div unat d"
proof -
  have m: "unat (a * b) = unat a * unat b" using assms(2) by (intro unat_mult_lt) simp
  let ?n = "unat a * unat b" and ?d = "unat d"
  have d: "0 < ?d" using assms(1) by (simp add: word_neq0_unat)
  have q: "unat (a * b div d) = ?n div ?d" and r: "unat (a * b mod d) = ?n mod ?d"
    by (simp_all add: unat_div unat_mod m)
  show ?thesis
  proof (cases "?n mod ?d = 0")
    case True
    then have "a * b mod d = 0" using r by (simp add: unsigned_eq_0_iff)
    moreover have "(?n + ?d - 1) div ?d = ?n div ?d"
      using True d by (intro ceil_div_exact)
    ultimately show ?thesis using assms q
      by (auto simp: ceilMulDivChecked_def mulUint64_spec Let_def)
  next
    case False
    then have nz: "a * b mod d \<noteq> 0" using r by (metis unsigned_0)
    have "?d \<noteq> 1" using False by auto
    then have "2 \<le> ?d" using d by linarith
    then have "?n div ?d \<le> ?n div 2" by (intro div_le_mono2) auto
    moreover have "?n div 2 < 2 ^ 63" using assms(2) by (simp add: div_less_iff_less_mult)
    ultimately have lt: "?n div ?d < 2 ^ 64 - 1" by simp
    have "unat (- 1 :: u64) = 2 ^ 64 - 1" by (simp add: unsigned_minus_1_eq_mask mask_eq_exp_minus_1)
    then have "a * b div d \<noteq> - 1" using q lt by force
    moreover have "unat (a * b div d + 1) = ?n div ?d + 1"
      using lt q by (subst unat_add_lt) auto
    moreover have "(?n + ?d - 1) div ?d = ?n div ?d + 1"
      using False d by (intro ceil_div_up) simp_all
    ultimately show ?thesis using assms nz
      by (auto simp: ceilMulDivChecked_def mulUint64_spec Let_def)
  qed
qed

end
