(* ===== verification/Orders.thy ===== *)
theory Orders
  imports GoStrings LotMath
begin

text \<open>
  The matcher's input and its book entries: the command types of \<open>matching/types.go\<close> and
  the order node of \<open>matching/pool.go\<close>.  The intrusive links \<open>Next\<close> and \<open>Prev\<close> are not
  fields here: a price level of the book holds its nodes as a list.  \<open>InitFromCmd\<close> sets every
  other field, and \<open>ReleaseOrder\<close> resets the node before it goes back to the pool, so an
  acquired node is always the zero order.
\<close>

definition SideBuy :: u8 where "SideBuy = 0"
definition SideSell :: u8 where "SideSell = 1"
definition OrderTypeLimit :: u8 where "OrderTypeLimit = 0"
definition OrderTypeMarket :: u8 where "OrderTypeMarket = 1"

definition StatusNew :: u8 where "StatusNew = 1"
definition StatusPartiallyFilled :: u8 where "StatusPartiallyFilled = 2"
definition StatusFilled :: u8 where "StatusFilled = 3"
definition StatusCanceled :: u8 where "StatusCanceled = 4"
definition StatusExpired :: u8 where "StatusExpired = 5"
definition StatusRejected :: u8 where "StatusRejected = 6"

lemmas side_defs = SideBuy_def SideSell_def
lemmas order_type_defs = OrderTypeLimit_def OrderTypeMarket_def

lemma sides_distinct [simp]: "SideBuy \<noteq> SideSell" "SideSell \<noteq> SideBuy"
  by (simp_all add: side_defs)

lemma order_types_distinct [simp]: "OrderTypeLimit \<noteq> OrderTypeMarket" "OrderTypeMarket \<noteq> OrderTypeLimit"
  by (simp_all add: order_type_defs)

section \<open>Commands\<close>

record PlaceOrderCommand =
  c_CommandID :: string
  c_TraceID :: string
  c_IdempotencyKey :: string
  c_OrderID :: u64
  c_MarketID :: u64
  c_MarketPDA :: string
  c_WalletAddress :: string
  c_OriginalAction :: u8
  c_OriginalOutcome :: u8
  c_OriginalPriceTick :: u8
  c_Side :: u8
  c_OrderType :: u8
  c_PriceTick :: u8
  c_QtyLots :: u64
  c_SpendAmount :: u64
  c_ExpireTime :: unixtime
  c_Signature :: string
  c_IntentBytesHex :: string
  c_Nonce :: u64
  c_Timestamp :: unixtime
  c_SourceCmdSeq :: u64

text \<open>The interface \<open>Command\<close> with its three implementations; a tick and a halt carry the
  market and the time.\<close>

datatype Command =
    PlaceOrder PlaceOrderCommand
  | Tick (tickMarketID: u64) (tickTimestamp: unixtime)
  | HaltMarket (haltMarketID: u64) (haltTimestamp: unixtime)

fun GetMarketID :: "Command \<Rightarrow> u64" where
  "GetMarketID (PlaceOrder c) = c_MarketID c"
| "GetMarketID (Tick m t) = m"
| "GetMarketID (HaltMarket m t) = m"

fun GetTimestamp :: "Command \<Rightarrow> unixtime" where
  "GetTimestamp (PlaceOrder c) = c_Timestamp c"
| "GetTimestamp (Tick m t) = t"
| "GetTimestamp (HaltMarket m t) = t"

text \<open>A NATS message is a handle: the code only stores it and acknowledges it.\<close>

type_synonym natsMsg = nat

record CommandWrapper =
  w_Cmd :: Command
  w_Msg :: "natsMsg option"
  w_SourceCmdSeq :: u64

section \<open>Order nodes\<close>

record MemoryOrder =
  OrderID :: u64
  CommandID :: string
  TraceID :: string
  IdempotencyKey :: string
  MarketPDA :: string
  WalletAddress :: string
  OriginalAction :: u8
  OriginalOutcome :: u8
  OriginalPriceTick :: u8
  Side :: u8
  OrderType :: u8
  PriceTick :: u8
  RemainingQty :: u64
  RemainingSpend :: u64
  ExpireTime :: unixtime
  Timestamp :: unixtime
  CreatedCmdSeq :: u64
  Signature :: string
  IntentBytesHex :: string
  Nonce :: u64

definition zeroOrder :: MemoryOrder where
  "zeroOrder = \<lparr>OrderID = 0, CommandID = [], TraceID = [], IdempotencyKey = [], MarketPDA = [],
     WalletAddress = [], OriginalAction = 0, OriginalOutcome = 0, OriginalPriceTick = 0, Side = 0,
     OrderType = 0, PriceTick = 0, RemainingQty = 0, RemainingSpend = 0, ExpireTime = 0,
     Timestamp = 0, CreatedCmdSeq = 0, Signature = [], IntentBytesHex = [], Nonce = 0\<rparr>"

definition IsFilled :: "MemoryOrder \<Rightarrow> bool" where
  "IsFilled o1 =
     (if OrderType o1 = OrderTypeMarket \<and> OriginalAction o1 = SideBuy
      then RemainingSpend o1 = 0 else RemainingQty o1 = 0)"

definition InitFromCmd :: "MemoryOrder \<Rightarrow> PlaceOrderCommand \<Rightarrow> MemoryOrder" where
  "InitFromCmd o1 cmd = o1\<lparr>
     OrderID := c_OrderID cmd,
     CommandID := c_CommandID cmd,
     TraceID := c_TraceID cmd,
     IdempotencyKey := c_IdempotencyKey cmd,
     MarketPDA := c_MarketPDA cmd,
     WalletAddress := c_WalletAddress cmd,
     OriginalAction := c_OriginalAction cmd,
     OriginalOutcome := c_OriginalOutcome cmd,
     OriginalPriceTick := c_OriginalPriceTick cmd,
     Side := c_Side cmd,
     OrderType := c_OrderType cmd,
     PriceTick := c_PriceTick cmd,
     RemainingQty := c_QtyLots cmd,
     RemainingSpend := c_SpendAmount cmd,
     ExpireTime := c_ExpireTime cmd,
     Timestamp := c_Timestamp cmd,
     CreatedCmdSeq := c_SourceCmdSeq cmd,
     Signature := c_Signature cmd,
     IntentBytesHex := c_IntentBytesHex cmd,
     Nonce := c_Nonce cmd\<rparr>"

text \<open>The object pool.  A released node is zeroed and put back; \<open>sync.Pool\<close> may hand out any
  pooled node or a new one, which \<open>New\<close> makes zero.\<close>

type_synonym orderPool = "MemoryOrder list"

definition AcquireOrder :: "orderPool \<Rightarrow> MemoryOrder \<times> orderPool" where
  "AcquireOrder pool = (case pool of [] \<Rightarrow> (zeroOrder, []) | n # ns \<Rightarrow> (n, ns))"

definition ReleaseOrder :: "MemoryOrder \<Rightarrow> orderPool \<Rightarrow> orderPool" where
  "ReleaseOrder ord pool = zeroOrder # pool"

definition pool_ok :: "orderPool \<Rightarrow> bool" where
  "pool_ok pool \<longleftrightarrow> (\<forall>n \<in> set pool. n = zeroOrder)"

lemma pool_ok_empty: "pool_ok []"
  by (simp add: pool_ok_def)

lemma ReleaseOrder_pool_ok [invs]: "pool_ok pool \<Longrightarrow> pool_ok (ReleaseOrder ord pool)"
  by (simp add: pool_ok_def ReleaseOrder_def)

lemma AcquireOrder_zero:
  "pool_ok pool \<Longrightarrow> AcquireOrder pool = (n, pool') \<Longrightarrow> n = zeroOrder \<and> pool_ok pool'"
  by (auto simp: pool_ok_def AcquireOrder_def split: list.splits)

text \<open>Every field of the node is set, so an initialised order does not depend on the node.\<close>

lemma InitFromCmd_any_node: "InitFromCmd n cmd = InitFromCmd n' cmd"
  by (simp add: InitFromCmd_def MemoryOrder.equality)

definition orderFromCmd :: "PlaceOrderCommand \<Rightarrow> MemoryOrder" where
  "orderFromCmd cmd = InitFromCmd zeroOrder cmd"

lemma orderFromCmd_sel [simp]:
  "OrderID (orderFromCmd c) = c_OrderID c"
  "WalletAddress (orderFromCmd c) = c_WalletAddress c"
  "OriginalAction (orderFromCmd c) = c_OriginalAction c"
  "OriginalOutcome (orderFromCmd c) = c_OriginalOutcome c"
  "OriginalPriceTick (orderFromCmd c) = c_OriginalPriceTick c"
  "Side (orderFromCmd c) = c_Side c"
  "OrderType (orderFromCmd c) = c_OrderType c"
  "PriceTick (orderFromCmd c) = c_PriceTick c"
  "RemainingQty (orderFromCmd c) = c_QtyLots c"
  "RemainingSpend (orderFromCmd c) = c_SpendAmount c"
  "ExpireTime (orderFromCmd c) = c_ExpireTime c"
  "Timestamp (orderFromCmd c) = c_Timestamp c"
  by (simp_all add: orderFromCmd_def InitFromCmd_def)

text \<open>The units of an order at a YES price (\<open>math.go\<close>), and the lots its spend buys.\<close>

definition actualUnitsForOrder :: "MemoryOrder \<Rightarrow> u64 \<Rightarrow> u8 \<Rightarrow> u64" where
  "actualUnitsForOrder ord qty normalizedPrice = actualUnits (OriginalOutcome ord) qty normalizedPrice"

definition spendForOrderLots :: "MemoryOrder \<Rightarrow> u64 \<Rightarrow> u8 \<Rightarrow> u64" where
  "spendForOrderLots ord qtyLots normalizedPrice = actualUnitsForOrder ord qtyLots normalizedPrice"

definition lotsForOrderSpend :: "MemoryOrder \<Rightarrow> u64 \<Rightarrow> u8 \<Rightarrow> u64" where
  "lotsForOrderSpend ord spendAmount normalizedPrice =
     lotsForOutcomeSpend (OriginalOutcome ord) spendAmount normalizedPrice"

definition releaseRefundForOrder :: "MemoryOrder \<Rightarrow> u64" where
  "releaseRefundForOrder ord =
     (if OriginalAction ord \<noteq> SideBuy then 0
      else if OrderType ord = OrderTypeMarket then RemainingSpend ord
      else costForLots (RemainingQty ord) (OriginalPriceTick ord))"

end
