(* ===== verification/Batcher.thy ===== *)
theory Batcher
  imports Orders "HOL-Library.Multiset"
begin

text \<open>
  The batch a market actor accumulates between two flushes: \<open>matching/batcher.go\<close> with the
  event records of \<open>matching/types.go\<close>.  Every order the batch mentions gets an index, the
  position of its entry in \<open>Orders\<close>; fills and updates refer to orders by that index.  The
  invariant \<open>batch_ok\<close> says that the index map and the entries agree and that every fill
  names two different entries.
\<close>

section \<open>Events\<close>

record ExecutionSnapshot =
  x_OrderID :: u64
  x_WalletAddress :: string
  x_OriginalAction :: string
  x_OriginalOutcome :: string
  x_OriginalPriceTick :: u8
  x_OrderType :: string
  x_NormalizedSide :: string
  x_NormalizedPriceTick :: u8
  x_QtyLots :: u64
  x_SpendAmount :: u64
  x_ExpireTime :: unixtime
  x_Nonce :: u64

record SettlementPayload =
  sp_IntentBytesHex :: string
  sp_Signature :: string

record MatchedOrder =
  m_OrderIndex :: u16
  m_OrderID :: u64
  m_Execution :: ExecutionSnapshot
  m_Settlement :: SettlementPayload
  m_CreatedAt :: unixtime
  m_CreatedCmdSeq :: u64

datatype MatchType = MatchMint | Transfer | MergeBurn

record MatchFill =
  f_FillIndex :: u32
  f_MakerOrderIndex :: u16
  f_TakerOrderIndex :: u16
  f_FillAmount :: u64
  f_FillPrice :: u64
  f_MatchType :: MatchType
  f_NotionalUnits :: u64
  f_TakerFeeUnits :: u64
  f_CreatorFeeUnits :: u64
  f_PlatformFeeUnits :: u64

record OrderUpdate =
  u_OrderIndex :: u16
  u_Status :: string
  u_RemainingQtyLots :: u64
  u_RemainingSpendAmount :: u64
  u_RefundAmount :: u64
  u_ReasonCode :: string

record DepthUpdate =
  d_Side :: string
  d_PriceTick :: u8
  d_TotalVolume :: u64

record MatchBatchEvent =
  EventID :: string
  SchemaVersion :: int
  ev_MarketID :: u64
  ev_MarketPDA :: string
  ProducedAt :: unixtime
  SourceCmdSeqMin :: u64
  SourceCmdSeqMax :: u64
  SourceCommandIDs :: "string list"
  TraceIDs :: "string list"
  ev_Orders :: "MatchedOrder list"
  Fills :: "MatchFill list"
  OrderUpdates :: "OrderUpdate list"
  DepthUpdates :: "DepthUpdate list"

section \<open>The pending batch\<close>

text \<open>Times inside the batcher are instants in nanoseconds; \<open>Unix()\<close> gives the second.\<close>

type_synonym instant = int

definition unixOf :: "instant \<Rightarrow> unixtime" where
  "unixOf t = t div 1000000000"

definition unixMilliOf :: "instant \<Rightarrow> int" where
  "unixMilliOf t = t div 1000000"

record BatchConfig =
  MaxFillsHot :: int
  MaxFillsCold :: int
  MaxOrders :: int
  MaxBytes :: int
  MaxAge :: int
  IdleFlush :: int
  FlushTick :: int

definition DefaultBatchConfig :: BatchConfig where
  "DefaultBatchConfig = \<lparr>MaxFillsHot = 64, MaxFillsCold = 16, MaxOrders = 96, MaxBytes = 262144,
     MaxAge = 40000000, IdleFlush = 15000000, FlushTick = 10000000\<rparr>"

record pendingBatch =
  event :: MatchBatchEvent
  orderIndex :: "u64 \<rightharpoonup> u16"
  fillIndex :: u32
  sizeBytes :: int
  startedAt :: instant
  lastAddAt :: instant
  wrappers :: "CommandWrapper list"
  seqs :: "u64 set"

definition newPendingBatch :: "u64 \<Rightarrow> string \<Rightarrow> instant \<Rightarrow> pendingBatch" where
  "newPendingBatch marketID marketPDA now = \<lparr>
     event = \<lparr>EventID = [], SchemaVersion = 1, ev_MarketID = marketID, ev_MarketPDA = marketPDA,
       ProducedAt = unixOf now, SourceCmdSeqMin = 0, SourceCmdSeqMax = 0, SourceCommandIDs = [],
       TraceIDs = [], ev_Orders = [], Fills = [], OrderUpdates = [], DepthUpdates = []\<rparr>,
     orderIndex = Map.empty, fillIndex = 0, sizeBytes = 0, startedAt = now, lastAddAt = now,
     wrappers = [], seqs = {}\<rparr>"

definition hasSeq :: "pendingBatch \<Rightarrow> u64 \<Rightarrow> bool" where
  "hasSeq b seq = (if seq = 0 then False else seq \<in> seqs b)"

definition appendUniqueString :: "string list \<Rightarrow> string \<Rightarrow> string list" where
  "appendUniqueString vals v = (if v \<in> set vals then vals else vals @ [v])"

definition includeWrapper :: "pendingBatch \<Rightarrow> CommandWrapper \<Rightarrow> instant \<Rightarrow> pendingBatch" where
  "includeWrapper b w now =
     (let b = b\<lparr>lastAddAt := now\<rparr>;
          s = w_SourceCmdSeq w;
          b = (if 0 < s then
                 (let e = event b;
                      e = (if SourceCmdSeqMin e = 0 \<or> s < SourceCmdSeqMin e
                           then e\<lparr>SourceCmdSeqMin := s\<rparr> else e);
                      e = (if SourceCmdSeqMax e < s then e\<lparr>SourceCmdSeqMax := s\<rparr> else e)
                  in b\<lparr>event := e, seqs := insert s (seqs b)\<rparr>)
               else b);
          b = b\<lparr>wrappers := wrappers b @ [w]\<rparr>
      in case w_Cmd w of
           PlaceOrder cmd \<Rightarrow>
             (let e = event b;
                  e = (if c_CommandID cmd \<noteq> []
                       then e\<lparr>SourceCommandIDs := appendUniqueString (SourceCommandIDs e) (c_CommandID cmd)\<rparr>
                       else e);
                  e = (if c_TraceID cmd \<noteq> []
                       then e\<lparr>TraceIDs := appendUniqueString (TraceIDs e) (c_TraceID cmd)\<rparr> else e);
                  e = (if ev_MarketPDA e = [] then e\<lparr>ev_MarketPDA := c_MarketPDA cmd\<rparr> else e)
              in b\<lparr>event := e\<rparr>)
         | _ \<Rightarrow> b)"

definition sideLabelForDepth :: "u8 \<Rightarrow> string" where
  "sideLabelForDepth side = (if side = SideSell then ''ask'' else ''bid'')"

definition sideString :: "u8 \<Rightarrow> string" where
  "sideString side = (if side = SideSell then ''sell'' else ''buy'')"

definition outcomeString :: "u8 \<Rightarrow> string" where
  "outcomeString outcome = (if outcome = 1 then ''no'' else ''yes'')"

definition orderTypeString :: "u8 \<Rightarrow> string" where
  "orderTypeString orderType = (if orderType = OrderTypeMarket then ''market'' else ''limit'')"

definition classifyMatchType :: "MemoryOrder \<Rightarrow> MemoryOrder \<Rightarrow> MatchType" where
  "classifyMatchType a b =
     (if OriginalAction a = SideBuy \<and> OriginalAction b = SideBuy then MatchMint
      else if OriginalAction a = SideSell \<and> OriginalAction b = SideSell then MergeBurn
      else Transfer)"

definition executionSnapshotFromCommand :: "PlaceOrderCommand \<Rightarrow> ExecutionSnapshot" where
  "executionSnapshotFromCommand cmd = \<lparr>
     x_OrderID = c_OrderID cmd, x_WalletAddress = c_WalletAddress cmd,
     x_OriginalAction = sideString (c_OriginalAction cmd),
     x_OriginalOutcome = outcomeString (c_OriginalOutcome cmd),
     x_OriginalPriceTick = c_OriginalPriceTick cmd, x_OrderType = orderTypeString (c_OrderType cmd),
     x_NormalizedSide = sideString (c_Side cmd), x_NormalizedPriceTick = c_PriceTick cmd,
     x_QtyLots = c_QtyLots cmd, x_SpendAmount = c_SpendAmount cmd,
     x_ExpireTime = c_ExpireTime cmd, x_Nonce = c_Nonce cmd\<rparr>"

definition executionSnapshotFromOrder :: "MemoryOrder \<Rightarrow> ExecutionSnapshot" where
  "executionSnapshotFromOrder ord = \<lparr>
     x_OrderID = OrderID ord, x_WalletAddress = WalletAddress ord,
     x_OriginalAction = sideString (OriginalAction ord),
     x_OriginalOutcome = outcomeString (OriginalOutcome ord),
     x_OriginalPriceTick = OriginalPriceTick ord, x_OrderType = orderTypeString (OrderType ord),
     x_NormalizedSide = sideString (Side ord), x_NormalizedPriceTick = PriceTick ord,
     x_QtyLots = RemainingQty ord, x_SpendAmount = RemainingSpend ord,
     x_ExpireTime = ExpireTime ord, x_Nonce = Nonce ord\<rparr>"

definition ensureOrder :: "pendingBatch \<Rightarrow> MemoryOrder \<Rightarrow> unixtime \<Rightarrow> u16 \<times> pendingBatch" where
  "ensureOrder b ord createdAt =
     (let createdAt = (if createdAt = 0 then Timestamp ord else createdAt)
      in case orderIndex b (OrderID ord) of
           Some idx \<Rightarrow> (idx, b)
         | None \<Rightarrow>
             (let idx = of_nat (length (ev_Orders (event b)));
                  entry = \<lparr>m_OrderIndex = idx, m_OrderID = OrderID ord,
                    m_Execution = executionSnapshotFromOrder ord,
                    m_Settlement = \<lparr>sp_IntentBytesHex = IntentBytesHex ord, sp_Signature = Signature ord\<rparr>,
                    m_CreatedAt = createdAt, m_CreatedCmdSeq = CreatedCmdSeq ord\<rparr>
              in (idx, b\<lparr>orderIndex := (orderIndex b)(OrderID ord \<mapsto> idx),
                         event := (event b)\<lparr>ev_Orders := ev_Orders (event b) @ [entry]\<rparr>,
                         sizeBytes := sizeBytes b + 256\<rparr>)))"

definition ensureOrderFromCommand :: "pendingBatch \<Rightarrow> PlaceOrderCommand \<Rightarrow> u16 \<times> pendingBatch" where
  "ensureOrderFromCommand b cmd =
     (case orderIndex b (c_OrderID cmd) of
        Some idx \<Rightarrow> (idx, b)
      | None \<Rightarrow>
          (let idx = of_nat (length (ev_Orders (event b)));
               entry = \<lparr>m_OrderIndex = idx, m_OrderID = c_OrderID cmd,
                 m_Execution = executionSnapshotFromCommand cmd,
                 m_Settlement = \<lparr>sp_IntentBytesHex = c_IntentBytesHex cmd, sp_Signature = c_Signature cmd\<rparr>,
                 m_CreatedAt = c_Timestamp cmd, m_CreatedCmdSeq = c_SourceCmdSeq cmd\<rparr>
           in (idx, b\<lparr>orderIndex := (orderIndex b)(c_OrderID cmd \<mapsto> idx),
                      event := (event b)\<lparr>ev_Orders := ev_Orders (event b) @ [entry]\<rparr>,
                      sizeBytes := sizeBytes b + 256\<rparr>)))"

definition addFill :: "pendingBatch \<Rightarrow> MemoryOrder \<Rightarrow> MemoryOrder \<Rightarrow> u8 \<Rightarrow> u64 \<Rightarrow> pendingBatch" where
  "addFill b maker taker price qty =
     (let (makerIdx, b) = ensureOrder b maker 0;
          (takerIdx, b) = ensureOrder b taker 0;
          fill = \<lparr>f_FillIndex = fillIndex b, f_MakerOrderIndex = makerIdx,
            f_TakerOrderIndex = takerIdx, f_FillAmount = qty, f_FillPrice = ucast price,
            f_MatchType = classifyMatchType maker taker,
            f_NotionalUnits = actualUnitsForOrder taker qty price,
            f_TakerFeeUnits = 0, f_CreatorFeeUnits = 0, f_PlatformFeeUnits = 0\<rparr>
      in b\<lparr>event := (event b)\<lparr>Fills := Fills (event b) @ [fill]\<rparr>,
           fillIndex := fillIndex b + 1, sizeBytes := sizeBytes b + 128\<rparr>)"

definition pushOrderUpdate ::
  "pendingBatch \<Rightarrow> u16 \<Rightarrow> string \<Rightarrow> u64 \<Rightarrow> u64 \<Rightarrow> u64 \<Rightarrow> string \<Rightarrow> pendingBatch" where
  "pushOrderUpdate b idx status remainingQty remainingSpend refund reason =
     b\<lparr>event := (event b)\<lparr>OrderUpdates := OrderUpdates (event b) @
           [\<lparr>u_OrderIndex = idx, u_Status = status, u_RemainingQtyLots = remainingQty,
             u_RemainingSpendAmount = remainingSpend, u_RefundAmount = refund,
             u_ReasonCode = reason\<rparr>]\<rparr>,
       sizeBytes := sizeBytes b + 64\<rparr>"

definition addOrderUpdateForCommand ::
  "pendingBatch \<Rightarrow> PlaceOrderCommand \<Rightarrow> string \<Rightarrow> u64 \<Rightarrow> u64 \<Rightarrow> u64 \<Rightarrow> string \<Rightarrow> pendingBatch" where
  "addOrderUpdateForCommand b cmd status remainingQty remainingSpend refund reason =
     (let (idx, b) = ensureOrderFromCommand b cmd
      in pushOrderUpdate b idx status remainingQty remainingSpend refund reason)"

definition addOrderUpdateForOrder ::
  "pendingBatch \<Rightarrow> MemoryOrder \<Rightarrow> string \<Rightarrow> u64 \<Rightarrow> u64 \<Rightarrow> u64 \<Rightarrow> string \<Rightarrow> pendingBatch" where
  "addOrderUpdateForOrder b ord status remainingQty remainingSpend refund reason =
     (let (idx, b) = ensureOrder b ord 0
      in pushOrderUpdate b idx status remainingQty remainingSpend refund reason)"

definition addDepthUpdate :: "pendingBatch \<Rightarrow> u8 \<Rightarrow> u8 \<Rightarrow> u64 \<Rightarrow> pendingBatch" where
  "addDepthUpdate b side price volume =
     b\<lparr>event := (event b)\<lparr>DepthUpdates := DepthUpdates (event b) @
           [\<lparr>d_Side = sideLabelForDepth side, d_PriceTick = price, d_TotalVolume = volume\<rparr>]\<rparr>,
       sizeBytes := sizeBytes b + 32\<rparr>"

definition hasPayload :: "pendingBatch \<Rightarrow> bool" where
  "hasPayload b \<longleftrightarrow> Fills (event b) \<noteq> [] \<or> OrderUpdates (event b) \<noteq> [] \<or> DepthUpdates (event b) \<noteq> []"

definition shouldFlush :: "pendingBatch \<Rightarrow> instant \<Rightarrow> BatchConfig \<Rightarrow> int \<Rightarrow> bool \<Rightarrow> bool" where
  "shouldFlush b now cfg maxFills forceIdle =
     (if \<not> hasPayload b then False
      else let maxFills = (if maxFills \<le> 0 then MaxFillsHot cfg else maxFills) in
        if 0 < maxFills \<and> maxFills \<le> int (length (Fills (event b))) then True
        else if 0 < MaxOrders cfg \<and> MaxOrders cfg \<le> int (length (ev_Orders (event b))) then True
        else if 0 < MaxBytes cfg \<and> MaxBytes cfg \<le> sizeBytes b then True
        else if 0 < MaxAge cfg \<and> MaxAge cfg \<le> now - startedAt b then True
        else forceIdle \<and> 0 < IdleFlush cfg \<and> IdleFlush cfg \<le> now - lastAddAt b)"

text \<open>FNV-1a, 64 bit (\<open>hash/fnv\<close>): the digest of the event identifiers.\<close>

definition fnv64a :: "string \<Rightarrow> u64" where
  "fnv64a s = foldl (\<lambda>h c. (h XOR of_char c) * 1099511628211) 14695981039346656037 s"

definition digestOrders :: "MatchedOrder list \<Rightarrow> string" where
  "digestOrders os = concat (map (\<lambda>o1. FormatUint10 (m_OrderID o1) @ '':'' @
     x_NormalizedSide (m_Execution o1) @ '':'' @
     FormatUint10 (ucast (x_NormalizedPriceTick (m_Execution o1))) @ '';'') os)"

definition digestUpdates :: "OrderUpdate list \<Rightarrow> string" where
  "digestUpdates us = concat (map (\<lambda>u. FormatUint10 (ucast (u_OrderIndex u)) @ '':'' @
     u_Status u @ '':'' @ FormatUint10 (u_RemainingQtyLots u) @ '':'' @
     FormatUint10 (u_RemainingSpendAmount u) @ '':'' @ FormatUint10 (u_RefundAmount u) @ '';'') us)"

definition digestDepths :: "DepthUpdate list \<Rightarrow> string" where
  "digestDepths ds = concat (map (\<lambda>d. d_Side d @ '':'' @ FormatUint10 (ucast (d_PriceTick d)) @ '':'' @
     FormatUint10 (d_TotalVolume d) @ '';'') ds)"

text \<open>\<open>strconv.FormatInt\<close> of a Unix time in milliseconds.\<close>

definition FormatInt10 :: "int \<Rightarrow> string" where
  "FormatInt10 i = (if i < 0 then ''-'' @ digitsBase 10 (nat (- i)) else digitsBase 10 (nat i))"

text \<open>The code copies the keys of the sequence set into a slice, in the unspecified order of a
  Go map iteration, and sorts the slice by exchanging entries: entry \<open>i\<close> ends as the least of
  the entries from \<open>i\<close> on.  The iteration order is the parameter \<open>iter\<close>.\<close>

fun exchangeMin :: "u64 \<Rightarrow> u64 list \<Rightarrow> u64 \<times> u64 list" where
  "exchangeMin x [] = (x, [])"
| "exchangeMin x (y # ys) =
     (if y < x then (let (m, r) = exchangeMin y ys in (m, x # r))
      else (let (m, r) = exchangeMin x ys in (m, y # r)))"

lemma exchangeMin_length: "exchangeMin x ys = (m, r) \<Longrightarrow> length r = length ys"
  by (induction ys arbitrary: x m r) (auto split: if_splits prod.splits)

function exchangeSort :: "u64 list \<Rightarrow> u64 list" where
  "exchangeSort [] = []"
| "exchangeSort (x # xs) = fst (exchangeMin x xs) # exchangeSort (snd (exchangeMin x xs))"
  by pat_completeness auto
termination
  by (relation "measure length") (auto simp: exchangeMin_length [OF surjective_pairing])

definition generateBatchEventID ::
  "(u64 set \<Rightarrow> u64 list) \<Rightarrow> MatchBatchEvent \<Rightarrow> u64 set \<Rightarrow> instant \<Rightarrow> string" where
  "generateBatchEventID iter ev sqs now =
     (if sqs = {} \<or> SourceCmdSeqMax ev = 0 then
        (if ev_Orders ev = [] \<and> OrderUpdates ev = [] \<and> DepthUpdates ev = []
         then ''match-batch-'' @ FormatUint10 (ev_MarketID ev) @ ''-tick-'' @ FormatInt10 (unixMilliOf now)
         else ''match-batch-'' @ FormatUint10 (ev_MarketID ev) @ ''-tick-'' @
           FormatUint16 (fnv64a (digestOrders (ev_Orders ev) @ digestUpdates (OrderUpdates ev) @
                                 digestDepths (DepthUpdates ev))))
      else ''match-batch-'' @ FormatUint10 (ev_MarketID ev) @ ''-'' @ FormatUint10 (SourceCmdSeqMin ev) @
        ''-'' @ FormatUint10 (SourceCmdSeqMax ev) @ ''-'' @
        FormatUint16 (fnv64a (concat (map (\<lambda>s. FormatUint10 s @ '':'') (exchangeSort (iter sqs))))))"

definition freeze :: "(u64 set \<Rightarrow> u64 list) \<Rightarrow> pendingBatch \<Rightarrow> instant \<Rightarrow> MatchBatchEvent" where
  "freeze iter b now = (event b)\<lparr>EventID := generateBatchEventID iter (event b) (seqs b) now,
                                 ProducedAt := unixOf now\<rparr>"

section \<open>What the operations leave alone\<close>

lemma ensureOrder_frame [frame]:
  "Fills (event (snd (ensureOrder b ord t))) = Fills (event b)"
  "OrderUpdates (event (snd (ensureOrder b ord t))) = OrderUpdates (event b)"
  "DepthUpdates (event (snd (ensureOrder b ord t))) = DepthUpdates (event b)"
  "fillIndex (snd (ensureOrder b ord t)) = fillIndex b"
  "seqs (snd (ensureOrder b ord t)) = seqs b"
  "wrappers (snd (ensureOrder b ord t)) = wrappers b"
  "ev_MarketID (event (snd (ensureOrder b ord t))) = ev_MarketID (event b)"
  "SourceCmdSeqMax (event (snd (ensureOrder b ord t))) = SourceCmdSeqMax (event b)"
  "SourceCmdSeqMin (event (snd (ensureOrder b ord t))) = SourceCmdSeqMin (event b)"
  "SchemaVersion (event (snd (ensureOrder b ord t))) = SchemaVersion (event b)"
  by (simp_all add: ensureOrder_def Let_def split: option.split)

lemma ensureOrder_index:
  "orderIndex (snd (ensureOrder b ord t)) (OrderID ord) = Some (fst (ensureOrder b ord t))"
  "orderIndex b k = Some j \<Longrightarrow> orderIndex (snd (ensureOrder b ord t)) k = Some j"
  "dom (orderIndex (snd (ensureOrder b ord t))) = insert (OrderID ord) (dom (orderIndex b))"
  by (auto simp: ensureOrder_def Let_def split: option.split)

definition fillOf :: "pendingBatch \<Rightarrow> MemoryOrder \<Rightarrow> MemoryOrder \<Rightarrow> u8 \<Rightarrow> u64 \<Rightarrow> MatchFill" where
  "fillOf b maker taker price qty =
     (let (i, b1) = ensureOrder b maker 0; (j, b2) = ensureOrder b1 taker 0 in
      \<lparr>f_FillIndex = fillIndex b, f_MakerOrderIndex = i, f_TakerOrderIndex = j,
       f_FillAmount = qty, f_FillPrice = ucast price, f_MatchType = classifyMatchType maker taker,
       f_NotionalUnits = actualUnitsForOrder taker qty price,
       f_TakerFeeUnits = 0, f_CreatorFeeUnits = 0, f_PlatformFeeUnits = 0\<rparr>)"

lemma fillOf_sel [simp]:
  "f_FillAmount (fillOf b maker taker p q) = q"
  "f_FillPrice (fillOf b maker taker p q) = ucast p"
  "f_NotionalUnits (fillOf b maker taker p q) = actualUnitsForOrder taker q p"
  "f_MatchType (fillOf b maker taker p q) = classifyMatchType maker taker"
  by (simp_all add: fillOf_def case_prod_beta Let_def)

lemma addFill_fills [simp]:
  "Fills (event (addFill b maker taker p q)) = Fills (event b) @ [fillOf b maker taker p q]"
  by (simp add: addFill_def fillOf_def case_prod_beta Let_def frame)

lemma addFill_frame [frame]:
  "OrderUpdates (event (addFill b maker taker p q)) = OrderUpdates (event b)"
  "DepthUpdates (event (addFill b maker taker p q)) = DepthUpdates (event b)"
  "seqs (addFill b maker taker p q) = seqs b"
  "wrappers (addFill b maker taker p q) = wrappers b"
  "ev_MarketID (event (addFill b maker taker p q)) = ev_MarketID (event b)"
  "fillIndex (addFill b maker taker p q) = fillIndex b + 1"
  by (simp_all add: addFill_def case_prod_beta Let_def frame)

lemma addOrderUpdateForOrder_frame [frame]:
  "Fills (event (addOrderUpdateForOrder b ord st q s r why)) = Fills (event b)"
  "DepthUpdates (event (addOrderUpdateForOrder b ord st q s r why)) = DepthUpdates (event b)"
  "fillIndex (addOrderUpdateForOrder b ord st q s r why) = fillIndex b"
  "seqs (addOrderUpdateForOrder b ord st q s r why) = seqs b"
  "wrappers (addOrderUpdateForOrder b ord st q s r why) = wrappers b"
  "ev_MarketID (event (addOrderUpdateForOrder b ord st q s r why)) = ev_MarketID (event b)"
  by (simp_all add: addOrderUpdateForOrder_def pushOrderUpdate_def case_prod_beta Let_def frame)

lemma addDepthUpdate_frame [frame]:
  "Fills (event (addDepthUpdate b side p v)) = Fills (event b)"
  "OrderUpdates (event (addDepthUpdate b side p v)) = OrderUpdates (event b)"
  "ev_Orders (event (addDepthUpdate b side p v)) = ev_Orders (event b)"
  "orderIndex (addDepthUpdate b side p v) = orderIndex b"
  "fillIndex (addDepthUpdate b side p v) = fillIndex b"
  "seqs (addDepthUpdate b side p v) = seqs b"
  "wrappers (addDepthUpdate b side p v) = wrappers b"
  "ev_MarketID (event (addDepthUpdate b side p v)) = ev_MarketID (event b)"
  by (simp_all add: addDepthUpdate_def)

section \<open>Well-formed batches\<close>

text \<open>The index map sends an order id to the position of its entry, and every entry carries its
  own position; fills and updates name existing entries.  The \<open>uint16\<close> index does not wrap
  while the batch holds at most \<open>2^16\<close> orders.\<close>

definition entries_ok :: "pendingBatch \<Rightarrow> bool" where
  "entries_ok b \<longleftrightarrow>
     (\<forall>i < length (ev_Orders (event b)).
        m_OrderIndex (ev_Orders (event b) ! i) = of_nat i \<and>
        orderIndex b (m_OrderID (ev_Orders (event b) ! i)) = Some (of_nat i) \<and>
        x_OrderID (m_Execution (ev_Orders (event b) ! i)) = m_OrderID (ev_Orders (event b) ! i)) \<and>
     (\<forall>k j. orderIndex b k = Some j \<longrightarrow>
        (\<exists>i < length (ev_Orders (event b)). j = of_nat i \<and> m_OrderID (ev_Orders (event b) ! i) = k))"

definition fits :: "pendingBatch \<Rightarrow> bool" where
  "fits b \<longleftrightarrow> length (ev_Orders (event b)) \<le> 65536"

definition fill_refs_ok :: "pendingBatch \<Rightarrow> MatchFill \<Rightarrow> bool" where
  "fill_refs_ok b f \<longleftrightarrow>
     unat (f_MakerOrderIndex f) < length (ev_Orders (event b)) \<and>
     unat (f_TakerOrderIndex f) < length (ev_Orders (event b)) \<and>
     f_MakerOrderIndex f \<noteq> f_TakerOrderIndex f"

definition batch_ok :: "pendingBatch \<Rightarrow> bool" where
  "batch_ok b \<longleftrightarrow> entries_ok b \<and> (\<forall>f \<in> set (Fills (event b)). fill_refs_ok b f) \<and>
     (\<forall>u \<in> set (OrderUpdates (event b)). unat (u_OrderIndex u) < length (ev_Orders (event b)))"

lemma newPendingBatch_ok [invs]: "batch_ok (newPendingBatch m pda t)"
  by (simp add: newPendingBatch_def batch_ok_def entries_ok_def)

lemma unat_of_nat_u16: "i < 65536 \<Longrightarrow> unat (of_nat i :: u16) = i"
  by (simp add: unsigned_of_nat take_bit_nat_eq_self_iff)

lemma ensureOrder_orders:
  "ev_Orders (event (snd (ensureOrder b ord t))) =
     ev_Orders (event b) @
     (if orderIndex b (OrderID ord) = None
      then [\<lparr>m_OrderIndex = of_nat (length (ev_Orders (event b))), m_OrderID = OrderID ord,
             m_Execution = executionSnapshotFromOrder ord,
             m_Settlement = \<lparr>sp_IntentBytesHex = IntentBytesHex ord, sp_Signature = Signature ord\<rparr>,
             m_CreatedAt = (if t = 0 then Timestamp ord else t), m_CreatedCmdSeq = CreatedCmdSeq ord\<rparr>]
      else [])"
  by (auto simp: ensureOrder_def Let_def split: option.split)

lemma ensureOrder_length:
  "length (ev_Orders (event b)) \<le> length (ev_Orders (event (snd (ensureOrder b ord t))))"
  "length (ev_Orders (event (snd (ensureOrder b ord t)))) \<le> Suc (length (ev_Orders (event b)))"
  by (simp_all add: ensureOrder_orders)

lemma entries_okD:
  assumes "entries_ok b" "orderIndex b k = Some j" "fits b"
  shows "unat j < length (ev_Orders (event b))" "m_OrderID (ev_Orders (event b) ! unat j) = k"
proof -
  obtain i where i: "i < length (ev_Orders (event b))" "j = of_nat i"
    "m_OrderID (ev_Orders (event b) ! i) = k"
    using assms(1,2) unfolding entries_ok_def by blast
  then have "unat j = i" using assms(3) by (simp add: fits_def unat_of_nat_u16)
  with i show "unat j < length (ev_Orders (event b))" "m_OrderID (ev_Orders (event b) ! unat j) = k"
    by simp_all
qed

lemma entries_ok_push:
  assumes ok: "entries_ok b" and new: "orderIndex b k = None"
    and e: "m_OrderIndex e = of_nat (length (ev_Orders (event b)))" "m_OrderID e = k"
      "x_OrderID (m_Execution e) = k"
    and b': "orderIndex b' = (orderIndex b)(k \<mapsto> of_nat (length (ev_Orders (event b))))"
      "ev_Orders (event b') = ev_Orders (event b) @ [e]"
  shows "entries_ok b'"
proof -
  let ?os = "ev_Orders (event b)" and ?os' = "ev_Orders (event b')"
  have old: "m_OrderID (?os ! i) \<noteq> k" if "i < length ?os" for i
    using ok that new by (auto simp: entries_ok_def)
  have at: "?os' ! i = ?os ! i" if "i < length ?os" for i
    using that b'(2) by (simp add: nth_append)
  have last: "?os' ! length ?os = e" and len: "length ?os' = Suc (length ?os)"
    using b'(2) by simp_all
  show ?thesis
    unfolding entries_ok_def
  proof (intro conjI allI impI)
    fix i assume "i < length ?os'"
    then consider "i < length ?os" | "i = length ?os" using len by linarith
    then show "m_OrderIndex (?os' ! i) = of_nat i"
      and "orderIndex b' (m_OrderID (?os' ! i)) = Some (of_nat i)"
      and "x_OrderID (m_Execution (?os' ! i)) = m_OrderID (?os' ! i)"
      using ok e b'(1) by (cases; auto simp: at last old entries_ok_def)+
  next
    fix k' j assume j: "orderIndex b' k' = Some j"
    show "\<exists>i < length ?os'. j = of_nat i \<and> m_OrderID (?os' ! i) = k'"
    proof (cases "k' = k")
      case True
      with j b'(1) e last len show ?thesis by auto
    next
      case False
      with j b'(1) have "orderIndex b k' = Some j" by simp
      then obtain i where "i < length ?os" "j = of_nat i" "m_OrderID (?os ! i) = k'"
        using ok unfolding entries_ok_def by blast
      with at len show ?thesis by (metis less_Suc_eq)
    qed
  qed
qed

lemma ensureOrder_entries_ok [invs]:
  assumes "entries_ok b"
  shows "entries_ok (snd (ensureOrder b ord t))"
proof (cases "orderIndex b (OrderID ord)")
  case (Some j)
  then show ?thesis using assms by (simp add: ensureOrder_def Let_def)
next
  case None
  with assms show ?thesis
    by (intro entries_ok_push [OF assms None])
       (auto simp: ensureOrder_def Let_def executionSnapshotFromOrder_def)
qed

lemma ensureOrderFromCommand_entries_ok [invs]:
  assumes "entries_ok b"
  shows "entries_ok (snd (ensureOrderFromCommand b cmd))"
proof (cases "orderIndex b (c_OrderID cmd)")
  case (Some j)
  then show ?thesis using assms by (simp add: ensureOrderFromCommand_def)
next
  case None
  with assms show ?thesis
    by (intro entries_ok_push [OF assms None])
       (auto simp: ensureOrderFromCommand_def Let_def executionSnapshotFromCommand_def)
qed

lemma pushOrderUpdate_sel [simp]:
  "ev_Orders (event (pushOrderUpdate b i st q s r why)) = ev_Orders (event b)"
  "orderIndex (pushOrderUpdate b i st q s r why) = orderIndex b"
  "Fills (event (pushOrderUpdate b i st q s r why)) = Fills (event b)"
  "map u_OrderIndex (OrderUpdates (event (pushOrderUpdate b i st q s r why))) =
     map u_OrderIndex (OrderUpdates (event b)) @ [i]"
  by (simp_all add: pushOrderUpdate_def)

lemma entries_ok_cong:
  "ev_Orders (event b') = ev_Orders (event b) \<Longrightarrow> orderIndex b' = orderIndex b \<Longrightarrow>
     entries_ok b' = entries_ok b"
  by (simp add: entries_ok_def)

lemma fits_mono:
  "length (ev_Orders (event b)) \<le> length (ev_Orders (event b')) \<Longrightarrow> fits b' \<Longrightarrow> fits b"
  by (simp add: fits_def)

lemma fill_refs_ok_mono:
  "length (ev_Orders (event b)) \<le> length (ev_Orders (event b')) \<Longrightarrow> fill_refs_ok b f \<Longrightarrow> fill_refs_ok b' f"
  by (auto simp: fill_refs_ok_def)

text \<open>\<open>batch_ok\<close> in the two index lists it speaks of, so that preservation is a fact about
  growing lists.\<close>

lemma batch_ok_step:
  assumes "batch_ok b" "entries_ok b'"
    and "length (ev_Orders (event b)) \<le> length (ev_Orders (event b'))"
    and "set (Fills (event b')) \<subseteq> set (Fills (event b)) \<union> {f. fill_refs_ok b' f}"
    and "set (map u_OrderIndex (OrderUpdates (event b'))) \<subseteq>
           set (map u_OrderIndex (OrderUpdates (event b))) \<union> {i. unat i < length (ev_Orders (event b'))}"
  shows "batch_ok b'"
  unfolding batch_ok_def
proof (intro conjI ballI)
  show "entries_ok b'" by fact
next
  fix f assume "f \<in> set (Fills (event b'))"
  with assms(4) have "f \<in> set (Fills (event b)) \<or> fill_refs_ok b' f" by blast
  then show "fill_refs_ok b' f"
    using assms(1) fill_refs_ok_mono [OF assms(3)] by (auto simp: batch_ok_def)
next
  fix u assume "u \<in> set (OrderUpdates (event b'))"
  then have "u_OrderIndex u \<in> set (map u_OrderIndex (OrderUpdates (event b')))" by simp
  with assms(5) have "u_OrderIndex u \<in> set (map u_OrderIndex (OrderUpdates (event b))) \<or>
      unat (u_OrderIndex u) < length (ev_Orders (event b'))" by blast
  then show "unat (u_OrderIndex u) < length (ev_Orders (event b'))"
    using assms(1,3) by (force simp: batch_ok_def)
qed

lemma addFill_as_ensure:
  "ev_Orders (event (addFill b maker taker p q)) =
     ev_Orders (event (snd (ensureOrder (snd (ensureOrder b maker 0)) taker 0)))"
  "orderIndex (addFill b maker taker p q) =
     orderIndex (snd (ensureOrder (snd (ensureOrder b maker 0)) taker 0))"
  by (simp_all add: addFill_def case_prod_beta Let_def)

lemma addFill_entries_ok [invs]:
  "entries_ok b \<Longrightarrow> entries_ok (addFill b maker taker p q)"
  by (subst entries_ok_cong [OF addFill_as_ensure]) (intro ensureOrder_entries_ok)

lemma addFill_length:
  "length (ev_Orders (event b)) \<le> length (ev_Orders (event (addFill b maker taker p q)))"
  unfolding addFill_as_ensure using ensureOrder_length(1) order_trans by blast

lemma fillOf_refs_ok:
  assumes "entries_ok b" "OrderID maker \<noteq> OrderID taker" "fits (addFill b maker taker p q)"
  shows "fill_refs_ok (addFill b maker taker p q) (fillOf b maker taker p q)"
proof -
  let ?b1 = "snd (ensureOrder b maker 0)" and ?i = "fst (ensureOrder b maker 0)"
  let ?b2 = "snd (ensureOrder ?b1 taker 0)" and ?j = "fst (ensureOrder ?b1 taker 0)"
  have ok2: "entries_ok ?b2" using assms(1) by (intro ensureOrder_entries_ok)
  have fit: "fits ?b2" using assms(3) by (simp add: fits_def addFill_as_ensure)
  have i: "orderIndex ?b2 (OrderID maker) = Some ?i"
    by (intro ensureOrder_index(2) ensureOrder_index(1))
  have j: "orderIndex ?b2 (OrderID taker) = Some ?j"
    by (rule ensureOrder_index(1))
  note I = entries_okD [OF ok2 i fit] and J = entries_okD [OF ok2 j fit]
  from I J assms(2) have "?i \<noteq> ?j" by metis
  with I J show ?thesis
    by (simp add: fill_refs_ok_def fillOf_def case_prod_beta Let_def addFill_as_ensure)
qed

lemma addFill_batch_ok [invs]:
  assumes "batch_ok b" "OrderID maker \<noteq> OrderID taker" "fits (addFill b maker taker p q)"
  shows "batch_ok (addFill b maker taker p q)"
  using assms
  by (intro batch_ok_step [OF assms(1)])
     (auto simp: batch_ok_def frame invs addFill_length fillOf_refs_ok)

lemma addOrderUpdateForOrder_as_ensure:
  "ev_Orders (event (addOrderUpdateForOrder b ord st q s r why)) = ev_Orders (event (snd (ensureOrder b ord 0)))"
  "orderIndex (addOrderUpdateForOrder b ord st q s r why) = orderIndex (snd (ensureOrder b ord 0))"
  "map u_OrderIndex (OrderUpdates (event (addOrderUpdateForOrder b ord st q s r why))) =
     map u_OrderIndex (OrderUpdates (event b)) @ [fst (ensureOrder b ord 0)]"
  by (simp_all add: addOrderUpdateForOrder_def case_prod_beta Let_def frame)

lemma addOrderUpdateForOrder_length:
  "length (ev_Orders (event b)) \<le> length (ev_Orders (event (addOrderUpdateForOrder b ord st q s r why)))"
  by (simp add: addOrderUpdateForOrder_as_ensure ensureOrder_length)

lemma addOrderUpdateForOrder_batch_ok [invs]:
  assumes "batch_ok b" "fits (addOrderUpdateForOrder b ord st q s r why)"
  shows "batch_ok (addOrderUpdateForOrder b ord st q s r why)"
proof (rule batch_ok_step [OF assms(1)])
  let ?b1 = "snd (ensureOrder b ord 0)"
  have ok: "entries_ok ?b1" using assms(1) by (simp add: batch_ok_def invs)
  then show "entries_ok (addOrderUpdateForOrder b ord st q s r why)"
    by (simp only: entries_ok_cong [OF addOrderUpdateForOrder_as_ensure(1,2)])
  have "fits ?b1" using assms(2) by (simp add: fits_def addOrderUpdateForOrder_as_ensure)
  then show "set (map u_OrderIndex (OrderUpdates (event (addOrderUpdateForOrder b ord st q s r why))))
      \<subseteq> set (map u_OrderIndex (OrderUpdates (event b))) \<union>
        {i. unat i < length (ev_Orders (event (addOrderUpdateForOrder b ord st q s r why)))}"
    using entries_okD(1) [OF ok ensureOrder_index(1)]
    by (auto simp: addOrderUpdateForOrder_as_ensure)
qed (simp_all add: frame addOrderUpdateForOrder_length)

lemma addOrderUpdateForCommand_as_ensure:
  "ev_Orders (event (addOrderUpdateForCommand b cmd st q s r why)) =
     ev_Orders (event (snd (ensureOrderFromCommand b cmd)))"
  "orderIndex (addOrderUpdateForCommand b cmd st q s r why) = orderIndex (snd (ensureOrderFromCommand b cmd))"
  by (simp_all add: addOrderUpdateForCommand_def case_prod_beta Let_def)

lemma addOrderUpdateForCommand_frame [frame]:
  "Fills (event (addOrderUpdateForCommand b cmd st q s r why)) = Fills (event b)"
  "DepthUpdates (event (addOrderUpdateForCommand b cmd st q s r why)) = DepthUpdates (event b)"
  by (auto simp: addOrderUpdateForCommand_def ensureOrderFromCommand_def pushOrderUpdate_def
      case_prod_beta Let_def split: option.split)

lemma addOrderUpdateForCommand_batch_ok [invs]:
  assumes "batch_ok b" "fits (addOrderUpdateForCommand b cmd st q s r why)"
  shows "batch_ok (addOrderUpdateForCommand b cmd st q s r why)"
proof (rule batch_ok_step [OF assms(1)])
  let ?b1 = "snd (ensureOrderFromCommand b cmd)" and ?i = "fst (ensureOrderFromCommand b cmd)"
  have ok: "entries_ok ?b1" using assms(1) by (simp add: batch_ok_def invs)
  then show "entries_ok (addOrderUpdateForCommand b cmd st q s r why)"
    by (simp only: entries_ok_cong [OF addOrderUpdateForCommand_as_ensure])
  have idx: "orderIndex ?b1 (c_OrderID cmd) = Some ?i"
    by (auto simp: ensureOrderFromCommand_def Let_def split: option.split)
  have upd: "OrderUpdates (event ?b1) = OrderUpdates (event b)"
    by (auto simp: ensureOrderFromCommand_def Let_def split: option.split)
  have "fits ?b1" using assms(2) by (simp add: fits_def addOrderUpdateForCommand_as_ensure)
  then show "set (map u_OrderIndex (OrderUpdates (event (addOrderUpdateForCommand b cmd st q s r why))))
      \<subseteq> set (map u_OrderIndex (OrderUpdates (event b))) \<union>
        {i. unat i < length (ev_Orders (event (addOrderUpdateForCommand b cmd st q s r why)))}"
    using entries_okD(1) [OF ok idx] upd
    by (auto simp: addOrderUpdateForCommand_def case_prod_beta Let_def pushOrderUpdate_def)
  show "length (ev_Orders (event b)) \<le> length (ev_Orders (event (addOrderUpdateForCommand b cmd st q s r why)))"
    by (auto simp: addOrderUpdateForCommand_as_ensure ensureOrderFromCommand_def Let_def split: option.split)
qed (simp add: frame)

lemma addDepthUpdate_batch_ok [invs]: "batch_ok b \<Longrightarrow> batch_ok (addDepthUpdate b side p v)"
  by (simp add: batch_ok_def frame entries_ok_def fill_refs_ok_def)

section \<open>Event identifiers\<close>

lemma exchangeMin_spec:
  "exchangeMin x ys = (m, r) \<Longrightarrow> mset (m # r) = mset (x # ys) \<and> (\<forall>z \<in> set (x # ys). m \<le> z)"
proof (induction x ys arbitrary: m r rule: exchangeMin.induct)
  case (1 x)
  then show ?case by simp
next
  case (2 x y ys)
  show ?case
  proof (cases "y < x")
    case True
    then obtain r' where "exchangeMin y ys = (m, r')" "r = x # r'"
      using "2.prems" by (auto split: prod.splits)
    with "2.IH"(1) [OF True] True show ?thesis by fastforce
  next
    case False
    then obtain r' where "exchangeMin x ys = (m, r')" "r = y # r'"
      using "2.prems" by (auto split: prod.splits)
    with "2.IH"(2) [OF False] False show ?thesis by fastforce
  qed
qed

lemma exchangeSort_spec: "mset (exchangeSort xs) = mset xs \<and> sorted (exchangeSort xs)"
proof (induction xs rule: exchangeSort.induct)
  case 1
  then show ?case by simp
next
  case (2 x xs)
  obtain m r where mr: "exchangeMin x xs = (m, r)" by (meson surj_pair)
  note spec = exchangeMin_spec [OF mr]
  have "set (exchangeSort r) = set r" using "2.IH" mr by (metis mset_eq_setD snd_conv)
  moreover have "\<forall>z \<in> set r. m \<le> z"
  proof
    fix z assume "z \<in> set r"
    then have "z \<in> set (x # xs)" using spec by (metis list.set_intros(2) mset_eq_setD)
    then show "m \<le> z" using spec by blast
  qed
  ultimately show ?case using "2.IH" mr spec by simp
qed

text \<open>The slice is the sorted enumeration of the set, whatever order the map iteration had.\<close>

lemma exchangeSort_set:
  assumes "distinct xs" "set xs = S"
  shows "exchangeSort xs = sorted_list_of_set S"
proof -
  have "exchangeSort xs = sort xs"
    using exchangeSort_spec [of xs] by (intro properties_for_sort [symmetric]) simp_all
  with assms show ?thesis by (metis sorted_list_of_set_sort_remdups distinct_remdups_id)
qed

end
