(* ===== verification/Book.thy ===== *)
theory Book
  imports Batcher
begin

text \<open>
  The order book of one market: \<open>matching/book.go\<close>.  A side is an array of 100 price levels
  (\<open>None\<close> is Go's nil pointer); a level is its volume and its queue, the list of the nodes
  from \<open>Head\<close> to \<open>Tail\<close>.  \<open>Orders\<close> maps an order id to the node in a queue, so the
  model keeps its key set: the values are the queued nodes themselves.

  A result of type \<open>(go_panic + 'a) option\<close> is \<open>None\<close> where the code does not return,
  \<open>Inl\<close> where it panics (an array index of 100 or more) and \<open>Inr\<close> where it returns.
\<close>

datatype go_panic = IndexOutOfRange

record PriceLevel =
  TotalVolume :: u64
  Queue :: "MemoryOrder list"

type_synonym levels = "u8 \<Rightarrow> PriceLevel option"

record FixedArrayOrderBook =
  ob_MarketID :: u64
  CurrentTime :: unixtime
  CloseTime :: unixtime
  IsActive :: bool
  LastProcessedSeq :: u64
  Bids :: levels
  Asks :: levels
  ob_Orders :: "u64 set"
  BestBidPrice :: u8
  BestAskPrice :: u8

definition NewFixedArrayOrderBook :: "u64 \<Rightarrow> FixedArrayOrderBook" where
  "NewFixedArrayOrderBook marketID = \<lparr>ob_MarketID = marketID, CurrentTime = 0, CloseTime = 0,
     IsActive = True, LastProcessedSeq = 0, Bids = (\<lambda>_. None), Asks = (\<lambda>_. None), ob_Orders = {},
     BestBidPrice = 0, BestAskPrice = 0\<rparr>"

definition emptyLevel :: PriceLevel where
  "emptyLevel = \<lparr>TotalVolume = 0, Queue = []\<rparr>"

definition levelOf :: "PriceLevel option \<Rightarrow> PriceLevel" where
  "levelOf l = (case l of None \<Rightarrow> emptyLevel | Some l \<Rightarrow> l)"

definition hasVolume :: "PriceLevel option \<Rightarrow> bool" where
  "hasVolume l = (case l of None \<Rightarrow> False | Some l \<Rightarrow> 0 < TotalVolume l)"

text \<open>Linking a node at the tail of its level, and the best prices after it: the part
  \<open>RestoreOrder\<close> and \<open>addOrderToBook\<close> share.\<close>

definition enqueue :: "MemoryOrder \<Rightarrow> PriceLevel option \<Rightarrow> PriceLevel" where
  "enqueue ord l = \<lparr>TotalVolume = TotalVolume (levelOf l) + RemainingQty ord,
                    Queue = Queue (levelOf l) @ [ord]\<rparr>"

definition linkOrder :: "FixedArrayOrderBook \<Rightarrow> MemoryOrder \<Rightarrow> FixedArrayOrderBook" where
  "linkOrder ob ord =
     (let p = PriceTick ord;
          ob = (if Side ord = SideBuy
                then ob\<lparr>Bids := (Bids ob)(p := Some (enqueue ord (Bids ob p)))\<rparr>
                else ob\<lparr>Asks := (Asks ob)(p := Some (enqueue ord (Asks ob p)))\<rparr>);
          ob = ob\<lparr>ob_Orders := insert (OrderID ord) (ob_Orders ob)\<rparr>;
          ob = (if Side ord = SideBuy \<and> BestBidPrice ob < p then ob\<lparr>BestBidPrice := p\<rparr> else ob)
      in if Side ord = SideSell \<and> (BestAskPrice ob = 0 \<or> p < BestAskPrice ob)
         then ob\<lparr>BestAskPrice := p\<rparr> else ob)"

definition RestoreOrder :: "FixedArrayOrderBook \<Rightarrow> MemoryOrder \<Rightarrow> go_panic + FixedArrayOrderBook" where
  "RestoreOrder ob ord = (if 100 \<le> PriceTick ord then Inl IndexOutOfRange else Inr (linkOrder ob ord))"

definition sideLevel :: "FixedArrayOrderBook \<Rightarrow> MemoryOrder \<Rightarrow> PriceLevel option" where
  "sideLevel ob ord = (if Side ord = SideBuy then Bids ob (PriceTick ord) else Asks ob (PriceTick ord))"

definition addOrderToBook ::
  "FixedArrayOrderBook \<Rightarrow> MemoryOrder \<Rightarrow> pendingBatch \<Rightarrow> go_panic + FixedArrayOrderBook \<times> pendingBatch" where
  "addOrderToBook ob ord b =
     (if 100 \<le> PriceTick ord then Inl IndexOutOfRange
      else let vol = TotalVolume (enqueue ord (sideLevel ob ord));
               b = addOrderUpdateForOrder b ord ''new'' (RemainingQty ord) (RemainingSpend ord) 0 [];
               b = addDepthUpdate b (Side ord) (PriceTick ord) vol
           in Inr (linkOrder ob ord, b))"

text \<open>\<open>updateBestAsk\<close> and the opening scan of \<open>matchAsks\<close> look upwards for a level with
  volume, \<open>updateBestBid\<close> and \<open>matchBids\<close> downwards; 0 stands for none.\<close>

definition scanUp :: "levels \<Rightarrow> u8 \<Rightarrow> u8" where
  "scanUp arr start =
     (case find (\<lambda>p. hasVolume (arr p)) (map of_nat [unat start ..< 100]) of None \<Rightarrow> 0 | Some p \<Rightarrow> p)"

definition scanDown :: "levels \<Rightarrow> u8 \<Rightarrow> u8" where
  "scanDown arr start =
     (case find (\<lambda>p. hasVolume (arr p)) (map of_nat (rev [1 ..< Suc (unat start)])) of
        None \<Rightarrow> 0 | Some p \<Rightarrow> p)"

definition updateBestAsk :: "FixedArrayOrderBook \<Rightarrow> u8 \<Rightarrow> FixedArrayOrderBook" where
  "updateBestAsk ob startPrice = ob\<lparr>BestAskPrice := scanUp (Asks ob) startPrice\<rparr>"

definition updateBestBid :: "FixedArrayOrderBook \<Rightarrow> u8 \<Rightarrow> FixedArrayOrderBook" where
  "updateBestBid ob startPrice = ob\<lparr>BestBidPrice := scanDown (Bids ob) startPrice\<rparr>"

section \<open>Matching one level\<close>

text \<open>What a match changes besides the queue it walks: the taker, the level's volume, the id
  set and the batch.\<close>

record matchState =
  taker :: MemoryOrder
  vol :: u64
  ids :: "u64 set"
  batch :: pendingBatch

definition removeAndRecycleMaker :: "MemoryOrder \<Rightarrow> string \<Rightarrow> string \<Rightarrow> matchState \<Rightarrow> matchState" where
  "removeAndRecycleMaker maker status reason s =
     s\<lparr>vol := vol s - RemainingQty maker,
       ids := ids s - {OrderID maker},
       batch := addOrderUpdateForOrder (batch s) maker status (RemainingQty maker)
                  (RemainingSpend maker) (releaseRefundForOrder maker) reason\<rparr>"

definition isExpired :: "unixtime \<Rightarrow> MemoryOrder \<Rightarrow> bool" where
  "isExpired now ord \<longleftrightarrow> 0 < ExpireTime ord \<and> ExpireTime ord \<le> now"

definition isMarketBuy :: "MemoryOrder \<Rightarrow> bool" where
  "isMarketBuy ord \<longleftrightarrow> OrderType ord = OrderTypeMarket \<and> OriginalAction ord = SideBuy"

text \<open>The quantity a taker takes from a maker, and the taker after it; \<open>None\<close> is the branch
  that drops a spend too small for a lot and leaves the loop.\<close>

definition takeFrom :: "MemoryOrder \<Rightarrow> MemoryOrder \<Rightarrow> u8 \<Rightarrow> (u64 \<times> MemoryOrder) option" where
  "takeFrom tk maker price =
     (if isMarketBuy tk then
        (let costToClear = spendForOrderLots tk (RemainingQty maker) price in
         if costToClear \<le> RemainingSpend tk
         then Some (RemainingQty maker, tk\<lparr>RemainingSpend := RemainingSpend tk - costToClear\<rparr>)
         else let matchQty = lotsForOrderSpend tk (RemainingSpend tk) price in
           if matchQty = 0 then None
           else Some (matchQty, tk\<lparr>RemainingSpend := RemainingSpend tk - spendForOrderLots tk matchQty price\<rparr>))
      else let matchQty = (if RemainingQty tk < RemainingQty maker then RemainingQty tk else RemainingQty maker)
           in Some (matchQty, tk\<lparr>RemainingQty := RemainingQty tk - matchQty\<rparr>))"

definition fillMaker :: "MemoryOrder \<Rightarrow> u8 \<Rightarrow> u64 \<Rightarrow> MemoryOrder \<Rightarrow> matchState \<Rightarrow> matchState" where
  "fillMaker maker' price matchQty tk' s =
     s\<lparr>taker := tk', vol := vol s - matchQty, batch := addFill (batch s) maker' tk' price matchQty\<rparr>"

text \<open>The inner loop over the makers of a level, the same for both sides.  The result is the
  queue it leaves and the state.\<close>

fun matchLevel :: "unixtime \<Rightarrow> u8 \<Rightarrow> MemoryOrder list \<Rightarrow> matchState \<Rightarrow> MemoryOrder list \<times> matchState" where
  "matchLevel now price [] s = ([], s)"
| "matchLevel now price (maker # rest) s =
     (if IsFilled (taker s) then (maker # rest, s)
      else if isExpired now maker then
        matchLevel now price rest (removeAndRecycleMaker maker ''expired'' ''expired'' s)
      else if WalletAddress maker = WalletAddress (taker s) then
        matchLevel now price rest (removeAndRecycleMaker maker ''canceled'' ''self_trade_prevention'' s)
      else case takeFrom (taker s) maker price of
        None \<Rightarrow> (maker # rest, s\<lparr>taker := (taker s)\<lparr>RemainingSpend := 0\<rparr>\<rparr>)
      | Some (matchQty, tk') \<Rightarrow>
          (let maker' = maker\<lparr>RemainingQty := RemainingQty maker - matchQty\<rparr>;
               s' = fillMaker maker' price matchQty tk' s
           in if RemainingQty maker' = 0
              then matchLevel now price rest (removeAndRecycleMaker maker' ''filled'' [] s')
              else let s'' = s'\<lparr>batch := addOrderUpdateForOrder (batch s') maker' ''partially_filled''
                                  (RemainingQty maker') (RemainingSpend maker') 0 []\<rparr>;
                       (q, r) = matchLevel now price rest s''
                   in (maker' # q, r)))"

section \<open>Walking the levels\<close>

record sweepState =
  sw_levels :: levels
  sw_taker :: MemoryOrder
  sw_ids :: "u64 set"
  sw_batch :: pendingBatch

text \<open>One pass of the outer loop at a level that has makers: match, write the level back,
  report the depth.  The flag says whether the queue is empty afterwards.\<close>

definition matchAt :: "unixtime \<Rightarrow> u8 \<Rightarrow> u8 \<Rightarrow> PriceLevel \<Rightarrow> sweepState \<Rightarrow> bool \<times> sweepState" where
  "matchAt now side price level s =
     (let (q, r) = matchLevel now price (Queue level)
            \<lparr>taker = sw_taker s, vol = TotalVolume level, ids = sw_ids s, batch = sw_batch s\<rparr>
      in (q = [], \<lparr>sw_levels = (sw_levels s)(price := Some \<lparr>TotalVolume = vol r, Queue = q\<rparr>),
                   sw_taker = taker r, sw_ids = ids r,
                   sw_batch = addDepthUpdate (batch r) side price (vol r)\<rparr>))"

definition levelQueue :: "PriceLevel option \<Rightarrow> MemoryOrder list" where
  "levelQueue l = (case l of None \<Rightarrow> [] | Some l \<Rightarrow> Queue l)"

partial_function (option) asksLoop ::
  "unixtime \<Rightarrow> u8 \<Rightarrow> sweepState \<Rightarrow> (u8 \<times> sweepState) option" where
  "asksLoop now t s =
     (if \<not> IsFilled (sw_taker s) \<and> t \<noteq> 0 \<and> t \<le> PriceTick (sw_taker s) \<and> t \<le> 99 then
        (if levelQueue (sw_levels s t) = [] then asksLoop now (t + 1) s
         else (if fst (matchAt now SideSell t (levelOf (sw_levels s t)) s)
               then asksLoop now (t + 1) (snd (matchAt now SideSell t (levelOf (sw_levels s t)) s))
               else asksLoop now t (snd (matchAt now SideSell t (levelOf (sw_levels s t)) s))))
      else Some (t, s))"

partial_function (option) bidsLoop ::
  "unixtime \<Rightarrow> u8 \<Rightarrow> sweepState \<Rightarrow> (u8 \<times> sweepState) option" where
  "bidsLoop now t s =
     (if \<not> IsFilled (sw_taker s) \<and> t \<noteq> 0 \<and> PriceTick (sw_taker s) \<le> t \<and> 1 \<le> t then
        (if levelQueue (sw_levels s t) = [] then (if t = 1 then Some (t, s) else bidsLoop now (t - 1) s)
         else (if fst (matchAt now SideBuy t (levelOf (sw_levels s t)) s)
               then (if t = 1 then Some (t, snd (matchAt now SideBuy t (levelOf (sw_levels s t)) s))
                     else bidsLoop now (t - 1) (snd (matchAt now SideBuy t (levelOf (sw_levels s t)) s)))
               else bidsLoop now t (snd (matchAt now SideBuy t (levelOf (sw_levels s t)) s))))
      else Some (t, s))"

type_synonym 'a running = "(go_panic + 'a) option"

definition matchAsks ::
  "FixedArrayOrderBook \<Rightarrow> MemoryOrder \<Rightarrow> pendingBatch \<Rightarrow> (FixedArrayOrderBook \<times> MemoryOrder \<times> pendingBatch) running" where
  "matchAsks ob tk b =
     (let target = (if BestAskPrice ob = 0 then scanUp (Asks ob) 1 else BestAskPrice ob)
      in case asksLoop (CurrentTime ob) target
                \<lparr>sw_levels = Asks ob, sw_taker = tk, sw_ids = ob_Orders ob, sw_batch = b\<rparr> of
           None \<Rightarrow> None
         | Some (t, s) \<Rightarrow>
             Some (Inr (updateBestAsk (ob\<lparr>Asks := sw_levels s, ob_Orders := sw_ids s\<rparr>) t, sw_taker s, sw_batch s)))"

text \<open>A best bid of 100 or more would index past the array, in the loop or in
  \<open>updateBestBid\<close>; the invariant of the book rules it out.\<close>

definition matchBids ::
  "FixedArrayOrderBook \<Rightarrow> MemoryOrder \<Rightarrow> pendingBatch \<Rightarrow> (FixedArrayOrderBook \<times> MemoryOrder \<times> pendingBatch) running" where
  "matchBids ob tk b =
     (let target = (if BestBidPrice ob = 0 then scanDown (Bids ob) 99 else BestBidPrice ob)
      in if 100 \<le> target then Some (Inl IndexOutOfRange)
         else case bidsLoop (CurrentTime ob) target
                \<lparr>sw_levels = Bids ob, sw_taker = tk, sw_ids = ob_Orders ob, sw_batch = b\<rparr> of
           None \<Rightarrow> None
         | Some (t, s) \<Rightarrow>
             Some (Inr (updateBestBid (ob\<lparr>Bids := sw_levels s, ob_Orders := sw_ids s\<rparr>) t, sw_taker s, sw_batch s)))"

section \<open>Commands\<close>

definition finishTaker ::
  "FixedArrayOrderBook \<Rightarrow> MemoryOrder \<Rightarrow> pendingBatch \<Rightarrow> go_panic + FixedArrayOrderBook \<times> pendingBatch" where
  "finishTaker ob tk b =
     (if IsFilled tk then Inr (ob, addOrderUpdateForOrder b tk ''filled'' 0 0 0 [])
      else if OrderType tk = OrderTypeMarket then
        Inr (ob, addOrderUpdateForOrder b tk ''canceled'' (RemainingQty tk) (RemainingSpend tk)
                   (RemainingSpend tk) ''market_unfilled'')
      else addOrderToBook ob tk b)"

definition handlePlaceOrder ::
  "FixedArrayOrderBook \<Rightarrow> PlaceOrderCommand \<Rightarrow> pendingBatch \<Rightarrow> (FixedArrayOrderBook \<times> pendingBatch) running" where
  "handlePlaceOrder ob cmd b =
     (if \<not> IsActive ob then
        Some (Inr (ob, addOrderUpdateForCommand b cmd ''rejected'' (c_QtyLots cmd) (c_SpendAmount cmd) 0 ''market_halted''))
      else case (if Side (orderFromCmd cmd) = SideBuy then matchAsks ob (orderFromCmd cmd) b
                 else matchBids ob (orderFromCmd cmd) b) of
        None \<Rightarrow> None
      | Some (Inl e) \<Rightarrow> Some (Inl e)
      | Some (Inr (ob', tk, b')) \<Rightarrow> Some (finishTaker ob' tk b'))"

text \<open>\<open>sweepLevelO1\<close> drops expired nodes from the head of a queue until it meets a live one.\<close>

fun sweepQueue :: "unixtime \<Rightarrow> MemoryOrder list \<Rightarrow> matchState \<Rightarrow> MemoryOrder list \<times> matchState" where
  "sweepQueue now [] s = ([], s)"
| "sweepQueue now (cur1 # rest) s =
     (if isExpired now cur1
      then sweepQueue now rest (removeAndRecycleMaker cur1 ''expired'' ''expired'' s)
      else (cur1 # rest, s))"

definition sweepLevelO1 ::
  "unixtime \<Rightarrow> PriceLevel option \<Rightarrow> u8 \<Rightarrow> u8 \<Rightarrow> u64 set \<Rightarrow> pendingBatch \<Rightarrow>
   PriceLevel option \<times> u64 set \<times> pendingBatch \<times> bool" where
  "sweepLevelO1 now level price side idset b =
     (case level of
        None \<Rightarrow> (None, idset, b, False)
      | Some l \<Rightarrow>
          if Queue l = [] then (Some l, idset, b, False)
          else let (q, r) = sweepQueue now (Queue l) \<lparr>taker = zeroOrder, vol = TotalVolume l, ids = idset, batch = b\<rparr>;
                   removed = isExpired now (hd (Queue l))
               in (Some \<lparr>TotalVolume = vol r, Queue = q\<rparr>, ids r,
                   if removed then addDepthUpdate (batch r) side price (vol r) else batch r, removed))"

definition tickPrice ::
  "unixtime \<Rightarrow> u8 \<Rightarrow> FixedArrayOrderBook \<times> pendingBatch \<times> bool \<Rightarrow> FixedArrayOrderBook \<times> pendingBatch \<times> bool" where
  "tickPrice now p st =
     (let (ob, b, changed) = st;
          (bl, idset, b, rb) = sweepLevelO1 now (Bids ob p) p SideBuy (ob_Orders ob) b;
          (al, idset, b, ra) = sweepLevelO1 now (Asks ob p) p SideSell idset b
      in (ob\<lparr>Bids := (Bids ob)(p := bl), Asks := (Asks ob)(p := al), ob_Orders := idset\<rparr>, b,
          changed \<or> rb \<or> ra))"

definition handleTick ::
  "FixedArrayOrderBook \<Rightarrow> unixtime \<Rightarrow> pendingBatch \<Rightarrow> FixedArrayOrderBook \<times> pendingBatch" where
  "handleTick ob timestamp b =
     (let (ob, b, changed) = fold (tickPrice timestamp) (map of_nat [1 ..< 100]) (ob\<lparr>CurrentTime := timestamp\<rparr>, b, False)
      in (if changed then updateBestAsk (updateBestBid ob 99) 1 else ob, b))"

definition handleHalt :: "FixedArrayOrderBook \<Rightarrow> FixedArrayOrderBook" where
  "handleHalt ob = (if IsActive ob then ob\<lparr>IsActive := False\<rparr> else ob)"

definition ProcessCommand ::
  "FixedArrayOrderBook \<Rightarrow> Command \<Rightarrow> pendingBatch \<Rightarrow> (FixedArrayOrderBook \<times> pendingBatch) running" where
  "ProcessCommand ob cmd b =
     (let ob = ob\<lparr>CurrentTime := GetTimestamp cmd\<rparr> in
      case cmd of
        PlaceOrder c \<Rightarrow> handlePlaceOrder ob c b
      | Tick m t \<Rightarrow> Some (Inr (handleTick ob t b))
      | HaltMarket m t \<Rightarrow> Some (Inr (handleHalt ob, b)))"

end
