(* ===== verification/Matching.thy ===== *)
theory Matching
  imports Book
begin

text \<open>
  The inner loop of \<open>matchAsks\<close> and \<open>matchBids\<close> on one level, \<open>matchLevel\<close>: a rule that
  follows its seven outcomes, and what the loop does to the volume, the id set, the queue, the
  taker and the batch.  The facts that need arithmetic assume \<open>safeTaker\<close> and \<open>safeMaker\<close>:
  the products \<open>spend * 100\<close> and \<open>qty * 99\<close> of the rounding helpers fit in 64 bits.
\<close>

section \<open>One maker\<close>

definition safeTaker :: "MemoryOrder \<Rightarrow> bool" where
  "safeTaker tk \<longleftrightarrow> (isMarketBuy tk \<longrightarrow> unat (RemainingSpend tk) * 100 + 99 < 2 ^ 64)"

definition safeMaker :: "MemoryOrder \<Rightarrow> bool" where
  "safeMaker m \<longleftrightarrow> RemainingQty m \<noteq> 0 \<and> unat (RemainingQty m) * 99 + 99 < 2 ^ 64"

text \<open>A taker during its match differs from the order that arrived only in what remains.\<close>

definition same_order :: "MemoryOrder \<Rightarrow> MemoryOrder \<Rightarrow> bool" where
  "same_order a b \<longleftrightarrow> a\<lparr>RemainingQty := 0, RemainingSpend := 0\<rparr> = b\<lparr>RemainingQty := 0, RemainingSpend := 0\<rparr>"

lemma same_order_refl [simp]: "same_order a a"
  by (simp add: same_order_def)

lemma same_order_trans: "same_order a b \<Longrightarrow> same_order b c \<Longrightarrow> same_order a c"
  by (simp add: same_order_def)

lemma same_order_upd [simp]:
  "same_order a (b\<lparr>RemainingQty := q\<rparr>) = same_order a b"
  "same_order a (b\<lparr>RemainingSpend := q\<rparr>) = same_order a b"
  "same_order (a\<lparr>RemainingQty := q\<rparr>) b = same_order a b"
  "same_order (a\<lparr>RemainingSpend := q\<rparr>) b = same_order a b"
  by (simp_all add: same_order_def)

lemma same_orderD:
  assumes "same_order a b"
  shows "OrderID b = OrderID a" "WalletAddress b = WalletAddress a" "OriginalAction b = OriginalAction a"
    "OriginalOutcome b = OriginalOutcome a" "OriginalPriceTick b = OriginalPriceTick a"
    "Side b = Side a" "OrderType b = OrderType a" "PriceTick b = PriceTick a"
    "ExpireTime b = ExpireTime a" "isMarketBuy b = isMarketBuy a"
proof -
  have e: "a\<lparr>RemainingQty := 0, RemainingSpend := 0\<rparr> = b\<lparr>RemainingQty := 0, RemainingSpend := 0\<rparr>"
    using assms by (simp add: same_order_def)
  show "OrderID b = OrderID a" "WalletAddress b = WalletAddress a"
    "Side b = Side a" "PriceTick b = PriceTick a" "ExpireTime b = ExpireTime a"
    "OriginalOutcome b = OriginalOutcome a" "OriginalPriceTick b = OriginalPriceTick a"
    using arg_cong [OF e, of OrderID] arg_cong [OF e, of WalletAddress] arg_cong [OF e, of Side]
      arg_cong [OF e, of PriceTick] arg_cong [OF e, of ExpireTime]
      arg_cong [OF e, of OriginalOutcome] arg_cong [OF e, of OriginalPriceTick] by simp_all
  show ot: "OrderType b = OrderType a" and oa: "OriginalAction b = OriginalAction a"
    using arg_cong [OF e, of OrderType] arg_cong [OF e, of OriginalAction] by simp_all
  then show "isMarketBuy b = isMarketBuy a" by (simp add: isMarketBuy_def)
qed

lemma takeFrom_same_order: "takeFrom tk m p = Some (mq, tk') \<Longrightarrow> same_order tk tk'"
  by (auto simp: takeFrom_def Let_def split: if_splits)

text \<open>What remains of the taker and what the fill costs it: the spend of a market buy, the
  lots of any other order.\<close>

definition budget :: "MemoryOrder \<Rightarrow> nat" where
  "budget tk = (if isMarketBuy tk then unat (RemainingSpend tk) else unat (RemainingQty tk))"

definition charge :: "MemoryOrder \<Rightarrow> u8 \<Rightarrow> u64 \<Rightarrow> nat" where
  "charge tk p mq = (if isMarketBuy tk then unat (actualUnitsForOrder tk mq p) else unat mq)"

lemma IsFilled_budget: "IsFilled tk \<longleftrightarrow> budget tk = 0"
  by (simp add: IsFilled_def budget_def isMarketBuy_def unsigned_eq_0_iff)

lemma charge_cong: "same_order tk tk' \<Longrightarrow> charge tk' p mq = charge tk p mq"
  by (simp add: charge_def actualUnitsForOrder_def same_orderD)

lemma takeFrom_safe:
  assumes nf: "\<not> IsFilled tk" and tk: "safeTaker tk" and m: "safeMaker m" and p: "1 \<le> p" "p \<le> 99"
  obtains mq tk' where "takeFrom tk m p = Some (mq, tk')" "mq \<noteq> 0" "mq \<le> RemainingQty m"
    "mq = RemainingQty m \<or> IsFilled tk'" "budget tk' + charge tk p mq = budget tk"
    "same_order tk tk'" "safeTaker tk'"
proof (cases "isMarketBuy tk")
  case False
  let ?q = "if RemainingQty tk < RemainingQty m then RemainingQty tk else RemainingQty m"
  have le: "?q \<le> RemainingQty tk" "?q \<le> RemainingQty m" by auto
  have mb: "\<not> (OrderType tk = OrderTypeMarket \<and> OriginalAction tk = SideBuy)"
    using False by (simp add: isMarketBuy_def)
  show thesis
  proof (rule that)
    show "takeFrom tk m p = Some (?q, tk\<lparr>RemainingQty := RemainingQty tk - ?q\<rparr>)"
      using False by (simp add: takeFrom_def Let_def)
    show "?q \<noteq> 0" using nf m mb by (auto simp: IsFilled_def safeMaker_def)
    show "?q \<le> RemainingQty m" by (rule le(2))
    show "?q = RemainingQty m \<or> IsFilled (tk\<lparr>RemainingQty := RemainingQty tk - ?q\<rparr>)"
      using mb by (auto simp: IsFilled_def)
    have "unat (RemainingQty tk - ?q) + unat ?q = unat (RemainingQty tk)"
      using le(1) unat_sub_le [OF le(1)] by (simp add: word_le_nat_alt)
    then show "budget (tk\<lparr>RemainingQty := RemainingQty tk - ?q\<rparr>) + charge tk p ?q = budget tk"
      using False by (auto simp: budget_def charge_def isMarketBuy_def)
    show "same_order tk (tk\<lparr>RemainingQty := RemainingQty tk - ?q\<rparr>)" by simp
    show "safeTaker (tk\<lparr>RemainingQty := RemainingQty tk - ?q\<rparr>)"
      using mb by (auto simp: safeTaker_def isMarketBuy_def)
  qed
next
  case True
  let ?c = "spendForOrderLots tk (RemainingQty m) p" and ?s = "RemainingSpend tk"
  have s: "unat ?s * 100 + 99 < 2 ^ 64" using True tk by (simp add: safeTaker_def)
  have s0: "?s \<noteq> 0" using True nf by (auto simp: IsFilled_def isMarketBuy_def)
  have mb: "OrderType tk = OrderTypeMarket \<and> OriginalAction tk = SideBuy"
    using True by (simp add: isMarketBuy_def)
  show thesis
  proof (cases "?c \<le> ?s")
    case le: True
    show thesis
    proof (rule that)
      show "takeFrom tk m p = Some (RemainingQty m, tk\<lparr>RemainingSpend := ?s - ?c\<rparr>)"
        using True le by (simp add: takeFrom_def Let_def)
      show "RemainingQty m \<noteq> 0" using m by (simp add: safeMaker_def)
      have "unat (?s - ?c) + unat ?c = unat ?s"
        using le unat_sub_le [OF le] by (simp add: word_le_nat_alt)
      then show "budget (tk\<lparr>RemainingSpend := ?s - ?c\<rparr>) + charge tk p (RemainingQty m) = budget tk"
        using mb by (simp add: budget_def charge_def isMarketBuy_def spendForOrderLots_def)
      have "unat (?s - ?c) \<le> unat ?s" using unat_sub_le [OF le] by simp
      then show "safeTaker (tk\<lparr>RemainingSpend := ?s - ?c\<rparr>)"
        using s by (simp add: safeTaker_def)
    qed simp_all
  next
    case short: False
    let ?q = "lotsForOrderSpend tk ?s p"
    have q0: "?q \<noteq> 0" unfolding lotsForOrderSpend_def
      using p s s0 by (intro lotsForOutcomeSpend_nonzero) auto
    have lt: "unat ?q < unat (RemainingQty m)" unfolding lotsForOrderSpend_def
      using p s m short
      by (intro lots_of_short_spend) (auto simp: safeMaker_def spendForOrderLots_def actualUnitsForOrder_def)
    have ex: "spendForOrderLots tk ?q p = ?s"
      unfolding spendForOrderLots_def actualUnitsForOrder_def lotsForOrderSpend_def
      using p s by (intro spend_of_lots_exact)
    show thesis
    proof (rule that)
      show "takeFrom tk m p = Some (?q, tk\<lparr>RemainingSpend := 0\<rparr>)"
        using True short q0 ex by (simp add: takeFrom_def Let_def)
      show "?q \<noteq> 0" by (rule q0)
      show "?q \<le> RemainingQty m" using lt by (simp add: word_le_nat_alt)
      show "?q = RemainingQty m \<or> IsFilled (tk\<lparr>RemainingSpend := 0\<rparr>)"
        using mb by (simp add: IsFilled_def)
      show "budget (tk\<lparr>RemainingSpend := 0\<rparr>) + charge tk p ?q = budget tk"
        using mb ex by (simp add: budget_def charge_def isMarketBuy_def spendForOrderLots_def)
    qed (simp_all add: safeTaker_def)
  qed
qed

section \<open>The loop by its outcomes\<close>

definition dropExpired :: "MemoryOrder \<Rightarrow> matchState \<Rightarrow> matchState" where
  "dropExpired maker s = removeAndRecycleMaker maker ''expired'' ''expired'' s"

definition dropSelf :: "MemoryOrder \<Rightarrow> matchState \<Rightarrow> matchState" where
  "dropSelf maker s = removeAndRecycleMaker maker ''canceled'' ''self_trade_prevention'' s"

definition afterFill :: "MemoryOrder \<Rightarrow> u8 \<Rightarrow> u64 \<Rightarrow> MemoryOrder \<Rightarrow> matchState \<Rightarrow> matchState" where
  "afterFill maker p mq tk' s =
     (let maker' = maker\<lparr>RemainingQty := RemainingQty maker - mq\<rparr>; s' = fillMaker maker' p mq tk' s in
      if RemainingQty maker' = 0 then removeAndRecycleMaker maker' ''filled'' [] s'
      else s'\<lparr>batch := addOrderUpdateForOrder (batch s') maker' ''partially_filled''
                 (RemainingQty maker') (RemainingSpend maker') 0 []\<rparr>)"

lemma matchLevel_rule [case_names Nil Filled Expired Self Dust Full Partial]:
  assumes "\<And>s. P [] s ([], s)"
    and "\<And>m ms s. IsFilled (taker s) \<Longrightarrow> P (m # ms) s (m # ms, s)"
    and "\<And>m ms s r. \<not> IsFilled (taker s) \<Longrightarrow> isExpired now m \<Longrightarrow> P ms (dropExpired m s) r \<Longrightarrow> P (m # ms) s r"
    and "\<And>m ms s r. \<not> IsFilled (taker s) \<Longrightarrow> \<not> isExpired now m \<Longrightarrow>
           WalletAddress m = WalletAddress (taker s) \<Longrightarrow> P ms (dropSelf m s) r \<Longrightarrow> P (m # ms) s r"
    and "\<And>m ms s. \<not> IsFilled (taker s) \<Longrightarrow> \<not> isExpired now m \<Longrightarrow>
           WalletAddress m \<noteq> WalletAddress (taker s) \<Longrightarrow> takeFrom (taker s) m p = None \<Longrightarrow>
           P (m # ms) s (m # ms, s\<lparr>taker := (taker s)\<lparr>RemainingSpend := 0\<rparr>\<rparr>)"
    and "\<And>m ms s tk' r. \<not> IsFilled (taker s) \<Longrightarrow> \<not> isExpired now m \<Longrightarrow>
           WalletAddress m \<noteq> WalletAddress (taker s) \<Longrightarrow> takeFrom (taker s) m p = Some (RemainingQty m, tk') \<Longrightarrow>
           P ms (afterFill m p (RemainingQty m) tk' s) r \<Longrightarrow> P (m # ms) s r"
    and "\<And>m ms s mq tk' q r. \<not> IsFilled (taker s) \<Longrightarrow> \<not> isExpired now m \<Longrightarrow>
           WalletAddress m \<noteq> WalletAddress (taker s) \<Longrightarrow> takeFrom (taker s) m p = Some (mq, tk') \<Longrightarrow>
           mq \<noteq> RemainingQty m \<Longrightarrow> P ms (afterFill m p mq tk' s) (q, r) \<Longrightarrow>
           P (m # ms) s (m\<lparr>RemainingQty := RemainingQty m - mq\<rparr> # q, r)"
  shows "P q s (matchLevel now p q s)"
proof (induction q arbitrary: s)
  case Nil
  then show ?case by (simp add: assms(1))
next
  case (Cons m ms)
  consider (filled) "IsFilled (taker s)"
    | (expired) "\<not> IsFilled (taker s)" "isExpired now m"
    | (self) "\<not> IsFilled (taker s)" "\<not> isExpired now m" "WalletAddress m = WalletAddress (taker s)"
    | (dust) "\<not> IsFilled (taker s)" "\<not> isExpired now m" "WalletAddress m \<noteq> WalletAddress (taker s)"
        "takeFrom (taker s) m p = None"
    | (fill) mq tk' where "\<not> IsFilled (taker s)" "\<not> isExpired now m" "WalletAddress m \<noteq> WalletAddress (taker s)"
        "takeFrom (taker s) m p = Some (mq, tk')"
    by (cases "takeFrom (taker s) m p") force+
  then show ?case
  proof cases
    case filled
    then show ?thesis by (simp add: assms(2))
  next
    case expired
    with Cons.IH [of "dropExpired m s"] show ?thesis
      by (auto simp: dropExpired_def intro: assms(3))
  next
    case self
    with Cons.IH [of "dropSelf m s"] show ?thesis
      by (auto simp: dropSelf_def intro: assms(4))
  next
    case dust
    then show ?thesis by (simp add: assms(5))
  next
    case fill
    show ?thesis
    proof (cases "mq = RemainingQty m")
      case True
      have "matchLevel now p (m # ms) s = matchLevel now p ms (afterFill m p (RemainingQty m) tk' s)"
        using fill True by (simp add: afterFill_def Let_def)
      moreover have "P (m # ms) s (matchLevel now p ms (afterFill m p (RemainingQty m) tk' s))"
        using fill True Cons.IH by (auto intro: assms(6))
      ultimately show ?thesis by (simp only:)
    next
      case False
      then have nz: "RemainingQty m - mq \<noteq> 0" by auto
      obtain q r where qr: "matchLevel now p ms (afterFill m p mq tk' s) = (q, r)" by (meson surj_pair)
      have "matchLevel now p (m # ms) s = (m\<lparr>RemainingQty := RemainingQty m - mq\<rparr> # q, r)"
        using fill nz qr by (simp add: afterFill_def Let_def)
      moreover have "P ms (afterFill m p mq tk' s) (q, r)" using Cons.IH qr by metis
      ultimately show ?thesis using fill False assms(7) by metis
    qed
  qed
qed

lemma drop_sel [simp]:
  "taker (dropExpired m s) = taker s" "taker (dropSelf m s) = taker s"
  "vol (dropExpired m s) = vol s - RemainingQty m" "vol (dropSelf m s) = vol s - RemainingQty m"
  "ids (dropExpired m s) = ids s - {OrderID m}" "ids (dropSelf m s) = ids s - {OrderID m}"
  "Fills (event (batch (dropExpired m s))) = Fills (event (batch s))"
  "Fills (event (batch (dropSelf m s))) = Fills (event (batch s))"
  by (simp_all add: dropExpired_def dropSelf_def removeAndRecycleMaker_def frame)

lemma afterFill_sel [simp]:
  "taker (afterFill m p mq tk' s) = tk'"
  "vol (afterFill m p mq tk' s) = vol s - mq"
  "ids (afterFill m p mq tk' s) = (if mq = RemainingQty m then ids s - {OrderID m} else ids s)"
  "Fills (event (batch (afterFill m p mq tk' s))) =
     Fills (event (batch s)) @ [fillOf (batch s) (m\<lparr>RemainingQty := RemainingQty m - mq\<rparr>) tk' p mq]"
  by (auto simp: afterFill_def fillMaker_def removeAndRecycleMaker_def Let_def frame)

section \<open>Volume and ids\<close>

definition qvol :: "MemoryOrder list \<Rightarrow> u64" where
  "qvol q = sum_list (map RemainingQty q)"

lemma qvol_simps [simp]: "qvol [] = 0" "qvol (m # q) = RemainingQty m + qvol q"
  "qvol (q @ q') = qvol q + qvol q'"
  by (simp_all add: qvol_def)

text \<open>The level's volume moves with the queue, wrapping or not.\<close>

lemma matchLevel_volume:
  "vol (snd (matchLevel now p q s)) - qvol (fst (matchLevel now p q s)) = vol s - qvol q"
  by (rule matchLevel_rule [of "\<lambda>q s r. vol (snd r) - qvol (fst r) = vol s - qvol q"])
     (simp_all add: algebra_simps)

definition qids :: "MemoryOrder list \<Rightarrow> u64 multiset" where
  "qids q = mset (map OrderID q)"

lemma qids_simps [simp]: "qids [] = {#}" "qids (m # q) = add_mset (OrderID m) (qids q)"
  "qids (q @ q') = qids q + qids q'"
  by (simp_all add: qids_def)

lemma finite_u64_set [simp]: "finite (S :: u64 set)"
  by (rule finite)

lemma mset_set_minus1: "k \<in> (S :: u64 set) \<Longrightarrow> add_mset k (mset_set (S - {k})) = mset_set S"
  by (simp add: mset_set.remove [of S k])

text \<open>An order leaves the id set exactly when it leaves the queue.\<close>

lemma qids_head:
  assumes "qids (m # ms) \<subseteq># mset_set S"
  shows "mset_set S = add_mset (OrderID m) (mset_set (S - {OrderID m}))"
    "qids ms \<subseteq># mset_set (S - {OrderID m})"
proof -
  have "OrderID m \<in># mset_set S"
    using assms by (metis mset_subset_eq_insertD qids_simps(2))
  then show e: "mset_set S = add_mset (OrderID m) (mset_set (S - {OrderID m}))"
    by (simp add: mset_set_minus1)
  with assms show "qids ms \<subseteq># mset_set (S - {OrderID m})" by simp
qed

lemma matchLevel_ids:
  "qids q \<subseteq># mset_set (ids s) \<Longrightarrow>
     mset_set (ids (snd (matchLevel now p q s))) + qids q =
     mset_set (ids s) + qids (fst (matchLevel now p q s))"
proof (rule matchLevel_rule [of "\<lambda>q s r. qids q \<subseteq># mset_set (ids s) \<longrightarrow>
     mset_set (ids (snd r)) + qids q = mset_set (ids s) + qids (fst r)", THEN mp], goal_cases)
  case (3 m ms s r)
  then show ?case using qids_head [of m ms "ids s"] by auto
next
  case (4 m ms s r)
  then show ?case using qids_head [of m ms "ids s"] by auto
next
  case (6 m ms s tk' r)
  then show ?case using qids_head [of m ms "ids s"] by auto
next
  case (7 m ms s mq tk' q r)
  then show ?case by (auto dest: mset_subset_eq_insertD subset_mset.less_imp_le)
qed auto

section \<open>The queue a match leaves\<close>

text \<open>Under the bounds the queue loses a prefix, and the order that becomes its head may have
  been reduced: nothing behind it is touched.\<close>

definition consumed :: "MemoryOrder list \<Rightarrow> MemoryOrder list \<Rightarrow> bool" where
  "consumed q q' \<longleftrightarrow> (\<exists>n. q' = drop n q) \<or>
     (\<exists>n r. n < length q \<and> r \<noteq> 0 \<and> r \<le> RemainingQty (q ! n) \<and>
            q' = (q ! n)\<lparr>RemainingQty := r\<rparr> # drop (Suc n) q)"

lemma consumed_refl [simp]: "consumed q q"
  unfolding consumed_def by (metis drop0)

lemma consumed_Cons: "consumed ms q' \<Longrightarrow> consumed (m # ms) q'"
  unfolding consumed_def by (metis Suc_mono drop_Suc_Cons length_Cons nth_Cons_Suc)

lemma consumed_head: "r \<noteq> 0 \<Longrightarrow> r \<le> RemainingQty m \<Longrightarrow> consumed (m # ms) (m\<lparr>RemainingQty := r\<rparr> # ms)"
  unfolding consumed_def by (rule disjI2, rule exI [of _ 0]) auto

definition qsum :: "MemoryOrder list \<Rightarrow> nat" where
  "qsum q = sum_list (map (\<lambda>m. unat (RemainingQty m)) q)"

lemma qsum_simps [simp]: "qsum [] = 0" "qsum (m # q) = unat (RemainingQty m) + qsum q"
  "qsum (q @ q') = qsum q + qsum q'"
  by (simp_all add: qsum_def)

lemma qsum_drop: "qsum (drop n q) \<le> qsum q"
  by (metis append_take_drop_id le_add2 qsum_simps(3))

lemma consumed_qsum: "consumed q q' \<Longrightarrow> qsum q' \<le> qsum q"
proof -
  assume "consumed q q'"
  then consider n where "q' = drop n q"
    | n r where "n < length q" "r \<le> RemainingQty (q ! n)" "q' = (q ! n)\<lparr>RemainingQty := r\<rparr> # drop (Suc n) q"
    unfolding consumed_def by blast
  then show ?thesis
  proof cases
    case 1
    then show ?thesis by (simp add: qsum_drop)
  next
    case 2
    then have "qsum q' \<le> qsum (drop n q)"
      using Cons_nth_drop_Suc [OF 2(1)] by (auto simp: word_le_nat_alt simp flip: Cons_nth_drop_Suc)
    then show ?thesis using qsum_drop le_trans by blast
  qed
qed

lemma consumed_all:
  assumes "consumed q q'" "\<And>m. m \<in> set q \<Longrightarrow> P m"
    and "\<And>m r. m \<in> set q \<Longrightarrow> r \<noteq> 0 \<Longrightarrow> r \<le> RemainingQty m \<Longrightarrow> P (m\<lparr>RemainingQty := r\<rparr>)"
    and "m' \<in> set q'"
  shows "P m'"
proof -
  have "m' \<in> set q \<or> (\<exists>m r. m \<in> set q \<and> r \<noteq> 0 \<and> r \<le> RemainingQty m \<and> m' = m\<lparr>RemainingQty := r\<rparr>)"
    using assms(1,4) unfolding consumed_def
    by (elim disjE exE conjE) (auto dest: in_set_dropD intro: nth_mem)
  with assms(2,3) show ?thesis by blast
qed

lemma safeMaker_less: "safeMaker m \<Longrightarrow> r \<noteq> 0 \<Longrightarrow> r \<le> RemainingQty m \<Longrightarrow> safeMaker (m\<lparr>RemainingQty := r\<rparr>)"
  by (auto simp: safeMaker_def word_le_nat_alt)

section \<open>The reference matcher\<close>

text \<open>Price-time priority in its plain form: one list of resting orders with their ticks, best
  first.  A trade is the tick, the maker as it stood and the lots.\<close>

type_synonym trade = "u8 \<times> MemoryOrder \<times> u64"

fun refMatch :: "unixtime \<Rightarrow> (u8 \<Rightarrow> bool) \<Rightarrow> (u8 \<times> MemoryOrder) list \<Rightarrow> MemoryOrder \<Rightarrow>
    trade list \<times> (u8 \<times> MemoryOrder) list \<times> MemoryOrder" where
  "refMatch now ok [] tk = ([], [], tk)"
| "refMatch now ok ((p, m) # rest) tk =
     (if IsFilled tk \<or> \<not> ok p then ([], (p, m) # rest, tk)
      else if isExpired now m \<or> WalletAddress m = WalletAddress tk then refMatch now ok rest tk
      else case takeFrom tk m p of
        None \<Rightarrow> ([], (p, m) # rest, tk)
      | Some (mq, tk') \<Rightarrow>
          if mq = RemainingQty m
          then (let (ts, rem, tk'') = refMatch now ok rest tk' in ((p, m, mq) # ts, rem, tk''))
          else ([(p, m, mq)], (p, m\<lparr>RemainingQty := RemainingQty m - mq\<rparr>) # rest, tk'))"

lemma refMatch_filled: "IsFilled tk \<Longrightarrow> refMatch now ok l tk = ([], l, tk)"
  by (cases "(now, ok, l, tk)" rule: refMatch.cases) auto

text \<open>A fill of the batch that reports a trade of \<open>tk\<close>.\<close>

definition fill_of_trade :: "pendingBatch \<Rightarrow> MemoryOrder \<Rightarrow> trade \<Rightarrow> MatchFill \<Rightarrow> bool" where
  "fill_of_trade b tk t f \<longleftrightarrow> (case t of (p, m, mq) \<Rightarrow>
     f_FillPrice f = ucast p \<and> f_FillAmount f = mq \<and> f_NotionalUnits f = actualUnitsForOrder tk mq p \<and>
     f_MatchType f = classifyMatchType m tk \<and>
     orderIndex b (OrderID m) = Some (f_MakerOrderIndex f) \<and>
     orderIndex b (OrderID tk) = Some (f_TakerOrderIndex f))"

definition extends :: "pendingBatch \<Rightarrow> pendingBatch \<Rightarrow> bool" where
  "extends b b' \<longleftrightarrow> orderIndex b \<subseteq>\<^sub>m orderIndex b' \<and>
     length (ev_Orders (event b)) \<le> length (ev_Orders (event b'))"

lemma extends_refl [simp]: "extends b b"
  by (simp add: extends_def)

lemma extends_trans: "extends b b' \<Longrightarrow> extends b' b'' \<Longrightarrow> extends b b''"
  unfolding extends_def using map_le_trans le_trans by blast

lemma ensureOrder_extends: "extends b (snd (ensureOrder b ord t))"
  by (auto simp: extends_def map_le_def ensureOrder_length ensureOrder_index(2))

lemma addOrderUpdateForOrder_extends [simp]: "extends b (addOrderUpdateForOrder b ord st q s r why)"
  using ensureOrder_extends [of b ord 0] by (simp add: extends_def addOrderUpdateForOrder_as_ensure)

lemma addDepthUpdate_extends [simp]: "extends b (addDepthUpdate b side p v)"
  by (simp add: extends_def frame)

lemma addFill_extends [simp]: "extends b (addFill b m tk p q)"
  using extends_trans [OF ensureOrder_extends ensureOrder_extends]
  by (simp add: extends_def addFill_as_ensure)

lemma fill_of_trade_mono: "extends b b' \<Longrightarrow> fill_of_trade b tk t f \<Longrightarrow> fill_of_trade b' tk t f"
  by (auto simp: fill_of_trade_def extends_def map_le_def dom_def split: prod.splits)

lemma fill_of_trade_same: "same_order tk tk' \<Longrightarrow> fill_of_trade b tk' = fill_of_trade b tk"
  by (intro ext, simp only: fill_of_trade_def actualUnitsForOrder_def classifyMatchType_def
      same_orderD(1,3,4))

lemma fillOf_trade:
  "fill_of_trade (addFill b (m\<lparr>RemainingQty := r\<rparr>) tk p mq) tk (p, m, mq) (fillOf b (m\<lparr>RemainingQty := r\<rparr>) tk p mq)"
proof -
  let ?m = "m\<lparr>RemainingQty := r\<rparr>"
  let ?b1 = "snd (ensureOrder b ?m 0)" and ?i = "fst (ensureOrder b ?m 0)"
  have "orderIndex (snd (ensureOrder ?b1 tk 0)) (OrderID ?m) = Some ?i"
    by (intro ensureOrder_index(2) ensureOrder_index(1))
  then show ?thesis
    using ensureOrder_index(1) [of ?b1 tk 0]
    by (simp add: fill_of_trade_def addFill_as_ensure fillOf_def case_prod_beta Let_def classifyMatchType_def)
qed

lemma drop_extends [simp]:
  "extends (batch s) (batch (dropExpired m s))" "extends (batch s) (batch (dropSelf m s))"
  by (simp_all add: dropExpired_def dropSelf_def removeAndRecycleMaker_def)

lemma afterFill_extends_addFill:
  "extends (addFill (batch s) (m\<lparr>RemainingQty := RemainingQty m - mq\<rparr>) tk' p mq) (batch (afterFill m p mq tk' s))"
  by (auto simp: afterFill_def fillMaker_def removeAndRecycleMaker_def Let_def)

lemma afterFill_extends [simp]: "extends (batch s) (batch (afterFill m p mq tk' s))"
  using afterFill_extends_addFill addFill_extends extends_trans by blast

lemma matchLevel_extends: "extends (batch s) (batch (snd (matchLevel now p q s)))"
  by (rule matchLevel_rule [of "\<lambda>q s r. extends (batch s) (batch (snd r))"])
     (auto intro: extends_trans [OF drop_extends(1)] extends_trans [OF drop_extends(2)]
       extends_trans [OF afterFill_extends])

section \<open>A level refines the reference matcher\<close>

lemma matchLevel_filled: "IsFilled (taker s) \<Longrightarrow> matchLevel now p q s = (q, s)"
  by (cases q) simp_all

text \<open>Matching a level is matching its segment of the reference list: the trades are the fills
  the batch gains, and the reference matcher goes on behind the segment with the taker the level
  left.  A level that keeps makers has filled the taker.\<close>

definition level_refines ::
  "unixtime \<Rightarrow> (u8 \<Rightarrow> bool) \<Rightarrow> u8 \<Rightarrow> MemoryOrder list \<Rightarrow> matchState \<Rightarrow> MemoryOrder list \<times> matchState \<Rightarrow> bool" where
  "level_refines now ok p q s r \<longleftrightarrow>
     consumed q (fst r) \<and> (fst r = [] \<or> IsFilled (taker (snd r))) \<and>
     safeTaker (taker (snd r)) \<and> same_order (taker s) (taker (snd r)) \<and>
     (\<exists>T F. Fills (event (batch (snd r))) = Fills (event (batch s)) @ F \<and>
        list_all2 (fill_of_trade (batch (snd r)) (taker s)) T F \<and>
        (\<forall>rest. refMatch now ok (map (Pair p) q @ rest) (taker s) =
           (let (ts, rem, tk') = refMatch now ok rest (taker (snd r))
            in (T @ ts, map (Pair p) (fst r) @ rem, tk'))))"

lemma level_refines_skip:
  assumes "level_refines now ok p ms s' r" "taker s' = taker s"
    "Fills (event (batch s')) = Fills (event (batch s))"
    "\<And>rest. refMatch now ok ((p, m) # map (Pair p) ms @ rest) (taker s) =
             refMatch now ok (map (Pair p) ms @ rest) (taker s)"
  shows "level_refines now ok p (m # ms) s r"
  using assms unfolding level_refines_def by (auto intro: consumed_Cons)

lemma level_refines_full:
  assumes r: "level_refines now ok p ms (afterFill m p (RemainingQty m) tk' s) r"
    and step: "takeFrom (taker s) m p = Some (RemainingQty m, tk')" "\<not> IsFilled (taker s)"
      "\<not> isExpired now m" "WalletAddress m \<noteq> WalletAddress (taker s)" "ok p"
    and ext: "extends (batch (afterFill m p (RemainingQty m) tk' s)) (batch (snd r))"
  shows "level_refines now ok p (m # ms) s r"
proof -
  let ?s' = "afterFill m p (RemainingQty m) tk' s"
  let ?f = "fillOf (batch s) (m\<lparr>RemainingQty := RemainingQty m - RemainingQty m\<rparr>) tk' p (RemainingQty m)"
  have so: "same_order (taker s) tk'" using step(1) by (rule takeFrom_same_order)
  obtain T F where TF: "Fills (event (batch (snd r))) = Fills (event (batch ?s')) @ F"
      "list_all2 (fill_of_trade (batch (snd r)) tk') T F"
      "\<And>rest. refMatch now ok (map (Pair p) ms @ rest) tk' =
         (let (ts, rem, tk2) = refMatch now ok rest (taker (snd r)) in (T @ ts, map (Pair p) (fst r) @ rem, tk2))"
    using r unfolding level_refines_def by (auto simp: Let_def)
  have "fill_of_trade (batch (snd r)) tk' (p, m, RemainingQty m) ?f"
    using fillOf_trade extends_trans [OF afterFill_extends_addFill ext] by (rule fill_of_trade_mono [rotated])
  then have "list_all2 (fill_of_trade (batch (snd r)) (taker s)) ((p, m, RemainingQty m) # T) (?f # F)"
    using TF(2) by (simp add: fill_of_trade_same [OF so])
  moreover have "Fills (event (batch (snd r))) = Fills (event (batch s)) @ (?f # F)"
    using TF(1) by simp
  moreover have "refMatch now ok (map (Pair p) (m # ms) @ rest) (taker s) =
      (let (ts, rem, tk2) = refMatch now ok rest (taker (snd r))
       in (((p, m, RemainingQty m) # T) @ ts, map (Pair p) (fst r) @ rem, tk2))" for rest
    using step TF(3) [of rest] by (auto simp: split_beta Let_def)
  ultimately show ?thesis
    using r so unfolding level_refines_def
    by (auto intro: consumed_Cons same_order_trans simp del: append_Cons)
qed

lemma level_refines_partial:
  assumes step: "takeFrom (taker s) m p = Some (mq, tk')" "\<not> IsFilled (taker s)"
      "\<not> isExpired now m" "WalletAddress m \<noteq> WalletAddress (taker s)" "ok p"
    and mq: "mq \<noteq> RemainingQty m" "mq \<le> RemainingQty m" "IsFilled tk'" "safeTaker tk'"
  shows "level_refines now ok p (m # ms) s
           (m\<lparr>RemainingQty := RemainingQty m - mq\<rparr> # ms, afterFill m p mq tk' s)"
proof -
  let ?m = "m\<lparr>RemainingQty := RemainingQty m - mq\<rparr>" and ?s' = "afterFill m p mq tk' s"
  let ?f = "fillOf (batch s) ?m tk' p mq"
  have so: "same_order (taker s) tk'" using step(1) by (rule takeFrom_same_order)
  have "RemainingQty m - mq \<le> RemainingQty m" using mq(2) by (simp add: word_sub_le)
  then have c: "consumed (m # ms) (?m # ms)" using mq(1) by (intro consumed_head) auto
  have "fill_of_trade (batch ?s') tk' (p, m, mq) ?f"
    using fillOf_trade afterFill_extends_addFill by (rule fill_of_trade_mono [rotated])
  then have "list_all2 (fill_of_trade (batch ?s') (taker s)) [(p, m, mq)] [?f]"
    by (simp add: fill_of_trade_same [OF so])
  moreover have "refMatch now ok (map (Pair p) (m # ms) @ rest) (taker s) =
      (let (ts, rem, tk2) = refMatch now ok rest (taker ?s')
       in ([(p, m, mq)] @ ts, map (Pair p) (?m # ms) @ rem, tk2))" for rest
    using step mq by (simp add: refMatch_filled)
  ultimately show ?thesis
    using c so mq unfolding level_refines_def
    by (intro conjI exI [of _ "[(p, m, mq)]"] exI [of _ "[?f]"]) auto
qed

lemma matchLevel_refines:
  assumes p: "1 \<le> p" "p \<le> 99" "ok p"
    and tk: "safeTaker (taker s)" and ms: "\<forall>m \<in> set q. safeMaker m"
  shows "level_refines now ok p q s (matchLevel now p q s)"
proof -
  have "safeTaker (taker s) \<and> (\<forall>m \<in> set q. safeMaker m) \<longrightarrow>
      level_refines now ok p q s (matchLevel now p q s) \<and>
      extends (batch s) (batch (snd (matchLevel now p q s))) \<and>
      (IsFilled (taker s) \<longrightarrow> matchLevel now p q s = (q, s))"
  proof (rule matchLevel_rule [of "\<lambda>q s r. safeTaker (taker s) \<and> (\<forall>m \<in> set q. safeMaker m) \<longrightarrow>
      level_refines now ok p q s r \<and> extends (batch s) (batch (snd r)) \<and>
      (IsFilled (taker s) \<longrightarrow> r = (q, s))"], goal_cases)
    case (1 s)
    then show ?case by (auto simp: level_refines_def)
  next
    case (2 m ms s)
    then show ?case
      by (auto simp: level_refines_def refMatch_filled intro!: exI [of _ "[]"])
  next
    case (3 m ms s r)
    then show ?case
      using p by (auto intro!: level_refines_skip [of now ok p ms "dropExpired m s"]
          intro: extends_trans [OF drop_extends(1)])
  next
    case (4 m ms s r)
    then show ?case
      using p by (auto intro!: level_refines_skip [of now ok p ms "dropSelf m s"]
          intro: extends_trans [OF drop_extends(2)])
  next
    case (5 m ms s)
    show ?case
    proof
      assume "safeTaker (taker s) \<and> (\<forall>x \<in> set (m # ms). safeMaker x)"
      then obtain mq tk' where "takeFrom (taker s) m p = Some (mq, tk')"
        using 5 p by (auto elim: takeFrom_safe [of "taker s" m p])
      with 5 show "level_refines now ok p (m # ms) s (m # ms, s\<lparr>taker := (taker s)\<lparr>RemainingSpend := 0\<rparr>\<rparr>) \<and>
          extends (batch s) (batch (snd (m # ms, s\<lparr>taker := (taker s)\<lparr>RemainingSpend := 0\<rparr>\<rparr>))) \<and>
          (IsFilled (taker s) \<longrightarrow> (m # ms, s\<lparr>taker := (taker s)\<lparr>RemainingSpend := 0\<rparr>\<rparr>) = (m # ms, s))"
        by simp
    qed
  next
    case (6 m ms s tk' r)
    show ?case
    proof
      assume A: "safeTaker (taker s) \<and> (\<forall>x \<in> set (m # ms). safeMaker x)"
      then have "safeTaker tk'"
        using 6 p by (auto elim: takeFrom_safe [of "taker s" m p])
      then have "level_refines now ok p ms (afterFill m p (RemainingQty m) tk' s) r"
        "extends (batch (afterFill m p (RemainingQty m) tk' s)) (batch (snd r))"
        using 6 A by auto
      with 6 p show "level_refines now ok p (m # ms) s r \<and> extends (batch s) (batch (snd r)) \<and>
          (IsFilled (taker s) \<longrightarrow> r = (m # ms, s))"
        by (auto intro: level_refines_full extends_trans [OF afterFill_extends])
    qed
  next
    case (7 m ms s mq tk' q r)
    show ?case
    proof
      assume A: "safeTaker (taker s) \<and> (\<forall>x \<in> set (m # ms). safeMaker x)"
      then have t: "safeTaker tk'" "IsFilled tk'" "mq \<le> RemainingQty m"
        using 7 p by (auto elim: takeFrom_safe [of "taker s" m p])
      then have "(q, r) = (ms, afterFill m p mq tk' s)" using 7 A by auto
      with 7 t p show "level_refines now ok p (m # ms) s (m\<lparr>RemainingQty := RemainingQty m - mq\<rparr> # q, r) \<and>
          extends (batch s) (batch (snd (m\<lparr>RemainingQty := RemainingQty m - mq\<rparr> # q, r))) \<and>
          (IsFilled (taker s) \<longrightarrow> (m\<lparr>RemainingQty := RemainingQty m - mq\<rparr> # q, r) = (m # ms, s))"
        by (auto intro: level_refines_partial)
    qed
  qed
  with tk ms show ?thesis by blast
qed

end
