(* ===== verification/Sweep.thy ===== *)
theory Sweep
  imports Matching
begin

text \<open>
  The outer loops of \<open>matchAsks\<close> and \<open>matchBids\<close>.  Both walk a list of price ticks, upwards
  or downwards: \<open>walk\<close> is that loop on a list, \<open>asksLoop\<close> and \<open>bidsLoop\<close> are shown to return
  what it returns (so they end), and a walk refines the reference matcher run on the side's
  resting orders in price-time order.
\<close>

section \<open>Well-formed levels\<close>

definition level_ok :: "u8 \<Rightarrow> u8 \<Rightarrow> PriceLevel \<Rightarrow> bool" where
  "level_ok sd p l \<longleftrightarrow>
     TotalVolume l = qvol (Queue l) \<and> qsum (Queue l) < 2 ^ 64 \<and> (Queue l \<noteq> [] \<longrightarrow> 1 \<le> p \<and> p \<le> 99) \<and>
     (\<forall>m \<in> set (Queue l). safeMaker m \<and> Side m = sd \<and> PriceTick m = p \<and> OrderType m \<noteq> OrderTypeMarket)"

definition side_ok :: "u8 \<Rightarrow> levels \<Rightarrow> bool" where
  "side_ok sd arr \<longleftrightarrow> (\<forall>p l. arr p = Some l \<longrightarrow> level_ok sd p l)"

lemma level_ok_empty [simp]: "level_ok sd p emptyLevel"
  by (simp add: level_ok_def emptyLevel_def)

lemma levelOf_ok: "side_ok sd arr \<Longrightarrow> level_ok sd p (levelOf (arr p))"
  by (auto simp: side_ok_def levelOf_def split: option.splits)

lemma levelQueue_levelOf: "levelQueue l = Queue (levelOf l)"
  by (simp add: levelQueue_def levelOf_def emptyLevel_def split: option.split)

lemma levelQueue_Some [simp]: "levelQueue (Some l) = Queue l"
  by (simp add: levelQueue_def)

lemma levelOf_Some [simp]: "levelOf (Some l) = l"
  by (simp add: levelOf_def)

lemma levelQueue_None [simp]: "levelQueue None = []"
  by (simp add: levelQueue_def)

lemma side_ok_upd: "side_ok sd arr \<Longrightarrow> level_ok sd p l \<Longrightarrow> side_ok sd (arr(p := Some l))"
  by (simp add: side_ok_def)

lemma unat_qvol: "qsum q < 2 ^ 64 \<Longrightarrow> unat (qvol q) = qsum q"
  using unat_sum_list_words [of RemainingQty q] by (simp add: qvol_def qsum_def)

lemma qsum_zero: "\<forall>m \<in> set q. safeMaker m \<Longrightarrow> qsum q = 0 \<longleftrightarrow> q = []"
  by (cases q) (auto simp: safeMaker_def unsigned_eq_0_iff)

text \<open>Volume and makers are the same test on a well-formed level.\<close>

lemma hasVolume_iff: "side_ok sd arr \<Longrightarrow> hasVolume (arr p) \<longleftrightarrow> levelQueue (arr p) \<noteq> []"
proof (cases "arr p")
  case (Some l)
  moreover assume "side_ok sd arr"
  ultimately have l: "TotalVolume l = qvol (Queue l)" "qsum (Queue l) < 2 ^ 64"
    "\<forall>m \<in> set (Queue l). safeMaker m"
    by (auto simp: side_ok_def level_ok_def)
  have "0 < TotalVolume l \<longleftrightarrow> 0 < qsum (Queue l)"
    using l by (simp add: word_less_nat_alt unat_qvol)
  with Some qsum_zero [OF l(3)] show ?thesis by (auto simp: hasVolume_def)
qed (simp add: hasVolume_def)

lemma consumed_level_ok:
  assumes "level_ok sd p l" "consumed (Queue l) q" "v = qvol q"
  shows "level_ok sd p \<lparr>TotalVolume = v, Queue = q\<rparr>"
proof -
  have all: "\<And>m. m \<in> set (Queue l) \<Longrightarrow> safeMaker m \<and> Side m = sd \<and> PriceTick m = p \<and> OrderType m \<noteq> OrderTypeMarket"
    using assms(1) by (simp add: level_ok_def)
  have "safeMaker m \<and> Side m = sd \<and> PriceTick m = p \<and> OrderType m \<noteq> OrderTypeMarket" if "m \<in> set q" for m
    using assms(2) all _ that by (rule consumed_all) (use all safeMaker_less in auto)
  moreover have "qsum q < 2 ^ 64"
    using assms(1) consumed_qsum [OF assms(2)] by (simp add: level_ok_def)
  moreover have "q \<noteq> [] \<longrightarrow> Queue l \<noteq> []" using assms(2) by (auto simp: consumed_def)
  ultimately show ?thesis using assms(1,3) by (simp add: level_ok_def)
qed

section \<open>The ids of a side\<close>

definition sideIds :: "levels \<Rightarrow> u64 multiset" where
  "sideIds arr = (\<Sum>p \<in> UNIV. qids (levelQueue (arr p)))"

lemma finite_u8_univ [simp]: "finite (UNIV :: u8 set)"
  by (rule finite)

lemma sideIds_upd: "sideIds (arr(p := l)) + qids (levelQueue (arr p)) = sideIds arr + qids (levelQueue l)"
proof -
  have "sideIds a = qids (levelQueue (a p)) + (\<Sum>x \<in> UNIV - {p}. qids (levelQueue (a x)))" for a
    unfolding sideIds_def by (rule sum.remove) simp_all
  from this [of arr] this [of "arr(p := l)"] show ?thesis by simp
qed

lemma sideIds_ge: "qids (levelQueue (arr p)) \<subseteq># sideIds arr"
  unfolding sideIds_def by (subst sum.remove [of UNIV p]) simp_all

section \<open>One pass at a level\<close>

lemma matchAt_sel:
  "fst (matchAt now side p l s) \<longleftrightarrow> fst (matchLevel now p (Queue l)
     \<lparr>taker = sw_taker s, vol = TotalVolume l, ids = sw_ids s, batch = sw_batch s\<rparr>) = []"
  by (simp add: matchAt_def case_prod_beta Let_def)

definition startOf :: "PriceLevel \<Rightarrow> sweepState \<Rightarrow> matchState" where
  "startOf l s = \<lparr>taker = sw_taker s, vol = TotalVolume l, ids = sw_ids s, batch = sw_batch s\<rparr>"

lemma startOf_sel [simp]:
  "taker (startOf l s) = sw_taker s" "vol (startOf l s) = TotalVolume l"
  "ids (startOf l s) = sw_ids s" "batch (startOf l s) = sw_batch s"
  by (simp_all add: startOf_def)

lemma matchAt_split:
  assumes "matchLevel now p (Queue l) (startOf l s) = (q, r)"
  shows "matchAt now side p l s =
    (q = [], \<lparr>sw_levels = (sw_levels s)(p := Some \<lparr>TotalVolume = vol r, Queue = q\<rparr>),
      sw_taker = taker r, sw_ids = ids r, sw_batch = addDepthUpdate (batch r) side p (vol r)\<rparr>)"
  using assms by (simp add: matchAt_def startOf_def)

text \<open>What one pass guarantees; \<open>M\<close> stands for the ids of the other side.\<close>

definition sweep_ok :: "u8 \<Rightarrow> u64 multiset \<Rightarrow> sweepState \<Rightarrow> bool" where
  "sweep_ok sd M s \<longleftrightarrow> side_ok sd (sw_levels s) \<and> safeTaker (sw_taker s) \<and>
     sideIds (sw_levels s) + M = mset_set (sw_ids s)"

definition at :: "levels \<Rightarrow> u8 \<Rightarrow> (u8 \<times> MemoryOrder) list" where
  "at arr p = map (Pair p) (levelQueue (arr p))"

definition flat :: "levels \<Rightarrow> u8 list \<Rightarrow> (u8 \<times> MemoryOrder) list" where
  "flat arr ps = concat (map (at arr) ps)"

lemma flat_simps [simp]: "flat arr [] = []" "flat arr (p # ps) = at arr p @ flat arr ps"
  by (simp_all add: flat_def)

lemma flat_cong: "(\<And>p. p \<in> set ps \<Longrightarrow> levelQueue (arr p) = levelQueue (arr' p)) \<Longrightarrow> flat arr ps = flat arr' ps"
  by (induction ps) (auto simp: at_def)

lemma matchAt_step:
  assumes ok: "sweep_ok sd M s" and p: "1 \<le> p" "p \<le> 99" "good p"
    and step: "matchAt now side p (levelOf (sw_levels s p)) s = (e, s')"
  shows "sweep_ok sd M s'" "\<And>p'. p' \<noteq> p \<Longrightarrow> sw_levels s' p' = sw_levels s p'"
    "e \<longleftrightarrow> levelQueue (sw_levels s' p) = []" "e \<or> IsFilled (sw_taker s')"
    "same_order (sw_taker s) (sw_taker s')" "extends (sw_batch s) (sw_batch s')"
    "\<exists>T F. Fills (event (sw_batch s')) = Fills (event (sw_batch s)) @ F \<and>
       list_all2 (fill_of_trade (sw_batch s') (sw_taker s)) T F \<and>
       (\<forall>rest. refMatch now good (at (sw_levels s) p @ rest) (sw_taker s) =
          (let (ts, rem, tk') = refMatch now good rest (sw_taker s') in (T @ ts, at (sw_levels s') p @ rem, tk')))"
proof -
  let ?l = "levelOf (sw_levels s p)"
  obtain q r where qr: "matchLevel now p (Queue ?l) (startOf ?l s) = (q, r)" by (meson surj_pair)
  have s': "s' = \<lparr>sw_levels = (sw_levels s)(p := Some \<lparr>TotalVolume = vol r, Queue = q\<rparr>),
      sw_taker = taker r, sw_ids = ids r, sw_batch = addDepthUpdate (batch r) side p (vol r)\<rparr>"
    and e: "e \<longleftrightarrow> q = []"
    using step matchAt_split [OF qr, of side] by auto
  have lok: "level_ok sd p ?l" using ok by (simp add: sweep_ok_def levelOf_ok)
  have ref: "level_refines now good p (Queue ?l) (startOf ?l s) (q, r)"
    using matchLevel_refines [of p good "startOf ?l s" "Queue ?l" now] p ok lok
    by (simp add: qr sweep_ok_def level_ok_def)
  have qat: "Queue ?l = levelQueue (sw_levels s p)" by (simp add: levelQueue_levelOf)
  have v: "vol r = qvol q"
    using matchLevel_volume [of now p "Queue ?l" "startOf ?l s"] lok by (simp add: qr level_ok_def)
  have "qids (Queue ?l) \<subseteq># mset_set (sw_ids s)"
    using ok sideIds_ge [of "sw_levels s" p] by (metis qat sweep_ok_def mset_subset_eq_add_left subset_mset.trans)
  then have i: "mset_set (ids r) + qids (Queue ?l) = mset_set (sw_ids s) + qids q"
    using matchLevel_ids [of "Queue ?l" "startOf ?l s" now p] by (simp add: qr)
  have "sideIds (sw_levels s') + qids (Queue ?l) = sideIds (sw_levels s) + qids q"
    using sideIds_upd [of "sw_levels s" p "Some \<lparr>TotalVolume = vol r, Queue = q\<rparr>"] by (simp add: s' qat)
  then have "(sideIds (sw_levels s') + M) + qids (Queue ?l) = mset_set (ids r) + qids (Queue ?l)"
    using i ok by (simp add: sweep_ok_def) (metis add.assoc add.commute)
  then have "sideIds (sw_levels s') + M = mset_set (sw_ids s')" by (simp add: s')
  moreover have "side_ok sd (sw_levels s')"
    using ok ref v consumed_level_ok [OF lok, of q]
    by (simp add: s' side_ok_upd sweep_ok_def level_refines_def)
  ultimately show "sweep_ok sd M s'"
    using ref by (simp add: sweep_ok_def level_refines_def s')
  show "e \<longleftrightarrow> levelQueue (sw_levels s' p) = []" "e \<or> IsFilled (sw_taker s')"
    "same_order (sw_taker s) (sw_taker s')" "\<And>p'. p' \<noteq> p \<Longrightarrow> sw_levels s' p' = sw_levels s p'"
    using ref e by (auto simp: level_refines_def s')
  have "extends (sw_batch s) (batch r)"
    using matchLevel_extends [of "startOf ?l s" now p "Queue ?l"] by (simp add: qr)
  then show "extends (sw_batch s) (sw_batch s')"
    by (simp add: s') (rule extends_trans [OF _ addDepthUpdate_extends])
  from ref obtain T F where TF: "Fills (event (batch r)) = Fills (event (sw_batch s)) @ F"
    "list_all2 (fill_of_trade (batch r) (sw_taker s)) T F"
    "\<forall>rest. refMatch now good (map (Pair p) (Queue ?l) @ rest) (sw_taker s) =
       (let (ts, rem, tk') = refMatch now good rest (taker r) in (T @ ts, map (Pair p) q @ rem, tk'))"
    unfolding level_refines_def by auto
  have "list_all2 (fill_of_trade (sw_batch s') (sw_taker s)) T F"
    using TF(2) by (rule list_all2_mono) (auto simp: s' intro: fill_of_trade_mono [OF addDepthUpdate_extends])
  with TF show "\<exists>T F. Fills (event (sw_batch s')) = Fills (event (sw_batch s)) @ F \<and>
       list_all2 (fill_of_trade (sw_batch s') (sw_taker s)) T F \<and>
       (\<forall>rest. refMatch now good (at (sw_levels s) p @ rest) (sw_taker s) =
          (let (ts, rem, tk') = refMatch now good rest (sw_taker s') in (T @ ts, at (sw_levels s') p @ rem, tk')))"
    by (intro exI [of _ T] exI [of _ F]) (simp add: s' at_def qat frame)
qed

section \<open>A walk over a list of ticks\<close>

fun walk :: "unixtime \<Rightarrow> u8 \<Rightarrow> (u8 \<Rightarrow> bool) \<Rightarrow> u8 list \<Rightarrow> sweepState \<Rightarrow> u8 list \<times> sweepState" where
  "walk now side good [] s = ([], s)"
| "walk now side good (p # ps) s =
     (if IsFilled (sw_taker s) \<or> \<not> good p then (p # ps, s)
      else if levelQueue (sw_levels s p) = [] then walk now side good ps s
      else (let (e, s') = matchAt now side p (levelOf (sw_levels s p)) s
            in if e then walk now side good ps s' else (p # ps, s')))"

definition walk_refines ::
  "unixtime \<Rightarrow> u8 \<Rightarrow> u64 multiset \<Rightarrow> (u8 \<Rightarrow> bool) \<Rightarrow> u8 list \<Rightarrow> sweepState \<Rightarrow> u8 list \<times> sweepState \<Rightarrow> bool" where
  "walk_refines now sd M good ps s r \<longleftrightarrow>
     sweep_ok sd M (snd r) \<and> same_order (sw_taker s) (sw_taker (snd r)) \<and>
     extends (sw_batch s) (sw_batch (snd r)) \<and>
     (\<forall>p. p \<notin> set ps \<longrightarrow> sw_levels (snd r) p = sw_levels s p) \<and>
     (\<exists>pre. ps = pre @ fst r \<and> (\<forall>p \<in> set pre. levelQueue (sw_levels (snd r) p) = [])) \<and>
     (fst r = [] \<or> IsFilled (sw_taker (snd r)) \<or> \<not> good (hd (fst r))) \<and>
     (\<exists>T F. Fills (event (sw_batch (snd r))) = Fills (event (sw_batch s)) @ F \<and>
        list_all2 (fill_of_trade (sw_batch (snd r)) (sw_taker s)) T F \<and>
        refMatch now good (flat (sw_levels s) ps) (sw_taker s) =
          (T, flat (sw_levels (snd r)) (fst r), sw_taker (snd r)))"

lemma refMatch_stop:
  "\<forall>x \<in> set l. \<not> good (fst x) \<Longrightarrow> refMatch now good l tk = ([], l, tk)"
  by (cases "(now, good, l, tk)" rule: refMatch.cases) auto

lemma set_flat: "set (flat arr ps) = (\<Union>p \<in> set ps. Pair p ` set (levelQueue (arr p)))"
  by (auto simp: flat_def at_def)

lemma walk_refinesI:
  assumes "sweep_ok sd M s" "\<forall>p \<in> set ps. 1 \<le> p \<and> p \<le> 99" "distinct ps"
    "sorted_wrt (\<lambda>p p'. good p' \<longrightarrow> good p) ps"
  shows "walk_refines now sd M good ps s (walk now side good ps s)"
  using assms
proof (induction ps arbitrary: s)
  case Nil
  then show ?case by (simp add: walk_refines_def)
next
  case (Cons p ps)
  consider (stop) "IsFilled (sw_taker s)"
    | (bad) "\<not> good p"
    | (empty) "\<not> IsFilled (sw_taker s)" "good p" "levelQueue (sw_levels s p) = []"
    | (go) "\<not> IsFilled (sw_taker s)" "good p" "levelQueue (sw_levels s p) \<noteq> []"
    by blast
  then show ?case
  proof cases
    case stop
    then show ?thesis using Cons.prems by (simp add: walk_refines_def refMatch_filled)
  next
    case bad
    then have "\<forall>x \<in> set (flat (sw_levels s) (p # ps)). \<not> good (fst x)"
      using Cons.prems(4) by (auto simp: set_flat simp del: flat_simps)
    with bad show ?thesis
      using Cons.prems(1) refMatch_stop [of "flat (sw_levels s) (p # ps)"] by (simp add: walk_refines_def)
  next
    case empty
    have IH: "walk_refines now sd M good ps s (walk now side good ps s)"
      using Cons.prems by (intro Cons.IH) auto
    then obtain pre where pre: "ps = pre @ fst (walk now side good ps s)"
      "\<forall>x \<in> set pre. levelQueue (sw_levels (snd (walk now side good ps s)) x) = []"
      unfolding walk_refines_def by blast
    have keep: "sw_levels (snd (walk now side good ps s)) p = sw_levels s p"
      using IH Cons.prems(3) by (simp add: walk_refines_def)
    have "\<exists>pre. p # ps = pre @ fst (walk now side good ps s) \<and>
        (\<forall>x \<in> set pre. levelQueue (sw_levels (snd (walk now side good ps s)) x) = [])"
      using pre keep empty(3) by (intro exI [of _ "p # pre"]) auto
    with IH empty show ?thesis by (simp add: walk_refines_def at_def)
  next
    case go
    obtain e s' where es: "matchAt now side p (levelOf (sw_levels s p)) s = (e, s')" by (meson surj_pair)
    have p: "1 \<le> p" "p \<le> 99" using Cons.prems(2) by auto
    note st = matchAt_step [of sd M s p good, OF Cons.prems(1) p go(2) es]
    have same: "flat (sw_levels s') ps = flat (sw_levels s) ps"
      using st(2) Cons.prems(3) by (intro flat_cong) (metis distinct.simps(2))
    obtain T F where TF: "Fills (event (sw_batch s')) = Fills (event (sw_batch s)) @ F"
      "list_all2 (fill_of_trade (sw_batch s') (sw_taker s)) T F"
      "\<And>rest. refMatch now good (at (sw_levels s) p @ rest) (sw_taker s) =
         (let (ts, rem, tk') = refMatch now good rest (sw_taker s') in (T @ ts, at (sw_levels s') p @ rem, tk'))"
      using st(7) by blast
    show ?thesis
    proof (cases e)
      case False
      then have w: "walk now side good (p # ps) s = (p # ps, s')" using go es by simp
      have "IsFilled (sw_taker s')" using st(4) False by simp
      then have "refMatch now good (flat (sw_levels s) (p # ps)) (sw_taker s) =
          (T, flat (sw_levels s') (p # ps), sw_taker s')"
        using TF(3) [of "flat (sw_levels s) ps"] same by (simp add: refMatch_filled)
      with TF(1,2) st \<open>IsFilled (sw_taker s')\<close> show ?thesis
        unfolding w walk_refines_def by auto
    next
      case True
      let ?w = "walk now side good ps s'"
      have w: "walk now side good (p # ps) s = ?w" using go es True by simp
      have IH: "walk_refines now sd M good ps s' ?w"
        using Cons.prems st(1) by (intro Cons.IH) auto
      then obtain T2 F2 where TF2: "Fills (event (sw_batch (snd ?w))) = Fills (event (sw_batch s')) @ F2"
        "list_all2 (fill_of_trade (sw_batch (snd ?w)) (sw_taker s')) T2 F2"
        "refMatch now good (flat (sw_levels s') ps) (sw_taker s') =
           (T2, flat (sw_levels (snd ?w)) (fst ?w), sw_taker (snd ?w))"
        unfolding walk_refines_def by blast
      obtain pre where pre: "ps = pre @ fst ?w" "\<forall>x \<in> set pre. levelQueue (sw_levels (snd ?w) x) = []"
        using IH unfolding walk_refines_def by blast
      have keep: "levelQueue (sw_levels (snd ?w) p) = []"
        using IH Cons.prems(3) st(3) True by (simp add: walk_refines_def)
      have "\<exists>pre. p # ps = pre @ fst ?w \<and> (\<forall>x \<in> set pre. levelQueue (sw_levels (snd ?w) x) = [])"
        using pre keep by (intro exI [of _ "p # pre"]) auto
      moreover have "refMatch now good (flat (sw_levels s) (p # ps)) (sw_taker s) =
          (T @ T2, flat (sw_levels (snd ?w)) (fst ?w), sw_taker (snd ?w))"
        using TF(3) [of "flat (sw_levels s) ps"] TF2(3) same True st(3) by (simp add: at_def)
      moreover have "list_all2 (fill_of_trade (sw_batch (snd ?w)) (sw_taker s)) (T @ T2) (F @ F2)"
        using TF(2) TF2(2) IH fill_of_trade_same [OF st(5)]
        by (auto intro!: list_all2_appendI elim!: list_all2_mono
            intro: fill_of_trade_mono simp: walk_refines_def)
      moreover have "sw_levels (snd ?w) p' = sw_levels s p'" if "p' \<notin> set (p # ps)" for p'
        using IH st(2) that by (simp add: walk_refines_def)
      ultimately show ?thesis
        using IH TF(1) TF2(1) st(5,6) unfolding w
        by (auto simp: walk_refines_def intro: same_order_trans extends_trans)
    qed
  qed
qed

section \<open>The two loops are walks\<close>

definition upTicks :: "u8 \<Rightarrow> u8 list" where
  "upTicks t = map of_nat [unat t ..< 100]"

definition downTicks :: "u8 \<Rightarrow> u8 list" where
  "downTicks t = map of_nat (rev [1 ..< Suc (unat t)])"

lemma unat_of_nat_u8: "n < 256 \<Longrightarrow> unat (of_nat n :: u8) = n"
  by (simp add: unsigned_of_nat take_bit_nat_eq_self_iff)

lemma of_nat_u8_less: "m < 256 \<Longrightarrow> n < 256 \<Longrightarrow> (of_nat m :: u8) < of_nat n \<longleftrightarrow> m < n"
  by (simp add: word_less_nat_alt unat_of_nat_u8)

lemma set_upTicks: "set (upTicks t) = {p. t \<le> p \<and> p \<le> 99}"
proof -
  have "p \<in> set (upTicks t)" if "t \<le> p" "p \<le> 99" for p
    unfolding upTicks_def using that
    by (auto simp: word_le_nat_alt intro!: image_eqI [of _ _ "unat p"])
  moreover have "t \<le> p \<and> p \<le> 99" if "p \<in> set (upTicks t)" for p
    using that by (auto simp: upTicks_def word_le_nat_alt unat_of_nat_u8)
  ultimately show ?thesis by blast
qed

lemma set_downTicks: "t \<le> 99 \<Longrightarrow> set (downTicks t) = {p. 1 \<le> p \<and> p \<le> t}"
proof -
  assume t: "t \<le> 99"
  have "p \<in> set (downTicks t)" if "1 \<le> p" "p \<le> t" for p
    unfolding downTicks_def using that
    by (auto simp: word_le_nat_alt simp del: upt_Suc intro!: image_eqI [of _ _ "unat p"])
  moreover have "1 \<le> p \<and> p \<le> t" if "p \<in> set (downTicks t)" for p
    using that t by (auto simp: downTicks_def word_le_nat_alt unat_of_nat_u8 simp del: upt_Suc)
  ultimately show ?thesis by blast
qed

lemma sorted_upTicks: "sorted_wrt (<) (upTicks t)"
proof -
  have "sorted_wrt (\<lambda>m n. (of_nat m :: u8) < of_nat n) [unat t ..< 100]"
    by (rule sorted_wrt_mono_rel [OF _ sorted_wrt_upt]) (simp add: of_nat_u8_less)
  then show ?thesis by (simp add: upTicks_def sorted_wrt_map)
qed

lemma sorted_downTicks: "t \<le> 99 \<Longrightarrow> sorted_wrt (>) (downTicks t)"
proof -
  assume t: "t \<le> 99"
  have "sorted_wrt (\<lambda>m n. (of_nat m :: u8) < of_nat n) [1 ..< Suc (unat t)]"
    using t by (intro sorted_wrt_mono_rel [OF _ sorted_wrt_upt])
      (auto simp: of_nat_u8_less word_le_nat_alt simp del: upt_Suc)
  then show ?thesis by (simp add: downTicks_def sorted_wrt_map sorted_wrt_rev flip: rev_map)
qed

lemma sorted_wrt_less_distinct:
  "sorted_wrt (<) xs \<Longrightarrow> distinct (xs :: 'a::linorder list)"
  "sorted_wrt (>) xs \<Longrightarrow> distinct (xs :: 'a::linorder list)"
  by (induction xs) auto

lemma upTicks_Cons: "t \<le> 99 \<Longrightarrow> upTicks t = t # upTicks (t + 1)"
proof -
  assume t: "t \<le> 99"
  then have "[unat t ..< 100] = unat t # [Suc (unat t) ..< 100]"
    by (simp add: word_le_nat_alt upt_conv_Cons)
  then show ?thesis by (simp add: upTicks_def u8_succ_unat [OF t])
qed

lemma upTicks_Nil: "\<not> t \<le> 99 \<Longrightarrow> upTicks t = []"
  by (simp add: upTicks_def word_le_nat_alt)

lemma downTicks_0: "downTicks 0 = []"
  by (simp add: downTicks_def)

lemma downTicks_Cons: "t \<noteq> 0 \<Longrightarrow> downTicks t = t # downTicks (t - 1)"
proof -
  assume t: "t \<noteq> 0"
  then obtain n where n: "unat t = Suc n" by (metis not0_implies_Suc unsigned_eq_0_iff)
  moreover have "unat (t - 1) = n" using t n by (simp add: u8_pred_unat)
  moreover have "of_nat (Suc n) = t" using n unat_u8_less [of t]
    by (simp only: word_unat_eq_iff unat_of_nat_u8)
  ultimately show ?thesis by (simp add: downTicks_def)
qed

text \<open>The tick at which the upward loop stops is the first one left, 100 when none is left.\<close>

definition upStop :: "u8 list \<Rightarrow> u8" where
  "upStop ps = (case ps of [] \<Rightarrow> 100 | p # _ \<Rightarrow> p)"

definition downStop :: "u8 list \<Rightarrow> u8" where
  "downStop ps = (case ps of [] \<Rightarrow> 1 | p # _ \<Rightarrow> p)"

lemma asksLoop_stop: "IsFilled (sw_taker s) \<Longrightarrow> asksLoop now t s = Some (t, s)"
  by (subst asksLoop.simps) simp

lemma bidsLoop_stop: "IsFilled (sw_taker s) \<Longrightarrow> bidsLoop now t s = Some (t, s)"
  by (subst bidsLoop.simps) simp

lemma asksLoop_walk:
  assumes "sweep_ok sd M s" "1 \<le> t" "t \<le> 100" "lim = PriceTick (sw_taker s)"
  shows "asksLoop now t s =
    (let (ps, s') = walk now SideSell (\<lambda>p. p \<le> lim) (upTicks t) s in Some (upStop ps, s'))"
  using assms
proof (induction "100 - unat t" arbitrary: t s)
  case 0
  then have "t = 100" by (auto simp: word_le_nat_alt word_unat_eq_iff)
  then show ?case by (subst asksLoop.simps) (simp add: upTicks_def upStop_def)
next
  case (Suc k)
  have t: "t \<le> 99" using Suc.hyps(2) by (simp add: word_le_nat_alt)
  have k: "k = 100 - unat (t + 1)" "1 \<le> t + 1" "t + 1 \<le> 100"
    using Suc.hyps(2) t by (simp_all add: u8_succ_unat word_le_nat_alt)
  have t0: "t \<noteq> 0" using Suc.prems(2) by auto
  obtain e s' where es: "matchAt now SideSell t (levelOf (sw_levels s t)) s = (e, s')" by (meson surj_pair)
  show ?case
  proof (cases "\<not> IsFilled (sw_taker s) \<and> t \<le> lim")
    case False
    then show ?thesis
      using Suc.prems(4) by (subst asksLoop.simps) (auto simp: upTicks_Cons [OF t] upStop_def)
  next
    case go: True
    note st = matchAt_step [of sd M s t "\<lambda>p. p \<le> lim", OF Suc.prems(1,2) t _ es]
    have so: "lim = PriceTick (sw_taker s')" using go st(5) Suc.prems(4) by (simp add: same_orderD)
    show ?thesis
    proof (cases "levelQueue (sw_levels s t) = []")
      case True
      then show ?thesis
        using go t t0 Suc.hyps(1) [OF k(1) Suc.prems(1) k(2,3) Suc.prems(4)] Suc.prems(4)
        by (subst asksLoop.simps) (simp add: upTicks_Cons [OF t])
    next
      case ne: False
      show ?thesis
      proof (cases e)
        case True
        then show ?thesis
          using go t t0 ne es Suc.hyps(1) [OF k(1) st(1) k(2,3) so] Suc.prems(4)
          by (subst asksLoop.simps) (simp add: upTicks_Cons [OF t])
      next
        case False
        then have "IsFilled (sw_taker s')" using st(4) go by simp
        with False show ?thesis
          using go t t0 ne es Suc.prems(4)
          by (subst asksLoop.simps) (simp add: upTicks_Cons [OF t] asksLoop_stop upStop_def)
      qed
    qed
  qed
qed

lemma bidsLoop_walk:
  assumes "sweep_ok sd M s" "1 \<le> t" "t \<le> 99" "lim = PriceTick (sw_taker s)"
  shows "bidsLoop now t s =
    (let (ps, s') = walk now SideBuy (\<lambda>p. lim \<le> p) (downTicks t) s in Some (downStop ps, s'))"
  using assms
proof (induction "unat t" arbitrary: t s)
  case 0
  then show ?case by (simp add: word_le_nat_alt)
next
  case (Suc k)
  have t0: "t \<noteq> 0" using Suc.prems(2) by auto
  have k: "k = unat (t - 1)" and t1: "t - 1 \<le> 99"
    using Suc.hyps(2) Suc.prems(3) by (simp_all add: u8_pred_unat [OF t0] word_le_nat_alt)
  have pos: "t \<noteq> 1 \<Longrightarrow> 1 \<le> t - 1" using t0 Suc.hyps(2)
    by (auto simp: word_le_nat_alt u8_pred_unat [OF t0] word_unat_eq_iff)
  obtain e s' where es: "matchAt now SideBuy t (levelOf (sw_levels s t)) s = (e, s')" by (meson surj_pair)
  show ?case
  proof (cases "\<not> IsFilled (sw_taker s) \<and> lim \<le> t")
    case False
    then show ?thesis
      using Suc.prems(4) by (subst bidsLoop.simps) (auto simp: downTicks_Cons [OF t0] downStop_def)
  next
    case go: True
    note st = matchAt_step [of sd M s t "\<lambda>p. lim \<le> p", OF Suc.prems(1-3) _ es]
    have so: "lim = PriceTick (sw_taker s')" using go st(5) Suc.prems(4) by (simp add: same_orderD)
    show ?thesis
    proof (cases "levelQueue (sw_levels s t) = []")
      case True
      then show ?thesis
        using go t0 Suc.prems Suc.hyps(1) [OF k Suc.prems(1) pos t1 Suc.prems(4)]
        by (subst bidsLoop.simps) (auto simp: downTicks_Cons [OF t0] downTicks_0 downStop_def)
    next
      case ne: False
      show ?thesis
      proof (cases e)
        case True
        then show ?thesis
          using go t0 ne es Suc.prems Suc.hyps(1) [OF k st(1) pos t1 so]
          by (subst bidsLoop.simps) (auto simp: downTicks_Cons [OF t0] downTicks_0 downStop_def)
      next
        case False
        then have "IsFilled (sw_taker s')" using st(4) go by simp
        with False show ?thesis
          using go t0 ne es Suc.prems
          by (subst bidsLoop.simps) (simp add: downTicks_Cons [OF t0] bidsLoop_stop downStop_def)
      qed
    qed
  qed
qed

end
