(* ===== verification/BookSpec.thy ===== *)
theory BookSpec
  imports Sweep
begin

text \<open>
  The order book as a whole: its invariant, the reference lists of resting orders in price-time
  order, and what the matching of an incoming order and its insertion do to them.
\<close>

section \<open>Scanning for the best price\<close>

lemma find_append: "find P (xs @ ys) = (case find P xs of None \<Rightarrow> find P ys | Some x \<Rightarrow> Some x)"
  by (induction xs) auto

lemma find_skip: "\<forall>x \<in> set xs. \<not> P x \<Longrightarrow> find P (xs @ ys) = find P ys"
  by (induction xs) auto

lemma find_first:
  assumes "sorted_wrt R xs" "x \<in> set xs" "P x" "\<And>y. y \<in> set xs \<Longrightarrow> R y x \<Longrightarrow> \<not> P y"
  shows "find P xs = Some x"
  using assms by (induction xs) auto

lemma scanUp_ticks: "scanUp arr t = (case find (\<lambda>p. hasVolume (arr p)) (upTicks t) of None \<Rightarrow> 0 | Some p \<Rightarrow> p)"
  by (simp add: scanUp_def upTicks_def)

lemma scanDown_ticks: "scanDown arr t = (case find (\<lambda>p. hasVolume (arr p)) (downTicks t) of None \<Rightarrow> 0 | Some p \<Rightarrow> p)"
  by (simp add: scanDown_def downTicks_def)

text \<open>The best ask is the least tick with volume, the best bid the greatest; 0 if there is none.\<close>

definition is_best_ask :: "levels \<Rightarrow> u8 \<Rightarrow> bool" where
  "is_best_ask arr a \<longleftrightarrow> (a = 0 \<and> (\<forall>p. 1 \<le> p \<and> p \<le> 99 \<longrightarrow> \<not> hasVolume (arr p))) \<or>
     (1 \<le> a \<and> a \<le> 99 \<and> hasVolume (arr a) \<and> (\<forall>p. 1 \<le> p \<and> p < a \<longrightarrow> \<not> hasVolume (arr p)))"

definition is_best_bid :: "levels \<Rightarrow> u8 \<Rightarrow> bool" where
  "is_best_bid arr b \<longleftrightarrow> (b = 0 \<and> (\<forall>p. 1 \<le> p \<and> p \<le> 99 \<longrightarrow> \<not> hasVolume (arr p))) \<or>
     (1 \<le> b \<and> b \<le> 99 \<and> hasVolume (arr b) \<and> (\<forall>p. b < p \<and> p \<le> 99 \<longrightarrow> \<not> hasVolume (arr p)))"

lemma scanUp_eqI:
  assumes "is_best_ask arr a"
  shows "scanUp arr 1 = a"
proof (cases "a = 0")
  case True
  with assms have "\<forall>p \<in> set (upTicks 1). \<not> hasVolume (arr p)"
    by (auto simp: is_best_ask_def set_upTicks)
  then show ?thesis using True find_skip [of "upTicks 1" _ "[]"] by (simp add: scanUp_ticks)
next
  case False
  with assms have "find (\<lambda>p. hasVolume (arr p)) (upTicks 1) = Some a"
    by (intro find_first [OF sorted_upTicks]) (auto simp: is_best_ask_def set_upTicks)
  then show ?thesis by (simp add: scanUp_ticks)
qed

lemma scanDown_eqI:
  assumes "is_best_bid arr b"
  shows "scanDown arr 99 = b"
proof (cases "b = 0")
  case True
  with assms have "\<forall>p \<in> set (downTicks 99). \<not> hasVolume (arr p)"
    by (auto simp: is_best_bid_def set_downTicks)
  then show ?thesis using True find_skip [of "downTicks 99" _ "[]"] by (simp add: scanDown_ticks)
next
  case False
  with assms have "find (\<lambda>p. hasVolume (arr p)) (downTicks 99) = Some b"
    by (intro find_first [OF sorted_downTicks]) (auto simp: is_best_bid_def set_downTicks)
  then show ?thesis by (simp add: scanDown_ticks)
qed

lemma ex_least_u8: "(P :: u8 \<Rightarrow> bool) p \<Longrightarrow> \<exists>q. P q \<and> (\<forall>r. r < q \<longrightarrow> \<not> P r)"
  using wellorder_Least_lemma(1) [of P p] not_less_Least [of _ P] by blast

lemma ex_greatest_u8: "(P :: u8 \<Rightarrow> bool) p \<Longrightarrow> \<exists>q. P q \<and> (\<forall>r. q < r \<longrightarrow> \<not> P r)"
proof -
  assume "P p"
  then have "finite {x. P x}" "{x. P x} \<noteq> {}" by auto
  then have "P (Max {x. P x})" "\<forall>r. P r \<longrightarrow> r \<le> Max {x. P x}"
    using Max_in [of "{x. P x}"] Max_ge [of "{x. P x}"] by auto
  then show ?thesis by (metis not_less)
qed

lemma scanUp_best: "is_best_ask arr (scanUp arr 1)"
proof (cases "\<exists>p. 1 \<le> p \<and> p \<le> 99 \<and> hasVolume (arr p)")
  case False
  then have "is_best_ask arr 0" by (simp add: is_best_ask_def)
  with scanUp_eqI show ?thesis by metis
next
  case True
  then obtain a where "1 \<le> a \<and> a \<le> 99 \<and> hasVolume (arr a)"
    and "\<forall>r. r < a \<longrightarrow> \<not> (1 \<le> r \<and> r \<le> 99 \<and> hasVolume (arr r))"
    using ex_least_u8 [of "\<lambda>p. 1 \<le> p \<and> p \<le> 99 \<and> hasVolume (arr p)"] by blast
  then have "is_best_ask arr a" unfolding is_best_ask_def by (meson less_imp_le order_trans)
  with scanUp_eqI show ?thesis by metis
qed

lemma scanDown_best: "is_best_bid arr (scanDown arr 99)"
proof (cases "\<exists>p. 1 \<le> p \<and> p \<le> 99 \<and> hasVolume (arr p)")
  case False
  then have "is_best_bid arr 0" by (simp add: is_best_bid_def)
  with scanDown_eqI show ?thesis by metis
next
  case True
  then obtain a where "1 \<le> a \<and> a \<le> 99 \<and> hasVolume (arr a)"
    and "\<forall>r. a < r \<longrightarrow> \<not> (1 \<le> r \<and> r \<le> 99 \<and> hasVolume (arr r))"
    using ex_greatest_u8 [of "\<lambda>p. 1 \<le> p \<and> p \<le> 99 \<and> hasVolume (arr p)"] by blast
  then have "is_best_bid arr a" unfolding is_best_bid_def by (meson less_imp_le order_trans)
  with scanDown_eqI show ?thesis by metis
qed

section \<open>The invariant\<close>

definition restingAsks :: "FixedArrayOrderBook \<Rightarrow> (u8 \<times> MemoryOrder) list" where
  "restingAsks ob = flat (Asks ob) (upTicks 1)"

definition restingBids :: "FixedArrayOrderBook \<Rightarrow> (u8 \<times> MemoryOrder) list" where
  "restingBids ob = flat (Bids ob) (downTicks 99)"

definition book_ok :: "FixedArrayOrderBook \<Rightarrow> bool" where
  "book_ok ob \<longleftrightarrow> side_ok SideBuy (Bids ob) \<and> side_ok SideSell (Asks ob) \<and>
     sideIds (Asks ob) + sideIds (Bids ob) = mset_set (ob_Orders ob) \<and>
     is_best_bid (Bids ob) (BestBidPrice ob) \<and> is_best_ask (Asks ob) (BestAskPrice ob)"

definition uncrossed :: "FixedArrayOrderBook \<Rightarrow> bool" where
  "uncrossed ob \<longleftrightarrow> BestBidPrice ob = 0 \<or> BestAskPrice ob = 0 \<or> BestBidPrice ob < BestAskPrice ob"

lemma NewFixedArrayOrderBook_ok [invs]: "book_ok (NewFixedArrayOrderBook m)" "uncrossed (NewFixedArrayOrderBook m)"
  by (simp_all add: book_ok_def uncrossed_def NewFixedArrayOrderBook_def side_ok_def sideIds_def
      is_best_bid_def is_best_ask_def hasVolume_def)

text \<open>Ticks before the best price, and the suffix a walk leaves.\<close>

lemma upTicks_split:
  assumes "1 \<le> t" "t \<le> 100"
  obtains pre where "upTicks 1 = pre @ upTicks t" "\<forall>p \<in> set pre. 1 \<le> p \<and> p < t"
proof
  have "[1 ..< 100] = [1 ..< unat t] @ [unat t ..< 100]"
    using assms upt_add_eq_append [of 1 "unat t" "100 - unat t"] by (simp add: word_le_nat_alt)
  then show "upTicks 1 = map of_nat [1 ..< unat t] @ upTicks t"
    by (simp add: upTicks_def flip: map_append)
  show "\<forall>p \<in> set (map of_nat [1 ..< unat t]). 1 \<le> p \<and> p < t"
    using assms by (auto simp: word_le_nat_alt word_less_nat_alt unat_of_nat_u8)
qed

lemma downTicks_split:
  assumes "t \<le> 99"
  obtains pre where "downTicks 99 = pre @ downTicks t" "\<forall>p \<in> set pre. t < p \<and> p \<le> 99"
proof
  have "[1 ..< 100] = [1 ..< Suc (unat t)] @ [Suc (unat t) ..< 100]"
    using assms upt_add_eq_append [of 1 "Suc (unat t)" "99 - unat t"]
    by (simp add: word_le_nat_alt del: upt_Suc)
  then have "downTicks 99 = map of_nat (rev ([1 ..< Suc (unat t)] @ [Suc (unat t) ..< 100]))"
    by (simp add: downTicks_def del: upt_Suc)
  then show "downTicks 99 = map of_nat (rev [Suc (unat t) ..< 100]) @ downTicks t"
    by (simp add: downTicks_def del: upt_Suc)
  show "\<forall>p \<in> set (map of_nat (rev [Suc (unat t) ..< 100])). t < p \<and> p \<le> 99"
    by (auto simp: word_le_nat_alt word_less_nat_alt unat_of_nat_u8 simp del: upt_Suc)
qed

lemma upTicks_suffix: "upTicks t = pre @ p # ps \<Longrightarrow> p # ps = upTicks p"
proof (induction pre arbitrary: t)
  case Nil
  then have "t \<le> 99" using upTicks_Nil by force
  with Nil show ?case by (metis append_Nil list.inject upTicks_Cons)
next
  case (Cons x pre)
  then have "t \<le> 99" using upTicks_Nil by force
  with Cons show ?case by (metis append_Cons list.inject upTicks_Cons)
qed

lemma downTicks_suffix: "downTicks t = pre @ p # ps \<Longrightarrow> p # ps = downTicks p"
proof (induction pre arbitrary: t)
  case Nil
  then have "t \<noteq> 0" using downTicks_0 by force
  with Nil show ?case by (metis append_Nil list.inject downTicks_Cons)
next
  case (Cons x pre)
  then have "t \<noteq> 0" using downTicks_0 by force
  with Cons show ?case by (metis append_Cons list.inject downTicks_Cons)
qed

lemma flat_skip: "\<forall>p \<in> set pre. levelQueue (arr p) = [] \<Longrightarrow> flat arr (pre @ ps) = flat arr ps"
  by (induction pre) (auto simp: at_def)

lemma side_ok_zero: "side_ok sd arr \<Longrightarrow> levelQueue (arr 0) = []"
  using levelOf_ok [of sd arr 0] by (auto simp: level_ok_def levelQueue_levelOf)

section \<open>Matching a side\<close>

text \<open>What \<open>matchAsks\<close> and \<open>matchBids\<close> share: the walk from the best price, seen from the
  whole side.\<close>

lemma asks_from_best:
  assumes ok: "side_ok SideSell arr" and best: "is_best_ask arr t" "t \<noteq> 0"
  shows "flat arr (upTicks t) = flat arr (upTicks 1)" "1 \<le> t" "t \<le> 99"
proof -
  show t: "1 \<le> t" "t \<le> 99" using best by (auto simp: is_best_ask_def)
  have "t \<le> 100" using t(2) by (simp add: word_le_nat_alt)
  with t(1) obtain pre where "upTicks 1 = pre @ upTicks t" "\<forall>p \<in> set pre. 1 \<le> p \<and> p < t"
    by (rule upTicks_split)
  moreover have "\<forall>p. 1 \<le> p \<and> p < t \<longrightarrow> levelQueue (arr p) = []"
    using best hasVolume_iff [OF ok] by (auto simp: is_best_ask_def)
  ultimately show "flat arr (upTicks t) = flat arr (upTicks 1)" by (simp add: flat_skip)
qed

lemma bids_from_best:
  assumes ok: "side_ok SideBuy arr" and best: "is_best_bid arr t" "t \<noteq> 0"
  shows "flat arr (downTicks t) = flat arr (downTicks 99)" "1 \<le> t" "t \<le> 99"
proof -
  show t: "1 \<le> t" "t \<le> 99" using best by (auto simp: is_best_bid_def)
  obtain pre where "downTicks 99 = pre @ downTicks t" "\<forall>p \<in> set pre. t < p \<and> p \<le> 99"
    using t(2) by (rule downTicks_split)
  moreover have "\<forall>p. t < p \<and> p \<le> 99 \<longrightarrow> levelQueue (arr p) = []"
    using best hasVolume_iff [OF ok] by (auto simp: is_best_bid_def)
  ultimately show "flat arr (downTicks t) = flat arr (downTicks 99)" by (simp add: flat_skip)
qed

lemma no_volume_flat:
  assumes "side_ok sd arr" "\<forall>p. 1 \<le> p \<and> p \<le> 99 \<longrightarrow> \<not> hasVolume (arr p)" "\<forall>p \<in> set ps. 1 \<le> p \<and> p \<le> 99"
  shows "flat arr ps = []"
proof -
  have "\<forall>p \<in> set ps. levelQueue (arr p) = []" using assms hasVolume_iff [OF assms(1)] by blast
  then show ?thesis using flat_skip [of ps arr "[]"] by simp
qed

text \<open>The conclusion both sides share: \<open>L\<close> and \<open>L'\<close> are the resting lists before and after.\<close>

definition sweep_result ::
  "unixtime \<Rightarrow> (u8 \<Rightarrow> bool) \<Rightarrow> MemoryOrder \<Rightarrow> pendingBatch \<Rightarrow> (u8 \<times> MemoryOrder) list \<Rightarrow>
   (u8 \<times> MemoryOrder) list \<Rightarrow> MemoryOrder \<Rightarrow> pendingBatch \<Rightarrow> bool" where
  "sweep_result now good tk b L L' tk' b' \<longleftrightarrow>
     safeTaker tk' \<and> same_order tk tk' \<and> extends b b' \<and>
     (\<exists>T F. Fills (event b') = Fills (event b) @ F \<and> list_all2 (fill_of_trade b' tk) T F \<and>
            refMatch now good L tk = (T, L', tk'))"

lemma walk_result:
  assumes "walk_refines now sd M good ps s r"
  shows "sweep_result now good (sw_taker s) (sw_batch s) (flat (sw_levels s) ps)
           (flat (sw_levels (snd r)) (fst r)) (sw_taker (snd r)) (sw_batch (snd r))"
  using assms unfolding walk_refines_def sweep_result_def sweep_ok_def by blast

lemma matchLevel_ids_sub: "ids (snd (matchLevel now p q s)) \<subseteq> ids s"
  by (rule matchLevel_rule [of "\<lambda>q s r. ids (snd r) \<subseteq> ids s"]) (auto split: if_splits)

lemma walk_ids_sub: "sw_ids (snd (walk now side good ps s)) \<subseteq> sw_ids s"
proof (induction ps arbitrary: s)
  case (Cons p ps)
  obtain e s' where es: "matchAt now side p (levelOf (sw_levels s p)) s = (e, s')" by (meson surj_pair)
  have "sw_ids s' \<subseteq> sw_ids s"
    using es matchLevel_ids_sub by (fastforce simp: matchAt_def case_prod_beta Let_def)
  with Cons.IH [of s] Cons.IH [of s'] es show ?case by auto
qed simp

text \<open>The best price after the walk, from the tick where it stopped.\<close>

lemma scanUp_skip:
  assumes "1 \<le> t" "t \<le> 100" "\<forall>p. 1 \<le> p \<and> p < t \<longrightarrow> \<not> hasVolume (arr p)"
  shows "scanUp arr t = scanUp arr 1"
proof -
  obtain pre where "upTicks 1 = pre @ upTicks t" "\<forall>p \<in> set pre. 1 \<le> p \<and> p < t"
    using assms(1,2) by (rule upTicks_split)
  then show ?thesis using assms(3) find_skip [of pre "\<lambda>p. hasVolume (arr p)"] by (simp add: scanUp_ticks)
qed

lemma scanDown_skip:
  assumes "t \<le> 99" "\<forall>p. t < p \<and> p \<le> 99 \<longrightarrow> \<not> hasVolume (arr p)"
  shows "scanDown arr t = scanDown arr 99"
proof -
  obtain pre where "downTicks 99 = pre @ downTicks t" "\<forall>p \<in> set pre. t < p \<and> p \<le> 99"
    using assms(1) by (rule downTicks_split)
  then show ?thesis using assms(2) find_skip [of pre "\<lambda>p. hasVolume (arr p)"] by (simp add: scanDown_ticks)
qed

text \<open>A walk from the best ask: where it stops, and the resting orders from there on.\<close>

lemma walk_up_end:
  assumes w: "walk_refines now SideSell M good (upTicks t) s (ps, s')"
    and best: "is_best_ask (sw_levels s) t" "t \<noteq> 0" and ok: "side_ok SideSell (sw_levels s)"
  shows "scanUp (sw_levels s') (upStop ps) = scanUp (sw_levels s') 1"
    "flat (sw_levels s') ps = flat (sw_levels s') (upTicks 1)"
    "scanUp (sw_levels s') 1 = 0 \<or> t \<le> scanUp (sw_levels s') 1"
    "ps \<noteq> [] \<Longrightarrow> scanUp (sw_levels s') 1 = 0 \<or> hd ps \<le> scanUp (sw_levels s') 1"
    "ps = [] \<Longrightarrow> scanUp (sw_levels s') 1 = 0"
proof -
  have t: "1 \<le> t" "t \<le> 99" using best by (auto simp: is_best_ask_def)
  have ok': "side_ok SideSell (sw_levels s')" using w by (simp add: walk_refines_def sweep_ok_def)
  obtain pre where pre: "upTicks t = pre @ ps" "\<forall>p \<in> set pre. levelQueue (sw_levels s' p) = []"
    using w unfolding walk_refines_def by auto
  have le100: "t \<le> 100" using t(2) by (simp add: word_le_nat_alt)
  obtain pre0 where pre0: "upTicks 1 = pre0 @ upTicks t" "\<forall>p \<in> set pre0. 1 \<le> p \<and> p < t"
    using t(1) le100 by (rule upTicks_split)
  have q0: "levelQueue (sw_levels s' p) = []" if "1 \<le> p" "p < t" for p
  proof -
    have "p \<notin> set (upTicks t)" using that by (simp add: set_upTicks not_le)
    then have "sw_levels s' p = sw_levels s p" using w by (simp add: walk_refines_def)
    moreover have "\<not> hasVolume (sw_levels s p)" using best that by (auto simp: is_best_ask_def)
    ultimately show ?thesis using hasVolume_iff [OF ok] by metis
  qed
  have all: "upTicks 1 = (pre0 @ pre) @ ps" "\<forall>p \<in> set (pre0 @ pre). levelQueue (sw_levels s' p) = []"
    using pre0 pre q0 by auto
  then show "flat (sw_levels s') ps = flat (sw_levels s') (upTicks 1)" by (simp only: flat_skip)
  have find: "find (\<lambda>p. hasVolume (sw_levels s' p)) (upTicks 1) = find (\<lambda>p. hasVolume (sw_levels s' p)) ps"
    unfolding all(1) using all(2) hasVolume_iff [OF ok'] by (intro find_skip) auto
  have b: "scanUp (sw_levels s') 1 = 0 \<or> (scanUp (sw_levels s') 1 \<in> set ps)"
    unfolding scanUp_ticks find by (auto split: option.split simp: find_Some_iff)
  then show "scanUp (sw_levels s') 1 = 0 \<or> t \<le> scanUp (sw_levels s') 1"
    using pre(1) set_upTicks [of t] by auto
  show "ps = [] \<Longrightarrow> scanUp (sw_levels s') 1 = 0" using b by auto
  show "scanUp (sw_levels s') (upStop ps) = scanUp (sw_levels s') 1"
  proof (cases ps)
    case Nil
    then show ?thesis using b by (simp add: upStop_def scanUp_ticks upTicks_def)
  next
    case (Cons p ps')
    then have "ps = upTicks p" using upTicks_suffix all(1) by metis
    moreover have "upStop ps = p" using Cons by (simp add: upStop_def)
    ultimately show ?thesis using find by (simp add: scanUp_ticks)
  qed
  show "ps \<noteq> [] \<Longrightarrow> scanUp (sw_levels s') 1 = 0 \<or> hd ps \<le> scanUp (sw_levels s') 1"
  proof -
    assume "ps \<noteq> []"
    then obtain p ps' where p: "ps = p # ps'" by (cases ps) auto
    then have "ps = upTicks p" using upTicks_suffix all(1) by metis
    then have "set ps = {x. p \<le> x \<and> x \<le> 99}" by (simp only: set_upTicks)
    with b p show ?thesis by force
  qed
qed

lemma walk_down_end:
  assumes w: "walk_refines now SideBuy M good (downTicks t) s (ps, s')"
    and best: "is_best_bid (sw_levels s) t" "t \<noteq> 0" and ok: "side_ok SideBuy (sw_levels s)"
  shows "scanDown (sw_levels s') (downStop ps) = scanDown (sw_levels s') 99"
    "flat (sw_levels s') ps = flat (sw_levels s') (downTicks 99)"
    "scanDown (sw_levels s') 99 = 0 \<or> scanDown (sw_levels s') 99 \<le> t"
    "ps \<noteq> [] \<Longrightarrow> scanDown (sw_levels s') 99 = 0 \<or> scanDown (sw_levels s') 99 \<le> hd ps"
    "ps = [] \<Longrightarrow> scanDown (sw_levels s') 99 = 0"
proof -
  have t: "1 \<le> t" "t \<le> 99" using best by (auto simp: is_best_bid_def)
  have ok': "side_ok SideBuy (sw_levels s')" using w by (simp add: walk_refines_def sweep_ok_def)
  obtain pre where pre: "downTicks t = pre @ ps" "\<forall>p \<in> set pre. levelQueue (sw_levels s' p) = []"
    using w unfolding walk_refines_def by auto
  obtain pre0 where pre0: "downTicks 99 = pre0 @ downTicks t" "\<forall>p \<in> set pre0. t < p \<and> p \<le> 99"
    using t(2) by (rule downTicks_split)
  have q0: "levelQueue (sw_levels s' p) = []" if "t < p" "p \<le> 99" for p
  proof -
    have "p \<notin> set (downTicks t)" using that t by (simp add: set_downTicks not_le)
    then have "sw_levels s' p = sw_levels s p" using w by (simp add: walk_refines_def)
    moreover have "\<not> hasVolume (sw_levels s p)" using best that by (auto simp: is_best_bid_def)
    ultimately show ?thesis using hasVolume_iff [OF ok] by metis
  qed
  have all: "downTicks 99 = (pre0 @ pre) @ ps" "\<forall>p \<in> set (pre0 @ pre). levelQueue (sw_levels s' p) = []"
    using pre0 pre q0 by auto
  then show "flat (sw_levels s') ps = flat (sw_levels s') (downTicks 99)" by (simp only: flat_skip)
  have find: "find (\<lambda>p. hasVolume (sw_levels s' p)) (downTicks 99) = find (\<lambda>p. hasVolume (sw_levels s' p)) ps"
    unfolding all(1) using all(2) hasVolume_iff [OF ok'] by (intro find_skip) auto
  have b: "scanDown (sw_levels s') 99 = 0 \<or> (scanDown (sw_levels s') 99 \<in> set ps)"
    unfolding scanDown_ticks find by (auto split: option.split simp: find_Some_iff)
  have sub: "set ps \<subseteq> {p. 1 \<le> p \<and> p \<le> 99}"
    using all(1) set_downTicks [of 99] by auto
  show "scanDown (sw_levels s') 99 = 0 \<or> scanDown (sw_levels s') 99 \<le> t"
    using b pre(1) set_downTicks [OF t(2)] by auto
  show "ps = [] \<Longrightarrow> scanDown (sw_levels s') 99 = 0" using b by auto
  have suffix: "p # ps' = downTicks p \<and> p \<le> 99" if "ps = p # ps'" for p ps'
    using that downTicks_suffix all(1) sub by (metis insert_subset list.simps(15) mem_Collect_eq)
  show "scanDown (sw_levels s') (downStop ps) = scanDown (sw_levels s') 99"
  proof (cases ps)
    case Nil
    have "set (downTicks 1) \<subseteq> {1}" using set_downTicks [of 1] by (auto simp: word_le_nat_alt word_unat_eq_iff)
    moreover have "find (\<lambda>p. hasVolume (sw_levels s' p)) (downTicks 99) = None" using find Nil by simp
    ultimately have "find (\<lambda>p. hasVolume (sw_levels s' p)) (downTicks 1) = None"
      using set_downTicks [of 99] by (auto simp: find_None_iff)
    then show ?thesis using Nil b by (simp add: downStop_def scanDown_ticks)
  next
    case (Cons p ps')
    then have "ps = downTicks p" using suffix by blast
    moreover have "downStop ps = p" using Cons by (simp add: downStop_def)
    ultimately show ?thesis using find by (simp add: scanDown_ticks)
  qed
  show "ps \<noteq> [] \<Longrightarrow> scanDown (sw_levels s') 99 = 0 \<or> scanDown (sw_levels s') 99 \<le> hd ps"
  proof -
    assume "ps \<noteq> []"
    then obtain p ps' where p: "ps = p # ps'" by (cases ps) auto
    then have "ps = downTicks p" "p \<le> 99" using suffix by blast+
    then have "set ps = {x. 1 \<le> x \<and> x \<le> p}" by (simp only: set_downTicks)
    with b p show ?thesis by force
  qed
qed

section \<open>Matching against the book\<close>

lemma sweep_result_nil: "safeTaker tk \<Longrightarrow> sweep_result now good tk b [] [] tk b"
  by (simp add: sweep_result_def)

lemma matchAsks_spec:
  assumes ok: "book_ok ob" and tk: "safeTaker tk"
  obtains ob' tk' b' where "matchAsks ob tk b = Some (Inr (ob', tk', b'))"
    "book_ok ob'"
    "ob' = ob\<lparr>Asks := Asks ob', ob_Orders := ob_Orders ob', BestAskPrice := BestAskPrice ob'\<rparr>"
    "sweep_result (CurrentTime ob) (\<lambda>p. p \<le> PriceTick tk) tk b (restingAsks ob) (restingAsks ob') tk' b'"
    "IsFilled tk' \<or> BestAskPrice ob' = 0 \<or> PriceTick tk < BestAskPrice ob'"
    "BestAskPrice ob' = 0 \<or> (BestAskPrice ob \<noteq> 0 \<and> BestAskPrice ob \<le> BestAskPrice ob')"
    "ob_Orders ob' \<subseteq> ob_Orders ob"
proof -
  let ?t = "BestAskPrice ob" and ?good = "\<lambda>p. p \<le> PriceTick tk" and ?now = "CurrentTime ob"
  let ?s = "\<lparr>sw_levels = Asks ob, sw_taker = tk, sw_ids = ob_Orders ob, sw_batch = b\<rparr>"
  have sa: "side_ok SideSell (Asks ob)" and best: "is_best_ask (Asks ob) ?t"
    using ok by (simp_all add: book_ok_def)
  have sw: "sweep_ok SideSell (sideIds (Bids ob)) ?s"
    using ok tk by (simp add: sweep_ok_def book_ok_def)
  have tgt: "(if ?t = 0 then scanUp (Asks ob) 1 else ?t) = ?t"
    using scanUp_eqI [OF best] by simp
  show thesis
  proof (cases "?t = 0")
    case True
    then have nv: "\<forall>p. 1 \<le> p \<and> p \<le> 99 \<longrightarrow> \<not> hasVolume (Asks ob p)"
      using best by (auto simp: is_best_ask_def)
    have "\<not> hasVolume (Asks ob 0)" using side_ok_zero [OF sa] hasVolume_iff [OF sa] by simp
    then have "scanUp (Asks ob) 0 = scanUp (Asks ob) 1"
      using upTicks_Cons [of 0] by (simp add: scanUp_ticks)
    then have up: "updateBestAsk ob 0 = ob"
      using True scanUp_eqI [OF best] by (simp add: updateBestAsk_def)
    have loop: "asksLoop ?now 0 ?s = Some (0, ?s)" by (subst asksLoop.simps) simp
    have flat0: "restingAsks ob = []"
      unfolding restingAsks_def using sa nv by (rule no_volume_flat) (simp add: set_upTicks)
    show thesis
    proof (rule that)
      show "matchAsks ob tk b = Some (Inr (ob, tk, b))"
        using tgt True loop up by (simp add: matchAsks_def Let_def)
      show "sweep_result ?now ?good tk b (restingAsks ob) (restingAsks ob) tk b"
        unfolding flat0 using tk by (rule sweep_result_nil)
    qed (use True ok in simp_all)
  next
    case False
    obtain ps s' where w: "walk ?now SideSell ?good (upTicks ?t) ?s = (ps, s')" by (meson surj_pair)
    note fb = asks_from_best [OF sa best False]
    have le100: "?t \<le> 100" using fb(3) by (simp add: word_le_nat_alt)
    have loop: "asksLoop ?now ?t ?s = Some (upStop ps, s')"
      using asksLoop_walk [OF sw fb(2) le100, of "PriceTick tk" ?now] w by simp
    have R: "walk_refines ?now SideSell (sideIds (Bids ob)) ?good (upTicks ?t) ?s (ps, s')"
      unfolding w [symmetric] using sw fb(2)
      by (intro walk_refinesI sorted_wrt_less_distinct(1) sorted_upTicks
          sorted_wrt_mono_rel [OF _ sorted_upTicks]) (auto simp: set_upTicks)
    note e = walk_up_end [OF R _ False _, simplified, OF best sa]
    have sw': "sweep_ok SideSell (sideIds (Bids ob)) s'" using R by (simp add: walk_refines_def)
    let ?ob = "ob\<lparr>Asks := sw_levels s', ob_Orders := sw_ids s', BestAskPrice := scanUp (sw_levels s') 1\<rparr>"
    show thesis
    proof (rule that)
      show "matchAsks ob tk b = Some (Inr (?ob, sw_taker s', sw_batch s'))"
        using tgt loop e(1) by (simp add: matchAsks_def Let_def updateBestAsk_def)
      show "book_ok ?ob"
        using ok sw' scanUp_best [of "sw_levels s'"] by (simp add: book_ok_def sweep_ok_def)
      show "sweep_result ?now ?good tk b (restingAsks ob) (restingAsks ?ob) (sw_taker s') (sw_batch s')"
        using walk_result [OF R] e(2) fb(1) by (simp add: restingAsks_def)
      have "ps = [] \<or> IsFilled (sw_taker s') \<or> PriceTick tk < hd ps"
        using R by (auto simp: walk_refines_def not_le)
      then show "IsFilled (sw_taker s') \<or> BestAskPrice ?ob = 0 \<or> PriceTick tk < BestAskPrice ?ob"
        using e(4,5) by (cases "ps = []") (auto intro: less_le_trans)
      show "BestAskPrice ?ob = 0 \<or> (?t \<noteq> 0 \<and> ?t \<le> BestAskPrice ?ob)"
        using e(3) False by simp
      show "ob_Orders ?ob \<subseteq> ob_Orders ob"
        using walk_ids_sub [of ?now SideSell ?good "upTicks ?t" ?s] w by simp
    qed simp
  qed
qed

lemma matchBids_spec:
  assumes ok: "book_ok ob" and tk: "safeTaker tk"
  obtains ob' tk' b' where "matchBids ob tk b = Some (Inr (ob', tk', b'))"
    "book_ok ob'"
    "ob' = ob\<lparr>Bids := Bids ob', ob_Orders := ob_Orders ob', BestBidPrice := BestBidPrice ob'\<rparr>"
    "sweep_result (CurrentTime ob) (\<lambda>p. PriceTick tk \<le> p) tk b (restingBids ob) (restingBids ob') tk' b'"
    "IsFilled tk' \<or> BestBidPrice ob' = 0 \<or> BestBidPrice ob' < PriceTick tk"
    "BestBidPrice ob' = 0 \<or> (BestBidPrice ob \<noteq> 0 \<and> BestBidPrice ob' \<le> BestBidPrice ob)"
    "ob_Orders ob' \<subseteq> ob_Orders ob"
proof -
  let ?t = "BestBidPrice ob" and ?good = "\<lambda>p. PriceTick tk \<le> p" and ?now = "CurrentTime ob"
  let ?s = "\<lparr>sw_levels = Bids ob, sw_taker = tk, sw_ids = ob_Orders ob, sw_batch = b\<rparr>"
  have sa: "side_ok SideBuy (Bids ob)" and best: "is_best_bid (Bids ob) ?t"
    using ok by (simp_all add: book_ok_def)
  have sw: "sweep_ok SideBuy (sideIds (Asks ob)) ?s"
    using ok tk by (simp add: sweep_ok_def book_ok_def add.commute)
  have tgt: "(if ?t = 0 then scanDown (Bids ob) 99 else ?t) = ?t"
    using scanDown_eqI [OF best] by simp
  have lt100: "\<not> 100 \<le> ?t" using best by (auto simp: is_best_bid_def word_le_nat_alt)
  show thesis
  proof (cases "?t = 0")
    case True
    then have nv: "\<forall>p. 1 \<le> p \<and> p \<le> 99 \<longrightarrow> \<not> hasVolume (Bids ob p)"
      using best by (auto simp: is_best_bid_def)
    have up: "updateBestBid ob 0 = ob"
      using True by (simp add: updateBestBid_def scanDown_ticks downTicks_0)
    have loop: "bidsLoop ?now 0 ?s = Some (0, ?s)" by (subst bidsLoop.simps) simp
    have flat0: "restingBids ob = []"
      unfolding restingBids_def using sa nv by (rule no_volume_flat) (simp add: set_downTicks)
    show thesis
    proof (rule that)
      show "matchBids ob tk b = Some (Inr (ob, tk, b))"
        using tgt True loop up by (simp add: matchBids_def Let_def)
      show "sweep_result ?now ?good tk b (restingBids ob) (restingBids ob) tk b"
        unfolding flat0 using tk by (rule sweep_result_nil)
    qed (use True ok in simp_all)
  next
    case False
    obtain ps s' where w: "walk ?now SideBuy ?good (downTicks ?t) ?s = (ps, s')" by (meson surj_pair)
    note fb = bids_from_best [OF sa best False]
    have loop: "bidsLoop ?now ?t ?s = Some (downStop ps, s')"
      using bidsLoop_walk [OF sw fb(2,3), of "PriceTick tk" ?now] w by simp
    have R: "walk_refines ?now SideBuy (sideIds (Asks ob)) ?good (downTicks ?t) ?s (ps, s')"
      unfolding w [symmetric] using sw fb(2,3)
      by (intro walk_refinesI sorted_wrt_less_distinct(2) sorted_downTicks
          sorted_wrt_mono_rel [OF _ sorted_downTicks]) (auto simp: set_downTicks)
    note e = walk_down_end [OF R _ False _, simplified, OF best sa]
    have sw': "sweep_ok SideBuy (sideIds (Asks ob)) s'" using R by (simp add: walk_refines_def)
    let ?ob = "ob\<lparr>Bids := sw_levels s', ob_Orders := sw_ids s', BestBidPrice := scanDown (sw_levels s') 99\<rparr>"
    show thesis
    proof (rule that)
      show "matchBids ob tk b = Some (Inr (?ob, sw_taker s', sw_batch s'))"
        using tgt lt100 False loop e(1) by (simp add: matchBids_def Let_def updateBestBid_def)
      show "book_ok ?ob"
        using ok sw' scanDown_best [of "sw_levels s'"] by (simp add: book_ok_def sweep_ok_def add.commute)
      show "sweep_result ?now ?good tk b (restingBids ob) (restingBids ?ob) (sw_taker s') (sw_batch s')"
        using walk_result [OF R] e(2) fb(1) by (simp add: restingBids_def)
      have "ps = [] \<or> IsFilled (sw_taker s') \<or> hd ps < PriceTick tk"
        using R by (auto simp: walk_refines_def not_le)
      then show "IsFilled (sw_taker s') \<or> BestBidPrice ?ob = 0 \<or> BestBidPrice ?ob < PriceTick tk"
        using e(4,5) by (cases "ps = []") (auto intro: le_less_trans)
      show "BestBidPrice ?ob = 0 \<or> (?t \<noteq> 0 \<and> BestBidPrice ?ob \<le> ?t)"
        using e(3) False by simp
      show "ob_Orders ?ob \<subseteq> ob_Orders ob"
        using walk_ids_sub [of ?now SideBuy ?good "downTicks ?t" ?s] w by simp
    qed simp
  qed
qed

end
