(* ===== verification/BookCommands.thy ===== *)
theory BookCommands
  imports BookSpec
begin

text \<open>
  The commands of the book: inserting an order, placing an order, the expiry tick, the halt.
  Each keeps \<open>book_ok\<close> and leaves the book uncrossed; \<open>bookSteps\<close> is the relation of the
  books a run of commands can reach.
\<close>

section \<open>Inserting an order\<close>

definition restable :: "FixedArrayOrderBook \<Rightarrow> MemoryOrder \<Rightarrow> bool" where
  "restable ob ord \<longleftrightarrow> Side ord \<in> {SideBuy, SideSell} \<and> 1 \<le> PriceTick ord \<and> PriceTick ord \<le> 99 \<and>
     OrderType ord \<noteq> OrderTypeMarket \<and> safeMaker ord \<and> OrderID ord \<notin> ob_Orders ob \<and>
     qsum (levelQueue (sideLevel ob ord)) + unat (RemainingQty ord) < 2 ^ 64"

lemma enqueue_ok:
  assumes "level_ok sd p (levelOf l)" "safeMaker ord" "Side ord = sd" "PriceTick ord = p"
    "OrderType ord \<noteq> OrderTypeMarket" "1 \<le> p" "p \<le> 99"
    "qsum (levelQueue l) + unat (RemainingQty ord) < 2 ^ 64"
  shows "level_ok sd p (enqueue ord l)" "hasVolume (Some (enqueue ord l))"
    "Queue (enqueue ord l) = levelQueue l @ [ord]"
proof -
  show ok: "level_ok sd p (enqueue ord l)" and q: "Queue (enqueue ord l) = levelQueue l @ [ord]"
    using assms by (auto simp: level_ok_def enqueue_def levelQueue_levelOf)
  show "hasVolume (Some (enqueue ord l))"
    using hasVolume_iff [of sd "(\<lambda>_. None)(p := Some (enqueue ord l))" p] ok q
    by (simp add: side_ok_def)
qed

lemma linkOrder_sel:
  "Side ord = SideBuy \<Longrightarrow> linkOrder ob ord = ob\<lparr>Bids := (Bids ob)(PriceTick ord := Some (enqueue ord (Bids ob (PriceTick ord)))),
     ob_Orders := insert (OrderID ord) (ob_Orders ob),
     BestBidPrice := (if BestBidPrice ob < PriceTick ord then PriceTick ord else BestBidPrice ob)\<rparr>"
  "Side ord = SideSell \<Longrightarrow> linkOrder ob ord = ob\<lparr>Asks := (Asks ob)(PriceTick ord := Some (enqueue ord (Asks ob (PriceTick ord)))),
     ob_Orders := insert (OrderID ord) (ob_Orders ob),
     BestAskPrice := (if BestAskPrice ob = 0 \<or> PriceTick ord < BestAskPrice ob then PriceTick ord else BestAskPrice ob)\<rparr>"
  by (simp_all add: linkOrder_def Let_def)

lemma best_bid_add:
  assumes "is_best_bid arr b" "1 \<le> p" "p \<le> 99" "hasVolume (Some l)"
  shows "is_best_bid (arr(p := Some l)) (if b < p then p else b)"
  using assms by (auto simp: is_best_bid_def not_less)

lemma best_ask_add:
  assumes "is_best_ask arr a" "1 \<le> p" "p \<le> 99" "hasVolume (Some l)"
  shows "is_best_ask (arr(p := Some l)) (if a = 0 \<or> p < a then p else a)"
  using assms by (auto simp: is_best_ask_def not_less)

lemma sideIds_enqueue:
  "sideIds (arr(p := Some (enqueue ord (arr p)))) = add_mset (OrderID ord) (sideIds arr)"
proof -
  have "Queue (enqueue ord (arr p)) = levelQueue (arr p) @ [ord]"
    by (simp add: enqueue_def levelQueue_levelOf)
  then show ?thesis using sideIds_upd [of arr p "Some (enqueue ord (arr p))"] by simp
qed

lemma linkOrder_ok [invs]:
  assumes "book_ok ob" "restable ob ord"
  shows "book_ok (linkOrder ob ord)"
proof -
  let ?p = "PriceTick ord"
  have p: "1 \<le> ?p" "?p \<le> 99" and m: "safeMaker ord" "OrderType ord \<noteq> OrderTypeMarket"
    and new: "OrderID ord \<notin> ob_Orders ob"
    using assms(2) by (auto simp: restable_def)
  have ids: "mset_set (insert (OrderID ord) (ob_Orders ob)) = add_mset (OrderID ord) (mset_set (ob_Orders ob))"
    using new by simp
  consider (buy) "Side ord = SideBuy" | (sell) "Side ord = SideSell"
    using assms(2) by (auto simp: restable_def)
  then show ?thesis
  proof cases
    case buy
    have "qsum (levelQueue (Bids ob ?p)) + unat (RemainingQty ord) < 2 ^ 64"
      using assms(2) buy by (simp add: restable_def sideLevel_def)
    then have E: "level_ok SideBuy ?p (enqueue ord (Bids ob ?p))" "hasVolume (Some (enqueue ord (Bids ob ?p)))"
      using enqueue_ok(1,2) [OF _ m(1) buy refl m(2) p] assms(1) levelOf_ok by (auto simp: book_ok_def)
    show ?thesis
      unfolding linkOrder_sel(1) [OF buy] using assms(1) ids best_bid_add [OF _ p E(2)] side_ok_upd [OF _ E(1)]
      by (simp add: book_ok_def sideIds_enqueue split del: if_split del: fun_upd_apply)
  next
    case sell
    have "qsum (levelQueue (Asks ob ?p)) + unat (RemainingQty ord) < 2 ^ 64"
      using assms(2) sell by (simp add: restable_def sideLevel_def)
    then have E: "level_ok SideSell ?p (enqueue ord (Asks ob ?p))" "hasVolume (Some (enqueue ord (Asks ob ?p)))"
      using enqueue_ok(1,2) [OF _ m(1) sell refl m(2) p] assms(1) levelOf_ok by (auto simp: book_ok_def)
    show ?thesis
      unfolding linkOrder_sel(2) [OF sell] using assms(1) ids best_ask_add [OF _ p E(2)] side_ok_upd [OF _ E(1)]
      by (simp add: book_ok_def sideIds_enqueue split del: if_split del: fun_upd_apply)
  qed
qed

lemma linkOrder_uncrossed:
  assumes "uncrossed ob" "Side ord \<in> {SideBuy, SideSell}"
    and "Side ord = SideBuy \<Longrightarrow> BestAskPrice ob = 0 \<or> PriceTick ord < BestAskPrice ob"
    and "Side ord = SideSell \<Longrightarrow> BestBidPrice ob = 0 \<or> BestBidPrice ob < PriceTick ord"
  shows "uncrossed (linkOrder ob ord)"
proof -
  from assms(2) consider "Side ord = SideBuy" | "Side ord = SideSell" by blast
  then show ?thesis
  proof cases
    case 1
    with assms show ?thesis by (auto simp: linkOrder_sel(1) uncrossed_def)
  next
    case 2
    with assms show ?thesis by (auto simp: linkOrder_sel(2) uncrossed_def)
  qed
qed

section \<open>Placing an order\<close>

text \<open>A command within the bounds of the arithmetic, with a fresh order id.\<close>

definition admissible :: "FixedArrayOrderBook \<Rightarrow> PlaceOrderCommand \<Rightarrow> bool" where
  "admissible ob c \<longleftrightarrow> c_Side c \<in> {SideBuy, SideSell} \<and> 1 \<le> c_PriceTick c \<and> c_PriceTick c \<le> 99 \<and>
     unat (c_QtyLots c) * 99 + 99 < 2 ^ 64 \<and> unat (c_SpendAmount c) * 100 + 99 < 2 ^ 64 \<and>
     c_OrderID c \<notin> ob_Orders ob \<and>
     qsum (levelQueue (sideLevel ob (orderFromCmd c))) + unat (c_QtyLots c) < 2 ^ 64"

text \<open>The reference behaviour of an order on an active book: the resting orders of the other
  side in price-time order are matched by \<open>refMatch\<close> up to the order's tick.\<close>

definition otherSide :: "FixedArrayOrderBook \<Rightarrow> PlaceOrderCommand \<Rightarrow> (u8 \<times> MemoryOrder) list" where
  "otherSide ob c = (if c_Side c = SideBuy then restingAsks ob else restingBids ob)"

definition ownQueue :: "FixedArrayOrderBook \<Rightarrow> PlaceOrderCommand \<Rightarrow> u8 \<Rightarrow> MemoryOrder list" where
  "ownQueue ob c p = levelQueue (if c_Side c = SideBuy then Bids ob p else Asks ob p)"

definition withinLimit :: "PlaceOrderCommand \<Rightarrow> u8 \<Rightarrow> bool" where
  "withinLimit c p \<longleftrightarrow> (if c_Side c = SideBuy then p \<le> c_PriceTick c else c_PriceTick c \<le> p)"

text \<open>What is left of the taker joins its own side, at the tail of its level.\<close>

definition rests :: "MemoryOrder \<Rightarrow> bool" where
  "rests tk \<longleftrightarrow> \<not> IsFilled tk \<and> OrderType tk \<noteq> OrderTypeMarket"

lemma refMatch_budget_le:
  "refMatch now good l tk = (T, l', tk') \<Longrightarrow> safeTaker tk \<Longrightarrow> (\<forall>(p, m) \<in> set l. safeMaker m \<and> 1 \<le> p \<and> p \<le> 99) \<Longrightarrow>
     budget tk' + sum_list (map (\<lambda>(p, m, mq). charge tk p mq) T) = budget tk \<and> same_order tk tk'"
proof (induction now good l tk arbitrary: T l' tk' rule: refMatch.induct)
  case (1 now ok tk)
  then show ?case by simp
next
  case (2 now ok p m rest tk)
  consider (stop) "IsFilled tk \<or> \<not> ok p"
    | (skip) "\<not> (IsFilled tk \<or> \<not> ok p)" "isExpired now m \<or> WalletAddress m = WalletAddress tk"
    | (go) "\<not> (IsFilled tk \<or> \<not> ok p)" "\<not> (isExpired now m \<or> WalletAddress m = WalletAddress tk)"
    by blast
  then show ?case
  proof cases
    case stop
    with 2 show ?thesis by auto
  next
    case skip
    with 2 show ?thesis by auto
  next
    case go
    have nf: "\<not> IsFilled tk" using go by blast
    have mk: "safeMaker m" "1 \<le> p" "p \<le> 99" using "2.prems"(3) by auto
    obtain mq tk1 where t: "takeFrom tk m p = Some (mq, tk1)" "budget tk1 + charge tk p mq = budget tk"
      "same_order tk tk1" "safeTaker tk1"
      using takeFrom_safe [OF nf "2.prems"(2) mk] by metis
    show ?thesis
    proof (cases "mq = RemainingQty m")
      case False
      with 2 go t show ?thesis by auto
    next
      case True
      obtain ts rem tk2 where r: "refMatch now ok rest tk1 = (ts, rem, tk2)" by (metis prod_cases3)
      have "budget tk2 + sum_list (map (\<lambda>(p, m, mq). charge tk1 p mq) ts) = budget tk1 \<and> same_order tk1 tk2"
        using "2.IH"(2) [OF go t(1) refl True r t(4)] "2.prems"(3) by auto
      moreover have "(\<lambda>(p, m, mq). charge tk1 p mq) = (\<lambda>(p, m :: MemoryOrder, mq). charge tk p mq)"
        using charge_cong [OF t(3)] by auto
      moreover have "T = (p, m, mq) # ts" "tk' = tk2"
        using "2.prems"(1) go t(1) True r by auto
      ultimately show ?thesis using t by (auto intro: same_order_trans)
    qed
  qed
qed

lemma budget_rest_safeMaker:
  assumes "rests tk'" "budget tk' \<le> budget tk" "same_order tk tk'" "unat (RemainingQty tk) * 99 + 99 < 2 ^ 64"
  shows "safeMaker tk'" "unat (RemainingQty tk') \<le> unat (RemainingQty tk)"
proof -
  have nm: "\<not> isMarketBuy tk'" "\<not> isMarketBuy tk"
    using assms(1,3) same_orderD(10) [OF assms(3)] by (auto simp: rests_def isMarketBuy_def)
  then show le: "unat (RemainingQty tk') \<le> unat (RemainingQty tk)" using assms(2) by (simp add: budget_def)
  have "RemainingQty tk' \<noteq> 0" using assms(1) nm by (auto simp: rests_def IsFilled_def isMarketBuy_def)
  then show "safeMaker tk'" using le assms(4) by (simp add: safeMaker_def)
qed

lemma resting_safe:
  assumes "book_ok ob"
  shows "\<forall>(p, m) \<in> set (restingAsks ob). safeMaker m \<and> 1 \<le> p \<and> p \<le> 99"
    "\<forall>(p, m) \<in> set (restingBids ob). safeMaker m \<and> 1 \<le> p \<and> p \<le> 99"
  using assms levelOf_ok [of SideSell "Asks ob"] levelOf_ok [of SideBuy "Bids ob"]
  by (auto simp: restingAsks_def restingBids_def set_flat set_upTicks set_downTicks book_ok_def
      level_ok_def levelQueue_levelOf)

lemma sweep_result_budget:
  assumes "sweep_result now good tk b L L' tk' b'" "safeTaker tk"
    "\<forall>(p, m) \<in> set L. safeMaker m \<and> 1 \<le> p \<and> p \<le> 99"
  shows "budget tk' \<le> budget tk" "same_order tk tk'"
  using assms refMatch_budget_le [of now good L tk _ L' tk'] unfolding sweep_result_def by fastforce+

text \<open>The outcome of a placement: nothing ran out, the book stays well formed and uncrossed,
  the other side is the reference matcher's, and a remainder rests at the tail of its level.\<close>

definition placed ::
  "FixedArrayOrderBook \<Rightarrow> PlaceOrderCommand \<Rightarrow> pendingBatch \<Rightarrow> FixedArrayOrderBook \<Rightarrow> pendingBatch \<Rightarrow> bool" where
  "placed ob c b ob' b' \<longleftrightarrow> book_ok ob' \<and> (uncrossed ob \<longrightarrow> uncrossed ob') \<and>
     (let (T, L, tk) = refMatch (CurrentTime ob) (withinLimit c) (otherSide ob c) (orderFromCmd c)
      in otherSide ob' c = L \<and>
         (\<forall>p. ownQueue ob' c p = ownQueue ob c p @ (if rests tk \<and> p = c_PriceTick c then [tk] else [])) \<and>
         (\<exists>F. Fills (event b') = Fills (event b) @ F \<and> list_all2 (fill_of_trade b' (orderFromCmd c)) T F) \<and>
         ob_MarketID ob' = ob_MarketID ob \<and> CurrentTime ob' = CurrentTime ob \<and>
         LastProcessedSeq ob' = LastProcessedSeq ob \<and> IsActive ob')"

lemma finishTaker_cases:
  "IsFilled tk \<Longrightarrow> finishTaker ob tk b = Inr (ob, addOrderUpdateForOrder b tk ''filled'' 0 0 0 [])"
  "\<not> rests tk \<Longrightarrow> \<exists>b'. finishTaker ob tk b = Inr (ob, b') \<and> extends b b' \<and> Fills (event b') = Fills (event b)"
  "rests tk \<Longrightarrow> PriceTick tk \<le> 99 \<Longrightarrow>
     \<exists>b'. finishTaker ob tk b = Inr (linkOrder ob tk, b') \<and> extends b b' \<and> Fills (event b') = Fills (event b)"
proof -
  show "IsFilled tk \<Longrightarrow> finishTaker ob tk b = Inr (ob, addOrderUpdateForOrder b tk ''filled'' 0 0 0 [])"
    by (simp add: finishTaker_def)
  show "\<not> rests tk \<Longrightarrow> \<exists>b'. finishTaker ob tk b = Inr (ob, b') \<and> extends b b' \<and> Fills (event b') = Fills (event b)"
    by (auto simp: finishTaker_def rests_def frame)
  assume "rests tk" "PriceTick tk \<le> 99"
  moreover from this have "\<not> 100 \<le> PriceTick tk" by (auto simp: word_le_nat_alt)
  ultimately show "\<exists>b'. finishTaker ob tk b = Inr (linkOrder ob tk, b') \<and> extends b b' \<and> Fills (event b') = Fills (event b)"
    by (auto simp: finishTaker_def rests_def addOrderToBook_def Let_def frame
        intro: extends_trans [OF addOrderUpdateForOrder_extends addDepthUpdate_extends])
qed

lemma linkOrder_queues:
  "Side ord = SideBuy \<Longrightarrow> levelQueue (Bids (linkOrder ob ord) p) =
     levelQueue (Bids ob p) @ (if p = PriceTick ord then [ord] else [])"
  "Side ord = SideSell \<Longrightarrow> levelQueue (Asks (linkOrder ob ord) p) =
     levelQueue (Asks ob p) @ (if p = PriceTick ord then [ord] else [])"
  by (auto simp: linkOrder_sel enqueue_def levelQueue_levelOf)

lemma safeTaker_from_cmd: "admissible ob c \<Longrightarrow> safeTaker (orderFromCmd c)"
  by (simp add: safeTaker_def admissible_def)

text \<open>Both sides end alike: \<open>ob1\<close> is the book after the match.\<close>

lemma place_finish:
  assumes adm: "admissible ob c" and ok: "book_ok ob1" and act: "IsActive ob"
    and own: "\<forall>p. ownQueue ob1 c p = ownQueue ob c p"
    and keep: "ob_MarketID ob1 = ob_MarketID ob" "CurrentTime ob1 = CurrentTime ob"
      "LastProcessedSeq ob1 = LastProcessedSeq ob" "IsActive ob1 = IsActive ob"
    and ids: "ob_Orders ob1 \<subseteq> ob_Orders ob"
    and res: "sweep_result (CurrentTime ob) (withinLimit c) (orderFromCmd c) b (otherSide ob c) (otherSide ob1 c) tk b1"
    and safe: "\<forall>(p, m) \<in> set (otherSide ob c). safeMaker m \<and> 1 \<le> p \<and> p \<le> 99"
    and unc: "uncrossed ob \<Longrightarrow> uncrossed ob1"
    and lim: "IsFilled tk \<or> (if c_Side c = SideBuy then BestAskPrice ob1 = 0 \<or> c_PriceTick c < BestAskPrice ob1
                             else BestBidPrice ob1 = 0 \<or> BestBidPrice ob1 < c_PriceTick c)"
  shows "\<exists>ob' b'. finishTaker ob1 tk b1 = Inr (ob', b') \<and> placed ob c b ob' b'"
proof -
  let ?tk0 = "orderFromCmd c"
  have st: "safeTaker ?tk0" using adm by (rule safeTaker_from_cmd)
  note bud = sweep_result_budget [OF res st safe]
  note so = same_orderD [OF bud(2), simplified]
  from res obtain T F where TF: "Fills (event b1) = Fills (event b) @ F"
    "list_all2 (fill_of_trade b1 ?tk0) T F"
    "refMatch (CurrentTime ob) (withinLimit c) (otherSide ob c) ?tk0 = (T, otherSide ob1 c, tk)"
    unfolding sweep_result_def by blast
  have fills: "list_all2 (fill_of_trade b' ?tk0) T F" if "extends b1 b'" for b'
    using TF(2) by (rule list_all2_mono) (rule fill_of_trade_mono [OF that])
  show ?thesis
  proof (cases "rests tk")
    case False
    then obtain b' where b': "finishTaker ob1 tk b1 = Inr (ob1, b')" "extends b1 b'"
      "Fills (event b') = Fills (event b1)"
      using finishTaker_cases(2) by blast
    then show ?thesis
      using ok unc own keep act TF fills False by (auto simp: placed_def)
  next
    case True
    have p: "1 \<le> PriceTick tk" "PriceTick tk \<le> 99" and sd: "Side tk \<in> {SideBuy, SideSell}"
      using adm so by (simp_all add: admissible_def)
    obtain b' where b': "finishTaker ob1 tk b1 = Inr (linkOrder ob1 tk, b')" "extends b1 b'"
      "Fills (event b') = Fills (event b1)"
      using finishTaker_cases(3) [OF True p(2)] by blast
    have m: "safeMaker tk" "unat (RemainingQty tk) \<le> unat (c_QtyLots c)"
      using budget_rest_safeMaker [OF True bud] adm by (simp_all add: admissible_def)
    have q: "levelQueue (sideLevel ob1 tk) = levelQueue (sideLevel ob ?tk0)"
      using own so sd by (auto simp: ownQueue_def sideLevel_def)
    have "restable ob1 tk"
      using p sd m True adm so ids q by (auto simp: restable_def rests_def admissible_def)
    then have ok': "book_ok (linkOrder ob1 tk)" using ok by (intro linkOrder_ok)
    have "uncrossed (linkOrder ob1 tk)" if "uncrossed ob"
      using unc [OF that] sd lim True so by (intro linkOrder_uncrossed) (auto simp: rests_def split: if_splits)
    moreover have "otherSide (linkOrder ob1 tk) c = otherSide ob1 c"
      using sd so by (auto simp: otherSide_def restingAsks_def restingBids_def linkOrder_sel)
    moreover have "ownQueue (linkOrder ob1 tk) c p = ownQueue ob c p @ (if p = c_PriceTick c then [tk] else [])" for p
      using sd so own by (auto simp: ownQueue_def linkOrder_queues)
    moreover have "ob_MarketID (linkOrder ob1 tk) = ob_MarketID ob" "CurrentTime (linkOrder ob1 tk) = CurrentTime ob"
      "LastProcessedSeq (linkOrder ob1 tk) = LastProcessedSeq ob" "IsActive (linkOrder ob1 tk)"
      using keep act by (simp_all add: linkOrder_def Let_def)
    ultimately show ?thesis
      using b' ok' TF fills True by (auto simp: placed_def)
  qed
qed

lemma handlePlaceOrder_placed:
  assumes ok: "book_ok ob" and act: "IsActive ob" and adm: "admissible ob c"
  shows "\<exists>ob' b'. handlePlaceOrder ob c b = Some (Inr (ob', b')) \<and> placed ob c b ob' b'"
proof -
  let ?tk = "orderFromCmd c"
  have st: "safeTaker ?tk" using adm by (rule safeTaker_from_cmd)
  show ?thesis
  proof (cases "c_Side c = SideBuy")
    case True
    obtain ob1 tk b1 where m: "matchAsks ob ?tk b = Some (Inr (ob1, tk, b1))" "book_ok ob1"
      "ob1 = ob\<lparr>Asks := Asks ob1, ob_Orders := ob_Orders ob1, BestAskPrice := BestAskPrice ob1\<rparr>"
      "sweep_result (CurrentTime ob) (\<lambda>p. p \<le> PriceTick ?tk) ?tk b (restingAsks ob) (restingAsks ob1) tk b1"
      "IsFilled tk \<or> BestAskPrice ob1 = 0 \<or> PriceTick ?tk < BestAskPrice ob1"
      "BestAskPrice ob1 = 0 \<or> (BestAskPrice ob \<noteq> 0 \<and> BestAskPrice ob \<le> BestAskPrice ob1)"
      "ob_Orders ob1 \<subseteq> ob_Orders ob"
      using matchAsks_spec [OF ok st] by metis
    have k: "Bids ob1 = Bids ob" "BestBidPrice ob1 = BestBidPrice ob" "ob_MarketID ob1 = ob_MarketID ob"
      "CurrentTime ob1 = CurrentTime ob" "LastProcessedSeq ob1 = LastProcessedSeq ob" "IsActive ob1 = IsActive ob"
      by (subst m(3), simp)+
    have "withinLimit c = (\<lambda>p. p \<le> c_PriceTick c)" using True by (auto simp: withinLimit_def)
    then have "\<exists>ob' b'. finishTaker ob1 tk b1 = Inr (ob', b') \<and> placed ob c b ob' b'"
      using m k True act resting_safe(1) [OF ok]
      by (intro place_finish [OF adm m(2)]) (auto simp: ownQueue_def otherSide_def uncrossed_def)
    then show ?thesis using m(1) True act by (auto simp: handlePlaceOrder_def)
  next
    case False
    obtain ob1 tk b1 where m: "matchBids ob ?tk b = Some (Inr (ob1, tk, b1))" "book_ok ob1"
      "ob1 = ob\<lparr>Bids := Bids ob1, ob_Orders := ob_Orders ob1, BestBidPrice := BestBidPrice ob1\<rparr>"
      "sweep_result (CurrentTime ob) (\<lambda>p. PriceTick ?tk \<le> p) ?tk b (restingBids ob) (restingBids ob1) tk b1"
      "IsFilled tk \<or> BestBidPrice ob1 = 0 \<or> BestBidPrice ob1 < PriceTick ?tk"
      "BestBidPrice ob1 = 0 \<or> (BestBidPrice ob \<noteq> 0 \<and> BestBidPrice ob1 \<le> BestBidPrice ob)"
      "ob_Orders ob1 \<subseteq> ob_Orders ob"
      using matchBids_spec [OF ok st] by metis
    have k: "Asks ob1 = Asks ob" "BestAskPrice ob1 = BestAskPrice ob" "ob_MarketID ob1 = ob_MarketID ob"
      "CurrentTime ob1 = CurrentTime ob" "LastProcessedSeq ob1 = LastProcessedSeq ob" "IsActive ob1 = IsActive ob"
      by (subst m(3), simp)+
    have "withinLimit c = (\<lambda>p. c_PriceTick c \<le> p)" using False by (auto simp: withinLimit_def)
    then have "\<exists>ob' b'. finishTaker ob1 tk b1 = Inr (ob', b') \<and> placed ob c b ob' b'"
      using m k False act resting_safe(2) [OF ok]
      by (intro place_finish [OF adm m(2)]) (auto simp: ownQueue_def otherSide_def uncrossed_def)
    then show ?thesis using m(1) False act by (auto simp: handlePlaceOrder_def)
  qed
qed

section \<open>The expiry tick\<close>

text \<open>Sweeping a queue drops its expired prefix, and nothing behind a live order.\<close>

lemma sweepQueue_sel:
  "fst (sweepQueue now q s) = dropWhile (isExpired now) q"
  "vol (snd (sweepQueue now q s)) - qvol (dropWhile (isExpired now) q) = vol s - qvol q"
  "Fills (event (batch (snd (sweepQueue now q s)))) = Fills (event (batch s))"
  by (induction now q s rule: sweepQueue.induct)
     (auto simp: removeAndRecycleMaker_def frame algebra_simps)

lemma sweepQueue_ids:
  "qids q \<subseteq># mset_set (ids s) \<Longrightarrow>
     mset_set (ids (snd (sweepQueue now q s))) + qids q = mset_set (ids s) + qids (dropWhile (isExpired now) q)"
proof (induction now q s rule: sweepQueue.induct)
  case (2 now m rest s)
  then show ?case
    using qids_head [of m rest "ids s"] by (auto simp: removeAndRecycleMaker_def)
qed simp

lemma sweepQueue_live: "\<not> isExpired now (hd q) \<Longrightarrow> sweepQueue now q s = (q, s)"
  by (cases q) auto

text \<open>What sweeping one level does to its side.\<close>

lemma sweepLevelO1_spec:
  assumes ok: "side_ok sd arr" and ids: "sideIds arr + M = mset_set S"
    and r: "sweepLevelO1 now (arr p) p sd S b = (l', S', b', removed)"
  shows "side_ok sd (arr(p := l'))" "sideIds (arr(p := l')) + M = mset_set S'"
    "levelQueue l' = dropWhile (isExpired now) (levelQueue (arr p))"
    "Fills (event b') = Fills (event b)" "\<not> removed \<Longrightarrow> l' = arr p \<and> S' = S \<and> b' = b"
proof -
  consider (none) "levelQueue (arr p) = []" | (some) l where "arr p = Some l" "Queue l \<noteq> []"
    by (cases "arr p") auto
  then have "side_ok sd (arr(p := l')) \<and> sideIds (arr(p := l')) + M = mset_set S' \<and>
    levelQueue l' = dropWhile (isExpired now) (levelQueue (arr p)) \<and>
    Fills (event b') = Fills (event b) \<and> (\<not> removed \<longrightarrow> l' = arr p \<and> S' = S \<and> b' = b)"
  proof cases
    case none
    then have "l' = arr p \<and> S' = S \<and> b' = b"
      using r by (auto simp: sweepLevelO1_def levelQueue_def split: option.splits)
    with none ok ids show ?thesis by (simp add: fun_upd_triv)
  next
    case some
    let ?s = "\<lparr>taker = zeroOrder, vol = TotalVolume l, ids = S, batch = b\<rparr>" and ?q = "dropWhile (isExpired now) (Queue l)"
    have lok: "level_ok sd p l" using ok some by (simp add: side_ok_def)
    obtain r0 where sp: "sweepQueue now (Queue l) ?s = (?q, r0)"
      using sweepQueue_sel(1) by (metis surjective_pairing)
    then have l': "l' = Some \<lparr>TotalVolume = vol r0, Queue = ?q\<rparr>" "S' = ids r0"
      "removed \<longleftrightarrow> isExpired now (hd (Queue l))"
      "b' = (if removed then addDepthUpdate (batch r0) sd p (vol r0) else batch r0)"
      using r some by (auto simp: sweepLevelO1_def Let_def)
    have "vol r0 = qvol ?q"
      using sweepQueue_sel(2) [of now "Queue l" ?s] lok sp by (simp add: level_ok_def)
    moreover have "consumed (Queue l) ?q"
      unfolding consumed_def using dropWhile_eq_drop by blast
    ultimately have "level_ok sd p (the l')"
      using consumed_level_ok [OF lok] l'(1) by simp
    moreover have "sideIds (arr(p := l')) + M = mset_set S'"
    proof -
      have "qids (Queue l) \<subseteq># mset_set S"
        using ids sideIds_ge [of arr p] some by (metis levelQueue_Some mset_subset_eq_add_left subset_mset.trans)
      then have "mset_set S' + qids (Queue l) = mset_set S + qids ?q"
        using sweepQueue_ids [of "Queue l" ?s now] l'(2) sp by simp
      moreover have "sideIds (arr(p := l')) + qids (Queue l) = sideIds arr + qids ?q"
        using sideIds_upd [of arr p l'] some l'(1) by simp
      ultimately have "(sideIds (arr(p := l')) + M) + qids (Queue l) = mset_set S' + qids (Queue l)"
        using ids by (metis add.assoc add.commute)
      then show ?thesis by simp
    qed
    moreover have "\<not> removed \<longrightarrow> l' = arr p \<and> S' = S \<and> b' = b"
      using sweepQueue_live [of now "Queue l" ?s] sp l' some by (auto simp: PriceLevel.equality)
    moreover have "Fills (event b') = Fills (event b)"
      using l'(4) sweepQueue_sel(3) [of now "Queue l" ?s] sp by (simp add: frame)
    ultimately show ?thesis using ok some l'(1) by (simp add: side_ok_upd)
  qed
  then show "side_ok sd (arr(p := l'))" "sideIds (arr(p := l')) + M = mset_set S'"
    "levelQueue l' = dropWhile (isExpired now) (levelQueue (arr p))"
    "Fills (event b') = Fills (event b)" "\<not> removed \<Longrightarrow> l' = arr p \<and> S' = S \<and> b' = b"
    by blast+
qed

text \<open>A side that only loses volume moves its best price away from the spread.\<close>

lemma best_bid_shrink:
  assumes "is_best_bid arr b" "is_best_bid arr' b'" "\<And>p. hasVolume (arr' p) \<Longrightarrow> hasVolume (arr p)"
  shows "b' = 0 \<or> (b \<noteq> 0 \<and> b' \<le> b)"
proof (cases "b' = 0")
  case False
  then have b': "1 \<le> b'" "b' \<le> 99" "hasVolume (arr b')"
    using assms(2,3) by (auto simp: is_best_bid_def)
  then have "b \<noteq> 0" "\<not> b < b'" using assms(1) by (auto simp: is_best_bid_def)
  then show ?thesis by (simp add: not_less)
qed simp

lemma best_ask_shrink:
  assumes "is_best_ask arr a" "is_best_ask arr' a'" "\<And>p. hasVolume (arr' p) \<Longrightarrow> hasVolume (arr p)"
  shows "a' = 0 \<or> (a \<noteq> 0 \<and> a \<le> a')"
proof (cases "a' = 0")
  case False
  then have a': "1 \<le> a'" "a' \<le> 99" "hasVolume (arr a')"
    using assms(2,3) by (auto simp: is_best_ask_def)
  then have "a \<noteq> 0" "\<not> a' < a" using assms(1) by (auto simp: is_best_ask_def)
  then show ?thesis by (simp add: not_less)
qed simp

text \<open>The state of the tick loop, before the best prices are recomputed.\<close>

definition tick_ok :: "FixedArrayOrderBook \<Rightarrow> bool" where
  "tick_ok ob \<longleftrightarrow> side_ok SideBuy (Bids ob) \<and> side_ok SideSell (Asks ob) \<and>
     sideIds (Asks ob) + sideIds (Bids ob) = mset_set (ob_Orders ob)"

lemma tickPrice_spec:
  assumes ok: "tick_ok ob" and r: "tickPrice now p (ob, b, ch) = (ob', b', ch')"
  shows "tick_ok ob'" "Fills (event b') = Fills (event b)"
    "\<And>p'. levelQueue (Bids ob' p') = (if p' = p then dropWhile (isExpired now) else id) (levelQueue (Bids ob p'))"
    "\<And>p'. levelQueue (Asks ob' p') = (if p' = p then dropWhile (isExpired now) else id) (levelQueue (Asks ob p'))"
    "ob' = ob\<lparr>Bids := Bids ob', Asks := Asks ob', ob_Orders := ob_Orders ob'\<rparr>"
    "\<not> ch' \<Longrightarrow> ob' = ob \<and> \<not> ch"
proof -
  obtain bl S1 b1 rb where B: "sweepLevelO1 now (Bids ob p) p SideBuy (ob_Orders ob) b = (bl, S1, b1, rb)"
    by (metis prod_cases4)
  obtain al S2 b2 ra where A: "sweepLevelO1 now (Asks ob p) p SideSell S1 b1 = (al, S2, b2, ra)"
    by (metis prod_cases4)
  have ob': "ob' = ob\<lparr>Bids := (Bids ob)(p := bl), Asks := (Asks ob)(p := al), ob_Orders := S2\<rparr>"
    "b' = b2" "ch' \<longleftrightarrow> ch \<or> rb \<or> ra"
    using r A B by (auto simp: tickPrice_def)
  have okB: "side_ok SideBuy (Bids ob)" and okA: "side_ok SideSell (Asks ob)"
    and i: "sideIds (Bids ob) + sideIds (Asks ob) = mset_set (ob_Orders ob)"
    using ok by (simp_all add: tick_ok_def add.commute)
  note SB = sweepLevelO1_spec [OF okB i B]
  have i1: "sideIds (Asks ob) + sideIds ((Bids ob)(p := bl)) = mset_set S1"
    using SB(2) by (simp add: add.commute)
  note SA = sweepLevelO1_spec [OF okA i1 A]
  show "tick_ok ob'" using SA(1,2) SB(1) by (simp add: ob' tick_ok_def)
  show "Fills (event b') = Fills (event b)" using SA(4) SB(4) ob' by simp
  show "levelQueue (Bids ob' p') = (if p' = p then dropWhile (isExpired now) else id) (levelQueue (Bids ob p'))"
    "levelQueue (Asks ob' p') = (if p' = p then dropWhile (isExpired now) else id) (levelQueue (Asks ob p'))" for p'
    using SA(3) SB(3) by (auto simp: ob')
  show "ob' = ob\<lparr>Bids := Bids ob', Asks := Asks ob', ob_Orders := ob_Orders ob'\<rparr>" by (simp add: ob')
  show "\<not> ch' \<Longrightarrow> ob' = ob \<and> \<not> ch" using SA(5) SB(5) by (auto simp: ob' fun_upd_triv)
qed

lemma tick_fold:
  assumes "tick_ok ob" "fold (tickPrice now) ps (ob, b, ch) = (ob', b', ch')" "distinct ps"
  shows "tick_ok ob' \<and> Fills (event b') = Fills (event b) \<and>
    (\<forall>p. levelQueue (Bids ob' p) = (if p \<in> set ps then dropWhile (isExpired now) else id) (levelQueue (Bids ob p))) \<and>
    (\<forall>p. levelQueue (Asks ob' p) = (if p \<in> set ps then dropWhile (isExpired now) else id) (levelQueue (Asks ob p))) \<and>
    ob' = ob\<lparr>Bids := Bids ob', Asks := Asks ob', ob_Orders := ob_Orders ob'\<rparr> \<and> (\<not> ch' \<longrightarrow> ob' = ob \<and> \<not> ch)"
  using assms
proof (induction ps arbitrary: ob b ch)
  case (Cons p ps)
  obtain ob1 b1 ch1 where t: "tickPrice now p (ob, b, ch) = (ob1, b1, ch1)" by (metis prod_cases3)
  note T = tickPrice_spec [OF Cons.prems(1) t]
  have F: "fold (tickPrice now) ps (ob1, b1, ch1) = (ob', b', ch')" using Cons.prems(2) t by simp
  have d: "p \<notin> set ps" "distinct ps" using Cons.prems(3) by auto
  note IH = Cons.IH [OF T(1) F d(2)]
  have "ob' = ob\<lparr>Bids := Bids ob', Asks := Asks ob', ob_Orders := ob_Orders ob'\<rparr>"
  proof -
    have a: "ob' = ob1\<lparr>Bids := Bids ob', Asks := Asks ob', ob_Orders := ob_Orders ob'\<rparr>" using IH by blast
    have b: "ob1\<lparr>Bids := x, Asks := y, ob_Orders := z\<rparr> = ob\<lparr>Bids := x, Asks := y, ob_Orders := z\<rparr>" for x y z
      by (subst T(5)) simp
    from a show ?thesis unfolding b .
  qed
  moreover have "levelQueue (Bids ob' q) = (if q \<in> set (p # ps) then dropWhile (isExpired now) else id) (levelQueue (Bids ob q))"
    "levelQueue (Asks ob' q) = (if q \<in> set (p # ps) then dropWhile (isExpired now) else id) (levelQueue (Asks ob q))" for q
    using IH T(3,4) d(1) by auto
  ultimately show ?case using IH T(2,6) by auto
qed auto

lemma handleTick_spec:
  assumes ok: "book_ok ob" and r: "handleTick ob now b = (ob', b')"
  shows "book_ok ob'" "uncrossed ob \<Longrightarrow> uncrossed ob'" "Fills (event b') = Fills (event b)"
    "\<And>p. levelQueue (Bids ob' p) = dropWhile (isExpired now) (levelQueue (Bids ob p))"
    "\<And>p. levelQueue (Asks ob' p) = dropWhile (isExpired now) (levelQueue (Asks ob p))"
    "CurrentTime ob' = now" "IsActive ob' = IsActive ob" "ob_MarketID ob' = ob_MarketID ob"
    "LastProcessedSeq ob' = LastProcessedSeq ob"
proof -
  let ?ob = "ob\<lparr>CurrentTime := now\<rparr>" and ?ps = "map of_nat [1 ..< 100] :: u8 list"
  obtain ob1 b1 ch where F: "fold (tickPrice now) ?ps (?ob, b, False) = (ob1, b1, ch)" by (metis prod_cases3)
  have ps: "?ps = upTicks 1" by (simp add: upTicks_def)
  have "distinct ?ps" unfolding ps by (rule sorted_wrt_less_distinct(1) [OF sorted_upTicks])
  moreover have "tick_ok ?ob" using ok by (simp add: tick_ok_def book_ok_def)
  ultimately have T: "tick_ok ob1 \<and> Fills (event b1) = Fills (event b) \<and>
    (\<forall>p. levelQueue (Bids ob1 p) = (if p \<in> set ?ps then dropWhile (isExpired now) else id) (levelQueue (Bids ob p))) \<and>
    (\<forall>p. levelQueue (Asks ob1 p) = (if p \<in> set ?ps then dropWhile (isExpired now) else id) (levelQueue (Asks ob p))) \<and>
    ob1 = ?ob\<lparr>Bids := Bids ob1, Asks := Asks ob1, ob_Orders := ob_Orders ob1\<rparr> \<and> (\<not> ch \<longrightarrow> ob1 = ?ob)"
    using tick_fold [of ?ob now ?ps b False ob1 b1 ch] F by simp
  have ob': "ob' = (if ch then updateBestAsk (updateBestBid ob1 99) 1 else ob1)" "b' = b1"
    using r F by (auto simp: handleTick_def)
  have out: "levelQueue (Bids ob p) = []" "levelQueue (Asks ob p) = []" if "p \<notin> set ?ps" for p
    using that ok levelOf_ok [of SideBuy "Bids ob" p] levelOf_ok [of SideSell "Asks ob" p]
    unfolding ps set_upTicks by (auto simp: book_ok_def level_ok_def levelQueue_levelOf)
  have qb: "levelQueue (Bids ob1 p) = dropWhile (isExpired now) (levelQueue (Bids ob p))"
    and qa: "levelQueue (Asks ob1 p) = dropWhile (isExpired now) (levelQueue (Asks ob p))" for p
    using T out [of p] by (cases "p \<in> set ?ps"; simp)+
  have sel: "Bids ob' = Bids ob1" "Asks ob' = Asks ob1" "ob_Orders ob' = ob_Orders ob1"
    by (simp_all add: ob' updateBestAsk_def updateBestBid_def)
  show "levelQueue (Bids ob' p) = dropWhile (isExpired now) (levelQueue (Bids ob p))"
    "levelQueue (Asks ob' p) = dropWhile (isExpired now) (levelQueue (Asks ob p))" for p
    by (simp_all add: sel qb qa)
  show "Fills (event b') = Fills (event b)" using T ob' by simp
  have ob1: "ob1 = ?ob\<lparr>Bids := Bids ob1, Asks := Asks ob1, ob_Orders := ob_Orders ob1\<rparr>" using T by blast
  have k: "CurrentTime ob1 = now" "IsActive ob1 = IsActive ob" "ob_MarketID ob1 = ob_MarketID ob"
    "LastProcessedSeq ob1 = LastProcessedSeq ob"
    by (subst ob1, simp)+
  then show "CurrentTime ob' = now" "IsActive ob' = IsActive ob" "ob_MarketID ob' = ob_MarketID ob"
    "LastProcessedSeq ob' = LastProcessedSeq ob"
    by (simp_all add: ob' updateBestAsk_def updateBestBid_def)
  show okk: "book_ok ob'"
  proof (cases ch)
    case True
    then show ?thesis
      using T scanUp_best [of "Asks ob1"] scanDown_best [of "Bids ob1"]
      by (simp add: ob' book_ok_def tick_ok_def updateBestAsk_def updateBestBid_def)
  next
    case False
    then have "ob' = ?ob" using T ob' by simp
    then show ?thesis using ok by (simp add: book_ok_def)
  qed
  show "uncrossed ob'" if u: "uncrossed ob"
  proof -
    have so: "side_ok SideBuy (Bids ob)" "side_ok SideSell (Asks ob)"
      "side_ok SideBuy (Bids ob')" "side_ok SideSell (Asks ob')"
      using ok okk by (simp_all add: book_ok_def)
    have hv: "hasVolume (Bids ob' p) \<Longrightarrow> hasVolume (Bids ob p)" "hasVolume (Asks ob' p) \<Longrightarrow> hasVolume (Asks ob p)" for p
      unfolding hasVolume_iff [OF so(1)] hasVolume_iff [OF so(2)] hasVolume_iff [OF so(3)]
        hasVolume_iff [OF so(4)] using qb [of p] qa [of p] by (auto simp: sel)
    have best: "is_best_bid (Bids ob) (BestBidPrice ob)" "is_best_bid (Bids ob') (BestBidPrice ob')"
      "is_best_ask (Asks ob) (BestAskPrice ob)" "is_best_ask (Asks ob') (BestAskPrice ob')"
      using ok okk by (simp_all add: book_ok_def)
    have "BestBidPrice ob' = 0 \<or> (BestBidPrice ob \<noteq> 0 \<and> BestBidPrice ob' \<le> BestBidPrice ob)"
      using best(1,2) hv(1) by (rule best_bid_shrink)
    moreover have "BestAskPrice ob' = 0 \<or> (BestAskPrice ob \<noteq> 0 \<and> BestAskPrice ob \<le> BestAskPrice ob')"
      using best(3,4) hv(2) by (rule best_ask_shrink)
    ultimately show ?thesis using u by (auto simp: uncrossed_def)
  qed
qed

section \<open>Batches stay well formed\<close>

lemma fits_extends: "extends b b' \<Longrightarrow> fits b' \<Longrightarrow> fits b"
  by (simp add: extends_def fits_def)

lemma drop_batch_ok:
  "batch_ok (batch s) \<Longrightarrow> fits (batch (dropExpired m s)) \<Longrightarrow> batch_ok (batch (dropExpired m s))"
  "batch_ok (batch s) \<Longrightarrow> fits (batch (dropSelf m s)) \<Longrightarrow> batch_ok (batch (dropSelf m s))"
  by (simp_all add: dropExpired_def dropSelf_def removeAndRecycleMaker_def invs)

lemma afterFill_batch_ok:
  assumes "batch_ok (batch s)" "OrderID m \<noteq> OrderID tk'" "fits (batch (afterFill m p mq tk' s))"
  shows "batch_ok (batch (afterFill m p mq tk' s))"
proof -
  let ?m = "m\<lparr>RemainingQty := RemainingQty m - mq\<rparr>"
  have "fits (addFill (batch s) ?m tk' p mq)"
    using fits_extends [OF afterFill_extends_addFill assms(3)] .
  then have "batch_ok (addFill (batch s) ?m tk' p mq)" using assms(1,2) by (simp add: invs)
  then show ?thesis
    using assms(3) by (auto simp: afterFill_def fillMaker_def removeAndRecycleMaker_def Let_def invs)
qed

lemma matchLevel_batch_ok:
  "batch_ok (batch s) \<Longrightarrow> \<forall>m \<in> set q. OrderID m \<noteq> OrderID (taker s) \<Longrightarrow>
     fits (batch (snd (matchLevel now p q s))) \<Longrightarrow> batch_ok (batch (snd (matchLevel now p q s)))"
proof -
  have "extends (batch s) (batch (snd (matchLevel now p q s))) \<and>
      (batch_ok (batch s) \<longrightarrow> (\<forall>m \<in> set q. OrderID m \<noteq> OrderID (taker s)) \<longrightarrow>
       fits (batch (snd (matchLevel now p q s))) \<longrightarrow> batch_ok (batch (snd (matchLevel now p q s))))"
  proof (rule matchLevel_rule [of "\<lambda>q s r. extends (batch s) (batch (snd r)) \<and>
      (batch_ok (batch s) \<longrightarrow> (\<forall>m \<in> set q. OrderID m \<noteq> OrderID (taker s)) \<longrightarrow>
       fits (batch (snd r)) \<longrightarrow> batch_ok (batch (snd r)))"], goal_cases)
    case (3 m ms s r)
    then show ?case
      using drop_batch_ok(1) [of s m] fits_extends [of "batch (dropExpired m s)" "batch (snd r)"]
        extends_trans [OF drop_extends(1) [of s m], of "batch (snd r)"] by simp
  next
    case (4 m ms s r)
    then show ?case
      using drop_batch_ok(2) [of s m] fits_extends [of "batch (dropSelf m s)" "batch (snd r)"]
        extends_trans [OF drop_extends(2) [of s m], of "batch (snd r)"] by simp
  next
    case (6 m ms s tk' r)
    have "OrderID tk' = OrderID (taker s)" using takeFrom_same_order [OF 6(4)] by (rule same_orderD)
    with 6 show ?case
      using afterFill_batch_ok [of s m tk' p "RemainingQty m"]
        fits_extends [of "batch (afterFill m p (RemainingQty m) tk' s)" "batch (snd r)"]
        extends_trans [OF afterFill_extends [of s m p "RemainingQty m" tk'], of "batch (snd r)"] by simp
  next
    case (7 m ms s mq tk' q r)
    have "OrderID tk' = OrderID (taker s)" using takeFrom_same_order [OF 7(4)] by (rule same_orderD)
    with 7 show ?case
      using afterFill_batch_ok [of s m tk' p mq]
        fits_extends [of "batch (afterFill m p mq tk' s)" "batch r"]
        extends_trans [OF afterFill_extends [of s m p mq tk'], of "batch r"] by simp
  qed auto
  then show "batch_ok (batch s) \<Longrightarrow> \<forall>m \<in> set q. OrderID m \<noteq> OrderID (taker s) \<Longrightarrow>
     fits (batch (snd (matchLevel now p q s))) \<Longrightarrow> batch_ok (batch (snd (matchLevel now p q s)))" by blast
qed

lemma queue_ids_known:
  assumes "sideIds arr + M = mset_set S" "m \<in> set (levelQueue (arr p))"
  shows "OrderID m \<in> S"
proof -
  have "OrderID m \<in># qids (levelQueue (arr p))" using assms(2) by (simp add: qids_def)
  then have "OrderID m \<in># sideIds arr" using sideIds_ge by (metis mset_subset_eqD)
  then show ?thesis using assms(1) by (metis finite_set_mset_mset_set finite_u64_set union_iff)
qed

lemma walk_extends:
  "sweep_ok sd M s \<Longrightarrow> \<forall>p \<in> set ps. 1 \<le> p \<and> p \<le> 99 \<Longrightarrow>
     extends (sw_batch s) (sw_batch (snd (walk now side good ps s)))"
proof (induction ps arbitrary: s)
  case (Cons p ps)
  obtain e s' where es: "matchAt now side p (levelOf (sw_levels s p)) s = (e, s')" by (meson surj_pair)
  have p: "1 \<le> p" "p \<le> 99" using Cons.prems(2) by auto
  note st = matchAt_step [of sd M s p "\<lambda>_. True", OF Cons.prems(1) p TrueI es]
  show ?case
    using Cons.IH [OF Cons.prems(1)] Cons.IH [OF st(1)] Cons.prems(2) es st(6)
    by (auto intro: extends_trans)
qed simp

lemma walk_batch_ok:
  assumes "sweep_ok sd M s" "\<forall>p \<in> set ps. 1 \<le> p \<and> p \<le> 99" "OrderID (sw_taker s) \<notin> sw_ids s"
    "batch_ok (sw_batch s)" "fits (sw_batch (snd (walk now side good ps s)))"
  shows "extends (sw_batch s) (sw_batch (snd (walk now side good ps s))) \<and>
    batch_ok (sw_batch (snd (walk now side good ps s)))"
  using assms
proof (induction ps arbitrary: s)
  case (Cons p ps)
  let ?w = "walk now side good"
  show ?case
  proof (cases "IsFilled (sw_taker s) \<or> \<not> good p \<or> levelQueue (sw_levels s p) = []")
    case True
    then show ?thesis using Cons by auto
  next
    case False
    obtain e s' where es: "matchAt now side p (levelOf (sw_levels s p)) s = (e, s')" by (meson surj_pair)
    have p: "1 \<le> p" "p \<le> 99" using Cons.prems(2) by auto
    have g: "good p" using False by blast
    note st = matchAt_step [of sd M s p good, OF Cons.prems(1) p g es]
    let ?l = "levelOf (sw_levels s p)"
    let ?r = "snd (matchLevel now p (Queue ?l) (startOf ?l s))"
    have s': "sw_ids s' \<subseteq> sw_ids s" "sw_batch s' = addDepthUpdate (batch ?r) side p (vol ?r)"
      using es matchLevel_ids_sub [of now p "Queue ?l" "startOf ?l s"]
      by (auto simp: matchAt_def startOf_def case_prod_beta Let_def)
    have known: "\<forall>m \<in> set (Queue ?l). OrderID m \<noteq> OrderID (sw_taker s)"
      using Cons.prems(1,3) queue_ids_known [of "sw_levels s" M "sw_ids s"]
      by (metis levelQueue_levelOf sweep_ok_def)
    have bok: "batch_ok (sw_batch s')" if "fits (sw_batch s')"
    proof -
      have "fits (batch ?r)" using that fits_extends [OF addDepthUpdate_extends] by (simp add: s'(2))
      then have "batch_ok (batch ?r)" using Cons.prems(4) known by (intro matchLevel_batch_ok) auto
      then show ?thesis by (simp add: s'(2) invs)
    qed
    show ?thesis
    proof (cases e)
      case True
      have w: "?w (p # ps) s = ?w ps s'" using False es True by simp
      have id': "OrderID (sw_taker s') \<notin> sw_ids s'"
        using s'(1) Cons.prems(3) same_orderD(1) [OF st(5)] by auto
      have fits': "fits (sw_batch (snd (?w ps s')))" using Cons.prems(5) w by simp
      have ext: "extends (sw_batch s') (sw_batch (snd (?w ps s')))"
        using st(1) Cons.prems(2) by (intro walk_extends) auto
      then have "batch_ok (sw_batch s')" using fits' fits_extends bok by blast
      then show ?thesis
        using Cons.IH [OF st(1) _ id' _ fits'] Cons.prems(2) w extends_trans [OF st(6)] by auto
    next
      case F: False
      then have "?w (p # ps) s = (p # ps, s')" using False es by simp
      then show ?thesis using Cons.prems(5) bok st(6) by simp
    qed
  qed
qed simp

end
