(* ===== verification/BookRuns.thy ===== *)
theory BookRuns
  imports BookCommands
begin

text \<open>
  Runs of the book: \<open>ProcessCommand\<close> on every command, the well-formed batch it leaves, the
  reachable books, and the properties of the book that the rest of the system relies on.
\<close>

section \<open>The batch after a command\<close>

lemma asksLoop_as_walk:
  assumes ok: "book_ok ob" and tk: "safeTaker tk"
  obtains t ps where "\<forall>p \<in> set ps. 1 \<le> p \<and> p \<le> 99"
    "asksLoop (CurrentTime ob) (if BestAskPrice ob = 0 then scanUp (Asks ob) 1 else BestAskPrice ob)
       \<lparr>sw_levels = Asks ob, sw_taker = tk, sw_ids = ob_Orders ob, sw_batch = b\<rparr> =
     Some (t, snd (walk (CurrentTime ob) SideSell (\<lambda>p. p \<le> PriceTick tk) ps
       \<lparr>sw_levels = Asks ob, sw_taker = tk, sw_ids = ob_Orders ob, sw_batch = b\<rparr>))"
proof -
  let ?t = "BestAskPrice ob"
  let ?s = "\<lparr>sw_levels = Asks ob, sw_taker = tk, sw_ids = ob_Orders ob, sw_batch = b\<rparr>"
  let ?w = "\<lambda>ps. walk (CurrentTime ob) SideSell (\<lambda>p. p \<le> PriceTick tk) ps ?s"
  have best: "is_best_ask (Asks ob) ?t" and sa: "side_ok SideSell (Asks ob)"
    using ok by (simp_all add: book_ok_def)
  have sw: "sweep_ok SideSell (sideIds (Bids ob)) ?s" using ok tk by (simp add: sweep_ok_def book_ok_def)
  have tgt: "(if ?t = 0 then scanUp (Asks ob) 1 else ?t) = ?t" using scanUp_eqI [OF best] by simp
  show thesis
  proof (cases "?t = 0")
    case True
    have "asksLoop (CurrentTime ob) 0 ?s = Some (0, snd (?w []))" by (subst asksLoop.simps) simp
    then show thesis using that [of "[]" 0] tgt True by simp
  next
    case False
    note fb = asks_from_best [OF sa best False]
    have "?t \<le> 100" using fb(3) by (simp add: word_le_nat_alt)
    then have "asksLoop (CurrentTime ob) ?t ?s = Some (upStop (fst (?w (upTicks ?t))), snd (?w (upTicks ?t)))"
      using asksLoop_walk [OF sw fb(2), of "PriceTick tk"] by (simp add: case_prod_beta Let_def)
    moreover have "\<forall>p \<in> set (upTicks ?t). 1 \<le> p \<and> p \<le> 99" using fb by (auto simp: set_upTicks)
    ultimately show thesis using that [of "upTicks ?t"] tgt by simp
  qed
qed

lemma bidsLoop_as_walk:
  assumes ok: "book_ok ob" and tk: "safeTaker tk"
  obtains t ps where "\<forall>p \<in> set ps. 1 \<le> p \<and> p \<le> 99"
    "bidsLoop (CurrentTime ob) (if BestBidPrice ob = 0 then scanDown (Bids ob) 99 else BestBidPrice ob)
       \<lparr>sw_levels = Bids ob, sw_taker = tk, sw_ids = ob_Orders ob, sw_batch = b\<rparr> =
     Some (t, snd (walk (CurrentTime ob) SideBuy (\<lambda>p. PriceTick tk \<le> p) ps
       \<lparr>sw_levels = Bids ob, sw_taker = tk, sw_ids = ob_Orders ob, sw_batch = b\<rparr>))"
proof -
  let ?t = "BestBidPrice ob"
  let ?s = "\<lparr>sw_levels = Bids ob, sw_taker = tk, sw_ids = ob_Orders ob, sw_batch = b\<rparr>"
  let ?w = "\<lambda>ps. walk (CurrentTime ob) SideBuy (\<lambda>p. PriceTick tk \<le> p) ps ?s"
  have best: "is_best_bid (Bids ob) ?t" and sa: "side_ok SideBuy (Bids ob)"
    using ok by (simp_all add: book_ok_def)
  have sw: "sweep_ok SideBuy (sideIds (Asks ob)) ?s"
    using ok tk by (simp add: sweep_ok_def book_ok_def add.commute)
  have tgt: "(if ?t = 0 then scanDown (Bids ob) 99 else ?t) = ?t" using scanDown_eqI [OF best] by simp
  show thesis
  proof (cases "?t = 0")
    case True
    have "bidsLoop (CurrentTime ob) 0 ?s = Some (0, snd (?w []))" by (subst bidsLoop.simps) simp
    then show thesis using that [of "[]" 0] tgt True by simp
  next
    case False
    note fb = bids_from_best [OF sa best False]
    have "bidsLoop (CurrentTime ob) ?t ?s = Some (downStop (fst (?w (downTicks ?t))), snd (?w (downTicks ?t)))"
      using bidsLoop_walk [OF sw fb(2,3), of "PriceTick tk"] by (simp add: case_prod_beta Let_def)
    moreover have "\<forall>p \<in> set (downTicks ?t). 1 \<le> p \<and> p \<le> 99" using fb by (auto simp: set_downTicks)
    ultimately show thesis using that [of "downTicks ?t"] tgt by simp
  qed
qed

lemma matchAsks_batch_ok:
  assumes ok: "book_ok ob" and tk: "safeTaker tk" "OrderID tk \<notin> ob_Orders ob" and b: "batch_ok b"
    and r: "matchAsks ob tk b = Some (Inr (ob', tk', b'))" and fit: "fits b'"
  shows "batch_ok b'"
proof -
  obtain t ps where w: "\<forall>p \<in> set ps. 1 \<le> p \<and> p \<le> 99"
    "asksLoop (CurrentTime ob) (if BestAskPrice ob = 0 then scanUp (Asks ob) 1 else BestAskPrice ob)
       \<lparr>sw_levels = Asks ob, sw_taker = tk, sw_ids = ob_Orders ob, sw_batch = b\<rparr> =
     Some (t, snd (walk (CurrentTime ob) SideSell (\<lambda>p. p \<le> PriceTick tk) ps
       \<lparr>sw_levels = Asks ob, sw_taker = tk, sw_ids = ob_Orders ob, sw_batch = b\<rparr>))"
    using asksLoop_as_walk [OF ok tk(1), of b] by metis
  let ?s = "\<lparr>sw_levels = Asks ob, sw_taker = tk, sw_ids = ob_Orders ob, sw_batch = b\<rparr>"
  have sw: "sweep_ok SideSell (sideIds (Bids ob)) ?s" using ok tk by (simp add: sweep_ok_def book_ok_def)
  have "b' = sw_batch (snd (walk (CurrentTime ob) SideSell (\<lambda>p. p \<le> PriceTick tk) ps ?s))"
    using r w(2) by (simp add: matchAsks_def Let_def)
  then show ?thesis
    using walk_batch_ok [OF sw w(1)] tk(2) b fit by simp
qed

lemma matchBids_batch_ok:
  assumes ok: "book_ok ob" and tk: "safeTaker tk" "OrderID tk \<notin> ob_Orders ob" and b: "batch_ok b"
    and r: "matchBids ob tk b = Some (Inr (ob', tk', b'))" and fit: "fits b'"
  shows "batch_ok b'"
proof -
  obtain t ps where w: "\<forall>p \<in> set ps. 1 \<le> p \<and> p \<le> 99"
    "bidsLoop (CurrentTime ob) (if BestBidPrice ob = 0 then scanDown (Bids ob) 99 else BestBidPrice ob)
       \<lparr>sw_levels = Bids ob, sw_taker = tk, sw_ids = ob_Orders ob, sw_batch = b\<rparr> =
     Some (t, snd (walk (CurrentTime ob) SideBuy (\<lambda>p. PriceTick tk \<le> p) ps
       \<lparr>sw_levels = Bids ob, sw_taker = tk, sw_ids = ob_Orders ob, sw_batch = b\<rparr>))"
    using bidsLoop_as_walk [OF ok tk(1), of b] by metis
  let ?s = "\<lparr>sw_levels = Bids ob, sw_taker = tk, sw_ids = ob_Orders ob, sw_batch = b\<rparr>"
  have sw: "sweep_ok SideBuy (sideIds (Asks ob)) ?s"
    using ok tk by (simp add: sweep_ok_def book_ok_def add.commute)
  have "b' = sw_batch (snd (walk (CurrentTime ob) SideBuy (\<lambda>p. PriceTick tk \<le> p) ps ?s))"
    using r w(2) by (simp add: matchBids_def Let_def split: if_splits)
  then show ?thesis
    using walk_batch_ok [OF sw w(1)] tk(2) b fit by simp
qed

lemma finishTaker_batch_ok:
  "batch_ok b \<Longrightarrow> finishTaker ob tk b = Inr (ob', b') \<Longrightarrow> fits b' \<Longrightarrow> batch_ok b' \<and> extends b b'"
  using fits_extends [OF addDepthUpdate_extends]
  by (auto simp: finishTaker_def addOrderToBook_def Let_def invs split: if_splits
      intro: extends_trans [OF addOrderUpdateForOrder_extends addDepthUpdate_extends])

lemma finishTaker_extends: "finishTaker ob tk b = Inr (ob', b') \<Longrightarrow> extends b b'"
  by (auto simp: finishTaker_def addOrderToBook_def Let_def split: if_splits
      intro: extends_trans [OF addOrderUpdateForOrder_extends addDepthUpdate_extends])

lemma handlePlaceOrder_batch_ok:
  assumes ok: "book_ok ob" and adm: "admissible ob c" and b: "batch_ok b"
    and r: "handlePlaceOrder ob c b = Some (Inr (ob', b'))" and fit: "fits b'"
  shows "batch_ok b'"
proof (cases "IsActive ob")
  case False
  then show ?thesis using r b fit by (auto simp: handlePlaceOrder_def invs)
next
  case True
  let ?tk = "orderFromCmd c"
  have tk: "safeTaker ?tk" "OrderID ?tk \<notin> ob_Orders ob"
    using adm safeTaker_from_cmd by (auto simp: admissible_def)
  obtain ob1 tk1 b1 where m: "(if c_Side c = SideBuy then matchAsks ob ?tk b else matchBids ob ?tk b) = Some (Inr (ob1, tk1, b1))"
    and f: "finishTaker ob1 tk1 b1 = Inr (ob', b')"
    using r True by (auto simp: handlePlaceOrder_def split: option.splits sum.splits if_splits)
  have "fits b1" using fits_extends [OF finishTaker_extends [OF f] fit] .
  then have "batch_ok b1"
    using m matchAsks_batch_ok [OF ok tk b] matchBids_batch_ok [OF ok tk b] by (auto split: if_splits)
  then show ?thesis using finishTaker_batch_ok [OF _ f fit] by blast
qed

lemma sweepQueue_batch:
  "extends (batch s) (batch (snd (sweepQueue now q s))) \<and>
   (batch_ok (batch s) \<longrightarrow> fits (batch (snd (sweepQueue now q s))) \<longrightarrow> batch_ok (batch (snd (sweepQueue now q s))))"
proof (induction now q s rule: sweepQueue.induct)
  case (2 now m rest s)
  show ?case
  proof (cases "isExpired now m")
    case True
    have e: "sweepQueue now (m # rest) s = sweepQueue now rest (dropExpired m s)"
      using True by (simp add: dropExpired_def)
    have IH: "extends (batch (dropExpired m s)) (batch (snd (sweepQueue now rest (dropExpired m s)))) \<and>
      (batch_ok (batch (dropExpired m s)) \<longrightarrow> fits (batch (snd (sweepQueue now rest (dropExpired m s)))) \<longrightarrow>
       batch_ok (batch (snd (sweepQueue now rest (dropExpired m s)))))"
      using 2 True by (simp add: dropExpired_def)
    then show ?thesis
      unfolding e using drop_batch_ok(1) [of s m] fits_extends [of "batch (dropExpired m s)"]
        extends_trans [OF drop_extends(1) [of s m]] by blast
  qed simp
qed simp

lemma sweepLevelO1_batch:
  assumes "sweepLevelO1 now level p sd S b = (l', S', b', removed)"
  shows "extends b b'" "batch_ok b \<Longrightarrow> fits b' \<Longrightarrow> batch_ok b'"
proof -
  have "extends b b' \<and> (batch_ok b \<longrightarrow> fits b' \<longrightarrow> batch_ok b')"
  proof (cases "levelQueue level = []")
    case True
    then have "b' = b" using assms by (auto simp: sweepLevelO1_def levelQueue_def split: option.splits)
    then show ?thesis by simp
  next
    case False
    then obtain l where l: "level = Some l" "Queue l \<noteq> []" by (cases level) auto
    let ?r = "snd (sweepQueue now (Queue l) \<lparr>taker = zeroOrder, vol = TotalVolume l, ids = S, batch = b\<rparr>)"
    have b': "b' = (if isExpired now (hd (Queue l)) then addDepthUpdate (batch ?r) sd p (vol ?r) else batch ?r)"
      using assms l by (auto simp: sweepLevelO1_def Let_def case_prod_beta)
    then show ?thesis
      using sweepQueue_batch [of "\<lparr>taker = zeroOrder, vol = TotalVolume l, ids = S, batch = b\<rparr>" now "Queue l"]
        fits_extends [OF addDepthUpdate_extends, of "batch ?r" sd p "vol ?r"]
        extends_trans [OF _ addDepthUpdate_extends, of b "batch ?r" sd p "vol ?r"]
      by (simp add: invs)
  qed
  then show "extends b b'" "batch_ok b \<Longrightarrow> fits b' \<Longrightarrow> batch_ok b'" by blast+
qed

lemma tickPrice_batch:
  assumes "tickPrice now p (ob, b, ch) = (ob', b', ch')"
  shows "extends b b'" "batch_ok b \<Longrightarrow> fits b' \<Longrightarrow> batch_ok b'"
proof -
  obtain bl S1 b1 rb where B: "sweepLevelO1 now (Bids ob p) p SideBuy (ob_Orders ob) b = (bl, S1, b1, rb)"
    by (metis prod_cases4)
  obtain al S2 b2 ra where A: "sweepLevelO1 now (Asks ob p) p SideSell S1 b1 = (al, S2, b2, ra)"
    by (metis prod_cases4)
  have b': "b' = b2" using assms A B by (auto simp: tickPrice_def)
  show "extends b b'" using sweepLevelO1_batch(1) [OF B] sweepLevelO1_batch(1) [OF A] b' extends_trans by blast
  show "batch_ok b \<Longrightarrow> fits b' \<Longrightarrow> batch_ok b'"
    using sweepLevelO1_batch(2) [OF B] sweepLevelO1_batch [OF A] b' fits_extends by blast
qed

lemma tick_fold_batch:
  assumes "fold (tickPrice now) ps (ob, b, ch) = (ob', b', ch')"
  shows "extends b b' \<and> (batch_ok b \<longrightarrow> fits b' \<longrightarrow> batch_ok b')"
  using assms
proof (induction ps arbitrary: ob b ch)
  case (Cons p ps)
  obtain ob1 b1 ch1 where t: "tickPrice now p (ob, b, ch) = (ob1, b1, ch1)" by (metis prod_cases3)
  have "fold (tickPrice now) ps (ob1, b1, ch1) = (ob', b', ch')" using Cons.prems t by simp
  with Cons.IH tickPrice_batch [OF t] show ?case using extends_trans fits_extends by blast
qed simp

lemma handleTick_batch_ok:
  "handleTick ob t b = (ob', b') \<Longrightarrow> batch_ok b \<Longrightarrow> fits b' \<Longrightarrow> batch_ok b'"
  using tick_fold_batch by (auto simp: handleTick_def split: prod.splits)

section \<open>Every command\<close>

definition admissibleCommand :: "FixedArrayOrderBook \<Rightarrow> Command \<Rightarrow> bool" where
  "admissibleCommand ob cmd = (case cmd of PlaceOrder c \<Rightarrow> admissible ob c | _ \<Rightarrow> True)"

lemma book_ok_time [simp]:
  "book_ok (ob\<lparr>CurrentTime := t\<rparr>) = book_ok ob" "uncrossed (ob\<lparr>CurrentTime := t\<rparr>) = uncrossed ob"
  "admissible (ob\<lparr>CurrentTime := t\<rparr>) c = admissible ob c"
  "otherSide (ob\<lparr>CurrentTime := t\<rparr>) c = otherSide ob c" "ownQueue (ob\<lparr>CurrentTime := t\<rparr>) c p = ownQueue ob c p"
  by (simp_all add: book_ok_def uncrossed_def admissible_def sideLevel_def otherSide_def restingAsks_def
      restingBids_def ownQueue_def)

lemma ProcessCommand_step:
  assumes ok: "book_ok ob" and adm: "admissibleCommand ob cmd"
  shows "\<exists>ob' b'. ProcessCommand ob cmd b = Some (Inr (ob', b')) \<and> book_ok ob' \<and>
    (uncrossed ob \<longrightarrow> uncrossed ob') \<and> (batch_ok b \<longrightarrow> fits b' \<longrightarrow> batch_ok b')"
proof (cases cmd)
  case (PlaceOrder c)
  let ?ob = "ob\<lparr>CurrentTime := GetTimestamp cmd\<rparr>"
  have a: "admissible ?ob c" "book_ok ?ob" using ok adm PlaceOrder by (auto simp: admissibleCommand_def)
  have P: "ProcessCommand ob cmd b = handlePlaceOrder ?ob c b" by (simp add: ProcessCommand_def PlaceOrder)
  show ?thesis
  proof (cases "IsActive ob")
    case True
    then obtain ob' b' where h: "handlePlaceOrder ?ob c b = Some (Inr (ob', b'))" "placed ?ob c b ob' b'"
      using handlePlaceOrder_placed [OF a(2) _ a(1), of b] by auto
    then show ?thesis
      unfolding P using handlePlaceOrder_batch_ok [OF a(2,1) _ h(1)] by (auto simp: placed_def)
  next
    case False
    then show ?thesis unfolding P using ok by (auto simp: handlePlaceOrder_def invs)
  qed
next
  case (Tick m t)
  obtain ob' b' where h: "handleTick (ob\<lparr>CurrentTime := t\<rparr>) t b = (ob', b')" by (meson surj_pair)
  then show ?thesis
    using handleTick_spec(1,2) [OF _ h] ok handleTick_batch_ok [OF h]
    by (auto simp: ProcessCommand_def Tick)
next
  case (HaltMarket m t)
  then show ?thesis using ok by (auto simp: ProcessCommand_def handleHalt_def book_ok_def uncrossed_def Let_def)
qed

section \<open>Reachable books\<close>

text \<open>A book grows from an empty one by restoring snapshot orders that do not cross it and by
  processing commands.\<close>

definition noCross :: "FixedArrayOrderBook \<Rightarrow> MemoryOrder \<Rightarrow> bool" where
  "noCross ob ord \<longleftrightarrow>
     (if Side ord = SideBuy then BestAskPrice ob = 0 \<or> PriceTick ord < BestAskPrice ob
      else BestBidPrice ob = 0 \<or> BestBidPrice ob < PriceTick ord)"

inductive bookStep :: "FixedArrayOrderBook \<Rightarrow> FixedArrayOrderBook \<Rightarrow> bool" where
  restore: "restable ob ord \<Longrightarrow> noCross ob ord \<Longrightarrow> RestoreOrder ob ord = Inr ob' \<Longrightarrow> bookStep ob ob'"
| command: "admissibleCommand ob cmd \<Longrightarrow> ProcessCommand ob cmd b = Some (Inr (ob', b')) \<Longrightarrow> bookStep ob ob'"

inductive reachableBook :: "u64 \<Rightarrow> FixedArrayOrderBook \<Rightarrow> bool" for m where
  fresh: "reachableBook m (NewFixedArrayOrderBook m)"
| step: "reachableBook m ob \<Longrightarrow> bookStep ob ob' \<Longrightarrow> reachableBook m ob'"

inductive_cases bookStepE: "bookStep ob ob'"

lemma bookStep_inv:
  assumes "bookStep ob ob'" "book_ok ob" "uncrossed ob"
  shows "book_ok ob' \<and> uncrossed ob'"
proof (rule bookStepE [OF assms(1)], goal_cases)
  case (1 ord)
  then have "ob' = linkOrder ob ord" by (auto simp: RestoreOrder_def split: if_splits)
  moreover have "uncrossed (linkOrder ob ord)"
    using 1 assms(3) by (intro linkOrder_uncrossed) (auto simp: restable_def noCross_def)
  ultimately show ?thesis using 1 assms(2) by (simp add: invs)
next
  case (2 cmd b b')
  then show ?thesis using ProcessCommand_step [OF assms(2) 2(1), of b] assms(3) by auto
qed

section \<open>Trades\<close>

lemma refMatch_trades:
  "refMatch now good l tk = (T, l', tk') \<Longrightarrow> safeTaker tk \<Longrightarrow> (\<forall>(p, m) \<in> set l. safeMaker m \<and> 1 \<le> p \<and> p \<le> 99) \<Longrightarrow>
     (p, m, mq) \<in> set T \<Longrightarrow>
     (p, m) \<in> set l \<and> good p \<and> \<not> isExpired now m \<and> WalletAddress m \<noteq> WalletAddress tk \<and>
     mq \<noteq> 0 \<and> mq \<le> RemainingQty m"
proof (induction now good l tk arbitrary: T l' tk' rule: refMatch.induct)
  case (1 now ok tk)
  then show ?case by simp
next
  case (2 now ok p1 m1 rest tk)
  consider (stop) "IsFilled tk \<or> \<not> ok p1"
    | (skip) "\<not> (IsFilled tk \<or> \<not> ok p1)" "isExpired now m1 \<or> WalletAddress m1 = WalletAddress tk"
    | (go) "\<not> (IsFilled tk \<or> \<not> ok p1)" "\<not> (isExpired now m1 \<or> WalletAddress m1 = WalletAddress tk)"
    by blast
  then show ?case
  proof cases
    case stop
    with 2 show ?thesis by auto
  next
    case skip
    with 2 show ?thesis by auto
  next
    case go
    have nf: "\<not> IsFilled tk" using go by blast
    have mk: "safeMaker m1" "1 \<le> p1" "p1 \<le> 99" using "2.prems"(3) by auto
    obtain q tk1 where t: "takeFrom tk m1 p1 = Some (q, tk1)" "q \<noteq> 0" "q \<le> RemainingQty m1"
      "same_order tk tk1" "safeTaker tk1"
      using takeFrom_safe [OF nf "2.prems"(2) mk] by metis
    show ?thesis
    proof (cases "q = RemainingQty m1")
      case False
      with "2.prems"(1,4) go t show ?thesis by auto
    next
      case True
      obtain ts rem tk2 where r: "refMatch now ok rest tk1 = (ts, rem, tk2)" by (metis prod_cases3)
      have T: "T = (p1, m1, q) # ts" using "2.prems"(1) go t(1) True r by auto
      show ?thesis
      proof (cases "(p, m, mq) = (p1, m1, q)")
        case True
        then show ?thesis using go t by auto
      next
        case False
        then have "(p, m, mq) \<in> set ts" using "2.prems"(4) T by auto
        then have "(p, m) \<in> set rest \<and> ok p \<and> \<not> isExpired now m \<and> WalletAddress m \<noteq> WalletAddress tk1 \<and>
            mq \<noteq> 0 \<and> mq \<le> RemainingQty m"
          using "2.IH"(2) [OF go t(1) refl True r t(5)] "2.prems"(3) by auto
        then show ?thesis using same_orderD(2) [OF t(4)] by simp
      qed
    qed
  qed
qed

lemma list_all2_set2: "list_all2 P xs ys \<Longrightarrow> y \<in> set ys \<Longrightarrow> \<exists>x \<in> set xs. P x y"
  by (induction rule: list_all2_induct) auto

lemma list_all2_sum:
  "list_all2 P xs ys \<Longrightarrow> (\<And>x y. P x y \<Longrightarrow> (f x :: nat) = g y) \<Longrightarrow> sum_list (map f xs) = sum_list (map g ys)"
  by (induction rule: list_all2_induct) auto

text \<open>The units or lots a fill charges the taker of a command.\<close>

definition fillCharge :: "PlaceOrderCommand \<Rightarrow> MatchFill \<Rightarrow> nat" where
  "fillCharge c f = (if isMarketBuy (orderFromCmd c) then unat (f_NotionalUnits f) else unat (f_FillAmount f))"

lemma fill_of_trade_charge:
  "fill_of_trade b (orderFromCmd c) t f \<Longrightarrow> (\<lambda>(p, m, mq). charge (orderFromCmd c) p mq) t = fillCharge c f"
  by (auto simp: fill_of_trade_def charge_def fillCharge_def split: prod.splits)

lemma otherSide_safe: "book_ok ob \<Longrightarrow> \<forall>(p, m) \<in> set (otherSide ob c). safeMaker m \<and> 1 \<le> p \<and> p \<le> 99"
  using resting_safe by (simp add: otherSide_def)

lemma placed_fills:
  assumes ok: "book_ok ob" and adm: "admissible ob c" and pl: "placed ob c b ob' b'"
  shows "\<exists>F. Fills (event b') = Fills (event b) @ F \<and>
    (\<forall>f \<in> set F. \<exists>p m. (p, m) \<in> set (otherSide ob c) \<and> withinLimit c p \<and> f_FillPrice f = ucast p \<and>
       orderIndex b' (OrderID m) = Some (f_MakerOrderIndex f) \<and>
       orderIndex b' (c_OrderID c) = Some (f_TakerOrderIndex f) \<and>
       WalletAddress m \<noteq> c_WalletAddress c \<and> \<not> isExpired (CurrentTime ob) m \<and>
       f_FillAmount f \<noteq> 0 \<and> f_FillAmount f \<le> RemainingQty m) \<and>
    sum_list (map (fillCharge c) F) \<le> budget (orderFromCmd c)"
proof -
  obtain T L tk where r: "refMatch (CurrentTime ob) (withinLimit c) (otherSide ob c) (orderFromCmd c) = (T, L, tk)"
    by (metis prod_cases3)
  obtain F where F: "Fills (event b') = Fills (event b) @ F" "list_all2 (fill_of_trade b' (orderFromCmd c)) T F"
    using pl r by (auto simp: placed_def)
  note safe = safeTaker_from_cmd [OF adm] otherSide_safe [OF ok, of c]
  have "\<exists>p m. (p, m) \<in> set (otherSide ob c) \<and> withinLimit c p \<and> f_FillPrice f = ucast p \<and>
       orderIndex b' (OrderID m) = Some (f_MakerOrderIndex f) \<and>
       orderIndex b' (c_OrderID c) = Some (f_TakerOrderIndex f) \<and>
       WalletAddress m \<noteq> c_WalletAddress c \<and> \<not> isExpired (CurrentTime ob) m \<and>
       f_FillAmount f \<noteq> 0 \<and> f_FillAmount f \<le> RemainingQty m" if inF: "f \<in> set F" for f
  proof -
    obtain p m mq where t: "(p, m, mq) \<in> set T" "fill_of_trade b' (orderFromCmd c) (p, m, mq) f"
      using list_all2_set2 [OF F(2) inF] by auto
    from refMatch_trades [OF r safe t(1)] t(2) show ?thesis
      by (intro exI [of _ p] exI [of _ m]) (simp add: fill_of_trade_def)
  qed
  moreover have "sum_list (map (fillCharge c) F) \<le> budget (orderFromCmd c)"
    using refMatch_budget_le [OF r safe] list_all2_sum [OF F(2) fill_of_trade_charge] by simp
  ultimately show ?thesis using F(1) by blast
qed

section \<open>Properties\<close>

text \<open>A buyer and a seller for the witnesses: two limit orders that meet.\<close>

definition sampleCmd :: "u64 \<Rightarrow> string \<Rightarrow> u8 \<Rightarrow> u8 \<Rightarrow> u64 \<Rightarrow> PlaceOrderCommand" where
  "sampleCmd oid wallet side tick qty = \<lparr>c_CommandID = ''cmd'', c_TraceID = [], c_IdempotencyKey = [],
     c_OrderID = oid, c_MarketID = 1, c_MarketPDA = ''m'', c_WalletAddress = wallet,
     c_OriginalAction = side, c_OriginalOutcome = 0, c_OriginalPriceTick = tick, c_Side = side,
     c_OrderType = OrderTypeLimit, c_PriceTick = tick, c_QtyLots = qty, c_SpendAmount = 0,
     c_ExpireTime = 0, c_Signature = [], c_IntentBytesHex = [], c_Nonce = 0, c_Timestamp = 7,
     c_SourceCmdSeq = oid\<rparr>"

definition sampleBook :: FixedArrayOrderBook where
  "sampleBook = linkOrder (NewFixedArrayOrderBook 1) (orderFromCmd (sampleCmd 10 ''seller'' SideSell 40 5))"

lemma sampleCmd_sel [simp]:
  "c_OrderID (sampleCmd i w sd t q) = i" "c_WalletAddress (sampleCmd i w sd t q) = w"
  "c_Side (sampleCmd i w sd t q) = sd" "c_PriceTick (sampleCmd i w sd t q) = t"
  "c_QtyLots (sampleCmd i w sd t q) = q" "c_SpendAmount (sampleCmd i w sd t q) = 0"
  "c_OrderType (sampleCmd i w sd t q) = OrderTypeLimit" "c_OriginalAction (sampleCmd i w sd t q) = sd"
  by (simp_all add: sampleCmd_def)

lemma sample_restable:
  "restable (NewFixedArrayOrderBook 1) (orderFromCmd (sampleCmd 10 ''seller'' SideSell 40 5))"
  by (simp add: restable_def safeMaker_def NewFixedArrayOrderBook_def sideLevel_def)

lemma sample_reachable: "bookStep (NewFixedArrayOrderBook 1) sampleBook"
  by (rule bookStep.restore [OF sample_restable])
     (simp_all add: noCross_def NewFixedArrayOrderBook_def RestoreOrder_def sampleBook_def)

lemma sampleBook_ok: "book_ok sampleBook" "IsActive sampleBook"
  using linkOrder_ok [OF NewFixedArrayOrderBook_ok(1) sample_restable]
  by (simp_all add: sampleBook_def linkOrder_def NewFixedArrayOrderBook_def Let_def)

lemma sample_admissible: "admissible sampleBook (sampleCmd 11 ''buyer'' SideBuy 45 3)"
  by (simp add: admissible_def sampleBook_def linkOrder_sel NewFixedArrayOrderBook_def sideLevel_def)

text \<open>The loops evaluate by their equations: the order of the buyer is filled by the resting order of the seller.\<close>

declare asksLoop.simps [code] bidsLoop.simps [code]

lemma sample_trade:
  "case ProcessCommand sampleBook (PlaceOrder (sampleCmd 11 ''buyer'' SideBuy 45 3)) (newPendingBatch 1 ''m'' 0) of
     Some (Inr (ob', b')) \<Rightarrow> length (ev_Orders (event b')) = 2 \<and> map f_FillAmount (Fills (event b')) = [3] \<and> OrderUpdates (event b') \<noteq> []
   | _ \<Rightarrow> False"
  by code_simp

lemma sample_admissible_command: "admissibleCommand sampleBook (PlaceOrder (sampleCmd 11 ''buyer'' SideBuy 45 3))"
  using sample_admissible sampleBook_ok by (simp add: admissibleCommand_def)

text \<open>C1: every reachable book is well formed and uncrossed.  Each level's volume is the sum of
  its queue, each queued order has the level's side and tick and a positive remainder, the id
  map holds exactly the queued ids, each once, the best prices are the extreme ticks with
  volume, and the best bid is below the best ask.\<close>
theorem reachable_book_ok:
  assumes "reachableBook m ob"
  shows "book_ok ob \<and> uncrossed ob"
  using assms
proof induction
  case fresh
  show ?case by (simp add: invs)
next
  case (step ob ob')
  then show ?case using bookStep_inv by blast
qed

theorem reachable_book_ok_witness: "book_ok sampleBook \<and> uncrossed sampleBook"
  by (rule reachable_book_ok [of 1, OF reachableBook.step [OF reachableBook.fresh sample_reachable]])

text \<open>C2: an incoming order is matched in price-time priority.  On a well-formed active book an
  admissible order is processed without a panic, the matching loops end, the other side
  becomes what the reference matcher leaves of it, the fills appended to the batch are its
  trades in order, and a limit remainder rests at the tail of its own level, all other queues
  of its side unchanged.\<close>
theorem handlePlaceOrder_price_time:
  assumes "book_ok ob" "IsActive ob" "admissible ob c"
  shows "\<exists>ob' b'. handlePlaceOrder ob c b = Some (Inr (ob', b')) \<and> placed ob c b ob' b'"
  using assms by (rule handlePlaceOrder_placed)

theorem handlePlaceOrder_price_time_witness:
  "\<exists>ob' b'. handlePlaceOrder sampleBook (sampleCmd 11 ''buyer'' SideBuy 45 3) (newPendingBatch 1 ''m'' 0) =
     Some (Inr (ob', b')) \<and> placed sampleBook (sampleCmd 11 ''buyer'' SideBuy 45 3) (newPendingBatch 1 ''m'' 0) ob' b'"
  by (rule handlePlaceOrder_price_time [OF sampleBook_ok sample_admissible])

text \<open>C3: the fills of an order.  Each is a positive quantity, at most what the maker had,
  against a live resting order of another wallet, at that order's tick, which is within the
  taker's limit; it names the two orders' batch entries; and together the fills charge at most
  the taker's quantity, or the spend of a market buy.\<close>
theorem handlePlaceOrder_fills:
  assumes "book_ok ob" "IsActive ob" "admissible ob c"
    and "handlePlaceOrder ob c b = Some (Inr (ob', b'))"
  shows "\<exists>F. Fills (event b') = Fills (event b) @ F \<and>
    (\<forall>f \<in> set F. \<exists>p m. (p, m) \<in> set (otherSide ob c) \<and> withinLimit c p \<and> f_FillPrice f = ucast p \<and>
       orderIndex b' (OrderID m) = Some (f_MakerOrderIndex f) \<and>
       orderIndex b' (c_OrderID c) = Some (f_TakerOrderIndex f) \<and>
       WalletAddress m \<noteq> c_WalletAddress c \<and> \<not> isExpired (CurrentTime ob) m \<and>
       f_FillAmount f \<noteq> 0 \<and> f_FillAmount f \<le> RemainingQty m) \<and>
    sum_list (map (fillCharge c) F) \<le> budget (orderFromCmd c)"
proof -
  have "placed ob c b ob' b'" using handlePlaceOrder_placed [OF assms(1-3), of b] assms(4) by auto
  then show ?thesis by (rule placed_fills [OF assms(1,3)])
qed

theorem handlePlaceOrder_fills_witness:
  "\<exists>ob' b' F. handlePlaceOrder sampleBook (sampleCmd 11 ''buyer'' SideBuy 45 3) (newPendingBatch 1 ''m'' 0) =
     Some (Inr (ob', b')) \<and> Fills (event b') = F \<and>
     sum_list (map (fillCharge (sampleCmd 11 ''buyer'' SideBuy 45 3)) F) \<le> 3"
proof -
  obtain ob' b' where h: "handlePlaceOrder sampleBook (sampleCmd 11 ''buyer'' SideBuy 45 3) (newPendingBatch 1 ''m'' 0) =
     Some (Inr (ob', b'))"
    using handlePlaceOrder_placed [OF sampleBook_ok sample_admissible] by blast
  from handlePlaceOrder_fills [OF sampleBook_ok sample_admissible h] h show ?thesis
    by (auto simp: budget_def isMarketBuy_def newPendingBatch_def)
qed

text \<open>C4: every command ends.  Placing an admissible order, a tick and a halt return on a
  well-formed book, without an index out of range, and leave it well formed and uncrossed.\<close>
theorem ProcessCommand_total:
  assumes "book_ok ob" "uncrossed ob" "admissibleCommand ob cmd"
  shows "\<exists>ob' b'. ProcessCommand ob cmd b = Some (Inr (ob', b')) \<and> book_ok ob' \<and> uncrossed ob'"
  using ProcessCommand_step [OF assms(1,3), of b] assms(2) by blast

theorem ProcessCommand_total_witness:
  "\<exists>ob' b'. ProcessCommand sampleBook (PlaceOrder (sampleCmd 11 ''buyer'' SideBuy 45 3)) (newPendingBatch 1 ''m'' 0) = Some (Inr (ob', b')) \<and>
     book_ok ob' \<and> uncrossed ob'"
proof (rule ProcessCommand_total [OF sampleBook_ok(1) _ sample_admissible_command])
  have "uncrossed (NewFixedArrayOrderBook 1)" by (simp add: invs)
  then show "uncrossed sampleBook" using bookStep_inv [OF sample_reachable NewFixedArrayOrderBook_ok(1)] by simp
qed

text \<open>The expiry tick.  Every queue of both sides loses exactly its longest prefix of
  expired orders, nothing trades, and the book's clock is the tick's time.\<close>
theorem handleTick_expires:
  assumes "book_ok ob" "handleTick ob now b = (ob', b')"
  shows "(\<forall>p. levelQueue (Bids ob' p) = dropWhile (isExpired now) (levelQueue (Bids ob p)) \<and>
              levelQueue (Asks ob' p) = dropWhile (isExpired now) (levelQueue (Asks ob p))) \<and>
    Fills (event b') = Fills (event b) \<and> CurrentTime ob' = now \<and> book_ok ob'"
  using handleTick_spec [OF assms] by blast

theorem handleTick_expires_witness:
  "CurrentTime (fst (handleTick sampleBook 9 (newPendingBatch 1 ''m'' 0))) = 9 \<and>
   book_ok (fst (handleTick sampleBook 9 (newPendingBatch 1 ''m'' 0)))"
  using handleTick_expires [OF sampleBook_ok(1) surjective_pairing] by blast

text \<open>C14: the batch a command extends stays well formed, provided that it then holds at most \<open>2 ^ 16\<close> orders:
  entries and index map agree, every fill names two different entries and every update an existing one, which
  is what settlement requires of an execution event.  Beyond that number the 16-bit index of an entry wraps.\<close>
theorem ProcessCommand_batch_ok:
  assumes "book_ok ob" "admissibleCommand ob cmd" "batch_ok b"
    and "ProcessCommand ob cmd b = Some (Inr (ob', b'))" "fits b'"
  shows "batch_ok b'"
  using ProcessCommand_step [OF assms(1,2), of b] assms(3-5) by auto

theorem ProcessCommand_batch_ok_witness:
  "\<exists>ob' b'. ProcessCommand sampleBook (PlaceOrder (sampleCmd 11 ''buyer'' SideBuy 45 3)) (newPendingBatch 1 ''m'' 0) = Some (Inr (ob', b')) \<and>
     batch_ok b' \<and> length (ev_Orders (event b')) = 2 \<and> map f_FillAmount (Fills (event b')) = [3] \<and> OrderUpdates (event b') \<noteq> []"
proof -
  obtain ob' b' where p: "ProcessCommand sampleBook (PlaceOrder (sampleCmd 11 ''buyer'' SideBuy 45 3)) (newPendingBatch 1 ''m'' 0) = Some (Inr (ob', b'))"
    "length (ev_Orders (event b')) = 2" "map f_FillAmount (Fills (event b')) = [3]" "OrderUpdates (event b') \<noteq> []"
    using sample_trade by (auto split: option.splits sum.splits)
  have "fits b'" by (simp add: fits_def p(2))
  from ProcessCommand_batch_ok [OF sampleBook_ok(1) sample_admissible_command newPendingBatch_ok p(1) this] p
  show ?thesis by (intro exI conjI)
qed

end
