(* ===== verification/FundsManager.thy ===== *)
theory FundsManager
  imports GoStrings LotMath Batcher
begin

text \<open>
  The funds ledger: \<open>funds/manager.go\<close>.  A wallet's USDC is available, locked by open orders,
  or pending settlement; a position holds the same for the YES and NO shares of one market.
  The 64 shards are a function from the shard number; a missing map entry reads as Go's zero
  value.  Locks are released within each call, so a call is one step of the model.

  \<open>Pending*\<close> fields are \<open>int64\<close>: 64-bit words compared with \<open><s\<close>, whose conversions to
  and from \<open>uint64\<close> keep the bits.
\<close>

section \<open>Ledgers and positions\<close>

record UserWallet =
  AvailableUSDC :: u64
  LockedUSDC :: u64
  PendingUSDC :: i64
  CancelAllBeforeTs :: unixtime
  wDirty :: bool

record MarketPosition =
  p_MarketID :: u64
  AvailableYesShares :: u64
  LockedYesShares :: u64
  PendingYesShares :: i64
  AvailableNoShares :: u64
  LockedNoShares :: u64
  PendingNoShares :: i64
  CollateralLockedUnits :: u64
  pDirty :: bool

definition zeroWallet :: UserWallet where
  "zeroWallet = \<lparr>AvailableUSDC = 0, LockedUSDC = 0, PendingUSDC = 0, CancelAllBeforeTs = 0, wDirty = False\<rparr>"

definition zeroPosition :: MarketPosition where
  "zeroPosition = \<lparr>p_MarketID = 0, AvailableYesShares = 0, LockedYesShares = 0, PendingYesShares = 0,
     AvailableNoShares = 0, LockedNoShares = 0, PendingNoShares = 0, CollateralLockedUnits = 0, pDirty = False\<rparr>"

record ReserveOrderInput =
  ri_WalletAddress :: string
  ri_MarketID :: u64
  ri_MarketPDA :: string
  ri_OriginalAction :: u8
  ri_OriginalOutcome :: u8
  ri_OriginalPriceTick :: u8
  ri_OrderType :: u8
  ri_QtyLots :: u64
  ri_SpendAmount :: u64

record ActiveOrder =
  a_WalletAddress :: string
  a_MarketID :: u64
  a_MarketPDA :: string
  a_OriginalAction :: u8
  a_OriginalOutcome :: u8
  a_OriginalPriceTick :: u8
  a_OrderType :: u8
  a_RemainingQty :: u64
  a_RemainingSpend :: u64

record PendingReserve =
  pr_SubmitKey :: string
  pr_WalletAddress :: string
  pr_MarketPDA :: string
  pr_LockedUSDC :: u64
  pr_LockedYesShares :: u64
  pr_LockedNoShares :: u64

record walletShard =
  ledgers :: "string \<rightharpoonup> UserWallet"
  positions :: "string \<rightharpoonup> MarketPosition"

record dirtyIndex =
  walletQueue :: "string list"
  walletSeen :: "string set"
  positionQueue :: "string list"
  positionSeen :: "string set"

record Manager =
  shards :: "nat \<Rightarrow> walletShard"
  dirty :: dirtyIndex

definition OutcomeYes :: u8 where "OutcomeYes = 0"
definition OutcomeNo :: u8 where "OutcomeNo = 1"

definition NewManager :: Manager where
  "NewManager = \<lparr>shards = (\<lambda>_. \<lparr>ledgers = Map.empty, positions = Map.empty\<rparr>),
     dirty = \<lparr>walletQueue = [], walletSeen = {}, positionQueue = [], positionSeen = {}\<rparr>\<rparr>"

text \<open>FNV-1a, 32 bit, modulo the 64 shards.\<close>

definition shardIndex :: "string \<Rightarrow> u32" where
  "shardIndex key = foldl (\<lambda>h c. (h XOR of_char c) * 16777619) 2166136261 key"

definition shardNo :: "string \<Rightarrow> nat" where
  "shardNo walletAddress = unat (shardIndex walletAddress mod 64)"

definition positionKey :: "string \<Rightarrow> string \<Rightarrow> string" where
  "positionKey walletAddress marketPDA = walletAddress @ ''|'' @ marketPDA"

definition Ledger :: "Manager \<Rightarrow> string \<Rightarrow> UserWallet" where
  "Ledger m w = (case ledgers (shards m (shardNo w)) w of None \<Rightarrow> zeroWallet | Some l \<Rightarrow> l)"

definition Position :: "Manager \<Rightarrow> string \<Rightarrow> string \<Rightarrow> MarketPosition" where
  "Position m w pda =
     (case positions (shards m (shardNo w)) (positionKey w pda) of None \<Rightarrow> zeroPosition | Some p \<Rightarrow> p)"

definition SeedLedger :: "Manager \<Rightarrow> string \<Rightarrow> UserWallet \<Rightarrow> Manager" where
  "SeedLedger m w l =
     m\<lparr>shards := (shards m)(shardNo w :=
        (shards m (shardNo w))\<lparr>ledgers := (ledgers (shards m (shardNo w)))(w \<mapsto> l)\<rparr>)\<rparr>"

definition SeedPosition :: "Manager \<Rightarrow> string \<Rightarrow> string \<Rightarrow> MarketPosition \<Rightarrow> Manager" where
  "SeedPosition m w pda p =
     m\<lparr>shards := (shards m)(shardNo w :=
        (shards m (shardNo w))\<lparr>positions := (positions (shards m (shardNo w)))(positionKey w pda \<mapsto> p)\<rparr>)\<rparr>"

definition DeletePosition :: "Manager \<Rightarrow> string \<Rightarrow> string \<Rightarrow> Manager" where
  "DeletePosition m w pda =
     m\<lparr>shards := (shards m)(shardNo w :=
        (shards m (shardNo w))\<lparr>positions := (positions (shards m (shardNo w)))(positionKey w pda := None)\<rparr>)\<rparr>"

section \<open>The dirty index\<close>

definition markWallet :: "dirtyIndex \<Rightarrow> string \<Rightarrow> dirtyIndex" where
  "markWallet d walletAddress =
     (let w = TrimSpace walletAddress in
      if w = [] \<or> w \<in> walletSeen d then d
      else d\<lparr>walletSeen := insert w (walletSeen d), walletQueue := walletQueue d @ [w]\<rparr>)"

definition markPosition :: "dirtyIndex \<Rightarrow> string \<Rightarrow> dirtyIndex" where
  "markPosition d k =
     (let k = TrimSpace k in
      if k = [] \<or> k \<in> positionSeen d then d
      else d\<lparr>positionSeen := insert k (positionSeen d), positionQueue := positionQueue d @ [k]\<rparr>)"

definition drain :: "dirtyIndex \<Rightarrow> string list \<times> string list \<times> dirtyIndex" where
  "drain d = (walletQueue d, positionQueue d,
     \<lparr>walletQueue = [], walletSeen = {}, positionQueue = [], positionSeen = {}\<rparr>)"

definition markLedgerDirtyLocked :: "Manager \<Rightarrow> string \<Rightarrow> UserWallet \<Rightarrow> Manager \<times> UserWallet" where
  "markLedgerDirtyLocked m w l = (m\<lparr>dirty := markWallet (dirty m) w\<rparr>, l\<lparr>wDirty := True\<rparr>)"

definition markPositionDirtyLocked ::
  "Manager \<Rightarrow> string \<Rightarrow> string \<Rightarrow> MarketPosition \<Rightarrow> Manager \<times> MarketPosition" where
  "markPositionDirtyLocked m w pda p =
     (m\<lparr>dirty := markPosition (dirty m) (positionKey w pda)\<rparr>, p\<lparr>pDirty := True\<rparr>)"

text \<open>The last four statements of every operation on a wallet and a position.\<close>

definition storeDirty :: "Manager \<Rightarrow> string \<Rightarrow> string \<Rightarrow> UserWallet \<Rightarrow> MarketPosition \<Rightarrow> Manager" where
  "storeDirty m w pda l p =
     (let (m, l) = markLedgerDirtyLocked m w l;
          (m, p) = markPositionDirtyLocked m w pda p
      in SeedPosition (SeedLedger m w l) w pda p)"

definition MarkLedgerDirty :: "Manager \<Rightarrow> string \<Rightarrow> Manager" where
  "MarkLedgerDirty m w =
     (case ledgers (shards m (shardNo w)) w of
        None \<Rightarrow> m
      | Some l \<Rightarrow> (let (m, l) = markLedgerDirtyLocked m w l in SeedLedger m w l))"

definition MarkPositionDirty :: "Manager \<Rightarrow> string \<Rightarrow> string \<Rightarrow> Manager" where
  "MarkPositionDirty m w pda =
     (case positions (shards m (shardNo w)) (positionKey w pda) of
        None \<Rightarrow> m
      | Some p \<Rightarrow> (let (m, p) = markPositionDirtyLocked m w pda p in SeedPosition m w pda p))"

section \<open>Deposits and withdrawals\<close>

definition ApplyDepositConfirmed :: "Manager \<Rightarrow> string \<Rightarrow> u64 \<Rightarrow> Manager" where
  "ApplyDepositConfirmed m w amount =
     (if amount = 0 then m
      else let l = Ledger m w;
               (m, l) = markLedgerDirtyLocked m w (l\<lparr>AvailableUSDC := AvailableUSDC l + amount\<rparr>)
           in SeedLedger m w l)"

definition ApplyWithdrawConfirmed :: "Manager \<Rightarrow> string \<Rightarrow> u64 \<Rightarrow> Manager" where
  "ApplyWithdrawConfirmed m w amount =
     (if amount = 0 then m
      else let l = Ledger m w;
               l = (if AvailableUSDC l < amount then l\<lparr>AvailableUSDC := 0\<rparr>
                    else l\<lparr>AvailableUSDC := AvailableUSDC l - amount\<rparr>);
               (m, l) = markLedgerDirtyLocked m w l
           in SeedLedger m w l)"

section \<open>Reserving and releasing\<close>

definition reserveUnitsForLots :: "u64 \<Rightarrow> u8 \<Rightarrow> u64" where
  "reserveUnitsForLots qtyLots priceTick = ceilMulDiv qtyLots (ucast priceTick) 100"

definition requiredReserveUnits :: "ReserveOrderInput \<Rightarrow> u64" where
  "requiredReserveUnits cmd =
     (if ri_OrderType cmd = OrderTypeMarket then ri_SpendAmount cmd
      else reserveUnitsForLots (ri_QtyLots cmd) (ri_OriginalPriceTick cmd))"

definition requiredReserveUnitsFromOrder :: "ActiveOrder \<Rightarrow> u64" where
  "requiredReserveUnitsFromOrder ord =
     (if a_OrderType ord = OrderTypeMarket then a_RemainingSpend ord
      else reserveUnitsForLots (a_RemainingQty ord) (a_OriginalPriceTick ord))"

definition pendingReserveFromInput :: "ReserveOrderInput \<Rightarrow> PendingReserve" where
  "pendingReserveFromInput cmd =
     (let pending = \<lparr>pr_SubmitKey = [], pr_WalletAddress = ri_WalletAddress cmd, pr_MarketPDA = ri_MarketPDA cmd,
            pr_LockedUSDC = 0, pr_LockedYesShares = 0, pr_LockedNoShares = 0\<rparr>
      in if ri_OriginalAction cmd = SideBuy then pending\<lparr>pr_LockedUSDC := requiredReserveUnits cmd\<rparr>
         else if ri_OriginalAction cmd = SideSell then
           (if ri_OriginalOutcome cmd = OutcomeYes then pending\<lparr>pr_LockedYesShares := ri_QtyLots cmd\<rparr>
            else if ri_OriginalOutcome cmd = OutcomeNo then pending\<lparr>pr_LockedNoShares := ri_QtyLots cmd\<rparr>
            else pending)
         else pending)"

datatype reserve_error =
    InsufficientUSDC u64 u64
  | InsufficientYes u64 u64
  | InsufficientNo u64 u64
  | UnsupportedOutcome u8
  | UnsupportedAction u8

definition withMarket :: "MarketPosition \<Rightarrow> u64 \<Rightarrow> MarketPosition" where
  "withMarket p marketID = (if p_MarketID p = 0 then p\<lparr>p_MarketID := marketID\<rparr> else p)"

definition ReserveOrder :: "Manager \<Rightarrow> ReserveOrderInput \<Rightarrow> reserve_error + Manager" where
  "ReserveOrder m cmd =
     (let w = ri_WalletAddress cmd; pda = ri_MarketPDA cmd; qty = ri_QtyLots cmd;
          l = Ledger m w; p = withMarket (Position m w pda) (ri_MarketID cmd)
      in if ri_OriginalAction cmd = SideBuy then
           (let reserve = requiredReserveUnits cmd in
            if AvailableUSDC l < reserve then Inl (InsufficientUSDC (AvailableUSDC l) reserve)
            else Inr (storeDirty m w pda
                   (l\<lparr>AvailableUSDC := AvailableUSDC l - reserve, LockedUSDC := LockedUSDC l + reserve\<rparr>)
                   (p\<lparr>CollateralLockedUnits := CollateralLockedUnits p + reserve\<rparr>)))
         else if ri_OriginalAction cmd = SideSell then
           (if ri_OriginalOutcome cmd = OutcomeYes then
              (if AvailableYesShares p < qty then Inl (InsufficientYes (AvailableYesShares p) qty)
               else Inr (storeDirty m w pda l
                      (p\<lparr>AvailableYesShares := AvailableYesShares p - qty, LockedYesShares := LockedYesShares p + qty\<rparr>)))
            else if ri_OriginalOutcome cmd = OutcomeNo then
              (if AvailableNoShares p < qty then Inl (InsufficientNo (AvailableNoShares p) qty)
               else Inr (storeDirty m w pda l
                      (p\<lparr>AvailableNoShares := AvailableNoShares p - qty, LockedNoShares := LockedNoShares p + qty\<rparr>)))
            else Inl (UnsupportedOutcome (ri_OriginalOutcome cmd)))
         else Inl (UnsupportedAction (ri_OriginalAction cmd)))"

definition validateReserveAgainstSnapshot ::
  "UserWallet \<Rightarrow> MarketPosition \<Rightarrow> ReserveOrderInput \<Rightarrow> reserve_error option" where
  "validateReserveAgainstSnapshot l p cmd =
     (if ri_OriginalAction cmd = SideBuy then
        (let reserve = requiredReserveUnits cmd in
         if AvailableUSDC l < reserve then Some (InsufficientUSDC (AvailableUSDC l) reserve) else None)
      else if ri_OriginalAction cmd = SideSell then
        (if ri_OriginalOutcome cmd = OutcomeYes then
           (if AvailableYesShares p < ri_QtyLots cmd
            then Some (InsufficientYes (AvailableYesShares p) (ri_QtyLots cmd)) else None)
         else if ri_OriginalOutcome cmd = OutcomeNo then
           (if AvailableNoShares p < ri_QtyLots cmd
            then Some (InsufficientNo (AvailableNoShares p) (ri_QtyLots cmd)) else None)
         else Some (UnsupportedOutcome (ri_OriginalOutcome cmd)))
      else Some (UnsupportedAction (ri_OriginalAction cmd)))"

text \<open>The bootstrap relocks what an open order still needs; it marks nothing dirty.\<close>

definition RecoverOrderLock :: "Manager \<Rightarrow> ActiveOrder \<Rightarrow> Manager" where
  "RecoverOrderLock m ord =
     (let w = a_WalletAddress ord; pda = a_MarketPDA ord;
          l = Ledger m w; p = withMarket (Position m w pda) (a_MarketID ord);
          (l, p) =
            (if a_OriginalAction ord = SideBuy then
               (let k = minu (requiredReserveUnitsFromOrder ord) (AvailableUSDC l)
                in (l\<lparr>AvailableUSDC := AvailableUSDC l - k, LockedUSDC := LockedUSDC l + k\<rparr>,
                    p\<lparr>CollateralLockedUnits := CollateralLockedUnits p + k\<rparr>))
             else if a_OriginalAction ord = SideSell then
               (if a_OriginalOutcome ord = OutcomeYes then
                  (let k = minu (a_RemainingQty ord) (AvailableYesShares p)
                   in (l, p\<lparr>AvailableYesShares := AvailableYesShares p - k, LockedYesShares := LockedYesShares p + k\<rparr>))
                else
                  (let k = minu (a_RemainingQty ord) (AvailableNoShares p)
                   in (l, p\<lparr>AvailableNoShares := AvailableNoShares p - k, LockedNoShares := LockedNoShares p + k\<rparr>)))
             else (l, p))
      in SeedPosition (SeedLedger m w l) w pda p)"

definition releaseUnits :: "ActiveOrder \<Rightarrow> u64 \<Rightarrow> u64" where
  "releaseUnits ord refundAmount =
     (if refundAmount = 0 then
        (if a_OrderType ord = OrderTypeMarket then a_RemainingSpend ord
         else reserveUnitsForLots (a_RemainingQty ord) (a_OriginalPriceTick ord))
      else refundAmount)"

definition ReleaseLocked :: "Manager \<Rightarrow> ActiveOrder \<Rightarrow> u64 \<Rightarrow> Manager" where
  "ReleaseLocked m ord refundAmount =
     (let w = a_WalletAddress ord; pda = a_MarketPDA ord;
          l = Ledger m w; p = withMarket (Position m w pda) (a_MarketID ord);
          (l, p) =
            (if a_OriginalAction ord = SideBuy then
               (let unlock = minu (releaseUnits ord refundAmount) (LockedUSDC l);
                    cu = minu unlock (CollateralLockedUnits p)
                in (l\<lparr>LockedUSDC := LockedUSDC l - unlock, AvailableUSDC := AvailableUSDC l + unlock\<rparr>,
                    p\<lparr>CollateralLockedUnits := CollateralLockedUnits p - cu\<rparr>))
             else if a_OriginalOutcome ord = OutcomeYes then
               (let k = minu (a_RemainingQty ord) (LockedYesShares p)
                in (l, p\<lparr>LockedYesShares := LockedYesShares p - k, AvailableYesShares := AvailableYesShares p + k\<rparr>))
             else
               (let k = minu (a_RemainingQty ord) (LockedNoShares p)
                in (l, p\<lparr>LockedNoShares := LockedNoShares p - k, AvailableNoShares := AvailableNoShares p + k\<rparr>)))
      in storeDirty m w pda l p)"

section \<open>Fills\<close>

definition actualUnitsForActive :: "ActiveOrder \<Rightarrow> u64 \<Rightarrow> u8 \<Rightarrow> u64" where
  "actualUnitsForActive ord qty normalizedPrice =
     (if a_OriginalOutcome ord = OutcomeNo then ceilMulDiv qty (ucast (100 - normalizedPrice)) 100
      else ceilMulDiv qty (ucast normalizedPrice) 100)"

definition applyFillForOrder :: "Manager \<Rightarrow> ActiveOrder \<Rightarrow> u64 \<Rightarrow> u8 \<Rightarrow> Manager" where
  "applyFillForOrder m ord qty normalizedPrice =
     (let w = a_WalletAddress ord; pda = a_MarketPDA ord;
          l = Ledger m w; p = withMarket (Position m w pda) (a_MarketID ord);
          actual = actualUnitsForActive ord qty normalizedPrice;
          (l, p) =
            (if a_OriginalAction ord = SideBuy then
               (let (l, p) =
                      (if a_OrderType ord = OrderTypeLimit then
                         (let reserved = minu (reserveUnitsForLots qty (a_OriginalPriceTick ord)) (LockedUSDC l);
                              cc = minu reserved (CollateralLockedUnits p);
                              l = l\<lparr>LockedUSDC := LockedUSDC l - reserved\<rparr>;
                              l = (if actual < reserved
                                   then l\<lparr>AvailableUSDC := AvailableUSDC l + (reserved - actual)\<rparr> else l)
                          in (l, p\<lparr>CollateralLockedUnits := CollateralLockedUnits p - cc\<rparr>))
                       else
                         (let consume = minu actual (LockedUSDC l);
                              cc = minu consume (CollateralLockedUnits p)
                          in (l\<lparr>LockedUSDC := LockedUSDC l - consume\<rparr>,
                              p\<lparr>CollateralLockedUnits := CollateralLockedUnits p - cc\<rparr>)))
                in (l, if a_OriginalOutcome ord = OutcomeYes
                       then p\<lparr>PendingYesShares := PendingYesShares p + qty\<rparr>
                       else p\<lparr>PendingNoShares := PendingNoShares p + qty\<rparr>))
             else
               (l\<lparr>PendingUSDC := PendingUSDC l + actual\<rparr>,
                if a_OriginalOutcome ord = OutcomeYes
                then p\<lparr>LockedYesShares := LockedYesShares p - minu qty (LockedYesShares p)\<rparr>
                else p\<lparr>LockedNoShares := LockedNoShares p - minu qty (LockedNoShares p)\<rparr>))
      in storeDirty m w pda l p)"

definition ApplyMatchPending :: "Manager \<Rightarrow> ActiveOrder \<Rightarrow> ActiveOrder \<Rightarrow> u64 \<Rightarrow> u8 \<Rightarrow> Manager" where
  "ApplyMatchPending m maker taker qty normalizedPrice =
     applyFillForOrder (applyFillForOrder m maker qty normalizedPrice) taker qty normalizedPrice"

section \<open>Settlement of a batch\<close>

record walletBatchDelta =
  dl_WalletAddress :: string
  dl_MarketPDA :: string
  LockedUSDCConsumed :: u64
  AvailableUSDCRefund :: u64
  PendingUSDCDelta :: i64
  PendingYesDelta :: i64
  PendingNoDelta :: i64
  LockedYesConsumed :: u64
  LockedNoConsumed :: u64

definition orderByIndex :: "MatchBatchEvent \<Rightarrow> u16 \<rightharpoonup> MatchedOrder" where
  "orderByIndex ev = map_of (rev (map (\<lambda>o1. (m_OrderIndex o1, o1)) (ev_Orders ev)))"

definition newDelta :: "string \<Rightarrow> string \<Rightarrow> walletBatchDelta" where
  "newDelta addr pda = \<lparr>dl_WalletAddress = TrimSpace addr, dl_MarketPDA = pda, LockedUSDCConsumed = 0,
     AvailableUSDCRefund = 0, PendingUSDCDelta = 0, PendingYesDelta = 0, PendingNoDelta = 0,
     LockedYesConsumed = 0, LockedNoConsumed = 0\<rparr>"

text \<open>The units of one side of a fill, from the strings of its execution snapshot.\<close>

definition execUnits :: "ExecutionSnapshot \<Rightarrow> u64 \<Rightarrow> u8 \<Rightarrow> u64" where
  "execUnits x qty normPrice =
     (if x_OriginalOutcome x = ''no'' then ceilMulDiv qty (ucast (100 - normPrice)) 100
      else ceilMulDiv qty (ucast normPrice) 100)"

definition chargeDelta :: "ExecutionSnapshot \<Rightarrow> u64 \<Rightarrow> u8 \<Rightarrow> walletBatchDelta \<Rightarrow> walletBatchDelta" where
  "chargeDelta x qty normPrice d =
     (let actual = execUnits x qty normPrice in
      if x_OriginalAction x = ''buy'' then
        (let d = (if x_OrderType x = ''limit'' then
                    (let reserved = reserveUnitsForLots qty (x_OriginalPriceTick x);
                         d = d\<lparr>LockedUSDCConsumed := LockedUSDCConsumed d + reserved\<rparr>;
                         d = (if actual < reserved
                              then d\<lparr>AvailableUSDCRefund := AvailableUSDCRefund d + (reserved - actual)\<rparr> else d)
                     in d\<lparr>PendingUSDCDelta := PendingUSDCDelta d - actual\<rparr>)
                  else d\<lparr>LockedUSDCConsumed := LockedUSDCConsumed d + actual,
                         PendingUSDCDelta := PendingUSDCDelta d - actual\<rparr>)
         in if x_OriginalOutcome x = ''yes'' then d\<lparr>PendingYesDelta := PendingYesDelta d + qty\<rparr>
            else d\<lparr>PendingNoDelta := PendingNoDelta d + qty\<rparr>)
      else
        (let d = (if x_OriginalOutcome x = ''yes''
                  then d\<lparr>LockedYesConsumed := LockedYesConsumed d + qty, PendingYesDelta := PendingYesDelta d - qty\<rparr>
                  else d\<lparr>LockedNoConsumed := LockedNoConsumed d + qty, PendingNoDelta := PendingNoDelta d - qty\<rparr>)
         in d\<lparr>PendingUSDCDelta := PendingUSDCDelta d + actual\<rparr>))"

text \<open>The map of deltas, as an association list in the order of first use.\<close>

type_synonym deltas = "(string \<times> walletBatchDelta) list"

fun updDelta :: "string \<Rightarrow> walletBatchDelta \<Rightarrow> (walletBatchDelta \<Rightarrow> walletBatchDelta) \<Rightarrow> deltas \<Rightarrow> deltas" where
  "updDelta k d0 f [] = [(k, f d0)]"
| "updDelta k d0 f ((k', d) # ds) = (if k' = k then (k', f d) # ds else (k', d) # updDelta k d0 f ds)"

definition chargeSide :: "string \<Rightarrow> MatchFill \<Rightarrow> MatchedOrder \<Rightarrow> deltas \<Rightarrow> deltas" where
  "chargeSide marketPDA fill matched ds =
     (let x = m_Execution matched; addr = TrimSpace (x_WalletAddress x)
      in updDelta (addr @ ''|'' @ marketPDA) (newDelta addr marketPDA)
           (chargeDelta x (f_FillAmount fill) (ucast (f_FillPrice fill))) ds)"

definition chargeFill :: "MatchBatchEvent \<Rightarrow> string \<Rightarrow> MatchFill \<Rightarrow> deltas \<Rightarrow> deltas" where
  "chargeFill ev marketPDA fill ds =
     (case (orderByIndex ev (f_MakerOrderIndex fill), orderByIndex ev (f_TakerOrderIndex fill)) of
        (Some maker, Some taker) \<Rightarrow> chargeSide marketPDA fill taker (chargeSide marketPDA fill maker ds)
      | _ \<Rightarrow> ds)"

definition computeBatchDeltasForWallet :: "MatchBatchEvent \<Rightarrow> string \<Rightarrow> deltas" where
  "computeBatchDeltasForWallet ev marketPDA = fold (chargeFill ev marketPDA) (Fills ev) []"

definition mini :: "i64 \<Rightarrow> i64 \<Rightarrow> i64" where
  "mini a b = (if a <s b then a else b)"

definition confirmWallet :: "walletBatchDelta \<Rightarrow> UserWallet \<Rightarrow> UserWallet" where
  "confirmWallet d l =
     (if 0 <s PendingUSDCDelta d then
        (let can = mini (PendingUSDCDelta d) (PendingUSDC l) in
         if 0 <s can then l\<lparr>PendingUSDC := PendingUSDC l - can, AvailableUSDC := AvailableUSDC l + can\<rparr> else l)
      else l)"

definition confirmPosition :: "walletBatchDelta \<Rightarrow> MarketPosition \<Rightarrow> MarketPosition" where
  "confirmPosition d p =
     (let p = (if 0 <s PendingYesDelta d then
                 (let can = mini (PendingYesDelta d) (PendingYesShares p) in
                  if 0 <s can then p\<lparr>PendingYesShares := PendingYesShares p - can,
                                     AvailableYesShares := AvailableYesShares p + can\<rparr> else p)
               else p)
      in if 0 <s PendingNoDelta d then
           (let can = mini (PendingNoDelta d) (PendingNoShares p) in
            if 0 <s can then p\<lparr>PendingNoShares := PendingNoShares p - can,
                               AvailableNoShares := AvailableNoShares p + can\<rparr> else p)
         else p)"

definition confirmDelta :: "walletBatchDelta \<Rightarrow> Manager \<Rightarrow> Manager" where
  "confirmDelta d m =
     (let w = dl_WalletAddress d; pda = dl_MarketPDA d
      in storeDirty m w pda (confirmWallet d (Ledger m w)) (confirmPosition d (Position m w pda)))"

definition failWallet :: "walletBatchDelta \<Rightarrow> UserWallet \<Rightarrow> UserWallet" where
  "failWallet d l =
     (let l = (if PendingUSDCDelta d <s 0
               then l\<lparr>AvailableUSDC := AvailableUSDC l + (- PendingUSDCDelta d)\<rparr> else l)
      in if 0 <s PendingUSDCDelta d then
           (let can = mini (PendingUSDCDelta d) (PendingUSDC l) in
            if 0 <s can then l\<lparr>PendingUSDC := PendingUSDC l - can\<rparr> else l)
         else l)"

definition failPosition :: "walletBatchDelta \<Rightarrow> MarketPosition \<Rightarrow> MarketPosition" where
  "failPosition d p =
     (let p = (if 0 <s PendingYesDelta d then
                 (let can = mini (PendingYesDelta d) (PendingYesShares p) in
                  if 0 <s can then p\<lparr>PendingYesShares := PendingYesShares p - can\<rparr> else p)
               else p);
          p = (if 0 <s PendingNoDelta d then
                 (let can = mini (PendingNoDelta d) (PendingNoShares p) in
                  if 0 <s can then p\<lparr>PendingNoShares := PendingNoShares p - can\<rparr> else p)
               else p);
          p = (if 0 < LockedYesConsumed d
               then p\<lparr>AvailableYesShares := AvailableYesShares p + LockedYesConsumed d\<rparr> else p)
      in if 0 < LockedNoConsumed d
         then p\<lparr>AvailableNoShares := AvailableNoShares p + LockedNoConsumed d\<rparr> else p)"

definition failDelta :: "walletBatchDelta \<Rightarrow> Manager \<Rightarrow> Manager" where
  "failDelta d m =
     (let w = dl_WalletAddress d; pda = dl_MarketPDA d
      in storeDirty m w pda (failWallet d (Ledger m w)) (failPosition d (Position m w pda)))"

datatype batch_error = NilMatchBatchEvent

text \<open>Both operations range over the map of deltas; \<open>iter\<close> is the order of Go's iteration.\<close>

definition ApplySettlementConfirmedByBatch ::
  "(deltas \<Rightarrow> deltas) \<Rightarrow> Manager \<Rightarrow> MatchBatchEvent option \<Rightarrow> batch_error + Manager" where
  "ApplySettlementConfirmedByBatch iter m event1 =
     (case event1 of None \<Rightarrow> Inl NilMatchBatchEvent
      | Some ev \<Rightarrow> Inr (fold (\<lambda>(k, d). confirmDelta d) (iter (computeBatchDeltasForWallet ev (ev_MarketPDA ev))) m))"

definition ApplySettlementFailedByBatch ::
  "(deltas \<Rightarrow> deltas) \<Rightarrow> Manager \<Rightarrow> MatchBatchEvent option \<Rightarrow> batch_error + Manager" where
  "ApplySettlementFailedByBatch iter m event1 =
     (case event1 of None \<Rightarrow> Inl NilMatchBatchEvent
      | Some ev \<Rightarrow> Inr (fold (\<lambda>(k, d). failDelta d) (iter (computeBatchDeltasForWallet ev (ev_MarketPDA ev))) m))"

text \<open>The whole-wallet variant.\<close>

definition ApplySettlementConfirmed :: "Manager \<Rightarrow> string \<Rightarrow> string \<Rightarrow> Manager" where
  "ApplySettlementConfirmed m w pda =
     (let l = Ledger m w; p = Position m w pda;
          l = (if 0 <s PendingUSDC l then l\<lparr>AvailableUSDC := AvailableUSDC l + PendingUSDC l\<rparr> else l);
          l = l\<lparr>PendingUSDC := 0\<rparr>;
          p = (if 0 <s PendingYesShares p then p\<lparr>AvailableYesShares := AvailableYesShares p + PendingYesShares p\<rparr> else p);
          p = p\<lparr>PendingYesShares := 0\<rparr>;
          p = (if 0 <s PendingNoShares p then p\<lparr>AvailableNoShares := AvailableNoShares p + PendingNoShares p\<rparr> else p);
          p = p\<lparr>PendingNoShares := 0\<rparr>
      in storeDirty m w pda l p)"

section \<open>Collecting the dirty keys\<close>

record DirtyWalletSnapshot =
  dw_WalletAddress :: string
  dw_Ledger :: UserWallet

record DirtyPositionSnapshot =
  dp_WalletAddress :: string
  dp_MarketID :: u64
  dp_MarketPDA :: string
  dp_Position :: MarketPosition

definition collectWallet :: "string \<Rightarrow> Manager \<times> DirtyWalletSnapshot list \<Rightarrow> Manager \<times> DirtyWalletSnapshot list" where
  "collectWallet w st =
     (let (m, acc) = st in
      case ledgers (shards m (shardNo w)) w of
        None \<Rightarrow> (m, acc)
      | Some l \<Rightarrow>
          if wDirty l then (let l = l\<lparr>wDirty := False\<rparr>
            in (SeedLedger m w l, acc @ [\<lparr>dw_WalletAddress = w, dw_Ledger = l\<rparr>]))
          else (m, acc))"

text \<open>\<open>strings.SplitN (key, "|", 2)\<close>: the parts around the first bar, if there is one.\<close>

definition splitBar :: "string \<Rightarrow> (string \<times> string) option" where
  "splitBar k = (case dropWhile (\<lambda>c. c \<noteq> CHR ''|'') k of [] \<Rightarrow> None
     | _ # rest \<Rightarrow> Some (takeWhile (\<lambda>c. c \<noteq> CHR ''|'') k, rest))"

definition collectPosition ::
  "string \<Rightarrow> Manager \<times> DirtyPositionSnapshot list \<Rightarrow> Manager \<times> DirtyPositionSnapshot list" where
  "collectPosition k st =
     (let (m, acc) = st in
      case splitBar k of
        None \<Rightarrow> (m, acc)
      | Some (w, pda) \<Rightarrow>
          (case positions (shards m (shardNo w)) k of
             None \<Rightarrow> (m, acc)
           | Some p \<Rightarrow>
               if pDirty p then (let p = p\<lparr>pDirty := False\<rparr>
                 in (SeedPosition m w pda p,
                     acc @ [\<lparr>dp_WalletAddress = w, dp_MarketID = p_MarketID p, dp_MarketPDA = pda, dp_Position = p\<rparr>]))
               else (m, acc)))"

definition CollectAndClearDirty ::
  "Manager \<Rightarrow> Manager \<times> DirtyWalletSnapshot list \<times> DirtyPositionSnapshot list" where
  "CollectAndClearDirty m =
     (let (walletKeys, positionKeys, d) = drain (dirty m);
          m = m\<lparr>dirty := d\<rparr>;
          (m, ws) = fold collectWallet walletKeys (m, []);
          (m, ps) = fold collectPosition positionKeys (m, [])
      in (m, ws, ps))"

definition restoreWallet :: "DirtyWalletSnapshot \<Rightarrow> Manager \<Rightarrow> Manager" where
  "restoreWallet s m =
     (let (m', l) = markLedgerDirtyLocked m (dw_WalletAddress s) (Ledger m (dw_WalletAddress s))
      in SeedLedger m' (dw_WalletAddress s) l)"

definition restorePosition :: "DirtyPositionSnapshot \<Rightarrow> Manager \<Rightarrow> Manager" where
  "restorePosition s m =
     (let w = dp_WalletAddress s; pda = dp_MarketPDA s;
          p = withMarket (Position m w pda) (dp_MarketID s);
          (m, p) = markPositionDirtyLocked m w pda p
      in SeedPosition m w pda p)"

definition RestoreDirty :: "Manager \<Rightarrow> DirtyWalletSnapshot list \<Rightarrow> DirtyPositionSnapshot list \<Rightarrow> Manager" where
  "RestoreDirty m ws ps = fold restorePosition ps (fold restoreWallet ws m)"

end
