(* ===== verification/Inflight.thy ===== *)
theory Inflight
  imports FundsManager
begin

text \<open>
  The lifecycle window of match batches (\<open>funds/inflight.go\<close>) and the reservations accepted
  but not yet applied (\<open>funds/pending_reserve.go\<close>).  A batch moves from \<open>PendingApplied\<close>
  through \<open>Submitted\<close> to \<open>Confirmed\<close> or \<open>Failed\<close>; the raw event is kept decoded, \<open>None\<close>
  once it is evicted.  Mutexes make each method one step.
\<close>

section \<open>The store\<close>

datatype Phase = PendingApplied | Submitted | Confirmed | Failed

record InflightMatch =
  if_MatchEventID :: string
  if_MarketID :: u64
  if_MarketPDA :: string
  if_Wallets :: "string list"
  if_Phase :: Phase
  if_LastEventSeq :: u64
  if_SubmittedTxSignature :: string
  if_RawMatchEvent :: "MatchBatchEvent option"

text \<open>Of the raw lifecycle event only the transaction signature is ever read back.\<close>

record PendingTerminal =
  pt_MatchEventID :: string
  pt_Phase :: Phase
  pt_TxSignature :: string

record InflightStore =
  if_entries :: "string \<rightharpoonup> InflightMatch"
  pendingTerminal :: "string \<rightharpoonup> PendingTerminal"

definition NewInflightStore :: InflightStore where
  "NewInflightStore = \<lparr>if_entries = Map.empty, pendingTerminal = Map.empty\<rparr>"

definition IsTerminal :: "InflightMatch \<Rightarrow> bool" where
  "IsTerminal im \<longleftrightarrow> if_Phase im = Confirmed \<or> if_Phase im = Failed"

definition Inflight_Get :: "InflightStore \<Rightarrow> string \<Rightarrow> InflightMatch option" where
  "Inflight_Get s k = if_entries s k"

definition Register :: "InflightStore \<Rightarrow> InflightMatch \<Rightarrow> bool \<times> InflightStore" where
  "Register s entry =
     (if if_entries s (if_MatchEventID entry) \<noteq> None then (False, s)
      else (True, s\<lparr>if_entries := (if_entries s)(if_MatchEventID entry \<mapsto> entry)\<rparr>))"

text \<open>The results are (ok, conflict), and (raw batch, transitioned, conflict).\<close>

definition AdvanceToSubmitted :: "InflightStore \<Rightarrow> string \<Rightarrow> string \<Rightarrow> bool \<times> bool \<times> InflightStore" where
  "AdvanceToSubmitted s k txSignature =
     (case if_entries s k of
        None \<Rightarrow> (False, False, s)
      | Some e \<Rightarrow>
          if if_Phase e = Confirmed \<or> if_Phase e = Failed then (False, True, s)
          else if if_Phase e = Submitted then (True, False, s)
          else (True, False, s\<lparr>if_entries := (if_entries s)(k \<mapsto>
                  e\<lparr>if_Phase := Submitted, if_SubmittedTxSignature := txSignature\<rparr>)\<rparr>))"

definition AdvanceToTerminal ::
  "InflightStore \<Rightarrow> string \<Rightarrow> Phase \<Rightarrow> MatchBatchEvent option \<times> bool \<times> bool \<times> InflightStore" where
  "AdvanceToTerminal s k phase =
     (case if_entries s k of
        None \<Rightarrow> (None, False, False, s)
      | Some e \<Rightarrow>
          if if_Phase e = phase then (if_RawMatchEvent e, False, False, s)
          else if IsTerminal e then (None, False, True, s)
          else (if_RawMatchEvent e, True, False,
                s\<lparr>if_entries := (if_entries s)(k \<mapsto> e\<lparr>if_Phase := phase\<rparr>)\<rparr>))"

definition EvictTerminal :: "InflightStore \<Rightarrow> u64 \<Rightarrow> InflightStore" where
  "EvictTerminal s snapshotSeq = s\<lparr>if_entries := (\<lambda>k. map_option (\<lambda>e.
     if IsTerminal e \<and> if_LastEventSeq e \<le> snapshotSeq then e\<lparr>if_RawMatchEvent := None\<rparr> else e) (if_entries s k))\<rparr>"

definition PurgeTerminal :: "InflightStore \<Rightarrow> u64 \<Rightarrow> InflightStore" where
  "PurgeTerminal s snapshotSeq = s\<lparr>if_entries := (\<lambda>k. case if_entries s k of None \<Rightarrow> None | Some e \<Rightarrow>
     if IsTerminal e \<and> if_LastEventSeq e \<le> snapshotSeq then None else Some e)\<rparr>"

fun pendingPhasePriority :: "Phase \<Rightarrow> nat" where
  "pendingPhasePriority Confirmed = 3"
| "pendingPhasePriority Failed = 2"
| "pendingPhasePriority Submitted = 1"
| "pendingPhasePriority PendingApplied = 0"

definition AddPendingTerminal :: "InflightStore \<Rightarrow> PendingTerminal \<Rightarrow> InflightStore" where
  "AddPendingTerminal s pt =
     (case pendingTerminal s (pt_MatchEventID pt) of
        Some ex \<Rightarrow>
          if pendingPhasePriority (pt_Phase pt) \<le> pendingPhasePriority (pt_Phase ex) then s
          else s\<lparr>pendingTerminal := (pendingTerminal s)(pt_MatchEventID pt \<mapsto> pt)\<rparr>
      | None \<Rightarrow> s\<lparr>pendingTerminal := (pendingTerminal s)(pt_MatchEventID pt \<mapsto> pt)\<rparr>)"

definition TakePendingTerminal :: "InflightStore \<Rightarrow> string \<Rightarrow> PendingTerminal option \<times> InflightStore" where
  "TakePendingTerminal s k =
     (case pendingTerminal s k of
        None \<Rightarrow> (None, s)
      | Some pt \<Rightarrow> (Some pt, s\<lparr>pendingTerminal := (pendingTerminal s)(k := None)\<rparr>))"

definition RestoreFromSnapshot :: "InflightStore \<Rightarrow> InflightMatch list \<Rightarrow> InflightStore" where
  "RestoreFromSnapshot s es =
     s\<lparr>if_entries := fold (\<lambda>e acc. acc(if_MatchEventID e \<mapsto> e)) es Map.empty\<rparr>"

definition RestorePendingTerminals :: "InflightStore \<Rightarrow> PendingTerminal list \<Rightarrow> InflightStore" where
  "RestorePendingTerminals s ps =
     s\<lparr>pendingTerminal := fold (\<lambda>e acc. acc(pt_MatchEventID e \<mapsto> e)) ps Map.empty\<rparr>"

text \<open>\<open>Snapshot\<close> and \<open>PendingSnapshot\<close> list the entries in the order of Go's map iteration,
  the parameter \<open>iter\<close>: an enumeration of the keys.\<close>

definition Inflight_Snapshot :: "(string set \<Rightarrow> string list) \<Rightarrow> InflightStore \<Rightarrow> InflightMatch list" where
  "Inflight_Snapshot iter s = map (\<lambda>k. the (if_entries s k)) (iter (dom (if_entries s)))"

definition PendingSnapshot :: "(string set \<Rightarrow> string list) \<Rightarrow> InflightStore \<Rightarrow> PendingTerminal list" where
  "PendingSnapshot iter s = map (\<lambda>k. the (pendingTerminal s k)) (iter (dom (pendingTerminal s)))"

section \<open>The lifecycle\<close>

inductive phase_step :: "Phase \<Rightarrow> Phase \<Rightarrow> bool" where
  submit: "phase_step PendingApplied Submitted"
| finish: "p = PendingApplied \<or> p = Submitted \<Longrightarrow> q = Confirmed \<or> q = Failed \<Longrightarrow> phase_step p q"

inductive_simps phase_step_from [simp]:
  "phase_step Confirmed q" "phase_step Failed q" "phase_step Submitted q" "phase_step PendingApplied q"

text \<open>One operation of the store, with the phase it is called for.\<close>

datatype store_op =
    OpRegister InflightMatch
  | OpSubmitted string string
  | OpTerminal string Phase
  | OpEvict u64
  | OpPurge u64
  | OpAddPending PendingTerminal
  | OpTakePending string

fun run_op :: "store_op \<Rightarrow> InflightStore \<Rightarrow> InflightStore" where
  "run_op (OpRegister e) s = snd (Register s e)"
| "run_op (OpSubmitted k sig) s = snd (snd (AdvanceToSubmitted s k sig))"
| "run_op (OpTerminal k ph) s = snd (snd (snd (AdvanceToTerminal s k ph)))"
| "run_op (OpEvict n) s = EvictTerminal s n"
| "run_op (OpPurge n) s = PurgeTerminal s n"
| "run_op (OpAddPending pt) s = AddPendingTerminal s pt"
| "run_op (OpTakePending k) s = snd (TakePendingTerminal s k)"

text \<open>The callers pass \<open>Confirmed\<close> or \<open>Failed\<close> to \<open>AdvanceToTerminal\<close>.\<close>

definition terminal_phase :: "Phase \<Rightarrow> bool" where
  "terminal_phase ph \<longleftrightarrow> ph = Confirmed \<or> ph = Failed"

fun op_ok :: "store_op \<Rightarrow> bool" where
  "op_ok (OpTerminal k ph) = terminal_phase ph"
| "op_ok _ = True"

definition phaseAt :: "InflightStore \<Rightarrow> string \<Rightarrow> Phase option" where
  "phaseAt s k = map_option if_Phase (if_entries s k)"

lemma phaseAt_Evict [simp]: "phaseAt (EvictTerminal s n) k = phaseAt s k"
  by (cases "if_entries s k") (simp_all add: EvictTerminal_def phaseAt_def)

lemma run_op_phase:
  assumes "op_ok op" "phaseAt s k = Some p"
  shows "(\<exists>q. phaseAt (run_op op s) k = Some q \<and> (q = p \<or> phase_step p q)) \<or>
    (phaseAt (run_op op s) k = None \<and> terminal_phase p)"
proof (cases op)
  case (OpRegister e)
  then show ?thesis using assms(2) by (auto simp: Register_def phaseAt_def)
next
  case (OpSubmitted k' sig)
  then show ?thesis using assms(2)
    by (cases p) (auto simp: AdvanceToSubmitted_def phaseAt_def split: option.split)
next
  case (OpTerminal k' ph)
  then show ?thesis using assms
    by (cases p) (auto simp: AdvanceToTerminal_def phaseAt_def IsTerminal_def terminal_phase_def split: option.split)
next
  case (OpEvict n)
  then show ?thesis using assms(2) by auto
next
  case (OpPurge n)
  from assms(2) obtain z where "if_entries s k = Some z" "if_Phase z = p" by (auto simp: phaseAt_def)
  with OpPurge show ?thesis
    by (cases "IsTerminal z \<and> if_LastEventSeq z \<le> n")
      (auto simp: PurgeTerminal_def phaseAt_def IsTerminal_def terminal_phase_def)
next
  case (OpAddPending pt)
  then show ?thesis using assms(2) by (auto simp: AddPendingTerminal_def phaseAt_def split: option.split)
next
  case (OpTakePending k')
  then show ?thesis using assms(2) by (auto simp: TakePendingTerminal_def phaseAt_def split: option.split)
qed

text \<open>Without a purge, a terminal batch keeps its phase for good, so no further settlement of it
  is ever applied.\<close>

fun keeps :: "store_op \<Rightarrow> bool" where
  "keeps (OpPurge n) = False"
| "keeps _ = True"

lemma run_op_terminal_stays:
  assumes "keeps op" "phaseAt s k = Some p" "terminal_phase p"
  shows "phaseAt (run_op op s) k = Some p"
proof (cases op)
  case (OpRegister e)
  then show ?thesis using assms by (auto simp: Register_def phaseAt_def)
next
  case (OpSubmitted k' sig)
  then show ?thesis using assms
    by (auto simp: AdvanceToSubmitted_def phaseAt_def terminal_phase_def split: option.split)
next
  case (OpTerminal k' ph)
  then show ?thesis using assms
    by (auto simp: AdvanceToTerminal_def phaseAt_def IsTerminal_def terminal_phase_def split: option.split)
next
  case (OpEvict n)
  then show ?thesis using assms by simp
next
  case (OpPurge n)
  then show ?thesis using assms by simp
next
  case (OpAddPending pt)
  then show ?thesis using assms by (auto simp: AddPendingTerminal_def phaseAt_def split: option.split)
next
  case (OpTakePending k')
  then show ?thesis using assms by (auto simp: TakePendingTerminal_def phaseAt_def split: option.split)
qed

lemma run_ops_terminal_stays:
  "\<forall>op \<in> set ops. keeps op \<Longrightarrow> phaseAt s k = Some p \<Longrightarrow> terminal_phase p \<Longrightarrow>
     phaseAt (fold run_op ops s) k = Some p"
  by (induction ops arbitrary: s) (auto simp: run_op_terminal_stays)

text \<open>\<open>AdvanceToTerminal\<close> reports a transition exactly on a known, open batch.\<close>

lemma AdvanceToTerminal_transitioned:
  assumes "terminal_phase ph"
  shows "fst (snd (AdvanceToTerminal s k ph)) \<longleftrightarrow>
    (\<exists>p. phaseAt s k = Some p \<and> \<not> terminal_phase p)"
  using assms by (auto simp: AdvanceToTerminal_def phaseAt_def IsTerminal_def terminal_phase_def split: option.split)

lemma AdvanceToTerminal_phase:
  assumes "terminal_phase ph" "phaseAt s k = Some p" "\<not> terminal_phase p"
  shows "phaseAt (snd (snd (snd (AdvanceToTerminal s k ph)))) k = Some ph"
  using assms by (auto simp: AdvanceToTerminal_def phaseAt_def IsTerminal_def terminal_phase_def)

text \<open>A snapshot restores the entries, whatever the iteration order.\<close>

definition entries_keyed :: "InflightStore \<Rightarrow> bool" where
  "entries_keyed s \<longleftrightarrow> finite (dom (if_entries s)) \<and> (\<forall>k e. if_entries s k = Some e \<longrightarrow> if_MatchEventID e = k)"

lemma fold_map_upd:
  "distinct ks \<Longrightarrow> (\<And>k. k \<in> set ks \<Longrightarrow> key (f k) = k) \<Longrightarrow>
     fold (\<lambda>e acc. acc(key e \<mapsto> e)) (map f ks) m = (\<lambda>k. if k \<in> set ks then Some (f k) else m k)"
proof (induction ks arbitrary: m)
  case (Cons x ks)
  have x: "key (f x) = x" "x \<notin> set ks" using Cons.prems by auto
  have "fold (\<lambda>e acc. acc(key e \<mapsto> e)) (map f (x # ks)) m =
      fold (\<lambda>e acc. acc(key e \<mapsto> e)) (map f ks) (m(x \<mapsto> f x))"
    using x by (simp del: fun_upd_apply)
  also have "\<dots> = (\<lambda>k. if k \<in> set ks then Some (f k) else (m(x \<mapsto> f x)) k)"
    using Cons.prems by (intro Cons.IH) auto
  also have "\<dots> = (\<lambda>k. if k \<in> set (x # ks) then Some (f k) else m k)" using x by auto
  finally show ?case .
qed simp

lemma Snapshot_restore:
  assumes "entries_keyed s" "set (iter (dom (if_entries s))) = dom (if_entries s)" "distinct (iter (dom (if_entries s)))"
  shows "if_entries (RestoreFromSnapshot s' (Inflight_Snapshot iter s)) = if_entries s"
proof -
  let ?ks = "iter (dom (if_entries s))"
  have key: "if_MatchEventID (the (if_entries s k)) = k" if "k \<in> set ?ks" for k
    using assms(1,2) that by (auto simp: entries_keyed_def)
  have "fold (\<lambda>e acc. acc(if_MatchEventID e \<mapsto> e)) (map (\<lambda>k. the (if_entries s k)) ?ks) Map.empty =
      (\<lambda>k. if k \<in> set ?ks then Some (the (if_entries s k)) else None)"
    using fold_map_upd [OF assms(3), of if_MatchEventID "\<lambda>k. the (if_entries s k)" Map.empty] key by simp
  moreover have "(\<lambda>k. if k \<in> set ?ks then Some (the (if_entries s k)) else None) = if_entries s"
    using assms(2) by (intro ext) auto
  ultimately show ?thesis by (simp add: RestoreFromSnapshot_def Inflight_Snapshot_def)
qed

section \<open>Pending reservations\<close>

record PendingReserveStore =
  bySubmit :: "string \<rightharpoonup> PendingReserve"
  byWalletPos :: "string \<rightharpoonup> PendingReserve"

definition NewPendingReserveStore :: PendingReserveStore where
  "NewPendingReserveStore = \<lparr>bySubmit = Map.empty, byWalletPos = Map.empty\<rparr>"

definition zeroReserve :: PendingReserve where
  "zeroReserve = \<lparr>pr_SubmitKey = [], pr_WalletAddress = [], pr_MarketPDA = [], pr_LockedUSDC = 0,
     pr_LockedYesShares = 0, pr_LockedNoShares = 0\<rparr>"

definition aggOf :: "PendingReserveStore \<Rightarrow> string \<Rightarrow> PendingReserve" where
  "aggOf s k = (case byWalletPos s k of None \<Rightarrow> zeroReserve | Some a \<Rightarrow> a)"

definition Pending_Has :: "PendingReserveStore \<Rightarrow> string \<Rightarrow> bool" where
  "Pending_Has s submitKey \<longleftrightarrow> bySubmit s submitKey \<noteq> None"

definition Pending_Mark :: "PendingReserveStore \<Rightarrow> PendingReserve \<Rightarrow> PendingReserveStore" where
  "Pending_Mark s p =
     (if pr_SubmitKey p = [] \<or> pr_WalletAddress p = [] then s
      else let k = positionKey (pr_WalletAddress p) (pr_MarketPDA p);
               agg = aggOf s k;
               agg = agg\<lparr>pr_WalletAddress := pr_WalletAddress p, pr_MarketPDA := pr_MarketPDA p,
                         pr_LockedUSDC := pr_LockedUSDC agg + pr_LockedUSDC p,
                         pr_LockedYesShares := pr_LockedYesShares agg + pr_LockedYesShares p,
                         pr_LockedNoShares := pr_LockedNoShares agg + pr_LockedNoShares p\<rparr>
           in s\<lparr>bySubmit := (bySubmit s)(pr_SubmitKey p \<mapsto> p), byWalletPos := (byWalletPos s)(k \<mapsto> agg)\<rparr>)"

definition monus :: "u64 \<Rightarrow> u64 \<Rightarrow> u64" where
  "monus a b = (if a \<le> b then 0 else a - b)"

definition Pending_Delete :: "PendingReserveStore \<Rightarrow> string \<Rightarrow> PendingReserveStore" where
  "Pending_Delete s submitKey =
     (case bySubmit s submitKey of
        None \<Rightarrow> s
      | Some p \<Rightarrow>
          (let k = positionKey (pr_WalletAddress p) (pr_MarketPDA p);
               agg = aggOf s k;
               agg = agg\<lparr>pr_LockedUSDC := monus (pr_LockedUSDC agg) (pr_LockedUSDC p),
                         pr_LockedYesShares := monus (pr_LockedYesShares agg) (pr_LockedYesShares p),
                         pr_LockedNoShares := monus (pr_LockedNoShares agg) (pr_LockedNoShares p)\<rparr>
           in s\<lparr>bySubmit := (bySubmit s)(submitKey := None),
                byWalletPos := (byWalletPos s)(k :=
                  if pr_LockedUSDC agg = 0 \<and> pr_LockedYesShares agg = 0 \<and> pr_LockedNoShares agg = 0
                  then None else Some agg)\<rparr>))"

definition Pending_Apply ::
  "PendingReserveStore \<Rightarrow> string \<Rightarrow> string \<Rightarrow> UserWallet \<Rightarrow> MarketPosition \<Rightarrow> UserWallet \<times> MarketPosition" where
  "Pending_Apply s w pda l p =
     (case byWalletPos s (positionKey w pda) of
        None \<Rightarrow> (l, p)
      | Some agg \<Rightarrow>
          (l\<lparr>AvailableUSDC := monus (AvailableUSDC l) (pr_LockedUSDC agg)\<rparr>,
           p\<lparr>AvailableYesShares := monus (AvailableYesShares p) (pr_LockedYesShares agg),
             AvailableNoShares := monus (AvailableNoShares p) (pr_LockedNoShares agg)\<rparr>))"

definition Pending_Restore :: "PendingReserveStore \<Rightarrow> PendingReserve list \<Rightarrow> PendingReserveStore" where
  "Pending_Restore s items = fold (\<lambda>p s. Pending_Mark s p) items \<lparr>bySubmit = Map.empty, byWalletPos = Map.empty\<rparr>"

lemma unat_monus: "unat (monus a b) = unat a - unat b"
  by (auto simp: monus_def word_le_nat_alt unat_sub_le)

end
