(* ===== verification/Protocol.thy ===== *)
theory Protocol
  imports Orders
begin

text \<open>
  The wire format of commands and events (\<open>protocol/types.go\<close>, \<open>protocol/events.go\<close>), the
  validation of a place-order command, and its conversion to the matcher's command
  (\<open>matching/adapter.go\<close>).  A decoded JSON value is a record; the code's string enums stay
  strings, since the validation is what restricts them.
\<close>

section \<open>Subjects\<close>

definition SubjectOrderSubmit :: string where "SubjectOrderSubmit = ''cmd.order.submit''"
definition SubjectOrderReserved :: string where "SubjectOrderReserved = ''evt.order.reserved''"
definition SubjectOrderReserveRejected :: string where "SubjectOrderReserveRejected = ''evt.order.reserve_rejected''"
definition SubjectMarketDelta :: string where "SubjectMarketDelta = ''evt.market.delta''"
definition SubjectMatchExecution :: string where "SubjectMatchExecution = ''evt.match.execution''"
definition SubjectOrderReleased :: string where "SubjectOrderReleased = ''evt.order.released''"
definition SubjectSettlementSubmitted :: string where "SubjectSettlementSubmitted = ''evt.settlement.submitted''"
definition SubjectSettlementConfirmed :: string where "SubjectSettlementConfirmed = ''evt.settlement.confirmed''"
definition SubjectSettlementFailed :: string where "SubjectSettlementFailed = ''evt.settlement.failed''"
definition SubjectDepositConfirmed :: string where "SubjectDepositConfirmed = ''evt.deposit.confirmed''"
definition SubjectWithdrawConfirmed :: string where "SubjectWithdrawConfirmed = ''evt.withdraw.confirmed''"

lemmas subject_defs = SubjectOrderSubmit_def SubjectOrderReserved_def SubjectOrderReserveRejected_def
  SubjectMarketDelta_def SubjectMatchExecution_def SubjectOrderReleased_def SubjectSettlementSubmitted_def
  SubjectSettlementConfirmed_def SubjectSettlementFailed_def SubjectDepositConfirmed_def
  SubjectWithdrawConfirmed_def

text \<open>\<open>fmt.Sprintf ("%s.%d", subject, marketID)\<close>.\<close>

definition subjectMarket :: "string \<Rightarrow> u64 \<Rightarrow> string" where
  "subjectMarket subject marketID = subject @ ''.'' @ FormatUint10 marketID"

section \<open>Commands and events\<close>

record PlaceOrderExecution =
  pe_OrderID :: u64
  pe_WalletAddress :: string
  pe_OriginalAction :: string
  pe_OriginalOutcome :: string
  pe_OriginalPriceTick :: u8
  pe_OrderType :: string
  pe_NormalizedSide :: string
  pe_NormalizedPriceTick :: u8
  pe_QtyLots :: u64
  pe_SpendAmount :: u64
  pe_ExpireTime :: unixtime
  pe_Nonce :: u64

record ProtoPlaceOrder =
  pc_CommandID :: string
  pc_TraceID :: string
  pc_IdempotencyKey :: string
  pc_Timestamp :: unixtime
  pc_MarketID :: u64
  pc_MarketPDA :: string
  pc_Execution :: PlaceOrderExecution
  pc_IntentBytesHex :: string
  pc_Signature :: string

record OrderReserveRejectedEvent =
  rr_CommandID :: string
  rr_TraceID :: string
  rr_IdempotencyKey :: string
  rr_MarketID :: u64
  rr_MarketPDA :: string
  rr_OrderID :: u64
  rr_WalletAddress :: string
  rr_ReasonCode :: string

record OrderReleasedEvent =
  rl_MatchEventID :: string
  rl_OrderID :: u64
  rl_MarketID :: u64
  rl_MarketPDA :: string
  rl_WalletAddress :: string
  rl_OriginalAction :: string
  rl_OriginalOutcome :: string
  rl_OriginalPriceTick :: u8
  rl_OrderType :: string
  rl_RemainingQtyLots :: u64
  rl_RefundAmount :: u64
  rl_Status :: string
  rl_ReasonCode :: string
  rl_ReleasedAt :: unixtime

text \<open>Deposit and withdrawal confirmations have the same fields.\<close>

record TransferConfirmedEvent =
  tc_Signature :: string
  tc_WalletAddress :: string
  tc_AmountUnits :: u64

section \<open>Validation\<close>

datatype validation_error =
    CommandIDRequired | MarketIDRequired | MarketPDARequired | WalletRequired
  | InvalidOriginalAction string | InvalidOriginalOutcome string | SignatureRequired | NonceRequired
  | IntentRequired | TimestampRequired | InvalidNormalizedSide string | OriginalTickRange
  | LimitTickRange | LimitExpireRequired | LimitQtyRequired | LimitSpendNotZero
  | MarketTickRange | MarketBuySpendRequired | MarketBuyQtyNotZero | MarketSellQtyRequired
  | MarketSellSpendNotZero | MarketExpireNotZero | InvalidOrderType string

definition validateTyped :: "PlaceOrderExecution \<Rightarrow> validation_error option" where
  "validateTyped x =
     (if pe_OrderType x = ''limit'' then
        (if pe_NormalizedPriceTick x < 1 \<or> 99 < pe_NormalizedPriceTick x then Some LimitTickRange
         else if pe_ExpireTime x = 0 then Some LimitExpireRequired
         else if pe_QtyLots x = 0 then Some LimitQtyRequired
         else if pe_SpendAmount x \<noteq> 0 then Some LimitSpendNotZero
         else None)
      else if pe_OrderType x = ''market'' then
        (if pe_NormalizedPriceTick x < 1 \<or> 99 < pe_NormalizedPriceTick x then Some MarketTickRange
         else if pe_OriginalAction x = ''buy'' then
           (if pe_SpendAmount x = 0 then Some MarketBuySpendRequired
            else if pe_QtyLots x \<noteq> 0 then Some MarketBuyQtyNotZero
            else if pe_ExpireTime x \<noteq> 0 then Some MarketExpireNotZero
            else None)
         else
           (if pe_QtyLots x = 0 then Some MarketSellQtyRequired
            else if pe_SpendAmount x \<noteq> 0 then Some MarketSellSpendNotZero
            else if pe_ExpireTime x \<noteq> 0 then Some MarketExpireNotZero
            else None))
      else Some (InvalidOrderType (pe_OrderType x)))"

definition ValidatePlaceOrderCommand :: "ProtoPlaceOrder \<Rightarrow> validation_error option" where
  "ValidatePlaceOrderCommand cmd =
     (let x = pc_Execution cmd in
      if TrimSpace (pc_CommandID cmd) = [] then Some CommandIDRequired
      else if pc_MarketID cmd = 0 then Some MarketIDRequired
      else if TrimSpace (pc_MarketPDA cmd) = [] then Some MarketPDARequired
      else if TrimSpace (pe_WalletAddress x) = [] then Some WalletRequired
      else if pe_OriginalAction x \<notin> {''buy'', ''sell''} then Some (InvalidOriginalAction (pe_OriginalAction x))
      else if pe_OriginalOutcome x \<notin> {''yes'', ''no''} then Some (InvalidOriginalOutcome (pe_OriginalOutcome x))
      else if TrimSpace (pc_Signature cmd) = [] then Some SignatureRequired
      else if pe_Nonce x = 0 then Some NonceRequired
      else if TrimSpace (pc_IntentBytesHex cmd) = [] then Some IntentRequired
      else if pc_Timestamp cmd = 0 then Some TimestampRequired
      else if pe_NormalizedSide x \<notin> {''buy'', ''sell''} then Some (InvalidNormalizedSide (pe_NormalizedSide x))
      else if pe_OriginalPriceTick x < 1 \<or> 99 < pe_OriginalPriceTick x then Some OriginalTickRange
      else validateTyped x)"

section \<open>Conversion to the matcher's command\<close>

definition toMatchingSide :: "string \<Rightarrow> u8" where
  "toMatchingSide side = (if side = ''sell'' then SideSell else SideBuy)"

definition toMatchingOutcome :: "string \<Rightarrow> u8" where
  "toMatchingOutcome outcome = (if outcome = ''no'' then 1 else 0)"

definition ConvertProtocolToPlaceOrderCommand :: "ProtoPlaceOrder \<Rightarrow> PlaceOrderCommand" where
  "ConvertProtocolToPlaceOrderCommand cmd =
     (let x = pc_Execution cmd in \<lparr>
        c_CommandID = pc_CommandID cmd, c_TraceID = pc_TraceID cmd,
        c_IdempotencyKey = pc_IdempotencyKey cmd, c_OrderID = pe_OrderID x,
        c_MarketID = pc_MarketID cmd, c_MarketPDA = pc_MarketPDA cmd,
        c_WalletAddress = pe_WalletAddress x,
        c_OriginalAction = toMatchingSide (pe_OriginalAction x),
        c_OriginalOutcome = toMatchingOutcome (pe_OriginalOutcome x),
        c_OriginalPriceTick = pe_OriginalPriceTick x,
        c_Side = (if pe_NormalizedSide x = ''sell'' then SideSell else SideBuy),
        c_OrderType = (if pe_OrderType x = ''market'' then OrderTypeMarket else OrderTypeLimit),
        c_PriceTick = pe_NormalizedPriceTick x, c_QtyLots = pe_QtyLots x,
        c_SpendAmount = pe_SpendAmount x, c_ExpireTime = pe_ExpireTime x,
        c_Signature = pc_Signature cmd, c_IntentBytesHex = pc_IntentBytesHex cmd,
        c_Nonce = pe_Nonce x, c_Timestamp = pc_Timestamp cmd, c_SourceCmdSeq = 0\<rparr>)"

section \<open>What validation guarantees\<close>

lemma u8_ge1: "(x :: u8) \<noteq> 0 \<Longrightarrow> 1 \<le> x"
  by (simp add: word_neq0_unat word_le_nat_alt Suc_leI)

lemma validateTyped_None:
  assumes "validateTyped x = None"
  shows "1 \<le> pe_NormalizedPriceTick x" "pe_NormalizedPriceTick x \<le> 99" "pe_OrderType x \<in> {''limit'', ''market''}"
    "pe_OrderType x = ''limit'' \<Longrightarrow> pe_QtyLots x \<noteq> 0 \<and> pe_SpendAmount x = 0 \<and> pe_ExpireTime x \<noteq> 0"
    "pe_OrderType x = ''market'' \<Longrightarrow> pe_OriginalAction x = ''buy'' \<Longrightarrow> pe_SpendAmount x \<noteq> 0 \<and> pe_QtyLots x = 0"
    "pe_OrderType x = ''market'' \<Longrightarrow> pe_OriginalAction x \<noteq> ''buy'' \<Longrightarrow> pe_QtyLots x \<noteq> 0 \<and> pe_SpendAmount x = 0"
    "pe_OrderType x = ''market'' \<Longrightarrow> pe_ExpireTime x = 0"
  using assms by (auto simp: validateTyped_def not_less u8_ge1 split: if_splits)

lemma Validate_None:
  assumes "ValidatePlaceOrderCommand cmd = None"
  shows "pc_MarketID cmd \<noteq> 0" "TrimSpace (pe_WalletAddress (pc_Execution cmd)) \<noteq> []"
    "pe_OriginalAction (pc_Execution cmd) \<in> {''buy'', ''sell''}"
    "pe_OriginalOutcome (pc_Execution cmd) \<in> {''yes'', ''no''}"
    "pe_NormalizedSide (pc_Execution cmd) \<in> {''buy'', ''sell''}"
    "1 \<le> pe_OriginalPriceTick (pc_Execution cmd) \<and> pe_OriginalPriceTick (pc_Execution cmd) \<le> 99"
    "validateTyped (pc_Execution cmd) = None"
  using assms by (simp_all add: ValidatePlaceOrderCommand_def Let_def not_less u8_ge1 split: if_splits)

text \<open>A converted command starts unfilled: it has something to match with.\<close>

lemma converted_not_filled:
  assumes "ValidatePlaceOrderCommand cmd = None"
  shows "\<not> IsFilled (orderFromCmd (ConvertProtocolToPlaceOrderCommand cmd))"
proof -
  let ?x = "pc_Execution cmd"
  note V = Validate_None [OF assms]
  note T = validateTyped_None [OF V(7)]
  show ?thesis
    using T(3-6) V(3)
    by (auto simp: IsFilled_def ConvertProtocolToPlaceOrderCommand_def Let_def toMatchingSide_def side_defs order_type_defs)
qed

lemma converted_ranges:
  assumes "ValidatePlaceOrderCommand cmd = None"
  defines "c \<equiv> ConvertProtocolToPlaceOrderCommand cmd"
  shows "c_Side c \<in> {SideBuy, SideSell}" "1 \<le> c_PriceTick c" "c_PriceTick c \<le> 99"
    "1 \<le> c_OriginalPriceTick c" "c_OriginalPriceTick c \<le> 99"
    "c_OrderType c \<in> {OrderTypeLimit, OrderTypeMarket}" "c_OriginalOutcome c \<in> {0, 1}"
    "c_OriginalAction c \<in> {SideBuy, SideSell}"
proof -
  note V = Validate_None [OF assms(1)]
  note T = validateTyped_None [OF V(7)]
  show "c_Side c \<in> {SideBuy, SideSell}" "1 \<le> c_PriceTick c" "c_PriceTick c \<le> 99"
    "1 \<le> c_OriginalPriceTick c" "c_OriginalPriceTick c \<le> 99"
    "c_OrderType c \<in> {OrderTypeLimit, OrderTypeMarket}" "c_OriginalOutcome c \<in> {0, 1}"
    "c_OriginalAction c \<in> {SideBuy, SideSell}"
    using T(1,2) V(6) by (simp_all add: c_def ConvertProtocolToPlaceOrderCommand_def Let_def
        toMatchingSide_def toMatchingOutcome_def)
qed

end
