(* ===== verification/KeyStores.thy ===== *)
theory KeyStores
  imports Protocol
begin

text \<open>
  The stores of processed keys of the funds service: \<open>funds/submit_store.go\<close>,
  \<open>funds/deposit_store.go\<close>, \<open>funds/withdrawal_store.go\<close>.  The three files have the same code
  on three types; the contract their handlers rely on is the locale \<open>key_store\<close>, interpreted
  on each of them.
\<close>

record SubmitStore = submitKeys :: "string set"
record DepositStore = depositKeys :: "string set"
record WithdrawalStore = withdrawalKeys :: "string set"

definition NewSubmitStore :: SubmitStore where "NewSubmitStore = \<lparr>submitKeys = {}\<rparr>"
definition NewDepositStore :: DepositStore where "NewDepositStore = \<lparr>depositKeys = {}\<rparr>"
definition NewWithdrawalStore :: WithdrawalStore where "NewWithdrawalStore = \<lparr>withdrawalKeys = {}\<rparr>"

definition SubmitStore_Has :: "SubmitStore \<Rightarrow> string \<Rightarrow> bool" where
  "SubmitStore_Has s key = (let key = TrimSpace key in if key = [] then False else key \<in> submitKeys s)"

definition SubmitStore_Mark :: "SubmitStore \<Rightarrow> string \<Rightarrow> SubmitStore" where
  "SubmitStore_Mark s key =
     (let key = TrimSpace key in if key = [] then s else s\<lparr>submitKeys := insert key (submitKeys s)\<rparr>)"

text \<open>\<open>Snapshot\<close> lists the keys in \<open>sort.Strings\<close> order; what is restored is their set.\<close>

definition restoreKeys :: "string list \<Rightarrow> string set" where
  "restoreKeys ks = fold (\<lambda>k acc. let k = TrimSpace k in if k = [] then acc else insert k acc) ks {}"

definition SubmitStore_Restore :: "SubmitStore \<Rightarrow> string list \<Rightarrow> SubmitStore" where
  "SubmitStore_Restore s ks = s\<lparr>submitKeys := restoreKeys ks\<rparr>"

definition DepositStore_Has :: "DepositStore \<Rightarrow> string \<Rightarrow> bool" where
  "DepositStore_Has s key = (let key = TrimSpace key in if key = [] then False else key \<in> depositKeys s)"

definition DepositStore_Mark :: "DepositStore \<Rightarrow> string \<Rightarrow> DepositStore" where
  "DepositStore_Mark s key =
     (let key = TrimSpace key in if key = [] then s else s\<lparr>depositKeys := insert key (depositKeys s)\<rparr>)"

definition DepositStore_Restore :: "DepositStore \<Rightarrow> string list \<Rightarrow> DepositStore" where
  "DepositStore_Restore s ks = s\<lparr>depositKeys := restoreKeys ks\<rparr>"

definition WithdrawalStore_Has :: "WithdrawalStore \<Rightarrow> string \<Rightarrow> bool" where
  "WithdrawalStore_Has s key = (let key = TrimSpace key in if key = [] then False else key \<in> withdrawalKeys s)"

definition WithdrawalStore_Mark :: "WithdrawalStore \<Rightarrow> string \<Rightarrow> WithdrawalStore" where
  "WithdrawalStore_Mark s key =
     (let key = TrimSpace key in if key = [] then s else s\<lparr>withdrawalKeys := insert key (withdrawalKeys s)\<rparr>)"

definition WithdrawalStore_Restore :: "WithdrawalStore \<Rightarrow> string list \<Rightarrow> WithdrawalStore" where
  "WithdrawalStore_Restore s ks = s\<lparr>withdrawalKeys := restoreKeys ks\<rparr>"

section \<open>Submit keys\<close>

definition submitKeyOf :: "string \<Rightarrow> string \<Rightarrow> u64 \<Rightarrow> string \<Rightarrow> string" where
  "submitKeyOf commandID idempotencyKey orderID traceID =
     (if TrimSpace commandID \<noteq> [] then ''cmd:'' @ TrimSpace commandID
      else if TrimSpace idempotencyKey \<noteq> [] then ''idem:'' @ TrimSpace idempotencyKey
      else if orderID \<noteq> 0 then ''order:'' @ FormatUint10 orderID
      else if TrimSpace traceID \<noteq> [] then ''trace:'' @ TrimSpace traceID
      else [])"

definition submitKeyFromCommand :: "ProtoPlaceOrder \<Rightarrow> string" where
  "submitKeyFromCommand cmd =
     submitKeyOf (pc_CommandID cmd) (pc_IdempotencyKey cmd) (pe_OrderID (pc_Execution cmd)) (pc_TraceID cmd)"

definition submitKeyFromReserveRejected :: "OrderReserveRejectedEvent \<Rightarrow> string" where
  "submitKeyFromReserveRejected ev =
     submitKeyOf (rr_CommandID ev) (rr_IdempotencyKey ev) (rr_OrderID ev) (rr_TraceID ev)"

section \<open>The contract\<close>

text \<open>An effect guarded by a key store: it runs only for a key not seen before.  \<open>guarded\<close> is the
  shape of the deposit and withdrawal handlers.\<close>

definition guarded ::
  "('s \<Rightarrow> string \<Rightarrow> bool) \<Rightarrow> ('s \<Rightarrow> string \<Rightarrow> 's) \<Rightarrow> ('e \<Rightarrow> 'm \<Rightarrow> 'm) \<Rightarrow> string \<times> 'e \<Rightarrow> 's \<times> 'm \<Rightarrow> 's \<times> 'm" where
  "guarded has mark eff ke sm =
     (case (ke, sm) of ((k, e), (s, m)) \<Rightarrow>
        if TrimSpace k = [] \<or> has s k then (s, m) else (mark s k, eff e m))"

text \<open>The deliveries whose effect runs: the first of each key.\<close>

fun firsts :: "string set \<Rightarrow> (string \<times> 'e) list \<Rightarrow> 'e list" where
  "firsts seen [] = []"
| "firsts seen ((k, e) # kes) =
     (if TrimSpace k = [] \<or> TrimSpace k \<in> seen then firsts seen kes
      else e # firsts (insert (TrimSpace k) seen) kes)"

locale key_store =
  fixes has :: "'s \<Rightarrow> string \<Rightarrow> bool"
    and mark :: "'s \<Rightarrow> string \<Rightarrow> 's"
    and keysOf :: "'s \<Rightarrow> string set"
  assumes has_iff: "has s k \<longleftrightarrow> TrimSpace k \<noteq> [] \<and> TrimSpace k \<in> keysOf s"
    and keys_mark: "keysOf (mark s k) = (if TrimSpace k = [] then keysOf s else insert (TrimSpace k) (keysOf s))"
begin

lemma has_mark: "has (mark s k) k' \<longleftrightarrow> has s k' \<or> (TrimSpace k' \<noteq> [] \<and> TrimSpace k' = TrimSpace k)"
  by (auto simp: has_iff keys_mark)

lemma mark_monotone: "has s k' \<Longrightarrow> has (mark s k) k'"
  by (simp add: has_mark)

lemma guarded_redelivery: "guarded has mark eff ke (guarded has mark eff ke sm) = guarded has mark eff ke sm"
  by (cases ke; cases sm) (auto simp: guarded_def has_mark)

text \<open>Whatever is redelivered, and in whatever interleaving, the effects that run are those of
  the first delivery of each key, in order.\<close>

lemma guarded_run:
  "snd (fold (guarded has mark eff) kes (s, m)) = fold eff (firsts (keysOf s) kes) m"
proof (induction kes arbitrary: s m)
  case (Cons ke kes)
  obtain k e where ke: "ke = (k, e)" by (meson surj_pair)
  show ?case
  proof (cases "TrimSpace k = [] \<or> TrimSpace k \<in> keysOf s")
    case True
    then have "guarded has mark eff ke (s, m) = (s, m)" by (auto simp: guarded_def ke has_iff)
    with True Cons.IH ke show ?thesis by auto
  next
    case False
    then have "guarded has mark eff ke (s, m) = (mark s k, eff e m)" by (simp add: guarded_def ke has_iff)
    moreover have "keysOf (mark s k) = insert (TrimSpace k) (keysOf s)" using False by (simp add: keys_mark)
    ultimately show ?thesis using False Cons.IH [of "mark s k" "eff e m"] ke by simp
  qed
qed simp

end

interpretation submits: key_store SubmitStore_Has SubmitStore_Mark submitKeys
  by unfold_locales (simp_all add: SubmitStore_Has_def SubmitStore_Mark_def Let_def)

interpretation depositStore: key_store DepositStore_Has DepositStore_Mark depositKeys
  by unfold_locales (simp_all add: DepositStore_Has_def DepositStore_Mark_def Let_def)

interpretation withdrawalStore: key_store WithdrawalStore_Has WithdrawalStore_Mark withdrawalKeys
  by unfold_locales (simp_all add: WithdrawalStore_Has_def WithdrawalStore_Mark_def Let_def)

text \<open>Keys are stored trimmed, so a snapshot restores the same store whatever its order.\<close>

lemma restoreKeys_set: "restoreKeys ks = {TrimSpace k |k. k \<in> set ks \<and> TrimSpace k \<noteq> []}"
proof -
  have "fold (\<lambda>k acc. let k = TrimSpace k in if k = [] then acc else insert k acc) ks A =
      A \<union> {TrimSpace k |k. k \<in> set ks \<and> TrimSpace k \<noteq> []}" for A
    by (induction ks arbitrary: A) (auto simp: Let_def)
  then show ?thesis by (simp add: restoreKeys_def)
qed

definition trimmed :: "string set \<Rightarrow> bool" where
  "trimmed S \<longleftrightarrow> (\<forall>k \<in> S. TrimSpace k = k \<and> k \<noteq> [])"

lemma restoreKeys_snapshot: "trimmed S \<Longrightarrow> set ks = S \<Longrightarrow> restoreKeys ks = S"
  unfolding restoreKeys_set trimmed_def by (intro set_eqI) (simp, metis)

lemma mark_trimmed [invs]:
  "trimmed (submitKeys s) \<Longrightarrow> trimmed (submitKeys (SubmitStore_Mark s k))"
  "trimmed (depositKeys d) \<Longrightarrow> trimmed (depositKeys (DepositStore_Mark d k))"
  "trimmed (withdrawalKeys w) \<Longrightarrow> trimmed (withdrawalKeys (WithdrawalStore_Mark w k))"
  by (auto simp: trimmed_def SubmitStore_Mark_def DepositStore_Mark_def WithdrawalStore_Mark_def
      Let_def TrimSpace_idem)

end
