(* ===== verification/FundsService.thy ===== *)
theory FundsService
  imports Inflight KeyStores "HOL-Library.List_Lexorder"
begin

text \<open>
  The event handlers of the funds service (\<open>funds/service.go\<close>): admission of a submitted order
  against the balance less the reservations under way, application of reserved orders, match
  batches, settlement outcomes, releases, deposits and withdrawals.

  A message carries what \<open>json.Unmarshal\<close> makes of its data at each type a handler decodes
  (\<open>None\<close> is a decoding error), its stream sequence number, and whether acknowledging it and
  publishing in answer to it succeed.  The stores are never nil: the service creates them all.
  Logging, the projector's wake-up flag and the read lock on the state are left out.

  A handler is one function here, as when one message is handled after the other.  The service runs several
  consumers, whose handlers share the read lock and only exclude each other inside the stores and the manager:
  \<open>FundsRaces\<close> cuts the handlers of a batch and of its outcome into those sections and interleaves them.
\<close>

section \<open>State and messages\<close>

record FundsState =
  fs_manager :: Manager
  fs_inflight :: InflightStore
  fs_pending :: PendingReserveStore
  fs_submits :: SubmitStore
  fs_deposits :: DepositStore
  fs_withdrawals :: WithdrawalStore
  fs_evtSeq :: u64

record CommandEnvelope =
  ce_IdempotencyKey :: string
  ce_Payload :: ProtoPlaceOrder

record SettlementEvent =
  se_MatchEventID :: string
  se_TxSignature :: string

record FundsMsg =
  fm_Subject :: string
  fm_Seq :: "u64 option"
  fm_AckOk :: bool
  fm_PubOk :: bool
  fm_Command :: "CommandEnvelope option"
  fm_ReserveRejected :: "OrderReserveRejectedEvent option"
  fm_Batch :: "MatchBatchEvent option"
  fm_Settlement :: "SettlementEvent option"
  fm_Released :: "OrderReleasedEvent option"
  fm_Transfer :: "TransferConfirmedEvent option"

datatype Verdict = Ack | Term | Nak

datatype FundsPublication =
    PublishReserveRejected string OrderReserveRejectedEvent
  | PublishReserved string CommandEnvelope

type_synonym handled = "FundsState \<times> Verdict \<times> FundsPublication list"

definition mapAction :: "string \<Rightarrow> u8" where
  "mapAction value1 = (if EqualFold value1 ''sell'' then SideSell else SideBuy)"

definition mapOutcome :: "string \<Rightarrow> u8" where
  "mapOutcome value1 = (if EqualFold value1 ''no'' then OutcomeNo else OutcomeYes)"

definition mapOrderType :: "string \<Rightarrow> u8" where
  "mapOrderType value1 = (if EqualFold value1 ''market'' then OrderTypeMarket else OrderTypeLimit)"

definition activeOrderFromExecution :: "ExecutionSnapshot \<Rightarrow> u64 \<Rightarrow> string \<Rightarrow> u64 \<Rightarrow> ActiveOrder" where
  "activeOrderFromExecution x marketID marketPDA remainingQty = \<lparr>
     a_WalletAddress = x_WalletAddress x, a_MarketID = marketID, a_MarketPDA = marketPDA,
     a_OriginalAction = mapAction (x_OriginalAction x), a_OriginalOutcome = mapOutcome (x_OriginalOutcome x),
     a_OriginalPriceTick = x_OriginalPriceTick x, a_OrderType = mapOrderType (x_OrderType x),
     a_RemainingQty = remainingQty, a_RemainingSpend = x_SpendAmount x\<rparr>"

definition activeOrderFromCommand :: "ProtoPlaceOrder \<Rightarrow> ActiveOrder" where
  "activeOrderFromCommand cmd = (let x = pc_Execution cmd in \<lparr>
     a_WalletAddress = pe_WalletAddress x, a_MarketID = pc_MarketID cmd, a_MarketPDA = pc_MarketPDA cmd,
     a_OriginalAction = mapAction (pe_OriginalAction x), a_OriginalOutcome = mapOutcome (pe_OriginalOutcome x),
     a_OriginalPriceTick = pe_OriginalPriceTick x, a_OrderType = mapOrderType (pe_OrderType x),
     a_RemainingQty = pe_QtyLots x, a_RemainingSpend = pe_SpendAmount x\<rparr>)"

definition reserveInputFromCommand :: "ProtoPlaceOrder \<Rightarrow> ReserveOrderInput" where
  "reserveInputFromCommand cmd = (let x = pc_Execution cmd in \<lparr>
     ri_WalletAddress = pe_WalletAddress x, ri_MarketID = pc_MarketID cmd, ri_MarketPDA = pc_MarketPDA cmd,
     ri_OriginalAction = mapAction (pe_OriginalAction x), ri_OriginalOutcome = mapOutcome (pe_OriginalOutcome x),
     ri_OriginalPriceTick = pe_OriginalPriceTick x, ri_OrderType = mapOrderType (pe_OrderType x),
     ri_QtyLots = pe_QtyLots x, ri_SpendAmount = pe_SpendAmount x\<rparr>)"

text \<open>Acknowledging an event advances the sequence number the next snapshot may claim.\<close>

definition ack :: "FundsMsg \<Rightarrow> FundsState \<Rightarrow> FundsState" where
  "ack msg st =
     (if \<not> fm_AckOk msg then st
      else case fm_Seq msg of
        None \<Rightarrow> st
      | Some s \<Rightarrow> if HasPrefix (fm_Subject msg) ''evt.'' \<and> fs_evtSeq st < s then st\<lparr>fs_evtSeq := s\<rparr> else st)"

section \<open>Submission and reservation\<close>

definition markPending :: "ReserveOrderInput \<Rightarrow> string \<Rightarrow> FundsState \<Rightarrow> FundsState" where
  "markPending input submitKey st =
     (if submitKey = [] then st
      else st\<lparr>fs_pending := Pending_Mark (fs_pending st) ((pendingReserveFromInput input)\<lparr>pr_SubmitKey := submitKey\<rparr>)\<rparr>)"

definition deletePending :: "string \<Rightarrow> FundsState \<Rightarrow> FundsState" where
  "deletePending submitKey st =
     (if submitKey = [] then st else st\<lparr>fs_pending := Pending_Delete (fs_pending st) submitKey\<rparr>)"

definition markSubmitted :: "string \<Rightarrow> FundsState \<Rightarrow> FundsState" where
  "markSubmitted submitKey st = st\<lparr>fs_submits := SubmitStore_Mark (fs_submits st) submitKey\<rparr>"

definition handleSubmitMessage :: "FundsMsg \<Rightarrow> FundsState \<Rightarrow> handled" where
  "handleSubmitMessage msg st =
     (case fm_Command msg of
        None \<Rightarrow> (st, Term, [])
      | Some env \<Rightarrow>
          (let cmd = ce_Payload env; x = pc_Execution cmd; submitKey = submitKeyFromCommand cmd in
           if TrimSpace (pc_CommandID cmd) = [] then (st, Term, [])
           else if submitKey \<noteq> [] \<and> SubmitStore_Has (fs_submits st) submitKey then (ack msg st, Ack, [])
           else if submitKey \<noteq> [] \<and> Pending_Has (fs_pending st) submitKey then (ack msg st, Ack, [])
           else let input = reserveInputFromCommand cmd;
                    w = pe_WalletAddress x; pda = pc_MarketPDA cmd;
                    (l, p) = Pending_Apply (fs_pending st) w pda (Ledger (fs_manager st) w) (Position (fs_manager st) w pda)
                in case validateReserveAgainstSnapshot l p input of
                     Some e \<Rightarrow>
                       (let rejected = \<lparr>rr_CommandID = pc_CommandID cmd, rr_TraceID = pc_TraceID cmd,
                              rr_IdempotencyKey = pc_IdempotencyKey cmd, rr_MarketID = pc_MarketID cmd,
                              rr_MarketPDA = pc_MarketPDA cmd, rr_OrderID = pe_OrderID x,
                              rr_WalletAddress = w, rr_ReasonCode = ''insufficient_balance''\<rparr>;
                            pub = [PublishReserveRejected (subjectMarket SubjectOrderReserveRejected (pc_MarketID cmd)) rejected]
                        in if fm_PubOk msg then (ack msg st, Ack, pub) else (st, Nak, pub))
                   | None \<Rightarrow>
                       (let pub = [PublishReserved (subjectMarket SubjectOrderReserved (pc_MarketID cmd)) env]
                        in if fm_PubOk msg then (ack msg (markPending input submitKey st), Ack, pub)
                           else (st, Nak, pub))))"

definition handleReservedMessage :: "FundsMsg \<Rightarrow> FundsState \<Rightarrow> handled" where
  "handleReservedMessage msg st =
     (case fm_Command msg of
        None \<Rightarrow> (st, Term, [])
      | Some env \<Rightarrow>
          (let cmd = ce_Payload env; submitKey = submitKeyFromCommand cmd in
           if submitKey \<noteq> [] \<and> SubmitStore_Has (fs_submits st) submitKey
           then (ack msg (deletePending submitKey st), Ack, [])
           else case ReserveOrder (fs_manager st) (reserveInputFromCommand cmd) of
                  Inl e \<Rightarrow>
                    (ack msg ((if submitKey \<noteq> [] then markSubmitted submitKey else id) (deletePending submitKey st)), Ack, [])
                | Inr m \<Rightarrow>
                    (ack msg (deletePending submitKey (markSubmitted submitKey (st\<lparr>fs_manager := m\<rparr>))), Ack, [])))"

definition handleReserveRejectedMessage :: "FundsMsg \<Rightarrow> FundsState \<Rightarrow> handled" where
  "handleReserveRejectedMessage msg st =
     (case fm_ReserveRejected msg of
        None \<Rightarrow> (st, Term, [])
      | Some ev \<Rightarrow>
          (let submitKey = submitKeyFromReserveRejected ev
           in (ack msg (markSubmitted submitKey (deletePending submitKey st)), Ack, [])))"

section \<open>Match batches and their settlement\<close>

text \<open>\<open>sort.Strings\<close> on the set of trimmed wallets of a batch.\<close>

definition collectMatchBatchWallets :: "MatchBatchEvent \<Rightarrow> string list" where
  "collectMatchBatchWallets ev =
     sort_key (map (of_char :: char \<Rightarrow> nat))
       (remdups (filter (\<lambda>w. w \<noteq> []) (map (\<lambda>o1. TrimSpace (x_WalletAddress (m_Execution o1))) (ev_Orders ev))))"

definition applyFill :: "MatchBatchEvent \<Rightarrow> MatchFill \<Rightarrow> Manager \<Rightarrow> Manager" where
  "applyFill ev fill m =
     (case (orderByIndex ev (f_MakerOrderIndex fill), orderByIndex ev (f_TakerOrderIndex fill)) of
        (Some maker, Some taker) \<Rightarrow>
          ApplyMatchPending m
            (activeOrderFromExecution (m_Execution maker) (ev_MarketID ev) (ev_MarketPDA ev) (f_FillAmount fill))
            (activeOrderFromExecution (m_Execution taker) (ev_MarketID ev) (ev_MarketPDA ev) (f_FillAmount fill))
            (f_FillAmount fill) (ucast (f_FillPrice fill))
      | _ \<Rightarrow> m)"

definition applyUpdate :: "MatchBatchEvent \<Rightarrow> OrderUpdate \<Rightarrow> Manager \<Rightarrow> Manager" where
  "applyUpdate ev u m =
     (if u_Status u \<noteq> ''canceled'' \<and> u_Status u \<noteq> ''expired'' \<and> u_Status u \<noteq> ''rejected'' then m
      else case orderByIndex ev (u_OrderIndex u) of
             None \<Rightarrow> m
           | Some o1 \<Rightarrow> ReleaseLocked m
               (activeOrderFromExecution (m_Execution o1) (ev_MarketID ev) (ev_MarketPDA ev) (u_RemainingQtyLots u))
               (u_RefundAmount u))"

definition applyBatch :: "MatchBatchEvent \<Rightarrow> Manager \<Rightarrow> Manager" where
  "applyBatch ev m = fold (applyUpdate ev) (OrderUpdates ev) (fold (applyFill ev) (Fills ev) m)"

definition settle :: "(deltas \<Rightarrow> deltas) \<Rightarrow> Phase \<Rightarrow> MatchBatchEvent option \<Rightarrow> Manager \<Rightarrow> Manager" where
  "settle iter phase raw m =
     (if raw = None then m
      else case (if phase = Confirmed then ApplySettlementConfirmedByBatch iter m raw
                 else if phase = Failed then ApplySettlementFailedByBatch iter m raw else Inr m) of
             Inl e \<Rightarrow> m
           | Inr m' \<Rightarrow> m')"

definition applyTerminal ::
  "(deltas \<Rightarrow> deltas) \<Rightarrow> string \<Rightarrow> Phase \<Rightarrow> string \<Rightarrow> FundsState \<Rightarrow> FundsState" where
  "applyTerminal iter k phase txSig st =
     (let (raw, transitioned, conflict, s) = AdvanceToTerminal (fs_inflight st) k phase;
          st = st\<lparr>fs_inflight := s\<rparr>
      in if conflict then st
         else if \<not> transitioned then
           (if Inflight_Get s k = None
            then st\<lparr>fs_inflight := AddPendingTerminal s
                     \<lparr>pt_MatchEventID = k, pt_Phase = phase, pt_TxSignature = txSig\<rparr>\<rparr>
            else st)
         else st\<lparr>fs_manager := settle iter phase raw (fs_manager st)\<rparr>)"

definition applyPendingLifecycle ::
  "(deltas \<Rightarrow> deltas) \<Rightarrow> string \<Rightarrow> PendingTerminal \<Rightarrow> FundsState \<Rightarrow> FundsState" where
  "applyPendingLifecycle iter k pt st =
     (case pt_Phase pt of
        Submitted \<Rightarrow> st\<lparr>fs_inflight := snd (snd (AdvanceToSubmitted (fs_inflight st) k (pt_TxSignature pt)))\<rparr>
      | Confirmed \<Rightarrow> applyTerminal iter k Confirmed (pt_TxSignature pt) st
      | Failed \<Rightarrow> applyTerminal iter k Failed (pt_TxSignature pt) st
      | PendingApplied \<Rightarrow> st)"

definition handleMatchBatchMessage :: "(deltas \<Rightarrow> deltas) \<Rightarrow> FundsMsg \<Rightarrow> FundsState \<Rightarrow> handled" where
  "handleMatchBatchMessage iter msg st =
     (case fm_Batch msg of
        None \<Rightarrow> (st, Term, [])
      | Some ev \<Rightarrow>
          (let k = TrimSpace (EventID ev) in
           if k = [] then (st, Term, [])
           else if Inflight_Get (fs_inflight st) k \<noteq> None then (ack msg st, Ack, [])
           else let entry = \<lparr>if_MatchEventID = k, if_MarketID = ev_MarketID ev, if_MarketPDA = ev_MarketPDA ev,
                      if_Wallets = collectMatchBatchWallets ev, if_Phase = PendingApplied,
                      if_LastEventSeq = (case fm_Seq msg of None \<Rightarrow> 0 | Some s \<Rightarrow> s),
                      if_SubmittedTxSignature = [], if_RawMatchEvent = Some ev\<rparr>;
                    (registered, s) = Register (fs_inflight st) entry
                in if \<not> registered then (ack msg st, Ack, [])
                   else let st = st\<lparr>fs_inflight := s, fs_manager := applyBatch ev (fs_manager st)\<rparr>;
                            (pt, s) = TakePendingTerminal (fs_inflight st) k;
                            st = st\<lparr>fs_inflight := s\<rparr>;
                            st = (case pt of None \<Rightarrow> st | Some pt \<Rightarrow> applyPendingLifecycle iter k pt st)
                        in (ack msg st, Ack, [])))"

definition handleSettlementSubmittedMessage :: "FundsMsg \<Rightarrow> FundsState \<Rightarrow> handled" where
  "handleSettlementSubmittedMessage msg st =
     (case fm_Settlement msg of
        None \<Rightarrow> (st, Term, [])
      | Some ev \<Rightarrow>
          (let k = TrimSpace (se_MatchEventID ev) in
           if k = [] then (st, Term, [])
           else if Inflight_Get (fs_inflight st) k = None then
             (ack msg (st\<lparr>fs_inflight := AddPendingTerminal (fs_inflight st)
                \<lparr>pt_MatchEventID = k, pt_Phase = Submitted, pt_TxSignature = se_TxSignature ev\<rparr>\<rparr>), Ack, [])
           else (ack msg (st\<lparr>fs_inflight := snd (snd (AdvanceToSubmitted (fs_inflight st) k (se_TxSignature ev)))\<rparr>),
                 Ack, [])))"

definition handleTerminalMessage :: "(deltas \<Rightarrow> deltas) \<Rightarrow> Phase \<Rightarrow> FundsMsg \<Rightarrow> FundsState \<Rightarrow> handled" where
  "handleTerminalMessage iter phase msg st =
     (case fm_Settlement msg of
        None \<Rightarrow> (st, Term, [])
      | Some ev \<Rightarrow>
          (let k = TrimSpace (se_MatchEventID ev) in
           if k = [] then (st, Term, [])
           else (ack msg (applyTerminal iter k phase (se_TxSignature ev) st), Ack, [])))"

definition handleSettlementConfirmedMessage :: "(deltas \<Rightarrow> deltas) \<Rightarrow> FundsMsg \<Rightarrow> FundsState \<Rightarrow> handled" where
  "handleSettlementConfirmedMessage iter = handleTerminalMessage iter Confirmed"

definition handleSettlementFailedMessage :: "(deltas \<Rightarrow> deltas) \<Rightarrow> FundsMsg \<Rightarrow> FundsState \<Rightarrow> handled" where
  "handleSettlementFailedMessage iter = handleTerminalMessage iter Failed"

section \<open>Releases, deposits, withdrawals\<close>

definition handleOrderReleasedMessage :: "FundsMsg \<Rightarrow> FundsState \<Rightarrow> handled" where
  "handleOrderReleasedMessage msg st =
     (case fm_Released msg of
        None \<Rightarrow> (st, Term, [])
      | Some ev \<Rightarrow>
          if rl_OrderID ev = 0 \<or> TrimSpace (rl_WalletAddress ev) = [] then (ack msg st, Ack, [])
          else let ord = \<lparr>a_WalletAddress = rl_WalletAddress ev, a_MarketID = rl_MarketID ev,
                     a_MarketPDA = rl_MarketPDA ev, a_OriginalAction = mapAction (rl_OriginalAction ev),
                     a_OriginalOutcome = mapOutcome (rl_OriginalOutcome ev),
                     a_OriginalPriceTick = rl_OriginalPriceTick ev, a_OrderType = mapOrderType (rl_OrderType ev),
                     a_RemainingQty = rl_RemainingQtyLots ev, a_RemainingSpend = rl_RefundAmount ev\<rparr>
               in (ack msg (st\<lparr>fs_manager := ReleaseLocked (fs_manager st) ord (rl_RefundAmount ev)\<rparr>), Ack, []))"

definition creditDeposit :: "TransferConfirmedEvent \<Rightarrow> Manager \<Rightarrow> Manager" where
  "creditDeposit ev m = ApplyDepositConfirmed m (TrimSpace (tc_WalletAddress ev)) (tc_AmountUnits ev)"

definition debitWithdraw :: "TransferConfirmedEvent \<Rightarrow> Manager \<Rightarrow> Manager" where
  "debitWithdraw ev m = ApplyWithdrawConfirmed m (TrimSpace (tc_WalletAddress ev)) (tc_AmountUnits ev)"

definition handleDepositConfirmedMessage :: "FundsMsg \<Rightarrow> FundsState \<Rightarrow> handled" where
  "handleDepositConfirmedMessage msg st =
     (case fm_Transfer msg of
        None \<Rightarrow> (st, Term, [])
      | Some ev \<Rightarrow>
          (let signature = TrimSpace (tc_Signature ev) in
           if signature = [] then (st, Term, [])
           else if DepositStore_Has (fs_deposits st) signature then (ack msg st, Ack, [])
           else (ack msg (st\<lparr>fs_manager := creditDeposit ev (fs_manager st),
                             fs_deposits := DepositStore_Mark (fs_deposits st) signature\<rparr>), Ack, [])))"

definition handleWithdrawConfirmedMessage :: "FundsMsg \<Rightarrow> FundsState \<Rightarrow> handled" where
  "handleWithdrawConfirmedMessage msg st =
     (case fm_Transfer msg of
        None \<Rightarrow> (st, Term, [])
      | Some ev \<Rightarrow>
          (let signature = TrimSpace (tc_Signature ev) in
           if signature = [] then (st, Term, [])
           else if WithdrawalStore_Has (fs_withdrawals st) signature then (ack msg st, Ack, [])
           else (ack msg (st\<lparr>fs_manager := debitWithdraw ev (fs_manager st),
                             fs_withdrawals := WithdrawalStore_Mark (fs_withdrawals st) signature\<rparr>), Ack, [])))"

section \<open>Dispatch\<close>

definition dispatchMessage :: "(deltas \<Rightarrow> deltas) \<Rightarrow> FundsMsg \<Rightarrow> FundsState \<Rightarrow> handled" where
  "dispatchMessage iter msg st =
     (let subj = fm_Subject msg in
      if HasPrefix subj SubjectOrderSubmit then handleSubmitMessage msg st
      else if HasPrefix subj SubjectOrderReserved then handleReservedMessage msg st
      else if HasPrefix subj SubjectOrderReserveRejected then handleReserveRejectedMessage msg st
      else if HasPrefix subj SubjectMatchExecution then handleMatchBatchMessage iter msg st
      else if HasPrefix subj SubjectOrderReleased then handleOrderReleasedMessage msg st
      else if HasPrefix subj SubjectSettlementSubmitted then handleSettlementSubmittedMessage msg st
      else if HasPrefix subj SubjectSettlementConfirmed then handleSettlementConfirmedMessage iter msg st
      else if HasPrefix subj SubjectSettlementFailed then handleSettlementFailedMessage iter msg st
      else if HasPrefix subj SubjectDepositConfirmed then handleDepositConfirmedMessage msg st
      else if HasPrefix subj SubjectWithdrawConfirmed then handleWithdrawConfirmedMessage msg st
      else (ack msg st, Ack, []))"

end
