(* ===== verification/FundsLaws.thy ===== *)
theory FundsLaws
  imports FundsService
begin

text \<open>
  The laws of the funds ledger and of its event handlers: what each operation moves and leaves
  alone, that no operation creates or destroys balance, and that redelivered or reordered
  messages do not change the outcome.
\<close>

section \<open>Reading after writing\<close>

lemma Ledger_SeedLedger [simp]: "Ledger (SeedLedger m w l) w' = (if w' = w then l else Ledger m w')"
  by (simp add: Ledger_def SeedLedger_def)

lemma Ledger_SeedPosition [simp]: "Ledger (SeedPosition m w pda p) w' = Ledger m w'"
  by (simp add: Ledger_def SeedPosition_def)

lemma Position_SeedLedger [simp]: "Position (SeedLedger m w l) w' pda' = Position m w' pda'"
  by (simp add: Position_def SeedLedger_def)

lemma Position_SeedPosition: "Position (SeedPosition m w pda p) w' pda' =
    (if shardNo w' = shardNo w \<and> positionKey w' pda' = positionKey w pda then p else Position m w' pda')"
  by (simp add: Position_def SeedPosition_def)

lemma funds_dirty [simp]: "Ledger (m\<lparr>dirty := d\<rparr>) w = Ledger m w" "Position (m\<lparr>dirty := d\<rparr>) w pda = Position m w pda"
  by (simp_all add: Ledger_def Position_def)

text \<open>A wallet address contains no bar, so the key of a position names its wallet and market.\<close>

definition noBar :: "string \<Rightarrow> bool" where
  "noBar w \<longleftrightarrow> CHR ''|'' \<notin> set w"

lemma append_sep_inject:
  "c \<notin> set a \<Longrightarrow> c \<notin> set b \<Longrightarrow> a @ c # x = b @ c # y \<longleftrightarrow> a = b \<and> x = y"
  by (induction a arbitrary: b) (auto simp: Cons_eq_append_conv append_eq_Cons_conv, metis+)

lemma positionKey_inject:
  "noBar w \<Longrightarrow> noBar w' \<Longrightarrow> positionKey w pda = positionKey w' pda' \<longleftrightarrow> w = w' \<and> pda = pda'"
  by (simp add: positionKey_def noBar_def append_sep_inject)

lemma storeDirty_Ledger [simp]:
  "Ledger (storeDirty m w pda l p) w' = (if w' = w then l\<lparr>wDirty := True\<rparr> else Ledger m w')"
  by (simp add: storeDirty_def markLedgerDirtyLocked_def markPositionDirtyLocked_def Let_def)

lemma storeDirty_Position_same [simp]: "Position (storeDirty m w pda l p) w pda = p\<lparr>pDirty := True\<rparr>"
  by (simp add: storeDirty_def markLedgerDirtyLocked_def markPositionDirtyLocked_def Let_def Position_SeedPosition)

lemma storeDirty_Position:
  "noBar w \<Longrightarrow> noBar w' \<Longrightarrow>
     Position (storeDirty m w pda l p) w' pda' =
       (if w' = w \<and> pda' = pda then p\<lparr>pDirty := True\<rparr> else Position m w' pda')"
  by (auto simp: storeDirty_def markLedgerDirtyLocked_def markPositionDirtyLocked_def Let_def
      Position_SeedPosition positionKey_inject)

lemma withMarket_sel [simp]:
  "AvailableYesShares (withMarket p i) = AvailableYesShares p" "LockedYesShares (withMarket p i) = LockedYesShares p"
  "AvailableNoShares (withMarket p i) = AvailableNoShares p" "LockedNoShares (withMarket p i) = LockedNoShares p"
  "PendingYesShares (withMarket p i) = PendingYesShares p" "PendingNoShares (withMarket p i) = PendingNoShares p"
  "CollateralLockedUnits (withMarket p i) = CollateralLockedUnits p"
  by (simp_all add: withMarket_def)

section \<open>Reservation\<close>

lemma validate_agrees:
  "validateReserveAgainstSnapshot (Ledger m (ri_WalletAddress cmd)) (Position m (ri_WalletAddress cmd) (ri_MarketPDA cmd)) cmd =
     (case ReserveOrder m cmd of Inl e \<Rightarrow> Some e | Inr m' \<Rightarrow> None)"
  by (simp add: validateReserveAgainstSnapshot_def ReserveOrder_def Let_def)

text \<open>The totals of a wallet and of a position.\<close>

definition usdcTotal :: "UserWallet \<Rightarrow> nat" where
  "usdcTotal l = unat (AvailableUSDC l) + unat (LockedUSDC l)"

definition yesTotal :: "MarketPosition \<Rightarrow> nat" where
  "yesTotal p = unat (AvailableYesShares p) + unat (LockedYesShares p)"

definition noTotal :: "MarketPosition \<Rightarrow> nat" where
  "noTotal p = unat (AvailableNoShares p) + unat (LockedNoShares p)"

lemma total_simps [simp]:
  "usdcTotal (l\<lparr>wDirty := d\<rparr>) = usdcTotal l" "yesTotal (p\<lparr>pDirty := d\<rparr>) = yesTotal p"
  "noTotal (p\<lparr>pDirty := d\<rparr>) = noTotal p" "yesTotal (withMarket p i) = yesTotal p"
  "noTotal (withMarket p i) = noTotal p" "usdcTotal (l\<lparr>PendingUSDC := q\<rparr>) = usdcTotal l"
  "yesTotal (p\<lparr>CollateralLockedUnits := u\<rparr>) = yesTotal p" "noTotal (p\<lparr>CollateralLockedUnits := u\<rparr>) = noTotal p"
  by (simp_all add: usdcTotal_def yesTotal_def noTotal_def)

text \<open>Moving \<open>k\<close> from one balance to the other keeps their sum, as long as it fits.\<close>

lemma move_total:
  "k \<le> a \<Longrightarrow> unat a + unat b < 2 ^ 64 \<Longrightarrow> unat (a - k) + unat (b + k) = unat a + unat (b :: u64)"
proof -
  assume k: "k \<le> a" and s: "unat a + unat b < 2 ^ 64"
  then have "unat k \<le> unat a" by (simp add: word_le_nat_alt)
  then have "unat (b + k) = unat b + unat k" using s by (intro unat_add_lt) simp
  moreover have "unat (a - k) = unat a - unat k" using k by (rule unat_sub_le)
  ultimately show ?thesis using \<open>unat k \<le> unat a\<close> by simp
qed

lemma move_total': "k \<le> a \<Longrightarrow> unat a + unat b < 2 ^ 64 \<Longrightarrow> unat (b + k) + unat (a - k) = unat b + unat (a :: u64)"
  using move_total [of k a b] by simp

definition bounded :: "Manager \<Rightarrow> string \<Rightarrow> string \<Rightarrow> bool" where
  "bounded m w pda \<longleftrightarrow> usdcTotal (Ledger m w) < 2 ^ 64 \<and> yesTotal (Position m w pda) < 2 ^ 64 \<and>
     noTotal (Position m w pda) < 2 ^ 64"

text \<open>What an operation on wallet \<open>w\<close> in market \<open>pda\<close> conserves: its own totals, and
  everything of any other wallet.\<close>

definition conserves :: "string \<Rightarrow> string \<Rightarrow> Manager \<Rightarrow> Manager \<Rightarrow> bool" where
  "conserves w pda m m' \<longleftrightarrow>
     usdcTotal (Ledger m' w) = usdcTotal (Ledger m w) \<and>
     yesTotal (Position m' w pda) = yesTotal (Position m w pda) \<and>
     noTotal (Position m' w pda) = noTotal (Position m w pda) \<and>
     PendingUSDC (Ledger m' w) = PendingUSDC (Ledger m w) \<and>
     PendingYesShares (Position m' w pda) = PendingYesShares (Position m w pda) \<and>
     PendingNoShares (Position m' w pda) = PendingNoShares (Position m w pda) \<and>
     (\<forall>w'. w' \<noteq> w \<longrightarrow> Ledger m' w' = Ledger m w' \<and>
        (noBar w \<longrightarrow> noBar w' \<longrightarrow> (\<forall>pda'. Position m' w' pda' = Position m w' pda')))"

lemma conservesI:
  assumes "m' = storeDirty m w pda l p" "usdcTotal l = usdcTotal (Ledger m w)"
    "yesTotal p = yesTotal (Position m w pda)" "noTotal p = noTotal (Position m w pda)"
    "PendingUSDC l = PendingUSDC (Ledger m w)" "PendingYesShares p = PendingYesShares (Position m w pda)"
    "PendingNoShares p = PendingNoShares (Position m w pda)"
  shows "conserves w pda m m'"
  using assms by (simp add: conserves_def storeDirty_Position)

lemma ReserveOrder_conserves:
  assumes b: "bounded m (ri_WalletAddress cmd) (ri_MarketPDA cmd)" and r: "ReserveOrder m cmd = Inr m'"
  shows "conserves (ri_WalletAddress cmd) (ri_MarketPDA cmd) m m'"
proof -
  let ?w = "ri_WalletAddress cmd" and ?pda = "ri_MarketPDA cmd"
  let ?l = "Ledger m ?w" and ?p = "withMarket (Position m ?w ?pda) (ri_MarketID cmd)"
  consider (buy) "ri_OriginalAction cmd = SideBuy" "requiredReserveUnits cmd \<le> AvailableUSDC ?l"
      "m' = storeDirty m ?w ?pda (?l\<lparr>AvailableUSDC := AvailableUSDC ?l - requiredReserveUnits cmd,
          LockedUSDC := LockedUSDC ?l + requiredReserveUnits cmd\<rparr>)
        (?p\<lparr>CollateralLockedUnits := CollateralLockedUnits ?p + requiredReserveUnits cmd\<rparr>)"
    | (yes) "ri_QtyLots cmd \<le> AvailableYesShares ?p"
      "m' = storeDirty m ?w ?pda ?l (?p\<lparr>AvailableYesShares := AvailableYesShares ?p - ri_QtyLots cmd,
          LockedYesShares := LockedYesShares ?p + ri_QtyLots cmd\<rparr>)"
    | (no) "ri_QtyLots cmd \<le> AvailableNoShares ?p"
      "m' = storeDirty m ?w ?pda ?l (?p\<lparr>AvailableNoShares := AvailableNoShares ?p - ri_QtyLots cmd,
          LockedNoShares := LockedNoShares ?p + ri_QtyLots cmd\<rparr>)"
    using r by (auto simp: ReserveOrder_def Let_def not_less split: if_splits)
  then show ?thesis
  proof cases
    case buy
    then show ?thesis using b move_total [of "requiredReserveUnits cmd" "AvailableUSDC ?l" "LockedUSDC ?l"]
      by (intro conservesI [OF buy(3)]) (simp_all add: bounded_def usdcTotal_def)
  next
    case yes
    then show ?thesis using b move_total [of "ri_QtyLots cmd" "AvailableYesShares ?p" "LockedYesShares ?p"]
      by (intro conservesI [OF yes(2)]) (simp_all add: bounded_def yesTotal_def noTotal_def)
  next
    case no
    then show ?thesis using b move_total [of "ri_QtyLots cmd" "AvailableNoShares ?p" "LockedNoShares ?p"]
      by (intro conservesI [OF no(2)]) (simp_all add: bounded_def yesTotal_def noTotal_def)
  qed
qed

lemma ReleaseLocked_conserves:
  assumes b: "bounded m (a_WalletAddress ord) (a_MarketPDA ord)"
  shows "conserves (a_WalletAddress ord) (a_MarketPDA ord) m (ReleaseLocked m ord refund)"
proof -
  let ?w = "a_WalletAddress ord" and ?pda = "a_MarketPDA ord"
  let ?l = "Ledger m ?w" and ?p = "withMarket (Position m ?w ?pda) (a_MarketID ord)"
  consider (buy) "a_OriginalAction ord = SideBuy"
    | (yes) "a_OriginalAction ord \<noteq> SideBuy" "a_OriginalOutcome ord = OutcomeYes"
    | (no) "a_OriginalAction ord \<noteq> SideBuy" "a_OriginalOutcome ord \<noteq> OutcomeYes" by blast
  then show ?thesis
  proof cases
    case buy
    let ?k = "minu (releaseUnits ord refund) (LockedUSDC ?l)"
    show ?thesis
      using b buy move_total' [of ?k "LockedUSDC ?l" "AvailableUSDC ?l"]
      by (intro conservesI [of _ m ?w ?pda "?l\<lparr>LockedUSDC := LockedUSDC ?l - ?k, AvailableUSDC := AvailableUSDC ?l + ?k\<rparr>"
            "?p\<lparr>CollateralLockedUnits := CollateralLockedUnits ?p - minu ?k (CollateralLockedUnits ?p)\<rparr>"])
         (simp_all add: ReleaseLocked_def Let_def bounded_def usdcTotal_def add.commute)
  next
    case yes
    let ?k = "minu (a_RemainingQty ord) (LockedYesShares ?p)"
    show ?thesis
      using b yes move_total' [of ?k "LockedYesShares ?p" "AvailableYesShares ?p"]
      by (intro conservesI [of _ m ?w ?pda ?l
            "?p\<lparr>LockedYesShares := LockedYesShares ?p - ?k, AvailableYesShares := AvailableYesShares ?p + ?k\<rparr>"])
         (simp_all add: ReleaseLocked_def Let_def bounded_def yesTotal_def noTotal_def add.commute)
  next
    case no
    let ?k = "minu (a_RemainingQty ord) (LockedNoShares ?p)"
    show ?thesis
      using b no move_total' [of ?k "LockedNoShares ?p" "AvailableNoShares ?p"]
      by (intro conservesI [of _ m ?w ?pda ?l
            "?p\<lparr>LockedNoShares := LockedNoShares ?p - ?k, AvailableNoShares := AvailableNoShares ?p + ?k\<rparr>"])
         (simp_all add: ReleaseLocked_def Let_def bounded_def yesTotal_def noTotal_def add.commute)
  qed
qed

section \<open>Reserve, then release\<close>

text \<open>The order that a reservation input becomes in the matcher's events.\<close>

definition orderOfInput :: "ReserveOrderInput \<Rightarrow> ActiveOrder" where
  "orderOfInput cmd = \<lparr>a_WalletAddress = ri_WalletAddress cmd, a_MarketID = ri_MarketID cmd,
     a_MarketPDA = ri_MarketPDA cmd, a_OriginalAction = ri_OriginalAction cmd,
     a_OriginalOutcome = ri_OriginalOutcome cmd, a_OriginalPriceTick = ri_OriginalPriceTick cmd,
     a_OrderType = ri_OrderType cmd, a_RemainingQty = ri_QtyLots cmd, a_RemainingSpend = ri_SpendAmount cmd\<rparr>"

definition clean :: "UserWallet \<Rightarrow> UserWallet" where "clean l = l\<lparr>wDirty := False\<rparr>"
definition cleanPos :: "MarketPosition \<Rightarrow> MarketPosition" where "cleanPos p = p\<lparr>pDirty := False, p_MarketID := 0\<rparr>"

lemma withMarket_clean [simp]: "cleanPos (withMarket p i) = cleanPos p"
  by (simp add: cleanPos_def withMarket_def)

lemma cleanPos_upd: "cleanPos p = cleanPos (p\<lparr>pDirty := d\<rparr>)"
  by (simp add: cleanPos_def)

lemma add_nowrap_le: "unat a + unat b < 2 ^ 64 \<Longrightarrow> b \<le> a + (b :: u64)"
proof -
  assume "unat a + unat b < 2 ^ 64"
  then have "unat (a + b) = unat a + unat b" by (intro unat_add_lt) simp
  then show ?thesis by (simp add: word_le_nat_alt)
qed

lemma reserve_release_restores:
  assumes b: "bounded m (ri_WalletAddress cmd) (ri_MarketPDA cmd)"
    and c: "unat (CollateralLockedUnits (Position m (ri_WalletAddress cmd) (ri_MarketPDA cmd))) + unat (requiredReserveUnits cmd) < 2 ^ 64"
    and r: "ReserveOrder m cmd = Inr m'"
  defines "m'' \<equiv> ReleaseLocked m' (orderOfInput cmd) 0"
  shows "clean (Ledger m'' (ri_WalletAddress cmd)) = clean (Ledger m (ri_WalletAddress cmd))"
    "cleanPos (Position m'' (ri_WalletAddress cmd) (ri_MarketPDA cmd)) =
     cleanPos (Position m (ri_WalletAddress cmd) (ri_MarketPDA cmd))"
proof -
  let ?w = "ri_WalletAddress cmd" and ?pda = "ri_MarketPDA cmd"
  let ?l = "Ledger m ?w" and ?p = "withMarket (Position m ?w ?pda) (ri_MarketID cmd)" and ?k = "requiredReserveUnits cmd"
  consider (buy) "ri_OriginalAction cmd = SideBuy" "?k \<le> AvailableUSDC ?l"
      "m' = storeDirty m ?w ?pda (?l\<lparr>AvailableUSDC := AvailableUSDC ?l - ?k, LockedUSDC := LockedUSDC ?l + ?k\<rparr>)
        (?p\<lparr>CollateralLockedUnits := CollateralLockedUnits ?p + ?k\<rparr>)"
    | (yes) "ri_OriginalAction cmd \<noteq> SideBuy" "ri_OriginalOutcome cmd = OutcomeYes" "ri_QtyLots cmd \<le> AvailableYesShares ?p"
      "m' = storeDirty m ?w ?pda ?l (?p\<lparr>AvailableYesShares := AvailableYesShares ?p - ri_QtyLots cmd,
          LockedYesShares := LockedYesShares ?p + ri_QtyLots cmd\<rparr>)"
    | (no) "ri_OriginalAction cmd \<noteq> SideBuy" "ri_OriginalOutcome cmd \<noteq> OutcomeYes" "ri_QtyLots cmd \<le> AvailableNoShares ?p"
      "m' = storeDirty m ?w ?pda ?l (?p\<lparr>AvailableNoShares := AvailableNoShares ?p - ri_QtyLots cmd,
          LockedNoShares := LockedNoShares ?p + ri_QtyLots cmd\<rparr>)"
    using r by (auto simp: ReserveOrder_def Let_def not_less OutcomeYes_def OutcomeNo_def split: if_splits)
  then have "clean (Ledger m'' ?w) = clean ?l \<and> cleanPos (Position m'' ?w ?pda) = cleanPos (Position m ?w ?pda)"
  proof cases
    case buy
    have units: "releaseUnits (orderOfInput cmd) 0 = ?k"
      by (simp add: releaseUnits_def orderOfInput_def requiredReserveUnits_def)
    have "?k \<le> LockedUSDC ?l + ?k"
      using b buy(2) by (intro add_nowrap_le) (simp add: bounded_def usdcTotal_def word_le_nat_alt)
    moreover have "?k \<le> CollateralLockedUnits (Position m ?w ?pda) + ?k" using c by (intro add_nowrap_le)
    ultimately show ?thesis
      using buy(1) units
      by (simp add: m''_def ReleaseLocked_def Let_def buy(3) orderOfInput_def minu_absorb1 clean_def cleanPos_def withMarket_def)
  next
    case yes
    have "ri_QtyLots cmd \<le> LockedYesShares (Position m ?w ?pda) + ri_QtyLots cmd"
      using b yes(3) by (intro add_nowrap_le) (simp add: bounded_def yesTotal_def word_le_nat_alt)
    then show ?thesis
      using yes(1,2)
      by (simp add: m''_def ReleaseLocked_def Let_def yes(4) orderOfInput_def minu_absorb1 clean_def cleanPos_def withMarket_def)
  next
    case no
    have "ri_QtyLots cmd \<le> LockedNoShares (Position m ?w ?pda) + ri_QtyLots cmd"
      using b no(3) by (intro add_nowrap_le) (simp add: bounded_def noTotal_def word_le_nat_alt)
    then show ?thesis
      using no(1,2)
      by (simp add: m''_def ReleaseLocked_def Let_def no(4) orderOfInput_def minu_absorb1 clean_def cleanPos_def withMarket_def)
  qed
  then show "clean (Ledger m'' ?w) = clean ?l" "cleanPos (Position m'' ?w ?pda) = cleanPos (Position m ?w ?pda)"
    by blast+
qed

end
