(* ===== verification/FundsRuns.thy ===== *)
theory FundsRuns
  imports FundsLaws
begin

text \<open>
  Runs of the funds service: what any sequence of dispatched messages does to the lifecycle of
  a match batch, and the consequences for redelivered and reordered messages.
\<close>

lemma ack_sel [simp]:
  "fs_manager (ack msg st) = fs_manager st" "fs_inflight (ack msg st) = fs_inflight st"
  "fs_pending (ack msg st) = fs_pending st" "fs_submits (ack msg st) = fs_submits st"
  "fs_deposits (ack msg st) = fs_deposits st" "fs_withdrawals (ack msg st) = fs_withdrawals st"
  by (simp_all add: ack_def split: option.split)

lemma step_sel [simp]:
  "fs_inflight (markPending i k st) = fs_inflight st" "fs_inflight (deletePending k st) = fs_inflight st"
  "fs_inflight (markSubmitted k st) = fs_inflight st"
  "fs_manager (markPending i k st) = fs_manager st" "fs_manager (deletePending k st) = fs_manager st"
  "fs_manager (markSubmitted k st) = fs_manager st"
  "fs_deposits (markPending i k st) = fs_deposits st" "fs_deposits (deletePending k st) = fs_deposits st"
  "fs_deposits (markSubmitted k st) = fs_deposits st"
  by (simp_all add: markPending_def deletePending_def markSubmitted_def)

section \<open>Every message is a run of store operations\<close>

definition store_run :: "InflightStore \<Rightarrow> InflightStore \<Rightarrow> bool" where
  "store_run s s' \<longleftrightarrow> (\<exists>ops. (\<forall>op \<in> set ops. keeps op \<and> op_ok op) \<and> s' = fold run_op ops s)"

lemma store_run_refl [simp]: "store_run s s"
  unfolding store_run_def by (rule exI [of _ "[]"]) simp

lemma store_run_trans: "store_run s s' \<Longrightarrow> store_run s' s'' \<Longrightarrow> store_run s s''"
proof -
  assume "store_run s s'" "store_run s' s''"
  then obtain ops ops' where "\<forall>op \<in> set ops. keeps op \<and> op_ok op" "s' = fold run_op ops s"
    "\<forall>op \<in> set ops'. keeps op \<and> op_ok op" "s'' = fold run_op ops' s'"
    unfolding store_run_def by blast
  then show ?thesis unfolding store_run_def by (intro exI [of _ "ops @ ops'"]) auto
qed

lemma store_run_op: "keeps op \<Longrightarrow> op_ok op \<Longrightarrow> store_run s (run_op op s)"
  unfolding store_run_def by (rule exI [of _ "[op]"]) simp

lemma store_run_ops [simp]:
  "store_run s (snd (Register s e))" "store_run s (snd (snd (AdvanceToSubmitted s k sig)))"
  "store_run s (AddPendingTerminal s pt)" "store_run s (snd (TakePendingTerminal s k))"
  "terminal_phase ph \<Longrightarrow> store_run s (snd (snd (snd (AdvanceToTerminal s k ph))))"
  using store_run_op [of "OpRegister e" s] store_run_op [of "OpSubmitted k sig" s]
    store_run_op [of "OpAddPending pt" s] store_run_op [of "OpTakePending k" s]
    store_run_op [of "OpTerminal k ph" s] by auto

lemma store_run_terminal:
  "store_run s s' \<Longrightarrow> phaseAt s k = Some p \<Longrightarrow> terminal_phase p \<Longrightarrow> phaseAt s' k = Some p"
  unfolding store_run_def using run_ops_terminal_stays by blast

lemma store_run_known:
  assumes "store_run s s'" "phaseAt s k \<noteq> None"
  shows "phaseAt s' k \<noteq> None"
proof -
  have "phaseAt (fold run_op ops s) k \<noteq> None" if "\<forall>op \<in> set ops. keeps op \<and> op_ok op" "phaseAt s k \<noteq> None" for ops s
    using that
  proof (induction ops arbitrary: s)
    case (Cons op ops)
    obtain p where p: "phaseAt s k = Some p" using Cons.prems(2) by auto
    have op: "keeps op" "op_ok op" using Cons.prems(1) by auto
    have "phaseAt (run_op op s) k \<noteq> None"
      using run_op_phase [OF op(2) p] run_op_terminal_stays [OF op(1) p] by auto
    then show ?case using Cons by auto
  qed simp
  with assms show ?thesis unfolding store_run_def by blast
qed

lemma terminal_phases [simp]: "terminal_phase Confirmed" "terminal_phase Failed"
  "\<not> terminal_phase PendingApplied" "\<not> terminal_phase Submitted"
  by (simp_all add: terminal_phase_def)

lemma applyTerminal_run:
  assumes "terminal_phase ph"
  shows "store_run (fs_inflight st) (fs_inflight (applyTerminal iter k ph sig st))"
proof -
  obtain raw tr cf s where a: "AdvanceToTerminal (fs_inflight st) k ph = (raw, tr, cf, s)" by (metis prod_cases4)
  have s: "store_run (fs_inflight st) s" using store_run_ops(5) [OF assms, of "fs_inflight st" k] a by simp
  then show ?thesis
    by (auto simp: applyTerminal_def a Let_def intro: store_run_trans [OF s])
qed

lemma applyPendingLifecycle_run:
  "store_run (fs_inflight st) (fs_inflight (applyPendingLifecycle iter k pt st))"
  by (cases "pt_Phase pt") (simp_all add: applyPendingLifecycle_def applyTerminal_run)

lemma handleMatchBatch_run:
  "store_run (fs_inflight st) (fs_inflight (fst (handleMatchBatchMessage iter msg st)))"
proof (cases "fm_Batch msg")
  case (Some ev)
  let ?k = "TrimSpace (EventID ev)"
  show ?thesis
  proof (cases "?k = [] \<or> Inflight_Get (fs_inflight st) ?k \<noteq> None")
    case True
    then show ?thesis using Some by (auto simp: handleMatchBatchMessage_def Let_def)
  next
    case False
    let ?e = "\<lparr>if_MatchEventID = ?k, if_MarketID = ev_MarketID ev, if_MarketPDA = ev_MarketPDA ev,
                      if_Wallets = collectMatchBatchWallets ev, if_Phase = PendingApplied,
                      if_LastEventSeq = (case fm_Seq msg of None \<Rightarrow> 0 | Some s \<Rightarrow> s),
                      if_SubmittedTxSignature = [], if_RawMatchEvent = Some ev\<rparr>"
    obtain b s where r: "Register (fs_inflight st) ?e = (b, s)" by (meson surj_pair)
    have 1: "store_run (fs_inflight st) s" using store_run_ops(1) [of "fs_inflight st" ?e] r by simp
    obtain pt s2 where t: "TakePendingTerminal s ?k = (pt, s2)" by (meson surj_pair)
    have "store_run s s2" using store_run_ops(4) [of s ?k] t by simp
    with 1 have 2: "store_run (fs_inflight st) s2" by (rule store_run_trans)
    have 3: "store_run (fs_inflight st) (fs_inflight (applyPendingLifecycle iter ?k x
        (st\<lparr>fs_manager := applyBatch ev (fs_manager st), fs_inflight := s2\<rparr>)))" for x
      using store_run_trans [OF 2] applyPendingLifecycle_run
        [of "st\<lparr>fs_manager := applyBatch ev (fs_manager st), fs_inflight := s2\<rparr>"] by simp
    show ?thesis using Some False r t 2 3
      by (auto simp: handleMatchBatchMessage_def Let_def split: option.split)
  qed
qed (simp add: handleMatchBatchMessage_def)

lemma handlers_inflight [simp]:
  "fs_inflight (fst (handleSubmitMessage msg st)) = fs_inflight st"
  "fs_inflight (fst (handleReservedMessage msg st)) = fs_inflight st"
  "fs_inflight (fst (handleReserveRejectedMessage msg st)) = fs_inflight st"
  "fs_inflight (fst (handleOrderReleasedMessage msg st)) = fs_inflight st"
  "fs_inflight (fst (handleDepositConfirmedMessage msg st)) = fs_inflight st"
  "fs_inflight (fst (handleWithdrawConfirmedMessage msg st)) = fs_inflight st"
  by (simp_all add: handleSubmitMessage_def handleReservedMessage_def handleReserveRejectedMessage_def
      handleOrderReleasedMessage_def handleDepositConfirmedMessage_def handleWithdrawConfirmedMessage_def
      Let_def case_prod_beta split: option.split sum.split)

lemma handleSubmitted_run:
  "store_run (fs_inflight st) (fs_inflight (fst (handleSettlementSubmittedMessage msg st)))"
  by (simp add: handleSettlementSubmittedMessage_def Let_def split: option.split)

lemma handleTerminal_run:
  "terminal_phase ph \<Longrightarrow> store_run (fs_inflight st) (fs_inflight (fst (handleTerminalMessage iter ph msg st)))"
  by (simp add: handleTerminalMessage_def Let_def applyTerminal_run split: option.split)

lemma dispatch_run:
  "store_run (fs_inflight st) (fs_inflight (fst (dispatchMessage iter msg st)))"
  by (simp add: dispatchMessage_def Let_def handleSettlementConfirmedMessage_def
      handleSettlementFailedMessage_def handleMatchBatch_run handleSubmitted_run handleTerminal_run)

text \<open>The service on a sequence of messages.\<close>

definition runFunds :: "(deltas \<Rightarrow> deltas) \<Rightarrow> FundsMsg list \<Rightarrow> FundsState \<Rightarrow> FundsState" where
  "runFunds iter msgs st = fold (\<lambda>msg st. fst (dispatchMessage iter msg st)) msgs st"

lemma runFunds_run: "store_run (fs_inflight st) (fs_inflight (runFunds iter msgs st))"
  unfolding runFunds_def
proof (induction msgs arbitrary: st)
  case (Cons msg msgs)
  show ?case using store_run_trans [OF dispatch_run Cons.IH [of "fst (dispatchMessage iter msg st)"]] by simp
qed simp

section \<open>Redelivery\<close>

lemma known_batch_ignored:
  assumes "fm_Batch msg = Some ev" "phaseAt (fs_inflight st) (TrimSpace (EventID ev)) \<noteq> None"
  shows "fs_manager (fst (handleMatchBatchMessage iter msg st)) = fs_manager st"
  using assms by (auto simp: handleMatchBatchMessage_def Let_def Inflight_Get_def phaseAt_def)

lemma terminal_settlement_ignored:
  assumes "terminal_phase ph" "phaseAt (fs_inflight st) k = Some p" "terminal_phase p"
  shows "fs_manager (applyTerminal iter k ph sig st) = fs_manager st"
proof -
  obtain raw tr cf s where a: "AdvanceToTerminal (fs_inflight st) k ph = (raw, tr, cf, s)" by (metis prod_cases4)
  have "\<not> tr" using AdvanceToTerminal_transitioned [OF assms(1), of "fs_inflight st" k] assms a by auto
  then show ?thesis by (simp add: applyTerminal_def a Let_def)
qed

lemma applyTerminal_marks:
  assumes "terminal_phase ph" "phaseAt (fs_inflight st) k \<noteq> None"
  shows "\<exists>p. phaseAt (fs_inflight (applyTerminal iter k ph sig st)) k = Some p \<and> terminal_phase p"
proof -
  obtain p where p: "phaseAt (fs_inflight st) k = Some p" using assms(2) by auto
  obtain raw tr cf s where a: "AdvanceToTerminal (fs_inflight st) k ph = (raw, tr, cf, s)" by (metis prod_cases4)
  show ?thesis
  proof (cases "terminal_phase p")
    case True
    then show ?thesis using store_run_terminal [OF applyTerminal_run [OF assms(1)] p] by blast
  next
    case False
    then have "phaseAt s k = Some ph" using AdvanceToTerminal_phase [OF assms(1) p] a by simp
    moreover from this have "Inflight_Get s k \<noteq> None" by (auto simp: Inflight_Get_def phaseAt_def)
    ultimately show ?thesis using assms(1) by (auto simp: applyTerminal_def a Let_def)
  qed
qed

section \<open>Reordering\<close>

lemma batch_then_terminal:
  fixes iter :: "deltas \<Rightarrow> deltas"
  assumes ev: "fm_Batch b = Some ev" "k = TrimSpace (EventID ev)" "k \<noteq> []"
    and se: "fm_Settlement t = Some se" "TrimSpace (se_MatchEventID se) = k"
    and new: "if_entries (fs_inflight st) k = None" "pendingTerminal (fs_inflight st) k = None"
    and ph: "terminal_phase ph"
  defines "early \<equiv> fst (handleMatchBatchMessage iter b (fst (handleTerminalMessage iter ph t st)))"
    and "late \<equiv> fst (handleTerminalMessage iter ph t (fst (handleMatchBatchMessage iter b st)))"
  shows "fs_manager early = fs_manager late" "fs_inflight early = fs_inflight late"
proof -
  define s where "s = fs_inflight st"
  define e where "e = \<lparr>if_MatchEventID = k, if_MarketID = ev_MarketID ev, if_MarketPDA = ev_MarketPDA ev,
     if_Wallets = collectMatchBatchWallets ev, if_Phase = PendingApplied,
     if_LastEventSeq = (case fm_Seq b of None \<Rightarrow> 0 | Some s \<Rightarrow> s),
     if_SubmittedTxSignature = [], if_RawMatchEvent = Some ev\<rparr>"
  define m where "m = settle iter ph (Some ev) (applyBatch ev (fs_manager st))"
  have s: "if_entries s k = None" "pendingTerminal s k = None" using new by (simp_all add: s_def)
  have ph': "ph \<noteq> PendingApplied" "ph \<noteq> Submitted" using ph by (auto simp: terminal_phase_def)
  have pt: "(pendingTerminal s)(k := None) = pendingTerminal s" using s(2) by (simp add: fun_upd_idem)
  have L1: "fs_inflight (fst (handleMatchBatchMessage iter b st)) = s\<lparr>if_entries := (if_entries s)(k \<mapsto> e)\<rparr>"
    "fs_manager (fst (handleMatchBatchMessage iter b st)) = applyBatch ev (fs_manager st)"
    using ev s by (simp_all add: handleMatchBatchMessage_def Let_def Inflight_Get_def Register_def
        TakePendingTerminal_def e_def s_def)
  have "fs_manager late = m \<and> fs_inflight late = s\<lparr>if_entries := (if_entries s)(k \<mapsto> e\<lparr>if_Phase := ph\<rparr>)\<rparr>"
    using se ev ph' ph by (simp add: late_def handleTerminalMessage_def Let_def applyTerminal_def L1
        AdvanceToTerminal_def IsTerminal_def e_def m_def)
  moreover have "fs_manager early = m \<and> fs_inflight early = s\<lparr>if_entries := (if_entries s)(k \<mapsto> e\<lparr>if_Phase := ph\<rparr>)\<rparr>"
  proof -
    define st1 where "st1 = fst (handleTerminalMessage iter ph t st)"
    have k: "TrimSpace (EventID ev) = k" using ev(2) by simp
    have I: "fs_inflight st1 = s\<lparr>pendingTerminal := (pendingTerminal s)(k \<mapsto>
        \<lparr>pt_MatchEventID = k, pt_Phase = ph, pt_TxSignature = se_TxSignature se\<rparr>)\<rparr>"
      and M: "fs_manager st1 = fs_manager st"
      using se ev(3) s by (simp_all add: st1_def handleTerminalMessage_def Let_def applyTerminal_def
          AdvanceToTerminal_def AddPendingTerminal_def Inflight_Get_def s_def)
    have L: "applyPendingLifecycle iter k \<lparr>pt_MatchEventID = k, pt_Phase = ph, pt_TxSignature = se_TxSignature se\<rparr> st2 =
        applyTerminal iter k ph (se_TxSignature se) st2" for st2
      using ph by (auto simp: applyPendingLifecycle_def terminal_phase_def)
    show ?thesis
      using ev(1,3) s ph' pt unfolding early_def st1_def [symmetric]
      by (simp add: handleMatchBatchMessage_def Let_def Inflight_Get_def Register_def TakePendingTerminal_def
          L applyTerminal_def AdvanceToTerminal_def IsTerminal_def I M k e_def m_def)
  qed
  ultimately show "fs_manager early = fs_manager late" "fs_inflight early = fs_inflight late" by simp_all
qed

section \<open>Deposits\<close>

lemma handleDeposit_guarded:
  assumes "fm_Transfer msg = Some ev"
  shows "(fs_deposits (fst (handleDepositConfirmedMessage msg st)), fs_manager (fst (handleDepositConfirmedMessage msg st))) =
     guarded DepositStore_Has DepositStore_Mark creditDeposit (tc_Signature ev, ev) (fs_deposits st, fs_manager st)"
  using assms
  by (auto simp: handleDepositConfirmedMessage_def guarded_def Let_def DepositStore_Has_def DepositStore_Mark_def)

lemma handleWithdraw_guarded:
  assumes "fm_Transfer msg = Some ev"
  shows "(fs_withdrawals (fst (handleWithdrawConfirmedMessage msg st)), fs_manager (fst (handleWithdrawConfirmedMessage msg st))) =
     guarded WithdrawalStore_Has WithdrawalStore_Mark debitWithdraw (tc_Signature ev, ev) (fs_withdrawals st, fs_manager st)"
  using assms
  by (auto simp: handleWithdrawConfirmedMessage_def guarded_def Let_def WithdrawalStore_Has_def WithdrawalStore_Mark_def)

lemma handleDeposits_fold:
  assumes "\<forall>msg \<in> set msgs. fm_Transfer msg \<noteq> None"
  shows "fs_manager (fold (\<lambda>msg st. fst (handleDepositConfirmedMessage msg st)) msgs st) =
    fold creditDeposit (firsts (depositKeys (fs_deposits st))
      (map (\<lambda>msg. (tc_Signature (the (fm_Transfer msg)), the (fm_Transfer msg))) msgs)) (fs_manager st)"
proof -
  let ?f = "\<lambda>msg. (tc_Signature (the (fm_Transfer msg)), the (fm_Transfer msg))"
  have "(fs_deposits (fold (\<lambda>msg st. fst (handleDepositConfirmedMessage msg st)) msgs st),
         fs_manager (fold (\<lambda>msg st. fst (handleDepositConfirmedMessage msg st)) msgs st)) =
      fold (guarded DepositStore_Has DepositStore_Mark creditDeposit) (map ?f msgs) (fs_deposits st, fs_manager st)"
    using assms
  proof (induction msgs arbitrary: st)
    case (Cons msg msgs)
    from Cons.prems obtain ev where ev: "fm_Transfer msg = Some ev" by auto
    show ?case using Cons handleDeposit_guarded [OF ev, of st] ev by simp
  qed simp
  from arg_cong [OF this, of snd] show ?thesis by (simp only: snd_conv depositStore.guarded_run)
qed

end
