(* ===== verification/FundsSettle.thy ===== *)
theory FundsSettle
  imports FundsRuns
begin

text \<open>
  The life of a batch in the ledger: its fills charge each wallet, and the settlement outcome,
  recomputed from the same batch, confirms or takes back those charges.  \<open>charges\<close> is the list
  of the charges of one wallet; the state after the fills and the recomputed delta are both
  folds over it.
\<close>

section \<open>The charges of a wallet\<close>

type_synonym charge = "ExecutionSnapshot \<times> u64 \<times> u8"

definition chargesOf :: "MatchBatchEvent \<Rightarrow> string \<Rightarrow> MatchFill \<Rightarrow> charge list" where
  "chargesOf ev w f =
     (case (orderByIndex ev (f_MakerOrderIndex f), orderByIndex ev (f_TakerOrderIndex f)) of
        (Some a, Some b) \<Rightarrow> filter (\<lambda>(x, q, p). x_WalletAddress x = w)
          [(m_Execution a, f_FillAmount f, ucast (f_FillPrice f)), (m_Execution b, f_FillAmount f, ucast (f_FillPrice f))]
      | _ \<Rightarrow> [])"

definition charges :: "MatchBatchEvent \<Rightarrow> string \<Rightarrow> charge list" where
  "charges ev w = concat (map (chargesOf ev w) (Fills ev))"

text \<open>The body of \<open>applyFillForOrder\<close> on a wallet and a position.\<close>

definition fillFunds :: "ActiveOrder \<Rightarrow> u64 \<Rightarrow> u8 \<Rightarrow> UserWallet \<times> MarketPosition \<Rightarrow> UserWallet \<times> MarketPosition" where
  "fillFunds ord qty price lp =
     (let m = storeDirty NewManager (a_WalletAddress ord) (a_MarketPDA ord) (fst lp) (snd lp);
          m' = applyFillForOrder m ord qty price
      in (Ledger m' (a_WalletAddress ord), Position m' (a_WalletAddress ord) (a_MarketPDA ord)))"

lemma fillFunds_eq:
  "fillFunds ord qty price (l, p) =
     (let p = withMarket p (a_MarketID ord); actual = actualUnitsForActive ord qty price in
      if a_OriginalAction ord = SideBuy then
        (let k = (if a_OrderType ord = OrderTypeLimit
                  then minu (reserveUnitsForLots qty (a_OriginalPriceTick ord)) (LockedUSDC l)
                  else minu actual (LockedUSDC l));
             back = (if a_OrderType ord = OrderTypeLimit \<and> actual < k then k - actual else 0);
             l = l\<lparr>LockedUSDC := LockedUSDC l - k, AvailableUSDC := AvailableUSDC l + back, wDirty := True\<rparr>;
             p = p\<lparr>CollateralLockedUnits := CollateralLockedUnits p - minu k (CollateralLockedUnits p), pDirty := True\<rparr>
         in (l, if a_OriginalOutcome ord = OutcomeYes
                then p\<lparr>PendingYesShares := PendingYesShares p + qty\<rparr>
                else p\<lparr>PendingNoShares := PendingNoShares p + qty\<rparr>))
      else
        (l\<lparr>PendingUSDC := PendingUSDC l + actual, wDirty := True\<rparr>,
         if a_OriginalOutcome ord = OutcomeYes
         then p\<lparr>LockedYesShares := LockedYesShares p - minu qty (LockedYesShares p), pDirty := True\<rparr>
         else p\<lparr>LockedNoShares := LockedNoShares p - minu qty (LockedNoShares p), pDirty := True\<rparr>))"
  by (simp add: fillFunds_def applyFillForOrder_def Let_def withMarket_def)

lemma applyFillForOrder_store:
  "applyFillForOrder m ord qty price =
     (let (l, p) = fillFunds ord qty price (Ledger m (a_WalletAddress ord), Position m (a_WalletAddress ord) (a_MarketPDA ord))
      in storeDirty m (a_WalletAddress ord) (a_MarketPDA ord) l p)"
  by (simp add: applyFillForOrder_def fillFunds_eq Let_def storeDirty_def markLedgerDirtyLocked_def markPositionDirtyLocked_def)

lemma fillFunds_dirty [simp]:
  "(fst (fillFunds ord qty price lp))\<lparr>wDirty := True\<rparr> = fst (fillFunds ord qty price lp)"
  "(snd (fillFunds ord qty price lp))\<lparr>pDirty := True\<rparr> = snd (fillFunds ord qty price lp)"
  by (cases lp; simp add: fillFunds_eq Let_def)+

lemma applyFillForOrder_sel:
  assumes "noBar (a_WalletAddress ord)" "noBar w"
  shows "(Ledger (applyFillForOrder m ord qty price) w, Position (applyFillForOrder m ord qty price) w (a_MarketPDA ord)) =
     (if w = a_WalletAddress ord then fillFunds ord qty price else id) (Ledger m w, Position m w (a_MarketPDA ord))"
  using assms fillFunds_dirty [of ord qty price "(Ledger m (a_WalletAddress ord), Position m (a_WalletAddress ord) (a_MarketPDA ord))"]
  by (auto simp: applyFillForOrder_store storeDirty_Position case_prod_beta Let_def)

definition cleanWallets :: "MatchBatchEvent \<Rightarrow> bool" where
  "cleanWallets ev \<longleftrightarrow> (\<forall>o1 \<in> set (ev_Orders ev).
     TrimSpace (x_WalletAddress (m_Execution o1)) = x_WalletAddress (m_Execution o1) \<and>
     noBar (x_WalletAddress (m_Execution o1)))"

lemma orderByIndex_clean:
  assumes "cleanWallets ev" "orderByIndex ev i = Some o1"
  shows "TrimSpace (x_WalletAddress (m_Execution o1)) = x_WalletAddress (m_Execution o1)"
    "noBar (x_WalletAddress (m_Execution o1))"
proof -
  have "(i, o1) \<in> set (rev (map (\<lambda>o1. (m_OrderIndex o1, o1)) (ev_Orders ev)))"
    using assms(2) unfolding orderByIndex_def by (rule map_of_SomeD)
  then have "o1 \<in> set (ev_Orders ev)" by auto
  then show "TrimSpace (x_WalletAddress (m_Execution o1)) = x_WalletAddress (m_Execution o1)"
    "noBar (x_WalletAddress (m_Execution o1))"
    using assms(1) by (simp_all add: cleanWallets_def)
qed

text \<open>What a charge does to the wallet and to the position, and to the delta.\<close>

definition chargeFunds :: "MatchBatchEvent \<Rightarrow> charge \<Rightarrow> UserWallet \<times> MarketPosition \<Rightarrow> UserWallet \<times> MarketPosition" where
  "chargeFunds ev c lp = (case c of (x, q, p) \<Rightarrow>
     fillFunds (activeOrderFromExecution x (ev_MarketID ev) (ev_MarketPDA ev) q) q p lp)"

lemma active_sel [simp]:
  "a_WalletAddress (activeOrderFromExecution x i pda q) = x_WalletAddress x"
  "a_MarketPDA (activeOrderFromExecution x i pda q) = pda"
  "a_MarketID (activeOrderFromExecution x i pda q) = i"
  "a_OriginalAction (activeOrderFromExecution x i pda q) = mapAction (x_OriginalAction x)"
  "a_OriginalOutcome (activeOrderFromExecution x i pda q) = mapOutcome (x_OriginalOutcome x)"
  "a_OriginalPriceTick (activeOrderFromExecution x i pda q) = x_OriginalPriceTick x"
  "a_OrderType (activeOrderFromExecution x i pda q) = mapOrderType (x_OrderType x)"
  by (simp_all add: activeOrderFromExecution_def)

lemma applyFill_charges:
  assumes c: "cleanWallets ev" "noBar w"
  shows "(Ledger (applyFill ev f m) w, Position (applyFill ev f m) w (ev_MarketPDA ev)) =
     fold (chargeFunds ev) (chargesOf ev w f) (Ledger m w, Position m w (ev_MarketPDA ev))"
proof (cases "orderByIndex ev (f_MakerOrderIndex f)")
  case None
  then show ?thesis by (simp add: applyFill_def chargesOf_def)
next
  case (Some a)
  show ?thesis
  proof (cases "orderByIndex ev (f_TakerOrderIndex f)")
    case None
    then show ?thesis using Some by (simp add: applyFill_def chargesOf_def)
  next
    case S2: (Some b)
    let ?oa = "activeOrderFromExecution (m_Execution a) (ev_MarketID ev) (ev_MarketPDA ev) (f_FillAmount f)"
    let ?ob = "activeOrderFromExecution (m_Execution b) (ev_MarketID ev) (ev_MarketPDA ev) (f_FillAmount f)"
    let ?q = "f_FillAmount f" and ?p = "ucast (f_FillPrice f) :: u8"
    let ?m1 = "applyFillForOrder m ?oa ?q ?p"
    have nb: "noBar (a_WalletAddress ?oa)" "noBar (a_WalletAddress ?ob)"
      using orderByIndex_clean(2) [OF c(1) Some] orderByIndex_clean(2) [OF c(1) S2] by simp_all
    have "applyFill ev f m = applyFillForOrder ?m1 ?ob ?q ?p"
      using Some S2 by (simp add: applyFill_def ApplyMatchPending_def)
    then show ?thesis
      using applyFillForOrder_sel [OF nb(1) c(2), of m ?q ?p] applyFillForOrder_sel [OF nb(2) c(2), of ?m1 ?q ?p] Some S2
      by (simp add: chargesOf_def split del: if_split) (auto simp: chargeFunds_def split: if_splits)
  qed
qed

lemma applyFills_charges:
  assumes c: "cleanWallets ev" "noBar w"
  shows "(Ledger (fold (applyFill ev) fs m) w, Position (fold (applyFill ev) fs m) w (ev_MarketPDA ev)) =
     fold (chargeFunds ev) (concat (map (chargesOf ev w) fs)) (Ledger m w, Position m w (ev_MarketPDA ev))"
proof (induction fs arbitrary: m)
  case (Cons f fs)
  then show ?case using applyFill_charges [OF c, of f m] by simp
qed simp

section \<open>The recomputed delta\<close>

lemma updDelta_map:
  "map_of (updDelta k d0 f ds) = (map_of ds)(k \<mapsto> f (case map_of ds k of None \<Rightarrow> d0 | Some d \<Rightarrow> d))"
  by (induction ds) auto

lemma updDelta_keys:
  "set (map fst (updDelta k d0 f ds)) = insert k (set (map fst ds))"
  "distinct (map fst ds) \<Longrightarrow> distinct (map fst (updDelta k d0 f ds))"
proof -
  show keys: "set (map fst (updDelta k d0 f ds)) = insert k (set (map fst ds))" for ds
    using arg_cong [OF updDelta_map [of k d0 f ds], of dom] by (simp add: dom_map_of_conv_image_fst)
  show "distinct (map fst ds) \<Longrightarrow> distinct (map fst (updDelta k d0 f ds))"
  proof (induction ds)
    case (Cons kd ds)
    then show ?case using keys [of ds] by (cases kd) auto
  qed simp
qed

definition deltaOf :: "string \<Rightarrow> string \<Rightarrow> charge list \<Rightarrow> walletBatchDelta option" where
  "deltaOf w pda cs = (if cs = [] then None else Some (fold (\<lambda>(x, q, p). chargeDelta x q p) cs (newDelta w pda)))"

lemma deltaOf_snoc:
  "deltaOf w pda (cs @ [(x, q, p)]) =
     Some (chargeDelta x q p (case deltaOf w pda cs of None \<Rightarrow> newDelta w pda | Some d \<Rightarrow> d))"
  by (simp add: deltaOf_def)

text \<open>The deltas collected so far, against the charges so far.\<close>

definition deltas_ok :: "string \<Rightarrow> (string \<Rightarrow> charge list) \<Rightarrow> deltas \<Rightarrow> bool" where
  "deltas_ok pda cs ds \<longleftrightarrow> distinct (map fst ds) \<and>
     (\<forall>w. noBar w \<longrightarrow> map_of ds (positionKey w pda) = deltaOf w pda (cs w)) \<and>
     (\<forall>(k, d) \<in> set ds. noBar (dl_WalletAddress d) \<and> dl_MarketPDA d = pda \<and> k = positionKey (dl_WalletAddress d) pda)"

lemma chargeDelta_sel [simp]:
  "dl_WalletAddress (chargeDelta x q p d) = dl_WalletAddress d" "dl_MarketPDA (chargeDelta x q p d) = dl_MarketPDA d"
  by (simp_all add: chargeDelta_def Let_def)

lemma updDelta_all:
  assumes "\<forall>(k, d) \<in> set ds. Q k d" "Q k (f d0)" "\<And>d. (k, d) \<in> set ds \<Longrightarrow> Q k (f d)"
  shows "\<forall>(k, d) \<in> set (updDelta k d0 f ds). Q k d"
  using assms by (induction ds) (auto split: if_splits)

lemma chargeSide_ok:
  assumes ok: "deltas_ok pda cs ds"
    and x: "x = m_Execution o1" "TrimSpace (x_WalletAddress x) = x_WalletAddress x" "noBar (x_WalletAddress x)"
  shows "deltas_ok pda (cs(x_WalletAddress x := cs (x_WalletAddress x) @ [(x, f_FillAmount f, ucast (f_FillPrice f))]))
    (chargeSide pda f o1 ds)"
proof -
  let ?w = "x_WalletAddress x" and ?k = "positionKey (x_WalletAddress x) pda"
  let ?g = "chargeDelta x (f_FillAmount f) (ucast (f_FillPrice f))"
  have side: "chargeSide pda f o1 ds = updDelta ?k (newDelta ?w pda) ?g ds"
    using x by (simp add: chargeSide_def Let_def positionKey_def)
  have all: "\<forall>(k, d) \<in> set ds. noBar (dl_WalletAddress d) \<and> dl_MarketPDA d = pda \<and> k = positionKey (dl_WalletAddress d) pda"
    using ok by (simp add: deltas_ok_def)
  have "\<forall>(k, d) \<in> set (updDelta ?k (newDelta ?w pda) ?g ds).
      noBar (dl_WalletAddress d) \<and> dl_MarketPDA d = pda \<and> k = positionKey (dl_WalletAddress d) pda"
    by (rule updDelta_all [OF all]) (use x all in \<open>auto simp: newDelta_def\<close>)
  moreover have "map_of (updDelta ?k (newDelta ?w pda) ?g ds) (positionKey w pda) =
      deltaOf w pda ((cs(?w := cs ?w @ [(x, f_FillAmount f, ucast (f_FillPrice f))])) w)" if "noBar w" for w
    using ok x that
    by (auto simp: updDelta_map positionKey_inject deltas_ok_def deltaOf_snoc split: option.split)
  ultimately show ?thesis
    using ok updDelta_keys(2) by (simp add: deltas_ok_def side)
qed

lemma chargeFill_ok:
  assumes ok: "deltas_ok (ev_MarketPDA ev) cs ds" and c: "cleanWallets ev"
  shows "deltas_ok (ev_MarketPDA ev) (\<lambda>w. cs w @ chargesOf ev w f) (chargeFill ev (ev_MarketPDA ev) f ds)"
proof (cases "orderByIndex ev (f_MakerOrderIndex f) = None \<or> orderByIndex ev (f_TakerOrderIndex f) = None")
  case True
  then show ?thesis using ok by (auto simp: chargeFill_def chargesOf_def split: option.splits)
next
  case False
  then obtain a b where ab: "orderByIndex ev (f_MakerOrderIndex f) = Some a" "orderByIndex ev (f_TakerOrderIndex f) = Some b"
    by auto
  note A = orderByIndex_clean [OF c ab(1)] and B = orderByIndex_clean [OF c ab(2)]
  let ?ca = "(m_Execution a, f_FillAmount f, ucast (f_FillPrice f)) :: charge"
  let ?cb = "(m_Execution b, f_FillAmount f, ucast (f_FillPrice f)) :: charge"
  let ?wa = "x_WalletAddress (m_Execution a)" and ?wb = "x_WalletAddress (m_Execution b)"
  let ?c1 = "cs(?wa := cs ?wa @ [?ca])"
  have "deltas_ok (ev_MarketPDA ev) (?c1(?wb := ?c1 ?wb @ [?cb])) (chargeFill ev (ev_MarketPDA ev) f ds)"
    using chargeSide_ok [OF chargeSide_ok [OF ok refl A, of f] refl B, of f] ab by (simp add: chargeFill_def)
  moreover have "?c1(?wb := ?c1 ?wb @ [?cb]) = (\<lambda>w. cs w @ chargesOf ev w f)"
    using ab by (auto simp: chargesOf_def fun_eq_iff)
  ultimately show ?thesis by simp
qed

lemma computeDeltas_ok:
  assumes "cleanWallets ev"
  shows "deltas_ok (ev_MarketPDA ev) (charges ev) (computeBatchDeltasForWallet ev (ev_MarketPDA ev))"
proof -
  have "deltas_ok (ev_MarketPDA ev) (\<lambda>w. cs w @ concat (map (chargesOf ev w) fs)) (fold (chargeFill ev (ev_MarketPDA ev)) fs ds)"
    if "deltas_ok (ev_MarketPDA ev) cs ds" for fs cs ds
    using that
  proof (induction fs arbitrary: cs ds)
    case (Cons f fs)
    from Cons.IH [OF chargeFill_ok [OF Cons.prems assms, of f]] show ?case by simp
  qed simp
  from this [of "\<lambda>_. []" "[]" "Fills ev"] show ?thesis
    by (simp add: deltas_ok_def deltaOf_def computeBatchDeltasForWallet_def charges_def)
qed

section \<open>Applying the deltas\<close>

lemma fold_deltas:
  assumes "distinct (map fst ds)"
    "\<forall>(k, d) \<in> set ds. noBar (dl_WalletAddress d) \<and> dl_MarketPDA d = pda \<and> k = positionKey (dl_WalletAddress d) pda"
    and "noBar w"
    and step: "\<And>d m. step d m = storeDirty m (dl_WalletAddress d) (dl_MarketPDA d)
      (fw d (Ledger m (dl_WalletAddress d))) (fp d (Position m (dl_WalletAddress d) (dl_MarketPDA d)))"
  shows "(Ledger (fold (\<lambda>(k, d). step d) ds m) w, Position (fold (\<lambda>(k, d). step d) ds m) w pda) =
    (case map_of ds (positionKey w pda) of None \<Rightarrow> (Ledger m w, Position m w pda)
     | Some d \<Rightarrow> ((fw d (Ledger m w))\<lparr>wDirty := True\<rparr>, (fp d (Position m w pda))\<lparr>pDirty := True\<rparr>))"
  using assms(1,2)
proof (induction ds arbitrary: m)
  case (Cons kd ds)
  obtain k d where kd: "kd = (k, d)" by (meson surj_pair)
  have d: "noBar (dl_WalletAddress d)" "dl_MarketPDA d = pda" "k = positionKey (dl_WalletAddress d) pda"
    using Cons.prems(2) kd by auto
  have IH: "(Ledger (fold (\<lambda>(k, d). step d) ds m') w, Position (fold (\<lambda>(k, d). step d) ds m') w pda) =
    (case map_of ds (positionKey w pda) of None \<Rightarrow> (Ledger m' w, Position m' w pda)
     | Some d \<Rightarrow> ((fw d (Ledger m' w))\<lparr>wDirty := True\<rparr>, (fp d (Position m' w pda))\<lparr>pDirty := True\<rparr>))" for m'
    using Cons by (intro Cons.IH) auto
  show ?case
  proof (cases "w = dl_WalletAddress d")
    case True
    have "map_of ds (positionKey w pda) = None"
      using Cons.prems(1) kd d True by (auto simp: map_of_eq_None_iff)
    then show ?thesis using IH [of "step d m"] True d kd by (simp add: step [of d m])
  next
    case False
    then have "positionKey w pda \<noteq> k" using d assms(3) by (simp add: positionKey_inject)
    then show ?thesis
      using IH [of "step d m"] False d kd assms(3) by (simp add: step [of d m] storeDirty_Position split: option.split)
  qed
qed simp

lemma map_of_mset:
  assumes "mset ds' = mset ds" "distinct (map fst ds)"
  shows "distinct (map fst ds')" "map_of ds' = map_of ds" "set ds' = set ds"
proof -
  show s: "set ds' = set ds" using assms(1) by (rule mset_eq_setD)
  have "mset (map fst ds') = mset (map fst ds)" using assms(1) by simp
  then show d: "distinct (map fst ds')" using assms(2) by (metis mset_eq_imp_distinct_iff)
  show "map_of ds' = map_of ds" using d assms(2) s by (simp add: map_of_inject_set)
qed

lemma delta_store:
  "confirmDelta d m = storeDirty m (dl_WalletAddress d) (dl_MarketPDA d)
     (confirmWallet d (Ledger m (dl_WalletAddress d))) (confirmPosition d (Position m (dl_WalletAddress d) (dl_MarketPDA d)))"
  "failDelta d m = storeDirty m (dl_WalletAddress d) (dl_MarketPDA d)
     (failWallet d (Ledger m (dl_WalletAddress d))) (failPosition d (Position m (dl_WalletAddress d) (dl_MarketPDA d)))"
  by (simp_all add: confirmDelta_def failDelta_def Let_def)

definition fairOrder :: "(deltas \<Rightarrow> deltas) \<Rightarrow> bool" where
  "fairOrder iter \<longleftrightarrow> (\<forall>ds. mset (iter ds) = mset ds)"

lemma settle_wallet:
  assumes f: "fairOrder iter" and c: "cleanWallets ev" and w: "noBar w"
  shows "(Ledger (settle iter Confirmed (Some ev) m) w, Position (settle iter Confirmed (Some ev) m) w (ev_MarketPDA ev)) =
    (case deltaOf w (ev_MarketPDA ev) (charges ev w) of None \<Rightarrow> (Ledger m w, Position m w (ev_MarketPDA ev))
     | Some d \<Rightarrow> ((confirmWallet d (Ledger m w))\<lparr>wDirty := True\<rparr>, (confirmPosition d (Position m w (ev_MarketPDA ev)))\<lparr>pDirty := True\<rparr>))"
    and "(Ledger (settle iter Failed (Some ev) m) w, Position (settle iter Failed (Some ev) m) w (ev_MarketPDA ev)) =
    (case deltaOf w (ev_MarketPDA ev) (charges ev w) of None \<Rightarrow> (Ledger m w, Position m w (ev_MarketPDA ev))
     | Some d \<Rightarrow> ((failWallet d (Ledger m w))\<lparr>wDirty := True\<rparr>, (failPosition d (Position m w (ev_MarketPDA ev)))\<lparr>pDirty := True\<rparr>))"
proof -
  let ?pda = "ev_MarketPDA ev"
  let ?ds = "computeBatchDeltasForWallet ev ?pda"
  have ok: "deltas_ok ?pda (charges ev) ?ds" by (rule computeDeltas_ok [OF c])
  have ms: "mset (iter ?ds) = mset ?ds" using f by (simp add: fairOrder_def)
  have dd: "distinct (map fst ?ds)" using ok by (simp add: deltas_ok_def)
  note M = map_of_mset [OF ms dd]
  have all: "\<forall>(k, d) \<in> set (iter ?ds). noBar (dl_WalletAddress d) \<and> dl_MarketPDA d = ?pda \<and> k = positionKey (dl_WalletAddress d) ?pda"
    using ok M(3) by (simp add: deltas_ok_def)
  have mo: "map_of (iter ?ds) (positionKey w ?pda) = deltaOf w ?pda (charges ev w)"
    using ok w M(2) by (simp add: deltas_ok_def)
  show "(Ledger (settle iter Confirmed (Some ev) m) w, Position (settle iter Confirmed (Some ev) m) w ?pda) =
    (case deltaOf w ?pda (charges ev w) of None \<Rightarrow> (Ledger m w, Position m w ?pda)
     | Some d \<Rightarrow> ((confirmWallet d (Ledger m w))\<lparr>wDirty := True\<rparr>, (confirmPosition d (Position m w ?pda))\<lparr>pDirty := True\<rparr>))"
    using fold_deltas [OF M(1) all w delta_store(1), of m]
    by (simp add: settle_def ApplySettlementConfirmedByBatch_def mo)
  show "(Ledger (settle iter Failed (Some ev) m) w, Position (settle iter Failed (Some ev) m) w ?pda) =
    (case deltaOf w ?pda (charges ev w) of None \<Rightarrow> (Ledger m w, Position m w ?pda)
     | Some d \<Rightarrow> ((failWallet d (Ledger m w))\<lparr>wDirty := True\<rparr>, (failPosition d (Position m w ?pda))\<lparr>pDirty := True\<rparr>))"
    using fold_deltas [OF M(1) all w delta_store(2), of m]
    by (simp add: settle_def ApplySettlementFailedByBatch_def mo)
qed

section \<open>Buyers and sellers\<close>

lemma labels [simp]:
  "mapAction ''buy'' = SideBuy" "mapAction ''sell'' = SideSell" "mapOutcome ''yes'' = OutcomeYes"
  "mapOutcome ''no'' = OutcomeNo" "mapOrderType ''limit'' = OrderTypeLimit" "mapOrderType ''market'' = OrderTypeMarket"
  by code_simp+

lemma outcomes_distinct [simp]: "OutcomeYes \<noteq> OutcomeNo" "OutcomeNo \<noteq> OutcomeYes"
  by (simp_all add: OutcomeYes_def OutcomeNo_def)

fun unitsOf :: "charge \<Rightarrow> u64" where "unitsOf (x, q, p) = execUnits x q p"
fun reserveOf :: "charge \<Rightarrow> u64" where "reserveOf (x, q, p) = reserveUnitsForLots q (x_OriginalPriceTick x)"
fun lotsOf :: "charge \<Rightarrow> u64" where "lotsOf (x, q, p) = q"

text \<open>A charge of a limit buy that pays no more than its reserve, and a charge of a sale.\<close>

fun buysOutcome :: "string \<Rightarrow> charge \<Rightarrow> bool" where
  "buysOutcome out (x, q, p) \<longleftrightarrow> x_OriginalAction x = ''buy'' \<and> x_OriginalOutcome x = out \<and>
     x_OrderType x = ''limit'' \<and> execUnits x q p \<le> reserveUnitsForLots q (x_OriginalPriceTick x)"

fun sellsOutcome :: "string \<Rightarrow> charge \<Rightarrow> bool" where
  "sellsOutcome out (x, q, p) \<longleftrightarrow> x_OriginalAction x = ''sell'' \<and> x_OriginalOutcome x = out"

definition pendShares :: "string \<Rightarrow> MarketPosition \<Rightarrow> i64" where
  "pendShares out p = (if out = ''yes'' then PendingYesShares p else PendingNoShares p)"

definition lockedShares :: "string \<Rightarrow> MarketPosition \<Rightarrow> u64" where
  "lockedShares out p = (if out = ''yes'' then LockedYesShares p else LockedNoShares p)"

definition availShares :: "string \<Rightarrow> MarketPosition \<Rightarrow> u64" where
  "availShares out p = (if out = ''yes'' then AvailableYesShares p else AvailableNoShares p)"

lemmas share_defs = pendShares_def lockedShares_def availShares_def

definition sumN :: "(charge \<Rightarrow> u64) \<Rightarrow> charge list \<Rightarrow> nat" where
  "sumN f cs = sum_list (map (\<lambda>c. unat (f c)) cs)"

definition sumW :: "(charge \<Rightarrow> u64) \<Rightarrow> charge list \<Rightarrow> u64" where
  "sumW f cs = sum_list (map f cs)"

lemma sum_simps [simp]: "sumN f [] = 0" "sumN f (c # cs) = unat (f c) + sumN f cs"
  "sumW f [] = 0" "sumW f (c # cs) = f c + sumW f cs"
  by (simp_all add: sumN_def sumW_def)

lemma unat_sumW: "sumN f cs < 2 ^ 64 \<Longrightarrow> unat (sumW f cs) = sumN f cs"
  using unat_sum_list_words [of f cs] by (simp add: sumN_def sumW_def)

lemma chargeFunds_buy:
  assumes "buysOutcome out c" "out \<in> {''yes'', ''no''}" "reserveOf c \<le> LockedUSDC l"
  obtains l' p' where "chargeFunds ev c (l, p) = (l', p')"
    "LockedUSDC l' = LockedUSDC l - reserveOf c" "AvailableUSDC l' = AvailableUSDC l + (reserveOf c - unitsOf c)"
    "PendingUSDC l' = PendingUSDC l" "pendShares out p' = pendShares out p + lotsOf c"
    "availShares out p' = availShares out p"
proof -
  obtain x q pr where c: "c = (x, q, pr)" by (metis prod_cases3)
  have act: "x_OriginalAction x = ''buy''" "x_OriginalOutcome x = out" "x_OrderType x = ''limit''"
    "execUnits x q pr \<le> reserveUnitsForLots q (x_OriginalPriceTick x)"
    using assms(1) c by simp_all
  have units: "actualUnitsForActive (activeOrderFromExecution x (ev_MarketID ev) (ev_MarketPDA ev) q) q pr = execUnits x q pr"
    using assms(2) act(2) by (auto simp: actualUnitsForActive_def execUnits_def)
  have k: "minu (reserveUnitsForLots q (x_OriginalPriceTick x)) (LockedUSDC l) = reserveUnitsForLots q (x_OriginalPriceTick x)"
    using assms(3) c by (simp add: minu_absorb1)
  have rest: "(if execUnits x q pr < reserveUnitsForLots q (x_OriginalPriceTick x)
      then reserveUnitsForLots q (x_OriginalPriceTick x) - execUnits x q pr else 0) =
      reserveUnitsForLots q (x_OriginalPriceTick x) - execUnits x q pr"
    using act(4) by auto
  obtain l' p' where r: "chargeFunds ev c (l, p) = (l', p')" by (meson surj_pair)
  then have "fillFunds (activeOrderFromExecution x (ev_MarketID ev) (ev_MarketPDA ev) q) q pr (l, p) = (l', p')"
    by (simp add: chargeFunds_def c)
  then have "LockedUSDC l' = LockedUSDC l - reserveOf c \<and> AvailableUSDC l' = AvailableUSDC l + (reserveOf c - unitsOf c) \<and>
      PendingUSDC l' = PendingUSDC l \<and> pendShares out p' = pendShares out p + lotsOf c \<and> availShares out p' = availShares out p"
    using assms(2) act units k rest c by (auto simp: fillFunds_eq Let_def share_defs)
  with r that show thesis by blast
qed

lemma chargeFunds_buys:
  assumes "\<forall>c \<in> set cs. buysOutcome out c" "out \<in> {''yes'', ''no''}" "sumN reserveOf cs \<le> unat (LockedUSDC l)"
    "unat (AvailableUSDC l) + sumN reserveOf cs < 2 ^ 64"
  shows "\<exists>l' p'. fold (chargeFunds ev) cs (l, p) = (l', p') \<and>
    unat (LockedUSDC l') + sumN reserveOf cs = unat (LockedUSDC l) \<and>
    unat (AvailableUSDC l') + sumN unitsOf cs = unat (AvailableUSDC l) + sumN reserveOf cs \<and>
    PendingUSDC l' = PendingUSDC l \<and> pendShares out p' = pendShares out p + sumW lotsOf cs \<and>
    availShares out p' = availShares out p"
  using assms
proof (induction cs arbitrary: l p)
  case (Cons c cs)
  have le: "reserveOf c \<le> LockedUSDC l" using Cons.prems(3) by (simp add: word_le_nat_alt)
  obtain l1 p1 where s: "chargeFunds ev c (l, p) = (l1, p1)"
    "LockedUSDC l1 = LockedUSDC l - reserveOf c" "AvailableUSDC l1 = AvailableUSDC l + (reserveOf c - unitsOf c)"
    "PendingUSDC l1 = PendingUSDC l" "pendShares out p1 = pendShares out p + lotsOf c"
    "availShares out p1 = availShares out p"
    using chargeFunds_buy [of out c l ev p] Cons.prems(1,2) le by auto
  have u: "unitsOf c \<le> reserveOf c" using Cons.prems(1) by (cases c) auto
  have d: "unat (reserveOf c - unitsOf c) = unat (reserveOf c) - unat (unitsOf c)" using u by (rule unat_sub_le)
  have lk: "unat (LockedUSDC l1) = unat (LockedUSDC l) - unat (reserveOf c)" unfolding s(2) using le by (rule unat_sub_le)
  have av: "unat (AvailableUSDC l1) = unat (AvailableUSDC l) + (unat (reserveOf c) - unat (unitsOf c))"
    unfolding s(3) d [symmetric] using Cons.prems(4) d by (intro unat_add_lt) simp
  have u': "unat (unitsOf c) \<le> unat (reserveOf c)" using u by (simp add: word_le_nat_alt)
  have "\<exists>l' p'. fold (chargeFunds ev) cs (l1, p1) = (l', p') \<and>
    unat (LockedUSDC l') + sumN reserveOf cs = unat (LockedUSDC l1) \<and>
    unat (AvailableUSDC l') + sumN unitsOf cs = unat (AvailableUSDC l1) + sumN reserveOf cs \<and>
    PendingUSDC l' = PendingUSDC l1 \<and> pendShares out p' = pendShares out p1 + sumW lotsOf cs \<and>
    availShares out p' = availShares out p1"
    using Cons.prems lk av by (intro Cons.IH) auto
  then obtain l' p' where I: "fold (chargeFunds ev) cs (l1, p1) = (l', p')"
    "unat (LockedUSDC l') + sumN reserveOf cs = unat (LockedUSDC l1)"
    "unat (AvailableUSDC l') + sumN unitsOf cs = unat (AvailableUSDC l1) + sumN reserveOf cs"
    "PendingUSDC l' = PendingUSDC l1" "pendShares out p' = pendShares out p1 + sumW lotsOf cs"
    "availShares out p' = availShares out p1" by blast
  have "unat (LockedUSDC l') + sumN reserveOf (c # cs) = unat (LockedUSDC l)"
    using I(2) lk Cons.prems(3) by simp
  moreover have "unat (AvailableUSDC l') + sumN unitsOf (c # cs) = unat (AvailableUSDC l) + sumN reserveOf (c # cs)"
    using I(3) av u' by simp
  ultimately show ?case using s(1,4,5,6) I(1,4,5,6) by (intro exI [of _ l'] exI [of _ p']) (simp add: add.assoc)
qed simp

lemma chargeFunds_sell:
  assumes "sellsOutcome out c" "out \<in> {''yes'', ''no''}" "lotsOf c \<le> lockedShares out p"
  obtains l' p' where "chargeFunds ev c (l, p) = (l', p')"
    "lockedShares out p' = lockedShares out p - lotsOf c" "availShares out p' = availShares out p"
    "PendingUSDC l' = PendingUSDC l + unitsOf c" "AvailableUSDC l' = AvailableUSDC l" "LockedUSDC l' = LockedUSDC l"
proof -
  obtain x q pr where c: "c = (x, q, pr)" by (metis prod_cases3)
  have act: "x_OriginalAction x = ''sell''" "x_OriginalOutcome x = out" using assms(1) c by simp_all
  have units: "actualUnitsForActive (activeOrderFromExecution x (ev_MarketID ev) (ev_MarketPDA ev) q) q pr = execUnits x q pr"
    using assms(2) act(2) by (auto simp: actualUnitsForActive_def execUnits_def)
  obtain l' p' where r: "chargeFunds ev c (l, p) = (l', p')" by (meson surj_pair)
  then have "fillFunds (activeOrderFromExecution x (ev_MarketID ev) (ev_MarketPDA ev) q) q pr (l, p) = (l', p')"
    by (simp add: chargeFunds_def c)
  then have "lockedShares out p' = lockedShares out p - lotsOf c \<and> availShares out p' = availShares out p \<and>
      PendingUSDC l' = PendingUSDC l + unitsOf c \<and> AvailableUSDC l' = AvailableUSDC l \<and> LockedUSDC l' = LockedUSDC l"
    using assms(2,3) act units c by (auto simp: fillFunds_eq Let_def share_defs minu_absorb1)
  with r that show thesis by blast
qed

lemma chargeFunds_sells:
  assumes "\<forall>c \<in> set cs. sellsOutcome out c" "out \<in> {''yes'', ''no''}" "sumN lotsOf cs \<le> unat (lockedShares out p)"
  shows "\<exists>l' p'. fold (chargeFunds ev) cs (l, p) = (l', p') \<and>
    unat (lockedShares out p') + sumN lotsOf cs = unat (lockedShares out p) \<and> availShares out p' = availShares out p \<and>
    PendingUSDC l' = PendingUSDC l + sumW unitsOf cs \<and> AvailableUSDC l' = AvailableUSDC l \<and> LockedUSDC l' = LockedUSDC l"
  using assms
proof (induction cs arbitrary: l p)
  case (Cons c cs)
  have le: "lotsOf c \<le> lockedShares out p" using Cons.prems(3) by (simp add: word_le_nat_alt)
  obtain l1 p1 where s: "chargeFunds ev c (l, p) = (l1, p1)"
    "lockedShares out p1 = lockedShares out p - lotsOf c" "availShares out p1 = availShares out p"
    "PendingUSDC l1 = PendingUSDC l + unitsOf c" "AvailableUSDC l1 = AvailableUSDC l" "LockedUSDC l1 = LockedUSDC l"
    using chargeFunds_sell [of out c p ev l] Cons.prems(1,2) le by auto
  have lk: "unat (lockedShares out p1) = unat (lockedShares out p) - unat (lotsOf c)" unfolding s(2) using le by (rule unat_sub_le)
  have "\<exists>l' p'. fold (chargeFunds ev) cs (l1, p1) = (l', p') \<and>
    unat (lockedShares out p') + sumN lotsOf cs = unat (lockedShares out p1) \<and> availShares out p' = availShares out p1 \<and>
    PendingUSDC l' = PendingUSDC l1 + sumW unitsOf cs \<and> AvailableUSDC l' = AvailableUSDC l1 \<and> LockedUSDC l' = LockedUSDC l1"
    using Cons.prems lk by (intro Cons.IH) auto
  then obtain l' p' where I: "fold (chargeFunds ev) cs (l1, p1) = (l', p')"
    "unat (lockedShares out p') + sumN lotsOf cs = unat (lockedShares out p1)" "availShares out p' = availShares out p1"
    "PendingUSDC l' = PendingUSDC l1 + sumW unitsOf cs" "AvailableUSDC l' = AvailableUSDC l1" "LockedUSDC l' = LockedUSDC l1"
    by blast
  have "unat (lockedShares out p') + sumN lotsOf (c # cs) = unat (lockedShares out p)"
    using I(2) lk Cons.prems(3) by simp
  then show ?case using s(1,3-6) I(1,3-6) by (intro exI [of _ l'] exI [of _ p']) (simp add: add.assoc)
qed simp

section \<open>The deltas of buyers and sellers\<close>

definition pendDelta :: "string \<Rightarrow> walletBatchDelta \<Rightarrow> i64" where
  "pendDelta out d = (if out = ''yes'' then PendingYesDelta d else PendingNoDelta d)"

definition otherDelta :: "string \<Rightarrow> walletBatchDelta \<Rightarrow> i64" where
  "otherDelta out d = (if out = ''yes'' then PendingNoDelta d else PendingYesDelta d)"

definition lockedConsumed :: "string \<Rightarrow> walletBatchDelta \<Rightarrow> u64" where
  "lockedConsumed out d = (if out = ''yes'' then LockedYesConsumed d else LockedNoConsumed d)"

definition otherConsumed :: "string \<Rightarrow> walletBatchDelta \<Rightarrow> u64" where
  "otherConsumed out d = (if out = ''yes'' then LockedNoConsumed d else LockedYesConsumed d)"

lemmas delta_defs = pendDelta_def otherDelta_def lockedConsumed_def otherConsumed_def

abbreviation foldDelta :: "charge list \<Rightarrow> walletBatchDelta \<Rightarrow> walletBatchDelta" where
  "foldDelta cs d \<equiv> fold (\<lambda>(x, q, p). chargeDelta x q p) cs d"

lemma foldDelta_buys:
  assumes "\<forall>c \<in> set cs. buysOutcome out c" "out \<in> {''yes'', ''no''}"
  shows "PendingUSDCDelta (foldDelta cs d) = PendingUSDCDelta d - sumW unitsOf cs \<and>
    pendDelta out (foldDelta cs d) = pendDelta out d + sumW lotsOf cs \<and>
    otherDelta out (foldDelta cs d) = otherDelta out d \<and>
    LockedYesConsumed (foldDelta cs d) = LockedYesConsumed d \<and> LockedNoConsumed (foldDelta cs d) = LockedNoConsumed d"
  using assms
proof (induction cs arbitrary: d)
  case (Cons c cs)
  obtain x q pr where c: "c = (x, q, pr)" by (metis prod_cases3)
  show ?case
    using Cons.IH [of "chargeDelta x q pr d"] Cons.prems c
    by (auto simp: chargeDelta_def Let_def delta_defs algebra_simps)
qed simp

lemma foldDelta_sells:
  assumes "\<forall>c \<in> set cs. sellsOutcome out c" "out \<in> {''yes'', ''no''}"
  shows "PendingUSDCDelta (foldDelta cs d) = PendingUSDCDelta d + sumW unitsOf cs \<and>
    pendDelta out (foldDelta cs d) = pendDelta out d - sumW lotsOf cs \<and>
    otherDelta out (foldDelta cs d) = otherDelta out d \<and>
    lockedConsumed out (foldDelta cs d) = lockedConsumed out d + sumW lotsOf cs \<and>
    otherConsumed out (foldDelta cs d) = otherConsumed out d"
  using assms
proof (induction cs arbitrary: d)
  case (Cons c cs)
  obtain x q pr where c: "c = (x, q, pr)" by (metis prod_cases3)
  show ?case
    using Cons.IH [of "chargeDelta x q pr d"] Cons.prems c
    by (auto simp: chargeDelta_def Let_def delta_defs algebra_simps)
qed simp

section \<open>Signed comparisons of small amounts\<close>

lemma small_signed:
  assumes "unat (x :: i64) < 2 ^ 63"
  shows "0 <s x \<longleftrightarrow> x \<noteq> 0" "- x <s 0 \<longleftrightarrow> x \<noteq> 0" "\<not> 0 <s - x" "\<not> x <s 0"
proof -
  have s: "sint x = int (unat x)" using assms by (rule sint_small)
  have x0: "0 < int (unat x) \<longleftrightarrow> x \<noteq> 0" by (metis of_nat_0_less_iff unat_gt_0 word_neq_0_conv)
  show "0 <s x \<longleftrightarrow> x \<noteq> 0" unfolding word_sless_alt s using x0 by simp
  show "\<not> x <s 0" unfolding word_sless_alt s by simp
  have i: "int (unat x) < int (2 ^ 63)" using assms by (simp only: of_nat_less_iff)
  have "- (2 ^ 63) \<le> - int (unat x)" using i by simp
  moreover have "- int (unat x) < 2 ^ 63" by (rule le_less_trans [of _ 0]) simp_all
  ultimately have b: "- (2 ^ 63) \<le> - int (unat x) \<and> - int (unat x) < 2 ^ 63" by blast
  have "sint (- x) = signed_take_bit 63 (- sint x)" using sint_word_ariths(4) [of x] unfolding len64 .
  also have "\<dots> = - int (unat x)" unfolding s
    by (subst signed_take_bit_int_eq_self_iff) (rule b)
  finally have n: "sint (- x) = - int (unat x)" .
  show "- x <s 0 \<longleftrightarrow> x \<noteq> 0" "\<not> 0 <s - x" unfolding word_sless_alt n using x0 by simp_all
qed

lemma mini_small:
  assumes "unat a \<le> unat b" "unat b < 2 ^ 63"
  shows "mini a b = a"
proof -
  have "sint a = int (unat a)" "sint b = int (unat b)" using assms by (simp_all add: sint_small)
  then have "a <s b \<longleftrightarrow> unat a < unat b" by (simp only: word_sless_alt of_nat_less_iff)
  then show ?thesis using assms by (simp add: mini_def word_unat_eq_iff)
qed


section \<open>Confirming and failing\<close>

lemma settle_buy:
  assumes d: "PendingUSDCDelta d = - s" "pendDelta out d = q" "otherDelta out d = 0"
      "LockedYesConsumed d = 0" "LockedNoConsumed d = 0"
    and s: "unat s < 2 ^ 63" and q: "unat q \<le> unat (pendShares out p)" "unat (pendShares out p) < 2 ^ 63"
    and o: "out \<in> {''yes'', ''no''}"
  shows "confirmWallet d l = l"
    "pendShares out (confirmPosition d p) = pendShares out p - q" "availShares out (confirmPosition d p) = availShares out p + q"
    "AvailableUSDC (failWallet d l) = AvailableUSDC l + s" "LockedUSDC (failWallet d l) = LockedUSDC l"
    "PendingUSDC (failWallet d l) = PendingUSDC l"
    "pendShares out (failPosition d p) = pendShares out p - q" "availShares out (failPosition d p) = availShares out p"
proof -
  have m: "mini q (pendShares out p) = q" using q by (rule mini_small)
  have qs: "0 <s q \<longleftrightarrow> q \<noteq> 0" using q by (intro small_signed) simp
  note S = small_signed [OF s]
  show "confirmWallet d l = l" "AvailableUSDC (failWallet d l) = AvailableUSDC l + s"
    "LockedUSDC (failWallet d l) = LockedUSDC l" "PendingUSDC (failWallet d l) = PendingUSDC l"
    using d(1) S by (auto simp: confirmWallet_def failWallet_def Let_def)
  show "pendShares out (confirmPosition d p) = pendShares out p - q" "availShares out (confirmPosition d p) = availShares out p + q"
    using d m qs o by (auto simp: confirmPosition_def Let_def share_defs delta_defs)
  show "pendShares out (failPosition d p) = pendShares out p - q" "availShares out (failPosition d p) = availShares out p"
    using d m qs o by (auto simp: failPosition_def Let_def share_defs delta_defs)
qed

lemma settle_sell:
  assumes d: "PendingUSDCDelta d = u" "pendDelta out d = - q" "otherDelta out d = 0"
      "lockedConsumed out d = q" "otherConsumed out d = 0"
    and u: "unat u \<le> unat (PendingUSDC l)" "unat (PendingUSDC l) < 2 ^ 63" and q: "unat q < 2 ^ 63"
    and o: "out \<in> {''yes'', ''no''}"
  shows "confirmPosition d p = p"
    "PendingUSDC (confirmWallet d l) = PendingUSDC l - u" "AvailableUSDC (confirmWallet d l) = AvailableUSDC l + u"
    "PendingUSDC (failWallet d l) = PendingUSDC l - u" "AvailableUSDC (failWallet d l) = AvailableUSDC l"
    "availShares out (failPosition d p) = availShares out p + q" "lockedShares out (failPosition d p) = lockedShares out p"
proof -
  have m: "mini u (PendingUSDC l) = u" using u by (rule mini_small)
  have "unat u < 2 ^ 63" using u by linarith
  note us = small_signed [OF this]
  note Q = small_signed [OF q]
  show "PendingUSDC (confirmWallet d l) = PendingUSDC l - u" "AvailableUSDC (confirmWallet d l) = AvailableUSDC l + u"
    "PendingUSDC (failWallet d l) = PendingUSDC l - u" "AvailableUSDC (failWallet d l) = AvailableUSDC l"
    using d(1) m us by (auto simp: confirmWallet_def failWallet_def Let_def)
  show "confirmPosition d p = p"
    using d Q(3) o by (auto simp: confirmPosition_def Let_def share_defs delta_defs)
  show "availShares out (failPosition d p) = availShares out p + q" "lockedShares out (failPosition d p) = lockedShares out p"
    using d Q(3) o by (auto simp: failPosition_def Let_def share_defs delta_defs word_gt_0)
qed

section \<open>The life of a batch\<close>

definition noReleases :: "MatchBatchEvent \<Rightarrow> bool" where
  "noReleases ev \<longleftrightarrow> (\<forall>u \<in> set (OrderUpdates ev). u_Status u \<notin> {''canceled'', ''expired'', ''rejected''})"

lemma applyBatch_fills: 
  assumes "noReleases ev"
  shows "applyBatch ev m = fold (applyFill ev) (Fills ev) m"
proof -
  have "fold (applyUpdate ev) us m = m" if "\<forall>u \<in> set us. u_Status u \<notin> {''canceled'', ''expired'', ''rejected''}" for us m
    using that by (induction us arbitrary: m) (auto simp: applyUpdate_def)
  with assms show ?thesis by (simp add: applyBatch_def noReleases_def)
qed

text \<open>The hypotheses of a batch in which wallet \<open>w\<close> only buys (or only sells) one outcome with
  what it has locked, in amounts below \<open>2 ^ 63\<close>.\<close>

definition settles :: "(deltas \<Rightarrow> deltas) \<Rightarrow> MatchBatchEvent \<Rightarrow> string \<Rightarrow> string \<Rightarrow> bool" where
  "settles iter ev w out \<longleftrightarrow> fairOrder iter \<and> cleanWallets ev \<and> noReleases ev \<and> noBar w \<and>
     TrimSpace w = w \<and> out \<in> {''yes'', ''no''} \<and> charges ev w \<noteq> []"

definition buyer :: "Manager \<Rightarrow> MatchBatchEvent \<Rightarrow> string \<Rightarrow> string \<Rightarrow> bool" where
  "buyer m ev w out \<longleftrightarrow> (let l = Ledger m w; p = Position m w (ev_MarketPDA ev); cs = charges ev w in
     (\<forall>c \<in> set cs. buysOutcome out c) \<and> sumN reserveOf cs \<le> unat (LockedUSDC l) \<and> usdcTotal l < 2 ^ 63 \<and>
     unat (pendShares out p) + sumN lotsOf cs < 2 ^ 63 \<and> unat (availShares out p) + sumN lotsOf cs < 2 ^ 63)"

definition seller :: "Manager \<Rightarrow> MatchBatchEvent \<Rightarrow> string \<Rightarrow> string \<Rightarrow> bool" where
  "seller m ev w out \<longleftrightarrow> (let l = Ledger m w; p = Position m w (ev_MarketPDA ev); cs = charges ev w in
     (\<forall>c \<in> set cs. sellsOutcome out c) \<and> sumN lotsOf cs \<le> unat (lockedShares out p) \<and>
     unat (availShares out p) + unat (lockedShares out p) < 2 ^ 63 \<and>
     unat (PendingUSDC l) + sumN unitsOf cs < 2 ^ 63 \<and> unat (AvailableUSDC l) + sumN unitsOf cs < 2 ^ 63)"

lemma sumN_mono: "(\<And>c. c \<in> set cs \<Longrightarrow> unat (f c) \<le> unat (g c)) \<Longrightarrow> sumN f cs \<le> sumN g cs"
  by (induction cs) (auto simp: add_mono)

lemma share_dirty [simp]:
  "pendShares out (p\<lparr>pDirty := d\<rparr>) = pendShares out p" "availShares out (p\<lparr>pDirty := d\<rparr>) = availShares out p"
  "lockedShares out (p\<lparr>pDirty := d\<rparr>) = lockedShares out p"
  by (simp_all add: share_defs)

lemma deltaOf_new:
  "cs \<noteq> [] \<Longrightarrow> deltaOf w pda cs = Some (foldDelta cs (newDelta w pda))"
  by (simp add: deltaOf_def)

lemma newDelta_zero [simp]:
  "PendingUSDCDelta (newDelta w pda) = 0" "pendDelta out (newDelta w pda) = 0" "otherDelta out (newDelta w pda) = 0"
  "LockedYesConsumed (newDelta w pda) = 0" "LockedNoConsumed (newDelta w pda) = 0"
  "lockedConsumed out (newDelta w pda) = 0" "otherConsumed out (newDelta w pda) = 0"
  by (simp_all add: newDelta_def delta_defs)

lemma buyer_life:
  assumes h: "settles iter ev w out" and b: "buyer m ev w out"
  defines "cs \<equiv> charges ev w" and "pda \<equiv> ev_MarketPDA ev" and "m1 \<equiv> applyBatch ev m"
  defines "mf \<equiv> settle iter Failed (Some ev) m1" and "mc \<equiv> settle iter Confirmed (Some ev) m1"
  shows "unat (LockedUSDC (Ledger mf w)) + sumN reserveOf cs = unat (LockedUSDC (Ledger m w))"
    "unat (AvailableUSDC (Ledger mf w)) = unat (AvailableUSDC (Ledger m w)) + sumN reserveOf cs"
    "pendShares out (Position mf w pda) = pendShares out (Position m w pda)"
    "availShares out (Position mf w pda) = availShares out (Position m w pda)"
    "usdcTotal (Ledger mc w) + sumN unitsOf cs = usdcTotal (Ledger m w)"
    "pendShares out (Position mc w pda) = pendShares out (Position m w pda)"
    "unat (availShares out (Position mc w pda)) = unat (availShares out (Position m w pda)) + sumN lotsOf cs"
proof -
  let ?l = "Ledger m w" and ?p = "Position m w pda" and ?d = "foldDelta cs (newDelta w pda)"
  have h': "fairOrder iter" "cleanWallets ev" "noReleases ev" "noBar w" "out \<in> {''yes'', ''no''}" "cs \<noteq> []"
    using h by (simp_all add: settles_def cs_def)
  have b': "\<forall>c \<in> set cs. buysOutcome out c" "sumN reserveOf cs \<le> unat (LockedUSDC ?l)" "usdcTotal ?l < 2 ^ 63"
    "unat (pendShares out ?p) + sumN lotsOf cs < 2 ^ 63" "unat (availShares out ?p) + sumN lotsOf cs < 2 ^ 63"
    using b by (simp_all add: buyer_def cs_def pda_def Let_def)
  have a: "unat (AvailableUSDC ?l) + sumN reserveOf cs < 2 ^ 64" using b'(2,3) by (simp add: usdcTotal_def)
  have units: "sumN unitsOf cs \<le> sumN reserveOf cs"
    by (rule sumN_mono) (use b'(1) in \<open>auto simp: word_le_nat_alt\<close>)
  obtain l1 p1 where f: "fold (chargeFunds ev) cs (?l, ?p) = (l1, p1)"
    "unat (LockedUSDC l1) + sumN reserveOf cs = unat (LockedUSDC ?l)"
    "unat (AvailableUSDC l1) + sumN unitsOf cs = unat (AvailableUSDC ?l) + sumN reserveOf cs"
    "pendShares out p1 = pendShares out ?p + sumW lotsOf cs" "availShares out p1 = availShares out ?p"
    using chargeFunds_buys [OF b'(1) h'(5) b'(2) a, of ev ?p] by blast
  have m1: "Ledger m1 w = l1" "Position m1 w pda = p1"
    using applyFills_charges [OF h'(2,4), of "Fills ev" m] f(1)
    by (simp_all add: m1_def applyBatch_fills [OF h'(3)] cs_def charges_def pda_def)
  have ul: "unat (sumW lotsOf cs) = sumN lotsOf cs" and uu: "unat (sumW unitsOf cs) = sumN unitsOf cs"
    using b' units a by (auto intro!: unat_sumW simp: usdcTotal_def)
  have pend: "unat (pendShares out p1) = unat (pendShares out ?p) + sumN lotsOf cs"
    unfolding f(4) ul [symmetric] using b'(4) ul by (intro unat_add_lt) simp
  have S: "unat (sumW unitsOf cs) < 2 ^ 63" using uu units b'(2,3) by (simp add: usdcTotal_def)
  have D: "PendingUSDCDelta ?d = - sumW unitsOf cs" "pendDelta out ?d = sumW lotsOf cs" "otherDelta out ?d = 0"
    "LockedYesConsumed ?d = 0" "LockedNoConsumed ?d = 0"
    using foldDelta_buys [OF b'(1) h'(5), of "newDelta w pda"] by simp_all
  note R = settle_buy [OF D S _ _ h'(5), of p1]
  note W = settle_wallet [OF h'(1,2,4), of m1, folded cs_def pda_def, unfolded deltaOf_new [OF h'(6)] m1, simplified option.case prod.inject]
  have q: "unat (sumW lotsOf cs) \<le> unat (pendShares out p1)" "unat (pendShares out p1) < 2 ^ 63"
    using pend ul b'(4) by simp_all
  have mf: "Ledger mf w = (failWallet ?d l1)\<lparr>wDirty := True\<rparr>" "Position mf w pda = (failPosition ?d p1)\<lparr>pDirty := True\<rparr>"
    and mc: "Ledger mc w = (confirmWallet ?d l1)\<lparr>wDirty := True\<rparr>" "Position mc w pda = (confirmPosition ?d p1)\<lparr>pDirty := True\<rparr>"
    using W by (simp_all add: mf_def mc_def)
  show "unat (LockedUSDC (Ledger mf w)) + sumN reserveOf cs = unat (LockedUSDC ?l)"
    using f(2) by (simp add: mf R(5) [OF q])
  have "unat (AvailableUSDC l1 + sumW unitsOf cs) = unat (AvailableUSDC l1) + unat (sumW unitsOf cs)"
    using f(3) uu a by (intro unat_add_lt) simp
  then show "unat (AvailableUSDC (Ledger mf w)) = unat (AvailableUSDC ?l) + sumN reserveOf cs"
    using f(3) uu by (simp add: mf R(4) [OF q])
  show "pendShares out (Position mf w pda) = pendShares out ?p" "availShares out (Position mf w pda) = availShares out ?p"
    using f(4,5) by (simp_all add: mf R(7,8) [OF q])
  show "usdcTotal (Ledger mc w) + sumN unitsOf cs = usdcTotal ?l"
    using f(2,3) by (simp add: mc R(1) [OF q] usdcTotal_def)
  show "pendShares out (Position mc w pda) = pendShares out ?p"
    using f(4) by (simp add: mc R(2) [OF q])
  have "unat (availShares out ?p + sumW lotsOf cs) = unat (availShares out ?p) + unat (sumW lotsOf cs)"
    using b'(5) ul by (intro unat_add_lt) simp
  then show "unat (availShares out (Position mc w pda)) = unat (availShares out ?p) + sumN lotsOf cs"
    using f(5) ul by (simp add: mc R(3) [OF q])
qed

lemma seller_life:
  assumes h: "settles iter ev w out" and b: "seller m ev w out"
  defines "cs \<equiv> charges ev w" and "pda \<equiv> ev_MarketPDA ev" and "m1 \<equiv> applyBatch ev m"
  defines "mf \<equiv> settle iter Failed (Some ev) m1" and "mc \<equiv> settle iter Confirmed (Some ev) m1"
  shows "PendingUSDC (Ledger mf w) = PendingUSDC (Ledger m w)" "AvailableUSDC (Ledger mf w) = AvailableUSDC (Ledger m w)"
    "unat (lockedShares out (Position mf w pda)) + sumN lotsOf cs = unat (lockedShares out (Position m w pda))"
    "unat (availShares out (Position mf w pda)) = unat (availShares out (Position m w pda)) + sumN lotsOf cs"
    "PendingUSDC (Ledger mc w) = PendingUSDC (Ledger m w)"
    "unat (AvailableUSDC (Ledger mc w)) = unat (AvailableUSDC (Ledger m w)) + sumN unitsOf cs"
    "unat (lockedShares out (Position mc w pda)) + sumN lotsOf cs = unat (lockedShares out (Position m w pda))"
    "availShares out (Position mc w pda) = availShares out (Position m w pda)"
proof -
  let ?l = "Ledger m w" and ?p = "Position m w pda" and ?d = "foldDelta cs (newDelta w pda)"
  have h': "fairOrder iter" "cleanWallets ev" "noReleases ev" "noBar w" "out \<in> {''yes'', ''no''}" "cs \<noteq> []"
    using h by (simp_all add: settles_def cs_def)
  have b': "\<forall>c \<in> set cs. sellsOutcome out c" "sumN lotsOf cs \<le> unat (lockedShares out ?p)"
    "unat (availShares out ?p) + unat (lockedShares out ?p) < 2 ^ 63"
    "unat (PendingUSDC ?l) + sumN unitsOf cs < 2 ^ 63" "unat (AvailableUSDC ?l) + sumN unitsOf cs < 2 ^ 63"
    using b by (simp_all add: seller_def cs_def pda_def Let_def)
  obtain l1 p1 where f: "fold (chargeFunds ev) cs (?l, ?p) = (l1, p1)"
    "unat (lockedShares out p1) + sumN lotsOf cs = unat (lockedShares out ?p)" "availShares out p1 = availShares out ?p"
    "PendingUSDC l1 = PendingUSDC ?l + sumW unitsOf cs" "AvailableUSDC l1 = AvailableUSDC ?l"
    using chargeFunds_sells [OF b'(1) h'(5) b'(2), of ev ?l] by blast
  have m1: "Ledger m1 w = l1" "Position m1 w pda = p1"
    using applyFills_charges [OF h'(2,4), of "Fills ev" m] f(1)
    by (simp_all add: m1_def applyBatch_fills [OF h'(3)] cs_def charges_def pda_def)
  have ul: "unat (sumW lotsOf cs) = sumN lotsOf cs" and uu: "unat (sumW unitsOf cs) = sumN unitsOf cs"
    using b' by (auto intro!: unat_sumW)
  have pend: "unat (PendingUSDC l1) = unat (PendingUSDC ?l) + sumN unitsOf cs"
    unfolding f(4) uu [symmetric] using b'(4) uu by (intro unat_add_lt) simp
  have D: "PendingUSDCDelta ?d = sumW unitsOf cs" "pendDelta out ?d = - sumW lotsOf cs" "otherDelta out ?d = 0"
    "lockedConsumed out ?d = sumW lotsOf cs" "otherConsumed out ?d = 0"
    using foldDelta_sells [OF b'(1) h'(5), of "newDelta w pda"] by simp_all
  have q: "unat (sumW unitsOf cs) \<le> unat (PendingUSDC l1)" "unat (PendingUSDC l1) < 2 ^ 63" "unat (sumW lotsOf cs) < 2 ^ 63"
    using pend uu ul b'(2-4) by simp_all
  note R = settle_sell [OF D q h'(5)]
  note W = settle_wallet [OF h'(1,2,4), of m1, folded cs_def pda_def, unfolded deltaOf_new [OF h'(6)] m1, simplified option.case prod.inject]
  have mf: "Ledger mf w = (failWallet ?d l1)\<lparr>wDirty := True\<rparr>" "Position mf w pda = (failPosition ?d p1)\<lparr>pDirty := True\<rparr>"
    and mc: "Ledger mc w = (confirmWallet ?d l1)\<lparr>wDirty := True\<rparr>" "Position mc w pda = (confirmPosition ?d p1)\<lparr>pDirty := True\<rparr>"
    using W by (simp_all add: mf_def mc_def)
  show "PendingUSDC (Ledger mf w) = PendingUSDC ?l" "AvailableUSDC (Ledger mf w) = AvailableUSDC ?l"
    using f(4,5) by (simp_all add: mf R(4,5))
  show "unat (lockedShares out (Position mf w pda)) + sumN lotsOf cs = unat (lockedShares out ?p)"
    using f(2) by (simp add: mf R(7))
  have "unat (availShares out ?p + sumW lotsOf cs) = unat (availShares out ?p) + unat (sumW lotsOf cs)"
    using b'(2,3) ul by (intro unat_add_lt) simp
  then show "unat (availShares out (Position mf w pda)) = unat (availShares out ?p) + sumN lotsOf cs"
    using f(3) ul by (simp add: mf R(6))
  show "PendingUSDC (Ledger mc w) = PendingUSDC ?l" using f(4) by (simp add: mc R(2))
  have "unat (AvailableUSDC ?l + sumW unitsOf cs) = unat (AvailableUSDC ?l) + unat (sumW unitsOf cs)"
    using b'(5) uu by (intro unat_add_lt) simp
  then show "unat (AvailableUSDC (Ledger mc w)) = unat (AvailableUSDC ?l) + sumN unitsOf cs"
    using f(5) uu by (simp add: mc R(3))
  show "unat (lockedShares out (Position mc w pda)) + sumN lotsOf cs = unat (lockedShares out ?p)"
    "availShares out (Position mc w pda) = availShares out ?p"
    using f(2,3) by (simp_all add: mc R(1))
qed

end
