(* ===== verification/FundsProps.thy ===== *)
theory FundsProps
  imports FundsSettle
begin

text \<open>
  The properties of the funds service: reservations conserve balances and are undone by
  releases, each batch, settlement and deposit takes effect once in every run, early settlement
  events wait for their batch, and settlement delivers or restores what the fills set aside.
\<close>

section \<open>A sample batch\<close>

text \<open>Alice buys 100 Yes lots at 60 with 60 units locked; Bob sells them.\<close>

definition sampleExec :: "u64 \<Rightarrow> string \<Rightarrow> string \<Rightarrow> u8 \<Rightarrow> ExecutionSnapshot" where
  "sampleExec i w act tick = \<lparr>x_OrderID = i, x_WalletAddress = w, x_OriginalAction = act, x_OriginalOutcome = ''yes'',
     x_OriginalPriceTick = tick, x_OrderType = ''limit'', x_NormalizedSide = act, x_NormalizedPriceTick = tick,
     x_QtyLots = 100, x_SpendAmount = 0, x_ExpireTime = 0, x_Nonce = i\<rparr>"

definition sampleMatched :: "u16 \<Rightarrow> ExecutionSnapshot \<Rightarrow> MatchedOrder" where
  "sampleMatched i x = \<lparr>m_OrderIndex = i, m_OrderID = x_OrderID x, m_Execution = x,
     m_Settlement = \<lparr>sp_IntentBytesHex = [], sp_Signature = []\<rparr>, m_CreatedAt = 0, m_CreatedCmdSeq = 0\<rparr>"

definition sampleFill :: "u64 \<Rightarrow> u64 \<Rightarrow> MatchFill" where
  "sampleFill q p = \<lparr>f_FillIndex = 0, f_MakerOrderIndex = 0, f_TakerOrderIndex = 1, f_FillAmount = q, f_FillPrice = p,
     f_MatchType = Transfer, f_NotionalUnits = 0, f_TakerFeeUnits = 0, f_CreatorFeeUnits = 0, f_PlatformFeeUnits = 0\<rparr>"

definition sampleBatchOf :: "ExecutionSnapshot \<Rightarrow> ExecutionSnapshot \<Rightarrow> MatchFill list \<Rightarrow> OrderUpdate list \<Rightarrow> MatchBatchEvent" where
  "sampleBatchOf x y fs us = \<lparr>EventID = ''b1'', SchemaVersion = 1, ev_MarketID = 7, ev_MarketPDA = ''mkt'', ProducedAt = 0,
     SourceCmdSeqMin = 1, SourceCmdSeqMax = 2, SourceCommandIDs = [], TraceIDs = [],
     ev_Orders = [sampleMatched 0 x, sampleMatched 1 y], Fills = fs, OrderUpdates = us, DepthUpdates = []\<rparr>"

definition sampleBatch :: MatchBatchEvent where
  "sampleBatch = sampleBatchOf (sampleExec 1 ''alice'' ''buy'' 60) (sampleExec 2 ''bob'' ''sell'' 55) [sampleFill 100 58] []"

definition sampleManager :: Manager where
  "sampleManager =
     SeedPosition (SeedLedger (SeedLedger NewManager ''alice'' (zeroWallet\<lparr>AvailableUSDC := 40, LockedUSDC := 60\<rparr>)) ''bob'' zeroWallet)
       ''bob'' ''mkt'' (zeroPosition\<lparr>LockedYesShares := 100\<rparr>)"

definition sampleMsg :: "string \<Rightarrow> FundsMsg" where
  "sampleMsg subj = \<lparr>fm_Subject = subj, fm_Seq = Some 1, fm_AckOk = True, fm_PubOk = True, fm_Command = None,
     fm_ReserveRejected = None, fm_Batch = None, fm_Settlement = None, fm_Released = None, fm_Transfer = None\<rparr>"

definition sampleState :: "Manager \<Rightarrow> FundsState" where
  "sampleState m = \<lparr>fs_manager = m, fs_inflight = NewInflightStore, fs_pending = NewPendingReserveStore,
     fs_submits = NewSubmitStore, fs_deposits = NewDepositStore, fs_withdrawals = NewWithdrawalStore, fs_evtSeq = 0\<rparr>"

lemma sample_settles: "settles id sampleBatch ''alice'' ''yes''" "settles id sampleBatch ''bob'' ''yes''"
proof -
  have "cleanWallets sampleBatch" "noReleases sampleBatch" by code_simp+
  moreover have "fairOrder id" by (simp add: fairOrder_def)
  moreover have "noBar ''alice'' \<and> TrimSpace ''alice'' = ''alice'' \<and> charges sampleBatch ''alice'' \<noteq> []"
    "noBar ''bob'' \<and> TrimSpace ''bob'' = ''bob'' \<and> charges sampleBatch ''bob'' \<noteq> []" by code_simp+
  ultimately show "settles id sampleBatch ''alice'' ''yes''" "settles id sampleBatch ''bob'' ''yes''"
    by (simp_all add: settles_def)
qed

lemma sample_charges:
  "charges sampleBatch ''alice'' = [(sampleExec 1 ''alice'' ''buy'' 60, 100, 58)]"
  "charges sampleBatch ''bob'' = [(sampleExec 2 ''bob'' ''sell'' 55, 100, 58)]"
  by code_simp+

lemma sample_units:
  "execUnits (sampleExec 1 ''alice'' ''buy'' 60) 100 58 = 58" "reserveUnitsForLots 100 60 = 60"
  "execUnits (sampleExec 2 ''bob'' ''sell'' 55) 100 58 = 58"
  by code_simp+

lemma sample_roles: "buyer sampleManager sampleBatch ''alice'' ''yes''" "seller sampleManager sampleBatch ''bob'' ''yes''"
proof -
  have m: "ev_MarketPDA sampleBatch = ''mkt''" by (simp add: sampleBatch_def sampleBatchOf_def)
  have k: "positionKey ''alice'' ''mkt'' \<noteq> positionKey ''bob'' ''mkt''" by (simp add: positionKey_def)
  show "buyer sampleManager sampleBatch ''alice'' ''yes''"
    unfolding buyer_def Let_def sample_charges m
    by (simp add: sample_units, simp add: sampleExec_def sampleManager_def usdcTotal_def share_defs zeroWallet_def
        Position_SeedPosition k, simp add: Position_def NewManager_def SeedLedger_def zeroPosition_def sample_units(2))
  show "seller sampleManager sampleBatch ''bob'' ''yes''"
    unfolding seller_def Let_def sample_charges m
    by (simp add: sample_units) (simp add: sampleExec_def sampleManager_def share_defs zeroWallet_def
        Position_SeedPosition zeroPosition_def)
qed

section \<open>Reservations\<close>

text \<open>C12: the admission check that runs on a snapshot of the balances gives exactly the verdict of
  the reservation: \<open>validateReserveAgainstSnapshot\<close> reports an error on the current ledger and
  position if and only if \<open>ReserveOrder\<close> would fail, and the same error.\<close>
theorem admission_is_exact:
  "validateReserveAgainstSnapshot (Ledger m (ri_WalletAddress cmd)) (Position m (ri_WalletAddress cmd) (ri_MarketPDA cmd)) cmd =
     (case ReserveOrder m cmd of Inl e \<Rightarrow> Some e | Inr m' \<Rightarrow> None)"
  by (rule validate_agrees)

definition sampleInput :: "u64 \<Rightarrow> ReserveOrderInput" where
  "sampleInput q = \<lparr>ri_WalletAddress = ''alice'', ri_MarketID = 7, ri_MarketPDA = ''mkt'', ri_OriginalAction = SideBuy,
     ri_OriginalOutcome = OutcomeYes, ri_OriginalPriceTick = 50, ri_OrderType = OrderTypeLimit, ri_QtyLots = q, ri_SpendAmount = 0\<rparr>"

text \<open>A successful reservation neither creates nor destroys balance: available plus locked USDC,
  Yes shares and No shares of the wallet keep their sums, its pending amounts do not change, and
  no other wallet is touched.\<close>

theorem reserve_conserves:
  assumes "bounded m (ri_WalletAddress cmd) (ri_MarketPDA cmd)" "ReserveOrder m cmd = Inr m'"
  shows "conserves (ri_WalletAddress cmd) (ri_MarketPDA cmd) m m'"
  using assms by (rule ReserveOrder_conserves)

lemma sample_reserve:
  "bounded sampleManager ''alice'' ''mkt''" "\<exists>m'. ReserveOrder sampleManager (sampleInput 40) = Inr m'"
  "requiredReserveUnits (sampleInput 40) = 20" "CollateralLockedUnits (Position sampleManager ''alice'' ''mkt'') = 0"
proof -
  have k: "positionKey ''alice'' ''mkt'' \<noteq> positionKey ''bob'' ''mkt''" by (simp add: positionKey_def)
  have l: "Ledger sampleManager ''alice'' = zeroWallet\<lparr>AvailableUSDC := 40, LockedUSDC := 60\<rparr>"
    by (simp add: sampleManager_def)
  have p: "Position sampleManager ''alice'' ''mkt'' = zeroPosition"
    unfolding sampleManager_def by (simp add: Position_SeedPosition k) (simp add: Position_def NewManager_def)
  show "bounded sampleManager ''alice'' ''mkt''"
    by (simp add: bounded_def l p usdcTotal_def yesTotal_def noTotal_def zeroWallet_def zeroPosition_def)
  show r: "requiredReserveUnits (sampleInput 40) = 20" by code_simp
  show "CollateralLockedUnits (Position sampleManager ''alice'' ''mkt'') = 0" by (simp add: p zeroPosition_def)
  have "ri_WalletAddress (sampleInput 40) = ''alice''" "ri_OriginalAction (sampleInput 40) = SideBuy"
    by (simp_all add: sampleInput_def)
  then show "\<exists>m'. ReserveOrder sampleManager (sampleInput 40) = Inr m'"
    by (simp add: ReserveOrder_def Let_def r l zeroWallet_def)
qed

theorem reserve_conserves_witness:
  "\<exists>m'. ReserveOrder sampleManager (sampleInput 40) = Inr m' \<and> conserves ''alice'' ''mkt'' sampleManager m'"
  using reserve_conserves [of sampleManager "sampleInput 40"] sample_reserve by (auto simp: sampleInput_def)

text \<open>Releasing an order, whatever it claims to have left and whatever refund is named, only moves
  locked balance back to available: the totals of the wallet and its pending amounts are kept, and
  no other wallet is touched.\<close>
theorem release_conserves:
  assumes "bounded m (a_WalletAddress ord) (a_MarketPDA ord)"
  shows "conserves (a_WalletAddress ord) (a_MarketPDA ord) m (ReleaseLocked m ord refund)"
  using assms by (rule ReleaseLocked_conserves)

theorem release_conserves_witness:
  "conserves ''alice'' ''mkt'' sampleManager (ReleaseLocked sampleManager (orderOfInput (sampleInput 40)) 0)"
  using release_conserves [of sampleManager "orderOfInput (sampleInput 40)" 0] sample_reserve(1)
  by (simp add: orderOfInput_def sampleInput_def)

text \<open>C10: releasing the whole of an order right after reserving it restores the wallet and the position
  exactly, but for the dirty flags and the market id noted in the position.\<close>
theorem reserve_release_roundtrip:
  assumes "bounded m (ri_WalletAddress cmd) (ri_MarketPDA cmd)"
    "unat (CollateralLockedUnits (Position m (ri_WalletAddress cmd) (ri_MarketPDA cmd))) + unat (requiredReserveUnits cmd) < 2 ^ 64"
    "ReserveOrder m cmd = Inr m'"
  shows "clean (Ledger (ReleaseLocked m' (orderOfInput cmd) 0) (ri_WalletAddress cmd)) = clean (Ledger m (ri_WalletAddress cmd)) \<and>
    cleanPos (Position (ReleaseLocked m' (orderOfInput cmd) 0) (ri_WalletAddress cmd) (ri_MarketPDA cmd)) =
    cleanPos (Position m (ri_WalletAddress cmd) (ri_MarketPDA cmd))"
  using reserve_release_restores [OF assms] by blast

theorem reserve_release_roundtrip_witness:
  "\<exists>m'. ReserveOrder sampleManager (sampleInput 40) = Inr m' \<and>
     clean (Ledger (ReleaseLocked m' (orderOfInput (sampleInput 40)) 0) ''alice'') = clean (Ledger sampleManager ''alice'')"
  using reserve_release_roundtrip [of sampleManager "sampleInput 40"] sample_reserve by (auto simp: sampleInput_def)

section \<open>Once only\<close>

lemma handled_batch_known:
  assumes "fm_Batch b = Some ev" "TrimSpace (EventID ev) \<noteq> []"
  shows "phaseAt (fs_inflight (fst (handleMatchBatchMessage iter b st))) (TrimSpace (EventID ev)) \<noteq> None"
proof (cases "phaseAt (fs_inflight st) (TrimSpace (EventID ev)) = None")
  case False
  then show ?thesis using store_run_known [OF handleMatchBatch_run] by blast
next
  case True
  let ?k = "TrimSpace (EventID ev)"
  let ?e = "\<lparr>if_MatchEventID = ?k, if_MarketID = ev_MarketID ev, if_MarketPDA = ev_MarketPDA ev,
                      if_Wallets = collectMatchBatchWallets ev, if_Phase = PendingApplied,
                      if_LastEventSeq = (case fm_Seq b of None \<Rightarrow> 0 | Some s \<Rightarrow> s),
                      if_SubmittedTxSignature = [], if_RawMatchEvent = Some ev\<rparr>"
  let ?s = "snd (TakePendingTerminal (snd (Register (fs_inflight st) ?e)) ?k)"
  have new: "if_entries (fs_inflight st) ?k = None" using True by (simp add: phaseAt_def)
  have k: "phaseAt ?s ?k \<noteq> None"
    using new by (simp add: phaseAt_def Register_def TakePendingTerminal_def split: option.split)
  have "phaseAt (fs_inflight (applyPendingLifecycle iter ?k pt (st\<lparr>fs_manager := x, fs_inflight := ?s\<rparr>))) ?k \<noteq> None" for pt x
    using store_run_known [OF applyPendingLifecycle_run [of "st\<lparr>fs_manager := x, fs_inflight := ?s\<rparr>"]] k by simp
  then show ?thesis using assms new k
    by (simp add: handleMatchBatchMessage_def Let_def Inflight_Get_def Register_def case_prod_beta split: option.split)
qed

text \<open>C7: a match batch takes effect at most once.  After its message was handled, whatever messages
  the service handles next, a redelivery of the batch leaves every wallet and position as it is.\<close>
theorem batch_applied_once:
  assumes "fm_Batch b = Some ev" "TrimSpace (EventID ev) \<noteq> []"
    "fm_Batch b' = Some ev'" "TrimSpace (EventID ev') = TrimSpace (EventID ev)"
    "st' = runFunds iter msgs (fst (handleMatchBatchMessage iter b st))"
  shows "fs_manager (fst (handleMatchBatchMessage iter b' st')) = fs_manager st'"
proof (rule known_batch_ignored [OF assms(3)])
  show "phaseAt (fs_inflight st') (TrimSpace (EventID ev')) \<noteq> None"
    unfolding assms(4,5) using runFunds_run handled_batch_known [OF assms(1,2)] by (rule store_run_known)
qed

abbreviation batchMsg :: FundsMsg where
  "batchMsg \<equiv> (sampleMsg ''evt.match.execution.7'')\<lparr>fm_Batch := Some sampleBatch\<rparr>"

lemma sample_event: "TrimSpace (EventID sampleBatch) = ''b1''"
  by code_simp

theorem batch_applied_once_witness:
  "fs_manager (fst (handleMatchBatchMessage id batchMsg (fst (handleMatchBatchMessage id batchMsg (sampleState sampleManager))))) =
   fs_manager (fst (handleMatchBatchMessage id batchMsg (sampleState sampleManager)))"
  using batch_applied_once [of batchMsg sampleBatch batchMsg sampleBatch
      "fst (handleMatchBatchMessage id batchMsg (sampleState sampleManager))" id "[]" "sampleState sampleManager"]
  by (simp add: runFunds_def sample_event)

text \<open>C8: the outcome of a settlement takes effect at most once.  After a terminal message for a known
  batch, whatever messages the service handles next, no further terminal message for it, of the same
  or the opposite outcome, changes any wallet or position.\<close>
theorem settlement_applied_once:
  assumes "fm_Settlement t = Some se" "fm_Settlement t' = Some se'" "k = TrimSpace (se_MatchEventID se)" "k \<noteq> []"
    "TrimSpace (se_MatchEventID se') = k" "phaseAt (fs_inflight st) k \<noteq> None" "terminal_phase ph" "terminal_phase ph'"
    "st' = runFunds iter msgs (fst (handleTerminalMessage iter ph t st))"
  shows "fs_manager (fst (handleTerminalMessage iter ph' t' st')) = fs_manager st'"
proof -
  have "fs_inflight (fst (handleTerminalMessage iter ph t st)) = fs_inflight (applyTerminal iter k ph (se_TxSignature se) st)"
    using assms(1,3,4) by (simp add: handleTerminalMessage_def)
  then obtain p where "phaseAt (fs_inflight (fst (handleTerminalMessage iter ph t st))) k = Some p" "terminal_phase p"
    using applyTerminal_marks [OF assms(7,6)] by auto
  then have "phaseAt (fs_inflight st') k = Some p" "terminal_phase p"
    unfolding assms(9) using store_run_terminal [OF runFunds_run] by blast+
  from terminal_settlement_ignored [OF assms(8) this] show ?thesis
    using assms(2,4,5) by (simp add: handleTerminalMessage_def)
qed

abbreviation settleMsg :: FundsMsg where
  "settleMsg \<equiv> (sampleMsg ''evt.settlement.confirmed.7'')\<lparr>fm_Settlement := Some \<lparr>se_MatchEventID = ''b1'', se_TxSignature = ''tx''\<rparr>\<rparr>"

lemma trim_b1: "TrimSpace ''b1'' = ''b1''"
  by code_simp

theorem settlement_applied_once_witness:
  "let st = fst (handleTerminalMessage id Confirmed settleMsg (fst (handleMatchBatchMessage id batchMsg (sampleState sampleManager))))
   in fs_manager (fst (handleTerminalMessage id Failed settleMsg st)) = fs_manager st"
  using settlement_applied_once [of settleMsg "\<lparr>se_MatchEventID = ''b1'', se_TxSignature = ''tx''\<rparr>" settleMsg
      "\<lparr>se_MatchEventID = ''b1'', se_TxSignature = ''tx''\<rparr>" "''b1''"
      "fst (handleMatchBatchMessage id batchMsg (sampleState sampleManager))" Confirmed Failed _ id "[]"]
    handled_batch_known [of batchMsg sampleBatch id "sampleState sampleManager"]
  by (simp add: trim_b1 sample_event runFunds_def Let_def)

text \<open>A settlement outcome that arrives before its batch waits for it: handling the two messages one after the
  other, in either order, leaves the same balances and the same lifecycle.  What happens when two consumers
  handle them at the same time is the subject of \<open>FundsRaces\<close>.\<close>
theorem early_settlement_waits:
  assumes "fm_Batch b = Some ev" "TrimSpace (EventID ev) = k" "k \<noteq> []"
    "fm_Settlement t = Some se" "TrimSpace (se_MatchEventID se) = k"
    "if_entries (fs_inflight st) k = None" "pendingTerminal (fs_inflight st) k = None" "terminal_phase ph"
  shows "let early = fst (handleMatchBatchMessage iter b (fst (handleTerminalMessage iter ph t st)));
             late = fst (handleTerminalMessage iter ph t (fst (handleMatchBatchMessage iter b st)))
         in fs_manager early = fs_manager late \<and> fs_inflight early = fs_inflight late"
  using batch_then_terminal [OF assms(1) assms(2) [symmetric] assms(3-8)] by (simp add: Let_def)

theorem early_settlement_waits_witness:
  "fs_manager (fst (handleMatchBatchMessage id batchMsg (fst (handleTerminalMessage id Failed settleMsg (sampleState sampleManager))))) =
   fs_manager (fst (handleTerminalMessage id Failed settleMsg (fst (handleMatchBatchMessage id batchMsg (sampleState sampleManager)))))"
  using early_settlement_waits [of batchMsg sampleBatch "''b1''" settleMsg
      "\<lparr>se_MatchEventID = ''b1'', se_TxSignature = ''tx''\<rparr>" "sampleState sampleManager" Failed id]
  by (simp add: trim_b1 sample_event Let_def sampleState_def NewInflightStore_def)

text \<open>However often deposit confirmations are delivered, each signature is credited once: the
  ledger after a sequence of deposit messages is the ledger after crediting, in order, the first
  message of every signature that had not been recorded before.\<close>
theorem deposits_credited_once:
  assumes "\<forall>msg \<in> set msgs. fm_Transfer msg \<noteq> None"
  shows "fs_manager (fold (\<lambda>msg st. fst (handleDepositConfirmedMessage msg st)) msgs st) =
    fold creditDeposit (firsts (depositKeys (fs_deposits st))
      (map (\<lambda>msg. (tc_Signature (the (fm_Transfer msg)), the (fm_Transfer msg))) msgs)) (fs_manager st)"
  using assms by (rule handleDeposits_fold)

abbreviation depositMsg :: FundsMsg where
  "depositMsg \<equiv> (sampleMsg ''evt.deposit.confirmed'')\<lparr>fm_Transfer := Some \<lparr>tc_Signature = ''s1'', tc_WalletAddress = ''alice'', tc_AmountUnits = 5\<rparr>\<rparr>"

theorem deposits_credited_once_witness:
  "fs_manager (fold (\<lambda>msg st. fst (handleDepositConfirmedMessage msg st)) [depositMsg, depositMsg] (sampleState NewManager)) =
   creditDeposit \<lparr>tc_Signature = ''s1'', tc_WalletAddress = ''alice'', tc_AmountUnits = 5\<rparr> NewManager"
proof -
  have s: "TrimSpace ''s1'' = ''s1''" by code_simp
  have d: "fs_deposits (sampleState NewManager) = NewDepositStore" "fs_manager (sampleState NewManager) = NewManager"
    by (simp_all add: sampleState_def)
  show ?thesis
    using deposits_credited_once [of "[depositMsg, depositMsg]" "sampleState NewManager"]
    by (simp add: s d NewDepositStore_def)
qed

section \<open>Settlement\<close>

text \<open>C5: the life of a batch for a wallet that buys one outcome in it with limit orders.  If settlement
  fails, the units reserved for its fills are available again, in full, and its pending shares are
  taken back; if settlement is confirmed, the filled lots are available and the wallet is down
  exactly the units the fills cost, the surplus of the reserve having been returned.  In both cases
  what is pending is what it was before the batch.  Assumed, beside at least one fill of the wallet: in this batch the wallet
  neither sells nor buys the other outcome; no fill costs more than is reserved for it at the order's price;
  the batch releases no order; the wallet has locked at least
  the sum of what is reserved for its fills, each rounded up; its units, and its lots with those of the
  fills, are below \<open>2 ^ 63\<close>; and the wallets are trimmed and contain no bar.  A batch in which the wallet trades on
  both sides, or an order whose rounded fills add up to more than was reserved for it, breaks the balance.\<close>
theorem settlement_of_buyer:
  assumes "settles iter ev w out" "buyer m ev w out"
  shows "let cs = charges ev w; pda = ev_MarketPDA ev;
             mf = settle iter Failed (Some ev) (applyBatch ev m); mc = settle iter Confirmed (Some ev) (applyBatch ev m) in
    usdcTotal (Ledger mf w) = usdcTotal (Ledger m w) \<and>
    unat (AvailableUSDC (Ledger mf w)) = unat (AvailableUSDC (Ledger m w)) + sumN reserveOf cs \<and>
    pendShares out (Position mf w pda) = pendShares out (Position m w pda) \<and>
    availShares out (Position mf w pda) = availShares out (Position m w pda) \<and>
    usdcTotal (Ledger mc w) + sumN unitsOf cs = usdcTotal (Ledger m w) \<and>
    pendShares out (Position mc w pda) = pendShares out (Position m w pda) \<and>
    unat (availShares out (Position mc w pda)) = unat (availShares out (Position m w pda)) + sumN lotsOf cs"
  using buyer_life [OF assms] by (simp add: Let_def usdcTotal_def)

theorem settlement_of_buyer_witness:
  "usdcTotal (Ledger (settle id Failed (Some sampleBatch) (applyBatch sampleBatch sampleManager)) ''alice'') = 100 \<and>
   usdcTotal (Ledger (settle id Confirmed (Some sampleBatch) (applyBatch sampleBatch sampleManager)) ''alice'') = 42"
  using settlement_of_buyer [OF sample_settles(1) sample_roles(1)]
  by (simp add: Let_def sample_charges sample_units) (simp add: sampleManager_def usdcTotal_def zeroWallet_def)

text \<open>C6: the life of a batch for a wallet that sells one outcome in it.  If settlement fails, the lots
  locked for its fills are available again and its proceeds are taken back; if it is confirmed, the
  proceeds move from pending to available and the lots are gone.  In both cases the pending USDC is
  what it was before the batch.  Assumed, beside at least one fill of the wallet: in this batch the wallet neither buys nor
  sells the other outcome; the batch releases no order; the wallet has locked the lots of its fills; its free and
  locked lots, and its pending and its free units with the proceeds, stay below \<open>2 ^ 63\<close>; and the wallets are
  trimmed and contain no bar.  A wallet that buys and sells in one batch is not restored.\<close>
theorem settlement_of_seller:
  assumes "settles iter ev w out" "seller m ev w out"
  shows "let cs = charges ev w; pda = ev_MarketPDA ev;
             mf = settle iter Failed (Some ev) (applyBatch ev m); mc = settle iter Confirmed (Some ev) (applyBatch ev m) in
    PendingUSDC (Ledger mf w) = PendingUSDC (Ledger m w) \<and> AvailableUSDC (Ledger mf w) = AvailableUSDC (Ledger m w) \<and>
    unat (availShares out (Position mf w pda)) = unat (availShares out (Position m w pda)) + sumN lotsOf cs \<and>
    unat (lockedShares out (Position mf w pda)) + sumN lotsOf cs = unat (lockedShares out (Position m w pda)) \<and>
    PendingUSDC (Ledger mc w) = PendingUSDC (Ledger m w) \<and>
    unat (AvailableUSDC (Ledger mc w)) = unat (AvailableUSDC (Ledger m w)) + sumN unitsOf cs \<and>
    unat (lockedShares out (Position mc w pda)) + sumN lotsOf cs = unat (lockedShares out (Position m w pda)) \<and>
    availShares out (Position mc w pda) = availShares out (Position m w pda)"
  using seller_life [OF assms] by (simp add: Let_def)

theorem settlement_of_seller_witness:
  "unat (AvailableUSDC (Ledger (settle id Confirmed (Some sampleBatch) (applyBatch sampleBatch sampleManager)) ''bob'')) = 58"
  using settlement_of_seller [OF sample_settles(2) sample_roles(2)]
  by (simp add: Let_def sample_charges sample_units) (simp add: sampleManager_def zeroWallet_def)

text \<open>C13: the lifecycle of a batch only moves forward.  Whatever operations the store runs, short of a
  purge, a registered batch stays registered and its phase is reached from the old one by lifecycle
  steps, from pending through submitted to confirmed or failed, and no step leaves a terminal phase.\<close>
theorem lifecycle_forward:
  assumes "\<forall>op \<in> set ops. keeps op \<and> op_ok op" "phaseAt s k = Some p"
  shows "\<exists>q. phaseAt (fold run_op ops s) k = Some q \<and> phase_step\<^sup>*\<^sup>* p q \<and> (terminal_phase p \<longrightarrow> q = p)"
  using assms
proof (induction ops arbitrary: s p)
  case (Cons op ops)
  have op: "keeps op" "op_ok op" using Cons.prems(1) by auto
  obtain q where q: "phaseAt (run_op op s) k = Some q" "q = p \<or> phase_step p q" "terminal_phase p \<longrightarrow> q = p"
    using run_op_phase [OF op(2) Cons.prems(2)] run_op_terminal_stays [OF op(1) Cons.prems(2)] by fastforce
  obtain r where r: "phaseAt (fold run_op ops (run_op op s)) k = Some r" "phase_step\<^sup>*\<^sup>* q r" "terminal_phase q \<longrightarrow> r = q"
    using Cons.IH [OF _ q(1)] Cons.prems(1) by auto
  have "phase_step\<^sup>*\<^sup>* p r" using q(2) r(2) by (auto intro: converse_rtranclp_into_rtranclp)
  with q(3) r show ?case by auto
qed auto

abbreviation sampleEntry :: InflightMatch where
  "sampleEntry \<equiv> \<lparr>if_MatchEventID = ''b1'', if_MarketID = 7, if_MarketPDA = ''mkt'', if_Wallets = [], if_Phase = PendingApplied,
     if_LastEventSeq = 1, if_SubmittedTxSignature = [], if_RawMatchEvent = None\<rparr>"

theorem lifecycle_forward_witness:
  "\<exists>q. phaseAt (fold run_op [OpSubmitted ''b1'' ''tx'', OpTerminal ''b1'' Confirmed, OpTerminal ''b1'' Failed]
       (snd (Register NewInflightStore sampleEntry))) ''b1'' = Some q \<and> phase_step\<^sup>*\<^sup>* PendingApplied q"
  using lifecycle_forward [of "[OpSubmitted ''b1'' ''tx'', OpTerminal ''b1'' Confirmed, OpTerminal ''b1'' Failed]"
      "snd (Register NewInflightStore sampleEntry)" "''b1''" PendingApplied]
  by (auto simp: Register_def NewInflightStore_def phaseAt_def)

end
