(* ===== verification/FundsRaces.thy ===== *)
theory FundsRaces
  imports FundsProps
begin

text \<open>
  A match batch and the outcome of its settlement handled at the same time.  The funds service runs a consumer per
  subject, and the handlers share the read lock of the state: only the mutexes of the stores and of the
  wallets order them.  Here the two handlers are sequences of the sections between which the other one may
  run (\<open>handleMatchBatchMessage\<close>, \<open>applyTerminal\<close>, \<open>applyPendingLifecycle\<close> in \<open>funds/service.go\<close>), and a schedule
  is any interleaving of the two.
\<close>

section \<open>The sections of the two handlers\<close>

text \<open>The batch's handler, once it has found the batch to be new: register it, apply each fill and each release, take
  the outcome that waits, and settle by it, which is \<open>AdvanceToTerminal\<close> and then the manager.  The outcome's
  handler: advance the entry; when that did not happen, look whether there is one; then settle by the batch
  found, or leave the outcome to wait for the batch.  A fill locks the maker's wallet and then the taker's, and a
  settlement the wallets of the batch in turn.\<close>

datatype raceSection =
    BRegister | BFill MatchFill | BRelease OrderUpdate | BTake | BAdvance | BSettle
  | TAdvance | TLook | TFinish

record raceState =
  rc_manager :: Manager
  rc_inflight :: InflightStore
  rc_taken :: "PendingTerminal option"
  rc_batchAdvance :: "MatchBatchEvent option \<times> bool \<times> bool"
  rc_advance :: "MatchBatchEvent option \<times> bool \<times> bool"
  rc_found :: bool

definition batchSections :: "MatchBatchEvent \<Rightarrow> raceSection list" where
  "batchSections ev = BRegister # map BFill (Fills ev) @ map BRelease (OrderUpdates ev) @ [BTake, BAdvance, BSettle]"

definition terminalSections :: "raceSection list" where
  "terminalSections = [TAdvance, TLook, TFinish]"

definition batchEntry :: "u64 option \<Rightarrow> MatchBatchEvent \<Rightarrow> InflightMatch" where
  "batchEntry seq ev = \<lparr>if_MatchEventID = TrimSpace (EventID ev), if_MarketID = ev_MarketID ev, if_MarketPDA = ev_MarketPDA ev,
     if_Wallets = collectMatchBatchWallets ev, if_Phase = PendingApplied, if_LastEventSeq = (case seq of None \<Rightarrow> 0 | Some s \<Rightarrow> s),
     if_SubmittedTxSignature = [], if_RawMatchEvent = Some ev\<rparr>"

text \<open>What \<open>AdvanceToTerminal\<close> answers, and what is settled by its answer.\<close>

definition terminalAnswer :: "InflightStore \<Rightarrow> string \<Rightarrow> Phase \<Rightarrow> (MatchBatchEvent option \<times> bool \<times> bool) \<times> InflightStore" where
  "terminalAnswer s k phase = (let (raw, transitioned, conflict, s) = AdvanceToTerminal s k phase in ((raw, transitioned, conflict), s))"

definition settleBy ::
  "(deltas \<Rightarrow> deltas) \<Rightarrow> Phase \<Rightarrow> MatchBatchEvent option \<times> bool \<times> bool \<Rightarrow> Manager \<Rightarrow> Manager" where
  "settleBy iter phase answer m = (case answer of (raw, transitioned, conflict) \<Rightarrow>
     if transitioned \<and> \<not> conflict then settle iter phase raw m else m)"

fun runSection ::
  "(deltas \<Rightarrow> deltas) \<Rightarrow> u64 option \<Rightarrow> MatchBatchEvent \<Rightarrow> Phase \<Rightarrow> string \<Rightarrow> raceSection \<Rightarrow> raceState \<Rightarrow> raceState" where
  "runSection iter seq ev ph txSig BRegister s = s\<lparr>rc_inflight := snd (Register (rc_inflight s) (batchEntry seq ev))\<rparr>"
| "runSection iter seq ev ph txSig (BFill f) s = s\<lparr>rc_manager := applyFill ev f (rc_manager s)\<rparr>"
| "runSection iter seq ev ph txSig (BRelease u) s = s\<lparr>rc_manager := applyUpdate ev u (rc_manager s)\<rparr>"
| "runSection iter seq ev ph txSig BTake s =
     (let (pt, i) = TakePendingTerminal (rc_inflight s) (TrimSpace (EventID ev)) in s\<lparr>rc_inflight := i, rc_taken := pt\<rparr>)"
| "runSection iter seq ev ph txSig BAdvance s =
     (case rc_taken s of
        None \<Rightarrow> s
      | Some pt \<Rightarrow>
          if pt_Phase pt = Confirmed \<or> pt_Phase pt = Failed
          then (let (answer, i) = terminalAnswer (rc_inflight s) (TrimSpace (EventID ev)) (pt_Phase pt) in s\<lparr>rc_inflight := i, rc_batchAdvance := answer\<rparr>)
          else if pt_Phase pt = Submitted
          then s\<lparr>rc_inflight := snd (snd (AdvanceToSubmitted (rc_inflight s) (TrimSpace (EventID ev)) (pt_TxSignature pt)))\<rparr>
          else s)"
| "runSection iter seq ev ph txSig BSettle s =
     (case rc_taken s of None \<Rightarrow> s | Some pt \<Rightarrow> s\<lparr>rc_manager := settleBy iter (pt_Phase pt) (rc_batchAdvance s) (rc_manager s)\<rparr>)"
| "runSection iter seq ev ph txSig TAdvance s =
     (let (answer, i) = terminalAnswer (rc_inflight s) (TrimSpace (EventID ev)) ph in s\<lparr>rc_inflight := i, rc_advance := answer\<rparr>)"
| "runSection iter seq ev ph txSig TLook s = s\<lparr>rc_found := Inflight_Get (rc_inflight s) (TrimSpace (EventID ev)) \<noteq> None\<rparr>"
| "runSection iter seq ev ph txSig TFinish s =
     (case rc_advance s of (raw, transitioned, conflict) \<Rightarrow>
        if conflict then s
        else if transitioned then s\<lparr>rc_manager := settle iter ph raw (rc_manager s)\<rparr>
        else if rc_found s then s
        else s\<lparr>rc_inflight := AddPendingTerminal (rc_inflight s)
               \<lparr>pt_MatchEventID = TrimSpace (EventID ev), pt_Phase = ph, pt_TxSignature = txSig\<rparr>\<rparr>)"

definition raceStart :: "FundsState \<Rightarrow> raceState" where
  "raceStart st = \<lparr>rc_manager = fs_manager st, rc_inflight = fs_inflight st, rc_taken = None, rc_batchAdvance = (None, False, False),
     rc_advance = (None, False, False), rc_found = False\<rparr>"

definition race ::
  "(deltas \<Rightarrow> deltas) \<Rightarrow> u64 option \<Rightarrow> MatchBatchEvent \<Rightarrow> Phase \<Rightarrow> string \<Rightarrow> FundsState \<Rightarrow> raceSection list \<Rightarrow> raceState" where
  "race iter seq ev ph txSig st sch = fold (runSection iter seq ev ph txSig) sch (raceStart st)"

section \<open>Schedules\<close>

definition before :: "raceSection list \<Rightarrow> raceSection \<Rightarrow> raceSection \<Rightarrow> bool" where
  "before sch x y \<longleftrightarrow> x \<in> set (takeWhile (\<lambda>z. z \<noteq> y) sch)"

fun isWork :: "raceSection \<Rightarrow> bool" where
  "isWork (BFill f) = True"
| "isWork (BRelease u) = True"
| "isWork _ = False"

text \<open>The outcome's handler finishes after the last fill and release.\<close>

definition workDone :: "raceSection list \<Rightarrow> bool" where
  "workDone sch \<longleftrightarrow> (\<forall>x \<in> set (dropWhile (\<lambda>z. z \<noteq> TFinish) sch). \<not> isWork x)"

fun workOf :: "MatchBatchEvent \<Rightarrow> raceSection \<Rightarrow> Manager \<Rightarrow> Manager" where
  "workOf ev (BFill f) = applyFill ev f"
| "workOf ev (BRelease u) = applyUpdate ev u"
| "workOf ev _ = id"

text \<open>A section that settles by the manager; \<open>t\<close> says whether the outcome's handler may.\<close>

fun worksFirst :: "bool \<Rightarrow> raceSection list \<Rightarrow> bool" where
  "worksFirst t [] = True"
| "worksFirst t (x # sch) = ((x = BSettle \<or> t \<and> x = TFinish \<longrightarrow> filter isWork sch = []) \<and> worksFirst t sch)"

text \<open>Fills and releases commute with every section that does not settle.\<close>

lemma run_work: "isWork x \<Longrightarrow> runSection iter seq ev ph txSig x s = s\<lparr>rc_manager := workOf ev x (rc_manager s)\<rparr>"
  by (cases x) simp_all

lemma run_other:
  assumes "\<not> isWork x" "x \<noteq> BSettle" "x = TFinish \<Longrightarrow> \<not> fst (snd (rc_advance s))"
  shows "runSection iter seq ev ph txSig x (s\<lparr>rc_manager := m\<rparr>) = (runSection iter seq ev ph txSig x s)\<lparr>rc_manager := m\<rparr>"
    "rc_manager (runSection iter seq ev ph txSig x s) = rc_manager s"
  using assms by (cases x; auto simp: case_prod_beta Let_def split: option.split prod.split)+

lemma run_advance:
  assumes "x \<noteq> TAdvance" shows "rc_advance (runSection iter seq ev ph txSig x s) = rc_advance s"
  using assms by (cases x) (auto simp: case_prod_beta Let_def split: option.split prod.split)

lemma works_move:
  assumes "worksFirst t sch" "\<not> t \<Longrightarrow> TAdvance \<notin> set sch \<and> \<not> fst (snd (rc_advance s))"
  shows "fold (runSection iter seq ev ph txSig) sch s =
    fold (runSection iter seq ev ph txSig) (filter (\<lambda>x. \<not> isWork x) sch) (s\<lparr>rc_manager := fold (workOf ev) (filter isWork sch) (rc_manager s)\<rparr>)"
  using assms
proof (induction sch arbitrary: s)
  case (Cons x sch)
  let ?run = "runSection iter seq ev ph txSig"
  have w: "worksFirst t sch" using Cons.prems(1) by simp
  have t: "\<not> t \<Longrightarrow> TAdvance \<notin> set sch \<and> \<not> fst (snd (rc_advance (?run x s)))"
    using Cons.prems(2) run_advance [of x iter seq ev ph txSig s] by auto
  note IH = Cons.IH [OF w t]
  show ?case
  proof (cases "isWork x")
    case True
    then show ?thesis using IH by (simp add: run_work)
  next
    case False
    show ?thesis
    proof (cases "filter isWork sch = []")
      case True
      then show ?thesis using IH False by simp
    next
      case some: False
      then have "x \<noteq> BSettle" "x = TFinish \<Longrightarrow> \<not> fst (snd (rc_advance s))" using Cons.prems by auto
      note o = run_other [OF False this]
      show ?thesis using IH False by (simp add: o)
    qed
  qed
qed simp

lemma worksFirst_none: "filter isWork sch = [] \<Longrightarrow> worksFirst t sch"
  by (induction sch) (simp_all split: if_splits)

lemma worksFirst_shuffles:
  "sch \<in> shuffles xs ys \<Longrightarrow> worksFirst False xs \<Longrightarrow> filter isWork ys = [] \<Longrightarrow> BSettle \<notin> set ys \<Longrightarrow> worksFirst False sch"
proof (induction xs ys arbitrary: sch rule: shuffles.induct)
  case (3 x xs y ys)
  from "3.prems"(1) consider sch' where "sch = x # sch'" "sch' \<in> shuffles xs (y # ys)" | sch' where "sch = y # sch'" "sch' \<in> shuffles (x # xs) ys"
    by auto
  then show ?case
  proof cases
    case 1
    have "filter isWork sch' = []" if "x = BSettle"
    proof -
      have "filter isWork xs = []" using "3.prems"(2) that by simp
      then show ?thesis using "3.prems"(3) set_shuffles [OF 1(2)] unfolding filter_empty_conv by auto
    qed
    then show ?thesis using 1 "3.IH"(1) [of sch'] "3.prems" by simp
  next
    case 2
    then show ?thesis using "3.IH"(2) [of sch'] "3.prems" by (auto split: if_splits)
  qed
qed (auto intro: worksFirst_none)

lemma worksFirst_True: "worksFirst False sch \<Longrightarrow> workDone sch \<Longrightarrow> worksFirst True sch"
proof (induction sch)
  case (Cons x sch)
  then show ?case by (cases "x = TFinish") (auto simp: workDone_def filter_empty_conv dest: set_dropWhileD)
qed simp

lemma before_filter: "\<not> isWork x \<Longrightarrow> \<not> isWork y \<Longrightarrow> before (filter (\<lambda>x. \<not> isWork x) sch) x y = before sch x y"
  by (induction sch) (auto simp: before_def)

lemma batchSections_filter:
  "filter isWork (batchSections ev) = map BFill (Fills ev) @ map BRelease (OrderUpdates ev)"
  "filter (\<lambda>x. \<not> isWork x) (batchSections ev) = [BRegister, BTake, BAdvance, BSettle]"
  "worksFirst False (batchSections ev)"
proof -
  have w: "filter isWork (map BFill fs) = map BFill fs" "filter isWork (map BRelease us) = map BRelease us"
    "filter (\<lambda>x. \<not> isWork x) (map BFill fs) = []" "filter (\<lambda>x. \<not> isWork x) (map BRelease us) = []" for fs us
    by (induction fs; simp) (induction us; simp)+
  show "filter isWork (batchSections ev) = map BFill (Fills ev) @ map BRelease (OrderUpdates ev)"
    "filter (\<lambda>x. \<not> isWork x) (batchSections ev) = [BRegister, BTake, BAdvance, BSettle]"
    by (simp_all add: batchSections_def w)
  have "worksFirst False (map BRelease us @ [BTake, BAdvance, BSettle])" for us by (induction us) simp_all
  then have "worksFirst False (map BFill fs @ map BRelease us @ [BTake, BAdvance, BSettle])" for fs us by (induction fs) simp_all
  then show "worksFirst False (batchSections ev)" by (simp add: batchSections_def)
qed

lemma fold_works: "fold (workOf ev) (map BFill (Fills ev) @ map BRelease (OrderUpdates ev)) m = applyBatch ev m"
  by (simp add: applyBatch_def fold_map comp_def)

section \<open>Every interleaving of the two\<close>

text \<open>The sections that are not fills or releases, on a state whose fills and releases are done.\<close>

lemma race_moved:
  assumes "sch \<in> shuffles (batchSections ev) ys" "filter isWork ys = []" "BSettle \<notin> set ys"
    "(workDone sch \<or> TAdvance \<notin> set ys \<and> \<not> fst (snd (rc_advance s)))"
  shows "fold (runSection iter seq ev ph txSig) sch s = fold (runSection iter seq ev ph txSig) (filter (\<lambda>x. \<not> isWork x) sch)
      (s\<lparr>rc_manager := applyBatch ev (rc_manager s)\<rparr>)"
    "filter (\<lambda>x. \<not> isWork x) sch \<in> shuffles [BRegister, BTake, BAdvance, BSettle] ys"
proof -
  have ys: "filter (\<lambda>x. \<not> isWork x) ys = ys" using assms(2) by (simp add: filter_empty_conv filter_id_conv)
  have f: "filter P sch \<in> shuffles (filter P (batchSections ev)) (filter P ys)" for P
    using assms(1) filter_shuffles [of P "batchSections ev" ys] by blast
  from f [of isWork] have w: "filter isWork sch = map BFill (Fills ev) @ map BRelease (OrderUpdates ev)"
    by (simp add: assms(2) batchSections_filter)
  from f [of "\<lambda>x. \<not> isWork x"] show "filter (\<lambda>x. \<not> isWork x) sch \<in> shuffles [BRegister, BTake, BAdvance, BSettle] ys"
    by (simp add: batchSections_filter ys)
  have first: "worksFirst False sch" by (rule worksFirst_shuffles [OF assms(1) batchSections_filter(3) assms(2,3)])
  have "TAdvance \<notin> set sch" if "TAdvance \<notin> set ys" using set_shuffles [OF assms(1)] that by (auto simp: batchSections_def)
  then show "fold (runSection iter seq ev ph txSig) sch s = fold (runSection iter seq ev ph txSig) (filter (\<lambda>x. \<not> isWork x) sch)
      (s\<lparr>rc_manager := applyBatch ev (rc_manager s)\<rparr>)"
    using works_move [of "workDone sch" sch s iter seq ev ph txSig] worksFirst_True [OF first] first assms(4)
    unfolding w fold_works by (cases "workDone sch") auto
qed

text \<open>One after the other: the entry at the end, and the balances settled by the outcome.\<close>

lemma late_outcome:
  fixes iter :: "deltas \<Rightarrow> deltas"
  assumes "fm_Batch b = Some ev" "TrimSpace (EventID ev) = k" "k \<noteq> []"
    "fm_Settlement t = Some se" "TrimSpace (se_MatchEventID se) = k"
    "if_entries (fs_inflight st) k = None" "pendingTerminal (fs_inflight st) k = None" "terminal_phase ph"
  defines "late \<equiv> fst (handleTerminalMessage iter ph t (fst (handleMatchBatchMessage iter b st)))"
  shows "fs_manager late = settle iter ph (Some ev) (applyBatch ev (fs_manager st))"
    "fs_inflight late = (fs_inflight st)\<lparr>if_entries := (if_entries (fs_inflight st))(k \<mapsto> (batchEntry (fm_Seq b) ev)\<lparr>if_Phase := ph\<rparr>)\<rparr>"
proof -
  have e: "fs_inflight (fst (handleMatchBatchMessage iter b st)) =
      (fs_inflight st)\<lparr>if_entries := (if_entries (fs_inflight st))(k \<mapsto> batchEntry (fm_Seq b) ev)\<rparr>"
    "fs_manager (fst (handleMatchBatchMessage iter b st)) = applyBatch ev (fs_manager st)"
    using assms(1-3,6,7) by (simp_all add: handleMatchBatchMessage_def Let_def Inflight_Get_def Register_def TakePendingTerminal_def batchEntry_def)
  have p: "if_Phase (batchEntry seq ev) = PendingApplied" "if_RawMatchEvent (batchEntry seq ev) = Some ev" for seq
    by (simp_all add: batchEntry_def)
  show "fs_manager late = settle iter ph (Some ev) (applyBatch ev (fs_manager st))"
    "fs_inflight late = (fs_inflight st)\<lparr>if_entries := (if_entries (fs_inflight st))(k \<mapsto> (batchEntry (fm_Seq b) ev)\<lparr>if_Phase := ph\<rparr>)\<rparr>"
    using assms(3-5,8) by (auto simp: late_def handleTerminalMessage_def Let_def applyTerminal_def e AdvanceToTerminal_def IsTerminal_def p terminal_phase_def)
qed

text \<open>The sections on an entry that is new, after the batch's work.\<close>

lemma race_early:
  fixes iter :: "deltas \<Rightarrow> deltas" and seq :: "u64 option" and txSig :: string and m :: Manager
  assumes "u \<in> shuffles [BRegister, BTake, BAdvance, BSettle] [TLook, TFinish]" "TrimSpace (EventID ev) = k"
    "if_entries i k = None" "pendingTerminal i k = None" "terminal_phase ph"
  defines "r \<equiv> fold (runSection iter seq ev ph txSig) u \<lparr>rc_manager = m, rc_inflight = i, rc_taken = None, rc_batchAdvance = (None, False, False),
     rc_advance = (None, False, False), rc_found = False\<rparr>"
  shows "if before u TLook BRegister \<and> before u TFinish BTake
    then rc_manager r = settle iter ph (Some ev) m \<and> rc_inflight r = i\<lparr>if_entries := (if_entries i)(k \<mapsto> (batchEntry seq ev)\<lparr>if_Phase := ph\<rparr>)\<rparr>
    else rc_manager r = m \<and> phaseAt (rc_inflight r) k = Some PendingApplied"
proof -
  have p: "if_Phase (batchEntry seq ev) = PendingApplied" "if_RawMatchEvent (batchEntry seq ev) = Some ev" "if_MatchEventID (batchEntry seq ev) = k"
    by (simp_all add: batchEntry_def assms(2))
  have ph: "ph = Confirmed \<or> ph = Failed" using assms(5) by (simp add: terminal_phase_def)
  have t: "(pendingTerminal i)(k := None) = pendingTerminal i" using assms(4) by (simp add: fun_upd_idem)
  note d = Register_def TakePendingTerminal_def AddPendingTerminal_def Inflight_Get_def terminalAnswer_def AdvanceToTerminal_def IsTerminal_def settleBy_def
    phaseAt_def before_def
  show ?thesis using assms(1,3,4) ph unfolding r_def
    by (elim disjE) (auto simp: d p t assms(2))
qed

lemma race_late:
  fixes iter :: "deltas \<Rightarrow> deltas" and seq :: "u64 option" and txSig :: string and m :: Manager
  assumes "u \<in> shuffles [BTake, BAdvance, BSettle] [TAdvance, TLook, TFinish]" "TrimSpace (EventID ev) = k"
    "pendingTerminal i k = None" "terminal_phase ph"
  defines "r \<equiv> fold (runSection iter seq ev ph txSig) u \<lparr>rc_manager = m, rc_inflight = i\<lparr>if_entries := (if_entries i)(k \<mapsto> batchEntry seq ev)\<rparr>,
     rc_taken = None, rc_batchAdvance = (None, False, False), rc_advance = (None, False, False), rc_found = False\<rparr>"
  shows "rc_manager r = settle iter ph (Some ev) m \<and> rc_inflight r = i\<lparr>if_entries := (if_entries i)(k \<mapsto> (batchEntry seq ev)\<lparr>if_Phase := ph\<rparr>)\<rparr>"
proof -
  have p: "if_Phase (batchEntry seq ev) = PendingApplied" "if_RawMatchEvent (batchEntry seq ev) = Some ev"
    by (simp_all add: batchEntry_def)
  have ph: "ph = Confirmed \<or> ph = Failed" using assms(4) by (simp add: terminal_phase_def)
  note d = TakePendingTerminal_def Inflight_Get_def terminalAnswer_def AdvanceToTerminal_def IsTerminal_def
  show ?thesis using assms(1,3) ph unfolding r_def
    by (elim disjE) (auto simp: d p assms(2))
qed

lemma raceStart_manager: "rc_manager (raceStart st) = fs_manager st"
  by (simp add: raceStart_def)

text \<open>C9: a settlement outcome that arrives while its batch is being applied, by another consumer.  The two handlers
  are cut into the sections between which the other may run, and every interleaving of the sections is
  considered, on a batch that is new and has no outcome waiting.  If the outcome's handler advances the entry after
  it was registered, the balances and the lifecycle are those of handling one message after the other,
  provided that it settles after the last fill and release; nothing is said of an outcome that settles in their
  midst.  If it finds no entry to advance, the result is the same provided that it also looks before the entry
  is registered, and leaves the outcome before the batch's handler takes what waits.  In every other case the
  outcome is lost: both messages have been handled, the fills are applied, and the entry is left pending.\<close>
theorem settlement_races_batch:
  assumes "fm_Batch b = Some ev" "TrimSpace (EventID ev) = k" "k \<noteq> []"
    "fm_Settlement t = Some se" "TrimSpace (se_MatchEventID se) = k"
    "if_entries (fs_inflight st) k = None" "pendingTerminal (fs_inflight st) k = None" "terminal_phase ph"
    "sch \<in> shuffles (batchSections ev) terminalSections"
  shows "let late = fst (handleTerminalMessage iter ph t (fst (handleMatchBatchMessage iter b st)));
             r = race iter (fm_Seq b) ev ph (se_TxSignature se) st sch;
             same = (rc_manager r = fs_manager late \<and> rc_inflight r = fs_inflight late)
         in if before sch BRegister TAdvance then workDone sch \<longrightarrow> same
            else if before sch TLook BRegister \<and> before sch TFinish BTake then same
            else rc_manager r = applyBatch ev (fs_manager st) \<and> phaseAt (rc_inflight r) k = Some PendingApplied"
proof -
  let ?run = "runSection iter (fm_Seq b) ev ph (se_TxSignature se)" and ?i = "fs_inflight st" and ?m = "applyBatch ev (fs_manager st)"
  note late = late_outcome [OF assms(1-8), of iter]
  consider (first) sch' where "sch = BRegister # sch'" | (early) sch' where "sch = TAdvance # sch'" "sch' \<in> shuffles (batchSections ev) [TLook, TFinish]"
    using assms(9) by (auto simp: batchSections_def terminalSections_def)
  then show ?thesis
  proof cases
    case first
    have b: "before sch BRegister TAdvance" by (simp add: before_def first)
    have same: "rc_manager (race iter (fm_Seq b) ev ph (se_TxSignature se) st sch) = settle iter ph (Some ev) ?m \<and>
        rc_inflight (race iter (fm_Seq b) ev ph (se_TxSignature se) st sch) =
          ?i\<lparr>if_entries := (if_entries ?i)(k \<mapsto> (batchEntry (fm_Seq b) ev)\<lparr>if_Phase := ph\<rparr>)\<rparr>" if w: "workDone sch"
    proof -
      have t: "filter isWork terminalSections = []" "BSettle \<notin> set terminalSections" by (simp_all add: terminalSections_def)
      note m = race_moved(1) [OF assms(9) t, of "raceStart st" iter "fm_Seq b" ph "se_TxSignature se"]
        race_moved(2) [OF assms(9) t, of "raceStart st"]
      obtain u where u: "filter (\<lambda>x. \<not> isWork x) sch = BRegister # u" "u \<in> shuffles [BTake, BAdvance, BSettle] [TAdvance, TLook, TFinish]"
        using m(2) w by (auto simp: first terminalSections_def)
      have r: "?run BRegister ((raceStart st)\<lparr>rc_manager := ?m\<rparr>) = \<lparr>rc_manager = ?m, rc_inflight = ?i\<lparr>if_entries := (if_entries ?i)(k \<mapsto> batchEntry (fm_Seq b) ev)\<rparr>,
          rc_taken = None, rc_batchAdvance = (None, False, False), rc_advance = (None, False, False), rc_found = False\<rparr>"
        using assms(2,6) by (simp add: raceStart_def Register_def batchEntry_def)
      show ?thesis
        using m(1) w race_late [OF u(2) assms(2,7,8), of iter "fm_Seq b" "se_TxSignature se" ?m]
        by (simp add: race_def u(1) r raceStart_manager del: runSection.simps)
    qed
    show ?thesis using b same unfolding Let_def late by simp
  next
    case early
    have nb: "\<not> before sch BRegister TAdvance" by (simp add: before_def early(1))
    have bf: "before sch x y = before sch' x y" if "x \<noteq> TAdvance" "y \<noteq> TAdvance" for x y using that by (simp add: before_def early(1))
    define s where "s = ?run TAdvance (raceStart st)"
    have s: "s = raceStart st" using assms(2,6) by (simp add: s_def raceStart_def terminalAnswer_def AdvanceToTerminal_def)
    have w: "filter isWork [TLook, TFinish] = []" "BSettle \<notin> set [TLook, TFinish]" by simp_all
    have a: "workDone sch' \<or> TAdvance \<notin> set [TLook, TFinish] \<and> \<not> fst (snd (rc_advance s))" by (simp add: s raceStart_def)
    note m = race_moved(1) [OF early(2) w a, of iter "fm_Seq b" ph "se_TxSignature se"] race_moved(2) [OF early(2) w a]
    have r: "s\<lparr>rc_manager := applyBatch ev (rc_manager s)\<rparr> = \<lparr>rc_manager = ?m, rc_inflight = ?i, rc_taken = None, rc_batchAdvance = (None, False, False),
        rc_advance = (None, False, False), rc_found = False\<rparr>" by (simp add: s raceStart_def)
    have race: "race iter (fm_Seq b) ev ph (se_TxSignature se) st sch = fold ?run (filter (\<lambda>x. \<not> isWork x) sch')
        \<lparr>rc_manager = ?m, rc_inflight = ?i, rc_taken = None, rc_batchAdvance = (None, False, False), rc_advance = (None, False, False), rc_found = False\<rparr>"
      using m(1) r by (simp add: race_def early(1) s_def [symmetric] del: runSection.simps)
    show ?thesis
      using race_early [OF m(2) assms(2,6,7,8), of iter "fm_Seq b" "se_TxSignature se" ?m] nb
      unfolding Let_def late race by (simp add: before_filter bf)
  qed
qed

text \<open>An outcome that comes to wait after the fills and is taken, and one that is lost since the batch is registered
  between the two looks of its handler.\<close>

theorem settlement_races_batch_witness:
  "let late = fst (handleTerminalMessage id Failed settleMsg (fst (handleMatchBatchMessage id batchMsg (sampleState sampleManager))));
       work = map BFill (Fills sampleBatch) @ map BRelease (OrderUpdates sampleBatch);
       waits = race id (fm_Seq batchMsg) sampleBatch Failed ''tx'' (sampleState sampleManager)
         ([TAdvance, TLook, BRegister] @ work @ [TFinish, BTake, BAdvance, BSettle]);
       lost = race id (fm_Seq batchMsg) sampleBatch Failed ''tx'' (sampleState sampleManager)
         ([TAdvance, BRegister] @ work @ [TLook, BTake, BAdvance, BSettle, TFinish])
   in rc_manager waits = fs_manager late \<and> rc_inflight waits = fs_inflight late \<and>
      rc_manager lost = applyBatch sampleBatch sampleManager \<and> phaseAt (rc_inflight lost) ''b1'' = Some PendingApplied"
proof -
  have e: "fm_Batch batchMsg = Some sampleBatch" "fm_Settlement settleMsg = Some \<lparr>se_MatchEventID = ''b1'', se_TxSignature = ''tx''\<rparr>" by simp_all
  have n: "if_entries (fs_inflight (sampleState sampleManager)) ''b1'' = None" "pendingTerminal (fs_inflight (sampleState sampleManager)) ''b1'' = None"
    "terminal_phase Failed" by (simp_all add: sampleState_def NewInflightStore_def terminal_phase_def)
  have m: "fs_manager (sampleState sampleManager) = sampleManager" by (simp add: sampleState_def)
  note t = settlement_races_batch [OF e(1) sample_event _ e(2) _ n]
  show ?thesis
    using t [of "[TAdvance, TLook, BRegister] @ map BFill (Fills sampleBatch) @ map BRelease (OrderUpdates sampleBatch) @ [TFinish, BTake, BAdvance, BSettle]" id]
      t [of "[TAdvance, BRegister] @ map BFill (Fills sampleBatch) @ map BRelease (OrderUpdates sampleBatch) @ [TLook, BTake, BAdvance, BSettle, TFinish]" id]
    by (simp add: trim_b1 m Let_def batchSections_def terminalSections_def before_def sampleBatch_def sampleBatchOf_def Cons_in_shuffles_iff)
qed

end
