(* ===== verification/Assoc.thy ===== *)
theory Assoc
  imports Prelude "HOL-Library.AList"
begin

text \<open>
  Association lists, for the Go maps that the code ranges over and for the tables whose rows it scans: what an update
  leaves in the list.
\<close>

lemma set_alist_update: "set (AList.update k v xs) \<subseteq> insert (k, v) (set xs)"
  by (induction xs) auto

lemma alist_update_all:
  "\<forall>(i, x) \<in> set xs. P i x \<Longrightarrow> P k v \<Longrightarrow> \<forall>(i, x) \<in> set (AList.update k v xs). P i x"
  using set_alist_update [of k v xs] by blast

lemma alist_lookup_all: "\<forall>(i, x) \<in> set xs. P i x \<Longrightarrow> map_of xs k = Some v \<Longrightarrow> P k v"
  by (auto dest: map_of_SomeD)

end
