(* ===== verification/FundsRecovery.thy ===== *)
theory FundsRecovery
  imports FundsRuns Assoc
begin

text \<open>
  How the funds service keeps its balances across a restart: the projector that writes the dirty ledgers and positions
  with a recovery record in one transaction (\<open>funds/projector.go\<close>), the record itself (\<open>funds/recovery_store.go\<close>)
  and the start of the service that reads them back (\<open>funds/service.go\<close>).

  The tables are association lists from their primary keys.  The columns are signed: 64-bit words read with \<open>sint\<close>.
  The Redis copy is left out; that writing it may fail is not, because the keys are then marked dirty again.
\<close>

section \<open>The tables\<close>

record walletRow =
  ac_TotalUnits :: i64
  ac_FreeUnits :: i64
  ac_LockedUnits :: i64
  ac_PendingUnits :: i64

record positionRow =
  po_MarketPDA :: string
  po_YesFree :: i64
  po_YesLocked :: i64
  po_YesPending :: i64
  po_NoFree :: i64
  po_NoLocked :: i64
  po_NoPending :: i64
  po_CollateralLocked :: i64

record RecoveryState =
  rv_LastFlushedEventSeq :: u64
  rv_Inflight :: "InflightMatch list"
  rv_PendingTerminals :: "PendingTerminal list"
  rv_PendingReserves :: "PendingReserve list"
  rv_ProcessedSubmits :: "string list"
  rv_ProcessedDeposits :: "string list"
  rv_ProcessedWithdrawals :: "string list"

record fundsDB =
  fd_wallets :: "(string \<times> walletRow) list"
  fd_positions :: "((u64 \<times> string) \<times> positionRow) list"
  fd_recovery :: "RecoveryState option"

definition nonNegativePendingUnits :: "i64 \<Rightarrow> i64" where
  "nonNegativePendingUnits v = (if v <s 0 then 0 else v)"

definition walletRowOf :: "UserWallet \<Rightarrow> walletRow" where
  "walletRowOf l = (let pending = nonNegativePendingUnits (PendingUSDC l) in
     \<lparr>ac_TotalUnits = AvailableUSDC l + LockedUSDC l + pending, ac_FreeUnits = AvailableUSDC l,
      ac_LockedUnits = LockedUSDC l, ac_PendingUnits = pending\<rparr>)"

definition upsertWallet :: "DirtyWalletSnapshot \<Rightarrow> (string \<times> walletRow) list \<Rightarrow> (string \<times> walletRow) list" where
  "upsertWallet s rows = AList.update (dw_WalletAddress s) (walletRowOf (dw_Ledger s)) rows"

definition positionRowOf :: "string \<Rightarrow> MarketPosition \<Rightarrow> positionRow" where
  "positionRowOf pda p = \<lparr>po_MarketPDA = pda, po_YesFree = AvailableYesShares p, po_YesLocked = LockedYesShares p,
     po_YesPending = PendingYesShares p, po_NoFree = AvailableNoShares p, po_NoLocked = LockedNoShares p,
     po_NoPending = PendingNoShares p, po_CollateralLocked = CollateralLockedUnits p\<rparr>"

definition upsertPosition ::
  "DirtyPositionSnapshot \<Rightarrow> ((u64 \<times> string) \<times> positionRow) list \<Rightarrow> ((u64 \<times> string) \<times> positionRow) list" where
  "upsertPosition s rows = (if dp_MarketID s = 0 then rows
     else AList.update (dp_MarketID s, dp_WalletAddress s) (positionRowOf (dp_MarketPDA s) (dp_Position s)) rows)"

text \<open>The checks of the schema on the columns.\<close>

definition walletRowAllowed :: "walletRow \<Rightarrow> bool" where
  "walletRowAllowed r \<longleftrightarrow> 0 \<le>s ac_TotalUnits r \<and> 0 \<le>s ac_FreeUnits r \<and> 0 \<le>s ac_LockedUnits r"

definition positionRowAllowed :: "positionRow \<Rightarrow> bool" where
  "positionRowAllowed r \<longleftrightarrow> 0 \<le>s po_YesFree r \<and> 0 \<le>s po_YesLocked r \<and> 0 \<le>s po_NoFree r \<and> 0 \<le>s po_NoLocked r
     \<and> 0 \<le>s po_CollateralLocked r"

text \<open>An upsert refuses a second row for the same key in one statement; a statement takes 500 snapshots.\<close>

definition projectorBatchLimit :: nat where "projectorBatchLimit = 500"

definition noRowTwice :: "'k option list \<Rightarrow> bool" where
  "noRowTwice ks \<longleftrightarrow> list_all (\<lambda>i. ks ! i = None \<or>
     list_all (\<lambda>j. ks ! j \<noteq> ks ! i \<or> j div projectorBatchLimit \<noteq> i div projectorBatchLimit) [0..<i]) [0..<length ks]"

definition upsertRecoveryState :: "RecoveryState \<Rightarrow> fundsDB \<Rightarrow> fundsDB" where
  "upsertRecoveryState recovery db = db\<lparr>fd_recovery := Some recovery\<rparr>"

text \<open>The transaction of a flush: all of it, or nothing when a row is refused.  The foreign keys and the other indices of the
  tables are left out: a transaction may fail at any time.\<close>

definition flushPostgres ::
  "DirtyWalletSnapshot list \<Rightarrow> DirtyPositionSnapshot list \<Rightarrow> RecoveryState \<Rightarrow> fundsDB \<Rightarrow> fundsDB option" where
  "flushPostgres ws ps recovery db =
     (if list_all (\<lambda>s. walletRowAllowed (walletRowOf (dw_Ledger s))) ws
        \<and> list_all (\<lambda>s. dp_MarketID s = 0 \<or> positionRowAllowed (positionRowOf (dp_MarketPDA s) (dp_Position s))) ps
        \<and> noRowTwice (map (\<lambda>s. Some (dw_WalletAddress s)) ws)
        \<and> noRowTwice (map (\<lambda>s. if dp_MarketID s = 0 then None else Some (dp_MarketID s, dp_WalletAddress s)) ps)
      then Some (upsertRecoveryState recovery
        (db\<lparr>fd_wallets := fold upsertWallet ws (fd_wallets db), fd_positions := fold upsertPosition ps (fd_positions db)\<rparr>))
      else None)"

section \<open>Capturing\<close>

text \<open>The order in which the stores list their entries: Go's map iteration, or the sorted keys.\<close>

record storeOrder =
  or_inflight :: "string list"
  or_pending :: "string list"
  or_reserves :: "string list"
  or_submits :: "string list"
  or_deposits :: "string list"
  or_withdrawals :: "string list"

definition Pending_Snapshot :: "string list \<Rightarrow> PendingReserveStore \<Rightarrow> PendingReserve list" where
  "Pending_Snapshot ks s = map (\<lambda>k. the (bySubmit s k)) ks"

definition recoveryOf :: "storeOrder \<Rightarrow> FundsState \<Rightarrow> RecoveryState" where
  "recoveryOf ord st = \<lparr>rv_LastFlushedEventSeq = fs_evtSeq st, rv_Inflight = Inflight_Snapshot (\<lambda>_. or_inflight ord) (fs_inflight st),
     rv_PendingTerminals = PendingSnapshot (\<lambda>_. or_pending ord) (fs_inflight st),
     rv_PendingReserves = Pending_Snapshot (or_reserves ord) (fs_pending st),
     rv_ProcessedSubmits = or_submits ord, rv_ProcessedDeposits = or_deposits ord, rv_ProcessedWithdrawals = or_withdrawals ord\<rparr>"

definition captureFlushState ::
  "storeOrder \<Rightarrow> bool \<Rightarrow> FundsState \<Rightarrow> FundsState \<times> DirtyWalletSnapshot list \<times> DirtyPositionSnapshot list \<times> RecoveryState option" where
  "captureFlushState ord recoveryDirty st = (let (m, ws, ps) = CollectAndClearDirty (fs_manager st) in
     (st\<lparr>fs_manager := m\<rparr>, ws, ps, if ws \<noteq> [] \<or> ps \<noteq> [] \<or> recoveryDirty then Some (recoveryOf ord st) else None))"

section \<open>Reading back\<close>

definition clampNonNegative :: "i64 \<Rightarrow> u64" where
  "clampNonNegative v = (if v \<le>s 0 then 0 else v)"

definition recoverWallet :: "string \<times> walletRow \<Rightarrow> Manager \<Rightarrow> Manager" where
  "recoverWallet wr m = (case wr of (w, r) \<Rightarrow> MarkLedgerDirty (SeedLedger m w
     \<lparr>AvailableUSDC = (if ac_FreeUnits r <s 0 then 0 else ac_FreeUnits r),
      LockedUSDC = (if ac_LockedUnits r <s 0 then 0 else ac_LockedUnits r),
      PendingUSDC = (if ac_PendingUnits r <s 0 then 0 else ac_PendingUnits r), CancelAllBeforeTs = 0, wDirty = False\<rparr>) w)"

definition recoveredPosition :: "u64 \<Rightarrow> positionRow \<Rightarrow> MarketPosition" where
  "recoveredPosition marketID r = \<lparr>p_MarketID = marketID, AvailableYesShares = clampNonNegative (po_YesFree r),
     LockedYesShares = clampNonNegative (po_YesLocked r), PendingYesShares = po_YesPending r,
     AvailableNoShares = clampNonNegative (po_NoFree r), LockedNoShares = clampNonNegative (po_NoLocked r),
     PendingNoShares = po_NoPending r, CollateralLockedUnits = clampNonNegative (po_CollateralLocked r), pDirty = False\<rparr>"

definition recoverPosition :: "(u64 \<times> string) \<times> positionRow \<Rightarrow> Manager \<Rightarrow> Manager" where
  "recoverPosition kr m = (case kr of ((marketID, w), r) \<Rightarrow>
     MarkPositionDirty (SeedPosition m w (po_MarketPDA r) (recoveredPosition marketID r)) w (po_MarketPDA r))"

definition recoverFromPostgres :: "fundsDB \<Rightarrow> Manager \<Rightarrow> Manager" where
  "recoverFromPostgres db m = fold recoverPosition (fd_positions db) (fold recoverWallet (fd_wallets db) m)"

definition loadRecoveryState :: "fundsDB \<Rightarrow> RecoveryState option" where
  "loadRecoveryState db = (case fd_recovery db of None \<Rightarrow> None
     | Some r \<Rightarrow> Some (r\<lparr>rv_LastFlushedEventSeq := (if 0 <s rv_LastFlushedEventSeq r then rv_LastFlushedEventSeq r else 0)\<rparr>))"

definition restoreRecoveryState :: "RecoveryState \<Rightarrow> FundsState \<Rightarrow> FundsState" where
  "restoreRecoveryState r st = st\<lparr>
     fs_inflight := RestorePendingTerminals (RestoreFromSnapshot (fs_inflight st) (rv_Inflight r)) (rv_PendingTerminals r),
     fs_submits := SubmitStore_Restore (fs_submits st) (rv_ProcessedSubmits r),
     fs_deposits := DepositStore_Restore (fs_deposits st) (rv_ProcessedDeposits r),
     fs_withdrawals := WithdrawalStore_Restore (fs_withdrawals st) (rv_ProcessedWithdrawals r),
     fs_pending := Pending_Restore (fs_pending st) (rv_PendingReserves r),
     fs_evtSeq := rv_LastFlushedEventSeq r\<rparr>"

definition newFundsState :: FundsState where
  "newFundsState = \<lparr>fs_manager = NewManager, fs_inflight = NewInflightStore, fs_pending = NewPendingReserveStore,
     fs_submits = NewSubmitStore, fs_deposits = NewDepositStore, fs_withdrawals = NewWithdrawalStore, fs_evtSeq = 0\<rparr>"

text \<open>\<open>recover\<close> up to the replay; \<open>tail\<close> is the last sequence number of the stream, where a service without a recovery
  record starts.\<close>

definition seedCurrentEventSeq :: "u64 \<Rightarrow> FundsState \<Rightarrow> FundsState" where
  "seedCurrentEventSeq tail st = st\<lparr>fs_evtSeq := tail\<rparr>"

definition recoverFunds :: "u64 \<Rightarrow> fundsDB \<Rightarrow> FundsState" where
  "recoverFunds tail db = (let st = newFundsState\<lparr>fs_manager := recoverFromPostgres db NewManager\<rparr> in
     case loadRecoveryState db of None \<Rightarrow> seedCurrentEventSeq tail st | Some r \<Rightarrow> restoreRecoveryState r st)"

text \<open>The replay: \<open>msgs\<close> are the events the stream delivers from \<open>startSeq\<close> on.\<close>

fun replayMessages :: "(deltas \<Rightarrow> deltas) \<Rightarrow> u64 \<Rightarrow> FundsMsg list \<Rightarrow> FundsState \<Rightarrow> FundsState" where
  "replayMessages iter endSeq [] st = st"
| "replayMessages iter endSeq (msg # msgs) st = (let st = fst (dispatchMessage iter msg st) in
     case fm_Seq msg of
       None \<Rightarrow> replayMessages iter endSeq msgs st
     | Some seq \<Rightarrow> if endSeq \<le> seq then st else replayMessages iter endSeq msgs st)"

definition replayEventLog :: "(deltas \<Rightarrow> deltas) \<Rightarrow> u64 \<Rightarrow> u64 \<Rightarrow> FundsMsg list \<Rightarrow> FundsState \<Rightarrow> FundsState" where
  "replayEventLog iter startSeq endSeq msgs st = (let startSeq = (if startSeq = 0 then 1 else startSeq) in
     if endSeq = 0 \<or> endSeq < startSeq then (if fs_evtSeq st < endSeq then st\<lparr>fs_evtSeq := endSeq\<rparr> else st)
     else replayMessages iter endSeq msgs st)"

definition recover :: "(deltas \<Rightarrow> deltas) \<Rightarrow> u64 \<Rightarrow> FundsMsg list \<Rightarrow> fundsDB \<Rightarrow> FundsState" where
  "recover iter tail msgs db = (case loadRecoveryState db of
     None \<Rightarrow> recoverFunds tail db
   | Some r \<Rightarrow> replayEventLog iter (rv_LastFlushedEventSeq r + 1) tail msgs (recoverFunds tail db))"

section \<open>The service with its projector\<close>

text \<open>\<open>fy_captured\<close> and \<open>fy_committed\<close> record the state in which the flush under way, and the last one that was
  committed, were captured.\<close>

record fundsSystem =
  fy_live :: FundsState
  fy_recoveryDirty :: bool
  fy_flight :: "(DirtyWalletSnapshot list \<times> DirtyPositionSnapshot list \<times> RecoveryState) option"
  fy_db :: fundsDB
  fy_captured :: FundsState
  fy_committed :: "FundsState option"

definition emptyFundsDB :: fundsDB where
  "emptyFundsDB = \<lparr>fd_wallets = [], fd_positions = [], fd_recovery = None\<rparr>"

definition newFundsSystem :: fundsSystem where
  "newFundsSystem = \<lparr>fy_live = newFundsState, fy_recoveryDirty = True, fy_flight = None, fy_db = emptyFundsDB,
     fy_captured = newFundsState, fy_committed = None\<rparr>"

definition captureStep :: "storeOrder \<Rightarrow> fundsSystem \<Rightarrow> fundsSystem" where
  "captureStep ord s = (let (st, ws, ps, recovery) = captureFlushState ord (fy_recoveryDirty s) (fy_live s) in
     case recovery of
       None \<Rightarrow> s\<lparr>fy_live := st\<rparr>
     | Some r \<Rightarrow> s\<lparr>fy_live := st, fy_recoveryDirty := (fy_recoveryDirty s \<and> (ws \<noteq> [] \<or> ps \<noteq> [])), fy_flight := Some (ws, ps, r), fy_captured := fy_live s\<rparr>)"

definition restoreDirty :: "DirtyWalletSnapshot list \<Rightarrow> DirtyPositionSnapshot list \<Rightarrow> FundsState \<Rightarrow> FundsState" where
  "restoreDirty ws ps st = st\<lparr>fs_manager := RestoreDirty (fs_manager st) ws ps\<rparr>"

definition evictFlushed :: "u64 \<Rightarrow> FundsState \<Rightarrow> FundsState" where
  "evictFlushed seq st = st\<lparr>fs_inflight := EvictTerminal (fs_inflight st) seq\<rparr>"

text \<open>The rest of \<open>flush\<close>, when the transaction fails and when it is committed.\<close>

definition flushFails :: "fundsSystem \<Rightarrow> fundsSystem" where
  "flushFails s = (case fy_flight s of None \<Rightarrow> s | Some (ws, ps, r) \<Rightarrow>
     s\<lparr>fy_live := restoreDirty ws ps (fy_live s), fy_recoveryDirty := True, fy_flight := None\<rparr>)"

definition flushCommits :: "bool \<Rightarrow> fundsDB \<Rightarrow> fundsSystem \<Rightarrow> fundsSystem" where
  "flushCommits redisOk db s = (case fy_flight s of None \<Rightarrow> s | Some (ws, ps, r) \<Rightarrow>
     (let st = evictFlushed (rv_LastFlushedEventSeq r) (fy_live s);
          st = (if redisOk then st else restoreDirty ws ps st)
      in s\<lparr>fy_live := st, fy_flight := None, fy_db := db, fy_committed := Some (fy_captured s)\<rparr>))"

definition restartFunds :: "(deltas \<Rightarrow> deltas) \<Rightarrow> u64 \<Rightarrow> FundsMsg list \<Rightarrow> fundsSystem \<Rightarrow> fundsSystem" where
  "restartFunds iter tail msgs s = s\<lparr>fy_live := recover iter tail msgs (fy_db s), fy_recoveryDirty := True, fy_flight := None\<rparr>"

section \<open>Messages\<close>

text \<open>A wallet is a trimmed text without the bar of the position keys; a market's address, too, is trimmed, and
  \<open>pdaOf\<close> gives it for the id, which is not 0.\<close>

definition walletOK :: "string \<Rightarrow> bool" where
  "walletOK w \<longleftrightarrow> noBar w \<and> TrimSpace w = w \<and> w \<noteq> []"

definition marketOK :: "(u64 \<Rightarrow> string) \<Rightarrow> u64 \<Rightarrow> string \<Rightarrow> bool" where
  "marketOK pdaOf marketID pda \<longleftrightarrow> marketID \<noteq> 0 \<and> pda = pdaOf marketID \<and> TrimSpace pda = pda \<and> pda \<noteq> []"

definition batchOK :: "(u64 \<Rightarrow> string) \<Rightarrow> MatchBatchEvent \<Rightarrow> bool" where
  "batchOK pdaOf ev \<longleftrightarrow> marketOK pdaOf (ev_MarketID ev) (ev_MarketPDA ev)
     \<and> list_all (\<lambda>x. walletOK (x_WalletAddress (m_Execution x))) (ev_Orders ev)"

definition msgOK :: "(u64 \<Rightarrow> string) \<Rightarrow> FundsMsg \<Rightarrow> bool" where
  "msgOK pdaOf msg \<longleftrightarrow>
     (case fm_Command msg of None \<Rightarrow> True | Some env \<Rightarrow> (let cmd = ce_Payload env in
        walletOK (pe_WalletAddress (pc_Execution cmd)) \<and> marketOK pdaOf (pc_MarketID cmd) (pc_MarketPDA cmd)))
     \<and> (case fm_Batch msg of None \<Rightarrow> True | Some ev \<Rightarrow> batchOK pdaOf ev)
     \<and> (case fm_Released msg of None \<Rightarrow> True | Some ev \<Rightarrow>
          walletOK (rl_WalletAddress ev) \<and> marketOK pdaOf (rl_MarketID ev) (rl_MarketPDA ev))
     \<and> (case fm_Transfer msg of None \<Rightarrow> True | Some ev \<Rightarrow> walletOK (TrimSpace (tc_WalletAddress ev)))"

text \<open>What a listing of a store is: every key once.\<close>

definition lists :: "string list \<Rightarrow> string set \<Rightarrow> bool" where
  "lists ks D \<longleftrightarrow> set ks = D \<and> distinct ks"

definition orderOK :: "storeOrder \<Rightarrow> FundsState \<Rightarrow> bool" where
  "orderOK ord st \<longleftrightarrow> lists (or_inflight ord) (dom (if_entries (fs_inflight st)))
     \<and> lists (or_pending ord) (dom (pendingTerminal (fs_inflight st))) \<and> lists (or_reserves ord) (dom (bySubmit (fs_pending st)))
     \<and> lists (or_submits ord) (submitKeys (fs_submits st)) \<and> lists (or_deposits ord) (depositKeys (fs_deposits st))
     \<and> lists (or_withdrawals ord) (withdrawalKeys (fs_withdrawals st))"

inductive fundsStep :: "(u64 \<Rightarrow> string) \<Rightarrow> fundsSystem \<Rightarrow> fundsSystem \<Rightarrow> bool" for pdaOf where
  dispatch: "msgOK pdaOf msg \<Longrightarrow> (\<And>ds. set (iter ds) \<subseteq> set ds) \<Longrightarrow>
     fundsStep pdaOf s (s\<lparr>fy_live := fst (dispatchMessage iter msg (fy_live s)), fy_recoveryDirty := flag\<rparr>)"
| capture: "fy_flight s = None \<Longrightarrow> orderOK ord (fy_live s) \<Longrightarrow> fundsStep pdaOf s (captureStep ord s)"
| markDirty: "fundsStep pdaOf s (s\<lparr>fy_recoveryDirty := True\<rparr>)"
| fails: "fundsStep pdaOf s (flushFails s)"
| commits: "fy_flight s = Some (ws, ps, r) \<Longrightarrow> flushPostgres ws ps r (fy_db s) = Some db \<Longrightarrow>
     fundsStep pdaOf s (flushCommits redisOk db s)"
| restart: "(\<And>ds. set (iter ds) \<subseteq> set ds) \<Longrightarrow> (\<And>msg. msg \<in> set msgs \<Longrightarrow> msgOK pdaOf msg) \<Longrightarrow>
     fundsStep pdaOf s (restartFunds iter tail msgs s)"

definition reachableFunds :: "(u64 \<Rightarrow> string) \<Rightarrow> fundsSystem \<Rightarrow> bool" where
  "reachableFunds pdaOf s \<longleftrightarrow> (fundsStep pdaOf)\<^sup>*\<^sup>* newFundsSystem s"

end
