(* ===== verification/FundsTouch.thy ===== *)
theory FundsTouch
  imports FundsRecovery FundsSettle
begin

text \<open>
  Whatever a message does to the ledger is a sequence of two writes: a ledger with its key marked dirty, and a position
  with its key marked dirty.
\<close>

section \<open>The two writes\<close>

abbreviation walletAt :: "Manager \<Rightarrow> string \<Rightarrow> UserWallet option" where
  "walletAt m w \<equiv> ledgers (shards m (shardNo w)) w"

abbreviation posAt :: "Manager \<Rightarrow> string \<Rightarrow> string \<Rightarrow> MarketPosition option" where
  "posAt m w pda \<equiv> positions (shards m (shardNo w)) (positionKey w pda)"

definition touchL :: "Manager \<Rightarrow> string \<Rightarrow> UserWallet \<Rightarrow> Manager" where
  "touchL m w l = SeedLedger (m\<lparr>dirty := markWallet (dirty m) w\<rparr>) w (l\<lparr>wDirty := True\<rparr>)"

definition touchP :: "Manager \<Rightarrow> string \<Rightarrow> string \<Rightarrow> MarketPosition \<Rightarrow> Manager" where
  "touchP m w pda p = SeedPosition (m\<lparr>dirty := markPosition (dirty m) (positionKey w pda)\<rparr>) w pda (p\<lparr>pDirty := True\<rparr>)"

lemma storeDirty_touch: "storeDirty m w pda l p = touchP (touchL m w l) w pda p"
  by (simp add: storeDirty_def touchL_def touchP_def markLedgerDirtyLocked_def markPositionDirtyLocked_def
      SeedLedger_def SeedPosition_def Let_def)

lemma touchL_sel [simp]:
  "walletAt (touchL m w l) w' = (if w' = w then Some (l\<lparr>wDirty := True\<rparr>) else walletAt m w')"
  "posAt (touchL m w l) w' pda = posAt m w' pda" "Position (touchL m w l) w' pda = Position m w' pda"
  "dirty (touchL m w l) = markWallet (dirty m) w"
  by (simp_all add: touchL_def SeedLedger_def Position_def)

lemma touchP_sel [simp]:
  "walletAt (touchP m w pda p) w' = walletAt m w'" "dirty (touchP m w pda p) = markPosition (dirty m) (positionKey w pda)"
  by (simp_all add: touchP_def SeedPosition_def)

lemma touchP_posAt:
  "noBar w \<Longrightarrow> noBar w' \<Longrightarrow>
     posAt (touchP m w pda p) w' pda' = (if w' = w \<and> pda' = pda then Some (p\<lparr>pDirty := True\<rparr>) else posAt m w' pda')"
  by (auto simp: touchP_def SeedPosition_def positionKey_inject)

text \<open>A write keeps the market of a position that has one, and gives it the right one otherwise.\<close>

definition pdaOK :: "string \<Rightarrow> bool" where
  "pdaOK pda \<longleftrightarrow> TrimSpace pda = pda \<and> pda \<noteq> []"

definition idOK :: "(u64 \<Rightarrow> string) \<Rightarrow> string \<Rightarrow> MarketPosition \<Rightarrow> MarketPosition \<Rightarrow> bool" where
  "idOK pdaOf pda old p \<longleftrightarrow> p_MarketID p = p_MarketID old \<or> p_MarketID old = 0 \<and> pdaOf (p_MarketID p) = pda"

inductive ledgerTouch :: "(u64 \<Rightarrow> string) \<Rightarrow> Manager \<Rightarrow> Manager \<Rightarrow> bool" for pdaOf where
  ledger: "walletOK w \<Longrightarrow> ledgerTouch pdaOf m (touchL m w l)"
| position: "walletOK w \<Longrightarrow> pdaOK pda \<Longrightarrow> idOK pdaOf pda (Position m w pda) p \<Longrightarrow> ledgerTouch pdaOf m (touchP m w pda p)"

abbreviation ledgerTouches :: "(u64 \<Rightarrow> string) \<Rightarrow> Manager \<Rightarrow> Manager \<Rightarrow> bool" where
  "ledgerTouches pdaOf \<equiv> (ledgerTouch pdaOf)\<^sup>*\<^sup>*"

lemma touches_trans: "ledgerTouches pdaOf a b \<Longrightarrow> ledgerTouches pdaOf b c \<Longrightarrow> ledgerTouches pdaOf a c"
  by (rule rtranclp_trans)

lemma touches_fold: "(\<And>x m. x \<in> set xs \<Longrightarrow> ledgerTouches pdaOf m (f x m)) \<Longrightarrow> ledgerTouches pdaOf m (fold f xs m)"
  by (induction xs arbitrary: m) (auto intro: touches_trans)

lemma store_touches:
  assumes "walletOK w" "pdaOK pda" "idOK pdaOf pda (Position m w pda) p"
  shows "ledgerTouches pdaOf m (storeDirty m w pda l p)"
proof -
  have "ledgerTouch pdaOf (touchL m w l) (touchP (touchL m w l) w pda p)" using assms by (intro ledgerTouch.position) simp_all
  then show ?thesis unfolding storeDirty_touch using ledgerTouch.ledger [OF assms(1), of pdaOf m l] by simp
qed

lemma marketOK_pda: "marketOK pdaOf i pda \<Longrightarrow> pdaOK pda"
  by (auto simp: marketOK_def pdaOK_def)

lemma idOK_market: "marketOK pdaOf i pda \<Longrightarrow> p_MarketID p = p_MarketID (withMarket old i) \<Longrightarrow> idOK pdaOf pda old p"
  by (auto simp: idOK_def withMarket_def marketOK_def)

lemma idOK_same [simp]: "p_MarketID p = p_MarketID old \<Longrightarrow> idOK pdaOf pda old p"
  by (simp add: idOK_def)

section \<open>Operations of the manager\<close>

lemma ReserveOrder_touches:
  assumes "ReserveOrder m cmd = Inr m'" "walletOK (ri_WalletAddress cmd)" "marketOK pdaOf (ri_MarketID cmd) (ri_MarketPDA cmd)"
  shows "ledgerTouches pdaOf m m'"
  using assms unfolding ReserveOrder_def Let_def
  by (auto split: if_splits intro!: store_touches marketOK_pda [OF assms(3)] idOK_market [OF assms(3)])

lemma ReleaseLocked_touches:
  assumes "walletOK (a_WalletAddress ord)" "marketOK pdaOf (a_MarketID ord) (a_MarketPDA ord)"
  shows "ledgerTouches pdaOf m (ReleaseLocked m ord refund)"
  using assms unfolding ReleaseLocked_def Let_def
  by (auto split: if_splits intro!: store_touches marketOK_pda [OF assms(2)] idOK_market [OF assms(2)])

lemma fillFunds_market: "p_MarketID (snd (fillFunds ord qty price (l, p))) = p_MarketID (withMarket p (a_MarketID ord))"
  by (simp add: fillFunds_eq Let_def)

lemma applyFillForOrder_touches:
  assumes "walletOK (a_WalletAddress ord)" "marketOK pdaOf (a_MarketID ord) (a_MarketPDA ord)"
  shows "ledgerTouches pdaOf m (applyFillForOrder m ord qty price)"
  unfolding applyFillForOrder_store Let_def case_prod_beta
  using assms by (intro store_touches marketOK_pda idOK_market) (simp_all add: fillFunds_market)

lemma settled_market [simp]: "p_MarketID (confirmPosition d p) = p_MarketID p" "p_MarketID (failPosition d p) = p_MarketID p"
  by (simp_all add: confirmPosition_def failPosition_def Let_def)

lemma settle_touches:
  assumes "walletOK (dl_WalletAddress d)" "pdaOK (dl_MarketPDA d)"
  shows "ledgerTouches pdaOf m (confirmDelta d m)" "ledgerTouches pdaOf m (failDelta d m)"
  using assms by (simp_all add: confirmDelta_def failDelta_def Let_def store_touches)

lemma transfer_touches:
  assumes "walletOK w"
  shows "ledgerTouches pdaOf m (ApplyDepositConfirmed m w amount)" "ledgerTouches pdaOf m (ApplyWithdrawConfirmed m w amount)"
  using ledgerTouch.ledger [OF assms, of pdaOf m]
  by (auto simp: ApplyDepositConfirmed_def ApplyWithdrawConfirmed_def Let_def markLedgerDirtyLocked_def touchL_def)

lemma restore_touches:
  assumes "walletOK (dw_WalletAddress s)"
  shows "ledgerTouches pdaOf m (restoreWallet s m)"
  using ledgerTouch.ledger [OF assms, of pdaOf m] by (auto simp: restoreWallet_def markLedgerDirtyLocked_def touchL_def)

lemma restorePosition_touch: "restorePosition s m = touchP m (dp_WalletAddress s) (dp_MarketPDA s)
    (withMarket (Position m (dp_WalletAddress s) (dp_MarketPDA s)) (dp_MarketID s))"
  by (simp add: restorePosition_def touchP_def markPositionDirtyLocked_def Let_def)

section \<open>Batches\<close>

lemma orderByIndex_in: "orderByIndex ev i = Some x \<Longrightarrow> x \<in> set (ev_Orders ev)"
  by (auto simp: orderByIndex_def dest!: map_of_SomeD)

lemma batch_wallet: "batchOK pdaOf ev \<Longrightarrow> orderByIndex ev i = Some x \<Longrightarrow> walletOK (x_WalletAddress (m_Execution x))"
  using orderByIndex_in by (fastforce simp: batchOK_def list_all_iff)

lemma batch_market: "batchOK pdaOf ev \<Longrightarrow> marketOK pdaOf (ev_MarketID ev) (ev_MarketPDA ev)"
  by (simp add: batchOK_def)

lemma applyBatch_touches:
  assumes "batchOK pdaOf ev"
  shows "ledgerTouches pdaOf m (applyBatch ev m)"
proof -
  have "ledgerTouches pdaOf m (applyFill ev f m)" for f m
    unfolding applyFill_def ApplyMatchPending_def
    by (auto split: option.split intro!: touches_trans [OF applyFillForOrder_touches applyFillForOrder_touches]
        simp: activeOrderFromExecution_def batch_wallet [OF assms] batch_market [OF assms])
  moreover have "ledgerTouches pdaOf m (applyUpdate ev u m)" for u m
    unfolding applyUpdate_def
    by (auto split: option.split intro!: ReleaseLocked_touches
        simp: activeOrderFromExecution_def batch_wallet [OF assms] batch_market [OF assms])
  ultimately show ?thesis unfolding applyBatch_def by (intro touches_trans [OF touches_fold touches_fold])
qed

definition deltaOK :: "string \<Rightarrow> walletBatchDelta \<Rightarrow> bool" where
  "deltaOK pda d \<longleftrightarrow> walletOK (dl_WalletAddress d) \<and> dl_MarketPDA d = pda"

abbreviation deltasOK :: "string \<Rightarrow> deltas \<Rightarrow> bool" where
  "deltasOK pda ds \<equiv> \<forall>(k, d) \<in> set ds. deltaOK pda d"

lemma chargeSide_deltaOK:
  assumes "deltasOK pda ds" "walletOK (x_WalletAddress (m_Execution x))"
  shows "deltasOK pda (chargeSide pda f x ds)"
  unfolding chargeSide_def Let_def
  by (rule updDelta_all [OF assms(1)]) (use assms in \<open>auto simp: deltaOK_def newDelta_def walletOK_def\<close>)

lemma computeBatchDeltas_ok:
  assumes "batchOK pdaOf ev"
  shows "deltasOK (ev_MarketPDA ev) (computeBatchDeltasForWallet ev (ev_MarketPDA ev))"
proof -
  have step: "deltasOK (ev_MarketPDA ev) (chargeFill ev (ev_MarketPDA ev) f ds)" if "deltasOK (ev_MarketPDA ev) ds" for f ds
    using that batch_wallet [OF assms] unfolding chargeFill_def
    by (simp split: option.split) (intro allI impI chargeSide_deltaOK; simp)
  have "deltasOK (ev_MarketPDA ev) (fold (chargeFill ev (ev_MarketPDA ev)) fs ds)" if "deltasOK (ev_MarketPDA ev) ds" for fs ds
    using that
  proof (induction fs arbitrary: ds)
    case (Cons f fs)
    show ?case unfolding fold_simps by (rule Cons.IH) (rule step [OF Cons.prems])
  qed simp
  from this [of "[]" "Fills ev"] show ?thesis unfolding computeBatchDeltasForWallet_def by auto
qed

lemma settle_batch_touches:
  assumes "\<And>ds. set (iter ds) \<subseteq> set ds" "\<And>ev. raw = Some ev \<Longrightarrow> batchOK pdaOf ev"
  shows "ledgerTouches pdaOf m (settle iter phase raw m)"
proof (cases raw)
  case None
  then show ?thesis by (simp add: settle_def)
next
  case (Some ev)
  then have ok: "batchOK pdaOf ev" using assms(2) by simp
  have "ledgerTouches pdaOf n (f d n)" if "f = confirmDelta \<or> f = failDelta"
      "(k, d) \<in> set (iter (computeBatchDeltasForWallet ev (ev_MarketPDA ev)))" for f k d n
    using that computeBatchDeltas_ok [OF ok] assms(1) settle_touches [of d] marketOK_pda [OF batch_market [OF ok]]
    by (fastforce simp: deltaOK_def)
  then have "ledgerTouches pdaOf m (fold (\<lambda>(k, d). f d) (iter (computeBatchDeltasForWallet ev (ev_MarketPDA ev))) m)"
    if "f = confirmDelta \<or> f = failDelta" for f
    using that by (intro touches_fold) auto
  then show ?thesis using Some
    by (auto simp: settle_def ApplySettlementConfirmedByBatch_def ApplySettlementFailedByBatch_def)
qed

section \<open>Messages\<close>

text \<open>The stores are keyed by what their entries say, with trimmed keys, and the batches they keep are admissible.\<close>

definition entriesOK :: "(u64 \<Rightarrow> string) \<Rightarrow> InflightStore \<Rightarrow> bool" where
  "entriesOK pdaOf s \<longleftrightarrow> entries_keyed s \<and> (\<forall>k e ev. if_entries s k = Some e \<longrightarrow> if_RawMatchEvent e = Some ev \<longrightarrow> batchOK pdaOf ev)
     \<and> (\<forall>k pt. pendingTerminal s k = Some pt \<longrightarrow> pt_MatchEventID pt = k)"

definition reservesOK :: "PendingReserveStore \<Rightarrow> bool" where
  "reservesOK s \<longleftrightarrow> (\<forall>k p. bySubmit s k = Some p \<longrightarrow> pr_SubmitKey p = k \<and> k \<noteq> [] \<and> pr_WalletAddress p \<noteq> [])"

definition storesOK :: "(u64 \<Rightarrow> string) \<Rightarrow> FundsState \<Rightarrow> bool" where
  "storesOK pdaOf st \<longleftrightarrow> trimmed (submitKeys (fs_submits st)) \<and> trimmed (depositKeys (fs_deposits st))
     \<and> trimmed (withdrawalKeys (fs_withdrawals st)) \<and> entriesOK pdaOf (fs_inflight st) \<and> reservesOK (fs_pending st)"

lemma entriesOK_ops:
  assumes "entriesOK pdaOf s"
  shows "(\<And>ev. if_RawMatchEvent e = Some ev \<Longrightarrow> batchOK pdaOf ev) \<Longrightarrow> entriesOK pdaOf (snd (Register s e))"
    "entriesOK pdaOf (snd (snd (AdvanceToSubmitted s k sig)))" "entriesOK pdaOf (snd (snd (snd (AdvanceToTerminal s k ph))))"
    "entriesOK pdaOf (EvictTerminal s n)" "entriesOK pdaOf (AddPendingTerminal s pt)" "entriesOK pdaOf (snd (TakePendingTerminal s k))"
    "fst (AdvanceToTerminal s k ph) = Some ev \<Longrightarrow> batchOK pdaOf ev"
proof -
  note defs = entriesOK_def entries_keyed_def
  show "(\<And>ev. if_RawMatchEvent e = Some ev \<Longrightarrow> batchOK pdaOf ev) \<Longrightarrow> entriesOK pdaOf (snd (Register s e))"
    using assms by (auto simp: Register_def defs)
  show "entriesOK pdaOf (snd (snd (AdvanceToSubmitted s k sig)))"
    using assms by (auto simp: AdvanceToSubmitted_def defs split: option.split)
  show "entriesOK pdaOf (snd (snd (snd (AdvanceToTerminal s k ph))))"
    using assms by (auto simp: AdvanceToTerminal_def defs split: option.split)
  have "dom (if_entries (EvictTerminal s n)) = dom (if_entries s)" by (auto simp: EvictTerminal_def)
  then show "entriesOK pdaOf (EvictTerminal s n)"
    using assms unfolding defs by (auto simp: EvictTerminal_def split: if_splits)
  show "entriesOK pdaOf (AddPendingTerminal s pt)"
    using assms by (auto simp: AddPendingTerminal_def defs split: option.split)
  show "entriesOK pdaOf (snd (TakePendingTerminal s k))"
    using assms by (auto simp: TakePendingTerminal_def defs split: option.split)
  show "fst (AdvanceToTerminal s k ph) = Some ev \<Longrightarrow> batchOK pdaOf ev"
    using assms by (auto simp: AdvanceToTerminal_def defs split: option.splits if_splits)
qed

lemma reservesOK_ops:
  assumes "reservesOK s"
  shows "reservesOK (Pending_Mark s p)" "reservesOK (Pending_Delete s k)"
  using assms by (auto simp: reservesOK_def Pending_Mark_def Pending_Delete_def Let_def split: option.split)

definition moves :: "(u64 \<Rightarrow> string) \<Rightarrow> FundsState \<Rightarrow> FundsState \<Rightarrow> bool" where
  "moves pdaOf st st' \<longleftrightarrow> (storesOK pdaOf st \<longrightarrow> storesOK pdaOf st' \<and> ledgerTouches pdaOf (fs_manager st) (fs_manager st'))"

lemma moves_refl [simp]: "moves pdaOf st st"
  by (simp add: moves_def)

lemma moves_trans: "moves pdaOf a b \<Longrightarrow> moves pdaOf b c \<Longrightarrow> moves pdaOf a c"
  by (auto simp: moves_def intro: touches_trans)

lemma moves_ack [simp]: "moves pdaOf st (ack msg st')  = moves pdaOf st st'"
  by (simp add: moves_def storesOK_def ack_def split: option.split)

lemma moves_small [simp]:
  "moves pdaOf st (markPending i k st)" "moves pdaOf st (deletePending k st)" "moves pdaOf st (markSubmitted k st)"
  by (auto simp: moves_def storesOK_def markPending_def deletePending_def markSubmitted_def reservesOK_ops mark_trimmed)

lemma moves_inflight: "(entriesOK pdaOf (fs_inflight st) \<Longrightarrow> entriesOK pdaOf s) \<Longrightarrow> moves pdaOf st (st\<lparr>fs_inflight := s\<rparr>)"
  by (simp add: moves_def storesOK_def)

lemma moves_manager: "ledgerTouches pdaOf (fs_manager st) m \<Longrightarrow> moves pdaOf st (st\<lparr>fs_manager := m\<rparr>)"
  by (simp add: moves_def storesOK_def)

lemma applyTerminal_moves:
  assumes "\<And>ds. set (iter ds) \<subseteq> set ds"
  shows "moves pdaOf st (applyTerminal iter k phase sig st)"
proof -
  obtain raw tr cf s where a: "AdvanceToTerminal (fs_inflight st) k phase = (raw, tr, cf, s)" by (metis prod_cases4)
  have s: "entriesOK pdaOf (fs_inflight st) \<Longrightarrow> entriesOK pdaOf s"
    and raw: "entriesOK pdaOf (fs_inflight st) \<Longrightarrow> raw = Some ev \<Longrightarrow> batchOK pdaOf ev" for ev
    using entriesOK_ops(3,7) [of pdaOf "fs_inflight st" k phase] a by auto
  have "ledgerTouches pdaOf (fs_manager st) (settle iter phase raw (fs_manager st))" if "storesOK pdaOf st"
    by (rule settle_batch_touches [OF assms]) (use that raw in \<open>auto simp: storesOK_def\<close>)
  then show ?thesis
    using s entriesOK_ops(5) unfolding applyTerminal_def a by (auto simp: moves_def storesOK_def Let_def)
qed

lemma applyPendingLifecycle_moves:
  assumes "\<And>ds. set (iter ds) \<subseteq> set ds"
  shows "moves pdaOf st (applyPendingLifecycle iter k pt st)"
  using applyTerminal_moves [OF assms] entriesOK_ops(2)
  by (auto simp: applyPendingLifecycle_def intro!: moves_inflight split: Phase.split)

lemma handleMatchBatch_moves:
  assumes "\<And>ds. set (iter ds) \<subseteq> set ds" "msgOK pdaOf msg"
  shows "moves pdaOf st (fst (handleMatchBatchMessage iter msg st))"
proof (cases "fm_Batch msg")
  case None
  then show ?thesis by (simp add: handleMatchBatchMessage_def)
next
  case (Some ev)
  then have ok: "batchOK pdaOf ev" using assms(2) by (simp add: msgOK_def)
  have life: "moves pdaOf a (case pt of None \<Rightarrow> b | Some x \<Rightarrow> applyPendingLifecycle iter k x b)" if "moves pdaOf a b" for a b pt k
    using that applyPendingLifecycle_moves [OF assms(1)] by (auto split: option.split intro: moves_trans)
  have reg: "moves pdaOf st (st\<lparr>fs_manager := applyBatch ev (fs_manager st), fs_inflight := snd (TakePendingTerminal (snd (Register (fs_inflight st) e)) k)\<rparr>)"
    if "if_RawMatchEvent e = Some ev" for e k
    using that ok entriesOK_ops(6) [OF entriesOK_ops(1) [of pdaOf "fs_inflight st" e], of k] applyBatch_touches [OF ok]
    by (auto simp: moves_def storesOK_def)
  show ?thesis
    using Some unfolding handleMatchBatchMessage_def
    by (auto simp: Let_def case_prod_beta intro!: life reg)
qed

lemma transfer_walletOK: "msgOK pdaOf msg \<Longrightarrow> fm_Transfer msg = Some ev \<Longrightarrow> walletOK (TrimSpace (tc_WalletAddress ev))"
  by (simp add: msgOK_def)

lemma dispatch_moves:
  assumes iter: "\<And>ds. set (iter ds) \<subseteq> set ds" and ok: "msgOK pdaOf msg"
  shows "moves pdaOf st (fst (dispatchMessage iter msg st))"
proof -
  have submit: "moves pdaOf st (fst (handleSubmitMessage msg st))"
    by (auto simp: handleSubmitMessage_def Let_def split: option.split prod.split)
  have drop: "moves pdaOf st (markSubmitted k (deletePending k st))" for k
    by (rule moves_trans [OF moves_small(2) moves_small(3)])
  have reserved: "moves pdaOf st (fst (handleReservedMessage msg st))"
  proof (cases "fm_Command msg")
    case (Some env)
    let ?in = "reserveInputFromCommand (ce_Payload env)"
    have "walletOK (ri_WalletAddress ?in)" "marketOK pdaOf (ri_MarketID ?in) (ri_MarketPDA ?in)"
      using ok Some by (simp_all add: msgOK_def reserveInputFromCommand_def Let_def)
    then have m: "ReserveOrder (fs_manager st) ?in = Inr m \<Longrightarrow> moves pdaOf st (st\<lparr>fs_manager := m\<rparr>)" for m
      by (intro moves_manager ReserveOrder_touches)
    have "moves pdaOf st (deletePending k (markSubmitted k (st\<lparr>fs_manager := m\<rparr>)))"
      if "ReserveOrder (fs_manager st) ?in = Inr m" for k m
      by (rule moves_trans [OF moves_trans [OF m [OF that] moves_small(3)] moves_small(2)])
    with drop show ?thesis using Some unfolding handleReservedMessage_def
      by (simp add: Let_def split: sum.split)
  qed (simp add: handleReservedMessage_def)
  have rejected: "moves pdaOf st (fst (handleReserveRejectedMessage msg st))"
    by (auto simp: handleReserveRejectedMessage_def Let_def drop split: option.split)
  have released: "moves pdaOf st (fst (handleOrderReleasedMessage msg st))"
    using ok by (auto simp: handleOrderReleasedMessage_def msgOK_def Let_def split: option.split
        intro!: moves_manager ReleaseLocked_touches)
  have submitted: "moves pdaOf st (fst (handleSettlementSubmittedMessage msg st))"
    using entriesOK_ops(2,5) by (auto simp: handleSettlementSubmittedMessage_def Let_def split: option.split intro!: moves_inflight)
  have terminal: "moves pdaOf st (fst (handleTerminalMessage iter ph msg st))" for ph
    using applyTerminal_moves [OF iter] by (auto simp: handleTerminalMessage_def Let_def split: option.split)
  have deposit: "moves pdaOf st (fst (handleDepositConfirmedMessage msg st))"
    using transfer_touches(1) [OF transfer_walletOK [OF ok]]
    by (auto simp: handleDepositConfirmedMessage_def Let_def creditDeposit_def moves_def storesOK_def mark_trimmed split: option.split)
  have withdraw: "moves pdaOf st (fst (handleWithdrawConfirmedMessage msg st))"
    using transfer_touches(2) [OF transfer_walletOK [OF ok]]
    by (auto simp: handleWithdrawConfirmedMessage_def Let_def debitWithdraw_def moves_def storesOK_def mark_trimmed split: option.split)
  show ?thesis
    unfolding dispatchMessage_def Let_def handleSettlementConfirmedMessage_def handleSettlementFailedMessage_def
    by (simp add: submit reserved rejected handleMatchBatch_moves [OF iter ok] released submitted terminal deposit withdraw)
qed

end
