(* ===== verification/FundsRecoveryLaws.thy ===== *)
theory FundsRecoveryLaws
  imports FundsTouch
begin

text \<open>
  What is in the tables and what is still dirty together are the balances: the invariant of the manager against the
  rows, kept by every write, by the capture of a flush, by its failure and by a restart.
\<close>

section \<open>Rows against balances\<close>

definition dirtyOK :: "Manager \<Rightarrow> bool" where
  "dirtyOK m \<longleftrightarrow> distinct (walletQueue (dirty m)) \<and> walletSeen (dirty m) = set (walletQueue (dirty m))
     \<and> (\<forall>w l. walletAt m w = Some l \<longrightarrow> wDirty l \<longrightarrow> w \<in> set (walletQueue (dirty m)))
     \<and> distinct (positionQueue (dirty m)) \<and> positionSeen (dirty m) = set (positionQueue (dirty m))
     \<and> (\<forall>k \<in> set (positionQueue (dirty m)). \<exists>w pda. k = positionKey w pda \<and> walletOK w)
     \<and> (\<forall>w pda p. walletOK w \<longrightarrow> posAt m w pda = Some p \<longrightarrow> pDirty p \<longrightarrow> positionKey w pda \<in> set (positionQueue (dirty m)))"

definition rowsInv ::
  "(u64 \<Rightarrow> string) \<Rightarrow> Manager \<Rightarrow> (string \<rightharpoonup> walletRow) \<Rightarrow> (u64 \<times> string \<rightharpoonup> positionRow) \<Rightarrow> bool" where
  "rowsInv pdaOf m wr pr \<longleftrightarrow>
     (\<forall>w l. walletAt m w = Some l \<longrightarrow> walletOK w \<and> (wDirty l \<or> wr w = Some (walletRowOf l)))
     \<and> (\<forall>w. wr w \<noteq> None \<longrightarrow> walletAt m w \<noteq> None)
     \<and> (\<forall>w pda p. walletOK w \<longrightarrow> posAt m w pda = Some p \<longrightarrow> pdaOK pda \<and> (p_MarketID p \<noteq> 0 \<longrightarrow>
          pdaOf (p_MarketID p) = pda \<and> (pDirty p \<or> pr (p_MarketID p, w) = Some (positionRowOf pda p))))
     \<and> (\<forall>i w. pr (i, w) \<noteq> None \<longrightarrow> i \<noteq> 0 \<and> walletOK w \<and> (\<exists>p. posAt m w (pdaOf i) = Some p \<and> p_MarketID p = i))"

lemma rowsInvD:
  assumes "rowsInv pdaOf m wr pr"
  shows "walletAt m w = Some l \<Longrightarrow> walletOK w \<and> (wDirty l \<or> wr w = Some (walletRowOf l))"
    "wr w \<noteq> None \<Longrightarrow> walletAt m w \<noteq> None"
    "walletOK w \<Longrightarrow> posAt m w pda = Some p \<Longrightarrow> pdaOK pda \<and> (p_MarketID p \<noteq> 0 \<longrightarrow>
       pdaOf (p_MarketID p) = pda \<and> (pDirty p \<or> pr (p_MarketID p, w) = Some (positionRowOf pda p)))"
    "pr (i, w) \<noteq> None \<Longrightarrow> i \<noteq> 0 \<and> walletOK w \<and> (\<exists>p. posAt m w (pdaOf i) = Some p \<and> p_MarketID p = i)"
  using assms unfolding rowsInv_def by blast+

lemma rowsInvI:
  assumes "\<And>w l. walletAt m w = Some l \<Longrightarrow> walletOK w \<and> (wDirty l \<or> wr w = Some (walletRowOf l))"
    "\<And>w. wr w \<noteq> None \<Longrightarrow> walletAt m w \<noteq> None"
    "\<And>w pda p. walletOK w \<Longrightarrow> posAt m w pda = Some p \<Longrightarrow> pdaOK pda \<and> (p_MarketID p \<noteq> 0 \<longrightarrow>
       pdaOf (p_MarketID p) = pda \<and> (pDirty p \<or> pr (p_MarketID p, w) = Some (positionRowOf pda p)))"
    "\<And>i w. pr (i, w) \<noteq> None \<Longrightarrow> i \<noteq> 0 \<and> walletOK w \<and> (\<exists>p. posAt m w (pdaOf i) = Some p \<and> p_MarketID p = i)"
  shows "rowsInv pdaOf m wr pr"
  using assms unfolding rowsInv_def by blast

lemma rowOf_dirty [simp]:
  "walletRowOf (l\<lparr>wDirty := d\<rparr>) = walletRowOf l" "positionRowOf pda (p\<lparr>pDirty := d\<rparr>) = positionRowOf pda p"
  by (simp_all add: walletRowOf_def positionRowOf_def)

lemma walletOK_sel: "walletOK w \<Longrightarrow> noBar w" "walletOK w \<Longrightarrow> TrimSpace w = w" "walletOK w \<Longrightarrow> w \<noteq> []"
  by (simp_all add: walletOK_def)

lemma Position_posAt: "Position m w pda = (case posAt m w pda of None \<Rightarrow> zeroPosition | Some p \<Rightarrow> p)"
  by (simp add: Position_def)

lemma positionKey_trimmed: "walletOK w \<Longrightarrow> pdaOK pda \<Longrightarrow> TrimSpace (positionKey w pda) = positionKey w pda"
  using TrimSpace_hd_last [of w] TrimSpace_hd_last [of pda]
  by (intro TrimSpace_ends) (auto simp: positionKey_def walletOK_def pdaOK_def)

lemma markWallet_queue:
  assumes "walletOK w"
  shows "walletQueue (markWallet d w) = (if w \<in> walletSeen d then walletQueue d else walletQueue d @ [w])"
    "walletSeen (markWallet d w) = insert w (walletSeen d)"
    "positionQueue (markWallet d w) = positionQueue d" "positionSeen (markWallet d w) = positionSeen d"
  using walletOK_sel [OF assms] by (auto simp: markWallet_def Let_def)

lemma markPosition_queue:
  assumes "walletOK w" "pdaOK pda"
  shows "positionQueue (markPosition d (positionKey w pda)) =
      (if positionKey w pda \<in> positionSeen d then positionQueue d else positionQueue d @ [positionKey w pda])"
    "positionSeen (markPosition d (positionKey w pda)) = insert (positionKey w pda) (positionSeen d)"
    "walletQueue (markPosition d (positionKey w pda)) = walletQueue d" "walletSeen (markPosition d (positionKey w pda)) = walletSeen d"
proof -
  have "positionKey w pda \<noteq> []" by (simp add: positionKey_def)
  with positionKey_trimmed [OF assms] show "positionQueue (markPosition d (positionKey w pda)) =
      (if positionKey w pda \<in> positionSeen d then positionQueue d else positionQueue d @ [positionKey w pda])"
    "positionSeen (markPosition d (positionKey w pda)) = insert (positionKey w pda) (positionSeen d)"
    "walletQueue (markPosition d (positionKey w pda)) = walletQueue d" "walletSeen (markPosition d (positionKey w pda)) = walletSeen d"
    by (auto simp: markPosition_def Let_def)
qed

section \<open>Writes\<close>

definition ledgerInv :: "(u64 \<Rightarrow> string) \<Rightarrow> Manager \<Rightarrow> (string \<rightharpoonup> walletRow) \<Rightarrow> (u64 \<times> string \<rightharpoonup> positionRow) \<Rightarrow> bool" where
  "ledgerInv pdaOf m wr pr \<longleftrightarrow> dirtyOK m \<and> rowsInv pdaOf m wr pr"

lemma touchL_inv:
  assumes "ledgerInv pdaOf m wr pr" "walletOK w"
  shows "ledgerInv pdaOf (touchL m w l) wr pr"
proof -
  have "dirtyOK (touchL m w l)"
    using assms unfolding ledgerInv_def dirtyOK_def
    by (auto simp: markWallet_queue [OF assms(2)] split: if_splits)
  moreover have "rowsInv pdaOf (touchL m w l) wr pr"
    using assms unfolding ledgerInv_def rowsInv_def touchL_sel by (auto split: if_splits)
  ultimately show ?thesis by (simp add: ledgerInv_def)
qed

lemma touchP_inv:
  assumes "ledgerInv pdaOf m wr pr" "walletOK w" "pdaOK pda" "idOK pdaOf pda (Position m w pda) p"
  shows "ledgerInv pdaOf (touchP m w pda p) wr pr"
proof -
  note q = markPosition_queue [OF assms(2,3)] and nb = walletOK_sel(1) [OF assms(2)]
  have at: "posAt (touchP m w pda p) w' pda' = (if w' = w \<and> pda' = pda then Some (p\<lparr>pDirty := True\<rparr>) else posAt m w' pda')"
    if "walletOK w'" for w' pda' using touchP_posAt [OF nb walletOK_sel(1) [OF that]] .
  have "dirtyOK (touchP m w pda p)"
    using assms(1,2) unfolding ledgerInv_def dirtyOK_def touchP_sel q
    by (auto simp: at split: if_splits)
  moreover have "rowsInv pdaOf (touchP m w pda p) wr pr"
  proof -
    have inv: "rowsInv pdaOf m wr pr" using assms(1) by (simp add: ledgerInv_def)
    have "pdaOf (p_MarketID p) = pda" if "p_MarketID p \<noteq> 0"
      using that assms(2,4) inv unfolding idOK_def Position_posAt rowsInv_def
      by (auto simp: zeroPosition_def split: option.splits)
    moreover have "p_MarketID p = p_MarketID p0" if "posAt m w pda = Some p0" "p_MarketID p0 \<noteq> 0" for p0
      using that assms(4) by (simp add: idOK_def Position_posAt)
    ultimately have p: "pdaOK pda \<and> (p_MarketID p \<noteq> 0 \<longrightarrow> pdaOf (p_MarketID p) = pda)"
      "\<And>p0. posAt m w pda = Some p0 \<Longrightarrow> p_MarketID p0 \<noteq> 0 \<Longrightarrow> p_MarketID p = p_MarketID p0"
      using assms(3) by blast+
    show ?thesis
    proof (rule rowsInvI)
      fix w' pda' q assume q: "walletOK w'" "posAt (touchP m w pda p) w' pda' = Some q"
      then show "pdaOK pda' \<and> (p_MarketID q \<noteq> 0 \<longrightarrow>
          pdaOf (p_MarketID q) = pda' \<and> (pDirty q \<or> pr (p_MarketID q, w') = Some (positionRowOf pda' q)))"
        using p(1) rowsInvD(3) [OF inv q(1)] by (cases "w' = w \<and> pda' = pda") (auto simp: at)
    next
      fix i w' assume "pr (i, w') \<noteq> None"
      from rowsInvD(4) [OF inv this] obtain p0 where "i \<noteq> 0" "walletOK w'" "posAt m w' (pdaOf i) = Some p0" "p_MarketID p0 = i"
        by blast
      then show "i \<noteq> 0 \<and> walletOK w' \<and> (\<exists>q. posAt (touchP m w pda p) w' (pdaOf i) = Some q \<and> p_MarketID q = i)"
        using p(2) by (auto simp: at)
    qed (use rowsInvD(1,2) [OF inv] in auto)
  qed
  ultimately show ?thesis by (simp add: ledgerInv_def)
qed

lemma touches_inv:
  assumes "ledgerTouches pdaOf m m'" "ledgerInv pdaOf m wr pr"
  shows "ledgerInv pdaOf m' wr pr"
  using assms
proof (induction rule: rtranclp_induct)
  case (step y z)
  then show ?case by (auto elim!: ledgerTouch.cases intro: touchL_inv touchP_inv)
qed

section \<open>Capturing the dirty rows\<close>

definition snapWallet :: "Manager \<Rightarrow> string \<Rightarrow> DirtyWalletSnapshot list" where
  "snapWallet m w = (case walletAt m w of None \<Rightarrow> []
     | Some l \<Rightarrow> if wDirty l then [\<lparr>dw_WalletAddress = w, dw_Ledger = l\<lparr>wDirty := False\<rparr>\<rparr>] else [])"

definition cleaned :: "UserWallet \<Rightarrow> UserWallet" where "cleaned l = l\<lparr>wDirty := False\<rparr>"
definition cleanedP :: "MarketPosition \<Rightarrow> MarketPosition" where "cleanedP p = p\<lparr>pDirty := False\<rparr>"

lemma cleaned_sel [simp]:
  "walletRowOf (cleaned l) = walletRowOf l" "\<not> wDirty (cleaned l)" "\<not> wDirty l \<Longrightarrow> cleaned l = l"
  "positionRowOf pda (cleanedP p) = positionRowOf pda p" "\<not> pDirty (cleanedP p)" "\<not> pDirty p \<Longrightarrow> cleanedP p = p"
  "p_MarketID (cleanedP p) = p_MarketID p"
  by (simp_all add: cleaned_def cleanedP_def)

lemma collectWallet_step:
  assumes "collectWallet k (m, acc) = (m', acc')"
  shows "acc' = acc @ snapWallet m k" "walletAt m' w = (if w = k then map_option cleaned (walletAt m w) else walletAt m w)"
    "posAt m' w pda = posAt m w pda" "dirty m' = dirty m"
  using assms
  by (auto simp: collectWallet_def snapWallet_def SeedLedger_def cleaned_def Let_def split: option.splits if_splits)

lemma collectWallets:
  assumes "fold collectWallet ks (m, acc) = (m', acc')" "distinct ks"
  shows "acc' = acc @ concat (map (snapWallet m) ks)
    \<and> (\<forall>w. walletAt m' w = (if w \<in> set ks then map_option cleaned (walletAt m w) else walletAt m w))
    \<and> (\<forall>w pda. posAt m' w pda = posAt m w pda) \<and> dirty m' = dirty m"
  using assms
proof (induction ks arbitrary: m acc)
  case (Cons k ks)
  obtain m1 acc1 where s: "collectWallet k (m, acc) = (m1, acc1)" by (meson surj_pair)
  note st = collectWallet_step [OF s]
  have f: "fold collectWallet ks (m1, acc1) = (m', acc')" using Cons.prems(1) s by simp
  have "map (snapWallet m1) ks = map (snapWallet m) ks"
    using Cons.prems(2) st(2) by (auto simp: snapWallet_def)
  then have snaps: "concat (map (snapWallet m1) ks) = concat (map (snapWallet m) ks)" by (rule arg_cong)
  show ?case using Cons.IH [OF f] Cons.prems(2) st unfolding snaps by auto
qed simp

definition snapPosition :: "Manager \<Rightarrow> string \<Rightarrow> DirtyPositionSnapshot list" where
  "snapPosition m k = (case splitBar k of None \<Rightarrow> []
     | Some (w, pda) \<Rightarrow> (case posAt m w pda of None \<Rightarrow> []
         | Some p \<Rightarrow> if pDirty p then [\<lparr>dp_WalletAddress = w, dp_MarketID = p_MarketID p, dp_MarketPDA = pda,
              dp_Position = p\<lparr>pDirty := False\<rparr>\<rparr>] else []))"

lemma splitBar_key: "noBar w \<Longrightarrow> splitBar (positionKey w pda) = Some (w, pda)"
proof -
  assume "noBar w"
  then have "dropWhile (\<lambda>c. c \<noteq> CHR ''|'') (w @ CHR ''|'' # pda) = CHR ''|'' # pda"
    "takeWhile (\<lambda>c. c \<noteq> CHR ''|'') (w @ CHR ''|'' # pda) = w"
    by (auto simp: noBar_def dropWhile_append takeWhile_append)
  then show ?thesis by (simp add: splitBar_def positionKey_def)
qed

lemma collectPosition_step:
  assumes "collectPosition (positionKey v q) (m, acc) = (m', acc')" "noBar v" "noBar w"
  shows "acc' = acc @ snapPosition m (positionKey v q)"
    "posAt m' w pda = (if w = v \<and> pda = q then map_option cleanedP (posAt m w pda) else posAt m w pda)"
    "walletAt m' u = walletAt m u" "dirty m' = dirty m"
  using assms
  by (auto simp: collectPosition_def snapPosition_def SeedPosition_def cleanedP_def Let_def splitBar_key positionKey_inject
      split: option.splits if_splits)

lemma collectPositions:
  assumes "fold collectPosition ks (m, acc) = (m', acc')" "distinct ks" "\<forall>k \<in> set ks. \<exists>v q. k = positionKey v q \<and> walletOK v"
  shows "acc' = acc @ concat (map (snapPosition m) ks)
    \<and> (\<forall>w pda. noBar w \<longrightarrow> posAt m' w pda = (if positionKey w pda \<in> set ks then map_option cleanedP (posAt m w pda) else posAt m w pda))
    \<and> (\<forall>u. walletAt m' u = walletAt m u) \<and> dirty m' = dirty m"
  using assms
proof (induction ks arbitrary: m acc)
  case (Cons k ks)
  obtain v q where k: "k = positionKey v q" "noBar v" using Cons.prems(3) by (auto simp: walletOK_def)
  obtain m1 acc1 where s: "collectPosition k (m, acc) = (m1, acc1)" by (meson surj_pair)
  note st = collectPosition_step [OF s [unfolded k(1)] k(2)]
  have f: "fold collectPosition ks (m1, acc1) = (m', acc')" using Cons.prems(1) s by simp
  have "snapPosition m1 x = snapPosition m x" if x: "x \<in> set ks" for x
  proof -
    obtain a b where ab: "x = positionKey a b" "noBar a" using x Cons.prems(3) by (auto simp: walletOK_def)
    then have "\<not> (a = v \<and> b = q)" using x Cons.prems(2) k(1) by auto
    then have "posAt m1 a b = posAt m a b" by (subst st(2) [OF ab(2)]) (rule if_not_P)
    then show ?thesis by (simp add: snapPosition_def ab splitBar_key)
  qed
  then have snaps: "concat (map (snapPosition m1) ks) = concat (map (snapPosition m) ks)" by (intro arg_cong [where f = concat]) simp
  have "acc1 = acc @ snapPosition m k" "dirty m1 = dirty m" "\<And>u. walletAt m1 u = walletAt m u"
    using st(1,3,4) [OF k(2)] k(1) by simp_all
  moreover have at: "posAt m1 w pda = (if positionKey w pda = k then map_option cleanedP (posAt m w pda) else posAt m w pda)"
    if "noBar w" for w pda using st(2) [OF that] k that by (simp add: positionKey_inject)
  note IH = Cons.IH [OF f, unfolded snaps]
  have "posAt m' w pda = (if positionKey w pda \<in> set (k # ks) then map_option cleanedP (posAt m w pda) else posAt m w pda)"
    if nb: "noBar w" for w pda
  proof -
    have "posAt m' w pda = (if positionKey w pda \<in> set ks then map_option cleanedP (posAt m1 w pda) else posAt m1 w pda)"
      using IH Cons.prems(2,3) nb by simp
    with at [OF nb, of pda] Cons.prems(2) show ?thesis by (cases "positionKey w pda = k") simp_all
  qed
  ultimately show ?case using IH Cons.prems(2,3) by simp
qed simp

section \<open>The rows of a capture\<close>

definition walletRows :: "DirtyWalletSnapshot list \<Rightarrow> string \<rightharpoonup> walletRow" where
  "walletRows ws = map_of (map (\<lambda>s. (dw_WalletAddress s, walletRowOf (dw_Ledger s))) ws)"

definition rowKey :: "DirtyPositionSnapshot \<Rightarrow> u64 \<times> string" where
  "rowKey s = (dp_MarketID s, dp_WalletAddress s)"

definition positionRows :: "DirtyPositionSnapshot list \<Rightarrow> u64 \<times> string \<rightharpoonup> positionRow" where
  "positionRows ps = map_of (map (\<lambda>s. (rowKey s, positionRowOf (dp_MarketPDA s) (dp_Position s))) (filter (\<lambda>s. dp_MarketID s \<noteq> 0) ps))"

lemma upsertWallets:
  "distinct (map dw_WalletAddress ws) \<Longrightarrow> map_of (fold upsertWallet ws rows) = map_of rows ++ walletRows ws"
proof (induction ws arbitrary: rows)
  case (Cons s ws)
  then have "dw_WalletAddress s \<notin> dom (walletRows ws)" by (auto simp: walletRows_def dom_map_of_conv_image_fst)
  with Cons show ?case
    by (simp add: upsertWallet_def update_conv' walletRows_def map_add_upd_left del: fun_upd_apply)
qed (simp add: walletRows_def)

lemma upsertPositions:
  "distinct (map rowKey (filter (\<lambda>s. dp_MarketID s \<noteq> 0) ps)) \<Longrightarrow>
     map_of (fold upsertPosition ps rows) = map_of rows ++ positionRows ps"
proof (induction ps arbitrary: rows)
  case (Cons s ps)
  show ?case
  proof (cases "dp_MarketID s = 0")
    case False
    with Cons.prems have "rowKey s \<notin> dom (positionRows ps)" by (auto simp: positionRows_def dom_map_of_conv_image_fst)
    with Cons False show ?thesis
      by (simp add: upsertPosition_def update_conv' positionRows_def map_add_upd_left rowKey_def del: fun_upd_apply)
  qed (use Cons in \<open>simp add: upsertPosition_def positionRows_def\<close>)
qed (simp add: positionRows_def)

lemma walletRows_append: "walletRows (xs @ ys) w = (case walletRows xs w of None \<Rightarrow> walletRows ys w | Some r \<Rightarrow> Some r)"
  by (simp add: walletRows_def map_of_append map_add_def split: option.split)

lemma positionRows_append: "positionRows (xs @ ys) k = (case positionRows xs k of None \<Rightarrow> positionRows ys k | Some r \<Rightarrow> Some r)"
  by (simp add: positionRows_def map_of_append map_add_def split: option.split)

lemma walletRows_snap:
  "walletRows (concat (map (snapWallet m) ks)) w = (if w \<in> set ks then
     (case walletAt m w of None \<Rightarrow> None | Some l \<Rightarrow> if wDirty l then Some (walletRowOf l) else None) else None)"
proof (induction ks)
  case (Cons k ks)
  have "walletRows (snapWallet m k) w = (if w = k then
     (case walletAt m w of None \<Rightarrow> None | Some l \<Rightarrow> if wDirty l then Some (walletRowOf l) else None) else None)"
    by (simp add: snapWallet_def walletRows_def split: option.split)
  with Cons show ?case by (auto simp: walletRows_append split: option.split)
qed (simp add: walletRows_def)

lemma snapWallet_addresses: "distinct ks \<Longrightarrow> distinct (map dw_WalletAddress (concat (map (snapWallet m) ks)))"
proof (induction ks)
  case (Cons k ks)
  have "set (map dw_WalletAddress (concat (map (snapWallet m) xs))) \<subseteq> set xs" for xs
    by (induction xs) (auto simp: snapWallet_def split: option.splits if_splits)
  from this [of ks] Cons show ?case by (auto simp: snapWallet_def split: option.split)
qed simp

lemma positionRows_snap:
  assumes "\<forall>k \<in> set ks. \<exists>v q. k = positionKey v q \<and> walletOK v" "rowsInv pdaOf m wr pr"
  shows "positionRows (concat (map (snapPosition m) ks)) (i, w) = (if i \<noteq> 0 \<and> walletOK w \<and> positionKey w (pdaOf i) \<in> set ks then
     (case posAt m w (pdaOf i) of None \<Rightarrow> None
      | Some p \<Rightarrow> if pDirty p \<and> p_MarketID p = i then Some (positionRowOf (pdaOf i) p) else None) else None)"
  using assms(1)
proof (induction ks)
  case (Cons k ks)
  obtain v q where k: "k = positionKey v q" "walletOK v" using Cons.prems by auto
  have pda: "pdaOf (p_MarketID p) = q" if "posAt m v q = Some p" "p_MarketID p \<noteq> 0" for p
    using rowsInvD(3) [OF assms(2) k(2) that(1)] that(2) by blast
  have "positionRows (snapPosition m k) (i, w) = (if i \<noteq> 0 \<and> w = v \<and> pdaOf i = q then
     (case posAt m w (pdaOf i) of None \<Rightarrow> None
      | Some p \<Rightarrow> if pDirty p \<and> p_MarketID p = i then Some (positionRowOf (pdaOf i) p) else None) else None)"
  proof (cases "posAt m v q")
    case None
    then have "snapPosition m k = []" by (simp add: snapPosition_def k splitBar_key walletOK_sel)
    then show ?thesis using None by (auto simp: positionRows_def)
  next
    case (Some p)
    then have "snapPosition m k = (if pDirty p then [\<lparr>dp_WalletAddress = v, dp_MarketID = p_MarketID p, dp_MarketPDA = q,
        dp_Position = p\<lparr>pDirty := False\<rparr>\<rparr>] else [])"
      by (simp add: snapPosition_def k splitBar_key walletOK_sel)
    then show ?thesis using Some pda [OF Some] by (auto simp: positionRows_def rowKey_def)
  qed
  moreover have "w = v \<and> pdaOf i = q \<longleftrightarrow> walletOK w \<and> positionKey w (pdaOf i) = k"
    using k by (auto simp: positionKey_inject walletOK_sel)
  ultimately have here: "positionRows (snapPosition m k) (i, w) = (if i \<noteq> 0 \<and> walletOK w \<and> positionKey w (pdaOf i) = k then
     (case posAt m w (pdaOf i) of None \<Rightarrow> None
      | Some p \<Rightarrow> if pDirty p \<and> p_MarketID p = i then Some (positionRowOf (pdaOf i) p) else None) else None)"
    by simp
  have "\<forall>k \<in> set ks. \<exists>v q. k = positionKey v q \<and> walletOK v" using Cons.prems by simp
  from Cons.IH [OF this] here show ?case
    by (cases "i \<noteq> 0 \<and> walletOK w \<and> positionKey w (pdaOf i) = k") (simp_all add: positionRows_append split: option.split)
qed (simp add: positionRows_def)

lemma positionRows_dom: "dom (positionRows ps) = rowKey ` {s \<in> set ps. dp_MarketID s \<noteq> 0}"
  by (simp add: positionRows_def dom_map_of_conv_image_fst image_image)

lemma snapPosition_keys:
  assumes "distinct ks" "\<forall>k \<in> set ks. \<exists>v q. k = positionKey v q \<and> walletOK v" "rowsInv pdaOf m wr pr"
  shows "distinct (map rowKey (filter (\<lambda>s. dp_MarketID s \<noteq> 0) (concat (map (snapPosition m) ks))))"
  using assms(1,2)
proof (induction ks)
  case (Cons k ks)
  obtain v q where k: "k = positionKey v q" "walletOK v" using Cons.prems by auto
  let ?rest = "concat (map (snapPosition m) ks)"
  have new: "rowKey s \<notin> rowKey ` {r \<in> set ?rest. dp_MarketID r \<noteq> 0}" if s: "s \<in> set (snapPosition m k)" "dp_MarketID s \<noteq> 0" for s
  proof
    assume "rowKey s \<in> rowKey ` {r \<in> set ?rest. dp_MarketID r \<noteq> 0}"
    then have "rowKey s \<in> dom (positionRows ?rest)" unfolding positionRows_dom .
    moreover obtain p where p: "posAt m v q = Some p" "p_MarketID p = dp_MarketID s" "dp_WalletAddress s = v"
      using s(1) k by (cases "posAt m v q") (auto simp: snapPosition_def splitBar_key walletOK_sel split: if_splits)
    moreover have "pdaOf (dp_MarketID s) = q" using rowsInvD(3) [OF assms(3) k(2) p(1)] p(2) s(2) by simp
    ultimately have "k \<in> set ks"
      using positionRows_snap [OF _ assms(3), of ks "dp_MarketID s" v] Cons.prems(2) k by (auto simp: rowKey_def split: if_splits)
    then show False using Cons.prems(1) by simp
  qed
  have "rowKey ` {s \<in> set (snapPosition m k). dp_MarketID s \<noteq> 0} \<inter> rowKey ` {r \<in> set ?rest. dp_MarketID r \<noteq> 0} = {}"
    using new by blast
  moreover have "distinct (map rowKey (filter (\<lambda>s. dp_MarketID s \<noteq> 0) (snapPosition m k)))"
    by (auto simp: snapPosition_def split: option.split)
  moreover have "distinct (map rowKey (filter (\<lambda>s. dp_MarketID s \<noteq> 0) ?rest))" using Cons by simp
  ultimately show ?case
    by (simp only: list.map concat.simps filter_append map_append distinct_append set_map set_filter simp_thms)
qed simp

text \<open>A state mirrored in the rows: every ledger and every position of a market has its row, and no other row is there.\<close>

definition mirrored :: "(u64 \<Rightarrow> string) \<Rightarrow> Manager \<Rightarrow> (string \<rightharpoonup> walletRow) \<Rightarrow> (u64 \<times> string \<rightharpoonup> positionRow) \<Rightarrow> bool" where
  "mirrored pdaOf m wr pr \<longleftrightarrow> (\<forall>w. wr w = map_option walletRowOf (walletAt m w))
     \<and> (\<forall>i w. pr (i, w) = (if i \<noteq> 0 \<and> walletOK w then
          (case posAt m w (pdaOf i) of None \<Rightarrow> None | Some p \<Rightarrow> if p_MarketID p = i then Some (positionRowOf (pdaOf i) p) else None)
        else None))"

lemma mirroredD:
  assumes "mirrored pdaOf m wr pr"
  shows "wr w = map_option walletRowOf (walletAt m w)"
    "pr (i, w) = (if i \<noteq> 0 \<and> walletOK w then
       (case posAt m w (pdaOf i) of None \<Rightarrow> None | Some p \<Rightarrow> if p_MarketID p = i then Some (positionRowOf (pdaOf i) p) else None)
     else None)"
  using assms unfolding mirrored_def by blast+

definition snapsOK :: "(u64 \<Rightarrow> string) \<Rightarrow> DirtyWalletSnapshot list \<Rightarrow> DirtyPositionSnapshot list \<Rightarrow> bool" where
  "snapsOK pdaOf ws ps \<longleftrightarrow> distinct (map dw_WalletAddress ws) \<and> distinct (map rowKey (filter (\<lambda>s. dp_MarketID s \<noteq> 0) ps))
     \<and> (\<forall>s \<in> set ws. walletOK (dw_WalletAddress s))
     \<and> (\<forall>s \<in> set ps. walletOK (dp_WalletAddress s) \<and> pdaOK (dp_MarketPDA s)
          \<and> (dp_MarketID s \<noteq> 0 \<longrightarrow> pdaOf (dp_MarketID s) = dp_MarketPDA s))"

lemma capture_lookups:
  assumes inv: "ledgerInv pdaOf m wr pr" and c: "CollectAndClearDirty m = (m', ws, ps)"
  shows "walletAt m' w = map_option cleaned (walletAt m w)"
    "walletOK w \<Longrightarrow> posAt m' w pda = map_option cleanedP (posAt m w pda)"
    "dirty m' = \<lparr>walletQueue = [], walletSeen = {}, positionQueue = [], positionSeen = {}\<rparr>"
    "walletRows ws w = (case walletAt m w of None \<Rightarrow> None | Some l \<Rightarrow> if wDirty l then Some (walletRowOf l) else None)"
    "positionRows ps (i, w) = (if i \<noteq> 0 \<and> walletOK w then (case posAt m w (pdaOf i) of None \<Rightarrow> None
      | Some p \<Rightarrow> if pDirty p \<and> p_MarketID p = i then Some (positionRowOf (pdaOf i) p) else None) else None)"
    "snapsOK pdaOf ws ps"
proof -
  have d: "dirtyOK m" and r: "rowsInv pdaOf m wr pr" using inv by (simp_all add: ledgerInv_def)
  let ?wq = "walletQueue (dirty m)" and ?pq = "positionQueue (dirty m)"
  let ?m0 = "m\<lparr>dirty := \<lparr>walletQueue = [], walletSeen = {}, positionQueue = [], positionSeen = {}\<rparr>\<rparr>"
  obtain m1 where f1: "fold collectWallet ?wq (?m0, []) = (m1, ws)" and f2: "fold collectPosition ?pq (m1, []) = (m', ps)"
    using c by (auto simp: CollectAndClearDirty_def drain_def Let_def split: prod.splits)
  have dq: "distinct ?wq" "distinct ?pq" "\<forall>k \<in> set ?pq. \<exists>v q. k = positionKey v q \<and> walletOK v"
    using d by (simp_all add: dirtyOK_def)
  have snap0: "snapWallet ?m0 = snapWallet m" by (simp add: snapWallet_def fun_eq_iff)
  note W = collectWallets [OF f1 dq(1), unfolded snap0] and P = collectPositions [OF f2 dq(2,3)]
  have snap1: "snapPosition m1 = snapPosition m" using W by (simp add: snapPosition_def fun_eq_iff split: option.split prod.split)
  have qw: "w \<in> set ?wq" if "walletAt m w = Some l" "wDirty l" for w l using that d unfolding dirtyOK_def by blast
  have qp: "positionKey w pda \<in> set ?pq" if "walletOK w" "posAt m w pda = Some p" "pDirty p" for w pda p
    using that d unfolding dirtyOK_def by blast
  have ws: "ws = concat (map (snapWallet m) ?wq)" and ps: "ps = concat (map (snapPosition m) ?pq)"
    using W P snap1 by simp_all
  show "walletAt m' w = map_option cleaned (walletAt m w)"
  proof (cases "walletAt m w")
    case None
    then show ?thesis using W P by simp
  next
    case (Some a)
    then show ?thesis using W P qw [OF Some] by (cases "wDirty a") simp_all
  qed
  show "walletOK w \<Longrightarrow> posAt m' w pda = map_option cleanedP (posAt m w pda)"
  proof -
    assume w: "walletOK w"
    then have at: "posAt m' w pda = (if positionKey w pda \<in> set ?pq then map_option cleanedP (posAt m w pda) else posAt m w pda)"
      using W P walletOK_sel(1) [OF w] by simp
    show "posAt m' w pda = map_option cleanedP (posAt m w pda)"
    proof (cases "posAt m w pda")
      case (Some p)
      then show ?thesis using at qp [OF w Some] by (cases "pDirty p") simp_all
    qed (simp add: at)
  qed
  show "dirty m' = \<lparr>walletQueue = [], walletSeen = {}, positionQueue = [], positionSeen = {}\<rparr>" using W P by simp
  show "walletRows ws w = (case walletAt m w of None \<Rightarrow> None | Some l \<Rightarrow> if wDirty l then Some (walletRowOf l) else None)"
    unfolding ws walletRows_snap using qw by (auto split: option.split)
  show "positionRows ps (i, w) = (if i \<noteq> 0 \<and> walletOK w then (case posAt m w (pdaOf i) of None \<Rightarrow> None
      | Some p \<Rightarrow> if pDirty p \<and> p_MarketID p = i then Some (positionRowOf (pdaOf i) p) else None) else None)"
    unfolding ps positionRows_snap [OF dq(3) r] using qp [of w "pdaOf i"] by (auto split: option.split)
  have "walletOK (dw_WalletAddress s)" if s: "s \<in> set ws" for s
  proof -
    obtain u where u: "s \<in> set (snapWallet m u)" using s by (auto simp: ws)
    then obtain l where "walletAt m u = Some l" "dw_WalletAddress s = u"
      by (cases "walletAt m u") (auto simp: snapWallet_def split: if_splits)
    then show ?thesis using rowsInvD(1) [OF r] by simp
  qed
  moreover have "walletOK (dp_WalletAddress s) \<and> pdaOK (dp_MarketPDA s) \<and> (dp_MarketID s \<noteq> 0 \<longrightarrow> pdaOf (dp_MarketID s) = dp_MarketPDA s)"
    if s: "s \<in> set ps" for s
  proof -
    obtain v q where "s \<in> set (snapPosition m (positionKey v q))" "walletOK v" using s dq(3) by (auto simp: ps)
    then obtain p where "posAt m v q = Some p" "dp_WalletAddress s = v" "dp_MarketPDA s = q" "dp_MarketID s = p_MarketID p"
      by (cases "posAt m v q") (auto simp: snapPosition_def splitBar_key walletOK_sel split: if_splits)
    with rowsInvD(3) [OF r \<open>walletOK v\<close>] \<open>walletOK v\<close> show ?thesis by auto
  qed
  ultimately show "snapsOK pdaOf ws ps"
    using snapWallet_addresses [OF dq(1)] snapPosition_keys [OF dq(2,3) r] by (simp add: snapsOK_def ws ps)
qed

lemma capture_mirror:
  assumes inv: "ledgerInv pdaOf m wr pr" and c: "CollectAndClearDirty m = (m', ws, ps)"
  shows "mirrored pdaOf m (wr ++ walletRows ws) (pr ++ positionRows ps)"
    "ledgerInv pdaOf m' (wr ++ walletRows ws) (pr ++ positionRows ps)"
proof -
  note L = capture_lookups [OF inv c]
  have r: "rowsInv pdaOf m wr pr" using inv by (simp add: ledgerInv_def)
  have "(wr ++ walletRows ws) w = map_option walletRowOf (walletAt m w)" for w
    using rowsInvD(1,2) [OF r, of w] by (cases "walletAt m w"; cases "wr w") (auto simp: map_add_def L(4))
  moreover have "(pr ++ positionRows ps) (i, w) = (if i \<noteq> 0 \<and> walletOK w then
      (case posAt m w (pdaOf i) of None \<Rightarrow> None | Some p \<Rightarrow> if p_MarketID p = i then Some (positionRowOf (pdaOf i) p) else None) else None)" for i w
  proof (cases "pr (i, w) = None \<or> (i \<noteq> 0 \<and> walletOK w)")
    case True
    then show ?thesis
      using rowsInvD(3) [OF r, of w "pdaOf i"] rowsInvD(4) [OF r, of i w]
      by (cases "posAt m w (pdaOf i)"; cases "pr (i, w)") (auto simp: map_add_def L(5))
  next
    case False
    with rowsInvD(4) [OF r] show ?thesis by blast
  qed
  ultimately show mir: "mirrored pdaOf m (wr ++ walletRows ws) (pr ++ positionRows ps)" by (simp add: mirrored_def)
  have "rowsInv pdaOf m' (wr ++ walletRows ws) (pr ++ positionRows ps)"
  proof (rule rowsInvI)
    fix w l assume "walletAt m' w = Some l"
    then show "walletOK w \<and> (wDirty l \<or> (wr ++ walletRows ws) w = Some (walletRowOf l))"
      using rowsInvD(1) [OF r, of w] mir by (auto simp: L(1) mirrored_def)
  next
    fix w assume "(wr ++ walletRows ws) w \<noteq> None"
    then show "walletAt m' w \<noteq> None" unfolding mirroredD(1) [OF mir] L(1) by (cases "walletAt m w") simp_all
  next
    fix w pda p assume w: "walletOK w" and p: "posAt m' w pda = Some p"
    then obtain p0 where "posAt m w pda = Some p0" "p = cleanedP p0" by (auto simp: L(2))
    then show "pdaOK pda \<and> (p_MarketID p \<noteq> 0 \<longrightarrow> pdaOf (p_MarketID p) = pda
        \<and> (pDirty p \<or> (pr ++ positionRows ps) (p_MarketID p, w) = Some (positionRowOf pda p)))"
      using rowsInvD(3) [OF r w, of pda p0] mirroredD(2) [OF mir, of "p_MarketID p0" w] w by auto
  next
    fix i w assume "(pr ++ positionRows ps) (i, w) \<noteq> None"
    then show "i \<noteq> 0 \<and> walletOK w \<and> (\<exists>p. posAt m' w (pdaOf i) = Some p \<and> p_MarketID p = i)"
      unfolding mirroredD(2) [OF mir] by (cases "posAt m w (pdaOf i)") (auto simp: L(2) split: if_splits)
  qed
  moreover have "dirtyOK m'"
    unfolding dirtyOK_def L(3) by (auto simp: L(1,2))
  ultimately show "ledgerInv pdaOf m' (wr ++ walletRows ws) (pr ++ positionRows ps)" by (simp add: ledgerInv_def)
qed

section \<open>A flush that fails\<close>

text \<open>What is dirty stays dirty until a capture.\<close>

definition dirtyW :: "Manager \<Rightarrow> string \<Rightarrow> bool" where
  "dirtyW m w \<longleftrightarrow> (\<exists>l. walletAt m w = Some l \<and> wDirty l)"

definition dirtyP :: "Manager \<Rightarrow> string \<Rightarrow> string \<Rightarrow> bool" where
  "dirtyP m w pda \<longleftrightarrow> (\<exists>p. posAt m w pda = Some p \<and> pDirty p)"

lemma touch_dirty:
  assumes "ledgerTouch pdaOf m m'"
  shows "dirtyW m w \<Longrightarrow> dirtyW m' w" "noBar w \<Longrightarrow> dirtyP m w pda \<Longrightarrow> dirtyP m' w pda"
  using assms by (auto elim!: ledgerTouch.cases simp: dirtyW_def dirtyP_def touchP_posAt walletOK_sel)

lemma touches_dirty:
  assumes "ledgerTouches pdaOf m m'"
  shows "dirtyW m w \<Longrightarrow> dirtyW m' w" "noBar w \<Longrightarrow> dirtyP m w pda \<Longrightarrow> dirtyP m' w pda"
  using assms by (induction rule: rtranclp_induct) (auto intro: touch_dirty)

lemma restoreWallet_dirty: "dirtyW (restoreWallet s m) (dw_WalletAddress s)"
  by (simp add: dirtyW_def restoreWallet_def markLedgerDirtyLocked_def SeedLedger_def)

lemma restorePosition_dirty: "dirtyP (restorePosition s m) (dp_WalletAddress s) (dp_MarketPDA s)"
  by (simp add: dirtyP_def restorePosition_touch touchP_def SeedPosition_def)

lemma restorePosition_touches:
  assumes "walletOK (dp_WalletAddress s)" "pdaOK (dp_MarketPDA s)" "dp_MarketID s \<noteq> 0 \<Longrightarrow> pdaOf (dp_MarketID s) = dp_MarketPDA s"
  shows "ledgerTouches pdaOf m (restorePosition s m)"
  unfolding restorePosition_touch
  by (rule r_into_rtranclp, rule ledgerTouch.position) (use assms in \<open>auto simp: idOK_def withMarket_def\<close>)

lemma fold_dirties:
  assumes "\<And>s m. s \<in> set xs \<Longrightarrow> ledgerTouches pdaOf m (f s m)" "\<And>m m'. ledgerTouches pdaOf m m' \<Longrightarrow> Q m \<Longrightarrow> Q m'"
    "s \<in> set xs" "\<And>m. Q (f s m)"
  shows "Q (fold f xs m)"
  using assms(1,3)
proof (induction xs arbitrary: m)
  case (Cons x xs)
  show ?case
  proof (cases "s \<in> set xs")
    case True
    then show ?thesis using Cons by simp
  next
    case False
    then have "Q (f x m)" using Cons.prems(2) assms(4) by auto
    moreover have "ledgerTouches pdaOf (f x m) (fold f xs (f x m))" using Cons.prems(1) by (intro touches_fold) simp
    ultimately show ?thesis using assms(2) by simp
  qed
qed simp

lemma RestoreDirty_touches:
  assumes "snapsOK pdaOf ws ps"
  shows "ledgerTouches pdaOf m (RestoreDirty m ws ps)"
    "s \<in> set ws \<Longrightarrow> dirtyW (RestoreDirty m ws ps) (dw_WalletAddress s)"
    "q \<in> set ps \<Longrightarrow> dirtyP (RestoreDirty m ws ps) (dp_WalletAddress q) (dp_MarketPDA q)"
proof -
  have w: "ledgerTouches pdaOf m (restoreWallet s m)" if "s \<in> set ws" for s m
    using assms that by (intro restore_touches) (simp add: snapsOK_def)
  have p: "ledgerTouches pdaOf m (restorePosition q m)" if "q \<in> set ps" for q m
    using assms that by (intro restorePosition_touches) (simp_all add: snapsOK_def)
  have fw: "ledgerTouches pdaOf m (fold restoreWallet ws m)" and fp: "ledgerTouches pdaOf m (fold restorePosition ps m)" for m
    using w p by (auto intro: touches_fold)
  show "ledgerTouches pdaOf m (RestoreDirty m ws ps)"
    unfolding RestoreDirty_def by (rule touches_trans [OF fw fp])
  show "s \<in> set ws \<Longrightarrow> dirtyW (RestoreDirty m ws ps) (dw_WalletAddress s)"
    unfolding RestoreDirty_def
    by (rule touches_dirty(1) [OF fp], rule fold_dirties [where pdaOf = pdaOf])
       (use w touches_dirty(1) restoreWallet_dirty in auto)
  assume q: "q \<in> set ps"
  then have nb: "noBar (dp_WalletAddress q)" using assms by (simp add: snapsOK_def walletOK_sel)
  show "dirtyP (RestoreDirty m ws ps) (dp_WalletAddress q) (dp_MarketPDA q)"
    unfolding RestoreDirty_def
    by (rule fold_dirties [where pdaOf = pdaOf and s = q and Q = "\<lambda>m. dirtyP m (dp_WalletAddress q) (dp_MarketPDA q)"])
       (use p q touches_dirty(2) [OF _ nb] restorePosition_dirty in auto)
qed

lemma flush_undone:
  assumes inv: "ledgerInv pdaOf m (wr ++ walletRows ws) (pr ++ positionRows ps)" and ok: "snapsOK pdaOf ws ps"
  shows "ledgerInv pdaOf (RestoreDirty m ws ps) wr pr"
proof -
  let ?m = "RestoreDirty m ws ps"
  have i: "ledgerInv pdaOf ?m (wr ++ walletRows ws) (pr ++ positionRows ps)"
    by (rule touches_inv [OF RestoreDirty_touches(1) [OF ok] inv])
  then have r: "rowsInv pdaOf ?m (wr ++ walletRows ws) (pr ++ positionRows ps)" by (simp add: ledgerInv_def)
  have dw: "dirtyW ?m w" if w: "walletRows ws w \<noteq> None" for w
  proof -
    have "w \<in> dom (walletRows ws)" using w by blast
    then obtain s where "s \<in> set ws" "dw_WalletAddress s = w" by (auto simp: walletRows_def dom_map_of_conv_image_fst)
    then show ?thesis using RestoreDirty_touches(2) [OF ok, of s m] by simp
  qed
  have dp: "dirtyP ?m w (pdaOf i)" if k: "positionRows ps (i, w) \<noteq> None" for i w
  proof -
    have "(i, w) \<in> dom (positionRows ps)" using k by blast
    then obtain q where q: "q \<in> set ps" "dp_MarketID q = i" "dp_WalletAddress q = w" "i \<noteq> 0"
      unfolding positionRows_dom rowKey_def by auto
    then have "dp_MarketPDA q = pdaOf i" using ok by (auto simp: snapsOK_def)
    then show ?thesis using RestoreDirty_touches(3) [OF ok q(1), of m] q(3) by simp
  qed
  have "rowsInv pdaOf ?m wr pr"
  proof (rule rowsInvI)
    fix w l assume l: "walletAt ?m w = Some l"
    show "walletOK w \<and> (wDirty l \<or> wr w = Some (walletRowOf l))"
      using rowsInvD(1) [OF r l] dw [of w] l by (cases "walletRows ws w") (auto simp: map_add_def dirtyW_def)
  next
    fix w assume "wr w \<noteq> None"
    then show "walletAt ?m w \<noteq> None" using rowsInvD(2) [OF r, of w] by (auto simp: map_add_def split: option.splits)
  next
    fix w pda p assume w: "walletOK w" and p: "posAt ?m w pda = Some p"
    show "pdaOK pda \<and> (p_MarketID p \<noteq> 0 \<longrightarrow> pdaOf (p_MarketID p) = pda \<and> (pDirty p \<or> pr (p_MarketID p, w) = Some (positionRowOf pda p)))"
      using rowsInvD(3) [OF r w p] dp [of "p_MarketID p" w] p
      by (cases "positionRows ps (p_MarketID p, w)") (auto simp: map_add_def dirtyP_def)
  next
    fix i w assume "pr (i, w) \<noteq> None"
    then have "(pr ++ positionRows ps) (i, w) \<noteq> None" by (auto simp: map_add_def split: option.splits)
    from rowsInvD(4) [OF r this] show "i \<noteq> 0 \<and> walletOK w \<and> (\<exists>p. posAt ?m w (pdaOf i) = Some p \<and> p_MarketID p = i)" .
  qed
  with i show ?thesis by (simp add: ledgerInv_def)
qed

end
