(* ===== verification/FundsRestart.thy ===== *)
theory FundsRestart
  imports FundsRecoveryLaws FundsProps
begin

text \<open>
  The funds service with its projector over every run: what a restart reads back is the state in which the last
  committed flush was captured.
\<close>

section \<open>Reading the rows back\<close>

definition ledgerOf :: "walletRow \<Rightarrow> UserWallet" where
  "ledgerOf r = \<lparr>AvailableUSDC = (if ac_FreeUnits r <s 0 then 0 else ac_FreeUnits r),
     LockedUSDC = (if ac_LockedUnits r <s 0 then 0 else ac_LockedUnits r),
     PendingUSDC = (if ac_PendingUnits r <s 0 then 0 else ac_PendingUnits r), CancelAllBeforeTs = 0, wDirty = True\<rparr>"

definition positionOf :: "u64 \<Rightarrow> positionRow \<Rightarrow> MarketPosition" where
  "positionOf i r = (recoveredPosition i r)\<lparr>pDirty := True\<rparr>"

lemma positionOf_sel [simp]: "p_MarketID (positionOf i r) = i" "pDirty (positionOf i r)" "wDirty (ledgerOf q)"
  by (simp_all add: positionOf_def recoveredPosition_def ledgerOf_def)

lemma recoverWallet_touch: "recoverWallet (w, r) m = touchL m w (ledgerOf r)"
  by (simp add: recoverWallet_def touchL_def MarkLedgerDirty_def markLedgerDirtyLocked_def SeedLedger_def Ledger_def
      ledgerOf_def Let_def fun_upd_twist)

lemma recoverPosition_touch: "recoverPosition ((i, w), r) m = touchP m w (po_MarketPDA r) (recoveredPosition i r)"
  by (simp add: recoverPosition_def touchP_def MarkPositionDirty_def markPositionDirtyLocked_def SeedPosition_def Position_def Let_def)

lemma recoverWallets:
  "distinct (map fst rows) \<Longrightarrow>
     walletAt (fold recoverWallet rows m) w = (case map_of rows w of None \<Rightarrow> walletAt m w | Some r \<Rightarrow> Some (ledgerOf r))
     \<and> posAt (fold recoverWallet rows m) w pda = posAt m w pda"
proof (induction rows arbitrary: m)
  case (Cons row rows)
  obtain v r where row: "row = (v, r)" by (meson surj_pair)
  with Cons.prems have v: "map_of rows v = None" "distinct (map fst rows)" by (auto simp: map_of_eq_None_iff)
  show ?case using Cons.IH [OF v(2), of "touchL m v (ledgerOf r)"] v(1)
    by (auto simp: row recoverWallet_touch ledgerOf_def split: option.split)
qed simp

lemma recoverWallets_touches:
  assumes "\<And>w r. (w, r) \<in> set rows \<Longrightarrow> walletOK w"
  shows "ledgerTouches pdaOf m (fold recoverWallet rows m)"
  using assms by (intro touches_fold) (auto simp: recoverWallet_touch intro!: r_into_rtranclp ledgerTouch.ledger)

text \<open>One row per wallet and market, and per wallet and address of a market.\<close>

definition rowsKeyed :: "(u64 \<Rightarrow> string) \<Rightarrow> ((u64 \<times> string) \<times> positionRow) list \<Rightarrow> bool" where
  "rowsKeyed pdaOf rows \<longleftrightarrow> distinct (map fst rows)
     \<and> (\<forall>i w r. ((i, w), r) \<in> set rows \<longrightarrow> i \<noteq> 0 \<and> walletOK w \<and> pdaOK (pdaOf i) \<and> po_MarketPDA r = pdaOf i)
     \<and> (\<forall>i j w r q. ((i, w), r) \<in> set rows \<longrightarrow> ((j, w), q) \<in> set rows \<longrightarrow> pdaOf i = pdaOf j \<longrightarrow> i = j)"

lemma rowsKeyedD:
  assumes "rowsKeyed pdaOf rows"
  shows "((i, w), r) \<in> set rows \<Longrightarrow> i \<noteq> 0 \<and> walletOK w \<and> pdaOK (pdaOf i) \<and> po_MarketPDA r = pdaOf i"
    "((i, w), r) \<in> set rows \<Longrightarrow> ((j, w), q) \<in> set rows \<Longrightarrow> pdaOf i = pdaOf j \<Longrightarrow> i = j"
    "distinct (map fst rows)"
  using assms unfolding rowsKeyed_def by blast+

lemma rowsKeyed_Cons:
  assumes "rowsKeyed pdaOf (((j, v), q) # rows)"
  shows "rowsKeyed pdaOf rows" "walletOK v" "pdaOK (pdaOf j)" "po_MarketPDA q = pdaOf j"
    "((i, v), r) \<in> set rows \<Longrightarrow> pdaOf i \<noteq> pdaOf j"
proof -
  show "rowsKeyed pdaOf rows" using assms unfolding rowsKeyed_def by simp
  show "walletOK v" "pdaOK (pdaOf j)" "po_MarketPDA q = pdaOf j" using rowsKeyedD(1) [OF assms, of j v q] by simp_all
  assume i: "((i, v), r) \<in> set rows"
  show "pdaOf i \<noteq> pdaOf j"
  proof
    assume "pdaOf i = pdaOf j"
    with i have "i = j" using rowsKeyedD(2) [OF assms, of i v r j q] by simp
    with i rowsKeyedD(3) [OF assms] show False by (auto simp: rev_image_eqI)
  qed
qed

lemma recoverPositions:
  assumes "rowsKeyed pdaOf rows" "walletOK w"
  shows "((i, w), r) \<in> set rows \<Longrightarrow> posAt (fold recoverPosition rows m) w (pdaOf i) = Some (positionOf i r)"
    "(\<And>i r. ((i, w), r) \<in> set rows \<Longrightarrow> pdaOf i \<noteq> pda) \<Longrightarrow> posAt (fold recoverPosition rows m) w pda = posAt m w pda"
    "walletAt (fold recoverPosition rows m) u = walletAt m u"
proof -
  have "((\<forall>i r. ((i, w), r) \<in> set rows \<longrightarrow> pdaOf i \<noteq> pda) \<longrightarrow> posAt (fold recoverPosition rows m) w pda = posAt m w pda)
    \<and> (((i, w), r) \<in> set rows \<longrightarrow> posAt (fold recoverPosition rows m) w (pdaOf i) = Some (positionOf i r))
    \<and> walletAt (fold recoverPosition rows m) u = walletAt m u" for pda
    using assms(1)
  proof (induction rows arbitrary: m pda)
    case (Cons row rows)
    obtain j v q where row: "row = ((j, v), q)" by (metis surj_pair)
    note k = rowsKeyed_Cons [OF Cons.prems [unfolded row]]
    let ?m = "touchP m v (pdaOf j) (recoveredPosition j q)"
    have f: "fold recoverPosition (row # rows) m = fold recoverPosition rows ?m"
      by (simp add: row recoverPosition_touch k(4))
    note at = touchP_posAt [OF walletOK_sel(1) [OF k(2)] walletOK_sel(1) [OF assms(2)], of m "pdaOf j" "recoveredPosition j q"]
    note IH = Cons.IH [OF k(1), of _ ?m]
    have other: "posAt (fold recoverPosition rows ?m) w pda = posAt m w pda"
      if "\<forall>i r. ((i, w), r) \<in> set (row # rows) \<longrightarrow> pdaOf i \<noteq> pda" for pda
    proof -
      have "\<not> (w = v \<and> pda = pdaOf j)" using that by (auto simp: row)
      then have "posAt ?m w pda = posAt m w pda" unfolding at by (rule if_not_P)
      moreover have "posAt (fold recoverPosition rows ?m) w pda = posAt ?m w pda"
        using conjunct1 [OF IH [of pda]] that by (auto simp del: fold_simps)
      ultimately show ?thesis by simp
    qed
    have this_row: "posAt (fold recoverPosition rows ?m) w (pdaOf i) = Some (positionOf i r)"
      if "((i, w), r) \<in> set (row # rows)"
    proof (cases "((i, w), r) \<in> set rows")
      case True
      then show ?thesis using IH by simp
    next
      case False
      then have e: "j = i" "v = w" "q = r" using that by (auto simp: row)
      have "posAt (fold recoverPosition rows ?m) w (pdaOf i) = posAt ?m w (pdaOf i)"
        using IH [of "pdaOf i"] k(5) e by blast
      then show ?thesis by (simp add: e touchP_posAt walletOK_sel(1) [OF assms(2)] positionOf_def)
    qed
    have "walletAt (fold recoverPosition rows ?m) u = walletAt m u" using IH by simp
    with other this_row show ?case unfolding f by blast
  qed simp
  then show "((i, w), r) \<in> set rows \<Longrightarrow> posAt (fold recoverPosition rows m) w (pdaOf i) = Some (positionOf i r)"
    "(\<And>i r. ((i, w), r) \<in> set rows \<Longrightarrow> pdaOf i \<noteq> pda) \<Longrightarrow> posAt (fold recoverPosition rows m) w pda = posAt m w pda"
    "walletAt (fold recoverPosition rows m) u = walletAt m u"
    by blast+
qed

lemma recoverPositions_touches:
  assumes "rowsKeyed pdaOf rows" "\<And>i w r. ((i, w), r) \<in> set rows \<Longrightarrow> posAt m w (pdaOf i) = None"
  shows "ledgerTouches pdaOf m (fold recoverPosition rows m)"
  using assms
proof (induction rows arbitrary: m)
  case (Cons row rows)
  obtain j v q where row: "row = ((j, v), q)" by (metis surj_pair)
  note k = rowsKeyed_Cons [OF Cons.prems(1) [unfolded row]]
  let ?m = "touchP m v (pdaOf j) (recoveredPosition j q)"
  have "posAt m v (pdaOf j) = None" by (rule Cons.prems(2) [of j v q]) (simp add: row)
  then have "Position m v (pdaOf j) = zeroPosition" by (simp add: Position_def)
  then have "ledgerTouch pdaOf m ?m"
    using k(2,3) by (intro ledgerTouch.position) (simp_all add: idOK_def zeroPosition_def recoveredPosition_def)
  moreover have "ledgerTouches pdaOf ?m (fold recoverPosition rows ?m)"
  proof (rule Cons.IH [OF k(1)])
    fix i w r assume i: "((i, w), r) \<in> set rows"
    then have "\<not> (w = v \<and> pdaOf i = pdaOf j)" using k(5) by blast
    moreover have "noBar w" using rowsKeyedD(1) [OF k(1) i] by (simp add: walletOK_sel)
    moreover have "posAt m w (pdaOf i) = None" by (rule Cons.prems(2) [of i w r]) (simp add: i)
    ultimately show "posAt ?m w (pdaOf i) = None" by (simp add: touchP_posAt walletOK_sel k(2))
  qed
  ultimately show ?case by (simp add: row recoverPosition_touch k(4))
qed simp

section \<open>The tables\<close>

definition dbOK :: "(u64 \<Rightarrow> string) \<Rightarrow> fundsDB \<Rightarrow> bool" where
  "dbOK pdaOf db \<longleftrightarrow> distinct (map fst (fd_wallets db)) \<and> rowsKeyed pdaOf (fd_positions db)
     \<and> (\<forall>w r. (w, r) \<in> set (fd_wallets db) \<longrightarrow> walletOK w \<and> walletRowAllowed r)
     \<and> (\<forall>k r. (k, r) \<in> set (fd_positions db) \<longrightarrow> positionRowAllowed r)"

abbreviation walletsIn :: "fundsDB \<Rightarrow> string \<rightharpoonup> walletRow" where
  "walletsIn db \<equiv> map_of (fd_wallets db)"

abbreviation positionsIn :: "fundsDB \<Rightarrow> u64 \<times> string \<rightharpoonup> positionRow" where
  "positionsIn db \<equiv> map_of (fd_positions db)"

lemma dbOKD:
  assumes "dbOK pdaOf db"
  shows "distinct (map fst (fd_wallets db))" "rowsKeyed pdaOf (fd_positions db)"
    "walletsIn db w = Some r \<Longrightarrow> walletOK w \<and> walletRowAllowed r"
    "positionsIn db k = Some q \<Longrightarrow> positionRowAllowed q"
  using assms unfolding dbOK_def by (blast dest: map_of_SomeD)+

text \<open>What a start reads back, every row marked dirty again.\<close>

lemma recovered_manager:
  assumes "dbOK pdaOf db"
  defines "m \<equiv> recoverFromPostgres db NewManager"
  shows "walletAt m w = map_option ledgerOf (walletsIn db w)"
    "walletOK w \<Longrightarrow> posAt m w pda = Some p \<Longrightarrow> \<exists>i r. positionsIn db (i, w) = Some r \<and> pda = pdaOf i \<and> p = positionOf i r"
    "positionsIn db (i, w) = Some r \<Longrightarrow> posAt m w (pdaOf i) = Some (positionOf i r)"
    "ledgerInv pdaOf m (walletsIn db) (positionsIn db)"
proof -
  let ?mw = "fold recoverWallet (fd_wallets db) NewManager"
  note k = dbOKD(2) [OF assms(1)]
  have dist: "distinct (map fst (fd_positions db))" using rowsKeyedD(3) [OF k] .
  note W = recoverWallets [OF dbOKD(1) [OF assms(1)], of NewManager]
  have m: "m = fold recoverPosition (fd_positions db) ?mw" by (simp add: m_def recoverFromPostgres_def)
  have none: "walletAt NewManager w = None" "posAt NewManager w pda = None" for w pda by (simp_all add: NewManager_def)
  have in_rows: "positionsIn db key = Some r \<longleftrightarrow> (key, r) \<in> set (fd_positions db)" for key r
    using map_of_eq_Some_iff [OF dist] .
  show w_at: "walletAt m w = map_option ledgerOf (walletsIn db w)" for w
  proof (cases "walletOK w")
    case True
    then show ?thesis using recoverPositions(3) [OF k True, of ?mw w] W [of w] by (simp add: m none split: option.split)
  next
    case False
    then have "walletsIn db w = None" using dbOKD(3) [OF assms(1), of w] by (cases "walletsIn db w") auto
    moreover have "walletAt (fold recoverPosition rows n) w = walletAt n w" for rows n
      by (induction rows arbitrary: n) (auto simp: recoverPosition_touch)
    ultimately show ?thesis using W [of w] by (simp add: m none)
  qed
  have p_at: "posAt m w (pdaOf i) = Some (positionOf i r)" if "positionsIn db (i, w) = Some r" for i w r
    using that rowsKeyedD(1) [OF k, of i w r] recoverPositions(1) [OF k] unfolding in_rows m by blast
  then show "positionsIn db (i, w) = Some r \<Longrightarrow> posAt m w (pdaOf i) = Some (positionOf i r)" .
  have p_only: "\<exists>i r. positionsIn db (i, w) = Some r \<and> pda = pdaOf i \<and> p = positionOf i r"
    if w: "walletOK w" and p: "posAt m w pda = Some p" for w pda p
  proof (cases "\<exists>i r. ((i, w), r) \<in> set (fd_positions db) \<and> pdaOf i = pda")
    case True
    then obtain i r where i: "((i, w), r) \<in> set (fd_positions db)" "pdaOf i = pda" by blast
    then have "posAt m w pda = Some (positionOf i r)" using p_at in_rows by blast
    with i p in_rows show ?thesis by fastforce
  next
    case False
    then have "posAt m w pda = posAt ?mw w pda" unfolding m by (intro recoverPositions(2) [OF k w]) blast
    with p W [of w pda] show ?thesis by (simp add: none)
  qed
  then show "walletOK w \<Longrightarrow> posAt m w pda = Some p \<Longrightarrow> \<exists>i r. positionsIn db (i, w) = Some r \<and> pda = pdaOf i \<and> p = positionOf i r" .
  have "ledgerTouches pdaOf NewManager ?mw"
    using assms(1) by (intro recoverWallets_touches) (auto simp: dbOK_def)
  moreover have "ledgerTouches pdaOf ?mw m"
    unfolding m by (rule recoverPositions_touches [OF k]) (simp add: conjunct2 [OF W] none)
  ultimately have t: "ledgerTouches pdaOf NewManager m" by (rule touches_trans)
  have "ledgerInv pdaOf NewManager Map.empty Map.empty"
    by (simp add: ledgerInv_def dirtyOK_def rowsInv_def NewManager_def)
  from touches_inv [OF t this] have "dirtyOK m" by (simp add: ledgerInv_def)
  moreover have "rowsInv pdaOf m (walletsIn db) (positionsIn db)"
  proof (rule rowsInvI)
    fix w l assume "walletAt m w = Some l"
    then show "walletOK w \<and> (wDirty l \<or> walletsIn db w = Some (walletRowOf l))"
      using dbOKD(3) [OF assms(1), of w] by (auto simp: w_at)
  next
    fix w assume "walletsIn db w \<noteq> None"
    then show "walletAt m w \<noteq> None" by (auto simp: w_at)
  next
    fix w pda p assume "walletOK w" "posAt m w pda = Some p"
    then obtain i r where "positionsIn db (i, w) = Some r" "pda = pdaOf i" "p = positionOf i r" using p_only by blast
    then show "pdaOK pda \<and> (p_MarketID p \<noteq> 0 \<longrightarrow> pdaOf (p_MarketID p) = pda
        \<and> (pDirty p \<or> positionsIn db (p_MarketID p, w) = Some (positionRowOf pda p)))"
      using rowsKeyedD(1) [OF k, of i w r] by (simp add: in_rows)
  next
    fix i w assume "positionsIn db (i, w) \<noteq> None"
    then obtain r where "positionsIn db (i, w) = Some r" by blast
    then show "i \<noteq> 0 \<and> walletOK w \<and> (\<exists>p. posAt m w (pdaOf i) = Some p \<and> p_MarketID p = i)"
      using rowsKeyedD(1) [OF k, of i w r] p_at by (simp add: in_rows)
  qed
  ultimately show "ledgerInv pdaOf m (walletsIn db) (positionsIn db)" by (simp add: ledgerInv_def)
qed

text \<open>A transaction puts its rows over those of the tables.\<close>

lemma flushPostgres_rows:
  assumes "flushPostgres ws ps r db = Some db'" "snapsOK pdaOf ws ps"
  shows "walletsIn db' = walletsIn db ++ walletRows ws" "positionsIn db' = positionsIn db ++ positionRows ps"
    "fd_recovery db' = Some r"
  using assms upsertWallets [of ws] upsertPositions [of ps]
  by (auto simp: flushPostgres_def upsertRecoveryState_def snapsOK_def split: if_splits)

lemma upserts_distinct:
  "distinct (map fst rows) \<Longrightarrow> distinct (map fst (fold upsertWallet ws rows))"
  "distinct (map fst prows) \<Longrightarrow> distinct (map fst (fold upsertPosition ps prows))"
proof -
  show "distinct (map fst rows) \<Longrightarrow> distinct (map fst (fold upsertWallet ws rows))"
    by (induction ws arbitrary: rows) (simp_all add: upsertWallet_def distinct_update)
  show "distinct (map fst prows) \<Longrightarrow> distinct (map fst (fold upsertPosition ps prows))"
    by (induction ps arbitrary: prows) (simp_all add: upsertPosition_def distinct_update)
qed

lemma rows_allowed:
  assumes "flushPostgres ws ps r db = Some db'"
  shows "walletRows ws w = Some q \<Longrightarrow> walletRowAllowed q" "positionRows ps k = Some p \<Longrightarrow> positionRowAllowed p"
  using assms
  by (auto simp: flushPostgres_def walletRows_def positionRows_def list_all_iff split: if_splits dest!: map_of_SomeD)

lemma flushPostgres_dbOK:
  assumes f: "flushPostgres ws ps r db = Some db'" and ok: "snapsOK pdaOf ws ps" and db: "dbOK pdaOf db"
    and mir: "mirrored pdaOf m0 (walletsIn db ++ walletRows ws) (positionsIn db ++ positionRows ps)"
    and inv: "ledgerInv pdaOf m (walletsIn db ++ walletRows ws) (positionsIn db ++ positionRows ps)"
  shows "dbOK pdaOf db'"
proof -
  note rows = flushPostgres_rows [OF f ok]
  have mir': "mirrored pdaOf m0 (walletsIn db') (positionsIn db')" and inv': "rowsInv pdaOf m (walletsIn db') (positionsIn db')"
    using mir inv by (simp_all add: rows ledgerInv_def)
  have d: "distinct (map fst (fd_wallets db'))" "distinct (map fst (fd_positions db'))"
    using f upserts_distinct dbOKD(1) [OF db] rowsKeyedD(3) [OF dbOKD(2) [OF db]]
    by (auto simp: flushPostgres_def upsertRecoveryState_def split: if_splits)
  have pos: "i \<noteq> 0 \<and> walletOK w \<and> pdaOK (pdaOf i) \<and> po_MarketPDA q = pdaOf i \<and> (\<exists>p. posAt m0 w (pdaOf i) = Some p \<and> p_MarketID p = i)"
    if q: "((i, w), q) \<in> set (fd_positions db')" for i w q
  proof -
    have at: "positionsIn db' (i, w) = Some q" using q d(2) by simp
    from mirroredD(2) [OF mir', of i w] at obtain p where p: "i \<noteq> 0" "walletOK w" "posAt m0 w (pdaOf i) = Some p" "p_MarketID p = i"
      "q = positionRowOf (pdaOf i) p" by (cases "posAt m0 w (pdaOf i)") (auto split: if_splits)
    from rowsInvD(4) [OF inv', of i w] at obtain p' where "posAt m w (pdaOf i) = Some p'" by auto
    with rowsInvD(3) [OF inv' p(2)] p show ?thesis by (simp add: positionRowOf_def)
  qed
  then have "rowsKeyed pdaOf (fd_positions db')"
    using d(2) unfolding rowsKeyed_def by (metis option.inject)
  moreover have "walletOK w \<and> walletRowAllowed q" if "(w, q) \<in> set (fd_wallets db')" for w q
  proof -
    have at: "walletsIn db' w = Some q" using that d(1) by simp
    then obtain l where "walletAt m w = Some l" using rowsInvD(2) [OF inv', of w] by auto
    moreover have "walletRowAllowed q" using at rows_allowed(1) [OF f, of w] dbOKD(3) [OF db, of w] by (auto simp: rows)
    ultimately show ?thesis using rowsInvD(1) [OF inv'] by blast
  qed
  moreover have "positionRowAllowed q" if "(k, q) \<in> set (fd_positions db')" for k q
  proof -
    have "positionsIn db' k = Some q" using that d(2) by simp
    then show ?thesis using rows_allowed(2) [OF f, of k] dbOKD(4) [OF db, of k] by (auto simp: rows)
  qed
  ultimately show ?thesis using d(1) unfolding dbOK_def by blast
qed

section \<open>The recovery record\<close>

text \<open>A record taken of a state, whatever the order in which its stores were listed.\<close>

definition recordOf :: "(u64 \<Rightarrow> string) \<Rightarrow> FundsState \<Rightarrow> RecoveryState \<Rightarrow> bool" where
  "recordOf pdaOf st r \<longleftrightarrow> storesOK pdaOf st \<and> (\<exists>ord. orderOK ord st \<and> r = recoveryOf ord st)"

lemma Mark_bySubmit:
  assumes "\<forall>p \<in> set items. pr_SubmitKey p \<noteq> [] \<and> pr_WalletAddress p \<noteq> []"
  shows "bySubmit (fold (\<lambda>p s. Pending_Mark s p) items s) = fold (\<lambda>p acc. acc(pr_SubmitKey p \<mapsto> p)) items (bySubmit s)"
  using assms by (induction items arbitrary: s) (simp_all add: Pending_Mark_def Let_def)

lemma listed_map:
  assumes "lists ks (dom f)" "\<And>k e. f k = Some e \<Longrightarrow> key e = k"
  shows "fold (\<lambda>e acc. acc(key e \<mapsto> e)) (map (\<lambda>k. the (f k)) ks) Map.empty = f"
proof -
  have "fold (\<lambda>e acc. acc(key e \<mapsto> e)) (map (\<lambda>k. the (f k)) ks) Map.empty = (\<lambda>k. if k \<in> set ks then Some (the (f k)) else None)"
    using assms by (intro fold_map_upd) (auto simp: lists_def)
  also have "\<dots> = f" using assms(1) by (auto simp: lists_def fun_eq_iff)
  finally show ?thesis .
qed

lemma restored_stores:
  assumes "recordOf pdaOf st r"
  shows "fs_inflight (restoreRecoveryState r st0) = fs_inflight st" "fs_submits (restoreRecoveryState r st0) = fs_submits st"
    "fs_deposits (restoreRecoveryState r st0) = fs_deposits st" "fs_withdrawals (restoreRecoveryState r st0) = fs_withdrawals st"
    "bySubmit (fs_pending (restoreRecoveryState r st0)) = bySubmit (fs_pending st)"
    "fs_evtSeq (restoreRecoveryState r st0) = fs_evtSeq st" "fs_manager (restoreRecoveryState r st0) = fs_manager st0"
proof -
  obtain ord where ord: "orderOK ord st" and r: "r = recoveryOf ord st" and ok: "storesOK pdaOf st"
    using assms by (auto simp: recordOf_def)
  have ent: "entriesOK pdaOf (fs_inflight st)" and res: "reservesOK (fs_pending st)" using ok by (simp_all add: storesOK_def)
  have "fold (\<lambda>e acc. acc(if_MatchEventID e \<mapsto> e)) (rv_Inflight r) Map.empty = if_entries (fs_inflight st)"
    using ord ent by (auto simp: r recoveryOf_def Inflight_Snapshot_def orderOK_def entriesOK_def entries_keyed_def intro!: listed_map)
  moreover have "fold (\<lambda>e acc. acc(pt_MatchEventID e \<mapsto> e)) (rv_PendingTerminals r) Map.empty = pendingTerminal (fs_inflight st)"
    using ord ent by (auto simp: r recoveryOf_def PendingSnapshot_def orderOK_def entriesOK_def intro!: listed_map)
  ultimately show "fs_inflight (restoreRecoveryState r st0) = fs_inflight st"
    by (simp add: restoreRecoveryState_def RestorePendingTerminals_def RestoreFromSnapshot_def)
  have keys: "restoreKeys (rv_ProcessedSubmits r) = submitKeys (fs_submits st)"
    "restoreKeys (rv_ProcessedDeposits r) = depositKeys (fs_deposits st)"
    "restoreKeys (rv_ProcessedWithdrawals r) = withdrawalKeys (fs_withdrawals st)"
    using ord ok by (auto simp: r recoveryOf_def orderOK_def lists_def storesOK_def intro!: restoreKeys_snapshot)
  then show "fs_submits (restoreRecoveryState r st0) = fs_submits st"
    "fs_deposits (restoreRecoveryState r st0) = fs_deposits st" "fs_withdrawals (restoreRecoveryState r st0) = fs_withdrawals st"
    by (simp_all add: restoreRecoveryState_def SubmitStore_Restore_def DepositStore_Restore_def WithdrawalStore_Restore_def)
  have "\<forall>p \<in> set (rv_PendingReserves r). pr_SubmitKey p \<noteq> [] \<and> pr_WalletAddress p \<noteq> []"
    using ord res by (fastforce simp: r recoveryOf_def Pending_Snapshot_def orderOK_def lists_def reservesOK_def)
  moreover have "fold (\<lambda>p acc. acc(pr_SubmitKey p \<mapsto> p)) (rv_PendingReserves r) Map.empty = bySubmit (fs_pending st)"
    using ord res by (auto simp: r recoveryOf_def Pending_Snapshot_def orderOK_def reservesOK_def intro!: listed_map)
  ultimately show "bySubmit (fs_pending (restoreRecoveryState r st0)) = bySubmit (fs_pending st)"
    by (simp add: restoreRecoveryState_def Pending_Restore_def Mark_bySubmit)
  show "fs_evtSeq (restoreRecoveryState r st0) = fs_evtSeq st" "fs_manager (restoreRecoveryState r st0) = fs_manager st0"
    by (simp_all add: restoreRecoveryState_def r recoveryOf_def)
qed

section \<open>Every run\<close>

definition flightOK ::
  "(u64 \<Rightarrow> string) \<Rightarrow> Manager \<Rightarrow> fundsDB \<Rightarrow> FundsState \<Rightarrow>
    (DirtyWalletSnapshot list \<times> DirtyPositionSnapshot list \<times> RecoveryState) option \<Rightarrow> bool" where
  "flightOK pdaOf m db captured flight \<longleftrightarrow> (case flight of
     None \<Rightarrow> ledgerInv pdaOf m (walletsIn db) (positionsIn db)
   | Some (ws, ps, r) \<Rightarrow> snapsOK pdaOf ws ps \<and> recordOf pdaOf captured r
       \<and> ledgerInv pdaOf m (walletsIn db ++ walletRows ws) (positionsIn db ++ positionRows ps)
       \<and> mirrored pdaOf (fs_manager captured) (walletsIn db ++ walletRows ws) (positionsIn db ++ positionRows ps))"

definition committedOK :: "(u64 \<Rightarrow> string) \<Rightarrow> fundsDB \<Rightarrow> FundsState option \<Rightarrow> bool" where
  "committedOK pdaOf db committed \<longleftrightarrow> (case committed of
     None \<Rightarrow> db = emptyFundsDB
   | Some st \<Rightarrow> mirrored pdaOf (fs_manager st) (walletsIn db) (positionsIn db)
       \<and> (\<exists>r. fd_recovery db = Some r \<and> recordOf pdaOf st r))"

definition systemOK :: "(u64 \<Rightarrow> string) \<Rightarrow> fundsSystem \<Rightarrow> bool" where
  "systemOK pdaOf s \<longleftrightarrow> dbOK pdaOf (fy_db s) \<and> storesOK pdaOf (fy_live s)
     \<and> flightOK pdaOf (fs_manager (fy_live s)) (fy_db s) (fy_captured s) (fy_flight s)
     \<and> committedOK pdaOf (fy_db s) (fy_committed s)"

lemma flightOK_simps [simp]:
  "flightOK pdaOf m db c None = ledgerInv pdaOf m (walletsIn db) (positionsIn db)"
  "flightOK pdaOf m db c (Some (ws, ps, r)) \<longleftrightarrow> snapsOK pdaOf ws ps \<and> recordOf pdaOf c r
     \<and> ledgerInv pdaOf m (walletsIn db ++ walletRows ws) (positionsIn db ++ positionRows ps)
     \<and> mirrored pdaOf (fs_manager c) (walletsIn db ++ walletRows ws) (positionsIn db ++ positionRows ps)"
  "committedOK pdaOf db (Some st) \<longleftrightarrow> mirrored pdaOf (fs_manager st) (walletsIn db) (positionsIn db)
       \<and> (\<exists>r. fd_recovery db = Some r \<and> recordOf pdaOf st r)"
  "committedOK pdaOf db None \<longleftrightarrow> db = emptyFundsDB"
  by (simp_all add: flightOK_def committedOK_def)

lemma flightOK_touches: "ledgerTouches pdaOf m m' \<Longrightarrow> flightOK pdaOf m db c f \<Longrightarrow> flightOK pdaOf m' db c f"
  by (auto simp: flightOK_def split: option.splits intro: touches_inv)

lemma storesOK_more [simp]:
  "storesOK pdaOf (st\<lparr>fs_manager := m\<rparr>) = storesOK pdaOf st" "storesOK pdaOf (st\<lparr>fs_evtSeq := n\<rparr>) = storesOK pdaOf st"
  "storesOK pdaOf (restoreDirty ws ps st) = storesOK pdaOf st" "fs_manager (restoreDirty ws ps st) = RestoreDirty (fs_manager st) ws ps"
  "fs_manager (evictFlushed seq st) = fs_manager st"
  by (simp_all add: storesOK_def restoreDirty_def evictFlushed_def)

lemma storesOK_new [simp]: "storesOK pdaOf newFundsState"
  by (simp add: storesOK_def newFundsState_def NewSubmitStore_def NewDepositStore_def NewWithdrawalStore_def trimmed_def
      entriesOK_def entries_keyed_def NewInflightStore_def reservesOK_def NewPendingReserveStore_def)

lemma storesOK_evict: "storesOK pdaOf st \<Longrightarrow> storesOK pdaOf (evictFlushed seq st)"
  by (simp add: storesOK_def evictFlushed_def entriesOK_ops(4))

text \<open>The sequence number is read back from a signed column.\<close>

definition seqRead :: "u64 \<Rightarrow> u64" where
  "seqRead n = (if 0 <s n then n else 0)"

lemma recoverFunds_some:
  assumes "fd_recovery db = Some r" "recordOf pdaOf st r"
  shows "recoverFunds tail db = (restoreRecoveryState r (newFundsState\<lparr>fs_manager := recoverFromPostgres db NewManager\<rparr>))
     \<lparr>fs_evtSeq := seqRead (fs_evtSeq st)\<rparr>"
  using assms by (auto simp: recoverFunds_def loadRecoveryState_def restoreRecoveryState_def seqRead_def recordOf_def recoveryOf_def Let_def)

lemma storesOK_restored: "recordOf pdaOf st r \<Longrightarrow> storesOK pdaOf (restoreRecoveryState r st0)"
  using restored_stores [of pdaOf st r st0] by (simp add: recordOf_def storesOK_def reservesOK_def)

lemma new_systemOK: "systemOK pdaOf newFundsSystem"
proof -
  have "dbOK pdaOf emptyFundsDB" by (simp add: dbOK_def emptyFundsDB_def rowsKeyed_def)
  moreover have "ledgerInv pdaOf NewManager Map.empty Map.empty"
    by (simp add: ledgerInv_def dirtyOK_def rowsInv_def NewManager_def)
  ultimately show ?thesis
    by (simp add: systemOK_def newFundsSystem_def) (simp add: emptyFundsDB_def newFundsState_def)
qed

lemma step_dispatch:
  assumes "systemOK pdaOf s" "msgOK pdaOf msg" "\<And>ds. set (iter ds) \<subseteq> set ds"
  shows "systemOK pdaOf (s\<lparr>fy_live := fst (dispatchMessage iter msg (fy_live s)), fy_recoveryDirty := flag\<rparr>)"
proof -
  have "moves pdaOf (fy_live s) (fst (dispatchMessage iter msg (fy_live s)))" by (rule dispatch_moves) (use assms in auto)
  then have "storesOK pdaOf (fst (dispatchMessage iter msg (fy_live s)))"
    "ledgerTouches pdaOf (fs_manager (fy_live s)) (fs_manager (fst (dispatchMessage iter msg (fy_live s))))"
    using assms(1) by (simp_all add: moves_def systemOK_def)
  with assms(1) show ?thesis
    by (simp add: systemOK_def flightOK_touches)
qed

lemma captureFlush_cases:
  assumes "captureFlushState ord d st = (st', ws, ps, recovery)"
  obtains m where "CollectAndClearDirty (fs_manager st) = (m, ws, ps)" "st' = st\<lparr>fs_manager := m\<rparr>"
    "recovery = None \<and> ws = [] \<and> ps = [] \<or> recovery = Some (recoveryOf ord st)"
  using assms by (auto simp: captureFlushState_def split: prod.splits if_splits)

lemma step_capture:
  assumes ok: "systemOK pdaOf s" and f: "fy_flight s = None" and ord: "orderOK ord (fy_live s)"
  shows "systemOK pdaOf (captureStep ord s)"
proof -
  let ?st = "fy_live s"
  obtain st ws ps recovery where c: "captureFlushState ord (fy_recoveryDirty s) ?st = (st, ws, ps, recovery)" by (metis surj_pair)
  then obtain m where m: "CollectAndClearDirty (fs_manager ?st) = (m, ws, ps)" "st = ?st\<lparr>fs_manager := m\<rparr>"
    and rec: "recovery = None \<and> ws = [] \<and> ps = [] \<or> recovery = Some (recoveryOf ord ?st)" by (rule captureFlush_cases)
  have inv: "ledgerInv pdaOf (fs_manager ?st) (walletsIn (fy_db s)) (positionsIn (fy_db s))"
    using ok f by (simp add: systemOK_def)
  note C = capture_mirror [OF inv m(1)] and snaps = capture_lookups(6) [OF inv m(1)]
  have stores: "storesOK pdaOf ?st" using ok by (simp add: systemOK_def)
  show ?thesis
  proof (cases recovery)
    case None
    then have e: "captureStep ord s = s\<lparr>fy_live := st\<rparr>" "ws = []" "ps = []" using c rec by (auto simp: captureStep_def)
    have "walletRows [] = Map.empty" "positionRows [] = Map.empty" by (simp_all add: walletRows_def positionRows_def)
    with C(2) e(2,3) have "ledgerInv pdaOf m (walletsIn (fy_db s)) (positionsIn (fy_db s))" by simp
    with ok f stores show ?thesis by (simp add: e(1) systemOK_def m(2))
  next
    case (Some r)
    then have r: "r = recoveryOf ord ?st" using rec by auto
    have "recordOf pdaOf ?st r" using stores ord r by (auto simp: recordOf_def)
    with ok stores C snaps show ?thesis
      by (simp add: captureStep_def c Some systemOK_def m(2))
  qed
qed

lemma step_fails:
  assumes ok: "systemOK pdaOf s"
  shows "systemOK pdaOf (flushFails s)"
proof (cases "fy_flight s")
  case None
  with ok show ?thesis by (simp add: flushFails_def)
next
  case (Some f)
  obtain ws ps r where f: "f = (ws, ps, r)" by (metis surj_pair)
  have "ledgerInv pdaOf (RestoreDirty (fs_manager (fy_live s)) ws ps) (walletsIn (fy_db s)) (positionsIn (fy_db s))"
    using ok Some by (intro flush_undone) (simp_all add: f systemOK_def)
  with ok Some show ?thesis by (simp add: f flushFails_def systemOK_def)
qed

lemma step_commits:
  assumes ok: "systemOK pdaOf s" and f: "fy_flight s = Some (ws, ps, r)" and db: "flushPostgres ws ps r (fy_db s) = Some db"
  shows "systemOK pdaOf (flushCommits redisOk db s)"
proof -
  let ?st = "evictFlushed (rv_LastFlushedEventSeq r) (fy_live s)"
  have fl: "snapsOK pdaOf ws ps" "recordOf pdaOf (fy_captured s) r"
    "ledgerInv pdaOf (fs_manager (fy_live s)) (walletsIn (fy_db s) ++ walletRows ws) (positionsIn (fy_db s) ++ positionRows ps)"
    "mirrored pdaOf (fs_manager (fy_captured s)) (walletsIn (fy_db s) ++ walletRows ws) (positionsIn (fy_db s) ++ positionRows ps)"
    using ok f by (simp_all add: systemOK_def)
  note rows = flushPostgres_rows [OF db fl(1)]
  have dbOK: "dbOK pdaOf db" by (rule flushPostgres_dbOK [OF db fl(1) _ fl(4,3)]) (use ok in \<open>simp add: systemOK_def\<close>)
  have live: "ledgerInv pdaOf (fs_manager (fy_live s)) (walletsIn db) (positionsIn db)" using fl(3) by (simp add: rows)
  have "ledgerInv pdaOf (fs_manager (if redisOk then ?st else restoreDirty ws ps ?st)) (walletsIn db) (positionsIn db)"
    using live touches_inv [OF RestoreDirty_touches(1) [OF fl(1)] live] by simp
  moreover have "storesOK pdaOf (if redisOk then ?st else restoreDirty ws ps ?st)"
    using ok storesOK_evict by (simp add: systemOK_def)
  moreover have "mirrored pdaOf (fs_manager (fy_captured s)) (walletsIn db) (positionsIn db)" using fl(4) by (simp add: rows)
  ultimately show ?thesis
    using dbOK fl(2) rows(3) by (simp add: flushCommits_def f systemOK_def Let_def)
qed

lemma recoverFunds_manager: "fs_manager (recoverFunds tail db) = recoverFromPostgres db NewManager"
  by (simp add: recoverFunds_def seedCurrentEventSeq_def Let_def restoreRecoveryState_def split: option.split)

lemma replay_moves:
  assumes "\<And>ds. set (iter ds) \<subseteq> set ds" "\<And>msg. msg \<in> set msgs \<Longrightarrow> msgOK pdaOf msg"
  shows "moves pdaOf st (replayEventLog iter startSeq endSeq msgs st)"
proof -
  have "moves pdaOf st (replayMessages iter endSeq msgs st)"
    using assms(2)
  proof (induction msgs arbitrary: st)
    case (Cons msg msgs)
    have "moves pdaOf st (fst (dispatchMessage iter msg st))" by (rule dispatch_moves [OF assms(1)]) (simp add: Cons.prems)
    with Cons show ?case by (auto simp: Let_def split: option.split intro: moves_trans)
  qed simp
  moreover have "moves pdaOf st (st\<lparr>fs_evtSeq := n\<rparr>)" for n by (simp add: moves_def)
  ultimately show ?thesis by (simp add: replayEventLog_def Let_def)
qed

lemma recover_moves:
  assumes "\<And>ds. set (iter ds) \<subseteq> set ds" "\<And>msg. msg \<in> set msgs \<Longrightarrow> msgOK pdaOf msg"
  shows "moves pdaOf (recoverFunds tail db) (recover iter tail msgs db)"
  using replay_moves [OF assms] by (simp add: recover_def split: option.split)

lemma step_restart:
  assumes ok: "systemOK pdaOf s" and iter: "\<And>ds. set (iter ds) \<subseteq> set ds" and msgs: "\<And>msg. msg \<in> set msgs \<Longrightarrow> msgOK pdaOf msg"
  shows "systemOK pdaOf (restartFunds iter tail msgs s)"
proof -
  have st: "storesOK pdaOf (recoverFunds tail (fy_db s))"
  proof (cases "fy_committed s")
    case None
    with ok show ?thesis by (simp add: systemOK_def recoverFunds_def seedCurrentEventSeq_def emptyFundsDB_def loadRecoveryState_def)
  next
    case (Some st)
    with ok obtain r where "fd_recovery (fy_db s) = Some r" "recordOf pdaOf st r" by (auto simp: systemOK_def)
    then show ?thesis by (simp add: recoverFunds_some storesOK_restored)
  qed
  have "dbOK pdaOf (fy_db s)" using ok by (simp add: systemOK_def)
  note inv = recovered_manager(4) [OF this, folded recoverFunds_manager [of tail]]
  from recover_moves [OF iter msgs, where tail = tail and db = "fy_db s"] st
  have "storesOK pdaOf (recover iter tail msgs (fy_db s))"
    "ledgerTouches pdaOf (fs_manager (recoverFunds tail (fy_db s))) (fs_manager (recover iter tail msgs (fy_db s)))"
    by (simp_all add: moves_def)
  with ok touches_inv [OF this(2) inv] show ?thesis by (simp add: restartFunds_def systemOK_def)
qed

lemma reachable_systemOK: "reachableFunds pdaOf s \<Longrightarrow> systemOK pdaOf s"
  unfolding reachableFunds_def
proof (induction rule: rtranclp_induct)
  case base
  show ?case by (rule new_systemOK)
next
  case (step s s')
  from step(2) step(3) show ?case
  proof (cases rule: fundsStep.cases)
    case (markDirty)
    with step(3) show ?thesis by (simp add: systemOK_def)
  qed (simp_all add: step_dispatch step_capture step_fails step_commits step_restart)
qed

section \<open>A restart\<close>

lemma read_back:
  "walletRowAllowed (walletRowOf l) \<Longrightarrow> AvailableUSDC (ledgerOf (walletRowOf l)) = AvailableUSDC l
     \<and> LockedUSDC (ledgerOf (walletRowOf l)) = LockedUSDC l \<and> PendingUSDC (ledgerOf (walletRowOf l)) = nonNegativePendingUnits (PendingUSDC l)"
  "positionRowAllowed (positionRowOf pda p) \<Longrightarrow> positionOf (p_MarketID p) (positionRowOf pda p) = p\<lparr>pDirty := True\<rparr>"
  by (auto simp: walletRowAllowed_def walletRowOf_def ledgerOf_def nonNegativePendingUnits_def Let_def word_sless_alt word_sle_eq)
    (auto simp: positionRowAllowed_def positionRowOf_def positionOf_def recoveredPosition_def clampNonNegative_def)

lemma committed_read_back:
  assumes s: "systemOK pdaOf s" and st: "fy_committed s = Some st"
  defines "m \<equiv> recoverFromPostgres (fy_db s) NewManager"
  shows "AvailableUSDC (Ledger m w) = AvailableUSDC (Ledger (fs_manager st) w)" "LockedUSDC (Ledger m w) = LockedUSDC (Ledger (fs_manager st) w)"
    "PendingUSDC (Ledger m w) = nonNegativePendingUnits (PendingUSDC (Ledger (fs_manager st) w))"
    "i \<noteq> 0 \<Longrightarrow> walletOK w \<Longrightarrow> p_MarketID (Position (fs_manager st) w (pdaOf i)) = i \<Longrightarrow>
       Position m w (pdaOf i) = (Position (fs_manager st) w (pdaOf i))\<lparr>pDirty := True\<rparr>"
    "i \<noteq> 0 \<Longrightarrow> walletOK w \<Longrightarrow> p_MarketID (Position m w (pdaOf i)) = i \<Longrightarrow> p_MarketID (Position (fs_manager st) w (pdaOf i)) = i"
proof -
  have db: "dbOK pdaOf (fy_db s)" and mir: "mirrored pdaOf (fs_manager st) (walletsIn (fy_db s)) (positionsIn (fy_db s))"
    using s st by (simp_all add: systemOK_def)
  note R = recovered_manager [OF db, folded m_def]
  have "AvailableUSDC (Ledger m w) = AvailableUSDC (Ledger (fs_manager st) w) \<and> LockedUSDC (Ledger m w) = LockedUSDC (Ledger (fs_manager st) w)
    \<and> PendingUSDC (Ledger m w) = nonNegativePendingUnits (PendingUSDC (Ledger (fs_manager st) w))"
  proof (cases "walletAt (fs_manager st) w")
    case None
    then have "walletAt m w = None" using mirroredD(1) [OF mir, of w] by (simp add: R(1))
    with None show ?thesis by (simp add: Ledger_def zeroWallet_def nonNegativePendingUnits_def)
  next
    case (Some l)
    then have row: "walletsIn (fy_db s) w = Some (walletRowOf l)" using mirroredD(1) [OF mir, of w] by simp
    then have "walletRowAllowed (walletRowOf l)" using dbOKD(3) [OF db] by blast
    with row Some read_back(1) [of l] show ?thesis by (simp add: Ledger_def R(1))
  qed
  then show "AvailableUSDC (Ledger m w) = AvailableUSDC (Ledger (fs_manager st) w)" "LockedUSDC (Ledger m w) = LockedUSDC (Ledger (fs_manager st) w)"
    "PendingUSDC (Ledger m w) = nonNegativePendingUnits (PendingUSDC (Ledger (fs_manager st) w))" by simp_all
  assume i: "i \<noteq> 0" "walletOK w"
  show "Position m w (pdaOf i) = (Position (fs_manager st) w (pdaOf i))\<lparr>pDirty := True\<rparr>"
    if j: "p_MarketID (Position (fs_manager st) w (pdaOf i)) = i"
  proof -
    obtain p where p: "posAt (fs_manager st) w (pdaOf i) = Some p" "p_MarketID p = i"
      using j i(1) by (cases "posAt (fs_manager st) w (pdaOf i)") (auto simp: Position_posAt zeroPosition_def)
    then have row: "positionsIn (fy_db s) (i, w) = Some (positionRowOf (pdaOf i) p)" using mirroredD(2) [OF mir, of i w] i by simp
    then have "positionRowAllowed (positionRowOf (pdaOf i) p)" by (rule dbOKD(4) [OF db])
    with R(3) [OF row] p read_back(2) [of "pdaOf i" p] show ?thesis by (simp add: Position_posAt)
  qed
  show "p_MarketID (Position (fs_manager st) w (pdaOf i)) = i" if j: "p_MarketID (Position m w (pdaOf i)) = i"
  proof -
    obtain p where p: "posAt m w (pdaOf i) = Some p" "p_MarketID p = i"
      using j i(1) by (cases "posAt m w (pdaOf i)") (auto simp: Position_posAt zeroPosition_def)
    from R(2) [OF i(2) p(1)] p(2) obtain r where "positionsIn (fy_db s) (i, w) = Some r" by auto
    with mirroredD(2) [OF mir, of i w] i show ?thesis
      by (cases "posAt (fs_manager st) w (pdaOf i)") (auto simp: Position_posAt split: if_splits)
  qed
qed

text \<open>C11: a restart reads back the last committed flush.  However messages, captures, failing and succeeding flushes and
  restarts interleave, a service that starts holds the balances, the positions, the batches and outcomes it
  waits for, the accepted reserves, the processed keys and the sequence number of the state in which the last committed flush
  was captured, and then replays the events that follow that number: no flush loses a write or mixes two states, and one that
  fails leaves nothing behind.\<close>
theorem restart_recovers_committed:
  assumes "reachableFunds pdaOf s" "fy_committed s = Some st"
  shows "let base = recoverFunds tail (fy_db s) in
    fy_live (restartFunds iter tail msgs s) = replayEventLog iter (fs_evtSeq base + 1) tail msgs base \<and>
    (\<forall>w. AvailableUSDC (Ledger (fs_manager base) w) = AvailableUSDC (Ledger (fs_manager st) w) \<and>
       LockedUSDC (Ledger (fs_manager base) w) = LockedUSDC (Ledger (fs_manager st) w) \<and>
       PendingUSDC (Ledger (fs_manager base) w) = nonNegativePendingUnits (PendingUSDC (Ledger (fs_manager st) w))) \<and>
    (\<forall>w i. i \<noteq> 0 \<longrightarrow> walletOK w \<longrightarrow>
       (p_MarketID (Position (fs_manager base) w (pdaOf i)) = i \<longleftrightarrow> p_MarketID (Position (fs_manager st) w (pdaOf i)) = i) \<and>
       (p_MarketID (Position (fs_manager st) w (pdaOf i)) = i \<longrightarrow>
          Position (fs_manager base) w (pdaOf i) = (Position (fs_manager st) w (pdaOf i))\<lparr>pDirty := True\<rparr>)) \<and>
    fs_inflight base = fs_inflight st \<and> bySubmit (fs_pending base) = bySubmit (fs_pending st) \<and> fs_submits base = fs_submits st \<and>
    fs_deposits base = fs_deposits st \<and> fs_withdrawals base = fs_withdrawals st \<and> fs_evtSeq base = seqRead (fs_evtSeq st)"
proof -
  have s: "systemOK pdaOf s" by (rule reachable_systemOK [OF assms(1)])
  with assms(2) obtain r where r: "fd_recovery (fy_db s) = Some r" "recordOf pdaOf st r" by (auto simp: systemOK_def)
  let ?m = "recoverFromPostgres (fy_db s) NewManager" and ?base = "recoverFunds tail (fy_db s)"
  note base = recoverFunds_some [OF r, of tail] and B = committed_read_back [OF s assms(2)]
    and R = restored_stores [OF r(2), of "newFundsState\<lparr>fs_manager := ?m\<rparr>"]
  have stores: "fs_inflight ?base = fs_inflight st" "bySubmit (fs_pending ?base) = bySubmit (fs_pending st)" "fs_submits ?base = fs_submits st"
    "fs_deposits ?base = fs_deposits st" "fs_withdrawals ?base = fs_withdrawals st" "fs_evtSeq ?base = seqRead (fs_evtSeq st)" "fs_manager ?base = ?m"
    using R by (simp_all add: base)
  have "rv_LastFlushedEventSeq (the (loadRecoveryState (fy_db s))) = seqRead (fs_evtSeq st)"
    using r by (auto simp: loadRecoveryState_def seqRead_def recordOf_def recoveryOf_def)
  moreover have "loadRecoveryState (fy_db s) \<noteq> None" using r(1) by (simp add: loadRecoveryState_def)
  ultimately have "fy_live (restartFunds iter tail msgs s) = replayEventLog iter (fs_evtSeq ?base + 1) tail msgs ?base"
    by (auto simp: restartFunds_def recover_def stores(6))
  moreover have positions: "(p_MarketID (Position ?m w (pdaOf i)) = i \<longleftrightarrow> p_MarketID (Position (fs_manager st) w (pdaOf i)) = i) \<and>
       (p_MarketID (Position (fs_manager st) w (pdaOf i)) = i \<longrightarrow>
          Position ?m w (pdaOf i) = (Position (fs_manager st) w (pdaOf i))\<lparr>pDirty := True\<rparr>)" if "i \<noteq> 0" "walletOK w" for w i
    using B(4,5) [of i w] that by fastforce
  ultimately show ?thesis unfolding Let_def stores using B(1-3) by simp
qed

section \<open>A run\<close>

text \<open>A deposit is handled and flushed; then a withdrawal with a smaller sequence number, of another consumer, arrives.\<close>

definition lateDeposit :: FundsMsg where
  "lateDeposit = (sampleMsg ''evt.deposit.confirmed'')\<lparr>fm_Seq := Some 7, fm_Transfer := Some \<lparr>tc_Signature = ''s1'',
     tc_WalletAddress = ''alice'', tc_AmountUnits = 5\<rparr>\<rparr>"

definition lateWithdraw :: FundsMsg where
  "lateWithdraw = (sampleMsg ''evt.withdraw.confirmed'')\<lparr>fm_Seq := Some 6, fm_Transfer := Some \<lparr>tc_Signature = ''s2'',
     tc_WalletAddress = ''alice'', tc_AmountUnits = 3\<rparr>\<rparr>"

definition lateOrder :: storeOrder where
  "lateOrder = \<lparr>or_inflight = [], or_pending = [], or_reserves = [], or_submits = [], or_deposits = [''s1''], or_withdrawals = []\<rparr>"

definition lateHandled :: "FundsMsg \<Rightarrow> fundsSystem \<Rightarrow> fundsSystem" where
  "lateHandled msg s = s\<lparr>fy_live := fst (dispatchMessage id msg (fy_live s)), fy_recoveryDirty := True\<rparr>"

definition lateCaptured :: fundsSystem where
  "lateCaptured = captureStep lateOrder (lateHandled lateDeposit newFundsSystem)"

definition lateFlushed :: fundsSystem where
  "lateFlushed = (case fy_flight lateCaptured of None \<Rightarrow> lateCaptured | Some (ws, ps, r) \<Rightarrow>
     (case flushPostgres ws ps r (fy_db lateCaptured) of None \<Rightarrow> lateCaptured | Some db \<Rightarrow> flushCommits True db lateCaptured))"

lemma recoveryOf_lists [code]:
  "recoveryOf ord st = \<lparr>rv_LastFlushedEventSeq = fs_evtSeq st,
     rv_Inflight = map (\<lambda>k. the (if_entries (fs_inflight st) k)) (or_inflight ord),
     rv_PendingTerminals = map (\<lambda>k. the (pendingTerminal (fs_inflight st) k)) (or_pending ord),
     rv_PendingReserves = Pending_Snapshot (or_reserves ord) (fs_pending st), rv_ProcessedSubmits = or_submits ord,
     rv_ProcessedDeposits = or_deposits ord, rv_ProcessedWithdrawals = or_withdrawals ord\<rparr>"
  by (simp add: recoveryOf_def Inflight_Snapshot_def PendingSnapshot_def)

lemma late_values:
  "AvailableUSDC (Ledger (fs_manager (fy_live (lateHandled lateWithdraw lateFlushed))) ''alice'') = 2"
  "AvailableUSDC (Ledger (fs_manager (fy_live (restartFunds id 7 [] (lateHandled lateWithdraw lateFlushed)))) ''alice'') = 5"
  "fs_evtSeq (fy_live (restartFunds id 7 [] (lateHandled lateWithdraw lateFlushed))) = 7"
  "AvailableUSDC (Ledger (fs_manager (fy_captured lateCaptured)) ''alice'') = 5"
  by code_simp+

lemma late_captures:
  "fy_flight lateCaptured \<noteq> None" "fy_flight (lateHandled lateDeposit newFundsSystem) = None"
  "case the (fy_flight lateCaptured) of (ws, ps, r) \<Rightarrow> flushPostgres ws ps r (fy_db lateCaptured) \<noteq> None"
  by code_simp+

lemma late_handled:
  assumes "reachableFunds pdaOf s" "msg = lateDeposit \<or> msg = lateWithdraw"
  shows "reachableFunds pdaOf (lateHandled msg s)"
proof -
  have "walletOK (TrimSpace ''alice'')" by code_simp
  then have "msgOK pdaOf msg"
    using assms(2) by (auto simp: msgOK_def lateDeposit_def lateWithdraw_def sampleMsg_def)
  then have "fundsStep pdaOf s (lateHandled msg s)" unfolding lateHandled_def by (intro fundsStep.dispatch) simp_all
  with assms(1) show ?thesis unfolding reachableFunds_def by (rule rtranclp.rtrancl_into_rtrancl)
qed

lemma late_dispatch: "dispatchMessage id lateDeposit st = handleDepositConfirmedMessage lateDeposit st"
proof -
  have "list_all (\<lambda>p. \<not> HasPrefix (fm_Subject lateDeposit) p) [SubjectOrderSubmit, SubjectOrderReserved, SubjectOrderReserveRejected,
      SubjectMatchExecution, SubjectOrderReleased, SubjectSettlementSubmitted, SubjectSettlementConfirmed, SubjectSettlementFailed]"
    "HasPrefix (fm_Subject lateDeposit) SubjectDepositConfirmed"
    by code_simp+
  then show ?thesis by (simp add: dispatchMessage_def)
qed

lemma late_order: "orderOK lateOrder (fy_live (lateHandled lateDeposit newFundsSystem))"
proof -
  have k: "TrimSpace ''s1'' = ''s1''" by code_simp
  have d: "tc_Signature ev = ''s1'' \<Longrightarrow> fm_Transfer lateDeposit = Some ev \<Longrightarrow>
      fst (handleDepositConfirmedMessage lateDeposit newFundsState) = ack lateDeposit (newFundsState\<lparr>fs_manager := creditDeposit ev NewManager,
        fs_deposits := \<lparr>depositKeys = {''s1''}\<rparr>\<rparr>)" for ev
    by (simp add: handleDepositConfirmedMessage_def k newFundsState_def DepositStore_Has_def DepositStore_Mark_def NewDepositStore_def Let_def)
  have a: "fs_inflight (ack msg st) = fs_inflight st" "fs_pending (ack msg st) = fs_pending st" "fs_submits (ack msg st) = fs_submits st"
    "fs_deposits (ack msg st) = fs_deposits st" "fs_withdrawals (ack msg st) = fs_withdrawals st" for msg st
    by (simp_all add: ack_def split: option.split)
  obtain ev where "fm_Transfer lateDeposit = Some ev" "tc_Signature ev = ''s1''" by (simp add: lateDeposit_def)
  note d [OF this(2,1)]
  then show ?thesis
    by (simp add: lateHandled_def newFundsSystem_def late_dispatch orderOK_def lists_def a lateOrder_def newFundsState_def NewInflightStore_def
        NewPendingReserveStore_def NewSubmitStore_def NewWithdrawalStore_def)
qed

lemma late_reachable: "reachableFunds pdaOf lateFlushed" "fy_committed lateFlushed = Some (fy_captured lateCaptured)"
proof -
  let ?s = "lateHandled lateDeposit newFundsSystem"
  have "reachableFunds pdaOf newFundsSystem" by (simp add: reachableFunds_def)
  then have "reachableFunds pdaOf ?s" by (intro late_handled) simp_all
  moreover have "fundsStep pdaOf ?s lateCaptured"
    unfolding lateCaptured_def by (rule fundsStep.capture [OF late_captures(2) late_order])
  moreover obtain ws ps r where f: "fy_flight lateCaptured = Some (ws, ps, r)" using late_captures(1) by auto
  moreover obtain db where db: "flushPostgres ws ps r (fy_db lateCaptured) = Some db" using late_captures(3) f by auto
  moreover have e: "lateFlushed = flushCommits True db lateCaptured" by (simp add: lateFlushed_def f db)
  ultimately show "reachableFunds pdaOf lateFlushed"
    unfolding reachableFunds_def e by (meson fundsStep.commits rtranclp.rtrancl_into_rtrancl)
  show "fy_committed lateFlushed = Some (fy_captured lateCaptured)" by (simp add: e flushCommits_def f Let_def)
qed

theorem restart_recovers_committed_witness:
  "AvailableUSDC (Ledger (fs_manager (recoverFunds 7 (fy_db lateFlushed))) ''alice'') = 5 \<and>
   fs_deposits (recoverFunds 7 (fy_db lateFlushed)) = fs_deposits (fy_captured lateCaptured)"
  using restart_recovers_committed [OF late_reachable(1) [of "\<lambda>_. ''m''"] late_reachable(2), of 7] late_values(4)
  by (simp add: Let_def)

text \<open>An event handled late is lost at a restart.  The recovery record keeps the largest sequence number handled, and a
  start replays what follows it; the consumers of the service run side by side, so an event with a smaller number may be
  handled and acknowledged after the flush.  There is a run in which a withdrawal of 3 units is debited and acknowledged, and
  the balance is the one before it when the service starts again: the stream does not deliver the event any more, and the
  replay starts at 8.\<close>

theorem late_event_lost:
  "let s = lateHandled lateWithdraw lateFlushed in
   reachableFunds pdaOf s \<and> fst (snd (dispatchMessage id lateWithdraw (fy_live lateFlushed))) = Ack \<and> fm_Seq lateWithdraw = Some 6 \<and>
   AvailableUSDC (Ledger (fs_manager (fy_live s)) ''alice'') = 2 \<and>
   fs_evtSeq (fy_live (restartFunds id 7 [] s)) = 7 \<and> AvailableUSDC (Ledger (fs_manager (fy_live (restartFunds id 7 [] s))) ''alice'') = 5"
proof -
  have "reachableFunds pdaOf (lateHandled lateWithdraw lateFlushed)"
    by (rule late_handled [OF late_reachable(1)]) simp
  moreover have "fst (snd (dispatchMessage id lateWithdraw (fy_live lateFlushed))) = Ack" "fm_Seq lateWithdraw = Some 6" by code_simp+
  ultimately show ?thesis using late_values by (simp add: Let_def)
qed

end
