(* ===== verification/Snowflake.thy ===== *)
theory Snowflake
  imports GoStrings
begin

text \<open>
  The trade identifiers of \<open>matching/snowflake.go\<close>: a 42-bit millisecond clock, a machine number
  and a sequence number in one 64-bit word.  The clock is an argument: the list of the readings
  that \<open>currentTimeMillis\<close> returns, of which an operation consumes a prefix.  \<open>None\<close> means the
  readings ran out while \<open>waitNextMillis\<close> was still waiting.
\<close>

definition epoch :: u64 where "epoch = 1704067200000"
definition maxMachineID :: u64 where "maxMachineID = 1023"
definition maxSequence :: u64 where "maxSequence = 4095"

record Snowflake =
  machineID :: u64
  sequence :: u64
  lastTime :: u64

datatype snowflake_error = ErrInvalidMachineID | ErrClockMovedBackwards

definition NewSnowflake :: "u64 \<Rightarrow> snowflake_error + Snowflake" where
  "NewSnowflake m = (if maxMachineID < m then Inl ErrInvalidMachineID
     else Inr \<lparr>machineID = m, sequence = 0, lastTime = 0\<rparr>)"

fun waitNextMillis :: "u64 list \<Rightarrow> u64 \<Rightarrow> (u64 \<times> u64 list) option" where
  "waitNextMillis [] last1 = None"
| "waitNextMillis (now # clock) last1 = (if now \<le> last1 then waitNextMillis clock last1 else Some (now, clock))"

definition composeID :: "u64 \<Rightarrow> u64 \<Rightarrow> u64 \<Rightarrow> u64" where
  "composeID now m seq1 = push_bit 22 (now - epoch) OR push_bit 12 m OR seq1"

definition Generate :: "Snowflake \<Rightarrow> u64 list \<Rightarrow> ((snowflake_error + u64) \<times> Snowflake \<times> u64 list) option" where
  "Generate s clock =
     (case clock of
        [] \<Rightarrow> None
      | now # clock \<Rightarrow>
          if now < lastTime s then Some (Inl ErrClockMovedBackwards, s, clock)
          else let seq1 = (if now = lastTime s then (sequence s + 1) AND maxSequence else 0) in
            (case (if now = lastTime s \<and> seq1 = 0 then waitNextMillis clock now else Some (now, clock)) of
               None \<Rightarrow> None
             | Some (now, clock) \<Rightarrow>
                 Some (Inr (composeID now (machineID s) seq1), s\<lparr>sequence := seq1, lastTime := now\<rparr>, clock)))"

definition formatUint64 :: "u64 \<Rightarrow> string" where
  "formatUint64 n = digitsBase 36 (unat n)"

text \<open>The identifiers of a run: what successive calls return, until the readings run out.\<close>

lemma waitNextMillis_length: "waitNextMillis clock t = Some (now, rest) \<Longrightarrow> length rest < length clock"
  by (induction clock) (auto split: if_splits)

lemma waitNextMillis_later: "waitNextMillis clock t = Some (now, rest) \<Longrightarrow> t < now \<and> now \<in> set clock \<and> set rest \<subseteq> set clock"
  by (induction clock) (auto split: if_splits)

lemma Generate_length: "Generate s clock = Some (r, s', rest) \<Longrightarrow> length rest < length clock"
  by (auto simp: Generate_def Let_def dest: waitNextMillis_length split: list.splits if_splits option.splits)

function generated :: "Snowflake \<Rightarrow> u64 list \<Rightarrow> u64 list" where
  "generated s clock =
     (case Generate s clock of
        None \<Rightarrow> []
      | Some (Inl e, s', rest) \<Rightarrow> generated s' rest
      | Some (Inr i, s', rest) \<Rightarrow> i # generated s' rest)"
  by pat_completeness auto

termination generated
  by (relation "measure (\<lambda>(s, clock). length clock)") (auto dest: Generate_length)

declare generated.simps [simp del]

section \<open>The fields of an identifier\<close>

lemma or_shift_nat:
  assumes "(b :: nat) < 2 ^ n"
  shows "push_bit n a OR b = a * 2 ^ n + b"
proof -
  have b: "take_bit n b = b" using assms by (simp add: take_bit_nat_eq_self_iff)
  have "push_bit n a AND b = 0"
    by (rule bit_eqI) (metis b bit_0_eq bit_and_iff bit_push_bit_iff bit_take_bit_iff bot_apply bot_bool_def leD)
  then have "push_bit n a + b = push_bit n a OR b" by (rule disjunctive_add_eq_or)
  then show ?thesis by (simp add: push_bit_eq_mult)
qed

lemma unat_push_bit: "unat (w :: u64) * 2 ^ n < 2 ^ 64 \<Longrightarrow> unat (push_bit n w) = unat w * 2 ^ n"
  unfolding unsigned_push_bit_eq by (simp add: push_bit_eq_mult take_bit_nat_eq_self_iff)

definition inRange :: "u64 \<Rightarrow> bool" where
  "inRange now \<longleftrightarrow> epoch \<le> now \<and> unat (now - epoch) < 2 ^ 42"

lemma unat_composeID:
  assumes "inRange now" "m \<le> maxMachineID" "q \<le> maxSequence"
  shows "unat (composeID now m q) = (unat (now - epoch) * 1024 + unat m) * 4096 + unat q"
proof -
  have t: "unat (now - epoch) < 2 ^ 42" and m: "unat m < 1024" and q: "unat q < 4096"
    using assms by (auto simp: inRange_def maxMachineID_def maxSequence_def word_le_nat_alt)
  have pt: "unat (push_bit 22 (now - epoch)) = unat (now - epoch) * 4194304"
    using unat_push_bit [of "now - epoch" 22] t by simp
  have pm: "unat (push_bit 12 m) = unat m * 4096"
    using unat_push_bit [of m 12] m by simp
  have pq: "unat (now - epoch) * 4194304 = push_bit 12 (push_bit 10 (unat (now - epoch)))" "unat m * 4096 = push_bit 12 (unat m)"
    by (simp_all add: push_bit_eq_mult)
  have "unat (composeID now m q) = push_bit 12 (push_bit 10 (unat (now - epoch)) OR unat m) OR unat q"
    unfolding composeID_def unsigned_or_eq pt pm
    by (simp only: pq push_bit_or or.assoc)
  also have "push_bit 10 (unat (now - epoch)) OR unat m = unat (now - epoch) * 1024 + unat m"
    using or_shift_nat [of "unat m" 10] m by simp
  also have "push_bit 12 (unat (now - epoch) * 1024 + unat m) OR unat q = (unat (now - epoch) * 1024 + unat m) * 4096 + unat q"
    using or_shift_nat [of "unat q" 12] q by simp
  finally show ?thesis .
qed

section \<open>Order and uniqueness\<close>

lemma composeID_later:
  assumes "inRange t" "inRange t'" "m \<le> maxMachineID" "q \<le> maxSequence" "q' \<le> maxSequence"
    "t < t' \<or> (t = t' \<and> q < q')"
  shows "composeID t m q < composeID t' m q'"
proof -
  have q: "unat q < 4096" and m: "unat m < 1024" using assms(3,4) by (auto simp: maxMachineID_def maxSequence_def word_le_nat_alt)
  have "unat (t - epoch) < unat (t' - epoch) \<or> (t = t' \<and> unat q < unat q')"
    using assms(1,2,6) by (auto simp: inRange_def unat_sub_le word_less_nat_alt word_le_nat_alt)
  then have "(unat (t - epoch) * 1024 + unat m) * 4096 + unat q < (unat (t' - epoch) * 1024 + unat m) * 4096 + unat q'"
    using q m by auto
  then show ?thesis using assms(1-5) by (simp add: word_less_nat_alt unat_composeID)
qed

lemma digits_inject: "(q :: nat) < b \<Longrightarrow> q' < b \<Longrightarrow> x * b + q = y * b + q' \<Longrightarrow> x = y \<and> q = q'"
proof -
  assume q: "q < b" "q' < b" and e: "x * b + q = y * b + q'"
  have "(x * b + q) div b = x" "(y * b + q') div b = y" using q by simp_all
  with e have "x = y" by simp
  with e show ?thesis by simp
qed

lemma composeID_inject:
  assumes "inRange t" "inRange t'" "m \<le> maxMachineID" "m' \<le> maxMachineID" "q \<le> maxSequence" "q' \<le> maxSequence"
    "composeID t m q = composeID t' m' q'"
  shows "t = t' \<and> m = m' \<and> q = q'"
proof -
  have b: "unat m < 1024" "unat m' < 1024" "unat q < 4096" "unat q' < 4096"
    using assms(3-6) by (auto simp: maxMachineID_def maxSequence_def word_le_nat_alt)
  have e: "(unat (t - epoch) * 1024 + unat m) * 4096 + unat q = (unat (t' - epoch) * 1024 + unat m') * 4096 + unat q'"
    using arg_cong [OF assms(7), of unat] assms(1-6) by (simp add: unat_composeID)
  note 1 = digits_inject [OF b(3,4) e]
  note 2 = digits_inject [OF b(1,2) conjunct1 [OF 1]]
  from 1 2 show ?thesis by (metis diff_add_cancel unsigned_word_eqI)
qed

lemma Generate_step:
  assumes "Generate s clock = Some (Inr i, s', rest)" "\<forall>t \<in> set clock. inRange t" "machineID s \<le> maxMachineID"
  shows "i = composeID (lastTime s') (machineID s) (sequence s')" "inRange (lastTime s')" "sequence s' \<le> maxSequence"
    "machineID s' = machineID s" "set rest \<subseteq> set clock"
    "lastTime s < lastTime s' \<or> (lastTime s = lastTime s' \<and> (sequence s \<le> maxSequence \<longrightarrow> sequence s < sequence s'))"
proof -
  obtain now clock' where c: "clock = now # clock'" using assms(1) by (cases clock) (auto simp: Generate_def)
  have "\<not> now < lastTime s" using assms(1) c by (auto simp: Generate_def)
  define q where "q = (if now = lastTime s then (sequence s + 1) AND maxSequence else 0)"
  have q: "q \<le> maxSequence" by (simp add: q_def word_and_le1)
  obtain now' where n: "(if now = lastTime s \<and> q = 0 then waitNextMillis clock' now else Some (now, clock')) = Some (now', rest)"
    and r: "i = composeID now' (machineID s) q" "s' = s\<lparr>sequence := q, lastTime := now'\<rparr>"
    using assms(1) c \<open>\<not> now < lastTime s\<close>
    by (auto simp: Generate_def Let_def q_def [symmetric] split: option.splits)
  have sub: "now' \<in> set clock \<and> set rest \<subseteq> set clock"
    using n c waitNextMillis_later [of clock' now now' rest] by (auto split: if_splits)
  show "i = composeID (lastTime s') (machineID s) (sequence s')" "sequence s' \<le> maxSequence"
    "machineID s' = machineID s" "set rest \<subseteq> set clock" "inRange (lastTime s')"
    using r q sub assms(2) by auto
  show "lastTime s < lastTime s' \<or> (lastTime s = lastTime s' \<and> (sequence s \<le> maxSequence \<longrightarrow> sequence s < sequence s'))"
  proof (cases "now = lastTime s \<and> q \<noteq> 0")
    case True
    then have "lastTime s' = lastTime s" "sequence s' = (sequence s + 1) AND maxSequence" "(sequence s + 1) AND maxSequence \<noteq> 0"
      using n r by (auto simp: q_def)
    moreover have "sequence s < (sequence s + 1) AND maxSequence"
      if "sequence s \<le> maxSequence" "(sequence s + 1) AND maxSequence \<noteq> 0"
    proof -
      have u: "unat (sequence s) \<le> 4095" using that(1) by (simp add: maxSequence_def word_le_nat_alt)
      have a: "unat (sequence s + 1) = unat (sequence s) + 1" using u by (subst unat_add_lt) simp_all
      have "unat ((sequence s + 1) AND maxSequence) = (unat (sequence s) + 1) mod 4096"
        unfolding unsigned_and_eq a using take_bit_eq_mask [of 12 "unat (sequence s) + 1"]
        by (simp add: maxSequence_def mask_eq_exp_minus_1 take_bit_eq_mod)
      moreover have "unat ((sequence s + 1) AND maxSequence) \<noteq> 0" using that(2) by (simp add: unat_eq_0)
      ultimately show ?thesis using u by (cases "unat (sequence s) = 4095") (auto simp: word_less_nat_alt)
    qed
    ultimately show ?thesis by auto
  next
    case False
    then show ?thesis using n r c \<open>\<not> now < lastTime s\<close> waitNextMillis_later [of clock' now now' rest]
      by (auto simp: q_def split: if_splits)
  qed
qed

text \<open>Every identifier of a run is above the one composed from the state before it.\<close>

lemma generated_above:
  assumes "\<forall>t \<in> set clock. inRange t" "machineID s \<le> maxMachineID" "inRange (lastTime s)" "sequence s \<le> maxSequence"
  shows "sorted_wrt (<) (composeID (lastTime s) (machineID s) (sequence s) # generated s clock)"
  using assms
proof (induction "length clock" arbitrary: s clock rule: less_induct)
  case less
  show ?case
  proof (cases "Generate s clock")
    case None
    then show ?thesis by (subst generated.simps) simp
  next
    case (Some r)
    then obtain v s' rest where g: "Generate s clock = Some (v, s', rest)" by (metis prod_cases3)
    note len = Generate_length [OF g]
    show ?thesis
    proof (cases v)
      case (Inl e)
      have "s' = s \<and> set rest \<subseteq> set clock"
        using g Inl by (auto simp: Generate_def Let_def split: list.splits if_splits option.splits)
      then show ?thesis using less.hyps [of rest s] less.prems len g Inl by (subst generated.simps) auto
    next
      case (Inr i)
      note st = Generate_step [OF g [unfolded Inr] less.prems(1,2)]
      have I: "sorted_wrt (<) (i # generated s' rest)"
        using less.hyps [OF len, of s'] less.prems(1,2) st by auto
      have "composeID (lastTime s) (machineID s) (sequence s) < i"
        unfolding st(1) using st(2,3,6) less.prems(2-4) by (intro composeID_later) auto
      then show ?thesis using I g Inr by (subst generated.simps) (auto intro: less_trans)
    qed
  qed
qed

text \<open>The identifiers a generator returns are strictly increasing, hence never repeat, whatever the
  clock does (standing still, jumping, moving back) as long as its readings are within 42 bits of
  the epoch; a millisecond whose sequence is exhausted is waited out.\<close>
theorem generate_increasing:
  assumes "\<forall>t \<in> set clock. inRange t" "NewSnowflake m = Inr s"
  shows "sorted_wrt (<) (generated s clock)"
proof (cases "Generate s clock")
  case None
  then show ?thesis by (subst generated.simps) simp
next
  case (Some r)
  have s: "machineID s \<le> maxMachineID" "lastTime s = 0" "sequence s = 0"
    using assms(2) by (auto simp: NewSnowflake_def not_less split: if_splits)
  obtain v s' rest where g: "Generate s clock = Some (v, s', rest)" using Some by (metis prod_cases3)
  then obtain i where v: "v = Inr i" using s(2)
    by (auto simp: Generate_def Let_def split: list.splits if_splits option.splits)
  note st = Generate_step [OF g [unfolded v] assms(1) s(1)]
  have "sorted_wrt (<) (composeID (lastTime s') (machineID s') (sequence s') # generated s' rest)"
    using st assms(1) s(1) by (intro generated_above) auto
  then show ?thesis using g v st(1,4) by (subst generated.simps) simp
qed

theorem generate_increasing_witness:
  "sorted_wrt (<) (generated \<lparr>machineID = 3, sequence = 0, lastTime = 0\<rparr> [1704067200005, 1704067200005, 1704067200004, 1704067200006])"
  by (rule generate_increasing [of _ 3]) (simp_all add: inRange_def epoch_def NewSnowflake_def maxMachineID_def word_le_nat_alt)

text \<open>Two machines never produce the same identifier, and one machine never the same identifier for
  two (millisecond, sequence) pairs; the base-36 text of an identifier determines it.\<close>
theorem trade_ids_unique:
  assumes "inRange t" "inRange t'" "m \<le> maxMachineID" "m' \<le> maxMachineID" "q \<le> maxSequence" "q' \<le> maxSequence"
    "formatUint64 (composeID t m q) = formatUint64 (composeID t' m' q')"
  shows "t = t' \<and> m = m' \<and> q = q'"
proof -
  have "unat (composeID t m q) = unat (composeID t' m' q')"
    using assms(7) by (simp add: formatUint64_def digitsBase_inject)
  then have "composeID t m q = composeID t' m' q'" by (rule unsigned_word_eqI)
  then show ?thesis by (rule composeID_inject [OF assms(1-6)])
qed

theorem trade_ids_unique_witness:
  "formatUint64 (composeID 1704067200005 1 0) \<noteq> formatUint64 (composeID 1704067200005 2 0)"
proof
  assume "formatUint64 (composeID 1704067200005 1 0) = formatUint64 (composeID 1704067200005 2 0)"
  from trade_ids_unique [OF _ _ _ _ _ _ this] show False
    by (simp add: inRange_def epoch_def maxMachineID_def maxSequence_def word_le_nat_alt)
qed

end
