(* ===== verification/Bytes.thy ===== *)
theory Bytes
  imports Prelude
begin

text \<open>
  Byte sequences of \<open>encoding/binary\<close>: the little-endian forms of fixed-width integers that the
  settlement code writes and reads, and the law that reading gives back what was written.
\<close>

type_synonym bytes = "u8 list"

fun leBytes :: "nat \<Rightarrow> nat \<Rightarrow> bytes" where
  "leBytes 0 v = []"
| "leBytes (Suc n) v = of_nat (v mod 256) # leBytes n (v div 256)"

fun leValue :: "bytes \<Rightarrow> nat" where
  "leValue [] = 0"
| "leValue (b # bs) = unat b + 256 * leValue bs"

definition PutUint16 :: "u16 \<Rightarrow> bytes" where "PutUint16 v = leBytes 2 (unat v)"
definition PutUint32 :: "u32 \<Rightarrow> bytes" where "PutUint32 v = leBytes 4 (unat v)"
definition PutUint64 :: "u64 \<Rightarrow> bytes" where "PutUint64 v = leBytes 8 (unat v)"
definition Uint64 :: "bytes \<Rightarrow> u64" where "Uint64 bs = of_nat (leValue (take 8 bs))"

lemma length_leBytes [simp]: "length (leBytes n v) = n"
  by (induction n arbitrary: v) auto

lemma length_Put [simp]: "length (PutUint16 a) = 2" "length (PutUint32 b) = 4" "length (PutUint64 c) = 8"
  by (simp_all add: PutUint16_def PutUint32_def PutUint64_def)

lemma unat_byte: "unat (of_nat (v mod 256) :: u8) = v mod 256"
  by (simp add: unat_of_nat)

lemma leValue_leBytes: "leValue (leBytes n v) = v mod 256 ^ n"
proof (induction n arbitrary: v)
  case (Suc n)
  have "leValue (leBytes (Suc n) v) = v mod 256 + 256 * (v div 256 mod 256 ^ n)"
    using Suc by (simp add: unat_byte)
  also have "\<dots> = v mod (256 * 256 ^ n)" by (simp add: mod_mult2_eq)
  finally show ?case by simp
qed simp

lemma leBytes_leValue: "length bs = n \<Longrightarrow> leBytes n (leValue bs) = bs"
proof (induction bs arbitrary: n)
  case (Cons b bs)
  have "unat b < 256" by simp
  then have "(unat b + 256 * leValue bs) mod 256 = unat b" "(unat b + 256 * leValue bs) div 256 = leValue bs" by simp_all
  then show ?case using Cons by auto
qed simp

lemma Uint64_PutUint64 [simp]: "Uint64 (PutUint64 v @ rest) = v"
proof -
  have "leValue (PutUint64 v) = unat v"
    using unat_u64_less [of v] by (simp add: PutUint64_def leValue_leBytes)
  then show ?thesis by (simp add: Uint64_def)
qed

lemma leValue_less: "leValue bs < 256 ^ length bs"
proof (induction bs)
  case (Cons b bs)
  have b: "unat b < 256" by simp
  have "256 * (leValue bs + 1) \<le> 256 * 256 ^ length bs" using Cons by (intro mult_le_mono2) simp
  moreover have "unat b + 256 * leValue bs < 256 * (leValue bs + 1)" using b by simp
  ultimately show ?case by (simp del: unat_u8_less)
qed simp

lemma PutUint64_Uint64: "length bs = 8 \<Longrightarrow> PutUint64 (Uint64 bs) = bs"
proof -
  assume l: "length bs = 8"
  have "unat (of_nat (leValue bs) :: u64) = leValue bs"
    using leValue_less [of bs] l by (simp add: unat_of_nat)
  then show ?thesis using leBytes_leValue [OF l] l by (simp add: PutUint64_def Uint64_def)
qed

end
