(* ===== verification/Encodings.thy ===== *)
theory Encodings
  imports Bytes GoStrings
begin

text \<open>
  The text encodings of Go's \<open>encoding/hex\<close> and \<open>encoding/base64\<close> that the settlement code uses,
  with the laws that decoding gives back the encoded bytes.  Base 64 goes through the list of
  six-bit values, the same for the standard and the URL alphabet.
\<close>

section \<open>Hexadecimal\<close>

fun hexEncode :: "bytes \<Rightarrow> string" where
  "hexEncode [] = []"
| "hexEncode (b # bs) = digitChar (unat b div 16) # digitChar (unat b mod 16) # hexEncode bs"

definition hexVal :: "char \<Rightarrow> nat option" where
  "hexVal c = (let k = (of_char c :: nat) in
     if 48 \<le> k \<and> k \<le> 57 then Some (k - 48)
     else if 97 \<le> k \<and> k \<le> 102 then Some (k - 87)
     else if 65 \<le> k \<and> k \<le> 70 then Some (k - 55) else None)"

fun hexDecode :: "string \<Rightarrow> bytes option" where
  "hexDecode [] = Some []"
| "hexDecode [c] = None"
| "hexDecode (c # d # s) =
     (case (hexVal c, hexVal d) of
        (Some x, Some y) \<Rightarrow> map_option (\<lambda>bs. of_nat (x * 16 + y) # bs) (hexDecode s)
      | _ \<Rightarrow> None)"

text \<open>\<open>settlement.decodeHex\<close>: \<open>strings.Join (strings.Fields (raw), "")\<close> drops all white space.\<close>

definition decodeHex :: "string \<Rightarrow> bytes option" where
  "decodeHex raw = hexDecode (filter (\<lambda>c. \<not> isSpace c) raw)"

lemma byte_parts [simp]: "unat (b :: u8) div 16 < 16" "unat b div 4 < 64" "unat b div 64 < 4"
  using unat_u8_less [of b] by (simp_all add: less_mult_imp_div_less del: unat_u8_less)

lemma hexVal_digitChar: "n < 16 \<Longrightarrow> hexVal (digitChar n) = Some n"
  by (auto simp: hexVal_def digitChar_def Let_def of_char_of)

lemma not_space_digit: "n < 16 \<Longrightarrow> \<not> isSpace (digitChar n)"
  by (auto simp: isSpace_def digitChar_def of_char_of)

lemma hexDecode_hexEncode [simp]: "hexDecode (hexEncode bs) = Some bs"
  by (induction bs) (simp_all add: hexVal_digitChar)

lemma decodeHex_hexEncode [simp]: "decodeHex (hexEncode bs) = Some bs"
proof -
  have "filter (\<lambda>c. \<not> isSpace c) (hexEncode bs) = hexEncode bs"
    by (induction bs) (simp_all add: not_space_digit)
  then show ?thesis by (simp add: decodeHex_def)
qed

lemma length_hexEncode [simp]: "length (hexEncode bs) = 2 * length bs"
  by (induction bs) simp_all

section \<open>Base 64\<close>

fun sextets :: "bytes \<Rightarrow> nat list" where
  "sextets [] = []"
| "sextets [a] = [unat a div 4, unat a mod 4 * 16]"
| "sextets [a, b] = [unat a div 4, unat a mod 4 * 16 + unat b div 16, unat b mod 16 * 4]"
| "sextets (a # b # c # bs) =
     unat a div 4 # (unat a mod 4 * 16 + unat b div 16) # (unat b mod 16 * 4 + unat c div 64) # (unat c mod 64) # sextets bs"

fun unsextets :: "nat list \<Rightarrow> bytes option" where
  "unsextets [] = Some []"
| "unsextets [p] = None"
| "unsextets [p, q] = Some [of_nat (p * 4 + q div 16)]"
| "unsextets [p, q, r] = Some [of_nat (p * 4 + q div 16), of_nat (q mod 16 * 16 + r div 4)]"
| "unsextets (p # q # r # s # vs) =
     map_option (\<lambda>bs. of_nat (p * 4 + q div 16) # of_nat (q mod 16 * 16 + r div 4) # of_nat (r mod 4 * 64 + s) # bs) (unsextets vs)"

text \<open>The 64 characters: letters, digits and the two of the alphabet.\<close>

definition b64Char :: "bool \<Rightarrow> nat \<Rightarrow> char" where
  "b64Char url v =
     (if v < 26 then char_of (65 + v) else if v < 52 then char_of (71 + v) else if v < 62 then char_of (v - 4)
      else if v = 62 then (if url then CHR ''-'' else CHR ''+'') else (if url then CHR ''_'' else CHR ''/''))"

definition b64Val :: "bool \<Rightarrow> char \<Rightarrow> nat option" where
  "b64Val url c = (let k = (of_char c :: nat) in
     if 65 \<le> k \<and> k \<le> 90 then Some (k - 65)
     else if 97 \<le> k \<and> k \<le> 122 then Some (k - 71)
     else if 48 \<le> k \<and> k \<le> 57 then Some (k + 4)
     else if c = (if url then CHR ''-'' else CHR ''+'') then Some 62
     else if c = (if url then CHR ''_'' else CHR ''/'') then Some 63 else None)"

definition base64Encode :: "bool \<Rightarrow> bool \<Rightarrow> bytes \<Rightarrow> string" where
  "base64Encode url pad bs =
     map (b64Char url) (sextets bs) @
     (if pad then replicate ((3 - length bs mod 3) mod 3) CHR ''='' else [])"

text \<open>Decoding skips line breaks; a padded text comes in groups of four with at most two padding
  characters, all at the end, and an unpadded one has none.\<close>

definition base64Decode :: "bool \<Rightarrow> bool \<Rightarrow> string \<Rightarrow> bytes option" where
  "base64Decode url pad text1 =
     (let t = filter (\<lambda>c. c \<noteq> CHR 0x0A \<and> c \<noteq> CHR 0x0D) text1;
          body = takeWhile (\<lambda>c. c \<noteq> CHR ''='') t; rest = dropWhile (\<lambda>c. c \<noteq> CHR ''='') t
      in if (if pad then length t mod 4 = 0 \<and> length rest \<le> 2 \<and> rest = replicate (length rest) CHR ''='' else rest = [])
         then (case those (map (b64Val url) body) of None \<Rightarrow> None | Some vs \<Rightarrow> unsextets vs)
         else None)"

lemma digits_at: "(y :: nat) < n \<Longrightarrow> (x * n + y) div n = x" "(y :: nat) < n \<Longrightarrow> (x * n + y) mod n = y"
  by simp_all

lemma split_bytes:
  fixes a b c :: u8
  shows "unat a div 4 * 4 + (unat a mod 4 * 16 + unat b div 16) div 16 = unat a"
    "(unat a mod 4 * 16 + unat b div 16) mod 16 * 16 + (unat b mod 16 * 4 + unat c div 64) div 4 = unat b"
    "(unat b mod 16 * 4 + unat c div 64) mod 4 * 64 + unat c mod 64 = unat c"
    "unat a div 4 * 4 + (unat a mod 4 * 16) div 16 = unat a"
    "(unat a mod 4 * 16 + unat b div 16) mod 16 * 16 + (unat b mod 16 * 4) div 4 = unat b"
  by (simp_all only: digits_at byte_parts div_mult_mod_eq nonzero_mult_div_cancel_right [of "16 :: nat"]
      nonzero_mult_div_cancel_right [of "4 :: nat"] zero_neq_numeral not_False_eq_True)

lemma sextet_less:
  "unat (a :: u8) mod 4 * 16 + unat (b :: u8) div 16 < 64" "unat b mod 16 * 4 + unat (c :: u8) div 64 < 64"
proof -
  have "unat a mod 4 \<le> 3" "unat b mod 16 \<le> 15" by (simp_all flip: less_Suc_eq_le)
  then show "unat a mod 4 * 16 + unat b div 16 < 64" "unat b mod 16 * 4 + unat c div 64 < 64"
    using byte_parts(1) [of b] byte_parts(3) [of c] by linarith+
qed

lemma sextets_less: "\<forall>v \<in> set (sextets bs). v < 64"
proof (induction bs rule: sextets.induct)
  case (2 a)
  show ?case using sextet_less(1) [of a 0] by simp
next
  case (3 a b)
  show ?case using sextet_less(1) [of a b] sextet_less(2) [of b 0] by simp
next
  case (4 a b c bs)
  then show ?case using sextet_less [of a b] sextet_less(2) [of b c] by simp
qed simp

lemma byte_of: "n = unat (b :: u8) \<Longrightarrow> of_nat n = b"
  by simp

lemma unsextets_sextets: "unsextets (sextets bs) = Some bs"
proof (induction bs rule: sextets.induct)
  case (2 a)
  show ?case using split_bytes(4) [of a] by (simp only: unsextets.simps sextets.simps byte_of)
next
  case (3 a b)
  show ?case using split_bytes(1,5) [of a b]
    by (simp only: unsextets.simps sextets.simps byte_of)
next
  case (4 a b c bs)
  then show ?case
    using split_bytes(1) [of a b] split_bytes(3) [of b c] split_bytes(2) [of a b c]
    by (simp only: unsextets.simps sextets.simps byte_of option.map)
qed simp

lemma length_sextets: "length (sextets bs) = (4 * length bs + 2) div 3"
  by (induction bs rule: sextets.induct) (simp_all add: algebra_simps)

lemma b64Val_b64Char: "v < 64 \<Longrightarrow> b64Val url (b64Char url v) = Some v"
proof -
  assume v: "v < 64"
  consider "v < 26" | "26 \<le> v" "v < 52" | "52 \<le> v" "v < 62" | "v = 62" | "v = 63" using v by linarith
  then show ?thesis by cases (auto simp: b64Val_def b64Char_def Let_def of_char_of)
qed

lemma b64Char_plain: "v < 64 \<Longrightarrow> b64Char url v \<notin> {CHR ''='', CHR 0x0A, CHR 0x0D, CHR '' ''} \<and> \<not> isSpace (b64Char url v)"
proof -
  assume v: "v < 64"
  have eq: "c = d \<longleftrightarrow> (of_char c :: nat) = of_char d" for c d :: char by simp
  consider "v < 26" | "26 \<le> v" "v < 52" | "52 \<le> v" "v < 62" | "v = 62" | "v = 63" using v by linarith
  then show ?thesis
    by cases (auto simp: b64Char_def isSpace_def eq of_char_of simp del: of_char_eq_iff)
qed

lemma those_b64: "\<forall>v \<in> set vs. v < 64 \<Longrightarrow> those (map (b64Val url) (map (b64Char url) vs)) = Some vs"
  by (induction vs) (simp_all add: b64Val_b64Char)

lemma filter_plain: "\<forall>v \<in> set vs. v < 64 \<Longrightarrow>
    filter (\<lambda>c. c \<noteq> CHR 0x0A \<and> c \<noteq> CHR 0x0D) (map (b64Char url) vs @ replicate n CHR ''='') = map (b64Char url) vs @ replicate n CHR ''=''"
  using b64Char_plain by (auto simp: filter_id_conv)

lemma span_plain: "\<forall>v \<in> set vs. v < 64 \<Longrightarrow>
    takeWhile (\<lambda>c. c \<noteq> CHR ''='') (map (b64Char url) vs @ replicate n CHR ''='') = map (b64Char url) vs \<and>
    dropWhile (\<lambda>c. c \<noteq> CHR ''='') (map (b64Char url) vs @ replicate n CHR ''='') = replicate n CHR ''=''"
  using b64Char_plain by (induction vs) (auto intro: takeWhile_eq_Nil_iff [THEN iffD2] dropWhile_replicate)

lemma padded_length: "((4 * k + 2) div 3 + (3 - k mod 3) mod 3) mod 4 = (0 :: nat)"
proof -
  obtain q r where k: "k = 3 * q + r" "r < 3" by (metis mult_div_mod_eq mod_less_divisor zero_less_numeral)
  have "4 * k + 2 = 3 * (4 * q) + (4 * r + 2)" using k by simp
  then have d: "(4 * k + 2) div 3 = 4 * q + (4 * r + 2) div 3" by (metis div_mult_self4 zero_neq_numeral add.commute)
  have m: "k mod 3 = r" using k by simp
  consider "r = 0" | "r = 1" | "r = 2" using k(2) by linarith
  then show ?thesis unfolding d m by cases simp_all
qed

lemma base64_roundtrip: "base64Decode url pad (base64Encode url pad bs) = Some bs"
proof -
  define n where "n = (if pad then (3 - length bs mod 3) mod 3 else 0)"
  have e: "base64Encode url pad bs = map (b64Char url) (sextets bs) @ replicate n CHR ''=''"
    by (simp add: base64Encode_def n_def)
  have l: "(length (sextets bs) + n) mod 4 = 0" if pad
    using that padded_length [of "length bs"] by (simp add: length_sextets n_def)
  have n: "n \<le> 2" "\<not> pad \<Longrightarrow> n = 0" by (auto simp: n_def)
  note sp = span_plain [OF sextets_less, of url bs n]
  show ?thesis
    unfolding base64Decode_def e Let_def filter_plain [OF sextets_less] conjunct1 [OF sp] conjunct2 [OF sp]
      those_b64 [OF sextets_less]
    using l n by (simp add: unsextets_sextets)
qed

lemma base64_trimmed: "TrimSpace (base64Encode url pad bs) = base64Encode url pad bs"
proof -
  have ns: "\<not> isSpace c" if "c \<in> set (base64Encode url pad bs)" for c
    using that sextets_less b64Char_plain by (auto simp: base64Encode_def isSpace_def split: if_splits)
  have d: "dropWhile isSpace xs = xs" if "\<And>c. c \<in> set xs \<Longrightarrow> \<not> isSpace c" for xs
    using that by (cases xs) auto
  show ?thesis
    using d [of "base64Encode url pad bs"] d [of "rev (base64Encode url pad bs)"] ns by (simp add: TrimSpace_def)
qed

lemma length_base64_raw: "length (base64Encode url False bs) = (4 * length bs + 2) div 3"
  by (simp add: base64Encode_def length_sextets)

end
