(* ===== verification/TxEstimator.thy ===== *)
theory TxEstimator
  imports Bytes
begin

text \<open>
  The size estimate of a settlement transaction (\<open>solana/settlement_tx_estimator.go\<close>): the
  validation of a batch shape, the bytes of the synthetic instructions, the memo of estimates
  and the search for the largest number of fills whose transaction fits.

  Assembling, signing and marshalling the transaction is the work of the package
  \<open>solana-go\<close>: the parameter \<open>assemble\<close> stands for it.  It gets the cold-order count, that is
  the number of verify instructions, the account keys and the data of the settlement
  instruction, and gives the marshalled size with the lookup counts, or an error.
\<close>

section \<open>Shapes\<close>

record SettlementTxShape =
  UniqueUsers :: int
  sh_Orders :: int
  ColdOrders :: int
  sh_Fills :: int

record SettlementTxEstimate =
  TransactionBytes :: int
  Versioned :: bool
  LookupTables :: int
  LookupAccounts :: int

definition DefaultSettlementMaxTxBytes :: int where "DefaultSettlementMaxTxBytes = 1232"
definition settlementSignableMessageLen :: nat where "settlementSignableMessageLen = 47"

datatype estimate_error =
    NegativeUsers | TooManyUsers | NegativeOrders | TooManyOrders | NegativeColdOrders | TooManyColdOrders
  | NegativeFills | OrdersWithoutUsers | ColdExceedOrders | FillsWithoutOrders | AssembleFailed

definition validateSettlementTxShape :: "SettlementTxShape \<Rightarrow> estimate_error option" where
  "validateSettlementTxShape s =
     (if UniqueUsers s < 0 then Some NegativeUsers
      else if 255 < UniqueUsers s then Some TooManyUsers
      else if sh_Orders s < 0 then Some NegativeOrders
      else if 255 < sh_Orders s then Some TooManyOrders
      else if ColdOrders s < 0 then Some NegativeColdOrders
      else if 255 < ColdOrders s then Some TooManyColdOrders
      else if sh_Fills s < 0 then Some NegativeFills
      else if 0 < sh_Orders s \<and> UniqueUsers s = 0 then Some OrdersWithoutUsers
      else if sh_Orders s < ColdOrders s then Some ColdExceedOrders
      else if 0 < sh_Fills s \<and> sh_Orders s = 0 then Some FillsWithoutOrders
      else None)"

section \<open>The synthetic instructions\<close>

definition estimatorDummyPubkey :: "u8 \<Rightarrow> nat \<Rightarrow> bytes" where
  "estimatorDummyPubkey prefix idx =
     [prefix] @ PutUint32 (of_nat idx) @ PutUint32 (of_nat (idx * 17 + 3)) @ replicate 22 0 @ [of_nat (idx mod 251)]"

definition estimatorDummyDiscriminator :: bytes where
  "estimatorDummyDiscriminator = [0x7a, 0x11, 0x9c, 0x4f, 0x53, 0x22, 0x18, 0x91]"

definition encodeOrderRef :: "nat \<Rightarrow> nat \<Rightarrow> nat \<Rightarrow> bytes" where
  "encodeOrderRef users cold i =
     [if 0 < users then of_nat (i mod users) else 0, if i < cold then of_nat i else 0xff]"

definition encodeColdOrder :: "nat \<Rightarrow> bytes" where
  "encodeColdOrder i = PutUint64 (of_nat (i + 1)) @ PutUint64 (of_nat (1000 + i)) @
     PutUint32 (of_nat (1900000000 + i)) @ [50] @ [0]"

definition encodeFill :: "nat \<Rightarrow> nat \<Rightarrow> bytes" where
  "encodeFill orders i =
     [if 0 < orders then of_nat (i mod orders) else 0, if 0 < orders then of_nat ((i + 1) mod orders) else 0] @
     PutUint32 (of_nat (100 + i)) @ [50]"

definition estimatorEncodeSettleArgs :: "SettlementTxShape \<Rightarrow> bytes" where
  "estimatorEncodeSettleArgs s =
     (let users = nat (UniqueUsers s); orders = nat (sh_Orders s); cold = nat (ColdOrders s); fills = nat (sh_Fills s)
      in estimatorDummyDiscriminator @ [of_nat users] @ PutUint32 (of_nat orders) @
         concat (map (encodeOrderRef users cold) [0..<orders]) @
         PutUint32 (of_nat cold) @ concat (map encodeColdOrder [0..<cold]) @
         PutUint32 (of_nat fills) @ concat (map (encodeFill orders) [0..<fills]))"

definition estimatorBuildEd25519Data :: "bytes \<Rightarrow> nat \<Rightarrow> bytes" where
  "estimatorBuildEd25519Data pubkey messageLen =
     (let headerLen = 16; msgOff = headerLen + 64 + 32
      in [1, 0] @ PutUint16 (of_nat headerLen) @ [0xff, 0xff] @ PutUint16 (of_nat (headerLen + 64)) @ [0xff, 0xff] @
         PutUint16 (of_nat msgOff) @ PutUint16 (of_nat messageLen) @ [0xff, 0xff] @
         replicate 64 0 @ pubkey @ replicate messageLen 0)"

text \<open>The writable accounts of the settlement instruction after the five fixed ones.\<close>

definition syntheticAccounts :: "SettlementTxShape \<Rightarrow> bytes list" where
  "syntheticAccounts s =
     map (estimatorDummyPubkey 0x20) [0..<nat (UniqueUsers s)] @ map (estimatorDummyPubkey 0x30) [0..<nat (UniqueUsers s)] @
     map (estimatorDummyPubkey 0x40) [0..<nat (sh_Orders s)]"

type_synonym assembler = "bytes list \<Rightarrow> bytes list \<Rightarrow> bytes \<Rightarrow> SettlementTxEstimate option"

definition buildSyntheticTransaction :: "assembler \<Rightarrow> SettlementTxShape \<Rightarrow> SettlementTxEstimate option" where
  "buildSyntheticTransaction assemble s =
     assemble (map (\<lambda>i. estimatorBuildEd25519Data (estimatorDummyPubkey 0x80 i) settlementSignableMessageLen)
       [0..<nat (ColdOrders s)]) (syntheticAccounts s) (estimatorEncodeSettleArgs s)"

section \<open>Estimates\<close>

type_synonym estimateCache = "SettlementTxShape \<rightharpoonup> SettlementTxEstimate"

definition Estimate ::
  "assembler \<Rightarrow> SettlementTxShape \<Rightarrow> estimateCache \<Rightarrow> (estimate_error + SettlementTxEstimate) \<times> estimateCache" where
  "Estimate assemble shape cache =
     (case validateSettlementTxShape shape of
        Some e \<Rightarrow> (Inl e, cache)
      | None \<Rightarrow>
          (case cache shape of
             Some cached \<Rightarrow> (Inr cached, cache)
           | None \<Rightarrow>
               (case buildSyntheticTransaction assemble shape of
                  None \<Rightarrow> (Inl AssembleFailed, cache)
                | Some estimate \<Rightarrow> (Inr estimate, cache(shape \<mapsto> estimate)))))"

definition zeroEstimate :: SettlementTxEstimate where
  "zeroEstimate = \<lparr>TransactionBytes = 0, Versioned = False, LookupTables = 0, LookupAccounts = 0\<rparr>"

text \<open>The binary search, with its loop state.\<close>

function maxFillsLoop ::
  "assembler \<Rightarrow> SettlementTxShape \<Rightarrow> int \<Rightarrow> int \<Rightarrow> int \<Rightarrow> int \<Rightarrow> SettlementTxEstimate \<Rightarrow> estimateCache \<Rightarrow>
     (estimate_error + int \<times> SettlementTxEstimate) \<times> estimateCache" where
  "maxFillsLoop assemble base maxTxBytes low high bestFills bestEstimate cache =
     (if low \<le> high then
        (let mid = (low + high) div 2 in
         case Estimate assemble (base\<lparr>sh_Fills := mid\<rparr>) cache of
           (Inl e, cache) \<Rightarrow> (Inl e, cache)
         | (Inr estimate, cache) \<Rightarrow>
             if TransactionBytes estimate \<le> maxTxBytes
             then maxFillsLoop assemble base maxTxBytes (mid + 1) high mid estimate cache
             else maxFillsLoop assemble base maxTxBytes low (mid - 1) bestFills bestEstimate cache)
      else (Inr (bestFills, bestEstimate), cache))"
  by pat_completeness auto

termination maxFillsLoop
  by (relation "measure (\<lambda>(a, b, m, low, high, f, e, c). nat (high - low + 1))") auto

declare maxFillsLoop.simps [simp del]

definition MaxFillsWithinLimit ::
  "assembler \<Rightarrow> SettlementTxShape \<Rightarrow> int \<Rightarrow> int \<Rightarrow> estimateCache \<Rightarrow>
     (estimate_error + int \<times> SettlementTxEstimate) \<times> estimateCache" where
  "MaxFillsWithinLimit assemble base maxTxBytes ceiling cache =
     (let ceiling = (if ceiling < 0 then 0 else ceiling);
          maxTxBytes = (if maxTxBytes \<le> 0 then DefaultSettlementMaxTxBytes else maxTxBytes)
      in maxFillsLoop assemble (base\<lparr>sh_Fills := 0\<rparr>) maxTxBytes 0 ceiling 0 zeroEstimate cache)"

section \<open>Sizes\<close>

lemma length_concat_const: "(\<And>i. length (f i) = k) \<Longrightarrow> length (concat (map f xs)) = k * length xs"
  by (induction xs) auto

lemma length_settleArgs:
  "length (estimatorEncodeSettleArgs s) =
     21 + 2 * nat (sh_Orders s) + 22 * nat (ColdOrders s) + 7 * nat (sh_Fills s)"
  by (simp add: estimatorEncodeSettleArgs_def Let_def estimatorDummyDiscriminator_def
      length_concat_const [of "encodeOrderRef (nat (UniqueUsers s)) (nat (ColdOrders s))" 2]
      length_concat_const [of encodeColdOrder 22] length_concat_const [of "encodeFill (nat (sh_Orders s))" 7]
      encodeOrderRef_def encodeColdOrder_def encodeFill_def)

lemma length_pubkey [simp]: "length (estimatorDummyPubkey p i) = 32"
  by (simp add: estimatorDummyPubkey_def)

lemma length_Ed25519: "length pubkey = 32 \<Longrightarrow> length (estimatorBuildEd25519Data pubkey n) = 112 + n"
  by (simp add: estimatorBuildEd25519Data_def Let_def)

section \<open>The search\<close>

text \<open>What the cache holds is what the assembler gives.\<close>

definition cache_ok :: "assembler \<Rightarrow> estimateCache \<Rightarrow> bool" where
  "cache_ok assemble cache \<longleftrightarrow> (\<forall>s e. cache s = Some e \<longrightarrow> buildSyntheticTransaction assemble s = Some e)"

lemma cache_ok_empty [simp]: "cache_ok assemble Map.empty"
  by (simp add: cache_ok_def)

lemma Estimate_valid:
  assumes "cache_ok assemble cache" "validateSettlementTxShape s = None" "buildSyntheticTransaction assemble s = Some e"
  shows "\<exists>cache'. Estimate assemble s cache = (Inr e, cache') \<and> cache_ok assemble cache'"
  using assms by (auto simp: Estimate_def cache_ok_def split: option.splits)

text \<open>The assembler builds every shape with up to \<open>ceiling\<close> fills, and adding fills, which only
  lengthens the instruction data, never shortens the transaction.\<close>

definition assembles :: "assembler \<Rightarrow> SettlementTxShape \<Rightarrow> int \<Rightarrow> (int \<Rightarrow> int) \<Rightarrow> bool" where
  "assembles assemble base ceiling size1 \<longleftrightarrow>
     (\<forall>f. 0 \<le> f \<and> f \<le> ceiling \<longrightarrow> validateSettlementTxShape (base\<lparr>sh_Fills := f\<rparr>) = None \<and>
        (\<exists>e. buildSyntheticTransaction assemble (base\<lparr>sh_Fills := f\<rparr>) = Some e \<and> TransactionBytes e = size1 f)) \<and>
     (\<forall>f g. 0 \<le> f \<and> f \<le> g \<and> g \<le> ceiling \<longrightarrow> size1 f \<le> size1 g)"

lemma maxFillsLoop_spec:
  assumes "assembles assemble base ceiling size1" "cache_ok assemble cache"
    "0 \<le> low" "high \<le> ceiling" "low \<le> high + 1"
    "best = (if low = 0 then 0 else low - 1)" "low \<noteq> 0 \<Longrightarrow> size1 (low - 1) \<le> maxTx"
    "high < ceiling \<Longrightarrow> maxTx < size1 (high + 1)"
  shows "\<exists>n e cache'. maxFillsLoop assemble base maxTx low high best est cache = (Inr (n, e), cache') \<and>
    cache_ok assemble cache' \<and> 0 \<le> n \<and> n \<le> max 0 ceiling \<and>
    (\<forall>f. 0 < f \<and> f \<le> ceiling \<longrightarrow> (f \<le> n \<longleftrightarrow> size1 f \<le> maxTx))"
  using assms
proof (induction "nat (high - low + 1)" arbitrary: low high best est cache rule: less_induct)
  case less
  have mono: "size1 f \<le> size1 g" if "0 \<le> f" "f \<le> g" "g \<le> ceiling" for f g
    using less.prems(1) that by (simp add: assembles_def)
  show ?case
  proof (cases "low \<le> high")
    case False
    then have lh: "low = high + 1" using less.prems(5) by simp
    have "f \<le> best \<longleftrightarrow> size1 f \<le> maxTx" if "0 < f" "f \<le> ceiling" for f
    proof
      assume "f \<le> best"
      then have "low \<noteq> 0" "f \<le> low - 1" using that less.prems(6) by (auto split: if_splits)
      then show "size1 f \<le> maxTx" using mono [of f "low - 1"] that less.prems(3,4,7) lh by force
    next
      assume s: "size1 f \<le> maxTx"
      show "f \<le> best"
      proof (rule ccontr)
        assume "\<not> f \<le> best"
        then have "low \<le> f" using less.prems(3,6) that by (auto split: if_splits)
        then have "maxTx < size1 low" using less.prems(8) lh that by auto
        moreover have "size1 low \<le> size1 f" using mono [of low f] \<open>low \<le> f\<close> less.prems(3) that by simp
        ultimately show False using s by simp
      qed
    qed
    then show ?thesis using False less.prems(2,3,4,6) lh
      by (subst maxFillsLoop.simps) auto
  next
    case True
    let ?mid = "(low + high) div 2"
    have m: "low \<le> ?mid" "?mid \<le> high" using True by auto
    then have mc: "0 \<le> ?mid" "?mid \<le> ceiling" using less.prems(3,4) by auto
    obtain e where e: "validateSettlementTxShape (base\<lparr>sh_Fills := ?mid\<rparr>) = None"
      "buildSyntheticTransaction assemble (base\<lparr>sh_Fills := ?mid\<rparr>) = Some e" "TransactionBytes e = size1 ?mid"
      using less.prems(1) mc unfolding assembles_def by blast
    obtain c where c: "Estimate assemble (base\<lparr>sh_Fills := ?mid\<rparr>) cache = (Inr e, c)" "cache_ok assemble c"
      using Estimate_valid [OF less.prems(2) e(1,2)] by blast
    show ?thesis
    proof (cases "size1 ?mid \<le> maxTx")
      case fits: True
      have "\<exists>n e' cache'. maxFillsLoop assemble base maxTx (?mid + 1) high ?mid e c = (Inr (n, e'), cache') \<and>
          cache_ok assemble cache' \<and> 0 \<le> n \<and> n \<le> max 0 ceiling \<and>
          (\<forall>f. 0 < f \<and> f \<le> ceiling \<longrightarrow> (f \<le> n \<longleftrightarrow> size1 f \<le> maxTx))"
        by (rule less.hyps) (use less.prems m mc c(2) fits in auto)
      then show ?thesis using True fits c(1) e(3) by (subst maxFillsLoop.simps) (simp add: Let_def)
    next
      case big: False
      have "\<exists>n e' cache'. maxFillsLoop assemble base maxTx low (?mid - 1) best est c = (Inr (n, e'), cache') \<and>
          cache_ok assemble cache' \<and> 0 \<le> n \<and> n \<le> max 0 ceiling \<and>
          (\<forall>f. 0 < f \<and> f \<le> ceiling \<longrightarrow> (f \<le> n \<longleftrightarrow> size1 f \<le> maxTx))"
        by (rule less.hyps) (use less.prems m mc c(2) big in auto)
      then show ?thesis using True big c(1) e(3) by (subst maxFillsLoop.simps) (simp add: Let_def)
    qed
  qed
qed

section \<open>Properties\<close>

text \<open>The search finds the largest batch that fits.  If the transactions of the shape can be
  assembled up to the ceiling and adding fills never shortens one, then \<open>MaxFillsWithinLimit\<close>
  succeeds, and of the fill counts up to the ceiling exactly those up to its answer fit in the limit.\<close>
theorem max_fills_is_maximal:
  assumes "assembles assemble (base\<lparr>sh_Fills := 0\<rparr>) ceiling size1" "cache_ok assemble cache" "0 \<le> ceiling" "0 < maxTx"
  shows "\<exists>n e cache'. MaxFillsWithinLimit assemble base maxTx ceiling cache = (Inr (n, e), cache') \<and>
    cache_ok assemble cache' \<and> 0 \<le> n \<and> n \<le> ceiling \<and>
    (\<forall>f. 0 < f \<and> f \<le> ceiling \<longrightarrow> (f \<le> n \<longleftrightarrow> size1 f \<le> maxTx))"
  using maxFillsLoop_spec [OF assms(1,2), of 0 ceiling 0 maxTx zeroEstimate] assms(3,4)
  by (simp add: MaxFillsWithinLimit_def Let_def)

text \<open>An assembler whose size is that of the instruction data plus a constant.\<close>

definition sampleAssemble :: assembler where
  "sampleAssemble vs accounts data = Some (zeroEstimate\<lparr>TransactionBytes := 1000 + int (length data)\<rparr>)"

definition sampleShape :: SettlementTxShape where
  "sampleShape = \<lparr>UniqueUsers = 2, sh_Orders = 2, ColdOrders = 0, sh_Fills = 0\<rparr>"

lemma sample_assembles: "assembles sampleAssemble (sampleShape\<lparr>sh_Fills := 0\<rparr>) 64 (\<lambda>f. 1025 + 7 * f)"
  by (auto simp: assembles_def buildSyntheticTransaction_def sampleAssemble_def length_settleArgs sampleShape_def
      validateSettlementTxShape_def)

theorem max_fills_is_maximal_witness:
  "\<exists>e cache'. MaxFillsWithinLimit sampleAssemble sampleShape 1232 64 Map.empty = (Inr (29, e), cache')"
proof -
  obtain n e c where r: "MaxFillsWithinLimit sampleAssemble sampleShape 1232 64 Map.empty = (Inr (n, e), c)"
    "0 \<le> n" "n \<le> 64" "\<forall>f. 0 < f \<and> f \<le> 64 \<longrightarrow> (f \<le> n \<longleftrightarrow> 1025 + 7 * f \<le> 1232)"
    using max_fills_is_maximal [OF sample_assembles cache_ok_empty, of 1232] by auto
  have "29 \<le> n" "\<not> 30 \<le> n" using r(4) [rule_format, of 29] r(4) [rule_format, of 30] by auto
  then have "n = 29" by simp
  with r(1) show ?thesis by blast
qed

end
