(* ===== verification/Intent.thy ===== *)
theory Intent
  imports Encodings TxEstimator
begin

text \<open>
  The signed order intent of \<open>settlement/intent.go\<close>: its 118-byte layout, the parser, and the
  message a wallet signs.  Keccak-256 is code of \<open>golang.org/x/crypto\<close>, the parameter \<open>keccak\<close>.
\<close>

section \<open>The record\<close>

datatype IntentSide = IntentBuy | IntentSell
datatype IntentOutcome = IntentYes | IntentNo
datatype IntentOrderType = IntentLimit | IntentMarket

type_synonym PublicKey = bytes

record OrderIntentV1 =
  i_ProgramID :: PublicKey
  i_Market :: PublicKey
  i_User :: PublicKey
  i_Nonce :: u64
  i_Side :: IntentSide
  i_Outcome :: IntentOutcome
  i_OrderType :: IntentOrderType
  i_LimitPrice :: u8
  i_TotalAmount :: u64
  i_ExpiryTs :: u32

definition OrderIntentSize :: nat where "OrderIntentSize = 118"
definition orderFlagsMask :: u8 where "orderFlagsMask = 7"

text \<open>A \<open>solana.PublicKey\<close> is an array of 32 bytes.\<close>

definition intent_wf :: "OrderIntentV1 \<Rightarrow> bool" where
  "intent_wf o1 \<longleftrightarrow> length (i_ProgramID o1) = 32 \<and> length (i_Market o1) = 32 \<and> length (i_User o1) = 32"

definition Flags :: "OrderIntentV1 \<Rightarrow> u8" where
  "Flags o1 =
     (let flags = 0;
          flags = (if i_Side o1 = IntentSell then flags OR 1 else flags);
          flags = (if i_Outcome o1 = IntentNo then flags OR 2 else flags)
      in if i_OrderType o1 = IntentMarket then flags OR 4 else flags)"

definition sideFromFlags :: "u8 \<Rightarrow> IntentSide" where
  "sideFromFlags flags = (if flags AND 1 \<noteq> 0 then IntentSell else IntentBuy)"

definition outcomeFromFlags :: "u8 \<Rightarrow> IntentOutcome" where
  "outcomeFromFlags flags = (if flags AND 2 \<noteq> 0 then IntentNo else IntentYes)"

definition orderTypeFromFlags :: "u8 \<Rightarrow> IntentOrderType" where
  "orderTypeFromFlags flags = (if flags AND 4 \<noteq> 0 then IntentMarket else IntentLimit)"

definition Uint32 :: "bytes \<Rightarrow> u32" where "Uint32 bs = of_nat (leValue (take 4 bs))"

section \<open>Layout\<close>

definition Serialize :: "OrderIntentV1 \<Rightarrow> bytes" where
  "Serialize o1 = i_ProgramID o1 @ i_Market o1 @ i_User o1 @ PutUint64 (i_Nonce o1) @ [Flags o1] @ [i_LimitPrice o1] @
     PutUint64 (i_TotalAmount o1) @ PutUint32 (i_ExpiryTs o1)"

datatype intent_error = InvalidSize nat | InvalidFlags u8 | InvalidHex

definition ParseOrderIntentV1 :: "bytes \<Rightarrow> intent_error + OrderIntentV1" where
  "ParseOrderIntentV1 data =
     (if length data \<noteq> OrderIntentSize then Inl (InvalidSize (length data))
      else let flags = data ! 104 in
        if flags AND NOT orderFlagsMask \<noteq> 0 then Inl (InvalidFlags flags)
        else Inr \<lparr>i_ProgramID = take 32 data, i_Market = take 32 (drop 32 data), i_User = take 32 (drop 64 data),
          i_Nonce = Uint64 (take 8 (drop 96 data)), i_Side = sideFromFlags flags, i_Outcome = outcomeFromFlags flags,
          i_OrderType = orderTypeFromFlags flags, i_LimitPrice = data ! 105,
          i_TotalAmount = Uint64 (take 8 (drop 106 data)), i_ExpiryTs = Uint32 (take 4 (drop 114 data))\<rparr>)"

definition OrderIntentFromHex :: "string \<Rightarrow> intent_error + OrderIntentV1" where
  "OrderIntentFromHex raw = (case decodeHex raw of None \<Rightarrow> Inl InvalidHex | Some bs \<Rightarrow> ParseOrderIntentV1 bs)"

definition textBytes :: "string \<Rightarrow> bytes" where "textBytes s = map of_char s"

definition Hash :: "(bytes \<Rightarrow> bytes) \<Rightarrow> OrderIntentV1 \<Rightarrow> bytes" where
  "Hash keccak o1 = keccak (textBytes ''predix-order'' @ Serialize o1)"

definition SignableMessage :: "(bytes \<Rightarrow> bytes) \<Rightarrow> OrderIntentV1 \<Rightarrow> bytes" where
  "SignableMessage keccak o1 = textBytes (''bp1:'' @ base64Encode True False (Hash keccak o1))"

section \<open>Round trips\<close>

lemma length_Serialize: "intent_wf o1 \<Longrightarrow> length (Serialize o1) = OrderIntentSize"
  by (simp add: Serialize_def intent_wf_def OrderIntentSize_def)

lemma flags_cases:
  assumes "(f :: u8) AND NOT 7 = 0"
  shows "f \<in> {0, 1, 2, 3, 4, 5, 6, 7}"
proof -
  have "f = f AND 7"
    using assms by (metis and.comm_neutral bit.conj_disj_distrib bit.disj_cancel_right or.right_neutral)
  then have "f \<le> 7" by (metis word_and_le1)
  then have "unat f \<in> set [0..<8]" by (simp add: word_le_nat_alt)
  then have "of_nat (unat f) \<in> set (map (of_nat :: nat \<Rightarrow> u8) [0..<8])" by (metis image_eqI list.set_map)
  then show ?thesis by (simp add: upt_rec)
qed

lemma flags_roundtrip:
  "sideFromFlags (Flags o1) = i_Side o1" "outcomeFromFlags (Flags o1) = i_Outcome o1"
  "orderTypeFromFlags (Flags o1) = i_OrderType o1" "Flags o1 AND NOT orderFlagsMask = 0"
  by (cases "i_Side o1"; cases "i_Outcome o1"; cases "i_OrderType o1";
      simp add: Flags_def sideFromFlags_def outcomeFromFlags_def orderTypeFromFlags_def orderFlagsMask_def)+

lemma Uint32_PutUint32 [simp]: "Uint32 (PutUint32 v) = v"
proof -
  have "unat v < 4294967296" using unsigned_less [of v, where ?'a = nat] by simp
  then have "leValue (PutUint32 v) = unat v" by (simp add: PutUint32_def leValue_leBytes)
  then show ?thesis by (simp add: Uint32_def)
qed

lemma Uint64_PutUint64' [simp]: "Uint64 (PutUint64 v) = v"
  using Uint64_PutUint64 [of v "[]"] by simp

lemma Parse_Serialize:
  assumes "intent_wf o1"
  shows "ParseOrderIntentV1 (Serialize o1) = Inr o1"
proof -
  have l: "length (i_ProgramID o1) = 32" "length (i_Market o1) = 32" "length (i_User o1) = 32"
    using assms by (simp_all add: intent_wf_def)
  have n: "Serialize o1 ! 104 = Flags o1" "Serialize o1 ! 105 = i_LimitPrice o1"
    using l by (simp_all add: Serialize_def nth_append)
  show ?thesis
    unfolding ParseOrderIntentV1_def Let_def n length_Serialize [OF assms]
    using l by (simp add: flags_roundtrip, simp add: Serialize_def)
qed

lemma take_drop_split: "length data = 118 \<Longrightarrow>
  data = take 32 data @ take 32 (drop 32 data) @ take 32 (drop 64 data) @ take 8 (drop 96 data) @ [data ! 104] @ [data ! 105] @
    take 8 (drop 106 data) @ take 4 (drop 114 data)"
proof -
  assume l: "length data = 118"
  have a: "drop n data = take k (drop n data) @ drop (n + k) data" for n k
    by (metis append_take_drop_id drop_drop add.commute)
  have c: "drop n data = [data ! n] @ drop (Suc n) data" if "n < 118" for n
    using that l by (simp add: Cons_nth_drop_Suc)
  have "data = drop 0 data" by simp
  also have "\<dots> = take 32 data @ take 32 (drop 32 data) @ take 32 (drop 64 data) @ take 8 (drop 96 data) @ drop 104 data"
    using a [of 0 32] a [of 32 32] a [of 64 32] a [of 96 8] by simp
  also have "drop 104 data = [data ! 104] @ [data ! 105] @ take 8 (drop 106 data) @ take 4 (drop 114 data)"
    using c [of 104] c [of 105] a [of 106 8] l by simp
  finally show ?thesis by simp
qed

lemma PutUint32_Uint32: "length bs = 4 \<Longrightarrow> PutUint32 (Uint32 bs) = bs"
proof -
  assume l: "length bs = 4"
  have "unat (of_nat (leValue bs) :: u32) = leValue bs"
    using leValue_less [of bs] l by (simp add: unat_of_nat)
  then show ?thesis using leBytes_leValue [OF l] l by (simp add: PutUint32_def Uint32_def)
qed

lemma flags_of_parts:
  assumes "f AND NOT orderFlagsMask = 0" "i_Side o1 = sideFromFlags f" "i_Outcome o1 = outcomeFromFlags f"
    "i_OrderType o1 = orderTypeFromFlags f"
  shows "Flags o1 = f"
proof -
  have "f \<in> {0, 1, 2, 3, 4, 5, 6, 7}" using assms(1) by (intro flags_cases) (simp add: orderFlagsMask_def)
  then show ?thesis using assms(2-4)
    by (auto simp: Flags_def sideFromFlags_def outcomeFromFlags_def orderTypeFromFlags_def)
qed

lemma Serialize_Parse:
  assumes "ParseOrderIntentV1 data = Inr o1"
  shows "Serialize o1 = data" "intent_wf o1"
proof -
  have l: "length data = 118" and m: "data ! 104 AND NOT orderFlagsMask = 0"
    using assms by (auto simp: ParseOrderIntentV1_def OrderIntentSize_def Let_def split: if_splits)
  have o: "o1 = \<lparr>i_ProgramID = take 32 data, i_Market = take 32 (drop 32 data), i_User = take 32 (drop 64 data),
          i_Nonce = Uint64 (take 8 (drop 96 data)), i_Side = sideFromFlags (data ! 104), i_Outcome = outcomeFromFlags (data ! 104),
          i_OrderType = orderTypeFromFlags (data ! 104), i_LimitPrice = data ! 105,
          i_TotalAmount = Uint64 (take 8 (drop 106 data)), i_ExpiryTs = Uint32 (take 4 (drop 114 data))\<rparr>"
    using assms l m by (simp add: ParseOrderIntentV1_def OrderIntentSize_def Let_def)
  have "Flags o1 = data ! 104" by (rule flags_of_parts [OF m]) (simp_all add: o)
  then have "Serialize o1 = take 32 data @ take 32 (drop 32 data) @ take 32 (drop 64 data) @ take 8 (drop 96 data) @ [data ! 104] @
      [data ! 105] @ take 8 (drop 106 data) @ take 4 (drop 114 data)"
    using l by (simp add: Serialize_def o PutUint64_Uint64 PutUint32_Uint32)
  then show "Serialize o1 = data" using take_drop_split [OF l] by simp
  show "intent_wf o1" using l by (simp add: o intent_wf_def)
qed

lemma length_SignableMessage:
  "length (Hash keccak o1) = 32 \<Longrightarrow> length (SignableMessage keccak o1) = settlementSignableMessageLen"
  by (simp add: SignableMessage_def textBytes_def length_base64_raw settlementSignableMessageLen_def)

section \<open>Properties\<close>

text \<open>C15: the intent codec is exact.  Parsing a serialised intent gives the intent back; conversely
  whatever the parser accepts is the serialisation of what it returns, so an accepted byte string
  has one reading, and one intent one byte string.\<close>
theorem intent_codec_exact:
  assumes "intent_wf o1"
  shows "ParseOrderIntentV1 data = Inr o1 \<longleftrightarrow> data = Serialize o1"
  using Parse_Serialize [OF assms] Serialize_Parse(1) by metis

definition sampleIntent :: OrderIntentV1 where
  "sampleIntent = \<lparr>i_ProgramID = replicate 32 1, i_Market = replicate 32 2, i_User = replicate 32 3, i_Nonce = 77,
     i_Side = IntentSell, i_Outcome = IntentNo, i_OrderType = IntentLimit, i_LimitPrice = 60, i_TotalAmount = 500,
     i_ExpiryTs = 1900000000\<rparr>"

theorem intent_codec_exact_witness: "ParseOrderIntentV1 (Serialize sampleIntent) = Inr sampleIntent"
  using intent_codec_exact [of sampleIntent "Serialize sampleIntent"] by (simp add: intent_wf_def sampleIntent_def)

text \<open>The size estimator's message length is the real one: the message a wallet signs, the prefix
  and the unpadded base-64 text of a 32-byte digest, has exactly the 47 bytes the estimator books
  for each cold order.\<close>
theorem signable_message_length:
  assumes "\<forall>bs. length (keccak bs) = 32"
  shows "length (SignableMessage keccak o1) = settlementSignableMessageLen"
  using assms by (intro length_SignableMessage) (simp add: Hash_def)

theorem signable_message_length_witness:
  "length (SignableMessage (\<lambda>bs. replicate 32 (of_nat (length bs))) sampleIntent) = 47"
  using signable_message_length [of "\<lambda>bs. replicate 32 (of_nat (length bs))" sampleIntent]
  by (simp add: settlementSignableMessageLen_def)

end
