(* ===== verification/Registries.thy ===== *)
theory Registries
  imports GoStrings
begin

text \<open>
  The two registries of accounts known to exist on chain: \<open>matching/user_position_registry.go\<close>
  and \<open>matching/order_state_registry.go\<close>.  A registry is its set of keys; a nil registry, whose
  methods answer as an empty one, does not occur since the manager creates both.
\<close>

type_synonym UserPositionKey = "u64 \<times> string"
type_synonym OrderStateKey = "u64 \<times> string \<times> u64"

record UserPositionRegistry =
  positionExists :: "UserPositionKey set"

record OrderStateRegistry =
  orderExists :: "OrderStateKey set"

definition NewUserPositionRegistry :: UserPositionRegistry where
  "NewUserPositionRegistry = \<lparr>positionExists = {}\<rparr>"

definition NewOrderStateRegistry :: OrderStateRegistry where
  "NewOrderStateRegistry = \<lparr>orderExists = {}\<rparr>"

definition Position_Load :: "UserPositionRegistry \<Rightarrow> UserPositionKey list \<Rightarrow> UserPositionRegistry" where
  "Position_Load r ks = fold (\<lambda>(marketID, wallet) r.
     let wallet = TrimSpace wallet in
     if marketID = 0 \<or> wallet = [] then r else r\<lparr>positionExists := insert (marketID, wallet) (positionExists r)\<rparr>) ks r"

definition Position_MarkExists :: "UserPositionRegistry \<Rightarrow> UserPositionKey \<Rightarrow> UserPositionRegistry" where
  "Position_MarkExists r key = (case key of (marketID, wallet) \<Rightarrow>
     let wallet = TrimSpace wallet in
     if marketID = 0 \<or> wallet = [] then r else r\<lparr>positionExists := insert (marketID, wallet) (positionExists r)\<rparr>)"

definition Position_Has :: "UserPositionRegistry \<Rightarrow> UserPositionKey \<Rightarrow> bool" where
  "Position_Has r key = (case key of (marketID, wallet) \<Rightarrow>
     let wallet = TrimSpace wallet in
     if marketID = 0 \<or> wallet = [] then False else (marketID, wallet) \<in> positionExists r)"

definition Order_Load :: "OrderStateRegistry \<Rightarrow> OrderStateKey list \<Rightarrow> OrderStateRegistry" where
  "Order_Load r ks = fold (\<lambda>(marketID, wallet, nonce) r.
     let wallet = TrimSpace wallet in
     if marketID = 0 \<or> wallet = [] \<or> nonce = 0 then r
     else r\<lparr>orderExists := insert (marketID, wallet, nonce) (orderExists r)\<rparr>) ks r"

definition Order_MarkExists :: "OrderStateRegistry \<Rightarrow> OrderStateKey \<Rightarrow> OrderStateRegistry" where
  "Order_MarkExists r key = (case key of (marketID, wallet, nonce) \<Rightarrow>
     let wallet = TrimSpace wallet in
     if marketID = 0 \<or> wallet = [] \<or> nonce = 0 then r
     else r\<lparr>orderExists := insert (marketID, wallet, nonce) (orderExists r)\<rparr>)"

definition Order_Has :: "OrderStateRegistry \<Rightarrow> OrderStateKey \<Rightarrow> bool" where
  "Order_Has r key = (case key of (marketID, wallet, nonce) \<Rightarrow>
     let wallet = TrimSpace wallet in
     if marketID = 0 \<or> wallet = [] \<or> nonce = 0 then False else (marketID, wallet, nonce) \<in> orderExists r)"

section \<open>The contract\<close>

text \<open>A registry recognises a key by its normal form, \<open>None\<close> for a key it refuses.\<close>

definition positionNorm :: "UserPositionKey \<Rightarrow> UserPositionKey option" where
  "positionNorm key = (case key of (i, w) \<Rightarrow> if i = 0 \<or> TrimSpace w = [] then None else Some (i, TrimSpace w))"

definition orderNorm :: "OrderStateKey \<Rightarrow> OrderStateKey option" where
  "orderNorm key = (case key of (i, w, n) \<Rightarrow> if i = 0 \<or> TrimSpace w = [] \<or> n = 0 then None else Some (i, TrimSpace w, n))"

locale registry =
  fixes norm :: "'k \<Rightarrow> 'k option"
    and has :: "'r \<Rightarrow> 'k \<Rightarrow> bool"
    and mark :: "'r \<Rightarrow> 'k \<Rightarrow> 'r"
    and load :: "'r \<Rightarrow> 'k list \<Rightarrow> 'r"
  assumes has_refused: "norm k = None \<Longrightarrow> \<not> has r k"
    and has_mark: "has (mark r k) k' \<longleftrightarrow> has r k' \<or> (norm k' \<noteq> None \<and> norm k' = norm k)"
    and load_marks: "load r ks = fold (\<lambda>k r. mark r k) ks r"
begin

lemma has_load: "has (load r ks) k' \<longleftrightarrow> has r k' \<or> (norm k' \<noteq> None \<and> norm k' \<in> norm ` set ks)"
  unfolding load_marks by (induction ks arbitrary: r) (auto simp: has_mark)

lemma mark_monotone: "has r k' \<Longrightarrow> has (mark r k) k'"
  by (simp add: has_mark)

lemma mark_known: "norm k \<noteq> None \<Longrightarrow> has (mark r k) k"
  by (simp add: has_mark)

lemma mark_commute: "has (mark (mark r a) b) k \<longleftrightarrow> has (mark (mark r b) a) k"
  by (auto simp: has_mark)

end

lemma fold_cong_fun: "(\<And>x s. f x s = g x s) \<Longrightarrow> fold f xs s = fold g xs s"
  by (induction xs arbitrary: s) simp_all

interpretation userPositions: registry positionNorm Position_Has Position_MarkExists Position_Load
proof
  show "positionNorm k = None \<Longrightarrow> \<not> Position_Has r k" for k r
    by (cases k) (auto simp: positionNorm_def Position_Has_def Let_def split: if_splits)
  show "Position_Has (Position_MarkExists r k) k' \<longleftrightarrow>
      Position_Has r k' \<or> (positionNorm k' \<noteq> None \<and> positionNorm k' = positionNorm k)" for r k k'
    by (cases k; cases k') (auto simp: positionNorm_def Position_Has_def Position_MarkExists_def Let_def)
  show "Position_Load r ks = fold (\<lambda>k r. Position_MarkExists r k) ks r" for r ks
    unfolding Position_Load_def by (rule fold_cong_fun) (auto simp: Position_MarkExists_def)
qed

interpretation orderStates: registry orderNorm Order_Has Order_MarkExists Order_Load
proof
  show "orderNorm k = None \<Longrightarrow> \<not> Order_Has r k" for k r
    by (cases k) (auto simp: orderNorm_def Order_Has_def Let_def split: if_splits)
  show "Order_Has (Order_MarkExists r k) k' \<longleftrightarrow>
      Order_Has r k' \<or> (orderNorm k' \<noteq> None \<and> orderNorm k' = orderNorm k)" for r k k'
    by (cases k; cases k') (auto simp: orderNorm_def Order_Has_def Order_MarkExists_def Let_def)
  show "Order_Load r ks = fold (\<lambda>k r. Order_MarkExists r k) ks r" for r ks
    unfolding Order_Load_def by (rule fold_cong_fun) (auto simp: Order_MarkExists_def)
qed

end
