(* ===== verification/Submission.thy ===== *)
theory Submission
  imports Intent Batcher Registries
begin

text \<open>
  From an execution event to the settlement transaction (\<open>settlement/submission.go\<close>): the batch of
  signed orders, its checks against the executions, the arguments of the settlement instruction and
  the signature-verification instructions; with the parts of \<open>settlement/prepared_payload.go\<close>,
  \<open>settlement/order_states.go\<close> and \<open>settlement/service.go\<close> that store a batch and classify its
  orders.

  Base-58 keys, Solana's program-address search, SHA-256 and Keccak are code of other packages:
  \<open>parseKey\<close> and \<open>showKey\<close> are \<open>PublicKeyFromBase58\<close> and \<open>String\<close>, \<open>findPDA\<close> is
  \<open>FindProgramAddress\<close> and \<open>sha256\<close>, \<open>keccak\<close> are the digests.
\<close>

section \<open>Data\<close>

record SubmissionOrder =
  so_Intent :: OrderIntentV1
  so_Signature :: bytes
  so_RawIntent :: bytes
  so_OrderIndex :: u16
  so_Warm :: bool

record FillIndexPair =
  MakerIdx :: u8
  TakerIdx :: u8
  fp_FillAmount :: u32
  fp_FillPrice :: u8

record OrderSlot =
  UserIdx :: u8
  ColdWitnessIdx :: u8

record ColdOrderWitness =
  cw_Nonce :: u64
  cw_TotalAmount :: u64
  cw_ExpiryTs :: u32
  cw_LimitPrice :: u8
  cw_Flags :: u8

record SubmissionBatch =
  sb_MarketID :: u64
  sb_MarketPDA :: PublicKey
  sb_Orders :: "SubmissionOrder list"
  sb_Fills :: "FillIndexPair list"
  sb_UniqueUsers :: "PublicKey list"

datatype submission_error =
    ErrNoSettlementWork | FillsButNoOrders | BadMarketPDA | TooManyOrdersInBatch | NotContiguous u16 nat
  | BadIntentHex u64 | BadIntent u64 intent_error | BadSignature u64 | ProgramMismatch u64
  | MarketMismatch u64 | BadWallet | UserMismatch u64 | NonceMismatch u64 | ExpiryOutOfRange u64 | ExpiryMismatch u64
  | LimitPriceOutOfRange u64 | LimitPriceMismatch u64 | ZeroTotalAmount u64 | NotionalOverflow u64 math_error
  | NotionalTooSmall u64 | SideMismatch u64 | OutcomeMismatch u64 | OrderTypeMismatch u64
  | TooManyUniqueUsers | ZeroFillAmount u32 | FillAmountTooLarge u32 | InvalidFillPrice u32
  | MissingOrderRef u32 | SameMakerTaker u32
  | MissingUserIndex u16 | TooManyColdWitnesses | InvalidSignatureLength u16 | NoPDA

section \<open>Parsing and validating an order\<close>

datatype signature_error = EmptySignature | SignatureLength nat | SignatureEncoding

definition decodeSignature :: "string \<Rightarrow> signature_error + bytes" where
  "decodeSignature value1 =
     (let v = TrimSpace value1 in
      if v = [] then Inl EmptySignature
      else case base64Decode False True v of
        Some sig \<Rightarrow> if length sig \<noteq> 64 then Inl (SignatureLength (length sig)) else Inr sig
      | None \<Rightarrow>
          (case base64Decode False False v of
             None \<Rightarrow> Inl SignatureEncoding
           | Some sig \<Rightarrow> if length sig \<noteq> 64 then Inl (SignatureLength (length sig)) else Inr sig))"

definition parseMatchedOrder :: "MatchedOrder \<Rightarrow> submission_error + OrderIntentV1 \<times> bytes \<times> bytes" where
  "parseMatchedOrder ord =
     (case decodeHex (sp_IntentBytesHex (m_Settlement ord)) of
        None \<Rightarrow> Inl (BadIntentHex (m_OrderID ord))
      | Some rawIntent \<Rightarrow>
          (case ParseOrderIntentV1 rawIntent of
             Inl e \<Rightarrow> Inl (BadIntent (m_OrderID ord) e)
           | Inr intent \<Rightarrow>
               (case decodeSignature (sp_Signature (m_Settlement ord)) of
                  Inl e \<Rightarrow> Inl (BadSignature (m_OrderID ord))
                | Inr sig \<Rightarrow> Inr (intent, rawIntent, sig))))"

definition compareSide :: "IntentSide \<Rightarrow> string \<Rightarrow> bool" where
  "compareSide side raw =
     (if raw = ''buy'' then side = IntentBuy else if raw = ''sell'' then side = IntentSell else False)"

definition compareOutcome :: "IntentOutcome \<Rightarrow> string \<Rightarrow> bool" where
  "compareOutcome out raw =
     (if raw = ''yes'' then out = IntentYes else if raw = ''no'' then out = IntentNo else False)"

definition compareOrderType :: "IntentOrderType \<Rightarrow> string \<Rightarrow> bool" where
  "compareOrderType ty raw =
     (if raw = ''limit'' then ty = IntentLimit else if raw = ''market'' then ty = IntentMarket else False)"

definition minimumOrderNotional :: "OrderIntentV1 \<Rightarrow> math_error + u64" where
  "minimumOrderNotional intent =
     (if i_OrderType intent = IntentMarket \<and> i_Side intent = IntentBuy then Inr (i_TotalAmount intent)
      else ceilMulDivChecked (i_TotalAmount intent) (ucast (i_LimitPrice intent)) 100)"

text \<open>The checks in the order of the code; \<open>None\<close> is success.\<close>

definition validateIntentAgainstExecution ::
  "(string \<Rightarrow> PublicKey option) \<Rightarrow> OrderIntentV1 \<Rightarrow> PublicKey \<Rightarrow> ExecutionSnapshot \<Rightarrow> submission_error option" where
  "validateIntentAgainstExecution parseKey intent marketPDA x =
     (let i = x_OrderID x in
      if i_Market intent \<noteq> marketPDA then Some (MarketMismatch i)
      else case parseKey (x_WalletAddress x) of
        None \<Rightarrow> Some BadWallet
      | Some user \<Rightarrow>
          if i_User intent \<noteq> user then Some (UserMismatch i)
          else if i_Nonce intent \<noteq> x_Nonce x then Some (NonceMismatch i)
          else if x_ExpireTime x < 0 \<or> 4294967295 < x_ExpireTime x then Some (ExpiryOutOfRange i)
          else if i_ExpiryTs intent \<noteq> of_int (x_ExpireTime x) then Some (ExpiryMismatch i)
          else if i_LimitPrice intent = 0 \<or> 100 \<le> i_LimitPrice intent then Some (LimitPriceOutOfRange i)
          else if i_LimitPrice intent \<noteq> x_OriginalPriceTick x then Some (LimitPriceMismatch i)
          else if i_TotalAmount intent = 0 then Some (ZeroTotalAmount i)
          else case minimumOrderNotional intent of
            Inl e \<Rightarrow> Some (NotionalOverflow i e)
          | Inr minNotional \<Rightarrow>
              if minNotional < 100 then Some (NotionalTooSmall i)
              else if \<not> compareSide (i_Side intent) (x_OriginalAction x) then Some (SideMismatch i)
              else if \<not> compareOutcome (i_Outcome intent) (x_OriginalOutcome x) then Some (OutcomeMismatch i)
              else if \<not> compareOrderType (i_OrderType intent) (x_OrderType x) then Some (OrderTypeMismatch i)
              else None)"

section \<open>The submission batch\<close>

definition addUser :: "PublicKey \<Rightarrow> PublicKey list \<Rightarrow> PublicKey list" where
  "addUser user users = (if user \<in> set users then users else users @ [user])"

fun buildOrders ::
  "(string \<Rightarrow> PublicKey option) \<Rightarrow> PublicKey \<Rightarrow> PublicKey \<Rightarrow> nat \<Rightarrow> MatchedOrder list \<Rightarrow> SubmissionOrder list \<Rightarrow> PublicKey list \<Rightarrow>
     submission_error + SubmissionOrder list \<times> PublicKey list" where
  "buildOrders parseKey programID marketPDA idx [] orders users = Inr (orders, users)"
| "buildOrders parseKey programID marketPDA idx (ord # rest) orders users =
     (if unat (m_OrderIndex ord) \<noteq> idx then Inl (NotContiguous (m_OrderIndex ord) idx)
      else case parseMatchedOrder ord of
        Inl e \<Rightarrow> Inl e
      | Inr (intent, rawIntent, sig) \<Rightarrow>
          if i_ProgramID intent \<noteq> programID then Inl (ProgramMismatch (m_OrderID ord))
          else case validateIntentAgainstExecution parseKey intent marketPDA (m_Execution ord) of
            Some e \<Rightarrow> Inl e
          | None \<Rightarrow> buildOrders parseKey programID marketPDA (Suc idx) rest
              (orders @ [\<lparr>so_Intent = intent, so_Signature = sig, so_RawIntent = rawIntent,
                          so_OrderIndex = m_OrderIndex ord, so_Warm = False\<rparr>])
              (addUser (i_User intent) users))"

definition buildFill :: "nat \<Rightarrow> MatchFill \<Rightarrow> submission_error + FillIndexPair" where
  "buildFill n f =
     (if f_FillAmount f = 0 then Inl (ZeroFillAmount (f_FillIndex f))
      else if 4294967295 < f_FillAmount f then Inl (FillAmountTooLarge (f_FillIndex f))
      else if f_FillPrice f = 0 \<or> 100 \<le> f_FillPrice f then Inl (InvalidFillPrice (f_FillIndex f))
      else if n \<le> unat (f_MakerOrderIndex f) \<or> n \<le> unat (f_TakerOrderIndex f) then Inl (MissingOrderRef (f_FillIndex f))
      else if f_MakerOrderIndex f = f_TakerOrderIndex f then Inl (SameMakerTaker (f_FillIndex f))
      else Inr \<lparr>MakerIdx = ucast (f_MakerOrderIndex f), TakerIdx = ucast (f_TakerOrderIndex f),
             fp_FillAmount = ucast (f_FillAmount f), fp_FillPrice = ucast (f_FillPrice f)\<rparr>)"

fun buildFills :: "nat \<Rightarrow> MatchFill list \<Rightarrow> submission_error + FillIndexPair list" where
  "buildFills n [] = Inr []"
| "buildFills n (f # fs) =
     (case buildFill n f of
        Inl e \<Rightarrow> Inl e
      | Inr p \<Rightarrow> (case buildFills n fs of Inl e \<Rightarrow> Inl e | Inr ps \<Rightarrow> Inr (p # ps)))"

text \<open>\<open>sort.Slice\<close> is not stable, but equal order indexes are refused by the contiguity check, so
  of an accepted batch the sorted order is unique.\<close>

definition BuildSubmissionBatch ::
  "(string \<Rightarrow> PublicKey option) \<Rightarrow> PublicKey \<Rightarrow> MatchBatchEvent \<Rightarrow> submission_error + SubmissionBatch" where
  "BuildSubmissionBatch parseKey programID ev =
     (if Fills ev = [] then Inl ErrNoSettlementWork
      else if ev_Orders ev = [] then Inl FillsButNoOrders
      else case parseKey (ev_MarketPDA ev) of
        None \<Rightarrow> Inl BadMarketPDA
      | Some marketPDA \<Rightarrow>
          if 255 < length (ev_Orders ev) then Inl TooManyOrdersInBatch
          else case buildOrders parseKey programID marketPDA 0 (sort_key m_OrderIndex (ev_Orders ev)) [] [] of
            Inl e \<Rightarrow> Inl e
          | Inr (orders, users) \<Rightarrow>
              if 255 < length users then Inl TooManyUniqueUsers
              else (case buildFills (length orders) (Fills ev) of
                      Inl e \<Rightarrow> Inl e
                    | Inr fills \<Rightarrow> Inr \<lparr>sb_MarketID = ev_MarketID ev, sb_MarketPDA = marketPDA, sb_Orders = orders,
                        sb_Fills = fills, sb_UniqueUsers = users\<rparr>))"

section \<open>The settlement instruction\<close>

definition witnessOf :: "SubmissionOrder \<Rightarrow> ColdOrderWitness" where
  "witnessOf ord = (let i = so_Intent ord in \<lparr>cw_Nonce = i_Nonce i, cw_TotalAmount = i_TotalAmount i,
     cw_ExpiryTs = i_ExpiryTs i, cw_LimitPrice = i_LimitPrice i, cw_Flags = Flags i\<rparr>)"

definition userIndexByKey :: "(PublicKey \<Rightarrow> string) \<Rightarrow> PublicKey list \<Rightarrow> string \<rightharpoonup> u8" where
  "userIndexByKey showKey users =
     fold (\<lambda>(idx, user) m. m(showKey user \<mapsto> of_nat idx)) (enumerate 0 users) Map.empty"

fun orderSlots ::
  "(string \<rightharpoonup> u8) \<Rightarrow> (PublicKey \<Rightarrow> string) \<Rightarrow> SubmissionOrder list \<Rightarrow> OrderSlot list \<Rightarrow> ColdOrderWitness list \<Rightarrow>
     submission_error + OrderSlot list \<times> ColdOrderWitness list" where
  "orderSlots idxOf showKey [] slots cold = Inr (slots, cold)"
| "orderSlots idxOf showKey (ord # rest) slots cold =
     (case idxOf (showKey (i_User (so_Intent ord))) of
        None \<Rightarrow> Inl (MissingUserIndex (so_OrderIndex ord))
      | Some userIdx \<Rightarrow>
          if so_Warm ord then orderSlots idxOf showKey rest (slots @ [\<lparr>UserIdx = userIdx, ColdWitnessIdx = 0xff\<rparr>]) cold
          else if 255 \<le> length cold then Inl TooManyColdWitnesses
          else orderSlots idxOf showKey rest (slots @ [\<lparr>UserIdx = userIdx, ColdWitnessIdx = of_nat (length cold)\<rparr>])
                 (cold @ [witnessOf ord]))"

definition anchorDiscriminator :: "(bytes \<Rightarrow> bytes) \<Rightarrow> string \<Rightarrow> bytes" where
  "anchorDiscriminator sha256 name = take 8 (sha256 (textBytes name))"

definition encodeWitness :: "ColdOrderWitness \<Rightarrow> bytes" where
  "encodeWitness w = PutUint64 (cw_Nonce w) @ PutUint64 (cw_TotalAmount w) @ PutUint32 (cw_ExpiryTs w) @ [cw_LimitPrice w] @ [cw_Flags w]"

definition encodeFillPair :: "FillIndexPair \<Rightarrow> bytes" where
  "encodeFillPair f = [MakerIdx f, TakerIdx f] @ PutUint32 (fp_FillAmount f) @ [fp_FillPrice f]"

definition encodeSettleMatchBatchArgs ::
  "(bytes \<Rightarrow> bytes) \<Rightarrow> (PublicKey \<Rightarrow> string) \<Rightarrow> SubmissionBatch \<Rightarrow> submission_error + bytes" where
  "encodeSettleMatchBatchArgs sha256 showKey batch =
     (if 255 < length (sb_UniqueUsers batch) then Inl TooManyUniqueUsers
      else case orderSlots (userIndexByKey showKey (sb_UniqueUsers batch)) showKey (sb_Orders batch) [] [] of
        Inl e \<Rightarrow> Inl e
      | Inr (slots, cold) \<Rightarrow>
          Inr (anchorDiscriminator sha256 ''global:settle_match_batch'' @ [of_nat (length (sb_UniqueUsers batch))] @
               PutUint32 (of_nat (length (sb_Orders batch))) @
               concat (map (\<lambda>s. [UserIdx s, ColdWitnessIdx s]) slots) @
               PutUint32 (of_nat (length cold)) @ concat (map encodeWitness cold) @
               PutUint32 (of_nat (length (sb_Fills batch))) @ concat (map encodeFillPair (sb_Fills batch))))"

definition buildEd25519Data :: "PublicKey \<Rightarrow> bytes \<Rightarrow> bytes \<Rightarrow> bytes" where
  "buildEd25519Data pubkey message sig =
     (let off = 16; msgOff = off + 64 + 32
      in [1, 0] @ PutUint16 (of_nat off) @ [0xff, 0xff] @ PutUint16 (of_nat (off + 64)) @ [0xff, 0xff] @
         PutUint16 (of_nat msgOff) @ PutUint16 (of_nat (length message)) @ [0xff, 0xff] @ sig @ pubkey @ message)"

section \<open>Accounts\<close>

type_synonym pdaSearch = "bytes list \<Rightarrow> PublicKey \<Rightarrow> PublicKey option"

definition DeriveConfigPDA :: "pdaSearch \<Rightarrow> PublicKey \<Rightarrow> PublicKey option" where
  "DeriveConfigPDA findPDA programID = findPDA [textBytes ''config''] programID"

definition DeriveUserLedgerPDA :: "pdaSearch \<Rightarrow> PublicKey \<Rightarrow> PublicKey \<Rightarrow> PublicKey option" where
  "DeriveUserLedgerPDA findPDA programID user = findPDA [textBytes ''user_ledger'', user] programID"

definition DeriveUserPositionPDA :: "pdaSearch \<Rightarrow> PublicKey \<Rightarrow> PublicKey \<Rightarrow> PublicKey \<Rightarrow> PublicKey option" where
  "DeriveUserPositionPDA findPDA programID user market = findPDA [textBytes ''position'', user, market] programID"

definition DeriveOrderStatePDA :: "pdaSearch \<Rightarrow> PublicKey \<Rightarrow> PublicKey \<Rightarrow> PublicKey \<Rightarrow> u64 \<Rightarrow> PublicKey option" where
  "DeriveOrderStatePDA findPDA programID user market nonce =
     findPDA [textBytes ''order'', user, market, PutUint64 nonce] programID"

record AccountMeta =
  am_Key :: PublicKey
  am_Writable :: bool
  am_Signer :: bool

text \<open>The program an instruction names, its accounts and its data.\<close>

datatype Instruction =
    Ed25519Verify bytes
  | SettleMatchBatch "AccountMeta list" bytes

record Submitter =
  ProgramID :: PublicKey
  RelayerKey :: PublicKey
  SysVarInstructions :: PublicKey
  SystemProgram :: PublicKey

fun derives :: "('a \<Rightarrow> PublicKey option) \<Rightarrow> 'a list \<Rightarrow> AccountMeta list option" where
  "derives d [] = Some []"
| "derives d (x # xs) =
     (case d x of None \<Rightarrow> None
      | Some k \<Rightarrow> map_option (\<lambda>ms. \<lparr>am_Key = k, am_Writable = True, am_Signer = False\<rparr> # ms) (derives d xs))"

definition buildSettleMatchBatchInstruction ::
  "(bytes \<Rightarrow> bytes) \<Rightarrow> (PublicKey \<Rightarrow> string) \<Rightarrow> pdaSearch \<Rightarrow> Submitter \<Rightarrow> SubmissionBatch \<Rightarrow> PublicKey \<Rightarrow>
     submission_error + Instruction" where
  "buildSettleMatchBatchInstruction sha256 showKey findPDA s batch configPDA =
     (case encodeSettleMatchBatchArgs sha256 showKey batch of
        Inl e \<Rightarrow> Inl e
      | Inr data \<Rightarrow>
          (let fixed = [\<lparr>am_Key = RelayerKey s, am_Writable = True, am_Signer = True\<rparr>,
                 \<lparr>am_Key = configPDA, am_Writable = False, am_Signer = False\<rparr>,
                 \<lparr>am_Key = sb_MarketPDA batch, am_Writable = True, am_Signer = False\<rparr>,
                 \<lparr>am_Key = SysVarInstructions s, am_Writable = False, am_Signer = False\<rparr>,
                 \<lparr>am_Key = SystemProgram s, am_Writable = False, am_Signer = False\<rparr>]
           in case (derives (DeriveUserLedgerPDA findPDA (ProgramID s)) (sb_UniqueUsers batch),
                    derives (\<lambda>user. DeriveUserPositionPDA findPDA (ProgramID s) user (sb_MarketPDA batch)) (sb_UniqueUsers batch),
                    derives (\<lambda>ord. DeriveOrderStatePDA findPDA (ProgramID s) (i_User (so_Intent ord)) (sb_MarketPDA batch)
                      (i_Nonce (so_Intent ord))) (sb_Orders batch)) of
                (Some ls, Some ps, Some os) \<Rightarrow> Inr (SettleMatchBatch (fixed @ ls @ ps @ os) data)
              | _ \<Rightarrow> Inl NoPDA))"

fun verifyInstructions :: "(bytes \<Rightarrow> bytes) \<Rightarrow> SubmissionOrder list \<Rightarrow> submission_error + Instruction list" where
  "verifyInstructions keccak [] = Inr []"
| "verifyInstructions keccak (ord # rest) =
     (if so_Warm ord then verifyInstructions keccak rest
      else if length (so_Signature ord) \<noteq> 64 then Inl (InvalidSignatureLength (so_OrderIndex ord))
      else case verifyInstructions keccak rest of
        Inl e \<Rightarrow> Inl e
      | Inr is \<Rightarrow> Inr (Ed25519Verify (buildEd25519Data (i_User (so_Intent ord)) (SignableMessage keccak (so_Intent ord)) (so_Signature ord)) # is))"

definition BuildInstructions ::
  "(bytes \<Rightarrow> bytes) \<Rightarrow> (bytes \<Rightarrow> bytes) \<Rightarrow> (PublicKey \<Rightarrow> string) \<Rightarrow> pdaSearch \<Rightarrow> Submitter \<Rightarrow> SubmissionBatch \<Rightarrow>
     submission_error + Instruction list" where
  "BuildInstructions keccak sha256 showKey findPDA s batch =
     (case DeriveConfigPDA findPDA (ProgramID s) of
        None \<Rightarrow> Inl NoPDA
      | Some configPDA \<Rightarrow>
          (case verifyInstructions keccak (sb_Orders batch) of
             Inl e \<Rightarrow> Inl e
           | Inr is \<Rightarrow>
               (case buildSettleMatchBatchInstruction sha256 showKey findPDA s batch configPDA of
                  Inl e \<Rightarrow> Inl e
                | Inr settleIx \<Rightarrow> Inr (is @ [settleIx]))))"

section \<open>Warm and cold orders\<close>

text \<open>The settlement service's registry (\<open>settlement/order_states.go\<close>) trims wallets only on load.\<close>

definition Settled_Load :: "OrderStateRegistry \<Rightarrow> OrderStateKey list \<Rightarrow> OrderStateRegistry" where
  "Settled_Load r ks = fold (\<lambda>(marketID, wallet, nonce) r.
     let wallet = TrimSpace wallet in
     if marketID = 0 \<or> wallet = [] \<or> nonce = 0 then r
     else r\<lparr>orderExists := insert (marketID, wallet, nonce) (orderExists r)\<rparr>) ks r"

definition Settled_Has :: "OrderStateRegistry \<Rightarrow> OrderStateKey \<Rightarrow> bool" where
  "Settled_Has r key = (case key of (marketID, wallet, nonce) \<Rightarrow>
     if marketID = 0 \<or> wallet = [] \<or> nonce = 0 then False else (marketID, wallet, nonce) \<in> orderExists r)"

definition Settled_MarkExists :: "OrderStateRegistry \<Rightarrow> OrderStateKey \<Rightarrow> OrderStateRegistry" where
  "Settled_MarkExists r key = (case key of (marketID, wallet, nonce) \<Rightarrow>
     if marketID = 0 \<or> wallet = [] \<or> nonce = 0 then r
     else r\<lparr>orderExists := insert (marketID, wallet, nonce) (orderExists r)\<rparr>)"

definition settlementTxShapeForBatch :: "SubmissionBatch \<Rightarrow> SettlementTxShape" where
  "settlementTxShapeForBatch batch = \<lparr>UniqueUsers = int (length (sb_UniqueUsers batch)),
     sh_Orders = int (length (sb_Orders batch)), ColdOrders = int (length (filter (\<lambda>o1. \<not> so_Warm o1) (sb_Orders batch))),
     sh_Fills = int (length (sb_Fills batch))\<rparr>"

definition applyWarmOrderStates :: "(PublicKey \<Rightarrow> string) \<Rightarrow> OrderStateRegistry \<Rightarrow> SubmissionBatch \<Rightarrow> SubmissionBatch" where
  "applyWarmOrderStates showKey reg batch =
     batch\<lparr>sb_Orders := map (\<lambda>o1. o1\<lparr>so_Warm :=
        Settled_Has reg (sb_MarketID batch, showKey (i_User (so_Intent o1)), i_Nonce (so_Intent o1))\<rparr>) (sb_Orders batch)\<rparr>"

definition markObservedOrderStates :: "u64 \<Rightarrow> MatchBatchEvent \<Rightarrow> OrderStateRegistry \<Rightarrow> OrderStateRegistry" where
  "markObservedOrderStates marketID ev reg =
     fold (\<lambda>o1 reg. let wallet = TrimSpace (x_WalletAddress (m_Execution o1)); nonce = x_Nonce (m_Execution o1) in
        if wallet = [] \<or> nonce = 0 then reg else Settled_MarkExists reg (marketID, wallet, nonce)) (ev_Orders ev) reg"

end
