(* ===== verification/SubmissionLaws.thy ===== *)
theory SubmissionLaws
  imports Submission
begin

text \<open>
  What a built submission batch guarantees, and that everything built from it succeeds: the
  instruction arguments can be encoded and have the size the estimator predicts, and the batch the
  matcher freezes passes the structural checks.
\<close>

section \<open>Well-formed batches\<close>

definition order_ok :: "PublicKey \<Rightarrow> PublicKey \<Rightarrow> SubmissionOrder \<Rightarrow> bool" where
  "order_ok programID marketPDA o1 \<longleftrightarrow> intent_wf (so_Intent o1) \<and> so_RawIntent o1 = Serialize (so_Intent o1) \<and>
     length (so_Signature o1) = 64 \<and> i_ProgramID (so_Intent o1) = programID \<and> i_Market (so_Intent o1) = marketPDA"

definition fill_ok :: "nat \<Rightarrow> FillIndexPair \<Rightarrow> bool" where
  "fill_ok n f \<longleftrightarrow> unat (MakerIdx f) < n \<and> unat (TakerIdx f) < n \<and> MakerIdx f \<noteq> TakerIdx f \<and>
     fp_FillAmount f \<noteq> 0 \<and> fp_FillPrice f \<noteq> 0 \<and> fp_FillPrice f < 100"

definition submission_ok :: "PublicKey \<Rightarrow> SubmissionBatch \<Rightarrow> bool" where
  "submission_ok programID b \<longleftrightarrow>
     sb_Orders b \<noteq> [] \<and> length (sb_Orders b) \<le> 255 \<and> (\<forall>o1 \<in> set (sb_Orders b). order_ok programID (sb_MarketPDA b) o1) \<and>
     (\<forall>i < length (sb_Orders b). so_OrderIndex (sb_Orders b ! i) = of_nat i) \<and>
     distinct (sb_UniqueUsers b) \<and> set (sb_UniqueUsers b) = (\<lambda>o1. i_User (so_Intent o1)) ` set (sb_Orders b) \<and>
     sb_Fills b \<noteq> [] \<and> (\<forall>f \<in> set (sb_Fills b). fill_ok (length (sb_Orders b)) f)"

lemma submission_ok_warm: "submission_ok p b \<Longrightarrow> submission_ok p (applyWarmOrderStates showKey reg b)"
  by (auto simp: submission_ok_def applyWarmOrderStates_def order_ok_def image_image)

lemma parseMatchedOrder_ok:
  assumes "parseMatchedOrder ord = Inr (intent, raw, sig)"
  shows "intent_wf intent" "raw = Serialize intent" "length sig = 64"
proof -
  have p: "ParseOrderIntentV1 raw = Inr intent" and s: "decodeSignature (sp_Signature (m_Settlement ord)) = Inr sig"
    using assms by (auto simp: parseMatchedOrder_def split: option.splits sum.splits)
  show "intent_wf intent" "raw = Serialize intent" using Serialize_Parse [OF p] by simp_all
  show "length sig = 64" using s by (auto simp: decodeSignature_def Let_def split: if_splits option.splits)
qed

lemma buildOrders_ok:
  assumes "buildOrders parseKey programID marketPDA idx os orders users = Inr (orders', users')"
    "length orders = idx" "\<forall>i < length orders. unat (so_OrderIndex (orders ! i)) = i"
    "\<forall>o1 \<in> set orders. order_ok programID marketPDA o1"
    "distinct users" "set users = (\<lambda>o1. i_User (so_Intent o1)) ` set orders"
  shows "length orders' = length orders + length os \<and> (\<forall>i < length orders'. unat (so_OrderIndex (orders' ! i)) = i) \<and>
    (\<forall>o1 \<in> set orders'. order_ok programID marketPDA o1) \<and>
    distinct users' \<and> set users' = (\<lambda>o1. i_User (so_Intent o1)) ` set orders'"
  using assms
proof (induction os arbitrary: idx orders users)
  case (Cons ord os)
  obtain intent raw sig where p: "parseMatchedOrder ord = Inr (intent, raw, sig)" and i: "unat (m_OrderIndex ord) = idx"
    and prog: "i_ProgramID intent = programID"
    and v: "validateIntentAgainstExecution parseKey intent marketPDA (m_Execution ord) = None"
    and r: "buildOrders parseKey programID marketPDA (Suc idx) os
      (orders @ [\<lparr>so_Intent = intent, so_Signature = sig, so_RawIntent = raw, so_OrderIndex = m_OrderIndex ord, so_Warm = False\<rparr>])
      (addUser (i_User intent) users) = Inr (orders', users')"
    using Cons.prems(1) by (auto split: if_splits sum.splits option.splits)
  have mk: "i_Market intent = marketPDA"
    using v by (auto simp: validateIntentAgainstExecution_def Let_def split: if_splits)
  let ?o = "\<lparr>so_Intent = intent, so_Signature = sig, so_RawIntent = raw, so_OrderIndex = m_OrderIndex ord, so_Warm = False\<rparr>"
  have "length orders' = length (orders @ [?o]) + length os \<and> (\<forall>i < length orders'. unat (so_OrderIndex (orders' ! i)) = i) \<and>
    (\<forall>o1 \<in> set orders'. order_ok programID marketPDA o1) \<and>
    distinct users' \<and> set users' = (\<lambda>o1. i_User (so_Intent o1)) ` set orders'"
  proof (rule Cons.IH [OF r])
    show "length (orders @ [?o]) = Suc idx" using Cons.prems(2) by simp
    show "\<forall>i < length (orders @ [?o]). unat (so_OrderIndex ((orders @ [?o]) ! i)) = i"
      using Cons.prems(2,3) i by (auto simp: nth_append less_Suc_eq)
    show "\<forall>o1 \<in> set (orders @ [?o]). order_ok programID marketPDA o1"
      using Cons.prems(4) parseMatchedOrder_ok [OF p] prog mk by (auto simp: order_ok_def)
    show "distinct (addUser (i_User intent) users)" using Cons.prems(5) by (simp add: addUser_def)
    show "set (addUser (i_User intent) users) = (\<lambda>o1. i_User (so_Intent o1)) ` set (orders @ [?o])"
      using Cons.prems(6) by (auto simp: addUser_def)
  qed
  then show ?case by simp
qed simp

lemma ucast_u16_u8: "unat (x :: u16) < 256 \<Longrightarrow> unat (ucast x :: u8) = unat x"
  by (simp add: unsigned_ucast_eq take_bit_nat_eq_self_iff)

lemma buildFill_ok:
  assumes "buildFill n f = Inr p" "n \<le> 255"
  shows "fill_ok n p"
proof -
  have f: "f_FillAmount f \<noteq> 0" "\<not> 4294967295 < f_FillAmount f" "f_FillPrice f \<noteq> 0" "\<not> 100 \<le> f_FillPrice f"
    "unat (f_MakerOrderIndex f) < n" "unat (f_TakerOrderIndex f) < n" "f_MakerOrderIndex f \<noteq> f_TakerOrderIndex f"
    and p: "p = \<lparr>MakerIdx = ucast (f_MakerOrderIndex f), TakerIdx = ucast (f_TakerOrderIndex f),
             fp_FillAmount = ucast (f_FillAmount f), fp_FillPrice = ucast (f_FillPrice f)\<rparr>"
    using assms(1) by (auto simp: buildFill_def split: if_splits)
  have m: "unat (ucast (f_MakerOrderIndex f) :: u8) = unat (f_MakerOrderIndex f)"
    "unat (ucast (f_TakerOrderIndex f) :: u8) = unat (f_TakerOrderIndex f)"
    using f(5,6) assms(2) by (simp_all add: ucast_u16_u8)
  have "unat (ucast (f_FillAmount f) :: u32) = unat (f_FillAmount f)"
    using f(2) by (simp add: unsigned_ucast_eq take_bit_nat_eq_self_iff not_less word_le_nat_alt)
  then have a: "(ucast (f_FillAmount f) :: u32) \<noteq> 0" using f(1) by (metis unat_0 unsigned_word_eqI)
  have pr: "unat (ucast (f_FillPrice f) :: u8) = unat (f_FillPrice f)"
    using f(4) by (simp add: unsigned_ucast_eq take_bit_nat_eq_self_iff not_le word_less_nat_alt)
  then have "(ucast (f_FillPrice f) :: u8) \<noteq> 0" "(ucast (f_FillPrice f) :: u8) < 100"
    using f(3,4) by (metis unat_0 unsigned_word_eqI) (use pr f(4) in \<open>simp add: word_less_nat_alt not_le\<close>)
  moreover have "(ucast (f_MakerOrderIndex f) :: u8) \<noteq> ucast (f_TakerOrderIndex f)" using m f(7) by (metis unsigned_word_eqI)
  ultimately show ?thesis using f m a by (simp add: fill_ok_def p)
qed

lemma buildFills_ok:
  "buildFills n fs = Inr ps \<Longrightarrow> n \<le> 255 \<Longrightarrow> length ps = length fs \<and> (\<forall>p \<in> set ps. fill_ok n p)"
  by (induction fs arbitrary: ps) (auto dest: buildFill_ok split: sum.splits)

lemma BuildSubmissionBatch_ok:
  assumes "BuildSubmissionBatch parseKey programID ev = Inr b"
  shows "submission_ok programID b"
proof -
  obtain marketPDA orders users fills where
    r: "buildOrders parseKey programID marketPDA 0 (sort_key m_OrderIndex (ev_Orders ev)) [] [] = Inr (orders, users)"
    "buildFills (length orders) (Fills ev) = Inr fills" and n: "Fills ev \<noteq> []" "ev_Orders ev \<noteq> []" "length (ev_Orders ev) \<le> 255"
    and b: "b = \<lparr>sb_MarketID = ev_MarketID ev, sb_MarketPDA = marketPDA, sb_Orders = orders, sb_Fills = fills, sb_UniqueUsers = users\<rparr>"
    using assms by (auto simp: BuildSubmissionBatch_def split: if_splits option.splits sum.splits)
  have o: "length orders = length (ev_Orders ev)" "\<forall>i < length orders. unat (so_OrderIndex (orders ! i)) = i"
    "\<forall>o1 \<in> set orders. order_ok programID marketPDA o1" "distinct users"
    "set users = (\<lambda>o1. i_User (so_Intent o1)) ` set orders"
    using buildOrders_ok [OF r(1)] by simp_all
  have "length fills = length (Fills ev) \<and> (\<forall>p \<in> set fills. fill_ok (length orders) p)"
    using buildFills_ok [OF r(2)] o(1) n(3) by simp
  moreover have "so_OrderIndex (orders ! i) = of_nat i" if "i < length orders" for i
    using o(2) [rule_format, OF that] by (metis of_nat_unat ucast_id)
  ultimately show ?thesis using o n by (auto simp: submission_ok_def b)
qed

section \<open>Encoding\<close>

lemma users_bound:
  assumes "distinct users" "set users = (\<lambda>o1. i_User (so_Intent o1)) ` set orders"
  shows "length users \<le> length orders"
proof -
  have "length users = card (set users)" using assms(1) by (simp add: distinct_card)
  also have "\<dots> \<le> card (set orders)" unfolding assms(2) by (simp add: card_image_le)
  also have "\<dots> \<le> length orders" by (rule card_length)
  finally show ?thesis .
qed

lemma userIndex_known:
  assumes "user \<in> set users"
  shows "userIndexByKey showKey users (showKey user) \<noteq> None"
proof -
  have "dom (fold (\<lambda>(idx, user) m. m(showKey user \<mapsto> (of_nat idx :: u8))) ius m) = dom m \<union> showKey ` snd ` set ius" for ius m
  proof (induction ius arbitrary: m)
    case (Cons iu ius)
    then show ?case by (cases iu) (simp, auto simp: dom_def)
  qed simp
  from this [of "enumerate 0 users" Map.empty]
  have "dom (userIndexByKey showKey users) = showKey ` snd ` set (enumerate 0 users)"
    unfolding userIndexByKey_def by (simp only: dom_empty Un_empty_left)
  moreover have "snd ` set (enumerate 0 users) = set users"
    using arg_cong [OF map_snd_enumerate [of 0 users], of set] by (simp only: list.set_map)
  ultimately have "dom (userIndexByKey showKey users) = showKey ` set users" by (simp only:)
  then have "showKey user \<in> dom (userIndexByKey showKey users)" using assms by (simp only: imageI)
  then show ?thesis by (simp add: domIff)
qed

lemma orderSlots_ok:
  assumes "\<forall>o1 \<in> set os. idxOf (showKey (i_User (so_Intent o1))) \<noteq> None"
    "length cold + length (filter (\<lambda>o1. \<not> so_Warm o1) os) \<le> 255"
  shows "\<exists>slots'. orderSlots idxOf showKey os slots cold =
     Inr (slots', cold @ map witnessOf (filter (\<lambda>o1. \<not> so_Warm o1) os)) \<and> length slots' = length slots + length os"
  using assms
proof (induction os arbitrary: slots cold)
  case (Cons o1 os)
  obtain u where u: "idxOf (showKey (i_User (so_Intent o1))) = Some u" using Cons.prems(1) by auto
  show ?case
  proof (cases "so_Warm o1")
    case True
    then show ?thesis using Cons.IH [of cold "slots @ [\<lparr>UserIdx = u, ColdWitnessIdx = 0xff\<rparr>]"] Cons.prems u by simp
  next
    case False
    then show ?thesis
      using Cons.IH [of "cold @ [witnessOf o1]" "slots @ [\<lparr>UserIdx = u, ColdWitnessIdx = of_nat (length cold)\<rparr>]"] Cons.prems u
      by simp
  qed
qed simp

lemma length_slots: "length (concat (map (\<lambda>s. [UserIdx s, ColdWitnessIdx s]) ss)) = 2 * length ss"
  by (induction ss) simp_all

lemma encode_size:
  assumes "submission_ok programID b" "\<forall>bs. length (sha256 bs) = 32"
  shows "\<exists>data. encodeSettleMatchBatchArgs sha256 showKey b = Inr data \<and>
    length data = length (estimatorEncodeSettleArgs (settlementTxShapeForBatch b))"
proof -
  have u: "set (sb_UniqueUsers b) = (\<lambda>o1. i_User (so_Intent o1)) ` set (sb_Orders b)" "distinct (sb_UniqueUsers b)"
    and l: "length (sb_Orders b) \<le> 255"
    using assms(1) by (simp_all add: submission_ok_def)
  have n: "length (sb_UniqueUsers b) \<le> 255" using le_trans [OF users_bound [OF u(2,1)] l(1)] .
  let ?idx = "userIndexByKey showKey (sb_UniqueUsers b)" and ?cold = "filter (\<lambda>o1. \<not> so_Warm o1) (sb_Orders b)"
  have "\<forall>o1 \<in> set (sb_Orders b). ?idx (showKey (i_User (so_Intent o1))) \<noteq> None"
    using u(1) userIndex_known by blast
  moreover have "length ([] :: ColdOrderWitness list) + length ?cold \<le> 255"
    using le_trans [OF length_filter_le l(1)] by simp
  ultimately obtain slots where s: "orderSlots ?idx showKey (sb_Orders b) [] [] = Inr (slots, map witnessOf ?cold)"
    "length slots = length (sb_Orders b)"
    using orderSlots_ok [of "sb_Orders b" ?idx showKey "[]" "[]"] by auto
  have w: "length (concat (map encodeWitness ws)) = 22 * length ws" for ws
    by (rule length_concat_const) (simp add: encodeWitness_def)
  have f: "length (concat (map encodeFillPair ps)) = 7 * length ps" for ps
    by (rule length_concat_const) (simp add: encodeFillPair_def)
  have "length (anchorDiscriminator sha256 nm) = 8" for nm using assms(2) by (simp add: anchorDiscriminator_def)
  then show ?thesis
    using n s w [of "map witnessOf ?cold"] f [of "sb_Fills b"]
    by (simp add: encodeSettleMatchBatchArgs_def length_slots length_settleArgs settlementTxShapeForBatch_def del: length_concat)
qed

lemma shape_valid:
  assumes "submission_ok programID b"
  shows "validateSettlementTxShape (settlementTxShapeForBatch b) = None"
proof -
  have u: "set (sb_UniqueUsers b) = (\<lambda>o1. i_User (so_Intent o1)) ` set (sb_Orders b)" "distinct (sb_UniqueUsers b)"
    and l: "length (sb_Orders b) \<le> 255" "sb_Orders b \<noteq> []"
    using assms(1) by (simp_all add: submission_ok_def)
  have n: "length (sb_UniqueUsers b) \<le> 255" using le_trans [OF users_bound [OF u(2,1)] l(1)] .
  have ne: "sb_UniqueUsers b \<noteq> []" using u(1) l(2) by (metis image_is_empty set_empty)
  have c: "\<not> length (sb_Orders b) < length (filter (\<lambda>o1. \<not> so_Warm o1) (sb_Orders b))"
    "length (filter (\<lambda>o1. \<not> so_Warm o1) (sb_Orders b)) \<le> 255"
    using le_trans [OF length_filter_le l(1)] by (simp_all add: not_less)
  then show ?thesis using n l ne
    by (simp add: validateSettlementTxShape_def settlementTxShapeForBatch_def Let_def)
qed

lemma verify_sizes:
  assumes "\<forall>o1 \<in> set os. order_ok programID marketPDA o1" "\<forall>bs. length (keccak bs) = 32"
  shows "\<exists>ixs. verifyInstructions keccak os = Inr ixs \<and> length ixs = length (filter (\<lambda>o1. \<not> so_Warm o1) os) \<and>
    (\<forall>i \<in> set ixs. \<exists>data. i = Ed25519Verify data \<and>
      length data = length (estimatorBuildEd25519Data (estimatorDummyPubkey 0x80 k) settlementSignableMessageLen))"
  using assms(1)
proof (induction os)
  case (Cons o1 os)
  obtain ixs where I: "verifyInstructions keccak os = Inr ixs" "length ixs = length (filter (\<lambda>o1. \<not> so_Warm o1) os)"
    "\<forall>i \<in> set ixs. \<exists>data. i = Ed25519Verify data \<and>
      length data = length (estimatorBuildEd25519Data (estimatorDummyPubkey 0x80 k) settlementSignableMessageLen)"
    using Cons by auto
  have o: "length (so_Signature o1) = 64" "length (i_User (so_Intent o1)) = 32"
    using Cons.prems by (simp_all add: order_ok_def intent_wf_def)
  have "length (SignableMessage keccak (so_Intent o1)) = settlementSignableMessageLen"
    using assms(2) by (intro length_SignableMessage) (simp add: Hash_def)
  then have "length (buildEd25519Data (i_User (so_Intent o1)) (SignableMessage keccak (so_Intent o1)) (so_Signature o1)) =
      length (estimatorBuildEd25519Data (estimatorDummyPubkey 0x80 k) settlementSignableMessageLen)"
    using o by (simp add: buildEd25519Data_def length_Ed25519 Let_def)
  then show ?case using I o by simp
qed simp

section \<open>From the matcher's batch\<close>

lemma sort_key_indexed:
  assumes "\<forall>i < length os. m_OrderIndex (os ! i) = of_nat i" "length os \<le> 65536"
  shows "sort_key m_OrderIndex os = os"
proof -
  have "sorted (map m_OrderIndex os)"
  proof (rule sorted_iff_nth_mono_less [THEN iffD2], intro allI impI)
    fix i j assume ij: "i < j" "j < length (map m_OrderIndex os)"
    then have "unat (of_nat i :: u16) = i" "unat (of_nat j :: u16) = j" using assms(2) by (simp_all add: unat_of_nat_u16)
    then show "map m_OrderIndex os ! i \<le> map m_OrderIndex os ! j" using ij assms(1) by (simp add: word_le_nat_alt)
  qed
  then show ?thesis by (rule sort_key_id_if_sorted)
qed

text \<open>The errors that only an inconsistent batch can cause.\<close>

fun structural :: "submission_error \<Rightarrow> bool" where
  "structural FillsButNoOrders = True"
| "structural (NotContiguous i n) = True"
| "structural (MissingOrderRef i) = True"
| "structural (SameMakerTaker i) = True"
| "structural (ZeroFillAmount i) = True"
| "structural (InvalidFillPrice i) = True"
| "structural TooManyUniqueUsers = True"
| "structural _ = False"

lemma validate_structural: "validateIntentAgainstExecution parseKey i pda x = Some e \<Longrightarrow> \<not> structural e"
  by (auto simp: validateIntentAgainstExecution_def Let_def split: if_splits option.splits sum.splits)

lemma buildOrders_structural:
  assumes "\<forall>i < length os. m_OrderIndex (os ! i) = of_nat (idx + i)" "idx + length os \<le> 65536"
    "buildOrders parseKey programID marketPDA idx os orders users = Inl e"
  shows "\<not> structural e"
  using assms
proof (induction os arbitrary: idx orders users)
  case (Cons o1 os)
  have "m_OrderIndex o1 = of_nat idx" using Cons.prems(1) [rule_format, of 0] by simp
  then have i: "unat (m_OrderIndex o1) = idx" using Cons.prems(2) by (simp add: unat_of_nat_u16)
  have tl: "\<forall>i < length os. m_OrderIndex (os ! i) = of_nat (Suc idx + i)" using Cons.prems(1) by force
  show ?case
  proof (cases "parseMatchedOrder o1")
    case (Inl e')
    then show ?thesis using Cons.prems(3) i by (auto simp: parseMatchedOrder_def split: option.splits sum.splits)
  next
    case (Inr r)
    then obtain intent raw sig where "parseMatchedOrder o1 = Inr (intent, raw, sig)" by (metis prod_cases3)
    then show ?thesis
      using Cons.prems(2,3) i Cons.IH [OF tl] validate_structural [of parseKey intent marketPDA "m_Execution o1" e]
      by (auto split: if_splits option.splits)
  qed
qed simp

lemma buildFills_structural:
  assumes "\<forall>f \<in> set fs. unat (f_MakerOrderIndex f) < n \<and> unat (f_TakerOrderIndex f) < n \<and>
      f_MakerOrderIndex f \<noteq> f_TakerOrderIndex f \<and> f_FillAmount f \<noteq> 0 \<and> f_FillPrice f \<noteq> 0 \<and> f_FillPrice f < 100"
    "buildFills n fs = Inl e"
  shows "\<not> structural e"
  using assms by (induction fs) (auto simp: buildFill_def split: sum.splits if_splits)

lemma BuildSubmissionBatch_structural:
  assumes b: "batch_ok b" and fs: "\<forall>f \<in> set (Fills (event b)). f_FillAmount f \<noteq> 0 \<and> f_FillPrice f \<noteq> 0 \<and> f_FillPrice f < 100"
    and e: "BuildSubmissionBatch parseKey programID (event b) = Inl e"
  shows "\<not> structural e"
proof (cases "Fills (event b) = [] \<or> 255 < length (ev_Orders (event b)) \<or> parseKey (ev_MarketPDA (event b)) = None")
  case True
  have "ev_Orders (event b) \<noteq> []" if "Fills (event b) \<noteq> []"
    using b that by (cases "Fills (event b)") (auto simp: batch_ok_def fill_refs_ok_def)
  then show ?thesis using True e by (auto simp: BuildSubmissionBatch_def split: if_splits option.splits)
next
  case False
  let ?os = "ev_Orders (event b)"
  obtain pda where pda: "parseKey (ev_MarketPDA (event b)) = Some pda" using False by auto
  have idx: "\<forall>i < length ?os. m_OrderIndex (?os ! i) = of_nat i" using b by (simp add: batch_ok_def entries_ok_def)
  have len: "length ?os \<le> 65536" "length ?os \<le> 255" using False by auto
  have srt: "sort_key m_OrderIndex ?os = ?os" using idx len by (intro sort_key_indexed)
  have ne: "?os \<noteq> []" using b False by (cases "Fills (event b)") (auto simp: batch_ok_def fill_refs_ok_def)
  show ?thesis
  proof (cases "buildOrders parseKey programID pda 0 ?os [] []")
    case (Inl e')
    then have "e = e'" using e False ne pda srt by (simp add: BuildSubmissionBatch_def)
    then show ?thesis using buildOrders_structural [OF _ _ Inl] idx len by simp
  next
    case (Inr r)
    then obtain orders users where r: "buildOrders parseKey programID pda 0 ?os [] [] = Inr (orders, users)" by (metis surj_pair)
    have o: "length orders = length ?os" "length users \<le> length orders"
      using buildOrders_ok [OF r] users_bound [of users orders] by simp_all
    then have "buildFills (length orders) (Fills (event b)) = Inl e"
      using e False ne pda srt r by (auto simp: BuildSubmissionBatch_def split: if_splits sum.splits)
    moreover have "\<forall>f \<in> set (Fills (event b)). unat (f_MakerOrderIndex f) < length orders \<and> unat (f_TakerOrderIndex f) < length orders \<and>
      f_MakerOrderIndex f \<noteq> f_TakerOrderIndex f \<and> f_FillAmount f \<noteq> 0 \<and> f_FillPrice f \<noteq> 0 \<and> f_FillPrice f < 100"
      using b fs o(1) by (auto simp: batch_ok_def fill_refs_ok_def)
    ultimately show ?thesis using buildFills_structural by blast
  qed
qed

section \<open>A sample event\<close>

text \<open>Hexadecimal text stands for base 58.\<close>

definition sampleParse :: "string \<Rightarrow> PublicKey option" where
  "sampleParse s = (case decodeHex s of None \<Rightarrow> None | Some k \<Rightarrow> if length k = 32 then Some k else None)"

lemma sampleParse_hex [simp]: "length k = 32 \<Longrightarrow> sampleParse (hexEncode k) = Some k"
  by (simp add: sampleParse_def)

definition sampleKey :: "u8 \<Rightarrow> PublicKey" where "sampleKey n = replicate 32 n"

lemma sampleKey_simps [simp]: "length (sampleKey n) = 32" "sampleKey a = sampleKey b \<longleftrightarrow> a = b"
  by (simp_all add: sampleKey_def)

definition intentFor :: "u8 \<Rightarrow> u64 \<Rightarrow> IntentSide \<Rightarrow> OrderIntentV1" where
  "intentFor user nonce side = \<lparr>i_ProgramID = sampleKey 1, i_Market = sampleKey 2, i_User = sampleKey user, i_Nonce = nonce,
     i_Side = side, i_Outcome = IntentYes, i_OrderType = IntentLimit, i_LimitPrice = 60, i_TotalAmount = 500, i_ExpiryTs = 0\<rparr>"

definition matchedFor :: "u16 \<Rightarrow> u8 \<Rightarrow> u64 \<Rightarrow> IntentSide \<Rightarrow> string \<Rightarrow> MatchedOrder" where
  "matchedFor i user nonce side act = \<lparr>m_OrderIndex = i, m_OrderID = nonce,
     m_Execution = \<lparr>x_OrderID = nonce, x_WalletAddress = hexEncode (sampleKey user), x_OriginalAction = act,
       x_OriginalOutcome = ''yes'', x_OriginalPriceTick = 60, x_OrderType = ''limit'', x_NormalizedSide = act,
       x_NormalizedPriceTick = 60, x_QtyLots = 500, x_SpendAmount = 0, x_ExpireTime = 0, x_Nonce = nonce\<rparr>,
     m_Settlement = \<lparr>sp_IntentBytesHex = hexEncode (Serialize (intentFor user nonce side)),
       sp_Signature = base64Encode False True (replicate 64 9)\<rparr>, m_CreatedAt = 0, m_CreatedCmdSeq = 0\<rparr>"

definition sampleFillAt :: "u64 \<Rightarrow> u64 \<Rightarrow> MatchFill" where
  "sampleFillAt q p = \<lparr>f_FillIndex = 0, f_MakerOrderIndex = 0, f_TakerOrderIndex = 1, f_FillAmount = q, f_FillPrice = p,
     f_MatchType = Transfer, f_NotionalUnits = 0, f_TakerFeeUnits = 0, f_CreatorFeeUnits = 0, f_PlatformFeeUnits = 0\<rparr>"

definition sampleExecution :: MatchBatchEvent where
  "sampleExecution = \<lparr>EventID = ''e1'', SchemaVersion = 1, ev_MarketID = 7, ev_MarketPDA = hexEncode (sampleKey 2), ProducedAt = 0,
     SourceCmdSeqMin = 1, SourceCmdSeqMax = 2, SourceCommandIDs = [], TraceIDs = [],
     ev_Orders = [matchedFor 0 3 11 IntentBuy ''buy'', matchedFor 1 4 12 IntentSell ''sell''],
     Fills = [sampleFillAt 500 60], OrderUpdates = [], DepthUpdates = []\<rparr>"

definition submissionFor :: "u16 \<Rightarrow> u8 \<Rightarrow> u64 \<Rightarrow> IntentSide \<Rightarrow> SubmissionOrder" where
  "submissionFor i user nonce side = \<lparr>so_Intent = intentFor user nonce side, so_Signature = replicate 64 9,
     so_RawIntent = Serialize (intentFor user nonce side), so_OrderIndex = i, so_Warm = False\<rparr>"

definition sampleSubmission :: SubmissionBatch where
  "sampleSubmission = \<lparr>sb_MarketID = 7, sb_MarketPDA = sampleKey 2,
     sb_Orders = [submissionFor 0 3 11 IntentBuy, submissionFor 1 4 12 IntentSell],
     sb_Fills = [\<lparr>MakerIdx = 0, TakerIdx = 1, fp_FillAmount = 500, fp_FillPrice = 60\<rparr>],
     sb_UniqueUsers = [sampleKey 3, sampleKey 4]\<rparr>"

lemma decodeSignature_std: "length sig = 64 \<Longrightarrow> decodeSignature (base64Encode False True sig) = Inr sig"
proof -
  assume l: "length sig = 64"
  then have "length (sextets sig) = 86" by (simp add: length_sextets)
  then have "base64Encode False True sig \<noteq> []" by (auto simp: base64Encode_def)
  then show ?thesis using l by (simp add: decodeSignature_def Let_def base64_trimmed base64_roundtrip)
qed

lemma sample_order:
  assumes "(side, act) \<in> {(IntentBuy, ''buy''), (IntentSell, ''sell'')}"
  shows "parseMatchedOrder (matchedFor i user nonce side act) =
      Inr (intentFor user nonce side, Serialize (intentFor user nonce side), replicate 64 9)"
    "validateIntentAgainstExecution sampleParse (intentFor user nonce side) (sampleKey 2) (m_Execution (matchedFor i user nonce side act)) = None"
proof -
  have "intent_wf (intentFor user nonce side)" by (simp add: intent_wf_def intentFor_def)
  then show "parseMatchedOrder (matchedFor i user nonce side act) =
      Inr (intentFor user nonce side, Serialize (intentFor user nonce side), replicate 64 9)"
    by (simp add: parseMatchedOrder_def matchedFor_def Parse_Serialize decodeSignature_std)
  have n: "minimumOrderNotional (intentFor user nonce side) = Inr 300"
    using assms by (auto simp: minimumOrderNotional_def intentFor_def ceilMulDivChecked_def mulUint64_def)
  have f: "i_Market (intentFor user nonce side) = sampleKey 2" "i_User (intentFor user nonce side) = sampleKey user"
    "i_Nonce (intentFor user nonce side) = nonce" "i_ExpiryTs (intentFor user nonce side) = 0"
    "i_LimitPrice (intentFor user nonce side) = 60" "i_TotalAmount (intentFor user nonce side) = 500"
    "i_Side (intentFor user nonce side) = side" "i_Outcome (intentFor user nonce side) = IntentYes"
    "i_OrderType (intentFor user nonce side) = IntentLimit"
    by (simp_all add: intentFor_def)
  have c: "compareSide side act" "compareOutcome IntentYes ''yes''" "compareOrderType IntentLimit ''limit''"
    using assms by (auto simp: compareSide_def compareOutcome_def compareOrderType_def)
  show "validateIntentAgainstExecution sampleParse (intentFor user nonce side) (sampleKey 2) (m_Execution (matchedFor i user nonce side act)) = None"
    unfolding validateIntentAgainstExecution_def Let_def n f by (simp add: matchedFor_def c)
qed

lemma sample_orders_built:
  "buildOrders sampleParse (sampleKey 1) (sampleKey 2) 0 [matchedFor 0 3 11 IntentBuy ''buy'', matchedFor 1 4 12 IntentSell ''sell''] [] [] =
    Inr ([submissionFor 0 3 11 IntentBuy, submissionFor 1 4 12 IntentSell], [sampleKey 3, sampleKey 4])"
proof -
  let ?a = "matchedFor 0 3 11 IntentBuy ''buy''" and ?b = "matchedFor 1 4 12 IntentSell ''sell''"
  have i: "unat (m_OrderIndex ?a) = 0" "unat (m_OrderIndex ?b) = 1" "m_OrderIndex ?a = 0" "m_OrderIndex ?b = 1"
    by (simp_all add: matchedFor_def)
  have p: "i_ProgramID (intentFor u n sd) = sampleKey 1" "i_User (intentFor u n sd) = sampleKey u" for u n sd
    by (simp_all add: intentFor_def)
  show ?thesis by (simp add: i p sample_order addUser_def submissionFor_def)
qed

lemma sample_built: "BuildSubmissionBatch sampleParse (sampleKey 1) sampleExecution = Inr sampleSubmission"
proof -
  let ?a = "matchedFor 0 3 11 IntentBuy ''buy''" and ?b = "matchedFor 1 4 12 IntentSell ''sell''"
  have s: "sort_key m_OrderIndex [?a, ?b] = [?a, ?b]" by (simp add: matchedFor_def)
  have "buildFills 2 [sampleFillAt 500 60] = Inr [\<lparr>MakerIdx = 0, TakerIdx = 1, fp_FillAmount = 500, fp_FillPrice = 60\<rparr>]"
    by (simp add: buildFill_def sampleFillAt_def)
  then show ?thesis
    using s sample_orders_built by (simp add: BuildSubmissionBatch_def sampleExecution_def sampleSubmission_def numeral_2_eq_2)
qed

section \<open>Properties\<close>

text \<open>C16: a batch the matcher froze is never refused for its structure.  If the pending batch satisfies the
  matcher's invariant and its fills are positive at ticks 1 to 99, \<open>BuildSubmissionBatch\<close> can only fail on
  a signed intent, an unparsable key, an empty fill list, the size limit or a fill above 32 bits, never on
  order indexes, on dangling or self-referring fills or on the number of users.\<close>
theorem matcher_batch_accepted:
  assumes "batch_ok b" "\<forall>f \<in> set (Fills (event b)). f_FillAmount f \<noteq> 0 \<and> f_FillPrice f \<noteq> 0 \<and> f_FillPrice f < 100"
    "BuildSubmissionBatch parseKey programID (event b) = Inl e"
  shows "\<not> structural e"
  using assms by (rule BuildSubmissionBatch_structural)

text \<open>A pending batch with the two signed orders of the sample event, a fill of the sample event and one above 32 bits.\<close>

definition oversizedBatch :: pendingBatch where
  "oversizedBatch = (newPendingBatch 7 (hexEncode (sampleKey 2)) 0)
     \<lparr>event := sampleExecution\<lparr>Fills := [sampleFillAt 500 60, sampleFillAt 8589934592 60]\<rparr>, orderIndex := [11 \<mapsto> 0, 12 \<mapsto> 1]\<rparr>"

lemma oversizedBatch_ok: "batch_ok oversizedBatch"
proof -
  let ?a = "matchedFor 0 3 11 IntentBuy ''buy''" and ?b = "matchedFor 1 4 12 IntentSell ''sell''"
  have o: "ev_Orders (event oversizedBatch) = [?a, ?b]" "orderIndex oversizedBatch = [11 \<mapsto> 0, 12 \<mapsto> 1]"
    by (simp_all add: oversizedBatch_def sampleExecution_def)
  have m: "m_OrderIndex (matchedFor i u n sd act) = i" "m_OrderID (matchedFor i u n sd act) = n"
    "x_OrderID (m_Execution (matchedFor i u n sd act)) = n" for i u n sd act
    by (simp_all add: matchedFor_def)
  have d: "length [?a, ?b] = Suc (Suc 0)" "i < Suc (Suc 0) \<longleftrightarrow> i = 0 \<or> i = Suc 0" for i by auto
  have "entries_ok oversizedBatch" unfolding entries_ok_def o
  proof (rule conjI; intro allI impI)
    fix i assume "i < length [?a, ?b]"
    then show "m_OrderIndex ([?a, ?b] ! i) = of_nat i \<and> [11 \<mapsto> 0, 12 \<mapsto> 1] (m_OrderID ([?a, ?b] ! i)) = Some (of_nat i) \<and>
        x_OrderID (m_Execution ([?a, ?b] ! i)) = m_OrderID ([?a, ?b] ! i)"
      unfolding d by (elim disjE) (simp_all add: m)
  next
    fix k :: u64 and j :: u16 assume "[11 \<mapsto> 0, 12 \<mapsto> 1] k = Some j"
    then have "k = 11 \<and> j = 0 \<or> k = 12 \<and> j = 1" by (auto split: if_splits)
    then show "\<exists>i < length [?a, ?b]. j = of_nat i \<and> m_OrderID ([?a, ?b] ! i) = k"
      unfolding d by (elim disjE) (rule exI [of _ 0] exI [of _ "Suc 0"]; simp add: m)+
  qed
  then show ?thesis unfolding batch_ok_def by (simp add: fill_refs_ok_def oversizedBatch_def sampleExecution_def sampleFillAt_def)
qed

theorem matcher_batch_accepted_witness:
  "BuildSubmissionBatch sampleParse (sampleKey 1) (event oversizedBatch) = Inl (FillAmountTooLarge 0) \<and>
   \<not> structural (FillAmountTooLarge 0)"
proof
  let ?a = "matchedFor 0 3 11 IntentBuy ''buy''" and ?b = "matchedFor 1 4 12 IntentSell ''sell''"
  have s: "sort_key m_OrderIndex [?a, ?b] = [?a, ?b]" by (simp add: matchedFor_def)
  have f: "buildFills 2 [sampleFillAt 500 60, sampleFillAt 8589934592 60] = Inl (FillAmountTooLarge 0)"
    by (simp add: buildFill_def sampleFillAt_def)
  show e: "BuildSubmissionBatch sampleParse (sampleKey 1) (event oversizedBatch) = Inl (FillAmountTooLarge 0)"
    using s f sample_orders_built by (simp add: BuildSubmissionBatch_def oversizedBatch_def sampleExecution_def numeral_2_eq_2)
  show "\<not> structural (FillAmountTooLarge 0)"
    by (rule matcher_batch_accepted [OF oversizedBatch_ok _ e]) (simp add: oversizedBatch_def sampleExecution_def sampleFillAt_def)
qed

text \<open>C17: the instructions of a built batch have the shape the estimator assumes.  Whatever orders the
  registry marks warm, encoding succeeds, the argument bytes have exactly the estimated length, each cold
  order contributes one verify instruction of exactly the estimated length, and the shape is valid.\<close>
theorem instructions_match_estimate:
  assumes "BuildSubmissionBatch parseKey programID ev = Inr b0" "\<forall>bs. length (sha256 bs) = 32" "\<forall>bs. length (keccak bs) = 32"
    "b = applyWarmOrderStates showKey reg b0"
  shows "validateSettlementTxShape (settlementTxShapeForBatch b) = None \<and>
    (\<exists>data. encodeSettleMatchBatchArgs sha256 showKey b = Inr data \<and>
       length data = length (estimatorEncodeSettleArgs (settlementTxShapeForBatch b))) \<and>
    (\<exists>ixs. verifyInstructions keccak (sb_Orders b) = Inr ixs \<and> int (length ixs) = ColdOrders (settlementTxShapeForBatch b) \<and>
       (\<forall>i \<in> set ixs. \<exists>data. i = Ed25519Verify data \<and>
          length data = length (estimatorBuildEd25519Data (estimatorDummyPubkey 0x80 k) settlementSignableMessageLen)))"
proof -
  have ok: "submission_ok programID b"
    unfolding assms(4) by (rule submission_ok_warm) (rule BuildSubmissionBatch_ok [OF assms(1)])
  then have "\<forall>o1 \<in> set (sb_Orders b). order_ok programID (sb_MarketPDA b) o1" by (simp add: submission_ok_def)
  from verify_sizes [OF this assms(3)] obtain ixs where
    "verifyInstructions keccak (sb_Orders b) = Inr ixs" "length ixs = length (filter (\<lambda>o1. \<not> so_Warm o1) (sb_Orders b))"
    "\<forall>i \<in> set ixs. \<exists>data. i = Ed25519Verify data \<and>
          length data = length (estimatorBuildEd25519Data (estimatorDummyPubkey 0x80 k) settlementSignableMessageLen)" by blast
  with shape_valid [OF ok] encode_size [OF ok assms(2)] show ?thesis
    by (auto simp: settlementTxShapeForBatch_def)
qed

theorem instructions_match_estimate_witness:
  "\<exists>data. encodeSettleMatchBatchArgs (\<lambda>bs. replicate 32 0) hexEncode
     (applyWarmOrderStates hexEncode NewOrderStateRegistry sampleSubmission) = Inr data"
  using instructions_match_estimate [OF sample_built, of "\<lambda>bs. replicate 32 0" "\<lambda>bs. replicate 32 0"
      "applyWarmOrderStates hexEncode NewOrderStateRegistry sampleSubmission" hexEncode NewOrderStateRegistry 0] by auto

end
