(* ===== verification/PreparedPayload.thy ===== *)
theory PreparedPayload
  imports SubmissionLaws
begin

text \<open>
  The stored form of a submission batch (\<open>settlement/prepared_payload.go\<close>), which the settlement
  service writes when it prepares a batch and reads back when it submits it, possibly after a restart.
  \<open>encoding/json\<close> writes and reads the payload record faithfully: the model passes the record on.
\<close>

record preparedOrderPayload =
  po_IntentHex :: string
  po_Signature :: string
  po_OrderIndex :: u16
  po_Warm :: bool

record preparedSubmissionPayload =
  pp_SchemaVersion :: int
  pp_MarketID :: u64
  pp_MarketPDA :: string
  pp_Orders :: "preparedOrderPayload list"
  pp_Fills :: "FillIndexPair list"
  pp_UniqueUsers :: "string list"

definition preparedPayloadSchemaVersion :: int where "preparedPayloadSchemaVersion = 1"

datatype prepared_error =
    EmptyIntent u16 | UnsupportedSchema int | BadPreparedMarket | NoPreparedOrders | TooManyPreparedOrders
  | NoPreparedUsers | TooManyPreparedUsers | PreparedNotContiguous u16 nat | BadPreparedHex u16
  | BadPreparedIntent u16 intent_error | PreparedProgramMismatch u16 | PreparedMarketMismatch u16
  | BadPreparedSignature u16 | BadPreparedUser | DuplicatePreparedUser | MissingPreparedUser u16 | UnusedPreparedUsers
  | PreparedNoWork | PreparedZeroAmount | PreparedBadPrice u8 | PreparedMissingOrder | PreparedSameOrder

section \<open>Writing\<close>

definition rawIntentOf :: "SubmissionOrder \<Rightarrow> bytes" where
  "rawIntentOf o1 = (if so_RawIntent o1 = [] then Serialize (so_Intent o1) else so_RawIntent o1)"

fun prepareOrders :: "SubmissionOrder list \<Rightarrow> prepared_error + preparedOrderPayload list" where
  "prepareOrders [] = Inr []"
| "prepareOrders (o1 # os) =
     (if rawIntentOf o1 = [] then Inl (EmptyIntent (so_OrderIndex o1))
      else case prepareOrders os of
        Inl e \<Rightarrow> Inl e
      | Inr ps \<Rightarrow> Inr (\<lparr>po_IntentHex = hexEncode (rawIntentOf o1), po_Signature = base64Encode False True (so_Signature o1),
                       po_OrderIndex = so_OrderIndex o1, po_Warm = so_Warm o1\<rparr> # ps))"

definition encodePreparedPayload ::
  "(PublicKey \<Rightarrow> string) \<Rightarrow> SubmissionBatch \<Rightarrow> prepared_error + preparedSubmissionPayload" where
  "encodePreparedPayload showKey batch =
     (case prepareOrders (sb_Orders batch) of
        Inl e \<Rightarrow> Inl e
      | Inr os \<Rightarrow> Inr \<lparr>pp_SchemaVersion = preparedPayloadSchemaVersion, pp_MarketID = sb_MarketID batch,
          pp_MarketPDA = showKey (sb_MarketPDA batch), pp_Orders = os, pp_Fills = sb_Fills batch,
          pp_UniqueUsers = map showKey (sb_UniqueUsers batch)\<rparr>)"

section \<open>Reading\<close>

definition readOrder ::
  "PublicKey \<Rightarrow> PublicKey \<Rightarrow> nat \<Rightarrow> preparedOrderPayload \<Rightarrow> prepared_error + SubmissionOrder" where
  "readOrder programID marketPDA idx p =
     (let i = po_OrderIndex p in
      if i \<noteq> of_nat idx then Inl (PreparedNotContiguous i idx)
      else case decodeHex (po_IntentHex p) of
        None \<Rightarrow> Inl (BadPreparedHex i)
      | Some intentBytes \<Rightarrow>
          (case ParseOrderIntentV1 intentBytes of
             Inl e \<Rightarrow> Inl (BadPreparedIntent i e)
           | Inr intent \<Rightarrow>
               if i_ProgramID intent \<noteq> programID then Inl (PreparedProgramMismatch i)
               else if i_Market intent \<noteq> marketPDA then Inl (PreparedMarketMismatch i)
               else (case decodeSignature (po_Signature p) of
                       Inl e \<Rightarrow> Inl (BadPreparedSignature i)
                     | Inr sig \<Rightarrow> Inr \<lparr>so_Intent = intent, so_Signature = sig, so_RawIntent = intentBytes,
                         so_OrderIndex = i, so_Warm = po_Warm p\<rparr>)))"

fun readOrders ::
  "PublicKey \<Rightarrow> PublicKey \<Rightarrow> nat \<Rightarrow> preparedOrderPayload list \<Rightarrow> prepared_error + SubmissionOrder list" where
  "readOrders programID marketPDA idx [] = Inr []"
| "readOrders programID marketPDA idx (p # ps) =
     (case readOrder programID marketPDA idx p of
        Inl e \<Rightarrow> Inl e
      | Inr o1 \<Rightarrow> (case readOrders programID marketPDA (Suc idx) ps of Inl e \<Rightarrow> Inl e | Inr os \<Rightarrow> Inr (o1 # os)))"

fun readUsers ::
  "(string \<Rightarrow> PublicKey option) \<Rightarrow> (PublicKey \<Rightarrow> string) \<Rightarrow> string list \<Rightarrow> string set \<Rightarrow> prepared_error + PublicKey list" where
  "readUsers parseKey showKey [] seen = Inr []"
| "readUsers parseKey showKey (u # us) seen =
     (case parseKey (TrimSpace u) of
        None \<Rightarrow> Inl BadPreparedUser
      | Some k \<Rightarrow>
          if showKey k \<in> seen then Inl DuplicatePreparedUser
          else (case readUsers parseKey showKey us (insert (showKey k) seen) of Inl e \<Rightarrow> Inl e | Inr ks \<Rightarrow> Inr (k # ks)))"

definition checkFill :: "nat \<Rightarrow> FillIndexPair \<Rightarrow> prepared_error option" where
  "checkFill n f =
     (if fp_FillAmount f = 0 then Some PreparedZeroAmount
      else if fp_FillPrice f = 0 \<or> 100 \<le> fp_FillPrice f then Some (PreparedBadPrice (fp_FillPrice f))
      else if n \<le> unat (MakerIdx f) \<or> n \<le> unat (TakerIdx f) then Some PreparedMissingOrder
      else if MakerIdx f = TakerIdx f then Some PreparedSameOrder else None)"

fun checkFills :: "nat \<Rightarrow> FillIndexPair list \<Rightarrow> prepared_error option" where
  "checkFills n [] = None"
| "checkFills n (f # fs) = (case checkFill n f of Some e \<Rightarrow> Some e | None \<Rightarrow> checkFills n fs)"

text \<open>The first order whose user is not listed.\<close>

fun missingUser :: "string set \<Rightarrow> (PublicKey \<Rightarrow> string) \<Rightarrow> SubmissionOrder list \<Rightarrow> prepared_error option" where
  "missingUser users showKey [] = None"
| "missingUser users showKey (o1 # os) =
     (if showKey (i_User (so_Intent o1)) \<in> users then missingUser users showKey os
      else Some (MissingPreparedUser (so_OrderIndex o1)))"

definition decodePreparedPayload ::
  "(string \<Rightarrow> PublicKey option) \<Rightarrow> (PublicKey \<Rightarrow> string) \<Rightarrow> PublicKey \<Rightarrow> preparedSubmissionPayload \<Rightarrow> prepared_error + SubmissionBatch" where
  "decodePreparedPayload parseKey showKey programID payload =
     (if pp_SchemaVersion payload \<noteq> preparedPayloadSchemaVersion then Inl (UnsupportedSchema (pp_SchemaVersion payload))
      else case parseKey (TrimSpace (pp_MarketPDA payload)) of
        None \<Rightarrow> Inl BadPreparedMarket
      | Some marketPDA \<Rightarrow>
          if pp_Orders payload = [] then Inl NoPreparedOrders
          else if 255 < length (pp_Orders payload) then Inl TooManyPreparedOrders
          else if pp_UniqueUsers payload = [] then Inl NoPreparedUsers
          else if 255 < length (pp_UniqueUsers payload) then Inl TooManyPreparedUsers
          else (case readOrders programID marketPDA 0 (pp_Orders payload) of
                  Inl e \<Rightarrow> Inl e
                | Inr orders \<Rightarrow>
                    (case readUsers parseKey showKey (pp_UniqueUsers payload) {} of
                       Inl e \<Rightarrow> Inl e
                     | Inr users \<Rightarrow>
                         (let userSet = showKey ` set users;
                              referenced = (\<lambda>o1. showKey (i_User (so_Intent o1))) ` set orders
                          in case missingUser userSet showKey orders of
                               Some e \<Rightarrow> Inl e
                             | None \<Rightarrow>
                                 if card userSet \<noteq> card referenced then Inl UnusedPreparedUsers
                                 else if pp_Fills payload = [] then Inl PreparedNoWork
                                 else (case checkFills (length orders) (pp_Fills payload) of
                                         Some e \<Rightarrow> Inl e
                                       | None \<Rightarrow> Inr \<lparr>sb_MarketID = pp_MarketID payload, sb_MarketPDA = marketPDA,
                                           sb_Orders = orders, sb_Fills = pp_Fills payload, sb_UniqueUsers = users\<rparr>)))))"

section \<open>The round trip\<close>

text \<open>What the code relies on of base 58: the text of a key parses to the key and has no surrounding white space.\<close>

definition key_codec :: "(string \<Rightarrow> PublicKey option) \<Rightarrow> (PublicKey \<Rightarrow> string) \<Rightarrow> bool" where
  "key_codec parseKey showKey \<longleftrightarrow>
     (\<forall>k. length k = 32 \<longrightarrow> parseKey (showKey k) = Some k \<and> TrimSpace (showKey k) = showKey k)"

lemma key_codec_inj:
  assumes "key_codec parseKey showKey" "length a = 32" "length b = 32" "showKey a = showKey b"
  shows "a = b"
  using assms unfolding key_codec_def by (metis option.inject)

lemma prepareOrders_ok:
  assumes "\<forall>o1 \<in> set os. order_ok programID marketPDA o1" "\<forall>i < length os. so_OrderIndex (os ! i) = of_nat (idx + i)"
  shows "\<exists>ps. prepareOrders os = Inr ps \<and> length ps = length os \<and> readOrders programID marketPDA idx ps = Inr os"
  using assms
proof (induction os arbitrary: idx)
  case (Cons o1 os)
  have o: "intent_wf (so_Intent o1)" "so_RawIntent o1 = Serialize (so_Intent o1)" "length (so_Signature o1) = 64"
    "i_ProgramID (so_Intent o1) = programID" "i_Market (so_Intent o1) = marketPDA"
    using Cons.prems(1) by (simp_all add: order_ok_def)
  have raw: "rawIntentOf o1 = Serialize (so_Intent o1)" "Serialize (so_Intent o1) \<noteq> []"
    using o(2) length_Serialize [OF o(1)] by (auto simp: rawIntentOf_def OrderIntentSize_def)
  have i: "so_OrderIndex o1 = of_nat idx" using Cons.prems(2) [rule_format, of 0] by simp
  obtain ps where ps: "prepareOrders os = Inr ps" "length ps = length os" "readOrders programID marketPDA (Suc idx) ps = Inr os"
    using Cons.IH [of "Suc idx"] Cons.prems by force
  show ?case
    using raw ps i o Parse_Serialize [OF o(1)] decodeSignature_std [OF o(3)] by (simp add: readOrder_def Let_def)
qed simp

lemma readUsers_ok:
  assumes "key_codec parseKey showKey" "\<forall>u \<in> set us. length u = 32" "distinct us" "\<forall>u \<in> set us. showKey u \<notin> seen"
  shows "readUsers parseKey showKey (map showKey us) seen = Inr us"
  using assms(2-4)
proof (induction us arbitrary: seen)
  case (Cons u us)
  have "parseKey (TrimSpace (showKey u)) = Some u" using assms(1) Cons.prems(1) by (simp add: key_codec_def)
  moreover have "\<forall>v \<in> set us. showKey v \<notin> insert (showKey u) seen"
    using Cons.prems key_codec_inj [OF assms(1)] by auto
  ultimately show ?case using Cons by simp
qed simp

lemma checkFills_ok: "\<forall>f \<in> set fs. fill_ok n f \<Longrightarrow> checkFills n fs = None"
  by (induction fs) (auto simp: checkFill_def fill_ok_def not_le)

lemma missingUser_ok: "\<forall>o1 \<in> set os. showKey (i_User (so_Intent o1)) \<in> users \<Longrightarrow> missingUser users showKey os = None"
  by (induction os) auto

lemma payload_roundtrip:
  assumes "submission_ok programID b" "key_codec parseKey showKey" "length (sb_MarketPDA b) = 32"
  shows "\<exists>payload. encodePreparedPayload showKey b = Inr payload \<and>
    decodePreparedPayload parseKey showKey programID payload = Inr b"
proof -
  have ok: "sb_Orders b \<noteq> []" "length (sb_Orders b) \<le> 255" "\<forall>o1 \<in> set (sb_Orders b). order_ok programID (sb_MarketPDA b) o1"
    "\<forall>i < length (sb_Orders b). so_OrderIndex (sb_Orders b ! i) = of_nat (0 + i)" "distinct (sb_UniqueUsers b)"
    "set (sb_UniqueUsers b) = (\<lambda>o1. i_User (so_Intent o1)) ` set (sb_Orders b)" "sb_Fills b \<noteq> []"
    "\<forall>f \<in> set (sb_Fills b). fill_ok (length (sb_Orders b)) f"
    using assms(1) by (simp_all add: submission_ok_def)
  obtain ps where ps: "prepareOrders (sb_Orders b) = Inr ps" "length ps = length (sb_Orders b)"
    "readOrders programID (sb_MarketPDA b) 0 ps = Inr (sb_Orders b)"
    using prepareOrders_ok [OF ok(3,4)] by blast
  have u32: "\<forall>u \<in> set (sb_UniqueUsers b). length u = 32"
    using ok(3,6) by (auto simp: order_ok_def intent_wf_def)
  have us: "readUsers parseKey showKey (map showKey (sb_UniqueUsers b)) {} = Inr (sb_UniqueUsers b)"
    using readUsers_ok [OF assms(2) u32 ok(5)] by simp
  have ne: "ps \<noteq> []" using ps(2) ok(1) by force
  have une: "sb_UniqueUsers b \<noteq> []" using ok(1,6) by (metis image_is_empty set_empty)
  have len: "length (sb_UniqueUsers b) \<le> 255" using le_trans [OF users_bound [OF ok(5,6)] ok(2)] .
  have ref: "(\<lambda>o1. showKey (i_User (so_Intent o1))) ` set (sb_Orders b) = showKey ` set (sb_UniqueUsers b)"
    unfolding ok(6) by (simp add: image_image)
  then have mu: "missingUser (showKey ` set (sb_UniqueUsers b)) showKey (sb_Orders b) = None"
    by (intro missingUser_ok) auto
  have mk: "parseKey (TrimSpace (showKey (sb_MarketPDA b))) = Some (sb_MarketPDA b)"
    using assms(2,3) by (simp add: key_codec_def)
  define payload where "payload = \<lparr>pp_SchemaVersion = preparedPayloadSchemaVersion, pp_MarketID = sb_MarketID b,
    pp_MarketPDA = showKey (sb_MarketPDA b), pp_Orders = ps, pp_Fills = sb_Fills b,
    pp_UniqueUsers = map showKey (sb_UniqueUsers b)\<rparr>"
  have enc: "encodePreparedPayload showKey b = Inr payload"
    by (simp add: encodePreparedPayload_def ps(1) payload_def)
  have sizes: "\<not> 255 < length ps" "\<not> 255 < length (sb_UniqueUsers b)" using ok(2) ps(2) len by linarith+
  have "decodePreparedPayload parseKey showKey programID payload = Inr b"
    unfolding decodePreparedPayload_def payload_def
    by (simp add: mk ne une sizes ps(3) us mu ref ok(7) checkFills_ok [OF ok(8)] Let_def)
  with enc show ?thesis by blast
qed

text \<open>C18: preparing is lossless.  Any well-formed submission batch, in particular every built one with any
  orders marked warm, is written without an error and read back unchanged.\<close>
theorem prepared_payload_roundtrip:
  assumes "submission_ok programID b" "key_codec parseKey showKey" "length (sb_MarketPDA b) = 32"
  shows "\<exists>payload. encodePreparedPayload showKey b = Inr payload \<and>
    decodePreparedPayload parseKey showKey programID payload = Inr b"
  using assms by (rule payload_roundtrip)

lemma hexEncode_trim: "TrimSpace (hexEncode k) = hexEncode k"
proof -
  have ns: "c \<in> set (hexEncode k) \<Longrightarrow> \<not> isSpace c" for c
    by (induction k) (auto simp: not_space_digit)
  have d: "dropWhile isSpace xs = xs" if "\<And>c. c \<in> set xs \<Longrightarrow> \<not> isSpace c" for xs
    using that by (cases xs) auto
  show ?thesis using d [of "hexEncode k"] d [of "rev (hexEncode k)"] ns by (simp add: TrimSpace_def)
qed

theorem prepared_payload_roundtrip_witness:
  "\<exists>payload. encodePreparedPayload hexEncode sampleSubmission = Inr payload \<and>
    decodePreparedPayload sampleParse hexEncode (sampleKey 1) payload = Inr sampleSubmission"
  by (rule prepared_payload_roundtrip [OF BuildSubmissionBatch_ok [OF sample_built]])
    (simp_all add: key_codec_def hexEncode_trim sampleSubmission_def)

end
