(* ===== verification/MatcherEngine.thy ===== *)
theory MatcherEngine
  imports BookRuns TxEstimator Registries Protocol
begin

text \<open>
  The market actor and the manager of the matcher (\<open>matching/actor.go\<close>, \<open>matching/manager.go\<close>).
  An actor owns a book, a pending batch and a checkpoint; its engine loop takes commands from a
  channel, feeds the book, and flushes the batch to the message bus.  The checkpoint loop stores
  the sequence number reached and then acknowledges the commands up to it.

  The message bus and Postgres are outside the repository.  Their answers are inputs of the steps:
  \<open>publishing\<close> holds the acknowledged sequence number of a publication or \<open>None\<close> for an error, and
  the checkpoint flush gets the outcome of each statement.  Clock readings are inputs too.  What a
  step sends is its list of outputs.
\<close>

section \<open>Actors and their checkpoints\<close>

record matcherCheckpointState =
  pendingEvtSeq :: u64
  pendingSourceSeq :: u64
  flushedEvtSeq :: u64
  flushedSourceSeq :: u64
  pendingAcks :: "CommandWrapper list"

record matcherCheckpointSnapshot =
  sn_evtSeq :: u64
  sn_sourceCmdSeq :: u64

record MarketActor =
  a_MarketID :: u64
  a_MarketPDA :: string
  CmdChan :: "CommandWrapper list"
  a_Book :: FixedArrayOrderBook
  Pending :: "pendingBatch option"
  checkpoint :: matcherCheckpointState
  started :: bool

definition zeroCheckpoint :: matcherCheckpointState where
  "zeroCheckpoint = \<lparr>pendingEvtSeq = 0, pendingSourceSeq = 0, flushedEvtSeq = 0, flushedSourceSeq = 0, pendingAcks = []\<rparr>"

definition NewMarketActor :: "u64 \<Rightarrow> string \<Rightarrow> instant \<Rightarrow> MarketActor" where
  "NewMarketActor marketID marketPDA now = \<lparr>a_MarketID = marketID, a_MarketPDA = marketPDA, CmdChan = [],
     a_Book = NewFixedArrayOrderBook marketID, Pending = Some (newPendingBatch marketID marketPDA now),
     checkpoint = zeroCheckpoint, started = False\<rparr>"

definition maxu :: "u64 \<Rightarrow> u64 \<Rightarrow> u64" where
  "maxu a b = (if b < a then a else b)"

definition stageCheckpoint :: "MarketActor \<Rightarrow> u64 \<Rightarrow> u64 \<Rightarrow> CommandWrapper list \<Rightarrow> MarketActor" where
  "stageCheckpoint a evtSeq sourceCmdSeq ws =
     (if sourceCmdSeq = 0 then a
      else a\<lparr>checkpoint := (checkpoint a)\<lparr>
        pendingEvtSeq := maxu evtSeq (pendingEvtSeq (checkpoint a)),
        pendingSourceSeq := maxu sourceCmdSeq (pendingSourceSeq (checkpoint a)),
        pendingAcks := pendingAcks (checkpoint a) @ ws\<rparr>\<rparr>)"

definition checkpointSnapshot :: "MarketActor \<Rightarrow> matcherCheckpointSnapshot option" where
  "checkpointSnapshot a =
     (let c = checkpoint a in
      if pendingSourceSeq c = 0 \<or> pendingSourceSeq c \<le> flushedSourceSeq c then None
      else Some \<lparr>sn_evtSeq = pendingEvtSeq c, sn_sourceCmdSeq = pendingSourceSeq c\<rparr>)"

definition completeCheckpoint :: "MarketActor \<Rightarrow> matcherCheckpointSnapshot \<Rightarrow> CommandWrapper list \<times> MarketActor" where
  "completeCheckpoint a sn =
     (if sn_sourceCmdSeq sn = 0 then ([], a)
      else let c = checkpoint a;
               c = c\<lparr>flushedEvtSeq := maxu (sn_evtSeq sn) (flushedEvtSeq c)\<rparr>;
               c = c\<lparr>flushedSourceSeq := maxu (sn_sourceCmdSeq sn) (flushedSourceSeq c)\<rparr>;
               covered = (\<lambda>w. w_SourceCmdSeq w = 0 \<or> w_SourceCmdSeq w \<le> flushedSourceSeq c)
           in (filter covered (pendingAcks c),
               a\<lparr>checkpoint := c\<lparr>pendingAcks := filter (\<lambda>w. \<not> covered w) (pendingAcks c)\<rparr>\<rparr>))"

section \<open>The manager\<close>

record ManagerConfig =
  cfg_Batch :: BatchConfig
  CheckpointInterval :: int
  SettlementTxMaxBytes :: int

text \<open>The tables of the manager.  \<open>hasPool\<close> says whether a database is configured; the estimator
  is its memo.\<close>

record MarketManager =
  hasPool :: bool
  batchConfig :: BatchConfig
  checkpointInterval :: int
  positionRegistry :: UserPositionRegistry
  orderRegistry :: OrderStateRegistry
  txEstimator :: estimateCache
  maxSettlementTxBytes :: int
  actors :: "u64 \<rightharpoonup> MarketActor"
  checkpoints :: "u64 \<rightharpoonup> u64"

definition zeroBatchConfig :: BatchConfig where
  "zeroBatchConfig = \<lparr>MaxFillsHot = 0, MaxFillsCold = 0, MaxOrders = 0, MaxBytes = 0, MaxAge = 0, IdleFlush = 0, FlushTick = 0\<rparr>"

definition defaultMatcherCheckpointInterval :: int where "defaultMatcherCheckpointInterval = 100000000"

definition NewMarketManager :: "bool \<Rightarrow> ManagerConfig \<Rightarrow> MarketManager" where
  "NewMarketManager pool cfg = \<lparr>hasPool = pool,
     batchConfig = (if cfg_Batch cfg = zeroBatchConfig then DefaultBatchConfig else cfg_Batch cfg),
     checkpointInterval = (if CheckpointInterval cfg \<le> 0 then defaultMatcherCheckpointInterval else CheckpointInterval cfg),
     positionRegistry = NewUserPositionRegistry, orderRegistry = NewOrderStateRegistry, txEstimator = Map.empty,
     maxSettlementTxBytes = (if SettlementTxMaxBytes cfg \<le> 0 then DefaultSettlementMaxTxBytes else SettlementTxMaxBytes cfg),
     actors = Map.empty, checkpoints = Map.empty\<rparr>"

text \<open>Reading a missing key of the checkpoint table gives 0.\<close>

definition checkpointOf :: "MarketManager \<Rightarrow> u64 \<Rightarrow> u64" where
  "checkpointOf m marketID = (case checkpoints m marketID of None \<Rightarrow> 0 | Some s \<Rightarrow> s)"

definition setCheckpoint :: "MarketManager \<Rightarrow> u64 \<Rightarrow> u64 \<Rightarrow> MarketManager" where
  "setCheckpoint m marketID sourceCmdSeq =
     (if sourceCmdSeq = 0 then m
      else if checkpointOf m marketID < sourceCmdSeq then m\<lparr>checkpoints := (checkpoints m)(marketID \<mapsto> sourceCmdSeq)\<rparr>
      else m)"

definition raiseToCheckpoint :: "MarketManager \<Rightarrow> u64 \<Rightarrow> MarketActor \<Rightarrow> MarketActor" where
  "raiseToCheckpoint m marketID a =
     (if LastProcessedSeq (a_Book a) < checkpointOf m marketID
      then a\<lparr>a_Book := (a_Book a)\<lparr>LastProcessedSeq := checkpointOf m marketID\<rparr>\<rparr> else a)"

definition GetOrCreateMarket :: "MarketManager \<Rightarrow> u64 \<Rightarrow> string \<Rightarrow> instant \<Rightarrow> MarketActor \<times> MarketManager" where
  "GetOrCreateMarket m marketID marketPDA now =
     (let actor = (case actors m marketID of
            None \<Rightarrow> (raiseToCheckpoint m marketID (NewMarketActor marketID marketPDA now))\<lparr>started := True\<rparr>
          | Some a \<Rightarrow>
              if a_MarketPDA a = [] \<and> marketPDA \<noteq> [] then
                a\<lparr>a_MarketPDA := marketPDA, Pending := map_option (\<lambda>b.
                  if ev_MarketPDA (event b) = [] then b\<lparr>event := (event b)\<lparr>ev_MarketPDA := marketPDA\<rparr>\<rparr> else b) (Pending a)\<rparr>
              else a);
          actor = raiseToCheckpoint m marketID actor
      in (actor, m\<lparr>actors := (actors m)(marketID \<mapsto> actor)\<rparr>))"

section \<open>Batch limits\<close>

definition orderIsCold :: "OrderStateRegistry \<Rightarrow> u64 \<Rightarrow> MatchedOrder \<Rightarrow> bool" where
  "orderIsCold reg marketID ord =
     (let wallet = TrimSpace (x_WalletAddress (m_Execution ord)); nonce = x_Nonce (m_Execution ord)
      in wallet = [] \<or> nonce = 0 \<or> \<not> Order_Has reg (marketID, wallet, nonce))"

definition settlementTxShape :: "MarketManager \<Rightarrow> pendingBatch \<Rightarrow> SettlementTxShape \<times> bool" where
  "settlementTxShape m b =
     (let os = ev_Orders (event b);
          uniqueWallets = {w \<in> (\<lambda>ord. TrimSpace (x_WalletAddress (m_Execution ord))) ` set os. w \<noteq> []};
          coldOrders = length (filter (orderIsCold (orderRegistry m) (ev_MarketID (event b))) os)
      in (\<lparr>UniqueUsers = int (card uniqueWallets), sh_Orders = int (length os), ColdOrders = int coldOrders, sh_Fills = 0\<rparr>,
          0 < coldOrders))"

definition countColdOrders :: "MarketManager \<Rightarrow> pendingBatch \<Rightarrow> int" where
  "countColdOrders m b = ColdOrders (fst (settlementTxShape m b))"

text \<open>The set of wallets already seen only saves repeated lookups.\<close>

fun anyUnknownWallet :: "UserPositionRegistry \<Rightarrow> u64 \<Rightarrow> string set \<Rightarrow> MatchedOrder list \<Rightarrow> bool" where
  "anyUnknownWallet reg marketID seen [] = False"
| "anyUnknownWallet reg marketID seen (ord # os) =
     (let wallet = TrimSpace (x_WalletAddress (m_Execution ord)) in
      if wallet = [] then anyUnknownWallet reg marketID seen os
      else if wallet \<in> seen then anyUnknownWallet reg marketID seen os
      else if \<not> Position_Has reg (marketID, wallet) then True
      else anyUnknownWallet reg marketID (insert wallet seen) os)"

definition requiresColdLimit :: "pendingBatch \<Rightarrow> UserPositionRegistry \<Rightarrow> bool" where
  "requiresColdLimit b reg =
     (if Fills (event b) = [] then False else anyUnknownWallet reg (ev_MarketID (event b)) {} (ev_Orders (event b)))"

definition estimatePendingTxBytes ::
  "assembler \<Rightarrow> MarketManager \<Rightarrow> pendingBatch \<Rightarrow> (estimate_error + SettlementTxEstimate) \<times> MarketManager" where
  "estimatePendingTxBytes assemble m b =
     (let shape = (fst (settlementTxShape m b))\<lparr>sh_Fills := int (length (Fills (event b)))\<rparr>;
          (r, cache) = Estimate assemble shape (txEstimator m)
      in (r, m\<lparr>txEstimator := cache\<rparr>))"

definition maxFillsForBatch :: "assembler \<Rightarrow> MarketManager \<Rightarrow> pendingBatch \<Rightarrow> int \<times> MarketManager" where
  "maxFillsForBatch assemble m b =
     (let (shape, hasColdOrder) = settlementTxShape m b;
          hasColdPosition = requiresColdLimit b (positionRegistry m);
          ceiling = (if (hasColdOrder \<or> hasColdPosition) \<and> 0 < MaxFillsCold (batchConfig m)
                     then MaxFillsCold (batchConfig m) else MaxFillsHot (batchConfig m));
          ceiling = (if ceiling \<le> 0 then MaxFillsHot (batchConfig m) else ceiling)
      in if maxSettlementTxBytes m \<le> 0 then (ceiling, m)
         else let (r, cache) = MaxFillsWithinLimit assemble shape (maxSettlementTxBytes m) ceiling (txEstimator m);
                  m = m\<lparr>txEstimator := cache\<rparr>
              in case r of
                   Inl _ \<Rightarrow> (ceiling, m)
                 | Inr (allowed, _) \<Rightarrow> (if allowed \<le> 0 then ceiling else allowed, m))"

section \<open>Publishing\<close>

datatype MatcherOutput =
    MarketDelta string MatchBatchEvent
  | HotDelta MatchBatchEvent
  | MatchExecution string MatchBatchEvent
  | OrderReleased string OrderReleasedEvent
  | AckMsg natsMsg
  | NakMsg natsMsg
  | TermMsg natsMsg

record publishing =
  deltaAck :: "u64 option"
  execAck :: "u64 option"

definition msgIdOf :: "MatchBatchEvent \<Rightarrow> string \<Rightarrow> string" where
  "msgIdOf ev suffix = (if EventID ev = [] then [] else EventID ev @ suffix)"

definition publishMarketDelta :: "publishing \<Rightarrow> MatchBatchEvent \<Rightarrow> u64 option \<times> MatcherOutput list" where
  "publishMarketDelta pub ev =
     (case deltaAck pub of
        None \<Rightarrow> (None, [])
      | Some s \<Rightarrow> (Some s, [MarketDelta (msgIdOf ev ''-delta'') ev, HotDelta ev]))"

definition publishMatchExecution :: "publishing \<Rightarrow> MatchBatchEvent \<Rightarrow> u64 option \<times> MatcherOutput list" where
  "publishMatchExecution pub ev =
     (case execAck pub of
        None \<Rightarrow> (None, [])
      | Some s \<Rightarrow> (Some s, [MatchExecution (msgIdOf ev ''-execution'') ev]))"

definition orderByIndex :: "MatchBatchEvent \<Rightarrow> u16 \<rightharpoonup> MatchedOrder" where
  "orderByIndex ev = fold (\<lambda>ord t. t(m_OrderIndex ord \<mapsto> ord)) (ev_Orders ev) Map.empty"

definition releasedEvent :: "MatchBatchEvent \<Rightarrow> MatchedOrder \<Rightarrow> OrderUpdate \<Rightarrow> OrderReleasedEvent" where
  "releasedEvent ev ord u = (let x = m_Execution ord in
     \<lparr>rl_MatchEventID = EventID ev, rl_OrderID = m_OrderID ord, rl_MarketID = ev_MarketID ev,
      rl_MarketPDA = ev_MarketPDA ev, rl_WalletAddress = x_WalletAddress x, rl_OriginalAction = x_OriginalAction x,
      rl_OriginalOutcome = x_OriginalOutcome x, rl_OriginalPriceTick = x_OriginalPriceTick x,
      rl_OrderType = x_OrderType x, rl_RemainingQtyLots = u_RemainingQtyLots u, rl_RefundAmount = u_RefundAmount u,
      rl_Status = u_Status u, rl_ReasonCode = u_ReasonCode u, rl_ReleasedAt = ProducedAt ev\<rparr>)"

definition releases :: "OrderUpdate \<Rightarrow> bool" where
  "releases u \<longleftrightarrow> u_Status u = ''canceled'' \<or> u_Status u = ''expired'' \<or> u_Status u = ''rejected''"

definition publishOrderReleasedEvents :: "MatchBatchEvent \<Rightarrow> MatcherOutput list" where
  "publishOrderReleasedEvents ev = concat (map (\<lambda>u.
     if \<not> releases u then []
     else case orderByIndex ev (u_OrderIndex u) of
       None \<Rightarrow> []
     | Some ord \<Rightarrow> [OrderReleased (EventID ev @ ''-released-'' @ FormatUint10 (m_OrderID ord)) (releasedEvent ev ord u)])
     (OrderUpdates ev))"

definition publishMatcherOutputs :: "publishing \<Rightarrow> MatchBatchEvent \<Rightarrow> u64 option \<times> MatcherOutput list" where
  "publishMatcherOutputs pub ev =
     (if Fills ev = [] \<and> OrderUpdates ev = [] \<and> DepthUpdates ev = [] then (Some 0, [])
      else case publishMarketDelta pub ev of
        (None, out) \<Rightarrow> (None, out)
      | (Some deltaSeq, out) \<Rightarrow>
          (case (if Fills ev \<noteq> [] then publishMatchExecution pub ev else (Some 0, [])) of
             (None, out2) \<Rightarrow> (None, out @ out2)
           | (Some execSeq, out2) \<Rightarrow>
               (Some (if deltaSeq < execSeq then execSeq else deltaSeq), out @ out2 @ publishOrderReleasedEvents ev)))"

definition ackCommandWrappers :: "CommandWrapper list \<Rightarrow> MatcherOutput list" where
  "ackCommandWrappers ws = concat (map (\<lambda>w. case w_Msg w of None \<Rightarrow> [] | Some msg \<Rightarrow> [AckMsg msg]) ws)"

section \<open>The engine loop\<close>

text \<open>The result of a flush is whether it succeeded, that is, did not return an error.\<close>

definition flushActorBatch ::
  "(u64 set \<Rightarrow> u64 list) \<Rightarrow> assembler \<Rightarrow> MarketManager \<Rightarrow> MarketActor \<Rightarrow> instant \<Rightarrow> publishing \<Rightarrow>
     bool \<times> MarketManager \<times> MarketActor \<times> MatcherOutput list" where
  "flushActorBatch iter assemble m a now pub =
     (case Pending a of
        None \<Rightarrow> (True, m, a, [])
      | Some b \<Rightarrow>
          (let (limit, m) = maxFillsForBatch assemble m b in
           if \<not> shouldFlush b now (batchConfig m) limit True then (True, m, a, [])
           else let m = snd (estimatePendingTxBytes assemble m b);
                    ev = freeze iter b now
                in case publishMatcherOutputs pub ev of
                     (None, out) \<Rightarrow> (False, m, a, out)
                   | (Some evtSeq, out) \<Rightarrow>
                       (let top = SourceCmdSeqMax ev;
                            a = (if LastProcessedSeq (a_Book a) < top
                                 then a\<lparr>a_Book := (a_Book a)\<lparr>LastProcessedSeq := top\<rparr>\<rparr> else a);
                            (m, a, acks) =
                              (if 0 < top then
                                 (if \<not> hasPool m then (setCheckpoint m (a_MarketID a) top, a, ackCommandWrappers (wrappers b))
                                  else (m, stageCheckpoint a evtSeq top (wrappers b), []))
                               else (m, a, ackCommandWrappers (wrappers b)))
                        in (True, m, a\<lparr>Pending := Some (newPendingBatch (a_MarketID a) (a_MarketPDA a) now)\<rparr>, out @ acks))))"

text \<open>What the loop waits for: a command, with the clock readings the iteration makes in order, the
  closing of the channel, or the flush ticker.\<close>

datatype EngineInput =
    Received CommandWrapper instant instant instant instant publishing
  | ChannelClosed instant publishing
  | TickerFired instant publishing

definition isDuplicate :: "MarketActor \<Rightarrow> CommandWrapper \<Rightarrow> bool" where
  "isDuplicate a w \<longleftrightarrow>
     (0 < w_SourceCmdSeq w \<and> w_SourceCmdSeq w \<le> LastProcessedSeq (a_Book a)) \<or>
     (case Pending a of None \<Rightarrow> False | Some b \<Rightarrow> hasSeq b (w_SourceCmdSeq w))"

definition runMatcherEngine ::
  "(u64 set \<Rightarrow> u64 list) \<Rightarrow> assembler \<Rightarrow> MarketManager \<Rightarrow> MarketActor \<Rightarrow> EngineInput \<Rightarrow>
     (MarketManager \<times> MarketActor \<times> MatcherOutput list) running" where
  "runMatcherEngine iter assemble m a inp =
     (case inp of
        ChannelClosed now pub \<Rightarrow> Some (Inr (snd (flushActorBatch iter assemble m a now pub)))
      | TickerFired now pub \<Rightarrow> Some (Inr (snd (flushActorBatch iter assemble m a now pub)))
      | Received w t1 t2 t3 t4 pub \<Rightarrow>
          if isDuplicate a w then Some (Inr (m, a, ackCommandWrappers [w]))
          else
            (let b = (case Pending a of None \<Rightarrow> newPendingBatch (a_MarketID a) (a_MarketPDA a) t1 | Some b \<Rightarrow> b);
                 b = includeWrapper b w t2
             in case ProcessCommand (a_Book a) (w_Cmd w) b of
                  None \<Rightarrow> None
                | Some (Inl e) \<Rightarrow> Some (Inl e)
                | Some (Inr (ob, b)) \<Rightarrow>
                    (let a = a\<lparr>a_Book := ob, Pending := Some b\<rparr>;
                         (limit, m) = maxFillsForBatch assemble m b
                     in if shouldFlush b t3 (batchConfig m) limit False
                        then Some (Inr (snd (flushActorBatch iter assemble m a t4 pub)))
                        else Some (Inr (m, a, [])))))"

section \<open>The other loops\<close>

text \<open>One iteration of the tick loop at one actor; \<open>RunBootstrapTick\<close> does the same at start-up.  The
  batch is a fresh one, not the actor's pending batch.\<close>

definition tickActor ::
  "(u64 set \<Rightarrow> u64 list) \<Rightarrow> MarketActor \<Rightarrow> unixtime \<Rightarrow> instant \<Rightarrow> instant \<Rightarrow> publishing \<Rightarrow>
     (u64 option \<times> MarketActor \<times> MatcherOutput list) running" where
  "tickActor iter a now t1 t2 pub =
     (case ProcessCommand (a_Book a) (Tick (a_MarketID a) now) (newPendingBatch (a_MarketID a) (a_MarketPDA a) t1) of
        None \<Rightarrow> None
      | Some (Inl e) \<Rightarrow> Some (Inl e)
      | Some (Inr (ob, b)) \<Rightarrow>
          (let a = a\<lparr>a_Book := ob\<rparr> in
           if hasPayload b then (let (r, out) = publishMatcherOutputs pub (freeze iter b t2) in Some (Inr (r, a, out)))
           else Some (Inr (Some 0, a, []))))"

text \<open>The consumer loop hands a parsed command to its actor, or returns it when the channel is full.\<close>

definition parseCommandFromJSON :: "ProtoPlaceOrder \<Rightarrow> natsMsg \<Rightarrow> u64 \<Rightarrow> CommandWrapper" where
  "parseCommandFromJSON payload msg seq =
     \<lparr>w_Cmd = PlaceOrder ((ConvertProtocolToPlaceOrderCommand payload)\<lparr>c_SourceCmdSeq := seq\<rparr>),
      w_Msg = Some msg, w_SourceCmdSeq = seq\<rparr>"

definition commandChannelSize :: nat where "commandChannelSize = 2048"

text \<open>A message that does not parse is \<open>None\<close>, and so is a message without metadata for its sequence.\<close>

definition consumeReserved ::
  "MarketManager \<Rightarrow> ProtoPlaceOrder option \<Rightarrow> natsMsg \<Rightarrow> u64 option \<Rightarrow> instant \<Rightarrow> MarketManager \<times> MatcherOutput list" where
  "consumeReserved m payload msg meta now =
     (case payload of
        None \<Rightarrow> (m, [TermMsg msg])
      | Some p \<Rightarrow>
          (let w = parseCommandFromJSON p msg (case meta of None \<Rightarrow> 0 | Some s \<Rightarrow> s);
               (a, m) = GetOrCreateMarket m (GetMarketID (w_Cmd w)) (pc_MarketPDA p) now
           in if length (CmdChan a) < commandChannelSize
              then (m\<lparr>actors := (actors m)(GetMarketID (w_Cmd w) \<mapsto> a\<lparr>CmdChan := CmdChan a @ [w]\<rparr>)\<rparr>, [])
              else (m, [NakMsg msg])))"

text \<open>The two entries through which settlement outcomes reach the registries.\<close>

definition handleSettlementConfirmed ::
  "MarketManager \<Rightarrow> (u64 \<times> string list) option \<Rightarrow> natsMsg \<Rightarrow> MarketManager \<times> MatcherOutput list" where
  "handleSettlementConfirmed m ev msg =
     (case ev of
        None \<Rightarrow> (m, [TermMsg msg])
      | Some (marketID, wallets) \<Rightarrow>
          (m\<lparr>positionRegistry := fold (\<lambda>w r. Position_MarkExists r (marketID, w)) wallets (positionRegistry m)\<rparr>, [AckMsg msg]))"

text \<open>The match event arrives as bytes: none at all, bytes that do not decode, or an event.\<close>

datatype matchEventBytes = NoBytes | Undecodable | Decoded MatchBatchEvent

definition ObserveProcessedSettlement ::
  "MarketManager \<Rightarrow> u64 \<Rightarrow> string list \<Rightarrow> matchEventBytes \<Rightarrow> MarketManager" where
  "ObserveProcessedSettlement m marketID wallets matchEvent =
     (let m = m\<lparr>positionRegistry := fold (\<lambda>w r. Position_MarkExists r (marketID, w)) wallets (positionRegistry m)\<rparr> in
      case matchEvent of
        Decoded ev \<Rightarrow> m\<lparr>orderRegistry := fold (\<lambda>ord r.
            let wallet = TrimSpace (x_WalletAddress (m_Execution ord)); nonce = x_Nonce (m_Execution ord) in
            if wallet = [] \<or> nonce = 0 then r else Order_MarkExists r (marketID, wallet, nonce)) (ev_Orders ev) (orderRegistry m)\<rparr>
      | _ \<Rightarrow> m)"

section \<open>The checkpoint flush\<close>

definition toSafeInt64 :: "u64 \<Rightarrow> int option" where
  "toSafeInt64 v = (if 0x7fffffffffffffff < v then None else Some (sint v))"

definition checkpointFlushTimeout :: "int \<Rightarrow> int" where
  "checkpointFlushTimeout interval = (if interval * 4 < 1000000000 then 1000000000 else interval * 4)"

record matcherCheckpointTarget =
  tg_marketID :: u64
  tg_evtSeq :: u64
  tg_sourceCmdSeq :: u64

text \<open>The actors are visited in the order \<open>keys1\<close> in which the map iteration yields them; an actor is
  stored under its own market id.\<close>

definition collectCheckpointTargets :: "MarketManager \<Rightarrow> u64 list \<Rightarrow> matcherCheckpointTarget list" where
  "collectCheckpointTargets m keys1 = concat (map (\<lambda>k. case actors m k of
     None \<Rightarrow> []
   | Some a \<Rightarrow> (case checkpointSnapshot a of
       None \<Rightarrow> []
     | Some sn \<Rightarrow> [\<lparr>tg_marketID = k, tg_evtSeq = sn_evtSeq sn, tg_sourceCmdSeq = sn_sourceCmdSeq sn\<rparr>])) keys1)"

text \<open>The table \<open>consumer_cursors\<close> holds a pair of sequence numbers for a market, and the statement of the
  flush keeps the greater of the stored and the new value.\<close>

type_synonym cursors = "u64 \<rightharpoonup> int \<times> int"
type_synonym cursorStatement = "u64 \<times> int \<times> int"

definition upsertCursor :: "cursorStatement \<Rightarrow> cursors \<Rightarrow> cursors" where
  "upsertCursor stmt db = (case stmt of (marketID, evtSeq, sourceSeq) \<Rightarrow>
     (case db marketID of
        None \<Rightarrow> db(marketID \<mapsto> (evtSeq, sourceSeq))
      | Some (e, s) \<Rightarrow> db(marketID \<mapsto> (max e evtSeq, max s sourceSeq))))"

text \<open>Queueing the statements: a value above \<open>int64\<close> abandons the whole flush.\<close>

fun queueTargets :: "matcherCheckpointTarget list \<Rightarrow> (matcherCheckpointTarget \<times> cursorStatement) list option" where
  "queueTargets [] = Some []"
| "queueTargets (t # ts) =
     (if tg_sourceCmdSeq t = 0 then queueTargets ts
      else case (toSafeInt64 (tg_evtSeq t), toSafeInt64 (tg_sourceCmdSeq t)) of
        (Some e, Some s) \<Rightarrow> map_option (\<lambda>q. (t, tg_marketID t, e, s) # q) (queueTargets ts)
      | _ \<Rightarrow> None)"

text \<open>Reading the results: \<open>oks\<close> says for each statement whether it succeeded; the first failure ends the
  loop.\<close>

fun flushedPrefix :: "'a list \<Rightarrow> bool list \<Rightarrow> 'a list" where
  "flushedPrefix (t # ts) (True # oks) = t # flushedPrefix ts oks"
| "flushedPrefix ts oks = []"

definition completeTarget ::
  "matcherCheckpointTarget \<Rightarrow> MarketManager \<Rightarrow> MarketManager \<times> (u64 \<times> CommandWrapper) list" where
  "completeTarget t m =
     (let m = setCheckpoint m (tg_marketID t) (tg_sourceCmdSeq t) in
      case actors m (tg_marketID t) of
        None \<Rightarrow> (m, [])
      | Some a \<Rightarrow> (let (acked, a) = completeCheckpoint a \<lparr>sn_evtSeq = tg_evtSeq t, sn_sourceCmdSeq = tg_sourceCmdSeq t\<rparr>
                   in (m\<lparr>actors := (actors m)(tg_marketID t \<mapsto> a)\<rparr>, map (Pair (tg_marketID t)) acked)))"

fun completeTargets ::
  "matcherCheckpointTarget list \<Rightarrow> MarketManager \<Rightarrow> MarketManager \<times> (u64 \<times> CommandWrapper) list" where
  "completeTargets [] m = (m, [])"
| "completeTargets (t # ts) m =
     (let (m, acked) = completeTarget t m; (m, rest) = completeTargets ts m in (m, acked @ rest))"

text \<open>The driver with the database is the parameter \<open>sendBatch\<close>: the outcome of every statement read and
  the table afterwards.  The result lists the acknowledged wrappers with their market.\<close>

definition flushCheckpointBatch ::
  "(cursorStatement list \<Rightarrow> cursors \<Rightarrow> bool list \<times> cursors) \<Rightarrow> MarketManager \<Rightarrow> cursors \<Rightarrow> u64 list \<Rightarrow>
     MarketManager \<times> cursors \<times> (u64 \<times> CommandWrapper) list" where
  "flushCheckpointBatch sendBatch m db keys1 =
     (if \<not> hasPool m then (m, db, [])
      else case queueTargets (collectCheckpointTargets m keys1) of
        None \<Rightarrow> (m, db, [])
      | Some queued \<Rightarrow>
          if queued = [] then (m, db, [])
          else let (oks, db) = sendBatch (map snd queued) db;
                   (m, acked) = completeTargets (map fst (flushedPrefix queued oks)) m
               in (m, db, acked))"

section \<open>Recovery\<close>

text \<open>A row of \<open>consumer_cursors\<close>; a market id that does not parse is \<open>None\<close>.\<close>

definition loadCheckpoints :: "MarketManager \<Rightarrow> (u64 option \<times> i64) list \<Rightarrow> MarketManager" where
  "loadCheckpoints m rows = fold (\<lambda>(marketID, s) m. case marketID of
       None \<Rightarrow> m
     | Some k \<Rightarrow> if sint s \<le> 0 then m else m\<lparr>checkpoints := (checkpoints m)(k \<mapsto> s)\<rparr>) rows m"

text \<open>A row of the query for open orders, with the columns as the driver scans them; the two action
  columns are strings, the market id is the value \<open>ParseUint\<close> returns for its text.\<close>

record orderRow =
  row_orderID :: i64
  row_marketID :: u64
  row_walletAddress :: string
  row_originalAction :: string
  row_originalOutcome :: string
  row_originalPriceTick :: "16 word"
  row_side :: "16 word"
  row_orderType :: "16 word"
  row_priceTick :: "16 word"
  row_remainingSpend :: i64
  row_remainingQty :: i64
  row_expireTime :: unixtime
  row_signature :: string
  row_intentHex :: string
  row_nonce :: i64
  row_createdCmdSeq :: i64
  row_createdAt :: unixtime
  row_marketPDA :: string
  row_closeTime :: unixtime

definition orderOfRow :: "orderRow \<Rightarrow> MemoryOrder" where
  "orderOfRow r = zeroOrder\<lparr>OrderID := row_orderID r, MarketPDA := row_marketPDA r, WalletAddress := row_walletAddress r,
     OriginalAction := toMatchingSide (row_originalAction r), OriginalOutcome := toMatchingOutcome (row_originalOutcome r),
     OriginalPriceTick := ucast (row_originalPriceTick r), Side := ucast (row_side r), OrderType := ucast (row_orderType r),
     PriceTick := ucast (row_priceTick r), RemainingSpend := row_remainingSpend r, RemainingQty := row_remainingQty r,
     ExpireTime := row_expireTime r, Timestamp := row_createdAt r, Signature := row_signature r,
     IntentBytesHex := row_intentHex r, Nonce := row_nonce r, CreatedCmdSeq := row_createdCmdSeq r\<rparr>"

definition recoverRow :: "instant \<Rightarrow> MarketManager \<Rightarrow> orderRow \<Rightarrow> go_panic + MarketManager" where
  "recoverRow now m r =
     (let k = row_marketID r;
          a = (case actors m k of
                 Some a \<Rightarrow> a
               | None \<Rightarrow> (let a = NewMarketActor k (row_marketPDA r) now;
                              a = a\<lparr>a_Book := (a_Book a)\<lparr>CloseTime := row_closeTime r\<rparr>\<rparr>
                          in raiseToCheckpoint m k a))
      in case RestoreOrder (a_Book a) (orderOfRow r) of
           Inl e \<Rightarrow> Inl e
         | Inr ob \<Rightarrow>
             (let ob = (if 0 < sint (row_createdCmdSeq r) \<and> LastProcessedSeq ob < row_createdCmdSeq r
                        then ob\<lparr>LastProcessedSeq := row_createdCmdSeq r\<rparr> else ob)
              in Inr (m\<lparr>actors := (actors m)(k \<mapsto> a\<lparr>a_Book := ob\<rparr>)\<rparr>)))"

fun recoverRows :: "instant \<Rightarrow> MarketManager \<Rightarrow> orderRow list \<Rightarrow> go_panic + MarketManager" where
  "recoverRows now m [] = Inr (m\<lparr>actors := (\<lambda>k. map_option (\<lambda>a. a\<lparr>started := True\<rparr>) (actors m k))\<rparr>)"
| "recoverRows now m (r # rs) = (case recoverRow now m r of Inl e \<Rightarrow> Inl e | Inr m \<Rightarrow> recoverRows now m rs)"

definition RecoverFromStore ::
  "instant \<Rightarrow> UserPositionKey list \<Rightarrow> OrderStateKey list \<Rightarrow> (u64 option \<times> i64) list \<Rightarrow> orderRow list \<Rightarrow>
     MarketManager \<Rightarrow> go_panic + MarketManager" where
  "RecoverFromStore now positions orderStates cursorRows rows m =
     (if \<not> hasPool m then Inr m
      else let m = m\<lparr>positionRegistry := Position_Load (positionRegistry m) positions,
                     orderRegistry := Order_Load (orderRegistry m) orderStates\<rparr>
           in recoverRows now (loadCheckpoints m cursorRows) rows)"

end
