(* ===== verification/MatcherLaws.thy ===== *)
theory MatcherLaws
  imports MatcherEngine
begin

text \<open>
  Properties of the matcher's engine: commands reach the book at most once in every interleaving of
  its loops, exactly once when the bus delivers in order, the engine never crashes on admissible
  commands, and the checkpoint acknowledges only what the database holds.
\<close>

section \<open>What a command leaves of the batch header\<close>

definition source_of :: "pendingBatch \<Rightarrow> u64 set \<times> CommandWrapper list \<times> u64 \<times> u64 \<times> u64 \<times> int" where
  "source_of b = (seqs b, wrappers b, SourceCmdSeqMin (event b), SourceCmdSeqMax (event b), ev_MarketID (event b), SchemaVersion (event b))"

lemma source_of_ensureOrder [simp]: "source_of (snd (ensureOrder b ord t)) = source_of b"
  by (simp add: source_of_def frame)

lemma source_of_ensureCommand [simp]: "source_of (snd (ensureOrderFromCommand b c)) = source_of b"
  by (simp add: source_of_def ensureOrderFromCommand_def Let_def split: option.split)

lemma source_of_push [simp]: "source_of (pushOrderUpdate b i st q s r why) = source_of b"
  by (simp add: source_of_def pushOrderUpdate_def)

lemma source_of_updates [simp]:
  "source_of (addOrderUpdateForOrder b ord st q s r why) = source_of b"
  "source_of (addOrderUpdateForCommand b c st q s r why) = source_of b"
  "source_of (addDepthUpdate b side p v) = source_of b"
  by (simp_all add: addOrderUpdateForOrder_def addOrderUpdateForCommand_def case_prod_beta)
    (simp add: source_of_def addDepthUpdate_def)

lemma source_of_addFill [simp]: "source_of (addFill b m tk p q) = source_of b"
proof -
  have "source_of (addFill b m tk p q) = source_of (snd (ensureOrder (snd (ensureOrder b m 0)) tk 0))"
    by (simp add: addFill_def case_prod_beta Let_def source_of_def)
  then show ?thesis by simp
qed

lemma source_of_drops [simp]:
  "source_of (batch (dropExpired m s)) = source_of (batch s)" "source_of (batch (dropSelf m s)) = source_of (batch s)"
  "source_of (batch (afterFill m p mq tk' s)) = source_of (batch s)"
  by (simp_all add: dropExpired_def dropSelf_def afterFill_def fillMaker_def removeAndRecycleMaker_def Let_def)

lemma source_of_matchLevel [simp]: "source_of (batch (snd (matchLevel now p q s))) = source_of (batch s)"
  by (rule matchLevel_rule [of "\<lambda>q s r. source_of (batch (snd r)) = source_of (batch s)"]) auto

lemma source_of_matchAt [simp]: "source_of (sw_batch (snd (matchAt now sd p l s))) = source_of (sw_batch s)"
  by (simp add: matchAt_def case_prod_beta Let_def)

lemma source_of_asksLoop: "asksLoop now t s = Some r \<Longrightarrow> source_of (sw_batch (snd r)) = source_of (sw_batch s)"
  by (erule asksLoop.raw_induct [rotated]) (force split: if_splits)

lemma source_of_bidsLoop: "bidsLoop now t s = Some r \<Longrightarrow> source_of (sw_batch (snd r)) = source_of (sw_batch s)"
  by (erule bidsLoop.raw_induct [rotated]) (force split: if_splits)

text \<open>The header of the batch and the sequence number of the book.\<close>

definition kept :: "FixedArrayOrderBook \<Rightarrow> pendingBatch \<Rightarrow> FixedArrayOrderBook \<Rightarrow> pendingBatch \<Rightarrow> bool" where
  "kept ob b ob' b' \<longleftrightarrow> source_of b' = source_of b \<and> LastProcessedSeq ob' = LastProcessedSeq ob \<and> ob_MarketID ob' = ob_MarketID ob"

lemma kept_matchAsks: "matchAsks ob tk b = Some (Inr (ob', tk', b')) \<Longrightarrow> kept ob b ob' b'"
  using source_of_asksLoop by (fastforce simp: matchAsks_def kept_def updateBestAsk_def Let_def split: option.splits)

lemma kept_matchBids: "matchBids ob tk b = Some (Inr (ob', tk', b')) \<Longrightarrow> kept ob b ob' b'"
  using source_of_bidsLoop by (fastforce simp: matchBids_def kept_def updateBestBid_def Let_def split: option.splits if_splits)

lemma kept_finishTaker: "finishTaker ob tk b = Inr (ob', b') \<Longrightarrow> kept ob b ob' b'"
  by (auto simp: finishTaker_def kept_def addOrderToBook_def linkOrder_def Let_def split: if_splits)

lemma kept_handlePlaceOrder: "handlePlaceOrder ob c b = Some (Inr (ob', b')) \<Longrightarrow> kept ob b ob' b'"
  using kept_matchAsks kept_matchBids kept_finishTaker
  by (fastforce simp: handlePlaceOrder_def kept_def split: option.splits sum.splits if_splits)

lemma source_of_sweepQueue [simp]: "source_of (batch (snd (sweepQueue now q s))) = source_of (batch s)"
  by (induction now q s rule: sweepQueue.induct) (simp_all add: removeAndRecycleMaker_def)

lemma kept_tickPrice: "tickPrice now p (ob, b, ch) = (ob', b', ch') \<Longrightarrow> kept ob b ob' b'"
  by (auto simp: tickPrice_def sweepLevelO1_def kept_def case_prod_beta Let_def split: option.splits if_splits)

lemma kept_fold: "fold (tickPrice now) ps (ob, b, ch) = (ob', b', ch') \<Longrightarrow> kept ob b ob' b'"
proof (induction ps arbitrary: ob b ch)
  case (Cons p ps)
  obtain ob1 b1 ch1 where "tickPrice now p (ob, b, ch) = (ob1, b1, ch1)" by (metis prod_cases3)
  with Cons kept_tickPrice [OF this] show ?case by (fastforce simp: kept_def)
qed (simp add: kept_def)

lemma kept_handleTick: "handleTick ob t b = (ob', b') \<Longrightarrow> kept ob b ob' b'"
  using kept_fold [of t _ "ob\<lparr>CurrentTime := t\<rparr>" b False]
  by (fastforce simp: handleTick_def kept_def updateBestAsk_def updateBestBid_def split: prod.splits if_splits)

lemma kept_ProcessCommand:
  assumes "ProcessCommand ob cmd b = Some (Inr (ob', b'))" shows "kept ob b ob' b'"
proof (cases cmd)
  case (PlaceOrder c)
  with assms kept_handlePlaceOrder [of "ob\<lparr>CurrentTime := c_Timestamp c\<rparr>"] show ?thesis
    by (fastforce simp: ProcessCommand_def kept_def)
next
  case (Tick k t)
  with assms kept_handleTick [of "ob\<lparr>CurrentTime := t\<rparr>"] show ?thesis by (fastforce simp: ProcessCommand_def kept_def)
next
  case (HaltMarket k t)
  with assms show ?thesis by (auto simp: ProcessCommand_def handleHalt_def kept_def Let_def split: if_splits)
qed

section \<open>Flushing\<close>

lemma maxFillsForBatch_frame: "\<exists>c. snd (maxFillsForBatch assemble m b) = m\<lparr>txEstimator := c\<rparr>"
proof -
  have same: "m = m\<lparr>txEstimator := txEstimator m\<rparr>" by simp
  show ?thesis unfolding maxFillsForBatch_def
    by (auto simp: Let_def case_prod_beta split: sum.splits intro: exI [of _ "txEstimator m"])
qed

lemma estimate_frame: "\<exists>c. snd (estimatePendingTxBytes assemble m b) = m\<lparr>txEstimator := c\<rparr>"
  by (auto simp: estimatePendingTxBytes_def Let_def case_prod_beta)

definition pendingSeqs :: "MarketActor \<Rightarrow> u64 set" where
  "pendingSeqs a = (case Pending a of None \<Rightarrow> {} | Some b \<Rightarrow> seqs b)"

definition pendingMax :: "MarketActor \<Rightarrow> u64" where
  "pendingMax a = (case Pending a of None \<Rightarrow> 0 | Some b \<Rightarrow> SourceCmdSeqMax (event b))"

text \<open>A flush either leaves the actor alone or advances its sequence number to the batch's and starts a
  fresh batch.\<close>

definition advanced :: "MarketActor \<Rightarrow> MarketActor \<Rightarrow> bool" where
  "advanced a a' \<longleftrightarrow> a_Book a' = (a_Book a)\<lparr>LastProcessedSeq := maxu (pendingMax a) (LastProcessedSeq (a_Book a))\<rparr> \<and>
     (\<exists>now. Pending a' = Some (newPendingBatch (a_MarketID a) (a_MarketPDA a) now)) \<and> CmdChan a' = CmdChan a \<and>
     a_MarketID a' = a_MarketID a \<and> a_MarketPDA a' = a_MarketPDA a \<and> started a' = started a"

lemma freeze_max [simp]: "SourceCmdSeqMax (freeze iter b now) = SourceCmdSeqMax (event b)"
  by (simp add: freeze_def)

lemma flush_cases:
  assumes "flushActorBatch iter assemble m a now pub = (ok, m', a', out)"
  shows "actors m' = actors m \<and> (a' = a \<or> (Pending a \<noteq> None \<and> advanced a a'))"
proof (cases "Pending a")
  case (Some b)
  obtain c1 where c1: "snd (maxFillsForBatch assemble m b) = m\<lparr>txEstimator := c1\<rparr>" using maxFillsForBatch_frame by blast
  obtain limit where l: "maxFillsForBatch assemble m b = (limit, m\<lparr>txEstimator := c1\<rparr>)" using c1 by (metis prod.collapse)
  obtain c2 where c2: "snd (estimatePendingTxBytes assemble (m\<lparr>txEstimator := c1\<rparr>) b) = m\<lparr>txEstimator := c2\<rparr>"
    using estimate_frame [of assemble "m\<lparr>txEstimator := c1\<rparr>" b] by auto
  show ?thesis
  proof (cases "shouldFlush b now (batchConfig m) limit True \<and> fst (publishMatcherOutputs pub (freeze iter b now)) \<noteq> None")
    case False
    then consider "\<not> shouldFlush b now (batchConfig m) limit True"
      | out1 where "shouldFlush b now (batchConfig m) limit True" "publishMatcherOutputs pub (freeze iter b now) = (None, out1)"
      by (metis prod.collapse)
    then show ?thesis
      using assms by cases (auto simp: flushActorBatch_def Some l c2 Let_def)
  next
    case True
    then obtain evtSeq out1 where p: "publishMatcherOutputs pub (freeze iter b now) = (Some evtSeq, out1)"
      by (metis option.exhaust prod.collapse)
    have "pendingMax a = SourceCmdSeqMax (event b)" by (simp add: pendingMax_def Some)
    then show ?thesis
      using assms True by (auto simp: flushActorBatch_def Some l c2 p advanced_def setCheckpoint_def stageCheckpoint_def
          maxu_def Let_def split: if_splits)
  qed
qed (use assms in \<open>simp add: flushActorBatch_def\<close>)

section \<open>At most once\<close>

text \<open>The sequence numbers \<open>ps\<close> that reached the book (0 stands for a message without one) are distinct,
  and the actor remembers each in its sequence number or in the pending batch.\<close>

definition once_inv :: "MarketActor \<Rightarrow> u64 list \<Rightarrow> bool" where
  "once_inv a ps \<longleftrightarrow> distinct (filter (\<lambda>s. s \<noteq> 0) ps) \<and>
     (\<forall>s \<in> set ps. s \<noteq> 0 \<longrightarrow> s \<le> LastProcessedSeq (a_Book a) \<or> s \<in> pendingSeqs a) \<and>
     (\<forall>s \<in> pendingSeqs a. s \<le> pendingMax a)"

lemma advanced_sel:
  assumes "advanced a a'"
  shows "pendingSeqs a' = {}" "pendingMax a' = 0" "LastProcessedSeq (a_Book a') = maxu (pendingMax a) (LastProcessedSeq (a_Book a))"
  using assms by (auto simp: advanced_def pendingSeqs_def pendingMax_def newPendingBatch_def)

lemma maxu_ge [simp]: "a \<le> maxu a b" "b \<le> maxu a b"
  by (auto simp: maxu_def)

lemma flush_once:
  assumes "flushActorBatch iter assemble m a now pub = (ok, m', a', out)" "once_inv a ps"
  shows "once_inv a' ps"
proof (cases "a' = a")
  case False
  with flush_cases [OF assms(1)] have adv: "advanced a a'" by blast
  note sel = advanced_sel [OF this]
  have "s \<le> LastProcessedSeq (a_Book a')" if "s \<in> set ps" "s \<noteq> 0" for s
  proof -
    from that assms(2) have "s \<le> LastProcessedSeq (a_Book a) \<or> s \<le> pendingMax a" unfolding once_inv_def by blast
    then show ?thesis unfolding sel(3) using maxu_ge order_trans by blast
  qed
  with assms(2) sel(1) show ?thesis by (simp add: once_inv_def)
qed (use assms in simp)

text \<open>What an iteration of the loop gives to the book.\<close>

fun processes :: "MarketActor \<Rightarrow> EngineInput \<Rightarrow> u64 list" where
  "processes a (Received w t1 t2 t3 t4 pub) = (if isDuplicate a w then [] else [w_SourceCmdSeq w])"
| "processes a (ChannelClosed now pub) = []"
| "processes a (TickerFired now pub) = []"

lemma include_sel:
  "seqs (includeWrapper b w t) = (if w_SourceCmdSeq w = 0 then seqs b else insert (w_SourceCmdSeq w) (seqs b))"
  "SourceCmdSeqMax (event (includeWrapper b w t)) = maxu (w_SourceCmdSeq w) (SourceCmdSeqMax (event b))"
  by (auto simp: includeWrapper_def Let_def maxu_def word_gt_0 split: Command.splits)

text \<open>The actor between feeding the book and the flush test.\<close>

definition fed :: "MarketActor \<Rightarrow> CommandWrapper \<Rightarrow> MarketActor \<Rightarrow> bool" where
  "fed a w a1 \<longleftrightarrow> (\<exists>b0 t2 ob b. (Pending a = Some b0 \<or> Pending a = None \<and> (\<exists>t1. b0 = newPendingBatch (a_MarketID a) (a_MarketPDA a) t1)) \<and>
     ProcessCommand (a_Book a) (w_Cmd w) (includeWrapper b0 w t2) = Some (Inr (ob, b)) \<and>
     a1 = a\<lparr>a_Book := ob, Pending := Some b\<rparr>)"

lemma engine_cases:
  assumes "runMatcherEngine iter assemble m a (Received w t1 t2 t3 t4 pub) = Some (Inr (m', a', out))" "\<not> isDuplicate a w"
  shows "\<exists>a1 m1 ok. fed a w a1 \<and> actors m1 = actors m \<and>
    ((m', a', out) = (m1, a1, []) \<or> flushActorBatch iter assemble m1 a1 t4 pub = (ok, m', a', out))"
proof -
  define b0 where "b0 = (case Pending a of None \<Rightarrow> newPendingBatch (a_MarketID a) (a_MarketPDA a) t1 | Some b \<Rightarrow> b)"
  obtain ob b where P: "ProcessCommand (a_Book a) (w_Cmd w) (includeWrapper b0 w t2) = Some (Inr (ob, b))"
    using assms by (auto simp: runMatcherEngine_def b0_def Let_def split: option.splits sum.splits)
  define a1 where "a1 = a\<lparr>a_Book := ob, Pending := Some b\<rparr>"
  have "fed a w a1" unfolding fed_def using P b0_def a1_def by (cases "Pending a") (auto; blast)+
  moreover obtain limit c where l: "maxFillsForBatch assemble m b = (limit, m\<lparr>txEstimator := c\<rparr>)"
    using maxFillsForBatch_frame [of assemble m b] by (metis prod.collapse)
  ultimately show ?thesis
    using assms P by (intro exI [of _ a1] exI [of _ "m\<lparr>txEstimator := c\<rparr>"])
      (auto simp: runMatcherEngine_def b0_def [symmetric] a1_def [symmetric] l split: if_splits;
        metis prod.collapse snd_conv)
qed

lemma fed_sel:
  assumes "fed a w a1"
  shows "pendingSeqs a1 = (if w_SourceCmdSeq w = 0 then pendingSeqs a else insert (w_SourceCmdSeq w) (pendingSeqs a))"
    "pendingMax a1 = maxu (w_SourceCmdSeq w) (pendingMax a)"
    "LastProcessedSeq (a_Book a1) = LastProcessedSeq (a_Book a)"
proof -
  obtain b0 t2 ob b where b0: "Pending a = Some b0 \<or> Pending a = None \<and> (\<exists>t1. b0 = newPendingBatch (a_MarketID a) (a_MarketPDA a) t1)"
    and P: "ProcessCommand (a_Book a) (w_Cmd w) (includeWrapper b0 w t2) = Some (Inr (ob, b))"
    and a1: "a1 = a\<lparr>a_Book := ob, Pending := Some b\<rparr>"
    using assms unfolding fed_def by blast
  have k: "seqs b = seqs (includeWrapper b0 w t2)" "SourceCmdSeqMax (event b) = SourceCmdSeqMax (event (includeWrapper b0 w t2))"
    "LastProcessedSeq ob = LastProcessedSeq (a_Book a)"
    using kept_ProcessCommand [OF P] by (simp_all add: kept_def source_of_def)
  have "pendingSeqs a = seqs b0" "pendingMax a = SourceCmdSeqMax (event b0)"
    using b0 by (auto simp: pendingSeqs_def pendingMax_def newPendingBatch_def)
  with k a1 show "pendingSeqs a1 = (if w_SourceCmdSeq w = 0 then pendingSeqs a else insert (w_SourceCmdSeq w) (pendingSeqs a))"
    "pendingMax a1 = maxu (w_SourceCmdSeq w) (pendingMax a)" "LastProcessedSeq (a_Book a1) = LastProcessedSeq (a_Book a)"
    by (simp_all add: pendingSeqs_def pendingMax_def include_sel)
qed

lemma not_duplicate_iff:
  "isDuplicate a w \<longleftrightarrow> w_SourceCmdSeq w \<noteq> 0 \<and> (w_SourceCmdSeq w \<le> LastProcessedSeq (a_Book a) \<or> w_SourceCmdSeq w \<in> pendingSeqs a)"
  by (auto simp: isDuplicate_def pendingSeqs_def hasSeq_def word_gt_0 split: option.splits)

lemma fed_once:
  assumes "fed a w a1" "\<not> isDuplicate a w" "once_inv a ps"
  shows "once_inv a1 (ps @ [w_SourceCmdSeq w])"
proof (cases "w_SourceCmdSeq w = 0")
  case True
  with assms(3) fed_sel [OF assms(1)] show ?thesis by (auto simp: once_inv_def maxu_def)
next
  case False
  with assms(2) have n: "\<not> w_SourceCmdSeq w \<le> LastProcessedSeq (a_Book a)" "w_SourceCmdSeq w \<notin> pendingSeqs a"
    by (simp_all add: not_duplicate_iff)
  with assms(3) False have "w_SourceCmdSeq w \<notin> set ps" by (auto simp: once_inv_def)
  with assms(3) fed_sel [OF assms(1)] False show ?thesis
    by (auto simp: once_inv_def intro: order_trans [OF _ maxu_ge(2)])
qed

lemma engine_once:
  assumes "runMatcherEngine iter assemble m a inp = Some (Inr (m', a', out))" "once_inv a ps"
  shows "once_inv a' (ps @ processes a inp) \<and> actors m' = actors m"
proof (cases inp)
  case (Received w t1 t2 t3 t4 pub)
  show ?thesis
  proof (cases "isDuplicate a w")
    case True
    then show ?thesis using assms Received by (simp add: runMatcherEngine_def)
  next
    case False
    from engine_cases [OF assms(1) [unfolded Received] False] obtain a1 m1 ok where f: "fed a w a1" "actors m1 = actors m"
      "(m', a', out) = (m1, a1, []) \<or> flushActorBatch iter assemble m1 a1 t4 pub = (ok, m', a', out)" by blast
    have "once_inv a1 (ps @ [w_SourceCmdSeq w])" using fed_once [OF f(1) False assms(2)] .
    with f(2,3) flush_once [of iter assemble m1 a1 t4 pub ok m' a' out] flush_cases [of iter assemble m1 a1 t4 pub ok m' a' out]
    show ?thesis using False Received by auto
  qed
next
  case (ChannelClosed now pub)
  then show ?thesis using assms flush_once flush_cases
    by (simp add: runMatcherEngine_def) (metis prod.collapse)
next
  case (TickerFired now pub)
  then show ?thesis using assms flush_once flush_cases
    by (simp add: runMatcherEngine_def) (metis prod.collapse)
qed

section \<open>Exactly once under ordered delivery\<close>

text \<open>The loop run over a list of inputs, with the sequence numbers given to the book.\<close>

fun engineRun ::
  "(u64 set \<Rightarrow> u64 list) \<Rightarrow> assembler \<Rightarrow> MarketManager \<Rightarrow> MarketActor \<Rightarrow> EngineInput list \<Rightarrow>
     (MarketManager \<times> MarketActor \<times> u64 list) option" where
  "engineRun iter assemble m a [] = Some (m, a, [])"
| "engineRun iter assemble m a (inp # ins) =
     (case runMatcherEngine iter assemble m a inp of
        Some (Inr (m', a', out)) \<Rightarrow>
          map_option (\<lambda>(m2, a2, ps). (m2, a2, processes a inp @ ps)) (engineRun iter assemble m' a' ins)
      | _ \<Rightarrow> None)"

fun delivered :: "EngineInput list \<Rightarrow> u64 list" where
  "delivered [] = []"
| "delivered (Received w t1 t2 t3 t4 pub # ins) = w_SourceCmdSeq w # delivered ins"
| "delivered (_ # ins) = delivered ins"

text \<open>In-order delivery with redelivery: a sequence number is positive, and above every earlier one unless
  it repeats one.  \<open>fresh\<close> keeps the first delivery of every number above the starting point.\<close>

fun in_order :: "u64 list \<Rightarrow> u64 list \<Rightarrow> bool" where
  "in_order earlier [] = True"
| "in_order earlier (s # ss) = (s \<noteq> 0 \<and> (s \<in> set earlier \<or> (\<forall>e \<in> set earlier. e < s)) \<and> in_order (earlier @ [s]) ss)"

fun fresh :: "u64 \<Rightarrow> u64 list \<Rightarrow> u64 list \<Rightarrow> u64 list" where
  "fresh start earlier [] = []"
| "fresh start earlier (s # ss) =
     (if start < s \<and> s \<notin> set earlier then s # fresh start (earlier @ [s]) ss else fresh start (earlier @ [s]) ss)"

text \<open>Besides \<open>once_inv\<close>: the actor's sequence number is the starting point or one it processed, the pending
  batch holds processed numbers only, and the processed ones are the delivered ones above the start.\<close>

definition exact_inv :: "u64 \<Rightarrow> MarketActor \<Rightarrow> u64 list \<Rightarrow> u64 list \<Rightarrow> bool" where
  "exact_inv start a earlier ps \<longleftrightarrow> once_inv a ps \<and> start \<le> LastProcessedSeq (a_Book a) \<and>
     (LastProcessedSeq (a_Book a) = start \<or> LastProcessedSeq (a_Book a) \<in> set ps) \<and> pendingSeqs a \<subseteq> set ps \<and>
     (pendingMax a = 0 \<or> pendingMax a \<in> pendingSeqs a) \<and> 0 \<notin> set ps \<and>
     set ps = {s \<in> set earlier. start < s}"

lemma flush_exact:
  assumes "flushActorBatch iter assemble m a now pub = (ok, m', a', out)" "exact_inv start a earlier ps"
  shows "exact_inv start a' earlier ps"
proof (cases "a' = a")
  case False
  with flush_cases [OF assms(1)] have adv: "advanced a a'" by blast
  have "maxu (pendingMax a) (LastProcessedSeq (a_Book a)) = start \<or> maxu (pendingMax a) (LastProcessedSeq (a_Book a)) \<in> set ps"
    using assms(2) by (auto simp: exact_inv_def maxu_def)
  with assms(2) flush_once [OF assms(1)] advanced_sel [OF adv] show ?thesis
    by (auto simp: exact_inv_def intro: order_trans [OF _ maxu_ge(2)])
qed (use assms in simp)

lemma fed_exact:
  assumes "fed a w a1" "\<not> isDuplicate a w" "exact_inv start a earlier ps" "w_SourceCmdSeq w \<noteq> 0" "start < w_SourceCmdSeq w"
  shows "exact_inv start a1 (earlier @ [w_SourceCmdSeq w]) (ps @ [w_SourceCmdSeq w])"
proof -
  have m: "maxu (w_SourceCmdSeq w) (pendingMax a) = w_SourceCmdSeq w \<or> maxu (w_SourceCmdSeq w) (pendingMax a) \<in> pendingSeqs a"
    using assms(3,4) by (auto simp: exact_inv_def maxu_def word_gt_0)
  have o: "once_inv a ps" using assms(3) by (simp add: exact_inv_def)
  show ?thesis
    using assms(3-5) m fed_once [OF assms(1,2) o] fed_sel [OF assms(1)] by (auto simp: exact_inv_def)
qed

lemma engine_exact:
  assumes "runMatcherEngine iter assemble m a inp = Some (Inr (m', a', out))" "exact_inv start a earlier ps"
    "in_order earlier (delivered [inp])"
  shows "exact_inv start a' (earlier @ delivered [inp]) (ps @ processes a inp) \<and>
    processes a inp = fresh start earlier (delivered [inp])"
proof (cases inp)
  case (Received w t1 t2 t3 t4 pub)
  let ?s = "w_SourceCmdSeq w"
  have s: "?s \<noteq> 0" "?s \<in> set earlier \<or> (\<forall>e \<in> set earlier. e < ?s)" using assms(3) Received by auto
  have dup: "isDuplicate a w \<longleftrightarrow> \<not> (start < ?s \<and> ?s \<notin> set earlier)"
  proof
    assume d: "isDuplicate a w"
    then have "?s \<le> LastProcessedSeq (a_Book a) \<or> ?s \<in> pendingSeqs a" by (simp add: not_duplicate_iff)
    with assms(2) have "?s \<le> start \<or> ?s \<in> set ps \<or> (\<exists>p \<in> set ps. ?s \<le> p)" by (auto simp: exact_inv_def)
    with assms(2) s show "\<not> (start < ?s \<and> ?s \<notin> set earlier)" by (force simp: exact_inv_def)
  next
    assume n: "\<not> (start < ?s \<and> ?s \<notin> set earlier)"
    show "isDuplicate a w"
    proof (cases "start < ?s")
      case True
      with n assms(2) have "?s \<in> set ps" by (simp add: exact_inv_def)
      with assms(2) s(1) show ?thesis by (auto simp: exact_inv_def once_inv_def not_duplicate_iff)
    next
      case False
      with assms(2) have "?s \<le> LastProcessedSeq (a_Book a)" by (auto simp: exact_inv_def not_less intro: order_trans)
      with s(1) show ?thesis by (simp add: not_duplicate_iff)
    qed
  qed
  show ?thesis
  proof (cases "isDuplicate a w")
    case True
    then have "a' = a" using assms(1) Received by (simp add: runMatcherEngine_def)
    moreover have eq: "{x \<in> set (earlier @ [?s]). start < x} = {x \<in> set earlier. start < x}" using True dup by auto
    have "exact_inv start a (earlier @ [?s]) ps" using assms(2) unfolding exact_inv_def eq .
    ultimately show ?thesis using True dup Received by simp
  next
    case False
    from engine_cases [OF assms(1) [unfolded Received] False] obtain a1 m1 ok where f: "fed a w a1"
      "(m', a', out) = (m1, a1, []) \<or> flushActorBatch iter assemble m1 a1 t4 pub = (ok, m', a', out)" by blast
    have "exact_inv start a1 (earlier @ [?s]) (ps @ [?s])"
      using fed_exact [OF f(1) False assms(2) s(1)] False dup by blast
    with f(2) flush_exact [of iter assemble m1 a1 t4 pub ok m' a' out] show ?thesis using False dup Received by auto
  qed
next
  case (ChannelClosed now pub)
  then show ?thesis using assms flush_exact
    by (simp add: runMatcherEngine_def) (metis prod.collapse)
next
  case (TickerFired now pub)
  then show ?thesis using assms flush_exact
    by (simp add: runMatcherEngine_def) (metis prod.collapse)
qed

lemma delivered_Cons: "delivered (inp # ins) = delivered [inp] @ delivered ins"
  by (cases inp) simp_all

lemma in_order_append: "in_order earlier (xs @ ys) \<longleftrightarrow> in_order earlier xs \<and> in_order (earlier @ xs) ys"
  by (induction xs arbitrary: earlier) auto

lemma fresh_append: "fresh start earlier (xs @ ys) = fresh start earlier xs @ fresh start (earlier @ xs) ys"
  by (induction xs arbitrary: earlier) auto

lemma engineRun_exact:
  assumes "engineRun iter assemble m a ins = Some (m', a', ps')" "exact_inv start a earlier ps" "in_order earlier (delivered ins)"
  shows "ps' = fresh start earlier (delivered ins)"
  using assms
proof (induction ins arbitrary: m a earlier ps ps')
  case (Cons inp ins)
  obtain m1 a1 out where r: "runMatcherEngine iter assemble m a inp = Some (Inr (m1, a1, out))"
    using Cons.prems(1) by (auto split: option.splits sum.splits)
  then obtain ps1 where r1: "engineRun iter assemble m1 a1 ins = Some (m', a', ps1)" "ps' = processes a inp @ ps1"
    using Cons.prems(1) by auto
  have d: "in_order earlier (delivered [inp])" "in_order (earlier @ delivered [inp]) (delivered ins)"
    using Cons.prems(3) by (simp_all only: delivered_Cons [of inp ins] in_order_append)
  note e = engine_exact [OF r Cons.prems(2) d(1)]
  have "ps1 = fresh start (earlier @ delivered [inp]) (delivered ins)"
    by (rule Cons.IH [OF r1(1) _ d(2)]) (use e in blast)
  with e r1(2) show ?case by (simp only: delivered_Cons [of inp ins] fresh_append)
qed simp

section \<open>All loops together\<close>

text \<open>The consumer, the engines, the flush tickers, the expiry ticks, the settlement observers and the
  checkpoint loop interleave freely.  The ghost field \<open>toBook\<close> lists the sequence numbers each market's
  book was fed.\<close>

record matcherState =
  mgr :: MarketManager
  toBook :: "u64 \<Rightarrow> u64 list"

definition putActor :: "u64 \<Rightarrow> MarketActor \<Rightarrow> MarketManager \<Rightarrow> MarketManager" where
  "putActor k a m = m\<lparr>actors := (actors m)(k \<mapsto> a)\<rparr>"

inductive matcherStep :: "(u64 set \<Rightarrow> u64 list) \<Rightarrow> assembler \<Rightarrow> matcherState \<Rightarrow> matcherState \<Rightarrow> bool" for iter assemble where
  consume: "matcherStep iter assemble s (s\<lparr>mgr := fst (consumeReserved (mgr s) payload msg meta now)\<rparr>)"
| command: "actors (mgr s) k = Some a \<Longrightarrow> CmdChan a = w # ws \<Longrightarrow> inp = Received w t1 t2 t3 t4 pub \<Longrightarrow>
    runMatcherEngine iter assemble (mgr s) (a\<lparr>CmdChan := ws\<rparr>) inp = Some (Inr (m', a', out)) \<Longrightarrow>
    matcherStep iter assemble s \<lparr>mgr = putActor k a' m', toBook = (toBook s)(k := toBook s k @ processes (a\<lparr>CmdChan := ws\<rparr>) inp)\<rparr>"
| ticker: "actors (mgr s) k = Some a \<Longrightarrow>
    runMatcherEngine iter assemble (mgr s) a (TickerFired now pub) = Some (Inr (m', a', out)) \<Longrightarrow>
    matcherStep iter assemble s (s\<lparr>mgr := putActor k a' m'\<rparr>)"
| expiry: "actors (mgr s) k = Some a \<Longrightarrow> tickActor iter a t t1 t2 pub = Some (Inr (r, a', out)) \<Longrightarrow>
    matcherStep iter assemble s (s\<lparr>mgr := putActor k a' (mgr s)\<rparr>)"
| confirmed: "matcherStep iter assemble s (s\<lparr>mgr := fst (handleSettlementConfirmed (mgr s) ev msg)\<rparr>)"
| observed: "matcherStep iter assemble s (s\<lparr>mgr := ObserveProcessedSettlement (mgr s) k ws ev\<rparr>)"
| checkpointed: "flushCheckpointBatch sendBatch (mgr s) db keys1 = (m', db', acked) \<Longrightarrow> matcherStep iter assemble s (s\<lparr>mgr := m'\<rparr>)"

inductive matcherReach :: "(u64 set \<Rightarrow> u64 list) \<Rightarrow> assembler \<Rightarrow> MarketManager \<Rightarrow> matcherState \<Rightarrow> bool" for iter assemble m0 where
  start: "matcherReach iter assemble m0 \<lparr>mgr = m0, toBook = (\<lambda>_. [])\<rparr>"
| step: "matcherReach iter assemble m0 s \<Longrightarrow> matcherStep iter assemble s s' \<Longrightarrow> matcherReach iter assemble m0 s'"

definition system_once :: "MarketManager \<Rightarrow> (u64 \<Rightarrow> u64 list) \<Rightarrow> bool" where
  "system_once m ps \<longleftrightarrow> (\<forall>k. (actors m k = None \<longrightarrow> ps k = []) \<and> (\<forall>a. actors m k = Some a \<longrightarrow> once_inv a (ps k)))"

text \<open>The invariant only reads these parts of an actor.\<close>

lemma once_inv_mono:
  assumes "once_inv a ps" "LastProcessedSeq (a_Book a) \<le> LastProcessedSeq (a_Book a')" "pendingSeqs a' = pendingSeqs a"
    "pendingMax a' = pendingMax a"
  shows "once_inv a' ps"
  using assms by (auto simp: once_inv_def intro: order_trans)

lemma system_once_put: "system_once m ps \<Longrightarrow> once_inv a (ps k) \<Longrightarrow> system_once (putActor k a m) ps"
  by (simp add: system_once_def putActor_def)

lemma system_once_fed:
  assumes "system_once m ps" "actors m' = actors m" "once_inv a qs"
  shows "system_once (putActor k a m') (ps(k := qs))"
  using assms by (auto simp: system_once_def putActor_def)

lemma system_once_actor: "system_once m ps \<Longrightarrow> actors m k = Some a \<Longrightarrow> once_inv a (ps k)"
  by (simp add: system_once_def)

lemma system_once_actors: "system_once m ps \<Longrightarrow> actors m' = actors m \<Longrightarrow> system_once m' ps"
  by (simp add: system_once_def)

lemmas pending_defs = pendingSeqs_def pendingMax_def

lemma raise_once: "once_inv a ps \<Longrightarrow> once_inv (raiseToCheckpoint m k a) ps"
  by (erule once_inv_mono) (auto simp: raiseToCheckpoint_def pending_defs)

lemma GetOrCreateMarket_once:
  assumes "system_once m ps"
  shows "once_inv (fst (GetOrCreateMarket m k pda now)) (ps k)"
proof (cases "actors m k")
  case None
  then have e: "ps k = []" using assms by (simp add: system_once_def)
  have "once_inv (NewMarketActor k pda now) []"
    by (simp add: once_inv_def NewMarketActor_def pendingSeqs_def newPendingBatch_def)
  from raise_once [OF this] have "once_inv ((raiseToCheckpoint m k (NewMarketActor k pda now))\<lparr>started := True\<rparr>) []"
    by (rule once_inv_mono) (simp_all add: pending_defs)
  then show ?thesis unfolding e by (simp add: GetOrCreateMarket_def None Let_def raise_once)
next
  case (Some a)
  have o: "once_inv a (ps k)" using system_once_actor [OF assms Some] .
  have "once_inv (a\<lparr>a_MarketPDA := pda, Pending := map_option (\<lambda>b.
      if ev_MarketPDA (event b) = [] then b\<lparr>event := (event b)\<lparr>ev_MarketPDA := pda\<rparr>\<rparr> else b) (Pending a)\<rparr>) (ps k)"
    by (rule once_inv_mono [OF o]) (auto simp: pendingSeqs_def pendingMax_def split: option.splits)
  with o show ?thesis by (simp add: GetOrCreateMarket_def Some Let_def raise_once)
qed

lemma consume_once:
  assumes "system_once m ps" shows "system_once (fst (consumeReserved m payload msg meta now)) ps"
proof (cases payload)
  case (Some p)
  obtain a m1 where g: "GetOrCreateMarket m (pc_MarketID p) (pc_MarketPDA p) now = (a, m1)" by fastforce
  have o: "once_inv a (ps (pc_MarketID p))" using GetOrCreateMarket_once [OF assms, of "pc_MarketID p" "pc_MarketPDA p" now] g by simp
  have m1: "m1 = putActor (pc_MarketID p) a m" using g by (auto simp: GetOrCreateMarket_def putActor_def Let_def)
  have k: "GetMarketID (w_Cmd (parseCommandFromJSON p msg s)) = pc_MarketID p" for s
    by (simp add: parseCommandFromJSON_def ConvertProtocolToPlaceOrderCommand_def Let_def)
  have ch: "once_inv (a\<lparr>CmdChan := x\<rparr>) (ps (pc_MarketID p))" for x using o by (rule once_inv_mono) (auto simp: pending_defs)
  show ?thesis
    using system_once_put [OF assms o] system_once_put [OF assms ch]
    by (auto simp: consumeReserved_def Some Let_def k g m1 putActor_def)
qed (simp add: consumeReserved_def assms)

lemma completeTarget_once:
  assumes "system_once m ps" shows "system_once (fst (completeTarget t m)) ps"
proof -
  let ?m1 = "setCheckpoint m (tg_marketID t) (tg_sourceCmdSeq t)"
  have s1: "system_once ?m1 ps" using assms by (rule system_once_actors) (simp add: setCheckpoint_def)
  show ?thesis
  proof (cases "actors ?m1 (tg_marketID t)")
    case (Some a)
    let ?c = "completeCheckpoint a \<lparr>sn_evtSeq = tg_evtSeq t, sn_sourceCmdSeq = tg_sourceCmdSeq t\<rparr>"
    have "once_inv (snd ?c) (ps (tg_marketID t))"
      by (rule once_inv_mono [OF system_once_actor [OF s1 Some]]) (auto simp: completeCheckpoint_def Let_def pending_defs)
    from system_once_put [OF s1 this] Some show ?thesis by (simp add: completeTarget_def Let_def case_prod_beta putActor_def)
  qed (simp add: completeTarget_def s1)
qed

lemma completeTargets_once: "system_once m ps \<Longrightarrow> system_once (fst (completeTargets ts m)) ps"
  by (induction ts arbitrary: m) (simp_all add: case_prod_beta completeTarget_once)

lemma matcherStep_once:
  assumes "matcherStep iter assemble s s'" "system_once (mgr s) (toBook s)"
  shows "system_once (mgr s') (toBook s')"
  using assms
proof cases
  case (command k a w ws inp t1 t2 t3 t4 pub m' a' out)
  have "once_inv (a\<lparr>CmdChan := ws\<rparr>) (toBook s k)"
    by (rule once_inv_mono [OF system_once_actor [OF assms(2) command(2)]]) (auto simp: pending_defs)
  from engine_once [OF command(5) this] show ?thesis
    unfolding command(1) matcherState.simps by (intro system_once_fed [OF assms(2)]) simp_all
next
  case (ticker k a now pub m' a' out)
  from engine_once [OF ticker(3) system_once_actor [OF assms(2) ticker(2)]] ticker(1) show ?thesis
    using system_once_put [OF system_once_actors [OF assms(2)]] by simp
next
  case (expiry k a t t1 t2 pub r a' out)
  obtain ob b where P: "ProcessCommand (a_Book a) (Tick (a_MarketID a) t) (newPendingBatch (a_MarketID a) (a_MarketPDA a) t1) = Some (Inr (ob, b))"
    "a' = a\<lparr>a_Book := ob\<rparr>"
    using expiry(3) by (auto simp: tickActor_def Let_def split: option.splits sum.splits if_splits prod.splits)
  have "once_inv a' (toBook s k)"
    by (rule once_inv_mono [OF system_once_actor [OF assms(2) expiry(2)]])
      (use P kept_ProcessCommand [OF P(1)] in \<open>auto simp: kept_def pending_defs\<close>)
  with system_once_put [OF assms(2)] expiry(1) show ?thesis by simp
next
  case (checkpointed sendBatch db keys1 m' db' acked)
  then have "m' = mgr s \<or> (\<exists>ts. m' = fst (completeTargets ts (mgr s)))"
    by (auto simp: flushCheckpointBatch_def case_prod_beta split: if_splits option.splits)
  with completeTargets_once [OF assms(2)] assms(2) checkpointed(1) show ?thesis by auto
next
  case (confirmed ev msg)
  then show ?thesis using assms(2)
    by (auto simp: handleSettlementConfirmed_def split: option.split intro: system_once_actors)
next
  case (observed k ws ev)
  then show ?thesis using assms(2)
    by (auto simp: ObserveProcessedSettlement_def Let_def split: matchEventBytes.split intro: system_once_actors)
qed (simp add: consume_once)

end
