(* ===== verification/MatcherProps.thy ===== *)
theory MatcherProps
  imports MatcherLaws
begin

text \<open>
  The properties of the matcher's loops, with the lemmas on batch limits and on the checkpoint they need.
\<close>

section \<open>Batch limits\<close>

text \<open>The memo of the estimator never changes an answer.\<close>

lemma Estimate_memo:
  assumes "cache_ok assemble cache"
  shows "fst (Estimate assemble s cache) = fst (Estimate assemble s Map.empty)" "cache_ok assemble (snd (Estimate assemble s cache))"
  using assms by (auto simp: Estimate_def cache_ok_def split: option.splits)

lemma maxFillsLoop_memo:
  assumes "cache_ok assemble cache" "cache_ok assemble cache2"
  shows "fst (maxFillsLoop assemble base maxTx low high best est cache) = fst (maxFillsLoop assemble base maxTx low high best est cache2) \<and>
    cache_ok assemble (snd (maxFillsLoop assemble base maxTx low high best est cache))"
  using assms
proof (induction assemble base maxTx low high best est cache arbitrary: cache2 rule: maxFillsLoop.induct)
  case (1 assemble base maxTx low high best est cache)
  let ?s = "base\<lparr>sh_Fills := (low + high) div 2\<rparr>"
  note M = Estimate_memo [OF 1(3), of ?s] Estimate_memo [OF 1(4), of ?s]
  note u = maxFillsLoop.simps [of assemble base maxTx low high best est cache] maxFillsLoop.simps [of assemble base maxTx low high best est cache2]
  show ?case
  proof (cases "low \<le> high")
    case True
    show ?thesis
    proof (cases "fst (Estimate assemble ?s Map.empty)")
      case (Inl e)
      with M True show ?thesis
        unfolding u by (auto simp: case_prod_beta Let_def split: sum.splits)
    next
      case (Inr e)
      obtain c where E: "Estimate assemble ?s cache = (Inr e, c)" "cache_ok assemble c" using M(1,2) Inr by (metis prod.collapse)
      obtain c2 where E2: "Estimate assemble ?s cache2 = (Inr e, c2)" "cache_ok assemble c2" using M(3,4) Inr by (metis prod.collapse)
      have IH: "TransactionBytes e \<le> maxTx \<Longrightarrow>
          fst (maxFillsLoop assemble base maxTx ((low + high) div 2 + 1) high ((low + high) div 2) e c) =
          fst (maxFillsLoop assemble base maxTx ((low + high) div 2 + 1) high ((low + high) div 2) e c2) \<and>
          cache_ok assemble (snd (maxFillsLoop assemble base maxTx ((low + high) div 2 + 1) high ((low + high) div 2) e c))"
        "\<not> TransactionBytes e \<le> maxTx \<Longrightarrow>
          fst (maxFillsLoop assemble base maxTx low ((low + high) div 2 - 1) best est c) =
          fst (maxFillsLoop assemble base maxTx low ((low + high) div 2 - 1) best est c2) \<and>
          cache_ok assemble (snd (maxFillsLoop assemble base maxTx low ((low + high) div 2 - 1) best est c))"
        using 1(1) [OF True refl E(1) [symmetric] refl _ E(2) E2(2)] 1(2) [OF True refl E(1) [symmetric] refl _ E(2) E2(2)] by blast+
      show ?thesis
        using IH True E(1) E2(1) unfolding u by (simp add: Let_def)
    qed
  next
    case False
    with 1(3) show ?thesis unfolding u by simp
  qed
qed

lemma maxFillsLoop_le:
  "maxFillsLoop assemble base maxTx low high best est cache = (Inr (n, e), cache') \<Longrightarrow> best \<le> C \<Longrightarrow> high \<le> C \<Longrightarrow> n \<le> C"
proof (induction assemble base maxTx low high best est cache arbitrary: rule: maxFillsLoop.induct)
  case (1 assemble base maxTx low high best est cache)
  note u = maxFillsLoop.simps [of assemble base maxTx low high best est cache]
  show ?case
  proof (cases "low \<le> high")
    case True
    then have mid: "(low + high) div 2 \<le> high" by simp
    obtain r c where E: "Estimate assemble (base\<lparr>sh_Fills := (low + high) div 2\<rparr>) cache = (r, c)" by fastforce
    show ?thesis
    proof (cases r)
      case (Inl x)
      then show ?thesis using 1(3) True E unfolding u by simp
    next
      case (Inr est2)
      have E': "(Inr est2, c) = Estimate assemble (base\<lparr>sh_Fills := (low + high) div 2\<rparr>) cache" using E Inr by simp
      show ?thesis
        using 1(1) [OF True refl E' refl] 1(2) [OF True refl E' refl] 1(3-5) True E Inr mid unfolding u
        by (cases "TransactionBytes est2 \<le> maxTx") (simp_all add: Let_def)
    qed
  next
    case False
    then show ?thesis using 1(3,4) unfolding u by simp
  qed
qed

definition fillCeiling :: "MarketManager \<Rightarrow> pendingBatch \<Rightarrow> int" where
  "fillCeiling m b = (if (snd (settlementTxShape m b) \<or> requiresColdLimit b (positionRegistry m)) \<and> 0 < MaxFillsCold (batchConfig m)
     then MaxFillsCold (batchConfig m) else MaxFillsHot (batchConfig m))"

lemma fst_maxFillsForBatch:
  assumes "0 < MaxFillsHot (batchConfig m)"
  shows "fst (maxFillsForBatch assemble m b) =
    (if maxSettlementTxBytes m \<le> 0 then fillCeiling m b
     else case fst (MaxFillsWithinLimit assemble (fst (settlementTxShape m b)) (maxSettlementTxBytes m) (fillCeiling m b) (txEstimator m)) of
       Inl _ \<Rightarrow> fillCeiling m b | Inr (n, _) \<Rightarrow> if n \<le> 0 then fillCeiling m b else n)"
proof -
  have "\<not> fillCeiling m b \<le> 0" using assms by (simp add: fillCeiling_def)
  then show ?thesis
    unfolding maxFillsForBatch_def Let_def case_prod_beta fillCeiling_def [symmetric] by (simp split: sum.split)
qed

lemma maxFillsForBatch_range:
  assumes "0 < MaxFillsHot (batchConfig m)"
  shows "0 < fst (maxFillsForBatch assemble m b) \<and> fst (maxFillsForBatch assemble m b) \<le> fillCeiling m b"
proof -
  have pos: "0 < fillCeiling m b" using assms by (simp add: fillCeiling_def)
  let ?r = "MaxFillsWithinLimit assemble (fst (settlementTxShape m b)) (maxSettlementTxBytes m) (fillCeiling m b) (txEstimator m)"
  have "n \<le> fillCeiling m b" if "fst ?r = Inr (n, e)" for n e
  proof -
    have "?r = (Inr (n, e), snd ?r)" using that by (metis prod.collapse)
    then show ?thesis using pos
      unfolding MaxFillsWithinLimit_def Let_def by (auto elim!: maxFillsLoop_le)
  qed
  then show ?thesis using pos by (auto simp: fst_maxFillsForBatch [OF assms] split: sum.split)
qed

lemma maxFillsForBatch_memo:
  assumes "cache_ok assemble (txEstimator m)" "cache_ok assemble c" "0 < MaxFillsHot (batchConfig m)"
  shows "fst (maxFillsForBatch assemble (m\<lparr>txEstimator := c\<rparr>) b) = fst (maxFillsForBatch assemble m b)"
    "cache_ok assemble (txEstimator (snd (maxFillsForBatch assemble m b)))"
proof -
  have sh: "settlementTxShape (m\<lparr>txEstimator := c\<rparr>) b = settlementTxShape m b" by (simp add: settlementTxShape_def)
  have ce: "fillCeiling (m\<lparr>txEstimator := c\<rparr>) b = fillCeiling m b" by (simp add: fillCeiling_def sh)
  obtain shape cold where s: "settlementTxShape m b = (shape, cold)" by fastforce
  have L: "fst (MaxFillsWithinLimit assemble shape mx ce c) = fst (MaxFillsWithinLimit assemble shape mx ce (txEstimator m))"
    "cache_ok assemble (snd (MaxFillsWithinLimit assemble shape mx ce (txEstimator m)))" for mx ce
    using maxFillsLoop_memo [OF assms(2,1)] maxFillsLoop_memo [OF assms(1,1)]
    by (simp_all add: MaxFillsWithinLimit_def Let_def)
  show "fst (maxFillsForBatch assemble (m\<lparr>txEstimator := c\<rparr>) b) = fst (maxFillsForBatch assemble m b)"
    using assms(3) by (simp add: fst_maxFillsForBatch sh s ce L(1) split: sum.split)
  show "cache_ok assemble (txEstimator (snd (maxFillsForBatch assemble m b)))"
    using assms(1) L(2) by (simp add: maxFillsForBatch_def s Let_def case_prod_beta split: sum.split)
qed

text \<open>The flush test, and what its failure means.\<close>

definition within_limits :: "BatchConfig \<Rightarrow> int \<Rightarrow> pendingBatch \<Rightarrow> bool" where
  "within_limits cfg limit b \<longleftrightarrow> int (length (Fills (event b))) < limit \<and>
     (0 < MaxOrders cfg \<longrightarrow> int (length (ev_Orders (event b))) < MaxOrders cfg) \<and>
     (0 < MaxBytes cfg \<longrightarrow> sizeBytes b < MaxBytes cfg)"

lemma no_flush_within:
  assumes "\<not> shouldFlush b now cfg limit idle" "hasPayload b" "0 < limit"
  shows "within_limits cfg limit b"
  using assms by (auto simp: shouldFlush_def within_limits_def Let_def split: if_splits)

lemma shouldFlush_mono:
  assumes "shouldFlush b t3 cfg limit False" "t3 \<le> t4"
  shows "shouldFlush b t4 cfg limit True"
  using assms by (auto simp: shouldFlush_def Let_def split: if_splits)

lemma fresh_within:
  assumes "0 < limit" shows "within_limits cfg limit (newPendingBatch k pda now)"
  using assms by (simp add: within_limits_def newPendingBatch_def)

lemma publish_succeeds:
  assumes "deltaAck pub \<noteq> None" "execAck pub \<noteq> None"
  shows "fst (publishMatcherOutputs pub ev) \<noteq> None"
  using assms by (auto simp: publishMatcherOutputs_def publishMarketDelta_def publishMatchExecution_def split: option.splits)

lemma flush_happens:
  assumes "flushActorBatch iter assemble m a now pub = (ok, m', a', out)" "Pending a = Some b"
    "shouldFlush b now (batchConfig m) (fst (maxFillsForBatch assemble m b)) True" "deltaAck pub \<noteq> None" "execAck pub \<noteq> None"
  shows "\<exists>now. Pending a' = Some (newPendingBatch (a_MarketID a) (a_MarketPDA a) now)"
proof -
  obtain c1 where c1: "maxFillsForBatch assemble m b = (fst (maxFillsForBatch assemble m b), m\<lparr>txEstimator := c1\<rparr>)"
    using maxFillsForBatch_frame [of assemble m b] by (metis prod.collapse)
  obtain c2 where c2: "snd (estimatePendingTxBytes assemble (m\<lparr>txEstimator := c1\<rparr>) b) = m\<lparr>txEstimator := c2\<rparr>"
    using estimate_frame [of assemble "m\<lparr>txEstimator := c1\<rparr>" b] by auto
  obtain evtSeq out1 where p: "publishMatcherOutputs pub (freeze iter b now) = (Some evtSeq, out1)"
    using publish_succeeds [OF assms(4,5), of "freeze iter b now"] by (metis option.exhaust prod.collapse)
  show ?thesis
    using assms(1) unfolding flushActorBatch_def assms(2) option.simps
    by (subst (asm) c1) (auto simp: c2 p assms(3) Let_def stageCheckpoint_def split: if_splits)
qed

lemma engine_limits:
  assumes run: "runMatcherEngine iter assemble m a (Received w t1 t2 t3 t4 pub) = Some (Inr (m', a', out))"
    and new: "\<not> isDuplicate a w" and cfg: "0 < MaxFillsHot (batchConfig m)" and memo: "cache_ok assemble (txEstimator m)"
    and pub: "deltaAck pub \<noteq> None" "execAck pub \<noteq> None" and clock: "t3 \<le> t4"
  shows "\<exists>b. Pending a' = Some b \<and> (hasPayload b \<longrightarrow> within_limits (batchConfig m) (fst (maxFillsForBatch assemble m b)) b)"
proof -
  define b0 where "b0 = (case Pending a of None \<Rightarrow> newPendingBatch (a_MarketID a) (a_MarketPDA a) t1 | Some b \<Rightarrow> b)"
  obtain ob b where P: "ProcessCommand (a_Book a) (w_Cmd w) (includeWrapper b0 w t2) = Some (Inr (ob, b))"
    using run new by (auto simp: runMatcherEngine_def b0_def Let_def split: option.splits sum.splits)
  obtain limit c where l: "maxFillsForBatch assemble m b = (limit, m\<lparr>txEstimator := c\<rparr>)"
    using maxFillsForBatch_frame [of assemble m b] by (metis prod.collapse)
  have c: "cache_ok assemble c" using maxFillsForBatch_memo(2) [OF memo memo cfg, of b] l by simp
  show ?thesis
  proof (cases "shouldFlush b t3 (batchConfig m) limit False")
    case False
    have "a' = a\<lparr>a_Book := ob, Pending := Some b\<rparr>"
      using run new False P l by (simp add: runMatcherEngine_def b0_def [symmetric] Let_def)
    then show ?thesis using no_flush_within [OF False] maxFillsForBatch_range [OF cfg, of assemble b] l by simp
  next
    case True
    obtain ok where f: "flushActorBatch iter assemble (m\<lparr>txEstimator := c\<rparr>) (a\<lparr>a_Book := ob, Pending := Some b\<rparr>) t4 pub = (ok, m', a', out)"
      using run new True P l by (simp add: runMatcherEngine_def b0_def [symmetric] Let_def) (metis prod.collapse)
    have "shouldFlush b t4 (batchConfig m) limit True" using shouldFlush_mono [OF True clock] .
    then obtain now where "Pending a' = Some (newPendingBatch (a_MarketID a) (a_MarketPDA a) now)"
      using flush_happens [OF f _ _ pub, of b] maxFillsForBatch_memo(1) [OF memo c cfg, of b] l by auto
    then show ?thesis by (simp add: hasPayload_def newPendingBatch_def)
  qed
qed

section \<open>No crash\<close>

lemma book_ok_seq [simp]:
  "book_ok (ob\<lparr>LastProcessedSeq := s\<rparr>) = book_ok ob" "uncrossed (ob\<lparr>LastProcessedSeq := s\<rparr>) = uncrossed ob"
  by (simp_all add: book_ok_def uncrossed_def)

lemma flush_book_ok:
  assumes "flushActorBatch iter assemble m a now pub = (ok, m', a', out)" "book_ok (a_Book a)" "uncrossed (a_Book a)"
  shows "book_ok (a_Book a') \<and> uncrossed (a_Book a')"
  using flush_cases [OF assms(1)] assms(2,3) by (auto simp: advanced_def)

definition admissibleInput :: "MarketActor \<Rightarrow> EngineInput \<Rightarrow> bool" where
  "admissibleInput a inp = (case inp of
     Received w t1 t2 t3 t4 pub \<Rightarrow> isDuplicate a w \<or> admissibleCommand (a_Book a) (w_Cmd w) | _ \<Rightarrow> True)"

lemma engine_total:
  assumes "book_ok (a_Book a)" "uncrossed (a_Book a)" "admissibleInput a inp"
  shows "\<exists>m' a' out. runMatcherEngine iter assemble m a inp = Some (Inr (m', a', out)) \<and> book_ok (a_Book a') \<and> uncrossed (a_Book a')"
proof -
  have fl: "book_ok (a_Book (fst (snd (snd (flushActorBatch iter assemble m1 a1 now pub))))) \<and>
      uncrossed (a_Book (fst (snd (snd (flushActorBatch iter assemble m1 a1 now pub)))))"
    if "book_ok (a_Book a1)" "uncrossed (a_Book a1)" for m1 a1 now pub
    using flush_book_ok [OF _ that] by (metis prod.collapse)
  show ?thesis
  proof (cases inp)
    case (Received w t1 t2 t3 t4 pub)
    show ?thesis
    proof (cases "isDuplicate a w")
      case True
      then show ?thesis using assms Received by (simp add: runMatcherEngine_def)
    next
      case False
      define b0 where "b0 = (case Pending a of None \<Rightarrow> newPendingBatch (a_MarketID a) (a_MarketPDA a) t1 | Some b \<Rightarrow> b)"
      have adm: "admissibleCommand (a_Book a) (w_Cmd w)" using assms(3) False Received by (simp add: admissibleInput_def)
      obtain ob b where P: "ProcessCommand (a_Book a) (w_Cmd w) (includeWrapper b0 w t2) = Some (Inr (ob, b))" "book_ok ob" "uncrossed ob"
        using ProcessCommand_step [OF assms(1) adm, of "includeWrapper b0 w t2"] assms(2) by blast
      obtain limit m1 where l: "maxFillsForBatch assemble m b = (limit, m1)" by fastforce
      show ?thesis
        using fl [of "a\<lparr>a_Book := ob, Pending := Some b\<rparr>" m1 t4 pub] P(2,3)
        by (cases "shouldFlush b t3 (batchConfig m1) limit False")
          (auto simp: Received runMatcherEngine_def False b0_def [symmetric] P(1) l Let_def prod_eq_iff)
    qed
  next
    case (ChannelClosed now pub)
    then show ?thesis using fl [OF assms(1,2), of m now pub] by (auto simp: runMatcherEngine_def prod_eq_iff)
  next
    case (TickerFired now pub)
    then show ?thesis using fl [OF assms(1,2), of m now pub] by (auto simp: runMatcherEngine_def prod_eq_iff)
  qed
qed

section \<open>The checkpoint\<close>

lemma completeTarget_acked:
  assumes "(k, w) \<in> set (snd (completeTarget t m))"
  shows "k = tg_marketID t" "\<exists>a. actors m k = Some a \<and> w \<in> set (pendingAcks (checkpoint a)) \<and>
    (w_SourceCmdSeq w = 0 \<or> w_SourceCmdSeq w \<le> maxu (tg_sourceCmdSeq t) (flushedSourceSeq (checkpoint a)))"
proof -
  have a: "actors (setCheckpoint m (tg_marketID t) (tg_sourceCmdSeq t)) = actors m" by (simp add: setCheckpoint_def)
  show "k = tg_marketID t"
    using assms by (auto simp: completeTarget_def Let_def case_prod_beta split: option.splits)
  then show "\<exists>a. actors m k = Some a \<and> w \<in> set (pendingAcks (checkpoint a)) \<and>
    (w_SourceCmdSeq w = 0 \<or> w_SourceCmdSeq w \<le> maxu (tg_sourceCmdSeq t) (flushedSourceSeq (checkpoint a)))"
    using assms a by (auto simp: completeTarget_def completeCheckpoint_def Let_def case_prod_beta split: option.splits if_splits)
qed

lemma completeTarget_other: "k \<noteq> tg_marketID t \<Longrightarrow> actors (fst (completeTarget t m)) k = actors m k"
  by (auto simp: completeTarget_def setCheckpoint_def Let_def case_prod_beta split: option.splits)

lemma completeTargets_acked:
  assumes "(k, w) \<in> set (snd (completeTargets ts m))" "distinct (map tg_marketID ts)"
  shows "\<exists>t \<in> set ts. k = tg_marketID t \<and> (\<exists>a. actors m k = Some a \<and> w \<in> set (pendingAcks (checkpoint a)) \<and>
    (w_SourceCmdSeq w = 0 \<or> w_SourceCmdSeq w \<le> maxu (tg_sourceCmdSeq t) (flushedSourceSeq (checkpoint a))))"
  using assms
proof (induction ts arbitrary: m)
  case (Cons t ts)
  from Cons.prems(1) consider "(k, w) \<in> set (snd (completeTarget t m))"
    | "(k, w) \<in> set (snd (completeTargets ts (fst (completeTarget t m))))"
    by (auto simp: case_prod_beta)
  then show ?case
  proof cases
    case 1
    from completeTarget_acked [OF this] show ?thesis by auto
  next
    case 2
    from Cons.IH [OF this] Cons.prems(2) obtain t' where t': "t' \<in> set ts" "k = tg_marketID t'"
      "\<exists>a. actors (fst (completeTarget t m)) k = Some a \<and> w \<in> set (pendingAcks (checkpoint a)) \<and>
        (w_SourceCmdSeq w = 0 \<or> w_SourceCmdSeq w \<le> maxu (tg_sourceCmdSeq t') (flushedSourceSeq (checkpoint a)))" by auto
    moreover have "k \<noteq> tg_marketID t" using imageI [OF t'(1), of tg_marketID] t'(2) Cons.prems(2) by auto
    ultimately show ?thesis using completeTarget_other by auto
  qed
qed simp

lemma collect_markets: "map tg_marketID (collectCheckpointTargets m ks) = filter (\<lambda>k. \<exists>a. actors m k = Some a \<and> checkpointSnapshot a \<noteq> None) ks"
  by (induction ks) (auto simp: collectCheckpointTargets_def split: option.splits)

lemma collect_target:
  assumes "t \<in> set (collectCheckpointTargets m ks)" "actors m (tg_marketID t) = Some a"
  shows "flushedSourceSeq (checkpoint a) < tg_sourceCmdSeq t"
  using assms by (auto simp: collectCheckpointTargets_def checkpointSnapshot_def Let_def split: option.splits if_splits)

lemma queue_sub: "queueTargets ts = Some q \<Longrightarrow> map fst q = filter (\<lambda>t. tg_sourceCmdSeq t \<noteq> 0) ts \<and>
    (\<forall>(t, k, e, s) \<in> set q. k = tg_marketID t \<and> s = uint (tg_sourceCmdSeq t))"
proof (induction ts arbitrary: q)
  case (Cons t ts)
  have sint: "i = uint v" if "toSafeInt64 v = Some i" for v :: u64 and i
  proof -
    have "unat v \<le> 0x7fffffffffffffff" using that by (simp add: toSafeInt64_def not_less word_le_nat_alt split: if_splits)
    then have "sint v = int (unat v)" by (intro sint_small) simp
    then show ?thesis using that by (simp add: toSafeInt64_def split: if_splits)
  qed
  show ?case
    using Cons sint by (fastforce split: if_splits option.splits)
qed simp

lemma flushedPrefix_all: "flushedPrefix q (replicate (length q) True) = q"
  by (induction q) auto

lemma upsert_grows: "db k = Some (e, s) \<Longrightarrow> \<exists>e' s'. upsertCursor st db k = Some (e', s') \<and> s \<le> s'"
  by (auto simp: upsertCursor_def split: prod.splits option.splits)

lemma upsert_fold_grows: "db k = Some (e, s) \<Longrightarrow> \<exists>e' s'. fold upsertCursor qs db k = Some (e', s') \<and> s \<le> s'"
proof (induction qs arbitrary: db e s)
  case (Cons st qs)
  obtain e1 s1 where 1: "upsertCursor st db k = Some (e1, s1)" "s \<le> s1" using upsert_grows [of db k e s st] Cons.prems by blast
  with Cons.IH [of "upsertCursor st db" e1 s1] show ?case by auto
qed simp

lemma upsert_fold_covers: "(k, e, s) \<in> set qs \<Longrightarrow> \<exists>e' s'. fold upsertCursor qs db k = Some (e', s') \<and> s \<le> s'"
proof (induction qs arbitrary: db)
  case (Cons st qs)
  show ?case
  proof (cases "st = (k, e, s)")
    case True
    then have "\<exists>e1 s1. upsertCursor st db k = Some (e1, s1) \<and> s \<le> s1" by (auto simp: upsertCursor_def split: option.splits)
    then obtain e1 s1 where 1: "upsertCursor st db k = Some (e1, s1)" "s \<le> s1" by blast
    with upsert_fold_grows [of "upsertCursor st db" k e1 s1 qs] show ?thesis by auto
  next
    case False
    with Cons show ?thesis by simp
  qed
qed simp

text \<open>What the driver documents of a batch: its statements run in one implicit transaction, so the table
  changes by all of them or, when one fails, by none.\<close>

definition implicitTransaction :: "(cursorStatement list \<Rightarrow> cursors \<Rightarrow> bool list \<times> cursors) \<Rightarrow> bool" where
  "implicitTransaction sendBatch \<longleftrightarrow> (\<forall>qs db. snd (sendBatch qs db) =
     (if fst (sendBatch qs db) = replicate (length qs) True then fold upsertCursor qs db else db))"

lemma checkpoint_durable:
  assumes "implicitTransaction sendBatch" "\<forall>qs. fst (sendBatch qs db) = replicate (length qs) True" "distinct keys1"
    "flushCheckpointBatch sendBatch m db keys1 = (m', db', acked)" "(k, w) \<in> set acked"
  shows "\<exists>a e s. actors m k = Some a \<and> w \<in> set (pendingAcks (checkpoint a)) \<and> db' k = Some (e, s) \<and> uint (w_SourceCmdSeq w) \<le> s"
proof -
  let ?ts = "collectCheckpointTargets m keys1"
  obtain q where q: "queueTargets ?ts = Some q" "q \<noteq> []"
    and r: "db' = snd (sendBatch (map snd q) db)" "acked = snd (completeTargets (map fst q) m)"
    using assms(2,4,5) by (auto simp: flushCheckpointBatch_def case_prod_beta flushedPrefix_all
        split: if_splits option.splits)
  have db': "db' = fold upsertCursor (map snd q) db" using assms(1,2) r(1) by (simp add: implicitTransaction_def)
  have "distinct (map tg_marketID ?ts)" unfolding collect_markets using assms(3) by simp
  then have d: "distinct (map tg_marketID (map fst q))" using queue_sub [OF q(1)] by (simp add: distinct_map_filter)
  from completeTargets_acked [OF assms(5) [unfolded r(2)] d] obtain t a where
    t: "t \<in> set (map fst q)" "k = tg_marketID t" "actors m k = Some a" "w \<in> set (pendingAcks (checkpoint a))"
      "w_SourceCmdSeq w = 0 \<or> w_SourceCmdSeq w \<le> maxu (tg_sourceCmdSeq t) (flushedSourceSeq (checkpoint a))" by blast
  have "t \<in> set ?ts" using t(1) queue_sub [OF q(1)] by (metis (no_types) filter_is_subset subsetD)
  then have "flushedSourceSeq (checkpoint a) < tg_sourceCmdSeq t" using collect_target t(2,3) by blast
  with t(5) have w: "w_SourceCmdSeq w = 0 \<or> w_SourceCmdSeq w \<le> tg_sourceCmdSeq t" by (auto simp: maxu_def)
  obtain st where st: "(t, st) \<in> set q" using t(1) by auto
  then obtain e where e: "st = (k, e, uint (tg_sourceCmdSeq t))" using queue_sub [OF q(1)] t(2) by (cases st) fastforce
  have "(k, e, uint (tg_sourceCmdSeq t)) \<in> set (map snd q)" using st e by force
  from upsert_fold_covers [OF this, of db] obtain e' s' where "db' k = Some (e', s')" "uint (tg_sourceCmdSeq t) \<le> s'" unfolding db' by blast
  moreover have "uint (w_SourceCmdSeq w) \<le> uint (tg_sourceCmdSeq t)" using w by (auto simp: word_le_def)
  ultimately show ?thesis using t(3,4) by fastforce
qed

section \<open>Sample data\<close>

definition sampleManager0 :: MarketManager where
  "sampleManager0 = NewMarketManager True \<lparr>cfg_Batch = zeroBatchConfig, CheckpointInterval = 0, SettlementTxMaxBytes = 0\<rparr>"

definition haltWrapper :: "u64 \<Rightarrow> CommandWrapper" where
  "haltWrapper s = \<lparr>w_Cmd = HaltMarket 1 10, w_Msg = Some 1, w_SourceCmdSeq = s\<rparr>"

definition noPublishing :: publishing where "noPublishing = \<lparr>deltaAck = Some 1, execAck = Some 2\<rparr>"

definition halted :: "u64 \<Rightarrow> EngineInput" where "halted s = Received (haltWrapper s) 0 0 0 0 noPublishing"

definition sampleActor :: "CommandWrapper list \<Rightarrow> MarketActor" where
  "sampleActor ws = (NewMarketActor 1 ''m'' 0)\<lparr>CmdChan := ws\<rparr>"

text \<open>A halt leaves no payload, so the batch is not flushed and remembers the sequence number.\<close>

lemma halt_step:
  assumes "Pending a = Some b" "\<not> hasPayload b" "\<not> isDuplicate a (haltWrapper s)" "s \<noteq> 0"
  shows "\<exists>m' a'. runMatcherEngine iter assemble m a (halted s) = Some (Inr (m', a', [])) \<and> actors m' = actors m \<and>
    (\<exists>b'. Pending a' = Some b' \<and> \<not> hasPayload b') \<and> pendingSeqs a' = insert s (pendingSeqs a) \<and>
    LastProcessedSeq (a_Book a') = LastProcessedSeq (a_Book a) \<and> CmdChan a' = CmdChan a"
proof -
  let ?b = "includeWrapper b (haltWrapper s) 0"
  have np: "\<not> hasPayload ?b" using assms(2) by (simp add: includeWrapper_def haltWrapper_def hasPayload_def Let_def)
  obtain limit m1 where l: "maxFillsForBatch assemble m ?b = (limit, m1)" by fastforce
  have m1: "actors m1 = actors m" using maxFillsForBatch_frame [of assemble m ?b] l by auto
  have e: "runMatcherEngine iter assemble m a (halted s) = Some (Inr (m1,
      a\<lparr>a_Book := handleHalt ((a_Book a)\<lparr>CurrentTime := 10\<rparr>), Pending := Some ?b\<rparr>, []))"
    using assms np l by (simp add: halted_def runMatcherEngine_def ProcessCommand_def haltWrapper_def shouldFlush_def)
  show ?thesis
    unfolding e using np m1 assms(1,4)
    by (auto simp: pendingSeqs_def include_sel haltWrapper_def handleHalt_def)
qed

section \<open>Properties\<close>

text \<open>C24: no command is given to a book twice.  In every interleaving of the consumer, the engine loops, the
  flush and expiry tickers, the settlement observers and the checkpoint loop, from any manager whose actors
  have empty batches, the sequence numbers fed to a market's book are pairwise different.\<close>
theorem commands_reach_book_once:
  assumes "matcherReach iter assemble m0 s" "\<forall>k a. actors m0 k = Some a \<longrightarrow> pendingSeqs a = {}"
  shows "distinct (filter (\<lambda>q. q \<noteq> 0) (toBook s k))"
proof -
  from assms(1) have "system_once (mgr s) (toBook s)"
  proof induction
    case start
    then show ?case using assms(2) by (auto simp: system_once_def once_inv_def)
  qed (rule matcherStep_once)
  then show ?thesis by (cases "actors (mgr s) k") (auto simp: system_once_def once_inv_def)
qed

theorem commands_reach_book_once_witness:
  "\<exists>s. matcherReach (\<lambda>_. []) (\<lambda>_ _ _. None) (putActor 1 (sampleActor [haltWrapper 5, haltWrapper 5]) sampleManager0) s \<and>
     CmdChan (the (actors (mgr s) 1)) = [] \<and> toBook s 1 = [5] \<and> distinct (filter (\<lambda>q. q \<noteq> 0) (toBook s 1))"
proof -
  let ?w = "haltWrapper 5" and ?m = "putActor 1 (sampleActor [haltWrapper 5, haltWrapper 5]) sampleManager0"
  have a: "actors ?m 1 = Some (sampleActor [?w, ?w])" by (simp add: putActor_def)
  have f: "Pending (sampleActor [?w]) = Some (newPendingBatch 1 ''m'' 0)" "\<not> hasPayload (newPendingBatch 1 ''m'' 0)"
    "pendingSeqs (sampleActor [?w]) = {}" "CmdChan (sampleActor [?w]) = [?w]" "LastProcessedSeq (a_Book (sampleActor [?w])) = 0"
    by (simp_all add: sampleActor_def NewMarketActor_def hasPayload_def newPendingBatch_def pendingSeqs_def NewFixedArrayOrderBook_def)
  have nd: "\<not> isDuplicate (sampleActor [?w]) ?w" using f by (simp add: not_duplicate_iff haltWrapper_def)
  obtain m1 a1 where r1: "runMatcherEngine (\<lambda>_. []) (\<lambda>_ _ _. None) ?m (sampleActor [?w]) (halted 5) = Some (Inr (m1, a1, []))"
    "actors m1 = actors ?m" "pendingSeqs a1 = {5}" "CmdChan a1 = [?w]"
    using halt_step [OF f(1,2) nd, of "\<lambda>_. []" "\<lambda>_ _ _. None" ?m] f by auto
  define s1 where "s1 = \<lparr>mgr = putActor 1 a1 m1, toBook = (\<lambda>_. [])(1 := [5])\<rparr>"
  have c: "(sampleActor [?w, ?w])\<lparr>CmdChan := [?w]\<rparr> = sampleActor [?w]" by (simp add: sampleActor_def)
  have "matcherReach (\<lambda>_. []) (\<lambda>_ _ _. None) ?m \<lparr>mgr = ?m, toBook = (\<lambda>_. [])\<rparr>" by (rule matcherReach.start)
  moreover have "matcherStep (\<lambda>_. []) (\<lambda>_ _ _. None) \<lparr>mgr = ?m, toBook = (\<lambda>_. [])\<rparr> \<lparr>mgr = putActor 1 a1 m1,
      toBook = (toBook \<lparr>mgr = ?m, toBook = (\<lambda>_. [])\<rparr>)(1 := toBook \<lparr>mgr = ?m, toBook = (\<lambda>_. [])\<rparr> 1 @
        processes ((sampleActor [?w, ?w])\<lparr>CmdChan := [?w]\<rparr>) (halted 5))\<rparr>"
    by (rule matcherStep.command [of _ 1 "sampleActor [?w, ?w]" ?w "[?w]" "halted 5" 0 0 0 0 noPublishing _ _ _ a1 "[]"])
      (use r1(1) in \<open>simp_all add: a c halted_def\<close>, simp add: sampleActor_def)
  then have "matcherStep (\<lambda>_. []) (\<lambda>_ _ _. None) \<lparr>mgr = ?m, toBook = (\<lambda>_. [])\<rparr> s1"
    using nd by (simp add: c s1_def halted_def) (simp add: haltWrapper_def)
  ultimately have reach1: "matcherReach (\<lambda>_. []) (\<lambda>_ _ _. None) ?m s1" by (rule matcherReach.step)
  define a2 where "a2 = a1\<lparr>CmdChan := []\<rparr>"
  have d: "isDuplicate a2 ?w" using r1(3) by (simp add: a2_def isDuplicate_def pendingSeqs_def hasSeq_def haltWrapper_def split: option.splits)
  have "matcherStep (\<lambda>_. []) (\<lambda>_ _ _. None) s1 \<lparr>mgr = putActor 1 a2 (mgr s1), toBook = (toBook s1)(1 := toBook s1 1 @ processes a2 (halted 5))\<rparr>"
    unfolding a2_def
    by (rule matcherStep.command [of s1 1 a1 ?w "[]" "halted 5" 0 0 0 0 noPublishing _ _ "mgr s1" "a1\<lparr>CmdChan := []\<rparr>" "ackCommandWrappers [?w]"])
      (use r1(4) d in \<open>simp_all add: s1_def putActor_def halted_def runMatcherEngine_def a2_def\<close>)
  with reach1 have "matcherReach (\<lambda>_. []) (\<lambda>_ _ _. None) ?m \<lparr>mgr = putActor 1 a2 (mgr s1), toBook = (toBook s1)(1 := [5])\<rparr>"
    using d by (auto simp: s1_def halted_def dest: matcherReach.step)
  moreover from commands_reach_book_once [OF this, of 1] have "distinct (filter (\<lambda>q. q \<noteq> 0) [5 :: u64])"
    by (simp add: putActor_def sampleManager0_def NewMarketManager_def sampleActor_def NewMarketActor_def pendingSeqs_def newPendingBatch_def)
  ultimately show ?thesis by (intro exI conjI) (auto simp: putActor_def a2_def)
qed

text \<open>C25: commands reach the book exactly once when the bus delivers in order.  If every delivered sequence
  number is new and above the earlier ones, or repeats one, then whatever the flushes do in between, the
  engine feeds the book the first delivery of every number above its starting point, in order, and nothing
  else.\<close>
theorem ordered_delivery_exactly_once:
  assumes "engineRun iter assemble m a ins = Some (m', a', ps)" "pendingSeqs a = {}" "pendingMax a = 0"
    "in_order [] (delivered ins)"
  shows "ps = fresh (LastProcessedSeq (a_Book a)) [] (delivered ins)"
  by (rule engineRun_exact [where ps = "[]", OF assms(1) _ assms(4)]) (use assms(2,3) in \<open>simp add: exact_inv_def once_inv_def\<close>)

theorem ordered_delivery_exactly_once_witness:
  "\<exists>m' a'. engineRun (\<lambda>_. []) (\<lambda>_ _ _. None) sampleManager0 (sampleActor []) [halted 5, halted 5, halted 7] = Some (m', a', [5, 7])"
proof -
  note d = sampleActor_def NewMarketActor_def hasPayload_def newPendingBatch_def pendingSeqs_def NewFixedArrayOrderBook_def
  have f: "Pending (sampleActor []) = Some (newPendingBatch 1 ''m'' 0)" "\<not> hasPayload (newPendingBatch 1 ''m'' 0)"
    "pendingSeqs (sampleActor []) = {}" "pendingMax (sampleActor []) = 0" "LastProcessedSeq (a_Book (sampleActor [])) = 0"
    by (simp_all add: d pendingMax_def)
  have nd: "\<not> isDuplicate (sampleActor []) (haltWrapper 5)" using f by (simp add: not_duplicate_iff haltWrapper_def)
  obtain m1 a1 b1 where 1: "runMatcherEngine (\<lambda>_. []) (\<lambda>_ _ _. None) sampleManager0 (sampleActor []) (halted 5) = Some (Inr (m1, a1, []))"
    "pendingSeqs a1 = {5}" "Pending a1 = Some b1" "\<not> hasPayload b1" "LastProcessedSeq (a_Book a1) = 0"
    using halt_step [OF f(1,2) nd, of "\<lambda>_. []" "\<lambda>_ _ _. None" sampleManager0] f by auto
  have d5: "isDuplicate a1 (haltWrapper 5)" and nd7: "\<not> isDuplicate a1 (haltWrapper 7)"
    using 1 by (simp_all add: not_duplicate_iff haltWrapper_def)
  then have 2: "runMatcherEngine (\<lambda>_. []) (\<lambda>_ _ _. None) m1 a1 (halted 5) = Some (Inr (m1, a1, ackCommandWrappers [haltWrapper 5]))"
    by (simp add: halted_def runMatcherEngine_def)
  obtain m3 a3 where 3: "runMatcherEngine (\<lambda>_. []) (\<lambda>_ _ _. None) m1 a1 (halted 7) = Some (Inr (m3, a3, []))"
    using halt_step [OF 1(3,4) nd7, of "\<lambda>_. []" "\<lambda>_ _ _. None" m1] by auto
  obtain ps where r: "engineRun (\<lambda>_. []) (\<lambda>_ _ _. None) sampleManager0 (sampleActor []) [halted 5, halted 5, halted 7] = Some (m3, a3, ps)"
    using 1 2 3 by simp
  have del: "delivered [halted 5, halted 5, halted 7] = [5, 5, 7]" by (simp add: halted_def haltWrapper_def)
  have "in_order [] (delivered [halted 5, halted 5, halted 7])" unfolding del by simp
  from ordered_delivery_exactly_once [OF r f(3,4) this] have "ps = [5, 7]" unfolding del f(5) by simp
  with r show ?thesis by blast
qed

text \<open>C26: an engine never crashes on admissible commands: it never indexes outside the price array, its
  matching loops end, and its book stays well formed and uncrossed, whatever the bus and the estimator answer.\<close>
theorem engine_never_crashes:
  assumes "book_ok (a_Book a)" "uncrossed (a_Book a)" "admissibleInput a inp"
  shows "\<exists>m' a' out. runMatcherEngine iter assemble m a inp = Some (Inr (m', a', out)) \<and>
    book_ok (a_Book a') \<and> uncrossed (a_Book a')"
  using assms by (rule engine_total)

definition buyInput :: EngineInput where
  "buyInput = Received \<lparr>w_Cmd = PlaceOrder (sampleCmd 11 ''buyer'' SideBuy 45 3), w_Msg = Some 1, w_SourceCmdSeq = 5\<rparr> 0 0 0 0 noPublishing"

definition bookedActor :: MarketActor where "bookedActor = (sampleActor [])\<lparr>a_Book := sampleBook\<rparr>"

lemma sampleBook_uncrossed: "uncrossed sampleBook"
  using bookStep_inv [OF sample_reachable NewFixedArrayOrderBook_ok] by blast

lemma buyInput_admissible: "admissibleInput bookedActor buyInput"
  using sample_admissible by (simp add: admissibleInput_def buyInput_def admissibleCommand_def bookedActor_def)

theorem engine_never_crashes_witness:
  "\<exists>m' a' out. runMatcherEngine (\<lambda>_. []) (\<lambda>_ _ _. None) sampleManager0 bookedActor buyInput = Some (Inr (m', a', out)) \<and>
    book_ok (a_Book a') \<and> uncrossed (a_Book a')"
  by (rule engine_never_crashes)
    (simp_all add: bookedActor_def sampleBook_ok sampleBook_uncrossed buyInput_admissible [unfolded bookedActor_def])

text \<open>C27: batch limits.  After a new command with a working bus, the pending batch is below the fill, order and
  byte limits, the fill limit being positive and at most the configured hot or cold ceiling.\<close>
theorem pending_batch_within_limits:
  assumes "runMatcherEngine iter assemble m a (Received w t1 t2 t3 t4 pub) = Some (Inr (m', a', out))"
    "\<not> isDuplicate a w" "0 < MaxFillsHot (batchConfig m)" "cache_ok assemble (txEstimator m)"
    "deltaAck pub \<noteq> None" "execAck pub \<noteq> None" "t3 \<le> t4"
  shows "\<exists>b limit. Pending a' = Some b \<and> limit = fst (maxFillsForBatch assemble m b) \<and> 0 < limit \<and> limit \<le> fillCeiling m b \<and>
    (hasPayload b \<longrightarrow> int (length (Fills (event b))) < limit \<and>
      (0 < MaxOrders (batchConfig m) \<longrightarrow> int (length (ev_Orders (event b))) < MaxOrders (batchConfig m)) \<and>
      (0 < MaxBytes (batchConfig m) \<longrightarrow> sizeBytes b < MaxBytes (batchConfig m)))"
  using engine_limits [OF assms] maxFillsForBatch_range [OF assms(3)] by (fastforce simp: within_limits_def)

theorem pending_batch_within_limits_witness:
  "\<exists>a' b. (\<exists>m' out. runMatcherEngine (\<lambda>_. []) (\<lambda>_ _ _. None) sampleManager0 bookedActor buyInput = Some (Inr (m', a', out))) \<and>
     Pending a' = Some b \<and> (hasPayload b \<longrightarrow> int (length (Fills (event b))) < 64 \<and> int (length (ev_Orders (event b))) < 96)"
proof -
  have cfg: "batchConfig sampleManager0 = DefaultBatchConfig" by (simp add: sampleManager0_def NewMarketManager_def)
  have ob: "book_ok (a_Book bookedActor)" "uncrossed (a_Book bookedActor)"
    by (simp_all add: bookedActor_def sampleBook_ok sampleBook_uncrossed)
  obtain m' a' out where r: "runMatcherEngine (\<lambda>_. []) (\<lambda>_ _ _. None) sampleManager0 bookedActor buyInput = Some (Inr (m', a', out))"
    using engine_total [OF ob buyInput_admissible] by blast
  have seq: "LastProcessedSeq sampleBook < 5"
    using kept_ProcessCommand by (simp add: sampleBook_def linkOrder_def NewFixedArrayOrderBook_def Let_def)
  have nd: "\<not> isDuplicate bookedActor \<lparr>w_Cmd = PlaceOrder (sampleCmd 11 ''buyer'' SideBuy 45 3), w_Msg = Some 1, w_SourceCmdSeq = 5\<rparr>"
    using seq by (simp add: not_duplicate_iff bookedActor_def sampleActor_def NewMarketActor_def pendingSeqs_def newPendingBatch_def not_le)
  obtain b limit where "Pending a' = Some b" "limit \<le> fillCeiling sampleManager0 b"
    "hasPayload b \<longrightarrow> int (length (Fills (event b))) < limit \<and>
      (0 < MaxOrders (batchConfig sampleManager0) \<longrightarrow> int (length (ev_Orders (event b))) < MaxOrders (batchConfig sampleManager0))"
    using pending_batch_within_limits [OF r [unfolded buyInput_def] nd] cfg
    by (auto simp: DefaultBatchConfig_def noPublishing_def sampleManager0_def NewMarketManager_def)
  moreover have "fillCeiling sampleManager0 b \<le> 64" by (simp add: fillCeiling_def cfg DefaultBatchConfig_def)
  ultimately show ?thesis using r cfg by (auto simp: DefaultBatchConfig_def)
qed

text \<open>C28: a checkpoint acknowledges only what is durable.  When the database answers, every command the
  checkpoint flush acknowledges was waiting for it at its actor, and the stored cursor of its market covers
  its sequence number, so a restart never waits for it again.\<close>
theorem checkpoint_acks_durable:
  assumes "implicitTransaction sendBatch" "\<forall>qs. fst (sendBatch qs db) = replicate (length qs) True" "distinct keys1"
    "flushCheckpointBatch sendBatch m db keys1 = (m', db', acked)" "(k, w) \<in> set acked"
  shows "\<exists>a e s. actors m k = Some a \<and> w \<in> set (pendingAcks (checkpoint a)) \<and> db' k = Some (e, s) \<and> uint (w_SourceCmdSeq w) \<le> s"
  using assms by (rule checkpoint_durable)

definition stagedManager :: MarketManager where
  "stagedManager = putActor 1 (stageCheckpoint (sampleActor []) 9 7 [haltWrapper 6]) sampleManager0"

definition reachableDatabase :: "cursorStatement list \<Rightarrow> cursors \<Rightarrow> bool list \<times> cursors" where
  "reachableDatabase qs db = (replicate (length qs) True, fold upsertCursor qs db)"

lemma staged_targets:
  "collectCheckpointTargets stagedManager [1] = [\<lparr>tg_marketID = 1, tg_evtSeq = 9, tg_sourceCmdSeq = 7\<rparr>]"
  "hasPool stagedManager"
  by (simp_all add: collectCheckpointTargets_def stagedManager_def putActor_def checkpointSnapshot_def stageCheckpoint_def
      sampleActor_def NewMarketActor_def zeroCheckpoint_def maxu_def sampleManager0_def NewMarketManager_def)

lemma staged_acked:
  "set (snd (completeTargets [\<lparr>tg_marketID = 1, tg_evtSeq = 9, tg_sourceCmdSeq = 7\<rparr>] stagedManager)) = {(1, haltWrapper 6)}"
  by (simp add: completeTarget_def completeCheckpoint_def stagedManager_def putActor_def setCheckpoint_def checkpointOf_def stageCheckpoint_def
      sampleActor_def NewMarketActor_def zeroCheckpoint_def maxu_def sampleManager0_def NewMarketManager_def Let_def haltWrapper_def)

theorem checkpoint_acks_durable_witness:
  "\<exists>m' db' acked. flushCheckpointBatch reachableDatabase stagedManager Map.empty [1] = (m', db', acked) \<and>
     (1, haltWrapper 6) \<in> set acked \<and> (\<exists>e s. db' 1 = Some (e, s) \<and> 6 \<le> s)"
proof -
  obtain m' db' acked where r: "flushCheckpointBatch reachableDatabase stagedManager Map.empty [1] = (m', db', acked)" by (metis prod_cases3)
  have "(1, haltWrapper 6) \<in> set acked"
    using r staged_acked by (auto simp: flushCheckpointBatch_def staged_targets(1,2) toSafeInt64_def reachableDatabase_def
        case_prod_beta simp del: completeTargets.simps)
  moreover from checkpoint_acks_durable [OF _ _ _ r this] have "\<exists>e s. db' 1 = Some (e, s) \<and> 6 \<le> s"
    by (auto simp: implicitTransaction_def reachableDatabase_def haltWrapper_def)
  ultimately show ?thesis using r by blast
qed

section \<open>Limits of the design\<close>

text \<open>A command whose sequence number a later flush has overtaken is acknowledged and dropped: a command the
  consumer returned to the bus because the channel was full comes back this way.\<close>

lemma overtaken_command_dropped:
  assumes "0 < w_SourceCmdSeq w" "w_SourceCmdSeq w \<le> LastProcessedSeq (a_Book a)"
  shows "runMatcherEngine iter assemble m a (Received w t1 t2 t3 t4 pub) = Some (Inr (m, a, ackCommandWrappers [w]))"
  using assms by (simp add: runMatcherEngine_def isDuplicate_def)

text \<open>A redelivered command of the pending batch is acknowledged before the batch is published.\<close>

lemma duplicate_acked_unpublished:
  assumes "Pending a = Some b" "w_SourceCmdSeq w \<in> seqs b" "w_SourceCmdSeq w \<noteq> 0" "w_Msg w = Some msg"
  shows "runMatcherEngine iter assemble m a (Received w t1 t2 t3 t4 pub) = Some (Inr (m, a, [AckMsg msg]))"
  using assms by (simp add: runMatcherEngine_def isDuplicate_def hasSeq_def ackCommandWrappers_def)

text \<open>When a later statement of the checkpoint batch fails, the implicit transaction undoes the earlier ones,
  yet their commands are acknowledged.\<close>

definition failingSecond :: "cursorStatement list \<Rightarrow> cursors \<Rightarrow> bool list \<times> cursors" where
  "failingSecond qs db = (if length qs \<le> 1 then (replicate (length qs) True, fold upsertCursor qs db) else ([True, False], db))"

definition twoMarkets :: MarketManager where
  "twoMarkets = putActor 2 (stageCheckpoint (sampleActor []) 9 7 []) stagedManager"

lemma partial_flush_acks_undone_cursor:
  "implicitTransaction failingSecond \<and>
   (\<exists>m' acked. flushCheckpointBatch failingSecond twoMarkets Map.empty [1, 2] = (m', Map.empty, acked) \<and> (1, haltWrapper 6) \<in> set acked)"
proof
  have "[True, False] \<noteq> replicate n True" for n by (metis in_set_replicate list.set_intros(1,2))
  then show "implicitTransaction failingSecond" by (simp add: implicitTransaction_def failingSecond_def)
  show "\<exists>m' acked. flushCheckpointBatch failingSecond twoMarkets Map.empty [1, 2] = (m', Map.empty, acked) \<and> (1, haltWrapper 6) \<in> set acked"
    by (simp add: flushCheckpointBatch_def collectCheckpointTargets_def twoMarkets_def stagedManager_def putActor_def checkpointSnapshot_def
        stageCheckpoint_def sampleActor_def NewMarketActor_def zeroCheckpoint_def maxu_def sampleManager0_def NewMarketManager_def toSafeInt64_def
        failingSecond_def completeTarget_def completeCheckpoint_def setCheckpoint_def checkpointOf_def Let_def haltWrapper_def)
qed

end
