(* ===== verification/SettlementRepo.thy ===== *)
theory SettlementRepo
  imports PreparedPayload
begin

text \<open>
  The table of settlement submissions (\<open>settlement/submission_repo.go\<close>).  A row is a record; the table is
  the list of its rows in the order of insertion, with the match event id as primary key.  Each method is
  one SQL statement or one transaction, hence one step on the table.  A statement that reports an error may
  have taken effect or not; what the callers do then is in the theories that use the table.  \<open>NOW()\<close> is the argument \<open>now\<close>.  The JSON columns hold the values they encode.
\<close>

datatype MarketLaneStatus = LaneActive | LanePaused

datatype SubmissionStatus =
    StatusQueued | StatusPrepared | StatusSubmitted | StatusProcessed | StatusConfirmed | StatusFailed

record SubmissionRecord =
  sr_MatchEventID :: string
  sr_MarketID :: u64
  sr_MarketPDA :: string
  sr_Status :: SubmissionStatus
  sr_MarketLaneStatus :: MarketLaneStatus
  sr_MatchEvent :: MatchBatchEvent
  sr_PreparedPayload :: "preparedSubmissionPayload option"
  sr_Wallets :: "string list"
  sr_TxSignature :: string
  sr_RawTxBase64 :: string
  sr_LastValidBlockHeight :: i64
  sr_RetryCount :: int
  sr_ProcessedSlot :: i64
  sr_ConfirmationSlot :: i64
  sr_ReasonCode :: string
  sr_SubmittedEventPublished :: bool
  sr_TerminalEventPublished :: bool
  sr_PreparedAt :: "instant option"
  sr_ProcessedAt :: "instant option"
  sr_ConfirmedAt :: "instant option"
  sr_Version :: int
  sr_CreatedAt :: instant
  sr_UpdatedAt :: instant

type_synonym submissions = "SubmissionRecord list"

record queuedInsert =
  qi_MatchEventID :: string
  qi_MarketID :: u64
  qi_MarketPDA :: string
  qi_MatchEvent :: MatchBatchEvent
  qi_Wallets :: "string list"
  qi_MarketLaneStatus :: MarketLaneStatus

section \<open>Insertion and lookups\<close>

definition rowOfInsert :: "instant \<Rightarrow> queuedInsert \<Rightarrow> SubmissionRecord" where
  "rowOfInsert now q = \<lparr>sr_MatchEventID = qi_MatchEventID q, sr_MarketID = qi_MarketID q, sr_MarketPDA = qi_MarketPDA q,
     sr_Status = StatusQueued, sr_MarketLaneStatus = qi_MarketLaneStatus q, sr_MatchEvent = qi_MatchEvent q,
     sr_PreparedPayload = None, sr_Wallets = qi_Wallets q, sr_TxSignature = [], sr_RawTxBase64 = [],
     sr_LastValidBlockHeight = 0, sr_RetryCount = 0, sr_ProcessedSlot = 0, sr_ConfirmationSlot = 0, sr_ReasonCode = [],
     sr_SubmittedEventPublished = False, sr_TerminalEventPublished = False, sr_PreparedAt = None, sr_ProcessedAt = None,
     sr_ConfirmedAt = None, sr_Version = 1, sr_CreatedAt = now, sr_UpdatedAt = now\<rparr>"

definition hasRow :: "submissions \<Rightarrow> string \<Rightarrow> bool" where
  "hasRow t i \<longleftrightarrow> i \<in> sr_MatchEventID ` set t"

fun UpsertQueuedBatch :: "instant \<Rightarrow> queuedInsert list \<Rightarrow> submissions \<Rightarrow> bool list \<times> submissions" where
  "UpsertQueuedBatch now [] t = ([], t)"
| "UpsertQueuedBatch now (q # qs) t =
     (if hasRow t (qi_MatchEventID q) then (let (ins, t) = UpsertQueuedBatch now qs t in (False # ins, t))
      else (let (ins, t) = UpsertQueuedBatch now qs (t @ [rowOfInsert now q]) in (True # ins, t)))"

text \<open>Reading a row: a height or slot that is not positive reads as 0.\<close>

definition scanSubmissionRecord :: "SubmissionRecord \<Rightarrow> SubmissionRecord" where
  "scanSubmissionRecord r = (let pos = (\<lambda>x :: i64. if 0 <s x then x else 0) in
     r\<lparr>sr_LastValidBlockHeight := pos (sr_LastValidBlockHeight r), sr_ProcessedSlot := pos (sr_ProcessedSlot r),
       sr_ConfirmationSlot := pos (sr_ConfirmationSlot r)\<rparr>)"

definition collectSubmissionRecords :: "SubmissionRecord list \<Rightarrow> SubmissionRecord list" where
  "collectSubmissionRecords rows = map scanSubmissionRecord rows"

text \<open>\<open>ORDER BY created_at LIMIT 1\<close>; among equal times the database may return any, the model the first.\<close>

definition firstCreated :: "submissions \<Rightarrow> SubmissionRecord option" where
  "firstCreated t = (case sort_key sr_CreatedAt t of [] \<Rightarrow> None | r # _ \<Rightarrow> Some (scanSubmissionRecord r))"

definition LoadNextQueuedByMarket :: "submissions \<Rightarrow> u64 \<Rightarrow> SubmissionRecord option" where
  "LoadNextQueuedByMarket t marketID =
     firstCreated (filter (\<lambda>r. sr_MarketID r = marketID \<and> sr_Status r = StatusQueued \<and> sr_MarketLaneStatus r = LaneActive) t)"

definition LoadNextPreparedByMarket :: "submissions \<Rightarrow> u64 \<Rightarrow> SubmissionRecord option" where
  "LoadNextPreparedByMarket t marketID =
     firstCreated (filter (\<lambda>r. sr_MarketID r = marketID \<and> sr_Status r = StatusPrepared \<and> sr_MarketLaneStatus r = LaneActive) t)"

definition LoadByMatchEventID :: "submissions \<Rightarrow> string \<Rightarrow> SubmissionRecord option" where
  "LoadByMatchEventID t matchEventID =
     map_option scanSubmissionRecord (find (\<lambda>r. sr_MatchEventID r = TrimSpace matchEventID) t)"

definition ListSubmitted :: "submissions \<Rightarrow> SubmissionRecord list" where
  "ListSubmitted t = collectSubmissionRecords (sort_key sr_CreatedAt (filter (\<lambda>r. sr_Status r = StatusSubmitted) t))"

definition ListProcessed :: "submissions \<Rightarrow> int \<Rightarrow> SubmissionRecord list" where
  "ListProcessed t limit =
     (let limit = (if limit \<le> 0 then 200 else limit)
      in collectSubmissionRecords (take (nat limit)
           (sort_key (\<lambda>r. case sr_ProcessedAt r of Some p \<Rightarrow> p | None \<Rightarrow> sr_UpdatedAt r) (filter (\<lambda>r. sr_Status r = StatusProcessed) t))))"

definition ListUnpublishedSubmitted :: "submissions \<Rightarrow> SubmissionRecord list" where
  "ListUnpublishedSubmitted t = collectSubmissionRecords (sort_key sr_CreatedAt
     (filter (\<lambda>r. sr_Status r = StatusSubmitted \<and> \<not> sr_SubmittedEventPublished r) t))"

definition ListUnpublishedTerminal :: "submissions \<Rightarrow> SubmissionRecord list" where
  "ListUnpublishedTerminal t = collectSubmissionRecords (sort_key sr_UpdatedAt (sort_key sr_CreatedAt
     (filter (\<lambda>r. (sr_Status r = StatusConfirmed \<or> sr_Status r = StatusFailed) \<and> \<not> sr_TerminalEventPublished r) t)))"

definition ListQueuedMarketIDs :: "submissions \<Rightarrow> u64 list" where
  "ListQueuedMarketIDs t = remdups (map sr_MarketID (filter (\<lambda>r. sr_Status r = StatusQueued \<and> sr_MarketLaneStatus r = LaneActive) t))"

definition ListPreparedMarketIDs :: "submissions \<Rightarrow> u64 list" where
  "ListPreparedMarketIDs t = remdups (map sr_MarketID (filter (\<lambda>r. sr_Status r = StatusPrepared \<and> sr_MarketLaneStatus r = LaneActive) t))"

definition ListPausedMarketIDs :: "submissions \<Rightarrow> u64 list" where
  "ListPausedMarketIDs t = remdups (map sr_MarketID (filter (\<lambda>r. sr_MarketLaneStatus r = LanePaused) t))"

section \<open>Updates\<close>

text \<open>An \<open>UPDATE\<close> with its \<open>WHERE\<close> condition: the rows affected and the new table.\<close>

definition updateWhere :: "(SubmissionRecord \<Rightarrow> bool) \<Rightarrow> (SubmissionRecord \<Rightarrow> SubmissionRecord) \<Rightarrow> submissions \<Rightarrow> nat \<times> submissions" where
  "updateWhere P f t = (length (filter P t), map (\<lambda>r. if P r then f r else r) t)"

definition touch :: "instant \<Rightarrow> SubmissionRecord \<Rightarrow> SubmissionRecord" where
  "touch now r = r\<lparr>sr_Version := sr_Version r + 1, sr_UpdatedAt := now\<rparr>"

definition casUpdate :: "(SubmissionRecord \<Rightarrow> bool) \<Rightarrow> (SubmissionRecord \<Rightarrow> SubmissionRecord) \<Rightarrow> submissions \<Rightarrow> bool \<times> submissions" where
  "casUpdate P f t = (let (n, t) = updateWhere P f t in (n = 1, t))"

definition MarkSubmittedCAS ::
  "instant \<Rightarrow> string \<Rightarrow> string \<Rightarrow> string \<Rightarrow> u64 \<Rightarrow> submissions \<Rightarrow> bool \<times> submissions" where
  "MarkSubmittedCAS now matchEventID txSignature rawTx lastValidBlockHeight =
     casUpdate (\<lambda>r. sr_MatchEventID r = TrimSpace matchEventID \<and> sr_Status r = StatusPrepared \<and> sr_MarketLaneStatus r = LaneActive)
       (\<lambda>r. touch now (r\<lparr>sr_TxSignature := TrimSpace txSignature, sr_RawTxBase64 := TrimSpace rawTx,
          sr_LastValidBlockHeight := lastValidBlockHeight, sr_Status := StatusSubmitted\<rparr>))"

definition MarkPreparedCAS :: "instant \<Rightarrow> string \<Rightarrow> preparedSubmissionPayload \<Rightarrow> submissions \<Rightarrow> bool \<times> submissions" where
  "MarkPreparedCAS now matchEventID payload =
     casUpdate (\<lambda>r. sr_MatchEventID r = TrimSpace matchEventID \<and> sr_Status r = StatusQueued \<and> sr_MarketLaneStatus r = LaneActive)
       (\<lambda>r. touch now (r\<lparr>sr_PreparedPayload := Some payload, sr_Status := StatusPrepared, sr_PreparedAt := Some now\<rparr>))"

definition MarkSubmittedEventPublished :: "instant \<Rightarrow> string \<Rightarrow> submissions \<Rightarrow> submissions" where
  "MarkSubmittedEventPublished now matchEventID t =
     snd (updateWhere (\<lambda>r. sr_MatchEventID r = TrimSpace matchEventID) (\<lambda>r. touch now (r\<lparr>sr_SubmittedEventPublished := True\<rparr>)) t)"

definition MarkConfirmedCAS :: "instant \<Rightarrow> string \<Rightarrow> string \<Rightarrow> u64 \<Rightarrow> submissions \<Rightarrow> bool \<times> submissions" where
  "MarkConfirmedCAS now matchEventID txSignature slot =
     casUpdate (\<lambda>r. sr_MatchEventID r = TrimSpace matchEventID \<and> sr_Status r = StatusProcessed \<and> sr_TxSignature r = TrimSpace txSignature)
       (\<lambda>r. touch now (r\<lparr>sr_Status := StatusConfirmed, sr_ConfirmationSlot := slot, sr_ConfirmedAt := Some now\<rparr>))"

definition MarkProcessedCAS :: "instant \<Rightarrow> string \<Rightarrow> string \<Rightarrow> u64 \<Rightarrow> submissions \<Rightarrow> bool \<times> submissions" where
  "MarkProcessedCAS now matchEventID txSignature slot =
     casUpdate (\<lambda>r. sr_MatchEventID r = TrimSpace matchEventID \<and> sr_Status r = StatusSubmitted \<and> sr_TxSignature r = TrimSpace txSignature)
       (\<lambda>r. touch now (r\<lparr>sr_Status := StatusProcessed, sr_ProcessedSlot := slot, sr_ProcessedAt := Some now\<rparr>))"

definition ReplaceSignatureCAS ::
  "instant \<Rightarrow> string \<Rightarrow> string \<Rightarrow> string \<Rightarrow> string \<Rightarrow> u64 \<Rightarrow> submissions \<Rightarrow> bool \<times> submissions" where
  "ReplaceSignatureCAS now matchEventID oldSignature newSignature rawTx lastValidBlockHeight =
     casUpdate (\<lambda>r. sr_MatchEventID r = TrimSpace matchEventID \<and> sr_Status r = StatusSubmitted \<and> sr_TxSignature r = TrimSpace oldSignature)
       (\<lambda>r. touch now (r\<lparr>sr_TxSignature := TrimSpace newSignature, sr_RawTxBase64 := TrimSpace rawTx,
          sr_LastValidBlockHeight := lastValidBlockHeight, sr_RetryCount := sr_RetryCount r + 1\<rparr>))"

definition MarkTerminalEventPublished :: "instant \<Rightarrow> string \<Rightarrow> submissions \<Rightarrow> submissions" where
  "MarkTerminalEventPublished now matchEventID t =
     snd (updateWhere (\<lambda>r. sr_MatchEventID r = TrimSpace matchEventID) (\<lambda>r. touch now (r\<lparr>sr_TerminalEventPublished := True\<rparr>)) t)"

text \<open>The two failure transactions: fail one row, then pause the waiting rows of its market.  \<open>None\<close> stands
  for no row matching, \<open>Some\<close> gives the market.\<close>

definition failRow :: "instant \<Rightarrow> (SubmissionRecord \<Rightarrow> bool) \<Rightarrow> string \<Rightarrow> submissions \<Rightarrow> u64 option \<times> submissions" where
  "failRow now P reasonCode t =
     (case find P t of
        None \<Rightarrow> (None, t)
      | Some r \<Rightarrow>
          (let t = snd (updateWhere P (\<lambda>r. touch now (r\<lparr>sr_Status := StatusFailed, sr_MarketLaneStatus := LanePaused,
                          sr_ReasonCode := TrimSpace reasonCode\<rparr>)) t);
               t = snd (updateWhere (\<lambda>q. sr_MarketID q = sr_MarketID r \<and> (sr_Status q = StatusQueued \<or> sr_Status q = StatusPrepared) \<and>
                          sr_MarketLaneStatus q = LaneActive) (\<lambda>q. touch now (q\<lparr>sr_MarketLaneStatus := LanePaused\<rparr>)) t)
           in (Some (sr_MarketID r), t)))"

definition MarkFailedBeforeSubmitAndPauseQueued :: "instant \<Rightarrow> string \<Rightarrow> string \<Rightarrow> submissions \<Rightarrow> u64 option \<times> submissions" where
  "MarkFailedBeforeSubmitAndPauseQueued now matchEventID reasonCode =
     failRow now (\<lambda>r. sr_MatchEventID r = TrimSpace matchEventID \<and> (sr_Status r = StatusQueued \<or> sr_Status r = StatusPrepared)) reasonCode"

definition MarkFailedAndPauseQueued :: "instant \<Rightarrow> string \<Rightarrow> string \<Rightarrow> string \<Rightarrow> submissions \<Rightarrow> u64 option \<times> submissions" where
  "MarkFailedAndPauseQueued now matchEventID txSignature reasonCode =
     failRow now (\<lambda>r. sr_MatchEventID r = TrimSpace matchEventID \<and> (sr_Status r = StatusSubmitted \<or> sr_Status r = StatusProcessed) \<and>
       sr_TxSignature r = TrimSpace txSignature) reasonCode"

text \<open>The wallets of an event, each once, in the order they appear.\<close>

fun walletsOfOrders :: "string set \<Rightarrow> MatchedOrder list \<Rightarrow> string list" where
  "walletsOfOrders seen [] = []"
| "walletsOfOrders seen (o1 # os) =
     (let wallet = TrimSpace (x_WalletAddress (m_Execution o1)) in
      if wallet = [] \<or> wallet \<in> seen then walletsOfOrders seen os
      else wallet # walletsOfOrders (insert wallet seen) os)"

definition walletsForSubmissionEvent :: "MatchBatchEvent \<Rightarrow> string list" where
  "walletsForSubmissionEvent ev = walletsOfOrders {} (ev_Orders ev)"

section \<open>Rows only move forward\<close>

fun rank :: "SubmissionStatus \<Rightarrow> nat" where
  "rank StatusQueued = 0" | "rank StatusPrepared = 1" | "rank StatusSubmitted = 2" | "rank StatusProcessed = 3"
| "rank StatusConfirmed = 4" | "rank StatusFailed = 4"

definition terminal :: "SubmissionStatus \<Rightarrow> bool" where
  "terminal s \<longleftrightarrow> s = StatusConfirmed \<or> s = StatusFailed"

text \<open>The lifecycle of a row: one step forward, or a failure from any status before the end.\<close>

definition lifecycle :: "SubmissionStatus \<Rightarrow> SubmissionStatus \<Rightarrow> bool" where
  "lifecycle s s' \<longleftrightarrow> s' = s \<or> (rank s' = Suc (rank s) \<and> s' \<noteq> StatusFailed) \<or> (s' = StatusFailed \<and> \<not> terminal s)"

text \<open>A row keeps its identity and its event, its version grows with every change, and neither a published
  flag nor a pause is taken back.\<close>

definition follows :: "SubmissionRecord \<Rightarrow> SubmissionRecord \<Rightarrow> bool" where
  "follows r r' \<longleftrightarrow> sr_MatchEventID r' = sr_MatchEventID r \<and> sr_MarketID r' = sr_MarketID r \<and> sr_MatchEvent r' = sr_MatchEvent r \<and>
     lifecycle (sr_Status r) (sr_Status r') \<and> (r' = r \<or> sr_Version r < sr_Version r') \<and>
     (sr_SubmittedEventPublished r \<longrightarrow> sr_SubmittedEventPublished r') \<and>
     (sr_TerminalEventPublished r \<longrightarrow> sr_TerminalEventPublished r') \<and>
     (sr_MarketLaneStatus r = LanePaused \<longrightarrow> sr_MarketLaneStatus r' = LanePaused) \<and>
     (sr_PreparedPayload r \<noteq> None \<and> sr_Status r \<noteq> StatusQueued \<longrightarrow> sr_PreparedPayload r' = sr_PreparedPayload r)"

definition rowOf :: "submissions \<Rightarrow> string \<Rightarrow> SubmissionRecord option" where
  "rowOf t i = find (\<lambda>r. sr_MatchEventID r = i) t"

definition insert_ok :: "queuedInsert \<Rightarrow> bool" where
  "insert_ok q \<longleftrightarrow> qi_MatchEventID q \<noteq> [] \<and> TrimSpace (qi_MatchEventID q) = qi_MatchEventID q \<and> ev_MarketID (qi_MatchEvent q) = qi_MarketID q"

text \<open>The statements of the service as steps.  \<open>good\<close> says which payload is written for an event.\<close>

inductive quietStep :: "(MatchBatchEvent \<Rightarrow> preparedSubmissionPayload \<Rightarrow> bool) \<Rightarrow> submissions \<Rightarrow> submissions \<Rightarrow> bool" for good where
  queue: "\<forall>q \<in> set qs. insert_ok q \<Longrightarrow> quietStep good t (snd (UpsertQueuedBatch now qs t))"
| prepared: "rowOf t i = Some r \<Longrightarrow> TrimSpace i = i \<Longrightarrow> good (sr_MatchEvent r) payload \<Longrightarrow> quietStep good t (snd (MarkPreparedCAS now i payload t))"
| submittedPublished: "quietStep good t (MarkSubmittedEventPublished now i t)"
| replaced: "quietStep good t (snd (ReplaceSignatureCAS now i old new raw h t))"
| processed: "quietStep good t (snd (MarkProcessedCAS now i sig slot t))"
| confirmed: "quietStep good t (snd (MarkConfirmedCAS now i sig slot t))"
| failedEarly: "quietStep good t (snd (MarkFailedBeforeSubmitAndPauseQueued now i why t))"
| failed: "quietStep good t (snd (MarkFailedAndPauseQueued now i sig why t))"
| terminalPublished: "quietStep good t (MarkTerminalEventPublished now i t)"

inductive repoStep :: "(MatchBatchEvent \<Rightarrow> preparedSubmissionPayload \<Rightarrow> bool) \<Rightarrow> submissions \<Rightarrow> submissions \<Rightarrow> bool" for good where
  quietly: "quietStep good t t' \<Longrightarrow> repoStep good t t'"
| submitted: "repoStep good t (snd (MarkSubmittedCAS now i sig raw h t))"

lemma follows_refl [simp]: "follows r r"
  by (simp add: follows_def lifecycle_def)

lemma rowOf_id: "rowOf t i = Some r \<Longrightarrow> sr_MatchEventID r = i"
  by (auto simp: rowOf_def find_Some_iff)

lemma rowOf_in: "rowOf t i = Some r \<Longrightarrow> r \<in> set t"
  by (auto simp: rowOf_def find_Some_iff)

lemma rowOf_map:
  assumes "\<And>r. sr_MatchEventID (g r) = sr_MatchEventID r"
  shows "rowOf (map g t) i = map_option g (rowOf t i)"
  using assms by (induction t) (auto simp: rowOf_def)

lemma rowOf_append: "rowOf (t @ u) i = (case rowOf t i of Some r \<Rightarrow> Some r | None \<Rightarrow> rowOf u i)"
  by (induction t) (auto simp: rowOf_def)

lemma rowOf_None: "rowOf t i = None \<longleftrightarrow> \<not> hasRow t i"
  by (auto simp: rowOf_def hasRow_def find_None_iff)

text \<open>An update by a condition, as a map over the rows.\<close>

definition changes :: "(SubmissionRecord \<Rightarrow> SubmissionRecord) \<Rightarrow> bool" where
  "changes g \<longleftrightarrow> (\<forall>r. follows r (g r))"

lemma changes_cond:
  assumes "\<And>r. P r \<Longrightarrow> follows r (f r)" shows "changes (\<lambda>r. if P r then f r else r)"
  using assms by (simp add: changes_def)

lemma rowOf_changes: "changes g \<Longrightarrow> rowOf (map g t) i = map_option g (rowOf t i)"
  by (rule rowOf_map) (simp add: changes_def follows_def)

definition evolves :: "submissions \<Rightarrow> submissions \<Rightarrow> bool" where
  "evolves t t' \<longleftrightarrow> (\<forall>i r. rowOf t i = Some r \<longrightarrow> (\<exists>r'. rowOf t' i = Some r' \<and> follows r r'))"

lemma changes_evolves: "changes g \<Longrightarrow> evolves t (map g t)"
  by (auto simp: evolves_def rowOf_changes) (auto simp: changes_def)

lemma cas_evolves: "(\<And>r. P r \<Longrightarrow> follows r (f r)) \<Longrightarrow> evolves t (snd (casUpdate P f t))"
  by (simp add: casUpdate_def updateWhere_def changes_evolves changes_cond)

lemma upsert_rows: "rowOf t i = Some r \<Longrightarrow> rowOf (snd (UpsertQueuedBatch now qs t)) i = Some r"
  by (induction now qs t rule: UpsertQueuedBatch.induct) (auto simp: case_prod_beta rowOf_append)

lemmas cas_defs = MarkPreparedCAS_def MarkSubmittedCAS_def ReplaceSignatureCAS_def MarkProcessedCAS_def MarkConfirmedCAS_def
lemmas fail_defs = MarkFailedBeforeSubmitAndPauseQueued_def MarkFailedAndPauseQueued_def

lemma follows_touch:
  "sr_MatchEventID r' = sr_MatchEventID r \<Longrightarrow> sr_MarketID r' = sr_MarketID r \<Longrightarrow> sr_MatchEvent r' = sr_MatchEvent r \<Longrightarrow>
   sr_Version r' = sr_Version r \<Longrightarrow> lifecycle (sr_Status r) (sr_Status r') \<Longrightarrow>
   (sr_SubmittedEventPublished r \<longrightarrow> sr_SubmittedEventPublished r') \<Longrightarrow>
   (sr_TerminalEventPublished r \<longrightarrow> sr_TerminalEventPublished r') \<Longrightarrow>
   (sr_MarketLaneStatus r = LanePaused \<longrightarrow> sr_MarketLaneStatus r' = LanePaused) \<Longrightarrow>
   (sr_Status r \<noteq> StatusQueued \<longrightarrow> sr_PreparedPayload r' = sr_PreparedPayload r) \<Longrightarrow> follows r (touch now r')"
  by (simp add: follows_def touch_def)

lemma failRow_evolves:
  assumes "\<And>r. P r \<Longrightarrow> \<not> terminal (sr_Status r)"
  shows "evolves t (snd (failRow now P why t)) \<and> (\<exists>g. changes g \<and> snd (failRow now P why t) = map g t)"
proof (cases "find P t")
  case (Some q)
  let ?f = "\<lambda>r. if P r then touch now (r\<lparr>sr_Status := StatusFailed, sr_MarketLaneStatus := LanePaused, sr_ReasonCode := TrimSpace why\<rparr>) else r"
  let ?g = "\<lambda>p. if sr_MarketID p = sr_MarketID q \<and> (sr_Status p = StatusQueued \<or> sr_Status p = StatusPrepared) \<and> sr_MarketLaneStatus p = LaneActive
    then touch now (p\<lparr>sr_MarketLaneStatus := LanePaused\<rparr>) else p"
  define h where "h = (\<lambda>r. ?g (?f r))"
  have e: "snd (failRow now P why t) = map h t"
    by (simp add: failRow_def Some updateWhere_def h_def)
  have "follows r (?g (?f r))" for r
  proof (cases "P r")
    case True
    have "follows r (touch now (r\<lparr>sr_Status := StatusFailed, sr_MarketLaneStatus := LanePaused, sr_ReasonCode := TrimSpace why\<rparr>))"
      by (rule follows_touch) (simp_all add: lifecycle_def assms [OF True])
    then show ?thesis using True by (simp add: touch_def)
  next
    case False
    then show ?thesis by (auto intro: follows_touch simp: lifecycle_def)
  qed
  then have "changes h" unfolding changes_def h_def by (rule allI)
  with e show ?thesis using changes_evolves by metis
qed (auto simp: failRow_def evolves_def changes_def intro: exI [of _ "\<lambda>r. r"])

lemma quietStep_evolves: "quietStep good t t' \<Longrightarrow> evolves t t'"
proof (induction rule: quietStep.induct)
  case (queue qs t now)
  then show ?case using upsert_rows by (auto simp: evolves_def)
next
  case (failedEarly t now i why)
  show ?case unfolding fail_defs by (rule failRow_evolves [THEN conjunct1]) (auto simp: terminal_def)
next
  case (failed t now i sig why)
  show ?case unfolding fail_defs by (rule failRow_evolves [THEN conjunct1]) (auto simp: terminal_def)
next
  case (submittedPublished t now i)
  show ?case unfolding MarkSubmittedEventPublished_def updateWhere_def snd_conv
    by (intro changes_evolves changes_cond follows_touch) (simp_all add: lifecycle_def)
next
  case (terminalPublished t now i)
  show ?case unfolding MarkTerminalEventPublished_def updateWhere_def snd_conv
    by (intro changes_evolves changes_cond follows_touch) (simp_all add: lifecycle_def)
qed (unfold cas_defs; rule cas_evolves; rule follows_touch; simp add: lifecycle_def)+

lemma repoStep_evolves: "repoStep good t t' \<Longrightarrow> evolves t t'"
proof (induction rule: repoStep.induct)
  case (submitted t now i sig raw h)
  show ?case unfolding cas_defs by (rule cas_evolves; rule follows_touch; simp add: lifecycle_def)
qed (rule quietStep_evolves)

end
