(* ===== verification/SettlementService.thy ===== *)
theory SettlementService
  imports SettlementRepo "HOL-Library.Char_ord" "HOL-Library.List_Lexorder"
begin

text \<open>
  The settlement service (\<open>settlement/service.go\<close>): ingress of match batches, the prepare worker, the
  scheduler with one lane per market, submission, watching, confirmation and failure of transactions, the
  reconciler and the republication of events.

  Outside the repository are the message bus, Postgres and the Solana RPC node.  Their answers are
  arguments: whether a publication or statement succeeded, the blockhash, the signed transaction, the
  status of a signature.  \<open>solana-go\<close> assembles and signs, so \<open>signed\<close> is an answer too.
\<close>

section \<open>State\<close>

record marketLane =
  ln_Paused :: bool
  CurrentMatchEventID :: string

definition newLane :: marketLane where "newLane = \<lparr>ln_Paused = False, CurrentMatchEventID = []\<rparr>"

record SettlementState =
  rows :: submissions
  lanes :: "u64 \<rightharpoonup> marketLane"
  dirtyMarkets :: "u64 set"
  prepareDirty :: "u64 set"
  prepareTimers :: "u64 set"
  watchCancels :: "string set"
  s_registry :: UserPositionRegistry
  s_orderRegistry :: OrderStateRegistry
  s_estimates :: estimateCache

text \<open>The fixed parts of a service: key text, program, address search, transaction assembly, byte limit.\<close>

record SettlementEnv =
  env_parseKey :: "string \<Rightarrow> PublicKey option"
  env_showKey :: "PublicKey \<Rightarrow> string"
  env_programID :: PublicKey
  env_search :: pdaSearch
  env_assemble :: assembler
  env_maxTxBytes :: int

record SettlementSubmittedEvent =
  ss_EventID :: string
  ss_SchemaVersion :: int
  ss_MatchEventID :: string
  ss_MarketID :: u64
  ss_MarketPDA :: string
  ss_TxSignature :: string
  ss_RetryCount :: int
  ss_LastValidBlockHeight :: u64
  ss_Wallets :: "string list"
  ss_SubmittedAt :: unixtime

record SettlementConfirmedEvent =
  sc_EventID :: string
  sc_SchemaVersion :: int
  sc_MatchEventID :: string
  sc_MarketID :: u64
  sc_MarketPDA :: string
  sc_TxSignature :: string
  sc_SettlementTxSignature :: string
  sc_RetryCount :: int
  sc_Slot :: u64
  sc_Wallets :: "string list"
  sc_ConfirmedAt :: unixtime

record SettlementFailedEvent =
  sf_EventID :: string
  sf_SchemaVersion :: int
  sf_MatchEventID :: string
  sf_MarketID :: u64
  sf_MarketPDA :: string
  sf_TxSignature :: string
  sf_RetryCount :: int
  sf_ReasonCode :: string
  sf_Wallets :: "string list"
  sf_FailedAt :: unixtime

datatype SettlementOutput =
    PublishSubmitted SettlementSubmittedEvent
  | PublishConfirmed SettlementConfirmedEvent
  | PublishFailed SettlementFailedEvent
  | BroadcastTx string
  | SettlementAck natsMsg
  | SettlementNak natsMsg
  | SettlementTerm natsMsg

definition settlementSchemaNumber :: int where "settlementSchemaNumber = 1"

definition sortedWallets :: "string list \<Rightarrow> string list" where
  "sortedWallets wallets = sort (remdups (filter (\<lambda>w. w \<noteq> []) (map TrimSpace wallets)))"

section \<open>Lanes and dirty sets\<close>

definition laneOf :: "SettlementState \<Rightarrow> u64 \<Rightarrow> marketLane" where
  "laneOf st marketID = (case lanes st marketID of None \<Rightarrow> newLane | Some lane \<Rightarrow> lane)"

definition putLane :: "u64 \<Rightarrow> marketLane \<Rightarrow> SettlementState \<Rightarrow> SettlementState" where
  "putLane marketID lane st = st\<lparr>lanes := (lanes st)(marketID \<mapsto> lane)\<rparr>"

definition isLanePaused :: "SettlementState \<Rightarrow> u64 \<Rightarrow> bool" where
  "isLanePaused st marketID = (case lanes st marketID of None \<Rightarrow> False | Some lane \<Rightarrow> ln_Paused lane)"

definition markDirty :: "u64 \<Rightarrow> SettlementState \<Rightarrow> SettlementState" where
  "markDirty marketID st = st\<lparr>dirtyMarkets := insert marketID (dirtyMarkets st)\<rparr>"

definition markPrepareDirty :: "u64 \<Rightarrow> SettlementState \<Rightarrow> SettlementState" where
  "markPrepareDirty marketID st = st\<lparr>prepareDirty := insert marketID (prepareDirty st)\<rparr>"

definition drainDirtyMarkets :: "SettlementState \<Rightarrow> u64 list \<times> SettlementState" where
  "drainDirtyMarkets st = (sorted_list_of_set (dirtyMarkets st), st\<lparr>dirtyMarkets := {}\<rparr>)"

definition drainPrepareDirtyMarkets :: "SettlementState \<Rightarrow> u64 list \<times> SettlementState" where
  "drainPrepareDirtyMarkets st = (sorted_list_of_set (prepareDirty st), st\<lparr>prepareDirty := {}\<rparr>)"

text \<open>A retry starts a timer, and the timer marks the market.\<close>

definition schedulePrepareRetry :: "u64 \<Rightarrow> SettlementState \<Rightarrow> SettlementState" where
  "schedulePrepareRetry marketID st = st\<lparr>prepareTimers := insert marketID (prepareTimers st)\<rparr>"

definition prepareTimerFires :: "u64 \<Rightarrow> SettlementState \<Rightarrow> SettlementState" where
  "prepareTimerFires marketID st = markPrepareDirty marketID (st\<lparr>prepareTimers := prepareTimers st - {marketID}\<rparr>)"

text \<open>The lanes hold different event ids, so at most one lane matches; the model updates every match.\<close>

definition releaseLaneByMatchEvent :: "string \<Rightarrow> bool \<Rightarrow> SettlementState \<Rightarrow> SettlementState" where
  "releaseLaneByMatchEvent matchEventID paused st =
     st\<lparr>lanes := (\<lambda>k. map_option (\<lambda>lane. if CurrentMatchEventID lane \<noteq> matchEventID then lane
        else lane\<lparr>CurrentMatchEventID := [], ln_Paused := ln_Paused lane \<or> paused\<rparr>) (lanes st k))\<rparr>"

definition releaseLane :: "u64 \<Rightarrow> bool \<Rightarrow> bool \<Rightarrow> SettlementState \<Rightarrow> SettlementState" where
  "releaseLane marketID paused requeue st =
     (let st = putLane marketID ((laneOf st marketID)\<lparr>CurrentMatchEventID := [], ln_Paused := paused\<rparr>) st
      in if requeue then markDirty marketID st else st)"

definition pauseLane :: "u64 \<Rightarrow> SettlementState \<Rightarrow> SettlementState" where
  "pauseLane marketID st = putLane marketID ((laneOf st marketID)\<lparr>ln_Paused := True\<rparr>) st"

section \<open>Publishing\<close>

definition submittedEvent :: "instant \<Rightarrow> SubmissionRecord \<Rightarrow> SettlementSubmittedEvent" where
  "submittedEvent now r = \<lparr>ss_EventID = ''settlement-submitted:'' @ sr_MatchEventID r @ '':'' @ FormatInt10 (sr_RetryCount r),
     ss_SchemaVersion = settlementSchemaNumber, ss_MatchEventID = sr_MatchEventID r, ss_MarketID = sr_MarketID r,
     ss_MarketPDA = sr_MarketPDA r, ss_TxSignature = sr_TxSignature r, ss_RetryCount = sr_RetryCount r,
     ss_LastValidBlockHeight = sr_LastValidBlockHeight r, ss_Wallets = sortedWallets (sr_Wallets r), ss_SubmittedAt = unixOf now\<rparr>"

definition confirmedEvent :: "instant \<Rightarrow> SubmissionRecord \<Rightarrow> u64 \<Rightarrow> SettlementConfirmedEvent" where
  "confirmedEvent now r slot = \<lparr>sc_EventID = ''settlement-confirmed:'' @ sr_MatchEventID r,
     sc_SchemaVersion = settlementSchemaNumber, sc_MatchEventID = sr_MatchEventID r, sc_MarketID = sr_MarketID r,
     sc_MarketPDA = sr_MarketPDA r, sc_TxSignature = sr_TxSignature r, sc_SettlementTxSignature = sr_TxSignature r,
     sc_RetryCount = sr_RetryCount r, sc_Slot = slot, sc_Wallets = sortedWallets (sr_Wallets r), sc_ConfirmedAt = unixOf now\<rparr>"

definition failedEvent :: "instant \<Rightarrow> SubmissionRecord \<Rightarrow> SettlementFailedEvent" where
  "failedEvent now r = \<lparr>sf_EventID = ''settlement-failed:'' @ sr_MatchEventID r, sf_SchemaVersion = settlementSchemaNumber,
     sf_MatchEventID = sr_MatchEventID r, sf_MarketID = sr_MarketID r, sf_MarketPDA = sr_MarketPDA r,
     sf_TxSignature = sr_TxSignature r, sf_RetryCount = sr_RetryCount r, sf_ReasonCode = sr_ReasonCode r,
     sf_Wallets = sortedWallets (sr_Wallets r), sf_FailedAt = unixOf now\<rparr>"

text \<open>A publication that fails sends nothing.\<close>

definition publishSubmitted :: "bool \<Rightarrow> instant \<Rightarrow> SubmissionRecord \<Rightarrow> SettlementOutput list" where
  "publishSubmitted ok now r = (if ok then [PublishSubmitted (submittedEvent now r)] else [])"

definition publishConfirmed :: "bool \<Rightarrow> instant \<Rightarrow> SubmissionRecord \<Rightarrow> u64 \<Rightarrow> SettlementOutput list" where
  "publishConfirmed ok now r slot = (if ok then [PublishConfirmed (confirmedEvent now r slot)] else [])"

definition publishFailed :: "bool \<Rightarrow> instant \<Rightarrow> SubmissionRecord \<Rightarrow> SettlementOutput list" where
  "publishFailed ok now r = (if ok then [PublishFailed (failedEvent now r)] else [])"

section \<open>Ingress\<close>

definition eventIDOf :: "MatchBatchEvent \<Rightarrow> string" where
  "eventIDOf ev = (if TrimSpace (EventID ev) = []
     then ''match-batch-'' @ FormatUint10 (ev_MarketID ev) @ ''-'' @ FormatUint10 (SourceCmdSeqMax ev) @ ''-'' @ FormatInt10 (ProducedAt ev)
     else TrimSpace (EventID ev))"

definition insertOf :: "SettlementState \<Rightarrow> MatchBatchEvent \<Rightarrow> queuedInsert" where
  "insertOf st ev =
     (let i = eventIDOf ev; ev = (if TrimSpace (EventID ev) = [] then ev\<lparr>EventID := i\<rparr> else ev) in
      \<lparr>qi_MatchEventID = i, qi_MarketID = ev_MarketID ev, qi_MarketPDA = TrimSpace (ev_MarketPDA ev), qi_MatchEvent = ev,
       qi_Wallets = walletsForSubmissionEvent ev,
       qi_MarketLaneStatus = (if isLanePaused st (ev_MarketID ev) then LanePaused else LaneActive)\<rparr>)"

definition settleable :: "MatchBatchEvent option \<times> natsMsg \<Rightarrow> bool" where
  "settleable m = (case fst m of Some ev \<Rightarrow> Fills ev \<noteq> [] | None \<Rightarrow> False)"

text \<open>Messages that do not decode are terminated, batches without fills acknowledged; the rest are queued in
  one statement batch, whose failure returns them all.\<close>

definition markInserted :: "queuedInsert \<times> bool \<Rightarrow> SettlementState \<Rightarrow> SettlementState" where
  "markInserted p st = (if snd p \<and> qi_MarketLaneStatus (fst p) = LaneActive then markPrepareDirty (qi_MarketID (fst p)) st else st)"

definition handleFetchedMessages ::
  "instant \<Rightarrow> bool \<Rightarrow> (MatchBatchEvent option \<times> natsMsg) list \<Rightarrow> SettlementState \<Rightarrow> SettlementState \<times> SettlementOutput list" where
  "handleFetchedMessages now dbOk msgs st =
     (let early = concat (map (\<lambda>m. case fst m of None \<Rightarrow> [SettlementTerm (snd m)]
            | Some ev \<Rightarrow> if Fills ev = [] then [SettlementAck (snd m)] else []) msgs);
          valid = filter settleable msgs;
          inserts = map (\<lambda>m. insertOf st (the (fst m))) valid
      in if valid = [] then (st, early)
         else if \<not> dbOk then (st, early @ map (\<lambda>m. SettlementNak (snd m)) valid)
         else let (inserted, t) = UpsertQueuedBatch now inserts (rows st)
              in (fold markInserted (zip inserts inserted) (st\<lparr>rows := t\<rparr>), early @ map (\<lambda>m. SettlementAck (snd m)) valid))"

section \<open>Failure and success\<close>

definition publishFailedRow ::
  "bool \<Rightarrow> instant \<Rightarrow> string \<Rightarrow> SubmissionRecord \<Rightarrow> SettlementState \<Rightarrow> SettlementState \<times> SettlementOutput list" where
  "publishFailedRow ok now matchEventID r st =
     (if ok then st\<lparr>rows := MarkTerminalEventPublished now matchEventID (rows st)\<rparr> else st, publishFailed ok now r)"

text \<open>Failing a row has two parts with the event in between: the transaction in the database, then the lane.
  The first part gives the market, or \<open>None\<close> when the row was not in a failing status.\<close>

definition failMark ::
  "bool \<Rightarrow> instant \<Rightarrow> string \<Rightarrow> string \<Rightarrow> string \<Rightarrow> SettlementState \<Rightarrow> u64 option \<times> SettlementState \<times> SettlementOutput list" where
  "failMark pubOk now matchEventID txSignature reasonCode st =
     (case MarkFailedAndPauseQueued now matchEventID txSignature reasonCode (rows st) of
        (None, t) \<Rightarrow> (None, st, [])
      | (Some k, t) \<Rightarrow>
          (let st = st\<lparr>rows := t\<rparr> in
           case LoadByMatchEventID t matchEventID of
             None \<Rightarrow> (Some k, st, [])
           | Some r \<Rightarrow> (let (st, out) = publishFailedRow pubOk now matchEventID r st in (Some k, st, out))))"

definition failRelease :: "u64 \<Rightarrow> bool \<Rightarrow> SettlementState \<Rightarrow> SettlementState" where
  "failRelease marketID releaseCurrent st = (if releaseCurrent then releaseLane marketID True False st else pauseLane marketID st)"

definition failSubmission ::
  "bool \<Rightarrow> instant \<Rightarrow> string \<Rightarrow> u64 \<Rightarrow> string \<Rightarrow> string \<Rightarrow> bool \<Rightarrow> SettlementState \<Rightarrow> SettlementState \<times> SettlementOutput list" where
  "failSubmission pubOk now matchEventID marketID txSignature reasonCode releaseCurrent st =
     (case failMark pubOk now matchEventID txSignature reasonCode st of
        (None, st, out) \<Rightarrow> (st, out)
      | (Some k, st, out) \<Rightarrow> (failRelease (if k = 0 then marketID else k) releaseCurrent st, out))"

definition failBeforeSubmit ::
  "bool \<Rightarrow> instant \<Rightarrow> SubmissionRecord \<Rightarrow> string \<Rightarrow> SettlementState \<Rightarrow> SettlementState \<times> SettlementOutput list" where
  "failBeforeSubmit pubOk now record1 reasonCode st =
     (case MarkFailedBeforeSubmitAndPauseQueued now (sr_MatchEventID record1) reasonCode (rows st) of
        (None, t) \<Rightarrow> (st, [])
      | (Some k, t) \<Rightarrow>
          (let st = st\<lparr>rows := t\<rparr>;
               record1 = (case LoadByMatchEventID t (sr_MatchEventID record1) of None \<Rightarrow> record1 | Some r \<Rightarrow> r);
               (st, out) = publishFailedRow pubOk now (sr_MatchEventID record1) record1 st;
               st = pauseLane (if k = 0 then sr_MarketID record1 else k) st
           in (releaseLaneByMatchEvent (sr_MatchEventID record1) True st, out)))"

text \<open>What a processed transaction teaches the registries: the user positions and the order states of its
  batch.  A key that does not parse ends the loop; the rows written to Postgres are left out.\<close>

fun observeWallets :: "SettlementEnv \<Rightarrow> PublicKey \<Rightarrow> u64 \<Rightarrow> string list \<Rightarrow> UserPositionRegistry \<Rightarrow> UserPositionRegistry" where
  "observeWallets env marketPDA marketID [] reg = reg"
| "observeWallets env marketPDA marketID (w # ws) reg =
     (case env_parseKey env w of
        None \<Rightarrow> reg
      | Some k \<Rightarrow>
          (case DeriveUserPositionPDA (env_search env) (env_programID env) k marketPDA of
             None \<Rightarrow> reg
           | Some pda \<Rightarrow> observeWallets env marketPDA marketID ws (reg\<lparr>positionExists := insert (marketID, w) (positionExists reg)\<rparr>)))"

definition persistObservedUserPositions :: "SettlementEnv \<Rightarrow> SubmissionRecord \<Rightarrow> UserPositionRegistry \<Rightarrow> UserPositionRegistry" where
  "persistObservedUserPositions env r reg =
     (if sr_Wallets r = [] then reg
      else case env_parseKey env (sr_MarketPDA r) of
        None \<Rightarrow> reg
      | Some marketPDA \<Rightarrow> observeWallets env marketPDA (sr_MarketID r) (sortedWallets (sr_Wallets r)) reg)"

fun observeOrders ::
  "SettlementEnv \<Rightarrow> PublicKey \<Rightarrow> u64 \<Rightarrow> (string \<times> u64) set \<Rightarrow> MatchedOrder list \<Rightarrow> OrderStateRegistry \<Rightarrow> OrderStateRegistry" where
  "observeOrders env marketPDA marketID seen [] reg = reg"
| "observeOrders env marketPDA marketID seen (o1 # os) reg =
     (let wallet = TrimSpace (x_WalletAddress (m_Execution o1)); nonce = x_Nonce (m_Execution o1) in
      if wallet = [] \<or> nonce = 0 \<or> (wallet, nonce) \<in> seen then observeOrders env marketPDA marketID seen os reg
      else case env_parseKey env wallet of
        None \<Rightarrow> reg
      | Some k \<Rightarrow>
          (case DeriveOrderStatePDA (env_search env) (env_programID env) k marketPDA nonce of
             None \<Rightarrow> reg
           | Some pda \<Rightarrow> observeOrders env marketPDA marketID (insert (wallet, nonce) seen) os (Settled_MarkExists reg (marketID, wallet, nonce))))"

definition persistObservedOrderStates :: "SettlementEnv \<Rightarrow> SubmissionRecord \<Rightarrow> OrderStateRegistry \<Rightarrow> OrderStateRegistry" where
  "persistObservedOrderStates env r reg =
     (case env_parseKey env (sr_MarketPDA r) of
        None \<Rightarrow> reg
      | Some marketPDA \<Rightarrow> observeOrders env marketPDA (sr_MarketID r) {} (ev_Orders (sr_MatchEvent r)) reg)"

definition observeProcessedEvidence :: "SettlementEnv \<Rightarrow> SubmissionRecord \<Rightarrow> SettlementState \<Rightarrow> SettlementState" where
  "observeProcessedEvidence env r st =
     st\<lparr>s_registry := persistObservedUserPositions env r (s_registry st),
        s_orderRegistry := persistObservedOrderStates env r (s_orderRegistry st)\<rparr>"

text \<open>Processing also has two parts: the mark with the evidence, then the release of the lane.\<close>

definition processMark :: "SettlementEnv \<Rightarrow> instant \<Rightarrow> SubmissionRecord \<Rightarrow> u64 \<Rightarrow> SettlementState \<Rightarrow> SubmissionRecord option \<times> SettlementState" where
  "processMark env now record1 slot st =
     (case MarkProcessedCAS now (sr_MatchEventID record1) (sr_TxSignature record1) slot (rows st) of
        (False, t) \<Rightarrow> (None, st)
      | (True, t) \<Rightarrow>
          (let st = st\<lparr>rows := t\<rparr>;
               record1 = (case LoadByMatchEventID t (sr_MatchEventID record1) of None \<Rightarrow> record1 | Some r \<Rightarrow> r)
           in (Some record1, observeProcessedEvidence env record1 st)))"

definition processRelease :: "u64 \<Rightarrow> SettlementState \<Rightarrow> SettlementState" where
  "processRelease marketID st =
     (let lane = laneOf st marketID; st = putLane marketID (lane\<lparr>CurrentMatchEventID := []\<rparr>) st
      in if ln_Paused lane then st else markDirty marketID st)"

definition processSubmission :: "SettlementEnv \<Rightarrow> instant \<Rightarrow> SubmissionRecord \<Rightarrow> u64 \<Rightarrow> SettlementState \<Rightarrow> SettlementState" where
  "processSubmission env now record1 slot st =
     (case processMark env now record1 slot st of
        (None, st) \<Rightarrow> st
      | (Some r, st) \<Rightarrow> processRelease (sr_MarketID r) st)"

definition confirmSubmission ::
  "bool \<Rightarrow> instant \<Rightarrow> SubmissionRecord \<Rightarrow> u64 \<Rightarrow> SettlementState \<Rightarrow> SettlementState \<times> SettlementOutput list" where
  "confirmSubmission pubOk now record1 slot st =
     (case MarkConfirmedCAS now (sr_MatchEventID record1) (sr_TxSignature record1) slot (rows st) of
        (False, t) \<Rightarrow> (st, [])
      | (True, t) \<Rightarrow>
          (let record1 = (case LoadByMatchEventID t (sr_MatchEventID record1) of None \<Rightarrow> record1 | Some r \<Rightarrow> r);
               t = (if pubOk then MarkTerminalEventPublished now (sr_MatchEventID record1) t else t)
           in (st\<lparr>rows := t\<rparr>, publishConfirmed pubOk now record1 slot)))"

section \<open>Preparing\<close>

definition enforceEstimatedTxBytes ::
  "SettlementEnv \<Rightarrow> bool \<Rightarrow> instant \<Rightarrow> SubmissionRecord \<Rightarrow> SubmissionBatch \<Rightarrow> SettlementState \<Rightarrow>
     estimate_error option \<times> SettlementState \<times> SettlementOutput list" where
  "enforceEstimatedTxBytes env pubOk now record1 batch st =
     (if env_maxTxBytes env \<le> 0 then (None, st, [])
      else case Estimate (env_assemble env) (settlementTxShapeForBatch batch) (s_estimates st) of
        (Inl e, cache) \<Rightarrow> (Some e, st\<lparr>s_estimates := cache\<rparr>, [])
      | (Inr estimate, cache) \<Rightarrow>
          if TransactionBytes estimate \<le> env_maxTxBytes env then (None, st\<lparr>s_estimates := cache\<rparr>, [])
          else (let (st, out) = failBeforeSubmit pubOk now record1 ''tx_bytes_exceeded'' (st\<lparr>s_estimates := cache\<rparr>) in (None, st, out)))"

definition prepareSubmission ::
  "SettlementEnv \<Rightarrow> bool \<Rightarrow> instant \<Rightarrow> SubmissionRecord \<Rightarrow> SettlementState \<Rightarrow> SettlementState \<times> SettlementOutput list" where
  "prepareSubmission env pubOk now record1 st =
     (let retry = schedulePrepareRetry (sr_MarketID record1) in
      case BuildSubmissionBatch (env_parseKey env) (env_programID env) (sr_MatchEvent record1) of
        Inl e \<Rightarrow> (retry st, [])
      | Inr batch \<Rightarrow>
          (let batch = applyWarmOrderStates (env_showKey env) (s_orderRegistry st) batch in
           case enforceEstimatedTxBytes env pubOk now record1 batch st of
             (Some e, st, out) \<Rightarrow> (retry st, out)
           | (None, st, out) \<Rightarrow>
               (case encodePreparedPayload (env_showKey env) batch of
                  Inl e \<Rightarrow> (retry st, out)
                | Inr payload \<Rightarrow>
                    (case MarkPreparedCAS now (sr_MatchEventID record1) payload (rows st) of
                       (False, t) \<Rightarrow> (st, out)
                     | (True, t) \<Rightarrow> (markPrepareDirty (sr_MarketID record1) (markDirty (sr_MarketID record1) (st\<lparr>rows := t\<rparr>)), out)))))"

fun prepareMarkets ::
  "SettlementEnv \<Rightarrow> bool \<Rightarrow> instant \<Rightarrow> u64 list \<Rightarrow> SettlementState \<Rightarrow> SettlementState \<times> SettlementOutput list" where
  "prepareMarkets env pubOk now [] st = (st, [])"
| "prepareMarkets env pubOk now (k # ks) st =
     (let (st, out) = (case LoadNextQueuedByMarket (rows st) k of None \<Rightarrow> (st, []) | Some r \<Rightarrow> prepareSubmission env pubOk now r st);
          (st, out2) = prepareMarkets env pubOk now ks st
      in (st, out @ out2))"

definition prepareDirtyMarkets ::
  "SettlementEnv \<Rightarrow> bool \<Rightarrow> instant \<Rightarrow> SettlementState \<Rightarrow> SettlementState \<times> SettlementOutput list" where
  "prepareDirtyMarkets env pubOk now st = (let (ks, st) = drainPrepareDirtyMarkets st in prepareMarkets env pubOk now ks st)"

section \<open>Scheduling and submitting\<close>

text \<open>The result names the event whose submission starts.\<close>

definition tryScheduleMarket :: "u64 \<Rightarrow> SettlementState \<Rightarrow> string option \<times> SettlementState" where
  "tryScheduleMarket marketID st =
     (let lane = laneOf st marketID; st = putLane marketID lane st in
      if ln_Paused lane \<or> CurrentMatchEventID lane \<noteq> [] then (None, st)
      else case LoadNextPreparedByMarket (rows st) marketID of
        None \<Rightarrow> (None, st)
      | Some r \<Rightarrow>
          (let lane = laneOf st (sr_MarketID r) in
           if ln_Paused lane \<or> CurrentMatchEventID lane \<noteq> [] then (None, st)
           else (Some (sr_MatchEventID r), putLane (sr_MarketID r) (lane\<lparr>CurrentMatchEventID := sr_MatchEventID r\<rparr>) st)))"

fun scheduleMarkets :: "u64 list \<Rightarrow> SettlementState \<Rightarrow> string list \<times> SettlementState" where
  "scheduleMarkets [] st = ([], st)"
| "scheduleMarkets (k # ks) st =
     (let (started, st) = tryScheduleMarket k st; (more, st) = scheduleMarkets ks st
      in ((case started of None \<Rightarrow> [] | Some i \<Rightarrow> [i]) @ more, st))"

definition processDirtyMarkets :: "SettlementState \<Rightarrow> string list \<times> SettlementState" where
  "processDirtyMarkets st = (let (ks, st) = drainDirtyMarkets st in scheduleMarkets ks st)"

definition isDeterministicSettlementError :: "string \<Rightarrow> bool" where
  "isDeterministicSettlementError err =
     (let msg = map toLowerChar err in
      \<exists>k \<in> set [''simulation failed'', ''instructionerror'', ''custom program error'', ''invalid account'',
                 ''accountownedbywrongprogram'', ''already in use'', ''program failed''].
        list_ex (\<lambda>n. HasPrefix (drop n msg) k) [0..<Suc (length msg)])"

text \<open>The answers a submission gets: the blockhash with its last valid height, the signed transaction with its
  text and wire size for a batch and a blockhash, the bus, the error of the broadcast, and what the service
  hears of its compare-and-set: the outcome, an error of a statement that was not done, or an error (a lost
  connection, an expired context) although the statement was committed.  \<open>loadOk\<close> tells whether the row can be read again.\<close>

datatype StatementReply = Reported | NotDone | DoneUnreported

record submitAnswers =
  blockhashAnswer :: "(bytes \<times> u64) option"
  signed :: "SubmissionBatch \<Rightarrow> bytes \<Rightarrow> (string \<times> string \<times> int option) option"
  busOk :: bool
  broadcastError :: "string option"
  casReply :: StatementReply
  loadOk :: bool

definition startWatchTask :: "SubmissionRecord \<Rightarrow> SettlementState \<Rightarrow> SettlementState" where
  "startWatchTask r st =
     (if sr_MatchEventID r = [] \<or> sr_Status r \<noteq> StatusSubmitted \<or> sr_MatchEventID r \<in> watchCancels st then st
      else st\<lparr>watchCancels := insert (sr_MatchEventID r) (watchCancels st)\<rparr>)"

definition broadcastRawTx :: "string \<Rightarrow> SettlementOutput list" where
  "broadcastRawTx raw = (if TrimSpace raw = [] then [] else [BroadcastTx (TrimSpace raw)])"

definition abortSubmit :: "string \<Rightarrow> u64 option \<Rightarrow> SettlementState \<Rightarrow> SettlementState" where
  "abortSubmit matchEventID requeue st =
     (let st = releaseLaneByMatchEvent matchEventID False st
      in case requeue of None \<Rightarrow> st | Some k \<Rightarrow> markDirty k st)"

text \<open>The event that is published when the row cannot be read again: the error is ignored and the record is empty.\<close>

definition blankSubmitted :: "instant \<Rightarrow> SettlementSubmittedEvent" where
  "blankSubmitted now = \<lparr>ss_EventID = ''settlement-submitted::0'', ss_SchemaVersion = settlementSchemaNumber, ss_MatchEventID = [],
     ss_MarketID = 0, ss_MarketPDA = [], ss_TxSignature = [], ss_RetryCount = 0, ss_LastValidBlockHeight = 0,
     ss_Wallets = sortedWallets [], ss_SubmittedAt = unixOf now\<rparr>"

text \<open>The second half: from the signed transaction on.  On an error of the compare-and-set the lane is given back
  and the market marked, whether the row is submitted now or not.\<close>

definition commitSubmit ::
  "submitAnswers \<Rightarrow> instant \<Rightarrow> string \<Rightarrow> u64 \<Rightarrow> string \<Rightarrow> string \<Rightarrow> u64 \<Rightarrow> SettlementState \<Rightarrow> SettlementState \<times> SettlementOutput list" where
  "commitSubmit ans now matchEventID marketID sig rawTx height st =
     (let (applied, t) = MarkSubmittedCAS now matchEventID sig rawTx height (rows st); back = abortSubmit matchEventID (Some marketID) in
      case casReply ans of
        NotDone \<Rightarrow> (back st, [])
      | DoneUnreported \<Rightarrow> (back (st\<lparr>rows := t\<rparr>), [])
      | Reported \<Rightarrow>
          if \<not> applied then (back st, [])
          else (let found = (if loadOk ans then LoadByMatchEventID t matchEventID else None);
                    out = (case found of None \<Rightarrow> (if busOk ans then [PublishSubmitted (blankSubmitted now)] else [])
                           | Some r \<Rightarrow> publishSubmitted (busOk ans) now r);
                    t = (if busOk ans then MarkSubmittedEventPublished now matchEventID t else t);
                    st = st\<lparr>rows := t\<rparr>;
                    out = out @ broadcastRawTx rawTx;
                    watched = (case found of None \<Rightarrow> st | Some r \<Rightarrow> startWatchTask r st)
                in case broadcastError ans of
                     Some err \<Rightarrow>
                       if isDeterministicSettlementError err
                       then (let (st, out2) = failSubmission (busOk ans) now matchEventID marketID sig ''simulation_failed'' True st in (st, out @ out2))
                       else (watched, out)
                   | None \<Rightarrow> (watched, out)))"

definition submitMatch ::
  "SettlementEnv \<Rightarrow> submitAnswers \<Rightarrow> instant \<Rightarrow> string \<Rightarrow> SettlementState \<Rightarrow> SettlementState \<times> SettlementOutput list" where
  "submitMatch env ans now matchEventID st =
     (case LoadByMatchEventID (rows st) matchEventID of
        None \<Rightarrow> (abortSubmit matchEventID None st, [])
      | Some record1 \<Rightarrow>
          if sr_Status record1 \<noteq> StatusPrepared then (abortSubmit matchEventID (Some (sr_MarketID record1)) st, [])
          else case map_option (decodePreparedPayload (env_parseKey env) (env_showKey env) (env_programID env)) (sr_PreparedPayload record1) of
            None \<Rightarrow> (abortSubmit matchEventID None st, [])
          | Some (Inl e) \<Rightarrow> (abortSubmit matchEventID None st, [])
          | Some (Inr batch) \<Rightarrow>
              (case blockhashAnswer ans of
                 None \<Rightarrow> (abortSubmit matchEventID (Some (sb_MarketID batch)) st, [])
               | Some (blockhash, height) \<Rightarrow>
                   (case signed ans batch blockhash of
                      None \<Rightarrow> (abortSubmit matchEventID (Some (sb_MarketID batch)) st, [])
                    | Some (sig, rawTx, wire) \<Rightarrow>
                        if 0 < env_maxTxBytes env \<and> wire = None then (abortSubmit matchEventID (Some (sb_MarketID batch)) st, [])
                        else if 0 < env_maxTxBytes env \<and> env_maxTxBytes env < the wire
                        then failBeforeSubmit (busOk ans) now record1 ''tx_bytes_exceeded'' st
                        else commitSubmit ans now matchEventID (sb_MarketID batch) sig rawTx height st)))"

section \<open>Watching\<close>

text \<open>The status of a signature as the RPC node reports it: not found, or a slot with an error text or a
  confirmation level.\<close>

record signatureStatus =
  st_Slot :: u64
  st_Err :: "string option"
  st_Confirmation :: string

datatype Observation = NotObserved | ObservedOk u64 | ObservedErr

definition checkSignatureProcessed :: "signatureStatus option \<Rightarrow> Observation" where
  "checkSignatureProcessed answer =
     (case answer of
        None \<Rightarrow> NotObserved
      | Some s \<Rightarrow>
          if st_Err s \<noteq> None then ObservedErr
          else if map toLowerChar (TrimSpace (st_Confirmation s)) \<in> {''processed'', ''confirmed'', ''finalized''} then ObservedOk (st_Slot s)
          else NotObserved)"

definition checkSignatureStatus :: "signatureStatus option \<Rightarrow> Observation" where
  "checkSignatureStatus answer =
     (case answer of
        None \<Rightarrow> NotObserved
      | Some s \<Rightarrow>
          if st_Err s \<noteq> None then ObservedErr
          else if map toLowerChar (TrimSpace (st_Confirmation s)) \<in> {''confirmed'', ''finalized''} then ObservedOk (st_Slot s)
          else NotObserved)"

definition isExpiredHeight :: "u64 \<Rightarrow> u64 \<Rightarrow> bool" where
  "isExpiredHeight lastValidBlockHeight height = (if lastValidBlockHeight = 0 then False else lastValidBlockHeight < height)"

text \<open>The end of a watch, and the fast path of recovery and reconciliation: act on an observed status.  The
  flag says whether the status was observed.\<close>

definition tryFastForwardSubmitted ::
  "SettlementEnv \<Rightarrow> bool \<Rightarrow> instant \<Rightarrow> SubmissionRecord \<Rightarrow> signatureStatus option \<Rightarrow> SettlementState \<Rightarrow>
     bool \<times> SettlementState \<times> SettlementOutput list" where
  "tryFastForwardSubmitted env pubOk now record1 answer st =
     (case checkSignatureProcessed answer of
        NotObserved \<Rightarrow> (False, st, [])
      | ObservedErr \<Rightarrow> (let (st, out) = failSubmission pubOk now (sr_MatchEventID record1) (sr_MarketID record1) (sr_TxSignature record1)
                                         ''chain_execution_failed'' True st in (True, st, out))
      | ObservedOk slot \<Rightarrow> (True, processSubmission env now record1 slot st, []))"

text \<open>Signing again after the blockhash expired.  \<open>Inl\<close> stands for an error, \<open>Inr None\<close> for a lost
  compare-and-set.\<close>

definition resignSubmission ::
  "SettlementEnv \<Rightarrow> submitAnswers \<Rightarrow> instant \<Rightarrow> SubmissionRecord \<Rightarrow> SettlementState \<Rightarrow>
     (unit + SubmissionRecord option) \<times> SettlementState \<times> SettlementOutput list" where
  "resignSubmission env ans now current st =
     (case map_option (decodePreparedPayload (env_parseKey env) (env_showKey env) (env_programID env)) (sr_PreparedPayload current) of
        Some (Inr batch) \<Rightarrow>
          (case blockhashAnswer ans of
             None \<Rightarrow> (Inl (), st, [])
           | Some (blockhash, height) \<Rightarrow>
               (case signed ans batch blockhash of
                  None \<Rightarrow> (Inl (), st, [])
                | Some (sig, rawTx, _) \<Rightarrow>
                    (let (replaced, t) = ReplaceSignatureCAS now (sr_MatchEventID current) (sr_TxSignature current) sig rawTx height (rows st) in
                     case casReply ans of
                       NotDone \<Rightarrow> (Inl (), st, [])
                     | DoneUnreported \<Rightarrow> (Inl (), st\<lparr>rows := t\<rparr>, [])
                     | Reported \<Rightarrow>
                         if \<not> replaced then (Inr None, st, [])
                         else (case LoadByMatchEventID t (sr_MatchEventID current) of
                            None \<Rightarrow> (Inr None, st\<lparr>rows := t\<rparr>, [])
                          | Some latest \<Rightarrow>
                              (let st = st\<lparr>rows := t\<rparr>; out = publishSubmitted (busOk ans) now latest @ broadcastRawTx rawTx in
                               case broadcastError ans of
                                 Some err \<Rightarrow>
                                   if isDeterministicSettlementError err
                                   then (let (st, out2) = failSubmission (busOk ans) now (sr_MatchEventID current) (sr_MarketID current) sig ''simulation_failed'' True st
                                         in (Inr (Some latest), st, out @ out2))
                                   else (Inr (Some latest), st, out)
                               | None \<Rightarrow> (Inr (Some latest), st, out))))))
      | _ \<Rightarrow> (Inl (), st, []))"

text \<open>One event of a watch: the subscription's result, a status poll, the rebroadcast timer, a block height.
  The watch goes on with a record or ends with \<open>None\<close>, when it removes itself.\<close>

datatype WatchEvent =
    RouterResult u64 string
  | StatusPolled "signatureStatus option"
  | RebroadcastDue
  | HeightPolled u64 submitAnswers

definition endWatch :: "string \<Rightarrow> SettlementState \<Rightarrow> SettlementState" where
  "endWatch i st = st\<lparr>watchCancels := watchCancels st - {i}\<rparr>"

definition watchSubmission ::
  "SettlementEnv \<Rightarrow> bool \<Rightarrow> instant \<Rightarrow> SubmissionRecord \<Rightarrow> WatchEvent \<Rightarrow> SettlementState \<Rightarrow>
     SubmissionRecord option \<times> SettlementState \<times> SettlementOutput list" where
  "watchSubmission env pubOk now current ev st =
     (case ev of
        RouterResult slot err \<Rightarrow>
          (if err \<noteq> []
           then (let (st, out) = failSubmission pubOk now (sr_MatchEventID current) (sr_MarketID current) (sr_TxSignature current)
                       ''chain_execution_failed'' True st in (None, endWatch (sr_MatchEventID current) st, out))
           else (None, endWatch (sr_MatchEventID current) (processSubmission env now current slot st), []))
      | StatusPolled answer \<Rightarrow>
          (case tryFastForwardSubmitted env pubOk now current answer st of
             (False, st, out) \<Rightarrow> (Some current, st, out)
           | (True, st, out) \<Rightarrow> (None, endWatch (sr_MatchEventID current) st, out))
      | RebroadcastDue \<Rightarrow> (Some current, st, broadcastRawTx (sr_RawTxBase64 current))
      | HeightPolled height ans \<Rightarrow>
          if \<not> isExpiredHeight (sr_LastValidBlockHeight current) height then (Some current, st, [])
          else case resignSubmission env ans now current st of
            (Inl _, st, out) \<Rightarrow> (Some current, st, out)
          | (Inr None, st, out) \<Rightarrow>
              (case LoadByMatchEventID (rows st) (sr_MatchEventID current) of
                 Some latest \<Rightarrow> (Some (if sr_Status latest = StatusSubmitted then latest else current), st, out)
               | None \<Rightarrow> (Some current, st, out))
          | (Inr (Some next), st, out) \<Rightarrow> (Some next, st, out))"

section \<open>The pollers\<close>

fun processTerminalRecords ::
  "bool \<Rightarrow> instant \<Rightarrow> (string \<Rightarrow> signatureStatus option) \<Rightarrow> SubmissionRecord list \<Rightarrow> SettlementState \<Rightarrow> SettlementState \<times> SettlementOutput list" where
  "processTerminalRecords pubOk now answers [] st = (st, [])"
| "processTerminalRecords pubOk now answers (r # rs) st =
     (let (st, out) = (case checkSignatureStatus (answers (sr_TxSignature r)) of
            NotObserved \<Rightarrow> (st, [])
          | ObservedErr \<Rightarrow> failSubmission pubOk now (sr_MatchEventID r) (sr_MarketID r) (sr_TxSignature r) ''chain_execution_failed'' False st
          | ObservedOk slot \<Rightarrow> confirmSubmission pubOk now r slot st);
          (st, out2) = processTerminalRecords pubOk now answers rs st
      in (st, out @ out2))"

definition processTerminalBatch ::
  "bool \<Rightarrow> instant \<Rightarrow> int \<Rightarrow> (string \<Rightarrow> signatureStatus option) \<Rightarrow> SettlementState \<Rightarrow> SettlementState \<times> SettlementOutput list" where
  "processTerminalBatch pubOk now batchSize answers st = processTerminalRecords pubOk now answers (ListProcessed (rows st) batchSize) st"

text \<open>The reconciler's treatment of one row listed as submitted.\<close>

definition reconcileSubmitted ::
  "SettlementEnv \<Rightarrow> bool \<Rightarrow> instant \<Rightarrow> signatureStatus option \<Rightarrow> SubmissionRecord \<Rightarrow> SettlementState \<Rightarrow> SettlementState \<times> SettlementOutput list" where
  "reconcileSubmitted env pubOk now answer r st =
     (case tryFastForwardSubmitted env pubOk now r answer st of
        (True, st, out) \<Rightarrow> (st, out)
      | (False, st, out) \<Rightarrow>
          (let lane = laneOf st (sr_MarketID r);
               lane = (if CurrentMatchEventID lane = [] then lane\<lparr>CurrentMatchEventID := sr_MatchEventID r\<rparr> else lane)
           in (startWatchTask r (putLane (sr_MarketID r) lane st), out)))"

text \<open>Republication.  \<open>ok\<close> says of which event the publication succeeds; a failure ends it, to be tried again
  at the next interval.  The flag tells whether it went through.\<close>

fun republishSubmitted ::
  "(string \<Rightarrow> bool) \<Rightarrow> instant \<Rightarrow> SubmissionRecord list \<Rightarrow> submissions \<Rightarrow> bool \<times> submissions \<times> SettlementOutput list" where
  "republishSubmitted ok now [] t = (True, t, [])"
| "republishSubmitted ok now (r # rs) t =
     (if \<not> ok (sr_MatchEventID r) then (False, t, [])
      else let (done, t, out) = republishSubmitted ok now rs (MarkSubmittedEventPublished now (sr_MatchEventID r) t)
           in (done, t, publishSubmitted True now r @ out))"

definition terminalOutput :: "instant \<Rightarrow> SubmissionRecord \<Rightarrow> SettlementOutput list" where
  "terminalOutput now r =
     (if sr_Status r = StatusConfirmed then publishConfirmed True now r (sr_ConfirmationSlot r)
      else if sr_Status r = StatusFailed then publishFailed True now r else [])"

fun republishTerminal ::
  "(string \<Rightarrow> bool) \<Rightarrow> instant \<Rightarrow> SubmissionRecord list \<Rightarrow> submissions \<Rightarrow> bool \<times> submissions \<times> SettlementOutput list" where
  "republishTerminal ok now [] t = (True, t, [])"
| "republishTerminal ok now (r # rs) t =
     (if \<not> terminal (sr_Status r) then republishTerminal ok now rs t
      else if \<not> ok (sr_MatchEventID r) then (False, t, [])
      else let (done, t, out) = republishTerminal ok now rs (MarkTerminalEventPublished now (sr_MatchEventID r) t)
           in (done, t, terminalOutput now r @ out))"

definition republishUnpublishedEvents ::
  "(string \<Rightarrow> bool) \<Rightarrow> instant \<Rightarrow> submissions \<Rightarrow> bool \<times> submissions \<times> SettlementOutput list" where
  "republishUnpublishedEvents ok now t =
     (let (done, t, out) = republishSubmitted ok now (ListUnpublishedSubmitted t) t in
      if \<not> done then (False, t, out)
      else let (done, t, out2) = republishTerminal ok now (ListUnpublishedTerminal t) t in (done, t, out @ out2))"

section \<open>Recovery\<close>

text \<open>The lanes of a restarted service: paused markets, then the submitted rows.  The status check that precedes
  the adoption of a submitted row (\<open>tryFastForwardSubmitted\<close>) is a step of its own, after the restart.\<close>

definition recoverLanes :: "submissions \<Rightarrow> u64 \<rightharpoonup> marketLane" where
  "recoverLanes t =
     (let paused = fold (\<lambda>k l. l(k \<mapsto> newLane\<lparr>ln_Paused := True\<rparr>)) (ListPausedMarketIDs t) Map.empty
      in fold (\<lambda>r l. l(sr_MarketID r \<mapsto> (case l (sr_MarketID r) of None \<Rightarrow> newLane | Some x \<Rightarrow> x)\<lparr>CurrentMatchEventID := sr_MatchEventID r\<rparr>))
           (ListSubmitted t) paused)"

definition recoverState :: "SettlementEnv \<Rightarrow> submissions \<Rightarrow> UserPositionRegistry \<Rightarrow> OrderStateRegistry \<Rightarrow> SettlementState" where
  "recoverState env t positions orders =
     (let st = \<lparr>rows = t, lanes = recoverLanes t, dirtyMarkets = set (ListPreparedMarketIDs t), prepareDirty = set (ListQueuedMarketIDs t),
                prepareTimers = {}, watchCancels = sr_MatchEventID ` set (ListSubmitted t), s_registry = positions, s_orderRegistry = orders,
                s_estimates = Map.empty\<rparr>
      in fold (observeProcessedEvidence env) (ListProcessed t 100000) st)"

end
