(* ===== verification/SettlementLaws.thy ===== *)
theory SettlementLaws
  imports SettlementService
begin

text \<open>
  Properties of the settlement service.  Its loops and goroutines are interleaved: the rules of
  \<open>settleStep\<close> are the parts of the handlers between two of which another goroutine may run.  The ghost
  sets \<open>submitting\<close> and \<open>processing\<close> hold the events with a running \<open>submitMatch\<close> and with a
  \<open>processSubmission\<close> that has marked its row and not yet released the lane; the ghost set \<open>unreported\<close> holds
  the markets of the rows whose update to submitted was committed while its caller was told of an error.
\<close>

section \<open>Event ids\<close>

lemma isSpace_digits: "c \<in> set (digitsBase 10 n) \<Longrightarrow> \<not> isSpace c"
proof (induction "10 :: nat" n rule: digitsBase.induct)
  case (1 n)
  have d: "k < 10 \<Longrightarrow> \<not> isSpace (digitChar k)" for k by (rule not_space_digit) simp
  show ?case
    using 1 d by (subst (asm) digitsBase.simps) (auto split: if_splits)
qed

lemma eventIDOf_ok: "eventIDOf ev \<noteq> [] \<and> TrimSpace (eventIDOf ev) = eventIDOf ev"
proof (cases "TrimSpace (EventID ev) = []")
  case True
  have d: "c \<in> set (digitsBase 10 n) \<Longrightarrow> \<not> isSpace c" for c n by (rule isSpace_digits)
  have "\<forall>c \<in> set (''match-batch-'' @ FormatUint10 (ev_MarketID ev) @ ''-'' @ FormatUint10 (SourceCmdSeqMax ev) @ ''-'' @ FormatInt10 (ProducedAt ev)). \<not> isSpace c"
    using d by (auto simp: FormatUint10_def FormatInt10_def isSpace_def)
  then have "TrimSpace (eventIDOf ev) = eventIDOf ev" unfolding eventIDOf_def if_P [OF True] by (rule TrimSpace_id)
  then show ?thesis by (simp add: eventIDOf_def True)
qed (simp add: eventIDOf_def)

definition table_ok :: "submissions \<Rightarrow> bool" where
  "table_ok t \<longleftrightarrow> distinct (map sr_MatchEventID t) \<and> (\<forall>i \<in> set (map sr_MatchEventID t). i \<noteq> [] \<and> TrimSpace i = i)"

lemma rowOf_member: "table_ok t \<Longrightarrow> r \<in> set t \<Longrightarrow> rowOf t (sr_MatchEventID r) = Some r"
  by (induction t) (auto simp: table_ok_def rowOf_def)

lemma changes_ids: "changes g \<Longrightarrow> map sr_MatchEventID (map g t) = map sr_MatchEventID t"
  by (simp add: changes_def follows_def)

lemma changes_table_ok: "changes g \<Longrightarrow> table_ok (map g t) = table_ok t"
  unfolding table_ok_def by (simp only: changes_ids)

lemma upsert_table_ok:
  "table_ok t \<Longrightarrow> \<forall>q \<in> set qs. qi_MatchEventID q \<noteq> [] \<and> TrimSpace (qi_MatchEventID q) = qi_MatchEventID q \<Longrightarrow>
   table_ok (snd (UpsertQueuedBatch now qs t))"
  by (induction now qs t rule: UpsertQueuedBatch.induct) (auto simp: case_prod_beta table_ok_def hasRow_def rowOfInsert_def)

lemma rowOf_single: "rowOf [r] i = (if sr_MatchEventID r = i then Some r else None)"
  by (simp add: rowOf_def)

lemma upsert_new:
  "rowOf (snd (UpsertQueuedBatch now qs t)) i = Some r \<Longrightarrow> rowOf t i = Some r \<or> sr_Status r = StatusQueued"
proof (induction now qs t rule: UpsertQueuedBatch.induct)
  case (2 now q qs t)
  have new: "rowOf (t @ [rowOfInsert now q]) i = Some r \<Longrightarrow> rowOf t i = Some r \<or> sr_Status r = StatusQueued"
    by (auto simp: rowOf_append rowOf_single rowOfInsert_def split: option.splits if_splits)
  show ?case
    using 2 new by (cases "hasRow t (qi_MatchEventID q)") (auto simp: case_prod_beta)
qed simp

section \<open>Statements that submit nothing\<close>

lemma touch_sel [simp]:
  "sr_Status (touch now r) = sr_Status r" "sr_MatchEventID (touch now r) = sr_MatchEventID r" "sr_MarketID (touch now r) = sr_MarketID r"
  "sr_MarketLaneStatus (touch now r) = sr_MarketLaneStatus r" "sr_TxSignature (touch now r) = sr_TxSignature r"
  "sr_PreparedPayload (touch now r) = sr_PreparedPayload r" "sr_SubmittedEventPublished (touch now r) = sr_SubmittedEventPublished r"
  "sr_TerminalEventPublished (touch now r) = sr_TerminalEventPublished r"
  by (simp_all add: touch_def)

lemma scan_sel [simp]:
  "sr_MatchEventID (scanSubmissionRecord r) = sr_MatchEventID r" "sr_MarketID (scanSubmissionRecord r) = sr_MarketID r"
  "sr_Status (scanSubmissionRecord r) = sr_Status r" "sr_PreparedPayload (scanSubmissionRecord r) = sr_PreparedPayload r"
  "sr_TerminalEventPublished (scanSubmissionRecord r) = sr_TerminalEventPublished r"
  "sr_SubmittedEventPublished (scanSubmissionRecord r) = sr_SubmittedEventPublished r" "sr_MatchEvent (scanSubmissionRecord r) = sr_MatchEvent r"
  by (simp_all add: scanSubmissionRecord_def Let_def)

definition persists :: "submissions \<Rightarrow> submissions \<Rightarrow> bool" where
  "persists t t' \<longleftrightarrow> (\<forall>i r. rowOf t i = Some r \<longrightarrow> (\<exists>r'. rowOf t' i = Some r' \<and> sr_MarketID r' = sr_MarketID r))"

lemma persists_row: "persists t t' \<Longrightarrow> rowOf t i \<noteq> None \<Longrightarrow> rowOf t' i \<noteq> None"
  by (auto simp: persists_def)

lemma evolves_persists: "evolves t t' \<Longrightarrow> persists t t'"
  unfolding evolves_def persists_def follows_def by blast

definition quiet :: "submissions \<Rightarrow> submissions \<Rightarrow> bool" where
  "quiet t t' \<longleftrightarrow> persists t t' \<and> table_ok t' \<and>
     (\<forall>i r'. rowOf t' i = Some r' \<longrightarrow> sr_Status r' = StatusSubmitted \<longrightarrow> (\<exists>r. rowOf t i = Some r \<and> sr_Status r = StatusSubmitted))"

lemma quiet_refl: "table_ok t \<Longrightarrow> quiet t t"
  by (auto simp: quiet_def persists_def)

lemma persists_trans: "persists t t' \<Longrightarrow> persists t' t'' \<Longrightarrow> persists t t''"
  unfolding persists_def by fastforce

lemma quiet_trans:
  assumes "quiet t t'" "quiet t' t''" shows "quiet t t''"
  unfolding quiet_def
proof (intro conjI allI impI)
  show "persists t t''" using assms unfolding quiet_def by (blast intro: persists_trans)
  show "table_ok t''" using assms unfolding quiet_def by blast
  fix i r' assume r: "rowOf t'' i = Some r'" "sr_Status r' = StatusSubmitted"
  from assms(2) r obtain r1 where "rowOf t' i = Some r1" "sr_Status r1 = StatusSubmitted" unfolding quiet_def by blast
  with assms(1) show "\<exists>r. rowOf t i = Some r \<and> sr_Status r = StatusSubmitted" unfolding quiet_def by blast
qed

lemma quiet_changes:
  assumes "table_ok t" "changes g" "\<And>r. sr_Status (g r) = StatusSubmitted \<Longrightarrow> sr_Status r = StatusSubmitted"
  shows "quiet t (map g t)"
  using assms changes_evolves [OF assms(2), THEN evolves_persists] by (auto simp: quiet_def rowOf_changes changes_table_ok)

lemma quiet_update:
  assumes "table_ok t" "\<And>r. P r \<Longrightarrow> follows r (f r)" "\<And>r. P r \<Longrightarrow> sr_Status (f r) = StatusSubmitted \<Longrightarrow> sr_Status r = StatusSubmitted"
  shows "quiet t (snd (updateWhere P f t))" "quiet t (snd (casUpdate P f t))"
  using quiet_changes [OF assms(1) changes_cond, of P f] assms(2,3)
  by (auto simp: updateWhere_def casUpdate_def split: if_splits)

lemma quiet_ok: "quiet t t' \<Longrightarrow> table_ok t'"
  by (simp add: quiet_def)

lemma quiet_prepared: "table_ok t \<Longrightarrow> quiet t (snd (MarkPreparedCAS now i payload t))"
  unfolding MarkPreparedCAS_def by (rule quiet_update) (auto intro!: follows_touch simp: lifecycle_def)

lemma quiet_replaced: "table_ok t \<Longrightarrow> quiet t (snd (ReplaceSignatureCAS now i old new raw h t))"
  unfolding ReplaceSignatureCAS_def by (rule quiet_update) (auto intro!: follows_touch simp: lifecycle_def)

lemma quiet_processed: "table_ok t \<Longrightarrow> quiet t (snd (MarkProcessedCAS now i sig slot t))"
  unfolding MarkProcessedCAS_def by (rule quiet_update) (auto intro!: follows_touch simp: lifecycle_def)

lemma quiet_confirmed: "table_ok t \<Longrightarrow> quiet t (snd (MarkConfirmedCAS now i sig slot t))"
  unfolding MarkConfirmedCAS_def by (rule quiet_update) (auto intro!: follows_touch simp: lifecycle_def)

lemma quiet_published:
  "table_ok t \<Longrightarrow> quiet t (MarkSubmittedEventPublished now i t)" "table_ok t \<Longrightarrow> quiet t (MarkTerminalEventPublished now i t)"
  unfolding MarkSubmittedEventPublished_def MarkTerminalEventPublished_def
  by (rule quiet_update; auto intro!: follows_touch simp: lifecycle_def)+

lemma failRow_status:
  assumes "\<And>r. P r \<Longrightarrow> \<not> terminal (sr_Status r)" "table_ok t"
  shows "quiet t (snd (failRow now P why t))"
proof -
  obtain g where g: "changes g" "snd (failRow now P why t) = map g t" using failRow_evolves [OF assms(1)] by blast
  have "sr_Status r' = StatusSubmitted \<Longrightarrow> \<exists>r. rowOf t i = Some r \<and> sr_Status r = StatusSubmitted"
    if "rowOf (snd (failRow now P why t)) i = Some r'" for i r'
    using that by (cases "find P t")
      (auto simp: failRow_def updateWhere_def rowOf_map touch_def split: if_splits)
  with g evolves_persists [OF changes_evolves [OF g(1)]] changes_table_ok [OF g(1)] assms(2) show ?thesis by (auto simp: quiet_def)
qed

lemma quiet_failed:
  "table_ok t \<Longrightarrow> quiet t (snd (MarkFailedBeforeSubmitAndPauseQueued now i why t))"
  "table_ok t \<Longrightarrow> quiet t (snd (MarkFailedAndPauseQueued now i sig why t))"
  unfolding fail_defs by (rule failRow_status; auto simp: terminal_def)+

lemma quiet_upsert:
  "table_ok t \<Longrightarrow> \<forall>q \<in> set qs. insert_ok q \<Longrightarrow> quiet t (snd (UpsertQueuedBatch now qs t))"
  using upsert_rows upsert_new upsert_table_ok [of t qs now] by (fastforce simp: quiet_def persists_def insert_ok_def)

lemma quietStep_quiet: "quietStep good t t' \<Longrightarrow> table_ok t \<Longrightarrow> quiet t t'"
  by (induction rule: quietStep.induct)
    (simp_all add: quiet_upsert quiet_prepared quiet_replaced quiet_processed quiet_confirmed quiet_published quiet_failed)

lemma quietRun_quiet: "(quietStep good)\<^sup>*\<^sup>* t t' \<Longrightarrow> table_ok t \<Longrightarrow> quiet t t'"
  by (induction rule: rtranclp_induct) (auto simp: quiet_refl intro: quiet_trans quietStep_quiet quiet_ok)

section \<open>The interleaved service\<close>

text \<open>The payloads the prepare worker writes for an event.\<close>

definition builtFrom :: "SettlementEnv \<Rightarrow> MatchBatchEvent \<Rightarrow> preparedSubmissionPayload \<Rightarrow> bool" where
  "builtFrom env ev payload \<longleftrightarrow> (\<exists>batch reg. BuildSubmissionBatch (env_parseKey env) (env_programID env) ev = Inr batch \<and>
     encodePreparedPayload (env_showKey env) (applyWarmOrderStates (env_showKey env) reg batch) = Inr payload)"

abbreviation quietRun :: "SettlementEnv \<Rightarrow> submissions \<Rightarrow> submissions \<Rightarrow> bool" where
  "quietRun env \<equiv> (quietStep (builtFrom env))\<^sup>*\<^sup>*"

record settlementSystem =
  svc :: SettlementState
  submitting :: "string set"
  processing :: "string set"
  unreported :: "u64 set"

definition unreportedBy :: "StatementReply \<Rightarrow> bool \<Rightarrow> SubmissionRecord \<Rightarrow> u64 set \<Rightarrow> u64 set" where
  "unreportedBy reply applied r X = (if reply = DoneUnreported \<and> applied then insert (sr_MarketID r) X else X)"

text \<open>A statement alone is a step \<open>statement\<close>; the marks of failures, confirmations and renewed signatures are
  of that kind.  \<open>schedule\<close> takes any row, since the row the scheduler loaded may have changed since; \<open>adopt\<close>
  is the reconciler's, with a record that may be out of date; \<open>failedLane\<close> releases or pauses a lane after
  a failure, at any later time.  Every other statement may be committed and report an error too: its effect
  alone is the step \<open>lostReply\<close>, and what its caller then does to the watches, the marks and the timers is a
  step \<open>bookkeeping\<close>.  A restart forgets everything but the table.\<close>

inductive settleStep :: "SettlementEnv \<Rightarrow> settlementSystem \<Rightarrow> settlementSystem \<Rightarrow> bool" for env where
  ingress: "settleStep env s (s\<lparr>svc := fst (handleFetchedMessages now dbOk msgs (svc s))\<rparr>)"
| timer: "settleStep env s (s\<lparr>svc := prepareTimerFires k (svc s)\<rparr>)"
| prepare: "settleStep env s (s\<lparr>svc := fst (prepareDirtyMarkets env pubOk now (svc s))\<rparr>)"
| schedule: "rowOf (rows (svc s)) i = Some r \<Longrightarrow> lane = laneOf (svc s) (sr_MarketID r) \<Longrightarrow> \<not> ln_Paused lane \<Longrightarrow> CurrentMatchEventID lane = [] \<Longrightarrow>
    settleStep env s (s\<lparr>svc := putLane (sr_MarketID r) (lane\<lparr>CurrentMatchEventID := i\<rparr>) (svc s), submitting := insert i (submitting s)\<rparr>)"
| abort: "i \<in> submitting s \<Longrightarrow> settleStep env s (s\<lparr>svc := abortSubmit i requeue (svc s), submitting := submitting s - {i}\<rparr>)"
| oversize: "r = the (rowOf (rows (svc s)) i) \<Longrightarrow> i \<in> submitting s \<Longrightarrow>
    settleStep env s (s\<lparr>svc := fst (failBeforeSubmit pubOk now r why (svc s)), submitting := submitting s - {i}\<rparr>)"
| commit: "i \<in> submitting s \<Longrightarrow> rowOf (rows (svc s)) i = Some r \<Longrightarrow>
    settleStep env s (s\<lparr>svc := fst (commitSubmit ans now i k sig raw h (svc s)), submitting := submitting s - {i},
      unreported := unreportedBy (casReply ans) (fst (MarkSubmittedCAS now i sig raw h (rows (svc s)))) r (unreported s)\<rparr>)"
| lostReply: "quietStep (builtFrom env) (rows (svc s)) t \<Longrightarrow> settleStep env s (s\<lparr>svc := (svc s)\<lparr>rows := t\<rparr>\<rparr>)"
| marked: "processMark env now r slot (svc s) = (Some r', st') \<Longrightarrow>
    settleStep env s (s\<lparr>svc := st', processing := insert (sr_MatchEventID r') (processing s)\<rparr>)"
| released: "i \<in> processing s \<Longrightarrow> rowOf (rows (svc s)) i = Some r \<Longrightarrow>
    settleStep env s (s\<lparr>svc := processRelease (sr_MarketID r) (svc s), processing := processing s - {i}\<rparr>)"
| failed: "failMark pubOk now i sig why (svc s) = (k, st', out) \<Longrightarrow> settleStep env s (s\<lparr>svc := st'\<rparr>)"
| failedLane: "settleStep env s (s\<lparr>svc := failRelease k releaseCurrent (svc s)\<rparr>)"
| confirmed: "settleStep env s (s\<lparr>svc := fst (confirmSubmission pubOk now r slot (svc s))\<rparr>)"
| replaced: "settleStep env s (s\<lparr>svc := (svc s)\<lparr>rows := snd (ReplaceSignatureCAS now i old new raw h (rows (svc s)))\<rparr>\<rparr>)"
| republished: "settleStep env s (s\<lparr>svc := (svc s)\<lparr>rows := fst (snd (republishUnpublishedEvents ok now (rows (svc s))))\<rparr>\<rparr>)"
| adopt: "rowOf (rows (svc s)) i = Some r \<Longrightarrow> lane = laneOf (svc s) (sr_MarketID r) \<Longrightarrow> CurrentMatchEventID lane = [] \<Longrightarrow>
    settleStep env s (s\<lparr>svc := putLane (sr_MarketID r) (lane\<lparr>CurrentMatchEventID := i\<rparr>) (svc s)\<rparr>)"
| bookkeeping: "settleStep env s (s\<lparr>svc := (svc s)\<lparr>watchCancels := ws, dirtyMarkets := d, prepareDirty := p, prepareTimers := ts\<rparr>\<rparr>)"
| restart: "settleStep env s \<lparr>svc = recoverState env (rows (svc s)) positions orders, submitting = {}, processing = {}, unreported = unreported s\<rparr>"

inductive settleReach :: "SettlementEnv \<Rightarrow> settlementSystem \<Rightarrow> bool" for env where
  fresh: "settleReach env \<lparr>svc = recoverState env [] positions orders, submitting = {}, processing = {}, unreported = {}\<rparr>"
| step: "settleReach env s \<Longrightarrow> settleStep env s s' \<Longrightarrow> settleReach env s'"

text \<open>The events in flight in a market, unless the market is one of \<open>X\<close>.\<close>

definition inflight :: "u64 set \<Rightarrow> submissions \<Rightarrow> string set \<Rightarrow> u64 \<Rightarrow> string set" where
  "inflight X t busy m = {i. \<exists>r. rowOf t i = Some r \<and> sr_MarketID r = m \<and> m \<notin> X \<and> (i \<in> busy \<or> sr_Status r = StatusSubmitted)}"

definition lane_inv :: "u64 set \<Rightarrow> submissions \<Rightarrow> (u64 \<Rightarrow> marketLane) \<Rightarrow> string set \<Rightarrow> bool" where
  "lane_inv X t ln busy \<longleftrightarrow> table_ok t \<and> (\<forall>i \<in> busy. rowOf t i \<noteq> None) \<and>
     (\<forall>m i j. i \<in> inflight X t busy m \<longrightarrow> j \<in> inflight X t busy m \<longrightarrow> i = j) \<and>
     (\<forall>m. inflight X t busy m \<noteq> {} \<longrightarrow> CurrentMatchEventID (ln m) \<noteq> [] \<or> ln_Paused (ln m)) \<and>
     (\<forall>m. CurrentMatchEventID (ln m) \<noteq> [] \<longrightarrow> (\<exists>r. rowOf t (CurrentMatchEventID (ln m)) = Some r \<and> sr_MarketID r = m))"

lemma lane_inv_row: "lane_inv X t ln busy \<Longrightarrow> i \<in> busy \<Longrightarrow> rowOf t i \<noteq> None"
  unfolding lane_inv_def by blast

lemma lane_inv_mono:
  assumes "lane_inv X t ln busy" "persists t t'" "table_ok t'" "\<And>m. inflight X' t' busy' m \<subseteq> inflight X t busy m"
    "\<And>i. i \<in> busy' \<Longrightarrow> rowOf t' i \<noteq> None"
  shows "lane_inv X' t' ln busy'"
  unfolding lane_inv_def
proof (intro conjI)
  show "table_ok t'" using assms(3) .
  show "\<forall>i \<in> busy'. rowOf t' i \<noteq> None" using assms(5) by blast
  show "\<forall>m i j. i \<in> inflight X' t' busy' m \<longrightarrow> j \<in> inflight X' t' busy' m \<longrightarrow> i = j" using assms(1,4) unfolding lane_inv_def by blast
  show "\<forall>m. inflight X' t' busy' m \<noteq> {} \<longrightarrow> CurrentMatchEventID (ln m) \<noteq> [] \<or> ln_Paused (ln m)"
    using assms(1,4) unfolding lane_inv_def by blast
  show "\<forall>m. CurrentMatchEventID (ln m) \<noteq> [] \<longrightarrow> (\<exists>r. rowOf t' (CurrentMatchEventID (ln m)) = Some r \<and> sr_MarketID r = m)"
    using assms(1,2) unfolding lane_inv_def persists_def by metis
qed

lemma inflight_persists:
  assumes "persists t t'" "i \<in> inflight X t' busy' m" "rowOf t i = Some r" "i \<in> busy \<or> sr_Status r = StatusSubmitted"
  shows "i \<in> inflight X t busy m"
  using assms unfolding persists_def inflight_def by fastforce

lemma lane_inv_rows:
  assumes "lane_inv X t ln busy" "quiet t t'" shows "lane_inv X t' ln busy"
proof (rule lane_inv_mono [OF assms(1)])
  show p: "persists t t'" and "table_ok t'" using assms(2) by (simp_all add: quiet_def)
  show "inflight X t' busy m \<subseteq> inflight X t busy m" for m
  proof
    fix i assume i: "i \<in> inflight X t' busy m"
    then obtain r where "rowOf t i = Some r" "i \<in> busy \<or> sr_Status r = StatusSubmitted"
      using assms unfolding lane_inv_def quiet_def inflight_def by blast
    then show "i \<in> inflight X t busy m" by (rule inflight_persists [OF p i])
  qed
  show "rowOf t' i \<noteq> None" if "i \<in> busy" for i by (rule persists_row [OF p lane_inv_row [OF assms(1) that]])
qed

lemma lane_inv_shrink: "lane_inv X t ln busy \<Longrightarrow> busy' \<subseteq> busy \<Longrightarrow> X \<subseteq> X' \<Longrightarrow> lane_inv X' t ln busy'"
  by (rule lane_inv_mono) (auto simp: persists_def inflight_def lane_inv_def)

text \<open>Pausing a lane, and clearing one together with a pause, keep the invariant.\<close>

lemma lane_inv_pause:
  assumes "lane_inv X t ln busy" "ln_Paused lane" "CurrentMatchEventID lane = CurrentMatchEventID (ln m) \<or> CurrentMatchEventID lane = []"
  shows "lane_inv X t (ln(m := lane)) busy"
  using assms unfolding lane_inv_def by auto

text \<open>Ending the work on an event frees its market.\<close>

lemma lane_inv_end:
  assumes "lane_inv X t ln busy" "i \<in> busy" "rowOf t i = Some r" "busy' \<subseteq> busy"
    "sr_MarketID r \<notin> X \<Longrightarrow> sr_Status r \<noteq> StatusSubmitted \<and> i \<notin> busy'"
  shows "lane_inv X t ln busy'" "inflight X t busy' (sr_MarketID r) = {}"
proof -
  show "lane_inv X t ln busy'" by (rule lane_inv_shrink [OF assms(1,4) subset_refl])
  show "inflight X t busy' (sr_MarketID r) = {}"
  proof (cases "sr_MarketID r \<in> X")
    case False
    have sub: "inflight X t busy' m \<subseteq> inflight X t busy m" for m using assms(4) by (auto simp: inflight_def)
    have i: "i \<in> inflight X t busy (sr_MarketID r)" using assms(2,3) False by (auto simp: inflight_def)
    have "i \<notin> inflight X t busy' (sr_MarketID r)" using assms(3,5) False by (auto simp: inflight_def)
    then show ?thesis using assms(1) i sub unfolding lane_inv_def by blast
  qed (simp add: inflight_def)
qed

lemma lane_inv_clear:
  assumes "lane_inv X t ln busy" "inflight X t busy m = {}" "CurrentMatchEventID lane = []"
  shows "lane_inv X t (ln(m := lane)) busy"
  using assms unfolding lane_inv_def by auto

section \<open>Steps that only pause\<close>

text \<open>Most handlers submit nothing and touch lanes only to pause them.\<close>

definition calm :: "SettlementEnv \<Rightarrow> SettlementState \<Rightarrow> SettlementState \<Rightarrow> bool" where
  "calm env st st' \<longleftrightarrow> (table_ok (rows st) \<longrightarrow> quietRun env (rows st) (rows st')) \<and>
     (\<forall>m. laneOf st' m = laneOf st m \<or> (ln_Paused (laneOf st' m) \<and> CurrentMatchEventID (laneOf st' m) \<in> {CurrentMatchEventID (laneOf st m), []}))"

lemma calm_refl [simp]: "calm env st st"
  by (simp add: calm_def)

lemma calm_trans: "calm env st st' \<Longrightarrow> calm env st' st'' \<Longrightarrow> calm env st st''"
proof -
  assume a: "calm env st st'" "calm env st' st''"
  have "table_ok (rows st) \<longrightarrow> quietRun env (rows st) (rows st'')"
    using a quietRun_quiet quiet_ok unfolding calm_def by (meson rtranclp_trans)
  moreover have "laneOf st'' m = laneOf st m \<or> (ln_Paused (laneOf st'' m) \<and> CurrentMatchEventID (laneOf st'' m) \<in> {CurrentMatchEventID (laneOf st m), []})" for m
    using a unfolding calm_def by (metis insert_iff singletonD)
  ultimately show ?thesis by (simp add: calm_def)
qed

lemma calm_rows: "(table_ok (rows st) \<Longrightarrow> quietRun env (rows st) t) \<Longrightarrow> calm env st (st\<lparr>rows := t\<rparr>)"
  by (simp add: calm_def laneOf_def)

lemma calm_row: "quietStep (builtFrom env) (rows st) t \<Longrightarrow> calm env st (st\<lparr>rows := t\<rparr>)"
  by (rule calm_rows) (rule r_into_rtranclp)

lemma calm_same: "rows st' = rows st \<Longrightarrow> lanes st' = lanes st \<Longrightarrow> calm env st st'"
  by (simp add: calm_def laneOf_def)

lemma calm_inv:
  assumes "calm env st st'" "lane_inv X (rows st) (laneOf st) busy" shows "lane_inv X (rows st') (laneOf st') busy"
proof -
  have q: "quiet (rows st) (rows st')" using assms by (auto simp: calm_def lane_inv_def intro: quietRun_quiet)
  have l: "lane_inv X (rows st') (laneOf st) busy" using lane_inv_rows [OF assms(2) q] .
  have c: "CurrentMatchEventID (laneOf st' m) \<noteq> [] \<Longrightarrow> CurrentMatchEventID (laneOf st' m) = CurrentMatchEventID (laneOf st m)"
    "CurrentMatchEventID (laneOf st m) \<noteq> [] \<or> ln_Paused (laneOf st m) \<Longrightarrow> CurrentMatchEventID (laneOf st' m) \<noteq> [] \<or> ln_Paused (laneOf st' m)" for m
    using assms(1) unfolding calm_def by (metis insert_iff singletonD)+
  then show ?thesis using l unfolding lane_inv_def by metis
qed

lemma laneOf_put [simp]: "laneOf (putLane k lane st) = (laneOf st)(k := lane)" "rows (putLane k lane st) = rows st"
  by (auto simp: laneOf_def putLane_def)

lemma laneOf_rows [simp]: "laneOf (st\<lparr>rows := t\<rparr>) = laneOf st"
  by (simp add: laneOf_def fun_eq_iff)

lemma laneOf_dirty [simp]:
  "laneOf (markDirty k st) = laneOf st" "rows (markDirty k st) = rows st" "laneOf (markPrepareDirty k st) = laneOf st"
  "rows (markPrepareDirty k st) = rows st" "laneOf (schedulePrepareRetry k st) = laneOf st" "rows (schedulePrepareRetry k st) = rows st"
  "laneOf (startWatchTask r st) = laneOf st" "rows (startWatchTask r st) = rows st"
  "laneOf (observeProcessedEvidence env r st) = laneOf st" "rows (observeProcessedEvidence env r st) = rows st"
  by (auto simp: laneOf_def markDirty_def markPrepareDirty_def schedulePrepareRetry_def startWatchTask_def observeProcessedEvidence_def)

lemma laneOf_release:
  "laneOf (releaseLaneByMatchEvent i p st) m = (if CurrentMatchEventID (laneOf st m) = i \<and> lanes st m \<noteq> None
     then (laneOf st m)\<lparr>CurrentMatchEventID := [], ln_Paused := ln_Paused (laneOf st m) \<or> p\<rparr> else laneOf st m)"
  "rows (releaseLaneByMatchEvent i p st) = rows st"
  by (auto simp: laneOf_def releaseLaneByMatchEvent_def newLane_def split: option.splits)

lemma calm_pause: "calm env st (pauseLane k st)"
  by (simp add: calm_def pauseLane_def)

lemma calm_failRelease: "calm env st (failRelease k rel st)"
  by (simp add: calm_def failRelease_def pauseLane_def releaseLane_def)

lemma calm_release_paused: "calm env st (releaseLaneByMatchEvent i True st)"
  by (simp add: calm_def laneOf_release)

lemma calm_publishFailedRow: "calm env st (fst (publishFailedRow ok now i r st))"
  by (auto simp: publishFailedRow_def intro!: calm_row quietStep.terminalPublished)

lemma calm_failBeforeSubmit: "calm env st (fst (failBeforeSubmit pubOk now r why st))"
proof -
  obtain k t where f: "MarkFailedBeforeSubmitAndPauseQueued now (sr_MatchEventID r) why (rows st) = (k, t)" by fastforce
  have c: "calm env st (st\<lparr>rows := t\<rparr>)" using quietStep.failedEarly [of "builtFrom env" "rows st" now "sr_MatchEventID r" why] f by (intro calm_row) simp
  have p: "calm env st (releaseLaneByMatchEvent i True (pauseLane m (fst (publishFailedRow pubOk now i q (st\<lparr>rows := t\<rparr>)))))" for i m q
    by (rule calm_trans [OF calm_trans [OF calm_trans [OF c calm_publishFailedRow] calm_pause] calm_release_paused])
  show ?thesis
    by (cases k) (simp_all add: failBeforeSubmit_def f case_prod_beta Let_def p)
qed

lemma calm_failMark: "calm env st (fst (snd (failMark pubOk now i sig why st)))"
proof -
  obtain k t where m: "MarkFailedAndPauseQueued now i sig why (rows st) = (k, t)" by fastforce
  have c: "calm env st (st\<lparr>rows := t\<rparr>)" using quietStep.failed [of "builtFrom env" "rows st" now i sig why] m by (intro calm_row) simp
  have p: "calm env st (fst (publishFailedRow pubOk now i r (st\<lparr>rows := t\<rparr>)))" for r
    by (rule calm_trans [OF c calm_publishFailedRow])
  show ?thesis
    by (cases k; cases "LoadByMatchEventID t i") (simp_all add: failMark_def m case_prod_beta Let_def c p)
qed

lemma calm_failSubmission: "calm env st (fst (failSubmission pubOk now i k sig why rel st))"
proof -
  obtain m st' out where f: "failMark pubOk now i sig why st = (m, st', out)" using prod_cases3 by blast
  have c: "calm env st st'" using calm_failMark [of env st pubOk now i sig why] f by simp
  then show ?thesis using calm_trans [OF c calm_failRelease] by (cases m) (simp_all add: failSubmission_def f)
qed

lemma calm_confirm: "calm env st (fst (confirmSubmission pubOk now r slot st))"
proof -
  obtain b t where m: "MarkConfirmedCAS now (sr_MatchEventID r) (sr_TxSignature r) slot (rows st) = (b, t)" by fastforce
  have c: "quietRun env (rows st) t" using quietStep.confirmed [of "builtFrom env" "rows st" now "sr_MatchEventID r" "sr_TxSignature r" slot] m by auto
  then have "quietRun env (rows st) (MarkTerminalEventPublished now i t)" for i
    by (rule rtranclp.rtrancl_into_rtrancl) (rule quietStep.terminalPublished)
  with c show ?thesis by (cases b) (auto simp: confirmSubmission_def m Let_def intro!: calm_rows)
qed

lemma insertOf_ok: "insert_ok (insertOf st ev)"
  using eventIDOf_ok [of ev] by (simp add: insert_ok_def insertOf_def Let_def)

lemma markInserted_same: "rows (fold markInserted ps st) = rows st \<and> lanes (fold markInserted ps st) = lanes st"
  by (induction ps arbitrary: st) (auto simp: markInserted_def markPrepareDirty_def)

lemma calm_ingress: "calm env st (fst (handleFetchedMessages now dbOk msgs st))"
proof -
  let ?qs = "map (\<lambda>m. insertOf st (the (fst m))) (filter settleable msgs)"
  have q: "quietStep (builtFrom env) (rows st) (snd (UpsertQueuedBatch now ?qs (rows st)))"
    by (rule quietStep.queue) (auto simp: insertOf_ok)
  have "calm env st (fold markInserted ps (st\<lparr>rows := snd (UpsertQueuedBatch now ?qs (rows st))\<rparr>))" for ps
    by (rule calm_trans [OF calm_row [OF q]], rule calm_same) (simp_all add: markInserted_same)
  then show ?thesis by (simp add: handleFetchedMessages_def Let_def case_prod_beta)
qed

lemma calm_enforce: "calm env st (fst (snd (enforceEstimatedTxBytes env pubOk now r batch st)))"
proof -
  have c: "calm env st (st\<lparr>s_estimates := cache\<rparr>)" for cache by (rule calm_same) simp_all
  have f: "calm env st (fst (failBeforeSubmit pubOk now r why (st\<lparr>s_estimates := cache\<rparr>)))" for cache why
    by (rule calm_trans [OF c calm_failBeforeSubmit])
  show ?thesis by (auto simp: enforceEstimatedTxBytes_def c f case_prod_beta split: sum.splits prod.splits)
qed

text \<open>A record read from the table stays tied to its row.\<close>

definition loaded :: "submissions \<Rightarrow> SubmissionRecord \<Rightarrow> bool" where
  "loaded t r \<longleftrightarrow> TrimSpace (sr_MatchEventID r) = sr_MatchEventID r \<and>
     (\<exists>r0. rowOf t (sr_MatchEventID r) = Some r0 \<and> sr_MatchEvent r0 = sr_MatchEvent r)"

lemma loaded_run: "(quietStep good)\<^sup>*\<^sup>* t t' \<Longrightarrow> loaded t r \<Longrightarrow> loaded t' r"
proof (induction rule: rtranclp_induct)
  case (step t1 t2)
  then show ?case using quietStep_evolves [OF step.hyps(2)] unfolding loaded_def evolves_def follows_def by metis
qed

lemma firstCreated_in: "firstCreated t = Some r \<Longrightarrow> \<exists>r0 \<in> set t. r = scanSubmissionRecord r0"
  unfolding firstCreated_def by (metis (no_types, lifting) list.case_eq_if list.set_sel(1) option.distinct(1) option.inject set_sort)

lemma loaded_next:
  assumes "table_ok t" "LoadNextQueuedByMarket t k = Some r" shows "loaded t r"
proof -
  obtain r0 where r0: "r0 \<in> set t" "r = scanSubmissionRecord r0"
    using firstCreated_in assms(2) unfolding LoadNextQueuedByMarket_def by fastforce
  then show ?thesis using assms(1) rowOf_member [OF assms(1) r0(1)] by (auto simp: loaded_def table_ok_def)
qed

lemma calm_prepared:
  assumes "MarkPreparedCAS now (sr_MatchEventID r) payload (rows st) = (b, t)" "builtFrom env (sr_MatchEvent r) payload"
    "table_ok (rows st) \<Longrightarrow> loaded (rows st) r"
  shows "calm env st (st\<lparr>rows := t\<rparr>)"
proof (rule calm_rows)
  assume "table_ok (rows st)"
  then obtain r0 where "rowOf (rows st) (sr_MatchEventID r) = Some r0" "TrimSpace (sr_MatchEventID r) = sr_MatchEventID r"
    "builtFrom env (sr_MatchEvent r0) payload" using assms(2,3) unfolding loaded_def by auto
  then show "quietRun env (rows st) t" using quietStep.prepared [of "rows st" "sr_MatchEventID r" r0 "builtFrom env" payload now] assms(1) by auto
qed

lemma calm_marks: "calm env st st' \<Longrightarrow> calm env st (schedulePrepareRetry k st')" "calm env st st' \<Longrightarrow> calm env st (markDirty k st')"
  "calm env st st' \<Longrightarrow> calm env st (markPrepareDirty k st')" "calm env st st' \<Longrightarrow> calm env st (startWatchTask r st')"
  by (simp_all add: calm_def)

lemma calm_prepareSubmission:
  assumes "table_ok (rows st) \<Longrightarrow> loaded (rows st) r"
  shows "calm env st (fst (prepareSubmission env pubOk now r st))"
proof (cases "BuildSubmissionBatch (env_parseKey env) (env_programID env) (sr_MatchEvent r)")
  case (Inr batch0)
  define batch where "batch = applyWarmOrderStates (env_showKey env) (s_orderRegistry st) batch0"
  obtain e st1 out where e: "enforceEstimatedTxBytes env pubOk now r batch st = (e, st1, out)" using prod_cases3 by blast
  have c: "calm env st st1" using calm_enforce [of env st pubOk now r batch] e by simp
  show ?thesis
  proof (cases "encodePreparedPayload (env_showKey env) batch")
    case (Inr payload)
    obtain b t where m: "MarkPreparedCAS now (sr_MatchEventID r) payload (rows st1) = (b, t)" by fastforce
    have bf: "builtFrom env (sr_MatchEvent r) payload"
      unfolding builtFrom_def using \<open>BuildSubmissionBatch _ _ _ = _\<close> Inr unfolding batch_def by blast
    have "calm env st (st1\<lparr>rows := t\<rparr>)"
    proof (cases "table_ok (rows st)")
      case True
      then have "loaded (rows st1) r" using c assms loaded_run unfolding calm_def by blast
      then show ?thesis by (intro calm_trans [OF c calm_prepared [OF m bf]])
    next
      case False
      then show ?thesis using c by (simp add: calm_def)
    qed
    then show ?thesis using c
      by (cases e; cases b) (simp_all add: prepareSubmission_def Let_def \<open>BuildSubmissionBatch _ _ _ = _\<close> batch_def [symmetric] e Inr m calm_marks)
  qed (cases e; simp add: prepareSubmission_def Let_def \<open>BuildSubmissionBatch _ _ _ = _\<close> batch_def [symmetric] e calm_marks c)
qed (simp add: prepareSubmission_def calm_marks)

lemma calm_prepareMarkets: "calm env st (fst (prepareMarkets env pubOk now ks st))"
proof (induction ks arbitrary: st)
  case (Cons k ks)
  let ?p = "case LoadNextQueuedByMarket (rows st) k of None \<Rightarrow> (st, []) | Some r \<Rightarrow> prepareSubmission env pubOk now r st"
  have "calm env st (fst ?p)" by (auto simp: calm_prepareSubmission loaded_next split: option.split)
  then have "calm env st (fst (prepareMarkets env pubOk now ks (fst ?p)))" using Cons.IH by (rule calm_trans)
  then show ?case by (simp add: Let_def case_prod_beta)
qed simp

lemma calm_prepareDirty: "calm env st (fst (prepareDirtyMarkets env pubOk now st))"
proof -
  have "calm env st (st\<lparr>prepareDirty := {}\<rparr>)" by (rule calm_same) simp_all
  then have "calm env st (fst (prepareMarkets env pubOk now ks (st\<lparr>prepareDirty := {}\<rparr>)))" for ks
    by (rule calm_trans [OF _ calm_prepareMarkets])
  then show ?thesis by (simp add: prepareDirtyMarkets_def drainPrepareDirtyMarkets_def)
qed

lemma run_republishSubmitted: "quietRun env t (fst (snd (republishSubmitted ok now rs t)))"
proof (induction rs arbitrary: t)
  case (Cons r rs)
  have "quietRun env t (fst (snd (republishSubmitted ok now rs (MarkSubmittedEventPublished now (sr_MatchEventID r) t))))"
    by (rule converse_rtranclp_into_rtranclp [OF quietStep.submittedPublished Cons.IH])
  then show ?case by (simp add: case_prod_beta)
qed simp

lemma run_republishTerminal: "quietRun env t (fst (snd (republishTerminal ok now rs t)))"
proof (induction rs arbitrary: t)
  case (Cons r rs)
  have "quietRun env t (fst (snd (republishTerminal ok now rs (MarkTerminalEventPublished now (sr_MatchEventID r) t))))"
    by (rule converse_rtranclp_into_rtranclp [OF quietStep.terminalPublished Cons.IH])
  then show ?case using Cons.IH by (simp add: case_prod_beta)
qed simp

lemma run_republish: "quietRun env t (fst (snd (republishUnpublishedEvents ok now t)))"
proof -
  obtain d t1 out where r: "republishSubmitted ok now (ListUnpublishedSubmitted t) t = (d, t1, out)" using prod_cases3 by blast
  have q: "quietRun env t t1" using run_republishSubmitted [of env t ok now "ListUnpublishedSubmitted t"] r by simp
  have "quietRun env t (fst (snd (republishTerminal ok now rs t1)))" for rs
    by (rule rtranclp_trans [OF q run_republishTerminal])
  then show ?thesis using q by (simp add: republishUnpublishedEvents_def r case_prod_beta)
qed

section \<open>The invariant of the running service\<close>

text \<open>Outside the markets in \<open>unreported\<close>, an event with work under way is not submitted and has one worker.\<close>

definition sys_inv :: "settlementSystem \<Rightarrow> bool" where
  "sys_inv s \<longleftrightarrow> lane_inv (unreported s) (rows (svc s)) (laneOf (svc s)) (submitting s \<union> processing s) \<and>
     (\<forall>i r. i \<in> submitting s \<union> processing s \<longrightarrow> rowOf (rows (svc s)) i = Some r \<longrightarrow> sr_MarketID r \<notin> unreported s \<longrightarrow>
        sr_Status r \<noteq> StatusSubmitted \<and> i \<notin> submitting s \<inter> processing s)"

lemma sys_invD:
  assumes "sys_inv s"
  shows "lane_inv (unreported s) (rows (svc s)) (laneOf (svc s)) (submitting s \<union> processing s)"
    "\<And>i r. i \<in> submitting s \<union> processing s \<Longrightarrow> rowOf (rows (svc s)) i = Some r \<Longrightarrow> sr_MarketID r \<notin> unreported s \<Longrightarrow>
       sr_Status r \<noteq> StatusSubmitted \<and> i \<notin> submitting s \<inter> processing s"
  using assms unfolding sys_inv_def by blast+

lemma sys_inv_calm:
  assumes "sys_inv s" "calm env (svc s) st" "subs \<subseteq> submitting s"
  shows "sys_inv (s\<lparr>svc := st, submitting := subs\<rparr>)"
proof -
  let ?busy = "submitting s \<union> processing s"
  note l = sys_invD(1) [OF assms(1)] and n = sys_invD(2) [OF assms(1)]
  have q: "quiet (rows (svc s)) (rows st)" using assms(2) l by (auto simp: calm_def lane_inv_def intro: quietRun_quiet)
  have "lane_inv (unreported s) (rows st) (laneOf st) (subs \<union> processing s)"
    using assms(3) by (intro lane_inv_shrink [OF calm_inv [OF assms(2) l]]) blast+
  moreover have "sr_Status r' \<noteq> StatusSubmitted \<and> i \<notin> subs \<inter> processing s"
    if i: "i \<in> subs \<union> processing s" "rowOf (rows st) i = Some r'" "sr_MarketID r' \<notin> unreported s" for i r'
  proof -
    have b: "i \<in> ?busy" using i(1) assms(3) by blast
    then obtain r where r: "rowOf (rows (svc s)) i = Some r" using lane_inv_row [OF l] by blast
    then have m: "sr_MarketID r = sr_MarketID r'" using q i(2) unfolding quiet_def persists_def by fastforce
    have "sr_Status r \<noteq> StatusSubmitted \<and> i \<notin> submitting s \<inter> processing s" by (rule n [OF b r]) (use m i(3) in simp)
    then show ?thesis using q r i(2) assms(3) unfolding quiet_def by fastforce
  qed
  ultimately show ?thesis unfolding sys_inv_def by auto
qed

lemma sys_inv_calm': "sys_inv s \<Longrightarrow> calm env (svc s) st \<Longrightarrow> sys_inv (s\<lparr>svc := st\<rparr>)"
  using sys_inv_calm [of s env st "submitting s"] by simp

text \<open>Taking a lane.\<close>

lemma lane_inv_adopt:
  assumes "lane_inv X t ln busy" "rowOf t i = Some r" "CurrentMatchEventID lane = i"
  shows "lane_inv X t (ln(sr_MarketID r := lane)) busy"
proof -
  have "i \<noteq> []" using assms rowOf_id rowOf_in unfolding lane_inv_def table_ok_def by fastforce
  then show ?thesis using assms unfolding lane_inv_def by auto
qed

lemma lane_inv_take:
  assumes "lane_inv X t ln busy" "inflight X t busy (sr_MarketID r) = {}" "rowOf t i = Some r" "CurrentMatchEventID lane = i"
  shows "lane_inv X t (ln(sr_MarketID r := lane)) (insert i busy)"
proof -
  let ?ln = "ln(sr_MarketID r := lane)"
  have a: "lane_inv X t ?ln busy" by (rule lane_inv_adopt [OF assms(1,3,4)])
  have "i \<noteq> []" using assms rowOf_id rowOf_in unfolding lane_inv_def table_ok_def by fastforce
  have f: "inflight X t (insert i busy) m = (if m = sr_MarketID r \<and> m \<notin> X then {i} else inflight X t busy m)" for m
    using assms(2,3) unfolding inflight_def by (auto split: if_splits)
  show ?thesis unfolding lane_inv_def f
    using a assms(3,4) \<open>i \<noteq> []\<close> unfolding lane_inv_def by auto
qed

lemma lane_free:
  "lane_inv X t ln busy \<Longrightarrow> \<not> ln_Paused (ln m) \<Longrightarrow> CurrentMatchEventID (ln m) = [] \<Longrightarrow> inflight X t busy m = {}"
  unfolding lane_inv_def by blast

lemma sys_inv_schedule:
  assumes "sys_inv s" "rowOf (rows (svc s)) i = Some r" "lane = laneOf (svc s) (sr_MarketID r)" "\<not> ln_Paused lane" "CurrentMatchEventID lane = []"
  shows "sys_inv (s\<lparr>svc := putLane (sr_MarketID r) (lane\<lparr>CurrentMatchEventID := i\<rparr>) (svc s), submitting := insert i (submitting s)\<rparr>)"
proof -
  let ?busy = "submitting s \<union> processing s"
  note l = sys_invD(1) [OF assms(1)]
  have e: "inflight (unreported s) (rows (svc s)) ?busy (sr_MarketID r) = {}" using lane_free [OF l] assms(3-5) by simp
  then have "sr_MarketID r \<notin> unreported s \<Longrightarrow> i \<notin> ?busy \<and> sr_Status r \<noteq> StatusSubmitted" using assms(2) unfolding inflight_def by blast
  moreover have "lane_inv (unreported s) (rows (svc s)) ((laneOf (svc s))(sr_MarketID r := lane\<lparr>CurrentMatchEventID := i\<rparr>)) (insert i ?busy)"
    by (rule lane_inv_take [OF l e assms(2)]) simp
  ultimately show ?thesis using assms(1,2) unfolding sys_inv_def by auto
qed

text \<open>Giving it back.\<close>

lemma laneOf_back:
  assumes "lane_inv X (rows st) (laneOf st) busy" "rowOf (rows st) i = Some r"
  shows "laneOf (releaseLaneByMatchEvent i False st) = laneOf st \<or>
    laneOf (releaseLaneByMatchEvent i False st) = (laneOf st)(sr_MarketID r := (laneOf st (sr_MarketID r))\<lparr>CurrentMatchEventID := []\<rparr>)"
proof -
  have only: "m = sr_MarketID r" if "CurrentMatchEventID (laneOf st m) = i" "lanes st m \<noteq> None" for m
    using that assms rowOf_id [OF assms(2)] rowOf_in [OF assms(2)] unfolding lane_inv_def table_ok_def by fastforce
  show ?thesis
  proof (cases "CurrentMatchEventID (laneOf st (sr_MarketID r)) = i \<and> lanes st (sr_MarketID r) \<noteq> None")
    case True
    then have "laneOf (releaseLaneByMatchEvent i False st) = (laneOf st)(sr_MarketID r := (laneOf st (sr_MarketID r))\<lparr>CurrentMatchEventID := []\<rparr>)"
      using only by (intro ext) (auto simp: laneOf_release)
    then show ?thesis by (rule disjI2)
  next
    case False
    then have "laneOf (releaseLaneByMatchEvent i False st) = laneOf st"
      using only by (intro ext) (auto simp: laneOf_release)
    then show ?thesis by (rule disjI1)
  qed
qed

lemma sys_inv_abort:
  assumes "sys_inv s" "i \<in> submitting s"
  shows "sys_inv (s\<lparr>svc := abortSubmit i requeue (svc s), submitting := submitting s - {i}\<rparr>)"
proof -
  let ?t = "rows (svc s)" and ?ln = "laneOf (svc s)" and ?busy = "submitting s \<union> processing s" and ?busy' = "submitting s - {i} \<union> processing s"
  note l = sys_invD(1) [OF assms(1)]
  obtain r where r: "rowOf ?t i = Some r" using lane_inv_row [OF l, of i] assms(2) by blast
  have ns: "sr_Status r \<noteq> StatusSubmitted \<and> i \<notin> ?busy'" if "sr_MarketID r \<notin> unreported s"
    using sys_invD(2) [OF assms(1) _ r that] assms(2) by blast
  have b: "i \<in> ?busy" "?busy' \<subseteq> ?busy" using assms(2) by blast+
  note l' = lane_inv_end(1) [OF l b(1) r b(2) ns] and e = lane_inv_end(2) [OF l b(1) r b(2) ns]
  have "lane_inv (unreported s) ?t (laneOf (releaseLaneByMatchEvent i False (svc s))) ?busy'"
    using laneOf_back [OF l r] l' lane_inv_clear [OF l' e, of "(?ln (sr_MarketID r))\<lparr>CurrentMatchEventID := []\<rparr>"] by auto
  moreover have "sr_Status q \<noteq> StatusSubmitted \<and> j \<notin> (submitting s - {i}) \<inter> processing s"
    if "j \<in> ?busy'" "rowOf ?t j = Some q" "sr_MarketID q \<notin> unreported s" for j q
    using sys_invD(2) [OF assms(1) _ that(2,3)] that(1) by blast
  ultimately show ?thesis
    unfolding sys_inv_def abortSubmit_def by (auto simp: Let_def laneOf_release(2) split: option.split)
qed

lemma sys_inv_release:
  assumes "sys_inv s" "i \<in> processing s" "rowOf (rows (svc s)) i = Some r"
  shows "sys_inv (s\<lparr>svc := processRelease (sr_MarketID r) (svc s), processing := processing s - {i}\<rparr>)"
proof -
  let ?t = "rows (svc s)" and ?ln = "laneOf (svc s)" and ?busy = "submitting s \<union> processing s" and ?busy' = "submitting s \<union> (processing s - {i})"
  note l = sys_invD(1) [OF assms(1)]
  have ns: "sr_Status r \<noteq> StatusSubmitted \<and> i \<notin> ?busy'" if "sr_MarketID r \<notin> unreported s"
    using sys_invD(2) [OF assms(1) _ assms(3) that] assms(2) by blast
  have b: "i \<in> ?busy" "?busy' \<subseteq> ?busy" using assms(2) by blast+
  note l' = lane_inv_end(1) [OF l b(1) assms(3) b(2) ns] and e = lane_inv_end(2) [OF l b(1) assms(3) b(2) ns]
  have "lane_inv (unreported s) ?t (?ln(sr_MarketID r := (?ln (sr_MarketID r))\<lparr>CurrentMatchEventID := []\<rparr>)) ?busy'"
    by (rule lane_inv_clear [OF l' e]) simp_all
  moreover have "sr_Status q \<noteq> StatusSubmitted \<and> j \<notin> submitting s \<inter> (processing s - {i})"
    if "j \<in> ?busy'" "rowOf ?t j = Some q" "sr_MarketID q \<notin> unreported s" for j q
    using sys_invD(2) [OF assms(1) _ that(2,3)] that(1) by blast
  ultimately show ?thesis unfolding sys_inv_def processRelease_def by (auto simp: Let_def)
qed

text \<open>The two compare-and-sets that open and close a submission.\<close>

lemma submitted_rows:
  assumes "MarkSubmittedCAS now i sig raw h t = (b, t')" "table_ok t" "TrimSpace i = i"
  shows "persists t t'" "table_ok t'"
    "rowOf t' j = Some r' \<Longrightarrow> sr_Status r' = StatusSubmitted \<Longrightarrow> j = i \<or> (\<exists>r. rowOf t j = Some r \<and> sr_Status r = StatusSubmitted)"
proof -
  define P where "P = (\<lambda>r :: SubmissionRecord. sr_MatchEventID r = i \<and> sr_Status r = StatusPrepared \<and> sr_MarketLaneStatus r = LaneActive)"
  define f where "f = (\<lambda>r :: SubmissionRecord. touch now (r\<lparr>sr_TxSignature := TrimSpace sig, sr_RawTxBase64 := TrimSpace raw, sr_LastValidBlockHeight := h, sr_Status := StatusSubmitted\<rparr>))"
  let ?g = "\<lambda>r. if P r then f r else r"
  have t': "t' = map ?g t"
    using assms(1,3) by (auto simp: MarkSubmittedCAS_def casUpdate_def updateWhere_def P_def f_def)
  have c: "changes ?g" by (rule changes_cond) (auto simp: P_def f_def lifecycle_def intro!: follows_touch)
  show "persists t t'" unfolding t' by (rule evolves_persists [OF changes_evolves [OF c]])
  show "table_ok t'" unfolding t' changes_table_ok [OF c] by (rule assms(2))
  show "j = i \<or> (\<exists>r. rowOf t j = Some r \<and> sr_Status r = StatusSubmitted)" if "rowOf t' j = Some r'" "sr_Status r' = StatusSubmitted"
  proof -
    from that(1) obtain r where r: "rowOf t j = Some r" "r' = ?g r" unfolding t' rowOf_changes [OF c] by (cases "rowOf t j") auto
    then show ?thesis using that(2) rowOf_id [OF r(1)] by (cases "P r") (auto simp: P_def)
  qed
qed

lemma processed_row:
  assumes "MarkProcessedCAS now i sig slot t = (True, t')" "table_ok t"
  obtains r r' where "rowOf t (TrimSpace i) = Some r" "sr_Status r = StatusSubmitted"
    "rowOf t' (TrimSpace i) = Some r'" "sr_Status r' = StatusProcessed" "sr_MarketID r' = sr_MarketID r"
proof -
  define P where "P = (\<lambda>r :: SubmissionRecord. sr_MatchEventID r = TrimSpace i \<and> sr_Status r = StatusSubmitted \<and> sr_TxSignature r = TrimSpace sig)"
  define f where "f = (\<lambda>r :: SubmissionRecord. touch now (r\<lparr>sr_Status := StatusProcessed, sr_ProcessedSlot := slot, sr_ProcessedAt := Some now\<rparr>))"
  have t': "t' = map (\<lambda>r. if P r then f r else r) t" and n: "length (filter P t) = 1"
    using assms(1) by (auto simp: MarkProcessedCAS_def casUpdate_def updateWhere_def P_def f_def)
  obtain r where r: "r \<in> set t" "P r" using n by (metis One_nat_def filter_False length_0_conv zero_neq_one)
  have c: "changes (\<lambda>r. if P r then f r else r)" by (rule changes_cond) (auto simp: P_def f_def lifecycle_def intro!: follows_touch)
  have "rowOf t (TrimSpace i) = Some r" using rowOf_member [OF assms(2) r(1)] r(2) by (simp add: P_def)
  moreover from this have "rowOf t' (TrimSpace i) = Some (f r)" unfolding t' rowOf_changes [OF c] using r(2) by simp
  ultimately show thesis using r(2) by (intro that [of r "f r"]) (auto simp: P_def f_def)
qed

lemma load_rowOf: "LoadByMatchEventID t i = map_option scanSubmissionRecord (rowOf t (TrimSpace i))"
  by (simp add: LoadByMatchEventID_def rowOf_def)

lemma calm_commit:
  assumes "MarkSubmittedCAS now i sig raw h (rows st) = (True, t)" "casReply ans = Reported"
  shows "calm env (st\<lparr>rows := t\<rparr>) (fst (commitSubmit ans now i k sig raw h st))"
proof -
  define st1 where "st1 = st\<lparr>rows := (if busOk ans then MarkSubmittedEventPublished now i t else t)\<rparr>"
  have c: "calm env (st\<lparr>rows := t\<rparr>) st1"
    using calm_row [OF quietStep.submittedPublished, of env "st\<lparr>rows := t\<rparr>" now i] by (simp add: st1_def)
  have f: "calm env (st\<lparr>rows := t\<rparr>) (fst (failSubmission (busOk ans) now i k sig why True st1))" for why
    by (rule calm_trans [OF c calm_failSubmission])
  show ?thesis
    using c f by (cases "if loadOk ans then LoadByMatchEventID t i else None"; cases "broadcastError ans")
      (simp_all add: commitSubmit_def assms Let_def st1_def [symmetric] case_prod_beta calm_marks)
qed

text \<open>The row is submitted: its worker is done with it, or its market is among the exempt.\<close>

lemma submitted_lane:
  assumes "lane_inv X t ln busy" "MarkSubmittedCAS now i sig raw h t = (b, t')" "i \<in> busy" "busy' \<subseteq> busy" "X \<subseteq> X'"
  shows "lane_inv X' t' ln busy'"
proof -
  obtain r where r: "rowOf t i = Some r" using lane_inv_row [OF assms(1,3)] by blast
  have ok: "table_ok t" using assms(1) by (simp add: lane_inv_def)
  have trim: "TrimSpace i = i" using ok rowOf_id [OF r] rowOf_in [OF r] unfolding table_ok_def by auto
  note rows = submitted_rows [OF assms(2) ok trim]
  have fl: "inflight X' t' busy' m \<subseteq> inflight X t busy m" for m
  proof
    fix j assume j: "j \<in> inflight X' t' busy' m"
    then obtain r' where r': "rowOf t' j = Some r'" "j \<in> busy' \<or> sr_Status r' = StatusSubmitted" unfolding inflight_def by blast
    have "\<exists>r. rowOf t j = Some r \<and> (j \<in> busy \<or> sr_Status r = StatusSubmitted)"
      using r' rows(3) [of j r'] assms(3,4) r lane_inv_row [OF assms(1), of j] by blast
    moreover have "j \<in> inflight X t' busy' m" using j assms(5) unfolding inflight_def by blast
    ultimately show "j \<in> inflight X t busy m" using inflight_persists [OF rows(1)] by blast
  qed
  have ex: "rowOf t' j \<noteq> None" if "j \<in> busy'" for j
    using that assms(4) lane_inv_row [OF assms(1), of j] persists_row [OF rows(1)] by blast
  show ?thesis by (rule lane_inv_mono [OF assms(1) rows(1,2) fl ex])
qed

lemma sys_inv_submitted:
  assumes "sys_inv s" "i \<in> submitting s" "rowOf (rows (svc s)) i = Some r" "MarkSubmittedCAS now i sig raw h (rows (svc s)) = (b, t)"
    "subs \<subseteq> submitting s" "unreported s \<subseteq> X" "i \<in> subs \<Longrightarrow> sr_MarketID r \<in> X"
  shows "sys_inv (s\<lparr>svc := (svc s)\<lparr>rows := t\<rparr>, submitting := subs, unreported := X\<rparr>)"
proof -
  note l = sys_invD(1) [OF assms(1)]
  let ?t = "rows (svc s)" and ?busy = "submitting s \<union> processing s" and ?busy' = "subs \<union> processing s"
  have ok: "table_ok ?t" using l by (simp add: lane_inv_def)
  have trim: "TrimSpace i = i" using ok rowOf_id [OF assms(3)] rowOf_in [OF assms(3)] unfolding table_ok_def by auto
  note rows = submitted_rows [OF assms(4) ok trim]
  have b: "i \<in> ?busy" "?busy' \<subseteq> ?busy" using assms(2,5) by blast+
  have "lane_inv X t (laneOf (svc s)) ?busy'" by (rule submitted_lane [OF l assms(4) b assms(6)])
  moreover have "sr_Status q' \<noteq> StatusSubmitted \<and> j \<notin> subs \<inter> processing s"
    if j: "j \<in> ?busy'" "rowOf t j = Some q'" "sr_MarketID q' \<notin> X" for j q'
  proof -
    have jb: "j \<in> ?busy" using j(1) b(2) by blast
    obtain q where q: "rowOf ?t j = Some q" using lane_inv_row [OF l jb] by blast
    then have m: "sr_MarketID q = sr_MarketID q'" using rows(1) j(2) unfolding persists_def by fastforce
    have u: "sr_MarketID q \<notin> unreported s" using m j(3) assms(6) by auto
    note n = sys_invD(2) [OF assms(1) jb q u]
    have "j \<noteq> i"
    proof
      assume "j = i"
      then have "i \<notin> subs" "i \<in> processing s" using assms(3,7) q m j(1,3) by auto
      then show False using n assms(2) \<open>j = i\<close> by blast
    qed
    then show ?thesis using n rows(3) [OF j(2)] q assms(5) by auto
  qed
  ultimately show ?thesis unfolding sys_inv_def by auto
qed

lemma one_by_key: "distinct (map f xs) \<Longrightarrow> length (filter (\<lambda>r. f r = a \<and> Q r) xs) \<le> 1"
proof (induction xs)
  case (Cons x xs)
  have "filter (\<lambda>r. f r = a \<and> Q r) xs = []" if "f x = a" using that Cons.prems by (auto simp: filter_empty_conv rev_image_eqI)
  then show ?case using Cons by auto
qed simp

lemma cas_refused:
  assumes "table_ok t" "MarkSubmittedCAS now i sig raw h t = (False, t')" shows "t' = t"
proof -
  let ?P = "\<lambda>r. sr_MatchEventID r = TrimSpace i \<and> sr_Status r = StatusPrepared \<and> sr_MarketLaneStatus r = LaneActive"
  have "length (filter ?P t) \<le> 1" using assms(1) one_by_key [of sr_MatchEventID t "TrimSpace i"] by (simp add: table_ok_def)
  moreover have "length (filter ?P t) \<noteq> 1" using assms(2) by (simp add: MarkSubmittedCAS_def casUpdate_def updateWhere_def)
  ultimately have "length (filter ?P t) = 0" by linarith
  then have none: "\<not> ?P r" if "r \<in> set t" for r using that unfolding length_0_conv filter_empty_conv by blast
  have "t' = map (\<lambda>r. if ?P r then touch now (r\<lparr>sr_TxSignature := TrimSpace sig, sr_RawTxBase64 := TrimSpace raw,
      sr_LastValidBlockHeight := h, sr_Status := StatusSubmitted\<rparr>) else r) t"
    using assms(2) unfolding MarkSubmittedCAS_def casUpdate_def updateWhere_def by simp
  also have "\<dots> = map (\<lambda>r. r) t" by (rule map_cong [OF refl]) (simp only: none if_False)
  finally show ?thesis by simp
qed

lemma sys_inv_commit:
  assumes "sys_inv s" "i \<in> submitting s" "rowOf (rows (svc s)) i = Some r"
  shows "sys_inv (s\<lparr>svc := fst (commitSubmit ans now i k sig raw h (svc s)), submitting := submitting s - {i},
    unreported := unreportedBy (casReply ans) (fst (MarkSubmittedCAS now i sig raw h (rows (svc s)))) r (unreported s)\<rparr>)"
proof -
  obtain b t where m: "MarkSubmittedCAS now i sig raw h (rows (svc s)) = (b, t)" by fastforce
  note given = sys_inv_abort [OF assms(1,2), of "Some k"]
  consider "casReply ans = Reported" "b" | "casReply ans = DoneUnreported" "b" | "casReply ans = DoneUnreported" "\<not> b"
    | "casReply ans = Reported \<and> \<not> b \<or> casReply ans = NotDone" by (cases "casReply ans") auto
  then show ?thesis
  proof cases
    case 1
    have "sys_inv (s\<lparr>svc := (svc s)\<lparr>rows := t\<rparr>, submitting := submitting s - {i}, unreported := unreported s\<rparr>)"
      by (rule sys_inv_submitted [OF assms m]) auto
    from sys_inv_calm' [OF this, of undefined "fst (commitSubmit ans now i k sig raw h (svc s))"]
    show ?thesis using calm_commit [of now i sig raw h "svc s" t ans undefined k] m 1 by (simp add: unreportedBy_def sys_inv_def)
  next
    case 2
    let ?s = "s\<lparr>svc := (svc s)\<lparr>rows := t\<rparr>, submitting := submitting s, unreported := insert (sr_MarketID r) (unreported s)\<rparr>"
    have "sys_inv ?s" by (rule sys_inv_submitted [OF assms m]) auto
    from sys_inv_abort [OF this, of i "Some k"] assms(2) show ?thesis
      using 2 m by (simp add: commitSubmit_def unreportedBy_def sys_inv_def)
  next
    case 3
    then have "t = rows (svc s)" using cas_refused sys_invD(1) [OF assms(1)] m by (auto simp: lane_inv_def)
    then show ?thesis using 3 m given by (simp add: commitSubmit_def unreportedBy_def)
  next
    case 4
    then show ?thesis using m given by (auto simp: commitSubmit_def unreportedBy_def)
  qed
qed

lemma sys_inv_marked:
  assumes "sys_inv s" "processMark env now r slot (svc s) = (Some r', st')"
  shows "sys_inv (s\<lparr>svc := st', processing := insert (sr_MatchEventID r') (processing s)\<rparr>)"
proof -
  let ?t = "rows (svc s)" and ?busy = "submitting s \<union> processing s" and ?i = "TrimSpace (sr_MatchEventID r)" and ?X = "unreported s"
  obtain b t where m: "MarkProcessedCAS now (sr_MatchEventID r) (sr_TxSignature r) slot ?t = (b, t)" by fastforce
  with assms(2) have b: "b" by (cases b) (simp_all add: processMark_def)
  note l = sys_invD(1) [OF assms(1)] and n = sys_invD(2) [OF assms(1)]
  then have ok: "table_ok ?t" by (simp add: lane_inv_def)
  obtain r0 r1 where r: "rowOf ?t ?i = Some r0" "sr_Status r0 = StatusSubmitted" "rowOf t ?i = Some r1" "sr_Status r1 = StatusProcessed"
    "sr_MarketID r1 = sr_MarketID r0"
    using processed_row [OF m [unfolded eqTrueI [OF b]] ok] by blast
  have i: "sr_MatchEventID r' = ?i" and st': "st' = observeProcessedEvidence env (scanSubmissionRecord r1) ((svc s)\<lparr>rows := t\<rparr>)"
    using assms(2) rowOf_id [OF r(3)] by (auto simp: processMark_def m b load_rowOf r(3) Let_def)
  have q: "quiet ?t t" using quiet_processed [OF ok, of now "sr_MatchEventID r" "sr_TxSignature r" slot] m by simp
  have p: "persists ?t t" and okt: "table_ok t" using q by (simp_all add: quiet_def)
  have fl: "inflight ?X t (insert ?i ?busy) m \<subseteq> inflight ?X ?t ?busy m" for m
  proof
    fix j assume j: "j \<in> inflight ?X t (insert ?i ?busy) m"
    then obtain r2 where r2: "rowOf t j = Some r2" "sr_MarketID r2 = m" "m \<notin> ?X" "j = ?i \<or> j \<in> ?busy \<or> sr_Status r2 = StatusSubmitted"
      unfolding inflight_def by blast
    show "j \<in> inflight ?X ?t ?busy m"
    proof (cases "j = ?i")
      case True
      then show ?thesis using r r2 unfolding inflight_def by auto
    next
      case False
      then have "j \<in> inflight ?X t ?busy m" using r2 unfolding inflight_def by blast
      moreover have "\<exists>r. rowOf ?t j = Some r \<and> (j \<in> ?busy \<or> sr_Status r = StatusSubmitted)"
        using r2 False q lane_inv_row [OF l, of j] unfolding quiet_def by blast
      ultimately show ?thesis using inflight_persists [OF p] by blast
    qed
  qed
  have ex: "rowOf t j \<noteq> None" if "j \<in> insert ?i ?busy" for j
    using that r(3) lane_inv_row [OF l, of j] persists_row [OF p, of j] by blast
  have "lane_inv ?X t (laneOf (svc s)) (insert ?i ?busy)" by (rule lane_inv_mono [OF l p okt fl ex])
  moreover have "sr_Status r2 \<noteq> StatusSubmitted \<and> j \<notin> submitting s \<inter> insert ?i (processing s)"
    if j: "j \<in> insert ?i ?busy" "rowOf t j = Some r2" "sr_MarketID r2 \<notin> ?X" for j r2
  proof (cases "j = ?i")
    case True
    then have "?i \<notin> submitting s" using n [of ?i r0] r j by auto
    then show ?thesis using True r j by simp
  next
    case False
    then have jb: "j \<in> ?busy" using j(1) by blast
    obtain q0 where q0: "rowOf ?t j = Some q0" using lane_inv_row [OF l jb] by blast
    have "sr_MarketID q0 \<notin> ?X" using p q0 j(2,3) unfolding persists_def by fastforce
    from n [OF jb q0 this] show ?thesis using q q0 j(2) False unfolding quiet_def by fastforce
  qed
  moreover have "laneOf st' = laneOf (svc s)" "rows st' = t" by (simp_all add: st')
  ultimately show ?thesis unfolding sys_inv_def i by auto
qed

text \<open>A restart rebuilds the lanes from the table.\<close>

definition recoverLane :: "SubmissionRecord \<Rightarrow> (u64 \<rightharpoonup> marketLane) \<Rightarrow> u64 \<rightharpoonup> marketLane" where
  "recoverLane r l = l(sr_MarketID r \<mapsto> (case l (sr_MarketID r) of None \<Rightarrow> newLane | Some x \<Rightarrow> x)\<lparr>CurrentMatchEventID := sr_MatchEventID r\<rparr>)"

definition currentOf :: "(u64 \<rightharpoonup> marketLane) \<Rightarrow> u64 \<Rightarrow> string" where
  "currentOf l m = CurrentMatchEventID (case l m of None \<Rightarrow> newLane | Some x \<Rightarrow> x)"

lemma currentOf_recover:
  "currentOf (fold recoverLane rs l) m = (case filter (\<lambda>r. sr_MarketID r = m) (rev rs) of [] \<Rightarrow> currentOf l m | r # _ \<Rightarrow> sr_MatchEventID r)"
  by (induction rs rule: rev_induct) (auto simp: currentOf_def recoverLane_def)

lemma currentOf_paused: "currentOf (fold (\<lambda>k l. l(k \<mapsto> newLane\<lparr>ln_Paused := True\<rparr>)) ks l) m = (if m \<in> set ks then [] else currentOf l m)"
  by (induction ks rule: rev_induct) (auto simp: currentOf_def newLane_def)

lemma current_recovered:
  "CurrentMatchEventID (laneOf (recoverState env t positions orders) m) =
     (case filter (\<lambda>r. sr_MarketID r = m) (rev (ListSubmitted t)) of [] \<Rightarrow> [] | r # _ \<Rightarrow> sr_MatchEventID r)"
  "rows (recoverState env t positions orders) = t"
proof -
  have o: "lanes (fold (observeProcessedEvidence env) rs st) = lanes st \<and> rows (fold (observeProcessedEvidence env) rs st) = rows st" for rs st
    by (induction rs arbitrary: st) (auto simp: observeProcessedEvidence_def)
  have "CurrentMatchEventID (laneOf (recoverState env t positions orders) m) = currentOf (recoverLanes t) m"
    by (simp add: laneOf_def recoverState_def o currentOf_def)
  also have "\<dots> = (case filter (\<lambda>r. sr_MarketID r = m) (rev (ListSubmitted t)) of [] \<Rightarrow> [] | r # _ \<Rightarrow> sr_MatchEventID r)"
    unfolding recoverLanes_def Let_def recoverLane_def [abs_def, symmetric] currentOf_recover currentOf_paused
    by (simp add: currentOf_def newLane_def split: list.split)
  finally show "CurrentMatchEventID (laneOf (recoverState env t positions orders) m) = \<dots>" .
  show "rows (recoverState env t positions orders) = t" by (simp add: recoverState_def o)
qed

lemma listSubmitted_set: "set (ListSubmitted t) = scanSubmissionRecord ` {r \<in> set t. sr_Status r = StatusSubmitted}"
  by (simp add: ListSubmitted_def collectSubmissionRecords_def)

lemma sys_inv_restart:
  assumes "table_ok t" "\<And>m i j. i \<in> inflight X t {} m \<Longrightarrow> j \<in> inflight X t {} m \<Longrightarrow> i = j"
  shows "sys_inv \<lparr>svc = recoverState env t positions orders, submitting = {}, processing = {}, unreported = X\<rparr>"
proof -
  let ?ln = "laneOf (recoverState env t positions orders)"
  have cur: "\<exists>r. rowOf t (CurrentMatchEventID (?ln m)) = Some r \<and> sr_MarketID r = m" if c: "CurrentMatchEventID (?ln m) \<noteq> []" for m
  proof -
    obtain r rs where f: "filter (\<lambda>r. sr_MarketID r = m) (rev (ListSubmitted t)) = r # rs" "CurrentMatchEventID (?ln m) = sr_MatchEventID r"
      using c by (auto simp: current_recovered split: list.splits)
    have "r \<in> set (ListSubmitted t) \<and> sr_MarketID r = m" using f(1) by (metis (mono_tags, lifting) list.set_intros(1) mem_Collect_eq set_filter set_rev)
    then obtain r0 where r0: "r0 \<in> set t" "r = scanSubmissionRecord r0" "sr_MarketID r0 = m" unfolding listSubmitted_set by auto
    then show ?thesis using rowOf_member [OF assms(1) r0(1)] f(2) by auto
  qed
  have busy: "CurrentMatchEventID (?ln m) \<noteq> []" if "inflight X t {} m \<noteq> {}" for m
  proof -
    obtain i r where r: "rowOf t i = Some r" "sr_MarketID r = m" "sr_Status r = StatusSubmitted" using \<open>inflight X t {} m \<noteq> {}\<close> unfolding inflight_def by blast
    then have "scanSubmissionRecord r \<in> set (filter (\<lambda>r. sr_MarketID r = m) (rev (ListSubmitted t)))" using rowOf_in by (auto simp: listSubmitted_set)
    then obtain q qs where q: "filter (\<lambda>r. sr_MarketID r = m) (rev (ListSubmitted t)) = q # qs" by (metis list.set_cases)
    then have "q \<in> set (ListSubmitted t)" by (metis (mono_tags, lifting) list.set_intros(1) mem_Collect_eq set_filter set_rev)
    then have "sr_MatchEventID q \<in> set (map sr_MatchEventID t)" by (auto simp: listSubmitted_set)
    then have "sr_MatchEventID q \<noteq> []" using assms(1) by (simp only: table_ok_def) blast
    then show ?thesis by (simp add: current_recovered q)
  qed
  have "lane_inv X t ?ln {}" unfolding lane_inv_def
  proof (intro conjI allI impI)
    show "i = j" if "i \<in> inflight X t {} m" "j \<in> inflight X t {} m" for m i j using that by (rule assms(2))
  qed (use assms(1) cur busy in auto)
  then show ?thesis by (simp add: sys_inv_def current_recovered(2))
qed

lemma sys_inv_step: "settleStep env s s' \<Longrightarrow> sys_inv s \<Longrightarrow> sys_inv s'"
proof (induction rule: settleStep.induct)
  case (schedule s i r lane) then show ?case by (intro sys_inv_schedule)
next
  case (abort i s requeue) then show ?case by (intro sys_inv_abort)
next
  case (oversize r s i pubOk now why) then show ?case by (intro sys_inv_calm calm_failBeforeSubmit) auto
next
  case (commit i s r ans now sig raw h k) then show ?case by (intro sys_inv_commit)
next
  case (marked now r slot s r' st') then show ?case by (intro sys_inv_marked)
next
  case (released i s r) then show ?case by (intro sys_inv_release)
next
  case (failed pubOk now i sig why s k st' out)
  then show ?case using sys_inv_calm' [OF failed.prems calm_failMark, of pubOk now i sig why] by simp
next
  case (adopt s i r lane)
  have "lane_inv (unreported s) (rows (svc s)) ((laneOf (svc s))(sr_MarketID r := lane\<lparr>CurrentMatchEventID := i\<rparr>)) (submitting s \<union> processing s)"
    using adopt by (intro lane_inv_adopt) (auto simp: sys_inv_def)
  then show ?case using adopt by (auto simp: sys_inv_def)
next
  case (restart s positions orders)
  have "lane_inv (unreported s) (rows (svc s)) (laneOf (svc s)) {}"
    by (rule lane_inv_shrink [OF sys_invD(1) [OF restart]]) simp_all
  then show ?case by (intro sys_inv_restart) (auto simp: lane_inv_def)
next
  case (timer s k) show ?case by (rule sys_inv_calm' [OF timer calm_same]) (simp_all add: prepareTimerFires_def markPrepareDirty_def)
next
  case (bookkeeping s ws d p ts) show ?case by (rule sys_inv_calm' [OF bookkeeping calm_same]) simp_all
next
  case (lostReply s t) then show ?case by (intro sys_inv_calm' calm_row)
next
  case (republished s ok now) then show ?case by (intro sys_inv_calm' calm_rows run_republish)
next
  case (replaced s now i old new raw h) then show ?case by (intro sys_inv_calm' calm_row quietStep.replaced)
qed (erule sys_inv_calm'; rule calm_ingress calm_prepareDirty calm_failRelease calm_confirm)+

lemma sys_inv_reach: "settleReach env s \<Longrightarrow> sys_inv s"
proof (induction rule: settleReach.induct)
  case (fresh positions orders)
  show ?case by (rule sys_inv_restart) (auto simp: table_ok_def inflight_def rowOf_def)
qed (rule sys_inv_step)

end
