(* ===== verification/SettlementProps.thy ===== *)
theory SettlementProps
  imports SettlementLaws
begin

text \<open>
  The properties of the settlement pipeline: the life of a row over any run, one transaction in flight per
  market, payloads that can always be read back, and the republication of events.
\<close>

section \<open>Runs of the service are runs of the table\<close>

lemma settleStep_runs:
  assumes "settleStep env s s'" "table_ok (rows (svc s))"
  shows "(repoStep (builtFrom env))\<^sup>*\<^sup>* (rows (svc s)) (rows (svc s'))"
proof -
  have quietly: "quietRun env t t' \<Longrightarrow> (repoStep (builtFrom env))\<^sup>*\<^sup>* t t'" for t t'
    by (erule mono_rtranclp [rule_format, rotated]) (rule repoStep.quietly)
  have calm: "calm env st st' \<Longrightarrow> table_ok (rows st) \<Longrightarrow> (repoStep (builtFrom env))\<^sup>*\<^sup>* (rows st) (rows st')" for st st'
    by (rule quietly) (simp add: calm_def)
  from assms show ?thesis
  proof (induction rule: settleStep.induct)
    case (commit i s r ans now sig raw h k)
    obtain b t where m: "MarkSubmittedCAS now i sig raw h (rows (svc s)) = (b, t)" by fastforce
    have a: "repoStep (builtFrom env) (rows (svc s)) t"
      using repoStep.submitted [of "builtFrom env" "rows (svc s)" now i sig raw h] m by simp
    show ?case
    proof (cases "casReply ans = Reported \<and> b")
      case True
      have ok: "table_ok t"
        using m commit.prems by (auto simp: MarkSubmittedCAS_def casUpdate_def updateWhere_def intro!: changes_cond follows_touch changes_table_ok [THEN iffD2]
          simp: lifecycle_def)
      have "(repoStep (builtFrom env))\<^sup>*\<^sup>* t (rows (fst (commitSubmit ans now i k sig raw h (svc s))))"
        using calm [OF calm_commit] m True ok by fastforce
      then show ?thesis using a by (simp add: converse_rtranclp_into_rtranclp)
    next
      case False
      then have "rows (fst (commitSubmit ans now i k sig raw h (svc s))) \<in> {rows (svc s), t}"
        by (cases "casReply ans") (auto simp: commitSubmit_def m abortSubmit_def Let_def laneOf_release split: option.split)
      then show ?thesis using r_into_rtranclp [of "repoStep (builtFrom env)", OF a] by auto
    qed
  next
    case (marked now r slot s r' st')
    obtain b t where m: "MarkProcessedCAS now (sr_MatchEventID r) (sr_TxSignature r) slot (rows (svc s)) = (b, t)" by fastforce
    with marked have "rows st' = t" by (cases b) (auto simp: processMark_def Let_def)
    then have "quietStep (builtFrom env) (rows (svc s)) (rows st')"
      using quietStep.processed [of "builtFrom env" "rows (svc s)" now "sr_MatchEventID r" "sr_TxSignature r" slot] m by simp
    then show ?case by (simp add: quietly [OF r_into_rtranclp])
  next
    case (failed pubOk now i sig why s k st' out)
    then show ?case using calm [OF calm_failMark, of "svc s" pubOk now i sig why] by simp
  next
    case (abort i s requeue)
    then show ?case by (simp add: abortSubmit_def Let_def laneOf_release split: option.split)
  next
    case (released i s r)
    then show ?case by (simp add: processRelease_def Let_def)
  next
    case (restart s positions orders)
    then show ?case by (simp add: current_recovered)
  next
    case (timer s k)
    then show ?case by (simp add: prepareTimerFires_def)
  next
    case (republished s ok now)
    then show ?case using quietly [OF run_republish] by simp
  next
    case (lostReply s t)
    then show ?case by (simp add: quietly r_into_rtranclp [of "quietStep (builtFrom env)"])
  next
    case (replaced s now i old new raw h)
    show ?case by (simp add: quietly r_into_rtranclp [of "quietStep (builtFrom env)"] quietStep.replaced)
  qed (simp_all add: calm calm_ingress calm_prepareDirty calm_failBeforeSubmit calm_failRelease calm_confirm)
qed

lemma reach_table: "settleReach env s \<Longrightarrow> table_ok (rows (svc s))"
  using sys_inv_reach by (simp add: sys_inv_def lane_inv_def)

lemma settleStep_reach: "(settleStep env)\<^sup>*\<^sup>* s s' \<Longrightarrow> settleReach env s \<Longrightarrow> settleReach env s'"
  by (induction rule: rtranclp_induct) (auto intro: settleReach.step)

lemma settleRun_runs: "(settleStep env)\<^sup>*\<^sup>* s s' \<Longrightarrow> settleReach env s \<Longrightarrow> (repoStep (builtFrom env))\<^sup>*\<^sup>* (rows (svc s)) (rows (svc s'))"
proof (induction rule: rtranclp_induct)
  case (step s1 s2)
  have "table_ok (rows (svc s1))" using settleStep_reach [OF step.hyps(1) step.prems] by (rule reach_table)
  then show ?case using step settleStep_runs by (meson rtranclp_trans)
qed simp

section \<open>The life of a row\<close>

text \<open>What a run may do to a row.\<close>

definition later :: "SubmissionRecord \<Rightarrow> SubmissionRecord \<Rightarrow> bool" where
  "later r r' \<longleftrightarrow> sr_MatchEventID r' = sr_MatchEventID r \<and> sr_MarketID r' = sr_MarketID r \<and> sr_MatchEvent r' = sr_MatchEvent r \<and>
     rank (sr_Status r) \<le> rank (sr_Status r') \<and> (terminal (sr_Status r) \<longrightarrow> sr_Status r' = sr_Status r) \<and>
     sr_Version r \<le> sr_Version r' \<and> (sr_Version r' = sr_Version r \<longrightarrow> r' = r) \<and>
     (sr_SubmittedEventPublished r \<longrightarrow> sr_SubmittedEventPublished r') \<and>
     (sr_TerminalEventPublished r \<longrightarrow> sr_TerminalEventPublished r') \<and>
     (sr_MarketLaneStatus r = LanePaused \<longrightarrow> sr_MarketLaneStatus r' = LanePaused)"

lemma lifecycle_later: "lifecycle s s' \<Longrightarrow> rank s \<le> rank s' \<and> (terminal s \<longrightarrow> s' = s)"
  by (cases s; cases s') (simp_all add: lifecycle_def terminal_def)

lemma follows_later: "follows r r' \<Longrightarrow> later r r'"
  using lifecycle_later by (auto simp: follows_def later_def)

lemma later_trans: "later r r' \<Longrightarrow> later r' r'' \<Longrightarrow> later r r''"
  unfolding later_def by auto

lemma run_later: "(repoStep good)\<^sup>*\<^sup>* t t' \<Longrightarrow> rowOf t i = Some r \<Longrightarrow> \<exists>r'. rowOf t' i = Some r' \<and> later r r'"
proof (induction rule: rtranclp_induct)
  case (step t1 t2)
  then obtain r1 where r1: "rowOf t1 i = Some r1" "later r r1" by blast
  then obtain r2 where "rowOf t2 i = Some r2" "follows r1 r2" using repoStep_evolves [OF step.hyps(2)] unfolding evolves_def by blast
  then show ?case using r1 later_trans follows_later by blast
qed (auto simp: later_def)

text \<open>C30: the lifecycle of a submission.  Between any two states of a running service, with all its handlers
  interleaved, with restarts, and with statements that are committed but report an error, no row is lost; it keeps its id, market and event; its status only moves
  forward along queued, prepared, submitted, processed, and a confirmed or failed row keeps that status;
  its version grows with every change; neither the two flags of published events nor a pause is taken back.\<close>
theorem submission_lifecycle:
  assumes "settleReach env s" "(settleStep env)\<^sup>*\<^sup>* s s'" "rowOf (rows (svc s)) i = Some r"
  shows "\<exists>r'. rowOf (rows (svc s')) i = Some r' \<and> later r r'"
  using run_later [OF settleRun_runs [OF assms(2,1)] assms(3)] .

section \<open>One transaction in flight\<close>




text \<open>The exception: after an error of a committed update the row is submitted, its lane is free and its market
  is marked for the scheduler, which takes the next prepared row.\<close>

lemma unreported_commit_frees_lane:
  assumes "casReply ans = DoneUnreported" "lanes st m = Some lane" "CurrentMatchEventID lane = i"
  shows "rows (fst (commitSubmit ans now i m sig raw h st)) = snd (MarkSubmittedCAS now i sig raw h (rows st))"
    "CurrentMatchEventID (laneOf (fst (commitSubmit ans now i m sig raw h st)) m) = []"
    "m \<in> dirtyMarkets (fst (commitSubmit ans now i m sig raw h st))"
  using assms by (simp_all add: commitSubmit_def abortSubmit_def case_prod_beta Let_def laneOf_release) (simp_all add: laneOf_def releaseLaneByMatchEvent_def markDirty_def)

text \<open>When the submitted row cannot be read again, an event without content is published, the row is marked as if its own
  event had been, and nothing watches it before the reconciler comes by.\<close>

lemma unread_row_published_blank:
  assumes "MarkSubmittedCAS now i sig raw h (rows st) = (True, t)" "casReply ans = Reported" "\<not> loadOk ans" "busOk ans"
    "broadcastError ans = None"
  shows "commitSubmit ans now i m sig raw h st =
    (st\<lparr>rows := MarkSubmittedEventPublished now i t\<rparr>, PublishSubmitted (blankSubmitted now) # broadcastRawTx raw)"
  using assms by (simp add: commitSubmit_def)

section \<open>Prepared payloads\<close>

definition hasPayload :: "SubmissionStatus \<Rightarrow> bool" where
  "hasPayload st \<longleftrightarrow> st \<in> {StatusPrepared, StatusSubmitted, StatusProcessed}"

definition payload_ok :: "(MatchBatchEvent \<Rightarrow> preparedSubmissionPayload \<Rightarrow> bool) \<Rightarrow> SubmissionRecord \<Rightarrow> bool" where
  "payload_ok good r \<longleftrightarrow> ev_MarketID (sr_MatchEvent r) = sr_MarketID r \<and> (\<forall>p. sr_PreparedPayload r = Some p \<longrightarrow> good (sr_MatchEvent r) p) \<and>
     (hasPayload (sr_Status r) \<longrightarrow> sr_PreparedPayload r \<noteq> None)"

lemma payload_ok_keep:
  "payload_ok good r \<Longrightarrow> sr_MatchEvent r' = sr_MatchEvent r \<Longrightarrow> sr_MarketID r' = sr_MarketID r \<Longrightarrow> sr_PreparedPayload r' = sr_PreparedPayload r \<Longrightarrow>
   (hasPayload (sr_Status r') \<Longrightarrow> hasPayload (sr_Status r)) \<Longrightarrow> payload_ok good r'"
  by (auto simp: payload_ok_def)

lemma payload_ok_update:
  assumes "\<forall>r \<in> set t. payload_ok good r" "\<And>r. r \<in> set t \<Longrightarrow> P r \<Longrightarrow> payload_ok good r \<Longrightarrow> payload_ok good (f r)"
  shows "\<forall>r \<in> set (snd (updateWhere P f t)). payload_ok good r" "\<forall>r \<in> set (snd (casUpdate P f t)). payload_ok good r"
  using assms by (auto simp: updateWhere_def casUpdate_def)

lemma payload_ok_fail:
  assumes "\<forall>r \<in> set t. payload_ok good r" shows "\<forall>r \<in> set (snd (failRow now P why t)). payload_ok good r"
proof (cases "find P t")
  case (Some q)
  show ?thesis unfolding failRow_def Some option.case Let_def snd_conv
    by (intro payload_ok_update assms; erule payload_ok_keep) (simp_all add: touch_def hasPayload_def)
qed (simp add: failRow_def assms)

lemma payload_ok_upsert:
  "\<forall>r \<in> set t. payload_ok good r \<Longrightarrow> \<forall>q \<in> set qs. insert_ok q \<Longrightarrow> \<forall>r \<in> set (snd (UpsertQueuedBatch now qs t)). payload_ok good r"
  by (induction now qs t rule: UpsertQueuedBatch.induct)
    (auto simp: case_prod_beta payload_ok_def insert_ok_def rowOfInsert_def hasPayload_def)

lemma payload_ok_quiet: "quietStep good t t' \<Longrightarrow> table_ok t \<Longrightarrow> \<forall>r \<in> set t. payload_ok good r \<Longrightarrow> \<forall>r \<in> set t'. payload_ok good r"
proof (induction rule: quietStep.induct)
  case (queue qs t now)
  then show ?case by (intro payload_ok_upsert)
next
  case (prepared t i r payload now)
  have same: "q = r" if "q \<in> set t" "sr_MatchEventID q = i" for q using rowOf_member [OF prepared.prems(1) that(1)] that(2) prepared.hyps(1) by simp
  show ?case unfolding MarkPreparedCAS_def
  proof (rule payload_ok_update [OF prepared.prems(2)])
    fix q assume q: "q \<in> set t" "payload_ok good q"
      "sr_MatchEventID q = TrimSpace i \<and> sr_Status q = StatusQueued \<and> sr_MarketLaneStatus q = LaneActive"
    then have "q = r" using same prepared.hyps(2) by simp
    then show "payload_ok good (touch now (q\<lparr>sr_PreparedPayload := Some payload, sr_Status := StatusPrepared, sr_PreparedAt := Some now\<rparr>))"
      using q(2) prepared.hyps(3) by (simp add: payload_ok_def touch_def)
  qed
next
  case (failedEarly t now i why)
  then show ?case unfolding fail_defs by (intro payload_ok_fail)
next
  case (failed t now i sig why)
  then show ?case unfolding fail_defs by (intro payload_ok_fail)
qed (unfold cas_defs MarkSubmittedEventPublished_def MarkTerminalEventPublished_def; intro payload_ok_update;
     (assumption | erule payload_ok_keep; simp add: touch_def hasPayload_def))+

lemma payload_ok_step:
  assumes "repoStep good t t'" "table_ok t" "\<forall>r \<in> set t. payload_ok good r" shows "\<forall>r \<in> set t'. payload_ok good r"
  using assms
proof (induction rule: repoStep.induct)
  case (submitted t now i sig raw h)
  show ?case unfolding MarkSubmittedCAS_def
    by (intro payload_ok_update submitted; erule payload_ok_keep) (simp_all add: touch_def hasPayload_def)
qed (rule payload_ok_quiet)

lemma table_ok_step: "repoStep good t t' \<Longrightarrow> table_ok t \<Longrightarrow> table_ok t'"
proof (induction rule: repoStep.induct)
  case (submitted t now i sig raw h)
  then show ?case by (auto simp: MarkSubmittedCAS_def casUpdate_def updateWhere_def lifecycle_def
    intro!: changes_cond follows_touch changes_table_ok [THEN iffD2])
qed (blast intro: quiet_ok quietStep_quiet)

lemma payload_ok_run: "(repoStep good)\<^sup>*\<^sup>* t t' \<Longrightarrow> table_ok t \<Longrightarrow> \<forall>r \<in> set t. payload_ok good r \<Longrightarrow> table_ok t' \<and> (\<forall>r \<in> set t'. payload_ok good r)"
proof (induction rule: rtranclp_induct)
  case (step t1 t2)
  then show ?case using table_ok_step [OF step.hyps(2)] payload_ok_step [OF step.hyps(2)] by simp
qed simp

lemma payload_ok_reach: "settleReach env s \<Longrightarrow> \<forall>r \<in> set (rows (svc s)). payload_ok (builtFrom env) r"
proof (induction rule: settleReach.induct)
  case (fresh positions orders)
  show ?case by (simp add: current_recovered)
next
  case (step s s')
  then show ?case using payload_ok_run [OF settleStep_runs [OF step.hyps(2)] reach_table] reach_table by blast
qed

lemma builtFrom_decodes:
  assumes "builtFrom env ev p" "key_codec (env_parseKey env) (env_showKey env)" "\<forall>x k. env_parseKey env x = Some k \<longrightarrow> length k = 32"
  shows "\<exists>batch. decodePreparedPayload (env_parseKey env) (env_showKey env) (env_programID env) p = Inr batch \<and>
    sb_MarketID batch = ev_MarketID ev \<and> submission_ok (env_programID env) batch"
proof -
  obtain b0 reg where b: "BuildSubmissionBatch (env_parseKey env) (env_programID env) ev = Inr b0"
    "encodePreparedPayload (env_showKey env) (applyWarmOrderStates (env_showKey env) reg b0) = Inr p"
    using assms(1) unfolding builtFrom_def by blast
  define batch where "batch = applyWarmOrderStates (env_showKey env) reg b0"
  have m: "sb_MarketID batch = ev_MarketID ev" "env_parseKey env (ev_MarketPDA ev) = Some (sb_MarketPDA batch)"
    using b(1) unfolding batch_def by (auto simp: BuildSubmissionBatch_def applyWarmOrderStates_def split: if_splits option.splits sum.splits prod.splits)
  have ok: "submission_ok (env_programID env) batch" unfolding batch_def by (rule submission_ok_warm [OF BuildSubmissionBatch_ok [OF b(1)]])
  have "\<exists>q. encodePreparedPayload (env_showKey env) batch = Inr q \<and> decodePreparedPayload (env_parseKey env) (env_showKey env) (env_programID env) q = Inr batch"
    by (rule payload_roundtrip [OF ok assms(2)]) (use assms(3) m(2) in blast)
  then show ?thesis using b(2) m(1) ok unfolding batch_def by auto
qed

text \<open>C31: what the prepare worker stored can always be submitted and signed again.  In every reachable state, a row
  that is prepared, submitted or processed has a payload that decodes, so \<open>submitMatch\<close> and \<open>resignSubmission\<close>
  never fail on it; the batch read back satisfies the settlement program's rules and is of the row's own
  market, so the lane that \<open>submitMatch\<close> requeues is the right one.  Keys are assumed to be 32 bytes with
  a text that parses back.\<close>
theorem stored_payloads_decode:
  assumes "settleReach env s" "r \<in> set (rows (svc s))" "sr_Status r \<in> {StatusPrepared, StatusSubmitted, StatusProcessed}"
    "key_codec (env_parseKey env) (env_showKey env)" "\<forall>x k. env_parseKey env x = Some k \<longrightarrow> length k = 32"
  shows "\<exists>p batch. sr_PreparedPayload r = Some p \<and>
    decodePreparedPayload (env_parseKey env) (env_showKey env) (env_programID env) p = Inr batch \<and>
    sb_MarketID batch = sr_MarketID r \<and> submission_ok (env_programID env) batch"
proof -
  have ok: "payload_ok (builtFrom env) r" using payload_ok_reach [OF assms(1)] assms(2) by blast
  then obtain p where p: "sr_PreparedPayload r = Some p" "builtFrom env (sr_MatchEvent r) p" "ev_MarketID (sr_MatchEvent r) = sr_MarketID r"
    using assms(3) unfolding payload_ok_def hasPayload_def by blast
  then show ?thesis using builtFrom_decodes [OF p(2) assms(4,5)] by auto
qed

section \<open>Republication\<close>

text \<open>Marking a list of rows changes those rows only, and sets the flag.\<close>

definition marksOnly :: "(SubmissionRecord \<Rightarrow> bool) \<Rightarrow> string set \<Rightarrow> (SubmissionRecord \<Rightarrow> SubmissionRecord) \<Rightarrow> bool" where
  "marksOnly flag ids g \<longleftrightarrow> (\<forall>r. sr_MatchEventID (g r) = sr_MatchEventID r \<and> sr_Status (g r) = sr_Status r \<and>
     (sr_MatchEventID r \<notin> ids \<longrightarrow> g r = r) \<and> (sr_MatchEventID r \<in> ids \<or> flag r \<longrightarrow> flag (g r)))"

lemma marksOnly_comp: "marksOnly flag {i} f \<Longrightarrow> marksOnly flag ids g \<Longrightarrow> marksOnly flag (insert i ids) (\<lambda>r. g (f r))"
  by (auto simp: marksOnly_def)

lemma marks_one:
  "\<exists>f. marksOnly sr_SubmittedEventPublished {TrimSpace i} f \<and> MarkSubmittedEventPublished now i t = map f t"
  "\<exists>f. marksOnly sr_TerminalEventPublished {TrimSpace i} f \<and> MarkTerminalEventPublished now i t = map f t"
  by (rule exI [of _ "\<lambda>r. if sr_MatchEventID r = TrimSpace i then touch now (r\<lparr>sr_SubmittedEventPublished := True\<rparr>) else r"],
      simp add: marksOnly_def MarkSubmittedEventPublished_def updateWhere_def touch_def)
    (rule exI [of _ "\<lambda>r. if sr_MatchEventID r = TrimSpace i then touch now (r\<lparr>sr_TerminalEventPublished := True\<rparr>) else r"],
      simp add: marksOnly_def MarkTerminalEventPublished_def updateWhere_def touch_def)

lemma republishSubmitted_marks:
  assumes "\<forall>r \<in> set rs. ok (sr_MatchEventID r)"
  shows "\<exists>g. marksOnly sr_SubmittedEventPublished (TrimSpace ` sr_MatchEventID ` set rs) g \<and>
    republishSubmitted ok now rs t = (True, map g t, map (PublishSubmitted \<circ> submittedEvent now) rs)"
  using assms
proof (induction rs arbitrary: t)
  case Nil
  show ?case by (intro exI [of _ "\<lambda>r. r"]) (simp add: marksOnly_def)
next
  case (Cons r rs)
  obtain f where f: "marksOnly sr_SubmittedEventPublished {TrimSpace (sr_MatchEventID r)} f"
    "MarkSubmittedEventPublished now (sr_MatchEventID r) t = map f t" using marks_one(1) by blast
  obtain g where g: "marksOnly sr_SubmittedEventPublished (TrimSpace ` sr_MatchEventID ` set rs) g"
    "republishSubmitted ok now rs (map f t) = (True, map g (map f t), map (PublishSubmitted \<circ> submittedEvent now) rs)"
    using Cons by fastforce
  show ?case using marksOnly_comp [OF f(1) g(1)] f(2) g(2) Cons.prems
    by (intro exI [of _ "\<lambda>r. g (f r)"]) (simp add: publishSubmitted_def comp_def)
qed

lemma republishTerminal_marks:
  assumes "\<forall>r \<in> set rs. ok (sr_MatchEventID r) \<and> terminal (sr_Status r)"
  shows "\<exists>g. marksOnly sr_TerminalEventPublished (TrimSpace ` sr_MatchEventID ` set rs) g \<and>
    republishTerminal ok now rs t = (True, map g t, concat (map (terminalOutput now) rs))"
  using assms
proof (induction rs arbitrary: t)
  case Nil
  show ?case by (intro exI [of _ "\<lambda>r. r"]) (simp add: marksOnly_def)
next
  case (Cons r rs)
  obtain f where f: "marksOnly sr_TerminalEventPublished {TrimSpace (sr_MatchEventID r)} f"
    "MarkTerminalEventPublished now (sr_MatchEventID r) t = map f t" using marks_one(2) by blast
  obtain g where g: "marksOnly sr_TerminalEventPublished (TrimSpace ` sr_MatchEventID ` set rs) g"
    "republishTerminal ok now rs (map f t) = (True, map g (map f t), concat (map (terminalOutput now) rs))"
    using Cons by fastforce
  show ?case using marksOnly_comp [OF f(1) g(1)] f(2) g(2) Cons.prems by (intro exI [of _ "\<lambda>r. g (f r)"]) (simp add: comp_def)
qed

lemma listUnpublished_set:
  "set (ListUnpublishedSubmitted t) = scanSubmissionRecord ` {r \<in> set t. sr_Status r = StatusSubmitted \<and> \<not> sr_SubmittedEventPublished r}"
  "set (ListUnpublishedTerminal t) = scanSubmissionRecord ` {r \<in> set t. terminal (sr_Status r) \<and> \<not> sr_TerminalEventPublished r}"
  by (simp_all add: ListUnpublishedSubmitted_def ListUnpublishedTerminal_def collectSubmissionRecords_def terminal_def)

lemma table_trim: "table_ok t \<Longrightarrow> r \<in> set t \<Longrightarrow> TrimSpace (sr_MatchEventID r) = sr_MatchEventID r"
  by (simp add: table_ok_def)

lemma table_inj: "table_ok t \<Longrightarrow> r \<in> set t \<Longrightarrow> q \<in> set t \<Longrightarrow> sr_MatchEventID r = sr_MatchEventID q \<Longrightarrow> r = q"
  using rowOf_member by (metis option.inject)

text \<open>A marking of submitted rows leaves the list of terminal rows alone.\<close>

lemma marks_terminal:
  assumes "table_ok t" "marksOnly flag ids g" "\<And>i. i \<in> ids \<Longrightarrow> \<exists>r \<in> set t. sr_MatchEventID r = i \<and> \<not> terminal (sr_Status r)"
  shows "ListUnpublishedTerminal (map g t) = ListUnpublishedTerminal t"
proof -
  let ?P = "\<lambda>r. (sr_Status r = StatusConfirmed \<or> sr_Status r = StatusFailed) \<and> \<not> sr_TerminalEventPublished r"
  have fix1: "g r = r" if r: "r \<in> set t" "terminal (sr_Status r)" for r
  proof -
    have "sr_MatchEventID r \<notin> ids" using assms(3) table_inj [OF assms(1) r(1)] r(2) by metis
    then show ?thesis using assms(2) by (simp add: marksOnly_def)
  qed
  have "filter ?P (map g t) = map g (filter (?P \<circ> g) t)" by (rule filter_map)
  also have "filter (?P \<circ> g) t = filter ?P t"
    using fix1 assms(2) by (intro filter_cong) (auto simp: marksOnly_def terminal_def)
  also have "map g (filter ?P t) = filter ?P t" by (rule map_idI) (use fix1 in \<open>auto simp: terminal_def\<close>)
  finally show ?thesis by (simp add: ListUnpublishedTerminal_def)
qed

text \<open>C32: republication completes and converges.  When the bus accepts every event, one pass publishes exactly
  the submitted events and the confirmed or failed events that were not yet marked as published, each
  once and in the order of the two queries, and leaves none unmarked, so the next pass sends nothing.\<close>
theorem republish_complete:
  assumes "table_ok t" "\<forall>i. ok i"
  shows "\<exists>t'. republishUnpublishedEvents ok now t =
      (True, t', map (PublishSubmitted \<circ> submittedEvent now) (ListUnpublishedSubmitted t) @
                 concat (map (terminalOutput now) (ListUnpublishedTerminal t))) \<and>
    ListUnpublishedSubmitted t' = [] \<and> ListUnpublishedTerminal t' = [] \<and> republishUnpublishedEvents ok now t' = (True, t', [])"
proof -
  let ?ids = "TrimSpace ` sr_MatchEventID ` set (ListUnpublishedSubmitted t)" and ?tids = "TrimSpace ` sr_MatchEventID ` set (ListUnpublishedTerminal t)"
  obtain g where g: "marksOnly sr_SubmittedEventPublished ?ids g"
    "republishSubmitted ok now (ListUnpublishedSubmitted t) t = (True, map g t, map (PublishSubmitted \<circ> submittedEvent now) (ListUnpublishedSubmitted t))"
    using republishSubmitted_marks [of "ListUnpublishedSubmitted t" ok now t] assms(2) by blast
  have ids: "i \<in> ?ids \<longleftrightarrow> (\<exists>r \<in> set t. sr_MatchEventID r = i \<and> sr_Status r = StatusSubmitted \<and> \<not> sr_SubmittedEventPublished r)" for i
    using table_trim [OF assms(1)] by (auto simp: listUnpublished_set image_iff)
  have tids: "i \<in> ?tids \<longleftrightarrow> (\<exists>r \<in> set t. sr_MatchEventID r = i \<and> terminal (sr_Status r) \<and> \<not> sr_TerminalEventPublished r)" for i
    using table_trim [OF assms(1)] by (auto simp: listUnpublished_set image_iff)
  have same: "ListUnpublishedTerminal (map g t) = ListUnpublishedTerminal t"
    by (rule marks_terminal [OF assms(1) g(1)]) (auto simp: ids terminal_def)
  obtain h where h: "marksOnly sr_TerminalEventPublished ?tids h"
    "republishTerminal ok now (ListUnpublishedTerminal t) (map g t) = (True, map h (map g t), concat (map (terminalOutput now) (ListUnpublishedTerminal t)))"
    using republishTerminal_marks [of "ListUnpublishedTerminal t" ok now "map g t"] assms(2) by (auto simp: listUnpublished_set)
  have run: "republishUnpublishedEvents ok now t = (True, map h (map g t), map (PublishSubmitted \<circ> submittedEvent now) (ListUnpublishedSubmitted t) @
                 concat (map (terminalOutput now) (ListUnpublishedTerminal t)))"
    by (simp add: republishUnpublishedEvents_def g(2) same h(2))
  have "sr_SubmittedEventPublished (h (g r))" if "r \<in> set t" "sr_Status r = StatusSubmitted" for r
  proof -
    have "sr_MatchEventID r \<notin> ?tids" using table_inj [OF assms(1) that(1)] that(2) unfolding tids terminal_def by fastforce
    then have "h (g r) = g r" using g(1) h(1) by (simp add: marksOnly_def)
    then show ?thesis using g(1) ids [of "sr_MatchEventID r"] that unfolding marksOnly_def by auto
  qed
  then have s: "ListUnpublishedSubmitted (map h (map g t)) = []"
    using g(1) h(1) by (auto simp: marksOnly_def listUnpublished_set simp flip: set_empty)
  have "sr_TerminalEventPublished (h (g r))" if "r \<in> set t" "terminal (sr_Status r)" for r
  proof -
    have "sr_MatchEventID r \<notin> ?ids" using table_inj [OF assms(1) that(1)] that(2) unfolding ids terminal_def by fastforce
    then have "g r = r" using g(1) by (simp add: marksOnly_def)
    then show ?thesis using h(1) tids [of "sr_MatchEventID r"] that unfolding marksOnly_def by auto
  qed
  then have e: "ListUnpublishedTerminal (map h (map g t)) = []"
    using g(1) h(1) by (auto simp: marksOnly_def listUnpublished_set simp flip: set_empty)
  show ?thesis using run s e by (intro exI [of _ "map h (map g t)"]) (simp add: republishUnpublishedEvents_def)
qed

section \<open>A sample run\<close>

definition sampleEnv :: SettlementEnv where
  "sampleEnv = \<lparr>env_parseKey = sampleParse, env_showKey = hexEncode, env_programID = sampleKey 1, env_search = (\<lambda>seeds program. None),
     env_assemble = (\<lambda>keys instructions payload. None), env_maxTxBytes = 0\<rparr>"

definition sampleStart :: settlementSystem where
  "sampleStart = \<lparr>svc = recoverState sampleEnv [] NewUserPositionRegistry NewOrderStateRegistry, submitting = {}, processing = {}, unreported = {}\<rparr>"

definition sampleAnswers :: submitAnswers where
  "sampleAnswers = \<lparr>blockhashAnswer = None, signed = (\<lambda>b h. None), busOk = True, broadcastError = None, casReply = Reported, loadOk = True\<rparr>"

text \<open>The row of the sample event, as it is queued, prepared and submitted.\<close>

definition sampleQueued :: SubmissionRecord where
  "sampleQueued = rowOfInsert 0 (insertOf (svc sampleStart) sampleExecution)"

definition samplePrepared :: "preparedSubmissionPayload \<Rightarrow> SubmissionRecord" where
  "samplePrepared p = touch 1 (sampleQueued\<lparr>sr_PreparedPayload := Some p, sr_Status := StatusPrepared, sr_PreparedAt := Some 1\<rparr>)"

lemma sampleQueued_simps:
  "sr_MatchEventID sampleQueued = ''e1''" "sr_MarketID sampleQueued = 7" "sr_Status sampleQueued = StatusQueued"
  "sr_MarketLaneStatus sampleQueued = LaneActive" "sr_MatchEvent sampleQueued = sampleExecution" "scanSubmissionRecord sampleQueued = sampleQueued"
  by (simp_all add: sampleQueued_def rowOfInsert_def insertOf_def eventIDOf_def sampleExecution_def TrimSpace_def isSpace_def isLanePaused_def
      sampleStart_def recoverState_def recoverLanes_def ListPausedMarketIDs_def ListSubmitted_def ListProcessed_def collectSubmissionRecords_def
      scanSubmissionRecord_def Let_def)

lemma sampleStart_svc: "rows (svc sampleStart) = []" "lanes (svc sampleStart) = Map.empty" "prepareDirty (svc sampleStart) = {}"
   "s_orderRegistry (svc sampleStart) = NewOrderStateRegistry"
  by (simp_all add: sampleStart_def recoverState_def recoverLanes_def ListPausedMarketIDs_def ListQueuedMarketIDs_def ListSubmitted_def ListProcessed_def
     collectSubmissionRecords_def)

definition sampleIngress :: SettlementState where
  "sampleIngress = markPrepareDirty 7 ((svc sampleStart)\<lparr>rows := [sampleQueued]\<rparr>)"

lemma sample_ingress: "fst (handleFetchedMessages 0 True [(Some sampleExecution, 0)] (svc sampleStart)) = sampleIngress"
proof -
  have i: "qi_MatchEventID (insertOf (svc sampleStart) sampleExecution) = ''e1''" "qi_MarketID (insertOf (svc sampleStart) sampleExecution) = 7"
    "qi_MarketLaneStatus (insertOf (svc sampleStart) sampleExecution) = LaneActive"
    using sampleQueued_simps by (simp_all add: sampleQueued_def rowOfInsert_def)
  have f: "Fills sampleExecution \<noteq> []" by (simp add: sampleExecution_def)
  then show ?thesis
    by (simp add: handleFetchedMessages_def settleable_def Let_def hasRow_def sampleStart_svc i sampleQueued_def [symmetric] markInserted_def sampleIngress_def)
qed

lemma sample_payload: obtains p where "encodePreparedPayload hexEncode sampleSubmission = Inr p"
proof -
  have "\<exists>p. encodePreparedPayload hexEncode sampleSubmission = Inr p \<and> decodePreparedPayload sampleParse hexEncode (sampleKey 1) p = Inr sampleSubmission"
    by (rule payload_roundtrip [OF BuildSubmissionBatch_ok [OF sample_built]])
      (simp_all add: key_codec_def hexEncode_trim sampleSubmission_def)
  then show thesis using that by blast
qed

lemma sample_warm: "applyWarmOrderStates hexEncode NewOrderStateRegistry sampleSubmission = sampleSubmission"
  by (simp add: applyWarmOrderStates_def sampleSubmission_def submissionFor_def NewOrderStateRegistry_def Settled_Has_def)

lemma sample_prepare:
  assumes "encodePreparedPayload hexEncode sampleSubmission = Inr p"
  shows "rows (fst (prepareDirtyMarkets sampleEnv True 1 sampleIngress)) = [samplePrepared p]"
    "lanes (fst (prepareDirtyMarkets sampleEnv True 1 sampleIngress)) = Map.empty"
proof -
  define st where "st = sampleIngress\<lparr>prepareDirty := {}\<rparr>"
  have st: "rows st = [sampleQueued]" "s_orderRegistry st = NewOrderStateRegistry" "lanes st = Map.empty"
    by (simp_all add: st_def sampleIngress_def markPrepareDirty_def sampleStart_svc)
  have m: "MarkPreparedCAS 1 ''e1'' p [sampleQueued] = (True, [samplePrepared p])"
    by (simp add: MarkPreparedCAS_def casUpdate_def updateWhere_def sampleQueued_simps samplePrepared_def TrimSpace_def isSpace_def)
  have d: "drainPrepareDirtyMarkets sampleIngress = ([7], st)"
    by (simp add: drainPrepareDirtyMarkets_def sampleIngress_def markPrepareDirty_def sampleStart_svc st_def)
  have n: "LoadNextQueuedByMarket [sampleQueued] 7 = Some sampleQueued"
    by (simp add: LoadNextQueuedByMarket_def firstCreated_def sampleQueued_simps)
  have env: "env_parseKey sampleEnv = sampleParse" "env_showKey sampleEnv = hexEncode" "env_programID sampleEnv = sampleKey 1" "env_maxTxBytes sampleEnv = 0"
    by (simp_all add: sampleEnv_def)
  have "prepareSubmission sampleEnv True 1 sampleQueued st = (markPrepareDirty 7 (markDirty 7 (st\<lparr>rows := [samplePrepared p]\<rparr>)), [])"
    by (simp add: prepareSubmission_def env sampleQueued_simps sample_built st sample_warm assms m enforceEstimatedTxBytes_def Let_def)
  then have "fst (prepareDirtyMarkets sampleEnv True 1 sampleIngress) = markPrepareDirty 7 (markDirty 7 (st\<lparr>rows := [samplePrepared p]\<rparr>))"
    by (simp add: prepareDirtyMarkets_def d st n)
  then show "rows (fst (prepareDirtyMarkets sampleEnv True 1 sampleIngress)) = [samplePrepared p]"
    "lanes (fst (prepareDirtyMarkets sampleEnv True 1 sampleIngress)) = Map.empty"
    by (simp_all add: markPrepareDirty_def markDirty_def st)
qed

lemma sample_submitted:
  obtains s r where "settleReach sampleEnv sampleStart" "(settleStep sampleEnv)\<^sup>*\<^sup>* sampleStart s" "rows (svc s) = [r]"
    "sr_Status r = StatusSubmitted" "sr_MarketID r = 7" "sr_MatchEventID r = ''e1''" "unreported s = {}"
proof -
  obtain p where p: "encodePreparedPayload hexEncode sampleSubmission = Inr p" by (rule sample_payload)
  define st2 where "st2 = fst (prepareDirtyMarkets sampleEnv True 1 sampleIngress)"
  have r2: "rows st2 = [samplePrepared p]" "lanes st2 = Map.empty" using sample_prepare [OF p] by (simp_all add: st2_def)
  define r3 where "r3 = touch 2 ((samplePrepared p)\<lparr>sr_TxSignature := ''sig'', sr_RawTxBase64 := ''raw'', sr_LastValidBlockHeight := 5, sr_Status := StatusSubmitted\<rparr>)"
  define r4 where "r4 = touch 2 (r3\<lparr>sr_SubmittedEventPublished := True\<rparr>)"
  define s1 where "s1 = sampleStart\<lparr>svc := sampleIngress\<rparr>"
  define s2 where "s2 = sampleStart\<lparr>svc := st2\<rparr>"
  define st3 where "st3 = putLane 7 (newLane\<lparr>CurrentMatchEventID := ''e1''\<rparr>) st2"
  define s3 where "s3 = sampleStart\<lparr>svc := st3, submitting := {''e1''}\<rparr>"
  define s4 where "s4 = s3\<lparr>svc := fst (commitSubmit sampleAnswers 2 ''e1'' 7 ''sig'' ''raw'' 5 st3), submitting := {}\<rparr>"
  have pr: "sr_MatchEventID (samplePrepared p) = ''e1''" "sr_MarketID (samplePrepared p) = 7" "sr_Status (samplePrepared p) = StatusPrepared"
    "sr_MarketLaneStatus (samplePrepared p) = LaneActive"
    by (simp_all add: samplePrepared_def sampleQueued_simps)
  have l: "laneOf st2 7 = newLane" by (simp add: laneOf_def r2)
  have a1: "settleStep sampleEnv sampleStart s1"
    using settleStep.ingress [of sampleEnv sampleStart 0 True "[(Some sampleExecution, 0)]"] sample_ingress by (simp add: s1_def)
  have a2: "settleStep sampleEnv s1 s2"
    using settleStep.prepare [of sampleEnv s1 True 1] by (simp add: s1_def s2_def st2_def)
  have "settleStep sampleEnv s2 (s2\<lparr>svc := putLane (sr_MarketID (samplePrepared p)) (newLane\<lparr>CurrentMatchEventID := ''e1''\<rparr>) (svc s2), submitting := insert ''e1'' (submitting s2)\<rparr>)"
    by (rule settleStep.schedule) (simp_all add: s2_def r2 rowOf_def pr l, simp_all add: newLane_def)
  then have a3: "settleStep sampleEnv s2 s3" by (simp add: s2_def s3_def st3_def pr sampleStart_def)
  have "rowOf (rows (svc s3)) ''e1'' = Some (samplePrepared p)" by (simp add: s3_def st3_def r2 rowOf_def pr)
  then have a4: "settleStep sampleEnv s3 s4"
    using settleStep.commit [of "''e1''" s3 "samplePrepared p" sampleEnv sampleAnswers 2 "''sig''" "''raw''" 5 7]
    by (simp add: s3_def s4_def unreportedBy_def sampleAnswers_def sampleStart_def)
  have trim: "TrimSpace ''e1'' = ''e1''" "TrimSpace ''sig'' = ''sig''" "TrimSpace ''raw'' = ''raw''" by (simp_all add: TrimSpace_def isSpace_def)
  have m: "MarkSubmittedCAS 2 ''e1'' ''sig'' ''raw'' 5 [samplePrepared p] = (True, [r3])"
    by (simp add: MarkSubmittedCAS_def casUpdate_def updateWhere_def pr trim r3_def)
  have r3: "sr_MatchEventID r3 = ''e1''" by (simp add: r3_def pr)
  have e: "MarkSubmittedEventPublished 2 ''e1'' [r3] = [r4]"
    by (simp add: MarkSubmittedEventPublished_def updateWhere_def r3 trim r4_def)
  have "rows (svc s4) = [r4]"
    by (simp add: s4_def s3_def commitSubmit_def st3_def r2 m LoadByMatchEventID_def r3 trim sampleAnswers_def Let_def e)
  moreover have "settleReach sampleEnv sampleStart" unfolding sampleStart_def by (rule settleReach.fresh)
  moreover have "(settleStep sampleEnv)\<^sup>*\<^sup>* sampleStart s4" using a1 a2 a3 a4 by (meson rtranclp.rtrancl_into_rtrancl rtranclp.rtrancl_refl)
  moreover have "sr_Status r4 = StatusSubmitted" "sr_MarketID r4 = 7" "sr_MatchEventID r4 = ''e1''" by (simp_all add: r4_def r3_def pr)
  moreover have "unreported s4 = {}" by (simp add: s4_def s3_def sampleStart_def)
  ultimately show thesis by (intro that)
qed

section \<open>Witnesses\<close>

lemma sample_codec: "key_codec (env_parseKey sampleEnv) (env_showKey sampleEnv)" "\<forall>x k. env_parseKey sampleEnv x = Some k \<longrightarrow> length k = 32"
  by (simp_all add: sampleEnv_def key_codec_def hexEncode_trim sampleParse_def split: option.splits)

theorem submission_lifecycle_witness:
  "\<exists>s r s' r'. settleStep sampleEnv s s' \<and> rowOf (rows (svc s)) ''e1'' = Some r \<and> sr_Status r = StatusSubmitted \<and>
    rowOf (rows (svc s')) ''e1'' = Some r' \<and> later r r'"
proof -
  obtain s r where s: "settleReach sampleEnv sampleStart" "(settleStep sampleEnv)\<^sup>*\<^sup>* sampleStart s" "rows (svc s) = [r]"
    "sr_Status r = StatusSubmitted" "sr_MarketID r = 7" "sr_MatchEventID r = ''e1''" by (rule sample_submitted)
  let ?s' = "\<lparr>svc = recoverState sampleEnv (rows (svc s)) NewUserPositionRegistry NewOrderStateRegistry, submitting = {}, processing = {},
    unreported = unreported s\<rparr>"
  have st: "settleStep sampleEnv s ?s'" by (rule settleStep.restart)
  have row: "rowOf (rows (svc s)) ''e1'' = Some r" using s by (simp add: rowOf_def)
  have "\<exists>r'. rowOf (rows (svc ?s')) ''e1'' = Some r' \<and> later r r'"
    by (rule submission_lifecycle [OF settleStep_reach [OF s(2,1)] r_into_rtranclp [of "settleStep sampleEnv", OF st] row])
  then show ?thesis using st row s(4) by blast
qed


theorem stored_payloads_decode_witness:
  "\<exists>p batch. decodePreparedPayload sampleParse hexEncode (sampleKey 1) p = Inr batch \<and> sb_MarketID batch = 7"
proof -
  obtain s r where s: "settleReach sampleEnv sampleStart" "(settleStep sampleEnv)\<^sup>*\<^sup>* sampleStart s" "rows (svc s) = [r]"
    "sr_Status r = StatusSubmitted" "sr_MarketID r = 7" "sr_MatchEventID r = ''e1''" by (rule sample_submitted)
  have "\<exists>p batch. sr_PreparedPayload r = Some p \<and>
    decodePreparedPayload (env_parseKey sampleEnv) (env_showKey sampleEnv) (env_programID sampleEnv) p = Inr batch \<and>
    sb_MarketID batch = sr_MarketID r \<and> submission_ok (env_programID sampleEnv) batch"
    by (rule stored_payloads_decode [OF settleStep_reach [OF s(2,1)] _ _ sample_codec]) (simp_all add: s)
  then show ?thesis using s(5) by (auto simp: sampleEnv_def)
qed

theorem republish_complete_witness:
  "\<exists>t'. republishUnpublishedEvents (\<lambda>i. True) 5 [sampleQueued\<lparr>sr_Status := StatusFailed\<rparr>] =
     (True, t', [PublishFailed (failedEvent 5 (sampleQueued\<lparr>sr_Status := StatusFailed\<rparr>))])"
proof -
  let ?r = "sampleQueued\<lparr>sr_Status := StatusFailed\<rparr>"
  have q: "scanSubmissionRecord ?r = ?r" "\<not> sr_TerminalEventPublished ?r" "sr_MatchEventID ?r = ''e1''"
    by (simp_all add: sampleQueued_def rowOfInsert_def scanSubmissionRecord_def Let_def)
      (use sampleQueued_simps in \<open>simp add: sampleQueued_def rowOfInsert_def\<close>)
  have "table_ok [?r]" by (simp add: table_ok_def q(3) TrimSpace_def isSpace_def)
  moreover have "ListUnpublishedSubmitted [?r] = []" "ListUnpublishedTerminal [?r] = [?r]"
    using q by (simp_all add: ListUnpublishedSubmitted_def ListUnpublishedTerminal_def collectSubmissionRecords_def)
  ultimately show ?thesis using republish_complete [of "[?r]" "\<lambda>i. True" 5] by (auto simp: terminalOutput_def publishFailed_def)
qed

end
