(* ===== verification/Gateway.thy ===== *)
theory Gateway
  imports Protocol Submission
begin

text \<open>
  The order gateway (\<open>http/server.go\<close>): normalisation of an order request to the YES book, the checks
  of the signed intent, the command it publishes, and the token actions split, merge and claim.

  Base-58 keys, Keccak and Ed25519 are code of other packages, the fields of \<open>GatewayEnv\<close>.  The decoded
  request, the session's wallet, the headers, the market lookups, the generated identifiers and the answer
  of the command bus are arguments.
\<close>

section \<open>Data\<close>

record PlaceOrderRequest =
  q_Version :: u8
  q_ProgramID :: string
  q_Market :: string
  q_User :: string
  q_Side :: string
  q_Outcome :: string
  q_OrderType :: string
  q_LimitPrice :: u64
  q_TotalAmount :: u64
  q_Nonce :: u64
  q_ExpiryTs :: int
  q_Signature :: string
  q_MarketID :: u64
  q_WalletAddress :: string
  q_OriginalAction :: string
  q_OriginalOutcome :: string
  q_OriginalPriceTick :: u8
  q_PriceTick :: u8
  q_QtyLots :: u64
  q_SpendAmount :: u64
  q_ExpireTime :: int
  q_NormalizedSide :: string
  q_NormalizedPriceTick :: u64

record GatewayMarket =
  gm_MarketID :: u64
  gm_MarketPDA :: string
  gm_Status :: string
  gm_Outcome :: string
  gm_CloseTime :: "unixtime option"

record GatewayEnv =
  ge_ProgramID :: string
  ge_parseKey :: "string \<Rightarrow> PublicKey option"
  ge_keccak :: "bytes \<Rightarrow> bytes"
  ge_verify :: "PublicKey \<Rightarrow> bytes \<Rightarrow> bytes \<Rightarrow> bool"

datatype gateway_error =
    BootstrapInProgress | InvalidBody | Unauthenticated | BadWalletAddress | MarketOrIDRequired | MarketNotFound | MarketStoreFailed
  | WalletRequiredG | OrderWalletMismatch | SignatureRequiredG | ProgramNotConfigured | ProgramMismatchG | MarketNotConfigured
  | MarketMismatchG | BadOrderType | BadSide | BadOutcome | BadLimitPrice | BadProgramKey | BadMarketKey | BadUserKey
  | ExpiryRange | BadOriginalAction | BadOriginalOutcome | BadOriginalTick | BadPriceTick | InvalidSideG | InvalidShare
  | SideDiffers | TickDiffers | QtyRequired | SpendNotZero | SpendRequired | QtyNotZero | SignatureEncodingG | SignatureLengthG
  | IntentUnparsable | OrderSignatureInvalid | MarketNotOpen | MarketClosed | NoMarketLiquidity | AmountTooLarge | NoOrderID
  | IdempotencyKeyRequired | TraceIDRequired | NoCommandID | InvalidCommand validation_error | BusFailedG | BusDisabledG
  | InsufficientCollateral | InsufficientLots | ClaimOutcome | UnsupportedAction | NotResolved | StoreFailed

definition ToLower :: "string \<Rightarrow> string" where "ToLower s = map toLowerChar s"

section \<open>Normalisation to the YES book\<close>

definition normalizeToYesBook :: "string \<Rightarrow> string \<Rightarrow> u64 \<Rightarrow> gateway_error + string \<times> u64" where
  "normalizeToYesBook side outcome limitPrice =
     (let side = ToLower (TrimSpace side); outcome = ToLower (TrimSpace outcome) in
      if side \<noteq> ''buy'' \<and> side \<noteq> ''sell'' then Inl BadSide
      else if outcome \<noteq> ''yes'' \<and> outcome \<noteq> ''no'' then Inl BadOutcome
      else if limitPrice < 1 \<or> 99 < limitPrice then Inl BadLimitPrice
      else if outcome = ''yes'' then Inr (side, limitPrice)
      else if side = ''buy'' then Inr (''sell'', 100 - limitPrice)
      else Inr (''buy'', 100 - limitPrice))"

definition normalizeYesOrder :: "string \<Rightarrow> string \<Rightarrow> int \<Rightarrow> string \<Rightarrow> gateway_error + string \<times> int" where
  "normalizeYesOrder side outcome priceTick orderType =
     (if side \<noteq> ''buy'' \<and> side \<noteq> ''sell'' then Inl InvalidSideG
      else if outcome \<noteq> ''yes'' \<and> outcome \<noteq> ''no'' then Inl InvalidShare
      else if orderType = ''market'' then
        (if priceTick < 1 \<or> 99 < priceTick then Inl BadPriceTick
         else if outcome = ''yes'' then Inr (side, priceTick)
         else if side = ''buy'' then Inr (''sell'', 100 - priceTick)
         else Inr (''buy'', 100 - priceTick))
      else if priceTick < 1 \<or> 99 < priceTick then Inl BadPriceTick
      else if outcome = ''yes'' then Inr (side, priceTick)
      else if side = ''buy'' then Inr (''sell'', 100 - priceTick)
      else Inr (''buy'', 100 - priceTick))"

definition mapSideToUint8 :: "string \<Rightarrow> u8" where
  "mapSideToUint8 side = (if ToLower (TrimSpace side) = ''sell'' then 1 else 0)"

definition mapOutcomeToUint8 :: "string \<Rightarrow> u8" where
  "mapOutcomeToUint8 outcome = (if ToLower (TrimSpace outcome) = ''no'' then 1 else 0)"

definition mapOrderTypeToUint8 :: "string \<Rightarrow> u8" where
  "mapOrderTypeToUint8 orderType = (if ToLower (TrimSpace orderType) = ''market'' then 1 else 0)"

text \<open>The conversions \<open>settlement.Side(n)\<close>, \<open>Outcome(n)\<close>, \<open>OrderType(n)\<close> on the two values they get.\<close>

definition intentSideOf :: "u8 \<Rightarrow> IntentSide" where "intentSideOf n = (if n = 1 then IntentSell else IntentBuy)"
definition intentOutcomeOf :: "u8 \<Rightarrow> IntentOutcome" where "intentOutcomeOf n = (if n = 1 then IntentNo else IntentYes)"
definition intentOrderTypeOf :: "u8 \<Rightarrow> IntentOrderType" where "intentOrderTypeOf n = (if n = 1 then IntentMarket else IntentLimit)"

definition rawIntent :: "PlaceOrderRequest \<Rightarrow> PublicKey \<Rightarrow> PublicKey \<Rightarrow> PublicKey \<Rightarrow> OrderIntentV1" where
  "rawIntent req programID market user =
     \<lparr>i_ProgramID = programID, i_Market = market, i_User = user, i_Nonce = q_Nonce req,
      i_Side = intentSideOf (mapSideToUint8 (q_OriginalAction req)), i_Outcome = intentOutcomeOf (mapOutcomeToUint8 (q_OriginalOutcome req)),
      i_OrderType = intentOrderTypeOf (mapOrderTypeToUint8 (q_OrderType req)), i_LimitPrice = ucast (q_LimitPrice req),
      i_TotalAmount = q_TotalAmount req, i_ExpiryTs = of_int (q_ExpiryTs req)\<rparr>"

definition buildRawOrderIntentBytes :: "PlaceOrderRequest \<Rightarrow> PublicKey \<Rightarrow> PublicKey \<Rightarrow> PublicKey \<Rightarrow> gateway_error + bytes" where
  "buildRawOrderIntentBytes req programID market user =
     (if q_LimitPrice req = 0 \<or> 99 < q_LimitPrice req then Inl BadLimitPrice
      else if q_ExpiryTs req < 0 \<or> 4294967295 < q_ExpiryTs req then Inl ExpiryRange
      else Inr (Serialize (rawIntent req programID market user)))"

text \<open>The fields the normalisation fills in.\<close>

definition normalizedRequest :: "PlaceOrderRequest \<Rightarrow> string \<Rightarrow> GatewayMarket \<Rightarrow> string \<Rightarrow> string \<Rightarrow> u64 \<Rightarrow> PlaceOrderRequest" where
  "normalizedRequest req programID market wallet side tick =
     (let marketBuy = q_OrderType req = ''market'' \<and> q_Side req = ''buy'' in
      req\<lparr>q_ProgramID := programID, q_Market := TrimSpace (gm_MarketPDA market), q_User := wallet,
          q_Version := (if q_Version req = 0 then 1 else q_Version req),
          q_MarketID := gm_MarketID market, q_WalletAddress := wallet, q_OriginalAction := q_Side req,
          q_OriginalOutcome := q_Outcome req, q_OriginalPriceTick := ucast (q_LimitPrice req),
          q_NormalizedSide := side, q_NormalizedPriceTick := tick, q_Side := side, q_PriceTick := ucast tick,
          q_QtyLots := (if marketBuy then 0 else q_TotalAmount req), q_SpendAmount := (if marketBuy then q_TotalAmount req else 0),
          q_ExpireTime := q_ExpiryTs req\<rparr>)"

definition normalizePlaceOrderRequest ::
  "GatewayEnv \<Rightarrow> PlaceOrderRequest \<Rightarrow> GatewayMarket \<Rightarrow> string \<Rightarrow> gateway_error + PlaceOrderRequest \<times> bytes" where
  "normalizePlaceOrderRequest env req market authenticatedWallet =
     (let wallet = TrimSpace authenticatedWallet;
          reqUser = (if TrimSpace (q_User req) = [] then wallet else TrimSpace (q_User req));
          programID = TrimSpace (ge_ProgramID env); marketPDA = TrimSpace (gm_MarketPDA market) in
      if wallet = [] then Inl WalletRequiredG
      else if reqUser \<noteq> wallet then Inl OrderWalletMismatch
      else if q_Signature req = [] then Inl SignatureRequiredG
      else if programID = [] then Inl ProgramNotConfigured
      else if TrimSpace (q_ProgramID req) \<noteq> [] \<and> \<not> EqualFold (TrimSpace (q_ProgramID req)) programID then Inl ProgramMismatchG
      else if marketPDA = [] then Inl MarketNotConfigured
      else if TrimSpace (q_Market req) \<noteq> [] \<and> \<not> EqualFold (TrimSpace (q_Market req)) marketPDA then Inl MarketMismatchG
      else if q_OrderType req \<noteq> ''limit'' \<and> q_OrderType req \<noteq> ''market'' then Inl BadOrderType
      else if q_Side req \<noteq> ''buy'' \<and> q_Side req \<noteq> ''sell'' then Inl BadSide
      else if q_Outcome req \<noteq> ''yes'' \<and> q_Outcome req \<noteq> ''no'' then Inl BadOutcome
      else case normalizeToYesBook (q_Side req) (q_Outcome req) (q_LimitPrice req) of
        Inl e \<Rightarrow> Inl e
      | Inr (side, tick) \<Rightarrow>
          (let req = normalizedRequest req programID market wallet side tick in
           case ge_parseKey env (q_ProgramID req) of None \<Rightarrow> Inl BadProgramKey
         | Some p \<Rightarrow> (case ge_parseKey env (q_Market req) of None \<Rightarrow> Inl BadMarketKey
         | Some m \<Rightarrow> (case ge_parseKey env (q_User req) of None \<Rightarrow> Inl BadUserKey
         | Some u \<Rightarrow> (case buildRawOrderIntentBytes req p m u of Inl e \<Rightarrow> Inl e | Inr bs \<Rightarrow> Inr (req, bs))))))"

section \<open>The signed intent\<close>

definition gatewayDecodeSignature :: "string \<Rightarrow> gateway_error + bytes" where
  "gatewayDecodeSignature raw =
     (case (case base64Decode False True raw of Some s \<Rightarrow> Some s | None \<Rightarrow> base64Decode False False raw) of
        None \<Rightarrow> Inl SignatureEncodingG
      | Some s \<Rightarrow> if length s \<noteq> 64 then Inl SignatureLengthG else Inr s)"

record OrderIntentBorsh =
  b_ProgramID :: bytes
  b_WalletAddress :: bytes
  b_MarketID :: u64
  b_OriginalAction :: u8
  b_OriginalOutcome :: u8
  b_OriginalPriceTick :: u8
  b_Side :: u8
  b_OrderType :: u8
  b_PriceTick :: u8
  b_QtyLots :: u64
  b_SpendAmount :: u64
  b_ExpireTime :: i64
  b_Nonce :: u64

definition uint64ToLEBytes :: "u64 \<Rightarrow> bytes" where
  "uint64ToLEBytes v = [ucast v, ucast (drop_bit 8 v), ucast (drop_bit 16 v), ucast (drop_bit 24 v), ucast (drop_bit 32 v),
     ucast (drop_bit 40 v), ucast (drop_bit 48 v), ucast (drop_bit 56 v)]"

definition serializeOrderIntentBorsh :: "OrderIntentBorsh option \<Rightarrow> bytes option" where
  "serializeOrderIntentBorsh intent =
     (case intent of
        None \<Rightarrow> None
      | Some b \<Rightarrow>
          (let buf = b_ProgramID b @ b_WalletAddress b @ uint64ToLEBytes (b_MarketID b) @ [b_OriginalAction b] @ [b_OriginalOutcome b] @
                 [b_OriginalPriceTick b] @ [b_Side b] @ [b_OrderType b] @ [b_PriceTick b] @ uint64ToLEBytes (b_QtyLots b) @
                 uint64ToLEBytes (b_SpendAmount b) @ uint64ToLEBytes (b_ExpireTime b) @ uint64ToLEBytes (b_Nonce b)
           in if length buf \<noteq> 110 then None else Some buf))"

text \<open>The checks on the normalised fields, before the signature; \<open>None\<close> is success.\<close>

definition checkSemantics :: "PlaceOrderRequest \<Rightarrow> string \<Rightarrow> gateway_error option" where
  "checkSemantics req authenticatedWallet =
     (if TrimSpace (q_WalletAddress req) = [] then Some WalletRequiredG
      else if TrimSpace (q_WalletAddress req) \<noteq> TrimSpace authenticatedWallet then Some OrderWalletMismatch
      else if q_OriginalAction req \<noteq> ''buy'' \<and> q_OriginalAction req \<noteq> ''sell'' then Some BadOriginalAction
      else if q_OriginalOutcome req \<noteq> ''yes'' \<and> q_OriginalOutcome req \<noteq> ''no'' then Some BadOriginalOutcome
      else if q_OriginalPriceTick req < 1 \<or> 99 < q_OriginalPriceTick req then Some BadOriginalTick
      else if q_PriceTick req < 1 \<or> 99 < q_PriceTick req then Some BadPriceTick
      else case normalizeYesOrder (q_OriginalAction req) (q_OriginalOutcome req) (uint (q_OriginalPriceTick req)) (q_OrderType req) of
        Inl e \<Rightarrow> Some e
      | Inr (side, tick) \<Rightarrow>
          if \<not> EqualFold (q_Side req) side then Some SideDiffers
          else if q_PriceTick req \<noteq> of_int tick then Some TickDiffers
          else
            (let byLots = q_OrderType req = ''limit'' \<or> (q_OrderType req = ''market'' \<and> q_OriginalAction req = ''sell'');
                 bySpend = q_OrderType req = ''market'' \<and> q_OriginalAction req = ''buy''
             in if byLots \<and> q_QtyLots req = 0 then Some QtyRequired
                else if byLots \<and> q_SpendAmount req \<noteq> 0 then Some SpendNotZero
                else if bySpend \<and> q_SpendAmount req = 0 then Some SpendRequired
                else if bySpend \<and> q_QtyLots req \<noteq> 0 then Some QtyNotZero
                else None))"

definition borshOf :: "PlaceOrderRequest \<Rightarrow> PublicKey \<Rightarrow> PublicKey \<Rightarrow> OrderIntentBorsh" where
  "borshOf req programID user =
     \<lparr>b_ProgramID = programID, b_WalletAddress = user, b_MarketID = q_MarketID req, b_OriginalAction = mapSideToUint8 (q_OriginalAction req),
      b_OriginalOutcome = mapOutcomeToUint8 (q_OriginalOutcome req), b_OriginalPriceTick = q_OriginalPriceTick req,
      b_Side = mapSideToUint8 (q_Side req), b_OrderType = mapOrderTypeToUint8 (q_OrderType req), b_PriceTick = q_PriceTick req,
      b_QtyLots = q_QtyLots req, b_SpendAmount = q_SpendAmount req, b_ExpireTime = of_int (q_ExpireTime req), b_Nonce = q_Nonce req\<rparr>"

definition validateBorshOrderIntent ::
  "GatewayEnv \<Rightarrow> PlaceOrderRequest \<Rightarrow> string \<Rightarrow> gateway_error + OrderIntentBorsh \<times> bytes" where
  "validateBorshOrderIntent env req authenticatedWallet =
     (case checkSemantics req authenticatedWallet of
        Some e \<Rightarrow> Inl e
      | None \<Rightarrow>
          if TrimSpace (q_Signature req) = [] then Inl SignatureRequiredG
          else case gatewayDecodeSignature (TrimSpace (q_Signature req)) of
            Inl e \<Rightarrow> Inl e
          | Inr sig \<Rightarrow>
              (case ge_parseKey env (TrimSpace (q_WalletAddress req)) of None \<Rightarrow> Inl BadWalletAddress
             | Some u \<Rightarrow> (case ge_parseKey env (TrimSpace (q_ProgramID req)) of None \<Rightarrow> Inl BadProgramKey
             | Some p \<Rightarrow> (case ge_parseKey env (TrimSpace (q_Market req)) of None \<Rightarrow> Inl BadMarketKey
             | Some m \<Rightarrow> (case buildRawOrderIntentBytes req p m u of
                 Inl e \<Rightarrow> Inl e
               | Inr bs \<Rightarrow> (case ParseOrderIntentV1 bs of
                   Inl _ \<Rightarrow> Inl IntentUnparsable
                 | Inr intent \<Rightarrow>
                     if \<not> ge_verify env u (SignableMessage (ge_keccak env) intent) sig then Inl OrderSignatureInvalid
                     else Inr (borshOf req p u, bs)))))))"

section \<open>Checks against the market\<close>

text \<open>\<open>(lots * tick + 99) / 100\<close>, with the addition wrapping.\<close>

definition requiredCollateralUnits :: "PlaceOrderRequest \<Rightarrow> gateway_error + u64" where
  "requiredCollateralUnits req =
     (if EqualFold (q_OrderType req) ''market'' then Inr (q_SpendAmount req)
      else if q_OriginalPriceTick req = 0 \<or> q_QtyLots req = 0 then Inr 0
      else if (- 1) div ucast (q_OriginalPriceTick req) < q_QtyLots req then Inl AmountTooLarge
      else Inr ((q_QtyLots req * ucast (q_OriginalPriceTick req) + 99) div 100))"

text \<open>The levels of the published order book.  The balance checks of the code only log.\<close>

record bookView =
  bv_Asks :: nat
  bv_Bids :: nat

definition precheckPlaceOrder :: "PlaceOrderRequest \<Rightarrow> GatewayMarket \<Rightarrow> bookView \<Rightarrow> unixtime \<Rightarrow> gateway_error option" where
  "precheckPlaceOrder req market book now =
     (if gm_Status market \<noteq> ''open'' then Some MarketNotOpen
      else if (case gm_CloseTime market of None \<Rightarrow> False | Some t \<Rightarrow> t < now) then Some MarketClosed
      else if EqualFold (q_OrderType req) ''market'' \<and> EqualFold (q_Side req) ''buy'' \<and> bv_Asks book = 0 then Some NoMarketLiquidity
      else if EqualFold (q_OrderType req) ''market'' \<and> EqualFold (q_Side req) ''sell'' \<and> bv_Bids book = 0 then Some NoMarketLiquidity
      else if ToLower (TrimSpace (q_OriginalAction req)) = ''sell'' then None
      else case requiredCollateralUnits req of Inl e \<Rightarrow> Some e | Inr _ \<Rightarrow> None)"

section \<open>Placing an order\<close>

definition buildPlaceOrderCommandV1 :: "unixtime \<Rightarrow> PlaceOrderRequest \<Rightarrow> bytes \<Rightarrow> u64 \<Rightarrow> ProtoPlaceOrder" where
  "buildPlaceOrderCommandV1 now req intentBytes orderID =
     \<lparr>pc_CommandID = [], pc_TraceID = [], pc_IdempotencyKey = [], pc_Timestamp = now, pc_MarketID = q_MarketID req, pc_MarketPDA = q_Market req,
      pc_Execution = \<lparr>pe_OrderID = orderID, pe_WalletAddress = q_WalletAddress req,
        pe_OriginalAction = ToLower (TrimSpace (q_OriginalAction req)), pe_OriginalOutcome = ToLower (TrimSpace (q_OriginalOutcome req)),
        pe_OriginalPriceTick = q_OriginalPriceTick req, pe_OrderType = ToLower (TrimSpace (q_OrderType req)),
        pe_NormalizedSide = ToLower (TrimSpace (q_NormalizedSide req)), pe_NormalizedPriceTick = ucast (q_NormalizedPriceTick req),
        pe_QtyLots = q_QtyLots req, pe_SpendAmount = q_SpendAmount req, pe_ExpireTime = q_ExpireTime req, pe_Nonce = q_Nonce req\<rparr>,
      pc_IntentBytesHex = hexEncode intentBytes, pc_Signature = q_Signature req\<rparr>"

record CommandEnvelope =
  en_ID :: string
  en_Type :: string
  en_SchemaVersion :: int
  en_MarketID :: u64
  en_Producer :: string
  en_TraceID :: string
  en_IdempotencyKey :: string
  en_CreatedAt :: unixtime
  en_Payload :: ProtoPlaceOrder

definition submitEnvelope :: "unixtime \<Rightarrow> u64 \<Rightarrow> ProtoPlaceOrder \<Rightarrow> CommandEnvelope" where
  "submitEnvelope now marketID cmd =
     \<lparr>en_ID = pc_CommandID cmd, en_Type = ''cmd.order.submit'', en_SchemaVersion = 1, en_MarketID = marketID, en_Producer = ''gateway'',
      en_TraceID = pc_TraceID cmd, en_IdempotencyKey = pc_IdempotencyKey cmd, en_CreatedAt = now, en_Payload = cmd\<rparr>"

text \<open>The wallet of a request: the session's, or without a session the one named, which must be a key.\<close>

definition resolveAuthenticatedWalletAddress :: "GatewayEnv \<Rightarrow> string option \<Rightarrow> string \<Rightarrow> gateway_error + string" where
  "resolveAuthenticatedWalletAddress env session hint =
     (case session of
        Some w \<Rightarrow> if TrimSpace w \<noteq> [] then Inr (TrimSpace w) else Inl Unauthenticated
      | None \<Rightarrow>
          if TrimSpace hint = [] then Inl WalletRequiredG
          else if ge_parseKey env (TrimSpace hint) = None then Inl BadWalletAddress
          else Inr (TrimSpace hint))"

text \<open>The market of a request, by its id or by its address in the list.\<close>

definition resolveMarketForOrder ::
  "(u64 \<Rightarrow> gateway_error + GatewayMarket) \<Rightarrow> GatewayMarket list option \<Rightarrow> PlaceOrderRequest \<Rightarrow> gateway_error + GatewayMarket" where
  "resolveMarketForOrder getMarket listing req =
     (if q_MarketID req \<noteq> 0 then getMarket (q_MarketID req)
      else if TrimSpace (q_Market req) = [] then Inl MarketOrIDRequired
      else case listing of
        None \<Rightarrow> Inl MarketStoreFailed
      | Some ms \<Rightarrow> (case find (\<lambda>m. EqualFold (TrimSpace (gm_MarketPDA m)) (TrimSpace (q_Market req))) ms of
          None \<Rightarrow> Inl MarketNotFound | Some m \<Rightarrow> Inr m))"

datatype busAnswer = BusAccepts | BusDisabled | BusFails

text \<open>What one call gets from outside: readiness, the body, the session, the markets, the book, the two
  identifiers, the headers, the time and the bus.\<close>

record placeCall =
  pl_Ready :: bool
  pl_Body :: "PlaceOrderRequest option"
  pl_Session :: "string option"
  pl_GetMarket :: "u64 \<Rightarrow> gateway_error + GatewayMarket"
  pl_Markets :: "GatewayMarket list option"
  pl_Book :: bookView
  pl_OrderID :: "u64 option"
  pl_CommandID :: "u64 option"
  pl_IdempotencyKey :: string
  pl_TraceID :: string
  pl_Now :: unixtime
  pl_Bus :: busAnswer

datatype PlaceOutcome = Responded int gateway_error | Published CommandEnvelope

definition commandFor :: "placeCall \<Rightarrow> PlaceOrderRequest \<Rightarrow> bytes \<Rightarrow> u64 \<Rightarrow> u64 \<Rightarrow> ProtoPlaceOrder" where
  "commandFor call req intentBytes orderID commandID =
     (buildPlaceOrderCommandV1 (pl_Now call) req intentBytes orderID)\<lparr>pc_CommandID := FormatUint10 commandID,
        pc_TraceID := TrimSpace (pl_TraceID call), pc_IdempotencyKey := TrimSpace (pl_IdempotencyKey call)\<rparr>"

definition publishOrder :: "placeCall \<Rightarrow> PlaceOrderRequest \<Rightarrow> bytes \<Rightarrow> PlaceOutcome" where
  "publishOrder call req intentBytes =
     (case pl_OrderID call of None \<Rightarrow> Responded 500 NoOrderID
      | Some orderID \<Rightarrow>
          if TrimSpace (pl_IdempotencyKey call) = [] then Responded 400 IdempotencyKeyRequired
          else if TrimSpace (pl_TraceID call) = [] then Responded 400 TraceIDRequired
          else case pl_CommandID call of None \<Rightarrow> Responded 500 NoCommandID
          | Some commandID \<Rightarrow>
              (let cmd = commandFor call req intentBytes orderID commandID in
               case ValidatePlaceOrderCommand cmd of
                 Some e \<Rightarrow> Responded 400 (InvalidCommand e)
               | None \<Rightarrow>
                   (case pl_Bus call of BusFails \<Rightarrow> Responded 500 BusFailedG | BusDisabled \<Rightarrow> Responded 501 BusDisabledG
                    | BusAccepts \<Rightarrow> Published (submitEnvelope (pl_Now call) (q_MarketID req) cmd))))"

definition handlePlaceOrderRequest :: "GatewayEnv \<Rightarrow> placeCall \<Rightarrow> PlaceOutcome" where
  "handlePlaceOrderRequest env call =
     (if \<not> pl_Ready call then Responded 503 BootstrapInProgress
      else case pl_Body call of None \<Rightarrow> Responded 400 InvalidBody
      | Some req \<Rightarrow>
          (case resolveAuthenticatedWalletAddress env (pl_Session call) (if q_WalletAddress req = [] then q_User req else q_WalletAddress req) of
             Inl e \<Rightarrow> Responded 401 e
           | Inr wallet \<Rightarrow>
               (case resolveMarketForOrder (pl_GetMarket call) (pl_Markets call) req of
                  Inl e \<Rightarrow> Responded (if e = MarketNotFound then 404 else 500) e
                | Inr market \<Rightarrow>
                    (case normalizePlaceOrderRequest env req market wallet of
                       Inl e \<Rightarrow> Responded (if e = OrderWalletMismatch then 401 else 400) e
                     | Inr (req, _) \<Rightarrow>
                         (case validateBorshOrderIntent env req wallet of
                            Inl e \<Rightarrow> Responded (if e = OrderWalletMismatch \<or> e = OrderSignatureInvalid then 401 else 400) e
                          | Inr (_, intentBytes) \<Rightarrow>
                              (case precheckPlaceOrder req market (pl_Book call) (pl_Now call) of
                                 Some e \<Rightarrow> Responded (if e = NoMarketLiquidity then 409 else 400) e
                               | None \<Rightarrow> publishOrder call req intentBytes))))))"

section \<open>Token actions\<close>

record positionSnapshot =
  YesFreeLots :: u64
  YesLockedLots :: u64
  YesPendingLots :: u64
  NoFreeLots :: u64
  NoLockedLots :: u64
  NoPendingLots :: u64
  ps_CollateralLockedUnits :: u64

record walletAccountSnapshot =
  CollateralTotalUnits :: u64
  CollateralFreeUnits :: u64
  CollateralLockedUnits :: u64
  CollateralPendingUnits :: i64

definition applyTokenAction ::
  "string \<Rightarrow> positionSnapshot \<Rightarrow> walletAccountSnapshot \<Rightarrow> u64 \<Rightarrow> string \<Rightarrow> gateway_error + positionSnapshot \<times> walletAccountSnapshot" where
  "applyTokenAction kind p a amount outcome =
     (let credit = a\<lparr>CollateralFreeUnits := CollateralFreeUnits a + amount\<rparr> in
      if kind = ''split'' then
        (if CollateralFreeUnits a < amount then Inl InsufficientCollateral
         else Inr (p\<lparr>YesFreeLots := YesFreeLots p + amount, NoFreeLots := NoFreeLots p + amount\<rparr>,
                   a\<lparr>CollateralFreeUnits := CollateralFreeUnits a - amount\<rparr>))
      else if kind = ''merge'' then
        (if YesFreeLots p < amount \<or> NoFreeLots p < amount then Inl InsufficientLots
         else Inr (p\<lparr>YesFreeLots := YesFreeLots p - amount, NoFreeLots := NoFreeLots p - amount\<rparr>, credit))
      else if kind = ''claim'' then
        (let outcome = ToLower (TrimSpace outcome) in
         if outcome = ''yes'' then
           (if YesFreeLots p < amount then Inl InsufficientLots else Inr (p\<lparr>YesFreeLots := YesFreeLots p - amount\<rparr>, credit))
         else if outcome = ''no'' then
           (if NoFreeLots p < amount then Inl InsufficientLots else Inr (p\<lparr>NoFreeLots := NoFreeLots p - amount\<rparr>, credit))
         else Inl ClaimOutcome)
      else Inl UnsupportedAction)"

definition clampNonNegativeInt64 :: "i64 \<Rightarrow> i64" where
  "clampNonNegativeInt64 value1 = (if value1 <s 0 then 0 else value1)"

text \<open>The account as \<open>upsertWalletAccountSnapshot\<close> stores it.\<close>

definition storedAccount :: "walletAccountSnapshot \<Rightarrow> walletAccountSnapshot" where
  "storedAccount a =
     (let pending = clampNonNegativeInt64 (CollateralPendingUnits a)
      in a\<lparr>CollateralPendingUnits := pending, CollateralTotalUnits := CollateralFreeUnits a + CollateralLockedUnits a + pending\<rparr>)"

text \<open>The handler on the snapshots it read.  The two stores may fail one after the other: the result has the
  status and what was stored of each.\<close>

definition handleTokenAction ::
  "string \<Rightarrow> GatewayMarket \<Rightarrow> positionSnapshot \<Rightarrow> walletAccountSnapshot \<Rightarrow> u64 \<Rightarrow> string \<Rightarrow> bool \<Rightarrow> bool \<Rightarrow>
     int \<times> positionSnapshot option \<times> walletAccountSnapshot option" where
  "handleTokenAction kind market p a amount outcome positionStored accountStored =
     (if kind = ''claim'' \<and> gm_Status market \<noteq> ''resolved'' then (409, None, None)
      else let outcome = (if kind = ''claim'' \<and> outcome = [] then gm_Outcome market else outcome) in
        case applyTokenAction kind p a amount outcome of
          Inl e \<Rightarrow> (409, None, None)
        | Inr (p', a') \<Rightarrow>
            if \<not> positionStored then (500, None, None)
            else if \<not> accountStored then (500, Some p', None)
            else (200, Some p', Some (storedAccount a')))"

end
