(* ===== verification/GatewayLaws.thy ===== *)
theory GatewayLaws
  imports Gateway PreparedPayload
begin

text \<open>
  Properties of the order gateway: the two normalisations agree, an order it publishes is typed for the
  matcher and consistent with its signed intent for the settlement builder, and the token actions.
\<close>

section \<open>Normalisation\<close>

lemma lower_labels [simp]:
  "ToLower (TrimSpace ''buy'') = ''buy''" "ToLower (TrimSpace ''sell'') = ''sell''" "ToLower (TrimSpace ''yes'') = ''yes''"
  "ToLower (TrimSpace ''no'') = ''no''" "ToLower (TrimSpace ''limit'') = ''limit''" "ToLower (TrimSpace ''market'') = ''market''"
  by (simp_all add: ToLower_def TrimSpace_def isSpace_def toLowerChar_def)

lemma uint_tick: "(p :: u64) \<le> 99 \<Longrightarrow> uint (ucast p :: u8) = uint p"
proof -
  assume "p \<le> 99"
  then have "uint p < 256" by (simp add: word_le_def)
  then show ?thesis by (simp add: unsigned_ucast_eq take_bit_int_eq_self_iff)
qed

lemma tick_ge1: "(p :: u64) \<noteq> 0 \<Longrightarrow> 1 \<le> uint p"
  by (metis add_0 int_one_le_iff_zero_less le_less unsigned_eq_0_iff unsigned_greater_eq)

lemma tick_complement: "(p :: u64) \<le> 99 \<Longrightarrow> uint (100 - p) = 100 - uint p"
  by (subst uint_sub_lem [THEN iffD1]) (auto simp: word_le_def)

lemma normalize_valid:
  "side \<in> {''buy'', ''sell''} \<Longrightarrow> outcome \<in> {''yes'', ''no''} \<Longrightarrow> normalizeToYesBook side outcome p =
     (if p < 1 \<or> 99 < p then Inl BadLimitPrice
      else Inr (if outcome = ''yes'' then side else if side = ''buy'' then ''sell'' else ''buy'', if outcome = ''yes'' then p else 100 - p))"
  by (elim insertE emptyE) (simp_all add: normalizeToYesBook_def)

lemma normalize_Inr:
  assumes "normalizeToYesBook side outcome p = Inr (s, t)" "side \<in> {''buy'', ''sell''}" "outcome \<in> {''yes'', ''no''}"
  shows "p \<noteq> 0" "p \<le> 99" "s = (if outcome = ''yes'' then side else if side = ''buy'' then ''sell'' else ''buy'')"
    "uint t = (if outcome = ''yes'' then uint p else 100 - uint p)" "t \<noteq> 0" "t \<le> 99"
proof -
  note v = assms(1) [unfolded normalize_valid [OF assms(2,3)]]
  have c: "\<not> (p < 1 \<or> 99 < p)" using v by (cases "p < 1 \<or> 99 < p") simp_all
  have st: "s = (if outcome = ''yes'' then side else if side = ''buy'' then ''sell'' else ''buy'')" "t = (if outcome = ''yes'' then p else 100 - p)"
    using v unfolding if_not_P [OF c] by simp_all
  show p: "p \<noteq> 0" "p \<le> 99" using c by (simp_all add: not_less)
  show "s = (if outcome = ''yes'' then side else if side = ''buy'' then ''sell'' else ''buy'')" by fact
  show ut: "uint t = (if outcome = ''yes'' then uint p else 100 - uint p)" using st(2) tick_complement [OF p(2)] by simp
  have "1 \<le> uint p" "uint p \<le> 99" using tick_ge1 [OF p(1)] p(2) by (simp_all add: word_le_def)
  then have u: "1 \<le> uint t" "uint t \<le> 99" using ut by (simp_all split: if_splits)
  show "t \<noteq> 0" using u(1) by auto
  show "t \<le> 99" using u(2) by (simp add: word_le_def)
qed

lemma yes_book:
  assumes "normalizeToYesBook side outcome p = Inr (s, t)" "side \<in> {''buy'', ''sell''}" "outcome \<in> {''yes'', ''no''}"
  shows "normalizeYesOrder side outcome (uint (ucast p :: u8)) ty = Inr (s, uint t)"
proof -
  note n = normalize_Inr [OF assms]
  have "1 \<le> uint p" "uint p \<le> 99" using tick_ge1 [OF n(1)] n(2) by (simp_all add: word_le_def)
  then show ?thesis using assms(2,3) n(3,4) by (elim insertE emptyE) (simp_all add: normalizeYesOrder_def uint_tick [OF n(2)])
qed

section \<open>What a normalised request looks like\<close>

lemma normalized_request:
  assumes "normalizePlaceOrderRequest env req market w = Inr (req', bs)"
  obtains side tick p m u where
    "TrimSpace w \<noteq> []" "q_Side req \<in> {''buy'', ''sell''}" "q_Outcome req \<in> {''yes'', ''no''}" "q_OrderType req \<in> {''limit'', ''market''}"
    "normalizeToYesBook (q_Side req) (q_Outcome req) (q_LimitPrice req) = Inr (side, tick)"
    "req' = normalizedRequest req (TrimSpace (ge_ProgramID env)) market (TrimSpace w) side tick"
    "ge_parseKey env (TrimSpace (ge_ProgramID env)) = Some p" "ge_parseKey env (TrimSpace (gm_MarketPDA market)) = Some m"
    "ge_parseKey env (TrimSpace w) = Some u" "buildRawOrderIntentBytes req' p m u = Inr bs" "q_Signature req \<noteq> []"
  using assms
  by (auto simp: normalizePlaceOrderRequest_def Let_def normalizedRequest_def split: if_splits sum.splits option.splits prod.splits)

lemma normalizedRequest_sel [simp]:
  "q_ProgramID (normalizedRequest req pg market w side tick) = pg" "q_Market (normalizedRequest req pg market w side tick) = TrimSpace (gm_MarketPDA market)"
  "q_WalletAddress (normalizedRequest req pg market w side tick) = w" "q_OriginalAction (normalizedRequest req pg market w side tick) = q_Side req"
  "q_OriginalOutcome (normalizedRequest req pg market w side tick) = q_Outcome req" "q_OrderType (normalizedRequest req pg market w side tick) = q_OrderType req"
  "q_OriginalPriceTick (normalizedRequest req pg market w side tick) = ucast (q_LimitPrice req)" "q_LimitPrice (normalizedRequest req pg market w side tick) = q_LimitPrice req"
  "q_Side (normalizedRequest req pg market w side tick) = side" "q_PriceTick (normalizedRequest req pg market w side tick) = ucast tick"
  "q_NormalizedSide (normalizedRequest req pg market w side tick) = side" "q_NormalizedPriceTick (normalizedRequest req pg market w side tick) = tick"
  "q_TotalAmount (normalizedRequest req pg market w side tick) = q_TotalAmount req" "q_Nonce (normalizedRequest req pg market w side tick) = q_Nonce req"
  "q_ExpiryTs (normalizedRequest req pg market w side tick) = q_ExpiryTs req" "q_ExpireTime (normalizedRequest req pg market w side tick) = q_ExpiryTs req"
  "q_Signature (normalizedRequest req pg market w side tick) = q_Signature req" "q_MarketID (normalizedRequest req pg market w side tick) = gm_MarketID market"
  "q_QtyLots (normalizedRequest req pg market w side tick) = (if q_OrderType req = ''market'' \<and> q_Side req = ''buy'' then 0 else q_TotalAmount req)"
  "q_SpendAmount (normalizedRequest req pg market w side tick) = (if q_OrderType req = ''market'' \<and> q_Side req = ''buy'' then q_TotalAmount req else 0)"
  by (simp_all add: normalizedRequest_def Let_def)

lemma gateway_checks:
  assumes "normalizePlaceOrderRequest env req market w = Inr (req', bs)"
  shows "checkSemantics req' w =
    (if q_TotalAmount req = 0 then Some (if q_OrderType req = ''market'' \<and> q_Side req = ''buy'' then SpendRequired else QtyRequired) else None)"
proof -
  obtain side tick p m u where n: "TrimSpace w \<noteq> []" "q_Side req \<in> {''buy'', ''sell''}" "q_Outcome req \<in> {''yes'', ''no''}"
    "q_OrderType req \<in> {''limit'', ''market''}" "normalizeToYesBook (q_Side req) (q_Outcome req) (q_LimitPrice req) = Inr (side, tick)"
    "req' = normalizedRequest req (TrimSpace (ge_ProgramID env)) market (TrimSpace w) side tick"
    using assms by (rule normalized_request)
  note y = normalize_Inr [OF n(5,2,3)]
  have tick_ok: "\<not> (ucast x < (1 :: u8) \<or> 99 < (ucast x :: u8))" if "x \<noteq> 0" "x \<le> 99" for x :: u64
    using uint_tick [OF that(2)] tick_ge1 [OF that(1)] that(2) by (simp add: word_less_def word_le_def not_less)
  have ticks: "\<not> (ucast (q_LimitPrice req) < (1 :: u8) \<or> 99 < (ucast (q_LimitPrice req) :: u8))" "\<not> (ucast tick < (1 :: u8) \<or> 99 < (ucast tick :: u8))"
    by (rule tick_ok [OF y(1,2)], rule tick_ok [OF y(5,6)])
  have t: "of_int (uint tick) = (ucast tick :: u8)" by (rule ucast_eq [symmetric])
  have e: "EqualFold side side" by (simp add: EqualFold_def)
  have labels: "\<not> (q_Side req \<noteq> ''buy'' \<and> q_Side req \<noteq> ''sell'')" "\<not> (q_Outcome req \<noteq> ''yes'' \<and> q_Outcome req \<noteq> ''no'')"
    using n(2,3) by blast+
  have byLots: "(q_OrderType req = ''limit'' \<or> q_OrderType req = ''market'' \<and> q_Side req = ''sell'') = (\<not> (q_OrderType req = ''market'' \<and> q_Side req = ''buy''))"
    using n(2,4) by auto
  show ?thesis
    unfolding n(6) checkSemantics_def normalizedRequest_sel TrimSpace_idem if_not_P [OF ticks(1)] if_not_P [OF ticks(2)] yes_book [OF n(5,2,3)]
      if_not_P [OF labels(1)] if_not_P [OF labels(2)] if_not_P [OF n(1)] byLots
    by (simp add: e t Let_def)
qed

text \<open>The gateway's two checks of an order agree.  After the request was normalised to the YES book, the
  second, independent normalisation of the signed fields finds the same side and tick, and the field
  checks can only refuse a zero amount.\<close>
theorem gateway_checks_agree:
  assumes "normalizePlaceOrderRequest env req market w = Inr (req', bs)"
  shows "checkSemantics req' w =
    (if q_TotalAmount req = 0 then Some (if q_OrderType req = ''market'' \<and> q_Side req = ''buy'' then SpendRequired else QtyRequired) else None)"
  using assms by (rule gateway_checks)

section \<open>Published orders\<close>

lemma published:
  assumes "handlePlaceOrderRequest env call = Published en"
  obtains req market wallet req' bs b ib orderID commandID where
    "normalizePlaceOrderRequest env req market wallet = Inr (req', bs)" "validateBorshOrderIntent env req' wallet = Inr (b, ib)"
    "precheckPlaceOrder req' market (pl_Book call) (pl_Now call) = None"
    "ValidatePlaceOrderCommand (commandFor call req' ib orderID commandID) = None"
    "en = submitEnvelope (pl_Now call) (q_MarketID req') (commandFor call req' ib orderID commandID)"
  using assms by (auto simp: handlePlaceOrderRequest_def publishOrder_def Let_def split: if_splits option.splits sum.splits prod.splits busAnswer.splits)

lemma validated:
  assumes "validateBorshOrderIntent env req w = Inr (b, ib)"
  obtains sig u p m intent where "checkSemantics req w = None" "gatewayDecodeSignature (TrimSpace (q_Signature req)) = Inr sig"
    "TrimSpace (q_Signature req) \<noteq> []" "ge_parseKey env (TrimSpace (q_WalletAddress req)) = Some u" "ge_parseKey env (TrimSpace (q_ProgramID req)) = Some p"
    "ge_parseKey env (TrimSpace (q_Market req)) = Some m" "buildRawOrderIntentBytes req p m u = Inr ib" "ParseOrderIntentV1 ib = Inr intent"
    "ge_verify env u (SignableMessage (ge_keccak env) intent) sig"
  using assms by (auto simp: validateBorshOrderIntent_def split: if_splits option.splits sum.splits)

lemma gateway_signature: "gatewayDecodeSignature (TrimSpace raw) = Inr sig \<Longrightarrow> TrimSpace raw \<noteq> [] \<Longrightarrow> decodeSignature raw = Inr sig"
  by (auto simp: gatewayDecodeSignature_def decodeSignature_def Let_def split: option.splits if_splits)

text \<open>The enumerations, from the request to the matcher's bytes and back to the event's labels.\<close>

lemma side_roundtrip:
  assumes "q \<in> {''buy'', ''sell''}"
  shows "sideString (toMatchingSide (ToLower (TrimSpace q))) = q" "compareSide (intentSideOf (mapSideToUint8 q)) q"
  using assms by (auto simp: sideString_def toMatchingSide_def intentSideOf_def mapSideToUint8_def compareSide_def side_defs)

lemma outcome_roundtrip:
  assumes "q \<in> {''yes'', ''no''}"
  shows "outcomeString (toMatchingOutcome (ToLower (TrimSpace q))) = q" "compareOutcome (intentOutcomeOf (mapOutcomeToUint8 q)) q"
  using assms by (auto simp: outcomeString_def toMatchingOutcome_def intentOutcomeOf_def mapOutcomeToUint8_def compareOutcome_def)

lemma type_roundtrip:
  assumes "q \<in> {''limit'', ''market''}"
  shows "orderTypeString (if ToLower (TrimSpace q) = ''market'' then OrderTypeMarket else OrderTypeLimit) = q"
    "compareOrderType (intentOrderTypeOf (mapOrderTypeToUint8 q)) q"
  using assms by (auto simp: orderTypeString_def intentOrderTypeOf_def mapOrderTypeToUint8_def compareOrderType_def order_type_defs)

lemma command_snapshot:
  fixes call req ib orderID commandID
  defines "x \<equiv> executionSnapshotFromCommand (ConvertProtocolToPlaceOrderCommand (commandFor call req ib orderID commandID))"
  assumes "q_OriginalAction req \<in> {''buy'', ''sell''}" "q_OriginalOutcome req \<in> {''yes'', ''no''}" "q_OrderType req \<in> {''limit'', ''market''}"
  shows "x_OrderID x = orderID" "x_WalletAddress x = q_WalletAddress req" "x_Nonce x = q_Nonce req" "x_ExpireTime x = q_ExpireTime req"
    "x_OriginalPriceTick x = q_OriginalPriceTick req" "x_OriginalAction x = q_OriginalAction req" "x_OriginalOutcome x = q_OriginalOutcome req"
    "x_OrderType x = q_OrderType req"
  using side_roundtrip [OF assms(2)] outcome_roundtrip [OF assms(3)] type_roundtrip [OF assms(4)]
  by (simp_all add: x_def executionSnapshotFromCommand_def ConvertProtocolToPlaceOrderCommand_def commandFor_def buildPlaceOrderCommandV1_def Let_def)

text \<open>The checks of the settlement builder on the intent of a normalised request.\<close>

lemma intent_consistent:
  assumes n: "normalizePlaceOrderRequest env req market w = Inr (req', bs)" and v: "checkSemantics req' w = None"
    and k: "ge_parseKey env (TrimSpace (q_WalletAddress req')) = Some u" and b: "buildRawOrderIntentBytes req' p m u = Inr ib"
  shows "validateIntentAgainstExecution (ge_parseKey env) (rawIntent req' p m u) m
      (executionSnapshotFromCommand (ConvertProtocolToPlaceOrderCommand (commandFor call req' ib orderID commandID))) =
    (case minimumOrderNotional (rawIntent req' p m u) of
       Inl e \<Rightarrow> Some (NotionalOverflow orderID e)
     | Inr units \<Rightarrow> if units < 100 then Some (NotionalTooSmall orderID) else None)"
proof -
  obtain side tick where r: "TrimSpace w \<noteq> []" "q_Side req \<in> {''buy'', ''sell''}" "q_Outcome req \<in> {''yes'', ''no''}"
    "q_OrderType req \<in> {''limit'', ''market''}" "normalizeToYesBook (q_Side req) (q_Outcome req) (q_LimitPrice req) = Inr (side, tick)"
    "req' = normalizedRequest req (TrimSpace (ge_ProgramID env)) market (TrimSpace w) side tick"
    using normalized_request [OF n] by metis
  note y = normalize_Inr [OF r(5,2,3)]
  have labels: "q_OriginalAction req' \<in> {''buy'', ''sell''}" "q_OriginalOutcome req' \<in> {''yes'', ''no''}" "q_OrderType req' \<in> {''limit'', ''market''}"
    using r by simp_all
  note x = command_snapshot [OF labels, of call ib orderID commandID]
  have total: "q_TotalAmount req' \<noteq> 0" using v unfolding gateway_checks [OF n] by (simp add: r(6) split: if_splits)
  have tick: "\<not> ((ucast (q_LimitPrice req') :: u8) = 0 \<or> 100 \<le> (ucast (q_LimitPrice req') :: u8))"
    using uint_tick [OF y(2)] tick_ge1 [OF y(1)] y(2) unfolding r(6) by (auto simp: word_le_def)
  have expiry: "\<not> (q_ExpireTime req' < 0 \<or> 4294967295 < q_ExpireTime req')" "q_ExpireTime req' = q_ExpiryTs req'"
    using b unfolding r(6) by (auto simp: buildRawOrderIntentBytes_def split: if_splits)
  have wallet: "ge_parseKey env (q_WalletAddress req') = Some u" using k by (simp add: r(6))
  have price: "q_OriginalPriceTick req' = ucast (q_LimitPrice req')" by (simp add: r(6))
  show ?thesis
    unfolding validateIntentAgainstExecution_def Let_def x wallet option.case
    using total tick expiry price side_roundtrip(2) [OF labels(1)] outcome_roundtrip(2) [OF labels(2)] type_roundtrip(2) [OF labels(3)]
    by (simp add: rawIntent_def split: sum.split)
qed

text \<open>C37: what the gateway publishes, the settlement builder accepts, up to the size of the order.  The command is
  valid; its intent parses and carries a signature that verified for its wallet over its signable
  message, which the settlement builder decodes to the same bytes; and when the matcher turns the command
  into an execution, the builder's comparison of intent and execution succeeds on program, market, user,
  nonce, expiry, price, side, outcome and type: only the minimum notional remains to decide.\<close>
theorem published_orders_consistent:
  assumes "handlePlaceOrderRequest env call = Published en" "\<forall>s k. ge_parseKey env s = Some k \<longrightarrow> length k = 32"
  shows "\<exists>intent sig m. ValidatePlaceOrderCommand (en_Payload en) = None \<and>
    OrderIntentFromHex (pc_IntentBytesHex (en_Payload en)) = Inr intent \<and> decodeSignature (pc_Signature (en_Payload en)) = Inr sig \<and>
    ge_verify env (i_User intent) (SignableMessage (ge_keccak env) intent) sig \<and>
    ge_parseKey env (TrimSpace (ge_ProgramID env)) = Some (i_ProgramID intent) \<and> ge_parseKey env (pc_MarketPDA (en_Payload en)) = Some m \<and>
    validateIntentAgainstExecution (ge_parseKey env) intent m (executionSnapshotFromCommand (ConvertProtocolToPlaceOrderCommand (en_Payload en))) =
      (case minimumOrderNotional intent of
         Inl e \<Rightarrow> Some (NotionalOverflow (pe_OrderID (pc_Execution (en_Payload en))) e)
       | Inr units \<Rightarrow> if units < 100 then Some (NotionalTooSmall (pe_OrderID (pc_Execution (en_Payload en)))) else None)"
proof -
  obtain req market wallet req' bs b ib orderID commandID where h:
    "normalizePlaceOrderRequest env req market wallet = Inr (req', bs)" "validateBorshOrderIntent env req' wallet = Inr (b, ib)"
    "ValidatePlaceOrderCommand (commandFor call req' ib orderID commandID) = None"
    "en = submitEnvelope (pl_Now call) (q_MarketID req') (commandFor call req' ib orderID commandID)"
    using published [OF assms(1)] by metis
  obtain sig u p m intent where v: "checkSemantics req' wallet = None" "gatewayDecodeSignature (TrimSpace (q_Signature req')) = Inr sig"
    "TrimSpace (q_Signature req') \<noteq> []" "ge_parseKey env (TrimSpace (q_WalletAddress req')) = Some u" "ge_parseKey env (TrimSpace (q_ProgramID req')) = Some p"
    "ge_parseKey env (TrimSpace (q_Market req')) = Some m" "buildRawOrderIntentBytes req' p m u = Inr ib" "ParseOrderIntentV1 ib = Inr intent"
    "ge_verify env u (SignableMessage (ge_keccak env) intent) sig"
    using validated [OF h(2)] by metis
  obtain side tick where r: "req' = normalizedRequest req (TrimSpace (ge_ProgramID env)) market (TrimSpace wallet) side tick"
    using normalized_request [OF h(1)] by metis
  have ib: "ib = Serialize (rawIntent req' p m u)" using v(7) by (auto simp: buildRawOrderIntentBytes_def split: if_splits)
  have "intent_wf (rawIntent req' p m u)" using v(4-6) assms(2) by (auto simp: intent_wf_def rawIntent_def)
  then have i: "intent = rawIntent req' p m u" using Parse_Serialize v(8) ib by fastforce
  have en: "en_Payload en = commandFor call req' ib orderID commandID" by (simp add: h(4) submitEnvelope_def)
  have c: "pc_IntentBytesHex (en_Payload en) = hexEncode ib" "pc_Signature (en_Payload en) = q_Signature req'" "pc_MarketPDA (en_Payload en) = q_Market req'"
    "pe_OrderID (pc_Execution (en_Payload en)) = orderID"
    by (simp_all add: en commandFor_def buildPlaceOrderCommandV1_def)
  have "OrderIntentFromHex (hexEncode ib) = Inr intent" by (simp add: OrderIntentFromHex_def v(8))
  moreover have "decodeSignature (q_Signature req') = Inr sig" using gateway_signature [OF v(2,3)] .
  moreover have "ge_parseKey env (q_Market req') = Some m" using v(6) by (simp add: r)
  moreover have "i_User intent = u" "i_ProgramID intent = p" by (simp_all add: i rawIntent_def)
  moreover have "ge_parseKey env (TrimSpace (ge_ProgramID env)) = Some p" using v(5) by (simp add: r)
  ultimately show ?thesis
    unfolding c using h(3) v(9) intent_consistent [OF h(1) v(1,4,7), of call orderID commandID] unfolding en i
    by (intro exI [of _ "rawIntent req' p m u"] exI [of _ sig] exI [of _ m] conjI; (assumption | simp only:))
qed

text \<open>C39: a published order is typed for the matcher.  Its converted command has a side, a type and an outcome of
  the enumerations, ticks from 1 to 99 and something to trade; and its side and tick are those of the
  signed order on the YES book: unchanged for YES, and for NO the other side at the complementary tick.\<close>
theorem published_orders_typed:
  assumes "handlePlaceOrderRequest env call = Published en"
  defines "c \<equiv> ConvertProtocolToPlaceOrderCommand (en_Payload en)"
  shows "c_Side c \<in> {SideBuy, SideSell} \<and> c_OriginalAction c \<in> {SideBuy, SideSell} \<and> c_OriginalOutcome c \<in> {0, 1} \<and>
    c_OrderType c \<in> {OrderTypeLimit, OrderTypeMarket} \<and> 1 \<le> c_PriceTick c \<and> c_PriceTick c \<le> 99 \<and> \<not> IsFilled (orderFromCmd c) \<and>
    (if c_OriginalOutcome c = 0 then c_Side c = c_OriginalAction c \<and> uint (c_PriceTick c) = uint (c_OriginalPriceTick c)
     else c_Side c \<noteq> c_OriginalAction c \<and> uint (c_PriceTick c) = 100 - uint (c_OriginalPriceTick c))"
proof -
  obtain req market wallet req' bs ib orderID commandID where h: "normalizePlaceOrderRequest env req market wallet = Inr (req', bs)"
    "ValidatePlaceOrderCommand (commandFor call req' ib orderID commandID) = None"
    "en = submitEnvelope (pl_Now call) (q_MarketID req') (commandFor call req' ib orderID commandID)"
    using published [OF assms(1)] by metis
  obtain side tick where r: "q_Side req \<in> {''buy'', ''sell''}" "q_Outcome req \<in> {''yes'', ''no''}"
    "normalizeToYesBook (q_Side req) (q_Outcome req) (q_LimitPrice req) = Inr (side, tick)"
    "req' = normalizedRequest req (TrimSpace (ge_ProgramID env)) market (TrimSpace wallet) side tick"
    using normalized_request [OF h(1)] by metis
  note y = normalize_Inr [OF r(3,1,2)]
  have en: "en_Payload en = commandFor call req' ib orderID commandID" by (simp add: h(3) submitEnvelope_def)
  have side: "side \<in> {''buy'', ''sell''}" using y(3) r(1) by auto
  have sel: "c_Side c = (if side = ''sell'' then SideSell else SideBuy)" "c_PriceTick c = ucast tick" "c_OriginalPriceTick c = ucast (q_LimitPrice req)"
    "c_OriginalAction c = toMatchingSide (q_Side req)" "c_OriginalOutcome c = toMatchingOutcome (q_Outcome req)"
    using side r(1,2) by (auto simp: c_def en ConvertProtocolToPlaceOrderCommand_def commandFor_def buildPlaceOrderCommandV1_def Let_def r(4))
  have "if c_OriginalOutcome c = 0 then c_Side c = c_OriginalAction c \<and> uint (c_PriceTick c) = uint (c_OriginalPriceTick c)
     else c_Side c \<noteq> c_OriginalAction c \<and> uint (c_PriceTick c) = 100 - uint (c_OriginalPriceTick c)"
    unfolding sel uint_tick [OF y(2)] uint_tick [OF y(6)] y(3,4) using r(1,2)
    by (elim insertE emptyE) (simp_all add: toMatchingOutcome_def toMatchingSide_def side_defs)
  then show ?thesis using converted_ranges [OF h(2)] converted_not_filled [OF h(2)] unfolding c_def en by blast
qed

section \<open>A sample order\<close>

definition sampleGateway :: GatewayEnv where
  "sampleGateway = \<lparr>ge_ProgramID = hexEncode (sampleKey 1), ge_parseKey = sampleParse, ge_keccak = (\<lambda>bs. replicate 32 0), ge_verify = (\<lambda>k m s. True)\<rparr>"

definition sampleRequest :: "u64 \<Rightarrow> PlaceOrderRequest" where
  "sampleRequest amt = \<lparr>q_Version = 1, q_ProgramID = [], q_Market = [], q_User = [], q_Side = ''buy'', q_Outcome = ''no'', q_OrderType = ''limit'',
     q_LimitPrice = 40, q_TotalAmount = amt, q_Nonce = 9, q_ExpiryTs = 5000, q_Signature = base64Encode False True (replicate 64 9),
     q_MarketID = 7, q_WalletAddress = [], q_OriginalAction = [], q_OriginalOutcome = [], q_OriginalPriceTick = 0, q_PriceTick = 0, q_QtyLots = 0,
     q_SpendAmount = 0, q_ExpireTime = 0, q_NormalizedSide = [], q_NormalizedPriceTick = 0\<rparr>"

definition sampleMarket :: GatewayMarket where
  "sampleMarket = \<lparr>gm_MarketID = 7, gm_MarketPDA = hexEncode (sampleKey 2), gm_Status = ''open'', gm_Outcome = [], gm_CloseTime = None\<rparr>"

definition sampleCall :: "u64 \<Rightarrow> placeCall" where
  "sampleCall amt = \<lparr>pl_Ready = True, pl_Body = Some (sampleRequest amt), pl_Session = Some (hexEncode (sampleKey 3)),
     pl_GetMarket = (\<lambda>i. Inr sampleMarket), pl_Markets = None, pl_Book = \<lparr>bv_Asks = 0, bv_Bids = 0\<rparr>, pl_OrderID = Some 11, pl_CommandID = Some 12,
     pl_IdempotencyKey = ''k'', pl_TraceID = ''t'', pl_Now = 1000, pl_Bus = BusAccepts\<rparr>"

definition sampleNormalized :: "u64 \<Rightarrow> PlaceOrderRequest" where
  "sampleNormalized amt = normalizedRequest (sampleRequest amt) (hexEncode (sampleKey 1)) sampleMarket (hexEncode (sampleKey 3)) ''sell'' 60"

definition gatewayIntent :: "u64 \<Rightarrow> OrderIntentV1" where
  "gatewayIntent amt = rawIntent (sampleNormalized amt) (sampleKey 1) (sampleKey 2) (sampleKey 3)"

lemma hexEncode_ne: "k \<noteq> [] \<Longrightarrow> hexEncode k \<noteq> []"
  by (cases k) simp_all

lemma sampleKey_ne: "hexEncode (sampleKey n) \<noteq> []"
  by (rule hexEncode_ne) (simp add: sampleKey_def)

lemma sample_request:
  "q_User (sampleRequest amt) = []" "q_Signature (sampleRequest amt) = base64Encode False True (replicate 64 9)" "q_ProgramID (sampleRequest amt) = []"
  "q_Market (sampleRequest amt) = []" "q_OrderType (sampleRequest amt) = ''limit''" "q_Side (sampleRequest amt) = ''buy''" "q_Outcome (sampleRequest amt) = ''no''"
  "q_LimitPrice (sampleRequest amt) = 40" "q_ExpiryTs (sampleRequest amt) = 5000" "q_TotalAmount (sampleRequest amt) = amt" "q_Nonce (sampleRequest amt) = 9"
  "q_MarketID (sampleRequest amt) = 7" "q_WalletAddress (sampleRequest amt) = []"
  by (simp_all add: sampleRequest_def)

lemma sample_env:
  "ge_ProgramID sampleGateway = hexEncode (sampleKey 1)" "ge_parseKey sampleGateway = sampleParse" "gm_MarketPDA sampleMarket = hexEncode (sampleKey 2)"
  "ge_verify sampleGateway k m s" "gm_MarketID sampleMarket = 7" "gm_Status sampleMarket = ''open''" "gm_CloseTime sampleMarket = None"
  by (simp_all add: sampleGateway_def sampleMarket_def)

lemma sample_user: "q_User (sampleNormalized amt) = hexEncode (sampleKey 3)"
  by (simp add: sampleNormalized_def normalizedRequest_def Let_def)

lemma sample_normal:
  "q_OriginalAction (sampleNormalized amt) = ''buy''" "q_OriginalOutcome (sampleNormalized amt) = ''no''" "q_OrderType (sampleNormalized amt) = ''limit''"
  "q_OriginalPriceTick (sampleNormalized amt) = 40" "q_LimitPrice (sampleNormalized amt) = 40" "q_QtyLots (sampleNormalized amt) = amt"
  "q_SpendAmount (sampleNormalized amt) = 0" "q_TotalAmount (sampleNormalized amt) = amt" "q_NormalizedSide (sampleNormalized amt) = ''sell''"
  "q_NormalizedPriceTick (sampleNormalized amt) = 60" "q_Signature (sampleNormalized amt) = base64Encode False True (replicate 64 9)"
  "q_WalletAddress (sampleNormalized amt) = hexEncode (sampleKey 3)" "q_ProgramID (sampleNormalized amt) = hexEncode (sampleKey 1)"
  "q_Market (sampleNormalized amt) = hexEncode (sampleKey 2)" "q_ExpireTime (sampleNormalized amt) = 5000" "q_ExpiryTs (sampleNormalized amt) = 5000"
  "q_Nonce (sampleNormalized amt) = 9" "q_MarketID (sampleNormalized amt) = 7" "q_Side (sampleNormalized amt) = ''sell''"
  by (simp_all add: sampleNormalized_def sample_request sample_env hexEncode_trim)

lemma sample_signature: "base64Encode False True (replicate 64 9) \<noteq> []" "gatewayDecodeSignature (base64Encode False True (replicate 64 9)) = Inr (replicate 64 9)"
  using decodeSignature_std [of "replicate 64 9"] by (auto simp: decodeSignature_def gatewayDecodeSignature_def base64_roundtrip)

lemma sample_raw: "buildRawOrderIntentBytes (sampleNormalized amt) (sampleKey 1) (sampleKey 2) (sampleKey 3) = Inr (Serialize (gatewayIntent amt))"
  by (simp add: buildRawOrderIntentBytes_def gatewayIntent_def sample_normal)

lemma sample_intent_wf: "intent_wf (gatewayIntent amt)"
  by (simp add: gatewayIntent_def rawIntent_def intent_wf_def)

lemma sample_normalized:
  "normalizePlaceOrderRequest sampleGateway (sampleRequest amt) sampleMarket (hexEncode (sampleKey 3)) =
     Inr (sampleNormalized amt, Serialize (gatewayIntent amt))"
proof -
  have n: "normalizeToYesBook ''buy'' ''no'' 40 = Inr (''sell'', 60)" by (simp add: normalizeToYesBook_def)
  show ?thesis
    unfolding normalizePlaceOrderRequest_def Let_def sample_request sample_env hexEncode_trim n sum.case prod.case sampleNormalized_def [symmetric]
    by (simp add: sampleKey_ne sample_signature sample_normal sample_user sample_raw)
qed

lemma sample_validated:
  assumes "amt \<noteq> 0"
  shows "\<exists>b. validateBorshOrderIntent sampleGateway (sampleNormalized amt) (hexEncode (sampleKey 3)) = Inr (b, Serialize (gatewayIntent amt))"
proof -
  have c: "checkSemantics (sampleNormalized amt) (hexEncode (sampleKey 3)) = None"
    using gateway_checks [OF sample_normalized, of amt] assms by (simp add: sample_request)
  show ?thesis
    by (simp add: validateBorshOrderIntent_def c sample_normal base64_trimmed sample_signature sample_env hexEncode_trim sample_raw
        Parse_Serialize [OF sample_intent_wf])
qed

definition sampleCommand :: "u64 \<Rightarrow> ProtoPlaceOrder" where
  "sampleCommand amt = commandFor (sampleCall amt) (sampleNormalized amt) (Serialize (gatewayIntent amt)) 11 12"

lemma sample_command: assumes "amt \<noteq> 0" shows "ValidatePlaceOrderCommand (sampleCommand amt) = None"
proof -
  have f: "TrimSpace (FormatUint10 12) \<noteq> []" by (simp add: FormatUint10_def digitsBase.simps digitChar_def TrimSpace_def isSpace_def)
  have s: "Serialize (gatewayIntent amt) \<noteq> []" using length_Serialize [OF sample_intent_wf [of amt]] by (auto simp: OrderIntentSize_def)
  show ?thesis
    using assms f s by (simp add: ValidatePlaceOrderCommand_def sampleCommand_def commandFor_def buildPlaceOrderCommandV1_def sample_normal sampleCall_def
        hexEncode_trim hexEncode_ne sampleKey_ne base64_trimmed sample_signature validateTyped_def)
qed

lemma sample_call:
  "pl_Ready (sampleCall amt)" "pl_Body (sampleCall amt) = Some (sampleRequest amt)" "pl_Session (sampleCall amt) = Some (hexEncode (sampleKey 3))"
  "pl_GetMarket (sampleCall amt) i = Inr sampleMarket" "pl_OrderID (sampleCall amt) = Some 11" "pl_CommandID (sampleCall amt) = Some 12"
  "TrimSpace (pl_IdempotencyKey (sampleCall amt)) \<noteq> []" "TrimSpace (pl_TraceID (sampleCall amt)) \<noteq> []" "pl_Now (sampleCall amt) = 1000"
  "pl_Bus (sampleCall amt) = BusAccepts"
  by (simp_all add: sampleCall_def TrimSpace_def isSpace_def)

lemma sample_published:
  assumes "amt \<noteq> 0" "amt \<le> 1000"
  shows "handlePlaceOrderRequest sampleGateway (sampleCall amt) = Published (submitEnvelope 1000 7 (sampleCommand amt))"
proof -
  obtain b where v: "validateBorshOrderIntent sampleGateway (sampleNormalized amt) (hexEncode (sampleKey 3)) = Inr (b, Serialize (gatewayIntent amt))"
    using sample_validated [OF assms(1)] by blast
  have "(1000 :: u64) \<le> (- 1) div 40" by (simp add: word_le_nat_alt unat_div)
  then have "\<not> (- 1) div 40 < amt" using assms(2) by (meson leD le_less_trans order_trans)
  then have p: "precheckPlaceOrder (sampleNormalized amt) sampleMarket bk now = None" for bk now
    by (simp add: precheckPlaceOrder_def sample_env sample_normal EqualFold_def toLowerChar_def requiredCollateralUnits_def)
  have q: "publishOrder (sampleCall amt) (sampleNormalized amt) (Serialize (gatewayIntent amt)) = Published (submitEnvelope 1000 7 (sampleCommand amt))"
    using sample_command [OF assms(1)] unfolding publishOrder_def sampleCommand_def [symmetric]
    by (simp add: sample_call sample_normal Let_def flip: sampleCommand_def)
  show ?thesis using v p q
    by (simp add: handlePlaceOrderRequest_def sample_call resolveAuthenticatedWalletAddress_def resolveMarketForOrder_def sample_request hexEncode_trim
        sampleKey_ne sample_normalized)
qed

lemma sample_parse_length: "\<forall>s k. ge_parseKey sampleGateway s = Some k \<longrightarrow> length k = 32"
  by (simp add: sample_env sampleParse_def split: option.splits)

theorem gateway_checks_agree_witness: "checkSemantics (sampleNormalized 500) (hexEncode (sampleKey 3)) = None"
  using gateway_checks_agree [OF sample_normalized, of 500] by (simp add: sample_request)

theorem published_orders_consistent_witness:
  "\<exists>intent. OrderIntentFromHex (pc_IntentBytesHex (sampleCommand 500)) = Inr intent \<and>
    ge_parseKey sampleGateway (TrimSpace (ge_ProgramID sampleGateway)) = Some (i_ProgramID intent)"
  using published_orders_consistent [OF sample_published sample_parse_length, of 500] by (auto simp: submitEnvelope_def)

theorem published_orders_typed_witness:
  "\<not> IsFilled (orderFromCmd (ConvertProtocolToPlaceOrderCommand (sampleCommand 500)))"
  using published_orders_typed [OF sample_published, of 500] by (simp add: submitEnvelope_def)

text \<open>An order below the settlement builder's minimum passes every check of the gateway.  One lot at tick 40 is
  published, and the builder will refuse the batch it is matched in.\<close>

lemma small_order_never_settles:
  "handlePlaceOrderRequest sampleGateway (sampleCall 1) = Published (submitEnvelope 1000 7 (sampleCommand 1)) \<and>
   validateIntentAgainstExecution sampleParse (gatewayIntent 1) (sampleKey 2)
     (executionSnapshotFromCommand (ConvertProtocolToPlaceOrderCommand (sampleCommand 1))) = Some (NotionalTooSmall 11)"
proof
  show "handlePlaceOrderRequest sampleGateway (sampleCall 1) = Published (submitEnvelope 1000 7 (sampleCommand 1))" by (rule sample_published) simp_all
  have c: "checkSemantics (sampleNormalized 1) (hexEncode (sampleKey 3)) = None"
    using gateway_checks [OF sample_normalized, of 1] by (simp add: sample_request)
  have k: "ge_parseKey sampleGateway (TrimSpace (q_WalletAddress (sampleNormalized 1))) = Some (sampleKey 3)"
    by (simp add: sample_env sample_normal hexEncode_trim)
  have n: "minimumOrderNotional (gatewayIntent 1) = Inr 1"
    by (simp add: minimumOrderNotional_def gatewayIntent_def rawIntent_def sample_normal intentOrderTypeOf_def mapOrderTypeToUint8_def
        ceilMulDivChecked_def mulUint64_def)
  show "validateIntentAgainstExecution sampleParse (gatewayIntent 1) (sampleKey 2)
     (executionSnapshotFromCommand (ConvertProtocolToPlaceOrderCommand (sampleCommand 1))) = Some (NotionalTooSmall 11)"
    using intent_consistent [OF sample_normalized c k sample_raw, of "sampleCall 1" 11 12] n
    by (simp add: sample_env sampleCommand_def gatewayIntent_def)
qed

section \<open>Token actions\<close>





text \<open>Two consequences of the handler's order of work.  A claim that names the losing outcome is paid, since the
  market's outcome only fills in an empty one; and when the account cannot be stored after the position
  was, a split leaves new lots that were not paid for.\<close>

lemma claim_of_the_losing_outcome:
  "n \<le> NoFreeLots p \<Longrightarrow> gm_Status market = ''resolved'' \<Longrightarrow> gm_Outcome market = ''yes'' \<Longrightarrow>
   handleTokenAction ''claim'' market p a n ''no'' True True =
     (200, Some (p\<lparr>NoFreeLots := NoFreeLots p - n\<rparr>), Some (storedAccount (a\<lparr>CollateralFreeUnits := CollateralFreeUnits a + n\<rparr>)))"
  by (simp add: handleTokenAction_def applyTokenAction_def not_less Let_def)

lemma split_half_stored:
  "n \<le> CollateralFreeUnits a \<Longrightarrow> handleTokenAction ''split'' market p a n [] True False =
     (500, Some (p\<lparr>YesFreeLots := YesFreeLots p + n, NoFreeLots := NoFreeLots p + n\<rparr>), None)"
  by (simp add: handleTokenAction_def applyTokenAction_def not_less Let_def)

end
