(* ===== verification/Writer.thy ===== *)
theory Writer
  imports MatcherEngine
begin

text \<open>
  The projection of the matcher's events into Postgres (\<open>writer/writer.go\<close>): the conversion of an event to
  rows, the transaction that stores it under the cursor of its market, the release of an order, and the
  depth and position arithmetic of the read models.

  The tables are maps; a statement of a transaction that fails rolls it back.  The answer of the database
  to the whole transaction is an argument: it commits, fails, or commits but reports a failure.
\<close>

section \<open>The payload\<close>

record FullOrderData =
  fo_OrderID :: u64
  fo_WalletAddress :: string
  fo_OriginalAction :: u8
  fo_OriginalOutcome :: u8
  fo_OriginalPriceTick :: u8
  fo_Side :: u8
  fo_OrderType :: u8
  fo_PriceTick :: u8
  fo_InitialQty :: u64
  fo_InitialSpendAmount :: u64
  fo_ExpireTime :: unixtime
  fo_Signature :: string
  fo_IntentBytesHex :: string
  fo_Nonce :: u64
  fo_CreatedCmdSeq :: u64
  fo_CreatedAt :: unixtime

record TradeEvent =
  te_TradeID :: string
  te_MatchPrice :: u8
  te_MatchQty :: u64
  te_MakerOrderID :: u64
  te_MakerPubKey :: string
  te_MakerSignature :: string
  te_MakerIntentHex :: string
  te_TakerOrderID :: u64
  te_TakerPubKey :: string
  te_TakerSignature :: string
  te_TakerIntentHex :: string

record OrderStateEvent =
  se_OrderID :: u64
  se_WalletAddress :: string
  se_Status :: u8
  se_RemainingQty :: u64
  se_RemainingSpendAmount :: u64
  se_RefundAmount :: u64

record L2DepthEvent =
  l2_Side :: u8
  l2_PriceTick :: u8
  l2_TotalVolume :: u64

record BatchEventPayload =
  bp_MarketID :: u64
  bp_SourceCmdSeq :: u64
  bp_Timestamp :: unixtime
  bp_SourceOrder :: "FullOrderData option"
  bp_SourceOrders :: "FullOrderData list"
  bp_TradeEvents :: "TradeEvent list"
  bp_StateEvents :: "OrderStateEvent list"
  bp_DepthEvents :: "L2DepthEvent list"

section \<open>Labels and codes\<close>

definition sideCode :: "string \<Rightarrow> u8" where
  "sideCode label = (if EqualFold label ''sell'' \<or> EqualFold label ''ask'' then SideSell else SideBuy)"

definition depthSideCode :: "string \<Rightarrow> u8" where
  "depthSideCode label = (if EqualFold label ''ask'' \<or> EqualFold label ''sell'' then SideSell else SideBuy)"

definition outcomeCode :: "string \<Rightarrow> u8" where
  "outcomeCode label = (if EqualFold label ''no'' then 1 else 0)"

definition orderTypeCode :: "string \<Rightarrow> u8" where
  "orderTypeCode label = (if EqualFold label ''market'' then OrderTypeMarket else OrderTypeLimit)"

definition orderStatusCode :: "string \<Rightarrow> u8" where
  "orderStatusCode label =
     (let l = map toLowerChar (TrimSpace label) in
      if l = ''partially_filled'' then StatusPartiallyFilled else if l = ''filled'' then StatusFilled
      else if l = ''canceled'' then StatusCanceled else if l = ''expired'' then StatusExpired
      else if l = ''rejected'' then StatusRejected else StatusNew)"

definition orderStatusLabel :: "u8 \<Rightarrow> string" where
  "orderStatusLabel status =
     (if status = StatusPartiallyFilled then ''partially_filled'' else if status = StatusFilled then ''filled''
      else if status = StatusCanceled then ''canceled'' else if status = StatusExpired then ''expired''
      else if status = StatusRejected then ''rejected'' else ''open'')"

definition sideLabel :: "u8 \<Rightarrow> string" where "sideLabel side = (if side = SideSell then ''sell'' else ''buy'')"
definition outcomeLabel :: "u8 \<Rightarrow> string" where "outcomeLabel outcome = (if outcome = 1 then ''no'' else ''yes'')"

section \<open>From the event to the payload\<close>

definition createdSeq :: "MatchBatchEvent \<Rightarrow> MatchedOrder \<Rightarrow> u64" where
  "createdSeq ev ord =
     (if m_CreatedCmdSeq ord \<noteq> 0 then m_CreatedCmdSeq ord
      else if SourceCmdSeqMax ev \<noteq> 0 then SourceCmdSeqMax ev else SourceCmdSeqMin ev)"

definition sourceOrder :: "MatchBatchEvent \<Rightarrow> MatchedOrder \<Rightarrow> FullOrderData" where
  "sourceOrder ev ord = (let x = m_Execution ord in
     \<lparr>fo_OrderID = m_OrderID ord, fo_WalletAddress = x_WalletAddress x, fo_OriginalAction = sideCode (x_OriginalAction x),
      fo_OriginalOutcome = outcomeCode (x_OriginalOutcome x), fo_OriginalPriceTick = x_OriginalPriceTick x,
      fo_Side = sideCode (x_NormalizedSide x), fo_OrderType = orderTypeCode (x_OrderType x), fo_PriceTick = x_NormalizedPriceTick x,
      fo_InitialQty = x_QtyLots x, fo_InitialSpendAmount = x_SpendAmount x, fo_ExpireTime = x_ExpireTime x,
      fo_Signature = sp_Signature (m_Settlement ord), fo_IntentBytesHex = sp_IntentBytesHex (m_Settlement ord), fo_Nonce = x_Nonce x,
      fo_CreatedCmdSeq = createdSeq ev ord, fo_CreatedAt = m_CreatedAt ord\<rparr>)"

definition tradeOf :: "MatchBatchEvent \<Rightarrow> MatchFill \<Rightarrow> TradeEvent list" where
  "tradeOf ev f =
     (case (orderByIndex ev (f_MakerOrderIndex f), orderByIndex ev (f_TakerOrderIndex f)) of
        (Some mk, Some tk) \<Rightarrow>
          [\<lparr>te_TradeID = EventID ev @ ''-'' @ FormatUint10 (ucast (f_FillIndex f)), te_MatchPrice = ucast (f_FillPrice f),
            te_MatchQty = f_FillAmount f, te_MakerOrderID = m_OrderID mk, te_MakerPubKey = x_WalletAddress (m_Execution mk),
            te_MakerSignature = sp_Signature (m_Settlement mk), te_MakerIntentHex = sp_IntentBytesHex (m_Settlement mk),
            te_TakerOrderID = m_OrderID tk, te_TakerPubKey = x_WalletAddress (m_Execution tk),
            te_TakerSignature = sp_Signature (m_Settlement tk), te_TakerIntentHex = sp_IntentBytesHex (m_Settlement tk)\<rparr>]
      | _ \<Rightarrow> [])"

definition stateOf :: "MatchBatchEvent \<Rightarrow> OrderUpdate \<Rightarrow> OrderStateEvent list" where
  "stateOf ev u =
     (case orderByIndex ev (u_OrderIndex u) of
        None \<Rightarrow> []
      | Some ord \<Rightarrow> [\<lparr>se_OrderID = m_OrderID ord, se_WalletAddress = x_WalletAddress (m_Execution ord), se_Status = orderStatusCode (u_Status u),
          se_RemainingQty = u_RemainingQtyLots u, se_RemainingSpendAmount = u_RemainingSpendAmount u, se_RefundAmount = u_RefundAmount u\<rparr>])"

definition batchPayloadFromMarketDelta :: "MatchBatchEvent \<Rightarrow> BatchEventPayload" where
  "batchPayloadFromMarketDelta ev = (let orders = map (sourceOrder ev) (ev_Orders ev) in
     \<lparr>bp_MarketID = ev_MarketID ev, bp_SourceCmdSeq = SourceCmdSeqMax ev, bp_Timestamp = ProducedAt ev,
      bp_SourceOrder = (case orders of [] \<Rightarrow> None | ord # _ \<Rightarrow> Some ord), bp_SourceOrders = orders,
      bp_TradeEvents = concat (map (tradeOf ev) (Fills ev)), bp_StateEvents = concat (map (stateOf ev) (OrderUpdates ev)),
      bp_DepthEvents = map (\<lambda>d. \<lparr>l2_Side = depthSideCode (d_Side d), l2_PriceTick = d_PriceTick d, l2_TotalVolume = d_TotalVolume d\<rparr>) (DepthUpdates ev)\<rparr>)"

definition sourceOrdersForBatch :: "BatchEventPayload \<Rightarrow> FullOrderData list" where
  "sourceOrdersForBatch b =
     (if bp_SourceOrders b \<noteq> [] then bp_SourceOrders b else case bp_SourceOrder b of None \<Rightarrow> [] | Some ord \<Rightarrow> [ord])"

section \<open>The tables\<close>

record StoredOrder =
  ow_MarketID :: u64
  ow_WalletAddress :: string
  ow_OriginalAction :: string
  ow_OriginalOutcome :: string
  ow_OriginalPriceTick :: "16 word"
  ow_Side :: "16 word"
  ow_OrderType :: "16 word"
  ow_PriceTick :: "16 word"
  ow_InitialQty :: i64
  ow_InitialSpend :: i64
  ow_RemainingQty :: i64
  ow_RemainingSpend :: i64
  ow_ExpireTime :: unixtime
  ow_Status :: "16 word"
  ow_Signature :: string
  ow_IntentHex :: string
  ow_Nonce :: i64
  ow_CreatedCmdSeq :: i64
  ow_CreatedAt :: unixtime
  ow_UpdatedAt :: unixtime

record StoredTrade =
  tr_MarketID :: u64
  tr_SourceCmdSeq :: i64
  tr_Trade :: TradeEvent
  tr_ExecutedAt :: unixtime

record cursorRow =
  cu_LastEvtSeq :: i64
  cu_LastSourceCmdSeq :: i64

record WriterDB =
  db_Markets :: "u64 set"
  db_Cursors :: "u64 \<rightharpoonup> cursorRow"
  db_Orders :: "i64 \<rightharpoonup> StoredOrder"
  db_Trades :: "string \<rightharpoonup> StoredTrade"

text \<open>\<open>toInt64\<close> keeps the 64 bits.\<close>

definition toInt64 :: "u64 \<Rightarrow> i64" where "toInt64 v = v"

definition timestampToTime :: "unixtime \<Rightarrow> unixtime \<Rightarrow> unixtime" where
  "timestampToTime now ts = (if ts \<le> 0 then now else ts)"

definition storedOrder :: "unixtime \<Rightarrow> u64 \<Rightarrow> unixtime \<Rightarrow> FullOrderData \<Rightarrow> StoredOrder" where
  "storedOrder now marketID timestamp ord =
     (let eventTime = (if 0 < fo_CreatedAt ord then timestampToTime now (fo_CreatedAt ord) else timestampToTime now timestamp) in
      \<lparr>ow_MarketID = marketID, ow_WalletAddress = fo_WalletAddress ord, ow_OriginalAction = sideLabel (fo_OriginalAction ord),
       ow_OriginalOutcome = outcomeLabel (fo_OriginalOutcome ord), ow_OriginalPriceTick = ucast (fo_OriginalPriceTick ord),
       ow_Side = ucast (fo_Side ord), ow_OrderType = ucast (fo_OrderType ord), ow_PriceTick = ucast (fo_PriceTick ord),
       ow_InitialQty = toInt64 (fo_InitialQty ord), ow_InitialSpend = toInt64 (fo_InitialSpendAmount ord),
       ow_RemainingQty = toInt64 (fo_InitialQty ord), ow_RemainingSpend = toInt64 (fo_InitialSpendAmount ord),
       ow_ExpireTime = fo_ExpireTime ord, ow_Status = ucast StatusNew, ow_Signature = fo_Signature ord, ow_IntentHex = fo_IntentBytesHex ord,
       ow_Nonce = toInt64 (fo_Nonce ord), ow_CreatedCmdSeq = toInt64 (fo_CreatedCmdSeq ord), ow_CreatedAt = eventTime, ow_UpdatedAt = eventTime\<rparr>)"

text \<open>\<open>ON CONFLICT DO NOTHING\<close>.\<close>

definition insertNew :: "'k \<Rightarrow> 'v \<Rightarrow> ('k \<rightharpoonup> 'v) \<Rightarrow> 'k \<rightharpoonup> 'v" where
  "insertNew k v t = (if t k = None then t(k \<mapsto> v) else t)"

definition upsertSourceOrder :: "unixtime \<Rightarrow> u64 \<Rightarrow> unixtime \<Rightarrow> FullOrderData \<Rightarrow> WriterDB \<Rightarrow> WriterDB" where
  "upsertSourceOrder now marketID timestamp ord db =
     db\<lparr>db_Orders := insertNew (toInt64 (fo_OrderID ord)) (storedOrder now marketID timestamp ord) (db_Orders db)\<rparr>"

definition upsertBatchOrders :: "unixtime \<Rightarrow> BatchEventPayload \<Rightarrow> WriterDB \<Rightarrow> WriterDB" where
  "upsertBatchOrders now b db = fold (upsertSourceOrder now (bp_MarketID b) (bp_Timestamp b)) (sourceOrdersForBatch b) db"

definition persistTrade :: "unixtime \<Rightarrow> BatchEventPayload \<Rightarrow> TradeEvent \<Rightarrow> WriterDB \<Rightarrow> WriterDB" where
  "persistTrade now b t db =
     db\<lparr>db_Trades := insertNew (te_TradeID t) \<lparr>tr_MarketID = bp_MarketID b, tr_SourceCmdSeq = toInt64 (bp_SourceCmdSeq b), tr_Trade = t,
          tr_ExecutedAt = timestampToTime now (bp_Timestamp b)\<rparr> (db_Trades db)\<rparr>"

definition persistTrades :: "unixtime \<Rightarrow> BatchEventPayload \<Rightarrow> WriterDB \<Rightarrow> WriterDB" where
  "persistTrades now b db = fold (persistTrade now b) (bp_TradeEvents b) db"

text \<open>An update of an order that is not stored is an error.\<close>

fun applyStates :: "unixtime \<Rightarrow> OrderStateEvent list \<Rightarrow> WriterDB \<Rightarrow> WriterDB option" where
  "applyStates now [] db = Some db"
| "applyStates now (s # ss) db =
     (case db_Orders db (toInt64 (se_OrderID s)) of
        None \<Rightarrow> None
      | Some r \<Rightarrow> applyStates now ss (db\<lparr>db_Orders := (db_Orders db)(toInt64 (se_OrderID s) \<mapsto>
          r\<lparr>ow_RemainingQty := toInt64 (se_RemainingQty s), ow_RemainingSpend := toInt64 (se_RemainingSpendAmount s),
            ow_Status := ucast (se_Status s), ow_UpdatedAt := now\<rparr>)\<rparr>))"

definition applyStateEvents :: "unixtime \<Rightarrow> BatchEventPayload \<Rightarrow> WriterDB \<Rightarrow> WriterDB option" where
  "applyStateEvents now b db = applyStates (timestampToTime now (bp_Timestamp b)) (bp_StateEvents b) db"

text \<open>The cursor: \<open>lockCursorRow\<close> creates a missing one at 0, and \<open>GREATEST\<close> moves it.\<close>

definition lockCursorRow :: "u64 \<Rightarrow> WriterDB \<Rightarrow> (i64 \<times> WriterDB) option" where
  "lockCursorRow marketID db =
     (if marketID \<notin> db_Markets db then None
      else let c = (case db_Cursors db marketID of None \<Rightarrow> \<lparr>cu_LastEvtSeq = 0, cu_LastSourceCmdSeq = 0\<rparr> | Some c \<Rightarrow> c)
           in Some (cu_LastEvtSeq c, db\<lparr>db_Cursors := (db_Cursors db)(marketID \<mapsto> c)\<rparr>))"

definition greatest :: "i64 \<Rightarrow> i64 \<Rightarrow> i64" where "greatest a b = (if a <s b then b else a)"

definition advanceCursor :: "u64 \<Rightarrow> i64 \<Rightarrow> i64 \<Rightarrow> WriterDB \<Rightarrow> WriterDB" where
  "advanceCursor marketID evtSeq sourceCmdSeq db =
     db\<lparr>db_Cursors := (\<lambda>k. if k = marketID then map_option (\<lambda>c. \<lparr>cu_LastEvtSeq = greatest (cu_LastEvtSeq c) evtSeq,
          cu_LastSourceCmdSeq = greatest (cu_LastSourceCmdSeq c) sourceCmdSeq\<rparr>) (db_Cursors db k) else db_Cursors db k)\<rparr>"

section \<open>The handlers\<close>

datatype dbAnswer = Commits | Fails | CommitsUnreported

datatype writerReply = WriterAck | WriterNak | WriterTerm

text \<open>The work of the transaction, \<open>None\<close> when a statement fails.\<close>

definition projectBatch :: "unixtime \<Rightarrow> i64 \<Rightarrow> BatchEventPayload \<Rightarrow> WriterDB \<Rightarrow> WriterDB option" where
  "projectBatch now evtSeq b db =
     map_option (advanceCursor (bp_MarketID b) evtSeq (toInt64 (bp_SourceCmdSeq b)))
       (applyStateEvents now b (persistTrades now b (upsertBatchOrders now b db)))"

definition writerHandleMessage ::
  "unixtime \<Rightarrow> dbAnswer \<Rightarrow> u64 option \<Rightarrow> MatchBatchEvent option \<Rightarrow> WriterDB \<Rightarrow> WriterDB \<times> writerReply" where
  "writerHandleMessage now answer streamSeq delivered db =
     (case streamSeq of None \<Rightarrow> (db, WriterNak)
      | Some sq \<Rightarrow> (case delivered of None \<Rightarrow> (db, WriterTerm)
      | Some ev \<Rightarrow>
          if SchemaVersion ev \<noteq> 0 \<and> SchemaVersion ev \<noteq> 1 then (db, WriterTerm)
          else let b = batchPayloadFromMarketDelta ev; evtSeq = toInt64 sq in
            if answer = Fails then (db, WriterNak)
            else case lockCursorRow (bp_MarketID b) db of
              None \<Rightarrow> (db, WriterAck)
            | Some (lastEvtSeq, db1) \<Rightarrow>
                if evtSeq \<le>s lastEvtSeq then (db, WriterAck)
                else (case projectBatch now evtSeq b db1 of
                        None \<Rightarrow> (db, WriterNak)
                      | Some db2 \<Rightarrow> (db2, if answer = Commits then WriterAck else WriterNak))))"

definition writerHandleReleased ::
  "unixtime \<Rightarrow> bool \<Rightarrow> OrderReleasedEvent option \<Rightarrow> WriterDB \<Rightarrow> WriterDB \<times> writerReply" where
  "writerHandleReleased now dbOk delivered db =
     (case delivered of None \<Rightarrow> (db, WriterTerm)
      | Some ev \<Rightarrow>
          if rl_OrderID ev = 0 then (db, WriterAck)
          else if \<not> dbOk then (db, WriterNak)
          else (let code = (if rl_Status ev = ''expired'' then StatusExpired else if rl_Status ev = ''rejected'' then StatusRejected else StatusCanceled);
                    upd = (\<lambda>r. if ow_Status r \<in> {ucast StatusCanceled, ucast StatusExpired, ucast StatusRejected} then r
                               else r\<lparr>ow_Status := ucast code, ow_UpdatedAt := now\<rparr>)
                in (db\<lparr>db_Orders := (\<lambda>k. if k = toInt64 (rl_OrderID ev) then map_option upd (db_Orders db k) else db_Orders db k)\<rparr>, WriterAck)))"

section \<open>Depth\<close>

text \<open>The last event of every level, in the order the levels appear.\<close>

definition depthKey :: "L2DepthEvent \<Rightarrow> u8 \<times> u8" where "depthKey e = (l2_Side e, l2_PriceTick e)"

fun compressLoop :: "L2DepthEvent list \<Rightarrow> (u8 \<times> u8 \<rightharpoonup> L2DepthEvent) \<Rightarrow> (u8 \<times> u8) list \<Rightarrow> (u8 \<times> u8 \<rightharpoonup> L2DepthEvent) \<times> (u8 \<times> u8) list" where
  "compressLoop [] latest order = (latest, order)"
| "compressLoop (e # es) latest order =
     compressLoop es (latest(depthKey e \<mapsto> e)) (if latest (depthKey e) = None then order @ [depthKey e] else order)"

definition compressDepthEvents :: "L2DepthEvent list \<Rightarrow> L2DepthEvent list" where
  "compressDepthEvents events = (let (latest, order) = compressLoop events Map.empty [] in map (\<lambda>k. the (latest k)) order)"

section \<open>What recovery reads\<close>

text \<open>The query of \<open>RecoverFromStore\<close> on the orders of this table, with the columns it joins from the market.\<close>

definition recoveryRow :: "string \<Rightarrow> unixtime \<Rightarrow> i64 \<Rightarrow> StoredOrder \<Rightarrow> orderRow" where
  "recoveryRow marketPDA closeTime i r =
     \<lparr>row_orderID = i, row_marketID = ow_MarketID r, row_walletAddress = ow_WalletAddress r, row_originalAction = ow_OriginalAction r,
      row_originalOutcome = ow_OriginalOutcome r, row_originalPriceTick = ow_OriginalPriceTick r, row_side = ow_Side r,
      row_orderType = ow_OrderType r, row_priceTick = ow_PriceTick r, row_remainingSpend = ow_RemainingSpend r,
      row_remainingQty = ow_RemainingQty r, row_expireTime = ow_ExpireTime r, row_signature = ow_Signature r, row_intentHex = ow_IntentHex r,
      row_nonce = ow_Nonce r, row_createdCmdSeq = ow_CreatedCmdSeq r, row_createdAt = ow_CreatedAt r, row_marketPDA = marketPDA,
      row_closeTime = closeTime\<rparr>"

definition recoverable :: "StoredOrder \<Rightarrow> bool" where
  "recoverable r \<longleftrightarrow> ow_Status r \<in> {1, 2}"

end
