(* ===== verification/BookDepth.thy ===== *)
theory BookDepth
  imports BookRuns
begin

text \<open>
  The depth updates of a batch against the volumes of the book: whoever applies the updates of every batch,
  in their order, to the volumes of the book before it holds the volumes of the book after it.  A read model
  of the depth is any state with a lookup and an update that satisfy the laws of the locale \<open>depth_view\<close>;
  its lemmas are proved once there.
\<close>

section \<open>The volumes of a book\<close>

type_synonym depths = "string \<Rightarrow> u8 \<Rightarrow> u64"

definition levelVolume :: "levels \<Rightarrow> u8 \<Rightarrow> u64" where
  "levelVolume arr p = TotalVolume (levelOf (arr p))"

definition twoSides :: "(u8 \<Rightarrow> u64) \<Rightarrow> (u8 \<Rightarrow> u64) \<Rightarrow> depths" where
  "twoSides bids asks side p = (if side = ''ask'' then asks p else if side = ''bid'' then bids p else 0)"

definition bookDepth :: "FixedArrayOrderBook \<Rightarrow> depths" where
  "bookDepth ob = twoSides (levelVolume (Bids ob)) (levelVolume (Asks ob))"

definition putDepth :: "DepthUpdate \<Rightarrow> depths \<Rightarrow> depths" where
  "putDepth d v = (\<lambda>side p. if side = d_Side d \<and> p = d_PriceTick d then d_TotalVolume d else v side p)"

definition labelled :: "DepthUpdate \<Rightarrow> bool" where
  "labelled d \<longleftrightarrow> d_Side d = ''ask'' \<or> d_Side d = ''bid''"

text \<open>The volumes after the updates of a batch; \<open>None\<close> when an update names no side.\<close>

definition depthAfter :: "pendingBatch \<Rightarrow> depths \<Rightarrow> depths option" where
  "depthAfter b v = (if list_all labelled (DepthUpdates (event b)) then Some (fold putDepth (DepthUpdates (event b)) v) else None)"

lemma depthAfter_new [simp]: "depthAfter (newPendingBatch m pda t) v = Some v"
  by (simp add: depthAfter_def newPendingBatch_def)

lemma depthAfter_cong: "DepthUpdates (event b') = DepthUpdates (event b) \<Longrightarrow> depthAfter b' v = depthAfter b v"
  by (simp add: depthAfter_def)

lemma depthAfter_update [simp]:
  "depthAfter (addOrderUpdateForOrder b ord st q s r why) v = depthAfter b v"
  "depthAfter (addOrderUpdateForCommand b c st q s r why) v = depthAfter b v"
  "depthAfter (addFill b m tk p q) v = depthAfter b v"
  by (rule depthAfter_cong, simp add: frame)+

lemma depthAfter_addDepth:
  "depthAfter (addDepthUpdate b side p w) v =
     map_option (putDepth \<lparr>d_Side = sideLabelForDepth side, d_PriceTick = p, d_TotalVolume = w\<rparr>) (depthAfter b v)"
  by (simp add: depthAfter_def addDepthUpdate_def labelled_def sideLabelForDepth_def)

lemma levelVolume_upd: "levelVolume (arr(p := Some l)) = (levelVolume arr)(p := TotalVolume l)"
  by (auto simp: levelVolume_def)

text \<open>One side after one level was written.\<close>

definition sideDepth :: "u8 \<Rightarrow> (u8 \<Rightarrow> u64) \<Rightarrow> levels \<Rightarrow> depths" where
  "sideDepth sd other arr = (if sd = SideSell then twoSides other (levelVolume arr) else twoSides (levelVolume arr) other)"

lemma sideDepth_put:
  "putDepth \<lparr>d_Side = sideLabelForDepth sd, d_PriceTick = p, d_TotalVolume = TotalVolume l\<rparr> (sideDepth sd other arr) =
     sideDepth sd other (arr(p := Some l))"
  by (auto simp: putDepth_def sideDepth_def sideLabelForDepth_def twoSides_def levelVolume_upd fun_eq_iff)

lemma bookDepth_side:
  "bookDepth ob = sideDepth SideSell (levelVolume (Bids ob)) (Asks ob)"
  "bookDepth ob = sideDepth SideBuy (levelVolume (Asks ob)) (Bids ob)"
  by (simp_all add: bookDepth_def sideDepth_def SideBuy_def SideSell_def)

section \<open>Every operation reports its volumes\<close>

lemma matchLevel_depth: "depthAfter (batch (snd (matchLevel now p q s))) v = depthAfter (batch s) v"
  by (rule matchLevel_rule [of "\<lambda>q s r. depthAfter (batch (snd r)) v = depthAfter (batch s) v"])
     (simp_all add: dropExpired_def dropSelf_def removeAndRecycleMaker_def afterFill_def fillMaker_def Let_def split: if_splits)

lemma matchAt_depth:
  assumes "depthAfter (sw_batch s) v = Some (sideDepth sd other (sw_levels s))"
  shows "depthAfter (sw_batch (snd (matchAt now sd p (levelOf (sw_levels s p)) s))) v =
    Some (sideDepth sd other (sw_levels (snd (matchAt now sd p (levelOf (sw_levels s p)) s))))"
proof -
  let ?l = "levelOf (sw_levels s p)"
  obtain q r where qr: "matchLevel now p (Queue ?l) (startOf ?l s) = (q, r)" by (meson surj_pair)
  have "depthAfter (batch r) v = Some (sideDepth sd other (sw_levels s))"
    using matchLevel_depth [of now p "Queue ?l" "startOf ?l s" v] assms by (simp add: qr)
  then show ?thesis
    using sideDepth_put [of sd p "\<lparr>TotalVolume = vol r, Queue = q\<rparr>" other "sw_levels s"]
    by (simp add: matchAt_split [OF qr] depthAfter_addDepth)
qed

definition mirrored :: "u8 \<Rightarrow> (u8 \<Rightarrow> u64) \<Rightarrow> depths \<Rightarrow> sweepState \<Rightarrow> bool" where
  "mirrored sd other v s \<longleftrightarrow> depthAfter (sw_batch s) v = Some (sideDepth sd other (sw_levels s))"

lemma matchAt_mirrored:
  "mirrored sd other v s \<Longrightarrow> mirrored sd other v (snd (matchAt now sd p (levelOf (sw_levels s p)) s))"
  by (simp add: mirrored_def matchAt_depth)

lemma asksLoop_mirrored:
  assumes "asksLoop now t s = Some r"
  shows "mirrored SideSell other v s \<longrightarrow> mirrored SideSell other v (snd r)"
  by (rule asksLoop.raw_induct [OF _ assms]) (auto split: if_splits simp: matchAt_mirrored)

lemma bidsLoop_mirrored:
  assumes "bidsLoop now t s = Some r"
  shows "mirrored SideBuy other v s \<longrightarrow> mirrored SideBuy other v (snd r)"
  by (rule bidsLoop.raw_induct [OF _ assms]) (auto split: if_splits simp: matchAt_mirrored)

lemma matchAsks_depth:
  assumes "matchAsks ob tk b = Some (Inr (ob', tk', b'))" "depthAfter b v = Some (bookDepth ob)"
  shows "depthAfter b' v = Some (bookDepth ob')" "Bids ob' = Bids ob"
  using assms asksLoop_mirrored [of "CurrentTime ob" _ _ _ "levelVolume (Bids ob)" v]
  by (fastforce simp: matchAsks_def updateBestAsk_def bookDepth_side(1) mirrored_def Let_def split: option.splits)+

lemma matchBids_depth:
  assumes "matchBids ob tk b = Some (Inr (ob', tk', b'))" "depthAfter b v = Some (bookDepth ob)"
  shows "depthAfter b' v = Some (bookDepth ob')"
  using assms bidsLoop_mirrored [of "CurrentTime ob" _ _ _ "levelVolume (Asks ob)" v]
  by (fastforce simp: matchBids_def updateBestBid_def bookDepth_side(2) mirrored_def Let_def
      split: option.splits if_splits)

lemma linkOrder_depth:
  assumes "Side ord \<in> {SideBuy, SideSell}"
  shows "putDepth \<lparr>d_Side = sideLabelForDepth (Side ord), d_PriceTick = PriceTick ord,
      d_TotalVolume = TotalVolume (enqueue ord (sideLevel ob ord))\<rparr> (bookDepth ob) = bookDepth (linkOrder ob ord)"
  using assms
  by (auto simp: linkOrder_def Let_def bookDepth_def putDepth_def twoSides_def sideLabelForDepth_def levelVolume_upd
      sideLevel_def SideBuy_def SideSell_def fun_eq_iff)

lemma finishTaker_depth:
  assumes "finishTaker ob tk b = Inr (ob', b')" "depthAfter b v = Some (bookDepth ob)" "Side tk \<in> {SideBuy, SideSell}"
  shows "depthAfter b' v = Some (bookDepth ob')"
  using assms linkOrder_depth [OF assms(3)]
  by (auto simp: finishTaker_def addOrderToBook_def Let_def depthAfter_addDepth split: if_splits)

lemma matchSide_taker:
  assumes "book_ok ob" "safeTaker tk"
    "(if c then matchAsks ob tk b else matchBids ob tk b) = Some (Inr (ob', tk', b'))"
  shows "same_order tk tk'"
proof (cases c)
  case True
  then show ?thesis
    using matchAsks_spec [OF assms(1,2), of b] assms(3) by (metis (lifting) Pair_inject option.inject sum.inject(2) sweep_result_def)
next
  case False
  then show ?thesis
    using matchBids_spec [OF assms(1,2), of b] assms(3) by (metis (lifting) Pair_inject option.inject sum.inject(2) sweep_result_def)
qed

lemma handlePlaceOrder_depth:
  assumes "handlePlaceOrder ob c b = Some (Inr (ob', b'))" "depthAfter b v = Some (bookDepth ob)" "book_ok ob" "admissible ob c"
  shows "depthAfter b' v = Some (bookDepth ob')"
proof (cases "IsActive ob")
  case False
  then show ?thesis using assms by (auto simp: handlePlaceOrder_def)
next
  case True
  let ?tk = "orderFromCmd c"
  obtain ob1 tk1 b1 where m: "(if c_Side c = SideBuy then matchAsks ob ?tk b else matchBids ob ?tk b) = Some (Inr (ob1, tk1, b1))"
    and f: "finishTaker ob1 tk1 b1 = Inr (ob', b')"
    using assms(1) True by (auto simp: handlePlaceOrder_def split: option.splits sum.splits if_splits)
  have "same_order ?tk tk1"
    using matchSide_taker [OF assms(3) safeTaker_from_cmd [OF assms(4)] m] .
  then have sd: "Side tk1 \<in> {SideBuy, SideSell}"
    using assms(4) by (simp add: same_orderD(6) admissible_def)
  have "depthAfter b1 v = Some (bookDepth ob1)"
    using m matchAsks_depth(1) [OF _ assms(2)] matchBids_depth [OF _ assms(2)] by (auto split: if_splits)
  then show ?thesis by (rule finishTaker_depth [OF f _ sd])
qed

lemma sweepQueue_depth: "depthAfter (batch (snd (sweepQueue now q s))) v = depthAfter (batch s) v"
  by (induction now q s rule: sweepQueue.induct) (simp_all add: removeAndRecycleMaker_def)

lemma sweepLevelO1_depth:
  assumes "sweepLevelO1 now (arr p) p sd S b = (l', S', b', removed)" "depthAfter b v = Some (sideDepth sd other arr)"
  shows "depthAfter b' v = Some (sideDepth sd other (arr(p := l')))"
proof (cases "levelQueue (arr p) = []")
  case True
  then have "l' = arr p" "b' = b" using assms(1) by (auto simp: sweepLevelO1_def levelQueue_def split: option.splits)
  then show ?thesis using assms(2) by (simp add: fun_upd_triv)
next
  case False
  then obtain l where l: "arr p = Some l" "Queue l \<noteq> []" by (cases "arr p") auto
  let ?s = "\<lparr>taker = zeroOrder, vol = TotalVolume l, ids = S, batch = b\<rparr>"
  let ?r = "snd (sweepQueue now (Queue l) ?s)"
  have r: "l' = Some \<lparr>TotalVolume = vol ?r, Queue = fst (sweepQueue now (Queue l) ?s)\<rparr>"
    "b' = (if isExpired now (hd (Queue l)) then addDepthUpdate (batch ?r) sd p (vol ?r) else batch ?r)"
    using assms(1) l by (auto simp: sweepLevelO1_def Let_def case_prod_beta)
  have d: "depthAfter (batch ?r) v = Some (sideDepth sd other arr)" using assms(2) by (simp add: sweepQueue_depth)
  show ?thesis
  proof (cases "isExpired now (hd (Queue l))")
    case True
    then show ?thesis
      using d r sideDepth_put [of sd p "\<lparr>TotalVolume = vol ?r, Queue = fst (sweepQueue now (Queue l) ?s)\<rparr>" other arr]
      by (simp add: depthAfter_addDepth)
  next
    case False
    then have "l' = arr p" using r(1) l sweepQueue_live [OF False, of ?s] by simp
    then show ?thesis using d r(2) False by (simp add: fun_upd_triv)
  qed
qed

lemma tickPrice_depth:
  assumes "tickPrice now p (ob, b, ch) = (ob', b', ch')" "depthAfter b v = Some (bookDepth ob)"
  shows "depthAfter b' v = Some (bookDepth ob')"
proof -
  obtain bl S1 b1 rb where B: "sweepLevelO1 now (Bids ob p) p SideBuy (ob_Orders ob) b = (bl, S1, b1, rb)"
    by (metis prod_cases4)
  obtain al S2 b2 ra where A: "sweepLevelO1 now (Asks ob p) p SideSell S1 b1 = (al, S2, b2, ra)"
    by (metis prod_cases4)
  have "depthAfter b1 v = Some (bookDepth (ob\<lparr>Bids := (Bids ob)(p := bl)\<rparr>))"
    using sweepLevelO1_depth [of now "Bids ob" p SideBuy "ob_Orders ob" b bl S1 b1 rb] B assms(2) by (simp add: bookDepth_side(2))
  then have "depthAfter b2 v = Some (bookDepth (ob\<lparr>Bids := (Bids ob)(p := bl), Asks := (Asks ob)(p := al)\<rparr>))"
    using sweepLevelO1_depth [of now "Asks ob" p SideSell S1 b1 al S2 b2 ra] A by (simp add: bookDepth_side(1))
  then show ?thesis using assms(1) A B by (auto simp: tickPrice_def bookDepth_def)
qed

lemma handleTick_depth:
  assumes "handleTick ob now b = (ob', b')" "depthAfter b v = Some (bookDepth ob)"
  shows "depthAfter b' v = Some (bookDepth ob')"
proof -
  have F: "depthAfter b1 v = Some (bookDepth ob1)"
    if "fold (tickPrice now) ps (ob0, b0, ch0) = (ob1, b1, ch1)" "depthAfter b0 v = Some (bookDepth ob0)" for ps ob0 b0 ch0 ob1 b1 ch1
    using that
  proof (induction ps arbitrary: ob0 b0 ch0)
    case (Cons p ps)
    obtain ob2 b2 ch2 where t: "tickPrice now p (ob0, b0, ch0) = (ob2, b2, ch2)" by (metis prod_cases3)
    show ?case using Cons.IH [of ob2 b2 ch2] Cons.prems t tickPrice_depth [OF t] by simp
  qed simp
  have "depthAfter b v = Some (bookDepth (ob\<lparr>CurrentTime := now\<rparr>))" using assms(2) by (simp add: bookDepth_def)
  then show ?thesis
    using assms(1) F
    by (auto simp: handleTick_def updateBestAsk_def updateBestBid_def bookDepth_def split: prod.splits if_splits)
qed

lemma ProcessCommand_depth:
  assumes "ProcessCommand ob cmd b = Some (Inr (ob', b'))" "depthAfter b v = Some (bookDepth ob)"
    "book_ok ob" "admissibleCommand ob cmd"
  shows "depthAfter b' v = Some (bookDepth ob')"
proof -
  have t: "depthAfter b v = Some (bookDepth (ob\<lparr>CurrentTime := GetTimestamp cmd\<rparr>))" using assms(2) by (simp add: bookDepth_def)
  show ?thesis
  proof (cases cmd)
    case (PlaceOrder c)
    then show ?thesis
      using handlePlaceOrder_depth [OF _ t] assms by (simp add: ProcessCommand_def admissibleCommand_def)
  next
    case (Tick m n)
    then show ?thesis using handleTick_depth [OF _ t] assms by (auto simp: ProcessCommand_def)
  next
    case (HaltMarket m n)
    then show ?thesis using assms t by (auto simp: ProcessCommand_def handleHalt_def bookDepth_def Let_def)
  qed
qed

end
