(* ===== verification/BookRows.thy ===== *)
theory BookRows
  imports BookRuns
begin

text \<open>
  The order updates of a batch against the resting orders of the book.  A table of orders that inserts a row
  for every entry of a batch it does not know and then applies the updates in order shows the resting orders
  after the batch exactly when it showed them before it.  What such a table has to do is the locale
  \<open>order_rows\<close>; everything about batches is proved in it.
\<close>

section \<open>What a batch says of an order\<close>

definition entryFor :: "pendingBatch \<Rightarrow> u64 \<Rightarrow> MatchedOrder option" where
  "entryFor b i = find (\<lambda>e. m_OrderID e = i) (ev_Orders (event b))"

type_synonym fate = "string \<times> u64 \<times> u64"

definition fateOfUpdate :: "pendingBatch \<Rightarrow> OrderUpdate \<Rightarrow> u64 \<times> fate" where
  "fateOfUpdate b u = (m_OrderID (ev_Orders (event b) ! unat (u_OrderIndex u)),
     u_Status u, u_RemainingQtyLots u, u_RemainingSpendAmount u)"

definition fates :: "pendingBatch \<Rightarrow> (u64 \<times> fate) list" where
  "fates b = map (fateOfUpdate b) (OrderUpdates (event b))"

definition fateOf :: "pendingBatch \<Rightarrow> u64 \<Rightarrow> fate option" where
  "fateOf b = map_of (rev (fates b))"

definition entryOf :: "u16 \<Rightarrow> unixtime \<Rightarrow> MemoryOrder \<Rightarrow> MatchedOrder" where
  "entryOf j t ord = \<lparr>m_OrderIndex = j, m_OrderID = OrderID ord, m_Execution = executionSnapshotFromOrder ord,
     m_Settlement = \<lparr>sp_IntentBytesHex = IntentBytesHex ord, sp_Signature = Signature ord\<rparr>,
     m_CreatedAt = t, m_CreatedCmdSeq = CreatedCmdSeq ord\<rparr>"

lemma new_batch_silent [simp]: "fateOf (newPendingBatch m pda t) = Map.empty" "entryFor (newPendingBatch m pda t) i = None"
  by (simp_all add: fateOf_def fates_def entryFor_def newPendingBatch_def)

lemma fates_grow:
  assumes "batch_ok b" "ev_Orders (event b') = ev_Orders (event b) @ xs"
    "OrderUpdates (event b') = OrderUpdates (event b) @ us"
  shows "fates b' = fates b @ map (fateOfUpdate b') us"
proof -
  have "fateOfUpdate b' u = fateOfUpdate b u" if "u \<in> set (OrderUpdates (event b))" for u
    using assms(1,2) that by (simp add: fateOfUpdate_def batch_ok_def nth_append)
  then show ?thesis using assms(3) by (simp add: fates_def)
qed

lemma index_entry: "entries_ok b \<Longrightarrow> orderIndex b i = None \<longleftrightarrow> entryFor b i = None"
proof -
  assume ok: "entries_ok b"
  have "orderIndex b i = None" if "entryFor b i = None"
  proof (rule ccontr)
    assume "orderIndex b i \<noteq> None"
    then obtain j k where "k < length (ev_Orders (event b))" "m_OrderID (ev_Orders (event b) ! k) = i"
      using ok unfolding entries_ok_def by blast
    then show False using that by (auto simp: entryFor_def find_None_iff dest: nth_mem)
  qed
  moreover have "entryFor b i = None" if "orderIndex b i = None"
    using ok that by (auto simp: entryFor_def find_None_iff entries_ok_def in_set_conv_nth)
  ultimately show ?thesis by blast
qed

lemma entryFor_grow:
  assumes "ev_Orders (event b') = ev_Orders (event b) @ xs"
  shows "entryFor b' i = (case entryFor b i of None \<Rightarrow> find (\<lambda>e. m_OrderID e = i) xs | Some e \<Rightarrow> Some e)"
  using assms by (simp add: entryFor_def find_append)

lemma entryFor_ensure:
  assumes "entries_ok b"
  shows "entryFor (snd (ensureOrder b ord t)) i =
    (if entryFor b i = None \<and> i = OrderID ord
     then Some (entryOf (of_nat (length (ev_Orders (event b)))) (if t = 0 then Timestamp ord else t) ord) else entryFor b i)"
  using index_entry [OF assms, of "OrderID ord"]
  by (auto simp: entryFor_grow [OF ensureOrder_orders] entryOf_def split: option.split)

lemma addOrderUpdate_entry:
  "entries_ok b \<Longrightarrow> entryFor (addOrderUpdateForOrder b ord st q s r why) i = entryFor (snd (ensureOrder b ord 0)) i"
  "entryFor (addFill b m tk p q) i = entryFor (snd (ensureOrder (snd (ensureOrder b m 0)) tk 0)) i"
  "entryFor (addDepthUpdate b side p v) i = entryFor b i"
  by (simp_all add: entryFor_def addOrderUpdateForOrder_as_ensure addFill_as_ensure frame)

lemma fateOf_update:
  assumes "batch_ok b" "fits (addOrderUpdateForOrder b ord st q s r why)"
  shows "fateOf (addOrderUpdateForOrder b ord st q s r why) = (fateOf b)(OrderID ord \<mapsto> (st, q, s))"
proof -
  let ?b1 = "snd (ensureOrder b ord 0)" and ?b' = "addOrderUpdateForOrder b ord st q s r why"
  have ok: "entries_ok ?b1" using assms(1) by (simp add: batch_ok_def invs)
  have "fits ?b1" using assms(2) by (simp add: fits_def addOrderUpdateForOrder_as_ensure)
  then have i: "m_OrderID (ev_Orders (event ?b1) ! unat (fst (ensureOrder b ord 0))) = OrderID ord"
    by (rule entries_okD(2) [OF ok ensureOrder_index(1)])
  have u: "OrderUpdates (event ?b') = OrderUpdates (event b) @
      [\<lparr>u_OrderIndex = fst (ensureOrder b ord 0), u_Status = st, u_RemainingQtyLots = q,
        u_RemainingSpendAmount = s, u_RefundAmount = r, u_ReasonCode = why\<rparr>]"
    by (simp add: addOrderUpdateForOrder_def pushOrderUpdate_def case_prod_beta Let_def frame)
  have "ev_Orders (event ?b') = ev_Orders (event ?b1)" by (simp add: addOrderUpdateForOrder_as_ensure)
  then have "fates ?b' = fates b @ [(OrderID ord, st, q, s)]"
    using fates_grow [OF assms(1) _ u] i by (simp add: ensureOrder_orders fateOfUpdate_def)
  then show ?thesis by (simp add: fateOf_def)
qed

lemma fateOf_fill:
  assumes "batch_ok b"
  shows "fateOf (addFill b m tk p q) = fateOf b"
proof -
  obtain xs where "ev_Orders (event (addFill b m tk p q)) = ev_Orders (event b) @ xs"
    by (simp add: addFill_as_ensure ensureOrder_orders)
  then show ?thesis
    using fates_grow [OF assms, of "addFill b m tk p q" xs "[]"] by (simp add: fateOf_def frame)
qed

lemma fateOf_depth [simp]: "fateOf (addDepthUpdate b side p v) = fateOf b"
proof -
  have "fateOfUpdate (addDepthUpdate b side p v) = fateOfUpdate b"
    by (rule ext) (simp add: fateOfUpdate_def frame)
  then show ?thesis by (simp add: fateOf_def fates_def frame)
qed

lemma fateOf_command:
  assumes "batch_ok b" "fits (addOrderUpdateForCommand b c st q s r why)"
  shows "fateOf (addOrderUpdateForCommand b c st q s r why) = (fateOf b)(c_OrderID c \<mapsto> (st, q, s))"
    "i \<noteq> c_OrderID c \<Longrightarrow> entryFor (addOrderUpdateForCommand b c st q s r why) i = entryFor b i"
proof -
  let ?b1 = "snd (ensureOrderFromCommand b c)" and ?j = "fst (ensureOrderFromCommand b c)"
  let ?b' = "addOrderUpdateForCommand b c st q s r why"
  have ok: "entries_ok ?b1" using assms(1) by (simp add: batch_ok_def invs)
  have idx: "orderIndex ?b1 (c_OrderID c) = Some ?j"
    by (auto simp: ensureOrderFromCommand_def Let_def split: option.split)
  have "fits ?b1" using assms(2) by (simp add: fits_def addOrderUpdateForCommand_as_ensure)
  then have i: "m_OrderID (ev_Orders (event ?b1) ! unat ?j) = c_OrderID c"
    by (rule entries_okD(2) [OF ok idx])
  obtain xs where xs: "ev_Orders (event ?b1) = ev_Orders (event b) @ xs" "\<forall>e \<in> set xs. m_OrderID e = c_OrderID c"
    "OrderUpdates (event ?b1) = OrderUpdates (event b)"
  proof (cases "orderIndex b (c_OrderID c)")
    case None
    then show ?thesis by (intro that) (auto simp: ensureOrderFromCommand_def Let_def)
  next
    case (Some j)
    then show ?thesis by (intro that [of "[]"]) (auto simp: ensureOrderFromCommand_def)
  qed
  have e: "ev_Orders (event ?b') = ev_Orders (event b) @ xs" by (simp add: addOrderUpdateForCommand_as_ensure xs(1))
  have u: "OrderUpdates (event ?b') = OrderUpdates (event b) @
      [\<lparr>u_OrderIndex = ?j, u_Status = st, u_RemainingQtyLots = q,
        u_RemainingSpendAmount = s, u_RefundAmount = r, u_ReasonCode = why\<rparr>]"
    by (simp add: addOrderUpdateForCommand_def pushOrderUpdate_def case_prod_beta Let_def xs(3))
  show "fateOf ?b' = (fateOf b)(c_OrderID c \<mapsto> (st, q, s))"
    using fates_grow [OF assms(1) e u] i by (simp add: fateOf_def fateOfUpdate_def addOrderUpdateForCommand_as_ensure)
  show "entryFor ?b' i = entryFor b i" if "i \<noteq> c_OrderID c"
    using xs(2) that by (auto simp: entryFor_grow [OF e] find_None_iff split: option.split)
qed

section \<open>The resting orders\<close>

definition sideOrders :: "levels \<Rightarrow> MemoryOrder set" where
  "sideOrders arr = (\<Union>p. set (levelQueue (arr p)))"

definition resting :: "FixedArrayOrderBook \<Rightarrow> MemoryOrder set" where
  "resting ob = sideOrders (Bids ob) \<union> sideOrders (Asks ob)"

lemma sideOrders_upd:
  "sideOrders (arr(p := l)) = (\<Union>p' \<in> - {p}. set (levelQueue (arr p'))) \<union> set (levelQueue l)"
  by (auto simp: sideOrders_def split: if_splits)

lemma sideOrders_at: "sideOrders arr = (\<Union>p' \<in> - {p}. set (levelQueue (arr p'))) \<union> set (levelQueue (arr p))"
  using sideOrders_upd [of arr p "arr p"] by (simp add: fun_upd_triv)

lemma set_mset_sum_finite: "finite A \<Longrightarrow> set_mset (\<Sum>x \<in> A. f x) = (\<Union>x \<in> A. set_mset (f x))"
  by (induction rule: finite_induct) simp_all

lemma set_qids [simp]: "set_mset (qids q) = OrderID ` set q"
  by (simp add: qids_def)

lemma sideIds_set: "set_mset (sideIds arr) = OrderID ` sideOrders arr"
  by (auto simp: sideIds_def sideOrders_def set_mset_sum_finite)

lemma distinct_by_count: "(\<And>x. count (mset xs) x \<le> 1) \<Longrightarrow> distinct xs"
proof -
  assume le: "\<And>x. count (mset xs) x \<le> 1"
  have "count (mset xs) x = (if x \<in> set xs then 1 else 0)" for x
  proof (cases "x \<in> set xs")
    case True
    then have "0 < count (mset xs) x" by simp
    then have "count (mset xs) x = 1" using le [of x] by linarith
    then show ?thesis using True by simp
  qed (simp add: count_eq_zero_iff)
  then show ?thesis by (simp add: distinct_count_atmost_1)
qed

text \<open>No id is used twice.\<close>

lemma sideIds_unique:
  assumes "sideIds arr + M = mset_set S"
  shows "distinct (map OrderID (levelQueue (arr p)))"
    "OrderID ` set (levelQueue (arr p)) \<inter> OrderID ` (\<Union>p' \<in> - {p}. set (levelQueue (arr p'))) = {}"
    "OrderID ` sideOrders arr \<inter> set_mset M = {}"
proof -
  let ?rest = "\<Sum>p' \<in> UNIV - {p}. qids (levelQueue (arr p'))"
  have e: "qids (levelQueue (arr p)) + ?rest + M = mset_set S"
    using assms sum.remove [of "UNIV :: u8 set" p "\<lambda>p. qids (levelQueue (arr p))"] by (simp add: sideIds_def)
  have le: "count (qids (levelQueue (arr p)) + ?rest + M) x \<le> 1" for x
    unfolding e by (simp add: count_mset_set')
  have "count (qids (levelQueue (arr p))) x \<le> 1" for x using le [of x] by simp
  then show "distinct (map OrderID (levelQueue (arr p)))" unfolding qids_def by (rule distinct_by_count)
  have "set_mset ?rest = OrderID ` (\<Union>p' \<in> - {p}. set (levelQueue (arr p')))"
    by (auto simp: set_mset_sum_finite)
  moreover have "\<not> (x \<in># qids (levelQueue (arr p)) \<and> x \<in># ?rest)" for x
  proof
    assume "x \<in># qids (levelQueue (arr p)) \<and> x \<in># ?rest"
    then have "0 < count (qids (levelQueue (arr p))) x" "0 < count ?rest x"
      by (simp_all only: count_greater_zero_iff)
    then show False using le [of x] unfolding count_union by linarith
  qed
  ultimately show "OrderID ` set (levelQueue (arr p)) \<inter> OrderID ` (\<Union>p' \<in> - {p}. set (levelQueue (arr p'))) = {}"
    using set_qids [of "levelQueue (arr p)"] by blast
  have le': "count (sideIds arr + M) x \<le> 1" for x using assms by (simp add: count_mset_set')
  have "\<not> (x \<in># sideIds arr \<and> x \<in># M)" for x
  proof
    assume "x \<in># sideIds arr \<and> x \<in># M"
    then have "0 < count (sideIds arr) x" "0 < count M x" by (simp_all only: count_greater_zero_iff)
    then show False using le' [of x] unfolding count_union by linarith
  qed
  then show "OrderID ` sideOrders arr \<inter> set_mset M = {}"
    unfolding sideIds_set [symmetric] by blast
qed

text \<open>An invariant of the passes is one of the walk.\<close>

lemma walk_rule:
  assumes "sweep_ok sd M s" "\<forall>p \<in> set ps. 1 \<le> p \<and> p \<le> 99" "I s"
    and "fits (sw_batch (snd (walk now side good ps s)))"
    and "\<And>s p e s'. I s \<Longrightarrow> sweep_ok sd M s \<Longrightarrow> matchAt now side p (levelOf (sw_levels s p)) s = (e, s') \<Longrightarrow>
           fits (sw_batch s') \<Longrightarrow> I s'"
  shows "I (snd (walk now side good ps s))"
  using assms(1-4)
proof (induction ps arbitrary: s)
  case (Cons p ps)
  obtain e s' where es: "matchAt now side p (levelOf (sw_levels s p)) s = (e, s')" by (meson surj_pair)
  have p: "1 \<le> p" "p \<le> 99" using Cons.prems(2) by auto
  note st = matchAt_step [of sd M s p "\<lambda>_. True", OF Cons.prems(1) p TrueI es]
  have w: "extends (sw_batch s') (sw_batch (snd (walk now side good ps s')))"
    using walk_extends [OF st(1)] Cons.prems(2) by auto
  show ?case
    using Cons.IH [OF Cons.prems(1)] Cons.IH [OF st(1)] Cons.prems fits_extends [OF w] assms(5) [OF Cons.prems(3,1) es] es
    by auto
qed simp

lemma matchLevel_taker: "same_order (taker s) (taker (snd (matchLevel now p q s)))"
  by (rule matchLevel_rule [of "\<lambda>q s r. same_order (taker s) (taker (snd r))"])
     (auto dest: takeFrom_same_order intro: same_order_trans)

lemma resting_ids: "book_ok ob \<Longrightarrow> OrderID ` resting ob = ob_Orders ob"
proof -
  assume "book_ok ob"
  then have "set_mset (sideIds (Asks ob) + sideIds (Bids ob)) = ob_Orders ob"
    by (simp add: book_ok_def)
  then show ?thesis by (auto simp: sideIds_set resting_def image_Un)
qed

lemma resting_link: "Side tk \<in> {SideBuy, SideSell} \<Longrightarrow> resting (linkOrder ob tk) = insert tk (resting ob)"
  by (auto simp: resting_def linkOrder_sel sideOrders_upd enqueue_def sideOrders_at [of _ "PriceTick tk"] levelQueue_levelOf
      SideBuy_def SideSell_def)

section \<open>A table of orders\<close>

definition openStatus :: "string \<Rightarrow> bool" where
  "openStatus st \<longleftrightarrow> st \<in> {''new'', ''partially_filled''}"

definition closedStatus :: "string \<Rightarrow> bool" where
  "closedStatus st \<longleftrightarrow> st \<in> {''filled'', ''canceled'', ''expired'', ''rejected''}"

lemma statuses [simp]:
  "openStatus ''new''" "openStatus ''partially_filled''"
  "closedStatus ''filled''" "closedStatus ''canceled''" "closedStatus ''expired''" "closedStatus ''rejected''"
  by (simp_all add: openStatus_def closedStatus_def)

locale order_rows =
  fixes rowOf :: "MatchBatchEvent \<Rightarrow> MatchedOrder \<Rightarrow> 'r"
    and describes :: "'r \<Rightarrow> MemoryOrder \<Rightarrow> bool"
    and live :: "'r \<Rightarrow> bool"
    and remaining :: "'r \<Rightarrow> u64 \<times> u64"
    and settle :: "fate \<Rightarrow> 'r \<Rightarrow> 'r"
    and typed :: "MemoryOrder \<Rightarrow> bool"
  assumes rowOf_describes: "typed m \<Longrightarrow> describes (rowOf ev (entryOf j t m)) m"
    and describes_same: "same_order m m' \<Longrightarrow> describes r m = describes r m'"
    and typed_same: "same_order m m' \<Longrightarrow> typed m = typed m'"
    and settle_describes: "describes (settle f r) m = describes r m"
    and settle_open: "describes r m \<Longrightarrow> openStatus st \<Longrightarrow> live (settle (st, q, x) r)"
    and settle_closed: "closedStatus st \<Longrightarrow> \<not> live (settle (st, q, x) r)"
    and settle_remaining: "remaining (settle (st, q, x) r) = (q, x)"
begin

text \<open>The table after a batch, and a table that shows a set of resting orders.\<close>

definition tableAfter :: "MatchBatchEvent \<Rightarrow> pendingBatch \<Rightarrow> (u64 \<rightharpoonup> 'r) \<Rightarrow> u64 \<rightharpoonup> 'r" where
  "tableAfter ev b T i =
     (let r = (case T i of Some r \<Rightarrow> Some r | None \<Rightarrow> map_option (rowOf ev) (entryFor b i))
      in case fateOf b i of None \<Rightarrow> r | Some f \<Rightarrow> map_option (settle f) r)"

definition shows_orders :: "(u64 \<rightharpoonup> 'r) \<Rightarrow> MemoryOrder set \<Rightarrow> bool" where
  "shows_orders T S \<longleftrightarrow>
     (\<forall>m \<in> S. \<exists>r. T (OrderID m) = Some r \<and> live r \<and> describes r m \<and> remaining r = (RemainingQty m, RemainingSpend m)) \<and>
     (\<forall>i r. T i = Some r \<longrightarrow> live r \<longrightarrow> i \<in> OrderID ` S)"

text \<open>The same before the batch is applied: what \<open>T\<close> and the batch say together.\<close>

definition fixedShown :: "(u64 \<rightharpoonup> 'r) \<Rightarrow> pendingBatch \<Rightarrow> MemoryOrder \<Rightarrow> bool" where
  "fixedShown T b m \<longleftrightarrow> (case T (OrderID m) of Some r \<Rightarrow> describes r m
     | None \<Rightarrow> \<exists>e. entryFor b (OrderID m) = Some e \<and> (\<forall>ev. describes (rowOf ev e) m))"

definition shown :: "(u64 \<rightharpoonup> 'r) \<Rightarrow> pendingBatch \<Rightarrow> MemoryOrder \<Rightarrow> bool" where
  "shown T b m \<longleftrightarrow> (case fateOf b (OrderID m) of
       Some (st, q, x) \<Rightarrow> openStatus st \<and> q = RemainingQty m \<and> x = RemainingSpend m
     | None \<Rightarrow> \<exists>r. T (OrderID m) = Some r \<and> live r \<and> remaining r = (RemainingQty m, RemainingSpend m))"

definition gone :: "(u64 \<rightharpoonup> 'r) \<Rightarrow> pendingBatch \<Rightarrow> u64 set \<Rightarrow> u64 \<Rightarrow> bool" where
  "gone T b X i \<longleftrightarrow> (case fateOf b i of Some (st, q, x) \<Rightarrow> closedStatus st
     | None \<Rightarrow> (case T i of Some r \<Rightarrow> \<not> live r | None \<Rightarrow> entryFor b i = None \<or> i \<in> X))"

definition mirror :: "(u64 \<rightharpoonup> 'r) \<Rightarrow> pendingBatch \<Rightarrow> MemoryOrder set \<Rightarrow> u64 set \<Rightarrow> bool" where
  "mirror T b S X \<longleftrightarrow> (\<forall>m \<in> S. fixedShown T b m \<and> shown T b m) \<and> (\<forall>i. i \<notin> OrderID ` S \<longrightarrow> gone T b X i)"

lemma mirror_new: "shows_orders T S \<Longrightarrow> mirror T (newPendingBatch m pda t) S {}"
  by (fastforce simp: shows_orders_def mirror_def fixedShown_def shown_def gone_def split: option.split)

lemma mirror_shows:
  assumes "mirror T b S {}"
  shows "shows_orders (tableAfter ev b T) S"
  unfolding shows_orders_def
proof (intro conjI ballI allI impI)
  fix m assume "m \<in> S"
  then have f: "fixedShown T b m" "shown T b m" using assms by (simp_all add: mirror_def)
  then obtain r where "(case T (OrderID m) of Some r \<Rightarrow> Some r | None \<Rightarrow> map_option (rowOf ev) (entryFor b (OrderID m))) = Some r"
    and r: "describes r m"
    by (auto simp: fixedShown_def split: option.splits)
  then show "\<exists>r. tableAfter ev b T (OrderID m) = Some r \<and> live r \<and> describes r m \<and>
      remaining r = (RemainingQty m, RemainingSpend m)"
    using f(2) by (auto simp: shown_def tableAfter_def settle_describes settle_remaining intro: settle_open split: option.splits)
next
  fix i r assume r: "tableAfter ev b T i = Some r" "live r"
  show "i \<in> OrderID ` S"
  proof (rule ccontr)
    assume "i \<notin> OrderID ` S"
    then have "gone T b {} i" using assms by (simp add: mirror_def)
    then show False
      using r by (auto simp: gone_def tableAfter_def settle_closed split: option.splits)
  qed
qed

lemma mirror_depth [simp]: "mirror T (addDepthUpdate b side p v) S X = mirror T b S X"
proof -
  have "fixedShown T (addDepthUpdate b side p v) m = fixedShown T b m" "shown T (addDepthUpdate b side p v) m = shown T b m"
    "gone T (addDepthUpdate b side p v) X i = gone T b X i" for m i
    by (simp_all add: fixedShown_def shown_def gone_def addOrderUpdate_entry split: option.split)
  then show ?thesis by (simp add: mirror_def)
qed

lemma fixedShown_upd:
  assumes "batch_ok b" "fixedShown T b m"
  shows "fixedShown T (addOrderUpdateForOrder b ord st q s r why) m" "fixedShown T (addFill b m' tk p q') m"
  using assms by (auto simp: fixedShown_def addOrderUpdate_entry entryFor_ensure batch_ok_def invs split: option.splits)

lemma mirror_update:
  assumes M: "mirror T b S X" and b: "batch_ok b" "fits (addOrderUpdateForOrder b ord st q x r why)"
    and S': "\<And>m. m \<in> S' \<Longrightarrow> OrderID m \<noteq> OrderID ord \<Longrightarrow> m \<in> S"
      "\<And>m. m \<in> S \<Longrightarrow> OrderID m \<noteq> OrderID ord \<Longrightarrow> m \<in> S'"
    and new: "\<And>m. m \<in> S' \<Longrightarrow> OrderID m = OrderID ord \<Longrightarrow> openStatus st \<and> q = RemainingQty m \<and> x = RemainingSpend m \<and>
         fixedShown T (addOrderUpdateForOrder b ord st q x r why) m"
    and old: "OrderID ord \<notin> OrderID ` S' \<Longrightarrow> closedStatus st" and X: "X \<subseteq> insert (OrderID ord) X'"
  shows "mirror T (addOrderUpdateForOrder b ord st q x r why) S' X'"
  unfolding mirror_def
proof (intro conjI ballI allI impI)
  let ?b' = "addOrderUpdateForOrder b ord st q x r why"
  note f = fateOf_update [OF b]
  fix m assume m: "m \<in> S'"
  show "fixedShown T ?b' m"
    using new [OF m] S'(1) [OF m] M fixedShown_upd(1) [OF b(1)] by (cases "OrderID m = OrderID ord") (auto simp: mirror_def)
  show "shown T ?b' m"
    using new [OF m] S'(1) [OF m] M f by (cases "OrderID m = OrderID ord") (auto simp: mirror_def shown_def)
next
  let ?b' = "addOrderUpdateForOrder b ord st q x r why"
  note f = fateOf_update [OF b]
  fix i assume i: "i \<notin> OrderID ` S'"
  show "gone T ?b' X' i"
  proof (cases "i = OrderID ord")
    case True
    then show ?thesis using old i f by (simp add: gone_def)
  next
    case False
    then have "i \<notin> OrderID ` S" using i S'(2) by fastforce
    then have "gone T b X i" using M by (simp add: mirror_def)
    then show ?thesis
      using False X b(1) f by (auto simp: gone_def addOrderUpdate_entry entryFor_ensure batch_ok_def split: option.splits)
  qed
qed

text \<open>The order being matched: not in the table, not yet reported on, and described by its entry, if it has one.\<close>

definition takerOK :: "(u64 \<rightharpoonup> 'r) \<Rightarrow> pendingBatch \<Rightarrow> MemoryOrder \<Rightarrow> bool" where
  "takerOK T b tk \<longleftrightarrow> typed tk \<and> T (OrderID tk) = None \<and> fateOf b (OrderID tk) = None \<and>
     (\<forall>e. entryFor b (OrderID tk) = Some e \<longrightarrow> (\<forall>ev. describes (rowOf ev e) tk))"

lemma takerOK_same: "same_order tk tk' \<Longrightarrow> takerOK T b tk = takerOK T b tk'"
  using typed_same [of tk tk'] describes_same [of tk tk'] by (simp add: takerOK_def same_orderD(1))

lemma takerOK_depth [simp]: "takerOK T (addDepthUpdate b side p v) tk = takerOK T b tk"
  by (simp add: takerOK_def addOrderUpdate_entry)

lemma takerOK_update:
  assumes "takerOK T b tk" "batch_ok b" "fits (addOrderUpdateForOrder b ord st q s r why)" "OrderID ord \<noteq> OrderID tk"
  shows "takerOK T (addOrderUpdateForOrder b ord st q s r why) tk"
  using assms fateOf_update [OF assms(2,3)] by (auto simp: takerOK_def addOrderUpdate_entry entryFor_ensure batch_ok_def)

lemma takerOK_fill:
  assumes "takerOK T b tk" "same_order tk tk'" "batch_ok b" "OrderID m \<noteq> OrderID tk"
  shows "takerOK T (addFill b m tk' p q) tk'"
proof -
  have t: "takerOK T b tk'" using assms(1) takerOK_same [OF assms(2)] by simp
  have n: "OrderID m \<noteq> OrderID tk'" using assms(2,4) by (simp add: same_orderD(1))
  have ok: "entries_ok b" using assms(3) by (simp add: batch_ok_def)
  then have ok1: "entries_ok (snd (ensureOrder b m 0))" by (rule ensureOrder_entries_ok)
  have "describes (rowOf ev e) tk'" if "entryFor (addFill b m tk' p q) (OrderID tk') = Some e" for e ev
    using t n that rowOf_describes [of tk']
    by (auto simp: takerOK_def addOrderUpdate_entry entryFor_ensure [OF ok1] entryFor_ensure [OF ok] split: if_splits)
  then show ?thesis using t by (simp add: takerOK_def fateOf_fill [OF assms(3)])
qed

lemma mirror_fill:
  assumes "mirror T b S X" "batch_ok b" "OrderID tk \<in> X" "OrderID m \<in> OrderID ` S"
  shows "mirror T (addFill b m tk p q) S X"
proof -
  have ok: "entries_ok b" using assms(2) by (simp add: batch_ok_def)
  then have ok1: "entries_ok (snd (ensureOrder b m 0))" by (rule ensureOrder_entries_ok)
  note e = addOrderUpdate_entry(2) [of b m tk p q] entryFor_ensure [OF ok1] entryFor_ensure [OF ok]
  have "gone T (addFill b m tk p q) X i" if "i \<notin> OrderID ` S" "gone T b X i" for i
  proof -
    have "i \<noteq> OrderID m" using that(1) assms(4) by auto
    then show ?thesis
      using that(2) assms(3) by (auto simp: gone_def fateOf_fill [OF assms(2)] e split: option.splits)
  qed
  moreover have "shown T (addFill b m tk p q) n = shown T b n" for n
    by (simp add: shown_def fateOf_fill [OF assms(2)])
  ultimately show ?thesis
    using assms(1) fixedShown_upd(2) [OF assms(2)] by (simp add: mirror_def)
qed

section \<open>Matching a level\<close>

text \<open>\<open>W\<close> are the resting orders outside the queue.\<close>

definition world :: "(u64 \<rightharpoonup> 'r) \<Rightarrow> MemoryOrder set \<Rightarrow> MemoryOrder list \<Rightarrow> matchState \<Rightarrow> bool" where
  "world T W q s \<longleftrightarrow> mirror T (batch s) (W \<union> set q) {OrderID (taker s)} \<and> takerOK T (batch s) (taker s) \<and>
     distinct (map OrderID q) \<and> OrderID ` W \<inter> OrderID ` set q = {} \<and>
     OrderID (taker s) \<notin> OrderID ` (W \<union> set q) \<and> batch_ok (batch s)"

lemma remove_mirror:
  assumes "mirror T (batch s) (insert m S) X" "OrderID m \<notin> OrderID ` S" "batch_ok (batch s)" "closedStatus st"
    "OrderID m' = OrderID m" "fits (batch (removeAndRecycleMaker m' st why s))"
  shows "mirror T (batch (removeAndRecycleMaker m' st why s)) S X"
proof -
  have "batch (removeAndRecycleMaker m' st why s) = addOrderUpdateForOrder (batch s) m' st (RemainingQty m')
      (RemainingSpend m') (releaseRefundForOrder m') why"
    by (simp add: removeAndRecycleMaker_def)
  moreover have "\<And>n. n \<in> S \<Longrightarrow> OrderID n \<noteq> OrderID m" using assms(2) by (metis imageI)
  ultimately show ?thesis using assms by (auto intro!: mirror_update [OF assms(1,3)])
qed

lemma world_drop:
  assumes w: "world T W (m # ms) s" and st: "closedStatus st"
    and fit: "fits (batch (removeAndRecycleMaker m st why s))"
  shows "world T W ms (removeAndRecycleMaker m st why s)"
proof -
  have u: "batch (removeAndRecycleMaker m st why s) =
      addOrderUpdateForOrder (batch s) m st (RemainingQty m) (RemainingSpend m) (releaseRefundForOrder m) why"
    by (simp add: removeAndRecycleMaker_def)
  have n: "OrderID m \<noteq> OrderID (taker s)" "OrderID m \<notin> OrderID ` (W \<union> set ms)"
    using w by (auto simp: world_def)
  have "mirror T (batch (removeAndRecycleMaker m st why s)) (W \<union> set ms) {OrderID (taker s)}"
    using w st fit n(2) by (intro remove_mirror [of T s m]) (auto simp: world_def)
  moreover have "takerOK T (batch (removeAndRecycleMaker m st why s)) (taker s)"
    using w fit n(1) unfolding u by (intro takerOK_update) (auto simp: world_def)
  moreover have "batch_ok (batch (removeAndRecycleMaker m st why s))"
    using w fit unfolding u by (intro addOrderUpdateForOrder_batch_ok) (auto simp: world_def)
  ultimately show ?thesis using w by (auto simp: world_def removeAndRecycleMaker_def)
qed

lemma world_fill:
  assumes w: "world T W (m # ms) s" and so: "same_order (taker s) tk'"
    and fit: "fits (batch (afterFill m p mq tk' s))"
  shows "if mq = RemainingQty m then world T W ms (afterFill m p mq tk' s)
         else world T (insert (m\<lparr>RemainingQty := RemainingQty m - mq\<rparr>) W) ms (afterFill m p mq tk' s)"
proof -
  let ?m = "m\<lparr>RemainingQty := RemainingQty m - mq\<rparr>" and ?b1 = "addFill (batch s) (m\<lparr>RemainingQty := RemainingQty m - mq\<rparr>) tk' p mq"
  let ?s1 = "fillMaker ?m p mq tk' s"
  have id: "OrderID tk' = OrderID (taker s)" using so by (rule same_orderD)
  have n: "OrderID m \<noteq> OrderID (taker s)" "OrderID m \<notin> OrderID ` (W \<union> set ms)" and b: "batch_ok (batch s)"
    and t: "takerOK T (batch s) (taker s)"
    using w by (auto simp: world_def)
  have fit1: "fits ?b1" using fits_extends [OF afterFill_extends_addFill fit] .
  have b1: "batch_ok ?b1" using b n(1) fit1 id by (intro addFill_batch_ok) auto
  have m1: "mirror T ?b1 (insert m (W \<union> set ms)) {OrderID (taker s)}"
    using w id by (intro mirror_fill) (auto simp: world_def)
  have t1: "takerOK T ?b1 tk'" using t so b n(1) by (intro takerOK_fill) auto
  show ?thesis
  proof (cases "mq = RemainingQty m")
    case True
    have s': "afterFill m p mq tk' s = removeAndRecycleMaker ?m ''filled'' [] ?s1"
      using True by (simp add: afterFill_def Let_def)
    have "mirror T (batch (removeAndRecycleMaker ?m ''filled'' [] ?s1)) (W \<union> set ms) {OrderID (taker s)}"
      using m1 n(2) b1 fit unfolding s' by (intro remove_mirror [of T ?s1 m]) (auto simp: fillMaker_def)
    moreover have "takerOK T (batch (removeAndRecycleMaker ?m ''filled'' [] ?s1)) tk'"
      "batch_ok (batch (removeAndRecycleMaker ?m ''filled'' [] ?s1))"
      using t1 b1 fit n(1) id unfolding s'
      by (simp_all add: removeAndRecycleMaker_def fillMaker_def takerOK_update invs)
    ultimately show ?thesis
      using w True id unfolding s' by (auto simp: world_def removeAndRecycleMaker_def fillMaker_def)
  next
    case False
    have s': "batch (afterFill m p mq tk' s) = addOrderUpdateForOrder ?b1 ?m ''partially_filled'' (RemainingQty ?m) (RemainingSpend ?m) 0 []"
      "taker (afterFill m p mq tk' s) = tk'"
      using False by (simp_all add: afterFill_def fillMaker_def Let_def)
    have f: "fixedShown T ?b1 m" using m1 by (simp add: mirror_def)
    have ne: "x \<in> W \<Longrightarrow> OrderID x \<noteq> OrderID m" "x \<in> set ms \<Longrightarrow> OrderID x \<noteq> OrderID m" for x
      using n(2) by (metis UnI1 UnI2 imageI)+
    have "same_order m ?m" by simp
    then have f': "fixedShown T (addOrderUpdateForOrder ?b1 ?m st q x r why) ?m" for st q x r why
      using fixedShown_upd(1) [OF b1 f, of ?m st q x r why] describes_same [of m ?m]
      by (auto simp: fixedShown_def split: option.splits)
    have "mirror T (batch (afterFill m p mq tk' s)) (insert ?m W \<union> set ms) {OrderID (taker s)}"
      unfolding s' using fit[unfolded s'] ne f' by (intro mirror_update [OF m1 b1]) (auto dest: ne)
    moreover have "takerOK T (batch (afterFill m p mq tk' s)) tk'" "batch_ok (batch (afterFill m p mq tk' s))"
      unfolding s' using t1 b1 fit[unfolded s'] n(1) id by (simp_all add: takerOK_update invs)
    ultimately show ?thesis
      using w False id n unfolding world_def s'(2) by auto
  qed
qed

lemma matchLevel_world:
  assumes "world T W q s" "fits (batch (snd (matchLevel now p q s)))"
  shows "world T W (fst (matchLevel now p q s)) (snd (matchLevel now p q s))"
proof -
  let ?P = "\<lambda>q s r. extends (batch s) (batch (snd r)) \<and>
    (\<forall>W. world T W q s \<longrightarrow> fits (batch (snd r)) \<longrightarrow> world T W (fst r) (snd r))"
  have "?P q s (matchLevel now p q s)"
  proof (rule matchLevel_rule [of ?P], goal_cases)
    case (3 m ms s r)
    then show ?case
      using fits_extends [of "batch (dropExpired m s)" "batch (snd r)"] extends_trans [OF drop_extends(1) [of s m]]
        world_drop [of T _ m ms s "''expired''" "''expired''"] unfolding dropExpired_def by auto
  next
    case (4 m ms s r)
    then show ?case
      using fits_extends [of "batch (dropSelf m s)" "batch (snd r)"] extends_trans [OF drop_extends(2) [of s m]]
        world_drop [of T _ m ms s "''canceled''" "''self_trade_prevention''"] unfolding dropSelf_def by auto
  next
    case (5 m ms s)
    have "world T W (m # ms) (s\<lparr>taker := (taker s)\<lparr>RemainingSpend := 0\<rparr>\<rparr>)" if "world T W (m # ms) s" for W
      using that takerOK_same [of "taker s" "(taker s)\<lparr>RemainingSpend := 0\<rparr>" T "batch s"] by (simp add: world_def)
    then show ?case by simp
  next
    case (6 m ms s tk' r)
    have so: "same_order (taker s) tk'" using 6(4) by (rule takeFrom_same_order)
    show ?case
      using 6(5) fits_extends [of "batch (afterFill m p (RemainingQty m) tk' s)" "batch (snd r)"]
        extends_trans [OF afterFill_extends [of s m p "RemainingQty m" tk']]
        world_fill [OF _ so, of T _ m ms p "RemainingQty m"] by auto
  next
    case (7 m ms s mq tk' q r)
    let ?m = "m\<lparr>RemainingQty := RemainingQty m - mq\<rparr>"
    have so: "same_order (taker s) tk'" using 7(4) by (rule takeFrom_same_order)
    have ext: "extends (batch s) (batch r)" using 7(6) extends_trans [OF afterFill_extends [of s m p mq tk']] by auto
    have "world T W (?m # q) r" if w: "world T W (m # ms) s" and f: "fits (batch r)" for W
    proof -
      have "fits (batch (afterFill m p mq tk' s))" using 7(6) f fits_extends by auto
      then have "world T (insert ?m W) ms (afterFill m p mq tk' s)" using world_fill [OF w so] 7(5) by simp
      then have i: "world T (insert ?m W) q r" using 7(6) f by auto
      have "OrderID m \<notin> OrderID ` W" using w by (auto simp: world_def)
      then show ?thesis using i by (auto simp: world_def)
    qed
    then show ?case using ext by auto
  qed auto
  then show ?thesis using assms by blast
qed

section \<open>Walking the levels\<close>

definition sweepShown :: "(u64 \<rightharpoonup> 'r) \<Rightarrow> MemoryOrder set \<Rightarrow> u64 \<Rightarrow> sweepState \<Rightarrow> bool" where
  "sweepShown T W k s \<longleftrightarrow> mirror T (sw_batch s) (W \<union> sideOrders (sw_levels s)) {k} \<and>
     takerOK T (sw_batch s) (sw_taker s) \<and> batch_ok (sw_batch s) \<and> OrderID (sw_taker s) = k \<and> k \<notin> sw_ids s"

lemma matchAt_sweepShown:
  assumes I: "sweepShown T W k s" and sw: "sweep_ok sd M s" and W: "OrderID ` W = set_mset M"
    and m: "matchAt now side p (levelOf (sw_levels s p)) s = (e, s')" and fit: "fits (sw_batch s')"
  shows "sweepShown T W k s'"
proof -
  let ?l = "levelOf (sw_levels s p)" and ?others = "\<Union>p' \<in> - {p}. set (levelQueue (sw_levels s p'))"
  obtain q r where qr: "matchLevel now p (Queue ?l) (startOf ?l s) = (q, r)" by (meson surj_pair)
  have s': "s' = \<lparr>sw_levels = (sw_levels s)(p := Some \<lparr>TotalVolume = vol r, Queue = q\<rparr>),
      sw_taker = taker r, sw_ids = ids r, sw_batch = addDepthUpdate (batch r) side p (vol r)\<rparr>"
    using m matchAt_split [OF qr, of side] by simp
  have Q: "Queue ?l = levelQueue (sw_levels s p)" by (simp add: levelQueue_levelOf)
  have u: "sideIds (sw_levels s) + M = mset_set (sw_ids s)" using sw by (simp add: sweep_ok_def)
  have all: "sw_ids s = OrderID ` (W \<union> sideOrders (sw_levels s))"
    unfolding image_Un W using arg_cong [OF u, of set_mset] by (auto simp: sideIds_set)
  have at: "sideOrders (sw_levels s) = ?others \<union> set (levelQueue (sw_levels s p))" by (rule sideOrders_at)
  have dis: "OrderID ` (W \<union> ?others) \<inter> OrderID ` set (levelQueue (sw_levels s p)) = {}"
    using sideIds_unique(2) [OF u, of p] sideIds_unique(3) [OF u] unfolding image_Un W at by blast
  have "world T (W \<union> ?others) (Queue ?l) (startOf ?l s)"
    using I dis sideIds_unique(1) [OF u, of p] all unfolding world_def sweepShown_def Q at Un_assoc by simp
  moreover have "fits (batch r)" using fit fits_extends [OF addDepthUpdate_extends] by (simp add: s')
  ultimately have w: "world T (W \<union> ?others) q r"
    using matchLevel_world [of T "W \<union> ?others" "Queue ?l" "startOf ?l s" now p] by (simp add: qr)
  have "taker r = taker r \<and> same_order (sw_taker s) (taker r)"
    using matchLevel_taker [of "startOf ?l s" now p "Queue ?l"] by (simp add: qr)
  then have k: "OrderID (taker r) = k" using I by (auto simp: sweepShown_def same_orderD(1))
  have "ids r \<subseteq> sw_ids s" using matchLevel_ids_sub [of now p "Queue ?l" "startOf ?l s"] by (simp add: qr)
  then show ?thesis
    using w I k by (auto simp: world_def sweepShown_def s' sideOrders_upd Un_assoc invs)
qed

lemma walk_sweepShown:
  assumes "sweep_ok sd M s" "\<forall>p \<in> set ps. 1 \<le> p \<and> p \<le> 99" "OrderID ` W = set_mset M" "sweepShown T W k s"
    "fits (sw_batch (snd (walk now side good ps s)))"
  shows "sweepShown T W k (snd (walk now side good ps s))"
  by (rule walk_rule [where I = "sweepShown T W k", OF assms(1,2,4,5)]) (rule matchAt_sweepShown [OF _ _ assms(3)])

section \<open>Commands\<close>

definition matching :: "(u64 \<rightharpoonup> 'r) \<Rightarrow> FixedArrayOrderBook \<Rightarrow> MemoryOrder \<Rightarrow> pendingBatch \<Rightarrow> bool" where
  "matching T ob tk b \<longleftrightarrow> mirror T b (resting ob) {OrderID tk} \<and> takerOK T b tk \<and> batch_ok b \<and> OrderID tk \<notin> ob_Orders ob"

lemma matching_start:
  assumes "matching T ob tk b" "book_ok ob"
  shows "sweepShown T (sideOrders (Bids ob)) (OrderID tk) \<lparr>sw_levels = Asks ob, sw_taker = tk, sw_ids = ob_Orders ob, sw_batch = b\<rparr>"
    "sweepShown T (sideOrders (Asks ob)) (OrderID tk) \<lparr>sw_levels = Bids ob, sw_taker = tk, sw_ids = ob_Orders ob, sw_batch = b\<rparr>"
  using assms by (simp_all add: matching_def sweepShown_def resting_def Un_commute)

lemma matchAsks_matching:
  assumes ok: "book_ok ob" and tk: "safeTaker tk" and m: "matching T ob tk b"
    and r: "matchAsks ob tk b = Some (Inr (ob', tk', b'))" and fit: "fits b'"
  shows "matching T ob' tk' b'"
proof -
  let ?s = "\<lparr>sw_levels = Asks ob, sw_taker = tk, sw_ids = ob_Orders ob, sw_batch = b\<rparr>"
  obtain t ps where w: "\<forall>p \<in> set ps. 1 \<le> p \<and> p \<le> 99"
    "asksLoop (CurrentTime ob) (if BestAskPrice ob = 0 then scanUp (Asks ob) 1 else BestAskPrice ob) ?s =
     Some (t, snd (walk (CurrentTime ob) SideSell (\<lambda>p. p \<le> PriceTick tk) ps ?s))"
    using asksLoop_as_walk [OF ok tk, of b] by metis
  let ?s' = "snd (walk (CurrentTime ob) SideSell (\<lambda>p. p \<le> PriceTick tk) ps ?s)"
  have sw: "sweep_ok SideSell (sideIds (Bids ob)) ?s" using ok tk by (simp add: sweep_ok_def book_ok_def)
  have e: "b' = sw_batch ?s'" "tk' = sw_taker ?s'" "Asks ob' = sw_levels ?s'" "Bids ob' = Bids ob" "ob_Orders ob' = sw_ids ?s'"
    using r w(2) by (auto simp: matchAsks_def Let_def updateBestAsk_def)
  have "sweepShown T (sideOrders (Bids ob)) (OrderID tk) ?s'"
    using fit e(1) by (intro walk_sweepShown [OF sw w(1) _ matching_start(1) [OF m ok]]) (simp_all add: sideIds_set)
  then show ?thesis using e by (simp add: matching_def sweepShown_def resting_def)
qed

lemma matchBids_matching:
  assumes ok: "book_ok ob" and tk: "safeTaker tk" and m: "matching T ob tk b"
    and r: "matchBids ob tk b = Some (Inr (ob', tk', b'))" and fit: "fits b'"
  shows "matching T ob' tk' b'"
proof -
  let ?s = "\<lparr>sw_levels = Bids ob, sw_taker = tk, sw_ids = ob_Orders ob, sw_batch = b\<rparr>"
  obtain t ps where w: "\<forall>p \<in> set ps. 1 \<le> p \<and> p \<le> 99"
    "bidsLoop (CurrentTime ob) (if BestBidPrice ob = 0 then scanDown (Bids ob) 99 else BestBidPrice ob) ?s =
     Some (t, snd (walk (CurrentTime ob) SideBuy (\<lambda>p. PriceTick tk \<le> p) ps ?s))"
    using bidsLoop_as_walk [OF ok tk, of b] by metis
  let ?s' = "snd (walk (CurrentTime ob) SideBuy (\<lambda>p. PriceTick tk \<le> p) ps ?s)"
  have sw: "sweep_ok SideBuy (sideIds (Asks ob)) ?s" using ok tk by (simp add: sweep_ok_def book_ok_def add.commute)
  have e: "b' = sw_batch ?s'" "tk' = sw_taker ?s'" "Bids ob' = sw_levels ?s'" "Asks ob' = Asks ob" "ob_Orders ob' = sw_ids ?s'"
    using r w(2) by (auto simp: matchBids_def Let_def updateBestBid_def split: if_splits)
  have "sweepShown T (sideOrders (Asks ob)) (OrderID tk) ?s'"
    using fit e(1) by (intro walk_sweepShown [OF sw w(1) _ matching_start(2) [OF m ok]]) (simp_all add: sideIds_set)
  then show ?thesis using e by (simp add: matching_def sweepShown_def resting_def Un_commute)
qed

text \<open>The taker's last report closes its gap.\<close>

lemma taker_closes:
  assumes "matching T ob tk b" "book_ok ob" "closedStatus st" "fits (addOrderUpdateForOrder b tk st q x r why)"
  shows "mirror T (addOrderUpdateForOrder b tk st q x r why) (resting ob) {}"
proof -
  have "OrderID n \<noteq> OrderID tk" if "n \<in> resting ob" for n
    using assms(1) that imageI [OF that, of OrderID] unfolding matching_def resting_ids [OF assms(2)] by metis
  then show ?thesis
    using assms by (intro mirror_update [of T b "resting ob" "{OrderID tk}"]) (auto simp: matching_def)
qed

lemma taker_rests:
  assumes "matching T ob tk b" "book_ok ob" "Side tk \<in> {SideBuy, SideSell}"
    "fits (addOrderUpdateForOrder b tk ''new'' (RemainingQty tk) (RemainingSpend tk) r why)"
  shows "mirror T (addOrderUpdateForOrder b tk ''new'' (RemainingQty tk) (RemainingSpend tk) r why) (resting (linkOrder ob tk)) {}"
proof -
  have n: "OrderID n \<noteq> OrderID tk" if "n \<in> resting ob" for n
    using assms(1) that imageI [OF that, of OrderID] unfolding matching_def resting_ids [OF assms(2)] by metis
  have b: "batch_ok b" "entries_ok b" and t: "takerOK T b tk" using assms(1) by (simp_all add: matching_def batch_ok_def)
  have "fixedShown T (addOrderUpdateForOrder b tk st q x r why) tk" for st q x r why
    using t rowOf_describes [of tk]
    by (auto simp: fixedShown_def takerOK_def addOrderUpdate_entry(1) [OF b(2)] entryFor_ensure [OF b(2)] split: option.split)
  then show ?thesis
    using assms b n unfolding resting_link [OF assms(3)]
    by (intro mirror_update [of T b "resting ob" "{OrderID tk}"]) (auto simp: matching_def)
qed

lemma mirror_mono: "mirror T b S {} \<Longrightarrow> mirror T b S X"
  by (fastforce simp: mirror_def gone_def split: option.splits)

lemma mirror_reject:
  assumes M: "mirror T b S {}" and b: "batch_ok b" "fits (addOrderUpdateForCommand b c st q x r why)"
    and new: "c_OrderID c \<notin> OrderID ` S" and st: "closedStatus st"
  shows "mirror T (addOrderUpdateForCommand b c st q x r why) S {}"
proof -
  let ?b' = "addOrderUpdateForCommand b c st q x r why"
  have "fixedShown T ?b' m" "shown T ?b' m" if "m \<in> S" for m
  proof -
    have n: "OrderID m \<noteq> c_OrderID c" using new that by (metis imageI)
    have "fixedShown T ?b' m = fixedShown T b m" "shown T ?b' m = shown T b m"
      using n fateOf_command(2) [OF b n] by (simp_all add: fixedShown_def shown_def fateOf_command(1) [OF b] split: option.split)
    then show "fixedShown T ?b' m" "shown T ?b' m" using M that by (simp_all add: mirror_def)
  qed
  moreover have "gone T ?b' {} i" if "i \<notin> OrderID ` S" for i
  proof (cases "i = c_OrderID c")
    case True
    then show ?thesis using st by (simp add: gone_def fateOf_command(1) [OF b])
  next
    case False
    then have "gone T ?b' {} i = gone T b {} i"
      using fateOf_command(2) [OF b False] by (simp add: gone_def fateOf_command(1) [OF b] split: option.split)
    then show ?thesis using M that by (simp add: mirror_def)
  qed
  ultimately show ?thesis by (simp add: mirror_def)
qed

definition freshCommand :: "(u64 \<rightharpoonup> 'r) \<Rightarrow> pendingBatch \<Rightarrow> Command \<Rightarrow> bool" where
  "freshCommand T b cmd \<longleftrightarrow> (case cmd of
       PlaceOrder c \<Rightarrow> T (c_OrderID c) = None \<and> fateOf b (c_OrderID c) = None \<and> typed (orderFromCmd c)
     | _ \<Rightarrow> True)"

lemma handlePlaceOrder_mirror:
  assumes ok: "book_ok ob" and adm: "admissible ob c" and b: "batch_ok b" and M: "mirror T b (resting ob) {}"
    and fresh: "freshCommand T b (PlaceOrder c)"
    and r: "handlePlaceOrder ob c b = Some (Inr (ob', b'))" and fit: "fits b'"
  shows "mirror T b' (resting ob') {}"
proof (cases "IsActive ob")
  case False
  have "c_OrderID c \<notin> OrderID ` resting ob" using adm by (simp add: resting_ids [OF ok] admissible_def)
  then show ?thesis using r False M b fit by (auto simp: handlePlaceOrder_def intro!: mirror_reject)
next
  case True
  let ?tk = "orderFromCmd c"
  have tk: "safeTaker ?tk" "OrderID ?tk \<notin> ob_Orders ob" "Side ?tk \<in> {SideBuy, SideSell}"
    using adm safeTaker_from_cmd by (auto simp: admissible_def)
  then have "gone T b {} (OrderID ?tk)" using M by (simp add: mirror_def resting_ids [OF ok])
  then have m0: "matching T ob ?tk b"
    using fresh tk(2) M b by (simp add: matching_def takerOK_def gone_def freshCommand_def mirror_mono)
  obtain ob1 tk1 b1 where m: "(if c_Side c = SideBuy then matchAsks ob ?tk b else matchBids ob ?tk b) = Some (Inr (ob1, tk1, b1))"
    and f: "finishTaker ob1 tk1 b1 = Inr (ob', b')"
    using r True by (auto simp: handlePlaceOrder_def split: option.splits sum.splits if_splits)
  have "fits b1" using fits_extends [OF finishTaker_extends [OF f] fit] .
  then have m1: "matching T ob1 tk1 b1"
    using m matchAsks_matching [OF ok tk(1) m0] matchBids_matching [OF ok tk(1) m0] by (auto split: if_splits)
  have ok1: "book_ok ob1" and so: "same_order ?tk tk1"
    using m matchAsks_spec [OF ok tk(1), of b] matchBids_spec [OF ok tk(1), of b]
    by (auto simp: sweep_result_def split: if_splits)
  have sd: "Side tk1 \<in> {SideBuy, SideSell}" using tk(3) so by (simp add: same_orderD(6))
  show ?thesis
  proof (cases "IsFilled tk1 \<or> OrderType tk1 = OrderTypeMarket")
    case True
    then show ?thesis using f taker_closes [OF m1 ok1] fit by (auto simp: finishTaker_def split: if_splits)
  next
    case False
    let ?b2 = "addOrderUpdateForOrder b1 tk1 ''new'' (RemainingQty tk1) (RemainingSpend tk1) 0 []"
    have e: "ob' = linkOrder ob1 tk1"
      "b' = addDepthUpdate ?b2 (Side tk1) (PriceTick tk1) (TotalVolume (enqueue tk1 (sideLevel ob1 tk1)))"
      using f False by (auto simp: finishTaker_def addOrderToBook_def Let_def split: if_splits)
    have "fits ?b2" using fits_extends [OF addDepthUpdate_extends] fit unfolding e(2) .
    then show ?thesis using taker_rests [OF m1 ok1 sd] by (simp add: e)
  qed
qed

section \<open>The tick\<close>

lemma sweepQueue_mirror:
  assumes "mirror T (batch s) (W \<union> set q) {}" "distinct (map OrderID q)" "OrderID ` W \<inter> OrderID ` set q = {}"
    "batch_ok (batch s)" "fits (batch (snd (sweepQueue now q s)))"
  shows "mirror T (batch (snd (sweepQueue now q s))) (W \<union> set (fst (sweepQueue now q s))) {}"
  using assms
proof (induction now q s rule: sweepQueue.induct)
  case (2 now m rest s)
  let ?s1 = "removeAndRecycleMaker m ''expired'' ''expired'' s"
  show ?case
  proof (cases "isExpired now m")
    case True
    have f: "fits (batch ?s1)"
      using 2(6) True sweepQueue_batch [of ?s1 now rest] fits_extends by auto
    have "mirror T (batch s) (insert m (W \<union> set rest)) {}" "OrderID m \<notin> OrderID ` (W \<union> set rest)"
      using 2(2,3,4) by auto
    then have "mirror T (batch ?s1) (W \<union> set rest) {}"
      using 2(5) f by (intro remove_mirror [of T s m]) auto
    moreover have "batch_ok (batch ?s1)"
      using 2(5) f drop_batch_ok(1) [of s m] by (simp add: dropExpired_def)
    ultimately show ?thesis using 2 True by auto
  qed (use 2 in auto)
qed simp

lemma sweepLevelO1_mirror:
  assumes ids: "sideIds arr + M = mset_set S" and W: "OrderID ` W = set_mset M"
    and m: "mirror T b (W \<union> sideOrders arr) {}" "batch_ok b"
    and r: "sweepLevelO1 now (arr p) p sd S b = (l', S', b', removed)" and fit: "fits b'"
  shows "mirror T b' (W \<union> sideOrders (arr(p := l'))) {}"
proof (cases "levelQueue (arr p) = []")
  case True
  then have "l' = arr p" "b' = b" using r by (auto simp: sweepLevelO1_def levelQueue_def split: option.splits)
  then show ?thesis using m(1) by (simp add: fun_upd_triv)
next
  case False
  then obtain l where l: "arr p = Some l" "Queue l \<noteq> []" by (cases "arr p") auto
  let ?s = "\<lparr>taker = zeroOrder, vol = TotalVolume l, ids = S, batch = b\<rparr>"
  let ?r = "snd (sweepQueue now (Queue l) ?s)" and ?others = "\<Union>p' \<in> - {p}. set (levelQueue (arr p'))"
  have e: "levelQueue l' = fst (sweepQueue now (Queue l) ?s)"
    "b' = (if isExpired now (hd (Queue l)) then addDepthUpdate (batch ?r) sd p (vol ?r) else batch ?r)"
    using r l by (auto simp: sweepLevelO1_def Let_def case_prod_beta)
  have f: "fits (batch ?r)" using fit e(2) fits_extends [OF addDepthUpdate_extends] by (auto split: if_splits)
  have at: "sideOrders arr = ?others \<union> set (Queue l)" using sideOrders_at [of arr p] l(1) by simp
  have dis: "OrderID ` (W \<union> ?others) \<inter> OrderID ` set (Queue l) = {}"
    using sideIds_unique(2) [OF ids, of p] sideIds_unique(3) [OF ids] l(1) unfolding image_Un W at by auto
  have "mirror T (batch ?r) ((W \<union> ?others) \<union> set (fst (sweepQueue now (Queue l) ?s))) {}"
    using m dis f sideIds_unique(1) [OF ids, of p] l(1) unfolding at
    by (intro sweepQueue_mirror) (simp_all add: Un_assoc)
  then show ?thesis using e by (simp add: sideOrders_upd Un_assoc)
qed

lemma tickPrice_mirror:
  assumes ok: "tick_ok ob" and m: "mirror T b (resting ob) {}" "batch_ok b"
    and r: "tickPrice now p (ob, b, ch) = (ob', b', ch')" and fit: "fits b'"
  shows "mirror T b' (resting ob') {}"
proof -
  obtain bl S1 b1 rb where B: "sweepLevelO1 now (Bids ob p) p SideBuy (ob_Orders ob) b = (bl, S1, b1, rb)"
    by (metis prod_cases4)
  obtain al S2 b2 ra where A: "sweepLevelO1 now (Asks ob p) p SideSell S1 b1 = (al, S2, b2, ra)"
    by (metis prod_cases4)
  have i: "sideIds (Bids ob) + sideIds (Asks ob) = mset_set (ob_Orders ob)" and sb: "side_ok SideBuy (Bids ob)"
    using ok by (simp_all add: tick_ok_def add.commute)
  have e: "resting ob' = sideOrders ((Bids ob)(p := bl)) \<union> sideOrders ((Asks ob)(p := al))" "b' = b2"
    using r A B by (auto simp: tickPrice_def resting_def)
  have fit1: "fits b1" using fit e(2) sweepLevelO1_batch(1) [of now "Asks ob p" p SideSell S1 b1] A fits_extends by metis
  have b1: "batch_ok b1" using sweepLevelO1_batch(2) [of now "Bids ob p" p SideBuy "ob_Orders ob" b] B m(2) fit1 by metis
  have m1: "mirror T b1 (sideOrders (Asks ob) \<union> sideOrders ((Bids ob)(p := bl))) {}"
    using m B fit1 by (intro sweepLevelO1_mirror [OF i, of "sideOrders (Asks ob)" T b now p SideBuy bl S1 b1 rb])
      (simp_all add: sideIds_set resting_def Un_commute)
  have i1: "sideIds (Asks ob) + sideIds ((Bids ob)(p := bl)) = mset_set S1"
    using sweepLevelO1_spec(2) [of SideBuy "Bids ob" "sideIds (Asks ob)" "ob_Orders ob" now p b bl S1 b1 rb] sb i B
    by (simp add: add.commute)
  have "mirror T b2 (sideOrders ((Bids ob)(p := bl)) \<union> sideOrders ((Asks ob)(p := al))) {}"
    using m1 b1 A fit e(2) by (intro sweepLevelO1_mirror [OF i1, of "sideOrders ((Bids ob)(p := bl))" T b1 now p SideSell al S2 b2 ra])
      (simp_all add: sideIds_set Un_commute)
  then show ?thesis by (simp add: e)
qed

lemma handleTick_mirror:
  assumes ok: "book_ok ob" and m: "mirror T b (resting ob) {}" "batch_ok b"
    and r: "handleTick ob now b = (ob', b')" and fit: "fits b'"
  shows "mirror T b' (resting ob') {}"
proof -
  have F: "mirror T b1 (resting ob1) {}"
    if "fold (tickPrice now) ps (ob0, b0, ch0) = (ob1, b1, ch1)" "mirror T b0 (resting ob0) {}" "batch_ok b0" "tick_ok ob0" "fits b1"
    for ps ob0 b0 ch0 ob1 b1 ch1
    using that
  proof (induction ps arbitrary: ob0 b0 ch0)
    case (Cons p ps)
    obtain ob2 b2 ch2 where t: "tickPrice now p (ob0, b0, ch0) = (ob2, b2, ch2)" by (metis prod_cases3)
    have f: "fold (tickPrice now) ps (ob2, b2, ch2) = (ob1, b1, ch1)" using Cons.prems(1) t by simp
    have fit2: "fits b2" using tick_fold_batch [OF f] Cons.prems(5) fits_extends by blast
    show ?case
      using Cons.IH [OF f] tickPrice_mirror [OF Cons.prems(4,2,3) t fit2] tickPrice_batch(2) [OF t Cons.prems(3) fit2]
        tickPrice_spec(1) [OF Cons.prems(4) t] Cons.prems(5) by blast
  qed simp
  obtain ob1 b1 ch where f: "fold (tickPrice now) (map of_nat [1 ..< 100]) (ob\<lparr>CurrentTime := now\<rparr>, b, False) = (ob1, b1, ch)"
    by (metis prod_cases3)
  have e: "b' = b1" "resting ob' = resting ob1"
    using r f by (auto simp: handleTick_def resting_def updateBestAsk_def updateBestBid_def split: if_splits)
  have "tick_ok (ob\<lparr>CurrentTime := now\<rparr>)" using ok by (simp add: tick_ok_def book_ok_def)
  moreover have "mirror T b (resting (ob\<lparr>CurrentTime := now\<rparr>)) {}" using m(1) by (simp add: resting_def)
  ultimately show ?thesis using F [OF f] m(2) fit e by simp
qed

lemma ProcessCommand_mirror:
  assumes ok: "book_ok ob" and adm: "admissibleCommand ob cmd" and b: "batch_ok b" and M: "mirror T b (resting ob) {}"
    and fresh: "freshCommand T b cmd" and r: "ProcessCommand ob cmd b = Some (Inr (ob', b'))" and fit: "fits b'"
  shows "mirror T b' (resting ob') {}"
proof -
  let ?ob = "ob\<lparr>CurrentTime := GetTimestamp cmd\<rparr>"
  have ok': "book_ok ?ob" and M': "mirror T b (resting ?ob) {}" using ok M by (simp_all add: resting_def)
  show ?thesis
  proof (cases cmd)
    case (PlaceOrder c)
    have "admissible ?ob c" using adm PlaceOrder by (simp add: admissibleCommand_def)
    then show ?thesis
      using handlePlaceOrder_mirror [OF ok' _ b M' _ _ fit] r fresh PlaceOrder by (simp add: ProcessCommand_def)
  next
    case (Tick m n)
    then show ?thesis using handleTick_mirror [OF ok' M' b _ fit] r by (simp add: ProcessCommand_def)
  next
    case (HaltMarket m n)
    then show ?thesis using r M' by (auto simp: ProcessCommand_def handleHalt_def resting_def Let_def)
  qed
qed

end

end
