(* ===== verification/BatchNames.thy ===== *)
theory BatchNames
  imports BookRows
begin

text \<open>
  The orders a batch names: those it named before, the resting orders, and the order of the command.  An
  order id that none of them carries is new to the batch.
\<close>

section \<open>The orders a batch names\<close>

definition names :: "pendingBatch \<Rightarrow> u64 set" where
  "names b = dom (orderIndex b)"

lemma names_new [simp]: "names (newPendingBatch m pda t) = {}"
  by (simp add: names_def newPendingBatch_def)

lemma names_update [simp]:
  "names (addOrderUpdateForOrder b ord st q s r why) = insert (OrderID ord) (names b)"
  "names (addFill b m tk p q) = insert (OrderID tk) (insert (OrderID m) (names b))"
  "names (addDepthUpdate b side p v) = names b"
  by (simp_all add: names_def addOrderUpdateForOrder_as_ensure addFill_as_ensure ensureOrder_index(3) addDepthUpdate_def)

lemma names_command [simp]: "names (addOrderUpdateForCommand b c st q s r why) = insert (c_OrderID c) (names b)"
  by (auto simp: names_def addOrderUpdateForCommand_as_ensure ensureOrderFromCommand_def Let_def split: option.split)

lemma names_drop [simp]:
  "names (batch (removeAndRecycleMaker m st why s)) = insert (OrderID m) (names (batch s))"
  "taker (removeAndRecycleMaker m st why s) = taker s"
  by (simp_all add: removeAndRecycleMaker_def)

lemma names_fill [simp]:
  "names (batch (afterFill m p mq tk' s)) = insert (OrderID tk') (insert (OrderID m) (names (batch s)))"
  "taker (afterFill m p mq tk' s) = tk'"
  by (auto simp: afterFill_def fillMaker_def removeAndRecycleMaker_def Let_def)

text \<open>A batch names the orders it named before, the resting orders and the order of the command: \<open>K\<close> is any
  set that holds them.\<close>

definition namedLevel :: "u64 set \<Rightarrow> MemoryOrder list \<Rightarrow> matchState \<Rightarrow> bool" where
  "namedLevel K q s \<longleftrightarrow> OrderID ` set q \<subseteq> K \<and> OrderID (taker s) \<in> K \<and> names (batch s) \<subseteq> K"

lemma matchLevel_named:
  "namedLevel K q s \<Longrightarrow> namedLevel K (fst (matchLevel now p q s)) (snd (matchLevel now p q s))"
proof -
  have "namedLevel K q s \<longrightarrow> namedLevel K (fst (matchLevel now p q s)) (snd (matchLevel now p q s))"
    by (rule matchLevel_rule [of "\<lambda>q s r. namedLevel K q s \<longrightarrow> namedLevel K (fst r) (snd r)"])
      (auto simp: namedLevel_def dropExpired_def dropSelf_def dest!: takeFrom_same_order same_orderD(1))
  then show "namedLevel K q s \<Longrightarrow> namedLevel K (fst (matchLevel now p q s)) (snd (matchLevel now p q s))" by blast
qed

definition named :: "u64 set \<Rightarrow> sweepState \<Rightarrow> bool" where
  "named K s \<longleftrightarrow> OrderID ` sideOrders (sw_levels s) \<subseteq> K \<and> OrderID (sw_taker s) \<in> K \<and> names (sw_batch s) \<subseteq> K"

lemma sideOrders_sub: "set (levelQueue (arr p)) \<subseteq> sideOrders arr" "sideOrders (arr(p := l)) \<subseteq> sideOrders arr \<union> set (levelQueue l)"
  by (auto simp: sideOrders_def split: if_splits)

lemma matchAt_named:
  assumes "named K s"
  shows "named K (snd (matchAt now sd p (levelOf (sw_levels s p)) s))"
proof -
  let ?l = "levelOf (sw_levels s p)"
  obtain q r where qr: "matchLevel now p (Queue ?l) (startOf ?l s) = (q, r)" by (meson surj_pair)
  have "namedLevel K (Queue ?l) (startOf ?l s)"
    using assms sideOrders_sub(1) [of "sw_levels s" p] unfolding named_def namedLevel_def
    by (simp add: startOf_def levelQueue_levelOf) blast
  then have "namedLevel K q r" using matchLevel_named [of K "Queue ?l" "startOf ?l s" now p] by (simp add: qr)
  moreover have "sideOrders ((sw_levels s)(p := Some \<lparr>TotalVolume = vol r, Queue = q\<rparr>)) \<subseteq> sideOrders (sw_levels s) \<union> set q"
    using sideOrders_sub(2) [of "sw_levels s" p "Some \<lparr>TotalVolume = vol r, Queue = q\<rparr>"] by simp
  ultimately show ?thesis
    using assms unfolding named_def namedLevel_def by (simp add: matchAt_split [OF qr]) blast
qed

lemma asksLoop_named: "asksLoop now t s = Some r \<Longrightarrow> named K s \<longrightarrow> named K (snd r)"
  by (erule asksLoop.raw_induct [rotated]) (auto split: if_splits simp: matchAt_named)

lemma bidsLoop_named: "bidsLoop now t s = Some r \<Longrightarrow> named K s \<longrightarrow> named K (snd r)"
  by (erule bidsLoop.raw_induct [rotated]) (auto split: if_splits simp: matchAt_named)

lemma matchAsks_named:
  assumes "matchAsks ob tk b = Some (Inr (ob', tk', b'))" "OrderID ` resting ob \<subseteq> K" "OrderID tk \<in> K" "names b \<subseteq> K"
  shows "OrderID tk' \<in> K \<and> names b' \<subseteq> K \<and> OrderID ` resting ob' \<subseteq> K"
proof -
  let ?s = "\<lparr>sw_levels = Asks ob, sw_taker = tk, sw_ids = ob_Orders ob, sw_batch = b\<rparr>"
  obtain t r where "asksLoop (CurrentTime ob) t ?s = Some r" "tk' = sw_taker (snd r)" "b' = sw_batch (snd r)"
    "Asks ob' = sw_levels (snd r)" "Bids ob' = Bids ob"
    using assms(1) by (fastforce simp: matchAsks_def updateBestAsk_def Let_def split: option.splits if_splits)
  moreover have "named K ?s" using assms(2-4) by (auto simp: named_def resting_def)
  ultimately show ?thesis using asksLoop_named [of "CurrentTime ob" t ?s r K] assms(2) by (auto simp: named_def resting_def)
qed

lemma matchBids_named:
  assumes "matchBids ob tk b = Some (Inr (ob', tk', b'))" "OrderID ` resting ob \<subseteq> K" "OrderID tk \<in> K" "names b \<subseteq> K"
  shows "OrderID tk' \<in> K \<and> names b' \<subseteq> K \<and> OrderID ` resting ob' \<subseteq> K"
proof -
  let ?s = "\<lparr>sw_levels = Bids ob, sw_taker = tk, sw_ids = ob_Orders ob, sw_batch = b\<rparr>"
  obtain t r where "bidsLoop (CurrentTime ob) t ?s = Some r" "tk' = sw_taker (snd r)" "b' = sw_batch (snd r)"
    "Bids ob' = sw_levels (snd r)" "Asks ob' = Asks ob"
    using assms(1) by (fastforce simp: matchBids_def updateBestBid_def Let_def split: option.splits if_splits)
  moreover have "named K ?s" using assms(2-4) by (auto simp: named_def resting_def)
  ultimately show ?thesis using bidsLoop_named [of "CurrentTime ob" t ?s r K] assms(2) by (auto simp: named_def resting_def)
qed

lemma resting_link_sub: "OrderID ` resting (linkOrder ob tk) \<subseteq> insert (OrderID tk) (OrderID ` resting ob)"
  by (auto simp: resting_def linkOrder_def Let_def sideOrders_upd enqueue_def sideLevel_def levelQueue_levelOf
      sideOrders_at [of "Bids ob" "PriceTick tk"] sideOrders_at [of "Asks ob" "PriceTick tk"])

lemma finishTaker_named:
  assumes "finishTaker ob tk b = Inr (ob', b')"
  shows "ob' = ob \<or> ob' = linkOrder ob tk" "names b' = insert (OrderID tk) (names b)"
proof -
  have "(ob' = ob \<or> ob' = linkOrder ob tk) \<and> names b' = insert (OrderID tk) (names b)"
  proof (cases "IsFilled tk \<or> OrderType tk = OrderTypeMarket")
    case True
    then show ?thesis using assms by (auto simp: finishTaker_def split: if_splits)
  next
    case False
    then have "addOrderToBook ob tk b = Inr (ob', b')" using assms by (simp add: finishTaker_def)
    then show ?thesis unfolding addOrderToBook_def Let_def by (cases "100 \<le> PriceTick tk") (simp_all, metis names_update(1,3))
  qed
  then show "ob' = ob \<or> ob' = linkOrder ob tk" "names b' = insert (OrderID tk) (names b)" by blast+
qed

lemma sweepQueue_named:
  "OrderID ` set q \<subseteq> K \<Longrightarrow> names (batch s) \<subseteq> K \<Longrightarrow> names (batch (snd (sweepQueue now q s))) \<subseteq> K"
  by (induction now q s rule: sweepQueue.induct) auto

lemma sweepQueue_sub: "set (fst (sweepQueue now q s)) \<subseteq> set q"
  by (induction now q s rule: sweepQueue.induct) auto

lemma sweepLevelO1_named:
  assumes "sweepLevelO1 now (arr p) p sd S b = (l', S', b', removed)" "OrderID ` sideOrders arr \<subseteq> K" "names b \<subseteq> K"
  shows "names b' \<subseteq> K \<and> sideOrders (arr(p := l')) \<subseteq> sideOrders arr"
proof (cases "levelQueue (arr p) = []")
  case True
  then have "l' = arr p" "b' = b" using assms(1) by (auto simp: sweepLevelO1_def levelQueue_def split: option.splits)
  then show ?thesis using assms(3) by (simp add: fun_upd_triv)
next
  case False
  then obtain l where l: "arr p = Some l" "Queue l \<noteq> []" by (cases "arr p") auto
  let ?r = "sweepQueue now (Queue l) \<lparr>taker = zeroOrder, vol = TotalVolume l, ids = S, batch = b\<rparr>"
  have r: "levelQueue l' = fst ?r" "names b' = names (batch (snd ?r))"
    using assms(1) l by (auto simp: sweepLevelO1_def Let_def case_prod_beta)
  have q: "set (Queue l) \<subseteq> sideOrders arr" using sideOrders_sub(1) [of arr p] l(1) by simp
  then have "names (batch (snd ?r)) \<subseteq> K" using assms(2,3) by (intro sweepQueue_named) auto
  moreover have "set (levelQueue l') \<subseteq> sideOrders arr" unfolding r(1) using sweepQueue_sub q by (rule subset_trans)
  ultimately show ?thesis using r(2) sideOrders_sub(2) [of arr p l'] by auto
qed

lemma tickPrice_named:
  assumes "tickPrice now p (ob, b, ch) = (ob', b', ch')" "OrderID ` resting ob \<subseteq> K" "names b \<subseteq> K"
  shows "names b' \<subseteq> K \<and> resting ob' \<subseteq> resting ob"
proof -
  obtain bl S1 b1 rb where B: "sweepLevelO1 now (Bids ob p) p SideBuy (ob_Orders ob) b = (bl, S1, b1, rb)"
    by (metis prod_cases4)
  obtain al S2 b2 ra where A: "sweepLevelO1 now (Asks ob p) p SideSell S1 b1 = (al, S2, b2, ra)"
    by (metis prod_cases4)
  have "names b1 \<subseteq> K \<and> sideOrders ((Bids ob)(p := bl)) \<subseteq> sideOrders (Bids ob)"
    using assms(2,3) by (intro sweepLevelO1_named [of now "Bids ob" p SideBuy "ob_Orders ob" b bl S1 b1 rb K]) (auto simp: resting_def B)
  moreover from this have "names b2 \<subseteq> K \<and> sideOrders ((Asks ob)(p := al)) \<subseteq> sideOrders (Asks ob)"
    using assms(2) by (intro sweepLevelO1_named [of now "Asks ob" p SideSell S1 b1 al S2 b2 ra K]) (auto simp: resting_def A)
  ultimately show ?thesis using assms(1) A B by (auto simp: tickPrice_def resting_def)
qed

lemma handleTick_named:
  assumes "handleTick ob now b = (ob', b')" "OrderID ` resting ob \<subseteq> K" "names b \<subseteq> K"
  shows "names b' \<subseteq> K \<and> OrderID ` resting ob' \<subseteq> K"
proof -
  have F: "names b1 \<subseteq> K \<and> OrderID ` resting ob1 \<subseteq> K"
    if "fold (tickPrice now) ps (ob0, b0, ch0) = (ob1, b1, ch1)" "OrderID ` resting ob0 \<subseteq> K" "names b0 \<subseteq> K" for ps ob0 b0 ch0 ob1 b1 ch1
    using that
  proof (induction ps arbitrary: ob0 b0 ch0)
    case (Cons p ps)
    obtain ob2 b2 ch2 where t: "tickPrice now p (ob0, b0, ch0) = (ob2, b2, ch2)" by (metis prod_cases3)
    have n: "names b2 \<subseteq> K \<and> resting ob2 \<subseteq> resting ob0" using tickPrice_named [OF t] Cons.prems(2,3) by blast
    then have "OrderID ` resting ob2 \<subseteq> K" using Cons.prems(2) by blast
    then show ?case using Cons.IH [of ob2 b2 ch2] Cons.prems(1) t n by simp
  qed simp
  obtain ob1 b1 ch where f: "fold (tickPrice now) (map of_nat [1 ..< 100]) (ob\<lparr>CurrentTime := now\<rparr>, b, False) = (ob1, b1, ch)"
    by (metis prod_cases3)
  have "b' = b1" "resting ob' = resting ob1"
    using assms(1) f by (auto simp: handleTick_def resting_def updateBestAsk_def updateBestBid_def split: if_splits)
  moreover have "OrderID ` resting (ob\<lparr>CurrentTime := now\<rparr>) \<subseteq> K" using assms(2) by (simp add: resting_def)
  ultimately show ?thesis using F [OF f] assms(3) by simp
qed

definition commandIds :: "Command \<Rightarrow> u64 set" where
  "commandIds cmd = (case cmd of PlaceOrder c \<Rightarrow> {c_OrderID c} | _ \<Rightarrow> {})"

lemma ProcessCommand_named:
  assumes "ProcessCommand ob cmd b = Some (Inr (ob', b'))" "OrderID ` resting ob \<subseteq> K" "names b \<subseteq> K" "commandIds cmd \<subseteq> K"
  shows "names b' \<subseteq> K \<and> OrderID ` resting ob' \<subseteq> K"
proof -
  let ?ob = "ob\<lparr>CurrentTime := GetTimestamp cmd\<rparr>"
  have r: "OrderID ` resting ?ob \<subseteq> K" using assms(2) by (simp add: resting_def)
  show ?thesis
  proof (cases cmd)
    case (PlaceOrder c)
    have k: "c_OrderID c \<in> K" using assms(4) PlaceOrder by (simp add: commandIds_def)
    have h: "handlePlaceOrder ?ob c b = Some (Inr (ob', b'))" using assms(1) PlaceOrder by (simp add: ProcessCommand_def)
    show ?thesis
    proof (cases "IsActive ob")
      case False
      then have "ob' = ?ob" "names b' = insert (c_OrderID c) (names b)" using h by (auto simp: handlePlaceOrder_def)
      then show ?thesis using assms(3) k r by simp
    next
      case True
      then obtain ob1 tk1 b1 where m: "(if c_Side c = SideBuy then matchAsks ?ob (orderFromCmd c) b else matchBids ?ob (orderFromCmd c) b) =
          Some (Inr (ob1, tk1, b1))" and f: "finishTaker ob1 tk1 b1 = Inr (ob', b')"
        using h by (auto simp: handlePlaceOrder_def split: option.splits sum.splits)
      have k': "OrderID (orderFromCmd c) \<in> K" using k by simp
      have "OrderID tk1 \<in> K \<and> names b1 \<subseteq> K \<and> OrderID ` resting ob1 \<subseteq> K"
      proof (cases "c_Side c = SideBuy")
        case True
        then have "matchAsks ?ob (orderFromCmd c) b = Some (Inr (ob1, tk1, b1))" using m by simp
        then show ?thesis by (rule matchAsks_named [OF _ r k' assms(3)])
      next
        case False
        then have "matchBids ?ob (orderFromCmd c) b = Some (Inr (ob1, tk1, b1))" using m by simp
        then show ?thesis by (rule matchBids_named [OF _ r k' assms(3)])
      qed
      then have k1: "OrderID tk1 \<in> K" "names b1 \<subseteq> K" "OrderID ` resting ob1 \<subseteq> K" by blast+
      have l: "OrderID ` resting (linkOrder ob1 tk1) \<subseteq> K"
        by (rule subset_trans [OF resting_link_sub]) (simp add: k1)
      have "names b' \<subseteq> K" unfolding finishTaker_named(2) [OF f] by (simp add: k1)
      from finishTaker_named(1) [OF f] show ?thesis
      proof
        assume "ob' = ob1"
        with k1(3) \<open>names b' \<subseteq> K\<close> show ?thesis by simp
      next
        assume "ob' = linkOrder ob1 tk1"
        with l \<open>names b' \<subseteq> K\<close> show ?thesis by simp
      qed
    qed
  next
    case (Tick m n)
    then show ?thesis using handleTick_named [OF _ r assms(3)] assms(1) by (auto simp: ProcessCommand_def)
  next
    case (HaltMarket m n)
    then show ?thesis
      using assms(1,3) r by (cases "IsActive ob") (auto simp: ProcessCommand_def handleHalt_def resting_def Let_def)
  qed
qed

lemma entry_named: "entries_ok b \<Longrightarrow> i \<notin> names b \<Longrightarrow> entryFor b i = None"
  using index_entry [of b i] by (simp add: names_def domIff)

lemma fate_named:
  assumes "batch_ok b" "i \<notin> names b"
  shows "fateOf b i = None"
proof -
  have "m_OrderID (ev_Orders (event b) ! unat (u_OrderIndex u)) \<in> names b" if "u \<in> set (OrderUpdates (event b))" for u
    using assms(1) that by (auto simp: batch_ok_def entries_ok_def names_def)
  then have "i \<notin> fst ` set (fates b)" using assms(2) by (auto simp: fates_def fateOfUpdate_def)
  then show ?thesis by (simp add: fateOf_def map_of_eq_None_iff)
qed

end
