(* ===== verification/Projection.thy ===== *)
theory Projection
  imports BookDepth BatchNames MatcherProps
begin

text \<open>
  Read models of the matcher.  A read model applies the market deltas an engine publishes, in their order.
  The locale \<open>projection\<close> says what it has to do with one batch; its lemmas show that the read model and the
  engine's pending batch together follow the book through every iteration of the engine, with failed
  publications and with batches published twice.  The interpretations are the order table of the writer and
  the depth views.
\<close>

section \<open>What an engine publishes\<close>

definition deltas :: "MatcherOutput list \<Rightarrow> MatchBatchEvent list" where
  "deltas out = concat (map (\<lambda>x. case x of MarketDelta k ev \<Rightarrow> [ev] | _ \<Rightarrow> []) out)"

lemma deltas_append [simp]: "deltas (xs @ ys) = deltas xs @ deltas ys" "deltas [] = []"
  by (simp_all add: deltas_def)

lemma deltas_acks [simp]: "deltas (ackCommandWrappers ws) = []"
  by (auto simp: deltas_def ackCommandWrappers_def concat_eq_Nil_conv split: option.splits)

lemma deltas_releases [simp]: "deltas (publishOrderReleasedEvents ev) = []"
  by (auto simp: deltas_def publishOrderReleasedEvents_def concat_eq_Nil_conv split: option.splits)

lemma publish_deltas:
  assumes "publishMatcherOutputs pub ev = (r, out)"
    "Fills ev \<noteq> [] \<or> OrderUpdates ev \<noteq> [] \<or> DepthUpdates ev \<noteq> []"
  shows "deltas out = [ev] \<or> (r = None \<and> deltas out = [])"
  using assms
  by (auto simp: publishMatcherOutputs_def publishMarketDelta_def publishMatchExecution_def deltas_def [of "_ # _"]
      split: option.splits if_splits simp flip: deltas_def)

lemma freeze_sel [simp]:
  "ev_Orders (freeze iter b now) = ev_Orders (event b)" "OrderUpdates (freeze iter b now) = OrderUpdates (event b)"
  "DepthUpdates (freeze iter b now) = DepthUpdates (event b)" "Fills (freeze iter b now) = Fills (event b)"
  "ev_MarketID (freeze iter b now) = ev_MarketID (event b)" "SchemaVersion (freeze iter b now) = SchemaVersion (event b)"
  by (simp_all add: freeze_def)

text \<open>A flush publishes the pending batch, if anything, and starts a fresh one when it succeeded.\<close>

lemma flush_effect:
  assumes f: "flushActorBatch iter assemble m a now pub = (ok, m', a', out)"
  shows "(\<exists>s. a_Book a' = (a_Book a)\<lparr>LastProcessedSeq := s\<rparr>) \<and> a_MarketID a' = a_MarketID a \<and> a_MarketPDA a' = a_MarketPDA a"
    "Pending a' = Pending a \<and> (deltas out = [] \<or> (\<exists>b. Pending a = Some b \<and> deltas out = [freeze iter b now])) \<or>
     (\<exists>b. Pending a = Some b \<and> deltas out = [freeze iter b now] \<and>
        Pending a' = Some (newPendingBatch (a_MarketID a) (a_MarketPDA a) now))"
proof -
  have same: "\<exists>s. a_Book a = (a_Book a)\<lparr>LastProcessedSeq := s\<rparr>" by (intro exI [of _ "LastProcessedSeq (a_Book a)"]) simp
  show "(\<exists>s. a_Book a' = (a_Book a)\<lparr>LastProcessedSeq := s\<rparr>) \<and> a_MarketID a' = a_MarketID a \<and> a_MarketPDA a' = a_MarketPDA a"
    using flush_cases [OF f] same by (auto simp: advanced_def)
  show "Pending a' = Pending a \<and> (deltas out = [] \<or> (\<exists>b. Pending a = Some b \<and> deltas out = [freeze iter b now])) \<or>
     (\<exists>b. Pending a = Some b \<and> deltas out = [freeze iter b now] \<and>
        Pending a' = Some (newPendingBatch (a_MarketID a) (a_MarketPDA a) now))"
  proof (cases "Pending a")
    case None
    then show ?thesis using f by (auto simp: flushActorBatch_def)
  next
    case (Some b)
    obtain limit m1 where l: "maxFillsForBatch assemble m b = (limit, m1)" by fastforce
    obtain r out1 where p: "publishMatcherOutputs pub (freeze iter b now) = (r, out1)" by fastforce
    have pay: "shouldFlush b now c lim True \<Longrightarrow> Fills (freeze iter b now) \<noteq> [] \<or> OrderUpdates (freeze iter b now) \<noteq> [] \<or>
        DepthUpdates (freeze iter b now) \<noteq> []" for c lim
      by (simp add: shouldFlush_def hasPayload_def split: if_splits)
    show ?thesis
      using f Some p publish_deltas [OF p pay]
      by (cases r) (auto simp: flushActorBatch_def stageCheckpoint_def l Let_def split: if_splits)
  qed
qed

lemma resting_seq [simp]: "resting (ob\<lparr>LastProcessedSeq := s\<rparr>) = resting ob"
  by (simp add: resting_def)

lemma include_frame [simp]:
  "ev_Orders (event (includeWrapper b w t)) = ev_Orders (event b)" "OrderUpdates (event (includeWrapper b w t)) = OrderUpdates (event b)"
  "DepthUpdates (event (includeWrapper b w t)) = DepthUpdates (event b)" "Fills (event (includeWrapper b w t)) = Fills (event b)"
  "orderIndex (includeWrapper b w t) = orderIndex b" "ev_MarketID (event (includeWrapper b w t)) = ev_MarketID (event b)"
  "SchemaVersion (event (includeWrapper b w t)) = SchemaVersion (event b)"
  by (auto simp: includeWrapper_def Let_def split: Command.split)

lemma include_batch_ok [simp]: "batch_ok (includeWrapper b w t) = batch_ok b" "fits (includeWrapper b w t) = fits b"
  by (simp_all add: batch_ok_def entries_ok_def fill_refs_ok_def fits_def)

section \<open>Runs of a market\<close>

text \<open>An actor with the ids used so far and the deltas published so far.  The engine loop takes its inputs; a
  command that is not a duplicate is admissible and an order carries an id not used before.  The tick loop
  publishes a batch of its own, whatever is pending, and does not repeat it when the publication fails.
  The flag records what a read model cannot follow: a tick while the pending batch held something, a tick
  whose batch did not arrive, a batch with more than 65536 orders, the range of its indices.\<close>

type_synonym marketPoint = "MarketActor \<times> u64 set \<times> MatchBatchEvent list"

definition pendingOf :: "MarketActor \<Rightarrow> pendingBatch" where
  "pendingOf a = (case Pending a of None \<Rightarrow> newPendingBatch (a_MarketID a) (a_MarketPDA a) 0 | Some b \<Rightarrow> b)"

lemma pendingOf_same:
  "Pending a' = Pending a \<Longrightarrow> a_MarketID a' = a_MarketID a \<Longrightarrow> a_MarketPDA a' = a_MarketPDA a \<Longrightarrow> pendingOf a' = pendingOf a"
  by (cases "Pending a") (simp_all add: pendingOf_def)

definition holdsNothing :: "pendingBatch \<Rightarrow> bool" where
  "holdsNothing b \<longleftrightarrow> ev_Orders (event b) = [] \<and> Fills (event b) = [] \<and> OrderUpdates (event b) = [] \<and> DepthUpdates (event b) = []"

definition commandsOf :: "MarketActor \<Rightarrow> EngineInput \<Rightarrow> Command list" where
  "commandsOf a inp = (case inp of Received w t1 t2 t3 t4 pub \<Rightarrow> if isDuplicate a w then [] else [w_Cmd w] | _ \<Rightarrow> [])"

definition newOrder :: "(MemoryOrder \<Rightarrow> bool) \<Rightarrow> u64 set \<Rightarrow> Command \<Rightarrow> bool" where
  "newOrder typed K cmd = (case cmd of PlaceOrder c \<Rightarrow> c_OrderID c \<notin> K \<and> typed (orderFromCmd c) | _ \<Rightarrow> True)"

definition roomy :: "MarketActor \<Rightarrow> MatcherOutput list \<Rightarrow> bool" where
  "roomy a out \<longleftrightarrow> (\<forall>ev \<in> set (deltas out). length (ev_Orders ev) \<le> 65536) \<and> fits (pendingOf a)"

definition disturbing :: "MarketActor \<Rightarrow> u64 option \<Rightarrow> MatcherOutput list \<Rightarrow> bool" where
  "disturbing a r out \<longleftrightarrow> \<not> holdsNothing (pendingOf a) \<or> r = None \<and> deltas out = []"

inductive engineStep ::
  "(u64 set \<Rightarrow> u64 list) \<Rightarrow> assembler \<Rightarrow> (MemoryOrder \<Rightarrow> bool) \<Rightarrow> marketPoint \<times> bool \<Rightarrow> marketPoint \<times> bool \<Rightarrow> bool"
  for iter assemble typed where
  loop: "runMatcherEngine iter assemble m a inp = Some (Inr (m', a', out)) \<Longrightarrow>
     list_all (\<lambda>cmd. admissibleCommand (a_Book a) cmd \<and> newOrder typed K cmd) (commandsOf a inp) \<Longrightarrow>
     engineStep iter assemble typed ((a, K, evs), d)
       ((a', K \<union> (\<Union>cmd \<in> set (commandsOf a inp). commandIds cmd), evs @ deltas out), d \<or> \<not> roomy a' out)"
| tick: "tickActor iter a now t1 t2 pub = Some (Inr (r, a', out)) \<Longrightarrow>
     engineStep iter assemble typed ((a, K, evs), d) ((a', K, evs @ deltas out), d \<or> disturbing a r out \<or> \<not> roomy a' out)"

text \<open>The steps that leave the flag clear.\<close>

inductive marketStep ::
  "(u64 set \<Rightarrow> u64 list) \<Rightarrow> assembler \<Rightarrow> (MemoryOrder \<Rightarrow> bool) \<Rightarrow> marketPoint \<Rightarrow> marketPoint \<Rightarrow> bool"
  for iter assemble typed where
  loop: "runMatcherEngine iter assemble m a inp = Some (Inr (m', a', out)) \<Longrightarrow>
     list_all (\<lambda>cmd. admissibleCommand (a_Book a) cmd \<and> newOrder typed K cmd) (commandsOf a inp) \<Longrightarrow> roomy a' out \<Longrightarrow>
     marketStep iter assemble typed (a, K, evs) (a', K \<union> (\<Union>cmd \<in> set (commandsOf a inp). commandIds cmd), evs @ deltas out)"
| tick: "tickActor iter a now t1 t2 pub = Some (Inr (r, a', out)) \<Longrightarrow> holdsNothing (pendingOf a) \<Longrightarrow>
     r \<noteq> None \<or> deltas out \<noteq> [] \<Longrightarrow> roomy a' out \<Longrightarrow> marketStep iter assemble typed (a, K, evs) (a', K, evs @ deltas out)"

inductive_cases marketStep_elim: "marketStep iter assemble typed (a, K, evs) (a', K', evs')"

lemmas marketStep_cases [consumes 1, case_names loop tick] = marketStep_elim

lemma engineStep_clear:
  "engineStep iter assemble typed x y \<Longrightarrow> \<not> snd y \<Longrightarrow> \<not> snd x \<and> marketStep iter assemble typed (fst x) (fst y)"
  by (induction rule: engineStep.induct) (auto simp: disturbing_def intro: marketStep.intros)

lemma marketStep_clear: "marketStep iter assemble typed x y \<Longrightarrow> engineStep iter assemble typed (x, False) (y, False)"
proof (induction rule: marketStep.induct)
  case (loop m a inp m' a' out K evs)
  from engineStep.loop [OF loop(1,2), of evs False] loop(3) show ?case by simp
next
  case (tick a now t1 t2 pub r a' out K evs)
  have "\<not> disturbing a r out" using tick(2,3) by (auto simp: disturbing_def)
  with engineStep.tick [OF tick(1), of assemble typed K evs False] tick(4) show ?case by simp
qed

lemma engineRun_clear:
  assumes "(engineStep iter assemble typed)\<^sup>*\<^sup>* (p, d) (q, False)"
  shows "(marketStep iter assemble typed)\<^sup>*\<^sup>* p q"
proof -
  have "\<not> snd y \<Longrightarrow> (marketStep iter assemble typed)\<^sup>*\<^sup>* p (fst y)" if "(engineStep iter assemble typed)\<^sup>*\<^sup>* (p, d) y" for y
    using that by (induction rule: rtranclp_induct) (auto dest: engineStep_clear intro: rtranclp.rtrancl_into_rtrancl)
  from this [OF assms] show ?thesis by simp
qed

lemma marketRun_clear: "(marketStep iter assemble typed)\<^sup>*\<^sup>* p q \<Longrightarrow> (engineStep iter assemble typed)\<^sup>*\<^sup>* (p, False) (q, False)"
  by (induction rule: rtranclp_induct) (auto dest: marketStep_clear intro: rtranclp.rtrancl_into_rtrancl)

lemma marketRun_induct [consumes 1, case_names refl step]:
  assumes "(marketStep iter assemble typed)\<^sup>*\<^sup>* (a0, K0, evs0) (a, K, evs)" "P a0 K0 evs0"
    "\<And>a K evs a' K' evs'. P a K evs \<Longrightarrow> marketStep iter assemble typed (a, K, evs) (a', K', evs') \<Longrightarrow> P a' K' evs'"
  shows "P a K evs"
  using assms(1,2)
  by (induction "(a, K, evs)" arbitrary: a K evs rule: rtranclp_induct) (auto intro: assms(3))

text \<open>A tick that reports nothing lists no order.\<close>

definition spoken :: "pendingBatch \<Rightarrow> bool" where
  "spoken b \<longleftrightarrow> OrderUpdates (event b) \<noteq> [] \<or> (ev_Orders (event b) = [] \<and> Fills (event b) = [])"

lemma spoken_update [simp]: "spoken (addOrderUpdateForOrder b ord st q s r why)" "spoken (addDepthUpdate b sd p v) = spoken b"
  by (simp_all add: spoken_def addOrderUpdateForOrder_def pushOrderUpdate_def addDepthUpdate_def case_prod_beta Let_def)

lemma sweepQueue_spoken: "spoken (batch s) \<Longrightarrow> spoken (batch (snd (sweepQueue now q s)))"
  by (induction now q s rule: sweepQueue.induct) (simp_all add: removeAndRecycleMaker_def)

lemma tickPrice_spoken: "tickPrice now p (ob, b, ch) = (ob', b', ch') \<Longrightarrow> spoken b \<Longrightarrow> spoken b'"
  by (auto simp: tickPrice_def sweepLevelO1_def Let_def case_prod_beta sweepQueue_spoken split: option.splits if_splits)

lemma tick_payload:
  assumes "ProcessCommand ob (Tick k now) (newPendingBatch m pda t) = Some (Inr (ob', b))"
  shows "hasPayload b \<or> holdsNothing b"
proof -
  have F: "spoken b0 \<Longrightarrow> fold (tickPrice now) ps (ob0, b0, ch0) = (ob1, b1, ch1) \<Longrightarrow> spoken b1" for ps ob0 b0 ch0 ob1 b1 ch1
  proof (induction ps arbitrary: ob0 b0 ch0)
    case (Cons p ps)
    obtain ob2 b2 ch2 where t: "tickPrice now p (ob0, b0, ch0) = (ob2, b2, ch2)" by (metis prod_cases3)
    show ?case using Cons.IH [of b2 ob2 ch2] Cons.prems t tickPrice_spoken [OF t] by simp
  qed simp
  have "spoken (newPendingBatch m pda t)" by (simp add: spoken_def newPendingBatch_def)
  then have "spoken b" using assms F by (auto simp: ProcessCommand_def handleTick_def split: prod.splits if_splits)
  then show ?thesis by (auto simp: spoken_def hasPayload_def holdsNothing_def)
qed

section \<open>Read models\<close>

definition headed :: "u64 \<Rightarrow> pendingBatch \<Rightarrow> bool" where
  "headed k b \<longleftrightarrow> ev_MarketID (event b) = k \<and> SchemaVersion (event b) = 1"

text \<open>A read model with what it means to follow a book up to a batch that is not published yet.\<close>

locale projection =
  fixes market :: u64 and follows :: "'t \<Rightarrow> pendingBatch \<Rightarrow> FixedArrayOrderBook \<Rightarrow> bool"
    and known :: "'t \<Rightarrow> u64 set" and typed :: "MemoryOrder \<Rightarrow> bool" and project :: "MatchBatchEvent \<Rightarrow> 't \<Rightarrow> 't"
  assumes command: "book_ok ob \<Longrightarrow> admissibleCommand ob cmd \<Longrightarrow> batch_ok b \<Longrightarrow> newOrder typed (known T \<union> names b) cmd \<Longrightarrow>
      ProcessCommand ob cmd b = Some (Inr (ob', b')) \<Longrightarrow> fits b' \<Longrightarrow> follows T b ob \<Longrightarrow> follows T b' ob'"
    and same_batch: "follows T b ob \<Longrightarrow> ev_Orders (event b') = ev_Orders (event b) \<Longrightarrow>
      OrderUpdates (event b') = OrderUpdates (event b) \<Longrightarrow> DepthUpdates (event b') = DepthUpdates (event b) \<Longrightarrow> follows T b' ob"
    and same_book: "follows T b ob \<Longrightarrow> follows T b (ob\<lparr>LastProcessedSeq := s\<rparr>)"
    and published: "follows T b ob \<Longrightarrow> batch_ok b \<Longrightarrow> fits b \<Longrightarrow> headed market b \<Longrightarrow>
      follows (project (freeze iter b now) T) (newPendingBatch market pda t) ob"
    and republished: "follows T b ob \<Longrightarrow> batch_ok b \<Longrightarrow> fits b \<Longrightarrow> headed market b \<Longrightarrow>
      follows (project (freeze iter b now) T) b ob"
    and known_project: "batch_ok b \<Longrightarrow> known (project (freeze iter b now) T) \<subseteq> known T \<union> names b"
begin

definition tracks :: "MarketActor \<Rightarrow> u64 set \<Rightarrow> 't \<Rightarrow> bool" where
  "tracks a K T \<longleftrightarrow> a_MarketID a = market \<and> book_ok (a_Book a) \<and> batch_ok (pendingOf a) \<and> headed market (pendingOf a) \<and>
     OrderID ` resting (a_Book a) \<union> names (pendingOf a) \<union> known T \<subseteq> K \<and> follows T (pendingOf a) (a_Book a)"

lemma flush_tracks:
  assumes f: "flushActorBatch iter assemble m a now pub = (ok, m', a', out)" and t: "tracks a K T" and r: "roomy a' out"
  shows "tracks a' K (fold project (deltas out) T)"
proof -
  obtain s where b: "a_Book a' = (a_Book a)\<lparr>LastProcessedSeq := s\<rparr>"
    and k: "a_MarketID a' = a_MarketID a" "a_MarketPDA a' = a_MarketPDA a"
    using flush_effect(1) [OF f] by auto
  from flush_effect(2) [OF f] consider
      "pendingOf a' = pendingOf a" "deltas out = []"
    | p where "pendingOf a' = pendingOf a" "Pending a = Some p" "deltas out = [freeze iter p now]"
    | p where "Pending a = Some p" "deltas out = [freeze iter p now]" "pendingOf a' = newPendingBatch (a_MarketID a) (a_MarketPDA a) now"
    using pendingOf_same [OF _ k] by (auto simp: pendingOf_def k)
  then show ?thesis
  proof cases
    case 1
    then show ?thesis using t same_book [of T "pendingOf a" "a_Book a" s] by (simp add: tracks_def k b)
  next
    case (2 p)
    have p: "pendingOf a = p" using 2(2) by (simp add: pendingOf_def)
    have "fits p" using r 2(3) by (simp add: roomy_def fits_def)
    moreover have "batch_ok p" "headed market p" "follows T p (a_Book a)" using t p by (auto simp: tracks_def)
    ultimately show ?thesis
      using t 2 p same_book [OF republished, of T p "a_Book a" iter now s] known_project [of p iter now T]
      by (auto simp: tracks_def k b)
  next
    case (3 p)
    have p: "pendingOf a = p" using 3(1) by (simp add: pendingOf_def)
    have "fits p" using r 3(2) by (simp add: roomy_def fits_def)
    moreover have "batch_ok p" "headed market p" "follows T p (a_Book a)" "a_MarketID a = market" using t p by (auto simp: tracks_def)
    ultimately show ?thesis
      using t 3 p same_book [OF published, of T p "a_Book a" iter now "a_MarketPDA a" now s] known_project [of p iter now T]
      by (auto simp: tracks_def k b invs) (simp add: newPendingBatch_def headed_def)
  qed
qed

lemma fed_tracks:
  assumes f: "fed a w a1" and t: "tracks a K T" and adm: "admissibleCommand (a_Book a) (w_Cmd w)" "newOrder typed K (w_Cmd w)"
    and fit: "fits (pendingOf a1)"
  shows "tracks a1 (K \<union> commandIds (w_Cmd w)) T"
proof -
  obtain b0 t2 ob b where b0: "Pending a = Some b0 \<or> Pending a = None \<and> (\<exists>t1. b0 = newPendingBatch (a_MarketID a) (a_MarketPDA a) t1)"
    and P: "ProcessCommand (a_Book a) (w_Cmd w) (includeWrapper b0 w t2) = Some (Inr (ob, b))"
    and a1: "a1 = a\<lparr>a_Book := ob, Pending := Some b\<rparr>"
    using f unfolding fed_def by blast
  let ?b = "includeWrapper b0 w t2"
  have e: "ev_Orders (event b0) = ev_Orders (event (pendingOf a))" "OrderUpdates (event b0) = OrderUpdates (event (pendingOf a))"
    "DepthUpdates (event b0) = DepthUpdates (event (pendingOf a))" "names b0 = names (pendingOf a)" "headed market b0"
    using b0 t by (auto simp: pendingOf_def tracks_def newPendingBatch_def names_def headed_def)
  have e5: "batch_ok b0" using b0 t by (auto simp: pendingOf_def tracks_def newPendingBatch_ok)
  have b: "batch_ok ?b" "names ?b = names (pendingOf a)" using e5 e(4) by (simp_all add: names_def)
  have f: "follows T (pendingOf a) (a_Book a)" and ok: "book_ok (a_Book a)" using t by (simp_all add: tracks_def)
  have kn: "OrderID ` resting (a_Book a) \<subseteq> K" "names ?b \<subseteq> K" using t b(2) by (simp_all add: tracks_def)
  have fl: "follows T ?b (a_Book a)" by (rule same_batch [OF f]) (simp_all add: e(1-3))
  have n: "newOrder typed (known T \<union> names ?b) (w_Cmd w)"
    using adm(2) t b(2) by (auto simp: newOrder_def tracks_def split: Command.splits)
  have "follows T b ob"
    by (rule command [OF ok adm(1) b(1) n P _ fl]) (use fit in \<open>simp add: a1 pendingOf_def\<close>)
  moreover have "book_ok ob" "batch_ok b"
    using ProcessCommand_step [OF ok adm(1), of ?b] P b(1) fit by (auto simp: a1 pendingOf_def)
  moreover have "names b \<subseteq> K \<union> commandIds (w_Cmd w) \<and> OrderID ` resting ob \<subseteq> K \<union> commandIds (w_Cmd w)"
    by (rule ProcessCommand_named [OF P]) (use kn in \<open>simp_all add: le_supI1\<close>)
  moreover have "headed market b"
    using kept_ProcessCommand [OF P] e(5) by (simp add: kept_def source_of_def headed_def)
  ultimately show ?thesis using t by (auto simp: tracks_def a1 pendingOf_def)
qed

lemma step_tracks:
  assumes "marketStep iter assemble typed (a, K, evs) (a', K', evs')" "tracks a K (fold project evs T)"
  shows "tracks a' K' (fold project evs' T)"
  using assms(1)
proof (cases rule: marketStep_cases)
  case (loop m inp m' out)
  show ?thesis
  proof (cases inp)
    case (Received w t1 t2 t3 t4 pub)
    show ?thesis
    proof (cases "isDuplicate a w")
      case True
      then show ?thesis using loop Received assms(2) by (auto simp: runMatcherEngine_def commandsOf_def)
    next
      case False
      from engine_cases [OF loop(1) [unfolded Received] False] obtain a1 m1 ok where f: "fed a w a1"
        "(m', a', out) = (m1, a1, []) \<or> flushActorBatch iter assemble m1 a1 t4 pub = (ok, m', a', out)" by blast
      have c: "commandsOf a inp = [w_Cmd w]" using False Received by (simp add: commandsOf_def)
      then have adm: "admissibleCommand (a_Book a) (w_Cmd w)" "newOrder typed K (w_Cmd w)" using loop(2) by simp_all
      have "fits (pendingOf a1)"
      proof (cases "flushActorBatch iter assemble m1 a1 t4 pub = (ok, m', a', out)")
        case True
        then show ?thesis
          using flush_effect [OF True] pendingOf_same [of a' a1] loop(3) by (auto simp: roomy_def fits_def pendingOf_def [of a1])
      next
        case False
        then show ?thesis using f(2) loop(3) by (auto simp: roomy_def)
      qed
      then have "tracks a1 (K \<union> commandIds (w_Cmd w)) (fold project evs T)" using fed_tracks [OF f(1) assms(2) adm] by blast
      then show ?thesis using f(2) flush_tracks [of iter assemble m1 a1 t4 pub ok m' a' out] loop c by auto
    qed
  next
    case (ChannelClosed now pub)
    have "flushActorBatch iter assemble m a now pub = (fst (flushActorBatch iter assemble m a now pub), m', a', out)"
      using loop(1) ChannelClosed by (simp add: runMatcherEngine_def prod_eq_iff)
    from flush_tracks [OF this assms(2)] show ?thesis using loop ChannelClosed by (simp add: commandsOf_def)
  next
    case (TickerFired now pub)
    have "flushActorBatch iter assemble m a now pub = (fst (flushActorBatch iter assemble m a now pub), m', a', out)"
      using loop(1) TickerFired by (simp add: runMatcherEngine_def prod_eq_iff)
    from flush_tracks [OF this assms(2)] show ?thesis using loop TickerFired by (simp add: commandsOf_def)
  qed
next
  case (tick now t1 t2 pub r out)
  let ?T = "fold project evs T" and ?b0 = "newPendingBatch (a_MarketID a) (a_MarketPDA a) t1" and ?cmd = "Tick (a_MarketID a) now"
  have k: "a_MarketID a = market" using assms(2) by (simp add: tracks_def)
  obtain ob b where P: "ProcessCommand (a_Book a) ?cmd ?b0 = Some (Inr (ob, b))" and a': "a' = a\<lparr>a_Book := ob\<rparr>"
    and out: "if hasPayload b then publishMatcherOutputs pub (freeze iter b t2) = (r, out) else out = []"
    using tick(1) by (auto simp: tickActor_def Let_def case_prod_beta split: option.splits sum.splits if_splits)
  have p: "pendingOf a' = pendingOf a" by (rule pendingOf_same) (simp_all add: a')
  have adm: "admissibleCommand (a_Book a) ?cmd" "newOrder typed L ?cmd" for L by (simp_all add: admissibleCommand_def newOrder_def)
  have d: "deltas out = (if hasPayload b then [freeze iter b t2] else [])"
    using out tick(3) publish_deltas [of pub "freeze iter b t2" r out] by (auto simp: hasPayload_def split: if_splits)
  have f0: "follows ?T ?b0 (a_Book a)"
    by (rule same_batch [of ?T "pendingOf a"]) (use assms(2) tick(2) in \<open>simp_all add: tracks_def holdsNothing_def newPendingBatch_def\<close>)
  have b0: "batch_ok ?b0" by (simp add: invs)
  have no: "hasPayload b \<or> holdsNothing b" by (rule tick_payload [OF P])
  have fit: "fits b" using tick(4) d no by (auto simp: roomy_def fits_def holdsNothing_def)
  have fo: "follows ?T b ob"
    by (rule command [OF _ adm(1) b0 adm(2) P fit f0]) (use assms(2) in \<open>simp add: tracks_def\<close>)
  have ok: "book_ok ob" "batch_ok b"
    using ProcessCommand_step [of "a_Book a" ?cmd ?b0] P assms(2) adm(1) b0 fit by (auto simp: tracks_def)
  have n: "names b \<subseteq> K \<and> OrderID ` resting ob \<subseteq> K"
    using assms(2) by (intro ProcessCommand_named [OF P]) (auto simp: tracks_def commandIds_def)
  have mk: "headed market b"
    using kept_ProcessCommand [OF P] k by (simp add: kept_def source_of_def headed_def newPendingBatch_def)
  have "follows (fold project evs' T) (pendingOf a) ob"
  proof (cases "hasPayload b")
    case True
    have "follows (project (freeze iter b t2) ?T) (newPendingBatch market (a_MarketPDA a) t1) ob"
      by (rule published [OF fo ok(2) fit mk])
    then have "follows (project (freeze iter b t2) ?T) (pendingOf a) ob"
      by (rule same_batch) (use tick(2) in \<open>simp_all add: holdsNothing_def newPendingBatch_def\<close>)
    then show ?thesis using tick d True by simp
  next
    case False
    then show ?thesis
      using tick d no same_batch [OF fo, of "pendingOf a"] by (auto simp: holdsNothing_def)
  qed
  moreover have "known (fold project evs' T) \<subseteq> K"
    using known_project [OF ok(2), of iter t2 ?T] n assms(2) tick d by (auto simp: tracks_def split: if_splits)
  ultimately show ?thesis using assms(2) ok(1) n tick(5,6) a' p by (auto simp: tracks_def)
qed

lemma run_tracks:
  assumes "(marketStep iter assemble typed)\<^sup>*\<^sup>* (a0, K0, []) (a, K, evs)" "tracks a0 K0 T"
  shows "tracks a K (fold project evs T)"
  using assms(1) by (rule marketRun_induct) (use assms(2) step_tracks in \<open>auto\<close>)

end

end
