(* ===== verification/ReadModels.thy ===== *)
theory ReadModels
  imports Projection
begin

text \<open>
  Two kinds of read model that follow a book: the tables of orders of \<open>BookRows\<close> and the views of the depth.
\<close>

section \<open>From an idle actor\<close>

text \<open>An actor as it is created or recovered: nothing is pending.  When a run has left nothing pending either,
  what was published says everything.\<close>

definition idle :: "u64 \<Rightarrow> MarketActor \<Rightarrow> u64 set \<Rightarrow> bool" where
  "idle k a K \<longleftrightarrow> a_MarketID a = k \<and> book_ok (a_Book a) \<and> ob_Orders (a_Book a) \<subseteq> K \<and>
     (Pending a = None \<or> (\<exists>t. Pending a = Some (newPendingBatch k (a_MarketPDA a) t)))"

context projection
begin

lemma idle_tracks:
  assumes "idle market a K" "known T \<subseteq> K" "follows T (newPendingBatch market (a_MarketPDA a) 0) (a_Book a)"
  shows "tracks a K T"
proof -
  obtain t where p: "pendingOf a = newPendingBatch market (a_MarketPDA a) t"
    using assms(1) by (auto simp: idle_def pendingOf_def)
  have "follows T (pendingOf a) (a_Book a)"
    by (rule same_batch [OF assms(3)]) (simp_all add: p newPendingBatch_def)
  then show ?thesis
    using assms(1,2) resting_ids [of "a_Book a"] by (auto simp: tracks_def idle_def p headed_def newPendingBatch_ok) (simp_all add: newPendingBatch_def)
qed

lemma run_drained:
  assumes "(marketStep iter assemble typed)\<^sup>*\<^sup>* (a0, K0, []) (a, K, evs)" "idle market a0 K0" "known T \<subseteq> K0"
    "follows T (newPendingBatch market (a_MarketPDA a0) 0) (a_Book a0)" "holdsNothing (pendingOf a)"
  shows "follows (fold project evs T) (newPendingBatch market pda t) (a_Book a) \<and> book_ok (a_Book a)"
proof -
  have t: "tracks a K (fold project evs T)" using run_tracks [OF assms(1) idle_tracks [OF assms(2-4)]] .
  then have f: "follows (fold project evs T) (pendingOf a) (a_Book a)" by (simp add: tracks_def)
  have "follows (fold project evs T) (newPendingBatch market pda t) (a_Book a)"
    by (rule same_batch [OF f]) (use assms(5) in \<open>simp_all add: holdsNothing_def newPendingBatch_def\<close>)
  then show ?thesis using t by (simp add: tracks_def)
qed

end

section \<open>Order tables are read models\<close>

text \<open>A published event, read as a batch.\<close>

definition batchOf :: "MatchBatchEvent \<Rightarrow> pendingBatch" where
  "batchOf ev = (newPendingBatch 0 [] 0)\<lparr>event := ev\<rparr>"

lemma event_batchOf [simp]: "event (batchOf ev) = ev"
  by (simp add: batchOf_def)

lemma says_cong:
  assumes "ev_Orders (event b') = ev_Orders (event b)" "OrderUpdates (event b') = OrderUpdates (event b)"
  shows "fateOf b' = fateOf b" "entryFor b' = entryFor b"
proof -
  have "fateOfUpdate b' = fateOfUpdate b" by (rule ext) (simp add: fateOfUpdate_def assms(1))
  then show "fateOf b' = fateOf b" by (simp add: fateOf_def fates_def assms(2))
  show "entryFor b' = entryFor b" by (rule ext) (simp add: entryFor_def assms(1))
qed

lemma batchOf_freeze [simp]: "fateOf (batchOf (freeze iter b now)) = fateOf b" "entryFor (batchOf (freeze iter b now)) = entryFor b"
  by (rule says_cong; simp)+

locale order_table = order_rows rowOf describes live remaining settle typed
  for rowOf :: "MatchBatchEvent \<Rightarrow> MatchedOrder \<Rightarrow> 'r" and describes live remaining settle typed +
  fixes market :: u64
begin

definition storeBatch :: "MatchBatchEvent \<Rightarrow> (u64 \<rightharpoonup> 'r) \<Rightarrow> u64 \<rightharpoonup> 'r" where
  "storeBatch ev = tableAfter ev (batchOf ev)"

definition tableFollows :: "(u64 \<rightharpoonup> 'r) \<Rightarrow> pendingBatch \<Rightarrow> FixedArrayOrderBook \<Rightarrow> bool" where
  "tableFollows T b ob \<longleftrightarrow> mirror T b (resting ob) {}"

lemma mirror_cong:
  assumes "ev_Orders (event b') = ev_Orders (event b)" "OrderUpdates (event b') = OrderUpdates (event b)"
  shows "mirror T b' S X = mirror T b S X"
proof -
  have "fixedShown T b' m = fixedShown T b m" "shown T b' m = shown T b m" "gone T b' X i = gone T b X i" for m i
    by (simp_all add: fixedShown_def shown_def gone_def says_cong [OF assms] split: option.split)
  then show ?thesis by (simp add: mirror_def)
qed

lemma storeBatch_freeze: "storeBatch (freeze iter b now) T = tableAfter (freeze iter b now) b T"
  by (rule ext) (simp add: storeBatch_def tableAfter_def Let_def split: option.split)

lemma store_again:
  assumes "mirror T b S {}"
  shows "mirror (tableAfter ev b T) b S {}"
  unfolding mirror_def
proof (intro conjI ballI allI impI)
  have sh: "shows_orders (tableAfter ev b T) S" by (rule mirror_shows [OF assms])
  fix m assume m: "m \<in> S"
  then obtain r where r: "tableAfter ev b T (OrderID m) = Some r" "live r" "describes r m" "remaining r = (RemainingQty m, RemainingSpend m)"
    using sh by (auto simp: shows_orders_def)
  then show "fixedShown (tableAfter ev b T) b m" by (simp add: fixedShown_def)
  show "shown (tableAfter ev b T) b m"
    using assms m r by (auto simp: mirror_def shown_def split: option.splits)
next
  fix i assume "i \<notin> OrderID ` S"
  then have g: "gone T b {} i" using assms by (simp add: mirror_def)
  show "gone (tableAfter ev b T) b {} i"
  proof (cases "fateOf b i")
    case None
    then show ?thesis using g by (auto simp: gone_def tableAfter_def split: option.splits)
  next
    case (Some f)
    then show ?thesis using g by (simp add: gone_def)
  qed
qed

lemma storeBatch_known: "entries_ok b \<Longrightarrow> dom (storeBatch (freeze iter b now) T) \<subseteq> dom T \<union> names b"
  using entry_named by (fastforce simp: storeBatch_freeze tableAfter_def split: option.splits)

end

sublocale order_table \<subseteq> table: projection market tableFollows dom typed storeBatch
proof
  fix T ob cmd b ob' b'
  assume a: "book_ok ob" "admissibleCommand ob cmd" "batch_ok b" "newOrder typed (dom T \<union> names b) cmd"
    "ProcessCommand ob cmd b = Some (Inr (ob', b'))" "fits b'" "tableFollows T b ob"
  have "freshCommand T b cmd"
    using a(3,4) fate_named [of b] by (auto simp: freshCommand_def newOrder_def split: Command.split)
  then show "tableFollows T b' ob'"
    using ProcessCommand_mirror [OF a(1-3) _ _ a(5,6)] a(7) by (simp add: tableFollows_def)
next
  fix T ob and b b' :: pendingBatch
  assume "tableFollows T b ob" "ev_Orders (event b') = ev_Orders (event b)" "OrderUpdates (event b') = OrderUpdates (event b)"
  then show "tableFollows T b' ob" using mirror_cong [of b' b] by (simp add: tableFollows_def)
next
  fix T b ob s assume "tableFollows T b ob"
  then show "tableFollows T b (ob\<lparr>LastProcessedSeq := s\<rparr>)" by (simp add: tableFollows_def)
next
  fix T b ob iter now pda t
  assume "tableFollows T b ob"
  then show "tableFollows (storeBatch (freeze iter b now) T) (newPendingBatch market pda t) ob"
    unfolding tableFollows_def storeBatch_freeze by (intro mirror_new mirror_shows)
next
  fix T b ob iter now
  assume "tableFollows T b ob"
  then show "tableFollows (storeBatch (freeze iter b now) T) b ob"
    unfolding tableFollows_def storeBatch_freeze by (rule store_again)
next
  fix b iter now T assume "batch_ok b"
  then show "dom (storeBatch (freeze iter b now) T) \<subseteq> dom T \<union> names b"
    by (intro storeBatch_known) (simp add: batch_ok_def)
qed

section \<open>Depth views are read models\<close>

text \<open>A view of the depth looks volumes up and applies events; its ticks end at 100.\<close>

definition shownDepth :: "depths \<Rightarrow> depths" where
  "shownDepth v side p = (if p \<le> 100 then v side p else 0)"

lemma fold_putDepth_shown:
  "shownDepth v = shownDepth w \<Longrightarrow> shownDepth (fold putDepth us v) = shownDepth (fold putDepth us w)"
proof (induction us arbitrary: v w)
  case (Cons d us)
  have "v side p = w side p" if "p \<le> 100" for side p
    using fun_cong [OF fun_cong [OF Cons.prems], of side p] that by (simp add: shownDepth_def)
  then have "shownDepth (putDepth d v) = shownDepth (putDepth d w)"
    by (intro ext) (simp add: shownDepth_def putDepth_def)
  then have "shownDepth (fold putDepth us (putDepth d v)) = shownDepth (fold putDepth us (putDepth d w))" by (rule Cons.IH)
  then show ?case by simp
qed simp

lemma find_SomeD: "find P xs = Some x \<Longrightarrow> x \<in> set xs \<and> P x"
  by (induction xs) (auto split: if_splits)

text \<open>The last update of a level decides, so applying updates twice is applying them once.\<close>

lemma fold_putDepth_last:
  "fold putDepth us v side p =
    (case find (\<lambda>d. d_Side d = side \<and> d_PriceTick d = p) (rev us) of None \<Rightarrow> v side p | Some d \<Rightarrow> d_TotalVolume d)"
  by (induction us rule: rev_induct) (auto simp: putDepth_def)

lemma fold_putDepth_again: "fold putDepth us (fold putDepth us v) = fold putDepth us v"
  by (intro ext) (simp add: fold_putDepth_last split: option.split)

locale depth_view =
  fixes look :: "'t \<Rightarrow> depths" and viewBatch :: "MatchBatchEvent \<Rightarrow> 't \<Rightarrow> 't"
  assumes look_batch: "list_all labelled (DepthUpdates ev) \<Longrightarrow>
    shownDepth (look (viewBatch ev T)) = shownDepth (fold putDepth (DepthUpdates ev) (look T))"
begin

definition viewFollows :: "'t \<Rightarrow> pendingBatch \<Rightarrow> FixedArrayOrderBook \<Rightarrow> bool" where
  "viewFollows T b ob \<longleftrightarrow> (\<exists>v. shownDepth v = shownDepth (look T) \<and> depthAfter b v = Some (bookDepth ob))"

lemma view_published:
  assumes "viewFollows T b ob"
  shows "shownDepth (look (viewBatch (freeze iter b now) T)) = shownDepth (bookDepth ob)" "depthAfter b (bookDepth ob) = Some (bookDepth ob)"
proof -
  obtain v where v: "shownDepth v = shownDepth (look T)" "depthAfter b v = Some (bookDepth ob)"
    using assms by (auto simp: viewFollows_def)
  then have l: "list_all labelled (DepthUpdates (event b))" and f: "fold putDepth (DepthUpdates (event b)) v = bookDepth ob"
    by (simp_all add: depthAfter_def split: if_splits)
  have "shownDepth (look (viewBatch (freeze iter b now) T)) = shownDepth (fold putDepth (DepthUpdates (event b)) (look T))"
    using l by (simp add: look_batch)
  also have "\<dots> = shownDepth (bookDepth ob)"
    using fold_putDepth_shown [of "look T" v] v(1) f by simp
  finally show "shownDepth (look (viewBatch (freeze iter b now) T)) = shownDepth (bookDepth ob)" .
  show "depthAfter b (bookDepth ob) = Some (bookDepth ob)"
    using l f fold_putDepth_again [of "DepthUpdates (event b)" v] by (simp add: depthAfter_def)
qed

end

locale market_view = depth_view look viewBatch for look :: "'t \<Rightarrow> depths" and viewBatch +
  fixes market :: u64 and typed :: "MemoryOrder \<Rightarrow> bool"

sublocale market_view \<subseteq> view: projection market viewFollows "\<lambda>_. {}" typed viewBatch
proof
  fix T ob cmd b ob' b'
  assume "book_ok ob" "admissibleCommand ob cmd" "ProcessCommand ob cmd b = Some (Inr (ob', b'))" "viewFollows T b ob"
  then show "viewFollows T b' ob'" using ProcessCommand_depth by (fastforce simp: viewFollows_def)
next
  fix T ob and b b' :: pendingBatch
  assume "viewFollows T b ob" "DepthUpdates (event b') = DepthUpdates (event b)"
  then show "viewFollows T b' ob" using depthAfter_cong [of b' b] by (simp add: viewFollows_def)
next
  fix T b ob s assume "viewFollows T b ob"
  then show "viewFollows T b (ob\<lparr>LastProcessedSeq := s\<rparr>)" by (simp add: viewFollows_def bookDepth_def)
next
  fix T b ob iter now pda t
  assume "viewFollows T b ob"
  from view_published(1) [OF this, of iter now]
  show "viewFollows (viewBatch (freeze iter b now) T) (newPendingBatch market pda t) ob"
    unfolding viewFollows_def by (intro exI [of _ "bookDepth ob"]) simp
next
  fix T b ob iter now
  assume "viewFollows T b ob"
  from view_published(1) [OF this, of iter now] view_published(2) [OF this] show "viewFollows (viewBatch (freeze iter b now) T) b ob"
    unfolding viewFollows_def by (intro exI [of _ "bookDepth ob"]) simp
qed simp

end
