(* ===== verification/SampleRun.thy ===== *)
theory SampleRun
  imports ReadModels
begin

text \<open>
  A run of a market for the witnesses: a limit order is booked, and the flush ticker publishes it.
\<close>

definition demoCmd :: PlaceOrderCommand where "demoCmd = sampleCmd 11 ''buyer'' SideBuy 45 3"
definition demoOrder :: MemoryOrder where "demoOrder = orderFromCmd demoCmd"
definition demoBook :: FixedArrayOrderBook where "demoBook = (NewFixedArrayOrderBook 1)\<lparr>CurrentTime := 7\<rparr>"

lemma find_never [simp]: "find (\<lambda>_. False) xs = None"
  by (induction xs) simp_all

lemma demoOrder_sel:
  "\<not> IsFilled demoOrder" "OrderType demoOrder = OrderTypeLimit" "RemainingQty demoOrder = 3" "RemainingSpend demoOrder = 0"
  "Side demoOrder = SideBuy" "PriceTick demoOrder = 45" "OrderID demoOrder = 11" "CreatedCmdSeq demoOrder = 11"
  "OriginalAction demoOrder = SideBuy" "OriginalOutcome demoOrder = 0"
  by (simp_all add: demoOrder_def demoCmd_def IsFilled_def orderFromCmd_def InitFromCmd_def sampleCmd_def OrderTypeLimit_def
      OrderTypeMarket_def SideBuy_def SideSell_def)

lemma demo_place:
  "ProcessCommand (NewFixedArrayOrderBook 1) (PlaceOrder demoCmd) b =
     Some (Inr (linkOrder demoBook demoOrder, addDepthUpdate (addOrderUpdateForOrder b demoOrder ''new'' 3 0 0 []) SideBuy 45 3))"
proof -
  have e: "scanUp (Asks demoBook) 0 = 0" "scanUp (Asks demoBook) 1 = 0" "BestAskPrice demoBook = 0" "IsActive demoBook"
    by (simp_all add: demoBook_def NewFixedArrayOrderBook_def scanUp_def hasVolume_def)
  have q: "TotalVolume (enqueue demoOrder (sideLevel demoBook demoOrder)) = 3"
    by (simp add: demoOrder_sel enqueue_def sideLevel_def demoBook_def NewFixedArrayOrderBook_def levelOf_def emptyLevel_def)
  have u: "updateBestAsk demoBook 0 = demoBook" using e by (cases demoBook) (simp add: updateBestAsk_def)
  have d: "demoBook\<lparr>Asks := Asks demoBook, ob_Orders := ob_Orders demoBook\<rparr> = demoBook" by simp
  have m: "matchAsks demoBook demoOrder b = Some (Inr (demoBook, demoOrder, b))"
    by (simp add: matchAsks_def e Let_def asksLoop.simps u)
  have c: "(NewFixedArrayOrderBook 1)\<lparr>CurrentTime := c_Timestamp demoCmd\<rparr> = demoBook" "orderFromCmd demoCmd = demoOrder" "c_Side demoCmd = SideBuy"
    by (simp_all add: demoBook_def demoOrder_def demoCmd_def sampleCmd_def)
  show ?thesis
    using m e(4) q by (simp add: ProcessCommand_def handlePlaceOrder_def c finishTaker_def demoOrder_sel addOrderToBook_def
      OrderTypeLimit_def OrderTypeMarket_def)
qed

definition demoWrapper :: CommandWrapper where
  "demoWrapper = \<lparr>w_Cmd = PlaceOrder demoCmd, w_Msg = Some 1, w_SourceCmdSeq = 11\<rparr>"

definition demoActor :: MarketActor where "demoActor = NewMarketActor 1 ''m'' 0"

definition demoBatch :: pendingBatch where
  "demoBatch = addDepthUpdate (addOrderUpdateForOrder (includeWrapper (newPendingBatch 1 ''m'' 0) demoWrapper 0) demoOrder ''new'' 3 0 0 []) SideBuy 45 3"

lemma demoBatch_sel:
  "Fills (event demoBatch) = []" "length (ev_Orders (event demoBatch)) = 1" "OrderUpdates (event demoBatch) \<noteq> []"
  "sizeBytes demoBatch < 262144" "startedAt demoBatch = 0" "lastAddAt demoBatch = 0"
  by (simp_all add: demoBatch_def addDepthUpdate_def addOrderUpdateForOrder_def ensureOrder_def pushOrderUpdate_def includeWrapper_def
      newPendingBatch_def demoWrapper_def Let_def case_prod_beta demoCmd_def sampleCmd_def appendUniqueString_def)

lemma demo_manager: "batchConfig sampleManager0 = DefaultBatchConfig"
  by (simp add: sampleManager0_def NewMarketManager_def)

lemma demo_flush:
  assumes "0 < limit"
  shows "\<not> shouldFlush demoBatch 0 DefaultBatchConfig limit False" "shouldFlush demoBatch 20000000 DefaultBatchConfig limit True"
  using assms demoBatch_sel by (simp_all add: shouldFlush_def hasPayload_def DefaultBatchConfig_def)

lemma demo_steps:
  assumes ty: "typed demoOrder"
  obtains a evs where "(marketStep iter assemble typed)\<^sup>*\<^sup>* (demoActor, {}, []) (a, {11}, evs)" "length evs = 1"
    "holdsNothing (pendingOf a)" "a_Book a = (linkOrder demoBook demoOrder)\<lparr>LastProcessedSeq := LastProcessedSeq (a_Book a)\<rparr>"
proof -
  let ?m = sampleManager0 and ?inp = "Received demoWrapper 0 0 0 0 noPublishing"
  let ?a1 = "demoActor\<lparr>a_Book := linkOrder demoBook demoOrder, Pending := Some demoBatch\<rparr>"
  have book: "a_Book demoActor = NewFixedArrayOrderBook 1" "Pending demoActor = Some (newPendingBatch 1 ''m'' 0)"
    "a_MarketID demoActor = 1" "a_MarketPDA demoActor = ''m''"
    by (simp_all add: demoActor_def NewMarketActor_def)
  have nd: "\<not> isDuplicate demoActor demoWrapper"
    by (simp add: isDuplicate_def book demoWrapper_def NewFixedArrayOrderBook_def hasSeq_def newPendingBatch_def)
  have pos: "0 < fst (maxFillsForBatch assemble ?m b)" for b
    using maxFillsForBatch_range [of ?m assemble b] by (simp add: demo_manager DefaultBatchConfig_def)
  obtain limit c where l: "maxFillsForBatch assemble ?m demoBatch = (limit, ?m\<lparr>txEstimator := c\<rparr>)" "0 < limit"
    using maxFillsForBatch_frame [of assemble ?m demoBatch] pos [of demoBatch] by (metis prod.collapse)
  have w: "w_Cmd demoWrapper = PlaceOrder demoCmd" by (simp add: demoWrapper_def)
  have P: "ProcessCommand (NewFixedArrayOrderBook 1) (PlaceOrder demoCmd) (includeWrapper (newPendingBatch 1 ''m'' 0) demoWrapper 0) =
      Some (Inr (linkOrder demoBook demoOrder, demoBatch))"
    by (simp add: demo_place demoBatch_def)
  have s1: "runMatcherEngine iter assemble ?m demoActor ?inp = Some (Inr (?m\<lparr>txEstimator := c\<rparr>, ?a1, []))"
    using demo_flush(1) [OF l(2)] by (simp add: runMatcherEngine_def nd book w P l(1) demo_manager)
  have adm: "admissibleCommand (NewFixedArrayOrderBook 1) (PlaceOrder demoCmd)"
    by (simp add: admissibleCommand_def admissible_def demoCmd_def NewFixedArrayOrderBook_def sideLevel_def)
  have c1: "commandsOf demoActor ?inp = [PlaceOrder demoCmd]" using nd by (simp add: commandsOf_def demoWrapper_def)
  have id: "c_OrderID demoCmd = 11" "orderFromCmd demoCmd = demoOrder" by (simp_all add: demoCmd_def demoOrder_def)
  have "marketStep iter assemble typed (demoActor, {}, []) (?a1, {} \<union> (\<Union>cmd \<in> set (commandsOf demoActor ?inp). commandIds cmd), [] @ deltas [])"
    by (rule marketStep.loop [OF s1])
      (simp_all add: c1 book adm newOrder_def ty id roomy_def pendingOf_def fits_def demoBatch_sel)
  then have step1: "marketStep iter assemble typed (demoActor, {}, []) (?a1, {11}, [])" by (simp add: c1 commandIds_def id)
  obtain ok m' a out where f: "flushActorBatch iter assemble ?m ?a1 20000000 noPublishing = (ok, m', a, out)" by (metis prod_cases4)
  have pend: "Pending ?a1 = Some demoBatch" by simp
  obtain now where p: "Pending a = Some (newPendingBatch (a_MarketID ?a1) (a_MarketPDA ?a1) now)"
    using flush_happens [OF f pend] demo_flush(2) [OF pos [of demoBatch]] by (auto simp: demo_manager noPublishing_def)
  have "newPendingBatch (a_MarketID ?a1) (a_MarketPDA ?a1) now \<noteq> demoBatch"
    using demoBatch_sel(3) by (auto simp: newPendingBatch_def dest: arg_cong [where f = "\<lambda>b. OrderUpdates (event b)"])
  then have d: "deltas out = [freeze iter demoBatch 20000000]" using flush_effect(2) [OF f] p by auto
  have h: "holdsNothing (pendingOf a)" "fits (pendingOf a)" by (simp_all add: pendingOf_def p holdsNothing_def newPendingBatch_def fits_def)
  have s2: "runMatcherEngine iter assemble ?m ?a1 (TickerFired 20000000 noPublishing) = Some (Inr (m', a, out))"
    by (simp add: runMatcherEngine_def f)
  have "marketStep iter assemble typed (?a1, {11}, []) (a, {11} \<union> (\<Union>cmd \<in> set (commandsOf ?a1 (TickerFired 20000000 noPublishing)). commandIds cmd),
      [] @ deltas out)"
    by (rule marketStep.loop [OF s2]) (simp_all add: commandsOf_def roomy_def d h demoBatch_sel)
  then have step2: "marketStep iter assemble typed (?a1, {11}, []) (a, {11}, [freeze iter demoBatch 20000000])" by (simp add: commandsOf_def d)
  obtain s where "a_Book a = (a_Book ?a1)\<lparr>LastProcessedSeq := s\<rparr>" using flush_effect(1) [OF f] by blast
  then have bk: "a_Book a = (linkOrder demoBook demoOrder)\<lparr>LastProcessedSeq := LastProcessedSeq (a_Book a)\<rparr>" by simp
  have run: "(marketStep iter assemble typed)\<^sup>*\<^sup>* (demoActor, {}, []) (a, {11}, [freeze iter demoBatch 20000000])"
    using step1 step2 by (meson converse_rtranclp_into_rtranclp r_into_rtranclp)
  show thesis by (rule that [OF run _ h(1) bk]) simp
qed

lemma demo_idle: "idle 1 demoActor K"
  by (auto simp: idle_def demoActor_def NewMarketActor_def NewFixedArrayOrderBook_ok) (simp add: NewFixedArrayOrderBook_def)

lemma demo_resting:
  assumes "a_Book a = (linkOrder demoBook demoOrder)\<lparr>LastProcessedSeq := s\<rparr>"
  shows "resting (a_Book a) = {demoOrder}" "levelVolume (Bids (a_Book a)) 45 = 3" "levelVolume (Asks (a_Book a)) p = 0"
    "BestBidPrice (a_Book a) = 45" "BestAskPrice (a_Book a) = 0"
proof -
  have "resting demoBook = {}" by (simp add: resting_def sideOrders_def demoBook_def NewFixedArrayOrderBook_def)
  then show "resting (a_Book a) = {demoOrder}"
    using resting_link [of demoOrder demoBook] by (simp add: assms demoOrder_sel SideBuy_def)
  show "levelVolume (Bids (a_Book a)) 45 = 3" "levelVolume (Asks (a_Book a)) p = 0"
    "BestBidPrice (a_Book a) = 45" "BestAskPrice (a_Book a) = 0"
    by (simp_all add: assms linkOrder_def demoOrder_sel demoBook_def NewFixedArrayOrderBook_def levelVolume_def enqueue_def levelOf_def
        emptyLevel_def SideBuy_def SideSell_def Let_def)
qed

end
