(* ===== verification/WriterLaws.thy ===== *)
theory WriterLaws
  imports Writer SampleRun
begin

text \<open>
  The writer's order table is an order table in the sense of \<open>ReadModels\<close>: the interpretation gives what the
  table shows after the batches of a market.  Then the transaction of a message does what the abstract table
  does, and a stream of messages delivered in order, with redeliveries and failing transactions, is consumed
  exactly once.
\<close>

section \<open>Rows\<close>

lemma orderStatusCode_values [simp]:
  "orderStatusCode ''new'' = StatusNew" "orderStatusCode ''partially_filled'' = StatusPartiallyFilled"
  "orderStatusCode ''filled'' = StatusFilled" "orderStatusCode ''canceled'' = StatusCanceled"
  "orderStatusCode ''expired'' = StatusExpired" "orderStatusCode ''rejected'' = StatusRejected"
  by code_simp+

lemma code_strings [simp]:
  "sideCode (sideString s) = (if s = SideSell then SideSell else SideBuy)"
  "outcomeCode (outcomeString q) = (if q = 1 then 1 else 0)"
  "orderTypeCode (orderTypeString t) = (if t = OrderTypeMarket then OrderTypeMarket else OrderTypeLimit)"
proof -
  have "sideCode ''sell'' = SideSell" "sideCode ''buy'' = SideBuy" "outcomeCode ''no'' = 1" "outcomeCode ''yes'' = 0"
    "orderTypeCode ''market'' = OrderTypeMarket" "orderTypeCode ''limit'' = OrderTypeLimit" by code_simp+
  then show "sideCode (sideString s) = (if s = SideSell then SideSell else SideBuy)"
    "outcomeCode (outcomeString q) = (if q = 1 then 1 else 0)"
    "orderTypeCode (orderTypeString t) = (if t = OrderTypeMarket then OrderTypeMarket else OrderTypeLimit)"
    by (simp_all add: sideString_def outcomeString_def orderTypeString_def)
qed

text \<open>A row without its two times, the fields recovery does not rely on.\<close>

definition untimed :: "StoredOrder \<Rightarrow> StoredOrder" where
  "untimed r = r\<lparr>ow_CreatedAt := 0, ow_UpdatedAt := 0\<rparr>"

definition rows :: "WriterDB \<Rightarrow> u64 \<rightharpoonup> StoredOrder" where
  "rows db i = map_option untimed (db_Orders db i)"

definition storedRow :: "u64 \<Rightarrow> MatchBatchEvent \<Rightarrow> MatchedOrder \<Rightarrow> StoredOrder" where
  "storedRow k ev e = untimed (storedOrder 0 k 0 (sourceOrder ev e))"

definition settleRow :: "fate \<Rightarrow> StoredOrder \<Rightarrow> StoredOrder" where
  "settleRow f r = (case f of (st, q, x) \<Rightarrow>
     r\<lparr>ow_RemainingQty := toInt64 q, ow_RemainingSpend := toInt64 x, ow_Status := ucast (orderStatusCode st)\<rparr>)"

definition remainingOf :: "StoredOrder \<Rightarrow> u64 \<times> u64" where
  "remainingOf r = (ow_RemainingQty r, ow_RemainingSpend r)"

definition liveRow :: "u64 \<Rightarrow> StoredOrder \<Rightarrow> bool" where
  "liveRow k r \<longleftrightarrow> recoverable r \<and> ow_MarketID r = k"

text \<open>The order that recovery makes of a row is the order, up to what is left of it and to the fields that the
  table does not hold.\<close>

definition restores :: "StoredOrder \<Rightarrow> MemoryOrder \<Rightarrow> bool" where
  "restores r m \<longleftrightarrow> same_order ((orderOfRow (recoveryRow (MarketPDA m) 0 (OrderID m) r))
     \<lparr>CommandID := CommandID m, TraceID := TraceID m, IdempotencyKey := IdempotencyKey m, Timestamp := Timestamp m\<rparr>) m"

definition describesOrder :: "u64 \<Rightarrow> StoredOrder \<Rightarrow> MemoryOrder \<Rightarrow> bool" where
  "describesOrder k r m \<longleftrightarrow> ow_MarketID r = k \<and> restores r m"

text \<open>The codes of an order that the labels of an event can carry, and a sequence number.\<close>

definition typedOrder :: "MemoryOrder \<Rightarrow> bool" where
  "typedOrder m \<longleftrightarrow> Side m \<in> {SideBuy, SideSell} \<and> OriginalAction m \<in> {SideBuy, SideSell} \<and> OriginalOutcome m \<in> {0, 1} \<and>
     OrderType m \<in> {OrderTypeLimit, OrderTypeMarket} \<and> CreatedCmdSeq m \<noteq> 0"

lemma ucast_16_8 [simp]: "(ucast (ucast (x :: u8) :: 16 word) :: u8) = x"
  by (rule bit_eqI) (auto simp: bit_simps)

lemma storedRow_describes:
  assumes "typedOrder m"
  shows "describesOrder k (storedRow k ev (entryOf j t m)) m"
  using assms
  by (cases m) (auto simp: describesOrder_def restores_def typedOrder_def storedRow_def untimed_def storedOrder_def sourceOrder_def entryOf_def
      executionSnapshotFromOrder_def createdSeq_def orderOfRow_def recoveryRow_def same_order_def zeroOrder_def toInt64_def Let_def
      sideLabel_def outcomeLabel_def toMatchingSide_def toMatchingOutcome_def side_defs order_type_defs)

lemma same_order_obtain:
  assumes "same_order m m'"
  obtains q s where "m' = m\<lparr>RemainingQty := q, RemainingSpend := s\<rparr>"
  using assms by (cases m, cases m') (auto simp: same_order_def)

interpretation stored: order_table "storedRow k" "describesOrder k" "liveRow k" remainingOf settleRow typedOrder k for k
proof
  fix m m' and r :: StoredOrder
  assume "same_order m m'"
  then obtain q s where m': "m' = m\<lparr>RemainingQty := q, RemainingSpend := s\<rparr>" by (rule same_order_obtain)
  show "describesOrder k r m = describesOrder k r m'"
    by (cases m) (simp add: m' describesOrder_def restores_def same_order_def orderOfRow_def recoveryRow_def)
  show "typedOrder m = typedOrder m'" by (simp add: m' typedOrder_def)
next
  fix f r m show "describesOrder k (settleRow f r) m = describesOrder k r m"
    by (cases f, cases m) (simp add: describesOrder_def restores_def same_order_def orderOfRow_def recoveryRow_def settleRow_def)
next
  fix m ev j t assume "typedOrder m"
  then show "describesOrder k (storedRow k ev (entryOf j t m)) m" by (rule storedRow_describes)
qed (auto simp: liveRow_def recoverable_def settleRow_def describesOrder_def openStatus_def closedStatus_def
    remainingOf_def toInt64_def StatusNew_def StatusPartiallyFilled_def StatusFilled_def StatusCanceled_def StatusExpired_def StatusRejected_def)

section \<open>The transaction of a message\<close>

text \<open>What the engine guarantees of a published event.\<close>

definition wellFormed :: "u64 \<Rightarrow> MatchBatchEvent \<Rightarrow> bool" where
  "wellFormed k ev \<longleftrightarrow> ev_MarketID ev = k \<and> SchemaVersion ev = 1 \<and> length (ev_Orders ev) \<le> 65536 \<and>
     (\<forall>i < length (ev_Orders ev). m_OrderIndex (ev_Orders ev ! i) = of_nat i) \<and>
     (\<forall>u \<in> set (OrderUpdates ev). unat (u_OrderIndex u) < length (ev_Orders ev))"

interpretation published: projection k "\<lambda>T b ob. T" "\<lambda>_. {}" typed "\<lambda>ev T. T \<and> wellFormed k ev" for k typed
  by unfold_locales (auto simp: wellFormed_def headed_def batch_ok_def entries_ok_def fits_def)

lemma fold_upd: "fold (\<lambda>x t. t(f x \<mapsto> x)) xs m i = (case find (\<lambda>x. f x = i) (rev xs) of None \<Rightarrow> m i | Some x \<Rightarrow> Some x)"
  by (induction xs rule: rev_induct) auto

lemma orderByIndex_nth:
  assumes "wellFormed k ev" "unat j < length (ev_Orders ev)"
  shows "orderByIndex ev j = Some (ev_Orders ev ! unat j)"
proof -
  let ?es = "ev_Orders ev"
  have ix: "m_OrderIndex (?es ! i) = j \<longleftrightarrow> i = unat j" if "i < length ?es" for i
  proof -
    have "unat (m_OrderIndex (?es ! i)) = i"
      using assms(1) that unat_of_nat_u16 [of i] by (simp add: wellFormed_def)
    then show ?thesis by (auto simp: word_unat_eq_iff)
  qed
  have uniq: "x = ?es ! unat j" if x: "x \<in> set ?es" "m_OrderIndex x = j" for x
  proof -
    obtain i where i: "i < length ?es" "x = ?es ! i" using x(1) by (auto simp: in_set_conv_nth)
    then have "i = unat j" using ix [OF i(1)] x(2) by simp
    then show ?thesis using i(2) by simp
  qed
  have "find (\<lambda>x. m_OrderIndex x = j) (rev ?es) \<noteq> None"
    using nth_mem [OF assms(2)] ix [OF assms(2)] by (auto simp: find_None_iff)
  then obtain x where x: "find (\<lambda>x. m_OrderIndex x = j) (rev ?es) = Some x" by blast
  from find_SomeD [OF this] have "x \<in> set ?es" "m_OrderIndex x = j" by simp_all
  then show ?thesis using uniq x by (simp add: orderByIndex_def fold_upd)
qed

lemma stateOf_fate:
  assumes "wellFormed k ev" "u \<in> set (OrderUpdates ev)"
  shows "\<exists>w. stateOf ev u = [w] \<and> se_OrderID w = fst (fateOfUpdate (batchOf ev) u) \<and>
    r\<lparr>ow_RemainingQty := toInt64 (se_RemainingQty w), ow_RemainingSpend := toInt64 (se_RemainingSpendAmount w),
      ow_Status := ucast (se_Status w)\<rparr> = settleRow (snd (fateOfUpdate (batchOf ev) u)) r"
proof -
  have "orderByIndex ev (u_OrderIndex u) = Some (ev_Orders ev ! unat (u_OrderIndex u))"
    using assms by (intro orderByIndex_nth) (auto simp: wellFormed_def)
  then show ?thesis by (simp add: stateOf_def fateOfUpdate_def settleRow_def)
qed

text \<open>The orders of an event are inserted once each, the first entry of an id.\<close>

lemma rows_insert:
  "rows (db\<lparr>db_Orders := insertNew i r (db_Orders db)\<rparr>) = insertNew i (untimed r) (rows db)"
  by (auto simp: rows_def insertNew_def fun_eq_iff)

lemma untimed_stored: "untimed (storedOrder now k t f) = untimed (storedOrder now' k t' f)"
  by (simp add: untimed_def storedOrder_def Let_def)

lemma upserted_rows:
  "rows (upsertSourceOrder now k t (sourceOrder ev e) db) = insertNew (m_OrderID e) (storedRow k ev e) (rows db)"
  by (simp add: upsertSourceOrder_def rows_insert storedRow_def toInt64_def untimed_stored [of now k t _ 0 0])
    (simp add: sourceOrder_def Let_def)

lemma insertNew_fold:
  "fold (\<lambda>e. insertNew (key e) (val e)) es T i =
     (case T i of Some r \<Rightarrow> Some r | None \<Rightarrow> map_option val (find (\<lambda>e. key e = i) es))"
proof (induction es arbitrary: T)
  case (Cons e es)
  show ?case by (simp add: Cons.IH) (auto simp: insertNew_def split: option.split)
qed (simp split: option.split)

lemma upserts_frame:
  "db_Markets (fold (upsertSourceOrder now k t) fs db) = db_Markets db" "db_Cursors (fold (upsertSourceOrder now k t) fs db) = db_Cursors db"
  "db_Trades (fold (upsertSourceOrder now k t) fs db) = db_Trades db"
  by (induction fs arbitrary: db) (simp_all add: upsertSourceOrder_def)

lemma upsertBatch_rows:
  assumes "wellFormed k ev"
  shows "rows (upsertBatchOrders now (batchPayloadFromMarketDelta ev) db) i =
    (case rows db i of Some r \<Rightarrow> Some r | None \<Rightarrow> map_option (storedRow k ev) (entryFor (batchOf ev) i))"
proof -
  have f: "rows (fold (upsertSourceOrder now k t) (map (sourceOrder ev) es) db) =
      fold (\<lambda>e. insertNew (m_OrderID e) (storedRow k ev e)) es (rows db)" for t es
    by (induction es arbitrary: db) (simp_all add: upserted_rows)
  have "upsertBatchOrders now (batchPayloadFromMarketDelta ev) db =
      fold (upsertSourceOrder now k (ProducedAt ev)) (map (sourceOrder ev) (ev_Orders ev)) db"
    using assms by (cases "ev_Orders ev")
      (simp_all add: upsertBatchOrders_def sourceOrdersForBatch_def batchPayloadFromMarketDelta_def wellFormed_def Let_def)
  then show ?thesis by (simp add: f insertNew_fold entryFor_def split: option.split)
qed

lemma trades_frame:
  "db_Orders (persistTrades now b db) = db_Orders db" "db_Markets (persistTrades now b db) = db_Markets db"
  "db_Cursors (persistTrades now b db) = db_Cursors db"
proof -
  have "db_Orders (fold (persistTrade now b) ts db) = db_Orders db \<and> db_Markets (fold (persistTrade now b) ts db) = db_Markets db \<and>
      db_Cursors (fold (persistTrade now b) ts db) = db_Cursors db" for ts
    by (induction ts arbitrary: db) (simp_all add: persistTrade_def)
  then show "db_Orders (persistTrades now b db) = db_Orders db" "db_Markets (persistTrades now b db) = db_Markets db"
    "db_Cursors (persistTrades now b db) = db_Cursors db" by (simp_all add: persistTrades_def)
qed

text \<open>The updates are applied in order; the last one of an order decides.\<close>

definition settleOne :: "MatchBatchEvent \<Rightarrow> OrderUpdate \<Rightarrow> (u64 \<rightharpoonup> StoredOrder) \<Rightarrow> u64 \<rightharpoonup> StoredOrder" where
  "settleOne ev u T = (case fateOfUpdate (batchOf ev) u of (i, f) \<Rightarrow> T(i := map_option (settleRow f) (T i)))"

lemma settle_settle: "settleRow f (settleRow g r) = settleRow f r"
  by (simp add: settleRow_def split: prod.split)

lemma settles_fold:
  "fold (settleOne ev) us T i =
     (case map_of (rev (map (fateOfUpdate (batchOf ev)) us)) i of None \<Rightarrow> T i | Some f \<Rightarrow> map_option (settleRow f) (T i))"
proof (induction us rule: rev_induct)
  case (snoc u us)
  obtain j f where u: "fateOfUpdate (batchOf ev) u = (j, f)" by (cases "fateOfUpdate (batchOf ev) u")
  show ?case
    using snoc by (auto simp: settleOne_def u settle_settle map_option.compositionality o_def split: option.splits)
qed simp

lemma applyStates_rows:
  assumes wf: "wellFormed k ev" and us: "set us \<subseteq> set (OrderUpdates ev)"
    and all: "\<forall>u \<in> set us. rows db (fst (fateOfUpdate (batchOf ev) u)) \<noteq> None"
  shows "\<exists>db'. applyStates now (concat (map (stateOf ev) us)) db = Some db' \<and> rows db' = fold (settleOne ev) us (rows db) \<and>
    db_Markets db' = db_Markets db \<and> db_Cursors db' = db_Cursors db"
  using us all
proof (induction us arbitrary: db)
  case (Cons u us)
  obtain i f where u: "fateOfUpdate (batchOf ev) u = (i, f)" by (cases "fateOfUpdate (batchOf ev) u")
  obtain r where r: "db_Orders db i = Some r" using Cons.prems(2) u by (auto simp: rows_def)
  obtain w where w: "stateOf ev u = [w]" "se_OrderID w = i"
    and st: "r\<lparr>ow_RemainingQty := toInt64 (se_RemainingQty w), ow_RemainingSpend := toInt64 (se_RemainingSpendAmount w),
      ow_Status := ucast (se_Status w)\<rparr> = settleRow f r"
    using stateOf_fate [OF wf, of u r] Cons.prems(1) u by auto
  let ?r = "r\<lparr>ow_RemainingQty := toInt64 (se_RemainingQty w), ow_RemainingSpend := toInt64 (se_RemainingSpendAmount w),
      ow_Status := ucast (se_Status w), ow_UpdatedAt := now\<rparr>"
  let ?db = "db\<lparr>db_Orders := (db_Orders db)(i \<mapsto> ?r)\<rparr>"
  have "untimed ?r = untimed (settleRow f r)" by (simp add: untimed_def flip: st)
  also have "\<dots> = settleRow f (untimed r)" by (simp add: untimed_def settleRow_def split: prod.split)
  finally have "rows ?db = settleOne ev u (rows db)"
    using r by (auto simp: rows_def settleOne_def u fun_eq_iff)
  moreover have "\<forall>u \<in> set us. rows ?db (fst (fateOfUpdate (batchOf ev) u)) \<noteq> None"
    using Cons.prems(2) by (auto simp: rows_def)
  moreover have "applyStates now (concat (map (stateOf ev) (u # us))) db = applyStates now (concat (map (stateOf ev) us)) ?db"
    using w r by (simp add: toInt64_def)
  ultimately show ?case using Cons.IH [of ?db] Cons.prems(1) by simp
qed simp

definition cursorOf :: "u64 \<Rightarrow> WriterDB \<Rightarrow> i64" where
  "cursorOf k db = (case db_Cursors db k of None \<Rightarrow> 0 | Some c \<Rightarrow> cu_LastEvtSeq c)"

lemma cursor_frame:
  "rows (advanceCursor k e s db) = rows db" "db_Markets (advanceCursor k e s db) = db_Markets db"
  "lockCursorRow k db = Some (l, db1) \<Longrightarrow> rows db1 = rows db \<and> db_Markets db1 = db_Markets db \<and> l = cursorOf k db \<and>
     cursorOf j db1 = cursorOf j db \<and> db_Cursors db1 k \<noteq> None \<and> k \<in> db_Markets db"
  by (auto simp: rows_def advanceCursor_def lockCursorRow_def cursorOf_def Let_def split: if_splits option.splits)

lemma advance_cursor:
  assumes "db_Cursors db k \<noteq> None"
  shows "cursorOf k (advanceCursor k e s db) = greatest (cursorOf k db) e"
    "j \<noteq> k \<Longrightarrow> cursorOf j (advanceCursor k e s db) = cursorOf j db"
  using assms by (auto simp: advanceCursor_def cursorOf_def)

text \<open>No statement of the transaction fails: an event lists every order it reports on.\<close>

lemma projectBatch_stores:
  assumes wf: "wellFormed k ev" and c: "db_Cursors db k \<noteq> None"
  shows "\<exists>db'. projectBatch now sq (batchPayloadFromMarketDelta ev) db = Some db' \<and> rows db' = stored.storeBatch k ev (rows db) \<and>
    db_Markets db' = db_Markets db \<and> cursorOf k db' = greatest (cursorOf k db) sq"
proof -
  let ?b = "batchPayloadFromMarketDelta ev"
  have b: "bp_MarketID ?b = k" "bp_StateEvents ?b = concat (map (stateOf ev) (OrderUpdates ev))"
    using wf by (simp_all add: batchPayloadFromMarketDelta_def wellFormed_def Let_def)
  define db1 where "db1 = persistTrades now ?b (upsertBatchOrders now ?b db)"
  have r1: "rows db1 i = (case rows db i of Some r \<Rightarrow> Some r | None \<Rightarrow> map_option (storedRow k ev) (entryFor (batchOf ev) i))" for i
    using upsertBatch_rows [OF wf, of now db i] by (simp add: db1_def rows_def trades_frame)
  have f1: "db_Markets db1 = db_Markets db" "db_Cursors db1 = db_Cursors db"
    by (simp_all add: db1_def trades_frame upsertBatchOrders_def upserts_frame)
  have "\<forall>u \<in> set (OrderUpdates ev). rows db1 (fst (fateOfUpdate (batchOf ev) u)) \<noteq> None"
  proof
    fix u assume "u \<in> set (OrderUpdates ev)"
    then have "ev_Orders ev ! unat (u_OrderIndex u) \<in> set (ev_Orders ev)" using wf by (simp add: wellFormed_def)
    then have "entryFor (batchOf ev) (fst (fateOfUpdate (batchOf ev) u)) \<noteq> None"
      by (auto simp: entryFor_def fateOfUpdate_def find_None_iff)
    then show "rows db1 (fst (fateOfUpdate (batchOf ev) u)) \<noteq> None" by (auto simp: r1 split: option.split)
  qed
  then obtain db2 where a: "applyStates (timestampToTime now (bp_Timestamp ?b)) (bp_StateEvents ?b) db1 = Some db2"
    "rows db2 = fold (settleOne ev) (OrderUpdates ev) (rows db1)" "db_Markets db2 = db_Markets db1" "db_Cursors db2 = db_Cursors db1"
    using applyStates_rows [OF wf subset_refl, of db1 "timestampToTime now (bp_Timestamp ?b)"] unfolding b(2) by blast
  have "rows db2 = stored.storeBatch k ev (rows db)"
    by (rule ext) (simp add: a(2) settles_fold r1 stored.storeBatch_def stored.tableAfter_def fateOf_def fates_def Let_def split: option.split)
  moreover have "projectBatch now sq ?b db = Some (advanceCursor k sq (toInt64 (bp_SourceCmdSeq ?b)) db2)"
    using a(1) by (simp add: projectBatch_def applyStateEvents_def b(1) flip: db1_def)
  moreover have "db_Cursors db2 k \<noteq> None" using a(4) f1 c by simp
  moreover have "cursorOf k db2 = cursorOf k db" using a(4) f1 by (simp add: cursorOf_def)
  ultimately show ?thesis using a(3) f1 by (simp add: cursor_frame advance_cursor)
qed

lemma handle_stores:
  assumes wf: "wellFormed k ev" and m: "k \<in> db_Markets db" and new: "cursorOf k db <s sq" and ans: "ans \<noteq> Fails"
  shows "let db' = fst (writerHandleMessage now ans (Some sq) (Some ev) db) in
    rows db' = stored.storeBatch k ev (rows db) \<and> db_Markets db' = db_Markets db \<and> cursorOf k db' = sq"
proof -
  let ?b = "batchPayloadFromMarketDelta ev"
  have b: "bp_MarketID ?b = k" "SchemaVersion ev = 1"
    using wf by (simp_all add: batchPayloadFromMarketDelta_def wellFormed_def Let_def)
  obtain l db1 where l: "lockCursorRow k db = Some (l, db1)" using m by (auto simp: lockCursorRow_def Let_def)
  note f = cursor_frame(3) [OF l, of k]
  obtain db' where p: "projectBatch now sq ?b db1 = Some db'" "rows db' = stored.storeBatch k ev (rows db1)"
    "db_Markets db' = db_Markets db1" "cursorOf k db' = greatest (cursorOf k db1) sq"
    using projectBatch_stores [OF wf, of db1 now sq] f by blast
  have n: "\<not> sq \<le>s cursorOf k db" using new by (simp add: word_sle_eq word_sless_alt)
  have "fst (writerHandleMessage now ans (Some sq) (Some ev) db) = db'"
    using p(1) l f b ans n by (simp add: writerHandleMessage_def Let_def toInt64_def)
  then show ?thesis using p f new by (simp add: greatest_def)
qed

lemma handle_repeats:
  assumes wf: "wellFormed k ev" and m: "k \<in> db_Markets db" and old: "sq \<le>s cursorOf k db"
  shows "fst (writerHandleMessage now ans (Some sq) (Some ev) db) = db"
proof -
  have b: "bp_MarketID (batchPayloadFromMarketDelta ev) = k"
    using wf by (simp add: batchPayloadFromMarketDelta_def wellFormed_def Let_def)
  obtain l db1 where l: "lockCursorRow k db = Some (l, db1)" using m by (auto simp: lockCursorRow_def Let_def)
  then show ?thesis
    using cursor_frame(3) [OF l, of k] b old by (simp add: writerHandleMessage_def Let_def toInt64_def)
qed

section \<open>The stream\<close>

text \<open>The deltas of a market with their places in the stream, and the deliveries the writer handles: any of them, in any
  order and number, as the fetch loop goes on after a message it gave back.\<close>

type_synonym delivery = "unixtime \<times> dbAnswer \<times> nat"

definition handleDelivery :: "(u64 \<times> MatchBatchEvent) list \<Rightarrow> delivery \<Rightarrow> WriterDB \<Rightarrow> WriterDB" where
  "handleDelivery stream d db = (case d of (now, ans, j) \<Rightarrow>
     if j < length stream then fst (writerHandleMessage now ans (Some (fst (stream ! j))) (Some (snd (stream ! j))) db) else db)"

text \<open>The number of deltas committed in order, when none is handled before those before it have been committed.\<close>

fun committedInOrder :: "nat \<Rightarrow> delivery list \<Rightarrow> nat option" where
  "committedInOrder n [] = Some n"
| "committedInOrder n ((now, ans, j) # ds) =
     (if j \<le> n then committedInOrder (if j = n \<and> ans \<noteq> Fails then Suc n else n) ds else None)"

definition streamOrder :: "i64 \<Rightarrow> (u64 \<times> MatchBatchEvent) list \<Rightarrow> bool" where
  "streamOrder c stream \<longleftrightarrow> sorted_wrt (<s) (c # map fst stream)"

definition consumed :: "u64 \<Rightarrow> i64 \<Rightarrow> (u64 \<times> MatchBatchEvent) list \<Rightarrow> (u64 \<rightharpoonup> StoredOrder) \<Rightarrow> nat \<Rightarrow> WriterDB \<Rightarrow> bool" where
  "consumed k c stream T n db \<longleftrightarrow> n \<le> length stream \<and> k \<in> db_Markets db \<and>
     rows db = fold (stored.storeBatch k) (map snd (take n stream)) T \<and>
     cursorOf k db = (if n = 0 then c else fst (stream ! (n - 1)))"

lemma stream_consumed:
  assumes "committedInOrder n ds = Some n'" "consumed k c stream T n db" "streamOrder c stream"
    "list_all (wellFormed k) (map snd stream)" "\<forall>d \<in> set ds. snd (snd d) < length stream"
  shows "consumed k c stream T n' (fold (handleDelivery stream) ds db)"
  using assms
proof (induction n ds arbitrary: db rule: committedInOrder.induct)
  case (2 n now ans j ds db)
  let ?m = "writerHandleMessage now ans (Some (fst (stream ! j))) (Some (snd (stream ! j))) db"
  have j: "j \<le> n" "j < length stream" using 2(2,6) by (auto split: if_splits)
  have wf: "wellFormed k (snd (stream ! j))" using 2(5) j by (simp add: list_all_length)
  have mk: "k \<in> db_Markets db" using 2(3) by (simp add: consumed_def)
  have srt: "sorted_wrt (<s) (map fst stream)" "\<forall>x \<in> set (map fst stream). c <s x" using 2(4) by (simp_all add: streamOrder_def)
  have "consumed k c stream T (if j = n \<and> ans \<noteq> Fails then Suc n else n) (fst ?m)"
  proof (cases "j = n")
    case True
    show ?thesis
    proof (cases "ans = Fails")
      case False
      have "cursorOf k db <s fst (stream ! n)"
      proof (cases n)
        case 0
        then show ?thesis using 2(3) srt(2) j True by (simp add: consumed_def)
      next
        case (Suc i)
        then show ?thesis
          using 2(3) srt(1) j True sorted_wrt_nth_less [OF srt(1), of i n] by (simp add: consumed_def)
      qed
      then show ?thesis
        using handle_stores [OF wf mk, of "fst (stream ! j)" ans now] 2(3) True False j
        by (simp add: consumed_def take_Suc_conv_app_nth Let_def)
    next
      case fails: True
      have "fst ?m = db" by (simp add: fails writerHandleMessage_def Let_def)
      then show ?thesis using 2(3) fails by simp
    qed
  next
    case False
    then have jn: "j < n" using j by simp
    have "fst (stream ! j) \<le>s cursorOf k db"
    proof (cases "j = n - 1")
      case True
      then show ?thesis using 2(3) jn by (simp add: consumed_def)
    next
      case False
      then have "j < n - 1" "n - 1 < length stream" using jn 2(3) by (auto simp: consumed_def)
      then have "fst (stream ! j) <s fst (stream ! (n - 1))"
        using sorted_wrt_nth_less [OF srt(1), of j "n - 1"] by simp
      then show ?thesis using 2(3) jn by (simp add: consumed_def signed.less_imp_le)
    qed
    then show ?thesis using handle_repeats [OF wf mk] 2(3) False by simp
  qed
  then show ?case using 2 j by (simp add: handleDelivery_def)
qed simp

text \<open>Why the order matters: the delta that is handled after a later one was committed changes nothing any more.\<close>

lemma passed_over_delta_lost:
  assumes "list_all (wellFormed k) (map snd stream)" "k \<in> db_Markets db" "streamOrder (cursorOf k db) stream" "1 < length stream"
  shows "rows (fold (handleDelivery stream) [(t0, Fails, 0), (t1, Commits, 1), (t2, Commits, 0)] db) = stored.storeBatch k (snd (stream ! 1)) (rows db)"
proof -
  have len: "0 < length stream" using assms(4) by linarith
  have "j < length stream \<Longrightarrow> wellFormed k (snd (stream ! j))" for j using assms(1) by (simp add: list_all_length)
  from this [of 0] this [of 1] assms(4) have wf: "wellFormed k (snd (stream ! 0))" "wellFormed k (snd (stream ! 1))" by linarith+
  have s: "sorted_wrt (<s) (map fst stream)" "cursorOf k db <s fst (stream ! 1)" using assms(3,4) by (auto simp: streamOrder_def)
  have le: "fst (stream ! 0) \<le>s fst (stream ! 1)" using sorted_wrt_nth_less [OF s(1), of 0 1] assms(4) len by (simp add: signed.less_imp_le)
  define db1 where "db1 = fst (writerHandleMessage t1 Commits (Some (fst (stream ! 1))) (Some (snd (stream ! 1))) db)"
  have d: "rows db1 = stored.storeBatch k (snd (stream ! 1)) (rows db)" "k \<in> db_Markets db1" "cursorOf k db1 = fst (stream ! 1)"
    using handle_stores [OF wf(2) assms(2) s(2), of Commits t1] assms(2) by (simp_all add: db1_def Let_def)
  have "fst (writerHandleMessage t0 Fails (Some (fst (stream ! 0))) (Some (snd (stream ! 0))) db) = db" by (simp add: writerHandleMessage_def Let_def)
  moreover have "fst (writerHandleMessage t2 Commits (Some (fst (stream ! 0))) (Some (snd (stream ! 0))) db1) = db1"
    by (rule handle_repeats [OF wf(1) d(2)]) (use le d(3) in simp)
  ultimately show ?thesis using assms(4) len d(1) db1_def [symmetric] by (simp add: handleDelivery_def)
qed

section \<open>Properties\<close>

text \<open>The order table shows a book: every resting order has a live row that recovery turns back into the order with
  what is left of it, and every live row of the market belongs to a resting order.\<close>

definition storedBook :: "u64 \<Rightarrow> WriterDB \<Rightarrow> FixedArrayOrderBook \<Rightarrow> bool" where
  "storedBook k db ob \<longleftrightarrow>
     (\<forall>m \<in> resting ob. \<exists>r. db_Orders db (OrderID m) = Some r \<and> recoverable r \<and> ow_MarketID r = k \<and> restores r m \<and>
        ow_RemainingQty r = RemainingQty m \<and> ow_RemainingSpend r = RemainingSpend m) \<and>
     (\<forall>i r. db_Orders db i = Some r \<longrightarrow> recoverable r \<longrightarrow> ow_MarketID r = k \<longrightarrow> i \<in> OrderID ` resting ob)"

lemma untimed_sel [simp]:
  "recoverable (untimed r) = recoverable r" "ow_MarketID (untimed r) = ow_MarketID r" "ow_RemainingQty (untimed r) = ow_RemainingQty r"
  "ow_RemainingSpend (untimed r) = ow_RemainingSpend r"
  by (simp_all add: untimed_def recoverable_def)

lemma untimed_restores [simp]: "restores (untimed r) m = restores r m"
  by (cases m) (simp add: restores_def same_order_def orderOfRow_def recoveryRow_def untimed_def)

lemma storedBook_shows: "storedBook k db ob \<longleftrightarrow> stored.shows_orders k (rows db) (resting ob)"
proof -
  have a: "(\<exists>r. rows db i = Some r \<and> liveRow k r \<and> describesOrder k r m \<and> remainingOf r = (RemainingQty m, RemainingSpend m)) \<longleftrightarrow>
      (\<exists>r. db_Orders db i = Some r \<and> recoverable r \<and> ow_MarketID r = k \<and> restores r m \<and>
        ow_RemainingQty r = RemainingQty m \<and> ow_RemainingSpend r = RemainingSpend m)" for i m
    by (auto simp: rows_def liveRow_def describesOrder_def remainingOf_def)
  have b: "(\<forall>r. rows db i = Some r \<longrightarrow> liveRow k r \<longrightarrow> P) \<longleftrightarrow> (\<forall>r. db_Orders db i = Some r \<longrightarrow> recoverable r \<longrightarrow> ow_MarketID r = k \<longrightarrow> P)" for i P
    by (auto simp: rows_def liveRow_def)
  show ?thesis by (simp add: storedBook_def stored.shows_orders_def a b)
qed

text \<open>C33: the order table mirrors the book.  The engine and tick loops of a market run from an idle actor whose
  book the table shows, with publications that fail half way and are repeated; the writer handles the published
  deltas, with redeliveries, failing transactions and lost replies.  Provided that every tick of the run found
  nothing pending and its batch arrived, and no batch holds more than 65536 orders (the flag of the run is
  clear), that the places of the stream increase from the cursor on, that no delta is handled before those
  before it in the stream have been committed, and that all have been, and that nothing is pending, the table shows
  the book: the live rows are exactly the resting orders, each with its remaining quantity and spend and every
  field that recovery needs.  Without the first condition on the deliveries a delta is lost
  (\<open>passed_over_delta_lost\<close>).\<close>
theorem stored_orders_mirror_book:
  assumes "(engineStep iter assemble typedOrder)\<^sup>*\<^sup>* ((a0, K0, []), False) ((a, K, evs), False)" "idle k a0 K0" "holdsNothing (pendingOf a)"
    "storedBook k db0 (a_Book a0)" "dom (db_Orders db0) \<subseteq> K0" "k \<in> db_Markets db0"
    "map snd stream = evs" "streamOrder (cursorOf k db0) stream"
    "committedInOrder 0 ds = Some (length evs)" "\<forall>d \<in> set ds. snd (snd d) < length stream"
  shows "storedBook k (fold (handleDelivery stream) ds db0) (a_Book a)"
proof -
  have wf: "list_all (wellFormed k) (map snd stream)"
  proof -
    have "fold (\<lambda>ev T. T \<and> wellFormed k ev) evs True"
      using published.run_drained [OF engineRun_clear [OF assms(1)] assms(2) _ _ assms(3), of True] by simp
    moreover have "fold (\<lambda>ev T. T \<and> wellFormed k ev) evs T \<longleftrightarrow> T \<and> list_all (wellFormed k) evs" for T
      by (induction evs arbitrary: T) auto
    ultimately show ?thesis using assms(7) by simp
  qed
  have "consumed k (cursorOf k db0) stream (rows db0) 0 db0" using assms(6) by (simp add: consumed_def)
  define db where "db = fold (handleDelivery stream) ds db0"
  from stream_consumed [OF assms(9) \<open>consumed k (cursorOf k db0) stream (rows db0) 0 db0\<close> assms(8) wf assms(10)] have r: "rows db = fold (stored.storeBatch k) evs (rows db0)"
    using assms(7) by (auto simp: consumed_def simp flip: db_def)
  have d: "dom (rows db0) \<subseteq> K0" using assms(5) by (auto simp: rows_def dom_def)
  have "stored.tableFollows k (rows db0) (newPendingBatch k (a_MarketPDA a0) 0) (a_Book a0)"
    unfolding stored.tableFollows_def by (rule stored.mirror_new) (use assms(4) in \<open>simp add: storedBook_shows\<close>)
  from stored.table.run_drained [OF engineRun_clear [OF assms(1)] assms(2) d this assms(3)]
  have "stored.mirror k (rows db) (newPendingBatch k ''m'' 0) (resting (a_Book a)) {}" by (simp add: stored.tableFollows_def r)
  from stored.mirror_shows [OF this, of undefined]
  have "stored.shows_orders k (stored.tableAfter k undefined (newPendingBatch k ''m'' 0) (rows db)) (resting (a_Book a))" .
  moreover have "stored.tableAfter k undefined (newPendingBatch k ''m'' 0) (rows db) = rows db"
    by (rule ext) (simp add: stored.tableAfter_def split: option.split)
  ultimately have "stored.shows_orders k (rows db) (resting (a_Book a))" by simp
  then show ?thesis by (simp add: storedBook_shows flip: db_def)
qed

theorem stored_orders_mirror_book_witness:
  "\<exists>a evs stream db. (engineStep (\<lambda>_. []) (\<lambda>_ _ _. None) typedOrder)\<^sup>*\<^sup>* ((demoActor, {}, []), False) ((a, {11}, evs), False) \<and>
     map snd stream = evs \<and>
     fold (handleDelivery stream) [(0, Fails, 0), (0, CommitsUnreported, 0), (0, Commits, 0)]
       \<lparr>db_Markets = {1}, db_Cursors = Map.empty, db_Orders = Map.empty, db_Trades = Map.empty\<rparr> = db \<and>
     (\<exists>r. db_Orders db 11 = Some r \<and> recoverable r \<and> ow_RemainingQty r = 3)"
proof -
  let ?db0 = "\<lparr>db_Markets = {1}, db_Cursors = Map.empty, db_Orders = Map.empty, db_Trades = Map.empty\<rparr>"
  let ?ds = "[(0, Fails, 0), (0, CommitsUnreported, 0), (0, Commits, 0)] :: delivery list"
  have ty: "typedOrder demoOrder" by (simp add: typedOrder_def demoOrder_sel)
  obtain a evs where r: "(marketStep (\<lambda>_. []) (\<lambda>_ _ _. None) typedOrder)\<^sup>*\<^sup>* (demoActor, {}, []) (a, {11}, evs)" "length evs = 1"
    "holdsNothing (pendingOf a)" "a_Book a = (linkOrder demoBook demoOrder)\<lparr>LastProcessedSeq := LastProcessedSeq (a_Book a)\<rparr>"
    by (rule demo_steps [of typedOrder, OF ty])
  obtain ev where ev: "evs = [ev]" using r(2) by (auto simp: length_Suc_conv)
  define db where "db = fold (handleDelivery [(1, ev)]) ?ds ?db0"
  have c: "committedInOrder 0 ?ds = Some (length evs)" by (simp add: ev)
  have "resting (a_Book demoActor) = {}"
    by (simp add: resting_def sideOrders_def demoActor_def NewMarketActor_def NewFixedArrayOrderBook_def)
  then have "storedBook 1 ?db0 (a_Book demoActor)" by (simp add: storedBook_def)
  moreover have "0 <s (1 :: i64)" by code_simp
  then have "streamOrder (cursorOf 1 ?db0) [(1, ev)]" by (simp add: streamOrder_def cursorOf_def)
  ultimately have "storedBook 1 db (a_Book a)"
    using stored_orders_mirror_book [OF marketRun_clear [OF r(1)] demo_idle r(3), of ?db0 "[(1, ev)]" ?ds] c by (simp add: ev db_def)
  then have "\<exists>r. db_Orders db 11 = Some r \<and> recoverable r \<and> ow_RemainingQty r = 3"
    by (auto simp: storedBook_def demo_resting(1) [OF r(4)] demoOrder_sel)
  then show ?thesis using marketRun_clear [OF r(1)] ev by (intro exI [of _ a] exI [of _ evs] exI [of _ "[(1, ev)]"] exI [of _ db]) (simp add: db_def)
qed

end
