(* ===== verification/MarketView.thy ===== *)
theory MarketView
  imports SampleRun
begin

text \<open>
  The market view that the websocket hub keeps for its clients (\<open>pusher/market_state.go\<close> and the helpers of
  \<open>pusher/service.go\<close>): volumes by tick, the recent trades and the price history, built from the deltas of
  the engine, and the snapshot a client starts from.  The view is a depth view in the sense of
  \<open>ReadModels\<close>.

  The arrays \<open>bids\<close> and \<open>asks\<close> have the ticks 0 to 100; every access of the code is guarded by the limit.
\<close>

section \<open>Text\<close>

text \<open>\<open>strconv.ParseUint(s, 10, 64)\<close>.\<close>

definition isDigit :: "char \<Rightarrow> bool" where
  "isDigit c \<longleftrightarrow> (let k = (of_char c :: nat) in 48 \<le> k \<and> k < 58)"

definition ParseUint10 :: "string \<Rightarrow> u64 option" where
  "ParseUint10 s = (if s \<noteq> [] \<and> list_all isDigit s \<and> valueBase 10 s < 2 ^ 64 then Some (of_nat (valueBase 10 s)) else None)"

text \<open>\<open>time.Unix(t, 0).UTC().Format(time.RFC3339)\<close> from the year 0 on: the date of a day number, and the text.\<close>

definition civilDate :: "int \<Rightarrow> int \<times> int \<times> int" where
  "civilDate days =
     (let z = days + 719468; era = z div 146097; doe = z mod 146097;
          yoe = (doe - doe div 1460 + doe div 36524 - doe div 146096) div 365;
          doy = doe - (365 * yoe + yoe div 4 - yoe div 100);
          mp = (5 * doy + 2) div 153;
          d = doy - (153 * mp + 2) div 5 + 1;
          m = (if mp < 10 then mp + 3 else mp - 9)
      in (yoe + era * 400 + (if m \<le> 2 then 1 else 0), m, d))"

definition padded :: "nat \<Rightarrow> int \<Rightarrow> string" where
  "padded w n = (let s = digitsBase 10 (nat n) in replicate (w - length s) (CHR ''0'') @ s)"

definition formatRFC3339 :: "unixtime \<Rightarrow> string" where
  "formatRFC3339 t =
     (let (y, m, d) = civilDate (t div 86400); s = t mod 86400
      in padded 4 y @ ''-'' @ padded 2 m @ ''-'' @ padded 2 d @ ''T'' @ padded 2 (s div 3600) @ '':'' @
         padded 2 (s mod 3600 div 60) @ '':'' @ padded 2 (s mod 60) @ ''Z'')"

section \<open>Messages\<close>

record WSDepthLevel =
  wd_Side :: string
  wd_PriceTick :: u8
  wd_TotalVolume :: u64

record WSMarketTrade =
  wt_TradeID :: string
  wt_PriceTick :: string
  wt_FillAmount :: string
  wt_ExecutedAt :: string

record WSPricePoint =
  wp_Timestamp :: string
  wp_Price :: string
  wp_Quantity :: string

record OrderLevel =
  lv_Price :: string
  lv_TotalVolume :: string

record WSOrderbookPayload =
  wo_Bids :: "OrderLevel list"
  wo_Asks :: "OrderLevel list"
  wo_BestBidPrice :: string
  wo_BestAskPrice :: string

record WSMarketSnapshotPayload =
  ws_MatchingEnabled :: bool
  ws_Orderbook :: WSOrderbookPayload
  ws_Trades :: "WSMarketTrade list"
  ws_PriceHistory :: "WSPricePoint list"

record WSMarketDelta =
  wm_Type :: string
  wm_MarketID :: string
  wm_Seq :: string
  wm_Ts :: string
  wm_DepthLevels :: "WSDepthLevel list"
  wm_Trades :: "WSMarketTrade list"
  wm_PricePoints :: "WSPricePoint list"

section \<open>The state\<close>

definition publicRecentTradesLimit :: nat where "publicRecentTradesLimit = 100"
definition publicPriceHistoryLimit :: nat where "publicPriceHistoryLimit = 4096"
definition maxPriceTick :: u8 where "maxPriceTick = 100"

record marketState =
  ms_loaded :: bool
  ms_seq :: u64
  ms_bids :: "u8 \<Rightarrow> u64"
  ms_asks :: "u8 \<Rightarrow> u64"
  ms_trades :: "WSMarketTrade list"
  ms_priceHistory :: "WSPricePoint list"

definition newMarketState :: marketState where
  "newMarketState = \<lparr>ms_loaded = False, ms_seq = 0, ms_bids = \<lambda>_. 0, ms_asks = \<lambda>_. 0, ms_trades = [], ms_priceHistory = []\<rparr>"

text \<open>What the data source answers: the order book, the trades and the price points of the read models.\<close>

record marketData =
  md_Bids :: "OrderLevel list"
  md_Asks :: "OrderLevel list"
  md_Trades :: "WSMarketTrade list"
  md_Points :: "WSPricePoint list"

definition loadLevel :: "OrderLevel \<Rightarrow> (u8 \<Rightarrow> u64) \<Rightarrow> u8 \<Rightarrow> u64" where
  "loadLevel l arr = (case ParseUint10 (lv_Price l) of
       None \<Rightarrow> arr
     | Some p \<Rightarrow> if ucast maxPriceTick < p then arr
                 else case ParseUint10 (lv_TotalVolume l) of None \<Rightarrow> arr | Some v \<Rightarrow> arr(ucast p := v))"

definition lastN :: "nat \<Rightarrow> 'a list \<Rightarrow> 'a list" where
  "lastN n xs = drop (length xs - n) xs"

definition ensureLoaded :: "marketData option \<Rightarrow> marketState \<Rightarrow> marketState" where
  "ensureLoaded source s =
     (if ms_loaded s then s
      else case source of
        None \<Rightarrow> s\<lparr>ms_loaded := True\<rparr>
      | Some d \<Rightarrow> s\<lparr>ms_loaded := True, ms_bids := fold loadLevel (md_Bids d) (\<lambda>_. 0), ms_asks := fold loadLevel (md_Asks d) (\<lambda>_. 0),
            ms_trades := take publicRecentTradesLimit (md_Trades d), ms_priceHistory := lastN publicPriceHistoryLimit (md_Points d)\<rparr>)"

definition normalizeDepthSide :: "string \<Rightarrow> string" where
  "normalizeDepthSide side = (if EqualFold (TrimSpace side) ''ask'' \<or> EqualFold (TrimSpace side) ''sell'' then ''ask'' else ''bid'')"

text \<open>The last update of every level, in the order the levels appear.\<close>

fun latestUpdates :: "DepthUpdate list \<Rightarrow> (string \<times> u8 \<rightharpoonup> DepthUpdate) \<Rightarrow> (string \<times> u8) list \<Rightarrow>
    (string \<times> u8 \<rightharpoonup> DepthUpdate) \<times> (string \<times> u8) list" where
  "latestUpdates [] latest order = (latest, order)"
| "latestUpdates (u # us) latest order =
     (let k = (normalizeDepthSide (d_Side u), d_PriceTick u)
      in latestUpdates us (latest(k \<mapsto> u\<lparr>d_Side := fst k\<rparr>)) (if latest k = None then order @ [k] else order))"

definition compressDepthUpdates :: "DepthUpdate list \<Rightarrow> WSDepthLevel list" where
  "compressDepthUpdates updates = (let (latest, order) = latestUpdates updates Map.empty [] in
     map (\<lambda>k. let u = the (latest k) in
       \<lparr>wd_Side = normalizeDepthSide (d_Side u), wd_PriceTick = d_PriceTick u, wd_TotalVolume = d_TotalVolume u\<rparr>) order)"

definition tradeIDForFill :: "string \<Rightarrow> MatchFill \<Rightarrow> string" where
  "tradeIDForFill eventID fill = (if eventID = [] then ''fill-'' @ FormatUint10 (ucast (f_FillIndex fill))
     else eventID @ ''-'' @ FormatUint10 (ucast (f_FillIndex fill)))"

definition applyLevel :: "WSDepthLevel \<Rightarrow> marketState \<Rightarrow> marketState" where
  "applyLevel l s =
     (if maxPriceTick < wd_PriceTick l then s
      else if normalizeDepthSide (wd_Side l) = ''ask'' then s\<lparr>ms_asks := (ms_asks s)(wd_PriceTick l := wd_TotalVolume l)\<rparr>
      else s\<lparr>ms_bids := (ms_bids s)(wd_PriceTick l := wd_TotalVolume l)\<rparr>)"

definition containsTrade :: "WSMarketTrade list \<Rightarrow> string \<Rightarrow> bool" where
  "containsTrade trades tradeID \<longleftrightarrow> list_ex (\<lambda>t. wt_TradeID t = tradeID) trades"

text \<open>The new trades first, then the old ones that are not among them, up to the limit.\<close>

fun keepTrades :: "WSMarketTrade list \<Rightarrow> WSMarketTrade list \<Rightarrow> WSMarketTrade list" where
  "keepTrades next1 [] = next1"
| "keepTrades next1 (t # ts) =
     (if publicRecentTradesLimit \<le> length next1 then next1
      else if containsTrade next1 (wt_TradeID t) then keepTrades next1 ts else keepTrades (next1 @ [t]) ts)"

definition tradeOfFill :: "string \<Rightarrow> string \<Rightarrow> MatchFill \<Rightarrow> WSMarketTrade" where
  "tradeOfFill eventID ts fill =
     \<lparr>wt_TradeID = tradeIDForFill eventID fill, wt_PriceTick = FormatUint10 (f_FillPrice fill),
      wt_FillAmount = FormatUint10 (f_FillAmount fill), wt_ExecutedAt = ts\<rparr>"

definition pointOfTrade :: "WSMarketTrade \<Rightarrow> WSPricePoint" where
  "pointOfTrade t = \<lparr>wp_Timestamp = wt_ExecutedAt t, wp_Price = wt_PriceTick t, wp_Quantity = wt_FillAmount t\<rparr>"

definition applyMatchEvent :: "MatchBatchEvent \<Rightarrow> marketState \<Rightarrow> WSMarketDelta \<times> marketState" where
  "applyMatchEvent ev s =
     (let ts = formatRFC3339 (ProducedAt ev);
          levels = compressDepthUpdates (DepthUpdates ev);
          s = s\<lparr>ms_loaded := True, ms_seq := ms_seq s + 1\<rparr>;
          s = fold applyLevel levels s;
          trades = map (tradeOfFill (EventID ev) ts) (Fills ev);
          points = map pointOfTrade trades;
          s = (if trades = [] then s
               else s\<lparr>ms_trades := keepTrades trades (ms_trades s),
                      ms_priceHistory := lastN publicPriceHistoryLimit (ms_priceHistory s @ points)\<rparr>)
      in (\<lparr>wm_Type = ''market.delta'', wm_MarketID = FormatUint10 (ev_MarketID ev), wm_Seq = FormatUint10 (ms_seq s), wm_Ts = ts,
           wm_DepthLevels = levels, wm_Trades = trades, wm_PricePoints = points\<rparr>, s))"

text \<open>The levels of one side in the order of the given ticks.\<close>

definition levelsOf :: "u8 list \<Rightarrow> (u8 \<Rightarrow> u64) \<Rightarrow> OrderLevel list" where
  "levelsOf ticks vols = map (\<lambda>p. \<lparr>lv_Price = FormatUint10 (ucast p), lv_TotalVolume = FormatUint10 (vols p)\<rparr>)
     (filter (\<lambda>p. vols p \<noteq> 0) ticks)"

definition ticksUp :: "u8 list" where "ticksUp = map of_nat [0 ..< 101]"

definition bestPrice :: "OrderLevel list \<Rightarrow> string" where
  "bestPrice levels = (case levels of [] \<Rightarrow> [] | l # _ \<Rightarrow> lv_Price l)"

definition snapshotPayload :: "marketState \<Rightarrow> u64 \<times> WSMarketSnapshotPayload" where
  "snapshotPayload s =
     (let bids = levelsOf (rev ticksUp) (ms_bids s); asks = levelsOf ticksUp (ms_asks s)
      in (ms_seq s, \<lparr>ws_MatchingEnabled = True,
            ws_Orderbook = \<lparr>wo_Bids = bids, wo_Asks = asks, wo_BestBidPrice = bestPrice bids, wo_BestAskPrice = bestPrice asks\<rparr>,
            ws_Trades = ms_trades s, ws_PriceHistory = ms_priceHistory s\<rparr>))"

section \<open>The view is a depth view\<close>

definition stateDepth :: "marketState \<Rightarrow> depths" where
  "stateDepth s = twoSides (ms_bids s) (ms_asks s)"

text \<open>The updates that a list of levels stands for.\<close>

definition asUpdate :: "WSDepthLevel \<Rightarrow> DepthUpdate" where
  "asUpdate l = \<lparr>d_Side = wd_Side l, d_PriceTick = wd_PriceTick l, d_TotalVolume = wd_TotalVolume l\<rparr>"

lemma normalize_sides [simp]: "normalizeDepthSide ''ask'' = ''ask''" "normalizeDepthSide ''bid'' = ''bid''"
  by code_simp+

lemma normalize_range: "normalizeDepthSide x = ''ask'' \<or> normalizeDepthSide x = ''bid''"
  by (simp add: normalizeDepthSide_def)

lemma normalize_idem [simp]: "normalizeDepthSide (normalizeDepthSide x) = normalizeDepthSide x"
  using normalize_range [of x] by auto

lemma applyLevel_depth:
  assumes "wd_Side l = ''ask'' \<or> wd_Side l = ''bid''"
  shows "shownDepth (stateDepth (applyLevel l s)) = shownDepth (putDepth (asUpdate l) (stateDepth s))"
  using assms
  by (intro ext) (auto simp: shownDepth_def stateDepth_def applyLevel_def asUpdate_def putDepth_def twoSides_def maxPriceTick_def not_less)

lemma applyLevels_depth:
  "list_all (\<lambda>l. wd_Side l = ''ask'' \<or> wd_Side l = ''bid'') ls \<Longrightarrow>
   shownDepth (stateDepth (fold applyLevel ls s)) = shownDepth (fold putDepth (map asUpdate ls) (stateDepth s))"
proof (induction ls arbitrary: s)
  case (Cons l ls)
  have "shownDepth (stateDepth (fold applyLevel ls (applyLevel l s))) =
      shownDepth (fold putDepth (map asUpdate ls) (stateDepth (applyLevel l s)))"
    using Cons by simp
  also have "\<dots> = shownDepth (fold putDepth (map asUpdate ls) (putDepth (asUpdate l) (stateDepth s)))"
    using Cons.prems by (intro fold_putDepth_shown applyLevel_depth) simp
  finally show ?case by simp
qed simp

text \<open>Compression keeps what the updates do: every level has its last update, once.\<close>

definition lastUpdate :: "DepthUpdate list \<Rightarrow> string \<times> u8 \<Rightarrow> DepthUpdate option" where
  "lastUpdate us k = map_option (\<lambda>u. u\<lparr>d_Side := fst k\<rparr>)
     (find (\<lambda>u. (normalizeDepthSide (d_Side u), d_PriceTick u) = k) (rev us))"

lemma latestUpdates_spec:
  assumes "latestUpdates us latest order = (latest', order')" "distinct order" "set order = dom latest"
  shows "distinct order' \<and> set order' = dom latest' \<and>
    (\<forall>k. latest' k = (case lastUpdate us k of None \<Rightarrow> latest k | Some u \<Rightarrow> Some u))"
  using assms
proof (induction us arbitrary: latest order)
  case (Cons u us)
  let ?k = "(normalizeDepthSide (d_Side u), d_PriceTick u)"
  let ?order = "if latest ?k = None then order @ [?k] else order"
  have step: "latestUpdates us (latest(?k \<mapsto> u\<lparr>d_Side := fst ?k\<rparr>)) ?order = (latest', order')"
    using Cons.prems(1) by (simp add: Let_def)
  have "distinct ?order" "set ?order = dom (latest(?k \<mapsto> u\<lparr>d_Side := fst ?k\<rparr>))"
    using Cons.prems(2,3) by (auto simp del: fun_upd_apply)
  note Cons.IH [OF step this]
  moreover have "lastUpdate (u # us) k = (case lastUpdate us k of
      None \<Rightarrow> if k = ?k then Some (u\<lparr>d_Side := fst k\<rparr>) else None | Some w \<Rightarrow> Some w)" for k
    by (auto simp: lastUpdate_def find_append split: option.split)
  ultimately show ?case by (auto split: option.splits)
qed (simp add: lastUpdate_def)

lemma compress_spec:
  "distinct (map (\<lambda>l. (wd_Side l, wd_PriceTick l)) (compressDepthUpdates us))"
  "l \<in> set (compressDepthUpdates us) \<longleftrightarrow>
     (\<exists>u. lastUpdate us (wd_Side l, wd_PriceTick l) = Some u \<and> l = \<lparr>wd_Side = d_Side u, wd_PriceTick = d_PriceTick u, wd_TotalVolume = d_TotalVolume u\<rparr>)"
proof -
  obtain latest order where lo: "latestUpdates us Map.empty [] = (latest, order)" by fastforce
  have d: "distinct order" "set order = dom latest" and "latest k = (case lastUpdate us k of None \<Rightarrow> None | Some u \<Rightarrow> Some u)" for k
    using latestUpdates_spec [OF lo] by (simp_all del: split_paired_All)
  then have l: "latest = lastUpdate us" by (intro ext) (simp split: option.split)
  have k: "d_Side u = fst key \<and> d_PriceTick u = snd key \<and> normalizeDepthSide (d_Side u) = d_Side u" if "lastUpdate us key = Some u" for key u
    using that by (auto simp: lastUpdate_def find_Some_iff)
  have c: "compressDepthUpdates us = map (\<lambda>key. let u = the (lastUpdate us key) in
      \<lparr>wd_Side = d_Side u, wd_PriceTick = d_PriceTick u, wd_TotalVolume = d_TotalVolume u\<rparr>) order"
    unfolding compressDepthUpdates_def lo l [symmetric] Let_def split
    by (rule map_cong [OF refl]) (use k d(2) l in force)
  have "map (\<lambda>l. (wd_Side l, wd_PriceTick l)) (compressDepthUpdates us) = map id order"
    unfolding c map_map by (rule map_cong [OF refl]) (use k d(2) l in force)
  then show "distinct (map (\<lambda>l. (wd_Side l, wd_PriceTick l)) (compressDepthUpdates us))" using d(1) by simp
  show "l \<in> set (compressDepthUpdates us) \<longleftrightarrow>
     (\<exists>u. lastUpdate us (wd_Side l, wd_PriceTick l) = Some u \<and> l = \<lparr>wd_Side = d_Side u, wd_PriceTick = d_PriceTick u, wd_TotalVolume = d_TotalVolume u\<rparr>)"
  proof
    assume "l \<in> set (compressDepthUpdates us)"
    then obtain key where key: "key \<in> dom (lastUpdate us)" "l = (let u = the (lastUpdate us key) in
        \<lparr>wd_Side = d_Side u, wd_PriceTick = d_PriceTick u, wd_TotalVolume = d_TotalVolume u\<rparr>)"
      unfolding c set_map d(2) l by blast
    then obtain u where u: "lastUpdate us key = Some u" by blast
    with key k [OF u] show "\<exists>u. lastUpdate us (wd_Side l, wd_PriceTick l) = Some u \<and>
        l = \<lparr>wd_Side = d_Side u, wd_PriceTick = d_PriceTick u, wd_TotalVolume = d_TotalVolume u\<rparr>" by (simp add: Let_def)
  next
    assume "\<exists>u. lastUpdate us (wd_Side l, wd_PriceTick l) = Some u \<and>
        l = \<lparr>wd_Side = d_Side u, wd_PriceTick = d_PriceTick u, wd_TotalVolume = d_TotalVolume u\<rparr>"
    then obtain u where u: "lastUpdate us (wd_Side l, wd_PriceTick l) = Some u"
      "l = \<lparr>wd_Side = d_Side u, wd_PriceTick = d_PriceTick u, wd_TotalVolume = d_TotalVolume u\<rparr>" by blast
    then have "(wd_Side l, wd_PriceTick l) \<in> set order" using d(2) l by auto
    then show "l \<in> set (compressDepthUpdates us)" unfolding c set_map using u by (intro image_eqI) (simp_all add: Let_def)
  qed
qed


lemma compress_depth:
  assumes "list_all labelled us"
  shows "fold putDepth (map asUpdate (compressDepthUpdates us)) v = fold putDepth us v"
proof (intro ext)
  fix side :: string and p :: u8
  let ?ls = "compressDepthUpdates us" and ?k = "(side, p)"
  have n: "normalizeDepthSide (d_Side u) = d_Side u" if "u \<in> set us" for u
    using assms that by (auto simp: list_all_iff labelled_def)
  have "find (\<lambda>u. (normalizeDepthSide (d_Side u), d_PriceTick u) = ?k) (rev us) = find (\<lambda>u. d_Side u = side \<and> d_PriceTick u = p) (rev us)"
    by (rule find_cong [OF refl]) (simp add: n)
  then have l: "fold putDepth us v side p = (case lastUpdate us ?k of None \<Rightarrow> v side p | Some u \<Rightarrow> d_TotalVolume u)"
    by (simp add: fold_putDepth_last lastUpdate_def split: option.split)
  show "fold putDepth (map asUpdate ?ls) v side p = fold putDepth us v side p"
  proof (cases "find (\<lambda>d. d_Side d = side \<and> d_PriceTick d = p) (rev (map asUpdate ?ls))")
    case None
    then have "\<not> (\<exists>l \<in> set ?ls. (wd_Side l, wd_PriceTick l) = ?k)" by (auto simp: find_None_iff asUpdate_def)
    moreover have "\<exists>l \<in> set ?ls. (wd_Side l, wd_PriceTick l) = ?k" if u: "lastUpdate us ?k = Some u" for u
    proof -
      have "d_Side u = side" "d_PriceTick u = p" using u by (auto simp: lastUpdate_def dest: find_SomeD)
      then show ?thesis
        using u compress_spec(2) [of "\<lparr>wd_Side = d_Side u, wd_PriceTick = d_PriceTick u, wd_TotalVolume = d_TotalVolume u\<rparr>" us]
        by (intro bexI [of _ "\<lparr>wd_Side = d_Side u, wd_PriceTick = d_PriceTick u, wd_TotalVolume = d_TotalVolume u\<rparr>"]) auto
    qed
    ultimately have "lastUpdate us ?k = None" by (cases "lastUpdate us ?k") auto
    then show ?thesis using None l by (simp add: fold_putDepth_last)
  next
    case (Some d)
    then obtain l where m: "l \<in> set ?ls" "d = asUpdate l" "(wd_Side l, wd_PriceTick l) = ?k"
      by (auto simp: asUpdate_def dest!: find_SomeD)
    then obtain u where "lastUpdate us ?k = Some u" "wd_TotalVolume l = d_TotalVolume u"
      using compress_spec(2) [of l us] by auto
    then show ?thesis using Some l m(2) by (simp add: fold_putDepth_last asUpdate_def)
  qed
qed

lemma applyMatchEvent_depth:
  assumes "list_all labelled (DepthUpdates ev)"
  shows "shownDepth (stateDepth (snd (applyMatchEvent ev s))) = shownDepth (fold putDepth (DepthUpdates ev) (stateDepth s))"
proof -
  let ?ls = "compressDepthUpdates (DepthUpdates ev)" and ?s = "s\<lparr>ms_loaded := True, ms_seq := ms_seq s + 1\<rparr>"
  have "list_all (\<lambda>l. wd_Side l = ''ask'' \<or> wd_Side l = ''bid'') ?ls"
    using normalize_range by (auto simp: list_all_iff compressDepthUpdates_def Let_def case_prod_beta)
  from applyLevels_depth [OF this, of ?s]
  have "shownDepth (stateDepth (fold applyLevel ?ls ?s)) = shownDepth (fold putDepth (DepthUpdates ev) (stateDepth ?s))"
    by (simp add: compress_depth [OF assms])
  moreover have "stateDepth (snd (applyMatchEvent ev s)) = stateDepth (fold applyLevel ?ls ?s)"
    by (simp add: applyMatchEvent_def stateDepth_def Let_def)
  ultimately show ?thesis by (simp add: stateDepth_def)
qed

interpretation hub: market_view stateDepth "\<lambda>ev s. snd (applyMatchEvent ev s)" k typed for k typed
  by unfold_locales (rule applyMatchEvent_depth)

section \<open>What a snapshot shows\<close>

lemma ticksUp_set: "p \<in> set ticksUp \<longleftrightarrow> p \<le> 100"
proof -
  have "p \<in> set ticksUp \<longleftrightarrow> (\<exists>i < 101. p = of_nat i)" by (auto simp: ticksUp_def)
  also have "\<dots> \<longleftrightarrow> unat p < 101" by (auto intro!: exI [of _ "unat p"] simp: unat_of_nat take_bit_nat_eq_self_iff)
  also have "\<dots> \<longleftrightarrow> p \<le> 100" by (auto simp: word_le_nat_alt)
  finally show ?thesis .
qed

lemma levelsOf_cong: "(\<And>p. p \<in> set ticks \<Longrightarrow> f p = g p) \<Longrightarrow> levelsOf ticks f = levelsOf ticks g"
  unfolding levelsOf_def by (intro map_cong filter_cong refl) auto

lemma shown_levels:
  assumes "shownDepth (stateDepth s) = shownDepth (bookDepth ob)" "set ticks \<subseteq> set ticksUp"
  shows "levelsOf ticks (ms_bids s) = levelsOf ticks (levelVolume (Bids ob))" "levelsOf ticks (ms_asks s) = levelsOf ticks (levelVolume (Asks ob))"
proof -
  have "ms_bids s p = levelVolume (Bids ob) p \<and> ms_asks s p = levelVolume (Asks ob) p" if "p \<in> set ticks" for p
    using fun_cong [OF fun_cong [OF assms(1), of "''bid''"], of p] fun_cong [OF fun_cong [OF assms(1), of "''ask''"], of p] that assms(2)
    by (auto simp: shownDepth_def stateDepth_def bookDepth_def twoSides_def ticksUp_set)
  then show "levelsOf ticks (ms_bids s) = levelsOf ticks (levelVolume (Bids ob))"
    "levelsOf ticks (ms_asks s) = levelsOf ticks (levelVolume (Asks ob))" by (auto intro: levelsOf_cong)
qed

text \<open>The best price of a side is the first level shown.\<close>

definition priceText :: "u8 \<Rightarrow> string" where
  "priceText p = (if p = 0 then [] else FormatUint10 (ucast p))"

lemma bestPrice_find:
  "bestPrice (levelsOf ticks vols) = (case find (\<lambda>p. vols p \<noteq> 0) ticks of None \<Rightarrow> [] | Some p \<Rightarrow> FormatUint10 (ucast p))"
  by (induction ticks) (simp_all add: levelsOf_def bestPrice_def)

lemma volume_iff: "levelVolume arr p \<noteq> 0 \<longleftrightarrow> hasVolume (arr p)"
  by (cases "arr p") (simp_all add: levelVolume_def hasVolume_def levelOf_def emptyLevel_def word_gt_0)

lemma volume_range: "side_ok sd arr \<Longrightarrow> hasVolume (arr p) \<Longrightarrow> 1 \<le> p \<and> p \<le> 99"
proof -
  assume ok: "side_ok sd arr" and v: "hasVolume (arr p)"
  then obtain l where l: "arr p = Some l" "0 < TotalVolume l" by (auto simp: hasVolume_def split: option.splits)
  then have "level_ok sd p l" using ok by (simp add: side_ok_def)
  moreover from this have "Queue l \<noteq> []" using l(2) by (auto simp: level_ok_def qvol_def)
  ultimately show ?thesis by (simp add: level_ok_def)
qed

lemma sorted_ticksUp: "sorted_wrt (<) ticksUp"
  by (simp add: ticksUp_def sorted_wrt_map sorted_wrt_iff_nth_less word_less_nat_alt unat_of_nat take_bit_nat_eq_self_iff)

lemma best_find:
  assumes "book_ok ob"
  shows "find (\<lambda>p. levelVolume (Asks ob) p \<noteq> 0) ticksUp = (if BestAskPrice ob = 0 then None else Some (BestAskPrice ob))"
    "find (\<lambda>p. levelVolume (Bids ob) p \<noteq> 0) (rev ticksUp) = (if BestBidPrice ob = 0 then None else Some (BestBidPrice ob))"
proof -
  have r: "hasVolume (Asks ob p) \<Longrightarrow> 1 \<le> p \<and> p \<le> 99" "hasVolume (Bids ob p) \<Longrightarrow> 1 \<le> p \<and> p \<le> 99" for p
    using assms volume_range by (auto simp: book_ok_def)
  have a: "is_best_ask (Asks ob) (BestAskPrice ob)" "is_best_bid (Bids ob) (BestBidPrice ob)" using assms by (simp_all add: book_ok_def)
  have up: "BestAskPrice ob \<le> 100" "BestBidPrice ob \<le> 100"
    using a by (auto simp: is_best_ask_def is_best_bid_def elim: order_trans)
  show "find (\<lambda>p. levelVolume (Asks ob) p \<noteq> 0) ticksUp = (if BestAskPrice ob = 0 then None else Some (BestAskPrice ob))"
  proof (cases "BestAskPrice ob = 0")
    case True
    then have "\<forall>p. 1 \<le> p \<and> p \<le> 99 \<longrightarrow> \<not> hasVolume (Asks ob p)" using a(1) by (simp add: is_best_ask_def)
    then have "\<not> hasVolume (Asks ob p)" for p using r(1) [of p] by blast
    then show ?thesis using True by (simp add: volume_iff find_None_iff)
  next
    case False
    have b: "hasVolume (Asks ob (BestAskPrice ob))" using a(1) False by (simp add: is_best_ask_def)
    have n: "\<not> hasVolume (Asks ob p)" if "p < BestAskPrice ob" for p
      using a(1) False r(1) [of p] that unfolding is_best_ask_def by blast
    have "find (\<lambda>p. levelVolume (Asks ob) p \<noteq> 0) ticksUp = Some (BestAskPrice ob)"
      by (rule find_first [OF sorted_ticksUp]) (simp_all add: volume_iff ticksUp_set up b n)
    then show ?thesis using False by simp
  qed
  have s: "sorted_wrt (\<lambda>x y. y < x) (rev ticksUp)" using sorted_ticksUp by (simp add: sorted_wrt_rev)
  show "find (\<lambda>p. levelVolume (Bids ob) p \<noteq> 0) (rev ticksUp) = (if BestBidPrice ob = 0 then None else Some (BestBidPrice ob))"
  proof (cases "BestBidPrice ob = 0")
    case True
    then have "\<forall>p. 1 \<le> p \<and> p \<le> 99 \<longrightarrow> \<not> hasVolume (Bids ob p)" using a(2) by (simp add: is_best_bid_def)
    then have "\<not> hasVolume (Bids ob p)" for p using r(2) [of p] by blast
    then show ?thesis using True by (simp add: volume_iff find_None_iff)
  next
    case False
    have b: "hasVolume (Bids ob (BestBidPrice ob))" using a(2) False by (simp add: is_best_bid_def)
    have n: "\<not> hasVolume (Bids ob p)" if "BestBidPrice ob < p" for p
      using a(2) False r(2) [of p] that unfolding is_best_bid_def by blast
    have "find (\<lambda>p. levelVolume (Bids ob) p \<noteq> 0) (rev ticksUp) = Some (BestBidPrice ob)"
      by (rule find_first [OF s]) (simp_all add: volume_iff ticksUp_set up b n)
    then show ?thesis using False by simp
  qed
qed

text \<open>The order book that a snapshot of a state shows when the state has the volumes of a book.\<close>

definition bookShown :: "FixedArrayOrderBook \<Rightarrow> WSOrderbookPayload" where
  "bookShown ob = \<lparr>wo_Bids = levelsOf (rev ticksUp) (levelVolume (Bids ob)), wo_Asks = levelsOf ticksUp (levelVolume (Asks ob)),
     wo_BestBidPrice = priceText (BestBidPrice ob), wo_BestAskPrice = priceText (BestAskPrice ob)\<rparr>"

lemma snapshot_shows:
  assumes "shownDepth (stateDepth s) = shownDepth (bookDepth ob)" "book_ok ob"
  shows "ws_Orderbook (snd (snapshotPayload s)) = bookShown ob"
  using shown_levels [OF assms(1), of ticksUp] shown_levels [OF assms(1), of "rev ticksUp"]
  by (simp add: snapshotPayload_def bookShown_def Let_def bestPrice_find best_find [OF assms(2)] priceText_def)

section \<open>Properties\<close>

text \<open>C34: the market view shows the book.  Let a view that shows the volumes of an idle market's book apply the deltas
  of a run of the engine and tick loops, with publications that fail half way and are repeated.  Provided that
  every tick of the run found nothing pending and its batch arrived, that no batch holds more than 65536 orders (the flag of the run is
  clear), and that the run leaves nothing pending, the snapshot a client gets lists exactly the levels of the book with volume, in price
  order on both sides, with the book's best prices.\<close>
theorem market_snapshot_shows_book:
  assumes "(engineStep iter assemble typed)\<^sup>*\<^sup>* ((a0, K0, []), False) ((a, K, evs), False)" "idle k a0 K0" "holdsNothing (pendingOf a)"
    "\<forall>p \<le> 100. ms_bids s0 p = levelVolume (Bids (a_Book a0)) p \<and> ms_asks s0 p = levelVolume (Asks (a_Book a0)) p"
  shows "ws_Orderbook (snd (snapshotPayload (fold (\<lambda>ev s. snd (applyMatchEvent ev s)) evs s0))) =
    \<lparr>wo_Bids = levelsOf (rev ticksUp) (levelVolume (Bids (a_Book a))), wo_Asks = levelsOf ticksUp (levelVolume (Asks (a_Book a))),
     wo_BestBidPrice = priceText (BestBidPrice (a_Book a)), wo_BestAskPrice = priceText (BestAskPrice (a_Book a))\<rparr>"
proof -
  have "shownDepth (bookDepth (a_Book a0)) = shownDepth (stateDepth s0)"
    using assms(4) by (intro ext) (simp add: shownDepth_def bookDepth_def stateDepth_def twoSides_def)
  then have "hub.viewFollows s0 (newPendingBatch k (a_MarketPDA a0) 0) (a_Book a0)"
    by (auto simp: hub.viewFollows_def)
  from hub.view.run_drained [OF engineRun_clear [OF assms(1)] assms(2) _ this assms(3)]
  have f: "hub.viewFollows (fold (\<lambda>ev s. snd (applyMatchEvent ev s)) evs s0) (newPendingBatch k ''m'' 0) (a_Book a)" "book_ok (a_Book a)"
    by simp_all
  then show ?thesis using snapshot_shows [OF _ f(2)] by (simp add: hub.viewFollows_def bookShown_def)
qed

theorem market_snapshot_shows_book_witness:
  "\<exists>a evs. (engineStep (\<lambda>_. []) (\<lambda>_ _ _. None) (\<lambda>_. True))\<^sup>*\<^sup>* ((demoActor, {}, []), False) ((a, {11}, evs), False) \<and>
    wo_BestBidPrice (ws_Orderbook (snd (snapshotPayload (fold (\<lambda>ev s. snd (applyMatchEvent ev s)) evs newMarketState)))) = ''45''"
proof -
  obtain a evs where r: "(marketStep (\<lambda>_. []) (\<lambda>_ _ _. None) (\<lambda>_. True))\<^sup>*\<^sup>* (demoActor, {}, []) (a, {11}, evs)"
    "holdsNothing (pendingOf a)" "a_Book a = (linkOrder demoBook demoOrder)\<lparr>LastProcessedSeq := LastProcessedSeq (a_Book a)\<rparr>"
    by (rule demo_steps [of "\<lambda>_. True"]) simp_all
  have "\<forall>p \<le> 100. ms_bids newMarketState p = levelVolume (Bids (a_Book demoActor)) p \<and> ms_asks newMarketState p = levelVolume (Asks (a_Book demoActor)) p"
    by (simp add: newMarketState_def demoActor_def NewMarketActor_def NewFixedArrayOrderBook_def levelVolume_def levelOf_def emptyLevel_def)
  from market_snapshot_shows_book [OF marketRun_clear [OF r(1)] demo_idle r(2) this] demo_resting(4) [OF r(3)]
  have "wo_BestBidPrice (ws_Orderbook (snd (snapshotPayload (fold (\<lambda>ev s. snd (applyMatchEvent ev s)) evs newMarketState)))) = priceText 45"
    by simp
  moreover have "priceText 45 = ''45''" by code_simp
  ultimately show ?thesis using marketRun_clear [OF r(1)] by auto
qed

end
