(* ===== verification/Hub.thy ===== *)
theory Hub
  imports MarketView
begin

text \<open>
  The websocket hub of one market (\<open>pusher/hub.go\<close>): the goroutine of the hot stream, which applies an event and
  broadcasts its delta, and the goroutines of the connections, each of which registers, takes a snapshot and
  catches up before it goes live.  The steps of the relation are the sections that run under a lock; they
  interleave freely.  The single subscription of the hot stream runs its handler on one message at a time.

  A connection's \<open>cn_send\<close> lists what was put into its channel while its socket was open; the write pump takes
  from it.  Whether a channel is full is an argument of the step.  A message that finds the channel full closes the
  socket, and nothing put into the channel later reaches the client.  The state keeps two fields for the statements only: the state that was loaded
  and the events applied since.
\<close>

section \<open>Connections\<close>

datatype wsBody = SnapshotBody u64 WSMarketSnapshotPayload | DeltaBody WSMarketDelta

record wsConnection =
  cn_send :: "wsBody list"
  cn_open :: bool
  cn_closed :: bool
  cn_bootstrapping :: bool
  cn_pending :: "(u64 \<times> wsBody) list"

definition newConnection :: wsConnection where
  "newConnection = \<lparr>cn_send = [], cn_open = True, cn_closed = False, cn_bootstrapping = True, cn_pending = []\<rparr>"

definition enqueueRaw :: "bool \<Rightarrow> wsBody \<Rightarrow> wsConnection \<Rightarrow> wsConnection" where
  "enqueueRaw full body c =
     (if full then c\<lparr>cn_open := False\<rparr> else if cn_open c then c\<lparr>cn_send := cn_send c @ [body]\<rparr> else c)"

text \<open>\<open>None\<close> is the panic of a send on a closed channel.\<close>

definition enqueueMarket :: "bool \<Rightarrow> u64 \<Rightarrow> wsBody \<Rightarrow> wsConnection \<Rightarrow> wsConnection option" where
  "enqueueMarket full sq body c =
     (if cn_bootstrapping c then Some (c\<lparr>cn_pending := cn_pending c @ [(sq, body)]\<rparr>)
      else if cn_closed c then None else Some (enqueueRaw full body c))"

text \<open>One round of the loop of \<open>finishMarketBootstrap\<close> under its lock: what it will send next.\<close>

definition bootstrapRound :: "u64 \<Rightarrow> wsConnection \<Rightarrow> wsBody list \<times> wsConnection" where
  "bootstrapRound snapshotSeq c =
     (let items = map snd (filter (\<lambda>(sq, body). snapshotSeq < sq) (cn_pending c))
      in (items, c\<lparr>cn_pending := [], cn_bootstrapping := (items \<noteq> [])\<rparr>))"

section \<open>The hub\<close>

text \<open>Where the publisher and the goroutine of a connection are.\<close>

datatype publisher = PubIdle | PubApplied WSMarketDelta | PubSending WSMarketDelta "nat list" | PubCrashed

datatype bootPhase = NotConnected | Registered | HasSnapshot u64 wsBody | Catching u64 | Draining u64 "wsBody list" | Live | Gone

record hubState =
  hb_state :: marketState
  hb_room :: "nat set"
  hb_conns :: "nat \<Rightarrow> wsConnection"
  hb_boot :: "nat \<Rightarrow> bootPhase"
  hb_pub :: publisher
  hb_base :: marketState
  hb_events :: "MatchBatchEvent list"

definition newHub :: hubState where
  "newHub = \<lparr>hb_state = newMarketState, hb_room = {}, hb_conns = (\<lambda>_. newConnection), hb_boot = (\<lambda>_. NotConnected), hb_pub = PubIdle,
     hb_base = newMarketState, hb_events = []\<rparr>"

text \<open>\<open>ensureLoaded\<close> on the hub's state: the first caller's answer of the data source counts.\<close>

definition loadState :: "marketData option \<Rightarrow> hubState \<Rightarrow> hubState" where
  "loadState source h = (if ms_loaded (hb_state h) then h
     else h\<lparr>hb_state := ensureLoaded source (hb_state h), hb_base := ensureLoaded source (hb_state h)\<rparr>)"

text \<open>\<open>PublishMarketDelta\<close> up to the broadcast.\<close>

definition applyEvent :: "MatchBatchEvent \<Rightarrow> hubState \<Rightarrow> hubState" where
  "applyEvent ev h = (let (delta, s) = applyMatchEvent ev (hb_state h)
     in h\<lparr>hb_state := s, hb_pub := PubApplied delta, hb_events := hb_events h @ [ev]\<rparr>)"

text \<open>The versions that \<open>handleMessage\<close> lets through.\<close>

definition acceptedVersion :: "MatchBatchEvent \<Rightarrow> bool" where
  "acceptedVersion ev \<longleftrightarrow> SchemaVersion ev = 0 \<or> SchemaVersion ev = 1"

definition updConn :: "nat \<Rightarrow> wsConnection \<Rightarrow> bootPhase \<Rightarrow> hubState \<Rightarrow> hubState" where
  "updConn c conn phase h = h\<lparr>hb_conns := (hb_conns h)(c := conn), hb_boot := (hb_boot h)(c := phase)\<rparr>"

definition registerMarket :: "nat \<Rightarrow> hubState \<Rightarrow> hubState" where
  [simp]: "registerMarket c h = (updConn c newConnection Registered h)\<lparr>hb_room := insert c (hb_room h)\<rparr>"

definition unregister :: "nat \<Rightarrow> hubState \<Rightarrow> hubState" where
  [simp]: "unregister c h = (updConn c ((hb_conns h c)\<lparr>cn_open := False, cn_closed := True\<rparr>) Gone h)\<lparr>hb_room := hb_room h - {c}\<rparr>"

text \<open>The sequence number of a delta is the one of the state it was made with.\<close>

definition pubSeq :: "hubState \<Rightarrow> u64" where "pubSeq h = ms_seq (hb_state h)"

text \<open>A panic ends the process: no step follows it.\<close>

inductive hubStep :: "hubState \<Rightarrow> hubState \<Rightarrow> bool" where
  load: "hb_pub h \<noteq> PubCrashed \<Longrightarrow> hubStep h (loadState source h)"
| applied: "hb_pub h = PubIdle \<Longrightarrow> acceptedVersion ev \<Longrightarrow> ms_loaded (hb_state h) \<Longrightarrow> hubStep h (applyEvent ev h)"
| collect: "hb_pub h = PubApplied d \<Longrightarrow> distinct cs \<Longrightarrow> set cs = hb_room h \<Longrightarrow> hubStep h (h\<lparr>hb_pub := PubSending d cs\<rparr>)"
| send: "hb_pub h = PubSending d (c # cs) \<Longrightarrow> enqueueMarket full (pubSeq h) (DeltaBody d) (hb_conns h c) = Some conn \<Longrightarrow>
     hubStep h (h\<lparr>hb_conns := (hb_conns h)(c := conn), hb_pub := PubSending d cs\<rparr>)"
| crash: "hb_pub h = PubSending d (c # cs) \<Longrightarrow> enqueueMarket full (pubSeq h) (DeltaBody d) (hb_conns h c) = None \<Longrightarrow>
     hubStep h (h\<lparr>hb_pub := PubCrashed\<rparr>)"
| sent: "hb_pub h = PubSending d [] \<Longrightarrow> hubStep h (h\<lparr>hb_pub := PubIdle\<rparr>)"
| connect: "hb_pub h \<noteq> PubCrashed \<Longrightarrow> hb_boot h c = NotConnected \<Longrightarrow> hubStep h (registerMarket c h)"
| snapshot: "hb_pub h \<noteq> PubCrashed \<Longrightarrow> hb_boot h c = Registered \<Longrightarrow> ms_loaded (hb_state h) \<Longrightarrow> snapshotPayload (hb_state h) = (sq, payload) \<Longrightarrow>
     hubStep h (h\<lparr>hb_boot := (hb_boot h)(c := HasSnapshot sq (SnapshotBody sq payload))\<rparr>)"
| first: "hb_pub h \<noteq> PubCrashed \<Longrightarrow> hb_boot h c = HasSnapshot sq body \<Longrightarrow> hubStep h (updConn c (enqueueRaw full body (hb_conns h c)) (Catching sq) h)"
| round: "hb_pub h \<noteq> PubCrashed \<Longrightarrow> hb_boot h c = Catching sq \<Longrightarrow> bootstrapRound sq (hb_conns h c) = (items, conn) \<Longrightarrow>
     hubStep h (updConn c conn (if items = [] then Live else Draining sq items) h)"
| drain: "hb_pub h \<noteq> PubCrashed \<Longrightarrow> hb_boot h c = Draining sq (body # bs) \<Longrightarrow> hubStep h (updConn c (enqueueRaw full body (hb_conns h c)) (Draining sq bs) h)"
| drained: "hb_pub h \<noteq> PubCrashed \<Longrightarrow> hb_boot h c = Draining sq [] \<Longrightarrow> hubStep h (h\<lparr>hb_boot := (hb_boot h)(c := Catching sq)\<rparr>)"
| unregister: "hb_pub h \<noteq> PubCrashed \<Longrightarrow> hb_boot h c = Registered \<or> hb_boot h c = Live \<Longrightarrow>
     hubStep h (unregister c h)"

inductive_cases hubStep_elim: "hubStep h h'"

definition reachableHub :: "hubState \<Rightarrow> bool" where
  "reachableHub h \<longleftrightarrow> hubStep\<^sup>*\<^sup>* newHub h"

section \<open>What was published\<close>

fun publishedDeltas :: "marketState \<Rightarrow> MatchBatchEvent list \<Rightarrow> WSMarketDelta list" where
  "publishedDeltas s [] = []"
| "publishedDeltas s (ev # evs) = fst (applyMatchEvent ev s) # publishedDeltas (snd (applyMatchEvent ev s)) evs"

definition stateAfter :: "marketState \<Rightarrow> MatchBatchEvent list \<Rightarrow> marketState" where
  "stateAfter s evs = fold (\<lambda>ev s. snd (applyMatchEvent ev s)) evs s"

lemma stateAfter_simps [simp]:
  "stateAfter s [] = s" "stateAfter s (evs @ [ev]) = snd (applyMatchEvent ev (stateAfter s evs))"
  "stateAfter s (ev # evs) = stateAfter (snd (applyMatchEvent ev s)) evs"
  by (simp_all add: stateAfter_def)

lemma published_append [simp]:
  "publishedDeltas s (evs @ [ev]) = publishedDeltas s evs @ [fst (applyMatchEvent ev (stateAfter s evs))]"
  by (induction evs arbitrary: s) simp_all

lemma published_length [simp]: "length (publishedDeltas s evs) = length evs"
  by (induction evs arbitrary: s) simp_all

lemma seq_after: "ms_seq (snd (applyMatchEvent ev s)) = ms_seq s + 1" "ms_loaded (snd (applyMatchEvent ev s))"
proof -
  have "ms_seq (fold applyLevel ls s) = ms_seq s \<and> ms_loaded (fold applyLevel ls s) = ms_loaded s" for ls and s :: marketState
    by (induction ls arbitrary: s) (simp_all add: applyLevel_def)
  then show "ms_seq (snd (applyMatchEvent ev s)) = ms_seq s + 1" "ms_loaded (snd (applyMatchEvent ev s))"
    by (simp_all add: applyMatchEvent_def Let_def)
qed

lemma stateAfter_seq: "ms_seq (stateAfter s evs) = ms_seq s + of_nat (length evs)"
  by (induction evs rule: rev_induct) (simp_all add: seq_after)

section \<open>The invariant\<close>

abbreviation published :: "hubState \<Rightarrow> WSMarketDelta list" where
  "published h \<equiv> publishedDeltas (hb_base h) (hb_events h)"

text \<open>The bodies with numbers above \<open>a\<close> up to \<open>b\<close>, as they are sent and as they are put aside.\<close>

definition bodies :: "WSMarketDelta list \<Rightarrow> nat \<Rightarrow> nat \<Rightarrow> wsBody list" where
  "bodies ds a b = map (\<lambda>i. DeltaBody (ds ! i)) [a ..< b]"

definition aside :: "WSMarketDelta list \<Rightarrow> nat \<Rightarrow> nat \<Rightarrow> (u64 \<times> wsBody) list" where
  "aside ds a b = map (\<lambda>i. (of_nat (Suc i), DeltaBody (ds ! i))) [a ..< b]"

text \<open>The last number that was offered to a connection of the room.\<close>

definition offered :: "hubState \<Rightarrow> nat \<Rightarrow> nat" where
  "offered h c = (case hb_pub h of
     PubApplied d \<Rightarrow> length (hb_events h) - 1
   | PubSending d cs \<Rightarrow> if c \<in> set cs then length (hb_events h) - 1 else length (hb_events h)
   | _ \<Rightarrow> length (hb_events h))"

definition snapshotAt :: "hubState \<Rightarrow> nat \<Rightarrow> wsBody" where
  "snapshotAt h n = SnapshotBody (of_nat n) (snd (snapshotPayload (stateAfter (hb_base h) (take n (hb_events h)))))"

definition staleOK :: "hubState \<Rightarrow> nat \<Rightarrow> wsBody list \<Rightarrow> bool" where
  "staleOK h S stale \<longleftrightarrow> stale = [] \<or> (0 < S \<and> stale = [DeltaBody (published h ! (S - 1))])"

definition gapless :: "hubState \<Rightarrow> wsBody list \<Rightarrow> bool" where
  "gapless h bs \<longleftrightarrow> bs = [] \<or> (\<exists>S n stale. S \<le> n \<and> n \<le> length (hb_events h) \<and> staleOK h S stale \<and>
     bs = snapshotAt h S # stale @ bodies (published h) S n)"

text \<open>An open connection by its phase, \<open>tp\<close> being the last number offered to it and \<open>p\<close> the last one taken out
  of the pending list.\<close>

definition connOK :: "hubState \<Rightarrow> nat \<Rightarrow> bootPhase \<Rightarrow> wsConnection \<Rightarrow> bool" where
  "connOK h tp phase conn \<longleftrightarrow> (let ds = published h; N = length (hb_events h) in
     case phase of
       NotConnected \<Rightarrow> True
     | Registered \<Rightarrow> cn_send conn = [] \<and> cn_bootstrapping conn \<and> (\<exists>p \<le> tp. cn_pending conn = aside ds p tp)
     | HasSnapshot sq body \<Rightarrow> cn_send conn = [] \<and> cn_bootstrapping conn \<and>
         (\<exists>S \<le> N. sq = of_nat S \<and> body = snapshotAt h S \<and> (\<exists>p \<le> tp. p \<le> S \<and> cn_pending conn = aside ds p tp))
     | Catching sq \<Rightarrow> cn_bootstrapping conn \<and>
         (\<exists>S \<le> N. sq = of_nat S \<and> (\<exists>p \<le> tp. cn_pending conn = aside ds p tp \<and> cn_send conn = snapshotAt h S # bodies ds S (max p S)))
     | Draining sq bs \<Rightarrow> cn_bootstrapping conn \<and>
         (\<exists>S \<le> N. sq = of_nat S \<and> (\<exists>p \<le> tp. \<exists>q. S \<le> q \<and> q \<le> max p S \<and> cn_pending conn = aside ds p tp \<and>
            cn_send conn = snapshotAt h S # bodies ds S q \<and> bs = bodies ds q (max p S)))
     | Live \<Rightarrow> \<not> cn_bootstrapping conn \<and>
         (\<exists>S \<le> N. \<exists>stale. staleOK h S stale \<and> (stale = [] \<or> S \<le> tp) \<and> S \<le> Suc tp \<and>
            cn_send conn = snapshotAt h S # stale @ bodies ds S (max tp S))
     | Gone \<Rightarrow> False)"

definition pubOK :: "hubState \<Rightarrow> bool" where
  "pubOK h \<longleftrightarrow> (case hb_pub h of PubApplied d \<Rightarrow> hb_events h \<noteq> [] \<and> d = last (published h)
      | PubSending d cs \<Rightarrow> hb_events h \<noteq> [] \<and> d = last (published h) \<and> distinct cs \<and> (\<forall>c \<in> set cs. hb_boot h c \<noteq> NotConnected)
      | _ \<Rightarrow> True)"

definition stateOK :: "hubState \<Rightarrow> bool" where
  "stateOK h \<longleftrightarrow> hb_state h = stateAfter (hb_base h) (hb_events h) \<and> ms_seq (hb_base h) = 0 \<and>
     (ms_loaded (hb_state h) \<or> (hb_events h = [] \<and> (\<forall>c. cn_send (hb_conns h c) = [] \<and> hb_boot h c \<in> {NotConnected, Registered, Gone})))"

definition roomOK :: "hubState \<Rightarrow> nat \<Rightarrow> bool" where
  "roomOK h c \<longleftrightarrow> (case hb_boot h c of NotConnected \<Rightarrow> c \<notin> hb_room h | Gone \<Rightarrow> \<not> cn_open (hb_conns h c) | _ \<Rightarrow> c \<in> hb_room h)"

definition hubInv :: "hubState \<Rightarrow> bool" where
  "hubInv h \<longleftrightarrow> stateOK h \<and> pubOK h \<and> (\<forall>c. roomOK h c \<and> gapless h (cn_send (hb_conns h c)) \<and>
     (hb_pub h \<noteq> PubCrashed \<longrightarrow> cn_open (hb_conns h c) \<longrightarrow> connOK h (offered h c) (hb_boot h c) (hb_conns h c)))"

lemma roomOK_cong:
  "hb_boot h' c = hb_boot h c \<Longrightarrow> hb_conns h' c = hb_conns h c \<Longrightarrow> hb_room h' = hb_room h \<Longrightarrow> roomOK h' c = roomOK h c"
  by (simp add: roomOK_def split: bootPhase.split)

lemma conn_cong:
  assumes "hb_base h' = hb_base h" "hb_events h' = hb_events h"
  shows "connOK h' = connOK h" "gapless h' = gapless h"
proof -
  have e: "snapshotAt h' = snapshotAt h" "staleOK h' = staleOK h" by (simp_all add: assms snapshotAt_def staleOK_def fun_eq_iff)
  have "connOK h' t ph cn = connOK h t ph cn" for t ph cn by (cases ph) (simp_all add: assms e connOK_def Let_def)
  moreover have "gapless h' bs = gapless h bs" for bs by (simp add: assms e gapless_def)
  ultimately show "connOK h' = connOK h" "gapless h' = gapless h" by (auto simp: fun_eq_iff)
qed

lemma connOK_intros:
  "S \<le> length (hb_events h) \<Longrightarrow> p \<le> tp \<Longrightarrow> p \<le> S \<Longrightarrow> cn_send cn = [] \<Longrightarrow> cn_bootstrapping cn \<Longrightarrow>
     cn_pending cn = aside (published h) p tp \<Longrightarrow> connOK h tp (HasSnapshot (of_nat S) (snapshotAt h S)) cn"
  "S \<le> length (hb_events h) \<Longrightarrow> p \<le> tp \<Longrightarrow> cn_bootstrapping cn \<Longrightarrow> cn_pending cn = aside (published h) p tp \<Longrightarrow>
     cn_send cn = snapshotAt h S # bodies (published h) S (max p S) \<Longrightarrow> connOK h tp (Catching (of_nat S)) cn"
  "S \<le> length (hb_events h) \<Longrightarrow> p \<le> tp \<Longrightarrow> S \<le> q \<Longrightarrow> q \<le> max p S \<Longrightarrow> cn_bootstrapping cn \<Longrightarrow>
     cn_pending cn = aside (published h) p tp \<Longrightarrow> cn_send cn = snapshotAt h S # bodies (published h) S q \<Longrightarrow>
     bs = bodies (published h) q (max p S) \<Longrightarrow> connOK h tp (Draining (of_nat S) bs) cn"
  "S \<le> length (hb_events h) \<Longrightarrow> staleOK h S stale \<Longrightarrow> stale = [] \<or> S \<le> tp \<Longrightarrow> S \<le> Suc tp \<Longrightarrow> \<not> cn_bootstrapping cn \<Longrightarrow>
     cn_send cn = snapshotAt h S # stale @ bodies (published h) S (max tp S) \<Longrightarrow> connOK h tp Live cn"
  unfolding connOK_def Let_def bootPhase.case by blast+

lemma connOK_gapless:
  assumes "connOK h tp phase conn" "tp \<le> length (hb_events h)" "phase \<noteq> NotConnected"
  shows "gapless h (cn_send conn)"
proof -
  have *: "gapless h (snapshotAt h S # stale @ bodies (published h) S n)"
    if "S \<le> n" "n \<le> length (hb_events h)" "staleOK h S stale" for S n stale
    using that unfolding gapless_def by blast
  have nil: "staleOK h S []" for S by (simp add: staleOK_def)
  show ?thesis
  proof (cases phase)
    case (Catching sq)
    then obtain S p where "S \<le> length (hb_events h)" "p \<le> tp" "cn_send conn = snapshotAt h S # [] @ bodies (published h) S (max p S)"
      using assms(1) by (auto simp: connOK_def Let_def)
    then show ?thesis using * [of S "max p S" "[]"] assms(2) nil by simp
  next
    case (Draining sq bs)
    then obtain S p q where "S \<le> length (hb_events h)" "p \<le> tp" "S \<le> q" "q \<le> max p S"
      "cn_send conn = snapshotAt h S # [] @ bodies (published h) S q"
      using assms(1) by (auto simp: connOK_def Let_def)
    then show ?thesis using * [of S q "[]"] assms(2) nil by simp
  next
    case Live
    then obtain S stale where "S \<le> length (hb_events h)" "staleOK h S stale"
      "cn_send conn = snapshotAt h S # stale @ bodies (published h) S (max tp S)"
      using assms(1) by (auto simp: connOK_def Let_def)
    then show ?thesis using * [of S "max tp S" stale] assms(2) by simp
  qed (use assms in \<open>simp_all add: connOK_def gapless_def Let_def\<close>)
qed

lemma offered_le: "offered h c \<le> length (hb_events h)" "length (hb_events h) \<le> Suc (offered h c)"
  by (auto simp: offered_def split: publisher.split)

lemma hubInv_conn:
  assumes "hubInv h"
  shows "roomOK h c" "gapless h (cn_send (hb_conns h c))"
    "hb_pub h \<noteq> PubCrashed \<Longrightarrow> cn_open (hb_conns h c) \<Longrightarrow> connOK h (offered h c) (hb_boot h c) (hb_conns h c)"
  using assms unfolding hubInv_def by blast+

text \<open>A step of one connection leaves the others alone.\<close>

lemma inv_conn:
  assumes I: "hubInv h" and eq: "hb_base h' = hb_base h" "hb_events h' = hb_events h" "hb_pub h' = hb_pub h" "hb_state h' = hb_state h"
    and run: "hb_pub h \<noteq> PubCrashed" and ld: "ms_loaded (hb_state h) \<or> (cn_send (hb_conns h' c) = [] \<and> hb_boot h' c \<in> {NotConnected, Registered, Gone})"
    and others: "\<And>j. j \<noteq> c \<Longrightarrow> hb_conns h' j = hb_conns h j \<and> hb_boot h' j = hb_boot h j \<and> (j \<in> hb_room h' \<longleftrightarrow> j \<in> hb_room h)"
    and room: "roomOK h' c" and nc: "hb_boot h' c \<noteq> NotConnected"
    and open1: "cn_open (hb_conns h' c) \<Longrightarrow> connOK h (offered h c) (hb_boot h' c) (hb_conns h' c)"
    and closed: "\<not> cn_open (hb_conns h' c) \<Longrightarrow> gapless h (cn_send (hb_conns h' c))"
  shows "hubInv h'"
proof -
  note cc = conn_cong [OF eq(1,2)]
  have off: "offered h' j = offered h j" for j by (simp add: offered_def eq split: publisher.split)
  have "stateOK h'"
    using I ld others by (cases "ms_loaded (hb_state h)") (simp_all add: hubInv_def stateOK_def eq, metis)
  moreover have "pubOK h'"
    using I others nc unfolding hubInv_def pubOK_def eq by (auto split: publisher.splits) metis
  moreover have "roomOK h' j \<and> gapless h' (cn_send (hb_conns h' j)) \<and>
     (hb_pub h' \<noteq> PubCrashed \<longrightarrow> cn_open (hb_conns h' j) \<longrightarrow> connOK h' (offered h' j) (hb_boot h' j) (hb_conns h' j))" for j
  proof (cases "j = c")
    case True
    have "gapless h (cn_send (hb_conns h' c))"
      using connOK_gapless [OF open1 offered_le(1) nc] closed by blast
    then show ?thesis using True room open1 by (simp add: cc off)
  next
    case False
    have "roomOK h' j = roomOK h j" using others [OF False] by (simp add: roomOK_def split: bootPhase.split)
    then show ?thesis using I others [OF False] by (simp add: hubInv_def cc off eq)
  qed
  ultimately show ?thesis by (simp add: hubInv_def)
qed

section \<open>Every step keeps it\<close>

lemma bodies_simps [simp]:
  "b \<le> a \<Longrightarrow> bodies ds a b = []" "b \<le> a \<Longrightarrow> aside ds a b = []"
  "a \<le> b \<Longrightarrow> bodies ds a (Suc b) = bodies ds a b @ [DeltaBody (ds ! b)]"
  "a \<le> b \<Longrightarrow> aside ds a (Suc b) = aside ds a b @ [(of_nat (Suc b), DeltaBody (ds ! b))]"
  by (simp_all add: bodies_def aside_def)

lemma filter_upt: "filter (\<lambda>i. S \<le> i) [p ..< t] = [max p S ..< t]"
  by (induction t) (auto simp: max_def)

lemma round_items:
  assumes "t < 2 ^ 64" "S < 2 ^ 64"
  shows "map snd (filter (\<lambda>(sq, body). (of_nat S :: u64) < sq) (aside ds p t)) = bodies ds (max p S) t"
proof -
  have "(of_nat S :: u64) < of_nat (Suc i) \<longleftrightarrow> S \<le> i" if "i < t" for i
    using that assms by (simp add: word_less_nat_alt unat_of_nat take_bit_nat_eq_self_iff less_Suc_eq_le del: of_nat_Suc)
  then have "filter ((\<lambda>(sq, body). (of_nat S :: u64) < sq) \<circ> (\<lambda>i. (of_nat (Suc i), DeltaBody (ds ! i)))) [p ..< t] = filter (\<lambda>i. S \<le> i) [p ..< t]"
    by (intro filter_cong) (simp_all del: of_nat_Suc)
  then show ?thesis by (simp add: aside_def bodies_def filter_map filter_upt del: of_nat_Suc)
qed

lemma grow:
  assumes "hb_base h' = hb_base h" "hb_events h' = hb_events h @ [ev]" "t \<le> length (hb_events h)"
  shows "connOK h t ph cn \<Longrightarrow> connOK h' t ph cn" "gapless h bs \<Longrightarrow> gapless h' bs"
proof -
  let ?N = "length (hb_events h)"
  have e1: "S \<le> ?N \<Longrightarrow> snapshotAt h' S = snapshotAt h S" for S by (simp add: snapshotAt_def assms)
  have nth: "i < ?N \<Longrightarrow> published h' ! i = published h ! i" for i by (simp add: assms nth_append)
  have e2: "m \<le> ?N \<Longrightarrow> bodies (published h') S m = bodies (published h) S m" for S m
    unfolding bodies_def by (intro map_cong refl) (use nth in simp)
  have e3: "aside (published h') p t = aside (published h) p t" for p
    unfolding aside_def by (intro map_cong refl) (use nth assms(3) in simp)
  have e4: "S \<le> ?N \<Longrightarrow> staleOK h' S stale = staleOK h S stale" for S stale using nth [of "S - 1"] by (auto simp: staleOK_def)
  have len: "length (hb_events h') = Suc ?N" by (simp add: assms)
  note e = e1 e2 e3 e4 len
  show "connOK h' t ph cn" if "connOK h t ph cn"
  proof (cases ph)
    case (HasSnapshot sq body)
    then obtain S p where "S \<le> ?N" "sq = of_nat S" "body = snapshotAt h S" "p \<le> t" "p \<le> S" "cn_pending cn = aside (published h) p t"
      "cn_send cn = []" "cn_bootstrapping cn" using \<open>connOK h t ph cn\<close> by (auto simp: connOK_def Let_def)
    then show ?thesis using HasSnapshot connOK_intros(1) [of S h' p t cn] by (simp add: e3 len e1)
  next
    case (Catching sq)
    then obtain S p where "S \<le> ?N" "sq = of_nat S" "p \<le> t" "cn_pending cn = aside (published h) p t" "cn_bootstrapping cn"
      "cn_send cn = snapshotAt h S # bodies (published h) S (max p S)" using \<open>connOK h t ph cn\<close> by (auto simp: connOK_def Let_def)
    then show ?thesis using Catching assms(3) connOK_intros(2) [of S h' p t cn] by (simp add: e)
  next
    case (Draining sq bs)
    then obtain S p q where d: "S \<le> ?N" "sq = of_nat S" "p \<le> t" "cn_pending cn = aside (published h) p t" "cn_bootstrapping cn"
      "S \<le> q" "q \<le> max p S" "cn_send cn = snapshotAt h S # bodies (published h) S q" "bs = bodies (published h) q (max p S)"
      using \<open>connOK h t ph cn\<close> by (auto simp: connOK_def Let_def)
    have "q \<le> ?N" "max p S \<le> ?N" using d(1,3,6,7) assms(3) by auto
    then show ?thesis
      unfolding Draining d(2) using d by (intro connOK_intros(3) [of S h' p t q]) (simp_all add: e)
  next
    case Live
    then obtain S stale where "S \<le> ?N" "staleOK h S stale" "stale = [] \<or> S \<le> t" "S \<le> Suc t" "\<not> cn_bootstrapping cn"
      "cn_send cn = snapshotAt h S # stale @ bodies (published h) S (max t S)" using \<open>connOK h t ph cn\<close> by (auto simp: connOK_def Let_def)
    then show ?thesis using Live assms(3) connOK_intros(4) [of S h' stale t cn] by (simp add: e)
  qed (use that in \<open>simp_all add: connOK_def Let_def e\<close>)
  show "gapless h' bs" if "gapless h bs"
  proof (cases "bs = []")
    case False
    then obtain S n stale where "S \<le> n" "n \<le> ?N" "staleOK h S stale" "bs = snapshotAt h S # stale @ bodies (published h) S n"
      using \<open>gapless h bs\<close> by (auto simp: gapless_def)
    then show ?thesis unfolding gapless_def by (intro disjI2 exI [of _ S] exI [of _ n] exI [of _ stale]) (simp add: e1 e2 e4 len)
  qed (simp add: gapless_def)
qed

lemma applied_inv:
  assumes I: "hubInv h" and p: "hb_pub h = PubIdle" and ld: "ms_loaded (hb_state h)"
  shows "hubInv (applyEvent ev h)"
proof -
  let ?h = "applyEvent ev h"
  have st: "hb_state h = stateAfter (hb_base h) (hb_events h)" "ms_seq (hb_base h) = 0" using I by (simp_all add: hubInv_def stateOK_def)
  have e: "hb_base ?h = hb_base h" "hb_events ?h = hb_events h @ [ev]" "hb_conns ?h = hb_conns h" "hb_boot ?h = hb_boot h" "hb_room ?h = hb_room h"
    "hb_state ?h = snd (applyMatchEvent ev (hb_state h))" "hb_pub ?h = PubApplied (fst (applyMatchEvent ev (hb_state h)))"
    by (simp_all add: applyEvent_def case_prod_beta Let_def)
  have o: "offered ?h c = length (hb_events h)" "offered h c = length (hb_events h)" for c by (simp_all add: offered_def e p)
  have "stateOK ?h" using st by (simp add: stateOK_def e seq_after)
  moreover have "pubOK ?h" by (simp add: pubOK_def e st(1))
  moreover have "roomOK ?h c = roomOK h c" for c by (rule roomOK_cong) (simp_all add: e)
  ultimately show ?thesis
    using I grow [OF e(1,2) le_refl] unfolding hubInv_def by (simp add: e o p)
qed

lemma collect_inv:
  assumes I: "hubInv h" and p: "hb_pub h = PubApplied d" and cs: "distinct cs" "set cs = hb_room h"
  shows "hubInv (h\<lparr>hb_pub := PubSending d cs\<rparr>)"
proof -
  let ?h = "h\<lparr>hb_pub := PubSending d cs\<rparr>"
  note cc = conn_cong [of ?h h, simplified]
  have r: "roomOK ?h c = roomOK h c" for c by (rule roomOK_cong) simp_all
  have "stateOK ?h = stateOK h" by (simp add: stateOK_def)
  then have "stateOK ?h" using I by (simp add: hubInv_def)
  moreover have "pubOK ?h"
    using I cs p by (fastforce simp: hubInv_def pubOK_def roomOK_def split: bootPhase.splits)
  moreover have "connOK h (offered ?h c) (hb_boot h c) (hb_conns h c)" if "cn_open (hb_conns h c)" for c
  proof (cases "c \<in> hb_room h")
    case True
    then have "offered ?h c = offered h c" by (simp add: offered_def p cs)
    then show ?thesis using I that p by (simp add: hubInv_def)
  next
    case False
    have "roomOK h c" using I by (simp add: hubInv_def)
    then have "hb_boot h c = NotConnected" using that False by (cases "hb_boot h c") (simp_all add: roomOK_def)
    then show ?thesis by (simp add: connOK_def)
  qed
  ultimately show ?thesis using I unfolding hubInv_def by (simp add: cc r)
qed

text \<open>An open connection receives the delta that the publisher is sending.\<close>

lemma send_conn:
  assumes c: "connOK h t ph cn" "t = length (hb_events h) - 1" "hb_events h \<noteq> []" "ph \<noteq> NotConnected"
    and e: "enqueueMarket full (of_nat (length (hb_events h))) (DeltaBody (last (published h))) cn = Some cn'" and o: "cn_open cn'"
  shows "connOK h (Suc t) ph cn'"
proof -
  let ?ds = "published h" and ?N = "length (hb_events h)"
  have N: "?N = Suc t" using c(2,3) by (cases "hb_events h") simp_all
  have L: "length ?ds = Suc t" by (simp add: N)
  then have "?ds \<noteq> []" by (cases ?ds) simp_all
  from last_conv_nth [OF this] have d: "last ?ds = ?ds ! t" unfolding L by simp
  have boot: "cn_bootstrapping cn \<Longrightarrow> cn' = cn\<lparr>cn_pending := cn_pending cn @ [(of_nat (Suc t), DeltaBody (?ds ! t))]\<rparr>"
    using e by (simp add: enqueueMarket_def N d)
  show ?thesis
  proof (cases ph)
    case Registered
    then obtain p where "p \<le> t" "cn_pending cn = aside ?ds p t" "cn_send cn = []" "cn_bootstrapping cn"
      using c(1) by (auto simp: connOK_def Let_def)
    then show ?thesis using Registered boot by (auto simp: connOK_def Let_def intro!: exI [of _ p])
  next
    case (HasSnapshot sq body)
    then obtain S p where "S \<le> ?N" "sq = of_nat S" "body = snapshotAt h S" "p \<le> t" "p \<le> S" "cn_pending cn = aside ?ds p t"
      "cn_send cn = []" "cn_bootstrapping cn" using c(1) by (auto simp: connOK_def Let_def)
    then show ?thesis using HasSnapshot boot connOK_intros(1) [of S h p "Suc t" cn'] by simp
  next
    case (Catching sq)
    then obtain S p where "S \<le> ?N" "sq = of_nat S" "p \<le> t" "cn_pending cn = aside ?ds p t" "cn_bootstrapping cn"
      "cn_send cn = snapshotAt h S # bodies ?ds S (max p S)" using c(1) by (auto simp: connOK_def Let_def)
    then show ?thesis using Catching boot connOK_intros(2) [of S h p "Suc t" cn'] by simp
  next
    case (Draining sq bs)
    then obtain S p q where "S \<le> ?N" "sq = of_nat S" "p \<le> t" "cn_pending cn = aside ?ds p t" "cn_bootstrapping cn"
      "S \<le> q" "q \<le> max p S" "cn_send cn = snapshotAt h S # bodies ?ds S q" "bs = bodies ?ds q (max p S)"
      using c(1) by (auto simp: connOK_def Let_def)
    then show ?thesis using Draining boot connOK_intros(3) [of S h p "Suc t" q cn' bs] by simp
  next
    case Live
    then obtain S stale where s: "S \<le> ?N" "staleOK h S stale" "stale = [] \<or> S \<le> t" "S \<le> Suc t" "\<not> cn_bootstrapping cn"
      "cn_send cn = snapshotAt h S # stale @ bodies ?ds S (max t S)" using c(1) by (auto simp: connOK_def Let_def)
    have cn': "cn_bootstrapping cn' = cn_bootstrapping cn" "cn_send cn' = cn_send cn @ [DeltaBody (?ds ! t)]"
      using e o s(5) by (auto simp: enqueueMarket_def enqueueRaw_def d split: if_splits)
    show ?thesis
    proof (cases "S \<le> t")
      case True
      then show ?thesis unfolding Live using s cn' by (intro connOK_intros(4) [of S h stale]) (simp_all add: max_def)
    next
      case False
      then have S: "S = Suc t" "stale = []" using s by auto
      have "staleOK h S [DeltaBody (?ds ! t)]" by (simp add: staleOK_def S)
      then show ?thesis unfolding Live using s cn' S by (intro connOK_intros(4) [of S h "[DeltaBody (?ds ! t)]"]) simp_all
    qed
  qed (use c in \<open>simp_all add: connOK_def\<close>)
qed


lemma enqueue_fields:
  "cn_open (enqueueRaw full body cn) \<Longrightarrow> enqueueRaw full body cn = cn\<lparr>cn_send := cn_send cn @ [body]\<rparr> \<and> cn_open cn"
  "\<not> cn_open (enqueueRaw full body cn) \<Longrightarrow> cn_send (enqueueRaw full body cn) = cn_send cn"
  "enqueueMarket full sq body cn = Some cn' \<Longrightarrow> cn_open cn' \<Longrightarrow> cn_open cn"
  "enqueueMarket full sq body cn = Some cn' \<Longrightarrow> \<not> cn_open cn' \<Longrightarrow> cn_send cn' = cn_send cn"
  by (auto simp: enqueueRaw_def enqueueMarket_def split: if_splits)

lemma seq_number:
  assumes "hubInv h" shows "pubSeq h = of_nat (length (hb_events h))"
proof -
  have "hb_state h = stateAfter (hb_base h) (hb_events h)" "ms_seq (hb_base h) = 0" using assms by (simp_all add: hubInv_def stateOK_def)
  then show ?thesis by (simp add: pubSeq_def stateAfter_seq)
qed

lemma send_inv:
  assumes I: "hubInv h" and p: "hb_pub h = PubSending d (c # cs)"
    and e: "enqueueMarket full (pubSeq h) (DeltaBody d) (hb_conns h c) = Some conn"
  shows "hubInv (h\<lparr>hb_conns := (hb_conns h)(c := conn), hb_pub := PubSending d cs\<rparr>)"
proof -
  let ?h = "h\<lparr>hb_conns := (hb_conns h)(c := conn), hb_pub := PubSending d cs\<rparr>"
  have cc: "connOK ?h = connOK h" "gapless ?h = gapless h" by (rule conn_cong; simp)+
  have pub: "hb_events h \<noteq> []" "d = last (published h)" "c \<notin> set cs" "distinct cs" "hb_boot h c \<noteq> NotConnected"
    "\<forall>c \<in> set cs. hb_boot h c \<noteq> NotConnected" using I p by (auto simp: hubInv_def pubOK_def)
  have "stateOK ?h" using I pub(1) unfolding hubInv_def stateOK_def by auto
  moreover have "pubOK ?h" using pub by (simp add: pubOK_def)
  moreover have "roomOK ?h j \<and> gapless ?h (cn_send (hb_conns ?h j)) \<and>
     (hb_pub ?h \<noteq> PubCrashed \<longrightarrow> cn_open (hb_conns ?h j) \<longrightarrow> connOK ?h (offered ?h j) (hb_boot ?h j) (hb_conns ?h j))" for j
  proof (cases "j = c")
    case True
    have old: "roomOK h c" "gapless h (cn_send (hb_conns h c))"
      "cn_open (hb_conns h c) \<Longrightarrow> connOK h (length (hb_events h) - 1) (hb_boot h c) (hb_conns h c)"
      using hubInv_conn [OF I, of c] p by (simp_all add: offered_def)
    have "roomOK ?h c" using old(1) enqueue_fields(3) [OF e] by (auto simp: roomOK_def split: bootPhase.splits)
    moreover have opened: "connOK h (length (hb_events h)) (hb_boot h c) conn" if "cn_open conn"
      using send_conn [OF old(3) refl pub(1,5) _ that] enqueue_fields(3) [OF e that] e pub(1,2) seq_number [OF I] by simp
    moreover have "gapless h (cn_send conn)"
      using connOK_gapless [OF opened le_refl pub(5)] enqueue_fields(4) [OF e] old(2) by (cases "cn_open conn") simp_all
    moreover have "offered ?h c = length (hb_events h)" using pub(3) by (simp add: offered_def)
    ultimately show ?thesis using True by (simp add: cc)
  next
    case False
    have "roomOK ?h j = roomOK h j" using False by (simp add: roomOK_def split: bootPhase.split)
    moreover have "offered ?h j = offered h j" using False p by (simp add: offered_def)
    ultimately show ?thesis using I p False by (simp add: hubInv_def cc)
  qed
  ultimately show ?thesis by (simp add: hubInv_def)
qed

lemma done_inv:
  assumes I: "hubInv h" and p: "(\<exists>d. hb_pub h = PubSending d [] \<and> q = PubIdle) \<or> q = PubCrashed"
  shows "hubInv (h\<lparr>hb_pub := q\<rparr>)"
proof -
  let ?h = "h\<lparr>hb_pub := q\<rparr>"
  have cc: "connOK ?h = connOK h" "gapless ?h = gapless h" by (rule conn_cong; simp)+
  have "stateOK ?h = stateOK h" by (simp add: stateOK_def)
  moreover have "pubOK ?h" using p by (auto simp: pubOK_def)
  moreover have "roomOK ?h j = roomOK h j" for j by (rule roomOK_cong) simp_all
  moreover have "offered ?h j = offered h j" if "q \<noteq> PubCrashed" for j using p that by (auto simp: offered_def)
  ultimately show ?thesis using I p unfolding hubInv_def by (auto simp: cc)
qed

lemma load_inv:
  assumes I: "hubInv h" and run: "hb_pub h \<noteq> PubCrashed"
  shows "hubInv (loadState source h)"
proof (cases "ms_loaded (hb_state h)")
  case False
  let ?h = "loadState source h"
  have st: "hb_state h = stateAfter (hb_base h) (hb_events h)" "ms_seq (hb_base h) = 0" "hb_events h = []"
    "\<And>c. cn_send (hb_conns h c) = []" "\<And>c. hb_boot h c \<in> {NotConnected, Registered, Gone}"
    using I False by (simp_all add: hubInv_def stateOK_def)
  have ld: "ms_loaded (ensureLoaded source s) \<and> ms_seq (ensureLoaded source s) = ms_seq s" for s
    by (simp add: ensureLoaded_def split: option.split)
  have f: "hb_events ?h = []" "hb_conns ?h = hb_conns h" "hb_boot ?h = hb_boot h" "hb_room ?h = hb_room h" "hb_pub ?h = hb_pub h"
    "hb_state ?h = hb_base ?h" "ms_seq (hb_base ?h) = 0" "ms_loaded (hb_state ?h)"
    using False st ld by (simp_all add: loadState_def)
  have idle: "hb_pub h = PubIdle" using I st(3) run by (cases "hb_pub h") (simp_all add: hubInv_def pubOK_def)
  have "stateOK ?h" "pubOK ?h" using f idle by (simp_all add: stateOK_def pubOK_def)
  moreover have "roomOK ?h c = roomOK h c" for c by (rule roomOK_cong) (simp_all add: f)
  moreover have "connOK ?h 0 (hb_boot h c) (hb_conns h c)" if "connOK h 0 (hb_boot h c) (hb_conns h c)" for c
    using that st(5) [of c] by (auto simp: connOK_def Let_def)
  moreover have "gapless ?h []" by (simp add: gapless_def)
  ultimately show ?thesis using I st(3,4) by (simp add: hubInv_def f idle offered_def)
qed (use I in \<open>simp add: loadState_def\<close>)


subsection \<open>The steps of a connection\<close>

lemma bodies_empty: "bodies ds a b = [] \<longleftrightarrow> b \<le> a"
  by (auto simp: bodies_def)

lemma bodies_Cons: "bodies ds a b = x # xs \<Longrightarrow> a < b \<and> x = DeltaBody (ds ! a) \<and> xs = bodies ds (Suc a) b"
  by (cases "a < b") (simp_all add: bodies_def upt_conv_Cons)

lemma conn_snapshot:
  assumes I: "hubInv h" and c: "connOK h (offered h c) Registered cn" and s: "snapshotPayload (hb_state h) = (sq, payload)"
  shows "connOK h (offered h c) (HasSnapshot sq (SnapshotBody sq payload)) cn"
proof -
  have st: "hb_state h = stateAfter (hb_base h) (hb_events h)" using I by (simp add: hubInv_def stateOK_def)
  have "sq = pubSeq h" using s by (simp add: snapshotPayload_def pubSeq_def Let_def)
  then have "sq = of_nat (length (hb_events h))" using seq_number [OF I] by simp
  moreover from this have "SnapshotBody sq payload = snapshotAt h (length (hb_events h))" using s st by (simp add: snapshotAt_def)
  moreover obtain p where "p \<le> offered h c" "cn_pending cn = aside (published h) p (offered h c)" "cn_send cn = []" "cn_bootstrapping cn"
    using c by (auto simp: connOK_def Let_def)
  ultimately show ?thesis
    using connOK_intros(1) [of "length (hb_events h)" h p "offered h c" cn] offered_le(1) [of h c] by simp
qed

lemma conn_first:
  assumes c: "connOK h t (HasSnapshot sq body) cn" and o: "cn_open (enqueueRaw full body cn)"
  shows "connOK h t (Catching sq) (enqueueRaw full body cn)"
proof -
  obtain S p where "S \<le> length (hb_events h)" "sq = of_nat S" "body = snapshotAt h S" "p \<le> t" "p \<le> S" "cn_pending cn = aside (published h) p t"
    "cn_send cn = []" "cn_bootstrapping cn" using c by (auto simp: connOK_def Let_def)
  then show ?thesis using enqueue_fields(1) [OF o] connOK_intros(2) [of S h p t] by simp
qed

lemma conn_round:
  assumes c: "connOK h t (Catching sq) cn" and r: "bootstrapRound sq cn = (items, cn')"
    and t: "t \<le> length (hb_events h)" "length (hb_events h) \<le> Suc t" "length (hb_events h) < 2 ^ 64"
  shows "connOK h t (if items = [] then Live else Draining sq items) cn'"
proof -
  obtain S p where s: "S \<le> length (hb_events h)" "sq = of_nat S" "p \<le> t" "cn_pending cn = aside (published h) p t" "cn_bootstrapping cn"
    "cn_send cn = snapshotAt h S # bodies (published h) S (max p S)" using c by (auto simp: connOK_def Let_def)
  have "items = bodies (published h) (max p S) t"
    using r s(1-4) t round_items [of t S "published h" p] by (simp add: bootstrapRound_def Let_def)
  moreover have "cn' = cn\<lparr>cn_pending := [], cn_bootstrapping := (items \<noteq> [])\<rparr>" using r by (auto simp: bootstrapRound_def Let_def)
  ultimately have i: "items = bodies (published h) (max p S) t" "cn' = cn\<lparr>cn_pending := [], cn_bootstrapping := (items \<noteq> [])\<rparr>" by simp_all
  show ?thesis
  proof (cases "t \<le> max p S")
    case True
    then have "items = []" "max p S = max t S" using i(1) s(3) by auto
    then show ?thesis using i(2) s t connOK_intros(4) [of S h "[]" t cn'] by (simp add: staleOK_def)
  next
    case False
    then have "items \<noteq> []" "max t S = t" using i(1) by (auto simp: bodies_empty)
    then show ?thesis
      unfolding s(2) using i s False connOK_intros(3) [of S h t t "max p S" cn' items] by simp
  qed
qed

lemma conn_drain:
  assumes c: "connOK h t (Draining sq (body # bs)) cn" and o: "cn_open (enqueueRaw full body cn)"
  shows "connOK h t (Draining sq bs) (enqueueRaw full body cn)"
proof -
  obtain S p q where d: "S \<le> length (hb_events h)" "sq = of_nat S" "p \<le> t" "cn_pending cn = aside (published h) p t" "cn_bootstrapping cn"
    "S \<le> q" "q \<le> max p S" "cn_send cn = snapshotAt h S # bodies (published h) S q" "body # bs = bodies (published h) q (max p S)"
    using c by (auto simp: connOK_def Let_def)
  then show ?thesis
    using bodies_Cons [OF d(9) [symmetric]] enqueue_fields(1) [OF o] connOK_intros(3) [of S h p t "Suc q"] by simp
qed

lemma conn_drained:
  assumes "connOK h t (Draining sq []) cn"
  shows "connOK h t (Catching sq) cn"
proof -
  obtain S p q where d: "S \<le> length (hb_events h)" "sq = of_nat S" "p \<le> t" "cn_pending cn = aside (published h) p t" "cn_bootstrapping cn"
    "S \<le> q" "q \<le> max p S" "cn_send cn = snapshotAt h S # bodies (published h) S q" "[] = bodies (published h) q (max p S)"
    using assms by (auto simp: connOK_def Let_def)
  then have "q = max p S" using bodies_empty [of "published h" q "max p S"] by simp
  then show ?thesis using d connOK_intros(2) [of S h p t] by simp
qed

lemma loaded_phase: "hubInv h \<Longrightarrow> hb_boot h c \<notin> {NotConnected, Registered, Gone} \<Longrightarrow> ms_loaded (hb_state h)"
  unfolding hubInv_def stateOK_def by blast

lemma gapless_nil [simp]: "gapless h []" by (simp add: gapless_def)

theorem step_inv:
  assumes step: "hubStep h h'" and I: "hubInv h" and small: "length (hb_events h) < 2 ^ 64"
  shows "hubInv h'"
  using step
proof (cases rule: hubStep.cases)
  case (load source) then show ?thesis using load_inv [OF I] by simp
next
  case (applied ev) then show ?thesis using applied_inv [OF I] by simp
next
  case (collect d cs) then show ?thesis using collect_inv [OF I] by simp
next
  case (send d c cs full conn) then show ?thesis using send_inv [OF I] by simp
next
  case (crash d c cs full) then show ?thesis using done_inv [OF I] by simp
next
  case (sent d) then show ?thesis using done_inv [OF I] by simp
next
  case (connect c)
  have "c \<notin> hb_room h" using hubInv_conn(1) [OF I, of c] connect by (simp add: roomOK_def)
  then show ?thesis
    using connect by (intro inv_conn [OF I, of h' c]) (auto simp: updConn_def newConnection_def roomOK_def connOK_def Let_def gapless_def)
next
  case (snapshot c sq payload)
  note k = hubInv_conn [OF I, of c]
  show ?thesis
    unfolding snapshot(1) using snapshot k conn_snapshot [OF I]
    by (intro inv_conn [OF I, of _ c]) (auto simp: roomOK_def)
next
  case (first c sq body full)
  note k = hubInv_conn [OF I, of c]
  have "ms_loaded (hb_state h)" by (rule loaded_phase [OF I, of c]) (simp add: first)
  then show ?thesis
    unfolding first(1) using first k enqueue_fields(1,2) conn_first
    by (intro inv_conn [OF I, of _ c]) (auto simp: updConn_def roomOK_def)
next
  case (round c sq items conn)
  note k = hubInv_conn [OF I, of c]
  have ld: "ms_loaded (hb_state h)" by (rule loaded_phase [OF I, of c]) (simp add: round)
  have f: "cn_open conn = cn_open (hb_conns h c)" "cn_send conn = cn_send (hb_conns h c)" using round(4) by (auto simp: bootstrapRound_def Let_def)
  have "connOK h (offered h c) (if items = [] then Live else Draining sq items) conn" if "cn_open conn"
    using conn_round [OF _ round(4) offered_le small] k(3) round f that by simp
  then show ?thesis
    unfolding round(1) using round k ld f by (intro inv_conn [OF I, of _ c]) (auto simp: updConn_def roomOK_def)
next
  case (drain c sq body bs full)
  note k = hubInv_conn [OF I, of c]
  have "ms_loaded (hb_state h)" by (rule loaded_phase [OF I, of c]) (simp add: drain)
  then show ?thesis
    unfolding drain(1) using drain k enqueue_fields(1,2) conn_drain
    by (intro inv_conn [OF I, of _ c]) (auto simp: updConn_def roomOK_def)
next
  case (drained c sq)
  note k = hubInv_conn [OF I, of c]
  have "ms_loaded (hb_state h)" by (rule loaded_phase [OF I, of c]) (simp add: drained)
  then show ?thesis
    unfolding drained(1) using drained k conn_drained by (intro inv_conn [OF I, of _ c]) (auto simp: roomOK_def)
next
  case (unregister c)
  note k = hubInv_conn [OF I, of c]
  have "ms_loaded (hb_state h) \<or> cn_send (hb_conns h c) = []" using I unfolding hubInv_def stateOK_def by blast
  then show ?thesis
    unfolding unregister(1) using unregister(2) k by (intro inv_conn [OF I, of _ c]) (auto simp: updConn_def roomOK_def)
qed

lemma new_inv: "hubInv newHub"
  by (simp add: hubInv_def newHub_def stateOK_def pubOK_def roomOK_def newConnection_def connOK_def newMarketState_def)

lemma events_grow: "hubStep h h' \<Longrightarrow> length (hb_events h) \<le> length (hb_events h')"
  by (erule hubStep.cases) (auto simp: loadState_def applyEvent_def updConn_def Let_def split: prod.split)

theorem reachable_inv:
  assumes "reachableHub h" "length (hb_events h) < 2 ^ 64"
  shows "hubInv h"
  using assms unfolding reachableHub_def
proof (induction rule: rtranclp_induct)
  case base show ?case by (rule new_inv)
next
  case (step h h') then show ?case using step_inv [of h h'] events_grow [of h h'] by linarith
qed

section \<open>What a client received\<close>

definition caughtUp :: "hubState \<Rightarrow> nat \<Rightarrow> bool" where
  "caughtUp h c \<longleftrightarrow> hb_pub h = PubIdle \<and> hb_boot h c = Live \<and> cn_open (hb_conns h c)"

lemma bodies_drop: "n \<le> length ds \<Longrightarrow> bodies ds S n = map DeltaBody (drop S (take n ds))"
  by (intro nth_equalityI) (simp_all add: bodies_def)

lemma stream_shape:
  assumes "reachableHub h" "length (hb_events h) < 2 ^ 64" "cn_send (hb_conns h c) \<noteq> []"
  shows "\<exists>S n stale. S \<le> n \<and> n \<le> length (hb_events h) \<and> (caughtUp h c \<longrightarrow> n = length (hb_events h)) \<and> staleOK h S stale \<and>
    cn_send (hb_conns h c) = snapshotAt h S # stale @ bodies (published h) S n"
proof -
  have I: "hubInv h" by (rule reachable_inv [OF assms(1,2)])
  show ?thesis
  proof (cases "caughtUp h c")
    case True
    then have "connOK h (length (hb_events h)) Live (hb_conns h c)"
      using hubInv_conn(3) [OF I, of c] by (simp add: caughtUp_def offered_def)
    then obtain S stale where s: "S \<le> length (hb_events h)" "staleOK h S stale"
      "cn_send (hb_conns h c) = snapshotAt h S # stale @ bodies (published h) S (max (length (hb_events h)) S)"
      by (auto simp: connOK_def Let_def)
    then show ?thesis by (intro exI [of _ S] exI [of _ "length (hb_events h)"] exI [of _ stale]) (simp add: max_def)
  next
    case False
    have "\<exists>S n stale. S \<le> n \<and> n \<le> length (hb_events h) \<and> staleOK h S stale \<and>
        cn_send (hb_conns h c) = snapshotAt h S # stale @ bodies (published h) S n"
      using hubInv_conn(2) [OF I, of c] assms(3) unfolding gapless_def by blast
    with False show ?thesis by blast
  qed
qed

text \<open>
  A hypothetical client that keeps the depth: a snapshot replaces it, a delta sets the levels it names.  It stands for
  what the messages determine.  The repository's own client (\<open>Frontened/hooks/useMarketPublicFeed.ts\<close>) also
  skips deltas whose number is not above the last, and holds the volumes as JavaScript numbers.
\<close>

fun receive :: "wsBody \<Rightarrow> marketState \<Rightarrow> marketState" where
  "receive (SnapshotBody sq payload) s =
     s\<lparr>ms_bids := fold loadLevel (wo_Bids (ws_Orderbook payload)) (\<lambda>_. 0), ms_asks := fold loadLevel (wo_Asks (ws_Orderbook payload)) (\<lambda>_. 0)\<rparr>"
| "receive (DeltaBody d) s = fold applyLevel (wm_DepthLevels d) s"

lemma digits_isDigit: "list_all isDigit (digitsBase 10 n)"
proof (induction n rule: less_induct)
  case (less n)
  have "isDigit (digitChar d)" if "d < 10" for d
    using that by (auto simp: isDigit_def digitChar_def Let_def)
  then show ?case using less by (subst digitsBase.simps) simp
qed

lemma parse_format [simp]: "ParseUint10 (FormatUint10 v) = Some v"
proof -
  have "digitsBase 10 (unat v) \<noteq> []" by (subst digitsBase.simps) simp
  moreover have "unat v < 2 ^ 64" using unsigned_less [of v, where 'a = nat] by simp
  ultimately show ?thesis by (simp add: ParseUint10_def FormatUint10_def digits_isDigit valueBase_digitsBase)
qed

text \<open>Reading the levels of a snapshot gives back the volumes it was made from.\<close>

lemma load_levels:
  "set ticks \<subseteq> set ticksUp \<Longrightarrow> distinct ticks \<Longrightarrow>
   fold loadLevel (levelsOf ticks vols) arr p = (if p \<in> set ticks \<and> vols p \<noteq> 0 then vols p else arr p)"
proof (induction ticks arbitrary: arr)
  case (Cons t ticks)
  have t: "t \<le> 100" using Cons.prems(1) ticksUp_set [of t] by simp
  then have "\<not> (ucast maxPriceTick :: u64) < ucast t" by (simp add: maxPriceTick_def word_less_nat_alt word_le_nat_alt not_less unsigned_ucast_eq take_bit_nat_eq_self)
  moreover have "ucast (ucast t :: u64) = t" by (rule bit_word_eqI) (auto simp: bit_simps)
  ultimately have "loadLevel \<lparr>lv_Price = FormatUint10 (ucast t), lv_TotalVolume = FormatUint10 (vols t)\<rparr> arr = arr(t := vols t)" for arr
    by (simp add: loadLevel_def)
  then show ?case using Cons by (auto simp: levelsOf_def)
qed (simp add: levelsOf_def)

lemma receive_snapshot:
  "shownDepth (stateDepth (receive (SnapshotBody sq (snd (snapshotPayload s))) s0)) = shownDepth (stateDepth s)"
proof -
  have d: "distinct ticksUp" "set (rev ticksUp) \<subseteq> set ticksUp" using sorted_ticksUp by (auto simp: strict_sorted_iff)
  show ?thesis
    by (intro ext) (auto simp: shownDepth_def stateDepth_def twoSides_def snapshotPayload_def Let_def load_levels d ticksUp_set)
qed

lemma published_nth:
  "i < length evs \<Longrightarrow> publishedDeltas s evs ! i = fst (applyMatchEvent (evs ! i) (stateAfter s (take i evs)))"
  by (induction evs rule: rev_induct) (auto simp: nth_append less_Suc_eq)

lemma state_step: "i < length evs \<Longrightarrow> stateAfter s (take (Suc i) evs) = snd (applyMatchEvent (evs ! i) (stateAfter s (take i evs)))"
  by (simp add: take_Suc_conv_app_nth)

lemma delta_depth:
  fixes ev :: MatchBatchEvent and s :: marketState
  defines "ls \<equiv> wm_DepthLevels (fst (applyMatchEvent ev s))"
  shows "shownDepth (stateDepth (fold applyLevel ls s')) = shownDepth (fold putDepth (map asUpdate ls) (stateDepth s'))"
    "shownDepth (stateDepth (snd (applyMatchEvent ev s))) = shownDepth (fold putDepth (map asUpdate ls) (stateDepth s))"
proof -
  have ls: "ls = compressDepthUpdates (DepthUpdates ev)" by (simp add: ls_def applyMatchEvent_def Let_def)
  then have "list_all (\<lambda>l. wd_Side l = ''ask'' \<or> wd_Side l = ''bid'') ls"
    using normalize_range by (auto simp: list_all_iff compressDepthUpdates_def Let_def case_prod_beta)
  note shown = applyLevels_depth [OF this]
  then show "shownDepth (stateDepth (fold applyLevel ls s')) = shownDepth (fold putDepth (map asUpdate ls) (stateDepth s'))" .
  have "stateDepth (snd (applyMatchEvent ev s)) = stateDepth (fold applyLevel ls (s\<lparr>ms_loaded := True, ms_seq := ms_seq s + 1\<rparr>))"
    by (simp add: ls applyMatchEvent_def stateDepth_def Let_def)
  then show "shownDepth (stateDepth (snd (applyMatchEvent ev s))) = shownDepth (fold putDepth (map asUpdate ls) (stateDepth s))"
    using shown [of "s\<lparr>ms_loaded := True, ms_seq := ms_seq s + 1\<rparr>"] by (simp add: stateDepth_def)
qed

text \<open>A delta takes a client along with the state, and does no harm when it is applied again.\<close>

lemma receive_delta:
  assumes "shownDepth (stateDepth s') = shownDepth (stateDepth s)"
  shows "shownDepth (stateDepth (receive (DeltaBody (fst (applyMatchEvent ev s))) s')) = shownDepth (stateDepth (snd (applyMatchEvent ev s)))"
  using fold_putDepth_shown [OF assms] by (simp add: delta_depth)

lemma receive_again:
  assumes "shownDepth (stateDepth s') = shownDepth (stateDepth (snd (applyMatchEvent ev s)))"
  shows "shownDepth (stateDepth (receive (DeltaBody (fst (applyMatchEvent ev s))) s')) = shownDepth (stateDepth (snd (applyMatchEvent ev s)))"
proof -
  let ?us = "map asUpdate (wm_DepthLevels (fst (applyMatchEvent ev s)))"
  have "shownDepth (stateDepth s') = shownDepth (fold putDepth ?us (stateDepth s))" using assms by (simp add: delta_depth)
  from fold_putDepth_shown [OF this, of ?us] show ?thesis by (simp add: delta_depth fold_putDepth_again)
qed

lemma receive_all:
  assumes "S \<le> n" "n \<le> length evs" "shownDepth (stateDepth s') = shownDepth (stateDepth (stateAfter s (take S evs)))"
  shows "shownDepth (stateDepth (fold receive (bodies (publishedDeltas s evs) S n) s')) = shownDepth (stateDepth (stateAfter s (take n evs)))"
  using assms(1,2)
proof (induction n rule: dec_induct)
  case base then show ?case using assms(3) by simp
next
  case (step n)
  then have "n < length evs" by simp
  with step show ?case by (simp add: published_nth state_step receive_delta del: receive.simps)
qed

lemma client_shape:
  assumes "staleOK h S stale" "S \<le> n" "n \<le> length (hb_events h)"
  shows "shownDepth (stateDepth (fold receive (snapshotAt h S # stale @ bodies (published h) S n) s0)) =
    shownDepth (stateDepth (stateAfter (hb_base h) (take n (hb_events h))))"
proof -
  let ?s = "receive (snapshotAt h S) s0"
  have s: "shownDepth (stateDepth ?s) = shownDepth (stateDepth (stateAfter (hb_base h) (take S (hb_events h))))"
    by (simp add: snapshotAt_def receive_snapshot del: receive.simps)
  have "shownDepth (stateDepth (fold receive stale ?s)) = shownDepth (stateDepth (stateAfter (hb_base h) (take S (hb_events h))))"
  proof (cases "stale = []")
    case False
    then have st: "0 < S" "stale = [DeltaBody (published h ! (S - 1))]" using assms(1) by (auto simp: staleOK_def)
    then have "S - 1 < length (hb_events h)" "S = Suc (S - 1)" using assms(2,3) by auto
    then show ?thesis
      using s receive_again [of ?s] state_step [of "S - 1" "hb_events h" "hb_base h"] by (simp add: st published_nth del: receive.simps)
  qed (simp add: s)
  from receive_all [OF assms(2,3) this] show ?thesis by simp
qed

section \<open>A run: the delta a snapshot holds, delivered after it\<close>

definition demoEvent :: MatchBatchEvent where
  "demoEvent = \<lparr>EventID = ''e'', SchemaVersion = 1, ev_MarketID = 1, ev_MarketPDA = ''m'', ProducedAt = 0, SourceCmdSeqMin = 1, SourceCmdSeqMax = 1,
     SourceCommandIDs = [], TraceIDs = [], ev_Orders = [], Fills = [], OrderUpdates = [],
     DepthUpdates = [\<lparr>d_Side = ''bid'', d_PriceTick = 45, d_TotalVolume = 3\<rparr>]\<rparr>"

definition demoDelta :: WSMarketDelta where
  "demoDelta = fst (applyMatchEvent demoEvent (newMarketState\<lparr>ms_loaded := True\<rparr>))"

definition demoConn :: "wsBody list \<Rightarrow> bool \<Rightarrow> bool \<Rightarrow> wsConnection" where
  "demoConn bs closed boot = \<lparr>cn_send = bs, cn_open = \<not> closed, cn_closed = closed, cn_bootstrapping = boot, cn_pending = []\<rparr>"

definition demoHub :: "wsConnection \<Rightarrow> bootPhase \<Rightarrow> bool \<Rightarrow> publisher \<Rightarrow> hubState" where
  "demoHub cn ph inroom p = \<lparr>hb_state = snd (applyMatchEvent demoEvent (newMarketState\<lparr>ms_loaded := True\<rparr>)), hb_room = (if inroom then {0} else {}),
     hb_conns = (\<lambda>_. newConnection)(0 := cn), hb_boot = (\<lambda>_. NotConnected)(0 := ph), hb_pub = p,
     hb_base = newMarketState\<lparr>ms_loaded := True\<rparr>, hb_events = [demoEvent]\<rparr>"

definition demoSnapshot :: wsBody where
  "demoSnapshot = SnapshotBody 1 (snd (snapshotPayload (snd (applyMatchEvent demoEvent (newMarketState\<lparr>ms_loaded := True\<rparr>)))))"

lemma reach_step: "reachableHub h \<Longrightarrow> hubStep h g \<Longrightarrow> g = h' \<Longrightarrow> reachableHub h'"
  by (auto simp: reachableHub_def)

lemma demo_seq: "ms_seq (snd (applyMatchEvent demoEvent (newMarketState\<lparr>ms_loaded := True\<rparr>))) = 1"
  by (simp add: seq_after newMarketState_def)

lemma demo_live: "reachableHub (demoHub (demoConn [demoSnapshot] False False) Live True (PubSending demoDelta [0]))"
proof -
  let ?new = "demoConn [] False True" and ?conn = "demoConn [demoSnapshot] False True" and ?app = "PubApplied demoDelta"
  note d = demoHub_def demoConn_def newConnection_def updConn_def
  have "reachableHub newHub" by (simp add: reachableHub_def)
  then have "reachableHub (loadState None newHub)" by (rule reach_step [OF _ hubStep.load refl]) (simp add: newHub_def)
  then have "reachableHub (registerMarket 0 (loadState None newHub))"
    by (rule reach_step [OF _ hubStep.connect refl]) (simp_all add: newHub_def loadState_def)
  then have "reachableHub (demoHub ?new Registered True ?app)"
    by (rule reach_step [OF _ hubStep.applied [of _ demoEvent]])
      (simp_all add: newHub_def loadState_def ensureLoaded_def newMarketState_def d applyEvent_def demoDelta_def acceptedVersion_def demoEvent_def case_prod_beta Let_def)
  then have "reachableHub (demoHub ?new (HasSnapshot 1 demoSnapshot) True ?app)"
    by (rule reach_step [OF _ hubStep.snapshot [where c = 0 and sq = 1]])
      (simp_all add: d demoSnapshot_def prod_eq_iff seq_after demo_seq snapshotPayload_def Let_def newMarketState_def)
  then have "reachableHub (demoHub ?conn (Catching 1) True ?app)"
    by (rule reach_step [OF _ hubStep.first [where c = 0 and full = False]]) (simp_all add: d enqueueRaw_def)
  then have "reachableHub (demoHub (demoConn [demoSnapshot] False False) Live True ?app)"
    by (rule reach_step [OF _ hubStep.round [where c = 0 and sq = 1 and items = "[]" and conn = "demoConn [demoSnapshot] False False"]]) (simp_all add: d bootstrapRound_def)
  then show ?thesis
    by (rule reach_step [OF _ hubStep.collect [where cs = "[0]"]]) (simp_all add: d)
qed

lemma demo_sent: "reachableHub (demoHub (demoConn [demoSnapshot, DeltaBody demoDelta] False False) Live True PubIdle)"
proof -
  note d = demoHub_def demoConn_def
  have "reachableHub (demoHub (demoConn [demoSnapshot, DeltaBody demoDelta] False False) Live True (PubSending demoDelta []))"
    by (rule reach_step [OF demo_live hubStep.send [where c = 0 and full = False]]) (simp_all add: d enqueueMarket_def enqueueRaw_def)
  then show ?thesis by (rule reach_step [OF _ hubStep.sent]) (simp_all add: d)
qed

text \<open>The connection goes away after the broadcast has collected it: the next send is on a closed channel.\<close>

theorem broadcast_panics: "\<exists>h. reachableHub h \<and> hb_pub h = PubCrashed"
proof -
  note d = demoHub_def demoConn_def
  have "reachableHub (demoHub (demoConn [demoSnapshot] True False) Gone False (PubSending demoDelta [0]))"
    by (rule reach_step [OF demo_live hubStep.unregister [where c = 0]]) (simp_all add: d updConn_def)
  then have "reachableHub (demoHub (demoConn [demoSnapshot] True False) Gone False PubCrashed)"
    by (rule reach_step [OF _ hubStep.crash [where c = 0 and full = False]]) (simp_all add: d enqueueMarket_def)
  then show ?thesis by (intro exI [of _ "demoHub (demoConn [demoSnapshot] True False) Gone False PubCrashed"] conjI) (simp_all add: demoHub_def)
qed

section \<open>Properties\<close>

text \<open>C35: no gaps on the wire.  Whatever the interleaving of the hot stream, the loads and the connections, a
  client that received anything received the snapshot of the state after some number of events and then every
  later delta once, in order, without a gap; only the delta with the snapshot's own number can come in between.
  A live connection whose socket is open has everything up to the last event when the publisher is done.\<close>
theorem stream_gapless:
  assumes "reachableHub h" "length (hb_events h) < 2 ^ 64" "cn_send (hb_conns h c) \<noteq> []"
  shows "\<exists>S n stale. S \<le> n \<and> n \<le> length (hb_events h) \<and> (caughtUp h c \<longrightarrow> n = length (hb_events h)) \<and>
    (stale = [] \<or> (0 < S \<and> stale = [DeltaBody (publishedDeltas (hb_base h) (hb_events h) ! (S - 1))])) \<and>
    cn_send (hb_conns h c) =
      SnapshotBody (of_nat S) (snd (snapshotPayload (stateAfter (hb_base h) (take S (hb_events h))))) # stale @
      map DeltaBody (drop S (take n (publishedDeltas (hb_base h) (hb_events h))))"
proof -
  obtain S n stale where s: "S \<le> n" "n \<le> length (hb_events h)" "caughtUp h c \<longrightarrow> n = length (hb_events h)" "staleOK h S stale"
    "cn_send (hb_conns h c) = snapshotAt h S # stale @ bodies (published h) S n"
    using stream_shape [OF assms] by blast
  then show ?thesis
    by (intro exI [of _ S] exI [of _ n] exI [of _ stale]) (simp add: staleOK_def snapshotAt_def bodies_drop)
qed

theorem stream_gapless_witness:
  "\<exists>S n stale. S \<le> n \<and> n \<le> 1 \<and> (stale = [] \<or> (0 < S \<and> stale = [DeltaBody ([demoDelta] ! (S - 1))])) \<and>
    [demoSnapshot, DeltaBody demoDelta] =
      SnapshotBody (of_nat S) (snd (snapshotPayload (stateAfter (newMarketState\<lparr>ms_loaded := True\<rparr>) (take S [demoEvent])))) # stale @
      map DeltaBody (drop S (take n [demoDelta]))"
  using stream_gapless [OF demo_sent, of 0] by (simp add: demoHub_def demoConn_def demoDelta_def [symmetric]) blast

text \<open>C36: a client follows the market.  A client that sets its depth from the snapshot and applies every delta it
  received to it shows, at every tick, the volumes of the hub's state after the events it got, although a delta
  may be applied twice; once caught up it shows the volumes of the hub's present state.\<close>
theorem client_follows_market:
  assumes "reachableHub h" "length (hb_events h) < 2 ^ 64" "cn_send (hb_conns h c) \<noteq> []"
  shows "(\<exists>n \<le> length (hb_events h). shownDepth (stateDepth (fold receive (cn_send (hb_conns h c)) newMarketState)) =
        shownDepth (stateDepth (stateAfter (hb_base h) (take n (hb_events h))))) \<and>
    (caughtUp h c \<longrightarrow> shownDepth (stateDepth (fold receive (cn_send (hb_conns h c)) newMarketState)) = shownDepth (stateDepth (hb_state h)))"
proof -
  obtain S n stale where s: "S \<le> n" "n \<le> length (hb_events h)" "caughtUp h c \<longrightarrow> n = length (hb_events h)" "staleOK h S stale"
    "cn_send (hb_conns h c) = snapshotAt h S # stale @ bodies (published h) S n"
    using stream_shape [OF assms] by blast
  note e = client_shape [OF s(4,1,2), of newMarketState]
  have "hb_state h = stateAfter (hb_base h) (hb_events h)"
    using reachable_inv [OF assms(1,2)] by (simp add: hubInv_def stateOK_def)
  then have "caughtUp h c \<longrightarrow> shownDepth (stateDepth (fold receive (cn_send (hb_conns h c)) newMarketState)) = shownDepth (stateDepth (hb_state h))"
    unfolding s(5) using e s(3) by (cases "caughtUp h c") simp_all
  moreover have "\<exists>n \<le> length (hb_events h). shownDepth (stateDepth (fold receive (cn_send (hb_conns h c)) newMarketState)) =
      shownDepth (stateDepth (stateAfter (hb_base h) (take n (hb_events h))))"
    unfolding s(5) using e s(2) by blast
  ultimately show ?thesis by blast
qed

theorem client_follows_market_witness:
  "stateDepth (fold receive [demoSnapshot, DeltaBody demoDelta] newMarketState) ''bid'' 45 = 3"
proof -
  let ?h = "demoHub (demoConn [demoSnapshot, DeltaBody demoDelta] False False) Live True PubIdle"
  have v: "stateDepth (hb_state ?h) ''bid'' 45 = 3" by (simp add: demoHub_def) code_simp
  have "shownDepth (stateDepth (fold receive [demoSnapshot, DeltaBody demoDelta] newMarketState)) = shownDepth (stateDepth (hb_state ?h))"
    using client_follows_market [OF demo_sent, of 0] by (simp add: demoHub_def demoConn_def caughtUp_def)
  from fun_cong [OF fun_cong [OF this], of "''bid''" 45] v show ?thesis by (simp add: shownDepth_def)
qed

end
