(* ===== verification/Waiter.thy ===== *)
theory Waiter
  imports GoStrings Prelude
begin

text \<open>
  Waiting for the confirmation of a transaction (\<open>chainconfirm/waiter.go\<close>).  What the RPC node, the router of
  signature subscriptions and the context answer are arguments; an empty list of further polls means that the
  context ends after the first one.
\<close>

record SignatureResult =
  sr_Signature :: string
  sr_Slot :: u64
  sr_ConfirmationStatus :: string
  sr_ErrText :: string

record confirmResult =
  cr_Signature :: string
  cr_Slot :: u64
  cr_ConfirmationStatus :: string

datatype waitError = DeadlineExceeded | Cancelled | OtherWaitError

section \<open>One status call\<close>

text \<open>An error of the call, no status, or a status: its confirmation, whether the transaction failed, its slot.\<close>

datatype statusAnswer = StatusCallFails waitError | StatusAbsent | StatusFound string bool u64

definition checkStatus :: "string \<Rightarrow> statusAnswer \<Rightarrow> waitError + confirmResult option" where
  "checkStatus signature answer = (case answer of
       StatusCallFails e \<Rightarrow> Inl e
     | StatusAbsent \<Rightarrow> Inr None
     | StatusFound status failed slot \<Rightarrow>
         (let confirm = map toLowerChar (TrimSpace status) in
          if confirm \<noteq> ''confirmed'' \<and> confirm \<noteq> ''finalized'' then Inr None
          else if failed then Inl OtherWaitError
          else Inr (Some \<lparr>cr_Signature = signature, cr_Slot = slot, cr_ConfirmationStatus = confirm\<rparr>)))"

fun waitWithHTTPPolling :: "string \<Rightarrow> waitError \<Rightarrow> statusAnswer \<Rightarrow> statusAnswer list \<Rightarrow> waitError + confirmResult" where
  "waitWithHTTPPolling signature ended answer later = (case (checkStatus signature answer, later) of
       (Inr (Some r), _) \<Rightarrow> Inr r
     | (Inl e, []) \<Rightarrow> Inl e
     | (Inr None, []) \<Rightarrow> Inl ended
     | (_, a # rest) \<Rightarrow> waitWithHTTPPolling signature ended a rest)"

declare waitWithHTTPPolling.simps [simp del]

section \<open>The router and the whole wait\<close>

datatype routerAnswer = RouterRefuses | RouterContextEnds | RouterDelivers SignatureResult

definition waitViaRouter :: "waitError \<Rightarrow> routerAnswer \<Rightarrow> waitError + confirmResult" where
  "waitViaRouter ended answer = (case answer of
       RouterRefuses \<Rightarrow> Inl OtherWaitError
     | RouterContextEnds \<Rightarrow> Inl ended
     | RouterDelivers res \<Rightarrow>
         if TrimSpace (sr_ErrText res) \<noteq> [] then Inl OtherWaitError
         else Inr \<lparr>cr_Signature = sr_Signature res, cr_Slot = sr_Slot res, cr_ConfirmationStatus = sr_ConfirmationStatus res\<rparr>)"

record waitAnswers =
  wa_First :: statusAnswer
  wa_Router :: "routerAnswer option"
  wa_Ended :: waitError
  wa_Poll :: statusAnswer
  wa_Polls :: "statusAnswer list"

definition WaitForConfirmed :: "string \<Rightarrow> waitAnswers \<Rightarrow> waitError + confirmResult" where
  "WaitForConfirmed signature a = (case checkStatus signature (wa_First a) of
       Inr (Some r) \<Rightarrow> Inr r
     | _ \<Rightarrow> (case map_option (waitViaRouter (wa_Ended a)) (wa_Router a) of
           Some (Inr r) \<Rightarrow> Inr r
         | _ \<Rightarrow> waitWithHTTPPolling signature (wa_Ended a) (wa_Poll a) (wa_Polls a)))"

section \<open>A confirmation was reported by someone\<close>

definition statusConfirms :: "statusAnswer \<Rightarrow> u64 \<Rightarrow> bool" where
  "statusConfirms answer slot \<longleftrightarrow> (\<exists>status. answer = StatusFound status False slot \<and>
     map toLowerChar (TrimSpace status) \<in> {''confirmed'', ''finalized''})"

lemma checkStatus_confirms: "checkStatus signature answer = Inr (Some r) \<Longrightarrow> statusConfirms answer (cr_Slot r) \<and> cr_Signature r = signature"
  by (auto simp: checkStatus_def statusConfirms_def Let_def split: statusAnswer.splits if_splits)

lemma polling_confirms:
  "waitWithHTTPPolling signature ended answer later = Inr r \<Longrightarrow>
     (\<exists>x \<in> set (answer # later). statusConfirms x (cr_Slot r)) \<and> cr_Signature r = signature"
proof (induction signature ended answer later rule: waitWithHTTPPolling.induct)
  case (1 signature ended answer later)
  show ?case
  proof (cases "\<exists>s. checkStatus signature answer = Inr (Some s)")
    case True
    then show ?thesis
      using "1.prems" checkStatus_confirms [of signature answer r] by (auto simp: waitWithHTTPPolling.simps [of _ _ answer])
  next
    case False
    then obtain next1 rest where m: "later = next1 # rest"
      using "1.prems" by (cases later) (auto simp: waitWithHTTPPolling.simps [of _ _ answer] split: sum.splits option.splits)
    have "waitWithHTTPPolling signature ended next1 rest = Inr r"
      using False "1.prems" by (auto simp: waitWithHTTPPolling.simps [of _ _ answer] m split: sum.splits option.splits)
    then show ?thesis
      using "1.IH" False m by (cases "checkStatus signature answer") (auto split: option.splits)
  qed
qed

text \<open>The waiter only reports a confirmation that a status call or the router reported without an error.\<close>

theorem confirmation_reported:
  assumes "WaitForConfirmed signature a = Inr r"
  shows "(\<exists>x \<in> set (wa_First a # wa_Poll a # wa_Polls a). statusConfirms x (cr_Slot r)) \<or>
    (\<exists>res. wa_Router a = Some (RouterDelivers res) \<and> TrimSpace (sr_ErrText res) = [] \<and> sr_Slot res = cr_Slot r)"
proof (cases "\<exists>s. checkStatus signature (wa_First a) = Inr (Some s)")
  case True
  then show ?thesis using assms checkStatus_confirms [of signature "wa_First a" r] by (auto simp: WaitForConfirmed_def)
next
  case False
  then consider s where "wa_Router a = Some s" "waitViaRouter (wa_Ended a) s = Inr r"
    | "waitWithHTTPPolling signature (wa_Ended a) (wa_Poll a) (wa_Polls a) = Inr r"
    using assms unfolding WaitForConfirmed_def by (auto split: sum.splits option.splits)
  then show ?thesis
  proof cases
    case 1
    then show ?thesis by (auto simp: waitViaRouter_def split: routerAnswer.splits if_splits)
  next
    case 2
    then show ?thesis using polling_confirms by fastforce
  qed
qed

end
