(* ===== verification/Confirm.thy ===== *)
theory Confirm
  imports Waiter Submission
begin

text \<open>
  Confirmation of deposits and withdrawals: the submission tables (\<open>depositconfirm/repository.go\<close>,
  \<open>withdrawconfirm/repository.go\<close>), the checks of a transaction (\<open>verify.go\<close> of both), the services
  (\<open>service.go\<close> of both, the same text but for the names, the check and one reason) and the two handlers of
  \<open>http/server.go\<close> that register a submission.

  A \<open>confirmFlow\<close> is what the two services differ in.  Base 58, SHA-256 and the address search of Solana are
  fields of \<open>chainLib\<close>; what the RPC node, the database and the bus answer are arguments.  The columns of a row
  are 64-bit words; \<open>scanSubmission\<close> reads the signed ones.
\<close>

section \<open>The table\<close>

record ConfirmSubmission =
  cs_Signature :: string
  cs_WalletAddress :: string
  cs_AmountUnits :: u64
  cs_Status :: string
  cs_FailureReason :: string
  cs_Slot :: u64

type_synonym submissionTable = "string \<rightharpoonup> ConfirmSubmission"

definition scanSubmission :: "ConfirmSubmission \<Rightarrow> ConfirmSubmission" where
  "scanSubmission row = row\<lparr>cs_AmountUnits := (if 0 <s cs_AmountUnits row then cs_AmountUnits row else 0),
     cs_Slot := (if 0 <s cs_Slot row then cs_Slot row else 0)\<rparr>"

text \<open>The insertion fails on the constraints of the table: a positive amount, an address of at most 44 characters.\<close>

definition UpsertSubmitted :: "string \<Rightarrow> string \<Rightarrow> u64 \<Rightarrow> submissionTable \<Rightarrow> (ConfirmSubmission \<times> submissionTable) option" where
  "UpsertSubmitted signature wallet amount db =
     (if \<not> 0 <s amount \<or> 44 < length wallet then None
      else case db signature of
        Some row \<Rightarrow> Some (scanSubmission row, db)
      | None \<Rightarrow> (let row = \<lparr>cs_Signature = signature, cs_WalletAddress = wallet, cs_AmountUnits = amount,
                     cs_Status = ''submitted'', cs_FailureReason = [], cs_Slot = 0\<rparr>
                 in Some (scanSubmission row, db(signature \<mapsto> row))))"

definition LoadSubmission :: "string \<Rightarrow> submissionTable \<Rightarrow> ConfirmSubmission option" where
  "LoadSubmission signature db = map_option scanSubmission (db (TrimSpace signature))"

definition activeStatus :: "string \<Rightarrow> bool" where "activeStatus s \<longleftrightarrow> s = ''submitted'' \<or> s = ''watching''"

definition terminalStatus :: "string \<Rightarrow> bool" where
  "terminalStatus s \<longleftrightarrow> s = ''confirmed'' \<or> s = ''failed'' \<or> s = ''expired''"

definition listActive :: "submissionTable \<Rightarrow> ConfirmSubmission set" where
  "listActive db = {scanSubmission r | r s. db s = Some r \<and> activeStatus (cs_Status r)}"

definition updateRow :: "string \<Rightarrow> (ConfirmSubmission \<Rightarrow> ConfirmSubmission) \<Rightarrow> submissionTable \<Rightarrow> submissionTable" where
  "updateRow signature f db = (case db (TrimSpace signature) of None \<Rightarrow> db | Some r \<Rightarrow> db(TrimSpace signature \<mapsto> f r))"

definition MarkWatching :: "string \<Rightarrow> submissionTable \<Rightarrow> submissionTable" where
  "MarkWatching signature = updateRow signature (\<lambda>r. if activeStatus (cs_Status r) then r\<lparr>cs_Status := ''watching''\<rparr> else r)"

definition MarkConfirmed :: "string \<Rightarrow> u64 \<Rightarrow> submissionTable \<Rightarrow> submissionTable" where
  "MarkConfirmed signature slot = updateRow signature (\<lambda>r. r\<lparr>cs_Status := ''confirmed'', cs_Slot := slot, cs_FailureReason := []\<rparr>)"

definition MarkFailed :: "string \<Rightarrow> string \<Rightarrow> submissionTable \<Rightarrow> submissionTable" where
  "MarkFailed signature reason = updateRow signature (\<lambda>r. r\<lparr>cs_Status := ''failed'', cs_FailureReason := TrimSpace reason\<rparr>)"

definition MarkExpired :: "string \<Rightarrow> string \<Rightarrow> submissionTable \<Rightarrow> submissionTable" where
  "MarkExpired signature reason = updateRow signature (\<lambda>r. r\<lparr>cs_Status := ''expired'', cs_FailureReason := TrimSpace reason\<rparr>)"

section \<open>The check of a transaction\<close>

record chainLib =
  cl_Signature :: "string \<Rightarrow> bytes option"
  cl_Key :: "string \<Rightarrow> PublicKey option"
  cl_sha256 :: "bytes \<Rightarrow> bytes"
  cl_findPDA :: pdaSearch
  cl_TokenPrograms :: "PublicKey \<times> PublicKey"
  cl_ATAProgram :: PublicKey

record confirmConfig =
  cfg_ProgramID :: string
  cfg_GlobalVault :: string
  cfg_VUSDCMint :: string

text \<open>A nil instruction is \<open>None\<close>; so is a missing transaction payload.\<close>

record parsedInstruction =
  pi_ProgramId :: PublicKey
  pi_Data :: bytes
  pi_Accounts :: "PublicKey list"

record parsedTx =
  px_Succeeded :: bool
  px_Instructions :: "parsedInstruction option list option"
  px_Slot :: u64

record VerifiedTx =
  vf_Signature :: string
  vf_WalletAddress :: string
  vf_AmountUnits :: u64
  vf_Slot :: u64

datatype verifyError = VerifyRetryable | VerifyRejected

text \<open>An early return with an error: when a call gives nothing, when a check fails.\<close>

definition needs :: "verifyError \<Rightarrow> 'a option \<Rightarrow> ('a \<Rightarrow> verifyError + 'b) \<Rightarrow> verifyError + 'b" where
  "needs e x k = (case x of None \<Rightarrow> Inl e | Some y \<Rightarrow> k y)"

definition rejects :: "bool \<Rightarrow> verifyError + 'b \<Rightarrow> verifyError + 'b" where
  "rejects bad k = (if bad then Inl VerifyRejected else k)"

lemma needs_Inr: "needs e x k = Inr r \<longleftrightarrow> (\<exists>y. x = Some y \<and> k y = Inr r)"
  by (cases x) (simp_all add: needs_def)

lemma rejects_Inr: "rejects bad k = Inr r \<longleftrightarrow> \<not> bad \<and> k = Inr r"
  by (simp add: rejects_def)

definition anchorDiscriminator :: "chainLib \<Rightarrow> string \<Rightarrow> bytes" where
  "anchorDiscriminator lib name = take 8 (cl_sha256 lib (textBytes (''global:'' @ name)))"

text \<open>The first instruction of the program that is long enough and has the discriminator decides.\<close>

fun findInstruction :: "nat \<Rightarrow> PublicKey \<Rightarrow> bytes \<Rightarrow> parsedInstruction option list \<Rightarrow> parsedInstruction option" where
  "findInstruction minLen programID disc [] = None"
| "findInstruction minLen programID disc (None # ixs) = findInstruction minLen programID disc ixs"
| "findInstruction minLen programID disc (Some ix # ixs) =
     (if pi_ProgramId ix \<noteq> programID then findInstruction minLen programID disc ixs
      else if length (pi_Data ix) < minLen then findInstruction minLen programID disc ixs
      else if take 8 (pi_Data ix) \<noteq> disc then findInstruction minLen programID disc ixs
      else Some ix)"

definition verifiedTx :: "ConfirmSubmission \<Rightarrow> parsedTx \<Rightarrow> VerifiedTx" where
  "verifiedTx expected out = \<lparr>vf_Signature = cs_Signature expected, vf_WalletAddress = cs_WalletAddress expected,
     vf_AmountUnits = cs_AmountUnits expected, vf_Slot = px_Slot out\<rparr>"

definition VerifyDepositTransaction ::
  "chainLib \<Rightarrow> confirmConfig \<Rightarrow> ConfirmSubmission \<Rightarrow> parsedTx option \<Rightarrow> verifyError + VerifiedTx" where
  "VerifyDepositTransaction lib cfg expected answer =
     needs VerifyRejected (cl_Signature lib (cs_Signature expected)) (\<lambda>signature.
     needs VerifyRetryable (cl_Key lib (TrimSpace (cfg_ProgramID cfg))) (\<lambda>programID.
     needs VerifyRetryable (cl_Key lib (TrimSpace (cfg_GlobalVault cfg))) (\<lambda>globalVault.
     needs VerifyRetryable (cl_Key lib (TrimSpace (cfg_VUSDCMint cfg))) (\<lambda>mint.
     needs VerifyRejected (cl_Key lib (TrimSpace (cs_WalletAddress expected))) (\<lambda>wallet.
     needs VerifyRetryable answer (\<lambda>out.
     rejects (\<not> px_Succeeded out) (
     needs VerifyRejected (px_Instructions out) (\<lambda>ixs.
     needs VerifyRejected (findInstruction 16 programID (anchorDiscriminator lib ''deposit'') ixs) (\<lambda>ix.
     rejects (Uint64 (drop 8 (pi_Data ix)) \<noteq> cs_AmountUnits expected) (
     rejects (length (pi_Accounts ix) < 8) (
     rejects (pi_Accounts ix ! 0 \<noteq> wallet) (
     rejects (pi_Accounts ix ! 4 \<noteq> globalVault) (
     rejects (pi_Accounts ix ! 6 \<noteq> mint) (
     Inr (verifiedTx expected out)))))))))))))))"

definition deriveAssociatedTokenAddress :: "chainLib \<Rightarrow> PublicKey \<Rightarrow> PublicKey \<Rightarrow> PublicKey \<Rightarrow> PublicKey option" where
  "deriveAssociatedTokenAddress lib wallet mint tokenProgram = cl_findPDA lib [wallet, tokenProgram, mint] (cl_ATAProgram lib)"

definition VerifyWithdrawTransaction ::
  "chainLib \<Rightarrow> confirmConfig \<Rightarrow> ConfirmSubmission \<Rightarrow> parsedTx option \<Rightarrow> verifyError + VerifiedTx" where
  "VerifyWithdrawTransaction lib cfg expected answer =
     needs VerifyRejected (cl_Signature lib (cs_Signature expected)) (\<lambda>signature.
     needs VerifyRetryable (cl_Key lib (TrimSpace (cfg_ProgramID cfg))) (\<lambda>programID.
     needs VerifyRetryable (cl_Key lib (TrimSpace (cfg_GlobalVault cfg))) (\<lambda>globalVault.
     needs VerifyRetryable (cl_Key lib (TrimSpace (cfg_VUSDCMint cfg))) (\<lambda>mint.
     needs VerifyRejected (cl_Key lib (TrimSpace (cs_WalletAddress expected))) (\<lambda>wallet.
     needs VerifyRetryable (DeriveUserLedgerPDA (cl_findPDA lib) programID wallet) (\<lambda>userLedger.
     needs VerifyRetryable answer (\<lambda>out.
     rejects (\<not> px_Succeeded out) (
     needs VerifyRejected (px_Instructions out) (\<lambda>ixs.
     needs VerifyRejected (findInstruction 16 programID (anchorDiscriminator lib ''withdraw'') ixs) (\<lambda>ix.
     rejects (Uint64 (drop 8 (pi_Data ix)) \<noteq> cs_AmountUnits expected) (
     rejects (length (pi_Accounts ix) < 8) (
     rejects (pi_Accounts ix ! 0 \<noteq> wallet) (
     rejects (pi_Accounts ix ! 2 \<noteq> userLedger) (
     rejects (pi_Accounts ix ! 4 \<noteq> globalVault) (
     rejects (pi_Accounts ix ! 6 \<noteq> mint) (
     rejects (pi_Accounts ix ! 7 \<noteq> fst (cl_TokenPrograms lib) \<and> pi_Accounts ix ! 7 \<noteq> snd (cl_TokenPrograms lib)) (
     needs VerifyRetryable (deriveAssociatedTokenAddress lib wallet mint (pi_Accounts ix ! 7)) (\<lambda>userATA.
     rejects (pi_Accounts ix ! 3 \<noteq> userATA) (
     Inr (verifiedTx expected out))))))))))))))))))))"

end
