(* ===== verification/ConfirmService.thy ===== *)
theory ConfirmService
  imports Confirm
begin

text \<open>
  The confirmation service (\<open>service.go\<close> of \<open>depositconfirm\<close> and \<open>withdrawconfirm\<close>) and the handlers that register
  a submission (\<open>http/server.go\<close>).

  The goroutines are interleaved steps: the loop of the subscription, which loads the row of a message and then
  starts its task; the task of a signature, of which the service runs one at a time; the handler of a request.  One
  attempt of a task is one step: the other steps in between neither change its row nor read what it writes, except
  for the order in which the events of different signatures appear.  A process that stops anywhere in an attempt
  has made an attempt whose later calls failed, and then a restart.
\<close>

section \<open>Registering a submission\<close>

record submitRequest =
  rq_Signature :: string
  rq_WalletAddress :: string
  rq_AmountUnits :: u64

datatype submitReply = BadRequest | Unauthorized | InternalError | Conflict | NotImplemented | Accepted ConfirmSubmission

text \<open>\<open>auth\<close> is the wallet that the session of the request proves, if it does; \<open>bus\<close> tells whether the command was
  published.\<close>

definition handleSubmit ::
  "chainLib \<Rightarrow> (string \<Rightarrow> string option) \<Rightarrow> bool \<Rightarrow> submitRequest \<Rightarrow> submissionTable \<Rightarrow> submitReply \<times> submissionTable" where
  "handleSubmit lib auth bus req db =
     (let signature = TrimSpace (rq_Signature req) in
      if signature = [] then (BadRequest, db)
      else case auth (TrimSpace (rq_WalletAddress req)) of
        None \<Rightarrow> (Unauthorized, db)
      | Some wallet \<Rightarrow>
          if rq_AmountUnits req = 0 then (BadRequest, db)
          else if cl_Signature lib signature = None then (BadRequest, db)
          else case UpsertSubmitted signature wallet (rq_AmountUnits req) db of
            None \<Rightarrow> (InternalError, db)
          | Some (sub, db) \<Rightarrow>
              if cs_WalletAddress sub \<noteq> wallet \<or> cs_AmountUnits sub \<noteq> rq_AmountUnits req then (Conflict, db)
              else if bus then (Accepted sub, db) else (NotImplemented, db))"

section \<open>One attempt\<close>

text \<open>A call to the database or the bus is done, or refused, or done while the answer is lost.\<close>

datatype callAnswer = Done | Refused | DoneUnreported

definition effectOf :: "callAnswer \<Rightarrow> ('a \<Rightarrow> 'a) \<Rightarrow> 'a \<Rightarrow> 'a" where
  "effectOf a f x = (if a = Refused then x else f x)"

datatype confirmEvent = TxConfirmed string string u64 u64 | TxFailed string string string

record confirmFlow =
  fl_verify :: "ConfirmSubmission \<Rightarrow> parsedTx option \<Rightarrow> verifyError + VerifiedTx"
  fl_reject :: string

definition depositFlow :: "chainLib \<Rightarrow> confirmConfig \<Rightarrow> confirmFlow" where
  "depositFlow lib cfg = \<lparr>fl_verify = VerifyDepositTransaction lib cfg, fl_reject = ''transaction_not_deposit''\<rparr>"

definition withdrawFlow :: "chainLib \<Rightarrow> confirmConfig \<Rightarrow> confirmFlow" where
  "withdrawFlow lib cfg = \<lparr>fl_verify = VerifyWithdrawTransaction lib cfg, fl_reject = ''transaction_not_withdraw''\<rparr>"

record procAnswers =
  pa_Watching :: callAnswer
  pa_Wait :: "waitError + confirmResult"
  pa_Stopping :: bool
  pa_Tx :: "parsedTx option"
  pa_Publish :: callAnswer
  pa_Mark :: callAnswer

text \<open>What an attempt leaves: the table, the events published, whether to retry and whether the end is terminal.\<close>

type_synonym ('db, 'e) outcome = "('db \<times> 'e list) \<times> bool \<times> bool"
type_synonym attempt = "(submissionTable, confirmEvent) outcome"

text \<open>Publish, then mark; a call that reports an error asks for a retry.\<close>

definition publishAndMark :: "procAnswers \<Rightarrow> 'e \<Rightarrow> ('db \<Rightarrow> 'db) \<Rightarrow> bool \<Rightarrow> 'db \<times> 'e list \<Rightarrow> ('db, 'e) outcome" where
  "publishAndMark a e mark terminal st = (case st of (db, evs) \<Rightarrow>
     let evs = effectOf (pa_Publish a) (\<lambda>evs. evs @ [e]) evs in
     if pa_Publish a \<noteq> Done then ((db, evs), True, False)
     else let db = effectOf (pa_Mark a) mark db in
       if pa_Mark a \<noteq> Done then ((db, evs), True, False) else ((db, evs), False, terminal))"

definition failSubmission :: "procAnswers \<Rightarrow> ConfirmSubmission \<Rightarrow> string \<Rightarrow> (submissionTable \<Rightarrow> submissionTable) \<Rightarrow> bool \<Rightarrow>
    submissionTable \<times> confirmEvent list \<Rightarrow> attempt" where
  "failSubmission a sub reason = publishAndMark a (TxFailed (cs_Signature sub) (cs_WalletAddress sub) reason)"

definition confirmVerified :: "procAnswers \<Rightarrow> confirmResult \<Rightarrow> VerifiedTx \<Rightarrow> submissionTable \<times> confirmEvent list \<Rightarrow> attempt" where
  "confirmVerified a result v =
     (let slot = (if 0 < cr_Slot result then cr_Slot result else vf_Slot v)
      in publishAndMark a (TxConfirmed (vf_Signature v) (vf_WalletAddress v) (vf_AmountUnits v) slot)
           (MarkConfirmed (vf_Signature v) slot) True)"

definition processSubmission :: "chainLib \<Rightarrow> confirmFlow \<Rightarrow> procAnswers \<Rightarrow> ConfirmSubmission \<Rightarrow>
    submissionTable \<times> confirmEvent list \<Rightarrow> attempt" where
  "processSubmission lib flow a sub st = (case st of (db, evs) \<Rightarrow>
     if terminalStatus (cs_Status sub) then ((db, evs), False, True)
     else let db = effectOf (pa_Watching a) (MarkWatching (cs_Signature sub)) db in
     if pa_Watching a \<noteq> Done then ((db, evs), True, False)
     else if cl_Signature lib (TrimSpace (cs_Signature sub)) = None then
       failSubmission a sub ''invalid_signature'' (MarkFailed (cs_Signature sub) ''invalid_signature'') False (db, evs)
     else case pa_Wait a of
       Inl e \<Rightarrow>
         if pa_Stopping a \<and> e = Cancelled then ((db, evs), True, False)
         else let reason = (if e = DeadlineExceeded then ''confirm_timeout'' else ''confirm_failed'')
              in failSubmission a sub reason (MarkExpired (cs_Signature sub) reason) True (db, evs)
     | Inr result \<Rightarrow> (case fl_verify flow sub (pa_Tx a) of
         Inl VerifyRetryable \<Rightarrow> ((db, evs), True, False)
       | Inl VerifyRejected \<Rightarrow> failSubmission a sub (fl_reject flow) (MarkFailed (cs_Signature sub) (fl_reject flow)) True (db, evs)
       | Inr v \<Rightarrow> confirmVerified a result v (db, evs)))"

text \<open>The two services and their handlers.\<close>

definition submitDeposit where "submitDeposit = handleSubmit"

definition submitWithdraw where "submitWithdraw = handleSubmit"

definition processDeposit where "processDeposit lib cfg = processSubmission lib (depositFlow lib cfg)"

definition processWithdraw where "processWithdraw lib cfg = processSubmission lib (withdrawFlow lib cfg)"

section \<open>The service\<close>

text \<open>The tasks by signature, each with its submission and whether it is one of recovery; the submission that the
  loop has loaded and not started yet.\<close>

record confirmState =
  cv_db :: submissionTable
  cv_events :: "confirmEvent list"
  cv_active :: "string \<rightharpoonup> ConfirmSubmission \<times> bool"
  cv_inbox :: "ConfirmSubmission option"

definition newConfirmState :: confirmState where
  "newConfirmState = \<lparr>cv_db = Map.empty, cv_events = [], cv_active = Map.empty, cv_inbox = None\<rparr>"

datatype messageOutcome = MsgTerm | MsgNak | MsgAck | MsgStart ConfirmSubmission

text \<open>\<open>None\<close> is a message that does not decode; \<open>dbOk\<close> tells whether the query of the row answers.\<close>

definition handleMessage :: "string option \<Rightarrow> bool \<Rightarrow> submissionTable \<Rightarrow> messageOutcome" where
  "handleMessage msg dbOk db = (case msg of
       None \<Rightarrow> MsgTerm
     | Some signature \<Rightarrow> (case (if dbOk then LoadSubmission signature db else None) of
         None \<Rightarrow> MsgNak
       | Some sub \<Rightarrow> if terminalStatus (cs_Status sub) then MsgAck else MsgStart sub))"

definition startSubmissionTask :: "ConfirmSubmission \<Rightarrow> bool \<Rightarrow> confirmState \<Rightarrow> confirmState" where
  "startSubmissionTask sub recovery s =
     (let signature = TrimSpace (cs_Signature sub) in
      if signature = [] then s
      else if cv_active s signature \<noteq> None then s
      else s\<lparr>cv_active := (cv_active s)(signature \<mapsto> (sub, recovery))\<rparr>)"

definition recoverActive :: "ConfirmSubmission list \<Rightarrow> confirmState \<Rightarrow> confirmState" where
  "recoverActive items s = fold (\<lambda>sub. startSubmissionTask sub True) items s"

text \<open>One attempt of the task of a signature: a task of recovery goes on while it is asked to retry, with the row as
  it is now if the query answers.\<close>

definition runTask :: "chainLib \<Rightarrow> confirmFlow \<Rightarrow> procAnswers \<Rightarrow> bool \<Rightarrow> string \<Rightarrow> ConfirmSubmission \<Rightarrow> bool \<Rightarrow> confirmState \<Rightarrow> confirmState" where
  "runTask lib flow a dbOk signature sub recovery s =
     (case processSubmission lib flow a sub (cv_db s, cv_events s) of ((db, evs), retry, terminal) \<Rightarrow>
        s\<lparr>cv_db := db, cv_events := evs,
          cv_active := (cv_active s)(signature :=
            if recovery \<and> retry \<and> \<not> terminal
            then Some (case (if dbOk then LoadSubmission signature db else None) of None \<Rightarrow> sub | Some u \<Rightarrow> u, True)
            else None)\<rparr>)"

definition nextRetryDelay :: "int \<Rightarrow> int \<Rightarrow> int" where
  "nextRetryDelay current limit = (if current \<le> 0 then limit else if limit \<le> 0 then current else if limit < current * 2 then limit else current * 2)"

text \<open>\<open>chain\<close> is the transaction that the chain holds under a signature: what the RPC node answers, when it does.\<close>

inductive confirmStep :: "chainLib \<Rightarrow> confirmFlow \<Rightarrow> (bytes \<rightharpoonup> parsedTx) \<Rightarrow> confirmState \<Rightarrow> confirmState \<Rightarrow> bool"
  for lib flow chain where
  submit: "handleSubmit lib auth bus req (cv_db s) = (reply, db) \<Longrightarrow> confirmStep lib flow chain s (s\<lparr>cv_db := db\<rparr>)"
| load: "cv_inbox s = None \<Longrightarrow> handleMessage msg dbOk (cv_db s) = MsgStart sub \<Longrightarrow> confirmStep lib flow chain s (s\<lparr>cv_inbox := Some sub\<rparr>)"
| start: "cv_inbox s = Some sub \<Longrightarrow> confirmStep lib flow chain s (startSubmissionTask sub False (s\<lparr>cv_inbox := None\<rparr>))"
| attempt: "cv_active s signature = Some (sub, recovery) \<Longrightarrow>
     pa_Tx a = None \<or> pa_Tx a = Option.bind (cl_Signature lib (cs_Signature sub)) chain \<Longrightarrow>
     confirmStep lib flow chain s (runTask lib flow a dbOk signature sub recovery s)"
| restart: "set items = listActive (cv_db s) \<Longrightarrow>
     confirmStep lib flow chain s (recoverActive items (s\<lparr>cv_active := Map.empty, cv_inbox := None\<rparr>))"

inductive_cases confirmStep_elim: "confirmStep lib flow chain s s'"

definition reachableConfirm :: "chainLib \<Rightarrow> confirmFlow \<Rightarrow> (bytes \<rightharpoonup> parsedTx) \<Rightarrow> confirmState \<Rightarrow> bool" where
  "reachableConfirm lib flow chain s \<longleftrightarrow> (confirmStep lib flow chain)\<^sup>*\<^sup>* newConfirmState s"

end
