(* ===== verification/MarketConfirm.thy ===== *)
theory MarketConfirm
  imports ConfirmService Encodings Assoc
begin

text \<open>
  How a market comes to be listed: the registration of a signature (\<open>http/server.go\<close>), the confirmation service of
  market creations (\<open>marketconfirm/repository.go\<close>, \<open>verify.go\<close>, \<open>metadata.go\<close>, \<open>service.go\<close>), the projector that
  stores the market (\<open>marketconfirm/projector.go\<close>, \<open>markets/postgres_store.go\<close>) and the admin's resolution of it
  (\<open>http/server.go\<close>).

  Base 58, SHA-256 and the address search are fields of \<open>chainLib\<close>, the text of a key is \<open>showKey\<close>; what the RPC
  node, the metadata gateway, the database and the bus answer are arguments.  A time is its Unix second.
\<close>

section \<open>The submissions\<close>

record MarketSubmission =
  mk_Signature :: string
  mk_MarketID :: u64
  mk_MarketPDA :: string
  mk_CreatorWallet :: string
  mk_MetadataCID :: string
  mk_Status :: string
  mk_FailureReason :: string
  mk_Slot :: u64

type_synonym marketTable = "string \<rightharpoonup> MarketSubmission"

text \<open>A row without a market id reads as market 0; the slot is a signed column.\<close>

definition scanMarketSubmission :: "MarketSubmission \<Rightarrow> MarketSubmission" where
  "scanMarketSubmission row = row\<lparr>mk_Slot := (if 0 <s mk_Slot row then mk_Slot row else 0)\<rparr>"

definition UpsertMarketSubmitted :: "string \<Rightarrow> marketTable \<Rightarrow> MarketSubmission \<times> marketTable" where
  "UpsertMarketSubmitted signature db = (case db (TrimSpace signature) of
       Some row \<Rightarrow> (scanMarketSubmission row, db)
     | None \<Rightarrow> (let row = \<lparr>mk_Signature = TrimSpace signature, mk_MarketID = 0, mk_MarketPDA = [], mk_CreatorWallet = [],
                   mk_MetadataCID = [], mk_Status = ''submitted'', mk_FailureReason = [], mk_Slot = 0\<rparr>
               in (scanMarketSubmission row, db(TrimSpace signature \<mapsto> row))))"

definition LoadMarketSubmission :: "string \<Rightarrow> marketTable \<Rightarrow> MarketSubmission option" where
  "LoadMarketSubmission signature db = map_option scanMarketSubmission (db (TrimSpace signature))"

definition listActiveMarkets :: "marketTable \<Rightarrow> MarketSubmission set" where
  "listActiveMarkets db = {scanMarketSubmission r | r s. db s = Some r \<and> activeStatus (mk_Status r)}"

definition updateSubmission :: "string \<Rightarrow> (MarketSubmission \<Rightarrow> MarketSubmission) \<Rightarrow> marketTable \<Rightarrow> marketTable" where
  "updateSubmission signature f db = (case db signature of None \<Rightarrow> db | Some r \<Rightarrow> db(signature \<mapsto> f r))"

definition MarkMarketWatching :: "string \<Rightarrow> marketTable \<Rightarrow> marketTable" where
  "MarkMarketWatching signature = updateSubmission (TrimSpace signature)
     (\<lambda>r. if activeStatus (mk_Status r) then r\<lparr>mk_Status := ''watching''\<rparr> else r)"

definition MarkMarketFailed :: "string \<Rightarrow> string \<Rightarrow> marketTable \<Rightarrow> marketTable" where
  "MarkMarketFailed signature reason = updateSubmission (TrimSpace signature)
     (\<lambda>r. r\<lparr>mk_Status := ''failed'', mk_FailureReason := TrimSpace reason\<rparr>)"

definition MarkMarketExpired :: "string \<Rightarrow> string \<Rightarrow> marketTable \<Rightarrow> marketTable" where
  "MarkMarketExpired signature reason = updateSubmission (TrimSpace signature)
     (\<lambda>r. r\<lparr>mk_Status := ''expired'', mk_FailureReason := TrimSpace reason\<rparr>)"

section \<open>The check of a transaction\<close>

record MarketConfirmedEvent =
  mc_Signature :: string
  mc_Slot :: u64
  mc_MarketID :: u64
  mc_MarketPDA :: string
  mc_Creator :: string
  mc_MetadataCID :: string
  mc_MetadataURL :: string
  mc_Title :: string
  mc_Description :: string
  mc_Category :: string
  mc_ImageURL :: string
  mc_ResolutionMode :: string
  mc_ResolutionAuthority :: string
  mc_OracleFeed :: string
  mc_OracleCondition :: string
  mc_OracleTargetPrice :: u64
  mc_OracleTargetExpo :: u32
  mc_CloseTS :: i64
  mc_ResolveAfterTS :: i64
  mc_ClaimDeadlineTS :: i64

definition Uint32 :: "bytes \<Rightarrow> u32" where "Uint32 bs = of_nat (leValue (take 4 bs))"

definition DeriveMarketPDA :: "pdaSearch \<Rightarrow> PublicKey \<Rightarrow> u64 \<Rightarrow> PublicKey option" where
  "DeriveMarketPDA findPDA programID marketID = findPDA [textBytes ''market'', PutUint64 marketID] programID"

definition decodeFixedString :: "bytes \<Rightarrow> string" where
  "decodeFixedString buf = rev (dropWhile (\<lambda>c. c = CHR '' '') (rev (filter (\<lambda>c. c \<noteq> CHR 0x00) (map (\<lambda>b. char_of (unat b)) buf))))"

definition normalizeResolutionMode :: "u8 \<Rightarrow> string" where
  "normalizeResolutionMode raw = (if raw = 1 then ''pyth'' else ''creator'')"

definition normalizeOracleCondition :: "u8 \<Rightarrow> string" where
  "normalizeOracleCondition raw = (if raw = 0 then ''gt'' else if raw = 1 then ''gte'' else if raw = 2 then ''lt''
     else if raw = 3 then ''lte'' else [])"

text \<open>The metadata document, as the gateway's answer decodes, if it answers with success and decodes.\<close>

record MetadataDocument =
  md_Title :: string
  md_Description :: string
  md_Category :: string
  md_Image :: string
  md_ImageURL :: string

definition metadataURLFromCID :: "string \<Rightarrow> string" where
  "metadataURLFromCID cid = (if TrimSpace cid = [] then [] else ''ipfs://'' @ TrimSpace cid)"

definition ipfsGatewayURL :: "string \<Rightarrow> string" where
  "ipfsGatewayURL uri = (if HasPrefix (TrimSpace uri) ''ipfs://''
     then ''https://ipfs.io/ipfs/'' @ drop (length ''ipfs://'') (TrimSpace uri) else TrimSpace uri)"

definition fetchMetadata :: "string \<Rightarrow> MetadataDocument option \<Rightarrow> (MetadataDocument \<times> string) option" where
  "fetchMetadata cid answer = (
     if metadataURLFromCID cid = [] then None
     else case answer of
       None \<Rightarrow> None
     | Some doc \<Rightarrow>
         (let image = (if md_ImageURL doc = [] then md_Image doc else md_ImageURL doc);
              image = (if HasPrefix image ''ipfs://'' then ipfsGatewayURL image else image)
          in Some (doc\<lparr>md_ImageURL := image\<rparr>, metadataURLFromCID cid)))"

text \<open>What the instruction says, and the event made of it: a market the creator resolves has no oracle.\<close>

definition marketEventOf ::
  "(PublicKey \<Rightarrow> string) \<Rightarrow> string \<Rightarrow> u64 \<Rightarrow> parsedInstruction \<Rightarrow> MetadataDocument \<Rightarrow> string \<Rightarrow> MarketConfirmedEvent" where
  "marketEventOf showKey signature slot ix doc url =
     (let bs = pi_Data ix; mode = normalizeResolutionMode (bs ! 136); pyth = (mode = ''pyth'') in
      \<lparr>mc_Signature = signature, mc_Slot = slot, mc_MarketID = Uint64 (drop 8 bs),
       mc_MarketPDA = showKey (pi_Accounts ix ! 0), mc_Creator = showKey (pi_Accounts ix ! 1),
       mc_MetadataCID = decodeFixedString (take 96 (drop 16 bs)), mc_MetadataURL = url,
       mc_Title = md_Title doc, mc_Description = md_Description doc, mc_Category = md_Category doc, mc_ImageURL = md_ImageURL doc,
       mc_ResolutionMode = mode, mc_ResolutionAuthority = showKey (pi_Accounts ix ! 1),
       mc_OracleFeed = (if pyth then map toLowerChar (''0x'' @ hexEncode (take 32 (drop 137 bs))) else []),
       mc_OracleCondition = (if pyth then normalizeOracleCondition (bs ! 169) else []),
       mc_OracleTargetPrice = (if pyth then Uint64 (drop 170 bs) else 0),
       mc_OracleTargetExpo = (if pyth then Uint32 (drop 178 bs) else 0),
       mc_CloseTS = Uint64 (drop 112 bs), mc_ResolveAfterTS = Uint64 (drop 120 bs), mc_ClaimDeadlineTS = Uint64 (drop 128 bs)\<rparr>)"

definition VerifyMarketCreateTransaction ::
  "chainLib \<Rightarrow> (PublicKey \<Rightarrow> string) \<Rightarrow> confirmConfig \<Rightarrow> string \<Rightarrow> parsedTx option \<Rightarrow> MetadataDocument option \<Rightarrow>
     verifyError + MarketConfirmedEvent" where
  "VerifyMarketCreateTransaction lib showKey cfg expected answer document =
     needs VerifyRejected (cl_Signature lib (TrimSpace expected)) (\<lambda>signature.
     needs VerifyRetryable (cl_Key lib (TrimSpace (cfg_ProgramID cfg))) (\<lambda>programID.
     needs VerifyRetryable answer (\<lambda>out.
     rejects (\<not> px_Succeeded out) (
     needs VerifyRejected (px_Instructions out) (\<lambda>ixs.
     needs VerifyRejected (findInstruction 182 programID (anchorDiscriminator lib ''create_market'') ixs) (\<lambda>ix.
     rejects (length (pi_Accounts ix) < 2) (
     needs VerifyRejected (DeriveMarketPDA (cl_findPDA lib) programID (Uint64 (drop 8 (pi_Data ix)))) (\<lambda>pda.
     rejects (pda \<noteq> pi_Accounts ix ! 0) (
     rejects (TrimSpace (decodeFixedString (take 96 (drop 16 (pi_Data ix)))) = []) (
     needs VerifyRetryable (fetchMetadata (decodeFixedString (take 96 (drop 16 (pi_Data ix)))) document) (\<lambda>(doc, url).
     Inr (marketEventOf showKey expected (px_Slot out) ix doc url))))))))))))"

section \<open>One attempt\<close>

datatype marketEvent = MarketConfirmed MarketConfirmedEvent | MarketFailed string string

definition MarkMarketConfirmed :: "MarketConfirmedEvent \<Rightarrow> marketTable \<Rightarrow> marketTable" where
  "MarkMarketConfirmed ev = updateSubmission (TrimSpace (mc_Signature ev)) (\<lambda>r. r\<lparr>mk_Status := ''confirmed'',
     mk_MarketID := mc_MarketID ev, mk_MarketPDA := TrimSpace (mc_MarketPDA ev), mk_CreatorWallet := TrimSpace (mc_Creator ev),
     mk_MetadataCID := TrimSpace (mc_MetadataCID ev), mk_Slot := mc_Slot ev, mk_FailureReason := []\<rparr>)"

definition processMarket ::
  "chainLib \<Rightarrow> (PublicKey \<Rightarrow> string) \<Rightarrow> confirmConfig \<Rightarrow> procAnswers \<Rightarrow> MetadataDocument option \<Rightarrow> MarketSubmission \<Rightarrow>
     marketTable \<times> marketEvent list \<Rightarrow> (marketTable, marketEvent) outcome" where
  "processMarket lib showKey cfg a document sub st = (case st of (db, evs) \<Rightarrow>
     let signature = mk_Signature sub; fail = (\<lambda>reason. publishAndMark a (MarketFailed signature reason)) in
     if terminalStatus (mk_Status sub) then ((db, evs), False, True)
     else let db = effectOf (pa_Watching a) (MarkMarketWatching signature) db in
     if pa_Watching a \<noteq> Done then ((db, evs), True, False)
     else if cl_Signature lib (TrimSpace signature) = None then
       fail ''invalid_signature'' (MarkMarketFailed signature ''invalid_signature'') False (db, evs)
     else case pa_Wait a of
       Inl e \<Rightarrow>
         if pa_Stopping a \<and> e = Cancelled then ((db, evs), True, False)
         else let reason = (if e = DeadlineExceeded then ''confirm_timeout'' else ''confirm_failed'')
              in fail reason (MarkMarketExpired signature reason) True (db, evs)
     | Inr result \<Rightarrow> (case VerifyMarketCreateTransaction lib showKey cfg signature (pa_Tx a) document of
         Inl VerifyRetryable \<Rightarrow> ((db, evs), True, False)
       | Inl VerifyRejected \<Rightarrow>
           fail ''transaction_not_market_create'' (MarkMarketFailed signature ''transaction_not_market_create'') True (db, evs)
       | Inr ev \<Rightarrow>
           (let ev = (if 0 < cr_Slot result then ev\<lparr>mc_Slot := cr_Slot result\<rparr> else ev)
            in publishAndMark a (MarketConfirmed ev) (MarkMarketConfirmed ev) True (db, evs))))"

section \<open>The market table\<close>

record Market =
  mt_ID :: string
  mt_MarketID :: u64
  mt_MarketPDA :: string
  mt_MetadataCID :: string
  mt_MetadataURL :: string
  mt_Title :: string
  mt_Description :: string
  mt_Category :: string
  mt_ImageURL :: string
  mt_Status :: string
  mt_Outcome :: string
  mt_Mode :: string
  mt_Authority :: string
  mt_OracleFeed :: string
  mt_OracleCondition :: string
  mt_OracleTarget :: u64
  mt_OracleTargetExpo :: u32
  mt_CloseTime :: i64
  mt_ResolveAfterTime :: i64
  mt_ClaimDeadlineTime :: i64
  mt_ResolvedAt :: "i64 option"
  mt_CreatedAt :: i64
  mt_UpdatedAt :: i64

type_synonym marketRows = "(u64 \<times> Market) list"

definition parseStatus :: "string \<Rightarrow> string" where
  "parseStatus raw = (if map toLowerChar (TrimSpace raw) = ''resolved'' then ''resolved'' else ''open'')"

definition parseOutcome :: "string \<Rightarrow> string" where
  "parseOutcome raw = (let r = map toLowerChar (TrimSpace raw) in
     if r = ''yes'' then ''yes'' else if r = ''no'' then ''no'' else ''undecided'')"

definition parseResolutionMode :: "string \<Rightarrow> string" where
  "parseResolutionMode raw = (if map toLowerChar (TrimSpace raw) = ''pyth'' then ''pyth'' else ''creator'')"

definition parseOracleCondition :: "string \<Rightarrow> string" where
  "parseOracleCondition raw = (let r = map toLowerChar (TrimSpace raw) in
     if r = ''gt'' then ''gt'' else if r = ''lt'' then ''lt'' else if r = ''lte'' then ''lte'' else ''gte'')"

definition scanMarket :: "Market \<Rightarrow> Market" where
  "scanMarket m = m\<lparr>mt_Status := parseStatus (mt_Status m), mt_Outcome := parseOutcome (mt_Outcome m),
     mt_Mode := parseResolutionMode (mt_Mode m), mt_OracleCondition := parseOracleCondition (mt_OracleCondition m),
     mt_OracleTarget := (if 0 <s mt_OracleTarget m then mt_OracleTarget m else 0)\<rparr>"

definition GetMarket :: "u64 \<Rightarrow> marketRows \<Rightarrow> Market option" where
  "GetMarket marketID rows = map_option scanMarket (map_of rows marketID)"

text \<open>The id and the address of a market are unique in the table; an insertion that meets its market id updates it.\<close>

definition SaveMarket :: "Market \<Rightarrow> marketRows \<Rightarrow> marketRows option" where
  "SaveMarket m rows = (
     if list_ex (\<lambda>(i, x). i \<noteq> mt_MarketID m \<and> (mt_MarketPDA x = mt_MarketPDA m \<or> mt_ID x = mt_ID m)) rows then None
     else case map_of rows (mt_MarketID m) of
       None \<Rightarrow> Some (rows @ [(mt_MarketID m, m)])
     | Some old \<Rightarrow> Some (AList.update (mt_MarketID m) (m\<lparr>mt_ID := mt_ID old, mt_CreatedAt := mt_CreatedAt old\<rparr>) rows))"

definition UpdateMarket :: "Market \<Rightarrow> marketRows \<Rightarrow> marketRows option" where
  "UpdateMarket m rows = (case map_of rows (mt_MarketID m) of
       None \<Rightarrow> None
     | Some old \<Rightarrow> Some (AList.update (mt_MarketID m) (m\<lparr>mt_ID := mt_ID old, mt_MarketPDA := mt_MarketPDA old,
         mt_CreatedAt := mt_CreatedAt old\<rparr>) rows))"

section \<open>The projector\<close>

definition fallbackTitle :: "string \<Rightarrow> u64 \<Rightarrow> string" where
  "fallbackTitle title marketID = (if title \<noteq> [] then title else ''Market '' @ FormatUint10 marketID)"

definition marketOf :: "string \<Rightarrow> i64 \<Rightarrow> MarketConfirmedEvent \<Rightarrow> Market" where
  "marketOf uuid now ev = \<lparr>mt_ID = uuid, mt_MarketID = mc_MarketID ev, mt_MarketPDA = mc_MarketPDA ev,
     mt_MetadataCID = mc_MetadataCID ev, mt_MetadataURL = mc_MetadataURL ev, mt_Title = fallbackTitle (mc_Title ev) (mc_MarketID ev),
     mt_Description = mc_Description ev, mt_Category = mc_Category ev, mt_ImageURL = mc_ImageURL ev,
     mt_Status = ''open'', mt_Outcome = ''undecided'', mt_Mode = mc_ResolutionMode ev, mt_Authority = mc_ResolutionAuthority ev,
     mt_OracleFeed = mc_OracleFeed ev, mt_OracleCondition = mc_OracleCondition ev, mt_OracleTarget = mc_OracleTargetPrice ev,
     mt_OracleTargetExpo = mc_OracleTargetExpo ev, mt_CloseTime = mc_CloseTS ev, mt_ResolveAfterTime = mc_ResolveAfterTS ev,
     mt_ClaimDeadlineTime = mc_ClaimDeadlineTS ev, mt_ResolvedAt = None, mt_CreatedAt = now, mt_UpdatedAt = now\<rparr>"

text \<open>The projector marks the row of the event as confirmed, whatever its status.\<close>

definition projectSubmission :: "MarketConfirmedEvent \<Rightarrow> marketTable \<Rightarrow> marketTable" where
  "projectSubmission ev = updateSubmission (mc_Signature ev) (\<lambda>r. r\<lparr>mk_Status := ''confirmed'', mk_MarketID := mc_MarketID ev,
     mk_MarketPDA := mc_MarketPDA ev, mk_CreatorWallet := mc_Creator ev, mk_MetadataCID := mc_MetadataCID ev,
     mk_Slot := mc_Slot ev, mk_FailureReason := []\<rparr>)"

text \<open>One delivery; the last component tells whether it is acknowledged.  A failing cache is only logged.\<close>

definition projectMarket ::
  "string \<Rightarrow> i64 \<Rightarrow> callAnswer \<Rightarrow> callAnswer \<Rightarrow> MarketConfirmedEvent \<Rightarrow> marketRows \<times> marketTable \<Rightarrow> (marketRows \<times> marketTable) \<times> bool" where
  "projectMarket uuid now saved marked ev st = (case st of (rows, db) \<Rightarrow>
     case (if saved = Refused then None else SaveMarket (marketOf uuid now ev) rows) of
       None \<Rightarrow> ((rows, db), False)
     | Some rows \<Rightarrow> if saved \<noteq> Done then ((rows, db), False)
         else ((rows, effectOf marked (projectSubmission ev) db), marked = Done))"

section \<open>The handlers\<close>

datatype marketReply = MarketBadRequest | MarketNotPublished | MarketAccepted string string

definition handleCreateMarket :: "chainLib \<Rightarrow> bool \<Rightarrow> string \<Rightarrow> marketTable \<Rightarrow> marketReply \<times> marketTable" where
  "handleCreateMarket lib bus signature db = (
     if TrimSpace signature = [] then (MarketBadRequest, db)
     else if cl_Signature lib (TrimSpace signature) = None then (MarketBadRequest, db)
     else let (sub, db) = UpsertMarketSubmitted (TrimSpace signature) db
          in (if bus then MarketAccepted (mk_Signature sub) (mk_Status sub) else MarketNotPublished, db))"

text \<open>\<open>handleResolveCreator\<close> behind the admin check: the market as it was read, changed, to be written back.\<close>

definition resolveCreator :: "string \<Rightarrow> i64 \<Rightarrow> Market \<Rightarrow> Market" where
  "resolveCreator outcome now m = m\<lparr>mt_Outcome := outcome, mt_Status := ''resolved'', mt_ResolvedAt := Some now, mt_UpdatedAt := now\<rparr>"

section \<open>The system\<close>

record marketState =
  ms_db :: marketTable
  ms_events :: "marketEvent list"
  ms_active :: "string \<rightharpoonup> MarketSubmission \<times> bool"
  ms_inbox :: "MarketSubmission option"
  ms_markets :: marketRows
  ms_resolving :: "Market list"
  ms_outcomes :: "(u64 \<times> string) list"

definition newMarketState :: marketState where
  "newMarketState = \<lparr>ms_db = Map.empty, ms_events = [], ms_active = Map.empty, ms_inbox = None, ms_markets = [],
     ms_resolving = [], ms_outcomes = []\<rparr>"

datatype marketOutcome = MarketTerm | MarketNak | MarketAck | MarketStart MarketSubmission

definition handleMarketMessage :: "string option \<Rightarrow> bool \<Rightarrow> marketTable \<Rightarrow> marketOutcome" where
  "handleMarketMessage msg dbOk db = (case msg of
       None \<Rightarrow> MarketTerm
     | Some signature \<Rightarrow> (case (if dbOk then LoadMarketSubmission signature db else None) of
         None \<Rightarrow> MarketNak
       | Some sub \<Rightarrow> if terminalStatus (mk_Status sub) then MarketAck else MarketStart sub))"

definition startMarketTask :: "MarketSubmission \<Rightarrow> bool \<Rightarrow> marketState \<Rightarrow> marketState" where
  "startMarketTask sub recovery s =
     (let signature = TrimSpace (mk_Signature sub) in
      if signature = [] then s
      else if ms_active s signature \<noteq> None then s
      else s\<lparr>ms_active := (ms_active s)(signature \<mapsto> (sub, recovery))\<rparr>)"

definition recoverMarkets :: "MarketSubmission list \<Rightarrow> marketState \<Rightarrow> marketState" where
  "recoverMarkets items s = fold (\<lambda>sub. startMarketTask sub True) items s"

definition runMarketTask ::
  "chainLib \<Rightarrow> (PublicKey \<Rightarrow> string) \<Rightarrow> confirmConfig \<Rightarrow> procAnswers \<Rightarrow> MetadataDocument option \<Rightarrow> bool \<Rightarrow> string \<Rightarrow>
     MarketSubmission \<Rightarrow> bool \<Rightarrow> marketState \<Rightarrow> marketState" where
  "runMarketTask lib showKey cfg a document dbOk signature sub recovery s =
     (case processMarket lib showKey cfg a document sub (ms_db s, ms_events s) of ((db, evs), retry, terminal) \<Rightarrow>
        s\<lparr>ms_db := db, ms_events := evs,
          ms_active := (ms_active s)(signature :=
            if recovery \<and> retry \<and> \<not> terminal
            then Some (case (if dbOk then LoadMarketSubmission signature db else None) of None \<Rightarrow> sub | Some u \<Rightarrow> u, True)
            else None)\<rparr>)"

definition projectStep :: "string \<Rightarrow> i64 \<Rightarrow> callAnswer \<Rightarrow> callAnswer \<Rightarrow> MarketConfirmedEvent \<Rightarrow> marketState \<Rightarrow> marketState" where
  "projectStep uuid now saved marked ev s =
     (let ((rows, db), acked) = projectMarket uuid now saved marked ev (ms_markets s, ms_db s)
      in s\<lparr>ms_markets := rows, ms_db := db\<rparr>)"

text \<open>
  The steps of all of them, in any order; the bus may deliver a confirmation any number of times.  \<open>chain\<close> is what the
  chain holds under a signature.  A resolution reads the market in one step and writes it in another.
\<close>

inductive marketStep ::
  "chainLib \<Rightarrow> (PublicKey \<Rightarrow> string) \<Rightarrow> confirmConfig \<Rightarrow> (bytes \<rightharpoonup> parsedTx) \<Rightarrow> marketState \<Rightarrow> marketState \<Rightarrow> bool"
  for lib showKey cfg chain where
  create: "handleCreateMarket lib bus signature (ms_db s) = (reply, db) \<Longrightarrow> marketStep lib showKey cfg chain s (s\<lparr>ms_db := db\<rparr>)"
| load: "ms_inbox s = None \<Longrightarrow> handleMarketMessage msg dbOk (ms_db s) = MarketStart sub \<Longrightarrow>
     marketStep lib showKey cfg chain s (s\<lparr>ms_inbox := Some sub\<rparr>)"
| start: "ms_inbox s = Some sub \<Longrightarrow> marketStep lib showKey cfg chain s (startMarketTask sub False (s\<lparr>ms_inbox := None\<rparr>))"
| attempt: "ms_active s signature = Some (sub, recovery) \<Longrightarrow>
     pa_Tx a = None \<or> pa_Tx a = Option.bind (cl_Signature lib (TrimSpace (mk_Signature sub))) chain \<Longrightarrow>
     marketStep lib showKey cfg chain s (runMarketTask lib showKey cfg a document dbOk signature sub recovery s)"
| restart: "set items = listActiveMarkets (ms_db s) \<Longrightarrow>
     marketStep lib showKey cfg chain s (recoverMarkets items (s\<lparr>ms_active := Map.empty, ms_inbox := None\<rparr>))"
| project: "MarketConfirmed ev \<in> set (ms_events s) \<Longrightarrow> marketStep lib showKey cfg chain s (projectStep uuid now saved marked ev s)"
| resolve: "GetMarket marketID (ms_markets s) = Some m \<Longrightarrow>
     marketStep lib showKey cfg chain s (s\<lparr>ms_resolving := resolveCreator outcome now m # ms_resolving s,
       ms_outcomes := (marketID, outcome) # ms_outcomes s\<rparr>)"
| resolved: "m \<in> set (ms_resolving s) \<Longrightarrow> UpdateMarket m (ms_markets s) = Some rows \<Longrightarrow>
     marketStep lib showKey cfg chain s (s\<lparr>ms_markets := rows, ms_resolving := remove1 m (ms_resolving s)\<rparr>)"

inductive_cases marketStep_elim: "marketStep lib showKey cfg chain s s'"

definition reachableMarket :: "chainLib \<Rightarrow> (PublicKey \<Rightarrow> string) \<Rightarrow> confirmConfig \<Rightarrow> (bytes \<rightharpoonup> parsedTx) \<Rightarrow> marketState \<Rightarrow> bool" where
  "reachableMarket lib showKey cfg chain s \<longleftrightarrow> (marketStep lib showKey cfg chain)\<^sup>*\<^sup>* newMarketState s"

end
