(* ===== verification/ConfirmLaws.thy ===== *)
theory ConfirmLaws
  imports ConfirmService FundsProps
begin

text \<open>
  What the confirmation services guarantee.  The locale \<open>confirmation\<close> states what a check of transactions promises:
  a verified submission is backed by what the chain holds.  Its lemmas hold for both services; the
  interpretations discharge the promise for the two checks of the code.  With the ledger of the funds service
  behind them: every unit credited is backed by a deposit on the chain, once.
\<close>

section \<open>The rows\<close>

text \<open>Rows are kept under their trimmed signature and have a positive amount; wallet and amount never change.\<close>

definition table_ok :: "submissionTable \<Rightarrow> bool" where
  "table_ok db \<longleftrightarrow> (\<forall>s r. db s = Some r \<longrightarrow> cs_Signature r = s \<and> TrimSpace s = s \<and> s \<noteq> [] \<and> 0 <s cs_AmountUnits r)"

definition claims :: "submissionTable \<Rightarrow> string \<Rightarrow> string \<Rightarrow> u64 \<Rightarrow> bool" where
  "claims db s wallet amount \<longleftrightarrow> (\<exists>r. db s = Some r \<and> cs_WalletAddress r = wallet \<and> cs_AmountUnits r = amount)"

definition keepsRows :: "submissionTable \<Rightarrow> submissionTable \<Rightarrow> bool" where
  "keepsRows db db' \<longleftrightarrow> (\<forall>s r. db s = Some r \<longrightarrow> (\<exists>r'. db' s = Some r' \<and> cs_Signature r' = cs_Signature r \<and>
     cs_WalletAddress r' = cs_WalletAddress r \<and> cs_AmountUnits r' = cs_AmountUnits r))"

lemma keepsRows_refl [simp]: "keepsRows db db" by (simp add: keepsRows_def)

lemma keepsRows_trans: "keepsRows a b \<Longrightarrow> keepsRows b c \<Longrightarrow> keepsRows a c"
  unfolding keepsRows_def by metis

lemma claims_kept: "keepsRows db db' \<Longrightarrow> claims db s w n \<Longrightarrow> claims db' s w n"
  unfolding claims_def keepsRows_def by metis

text \<open>An update that leaves signature, wallet and amount of a row alone.\<close>

definition sameRows :: "submissionTable \<Rightarrow> submissionTable \<Rightarrow> bool" where
  "sameRows db db' \<longleftrightarrow> keepsRows db db' \<and> dom db' = dom db"

definition harmless :: "(submissionTable \<Rightarrow> submissionTable) \<Rightarrow> bool" where
  "harmless f \<longleftrightarrow> (\<forall>db. sameRows db (f db))"

lemma sameRows_refl [simp]: "sameRows db db" by (simp add: sameRows_def)

lemma sameRows_trans: "sameRows a b \<Longrightarrow> sameRows b c \<Longrightarrow> sameRows a c"
  unfolding sameRows_def using keepsRows_trans by metis

lemma harmless_row:
  assumes "\<And>r. cs_Signature (g r) = cs_Signature r \<and> cs_WalletAddress (g r) = cs_WalletAddress r \<and> cs_AmountUnits (g r) = cs_AmountUnits r"
  shows "harmless (updateRow s g)"
  unfolding harmless_def sameRows_def keepsRows_def updateRow_def using assms by (auto split: option.splits)

lemma harmless_marks: "harmless (MarkWatching s)" "harmless (MarkConfirmed s n)" "harmless (MarkFailed s x)" "harmless (MarkExpired s x)"
  unfolding MarkWatching_def MarkConfirmed_def MarkFailed_def MarkExpired_def by (rule harmless_row; simp)+

lemma harmless_effect: "harmless f \<Longrightarrow> harmless (effectOf a f)"
  by (simp add: effectOf_def harmless_def)

lemma table_ok_kept:
  assumes "table_ok db" "sameRows db db'"
  shows "table_ok db'"
  unfolding table_ok_def
proof (intro allI impI)
  fix s r assume "db' s = Some r"
  moreover from this assms(2) obtain q where "db s = Some q" unfolding sameRows_def by blast
  ultimately show "cs_Signature r = s \<and> TrimSpace s = s \<and> s \<noteq> [] \<and> 0 <s cs_AmountUnits r"
    using assms(1,2) unfolding sameRows_def table_ok_def keepsRows_def by fastforce
qed

text \<open>What a task or the loop holds was read from the table.\<close>

definition known :: "submissionTable \<Rightarrow> ConfirmSubmission \<Rightarrow> bool" where
  "known db sub \<longleftrightarrow> TrimSpace (cs_Signature sub) = cs_Signature sub \<and> claims db (cs_Signature sub) (cs_WalletAddress sub) (cs_AmountUnits sub)"

lemma known_kept: "keepsRows db db' \<Longrightarrow> known db sub \<Longrightarrow> known db' sub"
  by (auto simp: known_def intro: claims_kept)

lemma known_scan: "table_ok db \<Longrightarrow> db s = Some r \<Longrightarrow> known db (scanSubmission r) \<and> cs_Signature (scanSubmission r) = s"
  by (auto simp: table_ok_def known_def claims_def scanSubmission_def)

lemma known_loaded: "table_ok db \<Longrightarrow> LoadSubmission s db = Some sub \<Longrightarrow> known db sub \<and> cs_Signature sub = TrimSpace s"
  using known_scan [of db] by (auto simp: LoadSubmission_def)

lemma submit_keeps:
  assumes "table_ok db" "handleSubmit lib auth bus req db = (reply, db')"
  shows "table_ok db' \<and> keepsRows db db'"
proof -
  have c: "db' = db \<or> (\<exists>r. db (TrimSpace (rq_Signature req)) = None \<and> db' = db(TrimSpace (rq_Signature req) \<mapsto> r) \<and>
      TrimSpace (rq_Signature req) \<noteq> [] \<and> cs_Signature r = TrimSpace (rq_Signature req) \<and> 0 <s cs_AmountUnits r)"
    using assms(2) by (auto simp: handleSubmit_def UpsertSubmitted_def Let_def split: if_splits option.splits)
  show ?thesis
  proof (cases "db' = db")
    case False
    then obtain r where r: "db (TrimSpace (rq_Signature req)) = None" "db' = db(TrimSpace (rq_Signature req) \<mapsto> r)"
      "TrimSpace (rq_Signature req) \<noteq> []" "cs_Signature r = TrimSpace (rq_Signature req)" "0 <s cs_AmountUnits r" using c by blast
    then have "keepsRows db db'" unfolding keepsRows_def by auto
    moreover have "table_ok db'" unfolding table_ok_def
    proof (intro allI impI)
      fix s q assume "db' s = Some q"
      then show "cs_Signature q = s \<and> TrimSpace s = s \<and> s \<noteq> [] \<and> 0 <s cs_AmountUnits q"
        using assms(1) r by (cases "s = TrimSpace (rq_Signature req)") (auto simp: table_ok_def)
    qed
    ultimately show ?thesis by simp
  qed (simp add: assms(1))
qed

section \<open>One attempt\<close>

lemma publishAndMark_effect:
  assumes "publishAndMark a e mark terminal (db, evs) = ((db', evs'), out)" "harmless mark"
  shows "sameRows db db' \<and> (evs' = evs \<or> evs' = evs @ [e])"
  using assms by (auto simp: publishAndMark_def Let_def effectOf_def harmless_def split: if_splits)

text \<open>An attempt leaves the rows' claims alone and publishes at most one event, a confirmation only of what was verified.\<close>

definition attemptEvent :: "confirmFlow \<Rightarrow> procAnswers \<Rightarrow> ConfirmSubmission \<Rightarrow> confirmEvent \<Rightarrow> bool" where
  "attemptEvent flow a sub e \<longleftrightarrow> (\<exists>x. e = TxFailed (cs_Signature sub) (cs_WalletAddress sub) x) \<or>
     (\<exists>v n. fl_verify flow sub (pa_Tx a) = Inr v \<and> e = TxConfirmed (vf_Signature v) (vf_WalletAddress v) (vf_AmountUnits v) n)"

lemma attempt_effect:
  assumes "processSubmission lib flow a sub (db, evs) = ((db', evs'), out)"
  shows "sameRows db db' \<and> (evs' = evs \<or> (\<exists>e. attemptEvent flow a sub e \<and> evs' = evs @ [e]))"
proof -
  let ?db = "effectOf (pa_Watching a) (MarkWatching (cs_Signature sub)) db"
  have w: "sameRows db ?db" using harmless_effect [OF harmless_marks(1)] by (simp add: harmless_def)
  have fail: "sameRows db db' \<and> (evs' = evs \<or> (\<exists>e. attemptEvent flow a sub e \<and> evs' = evs @ [e]))"
    if "failSubmission a sub x mark t (?db, evs) = ((db', evs'), out)" "harmless mark" for x mark t
    using publishAndMark_effect [OF that [unfolded failSubmission_def]] sameRows_trans [OF w] by (auto simp: attemptEvent_def)
  have conf: "sameRows db db' \<and> (evs' = evs \<or> (\<exists>e. attemptEvent flow a sub e \<and> evs' = evs @ [e]))"
    if "fl_verify flow sub (pa_Tx a) = Inr v" "confirmVerified a r v (?db, evs) = ((db', evs'), out)" for r v
    using publishAndMark_effect [OF that(2) [unfolded confirmVerified_def Let_def] harmless_marks(2)] sameRows_trans [OF w] that(1)
    by (auto simp: attemptEvent_def)
  consider "db' = db" "evs' = evs" | "db' = ?db" "evs' = evs"
    | x mark t where "failSubmission a sub x mark t (?db, evs) = ((db', evs'), out)" "harmless mark"
    | r v where "fl_verify flow sub (pa_Tx a) = Inr v" "confirmVerified a r v (?db, evs) = ((db', evs'), out)"
    using assms harmless_marks(3,4) unfolding processSubmission_def Let_def
    by (auto split: if_splits sum.splits verifyError.splits)
  then show ?thesis using w fail conf by cases auto
qed

section \<open>The service\<close>

definition tasks_known :: "confirmState \<Rightarrow> bool" where
  "tasks_known s \<longleftrightarrow> (\<forall>k sub r. cv_active s k = Some (sub, r) \<longrightarrow> known (cv_db s) sub \<and> cs_Signature sub = k) \<and>
     (\<forall>sub. cv_inbox s = Some sub \<longrightarrow> known (cv_db s) sub)"

lemma tasks_kept: "tasks_known s \<Longrightarrow> keepsRows (cv_db s) db \<Longrightarrow> tasks_known (s\<lparr>cv_db := db\<rparr>)"
  unfolding tasks_known_def using known_kept by force

lemma start_sel [simp]:
  "cv_db (startSubmissionTask sub rec s) = cv_db s" "cv_events (startSubmissionTask sub rec s) = cv_events s"
  "cv_inbox (startSubmissionTask sub rec s) = cv_inbox s"
  by (simp_all add: startSubmissionTask_def Let_def)

lemma recover_sel [simp]:
  "cv_db (recoverActive items s) = cv_db s" "cv_events (recoverActive items s) = cv_events s" "cv_inbox (recoverActive items s) = cv_inbox s"
proof -
  have "cv_db (recoverActive items s) = cv_db s \<and> cv_events (recoverActive items s) = cv_events s \<and> cv_inbox (recoverActive items s) = cv_inbox s"
    unfolding recoverActive_def by (induction items arbitrary: s) simp_all
  then show "cv_db (recoverActive items s) = cv_db s" "cv_events (recoverActive items s) = cv_events s" "cv_inbox (recoverActive items s) = cv_inbox s"
    by simp_all
qed

lemma start_known:
  assumes "tasks_known s" "known (cv_db s) sub"
  shows "tasks_known (startSubmissionTask sub rec s)"
  using assms by (auto simp: tasks_known_def startSubmissionTask_def known_def Let_def)

lemma recover_known:
  assumes "tasks_known s" "\<forall>sub \<in> set items. known (cv_db s) sub"
  shows "tasks_known (recoverActive items s)"
  using assms unfolding recoverActive_def
proof (induction items arbitrary: s)
  case (Cons sub items)
  have "tasks_known (startSubmissionTask sub True s)" using Cons.prems by (intro start_known) simp_all
  then show ?case using Cons.IH [of "startSubmissionTask sub True s"] Cons.prems by simp
qed simp

text \<open>A call that leaves the rows' claims alone gives a task its row again.\<close>

lemma run_sel:
  assumes "processSubmission lib flow a sub (cv_db s, cv_events s) = ((db, evs), out)"
  shows "cv_db (runTask lib flow a ok k sub rec s) = db" "cv_events (runTask lib flow a ok k sub rec s) = evs"
    "cv_inbox (runTask lib flow a ok k sub rec s) = cv_inbox s"
    "cv_active (runTask lib flow a ok k sub rec s) j = (if j = k then
       (if rec \<and> fst out \<and> \<not> snd out then Some (case (if ok then LoadSubmission k db else None) of None \<Rightarrow> sub | Some u \<Rightarrow> u, True) else None)
       else cv_active s j)"
  using assms by (simp_all add: runTask_def case_prod_beta)

text \<open>An attempt writes only the row of its signature.\<close>

lemma attempt_local:
  assumes "processSubmission lib flow a sub (db, evs) = ((db', evs'), out)" "k \<noteq> TrimSpace (cs_Signature sub)"
    "\<And>v. fl_verify flow sub (pa_Tx a) = Inr v \<Longrightarrow> vf_Signature v = cs_Signature sub"
  shows "db' k = db k"
proof -
  have upd: "updateRow s f d k = d k" if "TrimSpace s \<noteq> k" for s f d using that by (auto simp: updateRow_def split: option.split)
  have eff: "effectOf b f d k = d k" if "\<And>d. f d k = d k" for b f and d :: submissionTable using that by (simp add: effectOf_def)
  have pm: "d' k = d k" if "publishAndMark a e mark t (d, es) = ((d', es'), o1)" "\<And>d. mark d k = d k" for e :: confirmEvent and mark t es es' o1 and d d' :: submissionTable
    using that by (auto simp: publishAndMark_def Let_def eff split: if_splits)
  show ?thesis
    using assms unfolding processSubmission_def Let_def failSubmission_def confirmVerified_def
    by (auto simp: eff upd MarkWatching_def MarkFailed_def MarkExpired_def MarkConfirmed_def dest!: pm split: if_splits sum.splits verifyError.splits)
qed

definition settledAt :: "confirmState \<Rightarrow> string \<Rightarrow> bool" where
  "settledAt s k \<longleftrightarrow> (\<exists>r. cv_db s k = Some r \<and> terminalStatus (cs_Status r)) \<and> cv_active s k = None \<and>
     (\<forall>sub. cv_inbox s = Some sub \<longrightarrow> cs_Signature sub \<noteq> k)"

definition eventFor :: "string \<Rightarrow> confirmEvent \<Rightarrow> bool" where
  "eventFor k e \<longleftrightarrow> (case e of TxConfirmed s w n i \<Rightarrow> s = k | TxFailed s w x \<Rightarrow> s = k)"

lemma recover_absent:
  "\<forall>sub \<in> set items. TrimSpace (cs_Signature sub) \<noteq> k \<Longrightarrow> cv_active s k = None \<Longrightarrow> cv_active (recoverActive items s) k = None"
  unfolding recoverActive_def
proof (induction items arbitrary: s)
  case (Cons sub items)
  have "TrimSpace (cs_Signature sub) \<noteq> k" using Cons.prems(1) by simp
  then have "cv_active (startSubmissionTask sub True s) k = None" using Cons.prems(2) by (auto simp: startSubmissionTask_def Let_def)
  then show ?case using Cons by simp
qed simp

text \<open>A funds message that carries one of the confirmations published.\<close>

definition deliversConfirmed :: "confirmState \<Rightarrow> FundsMsg \<Rightarrow> bool" where
  "deliversConfirmed s msg \<longleftrightarrow> (\<exists>k w n i. TxConfirmed k w n i \<in> set (cv_events s) \<and>
     fm_Transfer msg = Some \<lparr>tc_Signature = k, tc_WalletAddress = w, tc_AmountUnits = n\<rparr>)"

lemma firsts_keys:
  assumes "\<forall>(k, e) \<in> set kes. TrimSpace k = k \<and> k \<noteq> [] \<and> k = key e"
  shows "distinct (map key (firsts seen kes)) \<and> key ` set (firsts seen kes) = fst ` set kes - seen \<and> set (firsts seen kes) \<subseteq> snd ` set kes"
  using assms
proof (induction kes arbitrary: seen)
  case (Cons ke kes)
  obtain k e where ke: "ke = (k, e)" by (cases ke)
  have k: "TrimSpace k = k" "k \<noteq> []" "k = key e" using Cons.prems ke by auto
  note IH = Cons.IH [of seen] Cons.IH [of "insert k seen"]
  show ?case
  proof (cases "k \<in> seen")
    case True
    then show ?thesis using IH(1) Cons.prems k by (simp add: ke) blast
  next
    case False
    let ?t = "firsts (insert k seen) kes"
    have t: "distinct (map key ?t)" "key ` set ?t = fst ` set kes - insert k seen" "set ?t \<subseteq> snd ` set kes" using IH(2) Cons.prems by simp_all
    then have "k \<notin> key ` set ?t" by simp
    then show ?thesis using t False k by (simp add: ke) blast
  qed
qed simp

locale confirmation =
  fixes lib :: chainLib and flow :: confirmFlow and chain :: "bytes \<rightharpoonup> parsedTx" and backed :: "string \<Rightarrow> string \<Rightarrow> u64 \<Rightarrow> bool"
  assumes verified: "fl_verify flow sub (Option.bind (cl_Signature lib (cs_Signature sub)) chain) = Inr v \<Longrightarrow>
      vf_Signature v = cs_Signature sub \<and> vf_WalletAddress v = cs_WalletAddress sub \<and> vf_AmountUnits v = cs_AmountUnits sub \<and>
      backed (cs_Signature sub) (cs_WalletAddress sub) (cs_AmountUnits sub)"
    and unanswered: "fl_verify flow sub None \<noteq> Inr v"
begin

definition event_ok :: "submissionTable \<Rightarrow> confirmEvent \<Rightarrow> bool" where
  "event_ok db e \<longleftrightarrow> (case e of TxConfirmed s w n slot \<Rightarrow> claims db s w n \<and> backed s w n | TxFailed s w x \<Rightarrow> \<exists>n. claims db s w n)"

definition confirm_inv :: "confirmState \<Rightarrow> bool" where
  "confirm_inv s \<longleftrightarrow> table_ok (cv_db s) \<and> tasks_known s \<and> (\<forall>e \<in> set (cv_events s). event_ok (cv_db s) e)"

lemma event_kept: "keepsRows db db' \<Longrightarrow> event_ok db e \<Longrightarrow> event_ok db' e"
  by (cases e) (auto simp: event_ok_def intro: claims_kept)

lemma attempt_ok:
  assumes "attemptEvent flow a sub e" "known db sub"
    "pa_Tx a = None \<or> pa_Tx a = Option.bind (cl_Signature lib (cs_Signature sub)) chain"
  shows "event_ok db e"
  using assms verified unanswered by (auto simp: attemptEvent_def event_ok_def known_def)

lemma new_confirm: "confirm_inv newConfirmState"
  by (simp add: confirm_inv_def newConfirmState_def table_ok_def tasks_known_def)

lemma confirm_step:
  assumes "confirmStep lib flow chain s s'" "confirm_inv s"
  shows "confirm_inv s'"
proof -
  have I: "table_ok (cv_db s)" "tasks_known s" "\<forall>e \<in> set (cv_events s). event_ok (cv_db s) e" using assms(2) by (simp_all add: confirm_inv_def)
  show ?thesis
    using assms(1)
  proof (cases rule: confirmStep.cases)
    case (submit auth bus req reply db)
    then have "table_ok db" "keepsRows (cv_db s) db" using submit_keeps [OF I(1)] by blast+
    then show ?thesis using I tasks_kept event_kept by (auto simp: confirm_inv_def submit(1))
  next
    case (load msg ok sub)
    then have "known (cv_db s) sub"
      using known_loaded [OF I(1)] by (auto simp: handleMessage_def split: option.splits if_splits)
    then show ?thesis using I by (simp add: confirm_inv_def tasks_known_def load(1))
  next
    case (start sub)
    have "tasks_known (s\<lparr>cv_inbox := None\<rparr>)" "known (cv_db s) sub" using I(2) start(2) by (simp_all add: tasks_known_def)
    then show ?thesis using I start_known [of "s\<lparr>cv_inbox := None\<rparr>" sub] by (simp add: confirm_inv_def start(1))
  next
    case (attempt k sub rec a ok)
    obtain db evs out where p: "processSubmission lib flow a sub (cv_db s, cv_events s) = ((db, evs), out)" by (metis surj_pair)
    note sel = run_sel [OF p, of ok k rec]
    have kn: "known (cv_db s) sub" "cs_Signature sub = k" using I(2) attempt(2) unfolding tasks_known_def by blast+
    have db: "keepsRows (cv_db s) db" "table_ok db"
      using attempt_effect [OF p] table_ok_kept [OF I(1)] by (auto simp: sameRows_def)
    have "\<forall>e \<in> set evs. event_ok db e"
      using attempt_effect [OF p] I(3) event_kept [OF db(1)] attempt_ok [OF _ kn(1) attempt(3)] by auto
    moreover have "tasks_known (runTask lib flow a ok k sub rec s)"
      unfolding tasks_known_def
    proof (intro conjI allI impI)
      fix j u r assume j: "cv_active (runTask lib flow a ok k sub rec s) j = Some (u, r)"
      show "known (cv_db (runTask lib flow a ok k sub rec s)) u" "cs_Signature u = j"
      proof -
        have "known db u \<and> cs_Signature u = j"
        proof (cases "j = k")
          case True
          have "TrimSpace k = k" using kn by (simp add: known_def)
          then have "known db v \<and> cs_Signature v = k" if "LoadSubmission k db = Some v" for v using known_loaded [OF db(2) that] by simp
          moreover have "known db sub" by (rule known_kept [OF db(1) kn(1)])
          ultimately show ?thesis using j True kn(2) by (auto simp: sel split: if_splits option.splits)
        next
          case False
          then show ?thesis using j I(2) known_kept [OF db(1)] by (auto simp: sel tasks_known_def)
        qed
        then show "known (cv_db (runTask lib flow a ok k sub rec s)) u" "cs_Signature u = j" by (simp_all add: sel)
      qed
    next
      fix u assume "cv_inbox (runTask lib flow a ok k sub rec s) = Some u"
      then show "known (cv_db (runTask lib flow a ok k sub rec s)) u"
        using I(2) known_kept [OF db(1)] by (simp add: sel tasks_known_def)
    qed
    ultimately show ?thesis using db(2) by (simp add: confirm_inv_def attempt(1) sel)
  next
    case (restart items)
    have "\<forall>sub \<in> set items. known (cv_db s) sub"
      using restart(2) known_scan [OF I(1)] by (auto simp: listActive_def)
    then show ?thesis
      using I recover_known [of "s\<lparr>cv_active := Map.empty, cv_inbox := None\<rparr>" items] by (simp add: confirm_inv_def restart(1) tasks_known_def)
  qed
qed

lemma confirm_reach: "reachableConfirm lib flow chain s \<Longrightarrow> confirm_inv s"
  unfolding reachableConfirm_def
  by (induction rule: rtranclp_induct) (auto intro: new_confirm confirm_step)

text \<open>One row per signature: two confirmations of a signature agree.\<close>

lemma confirmations_agree:
  assumes "reachableConfirm lib flow chain s" "TxConfirmed k w n i \<in> set (cv_events s)" "TxConfirmed k w' n' j \<in> set (cv_events s)"
  shows "w = w' \<and> n = n' \<and> backed k w n \<and> TrimSpace k = k \<and> k \<noteq> []"
proof -
  have "event_ok (cv_db s) (TxConfirmed k w n i)" "event_ok (cv_db s) (TxConfirmed k w' n' j)" "table_ok (cv_db s)"
    using confirm_reach [OF assms(1)] assms(2,3) unfolding confirm_inv_def by blast+
  then show ?thesis by (auto simp: event_ok_def claims_def table_ok_def)
qed

text \<open>A settled submission: its row is terminal and nobody works on it.\<close>

lemma settled_step:
  assumes "confirmStep lib flow chain s s'" "confirm_inv s" "settledAt s k"
  shows "settledAt s' k \<and> cv_db s' k = cv_db s k \<and> filter (eventFor k) (cv_events s') = filter (eventFor k) (cv_events s)"
proof -
  have I: "table_ok (cv_db s)" "tasks_known s" using assms(2) by (simp_all add: confirm_inv_def)
  obtain r where r: "cv_db s k = Some r" "terminalStatus (cs_Status r)" and free: "cv_active s k = None" "\<And>sub. cv_inbox s = Some sub \<Longrightarrow> cs_Signature sub \<noteq> k"
    using assms(3) by (auto simp: settledAt_def)
  have k: "TrimSpace k = k" using I(1) r(1) by (auto simp: table_ok_def)
  show ?thesis
    using assms(1)
  proof (cases rule: confirmStep.cases)
    case (submit auth bus req reply db)
    then have "db k = cv_db s k" using r(1) by (auto simp: handleSubmit_def UpsertSubmitted_def Let_def split: if_splits option.splits)
    then show ?thesis using r free by (simp add: submit(1) settledAt_def)
  next
    case (load msg ok sub)
    obtain sig where sig: "LoadSubmission sig (cv_db s) = Some sub" "\<not> terminalStatus (cs_Status sub)"
      using load(3) by (auto simp: handleMessage_def split: option.splits if_splits)
    have "cs_Signature sub \<noteq> k"
    proof
      assume "cs_Signature sub = k"
      then have "TrimSpace sig = k" using known_loaded [OF I(1) sig(1)] by simp
      then show False using sig r by (auto simp: LoadSubmission_def scanSubmission_def)
    qed
    then show ?thesis using r free by (simp add: load(1) settledAt_def)
  next
    case (start sub)
    have kn: "known (cv_db s) sub" "cs_Signature sub \<noteq> k" using I(2) start(2) free(2) unfolding tasks_known_def by blast+
    then have "cv_active (startSubmissionTask sub False (s\<lparr>cv_inbox := None\<rparr>)) k = None"
      using free(1) by (simp add: startSubmissionTask_def known_def Let_def)
    then show ?thesis using r by (simp add: start(1) settledAt_def)
  next
    case (attempt j sub rec a ok)
    obtain db evs out where p: "processSubmission lib flow a sub (cv_db s, cv_events s) = ((db, evs), out)" by (metis surj_pair)
    note sel = run_sel [OF p, of ok j rec]
    have kn: "known (cv_db s) sub" "cs_Signature sub = j" using I(2) attempt(2) unfolding tasks_known_def by blast+
    have jk: "j \<noteq> k" using free(1) attempt(2) by auto
    have v: "vf_Signature v = j" if "fl_verify flow sub (pa_Tx a) = Inr v" for v
      using verified [of sub v] unanswered [of sub v] attempt(3) that kn(2) by auto
    have "db k = cv_db s k"
      by (rule attempt_local [OF p]) (use kn jk v in \<open>auto simp: known_def\<close>)
    moreover have "\<not> eventFor k e" if "attemptEvent flow a sub e" for e
      using that v kn(2) jk by (auto simp: attemptEvent_def eventFor_def)
    then have "filter (eventFor k) evs = filter (eventFor k) (cv_events s)" using attempt_effect [OF p] by auto
    ultimately show ?thesis using r free jk by (simp add: attempt(1) settledAt_def sel)
  next
    case (restart items)
    have "cv_active (recoverActive items (s\<lparr>cv_active := Map.empty, cv_inbox := None\<rparr>)) k = None"
    proof (rule recover_absent)
      show "\<forall>sub \<in> set items. TrimSpace (cs_Signature sub) \<noteq> k"
      proof
        fix sub assume "sub \<in> set items"
        then obtain q x where q: "sub = scanSubmission q" "cv_db s x = Some q" "activeStatus (cs_Status q)"
          using restart(2) by (auto simp: listActive_def)
        then have "x \<noteq> k" using r by (auto simp: activeStatus_def terminalStatus_def)
        moreover have "cs_Signature q = x" "TrimSpace x = x" using I(1) q(2) by (auto simp: table_ok_def)
        ultimately show "TrimSpace (cs_Signature sub) \<noteq> k" by (simp add: q(1) scanSubmission_def)
      qed
    qed simp
    then show ?thesis using r by (simp add: restart(1) settledAt_def)
  qed
qed

lemma settled_run:
  assumes "reachableConfirm lib flow chain s" "settledAt s k" "(confirmStep lib flow chain)\<^sup>*\<^sup>* s s'"
  shows "cv_db s' k = cv_db s k \<and> filter (eventFor k) (cv_events s') = filter (eventFor k) (cv_events s)"
proof -
  have "confirm_inv s' \<and> settledAt s' k \<and> cv_db s' k = cv_db s k \<and> filter (eventFor k) (cv_events s') = filter (eventFor k) (cv_events s)"
    using assms(3)
  proof (induction rule: rtranclp_induct)
    case base then show ?case using assms(2) confirm_reach [OF assms(1)] by simp
  next
    case (step y z) then show ?case using settled_step [OF step(2)] confirm_step [OF step(2)] by auto
  qed
  then show ?thesis by simp
qed

text \<open>What the funds service is given of the published confirmations.\<close>

lemma transfers_backed:
  assumes "reachableConfirm lib flow chain s" "\<forall>msg \<in> set msgs. deliversConfirmed s msg"
    "inj_on (cl_Signature lib) (dom (cl_Signature lib))" "\<forall>k w n. backed k w n \<longrightarrow> cl_Signature lib k \<noteq> None"
  defines "es \<equiv> firsts {} (map (\<lambda>msg. (tc_Signature (the (fm_Transfer msg)), the (fm_Transfer msg))) msgs)"
  shows "distinct (map (\<lambda>e. cl_Signature lib (tc_Signature e)) es) \<and>
    tc_Signature ` set es = (\<lambda>msg. tc_Signature (the (fm_Transfer msg))) ` set msgs \<and>
    (\<forall>e \<in> set es. backed (tc_Signature e) (tc_WalletAddress e) (tc_AmountUnits e))"
proof -
  let ?kes = "map (\<lambda>msg. (tc_Signature (the (fm_Transfer msg)), the (fm_Transfer msg))) msgs"
  have ev: "backed (tc_Signature e) (tc_WalletAddress e) (tc_AmountUnits e) \<and> TrimSpace k = k \<and> k \<noteq> [] \<and> k = tc_Signature e"
    if ke: "(k, e) \<in> set ?kes" for k e
  proof -
    obtain msg where msg: "msg \<in> set msgs" "e = the (fm_Transfer msg)" "k = tc_Signature e" using ke by auto
    then obtain w n i where x: "TxConfirmed k w n i \<in> set (cv_events s)" "e = \<lparr>tc_Signature = k, tc_WalletAddress = w, tc_AmountUnits = n\<rparr>"
      using assms(2) unfolding deliversConfirmed_def by fastforce
    show ?thesis using confirmations_agree [OF assms(1) x(1) x(1)] x(2) by simp
  qed
  have f: "distinct (map tc_Signature es)" "tc_Signature ` set es = fst ` set ?kes" "set es \<subseteq> snd ` set ?kes"
  proof -
    have "\<forall>(k, e) \<in> set ?kes. TrimSpace k = k \<and> k \<noteq> [] \<and> k = tc_Signature e" using ev by blast
    from firsts_keys [OF this, of "{}"] show "distinct (map tc_Signature es)" "tc_Signature ` set es = fst ` set ?kes" "set es \<subseteq> snd ` set ?kes"
      by (simp_all only: es_def Diff_empty)
  qed
  have b: "backed (tc_Signature e) (tc_WalletAddress e) (tc_AmountUnits e)" if "e \<in> set es" for e
  proof -
    have "e \<in> snd ` set ?kes" using that f(3) by blast
    then obtain ke where ke: "ke \<in> set ?kes" "e = snd ke" by blast
    then have "(fst ke, e) \<in> set ?kes" by (simp only: ke(2) prod.collapse)
    from ev [OF this] show ?thesis by blast
  qed
  have "inj_on (\<lambda>e. cl_Signature lib (tc_Signature e)) (set es)"
  proof (rule inj_onI)
    fix x y assume xy: "x \<in> set es" "y \<in> set es" "cl_Signature lib (tc_Signature x) = cl_Signature lib (tc_Signature y)"
    have "tc_Signature x \<in> dom (cl_Signature lib)" "tc_Signature y \<in> dom (cl_Signature lib)"
      using assms(4) b [OF xy(1)] b [OF xy(2)] by (auto simp: domIff)
    from inj_onD [OF assms(3) xy(3) this] have "tc_Signature x = tc_Signature y" .
    then show "x = y" using f(1) xy(1,2) by (auto simp: distinct_map inj_on_def)
  qed
  moreover have "distinct es" using f(1) by (simp add: distinct_map)
  ultimately have "distinct (map (\<lambda>e. cl_Signature lib (tc_Signature e)) es)" by (simp add: distinct_map)
  moreover have "tc_Signature ` set es = (\<lambda>msg. tc_Signature (the (fm_Transfer msg))) ` set msgs"
    unfolding f(2) set_map image_image by simp
  ultimately show ?thesis using b by blast
qed

end

section \<open>The two checks\<close>

lemma findInstruction_SomeD:
  "findInstruction minLen programID disc ixs = Some ix \<Longrightarrow>
     Some ix \<in> set ixs \<and> pi_ProgramId ix = programID \<and> minLen \<le> length (pi_Data ix) \<and> take 8 (pi_Data ix) = disc"
  by (induction minLen programID disc ixs rule: findInstruction.induct) (auto split: if_splits)

text \<open>The chain holds, under the signature, a successful transaction with an instruction of the program of the given
  name for the amount, over accounts that start with the wallet and name vault and mint.\<close>

definition instructionOnChain ::
  "chainLib \<Rightarrow> confirmConfig \<Rightarrow> (bytes \<rightharpoonup> parsedTx) \<Rightarrow> string \<Rightarrow> (PublicKey \<Rightarrow> parsedInstruction \<Rightarrow> bool) \<Rightarrow> string \<Rightarrow> string \<Rightarrow> u64 \<Rightarrow> bool" where
  "instructionOnChain lib cfg chain name extra k w n \<longleftrightarrow> (\<exists>b tx ixs ix.
     cl_Signature lib k = Some b \<and> chain b = Some tx \<and> px_Succeeded tx \<and> px_Instructions tx = Some ixs \<and> Some ix \<in> set ixs \<and>
     cl_Key lib (TrimSpace (cfg_ProgramID cfg)) = Some (pi_ProgramId ix) \<and>
     16 \<le> length (pi_Data ix) \<and> take 8 (pi_Data ix) = anchorDiscriminator lib name \<and> Uint64 (drop 8 (pi_Data ix)) = n \<and>
     8 \<le> length (pi_Accounts ix) \<and> cl_Key lib (TrimSpace w) = Some (pi_Accounts ix ! 0) \<and>
     cl_Key lib (TrimSpace (cfg_GlobalVault cfg)) = Some (pi_Accounts ix ! 4) \<and>
     cl_Key lib (TrimSpace (cfg_VUSDCMint cfg)) = Some (pi_Accounts ix ! 6) \<and> extra (pi_Accounts ix ! 6) ix)"

definition depositOnChain :: "chainLib \<Rightarrow> confirmConfig \<Rightarrow> (bytes \<rightharpoonup> parsedTx) \<Rightarrow> string \<Rightarrow> string \<Rightarrow> u64 \<Rightarrow> bool" where
  "depositOnChain lib cfg chain = instructionOnChain lib cfg chain ''deposit'' (\<lambda>_ _. True)"

text \<open>A withdrawal pays the wallet's own token account from the wallet's own ledger account.\<close>

definition withdrawOnChain :: "chainLib \<Rightarrow> confirmConfig \<Rightarrow> (bytes \<rightharpoonup> parsedTx) \<Rightarrow> string \<Rightarrow> string \<Rightarrow> u64 \<Rightarrow> bool" where
  "withdrawOnChain lib cfg chain = instructionOnChain lib cfg chain ''withdraw'' (\<lambda>mint ix.
     DeriveUserLedgerPDA (cl_findPDA lib) (pi_ProgramId ix) (pi_Accounts ix ! 0) = Some (pi_Accounts ix ! 2) \<and>
     deriveAssociatedTokenAddress lib (pi_Accounts ix ! 0) mint (pi_Accounts ix ! 7) = Some (pi_Accounts ix ! 3))"

lemma onChain_signature: "instructionOnChain lib cfg chain name extra k w n \<Longrightarrow> cl_Signature lib k \<noteq> None"
  by (auto simp: instructionOnChain_def)

lemma depositOnChain_signature: "\<forall>k w n. depositOnChain lib cfg chain k w n \<longrightarrow> cl_Signature lib k \<noteq> None"
  unfolding depositOnChain_def using onChain_signature by blast

lemma withdrawOnChain_signature: "\<forall>k w n. withdrawOnChain lib cfg chain k w n \<longrightarrow> cl_Signature lib k \<noteq> None"
  unfolding withdrawOnChain_def using onChain_signature by blast

interpretation deposits: confirmation lib "depositFlow lib cfg" chain "depositOnChain lib cfg chain" for lib cfg chain
proof
  fix sub v
  show "fl_verify (depositFlow lib cfg) sub None \<noteq> Inr v"
    by (simp add: depositFlow_def VerifyDepositTransaction_def needs_Inr)
  assume "fl_verify (depositFlow lib cfg) sub (Option.bind (cl_Signature lib (cs_Signature sub)) chain) = Inr v"
  then obtain b programID vault mint wallet out ixs ix where v: "cl_Signature lib (cs_Signature sub) = Some b" "chain b = Some out"
    "cl_Key lib (TrimSpace (cfg_ProgramID cfg)) = Some programID" "cl_Key lib (TrimSpace (cfg_GlobalVault cfg)) = Some vault"
    "cl_Key lib (TrimSpace (cfg_VUSDCMint cfg)) = Some mint" "cl_Key lib (TrimSpace (cs_WalletAddress sub)) = Some wallet"
    "px_Succeeded out" "px_Instructions out = Some ixs" "findInstruction 16 programID (anchorDiscriminator lib ''deposit'') ixs = Some ix"
    "Uint64 (drop 8 (pi_Data ix)) = cs_AmountUnits sub" "8 \<le> length (pi_Accounts ix)" "pi_Accounts ix ! 0 = wallet"
    "pi_Accounts ix ! 4 = vault" "pi_Accounts ix ! 6 = mint" "v = verifiedTx sub out"
    by (simp add: depositFlow_def VerifyDepositTransaction_def needs_Inr rejects_Inr not_less bind_eq_Some_conv) blast
  then show "vf_Signature v = cs_Signature sub \<and> vf_WalletAddress v = cs_WalletAddress sub \<and> vf_AmountUnits v = cs_AmountUnits sub \<and>
      depositOnChain lib cfg chain (cs_Signature sub) (cs_WalletAddress sub) (cs_AmountUnits sub)"
    using findInstruction_SomeD [OF v(9)] by (auto simp: verifiedTx_def depositOnChain_def instructionOnChain_def)
qed

interpretation withdrawals: confirmation lib "withdrawFlow lib cfg" chain "withdrawOnChain lib cfg chain" for lib cfg chain
proof
  fix sub v
  show "fl_verify (withdrawFlow lib cfg) sub None \<noteq> Inr v"
    by (simp add: withdrawFlow_def VerifyWithdrawTransaction_def needs_Inr)
  assume "fl_verify (withdrawFlow lib cfg) sub (Option.bind (cl_Signature lib (cs_Signature sub)) chain) = Inr v"
  then obtain b programID vault mint wallet out ixs ix where v: "cl_Signature lib (cs_Signature sub) = Some b" "chain b = Some out"
    "cl_Key lib (TrimSpace (cfg_ProgramID cfg)) = Some programID" "cl_Key lib (TrimSpace (cfg_GlobalVault cfg)) = Some vault"
    "cl_Key lib (TrimSpace (cfg_VUSDCMint cfg)) = Some mint" "cl_Key lib (TrimSpace (cs_WalletAddress sub)) = Some wallet"
    "px_Succeeded out" "px_Instructions out = Some ixs" "findInstruction 16 programID (anchorDiscriminator lib ''withdraw'') ixs = Some ix"
    "Uint64 (drop 8 (pi_Data ix)) = cs_AmountUnits sub" "8 \<le> length (pi_Accounts ix)" "pi_Accounts ix ! 0 = wallet"
    "pi_Accounts ix ! 4 = vault" "pi_Accounts ix ! 6 = mint" "v = verifiedTx sub out"
    "DeriveUserLedgerPDA (cl_findPDA lib) programID wallet = Some (pi_Accounts ix ! 2)"
    "deriveAssociatedTokenAddress lib wallet mint (pi_Accounts ix ! 7) = Some (pi_Accounts ix ! 3)"
    by (simp add: withdrawFlow_def VerifyWithdrawTransaction_def needs_Inr rejects_Inr not_less bind_eq_Some_conv) blast
  then show "vf_Signature v = cs_Signature sub \<and> vf_WalletAddress v = cs_WalletAddress sub \<and> vf_AmountUnits v = cs_AmountUnits sub \<and>
      withdrawOnChain lib cfg chain (cs_Signature sub) (cs_WalletAddress sub) (cs_AmountUnits sub)"
    using findInstruction_SomeD [OF v(9)] by (auto simp: verifiedTx_def withdrawOnChain_def instructionOnChain_def)
qed

end
