(* ===== verification/ConfirmProps.thy ===== *)
theory ConfirmProps
  imports ConfirmLaws
begin

text \<open>
  The properties of the confirmation services, alone and with the funds service behind them, on a sample deposit.
\<close>

section \<open>The ledger\<close>

lemma ledger_credit:
  "AvailableUSDC (Ledger (creditDeposit e m) w) =
     AvailableUSDC (Ledger m w) + (if TrimSpace (tc_WalletAddress e) = w then tc_AmountUnits e else 0)"
  by (auto simp: creditDeposit_def ApplyDepositConfirmed_def markLedgerDirtyLocked_def SeedLedger_def Ledger_def Let_def)

lemma ledger_credits:
  "AvailableUSDC (Ledger (fold creditDeposit es m) w) =
     AvailableUSDC (Ledger m w) + sum_list (map (\<lambda>e. if TrimSpace (tc_WalletAddress e) = w then tc_AmountUnits e else 0) es)"
  by (induction es arbitrary: m) (simp_all add: ledger_credit)

lemma handleWithdrawals_fold:
  assumes "\<forall>msg \<in> set msgs. fm_Transfer msg \<noteq> None"
  shows "fs_manager (fold (\<lambda>msg st. fst (handleWithdrawConfirmedMessage msg st)) msgs st) =
    fold debitWithdraw (firsts (withdrawalKeys (fs_withdrawals st))
      (map (\<lambda>msg. (tc_Signature (the (fm_Transfer msg)), the (fm_Transfer msg))) msgs)) (fs_manager st)"
proof -
  let ?f = "\<lambda>msg. (tc_Signature (the (fm_Transfer msg)), the (fm_Transfer msg))"
  have "(fs_withdrawals (fold (\<lambda>msg st. fst (handleWithdrawConfirmedMessage msg st)) msgs st),
         fs_manager (fold (\<lambda>msg st. fst (handleWithdrawConfirmedMessage msg st)) msgs st)) =
      fold (guarded WithdrawalStore_Has WithdrawalStore_Mark debitWithdraw) (map ?f msgs) (fs_withdrawals st, fs_manager st)"
    using assms
  proof (induction msgs arbitrary: st)
    case (Cons msg msgs)
    from Cons.prems obtain ev where ev: "fm_Transfer msg = Some ev" by auto
    show ?case using Cons handleWithdraw_guarded [OF ev, of st] ev by simp
  qed simp
  from arg_cong [OF this, of snd] show ?thesis by (simp only: snd_conv withdrawalStore.guarded_run)
qed

lemma delivers_some: "\<forall>msg \<in> set msgs. deliversConfirmed s msg \<Longrightarrow> \<forall>msg \<in> set msgs. fm_Transfer msg \<noteq> None"
  by (auto simp: deliversConfirmed_def)

section \<open>A sample deposit\<close>

definition demoLib :: chainLib where
  "demoLib = \<lparr>cl_Signature = (\<lambda>s. Some (textBytes s)), cl_Key = (\<lambda>s. Some (textBytes s)), cl_sha256 = id, cl_findPDA = (\<lambda>_ _. Some []),
     cl_TokenPrograms = ([], []), cl_ATAProgram = []\<rparr>"

definition demoConfig :: confirmConfig where
  "demoConfig = \<lparr>cfg_ProgramID = ''p'', cfg_GlobalVault = ''v'', cfg_VUSDCMint = ''m''\<rparr>"

definition demoTx :: "string \<Rightarrow> parsedTx" where
  "demoTx disc = \<lparr>px_Succeeded = True, px_Instructions = Some [None, Some \<lparr>pi_ProgramId = textBytes ''p'',
     pi_Data = textBytes disc @ PutUint64 5,
     pi_Accounts = [textBytes ''alice'', [], [], [], textBytes ''v'', [], textBytes ''m'', []]\<rparr>], px_Slot = 7\<rparr>"

definition demoChain :: "string \<Rightarrow> bytes \<rightharpoonup> parsedTx" where "demoChain disc = [textBytes ''s1'' \<mapsto> demoTx disc]"

definition demoRow :: "string \<Rightarrow> string \<Rightarrow> u64 \<Rightarrow> ConfirmSubmission" where
  "demoRow status reason slot = \<lparr>cs_Signature = ''s1'', cs_WalletAddress = ''alice'', cs_AmountUnits = 5,
     cs_Status = status, cs_FailureReason = reason, cs_Slot = slot\<rparr>"

definition demoAnswers :: "waitError + confirmResult \<Rightarrow> parsedTx option \<Rightarrow> callAnswer \<Rightarrow> procAnswers" where
  "demoAnswers wait tx mark = \<lparr>pa_Watching = Done, pa_Wait = wait, pa_Stopping = False, pa_Tx = tx, pa_Publish = Done, pa_Mark = mark\<rparr>"

definition demoState :: "ConfirmSubmission \<Rightarrow> confirmEvent list \<Rightarrow> confirmState" where
  "demoState row evs = \<lparr>cv_db = [''s1'' \<mapsto> row], cv_events = evs, cv_active = Map.empty, cv_inbox = None\<rparr>"

lemma demo_trim: "TrimSpace ''s1'' = ''s1''" "TrimSpace ''alice'' = ''alice''" "TrimSpace ''p'' = ''p''" "TrimSpace ''v'' = ''v''" "TrimSpace ''m'' = ''m''"
    "TrimSpace ''confirm_timeout'' = ''confirm_timeout''"
  by code_simp+

lemma demo_scan [simp]: "scanSubmission (demoRow st x 0) = demoRow st x 0" "cs_Signature (demoRow st x n) = ''s1''" "cs_Status (demoRow st x n) = st"
proof -
  have "(0 :: u64) <s 5" by code_simp
  then show "scanSubmission (demoRow st x 0) = demoRow st x 0" by (simp add: scanSubmission_def demoRow_def)
qed (simp_all add: demoRow_def)

lemma demo_verify:
  "VerifyDepositTransaction demoLib demoConfig (demoRow st x 0) (Some (demoTx ''global:d'')) =
    Inr \<lparr>vf_Signature = ''s1'', vf_WalletAddress = ''alice'', vf_AmountUnits = 5, vf_Slot = 7\<rparr>"
  "VerifyWithdrawTransaction demoLib demoConfig (demoRow st x 0) (Some (demoTx ''global:w'')) =
    Inr \<lparr>vf_Signature = ''s1'', vf_WalletAddress = ''alice'', vf_AmountUnits = 5, vf_Slot = 7\<rparr>"
  unfolding demoRow_def by code_simp+

lemma confirm_next: "reachableConfirm lib flow chain s \<Longrightarrow> confirmStep lib flow chain s s1 \<Longrightarrow> s1 = s' \<Longrightarrow> reachableConfirm lib flow chain s'"
  by (auto simp: reachableConfirm_def)

abbreviation demoReach :: "confirmFlow \<Rightarrow> string \<Rightarrow> confirmState \<Rightarrow> bool" where
  "demoReach flow disc \<equiv> reachableConfirm demoLib flow (demoChain disc)"

abbreviation demoDeposit :: confirmFlow where "demoDeposit \<equiv> depositFlow demoLib demoConfig"
abbreviation demoWithdraw :: confirmFlow where "demoWithdraw \<equiv> withdrawFlow demoLib demoConfig"

lemma demo_submitted: "demoReach flow disc (demoState (demoRow ''submitted'' [] 0) [])"
proof -
  have "(0 :: u64) <s 5" by code_simp
  then have "handleSubmit demoLib Some True \<lparr>rq_Signature = ''s1'', rq_WalletAddress = ''alice'', rq_AmountUnits = 5\<rparr> Map.empty =
      (Accepted (demoRow ''submitted'' [] 0), [''s1'' \<mapsto> demoRow ''submitted'' [] 0])"
    by (simp add: handleSubmit_def demo_trim UpsertSubmitted_def demoLib_def demoRow_def scanSubmission_def Let_def)
  then show ?thesis
    by (rule_tac confirm_next [OF _ confirmStep.submit, where s = newConfirmState]) (simp_all add: reachableConfirm_def newConfirmState_def demoState_def)
qed

text \<open>One message, handled up to the end of its attempt.\<close>

lemma demo_attempt:
  assumes "demoReach flow disc (demoState (demoRow st [] 0) evs)" "\<not> terminalStatus st" "pa_Tx a = None \<or> pa_Tx a = Some (demoTx disc)"
    "processSubmission demoLib flow a (demoRow st [] 0) ([''s1'' \<mapsto> demoRow st [] 0], evs) = (([''s1'' \<mapsto> row], evs'), out)"
  shows "demoReach flow disc (demoState row evs')"
proof -
  let ?s = "demoState (demoRow st [] 0) evs" and ?sub = "demoRow st [] 0"
  have "handleMessage (Some ''s1'') True (cv_db ?s) = MsgStart ?sub"
    using assms(2) by (simp add: handleMessage_def LoadSubmission_def demo_trim demoState_def)
  then have "demoReach flow disc (?s\<lparr>cv_inbox := Some ?sub\<rparr>)"
    by (rule_tac confirm_next [OF assms(1) confirmStep.load]) (simp_all add: demoState_def)
  then have "demoReach flow disc (?s\<lparr>cv_active := [''s1'' \<mapsto> (?sub, False)]\<rparr>)"
    by (rule confirm_next [OF _ confirmStep.start [where sub = ?sub]]) (simp_all add: startSubmissionTask_def demo_trim demoState_def Let_def)
  then show ?thesis
    by (rule confirm_next [OF _ confirmStep.attempt [where a = a and dbOk = True]])
      (use assms(3,4) in \<open>auto simp: demoState_def runTask_def demoLib_def demoChain_def demoRow_def\<close>)
qed

lemma demo_effects:
  "effectOf Done f x = f x" "effectOf Refused f x = x"
  "MarkWatching ''s1'' [''s1'' \<mapsto> demoRow ''submitted'' [] 0] = [''s1'' \<mapsto> demoRow ''watching'' [] 0]"
  "MarkWatching ''s1'' [''s1'' \<mapsto> demoRow ''watching'' [] 0] = [''s1'' \<mapsto> demoRow ''watching'' [] 0]"
  "MarkConfirmed ''s1'' n [''s1'' \<mapsto> demoRow ''watching'' [] 0] = [''s1'' \<mapsto> demoRow ''confirmed'' [] n]"
  "MarkExpired ''s1'' ''confirm_timeout'' [''s1'' \<mapsto> demoRow ''watching'' [] 0] = [''s1'' \<mapsto> demoRow ''expired'' ''confirm_timeout'' 0]"
  by (simp_all add: effectOf_def MarkWatching_def MarkConfirmed_def MarkExpired_def updateRow_def demo_trim activeStatus_def)
    (simp_all add: demoRow_def)

lemmas demo_process = processSubmission_def demoAnswers_def terminalStatus_def depositFlow_def withdrawFlow_def demo_verify confirmVerified_def
  publishAndMark_def failSubmission_def demo_effects Let_def

abbreviation demoResult :: confirmResult where
  "demoResult \<equiv> \<lparr>cr_Signature = ''s1'', cr_Slot = 9, cr_ConfirmationStatus = ''confirmed''\<rparr>"

lemma demo_confirmed:
  "demoReach demoDeposit ''global:d'' (demoState (demoRow ''confirmed'' [] 9) [TxConfirmed ''s1'' ''alice'' 5 9])"
  "demoReach demoWithdraw ''global:w'' (demoState (demoRow ''confirmed'' [] 9) [TxConfirmed ''s1'' ''alice'' 5 9])"
proof -
  show "demoReach demoDeposit ''global:d'' (demoState (demoRow ''confirmed'' [] 9) [TxConfirmed ''s1'' ''alice'' 5 9])"
    by (rule demo_attempt [OF demo_submitted, where a = "demoAnswers (Inr demoResult) (Some (demoTx ''global:d'')) Done"])
      (simp_all add: demo_process, simp add: demoLib_def)
  show "demoReach demoWithdraw ''global:w'' (demoState (demoRow ''confirmed'' [] 9) [TxConfirmed ''s1'' ''alice'' 5 9])"
    by (rule demo_attempt [OF demo_submitted, where a = "demoAnswers (Inr demoResult) (Some (demoTx ''global:w'')) Done"])
      (simp_all add: demo_process, simp add: demoLib_def)
qed

text \<open>The confirmation is published and the row is not marked; the next delivery waits in vain and reports a failure.\<close>

theorem contradictory_outcomes:
  "demoReach demoDeposit ''global:d'' (demoState (demoRow ''expired'' ''confirm_timeout'' 0)
     [TxConfirmed ''s1'' ''alice'' 5 9, TxFailed ''s1'' ''alice'' ''confirm_timeout''])"
proof -
  have "demoReach demoDeposit ''global:d'' (demoState (demoRow ''watching'' [] 0) [TxConfirmed ''s1'' ''alice'' 5 9])"
    by (rule demo_attempt [OF demo_submitted, where a = "demoAnswers (Inr demoResult) (Some (demoTx ''global:d'')) Refused"])
      (simp_all add: demo_process, simp add: demoLib_def)
  then show ?thesis
    by (rule demo_attempt [where a = "demoAnswers (Inl DeadlineExceeded) None Done"])
      (simp_all add: demo_process, simp add: demoLib_def demoRow_def)
qed

lemma textBytes_chars: "map (\<lambda>b. char_of (unat b)) (textBytes s) = s"
proof -
  have "char_of (unat (of_char c :: u8)) = c" for c
  proof -
    have "unat (of_nat (of_char c) :: u8) = of_char c mod 256" by (simp add: unat_of_nat take_bit_eq_mod)
    then show ?thesis by (simp add: of_nat_of_char)
  qed
  then show ?thesis by (simp add: textBytes_def comp_def)
qed

lemma demo_injective: "inj_on (cl_Signature demoLib) (dom (cl_Signature demoLib))"
proof (rule inj_onI)
  fix x y assume "cl_Signature demoLib x = cl_Signature demoLib y"
  then have "textBytes x = textBytes y" by (simp add: demoLib_def)
  from arg_cong [OF this, of "map (\<lambda>b. char_of (unat b))"] show "x = y" by (simp only: textBytes_chars)
qed

abbreviation transferMsg :: FundsMsg where
  "transferMsg \<equiv> (sampleMsg ''evt'')\<lparr>fm_Transfer := Some \<lparr>tc_Signature = ''s1'', tc_WalletAddress = ''alice'', tc_AmountUnits = 5\<rparr>\<rparr>"

lemma demo_delivers: "\<forall>msg \<in> set [transferMsg, transferMsg]. deliversConfirmed (demoState r [TxConfirmed ''s1'' ''alice'' 5 9]) msg"
  by (simp add: deliversConfirmed_def demoState_def)

section \<open>Properties\<close>

text \<open>C19: deposits are backed.  However requests, messages, redeliveries, retries, restarts, lost answers and failed
  calls interleave, and however the published confirmations are delivered to the funds service, the balance of every
  wallet grows by exactly the amounts of a set of deposits that the chain holds, one for every signature delivered,
  no transaction twice, each naming the wallet, the amount, the vault and the mint.  Decoding a signature is assumed
  injective.\<close>
theorem deposits_backed:
  assumes "reachableConfirm lib (depositFlow lib cfg) chain s" "\<forall>msg \<in> set msgs. deliversConfirmed s msg"
    "inj_on (cl_Signature lib) (dom (cl_Signature lib))" "fs_deposits st = NewDepositStore"
  shows "\<exists>es :: TransferConfirmedEvent list. distinct (map (\<lambda>e. cl_Signature lib (tc_Signature e)) es) \<and>
    tc_Signature ` set es = (\<lambda>msg. tc_Signature (the (fm_Transfer msg))) ` set msgs \<and>
    (\<forall>e \<in> set es. depositOnChain lib cfg chain (tc_Signature e) (tc_WalletAddress e) (tc_AmountUnits e)) \<and>
    (\<forall>w. AvailableUSDC (Ledger (fs_manager (fold (\<lambda>msg st. fst (handleDepositConfirmedMessage msg st)) msgs st)) w) =
       AvailableUSDC (Ledger (fs_manager st) w) + sum_list (map (\<lambda>e. if TrimSpace (tc_WalletAddress e) = w then tc_AmountUnits e else 0) es))"
proof -
  let ?es = "firsts {} (map (\<lambda>msg. (tc_Signature (the (fm_Transfer msg)), the (fm_Transfer msg))) msgs)"
  have "fs_manager (fold (\<lambda>msg st. fst (handleDepositConfirmedMessage msg st)) msgs st) = fold creditDeposit ?es (fs_manager st)"
    using handleDeposits_fold [OF delivers_some [OF assms(2)], of st] assms(4) by (simp add: NewDepositStore_def)
  note eq = this ledger_credits
  show ?thesis
    unfolding eq by (rule exI [of _ ?es]) (use deposits.transfers_backed [OF assms(1-3) depositOnChain_signature] in blast)
qed

theorem deposits_backed_witness:
  "\<exists>es :: TransferConfirmedEvent list. distinct (map (\<lambda>e. cl_Signature demoLib (tc_Signature e)) es) \<and> tc_Signature ` set es = {''s1''} \<and>
    (\<forall>e \<in> set es. depositOnChain demoLib demoConfig (demoChain ''global:d'') (tc_Signature e) (tc_WalletAddress e) (tc_AmountUnits e))"
proof -
  have "fs_deposits (sampleState NewManager) = NewDepositStore" by (simp add: sampleState_def)
  from deposits_backed [OF demo_confirmed(1) demo_delivers demo_injective this] show ?thesis by auto
qed

text \<open>C20: withdrawals are backed.  In the same way what the funds service debits are withdrawals that the chain
  holds, no transaction twice, each from the wallet's own ledger account to its own token account.\<close>
theorem withdrawals_backed:
  assumes "reachableConfirm lib (withdrawFlow lib cfg) chain s" "\<forall>msg \<in> set msgs. deliversConfirmed s msg"
    "inj_on (cl_Signature lib) (dom (cl_Signature lib))" "fs_withdrawals st = NewWithdrawalStore"
  shows "\<exists>es :: TransferConfirmedEvent list. distinct (map (\<lambda>e. cl_Signature lib (tc_Signature e)) es) \<and>
    tc_Signature ` set es = (\<lambda>msg. tc_Signature (the (fm_Transfer msg))) ` set msgs \<and>
    (\<forall>e \<in> set es. withdrawOnChain lib cfg chain (tc_Signature e) (tc_WalletAddress e) (tc_AmountUnits e)) \<and>
    fs_manager (fold (\<lambda>msg st. fst (handleWithdrawConfirmedMessage msg st)) msgs st) = fold debitWithdraw es (fs_manager st)"
proof -
  let ?es = "firsts {} (map (\<lambda>msg. (tc_Signature (the (fm_Transfer msg)), the (fm_Transfer msg))) msgs)"
  have "fs_manager (fold (\<lambda>msg st. fst (handleWithdrawConfirmedMessage msg st)) msgs st) = fold debitWithdraw ?es (fs_manager st)"
    using handleWithdrawals_fold [OF delivers_some [OF assms(2)], of st] assms(4) by (simp add: NewWithdrawalStore_def)
  note eq = this
  show ?thesis
    unfolding eq by (rule exI [of _ ?es]) (use withdrawals.transfers_backed [OF assms(1-3) withdrawOnChain_signature] in blast)
qed

theorem withdrawals_backed_witness:
  "\<exists>es. tc_Signature ` set es = {''s1''} \<and>
    (\<forall>e \<in> set es. withdrawOnChain demoLib demoConfig (demoChain ''global:w'') (tc_Signature e) (tc_WalletAddress e) (tc_AmountUnits e)) \<and>
    fs_manager (fold (\<lambda>msg st. fst (handleWithdrawConfirmedMessage msg st)) [transferMsg, transferMsg] (sampleState NewManager)) =
      fold debitWithdraw es NewManager"
proof -
  have "fs_withdrawals (sampleState NewManager) = NewWithdrawalStore" "fs_manager (sampleState NewManager) = NewManager" by (simp_all add: sampleState_def)
  from withdrawals_backed [OF demo_confirmed(2) demo_delivers demo_injective this(1)] this(2) show ?thesis by auto
qed

text \<open>C21: a settled submission is final.  Once the row of a signature is confirmed, failed or expired and no task
  holds it, no later run of the service changes the row or publishes anything for it.\<close>
theorem settled_submission_final:
  assumes "reachableConfirm lib (depositFlow lib cfg) chain s" "settledAt s k"
    "(confirmStep lib (depositFlow lib cfg) chain)\<^sup>*\<^sup>* s s'"
  shows "cv_db s' k = cv_db s k \<and> filter (eventFor k) (cv_events s') = filter (eventFor k) (cv_events s)"
  by (rule deposits.settled_run [OF assms])

theorem settled_submission_final_witness:
  "snd (handleSubmit demoLib Some True \<lparr>rq_Signature = ''s1'', rq_WalletAddress = ''alice'', rq_AmountUnits = 5\<rparr>
     [''s1'' \<mapsto> demoRow ''expired'' ''confirm_timeout'' 0]) ''s1'' = Some (demoRow ''expired'' ''confirm_timeout'' 0)"
proof -
  let ?s = "demoState (demoRow ''expired'' ''confirm_timeout'' 0) [TxConfirmed ''s1'' ''alice'' 5 9, TxFailed ''s1'' ''alice'' ''confirm_timeout'']"
  let ?again = "handleSubmit demoLib Some True \<lparr>rq_Signature = ''s1'', rq_WalletAddress = ''alice'', rq_AmountUnits = 5\<rparr> (cv_db ?s)"
  have "settledAt ?s ''s1''" by (simp add: settledAt_def demoState_def terminalStatus_def demoRow_def)
  moreover have "(confirmStep demoLib demoDeposit (demoChain ''global:d''))\<^sup>*\<^sup>* ?s (?s\<lparr>cv_db := snd ?again\<rparr>)"
    by (rule r_into_rtranclp) (rule confirmStep.submit [where reply = "fst ?again"], simp)
  ultimately have "cv_db (?s\<lparr>cv_db := snd ?again\<rparr>) ''s1'' = cv_db ?s ''s1''"
    using settled_submission_final [OF contradictory_outcomes] by blast
  then show ?thesis by (simp add: demoState_def)
qed

end
