(* ===== verification/MarketLaws.thy ===== *)
theory MarketLaws
  imports MarketConfirm ConfirmProps
begin

text \<open>
  What a listed market is worth: whatever the steps of the service, the projector, the bus and the admins, its
  identity, times, creator and oracle are those of a successful instruction on the chain, and only an admin resolves it.
\<close>

section \<open>Markets on the chain\<close>

definition createInstruction ::
  "chainLib \<Rightarrow> confirmConfig \<Rightarrow> (bytes \<rightharpoonup> parsedTx) \<Rightarrow> string \<Rightarrow> parsedInstruction \<Rightarrow> bool" where
  "createInstruction lib cfg chain k ix \<longleftrightarrow> (\<exists>b tx ixs. cl_Signature lib (TrimSpace k) = Some b \<and> chain b = Some tx \<and> px_Succeeded tx
     \<and> px_Instructions tx = Some ixs \<and> Some ix \<in> set ixs \<and> cl_Key lib (TrimSpace (cfg_ProgramID cfg)) = Some (pi_ProgramId ix)
     \<and> 182 \<le> length (pi_Data ix) \<and> take 8 (pi_Data ix) = anchorDiscriminator lib ''create_market'' \<and> 2 \<le> length (pi_Accounts ix)
     \<and> DeriveMarketPDA (cl_findPDA lib) (pi_ProgramId ix) (Uint64 (drop 8 (pi_Data ix))) = Some (pi_Accounts ix ! 0))"

text \<open>The market as it is read has the fields of the instruction.\<close>

definition marketSays :: "(PublicKey \<Rightarrow> string) \<Rightarrow> parsedInstruction \<Rightarrow> Market \<Rightarrow> bool" where
  "marketSays showKey ix m \<longleftrightarrow> (let bs = pi_Data ix in
     mt_MarketID m = Uint64 (drop 8 bs) \<and> mt_MarketPDA m = showKey (pi_Accounts ix ! 0) \<and> mt_Authority m = showKey (pi_Accounts ix ! 1)
     \<and> mt_MetadataCID m = decodeFixedString (take 96 (drop 16 bs))
     \<and> mt_CloseTime m = Uint64 (drop 112 bs) \<and> mt_ResolveAfterTime m = Uint64 (drop 120 bs) \<and> mt_ClaimDeadlineTime m = Uint64 (drop 128 bs)
     \<and> mt_Mode m = normalizeResolutionMode (bs ! 136)
     \<and> (bs ! 136 = 1 \<longrightarrow> mt_OracleFeed m = map toLowerChar (''0x'' @ hexEncode (take 32 (drop 137 bs)))
          \<and> mt_OracleCondition m = parseOracleCondition (normalizeOracleCondition (bs ! 169))
          \<and> mt_OracleTarget m = (if 0 <s Uint64 (drop 170 bs) then Uint64 (drop 170 bs) else 0)
          \<and> mt_OracleTargetExpo m = Uint32 (drop 178 bs)))"

definition marketOnChain :: "chainLib \<Rightarrow> (PublicKey \<Rightarrow> string) \<Rightarrow> confirmConfig \<Rightarrow> (bytes \<rightharpoonup> parsedTx) \<Rightarrow> Market \<Rightarrow> bool" where
  "marketOnChain lib showKey cfg chain m \<longleftrightarrow> (\<exists>k ix. createInstruction lib cfg chain k ix \<and> marketSays showKey ix m)"

definition eventOnChain ::
  "chainLib \<Rightarrow> (PublicKey \<Rightarrow> string) \<Rightarrow> confirmConfig \<Rightarrow> (bytes \<rightharpoonup> parsedTx) \<Rightarrow> MarketConfirmedEvent \<Rightarrow> bool" where
  "eventOnChain lib showKey cfg chain ev \<longleftrightarrow> (\<exists>k slot ix doc url. createInstruction lib cfg chain k ix
     \<and> ev = marketEventOf showKey k slot ix doc url)"

lemma verified_on_chain:
  assumes "VerifyMarketCreateTransaction lib showKey cfg k answer document = Inr ev"
    "answer = None \<or> answer = Option.bind (cl_Signature lib (TrimSpace k)) chain"
  shows "eventOnChain lib showKey cfg chain ev"
proof -
  obtain b programID out ixs ix pda doc url where v: "cl_Signature lib (TrimSpace k) = Some b"
    "cl_Key lib (TrimSpace (cfg_ProgramID cfg)) = Some programID" "answer = Some out" "px_Succeeded out" "px_Instructions out = Some ixs"
    "findInstruction 182 programID (anchorDiscriminator lib ''create_market'') ixs = Some ix" "2 \<le> length (pi_Accounts ix)"
    "DeriveMarketPDA (cl_findPDA lib) programID (Uint64 (drop 8 (pi_Data ix))) = Some pda" "pda = pi_Accounts ix ! 0"
    "ev = marketEventOf showKey k (px_Slot out) ix doc url"
    using assms(1) by (auto simp: VerifyMarketCreateTransaction_def needs_Inr rejects_Inr not_less split: prod.splits)
  moreover have "chain b = Some out" using assms(2) v(1,3) by auto
  ultimately have "createInstruction lib cfg chain k ix"
    using findInstruction_SomeD [OF v(6)] by (auto simp: createInstruction_def)
  then show ?thesis using v(10) unfolding eventOnChain_def by blast
qed

lemma event_slot: "eventOnChain lib showKey cfg chain ev \<Longrightarrow> eventOnChain lib showKey cfg chain (ev\<lparr>mc_Slot := n\<rparr>)"
proof -
  assume "eventOnChain lib showKey cfg chain ev"
  then obtain k slot ix doc url where ix: "createInstruction lib cfg chain k ix" "ev = marketEventOf showKey k slot ix doc url"
    unfolding eventOnChain_def by blast
  have "ev\<lparr>mc_Slot := n\<rparr> = marketEventOf showKey k n ix doc url"
    unfolding ix(2) marketEventOf_def Let_def by simp
  then show ?thesis using ix(1) unfolding eventOnChain_def by blast
qed

lemma parse_fixed [simp]:
  "parseOracleCondition (parseOracleCondition c) = parseOracleCondition c" "parseResolutionMode (parseResolutionMode c) = parseResolutionMode c"
  "parseResolutionMode (normalizeResolutionMode raw) = normalizeResolutionMode raw"
  "parseResolutionMode ''pyth'' = ''pyth''" "parseResolutionMode ''creator'' = ''creator''"
  "parseStatus ''open'' = ''open''" "parseStatus ''resolved'' = ''resolved''" "parseOutcome ''undecided'' = ''undecided''"
proof -
  have t: "map toLowerChar (TrimSpace ''gt'') = ''gt''" "map toLowerChar (TrimSpace ''lt'') = ''lt''" "map toLowerChar (TrimSpace ''lte'') = ''lte''"
    "map toLowerChar (TrimSpace ''gte'') = ''gte''" "map toLowerChar (TrimSpace ''pyth'') = ''pyth''" "map toLowerChar (TrimSpace ''creator'') = ''creator''"
    by code_simp+
  show "parseOracleCondition (parseOracleCondition c) = parseOracleCondition c"
    unfolding parseOracleCondition_def [of c] Let_def by (simp add: parseOracleCondition_def t)
  show "parseResolutionMode (parseResolutionMode c) = parseResolutionMode c"
    unfolding parseResolutionMode_def [of c] by (simp add: parseResolutionMode_def t)
  show "parseResolutionMode (normalizeResolutionMode raw) = normalizeResolutionMode raw"
    unfolding normalizeResolutionMode_def by (simp add: parseResolutionMode_def t)
qed code_simp+

lemma scan_resolved:
  "scanMarket (resolveCreator outcome now (scanMarket m)) =
     (scanMarket m)\<lparr>mt_Outcome := parseOutcome outcome, mt_Status := ''resolved'', mt_ResolvedAt := Some now, mt_UpdatedAt := now\<rparr>"
  by (simp add: scanMarket_def resolveCreator_def)

lemma marketSays_cong:
  "marketSays showKey ix (m\<lparr>mt_Outcome := o', mt_Status := st, mt_ResolvedAt := r, mt_UpdatedAt := u\<rparr>) = marketSays showKey ix m"
  "marketSays showKey ix (m\<lparr>mt_ID := i, mt_CreatedAt := t\<rparr>) = marketSays showKey ix m"
  by (simp_all add: marketSays_def)

lemma event_market:
  assumes "eventOnChain lib showKey cfg chain ev"
  shows "marketOnChain lib showKey cfg chain (scanMarket (marketOf uuid now ev))"
proof -
  obtain k slot ix doc url where ix: "createInstruction lib cfg chain k ix" "ev = marketEventOf showKey k slot ix doc url"
    using assms unfolding eventOnChain_def by blast
  have "marketSays showKey ix (scanMarket (marketOf uuid now ev))"
    unfolding ix(2) marketEventOf_def marketOf_def scanMarket_def marketSays_def Let_def
    by (simp add: normalizeResolutionMode_def)
  then show ?thesis using ix(1) unfolding marketOnChain_def by blast
qed

text \<open>The address is a function of the id.\<close>

lemma address_of_id:
  assumes "marketOnChain lib showKey cfg chain m" "marketOnChain lib showKey cfg chain m'" "mt_MarketID m = mt_MarketID m'"
  shows "mt_MarketPDA m = mt_MarketPDA m'"
proof -
  obtain k ix k' ix' where "createInstruction lib cfg chain k ix" "marketSays showKey ix m"
    "createInstruction lib cfg chain k' ix'" "marketSays showKey ix' m'"
    using assms(1,2) unfolding marketOnChain_def by blast
  then show ?thesis using assms(3) by (auto simp: createInstruction_def marketSays_def Let_def)
qed

section \<open>The table\<close>

text \<open>A row says what the chain holds for its id, and is open, or resolved to an outcome an admin gave.\<close>

definition rowFaithful ::
  "chainLib \<Rightarrow> (PublicKey \<Rightarrow> string) \<Rightarrow> confirmConfig \<Rightarrow> (bytes \<rightharpoonup> parsedTx) \<Rightarrow> (u64 \<times> string) set \<Rightarrow> u64 \<Rightarrow> Market \<Rightarrow> bool" where
  "rowFaithful lib showKey cfg chain given i m \<longleftrightarrow> mt_MarketID m = i \<and> marketOnChain lib showKey cfg chain (scanMarket m)
     \<and> (mt_Status m = ''open'' \<and> mt_Outcome m = ''undecided'' \<or> mt_Status m = ''resolved'' \<and> (i, mt_Outcome m) \<in> given)"

lemma scan_market_sel [simp]: "mt_MarketID (scanMarket m) = mt_MarketID m" "mt_MarketPDA (scanMarket m) = mt_MarketPDA m"
  by (simp_all add: scanMarket_def)

lemma scan_upd:
  "scanMarket (m\<lparr>mt_ID := x, mt_CreatedAt := t\<rparr>) = (scanMarket m)\<lparr>mt_ID := x, mt_CreatedAt := t\<rparr>"
  by (simp add: scanMarket_def)

lemma rowFaithful_cong:
  "rowFaithful lib showKey cfg chain given i (m\<lparr>mt_ID := x, mt_CreatedAt := t\<rparr>) = rowFaithful lib showKey cfg chain given i m"
  by (simp add: rowFaithful_def marketOnChain_def scan_upd marketSays_cong)

lemma rowFaithful_mono: "rowFaithful lib showKey cfg chain given i m \<Longrightarrow> given \<subseteq> given' \<Longrightarrow> rowFaithful lib showKey cfg chain given' i m"
  by (auto simp: rowFaithful_def)

lemma save_faithful:
  assumes "SaveMarket m rows = Some rows'" "rowFaithful lib showKey cfg chain given (mt_MarketID m) m"
    "\<forall>(i, r) \<in> set rows. rowFaithful lib showKey cfg chain given i r"
  shows "\<forall>(i, r) \<in> set rows'. rowFaithful lib showKey cfg chain given i r"
proof (cases "map_of rows (mt_MarketID m)")
  case None
  then show ?thesis using assms by (auto simp: SaveMarket_def split: if_splits)
next
  case (Some old)
  then have "rows' = AList.update (mt_MarketID m) (m\<lparr>mt_ID := mt_ID old, mt_CreatedAt := mt_CreatedAt old\<rparr>) rows"
    using assms(1) by (auto simp: SaveMarket_def split: if_splits)
  moreover have "rowFaithful lib showKey cfg chain given (mt_MarketID m) (m\<lparr>mt_ID := mt_ID old, mt_CreatedAt := mt_CreatedAt old\<rparr>)"
    using assms(2) by (simp only: rowFaithful_cong)
  ultimately show ?thesis using alist_update_all [OF assms(3)] by simp
qed

lemma update_faithful:
  assumes "UpdateMarket m rows = Some rows'" "rowFaithful lib showKey cfg chain given (mt_MarketID m) m"
    "\<forall>(i, r) \<in> set rows. rowFaithful lib showKey cfg chain given i r"
  shows "\<forall>(i, r) \<in> set rows'. rowFaithful lib showKey cfg chain given i r"
proof -
  obtain old where old: "map_of rows (mt_MarketID m) = Some old"
    and rows': "rows' = AList.update (mt_MarketID m) (m\<lparr>mt_ID := mt_ID old, mt_MarketPDA := mt_MarketPDA old, mt_CreatedAt := mt_CreatedAt old\<rparr>) rows"
    using assms(1) by (auto simp: UpdateMarket_def split: option.splits)
  have "rowFaithful lib showKey cfg chain given (mt_MarketID m) old"
    by (rule alist_lookup_all [OF assms(3) old])
  then have "mt_MarketPDA old = mt_MarketPDA m"
    using assms(2) address_of_id [of lib showKey cfg chain "scanMarket old" "scanMarket m"] by (simp add: rowFaithful_def)
  then have "m\<lparr>mt_ID := mt_ID old, mt_MarketPDA := mt_MarketPDA old, mt_CreatedAt := mt_CreatedAt old\<rparr>
      = m\<lparr>mt_ID := mt_ID old, mt_CreatedAt := mt_CreatedAt old\<rparr>" by simp
  moreover have "rowFaithful lib showKey cfg chain given (mt_MarketID m) (m\<lparr>mt_ID := mt_ID old, mt_CreatedAt := mt_CreatedAt old\<rparr>)"
    using assms(2) by (simp only: rowFaithful_cong)
  ultimately show ?thesis unfolding rows' using alist_update_all [OF assms(3)] by simp
qed

section \<open>The system\<close>

definition marketInv ::
  "chainLib \<Rightarrow> (PublicKey \<Rightarrow> string) \<Rightarrow> confirmConfig \<Rightarrow> (bytes \<rightharpoonup> parsedTx) \<Rightarrow> marketState \<Rightarrow> bool" where
  "marketInv lib showKey cfg chain s \<longleftrightarrow> (\<forall>ev. MarketConfirmed ev \<in> set (ms_events s) \<longrightarrow> eventOnChain lib showKey cfg chain ev)
     \<and> (\<forall>(i, m) \<in> set (ms_markets s). rowFaithful lib showKey cfg chain (set (ms_outcomes s)) i m)
     \<and> (\<forall>m \<in> set (ms_resolving s). rowFaithful lib showKey cfg chain (set (ms_outcomes s)) (mt_MarketID m) m)"

lemma start_market_sel [simp]:
  "ms_events (startMarketTask sub r s) = ms_events s" "ms_markets (startMarketTask sub r s) = ms_markets s"
  "ms_resolving (startMarketTask sub r s) = ms_resolving s" "ms_outcomes (startMarketTask sub r s) = ms_outcomes s"
  by (simp_all add: startMarketTask_def Let_def)

lemma recover_market_sel:
  "ms_events (recoverMarkets items s) = ms_events s \<and> ms_markets (recoverMarkets items s) = ms_markets s
     \<and> ms_resolving (recoverMarkets items s) = ms_resolving s \<and> ms_outcomes (recoverMarkets items s) = ms_outcomes s"
  unfolding recoverMarkets_def by (induction items arbitrary: s) simp_all

text \<open>An attempt publishes at most one event, and a confirmation only of what it verified.\<close>

lemma publish_events: "publishAndMark a e mark t (db, evs) = ((db', evs'), out) \<Longrightarrow> evs' = evs \<or> evs' = evs @ [e]"
  by (auto simp: publishAndMark_def Let_def effectOf_def split: if_splits)

lemma process_events:
  assumes "processMarket lib showKey cfg a document sub (db, evs) = ((db', evs'), out)"
    "pa_Tx a = None \<or> pa_Tx a = Option.bind (cl_Signature lib (TrimSpace (mk_Signature sub))) chain"
    "MarketConfirmed ev \<in> set evs'" "MarketConfirmed ev \<notin> set evs"
  shows "eventOnChain lib showKey cfg chain ev"
proof -
  have fails: False if "publishAndMark a (MarketFailed k x) mark t (d, evs) = ((db', evs'), out)" for k x mark t d
    using publish_events [OF that] assms(3,4) by auto
  have confirms: "ev' = ev" if "publishAndMark a (MarketConfirmed ev') mark t (d, evs) = ((db', evs'), out)" for ev' mark t d
    using publish_events [OF that] assms(3,4) by auto
  have "\<exists>v n. VerifyMarketCreateTransaction lib showKey cfg (mk_Signature sub) (pa_Tx a) document = Inr v
      \<and> (ev = v \<or> ev = v\<lparr>mc_Slot := n\<rparr>)"
    using assms(1,3,4) unfolding processMarket_def Let_def
    by (auto split: if_splits sum.splits verifyError.splits dest!: fails confirms)
  then show ?thesis using verified_on_chain [OF _ assms(2)] event_slot by blast
qed

lemma market_step:
  assumes "marketStep lib showKey cfg chain s s'" "marketInv lib showKey cfg chain s"
  shows "marketInv lib showKey cfg chain s'"
  using assms(1)
proof (cases rule: marketStep.cases)
  case (create bus signature reply db)
  then show ?thesis using assms(2) by (simp add: marketInv_def)
next
  case (load msg ok sub)
  then show ?thesis using assms(2) by (simp add: marketInv_def)
next
  case (start sub)
  then show ?thesis using assms(2) by (simp add: marketInv_def)
next
  case (attempt k sub r a document ok)
  obtain db evs out where p: "processMarket lib showKey cfg a document sub (ms_db s, ms_events s) = ((db, evs), out)" by (metis surj_pair)
  have "eventOnChain lib showKey cfg chain ev" if "MarketConfirmed ev \<in> set evs" for ev
    using process_events [OF p attempt(3) that] assms(2) by (auto simp: marketInv_def)
  then show ?thesis using attempt(1) assms(2) p by (auto simp: marketInv_def runMarketTask_def case_prod_beta)
next
  case (restart items)
  then show ?thesis using assms(2) recover_market_sel by (simp add: marketInv_def)
next
  case (project ev uuid now saved marked)
  obtain rows db acked where p: "projectMarket uuid now saved marked ev (ms_markets s, ms_db s) = ((rows, db), acked)" by (metis surj_pair)
  have ev: "rowFaithful lib showKey cfg chain given (mt_MarketID (marketOf uuid now ev)) (marketOf uuid now ev)" for given
    using event_market [of lib showKey cfg chain ev uuid now] assms(2) project(2)
    by (simp add: rowFaithful_def marketInv_def marketOf_def)
  have "rows = ms_markets s \<or> SaveMarket (marketOf uuid now ev) (ms_markets s) = Some rows"
    using p by (auto simp: projectMarket_def split: option.splits if_splits)
  then have "\<forall>(i, m) \<in> set rows. rowFaithful lib showKey cfg chain (set (ms_outcomes s)) i m"
    using save_faithful [OF _ ev] assms(2) unfolding marketInv_def by blast
  then show ?thesis using project(1) assms(2) p by (simp add: marketInv_def projectStep_def)
next
  case (resolve i m outcome now)
  let ?given = "insert (i, outcome) (set (ms_outcomes s))"
  obtain r where r: "map_of (ms_markets s) i = Some r" "m = scanMarket r"
    using resolve(2) by (auto simp: GetMarket_def)
  have f: "rowFaithful lib showKey cfg chain (set (ms_outcomes s)) i r"
    using assms(2) alist_lookup_all [OF _ r(1)] unfolding marketInv_def by blast
  then have "rowFaithful lib showKey cfg chain ?given i (resolveCreator outcome now m)"
    unfolding r(2) rowFaithful_def marketOnChain_def scan_resolved marketSays_cong by (simp add: resolveCreator_def)
  moreover have "mt_MarketID (resolveCreator outcome now m) = i" using f by (simp add: r(2) resolveCreator_def rowFaithful_def)
  moreover have "rowFaithful lib showKey cfg chain ?given j x" if "rowFaithful lib showKey cfg chain (set (ms_outcomes s)) j x" for j x
    using that by (rule rowFaithful_mono) blast
  ultimately show ?thesis
    using resolve(1) assms(2) unfolding marketInv_def by auto
next
  case (resolved m rows)
  then have "rowFaithful lib showKey cfg chain (set (ms_outcomes s)) (mt_MarketID m) m" using assms(2) by (simp add: marketInv_def)
  from update_faithful [OF resolved(3) this] show ?thesis
    using resolved(1) assms(2) by (auto simp: marketInv_def dest: set_remove1_subset [THEN subsetD])
qed

lemma market_reach: "reachableMarket lib showKey cfg chain s \<Longrightarrow> marketInv lib showKey cfg chain s"
  unfolding reachableMarket_def
proof (induction rule: rtranclp_induct)
  case base
  then show ?case by (simp add: marketInv_def newMarketState_def)
next
  case (step y z)
  then show ?case using market_step by blast
qed

end
