(* ===== verification/MarketProps.thy ===== *)
theory MarketProps
  imports MarketLaws
begin

text \<open>
  The property of listed markets, on a market that is created, confirmed, stored and resolved, and the late delivery of
  its confirmation that opens it again.
\<close>

section \<open>A sample market\<close>

definition demoCreate :: parsedTx where
  "demoCreate = \<lparr>px_Succeeded = True, px_Instructions = Some [Some \<lparr>pi_ProgramId = textBytes ''p'',
     pi_Data = textBytes ''global:c'' @ PutUint64 7 @ textBytes ''cid'' @ replicate 93 0 @ PutUint64 10 @ PutUint64 20 @ PutUint64 30
       @ [1] @ replicate 32 0 @ [0] @ PutUint64 5 @ PutUint32 1,
     pi_Accounts = [[], textBytes ''alice'']\<rparr>], px_Slot = 4\<rparr>"

definition demoCreated :: "bytes \<rightharpoonup> parsedTx" where "demoCreated = [textBytes ''s1'' \<mapsto> demoCreate]"

definition demoShow :: "PublicKey \<Rightarrow> string" where "demoShow = map (\<lambda>b. char_of (unat b))"

definition demoDoc :: MetadataDocument where
  "demoDoc = \<lparr>md_Title = ''Rain'', md_Description = [], md_Category = [], md_Image = [], md_ImageURL = []\<rparr>"

definition demoMarketRow :: "string \<Rightarrow> MarketSubmission" where
  "demoMarketRow status = \<lparr>mk_Signature = ''s1'', mk_MarketID = 0, mk_MarketPDA = [], mk_CreatorWallet = [],
     mk_MetadataCID = [], mk_Status = status, mk_FailureReason = [], mk_Slot = 0\<rparr>"

definition demoConfirmedRow :: MarketSubmission where
  "demoConfirmedRow = \<lparr>mk_Signature = ''s1'', mk_MarketID = 7, mk_MarketPDA = [], mk_CreatorWallet = ''alice'',
     mk_MetadataCID = ''cid'', mk_Status = ''confirmed'', mk_FailureReason = [], mk_Slot = 9\<rparr>"

definition demoEvent :: MarketConfirmedEvent where
  "demoEvent = \<lparr>mc_Signature = ''s1'', mc_Slot = 9, mc_MarketID = 7, mc_MarketPDA = [], mc_Creator = ''alice'', mc_MetadataCID = ''cid'',
     mc_MetadataURL = ''ipfs://cid'', mc_Title = ''Rain'', mc_Description = [], mc_Category = [], mc_ImageURL = [],
     mc_ResolutionMode = ''pyth'', mc_ResolutionAuthority = ''alice'', mc_OracleFeed = ''0x'' @ replicate 64 CHR ''0'',
     mc_OracleCondition = ''gt'', mc_OracleTargetPrice = 5, mc_OracleTargetExpo = 1, mc_CloseTS = 10, mc_ResolveAfterTS = 20,
     mc_ClaimDeadlineTS = 30\<rparr>"

definition demoMarkets :: "MarketSubmission \<Rightarrow> marketEvent list \<Rightarrow> marketRows \<Rightarrow> (u64 \<times> string) list \<Rightarrow> marketState" where
  "demoMarkets row evs rows given = \<lparr>ms_db = [''s1'' \<mapsto> row], ms_events = evs, ms_active = Map.empty, ms_inbox = None,
     ms_markets = rows, ms_resolving = [], ms_outcomes = given\<rparr>"

abbreviation demoLists :: "marketState \<Rightarrow> bool" where "demoLists \<equiv> reachableMarket demoLib demoShow demoConfig demoCreated"

lemma market_next: "demoLists s \<Longrightarrow> marketStep demoLib demoShow demoConfig demoCreated s s1 \<Longrightarrow> s1 = s' \<Longrightarrow> demoLists s'"
  by (auto simp: reachableMarket_def)

lemma demo_registered: "demoLists (demoMarkets (demoMarketRow ''submitted'') [] [] [])"
proof -
  have "scanMarketSubmission (demoMarketRow ''submitted'') = demoMarketRow ''submitted''"
    by (simp add: scanMarketSubmission_def demoMarketRow_def)
  then have "handleCreateMarket demoLib True ''s1'' Map.empty = (MarketAccepted ''s1'' ''submitted'', [''s1'' \<mapsto> demoMarketRow ''submitted''])"
    by (simp add: handleCreateMarket_def demo_trim demoLib_def UpsertMarketSubmitted_def scanMarketSubmission_def demoMarketRow_def Let_def)
  then show ?thesis
    by (rule_tac market_next [OF _ marketStep.create, where s = newMarketState])
      (simp_all add: reachableMarket_def newMarketState_def demoMarkets_def)
qed

lemma demo_market_verify:
  "VerifyMarketCreateTransaction demoLib demoShow demoConfig ''s1'' (Some demoCreate) (Some demoDoc) = Inr (demoEvent\<lparr>mc_Slot := 4\<rparr>)"
  by code_simp

lemma demo_market_process:
  "processMarket demoLib demoShow demoConfig (demoAnswers (Inr demoResult) (Some demoCreate) Done) (Some demoDoc)
     (demoMarketRow ''submitted'') ([''s1'' \<mapsto> demoMarketRow ''submitted''], []) =
   (([''s1'' \<mapsto> demoConfirmedRow], [MarketConfirmed demoEvent]), False, True)"
proof -
  have t: "TrimSpace ''cid'' = ''cid''" by code_simp
  have s: "cl_Signature demoLib ''s1'' \<noteq> None" by (simp add: demoLib_def)
  have e: "demoEvent\<lparr>mc_Slot := 4, mc_Slot := 9\<rparr> = demoEvent" by (simp add: demoEvent_def)
  show ?thesis
    using s by (simp add: processMarket_def demoAnswers_def demoMarketRow_def terminalStatus_def demo_trim MarkMarketWatching_def
      updateSubmission_def activeStatus_def effectOf_def demo_market_verify publishAndMark_def MarkMarketConfirmed_def Let_def e)
      (simp add: demoEvent_def demoConfirmedRow_def demo_trim t)
qed

lemma demo_market_confirmed: "demoLists (demoMarkets demoConfirmedRow [MarketConfirmed demoEvent] [] [])"
proof -
  let ?sub = "demoMarketRow ''submitted''" and ?s = "demoMarkets (demoMarketRow ''submitted'') [] [] []"
  have "handleMarketMessage (Some ''s1'') True (ms_db ?s) = MarketStart ?sub"
    by (simp add: handleMarketMessage_def LoadMarketSubmission_def demo_trim demoMarkets_def scanMarketSubmission_def demoMarketRow_def terminalStatus_def)
  then have "demoLists (?s\<lparr>ms_inbox := Some ?sub\<rparr>)"
    by (rule_tac market_next [OF demo_registered marketStep.load]) (simp_all add: demoMarkets_def)
  then have "demoLists (?s\<lparr>ms_active := [''s1'' \<mapsto> (?sub, False)]\<rparr>)"
    by (rule market_next [OF _ marketStep.start [where sub = ?sub]])
      (simp_all add: startMarketTask_def demo_trim demoMarkets_def Let_def demoMarketRow_def)
  then show ?thesis
    by (rule market_next [OF _ marketStep.attempt [where a = "demoAnswers (Inr demoResult) (Some demoCreate) Done"
        and document = "Some demoDoc" and dbOk = True]])
      (use demo_market_process in \<open>auto simp: demoMarkets_def runMarketTask_def demoAnswers_def demoLib_def demoCreated_def demoMarketRow_def demo_trim\<close>)
qed

definition demoMarket :: Market where "demoMarket = marketOf ''u'' 100 demoEvent"

definition demoResolved :: Market where "demoResolved = resolveCreator ''no'' 200 (scanMarket demoMarket)"

lemma demo_projected: "projectSubmission demoEvent [''s1'' \<mapsto> demoConfirmedRow] = [''s1'' \<mapsto> demoConfirmedRow]"
  by (simp add: projectSubmission_def updateSubmission_def demoEvent_def demoConfirmedRow_def)

lemma demo_listed: "demoLists (demoMarkets demoConfirmedRow [MarketConfirmed demoEvent] [(7, demoMarket)] [])"
  by (rule market_next [OF demo_market_confirmed marketStep.project [where ev = demoEvent and uuid = "''u''" and now = 100
        and saved = Done and marked = Done]])
    (simp_all add: demoMarkets_def projectStep_def projectMarket_def SaveMarket_def demo_projected effectOf_def demoMarket_def,
     simp add: marketOf_def demoEvent_def)

lemma demo_market_id [simp]: "mt_MarketID demoMarket = 7" "mt_MarketID demoResolved = 7"
  by (simp_all add: demoResolved_def resolveCreator_def demoMarket_def marketOf_def demoEvent_def)

lemma demo_write_back: "demoResolved\<lparr>mt_ID := mt_ID demoMarket, mt_MarketPDA := mt_MarketPDA demoMarket, mt_CreatedAt := mt_CreatedAt demoMarket\<rparr> = demoResolved"
  by (simp add: demoResolved_def resolveCreator_def scanMarket_def)

lemma demo_resolved: "demoLists (demoMarkets demoConfirmedRow [MarketConfirmed demoEvent] [(7, demoResolved)] [(7, ''no'')])"
proof -
  let ?s = "demoMarkets demoConfirmedRow [MarketConfirmed demoEvent] [(7, demoMarket)] []"
  have "GetMarket 7 (ms_markets ?s) = Some (scanMarket demoMarket)"
    by (simp add: GetMarket_def demoMarkets_def)
  then have "demoLists (?s\<lparr>ms_resolving := [demoResolved], ms_outcomes := [(7, ''no'')]\<rparr>)"
    by (rule_tac market_next [OF demo_listed marketStep.resolve [where outcome = "''no''" and now = 200]])
      (simp_all add: demoMarkets_def demoResolved_def)
  then show ?thesis
    by (rule market_next [OF _ marketStep.resolved [where m = demoResolved and rows = "[(7, demoResolved)]"]])
      (simp_all add: demoMarkets_def UpdateMarket_def demo_write_back)
qed

text \<open>The confirmation is delivered again after the market was resolved: the market is open again, without an outcome.\<close>

theorem late_confirmation_reopens_market:
  "\<exists>m. demoLists (demoMarkets demoConfirmedRow [MarketConfirmed demoEvent] [(7, m)] [(7, ''no'')])
     \<and> mt_Status m = ''open'' \<and> mt_Outcome m = ''undecided'' \<and> mt_ResolvedAt m = None"
proof (rule exI, intro conjI)
  let ?m = "(marketOf ''w'' 300 demoEvent)\<lparr>mt_ID := mt_ID demoResolved, mt_CreatedAt := mt_CreatedAt demoResolved\<rparr>"
  have "mt_MarketID (marketOf ''w'' 300 demoEvent) = 7" by (simp add: marketOf_def demoEvent_def)
  then show "demoLists (demoMarkets demoConfirmedRow [MarketConfirmed demoEvent] [(7, ?m)] [(7, ''no'')])"
    by (rule_tac market_next [OF demo_resolved marketStep.project [where ev = demoEvent and uuid = "''w''" and now = 300
        and saved = Done and marked = Done]])
      (simp_all add: demoMarkets_def projectStep_def projectMarket_def SaveMarket_def demo_projected effectOf_def)
  show "mt_Status ?m = ''open''" "mt_Outcome ?m = ''undecided''" "mt_ResolvedAt ?m = None"
    by (simp_all add: marketOf_def)
qed

section \<open>Property\<close>

text \<open>C23: listed markets are on the chain.  However registrations, attempts, restarts, deliveries of confirmations and
  resolutions interleave, a market that the table shows was created by a successful instruction of the program on the
  chain: its address is the one derived from its id, and its creator, metadata, times, mode and oracle are the
  instruction's.  It is open and undecided, or has an outcome that an admin gave for it.\<close>
theorem listed_markets_on_chain:
  assumes "reachableMarket lib showKey cfg chain s" "GetMarket i (ms_markets s) = Some m"
  shows "mt_MarketID m = i \<and> marketOnChain lib showKey cfg chain m
    \<and> (mt_Status m = ''open'' \<and> mt_Outcome m = ''undecided''
       \<or> mt_Status m = ''resolved'' \<and> (\<exists>outcome. (i, outcome) \<in> set (ms_outcomes s) \<and> mt_Outcome m = parseOutcome outcome))"
proof -
  obtain r where r: "map_of (ms_markets s) i = Some r" "m = scanMarket r"
    using assms(2) by (auto simp: GetMarket_def)
  have "rowFaithful lib showKey cfg chain (set (ms_outcomes s)) i r"
    using market_reach [OF assms(1)] alist_lookup_all [OF _ r(1)] unfolding marketInv_def by blast
  moreover have "mt_Status m = parseStatus (mt_Status r)" "mt_Outcome m = parseOutcome (mt_Outcome r)"
    by (simp_all add: r(2) scanMarket_def)
  ultimately show ?thesis by (auto simp: rowFaithful_def r(2))
qed

theorem listed_markets_on_chain_witness:
  "marketOnChain demoLib demoShow demoConfig demoCreated (scanMarket demoResolved) \<and> mt_Outcome (scanMarket demoResolved) = ''no''"
proof -
  have "GetMarket 7 (ms_markets (demoMarkets demoConfirmedRow [MarketConfirmed demoEvent] [(7, demoResolved)] [(7, ''no'')])) =
      Some (scanMarket demoResolved)"
    by (simp add: GetMarket_def demoMarkets_def)
  note listed = listed_markets_on_chain [OF demo_resolved this]
  have "parseOutcome ''no'' = ''no''" by code_simp
  moreover have "mt_Status (scanMarket demoResolved) = ''resolved''" by (simp add: scanMarket_def demoResolved_def resolveCreator_def)
  ultimately show ?thesis using listed by (auto simp: demoMarkets_def)
qed

end
