(* ===== verification/Router.thy ===== *)
theory Router
  imports Waiter Assoc
begin

text \<open>
  The router of signature subscriptions (\<open>chainconfirm/router.go\<close>): its watches under the router's mutex, its
  shards (one websocket connection each, with the requests pending on it and the subscriptions bound to it under the
  shard's own mutex) and the functions on them.  A Go map that the code ranges over is an association list, one that
  it only reads and writes by key is a map.  \<open>ObservedAt\<close>, \<open>CreatedAt\<close> and \<open>UpdatedAt\<close>, which nothing reads, and the
  pings are left out; a time is a number of ticks.
\<close>

section \<open>Data\<close>

record subscriptionKey =
  sk_Signature :: string
  sk_Commitment :: string

record signatureSubscriber =
  sb_ID :: string
  sb_Kind :: string
  sb_Ch :: nat

record signatureWatch =
  sw_Signature :: string
  sw_Commitment :: string
  sw_ShardIndex :: nat
  sw_WSSubID :: u64
  sw_PendingReqID :: u64
  sw_Subscribers :: "(string \<times> signatureSubscriber) list"
  sw_TerminalCache :: "SignatureResult option"
  sw_TerminalUntil :: nat

record routerShard =
  rs_wakeCh :: bool
  rs_conn :: "nat option"
  rs_connected :: bool
  rs_pendingRequests :: "u64 \<rightharpoonup> subscriptionKey"
  rs_sigByWSSubID :: "u64 \<rightharpoonup> subscriptionKey"

record Router =
  ro_ttl :: nat
  ro_reqID :: u64
  ro_closed :: bool
  ro_watches :: "(subscriptionKey \<times> signatureWatch) list"
  ro_shards :: "routerShard list"

record wsSignatureNotify =
  wn_Slot :: u64
  wn_Err :: "string option"

text \<open>
  A decoded message: \<open>Result\<close> is the number it decodes to, if it does, and \<open>Err\<close> the printed error, if there is one.
\<close>

record wsRPCResponse =
  wr_ID :: "u64 option"
  wr_Result :: "u64 option"
  wr_Error :: bool
  wr_Params :: "(u64 \<times> wsSignatureNotify) option"

text \<open>What a goroutine still has to do: the calls between which others may run.\<close>

datatype routerTask =
    SendSubscribe nat subscriptionKey
  | RegisterRequest nat u64 subscriptionKey
  | WriteSubscribe nat u64 subscriptionKey
  | SendUnsubscribe nat u64
  | SignalShard nat
  | CloseIfIdle nat
  | CloseShard nat
  | HandleAck nat u64 u64
  | BindAck nat u64 u64 subscriptionKey
  | HandleNotification nat u64 wsSignatureNotify
  | ResolveNotification subscriptionKey wsSignatureNotify
  | CacheAndDispatch subscriptionKey SignatureResult

section \<open>Construction\<close>

definition TrimPrefix :: "string \<Rightarrow> string \<Rightarrow> string" where
  "TrimPrefix s p = (if HasPrefix s p then drop (length p) s else s)"

definition deriveWSURL :: "string \<Rightarrow> string \<Rightarrow> string" where
  "deriveWSURL explicit rpcURL = (
     if TrimSpace explicit \<noteq> [] then TrimSpace explicit
     else let rpc = TrimSpace rpcURL in
       if rpc = [] then []
       else if HasPrefix rpc ''https://'' then ''wss://'' @ TrimPrefix rpc ''https://''
       else if HasPrefix rpc ''http://'' then ''ws://'' @ TrimPrefix rpc ''http://''
       else rpc)"

definition newShard :: routerShard where
  "newShard = \<lparr>rs_wakeCh = False, rs_conn = None, rs_connected = False, rs_pendingRequests = Map.empty,
     rs_sigByWSSubID = Map.empty\<rparr>"

definition NewRouter :: "nat \<Rightarrow> string \<Rightarrow> string \<Rightarrow> int \<Rightarrow> Router option" where
  "NewRouter ttl wsURL rpcURL shardCount = (
     if deriveWSURL (TrimSpace wsURL) (TrimSpace rpcURL) = [] then None
     else Some \<lparr>ro_ttl = ttl, ro_reqID = 0, ro_closed = False, ro_watches = [],
       ro_shards = replicate (nat (if shardCount \<le> 0 then 2 else shardCount)) newShard\<rparr>)"

definition normalizeCommitment :: "string \<Rightarrow> string" where
  "normalizeCommitment commitment = (let c = map toLowerChar (TrimSpace commitment) in
     if c = ''processed'' then ''processed''
     else if c = ''confirmed'' then ''confirmed''
     else if c = ''finalized'' then ''finalized''
     else ''confirmed'')"

definition shardIndexForSignature :: "string \<Rightarrow> nat \<Rightarrow> nat" where
  "shardIndexForSignature signature shardCount = (
     if shardCount \<le> 1 then 0
     else unat (fold (\<lambda>c sum. sum * 33 + of_nat (of_char c)) signature (0 :: u32) mod of_nat shardCount))"

section \<open>One shard\<close>

definition onShard :: "nat \<Rightarrow> (routerShard \<Rightarrow> routerShard) \<Rightarrow> Router \<Rightarrow> Router" where
  "onShard i f r = r\<lparr>ro_shards := (ro_shards r)[i := f (ro_shards r ! i)]\<rparr>"

definition signal :: "routerShard \<Rightarrow> routerShard" where
  "signal s = s\<lparr>rs_wakeCh := True\<rparr>"

definition closeShard :: "routerShard \<Rightarrow> routerShard" where
  "closeShard s = s\<lparr>rs_conn := None, rs_connected := False, rs_pendingRequests := Map.empty, rs_sigByWSSubID := Map.empty\<rparr>"

definition connect :: "nat \<Rightarrow> routerShard \<Rightarrow> routerShard" where
  "connect conn s = s\<lparr>rs_conn := Some conn, rs_connected := True, rs_pendingRequests := Map.empty, rs_sigByWSSubID := Map.empty\<rparr>"

definition registerRequest :: "u64 \<Rightarrow> subscriptionKey \<Rightarrow> routerShard \<Rightarrow> routerShard" where
  "registerRequest reqID key s = s\<lparr>rs_pendingRequests := (rs_pendingRequests s)(reqID \<mapsto> key)\<rparr>"

definition bindSubscription :: "u64 \<Rightarrow> u64 \<Rightarrow> subscriptionKey \<Rightarrow> routerShard \<Rightarrow> routerShard" where
  "bindSubscription reqID wsSubID key s = s\<lparr>rs_pendingRequests := (rs_pendingRequests s)(reqID := None),
     rs_sigByWSSubID := (rs_sigByWSSubID s)(wsSubID \<mapsto> key)\<rparr>"

definition dropSubscription :: "u64 \<Rightarrow> routerShard \<Rightarrow> routerShard" where
  "dropSubscription wsSubID s = s\<lparr>rs_sigByWSSubID := (rs_sigByWSSubID s)(wsSubID := None)\<rparr>"

text \<open>\<open>writeJSON\<close> writes on the connection the shard has, if it has one.\<close>

definition writeConn :: "routerShard \<Rightarrow> nat option" where
  "writeConn s = (if rs_connected s then rs_conn s else None)"

section \<open>The watches\<close>

definition onWatch :: "subscriptionKey \<Rightarrow> (signatureWatch \<Rightarrow> signatureWatch) \<Rightarrow> Router \<Rightarrow> Router" where
  "onWatch key f r = (case map_of (ro_watches r) key of
       None \<Rightarrow> r
     | Some w \<Rightarrow> r\<lparr>ro_watches := AList.update key (f w) (ro_watches r)\<rparr>)"

definition newWatch :: "Router \<Rightarrow> subscriptionKey \<Rightarrow> signatureWatch" where
  "newWatch r key = \<lparr>sw_Signature = sk_Signature key, sw_Commitment = sk_Commitment key,
     sw_ShardIndex = shardIndexForSignature (sk_Signature key @ '':'' @ sk_Commitment key) (length (ro_shards r)),
     sw_WSSubID = 0, sw_PendingReqID = 0, sw_Subscribers = [], sw_TerminalCache = None, sw_TerminalUntil = 0\<rparr>"

text \<open>\<open>SubscribeSignature\<close> under the mutex: the router with the subscriber added, what is left to do, and the
  cached result that is sent to the new subscriber at once.\<close>

definition addSubscriber ::
  "nat \<Rightarrow> subscriptionKey \<Rightarrow> signatureSubscriber \<Rightarrow> Router \<Rightarrow> Router \<times> routerTask list \<times> SignatureResult option" where
  "addSubscriber now key sub r = (
     let (watch, needUpstream, cached) = (case map_of (ro_watches r) key of
             None \<Rightarrow> (newWatch r key, True, None)
           | Some w \<Rightarrow> (w, False, if now < sw_TerminalUntil w then sw_TerminalCache w else None));
         watch' = watch\<lparr>sw_Subscribers := AList.update (sb_ID sub) sub (sw_Subscribers watch)\<rparr>
     in (r\<lparr>ro_watches := AList.update key watch' (ro_watches r)\<rparr>,
         if needUpstream then [SignalShard (sw_ShardIndex watch), SendSubscribe (sw_ShardIndex watch) key] else [],
         cached))"

text \<open>The whole call; \<open>stamp\<close> is the clock's nanoseconds as text.  The results are its key and subscriber, too.\<close>

definition subscriberOf :: "string \<Rightarrow> string \<Rightarrow> string \<Rightarrow> nat \<Rightarrow> signatureSubscriber" where
  "subscriberOf stamp subscriberID kind ch = \<lparr>
     sb_ID = (if TrimSpace subscriberID = [] then TrimSpace kind @ '':'' @ stamp else TrimSpace subscriberID),
     sb_Kind = TrimSpace kind, sb_Ch = ch\<rparr>"

definition SubscribeSignature ::
  "nat \<Rightarrow> string \<Rightarrow> string \<Rightarrow> string \<Rightarrow> string \<Rightarrow> string \<Rightarrow> nat \<Rightarrow> Router \<Rightarrow>
     string + subscriptionKey \<times> signatureSubscriber \<times> Router \<times> routerTask list \<times> SignatureResult option" where
  "SubscribeSignature now stamp signature subscriberID kind commitment ch r = (
     if TrimSpace signature = [] then Inl ''signature is required''
     else let key = \<lparr>sk_Signature = TrimSpace signature, sk_Commitment = normalizeCommitment commitment\<rparr>;
              sub = subscriberOf stamp subscriberID kind ch
          in Inr (key, sub, addSubscriber now key sub r))"

definition removeSubscriber :: "string \<Rightarrow> signatureWatch \<Rightarrow> signatureWatch" where
  "removeSubscriber subscriberID w = w\<lparr>sw_Subscribers := AList.delete subscriberID (sw_Subscribers w)\<rparr>"

definition unsubscribe :: "nat \<Rightarrow> subscriptionKey \<Rightarrow> string \<Rightarrow> Router \<Rightarrow> Router \<times> routerTask list" where
  "unsubscribe now key subscriberID r = (
     if ro_closed r \<or> sk_Signature key = [] \<or> TrimSpace subscriberID = [] then (r, [])
     else case map_of (ro_watches r) key of
       None \<Rightarrow> (r, [])
     | Some w0 \<Rightarrow>
         (let w = removeSubscriber (TrimSpace subscriberID) w0 in
          if sw_Subscribers w \<noteq> [] then (onWatch key (\<lambda>_. w) r, [])
          else
            (if sw_TerminalCache w = None \<or> sw_TerminalUntil w < now
             then r\<lparr>ro_watches := AList.delete key (ro_watches r)\<rparr>
             else onWatch key (\<lambda>_. w\<lparr>sw_WSSubID := 0, sw_PendingReqID := 0\<rparr>) r,
             (if sw_WSSubID w \<noteq> 0 then [SendUnsubscribe (sw_ShardIndex w) (sw_WSSubID w)] else [])
               @ [SignalShard (sw_ShardIndex w), CloseIfIdle (sw_ShardIndex w)])))"

definition closeRouter :: "Router \<Rightarrow> Router \<times> routerTask list" where
  "closeRouter r = (if ro_closed r then (r, [])
     else (r\<lparr>ro_closed := True\<rparr>, concat (map (\<lambda>i. [SignalShard i, CloseShard i]) [0..<length (ro_shards r)])))"

text \<open>One round of \<open>cleanupLoop\<close>.\<close>

definition cleanup :: "nat \<Rightarrow> Router \<Rightarrow> Router" where
  "cleanup now r = r\<lparr>ro_watches := filter (\<lambda>(key, w). sw_Subscribers w \<noteq> []
       \<or> (sw_TerminalCache w \<noteq> None \<and> now < sw_TerminalUntil w)) (ro_watches r)\<rparr>"

text \<open>\<open>cacheAndDispatch\<close>: the watch keeps the result, and the subscribers it then has are sent it.\<close>

definition cacheResult :: "nat \<Rightarrow> SignatureResult \<Rightarrow> Router \<Rightarrow> signatureWatch \<Rightarrow> signatureWatch" where
  "cacheResult now result r w = w\<lparr>sw_TerminalCache := Some result, sw_TerminalUntil := now + ro_ttl r,
     sw_WSSubID := 0, sw_PendingReqID := 0\<rparr>"

definition cacheAndDispatch ::
  "nat \<Rightarrow> subscriptionKey \<Rightarrow> SignatureResult \<Rightarrow> Router \<Rightarrow> Router \<times> signatureSubscriber list" where
  "cacheAndDispatch now key result r = (case map_of (ro_watches r) key of
       None \<Rightarrow> (r, [])
     | Some w \<Rightarrow> (onWatch key (cacheResult now result r) r, map snd (sw_Subscribers w)))"

definition resetShard :: "nat \<Rightarrow> Router \<Rightarrow> Router" where
  "resetShard index r = r\<lparr>ro_watches := map (\<lambda>(key, w).
     (key, if sw_ShardIndex w \<noteq> index then w else w\<lparr>sw_WSSubID := 0, sw_PendingReqID := 0\<rparr>)) (ro_watches r)\<rparr>"

definition shardSubscriptions :: "nat \<Rightarrow> Router \<Rightarrow> subscriptionKey list" where
  "shardSubscriptions index r =
     map fst (filter (\<lambda>(key, w). sw_ShardIndex w = index \<and> sw_Subscribers w \<noteq> []) (ro_watches r))"

definition shardHasActiveSubscribers :: "nat \<Rightarrow> Router \<Rightarrow> bool" where
  "shardHasActiveSubscribers index r \<longleftrightarrow>
     (\<exists>(key, w) \<in> set (ro_watches r). sw_ShardIndex w = index \<and> sw_Subscribers w \<noteq> [])"

definition nextRequestID :: "subscriptionKey \<Rightarrow> nat \<Rightarrow> Router \<Rightarrow> Router \<times> u64" where
  "nextRequestID key shardIndex r = (let reqID = ro_reqID r + 1 in
     (onWatch key (\<lambda>w. w\<lparr>sw_PendingReqID := reqID, sw_ShardIndex := shardIndex\<rparr>) (r\<lparr>ro_reqID := reqID\<rparr>), reqID))"

section \<open>Messages\<close>

text \<open>
  \<open>onSubscribeAck\<close> asks the shards in turn for the request (\<open>onSubscribeAck\<close> for one shard) and binds the
  subscription where it finds it (\<open>bindAck\<close>); \<open>onNotification\<close> asks them in turn for the subscription and then
  resolves the watch of the key it found.
\<close>

definition onSubscribeAck :: "nat \<Rightarrow> u64 \<Rightarrow> u64 \<Rightarrow> Router \<Rightarrow> routerTask list" where
  "onSubscribeAck i reqID wsSubID r = (
     if length (ro_shards r) \<le> i then []
     else case rs_pendingRequests (ro_shards r ! i) reqID of
       None \<Rightarrow> [HandleAck (Suc i) reqID wsSubID]
     | Some key \<Rightarrow> [BindAck i reqID wsSubID key])"

definition bindAck :: "nat \<Rightarrow> u64 \<Rightarrow> u64 \<Rightarrow> subscriptionKey \<Rightarrow> Router \<Rightarrow> Router" where
  "bindAck i reqID wsSubID key r =
     onWatch key (\<lambda>w. w\<lparr>sw_WSSubID := wsSubID, sw_PendingReqID := 0\<rparr>) (onShard i (bindSubscription reqID wsSubID key) r)"

definition onNotification :: "nat \<Rightarrow> u64 \<Rightarrow> wsSignatureNotify \<Rightarrow> Router \<Rightarrow> routerTask list" where
  "onNotification i subID notify r = (
     if length (ro_shards r) \<le> i then []
     else case rs_sigByWSSubID (ro_shards r ! i) subID of
       None \<Rightarrow> [HandleNotification (Suc i) subID notify]
     | Some key \<Rightarrow> [ResolveNotification key notify])"

definition errText :: "wsSignatureNotify \<Rightarrow> string" where
  "errText notify = (case wn_Err notify of None \<Rightarrow> [] | Some text \<Rightarrow> text)"

definition resolveNotification :: "subscriptionKey \<Rightarrow> wsSignatureNotify \<Rightarrow> Router \<Rightarrow> routerTask list" where
  "resolveNotification key notify r = (case map_of (ro_watches r) key of
       None \<Rightarrow> []
     | Some w \<Rightarrow> [CacheAndDispatch key \<lparr>sr_Signature = sw_Signature w, sr_Slot = wn_Slot notify,
         sr_ConfirmationStatus = sw_Commitment w, sr_ErrText = errText notify\<rparr>])"

text \<open>What \<open>readLoop\<close> does with a message, which may not decode.\<close>

definition readMessage :: "wsRPCResponse option \<Rightarrow> routerTask list" where
  "readMessage message = (case message of
       None \<Rightarrow> []
     | Some resp \<Rightarrow> (case wr_ID resp of
         Some reqID \<Rightarrow> if wr_Error resp then []
           else (case wr_Result resp of None \<Rightarrow> [] | Some wsSubID \<Rightarrow> [HandleAck 0 reqID wsSubID])
       | None \<Rightarrow> (case wr_Params resp of
           None \<Rightarrow> []
         | Some (subscription, result) \<Rightarrow> [HandleNotification 0 subscription result])))"

end
