(* ===== verification/RouterLaws.thy ===== *)
theory RouterLaws
  imports Router
begin

text \<open>
  The router at work (\<open>chainconfirm/router.go\<close>): its callers, the goroutine of every shard (\<open>run\<close>), what each of
  them still has to do, and the node at the other end of the connections.  A step is one critical section, one write
  or one read.  The tasks of all goroutines may run in any order, which includes the orders in which each goroutine
  runs its own.  The node answers a request with a subscription number that is new on its connection (two
  connections may be given the same number); it then reports outcomes of that subscription's key.
\<close>

section \<open>The network\<close>

datatype shardPhase = WaitUntilNeeded | Blocked | Dialling | Resubscribing nat | Reading nat | Resetting | Stopped

record routerNet =
  rn_Router :: Router
  rn_Now :: nat
  rn_Tasks :: "routerTask list"
  rn_Phase :: "nat \<Rightarrow> shardPhase"
  rn_Conns :: nat
  rn_Issued :: nat
  rn_Requested :: "(u64 \<times> subscriptionKey) list"
  rn_Sent :: "(nat \<times> u64 \<times> subscriptionKey) list"
  rn_Acked :: "(nat \<times> u64 \<times> u64 \<times> subscriptionKey) list"
  rn_Subscribed :: "(subscriptionKey \<times> signatureSubscriber) list"
  rn_Delivered :: "(signatureSubscriber \<times> SignatureResult) list"

type_synonym chainOutcome = "subscriptionKey \<Rightarrow> u64 \<Rightarrow> string \<Rightarrow> bool"

definition onRouter :: "(Router \<Rightarrow> Router) \<Rightarrow> routerNet \<Rightarrow> routerNet" where
  "onRouter f n = n\<lparr>rn_Router := f (rn_Router n)\<rparr>"

definition addTasks :: "routerTask list \<Rightarrow> routerNet \<Rightarrow> routerNet" where
  "addTasks ts n = n\<lparr>rn_Tasks := rn_Tasks n @ ts\<rparr>"

definition deliver :: "nat list \<Rightarrow> signatureSubscriber list \<Rightarrow> SignatureResult \<Rightarrow> routerNet \<Rightarrow> routerNet" where
  "deliver full subs result n = n\<lparr>rn_Delivered := rn_Delivered n
     @ map (\<lambda>sub. (sub, result)) (filter (\<lambda>sub. sb_Ch sub \<notin> set full) subs)\<rparr>"

text \<open>\<open>sendSubscribe\<close> draws its request id, registers it on the shard and writes it; \<open>sendUnsubscribe\<close> draws one too.\<close>

definition drawRequest :: "nat \<Rightarrow> subscriptionKey \<Rightarrow> routerNet \<Rightarrow> routerNet" where
  "drawRequest i key n = (let (r, reqID) = nextRequestID key i (rn_Router n) in
     addTasks [RegisterRequest i reqID key] (n\<lparr>rn_Router := r, rn_Issued := Suc (rn_Issued n),
       rn_Requested := (reqID, key) # rn_Requested n\<rparr>))"

definition writeSubscribe :: "bool \<Rightarrow> nat \<Rightarrow> u64 \<Rightarrow> subscriptionKey \<Rightarrow> routerNet \<Rightarrow> routerNet" where
  "writeSubscribe fails i reqID key n = (case writeConn (ro_shards (rn_Router n) ! i) of
       None \<Rightarrow> n
     | Some conn \<Rightarrow> if fails then n else n\<lparr>rn_Sent := (conn, reqID, key) # rn_Sent n\<rparr>)"

definition sendUnsubscribe :: "nat \<Rightarrow> u64 \<Rightarrow> routerNet \<Rightarrow> routerNet" where
  "sendUnsubscribe i wsSubID n = (if wsSubID = 0 then n
     else (onRouter (\<lambda>r. onShard i (dropSubscription wsSubID) (r\<lparr>ro_reqID := ro_reqID r + 1\<rparr>)) n)
       \<lparr>rn_Issued := Suc (rn_Issued n)\<rparr>)"

fun perform :: "bool \<Rightarrow> nat list \<Rightarrow> routerTask \<Rightarrow> routerNet \<Rightarrow> routerNet" where
  "perform fails full (SendSubscribe i key) n = drawRequest i key n"
| "perform fails full (RegisterRequest i reqID key) n =
     addTasks [WriteSubscribe i reqID key] (onRouter (onShard i (registerRequest reqID key)) n)"
| "perform fails full (WriteSubscribe i reqID key) n = writeSubscribe fails i reqID key n"
| "perform fails full (SendUnsubscribe i wsSubID) n = sendUnsubscribe i wsSubID n"
| "perform fails full (SignalShard i) n = onRouter (onShard i signal) n"
| "perform fails full (CloseIfIdle i) n =
     (if shardHasActiveSubscribers i (rn_Router n) then n else addTasks [CloseShard i] n)"
| "perform fails full (CloseShard i) n = onRouter (onShard i closeShard) n"
| "perform fails full (HandleAck i reqID wsSubID) n = addTasks (onSubscribeAck i reqID wsSubID (rn_Router n)) n"
| "perform fails full (BindAck i reqID wsSubID key) n = onRouter (bindAck i reqID wsSubID key) n"
| "perform fails full (HandleNotification i subID notify) n = addTasks (onNotification i subID notify (rn_Router n)) n"
| "perform fails full (ResolveNotification key notify) n = addTasks (resolveNotification key notify (rn_Router n)) n"
| "perform fails full (CacheAndDispatch key result) n =
     (let (r, subs) = cacheAndDispatch (rn_Now n) key result (rn_Router n)
      in deliver full subs result (n\<lparr>rn_Router := r\<rparr>))"

text \<open>One step of \<open>run\<close>; \<open>ok\<close> tells whether dialling succeeds.\<close>

definition setPhase :: "nat \<Rightarrow> shardPhase \<Rightarrow> routerNet \<Rightarrow> routerNet" where
  "setPhase i p n = n\<lparr>rn_Phase := (rn_Phase n)(i := p)\<rparr>"

definition runShard :: "nat \<Rightarrow> bool \<Rightarrow> routerNet \<Rightarrow> routerNet option" where
  "runShard i ok n = (case rn_Phase n i of
       WaitUntilNeeded \<Rightarrow> Some (if ro_closed (rn_Router n) then setPhase i Stopped n
         else if shardHasActiveSubscribers i (rn_Router n) then setPhase i Dialling n
         else setPhase i Blocked (onRouter (onShard i closeShard) n))
     | Blocked \<Rightarrow> if rs_wakeCh (ro_shards (rn_Router n) ! i)
         then Some (setPhase i WaitUntilNeeded (onRouter (onShard i (rs_wakeCh_update (\<lambda>_. False))) n)) else None
     | Dialling \<Rightarrow> Some (if ok
         then setPhase i (Resubscribing (rn_Conns n)) ((onRouter (onShard i (connect (rn_Conns n))) n)\<lparr>rn_Conns := Suc (rn_Conns n)\<rparr>)
         else setPhase i WaitUntilNeeded n)
     | Resubscribing conn \<Rightarrow> Some (setPhase i (Reading conn) (addTasks (map (SendSubscribe i) (shardSubscriptions i (rn_Router n))) n))
     | Reading conn \<Rightarrow> Some (setPhase i Resetting (onRouter (resetShard i) n))
     | Resetting \<Rightarrow> Some (setPhase i WaitUntilNeeded (onRouter (onShard i closeShard) n))
     | Stopped \<Rightarrow> None)"

text \<open>What the node may send on a connection: answers it gave there, and outcomes of its subscriptions there.\<close>

definition nodeSends :: "chainOutcome \<Rightarrow> nat \<Rightarrow> wsRPCResponse option \<Rightarrow> routerNet \<Rightarrow> bool" where
  "nodeSends outcome conn message n = (case message of
       None \<Rightarrow> True
     | Some resp \<Rightarrow> (case wr_ID resp of
         Some reqID \<Rightarrow> wr_Error resp \<or> (case wr_Result resp of
             None \<Rightarrow> True
           | Some subID \<Rightarrow> list_ex (\<lambda>(c, r, s, key). c = conn \<and> r = reqID \<and> s = subID) (rn_Acked n))
       | None \<Rightarrow> (case wr_Params resp of
           None \<Rightarrow> True
         | Some (subID, notify) \<Rightarrow> list_ex (\<lambda>(c, r, s, key). c = conn \<and> s = subID
             \<and> outcome key (wn_Slot notify) (errText notify)) (rn_Acked n))))"

datatype routerEvent =
    Subscribe string string string string nat string "nat list"
  | Unsubscribe subscriptionKey string
  | CloseAll
  | CleanupTick
  | Elapse nat
  | Perform routerTask bool "nat list"
  | RunShard nat bool
  | NodeAcks nat u64 u64 subscriptionKey
  | Receive nat "wsRPCResponse option"

definition subscribeStep ::
  "string \<Rightarrow> string \<Rightarrow> string \<Rightarrow> string \<Rightarrow> nat \<Rightarrow> string \<Rightarrow> nat list \<Rightarrow> routerNet \<Rightarrow> routerNet" where
  "subscribeStep signature subscriberID kind commitment ch stamp full n =
     (case SubscribeSignature (rn_Now n) stamp signature subscriberID kind commitment ch (rn_Router n) of
       Inl e \<Rightarrow> n
     | Inr (key, sub, r, tasks, cached) \<Rightarrow>
         (let n' = addTasks tasks (n\<lparr>rn_Router := r, rn_Subscribed := (key, sub) # rn_Subscribed n\<rparr>)
          in case cached of None \<Rightarrow> n' | Some result \<Rightarrow> deliver full [sub] result n'))"

definition nodeAcks :: "nat \<Rightarrow> u64 \<Rightarrow> u64 \<Rightarrow> subscriptionKey \<Rightarrow> routerNet \<Rightarrow> routerNet option" where
  "nodeAcks conn reqID subID key n = (
     if (conn, reqID, key) \<in> set (rn_Sent n)
       \<and> list_all (\<lambda>(c, r, s, k). s = subID \<longrightarrow> c \<noteq> conn) (rn_Acked n)
     then Some (n\<lparr>rn_Acked := (conn, reqID, subID, key) # rn_Acked n\<rparr>) else None)"

text \<open>
  \<open>readLoop\<close> checks the subscribers and loads the connection before it blocks in \<open>ReadMessage\<close>, so that a message that
  was on its way arrives whatever has happened to the shard meanwhile.
\<close>

definition receive :: "chainOutcome \<Rightarrow> nat \<Rightarrow> wsRPCResponse option \<Rightarrow> routerNet \<Rightarrow> routerNet option" where
  "receive outcome i message n = (case rn_Phase n i of
       Reading conn \<Rightarrow> if nodeSends outcome conn message n then Some (addTasks (readMessage message) n) else None
     | _ \<Rightarrow> None)"

fun fire :: "chainOutcome \<Rightarrow> routerEvent \<Rightarrow> routerNet \<Rightarrow> routerNet option" where
  "fire outcome (Subscribe signature subscriberID kind commitment ch stamp full) n =
     Some (subscribeStep signature subscriberID kind commitment ch stamp full n)"
| "fire outcome (Unsubscribe key subscriberID) n =
     (let (r, tasks) = unsubscribe (rn_Now n) key subscriberID (rn_Router n) in Some (addTasks tasks (n\<lparr>rn_Router := r\<rparr>)))"
| "fire outcome CloseAll n =
     (let (r, tasks) = closeRouter (rn_Router n) in Some (addTasks tasks (n\<lparr>rn_Router := r\<rparr>)))"
| "fire outcome CleanupTick n =
     (if ro_closed (rn_Router n) then None else Some (onRouter (cleanup (rn_Now n)) n))"
| "fire outcome (Elapse d) n = Some (n\<lparr>rn_Now := rn_Now n + d\<rparr>)"
| "fire outcome (Perform task fails full) n =
     (if task \<in> set (rn_Tasks n) then Some (perform fails full task (n\<lparr>rn_Tasks := remove1 task (rn_Tasks n)\<rparr>)) else None)"
| "fire outcome (RunShard i ok) n = (if i < length (ro_shards (rn_Router n)) then runShard i ok n else None)"
| "fire outcome (NodeAcks conn reqID subID key) n = nodeAcks conn reqID subID key n"
| "fire outcome (Receive i message) n =
     (if i < length (ro_shards (rn_Router n)) then receive outcome i message n else None)"

definition routerStart :: "Router \<Rightarrow> routerNet" where
  "routerStart r = \<lparr>rn_Router = r, rn_Now = 0, rn_Tasks = [], rn_Phase = (\<lambda>_. WaitUntilNeeded), rn_Conns = 0,
     rn_Issued = 0, rn_Requested = [], rn_Sent = [], rn_Acked = [], rn_Subscribed = [], rn_Delivered = []\<rparr>"

fun routerRun :: "chainOutcome \<Rightarrow> routerEvent list \<Rightarrow> routerNet \<Rightarrow> routerNet option" where
  "routerRun outcome [] n = Some n"
| "routerRun outcome (e # es) n = (case fire outcome e n of
     None \<Rightarrow> None | Some n' \<Rightarrow> routerRun outcome es n')"

section \<open>What is right\<close>

text \<open>\<open>R\<close> holds the requests made, \<open>A\<close> the subscription numbers the node gave, \<open>S\<close> the subscribers of every key.\<close>

definition rightResult :: "chainOutcome \<Rightarrow> subscriptionKey \<Rightarrow> SignatureResult \<Rightarrow> bool" where
  "rightResult outcome key res \<longleftrightarrow> sr_Signature res = sk_Signature key \<and> sr_ConfirmationStatus res = sk_Commitment key
     \<and> outcome key (sr_Slot res) (sr_ErrText res)"

definition shardRight :: "(u64 \<times> subscriptionKey) set \<Rightarrow> (u64 \<times> subscriptionKey) set \<Rightarrow> routerShard \<Rightarrow> bool" where
  "shardRight R A sh \<longleftrightarrow> (\<forall>q k. rs_pendingRequests sh q = Some k \<longrightarrow> (q, k) \<in> R)
     \<and> (\<forall>s k. rs_sigByWSSubID sh s = Some k \<longrightarrow> (s, k) \<in> A)"

definition watchRight :: "chainOutcome \<Rightarrow> (subscriptionKey \<times> signatureSubscriber) set \<Rightarrow> subscriptionKey \<Rightarrow> signatureWatch \<Rightarrow> bool" where
  "watchRight outcome S key w \<longleftrightarrow> sw_Signature w = sk_Signature key \<and> sw_Commitment w = sk_Commitment key
     \<and> (\<forall>res. sw_TerminalCache w = Some res \<longrightarrow> rightResult outcome key res)
     \<and> (\<forall>sub \<in> snd ` set (sw_Subscribers w). (key, sub) \<in> S)"

definition routerRight :: "chainOutcome \<Rightarrow> (u64 \<times> subscriptionKey) set \<Rightarrow> (u64 \<times> subscriptionKey) set
    \<Rightarrow> (subscriptionKey \<times> signatureSubscriber) set \<Rightarrow> Router \<Rightarrow> bool" where
  "routerRight outcome R A S r \<longleftrightarrow> (\<forall>sh \<in> set (ro_shards r). shardRight R A sh)
     \<and> (\<forall>(key, w) \<in> set (ro_watches r). watchRight outcome S key w)"

text \<open>What the router can take for an outcome of a key: outcomes of the keys that were given a number of this key's.\<close>

definition heard :: "chainOutcome \<Rightarrow> (u64 \<times> subscriptionKey) set \<Rightarrow> chainOutcome" where
  "heard outcome A key slot err \<longleftrightarrow> (\<exists>s key'. (s, key) \<in> A \<and> (s, key') \<in> A \<and> outcome key' slot err)"

fun taskRight :: "chainOutcome \<Rightarrow> (u64 \<times> subscriptionKey) set \<Rightarrow> (u64 \<times> subscriptionKey) set \<Rightarrow> routerTask \<Rightarrow> bool" where
  "taskRight outcome R A (RegisterRequest i q key) \<longleftrightarrow> (q, key) \<in> R"
| "taskRight outcome R A (WriteSubscribe i q key) \<longleftrightarrow> (q, key) \<in> R"
| "taskRight outcome R A (HandleAck i q s) \<longleftrightarrow> (\<exists>key. (q, key) \<in> R \<and> (s, key) \<in> A)"
| "taskRight outcome R A (BindAck i q s key) \<longleftrightarrow> (s, key) \<in> A"
| "taskRight outcome R A (HandleNotification i s notify) \<longleftrightarrow>
     (\<exists>key. (s, key) \<in> A \<and> outcome key (wn_Slot notify) (errText notify))"
| "taskRight outcome R A (ResolveNotification key notify) \<longleftrightarrow> heard outcome A key (wn_Slot notify) (errText notify)"
| "taskRight outcome R A (CacheAndDispatch key result) \<longleftrightarrow> rightResult (heard outcome A) key result"
| "taskRight outcome R A t \<longleftrightarrow> True"

definition assigned :: "routerNet \<Rightarrow> (u64 \<times> subscriptionKey) set" where
  "assigned n = (\<lambda>(c, q, s, key). (s, key)) ` set (rn_Acked n)"

definition netRight :: "chainOutcome \<Rightarrow> routerNet \<Rightarrow> bool" where
  "netRight outcome n \<longleftrightarrow>
     routerRight (heard outcome (assigned n)) (set (rn_Requested n)) (assigned n) (set (rn_Subscribed n)) (rn_Router n)
     \<and> (\<forall>t \<in> set (rn_Tasks n). taskRight outcome (set (rn_Requested n)) (assigned n) t)
     \<and> (\<forall>(c, q, key) \<in> set (rn_Sent n). (q, key) \<in> set (rn_Requested n))
     \<and> (\<forall>(c, q, s, key) \<in> set (rn_Acked n). (q, key) \<in> set (rn_Requested n))
     \<and> (\<forall>(sub, res) \<in> set (rn_Delivered n). \<exists>key. (key, sub) \<in> set (rn_Subscribed n) \<and> rightResult (heard outcome (assigned n)) key res)"

text \<open>A request id names one key, and so does a number on its connection.\<close>

definition connNumbers :: "(nat \<times> u64 \<times> u64 \<times> subscriptionKey) set \<Rightarrow> bool" where
  "connNumbers B \<longleftrightarrow> (\<forall>c q q' s key key'. (c, q, s, key) \<in> B \<longrightarrow> (c, q', s, key') \<in> B \<longrightarrow> key = key')"

definition numbered :: "routerNet \<Rightarrow> bool" where
  "numbered n \<longleftrightarrow> single_valued (set (rn_Requested n)) \<and> connNumbers (set (rn_Acked n))
     \<and> (\<forall>(q, key) \<in> set (rn_Requested n). unat q \<le> rn_Issued n) \<and> unat (ro_reqID (rn_Router n)) = rn_Issued n"

section \<open>The operations keep it\<close>

lemma routerRight_shard:
  "routerRight outcome R A S r \<Longrightarrow> (\<And>sh. shardRight R A sh \<Longrightarrow> shardRight R A (f sh)) \<Longrightarrow> routerRight outcome R A S (onShard i f r)"
  by (cases "i < length (ro_shards r)")
     (auto simp: routerRight_def onShard_def list_update_beyond dest!: set_update_subset_insert [THEN subsetD])

lemma routerRight_update:
  "routerRight outcome R A S r \<Longrightarrow> watchRight outcome S key w \<Longrightarrow>
     routerRight outcome R A S (r\<lparr>ro_watches := AList.update key w (ro_watches r)\<rparr>)"
  using set_alist_update [of key w "ro_watches r"] by (fastforce simp: routerRight_def)

lemma routerRight_watchD:
  "routerRight outcome R A S r \<Longrightarrow> map_of (ro_watches r) key = Some w \<Longrightarrow> watchRight outcome S key w"
  by (auto simp: routerRight_def dest!: map_of_SomeD)

lemma routerRight_watch:
  "routerRight outcome R A S r \<Longrightarrow> (\<And>w. watchRight outcome S key w \<Longrightarrow> watchRight outcome S key (f w)) \<Longrightarrow>
     routerRight outcome R A S (onWatch key f r)"
  unfolding onWatch_def by (auto split: option.splits intro!: routerRight_update dest: routerRight_watchD)

lemma routerRight_shardD: "routerRight outcome R A S r \<Longrightarrow> i < length (ro_shards r) \<Longrightarrow> shardRight R A (ro_shards r ! i)"
  by (simp add: routerRight_def)

lemma heard_mono: "heard outcome A key slot err \<Longrightarrow> A \<subseteq> A' \<Longrightarrow> heard outcome A' key slot err"
  unfolding heard_def by blast

lemma rightResult_mono: "rightResult (heard outcome A) key res \<Longrightarrow> A \<subseteq> A' \<Longrightarrow> rightResult (heard outcome A') key res"
  unfolding rightResult_def by (blast intro: heard_mono)

lemma watchRight_mono:
  "watchRight (heard outcome A) S key w \<Longrightarrow> A \<subseteq> A' \<Longrightarrow> S \<subseteq> S' \<Longrightarrow> watchRight (heard outcome A') S' key w"
  unfolding watchRight_def by (meson rightResult_mono subsetD)

lemma routerRight_mono:
  assumes "routerRight (heard outcome A) R A S r" "R \<subseteq> R'" "A \<subseteq> A'" "S \<subseteq> S'"
  shows "routerRight (heard outcome A') R' A' S' r"
proof -
  have "shardRight R A sh \<Longrightarrow> shardRight R' A' sh" for sh
    using assms(2,3) unfolding shardRight_def by fast
  then show ?thesis
    using assms(1) watchRight_mono [OF _ assms(3,4)] unfolding routerRight_def by blast
qed

lemma taskRight_mono: "taskRight outcome R A t \<Longrightarrow> R \<subseteq> R' \<Longrightarrow> A \<subseteq> A' \<Longrightarrow> taskRight outcome R' A' t"
  by (cases t) (auto intro: heard_mono rightResult_mono)

lemma routerRight_cong:
  "ro_shards r' = ro_shards r \<Longrightarrow> ro_watches r' = ro_watches r \<Longrightarrow> routerRight outcome R A S r' = routerRight outcome R A S r"
  by (simp add: routerRight_def)

lemma shard_changes:
  "shardRight R A sh \<Longrightarrow> shardRight R A (signal sh)"
  "shardRight R A (closeShard sh)" "shardRight R A (connect c sh)"
  "shardRight R A sh \<Longrightarrow> shardRight R A (dropSubscription s sh)"
  "shardRight R A sh \<Longrightarrow> shardRight R A (rs_wakeCh_update f sh)"
  "shardRight R A sh \<Longrightarrow> (q, key) \<in> R \<Longrightarrow> shardRight R A (registerRequest q key sh)"
  "shardRight R A sh \<Longrightarrow> (s, key) \<in> A \<Longrightarrow> shardRight R A (bindSubscription q s key sh)"
  by (auto simp: shardRight_def signal_def closeShard_def connect_def dropSubscription_def registerRequest_def
      bindSubscription_def split: if_splits)

lemma watch_numbers:
  "watchRight outcome S key (w\<lparr>sw_WSSubID := s, sw_PendingReqID := q\<rparr>) = watchRight outcome S key w"
  "watchRight outcome S key (w\<lparr>sw_PendingReqID := q, sw_ShardIndex := i\<rparr>) = watchRight outcome S key w"
  by (simp_all add: watchRight_def)

lemma addSubscriber_right:
  assumes "routerRight outcome R A S r" "(key, sub) \<in> S" "addSubscriber now key sub r = (r', tasks, cached)"
  shows "routerRight outcome R A S r'" "\<forall>t \<in> set tasks. taskRight raw R A t"
    "\<forall>res. cached = Some res \<longrightarrow> rightResult outcome key res"
proof -
  let ?w = "case map_of (ro_watches r) key of None \<Rightarrow> newWatch r key | Some w \<Rightarrow> w"
  have new: "watchRight outcome S key (newWatch r key)"
    by (simp add: newWatch_def watchRight_def)
  have w: "watchRight outcome S key ?w"
    using routerRight_watchD [OF assms(1), of key] new by (simp split: option.splits)
  have "watchRight outcome S key (?w\<lparr>sw_Subscribers := AList.update (sb_ID sub) sub (sw_Subscribers ?w)\<rparr>)"
    using w assms(2) set_alist_update [of "sb_ID sub" sub "sw_Subscribers ?w"] by (fastforce simp: watchRight_def)
  then show "routerRight outcome R A S r'"
    using routerRight_update [OF assms(1)] assms(3) by (auto simp: addSubscriber_def Let_def split: option.splits)
  show "\<forall>t \<in> set tasks. taskRight raw R A t"
    using assms(3) by (auto simp: addSubscriber_def Let_def split: option.splits)
  show "\<forall>res. cached = Some res \<longrightarrow> rightResult outcome key res"
    using assms(3) w by (auto simp: addSubscriber_def Let_def watchRight_def split: option.splits if_splits)
qed

lemma unsubscribe_right:
  assumes "routerRight outcome R A S r" "unsubscribe now key i r = (r', tasks)"
  shows "routerRight outcome R A S r'" "\<forall>t \<in> set tasks. taskRight raw R A t"
proof -
  have deleted: "routerRight outcome R A S (r\<lparr>ro_watches := AList.delete key (ro_watches r)\<rparr>)"
    using assms(1) by (auto simp: routerRight_def AList.delete_eq)
  have removed: "watchRight outcome S key w \<Longrightarrow> watchRight outcome S key (removeSubscriber j w)" for w j
    by (auto simp: watchRight_def removeSubscriber_def AList.delete_eq)
  have kept: "map_of (ro_watches r) key = Some w \<Longrightarrow> routerRight outcome R A S (onWatch key (\<lambda>_. removeSubscriber j w) r)"
    "map_of (ro_watches r) key = Some w \<Longrightarrow>
       routerRight outcome R A S (onWatch key (\<lambda>_. (removeSubscriber j w)\<lparr>sw_WSSubID := 0, sw_PendingReqID := 0\<rparr>) r)" for w j
    by (auto intro!: routerRight_watch [OF assms(1)] removed simp: watch_numbers dest: routerRight_watchD [OF assms(1)])
  show "routerRight outcome R A S r'"
    using assms(2) assms(1) deleted kept by (auto simp: unsubscribe_def Let_def split: option.splits if_splits)
  show "\<forall>t \<in> set tasks. taskRight raw R A t"
    using assms(2) by (auto simp: unsubscribe_def Let_def split: option.splits if_splits)
qed

lemma cacheAndDispatch_right:
  assumes "routerRight outcome R A S r" "rightResult outcome key res" "cacheAndDispatch now key res r = (r', subs)"
  shows "routerRight outcome R A S r'" "\<forall>sub \<in> set subs. (key, sub) \<in> S"
proof -
  have "watchRight outcome S key w \<Longrightarrow> watchRight outcome S key (cacheResult now res r w)" for w
    using assms(2) by (simp add: watchRight_def cacheResult_def)
  then show "routerRight outcome R A S r'"
    using assms routerRight_watch [OF assms(1)] by (auto simp: cacheAndDispatch_def split: option.splits)
  show "\<forall>sub \<in> set subs. (key, sub) \<in> S"
  proof (cases "map_of (ro_watches r) key")
    case None
    then show ?thesis using assms(3) by (simp add: cacheAndDispatch_def)
  next
    case (Some w)
    then show ?thesis using assms(3) routerRight_watchD [OF assms(1) Some] by (auto simp: cacheAndDispatch_def watchRight_def)
  qed
qed

lemma sweeps_right:
  assumes "routerRight outcome R A S r"
  shows "routerRight outcome R A S (cleanup now r)" "routerRight outcome R A S (resetShard i r)"
    "routerRight outcome R A S (fst (nextRequestID key i r))"
proof -
  show "routerRight outcome R A S (cleanup now r)"
    using assms by (auto simp: cleanup_def routerRight_def)
  show "routerRight outcome R A S (resetShard i r)"
    using assms by (fastforce simp: resetShard_def routerRight_def watch_numbers split: prod.splits)
  have "routerRight outcome R A S (r\<lparr>ro_reqID := ro_reqID r + 1\<rparr>)"
    using assms by (simp add: routerRight_def)
  then show "routerRight outcome R A S (fst (nextRequestID key i r))"
    by (simp add: nextRequestID_def Let_def routerRight_watch watch_numbers)
qed


section \<open>The steps keep it\<close>

lemmas net_fields = onRouter_def addTasks_def deliver_def setPhase_def

lemma messages_right:
  assumes "routerRight (heard outcome A) R A S r"
  shows "(q, key) \<in> R \<Longrightarrow> (s, key) \<in> A \<Longrightarrow> single_valued R \<Longrightarrow> \<forall>t \<in> set (onSubscribeAck i q s r). taskRight outcome R A t"
    "(s, key) \<in> A \<Longrightarrow> outcome key (wn_Slot notify) (errText notify) \<Longrightarrow>
       \<forall>t \<in> set (onNotification i s notify r). taskRight outcome R A t"
    "heard outcome A key (wn_Slot notify) (errText notify) \<Longrightarrow> \<forall>t \<in> set (resolveNotification key notify r). taskRight outcome R A t"
proof -
  show "\<forall>t \<in> set (onSubscribeAck i q s r). taskRight outcome R A t" if "(q, key) \<in> R" "(s, key) \<in> A" "single_valued R"
    using that routerRight_shardD [OF assms, of i]
    by (auto simp: onSubscribeAck_def shardRight_def not_le split: option.splits) (metis single_valuedD)
  show "\<forall>t \<in> set (onNotification i s notify r). taskRight outcome R A t"
    if "(s, key) \<in> A" "outcome key (wn_Slot notify) (errText notify)"
    using that routerRight_shardD [OF assms, of i]
    by (auto simp: onNotification_def shardRight_def heard_def not_le split: option.splits) blast
  show "\<forall>t \<in> set (resolveNotification key notify r). taskRight outcome R A t" if "heard outcome A key (wn_Slot notify) (errText notify)"
    using that routerRight_watchD [OF assms, of key]
    by (auto simp: resolveNotification_def watchRight_def rightResult_def split: option.splits)
qed

text \<open>A change of the router alone, with the tasks it leaves.\<close>

lemma netRight_router:
  assumes "netRight outcome n" "routerRight (heard outcome (assigned n)) (set (rn_Requested n)) (assigned n) (set (rn_Subscribed n)) (f (rn_Router n))"
    "\<forall>t \<in> set ts. taskRight outcome (set (rn_Requested n)) (assigned n) t"
  shows "netRight outcome (addTasks ts (onRouter f n))"
  using assms by (auto simp: netRight_def net_fields assigned_def)

lemma netRight_onRouter:
  "netRight outcome n \<Longrightarrow> routerRight (heard outcome (assigned n)) (set (rn_Requested n)) (assigned n) (set (rn_Subscribed n)) (f (rn_Router n)) \<Longrightarrow>
     netRight outcome (onRouter f n)"
  using netRight_router [of outcome n f "[]"] by (simp add: addTasks_def)

lemma netRight_addTasks:
  "netRight outcome n \<Longrightarrow> \<forall>t \<in> set ts. taskRight outcome (set (rn_Requested n)) (assigned n) t \<Longrightarrow> netRight outcome (addTasks ts n)"
  by (auto simp: netRight_def net_fields assigned_def)

lemma netRight_R: "netRight outcome n \<Longrightarrow> routerRight (heard outcome (assigned n)) (set (rn_Requested n)) (assigned n) (set (rn_Subscribed n)) (rn_Router n)"
  by (simp add: netRight_def)

lemma netRight_deliver:
  assumes "netRight outcome n" "\<forall>sub \<in> set subs. (key, sub) \<in> set (rn_Subscribed n)" "rightResult (heard outcome (assigned n)) key res"
  shows "netRight outcome (deliver full subs res n)"
  using assms by (fastforce simp: netRight_def net_fields assigned_def)

lemma netRight_draw:
  assumes "netRight outcome n"
  shows "netRight outcome (drawRequest i key n)"
proof -
  let ?r = "nextRequestID key i (rn_Router n)"
  let ?R = "insert (snd ?r, key) (set (rn_Requested n))"
  have "routerRight (heard outcome (assigned n)) ?R (assigned n) (set (rn_Subscribed n)) (fst ?r)"
    by (rule routerRight_mono [OF sweeps_right(3) [OF netRight_R [OF assms]]]) auto
  moreover have "taskRight outcome ?R (assigned n) t" if "t \<in> set (rn_Tasks n)" for t
    using assms that by (auto simp: netRight_def intro: taskRight_mono)
  ultimately show ?thesis
    using assms by (auto simp: drawRequest_def netRight_def net_fields assigned_def split: prod.splits)
qed

lemma assigned_simps:
  "assigned (n\<lparr>rn_Router := r\<rparr>) = assigned n" "assigned (n\<lparr>rn_Now := d\<rparr>) = assigned n"
  "assigned (n\<lparr>rn_Tasks := ts\<rparr>) = assigned n" "assigned (n\<lparr>rn_Subscribed := ss\<rparr>) = assigned n"
  "assigned (n\<lparr>rn_Acked := (c, q, s, key) # rn_Acked n\<rparr>) = insert (s, key) (assigned n)"
  by (simp_all add: assigned_def)

lemma netRight_remove: "netRight outcome n \<Longrightarrow> netRight outcome (n\<lparr>rn_Tasks := remove1 t (rn_Tasks n)\<rparr>)"
  by (auto simp: netRight_def assigned_def dest: set_remove1_subset [THEN subsetD])

lemma netRight_perform:
  assumes "netRight outcome n" "taskRight outcome (set (rn_Requested n)) (assigned n) t"
    "single_valued (set (rn_Requested n))"
  shows "netRight outcome (perform fails full t n)"
proof (cases t)
  case (RegisterRequest i q key)
  then have "(q, key) \<in> set (rn_Requested n)" using assms(2) by simp
  then show ?thesis
    using RegisterRequest assms(1) by (auto intro!: netRight_router routerRight_shard netRight_R shard_changes)
next
  case (WriteSubscribe i q key)
  then have "(q, key) \<in> set (rn_Requested n)" using assms(2) by simp
  then show ?thesis
    using WriteSubscribe assms(1) by (auto simp: writeSubscribe_def netRight_def assigned_def split: option.splits)
next
  case (SendUnsubscribe i s)
  let ?n = "onRouter (\<lambda>r. onShard i (dropSubscription s) (r\<lparr>ro_reqID := ro_reqID r + 1\<rparr>)) n"
  have "routerRight (heard outcome (assigned n)) (set (rn_Requested n)) (assigned n) (set (rn_Subscribed n)) ((rn_Router n)\<lparr>ro_reqID := ro_reqID (rn_Router n) + 1\<rparr>)"
    using netRight_R [OF assms(1)] by (simp add: routerRight_def)
  then have "netRight outcome ?n"
    by (intro netRight_onRouter assms(1) routerRight_shard shard_changes)
  then have "netRight outcome (?n\<lparr>rn_Issued := m\<rparr>)" for m
    by (simp add: netRight_def assigned_def)
  then show ?thesis using SendUnsubscribe assms(1) by (simp add: sendUnsubscribe_def)
next
  case (HandleAck i q s)
  then show ?thesis using assms(2,3) messages_right(1) [OF netRight_R [OF assms(1)]] by (auto intro!: netRight_addTasks assms(1))
next
  case (BindAck i q s key)
  then have "(s, key) \<in> assigned n" using assms(2) by simp
  then show ?thesis
    using BindAck assms(1)
    by (auto simp: bindAck_def watch_numbers intro!: netRight_onRouter routerRight_watch routerRight_shard shard_changes netRight_R)
next
  case (HandleNotification i s notify)
  then show ?thesis using assms(2) messages_right(2) [OF netRight_R [OF assms(1)]] by (auto intro!: netRight_addTasks assms(1))
next
  case (ResolveNotification key notify)
  then show ?thesis using assms(2) messages_right(3) [OF netRight_R [OF assms(1)]] by (auto intro!: netRight_addTasks assms(1))
next
  case (CacheAndDispatch key res)
  obtain r subs where eq: "cacheAndDispatch (rn_Now n) key res (rn_Router n) = (r, subs)" by force
  have res: "rightResult (heard outcome (assigned n)) key res" using CacheAndDispatch assms(2) by simp
  note step = cacheAndDispatch_right [OF netRight_R [OF assms(1)] res eq]
  have "netRight outcome (n\<lparr>rn_Router := r\<rparr>)"
    using netRight_onRouter [OF assms(1), of "\<lambda>_. r"] step(1) by (simp add: onRouter_def)
  then show ?thesis
    using CacheAndDispatch eq step(2) res by (auto intro!: netRight_deliver simp: assigned_simps)
qed (use assms(1) in \<open>auto intro!: netRight_draw netRight_onRouter netRight_addTasks routerRight_shard shard_changes netRight_R\<close>)

lemma netRight_run:
  assumes "netRight outcome n" "runShard i ok n = Some n'"
  shows "netRight outcome n'"
proof -
  have same: "netRight outcome (setPhase i p m) = netRight outcome m"
    "netRight outcome (m\<lparr>rn_Conns := c\<rparr>) = netRight outcome m" for p m c
    by (simp_all add: netRight_def net_fields assigned_def)
  show ?thesis
    using assms by (auto simp: runShard_def same split: shardPhase.splits if_splits
      intro!: netRight_onRouter netRight_addTasks routerRight_shard shard_changes sweeps_right netRight_R)
qed

lemma netRight_joined:
  assumes "netRight outcome n"
    "routerRight (heard outcome (assigned n)) (set (rn_Requested n)) (assigned n) (insert (key, sub) (set (rn_Subscribed n))) r"
    "\<forall>t \<in> set ts. taskRight outcome (set (rn_Requested n)) (assigned n) t"
  shows "netRight outcome (addTasks ts (n\<lparr>rn_Router := r, rn_Subscribed := (key, sub) # rn_Subscribed n\<rparr>))"
  using assms unfolding netRight_def addTasks_def by (simp add: assigned_simps) blast

lemma netRight_subscribe:
  assumes "netRight outcome n"
  shows "netRight outcome (subscribeStep signature subscriberID kind commitment ch stamp full n)"
proof (cases "SubscribeSignature (rn_Now n) stamp signature subscriberID kind commitment ch (rn_Router n)")
  case (Inl e)
  then show ?thesis using assms by (simp add: subscribeStep_def)
next
  case (Inr out)
  obtain key sub r tasks cached where out: "out = (key, sub, r, tasks, cached)" by (cases out) auto
  then have add: "addSubscriber (rn_Now n) key sub (rn_Router n) = (r, tasks, cached)"
    using Inr by (auto simp: SubscribeSignature_def Let_def split: if_splits)
  have "routerRight (heard outcome (assigned n)) (set (rn_Requested n)) (assigned n) (insert (key, sub) (set (rn_Subscribed n))) (rn_Router n)"
    by (rule routerRight_mono [OF netRight_R [OF assms]]) auto
  note right = addSubscriber_right [OF this _ add]
  let ?n = "addTasks tasks (n\<lparr>rn_Router := r, rn_Subscribed := (key, sub) # rn_Subscribed n\<rparr>)"
  have net: "netRight outcome ?n"
    using right(1,2) by (intro netRight_joined [OF assms]) simp_all
  have "netRight outcome (deliver full [sub] res ?n)" if "cached = Some res" for res
    by (rule netRight_deliver [OF net]) (use right(3) that in \<open>auto simp: addTasks_def assigned_simps\<close>)
  then show ?thesis
    using net by (simp add: subscribeStep_def Inr out Let_def split: option.split)
qed

lemma netRight_receive:
  assumes "netRight outcome n" "receive outcome i message n = Some n'"
  shows "netRight outcome n'"
proof -
  obtain conn where sends: "nodeSends outcome conn message n" and n': "n' = addTasks (readMessage message) n"
    using assms(2) by (auto simp: receive_def split: shardPhase.splits if_splits)
  have acked: "(q, key) \<in> set (rn_Requested n) \<and> (s, key) \<in> assigned n" if "(c, q, s, key) \<in> set (rn_Acked n)" for c q s key
  proof
    have "\<forall>(c, q, s, key) \<in> set (rn_Acked n). (q, key) \<in> set (rn_Requested n)" using assms(1) by (simp add: netRight_def)
    then show "(q, key) \<in> set (rn_Requested n)" using that by blast
    show "(s, key) \<in> assigned n" using that unfolding assigned_def by (rule rev_image_eqI) simp
  qed
  have "taskRight outcome (set (rn_Requested n)) (assigned n) t" if t: "t \<in> set (readMessage message)" for t
  proof -
    obtain resp where resp: "message = Some resp" using t by (cases message) (auto simp: readMessage_def)
    show ?thesis
    proof (cases "wr_ID resp")
      case (Some q)
      then obtain s where "t = HandleAck 0 q s" "\<not> wr_Error resp" "wr_Result resp = Some s"
        using t by (cases "wr_Result resp") (auto simp: readMessage_def resp split: if_splits)
      moreover from this Some obtain key where "(conn, q, s, key) \<in> set (rn_Acked n)"
        using sends by (auto simp: nodeSends_def resp list_ex_iff)
      ultimately show ?thesis using acked [of conn q s key] by auto
    next
      case None
      then obtain s notify where "t = HandleNotification 0 s notify" "wr_Params resp = Some (s, notify)"
        using t by (cases "wr_Params resp") (auto simp: readMessage_def resp)
      moreover from this None obtain q key where "(conn, q, s, key) \<in> set (rn_Acked n)" "outcome key (wn_Slot notify) (errText notify)"
        using sends by (auto simp: nodeSends_def resp list_ex_iff)
      ultimately show ?thesis using acked [of conn q s key] by auto
    qed
  qed
  then have "\<forall>t \<in> set (readMessage message). taskRight outcome (set (rn_Requested n)) (assigned n) t" by blast
  then show ?thesis unfolding n' by (rule netRight_addTasks [OF assms(1)])
qed

lemma netRight_acks:
  assumes "netRight outcome n" "(conn, q, key) \<in> set (rn_Sent n)"
  shows "netRight outcome (n\<lparr>rn_Acked := (conn, q, s, key) # rn_Acked n\<rparr>)"
proof -
  have "routerRight (heard outcome (insert (s, key) (assigned n))) (set (rn_Requested n)) (insert (s, key) (assigned n)) (set (rn_Subscribed n)) (rn_Router n)"
    by (rule routerRight_mono [OF netRight_R [OF assms(1)]]) auto
  moreover have "taskRight outcome (set (rn_Requested n)) (insert (s, key) (assigned n)) t" if "t \<in> set (rn_Tasks n)" for t
    by (rule taskRight_mono [of _ _ "assigned n"]) (use assms(1) that in \<open>auto simp: netRight_def\<close>)
  moreover have "\<exists>k. (k, sub) \<in> set (rn_Subscribed n) \<and> rightResult (heard outcome (insert (s, key) (assigned n))) k res"
    if delivered: "(sub, res) \<in> set (rn_Delivered n)" for sub res
  proof -
    obtain k where k: "(k, sub) \<in> set (rn_Subscribed n)" "rightResult (heard outcome (assigned n)) k res"
      using assms(1) delivered unfolding netRight_def by blast
    show ?thesis using k(1) rightResult_mono [OF k(2) subset_insertI] by blast
  qed
  moreover have "\<forall>(c, q, key) \<in> set (rn_Sent n). (q, key) \<in> set (rn_Requested n)"
    "\<forall>(c, q, s, key) \<in> set (rn_Acked n). (q, key) \<in> set (rn_Requested n)"
    using assms(1) by (simp_all add: netRight_def)
  ultimately show ?thesis
    using assms(2) unfolding netRight_def by (auto simp: assigned_simps)
qed

lemma netRight_fire:
  assumes "netRight outcome n" "single_valued (set (rn_Requested n))" "fire outcome e n = Some n'"
  shows "netRight outcome n'"
proof (cases e)
  case (Subscribe signature i kind commitment ch stamp full)
  then show ?thesis using assms(3) netRight_subscribe [OF assms(1)] by auto
next
  case (Unsubscribe key i)
  obtain r ts where eq: "unsubscribe (rn_Now n) key i (rn_Router n) = (r, ts)" by force
  then show ?thesis
    using Unsubscribe assms netRight_router [OF assms(1), of "\<lambda>_. r" ts] unsubscribe_right [OF netRight_R [OF assms(1)] eq]
    by (auto simp: onRouter_def)
next
  case CloseAll
  obtain r ts where eq: "closeRouter (rn_Router n) = (r, ts)" by force
  then have "routerRight (heard outcome (assigned n)) (set (rn_Requested n)) (assigned n) (set (rn_Subscribed n)) r"
    "\<forall>t \<in> set ts. taskRight outcome (set (rn_Requested n)) (assigned n) t"
    using netRight_R [OF assms(1)] by (auto simp: closeRouter_def routerRight_def split: if_splits)
  then show ?thesis
    using CloseAll eq assms netRight_router [OF assms(1), of "\<lambda>_. r" ts] by (auto simp: onRouter_def)
next
  case CleanupTick
  then show ?thesis
    using assms(3) netRight_onRouter [where f = "cleanup (rn_Now n)", OF assms(1) sweeps_right(1) [OF netRight_R [OF assms(1)]]]
    by (auto split: if_splits)
next
  case (Elapse d)
  then show ?thesis using assms(1,3) by (auto simp: netRight_def assigned_simps)
next
  case (Perform t fails full)
  then have n': "n' = perform fails full t (n\<lparr>rn_Tasks := remove1 t (rn_Tasks n)\<rparr>)" and t: "t \<in> set (rn_Tasks n)"
    using assms(3) by (auto split: if_splits)
  have "taskRight outcome (set (rn_Requested n)) (assigned n) t" using assms(1) t by (simp add: netRight_def)
  then show ?thesis
    unfolding n' using assms(2) by (intro netRight_perform netRight_remove assms(1)) (simp_all add: assigned_simps)
next
  case (RunShard i ok)
  then show ?thesis using assms(3) netRight_run [OF assms(1)] by (auto split: if_splits)
next
  case (NodeAcks conn q s key)
  then show ?thesis using assms(3) netRight_acks [OF assms(1)] by (auto simp: nodeAcks_def split: if_splits)
next
  case (Receive i message)
  then show ?thesis using assms(3) netRight_receive [OF assms(1)] by (auto split: if_splits)
qed

section \<open>The numbers name one key each\<close>

text \<open>A step either draws a request id or leaves the ids alone, and only the node's answers assign numbers.\<close>

lemma reqID_frame [simp]:
  "ro_reqID (onShard i f r) = ro_reqID r" "ro_reqID (onWatch key g r) = ro_reqID r" "ro_reqID (cleanup now r) = ro_reqID r"
  "ro_reqID (resetShard i r) = ro_reqID r" "ro_reqID (bindAck i q s key r) = ro_reqID r"
  by (simp_all add: onShard_def onWatch_def cleanup_def resetShard_def bindAck_def split: option.split)

lemma reqID_calls:
  "addSubscriber now key sub r = (r', ts, cached) \<Longrightarrow> ro_reqID r' = ro_reqID r"
  "unsubscribe now key i r = (r', us) \<Longrightarrow> ro_reqID r' = ro_reqID r"
  "closeRouter r = (r', us) \<Longrightarrow> ro_reqID r' = ro_reqID r"
  "cacheAndDispatch now key res r = (r', subs) \<Longrightarrow> ro_reqID r' = ro_reqID r"
  by (auto simp: addSubscriber_def unsubscribe_def closeRouter_def cacheAndDispatch_def Let_def split: option.splits if_splits)

definition quiet :: "routerNet \<Rightarrow> routerNet \<Rightarrow> bool" where
  "quiet n n' \<longleftrightarrow> ro_reqID (rn_Router n') = ro_reqID (rn_Router n) \<and> rn_Issued n' = rn_Issued n
     \<and> rn_Requested n' = rn_Requested n \<and> rn_Acked n' = rn_Acked n"

lemma quiet_numbered: "quiet n n' \<Longrightarrow> numbered n \<Longrightarrow> numbered n'"
  by (simp add: quiet_def numbered_def assigned_def)

lemma draw_issued: "rn_Issued (drawRequest i key n) = Suc (rn_Issued n)"
  by (simp add: drawRequest_def net_fields split: prod.split)

lemma numbered_draw:
  assumes "numbered n" "Suc (rn_Issued n) < 2 ^ 64"
  shows "numbered (drawRequest i key n)"
proof -
  let ?q = "ro_reqID (rn_Router n) + 1"
  have q: "unat ?q = Suc (rn_Issued n)"
    using assms by (simp add: numbered_def unat_add_lt)
  have fresh: "(?q, k) \<notin> set (rn_Requested n)" for k
    using assms(1) q by (fastforce simp: numbered_def)
  have "single_valued (insert (?q, key) (set (rn_Requested n)))"
    using assms(1) fresh unfolding numbered_def single_valued_def by blast
  then show ?thesis
    using assms(1) q by (auto simp: numbered_def drawRequest_def nextRequestID_def net_fields assigned_def Let_def)
qed

lemma numbered_acks:
  assumes "numbered n" "nodeAcks conn q s key n = Some n'"
  shows "numbered n'"
proof -
  have n': "n' = n\<lparr>rn_Acked := (conn, q, s, key) # rn_Acked n\<rparr>" and fresh: "\<forall>q' k. (conn, q', s, k) \<notin> set (rn_Acked n)"
    using assms(2) by (fastforce simp: nodeAcks_def list_all_iff split: if_splits)+
  then have "connNumbers (set (rn_Acked n'))"
    using assms(1) unfolding numbered_def connNumbers_def by auto
  then show ?thesis using assms(1) n' by (simp add: numbered_def)
qed

lemma perform_counts:
  "quiet n (perform fails full t n) \<or> (\<exists>i key. perform fails full t n = drawRequest i key n)
     \<or> (ro_reqID (rn_Router (perform fails full t n)) = ro_reqID (rn_Router n) + 1 \<and> rn_Issued (perform fails full t n) = Suc (rn_Issued n)
        \<and> rn_Requested (perform fails full t n) = rn_Requested n \<and> rn_Acked (perform fails full t n) = rn_Acked n)"
proof (cases t)
  case (CacheAndDispatch key res)
  obtain r subs where eq: "cacheAndDispatch (rn_Now n) key res (rn_Router n) = (r, subs)" by force
  then show ?thesis using CacheAndDispatch reqID_calls(4) [OF eq] by (simp add: quiet_def net_fields)
qed (auto simp: quiet_def net_fields writeSubscribe_def sendUnsubscribe_def split: option.split)

lemma numbered_perform:
  assumes "numbered n" "rn_Issued (perform fails full t n) < 2 ^ 64"
  shows "numbered (perform fails full t n)"
  using perform_counts [of n fails full t]
proof (elim disjE exE conjE)
  assume "quiet n (perform fails full t n)"
  then show ?thesis using assms(1) by (rule quiet_numbered)
next
  fix i key assume eq: "perform fails full t n = drawRequest i key n"
  then have "rn_Issued (perform fails full t n) = Suc (rn_Issued n)" by (simp add: draw_issued)
  then show ?thesis using numbered_draw [OF assms(1), of i key] assms(2) eq by simp
next
  assume eq: "ro_reqID (rn_Router (perform fails full t n)) = ro_reqID (rn_Router n) + 1"
    "rn_Issued (perform fails full t n) = Suc (rn_Issued n)"
    "rn_Requested (perform fails full t n) = rn_Requested n" "rn_Acked (perform fails full t n) = rn_Acked n"
  then have "unat (ro_reqID (rn_Router n) + 1) = Suc (rn_Issued n)"
    using assms by (simp add: numbered_def unat_add_lt)
  then show ?thesis using assms(1) eq by (auto simp: numbered_def assigned_def)
qed

lemma quiet_run: "runShard i ok n = Some n' \<Longrightarrow> quiet n n'"
  by (auto simp: runShard_def quiet_def net_fields split: shardPhase.splits if_splits)

lemma quiet_subscribe: "quiet n (subscribeStep signature i kind commitment ch stamp full n)"
proof (cases "SubscribeSignature (rn_Now n) stamp signature i kind commitment ch (rn_Router n)")
  case (Inr out)
  obtain key sub r tasks cached where out: "out = (key, sub, r, tasks, cached)" by (cases out) auto
  then have "addSubscriber (rn_Now n) key sub (rn_Router n) = (r, tasks, cached)"
    using Inr by (auto simp: SubscribeSignature_def Let_def split: if_splits)
  from reqID_calls(1) [OF this] show ?thesis
    by (simp add: quiet_def subscribeStep_def Inr out Let_def net_fields split: option.split)
qed (simp add: quiet_def subscribeStep_def)

lemma fire_issued: "fire outcome e n = Some n' \<Longrightarrow> rn_Issued n \<le> rn_Issued n'"
proof (cases e)
  case (Perform t fails full)
  assume "fire outcome e n = Some n'"
  then show ?thesis
    using Perform perform_counts [of "n\<lparr>rn_Tasks := remove1 t (rn_Tasks n)\<rparr>" fails full t]
    by (auto simp: quiet_def draw_issued split: if_splits)
next
  case (RunShard i ok)
  assume "fire outcome e n = Some n'"
  then show ?thesis using RunShard quiet_run [of i ok n n'] by (auto simp: quiet_def split: if_splits)
next
  case (Subscribe signature i kind commitment ch stamp full)
  assume "fire outcome e n = Some n'"
  then show ?thesis using Subscribe quiet_subscribe [of n signature i kind commitment ch stamp full] by (auto simp: quiet_def)
qed (auto simp: net_fields nodeAcks_def receive_def split: if_splits prod.splits shardPhase.splits)

lemma numbered_fire:
  assumes "numbered n" "fire outcome e n = Some n'" "rn_Issued n' < 2 ^ 64"
  shows "numbered n'"
proof (cases e)
  case (Perform t fails full)
  have "numbered (n\<lparr>rn_Tasks := remove1 t (rn_Tasks n)\<rparr>)" using assms(1) by (simp add: numbered_def assigned_simps)
  then show ?thesis using Perform assms(2,3) numbered_perform by (auto split: if_splits)
next
  case (RunShard i ok)
  then show ?thesis using assms quiet_numbered [OF quiet_run] by (auto split: if_splits)
next
  case (Subscribe signature i kind commitment ch stamp full)
  then show ?thesis using assms quiet_numbered [OF quiet_subscribe] by auto
next
  case (NodeAcks conn q s key)
  then show ?thesis using assms numbered_acks by auto
qed (use assms in \<open>auto intro!: quiet_numbered [OF _ assms(1)] simp: quiet_def net_fields receive_def
  split: if_splits prod.splits shardPhase.splits dest: reqID_calls\<close>)

lemma run_right:
  assumes "routerRun outcome es n = Some n'" "rn_Issued n' < 2 ^ 64" "netRight outcome n" "numbered n"
  shows "netRight outcome n' \<and> numbered n'"
  using assms
proof (induction es arbitrary: n)
  case Nil
  then show ?case by simp
next
  case (Cons e es)
  have grows: "routerRun outcome es m = Some n' \<Longrightarrow> rn_Issued m \<le> rn_Issued n'" for m es
    by (induction es arbitrary: m) (auto split: option.splits dest: fire_issued order_trans)
  obtain m where m: "fire outcome e n = Some m" and rest: "routerRun outcome es m = Some n'"
    using Cons.prems(1) by (auto split: option.splits)
  have "rn_Issued m < 2 ^ 64" using grows [OF rest] Cons.prems(2) by simp
  then have "numbered m" by (rule numbered_fire [OF Cons.prems(4) m])
  moreover have "netRight outcome m"
    using netRight_fire [OF Cons.prems(3) _ m] Cons.prems(4) by (simp add: numbered_def)
  ultimately show ?case using Cons.IH [OF rest Cons.prems(2)] by blast
qed

lemma start_right:
  assumes "NewRouter ttl ws rpc shards = Some r"
  shows "netRight outcome (routerStart r)" "numbered (routerStart r)"
  using assms by (auto simp: NewRouter_def routerStart_def netRight_def numbered_def connNumbers_def assigned_def routerRight_def
      shardRight_def newShard_def split: if_splits)

end
