(* ===== verification/RouterProps.thy ===== *)
theory RouterProps
  imports RouterLaws
begin

text \<open>
  What the router of signature subscriptions guarantees, on runs that the model computes: a subscriber is sent
  nothing but outcomes of a signature it asked for, unless the node gives two connections the same number;
  when two connections of the router are answered with the same number, a subscriber of one is sent the outcome of the
  other; and a subscriber that joins a watch whose cached result is stale is not served.
\<close>

section \<open>Runs\<close>

definition demoKey :: "string \<Rightarrow> subscriptionKey" where
  "demoKey signature = \<lparr>sk_Signature = signature, sk_Commitment = ''confirmed''\<rparr>"

definition demoOutcome :: chainOutcome where
  "demoOutcome key slot err \<longleftrightarrow> sk_Signature key = ''A'' \<and> slot = 7 \<and> err = [] \<or> sk_Signature key = ''B'' \<and> slot = 9 \<and> err = ''custom''"

definition demoRouter :: "int \<Rightarrow> Router" where
  "demoRouter shards = the (NewRouter 60 ''wss://node'' [] shards)"

lemma demo_router: "NewRouter 60 ''wss://node'' [] shards = Some (demoRouter shards)"
proof -
  have "deriveWSURL (TrimSpace ''wss://node'') (TrimSpace []) \<noteq> []" by code_simp
  then show ?thesis by (simp add: demoRouter_def NewRouter_def)
qed

text \<open>
  A signature is subscribed on the shard \<open>i\<close>, which dials as connection \<open>c\<close>, sends the request \<open>q\<close> and resubscribes
  with the request \<open>q'\<close>; the node answers the first with the number \<open>s\<close>.
\<close>

definition subscribed :: "string \<Rightarrow> nat \<Rightarrow> nat \<Rightarrow> u64 \<Rightarrow> u64 \<Rightarrow> u64 \<Rightarrow> routerEvent list" where
  "subscribed signature i c q q' s = [
     Subscribe signature ''x'' ''deposit'' ''confirmed'' i ''0'' [],
     RunShard i True, RunShard i True,
     Perform (SendSubscribe i (demoKey signature)) False [], Perform (RegisterRequest i q (demoKey signature)) False [],
     Perform (WriteSubscribe i q (demoKey signature)) False [], Perform (SignalShard i) False [],
     RunShard i True,
     Perform (SendSubscribe i (demoKey signature)) False [], Perform (RegisterRequest i q' (demoKey signature)) False [],
     Perform (WriteSubscribe i q' (demoKey signature)) False [],
     NodeAcks c q s (demoKey signature),
     Receive i (Some \<lparr>wr_ID = Some q, wr_Result = Some s, wr_Error = False, wr_Params = None\<rparr>),
     Perform (HandleAck 0 q s) False []]"

text \<open>The node reports on the number \<open>s\<close>, and the shard \<open>j\<close> takes it for the signature.\<close>

definition notified :: "nat \<Rightarrow> u64 \<Rightarrow> u64 \<Rightarrow> string option \<Rightarrow> string \<Rightarrow> routerEvent list" where
  "notified i s slot err signature = (let notify = \<lparr>wn_Slot = slot, wn_Err = err\<rparr> in [
     Receive i (Some \<lparr>wr_ID = None, wr_Result = None, wr_Error = False, wr_Params = Some (s, notify)\<rparr>),
     Perform (HandleNotification 0 s notify) False [],
     Perform (ResolveNotification (demoKey signature) notify) False [],
     Perform (CacheAndDispatch (demoKey signature) \<lparr>sr_Signature = signature, sr_Slot = slot,
       sr_ConfirmationStatus = ''confirmed'', sr_ErrText = errText notify\<rparr>) False []])"

definition servedRun :: "routerEvent list" where
  "servedRun = subscribed ''A'' 0 0 1 2 5 @ [Perform (BindAck 0 1 5 (demoKey ''A'')) False []] @ notified 0 5 7 None ''A''"

definition collidingRun :: "routerEvent list" where
  "collidingRun = subscribed ''A'' 0 0 1 2 5 @ [Perform (BindAck 0 1 5 (demoKey ''A'')) False []]
     @ subscribed ''B'' 1 1 3 4 5 @ [Perform (HandleAck 1 3 5) False [], Perform (BindAck 1 3 5 (demoKey ''B'')) False []]
     @ notified 1 5 9 (Some ''custom'') ''A''"

text \<open>After the result the subscriber leaves, the shard closes and sleeps, the cached result expires, another joins.\<close>

definition staleRun :: "routerEvent list" where
  "staleRun = servedRun @ [Unsubscribe (demoKey ''A'') ''x'', Perform (SignalShard 0) False [],
     Perform (CloseIfIdle 0) False [], Perform (CloseShard 0) False []]
     @ replicate 5 (RunShard 0 True) @ [Elapse 61, Subscribe ''A'' ''y'' ''deposit'' ''confirmed'' 1 ''0'' []]"

abbreviation demoSubscriber :: signatureSubscriber where
  "demoSubscriber \<equiv> \<lparr>sb_ID = ''x'', sb_Kind = ''deposit'', sb_Ch = 0\<rparr>"

abbreviation demoOutcomeOf :: "u64 \<Rightarrow> string \<Rightarrow> SignatureResult" where
  "demoOutcomeOf slot err \<equiv> \<lparr>sr_Signature = ''A'', sr_Slot = slot, sr_ConfirmationStatus = ''confirmed'', sr_ErrText = err\<rparr>"

lemma served_run:
  "map_option (\<lambda>n. (rn_Delivered n, rn_Issued n, rn_Acked n)) (routerRun demoOutcome servedRun (routerStart (demoRouter 1)))
     = Some ([(demoSubscriber, demoOutcomeOf 7 [])], 2, [(0, 1, 5, demoKey ''A'')])"
  by code_simp

lemma colliding_run:
  "map_option rn_Delivered (routerRun demoOutcome collidingRun (routerStart (demoRouter 2)))
     = Some [(demoSubscriber, demoOutcomeOf 9 ''custom'')]"
  by code_simp

lemma stale_run:
  "map_option (\<lambda>n. (shardHasActiveSubscribers 0 (rn_Router n), rn_Tasks n, rn_Phase n 0, rs_wakeCh (ro_shards (rn_Router n) ! 0)))
     (routerRun demoOutcome staleRun (routerStart (demoRouter 1))) = Some (True, [], Blocked, False)"
  by code_simp

section \<open>Properties\<close>

text \<open>C22: results reach the subscribers they belong to.  However callers, shards, reconnections, answers and
  notifications interleave, every result that is sent to a subscriber names a signature and commitment that this
  subscriber asked for, and is an outcome the node reported for them, unless the node gave a subscription of them and
  a subscription of something else the same number on two different connections, and reported it for the other.
  Assumed: fewer than 2^64 requests have been drawn.\<close>
theorem results_reach_their_subscribers:
  assumes "NewRouter ttl wsURL rpcURL shardCount = Some r" "routerRun outcome events (routerStart r) = Some n"
    "rn_Issued n < 2 ^ 64" "(sub, res) \<in> set (rn_Delivered n)"
  shows "\<exists>key. (key, sub) \<in> set (rn_Subscribed n) \<and> sr_Signature res = sk_Signature key \<and> sr_ConfirmationStatus res = sk_Commitment key
    \<and> (outcome key (sr_Slot res) (sr_ErrText res)
       \<or> (\<exists>key' c c' q q' s. key' \<noteq> key \<and> c' \<noteq> c \<and> (c, q, s, key) \<in> set (rn_Acked n) \<and> (c', q', s, key') \<in> set (rn_Acked n)
            \<and> outcome key' (sr_Slot res) (sr_ErrText res)))"
proof -
  have net: "netRight outcome n" and num: "connNumbers (set (rn_Acked n))"
    using run_right [OF assms(2,3) start_right [OF assms(1)]] by (simp_all add: numbered_def)
  obtain key where key: "(key, sub) \<in> set (rn_Subscribed n)" "rightResult (heard outcome (assigned n)) key res"
    using net assms(4) unfolding netRight_def by blast
  then obtain s key' where "(s, key) \<in> assigned n" "(s, key') \<in> assigned n" and out: "outcome key' (sr_Slot res) (sr_ErrText res)"
    by (auto simp: rightResult_def heard_def)
  then obtain c q c' q' where acked: "(c, q, s, key) \<in> set (rn_Acked n)" "(c', q', s, key') \<in> set (rn_Acked n)"
    by (auto simp: assigned_def)
  then have "key' = key \<or> key' \<noteq> key \<and> c' \<noteq> c"
    using num unfolding connNumbers_def by blast
  then show ?thesis using key acked out unfolding rightResult_def by blast
qed

theorem results_reach_their_subscribers_witness:
  "\<exists>n key. routerRun demoOutcome servedRun (routerStart (demoRouter 1)) = Some n
     \<and> (key, demoSubscriber) \<in> set (rn_Subscribed n) \<and> sk_Signature key = ''A'' \<and> demoOutcome key 7 []"
proof -
  obtain n where run: "routerRun demoOutcome servedRun (routerStart (demoRouter 1)) = Some n"
    and n: "rn_Delivered n = [(demoSubscriber, demoOutcomeOf 7 [])]" "rn_Issued n = 2" "rn_Acked n = [(0, 1, 5, demoKey ''A'')]"
    using served_run by auto
  have "rn_Issued n < 2 ^ 64" "(demoSubscriber, demoOutcomeOf 7 []) \<in> set (rn_Delivered n)" using n by simp_all
  from results_reach_their_subscribers [OF demo_router run this] show ?thesis using run n(3) by auto
qed

text \<open>
  The exception is real: \<open>onNotification\<close> asks the shards in turn for the number, whichever
  connection the notification came on, so that the subscriber of \<open>A\<close> is sent the failure of \<open>B\<close>.
\<close>

theorem colliding_numbers_misroute:
  "\<exists>n sub res. routerRun demoOutcome collidingRun (routerStart (demoRouter 2)) = Some n
     \<and> (sub, res) \<in> set (rn_Delivered n) \<and> sr_Signature res = ''A'' \<and> \<not> demoOutcome (demoKey ''A'') (sr_Slot res) (sr_ErrText res)"
proof -
  obtain n where n: "routerRun demoOutcome collidingRun (routerStart (demoRouter 2)) = Some n"
    "rn_Delivered n = [(demoSubscriber, demoOutcomeOf 9 ''custom'')]"
    using colliding_run by auto
  moreover have "\<not> demoOutcome (demoKey ''A'') 9 ''custom''" by (simp add: demoOutcome_def demoKey_def)
  ultimately show ?thesis by (metis SignatureResult.select_convs(1,2,4) list.set_intros(1))
qed

text \<open>
  A watch survives the last subscriber while its result is cached, and until the next clean-up after that.  A
  subscriber that joins it then is neither sent the result nor subscribed again: the shard sleeps with nothing to do
  and no message can come.
\<close>

theorem stale_watch_strands_subscriber:
  "\<exists>n. routerRun demoOutcome staleRun (routerStart (demoRouter 1)) = Some n \<and> shardHasActiveSubscribers 0 (rn_Router n)
     \<and> rn_Tasks n = [] \<and> (\<forall>ok. fire demoOutcome (RunShard 0 ok) n = None) \<and> (\<forall>m. fire demoOutcome (Receive 0 m) n = None)"
proof -
  obtain n where n: "routerRun demoOutcome staleRun (routerStart (demoRouter 1)) = Some n"
    "shardHasActiveSubscribers 0 (rn_Router n)" "rn_Tasks n = []" "rn_Phase n 0 = Blocked" "\<not> rs_wakeCh (ro_shards (rn_Router n) ! 0)"
    using stale_run by auto
  then show ?thesis by (intro exI [of _ n]) (simp add: runShard_def receive_def)
qed

end
