(* ===== verification/Auth.thy ===== *)
theory Auth
  imports Gateway
begin

text \<open>
  Sessions and websocket tickets: \<open>auth/auth.go\<close> (challenges, login, session tokens, the middleware and the guards
  of the routes), \<open>pusher/ticket_store.go\<close>, and their handlers in \<open>http/server.go\<close>.

  A time is its count of nanoseconds since 1970; every \<open>time.Now\<close> is an argument.  HMAC-SHA256, the JSON form of
  the claims and the RFC 3339 form of a time are the fields of \<open>SessionLib\<close>; base-58 keys and Ed25519 those of the
  gateway's environment.  Redis answers and the generators of identifiers are arguments.
\<close>

section \<open>Data\<close>

fun SplitChar :: "char \<Rightarrow> string \<Rightarrow> string list" where
  "SplitChar c [] = [[]]"
| "SplitChar c (x # xs) = (if x = c then [] # SplitChar c xs
     else case SplitChar c xs of [] \<Rightarrow> [[x]] | p # ps \<Rightarrow> (x # p) # ps)"

record User =
  us_Subject :: string
  us_Email :: string
  us_SolanaAddress :: string
  us_IsAdmin :: bool

record sessionClaims =
  sc_Subject :: string
  sc_SolanaAddress :: string
  sc_IssuedAt :: int
  sc_ExpiresAt :: int

record Challenge =
  ch_ID :: string
  ch_Message :: string
  ch_ExpiresAt :: int

record storedChallenge =
  st_Challenge :: Challenge
  st_WalletAddress :: string

record AuthConfig =
  cf_AdminEmails :: "string set"
  cf_AdminWallets :: "string set"
  cf_AuthTokenSecret :: string

record SessionManager =
  sm_cfg :: AuthConfig
  sm_secret :: string
  sm_challenges :: "string \<rightharpoonup> storedChallenge"

record SessionLib =
  sl_hmac :: "string \<Rightarrow> string \<Rightarrow> bytes"
  sl_marshal :: "sessionClaims \<Rightarrow> bytes"
  sl_unmarshal :: "bytes \<Rightarrow> sessionClaims option"
  sl_rfc3339 :: "int \<Rightarrow> string"

datatype auth_error =
    WalletAddressRequired | InvalidWallet | NoSnowflake | LoginFieldsRequired | ChallengeNotFound | ChallengeWalletDiffers
  | ChallengeExpired | SignatureNotBase64 | SignatureNot64Bytes | InvalidLoginSignature
  | InvalidAuthToken | InvalidTokenSignature | InvalidTokenPayload | InvalidTokenClaims | AuthTokenExpired
  | AuthenticationRequired | AdminRequired
  | TicketStoreOff | TicketRequired | InvalidTicket | RedisFailed

text \<open>\<open>csvSet\<close> of the configuration, which the sets of admins are read with.\<close>

definition csvSet :: "string \<Rightarrow> string set" where
  "csvSet v = set (map ToLower (filter (\<lambda>item. item \<noteq> []) (map TrimSpace (SplitChar CHR '','' v))))"

abbreviation second :: int where "second \<equiv> 1000000000"

definition UnixOf :: "int \<Rightarrow> int" where
  "UnixOf t = t div second"

definition defaultTokenTTL :: int where "defaultTokenTTL = 7 * 24 * 3600 * second"
definition defaultChallengeTTL :: int where "defaultChallengeTTL = 24 * 3600 * second"

definition NewSessionManager :: "bool \<Rightarrow> AuthConfig \<Rightarrow> SessionManager option" where
  "NewSessionManager sonyflakeOk cfg =
     (let secret = TrimSpace (cf_AuthTokenSecret cfg);
          secret = (if secret = [] then ''blinkpredict-dev-auth-secret'' else secret)
      in if \<not> sonyflakeOk then None else Some \<lparr>sm_cfg = cfg, sm_secret = secret, sm_challenges = Map.empty\<rparr>)"

section \<open>Challenges\<close>

definition challengeMessage :: "SessionLib \<Rightarrow> string \<Rightarrow> string \<Rightarrow> int \<Rightarrow> int \<Rightarrow> string" where
  "challengeMessage lib wallet cid issuedAt expiresAt =
     ''blinkpredict.login.v1'' @ [CHR 0x0A] @ ''wallet='' @ wallet @ [CHR 0x0A] @ ''challenge_id='' @ cid @ [CHR 0x0A]
     @ ''issued_at='' @ sl_rfc3339 lib issuedAt @ [CHR 0x0A] @ ''expires_at='' @ sl_rfc3339 lib expiresAt"

definition cleanupExpiredChallenges :: "int \<Rightarrow> (string \<rightharpoonup> storedChallenge) \<Rightarrow> (string \<rightharpoonup> storedChallenge)" where
  "cleanupExpiredChallenges now m = (\<lambda>cid. case m cid of None \<Rightarrow> None
     | Some c \<Rightarrow> if ch_ExpiresAt (st_Challenge c) < now then None else Some c)"

text \<open>\<open>issuedAt\<close> and \<open>now\<close> are the two readings of the clock.\<close>

definition CreateChallenge ::
  "GatewayEnv \<Rightarrow> SessionLib \<Rightarrow> string \<Rightarrow> u64 option \<Rightarrow> int \<Rightarrow> int \<Rightarrow> SessionManager \<Rightarrow> (auth_error + Challenge) \<times> SessionManager" where
  "CreateChallenge env lib wallet0 nextID issuedAt now sm = (let wallet = TrimSpace wallet0 in
     if wallet = [] then (Inl WalletAddressRequired, sm)
     else if ge_parseKey env wallet = None then (Inl InvalidWallet, sm)
     else case nextID of
       None \<Rightarrow> (Inl NoSnowflake, sm)
     | Some n \<Rightarrow>
         (let cid = FormatUint10 n; expiresAt = issuedAt + defaultChallengeTTL;
              ch = \<lparr>ch_ID = cid, ch_Message = challengeMessage lib wallet cid issuedAt expiresAt, ch_ExpiresAt = expiresAt\<rparr>
          in (Inr ch, sm\<lparr>sm_challenges := (cleanupExpiredChallenges now (sm_challenges sm))
                 (cid \<mapsto> \<lparr>st_Challenge = ch, st_WalletAddress = wallet\<rparr>)\<rparr>)))"

definition decodeBase64Signature :: "string \<Rightarrow> auth_error + bytes" where
  "decodeBase64Signature raw =
     (case (case base64Decode False True raw of Some s \<Rightarrow> Some s | None \<Rightarrow> base64Decode False False raw) of
        None \<Rightarrow> Inl SignatureNotBase64
      | Some s \<Rightarrow> if length s \<noteq> 64 then Inl SignatureNot64Bytes else Inr s)"

section \<open>Tokens\<close>

definition claimsOf :: "User \<Rightarrow> int \<Rightarrow> sessionClaims" where
  "claimsOf user now = \<lparr>sc_Subject = us_SolanaAddress user, sc_SolanaAddress = us_SolanaAddress user,
     sc_IssuedAt = UnixOf now, sc_ExpiresAt = UnixOf (now + defaultTokenTTL)\<rparr>"

definition tokenPayload :: "SessionLib \<Rightarrow> User \<Rightarrow> int \<Rightarrow> string" where
  "tokenPayload lib user now = base64Encode True False (sl_marshal lib (claimsOf user now))"

definition IssueToken :: "SessionLib \<Rightarrow> SessionManager \<Rightarrow> User \<Rightarrow> int \<Rightarrow> string \<times> int" where
  "IssueToken lib sm user now = (let payloadEncoded = tokenPayload lib user now in
     (payloadEncoded @ ''.'' @ base64Encode True False (sl_hmac lib (sm_secret sm) payloadEncoded), now + defaultTokenTTL))"

definition ParseToken :: "SessionLib \<Rightarrow> SessionManager \<Rightarrow> string \<Rightarrow> int \<Rightarrow> auth_error + User" where
  "ParseToken lib sm raw now =
     (case SplitChar CHR ''.'' (TrimSpace raw) of
        [payloadEncoded, signatureEncoded] \<Rightarrow>
          (case base64Decode True False signatureEncoded of
             None \<Rightarrow> Inl InvalidTokenSignature
           | Some gotSig \<Rightarrow>
               if gotSig \<noteq> sl_hmac lib (sm_secret sm) payloadEncoded then Inl InvalidTokenSignature
               else case base64Decode True False payloadEncoded of
                 None \<Rightarrow> Inl InvalidTokenPayload
               | Some payload \<Rightarrow>
                   (case sl_unmarshal lib payload of
                      None \<Rightarrow> Inl InvalidTokenClaims
                    | Some claims \<Rightarrow>
                        if sc_ExpiresAt claims \<le> UnixOf now then Inl AuthTokenExpired
                        else Inr \<lparr>us_Subject = sc_Subject claims, us_Email = [], us_SolanaAddress = sc_SolanaAddress claims,
                                  us_IsAdmin = False\<rparr>))
      | _ \<Rightarrow> Inl InvalidAuthToken)"

text \<open>The login: the challenge is taken out of the map before anything about it is checked.\<close>

definition VerifyChallenge ::
  "GatewayEnv \<Rightarrow> SessionLib \<Rightarrow> string \<Rightarrow> string \<Rightarrow> string \<Rightarrow> int \<Rightarrow> int \<Rightarrow> int \<Rightarrow> SessionManager
     \<Rightarrow> (auth_error + User \<times> string \<times> int) \<times> SessionManager" where
  "VerifyChallenge env lib challengeID0 wallet0 signature0 t1 t2 t3 sm =
     (let challengeID = TrimSpace challengeID0; wallet = TrimSpace wallet0; signature = TrimSpace signature0 in
      if challengeID = [] \<or> wallet = [] \<or> signature = [] then (Inl LoginFieldsRequired, sm)
      else (let m = cleanupExpiredChallenges t1 (sm_challenges sm); sm' = sm\<lparr>sm_challenges := m(challengeID := None)\<rparr> in
        case m challengeID of
          None \<Rightarrow> (Inl ChallengeNotFound, sm')
        | Some stored \<Rightarrow>
            if st_WalletAddress stored \<noteq> wallet then (Inl ChallengeWalletDiffers, sm')
            else if ch_ExpiresAt (st_Challenge stored) < t2 then (Inl ChallengeExpired, sm')
            else case ge_parseKey env wallet of
              None \<Rightarrow> (Inl InvalidWallet, sm')
            | Some pubkey \<Rightarrow>
                (case decodeBase64Signature signature of
                   Inl e \<Rightarrow> (Inl e, sm')
                 | Inr sig \<Rightarrow>
                     if \<not> ge_verify env pubkey (map (\<lambda>c. of_nat (of_char c)) (ch_Message (st_Challenge stored))) sig
                     then (Inl InvalidLoginSignature, sm')
                     else (let user = \<lparr>us_Subject = wallet, us_Email = [], us_SolanaAddress = wallet,
                                us_IsAdmin = ToLower wallet \<in> cf_AdminWallets (sm_cfg sm)\<rparr>;
                               (token, expiresAt) = IssueToken lib sm user t3
                           in (Inr (user, token, expiresAt), sm')))))"

section \<open>The middleware and the guards\<close>

definition tokenFromRequest :: "string \<Rightarrow> string" where
  "tokenFromRequest header = (let h = TrimSpace header in
     if 7 < length h \<and> EqualFold (take 7 h) ''Bearer '' then TrimSpace (drop 7 h) else [])"

definition Middleware :: "SessionLib \<Rightarrow> AuthConfig \<Rightarrow> SessionManager option \<Rightarrow> string \<Rightarrow> int \<Rightarrow> auth_error + User option" where
  "Middleware lib cfg sessions header now =
     (if tokenFromRequest header = [] then Inr None
      else case sessions of
        None \<Rightarrow> Inr None
      | Some sm \<Rightarrow>
          (case ParseToken lib sm (tokenFromRequest header) now of
             Inl e \<Rightarrow> Inl e
           | Inr user \<Rightarrow> Inr (Some (user\<lparr>us_IsAdmin :=
               ToLower (us_Email user) \<in> cf_AdminEmails cfg \<or> ToLower (us_SolanaAddress user) \<in> cf_AdminWallets cfg\<rparr>))))"

definition RequireUser :: "User option \<Rightarrow> auth_error + User" where
  "RequireUser u = (case u of None \<Rightarrow> Inl AuthenticationRequired | Some user \<Rightarrow> Inr user)"

definition RequireAdmin :: "User option \<Rightarrow> auth_error + User" where
  "RequireAdmin u = (case u of None \<Rightarrow> Inl AuthenticationRequired
     | Some user \<Rightarrow> if \<not> us_IsAdmin user then Inl AdminRequired else Inr user)"

text \<open>The handlers: their status and what they answer with it; no body is one that cannot be decoded.\<close>

definition handleAuthChallenge ::
  "GatewayEnv \<Rightarrow> SessionLib \<Rightarrow> string option \<Rightarrow> u64 option \<Rightarrow> int \<Rightarrow> int \<Rightarrow> SessionManager option
     \<Rightarrow> (nat \<times> Challenge option) \<times> SessionManager option" where
  "handleAuthChallenge env lib body nextID issuedAt now sessions =
     (case sessions of
        None \<Rightarrow> ((501, None), None)
      | Some sm \<Rightarrow> (case body of
          None \<Rightarrow> ((400, None), Some sm)
        | Some wallet \<Rightarrow> (case CreateChallenge env lib wallet nextID issuedAt now sm of
            (Inl e, sm') \<Rightarrow> ((400, None), Some sm')
          | (Inr ch, sm') \<Rightarrow> ((200, Some ch), Some sm'))))"

definition handleAuthLogin ::
  "GatewayEnv \<Rightarrow> SessionLib \<Rightarrow> (string \<times> string \<times> string) option \<Rightarrow> int \<Rightarrow> int \<Rightarrow> int \<Rightarrow> SessionManager option
     \<Rightarrow> (nat \<times> (User \<times> string \<times> int) option) \<times> SessionManager option" where
  "handleAuthLogin env lib body t1 t2 t3 sessions =
     (case sessions of
        None \<Rightarrow> ((501, None), None)
      | Some sm \<Rightarrow> (case body of
          None \<Rightarrow> ((400, None), Some sm)
        | Some (wallet, challengeID, signature) \<Rightarrow>
            (case VerifyChallenge env lib challengeID wallet signature t1 t2 t3 sm of
               (Inl e, sm') \<Rightarrow> ((401, None), Some sm')
             | (Inr r, sm') \<Rightarrow> ((200, Some r), Some sm'))))"

section \<open>Websocket tickets\<close>

text \<open>The keys in Redis, with the time at which each expires.  A call is answered, refused, or carried out without
  an answer.\<close>

record TicketStore =
  tk_ttl :: int
  tk_rows :: "string \<rightharpoonup> string \<times> int"

datatype redisAnswer = RedisDone | RedisRefused | RedisLost

definition NewTicketStore :: "int \<Rightarrow> (string \<rightharpoonup> string \<times> int) \<Rightarrow> TicketStore" where
  "NewTicketStore ttl rows = \<lparr>tk_ttl = (if ttl \<le> 0 then 45 * second else ttl), tk_rows = rows\<rparr>"

definition ticketKey :: "string \<Rightarrow> string" where
  "ticketKey ticket = ''ws:ticket:'' @ ticket"

definition Issue :: "string \<Rightarrow> string \<Rightarrow> int \<Rightarrow> redisAnswer \<Rightarrow> TicketStore \<Rightarrow> (auth_error + string \<times> int) \<times> TicketStore" where
  "Issue uuid wallet0 now answer store = (let wallet = TrimSpace wallet0 in
     if wallet = [] then (Inl WalletAddressRequired, store)
     else (let store' = (if answer = RedisRefused then store
                         else store\<lparr>tk_rows := (tk_rows store)(ticketKey uuid \<mapsto> (wallet, now + tk_ttl store))\<rparr>)
           in (if answer = RedisDone then Inr (uuid, now + tk_ttl store) else Inl RedisFailed, store')))"

definition Consume :: "string \<Rightarrow> int \<Rightarrow> redisAnswer \<Rightarrow> TicketStore \<Rightarrow> (auth_error + string) \<times> TicketStore" where
  "Consume ticket0 now answer store = (let ticket = TrimSpace ticket0; key = ticketKey ticket in
     if ticket = [] then (Inl TicketRequired, store)
     else if answer = RedisRefused then (Inl RedisFailed, store)
     else (let store' = store\<lparr>tk_rows := (tk_rows store)(key := None)\<rparr> in
       if answer = RedisLost then (Inl RedisFailed, store')
       else case tk_rows store key of
         None \<Rightarrow> (Inl InvalidTicket, store')
       | Some (wallet, deadline) \<Rightarrow>
           if deadline \<le> now then (Inl InvalidTicket, store')
           else if TrimSpace wallet = [] then (Inl InvalidTicket, store')
           else (Inr (TrimSpace wallet), store')))"

text \<open>\<open>handleCreateWSTicket\<close> for the user of the middleware, and \<open>consumeTicket\<close> of the hub, where no store is one
  that is not configured.\<close>

definition handleCreateWSTicket ::
  "GatewayEnv \<Rightarrow> User option \<Rightarrow> string \<Rightarrow> int \<Rightarrow> redisAnswer \<Rightarrow> TicketStore option \<Rightarrow> (nat \<times> (string \<times> int) option) \<times> TicketStore option" where
  "handleCreateWSTicket env user uuid now answer redis =
     (case redis of
        None \<Rightarrow> ((501, None), None)
      | Some store \<Rightarrow>
          (case resolveAuthenticatedWalletAddress env (map_option us_SolanaAddress user) [] of
             Inl e \<Rightarrow> ((401, None), Some store)
           | Inr wallet \<Rightarrow>
               (case Issue uuid wallet now answer (NewTicketStore (45 * second) (tk_rows store)) of
                  (Inl e, store') \<Rightarrow> ((500, None), Some store')
                | (Inr r, store') \<Rightarrow> ((200, Some r), Some store'))))"

definition consumeTicket :: "string \<Rightarrow> int \<Rightarrow> redisAnswer \<Rightarrow> TicketStore option \<Rightarrow> (auth_error + string) \<times> TicketStore option" where
  "consumeTicket ticket now answer store =
     (case store of
        None \<Rightarrow> (Inl TicketStoreOff, None)
      | Some ts \<Rightarrow> (case Consume ticket now answer ts of
          (Inl e, ts') \<Rightarrow> (Inl e, Some ts')
        | (Inr wallet, ts') \<Rightarrow> if TrimSpace wallet = [] then (Inl InvalidTicket, Some ts') else (Inr wallet, Some ts')))"

end
