(* ===== verification/AuthLaws.thy ===== *)
theory AuthLaws
  imports Auth
begin

text \<open>
  What a session rests on.  Tokens go through the middleware until they expire; in every run of the session manager and
  the ticket store a request that is let through as some wallet follows a login of that wallet, and a login
  follows the signature of that wallet's key under a challenge of its own.
\<close>

section \<open>Tokens\<close>

lemma SplitChar_at: "c \<notin> set p \<Longrightarrow> SplitChar c (p @ c # q) = p # SplitChar c q"
  by (induction p) auto

lemma SplitChar_none: "c \<notin> set q \<Longrightarrow> SplitChar c q = [q]"
  by (induction q) auto

lemma b64Char_not_dot: "v < 64 \<Longrightarrow> b64Char True v \<noteq> CHR ''.''"
proof -
  assume v: "v < 64"
  have eq: "c = d \<longleftrightarrow> (of_char c :: nat) = of_char d" for c d :: char by simp
  consider "v < 26" | "26 \<le> v" "v < 52" | "52 \<le> v" "v < 62" | "v = 62" | "v = 63" using v by linarith
  then show ?thesis by cases (auto simp: b64Char_def eq of_char_of simp del: of_char_eq_iff)
qed

lemma base64_no_dot: "CHR ''.'' \<notin> set (base64Encode True False bs)"
  using sextets_less b64Char_not_dot by (fastforce simp: base64Encode_def)

lemma base64_no_space: "x \<in> set (base64Encode url False bs) \<Longrightarrow> \<not> isSpace x"
  using sextets_less b64Char_plain by (auto simp: base64Encode_def)

text \<open>What the JSON package promises of the claims of a key: reading gives back what was written.\<close>

definition goodJson :: "GatewayEnv \<Rightarrow> SessionLib \<Rightarrow> bool" where
  "goodJson env lib \<longleftrightarrow> (\<forall>c. ge_parseKey env (sc_Subject c) \<noteq> None \<longrightarrow> sc_SolanaAddress c = sc_Subject c \<longrightarrow>
     0 \<le> sc_IssuedAt c \<longrightarrow> 0 \<le> sc_ExpiresAt c \<longrightarrow> sl_unmarshal lib (sl_marshal lib c) = Some c)"

lemma UnixOf_nonneg: "0 \<le> t \<Longrightarrow> 0 \<le> UnixOf t"
  by (simp add: UnixOf_def pos_imp_zdiv_nonneg_iff)

lemma claims_read_back:
  assumes "goodJson env lib" "ge_parseKey env (us_SolanaAddress user) \<noteq> None" "0 \<le> t"
  shows "sl_unmarshal lib (sl_marshal lib (claimsOf user t)) = Some (claimsOf user t)"
  using assms(1) unfolding goodJson_def
  by (elim allE [of _ "claimsOf user t"]) (use assms(2,3) in \<open>simp add: claimsOf_def UnixOf_nonneg defaultTokenTTL_def\<close>)

lemma token_no_space: "x \<in> set (fst (IssueToken lib sm user t)) \<Longrightarrow> \<not> isSpace x"
proof -
  assume x: "x \<in> set (fst (IssueToken lib sm user t))"
  have dot: "\<not> isSpace CHR ''.''" by (simp add: isSpace_def)
  show ?thesis using x dot base64_no_space by (auto simp: IssueToken_def Let_def tokenPayload_def)
qed

lemma tokenFromRequest_bearer:
  assumes "\<And>x. x \<in> set tok \<Longrightarrow> \<not> isSpace x" "tok \<noteq> []"
  shows "tokenFromRequest (''Bearer '' @ tok) = tok"
proof -
  have "TrimSpace (''Bearer '' @ tok) = ''Bearer '' @ tok"
    by (rule TrimSpace_ends) (use assms last_in_set [of tok] in \<open>auto simp: isSpace_def\<close>)
  then show ?thesis using assms TrimSpace_id [of tok] by (cases tok) (auto simp: tokenFromRequest_def EqualFold_def)
qed

lemma token_trimmed: "TrimSpace (fst (IssueToken lib sm user t)) = fst (IssueToken lib sm user t)"
  using token_no_space by (blast intro: TrimSpace_id)

lemma bearer_token: "tokenFromRequest (''Bearer '' @ fst (IssueToken lib sm user t)) = fst (IssueToken lib sm user t)"
proof (rule tokenFromRequest_bearer)
  show "fst (IssueToken lib sm user t) \<noteq> []" by (simp add: IssueToken_def Let_def)
qed (rule token_no_space)

lemma ParseToken_IssueToken:
  assumes "goodJson env lib" "ge_parseKey env (us_SolanaAddress user) \<noteq> None" "0 \<le> t" "sm_secret sm' = sm_secret sm"
  shows "ParseToken lib sm' (fst (IssueToken lib sm user t)) now =
    (if UnixOf (t + defaultTokenTTL) \<le> UnixOf now then Inl AuthTokenExpired
     else Inr \<lparr>us_Subject = us_SolanaAddress user, us_Email = [], us_SolanaAddress = us_SolanaAddress user, us_IsAdmin = False\<rparr>)"
proof -
  have split: "SplitChar CHR ''.'' (fst (IssueToken lib sm user t)) =
      [tokenPayload lib user t, base64Encode True False (sl_hmac lib (sm_secret sm) (tokenPayload lib user t))]"
    by (simp add: IssueToken_def Let_def tokenPayload_def SplitChar_at SplitChar_none base64_no_dot)
  show ?thesis
    using claims_read_back [OF assms(1-3)]
    by (simp add: ParseToken_def token_trimmed split base64_roundtrip tokenPayload_def assms(4)) (simp add: claimsOf_def)
qed

text \<open>Conversely, a token that is accepted carries the claims of its payload under the authentic code.\<close>

lemma ParseToken_accepts:
  assumes "ParseToken lib sm raw now = Inr user"
  obtains p s payload claims where "SplitChar CHR ''.'' (TrimSpace raw) = [p, s]"
    "base64Decode True False s = Some (sl_hmac lib (sm_secret sm) p)" "base64Decode True False p = Some payload"
    "sl_unmarshal lib payload = Some claims" "UnixOf now < sc_ExpiresAt claims" "us_Email user = []"
    "us_SolanaAddress user = sc_SolanaAddress claims"
  using assms unfolding ParseToken_def
  by (auto split: list.splits option.splits if_splits)

section \<open>The system\<close>

text \<open>The session manager of the running process and the tickets, with what happened: the identifiers handed out, the
  challenges with the wallet they are for and their time, the logins, the users that requests were let through as,
  those of the admin routes, the tickets issued and the websockets opened with them.  The requests whose token no
  login of the service signed are kept apart, with their header: whoever knows the secret can make such a token,
  and without configuration the secret is a constant of the source.\<close>

record login =
  lg_challenge :: string
  lg_wallet :: string
  lg_signature :: bytes
  lg_checkedAt :: int
  lg_issuedAt :: int
  lg_token :: string

record authSystem =
  ay_sessions :: SessionManager
  ay_tickets :: TicketStore
  ay_ids :: "u64 list"
  ay_uuids :: "string list"
  ay_issued :: "(Challenge \<times> string \<times> int) list"
  ay_logins :: "login list"
  ay_requests :: "(User \<times> int) list"
  ay_forgeries :: "(User \<times> int \<times> string) list"
  ay_admins :: "(User \<times> int) list"
  ay_issuedTickets :: "(string \<times> string) list"
  ay_sockets :: "(string \<times> string) list"

definition newAuthSystem :: "SessionManager \<Rightarrow> authSystem" where
  "newAuthSystem sm = \<lparr>ay_sessions = sm, ay_tickets = NewTicketStore (45 * second) Map.empty, ay_ids = [], ay_uuids = [],
     ay_issued = [], ay_logins = [], ay_requests = [], ay_forgeries = [], ay_admins = [], ay_issuedTickets = [], ay_sockets = []\<rparr>"

text \<open>The payloads the service computed a code for.\<close>

definition signedPayloads :: "SessionLib \<Rightarrow> authSystem \<Rightarrow> string set" where
  "signedPayloads lib s = {hd (SplitChar CHR ''.'' (lg_token l)) | l. l \<in> set (ay_logins s)}"

text \<open>A request whose token the middleware accepts by its code, if it does, carries a payload of a login.\<close>

definition unforged :: "SessionLib \<Rightarrow> authSystem \<Rightarrow> string \<Rightarrow> bool" where
  "unforged lib s header \<longleftrightarrow>
     (case SplitChar CHR ''.'' (TrimSpace (tokenFromRequest header)) of
        [p, c] \<Rightarrow> base64Decode True False c = Some (sl_hmac lib (sm_secret (ay_sessions s)) p) \<longrightarrow> p \<in> signedPayloads lib s
      | _ \<Rightarrow> True)"

definition passed :: "authSystem \<Rightarrow> (User \<times> int) set" where
  "passed s = set (ay_requests s) \<union> (\<lambda>f. (fst f, fst (snd f))) ` set (ay_forgeries s)"

lemma passed_frame [simp]:
  "passed (s\<lparr>ay_sessions := a\<rparr>) = passed s" "passed (s\<lparr>ay_tickets := b\<rparr>) = passed s" "passed (s\<lparr>ay_ids := c\<rparr>) = passed s"
  "passed (s\<lparr>ay_uuids := d\<rparr>) = passed s" "passed (s\<lparr>ay_issued := e\<rparr>) = passed s" "passed (s\<lparr>ay_logins := f\<rparr>) = passed s"
  "passed (s\<lparr>ay_admins := g\<rparr>) = passed s" "passed (s\<lparr>ay_issuedTickets := h\<rparr>) = passed s" "passed (s\<lparr>ay_sockets := i\<rparr>) = passed s"
  by (simp_all add: passed_def)

text \<open>A request that the middleware lets through; as an anonymous one it leaves no trace.\<close>

definition passRequest :: "SessionLib \<Rightarrow> string \<Rightarrow> int \<Rightarrow> User option \<Rightarrow> authSystem \<Rightarrow> authSystem" where
  "passRequest lib header now u s =
     (let s = (case RequireUser u of Inl e \<Rightarrow> s
        | Inr user \<Rightarrow> if unforged lib s header then s\<lparr>ay_requests := (user, now) # ay_requests s\<rparr>
                      else s\<lparr>ay_forgeries := (user, now, header) # ay_forgeries s\<rparr>)
      in s\<lparr>ay_admins := (case RequireAdmin u of Inl e \<Rightarrow> ay_admins s | Inr user \<Rightarrow> (user, now) # ay_admins s)\<rparr>)"

definition logIn :: "GatewayEnv \<Rightarrow> string \<Rightarrow> string \<Rightarrow> int \<Rightarrow> int \<Rightarrow> User \<times> string \<times> int \<Rightarrow> login" where
  "logIn env challengeID signature t2 t3 r = \<lparr>lg_challenge = TrimSpace challengeID, lg_wallet = us_SolanaAddress (fst r),
     lg_signature = projr (decodeBase64Signature (TrimSpace signature)), lg_checkedAt = t2, lg_issuedAt = t3, lg_token = fst (snd r)\<rparr>"

inductive authStep :: "GatewayEnv \<Rightarrow> SessionLib \<Rightarrow> AuthConfig \<Rightarrow> authSystem \<Rightarrow> authSystem \<Rightarrow> bool" for env lib cfg where
  challenge: "CreateChallenge env lib wallet (Some n) issuedAt now (ay_sessions s) = (Inr ch, sm) \<Longrightarrow> n \<notin> set (ay_ids s) \<Longrightarrow>
     authStep env lib cfg s (s\<lparr>ay_sessions := sm, ay_ids := n # ay_ids s,
       ay_issued := (ch, TrimSpace wallet, issuedAt) # ay_issued s\<rparr>)"
| login: "VerifyChallenge env lib challengeID wallet signature t1 t2 t3 (ay_sessions s) = (Inr r, sm) \<Longrightarrow> 0 \<le> t3 \<Longrightarrow>
     authStep env lib cfg s (s\<lparr>ay_sessions := sm, ay_logins := logIn env challengeID signature t2 t3 r # ay_logins s\<rparr>)"
| refusedLogin: "VerifyChallenge env lib challengeID wallet signature t1 t2 t3 (ay_sessions s) = (Inl e, sm) \<Longrightarrow>
     authStep env lib cfg s (s\<lparr>ay_sessions := sm\<rparr>)"
| request: "Middleware lib cfg (Some (ay_sessions s)) header now = Inr u \<Longrightarrow> authStep env lib cfg s (passRequest lib header now u s)"
| ticket: "(user, now0) \<in> passed s \<Longrightarrow> uuid \<notin> set (ay_uuids s) \<Longrightarrow> TrimSpace uuid = uuid \<Longrightarrow>
     handleCreateWSTicket env (Some user) uuid now answer (Some (ay_tickets s)) = (r, Some tickets) \<Longrightarrow>
     authStep env lib cfg s (s\<lparr>ay_tickets := tickets, ay_uuids := uuid # ay_uuids s,
       ay_issuedTickets := (uuid, TrimSpace (us_SolanaAddress user)) # ay_issuedTickets s\<rparr>)"
| socket: "consumeTicket t now answer (Some (ay_tickets s)) = (r, Some tickets) \<Longrightarrow>
     authStep env lib cfg s (s\<lparr>ay_tickets := tickets,
       ay_sockets := (case r of Inl e \<Rightarrow> ay_sockets s | Inr wallet \<Rightarrow> (TrimSpace t, wallet) # ay_sockets s)\<rparr>)"
| restart: "authStep env lib cfg s (s\<lparr>ay_sessions := (ay_sessions s)\<lparr>sm_challenges := Map.empty\<rparr>\<rparr>)"

definition authReachable :: "GatewayEnv \<Rightarrow> SessionLib \<Rightarrow> AuthConfig \<Rightarrow> authSystem \<Rightarrow> bool" where
  "authReachable env lib cfg s \<longleftrightarrow>
     (\<exists>sm. NewSessionManager True cfg = Some sm \<and> (authStep env lib cfg)\<^sup>*\<^sup>* (newAuthSystem sm) s)"

section \<open>Challenges and logins\<close>

definition toBytes :: "string \<Rightarrow> bytes" where
  "toBytes m = map (\<lambda>c. of_nat (of_char c)) m"

definition issuedOK :: "GatewayEnv \<Rightarrow> SessionLib \<Rightarrow> Challenge \<times> string \<times> int \<Rightarrow> bool" where
  "issuedOK env lib i \<longleftrightarrow> (case i of (ch, w, t) \<Rightarrow> ge_parseKey env w \<noteq> None
     \<and> ch_Message ch = challengeMessage lib w (ch_ID ch) t (ch_ExpiresAt ch) \<and> ch_ExpiresAt ch = t + defaultChallengeTTL)"

definition loginOK :: "GatewayEnv \<Rightarrow> (Challenge \<times> string \<times> int) set \<Rightarrow> login \<Rightarrow> bool" where
  "loginOK env I l \<longleftrightarrow> (\<exists>ch t key. (ch, lg_wallet l, t) \<in> I \<and> ch_ID ch = lg_challenge l \<and> lg_checkedAt l \<le> t + defaultChallengeTTL
     \<and> ge_parseKey env (lg_wallet l) = Some key \<and> ge_verify env key (toBytes (ch_Message ch)) (lg_signature l))"

definition tokenOK :: "SessionLib \<Rightarrow> SessionManager \<Rightarrow> login \<Rightarrow> bool" where
  "tokenOK lib sm l \<longleftrightarrow> 0 \<le> lg_issuedAt l \<and>
     (\<exists>user. us_SolanaAddress user = lg_wallet l \<and> lg_token l = fst (IssueToken lib sm user (lg_issuedAt l)))"

definition challengesOK :: "(Challenge \<times> string \<times> int) set \<Rightarrow> string set \<Rightarrow> (string \<rightharpoonup> storedChallenge) \<Rightarrow> bool" where
  "challengesOK I used m \<longleftrightarrow> (\<forall>cid c. m cid = Some c \<longrightarrow>
     cid \<notin> used \<and> ch_ID (st_Challenge c) = cid \<and> (\<exists>t. (st_Challenge c, st_WalletAddress c, t) \<in> I))"

definition sessInv :: "GatewayEnv \<Rightarrow> SessionLib \<Rightarrow> AuthConfig \<Rightarrow> authSystem \<Rightarrow> bool" where
  "sessInv env lib cfg s \<longleftrightarrow> sm_cfg (ay_sessions s) = cfg \<and> distinct (ay_ids s)
     \<and> map (\<lambda>i. ch_ID (fst i)) (ay_issued s) = map FormatUint10 (ay_ids s)
     \<and> list_all (issuedOK env lib) (ay_issued s)
     \<and> challengesOK (set (ay_issued s)) (lg_challenge ` set (ay_logins s)) (sm_challenges (ay_sessions s))
     \<and> distinct (map lg_challenge (ay_logins s))
     \<and> list_all (loginOK env (set (ay_issued s))) (ay_logins s)
     \<and> list_all (tokenOK lib (ay_sessions s)) (ay_logins s)"

lemma CreateChallenge_step:
  assumes "CreateChallenge env lib wallet (Some n) t now sm = (Inr ch, sm')"
  obtains m where "sm' = sm\<lparr>sm_challenges := m(FormatUint10 n \<mapsto> \<lparr>st_Challenge = ch, st_WalletAddress = TrimSpace wallet\<rparr>)\<rparr>"
    "m \<subseteq>\<^sub>m sm_challenges sm" "ch_ID ch = FormatUint10 n" "issuedOK env lib (ch, TrimSpace wallet, t)"
proof (rule that [of "cleanupExpiredChallenges now (sm_challenges sm)"])
  show "cleanupExpiredChallenges now (sm_challenges sm) \<subseteq>\<^sub>m sm_challenges sm"
    by (auto simp: cleanupExpiredChallenges_def map_le_def split: option.splits if_splits)
qed (use assms in \<open>auto simp: CreateChallenge_def issuedOK_def Let_def split: if_splits\<close>)

lemma VerifyChallenge_step:
  assumes "VerifyChallenge env lib cid wallet sig t1 t2 t3 sm = (r, sm')"
  obtains m where "sm' = sm\<lparr>sm_challenges := m\<rparr>" "m \<subseteq>\<^sub>m sm_challenges sm"
    "\<And>x. r = Inr x \<Longrightarrow> \<exists>c key. sm_challenges sm (TrimSpace cid) = Some c \<and> m (TrimSpace cid) = None
       \<and> us_SolanaAddress (fst x) = st_WalletAddress c \<and> t2 \<le> ch_ExpiresAt (st_Challenge c) \<and> ge_parseKey env (st_WalletAddress c) = Some key
       \<and> ge_verify env key (toBytes (ch_Message (st_Challenge c))) (projr (decodeBase64Signature (TrimSpace sig)))
       \<and> fst (snd x) = fst (IssueToken lib sm (fst x) t3)"
proof -
  define m where "m = cleanupExpiredChallenges t1 (sm_challenges sm)"
  have m: "m \<subseteq>\<^sub>m sm_challenges sm" "\<And>k. (m(k := None)) \<subseteq>\<^sub>m sm_challenges sm"
    by (auto simp: m_def cleanupExpiredChallenges_def map_le_def split: option.splits if_splits)
  show thesis
  proof (cases "TrimSpace cid = [] \<or> TrimSpace wallet = [] \<or> TrimSpace sig = []")
    case True
    then show thesis using assms by (intro that [of "sm_challenges sm"]) (auto simp: VerifyChallenge_def)
  next
    case False
    show thesis
    proof (rule that [of "m(TrimSpace cid := None)"])
      show "sm' = sm\<lparr>sm_challenges := m(TrimSpace cid := None)\<rparr>"
        using assms False unfolding VerifyChallenge_def m_def Let_def
        by (auto split: option.splits if_splits sum.splits prod.splits)
      fix x assume r: "r = Inr x"
      with assms False obtain c where c: "m (TrimSpace cid) = Some c"
        unfolding VerifyChallenge_def m_def Let_def by (auto split: option.splits)
      with m(1) have "sm_challenges sm (TrimSpace cid) = Some c" by (force simp: map_le_def dom_def)
      with assms False r c show "\<exists>c key. sm_challenges sm (TrimSpace cid) = Some c \<and> (m(TrimSpace cid := None)) (TrimSpace cid) = None
       \<and> us_SolanaAddress (fst x) = st_WalletAddress c \<and> t2 \<le> ch_ExpiresAt (st_Challenge c) \<and> ge_parseKey env (st_WalletAddress c) = Some key
       \<and> ge_verify env key (toBytes (ch_Message (st_Challenge c))) (projr (decodeBase64Signature (TrimSpace sig)))
       \<and> fst (snd x) = fst (IssueToken lib sm (fst x) t3)"
        unfolding VerifyChallenge_def m_def Let_def toBytes_def
        by (auto split: option.splits if_splits sum.splits prod.splits)
    qed (rule m)
  qed
qed

lemma challengesOK_less: "challengesOK I U m \<Longrightarrow> m' \<subseteq>\<^sub>m m \<Longrightarrow> challengesOK I U m'"
  unfolding challengesOK_def map_le_def by (metis domI)

lemma challengesOK_used: "challengesOK I U m \<Longrightarrow> m k = None \<Longrightarrow> challengesOK I (insert k U) m"
  by (auto simp: challengesOK_def)

lemma tokenOK_cong: "sm_secret sm' = sm_secret sm \<Longrightarrow> tokenOK lib sm' l = tokenOK lib sm l"
  by (simp add: tokenOK_def IssueToken_def)

lemma tokenOK_challenges [simp]: "tokenOK lib (sm\<lparr>sm_challenges := m\<rparr>) = tokenOK lib sm"
  by (rule ext, rule tokenOK_cong) simp

lemma loginOK_mono: "loginOK env I l \<Longrightarrow> I \<subseteq> J \<Longrightarrow> loginOK env J l"
  unfolding loginOK_def by (meson subsetD)

lemma login_issued: "loginOK env (set is) l \<Longrightarrow> lg_challenge l \<in> set (map (\<lambda>i. ch_ID (fst i)) is)"
  by (force simp: loginOK_def)

lemma sessInv_challenge:
  assumes s: "sessInv env lib cfg s" and n: "n \<notin> set (ay_ids s)"
    and c: "CreateChallenge env lib wallet (Some n) t now (ay_sessions s) = (Inr ch, sm)"
  shows "sessInv env lib cfg (s\<lparr>ay_sessions := sm, ay_ids := n # ay_ids s, ay_issued := (ch, TrimSpace wallet, t) # ay_issued s\<rparr>)"
proof -
  obtain m where m: "sm = (ay_sessions s)\<lparr>sm_challenges := m(FormatUint10 n \<mapsto> \<lparr>st_Challenge = ch, st_WalletAddress = TrimSpace wallet\<rparr>)\<rparr>"
    "m \<subseteq>\<^sub>m sm_challenges (ay_sessions s)" "ch_ID ch = FormatUint10 n" "issuedOK env lib (ch, TrimSpace wallet, t)"
    using c by (rule CreateChallenge_step)
  let ?U = "lg_challenge ` set (ay_logins s)"
  have ok: "challengesOK (set (ay_issued s)) ?U m" using s m(2) by (auto simp: sessInv_def intro: challengesOK_less)
  have "lg_challenge l \<in> set (map FormatUint10 (ay_ids s))" if "l \<in> set (ay_logins s)" for l
    using that s login_issued [of env "ay_issued s" l] by (auto simp: sessInv_def list_all_iff)
  then have "FormatUint10 n \<notin> ?U" using n by fastforce
  then have "challengesOK (insert (ch, TrimSpace wallet, t) (set (ay_issued s))) ?U
      (m(FormatUint10 n \<mapsto> \<lparr>st_Challenge = ch, st_WalletAddress = TrimSpace wallet\<rparr>))"
    using ok m(3) unfolding challengesOK_def by (simp split: if_split) blast
  with s n m show ?thesis by (auto simp: sessInv_def list_all_iff intro: loginOK_mono)
qed

lemma sessInv_login:
  assumes s: "sessInv env lib cfg s" and t: "0 \<le> t3"
    and v: "VerifyChallenge env lib cid wallet sig t1 t2 t3 (ay_sessions s) = (Inr r, sm)"
  shows "sessInv env lib cfg (s\<lparr>ay_sessions := sm, ay_logins := logIn env cid sig t2 t3 r # ay_logins s\<rparr>)"
proof -
  obtain m c key where m: "sm = (ay_sessions s)\<lparr>sm_challenges := m\<rparr>" "m \<subseteq>\<^sub>m sm_challenges (ay_sessions s)" "m (TrimSpace cid) = None"
    and c: "sm_challenges (ay_sessions s) (TrimSpace cid) = Some c"
    and w: "us_SolanaAddress (fst r) = st_WalletAddress c" "t2 \<le> ch_ExpiresAt (st_Challenge c)" "ge_parseKey env (st_WalletAddress c) = Some key"
      "ge_verify env key (toBytes (ch_Message (st_Challenge c))) (projr (decodeBase64Signature (TrimSpace sig)))"
      "fst (snd r) = fst (IssueToken lib (ay_sessions s) (fst r) t3)"
    using v by (rule VerifyChallenge_step) blast
  let ?l = "logIn env cid sig t2 t3 r"
  have ch: "challengesOK (set (ay_issued s)) (lg_challenge ` set (ay_logins s)) (sm_challenges (ay_sessions s))"
    using s by (simp add: sessInv_def)
  from this [unfolded challengesOK_def, rule_format, OF c]
  obtain t where "TrimSpace cid \<notin> lg_challenge ` set (ay_logins s)" "ch_ID (st_Challenge c) = TrimSpace cid"
      and i: "(st_Challenge c, st_WalletAddress c, t) \<in> set (ay_issued s)"
    by auto
  moreover have "ch_ExpiresAt (st_Challenge c) = t + defaultChallengeTTL"
    using i s by (fastforce simp: sessInv_def list_all_iff issuedOK_def)
  ultimately have "loginOK env (set (ay_issued s)) ?l" using w(1-4) unfolding loginOK_def logIn_def
    by (intro exI [of _ "st_Challenge c"] exI [of _ t] exI [of _ key]) simp
  moreover have "tokenOK lib sm ?l" using t w(1,5) m(1) by (auto simp: tokenOK_def logIn_def IssueToken_def)
  moreover have "challengesOK (set (ay_issued s)) (lg_challenge ` set (?l # ay_logins s)) m"
    using challengesOK_used [OF challengesOK_less [OF ch m(2)] m(3)] by (simp add: logIn_def)
  ultimately show ?thesis using s m(1) \<open>TrimSpace cid \<notin> _\<close> by (auto simp: sessInv_def logIn_def)
qed

section \<open>Requests\<close>

definition requestOK :: "AuthConfig \<Rightarrow> login set \<Rightarrow> User \<times> int \<Rightarrow> bool" where
  "requestOK cfg L r \<longleftrightarrow> (\<exists>l \<in> L. us_SolanaAddress (fst r) = lg_wallet l \<and> UnixOf (snd r) < UnixOf (lg_issuedAt l + defaultTokenTTL)
     \<and> (us_IsAdmin (fst r) \<longleftrightarrow> ToLower (lg_wallet l) \<in> cf_AdminWallets cfg))"

text \<open>A forged request carries a payload with the code that the service itself computes for it.\<close>

definition forgeryOK :: "SessionLib \<Rightarrow> string \<Rightarrow> User \<times> int \<times> string \<Rightarrow> bool" where
  "forgeryOK lib secret f \<longleftrightarrow> (case f of (user, now, header) \<Rightarrow>
     \<exists>p c. SplitChar CHR ''.'' (TrimSpace (tokenFromRequest header)) = [p, c] \<and> base64Decode True False c = Some (sl_hmac lib secret p))"

lemma csvSet_no_empty: "[] \<notin> csvSet v"
  by (auto simp: csvSet_def ToLower_def)

lemma request_logged_in:
  assumes "sessInv env lib cfg s" "goodJson env lib" "[] \<notin> cf_AdminEmails cfg" "unforged lib s header"
    "Middleware lib cfg (Some (ay_sessions s)) header now = Inr (Some user)"
  shows "requestOK cfg (set (ay_logins s)) (user, now)"
proof -
  obtain u where u: "ParseToken lib (ay_sessions s) (tokenFromRequest header) now = Inr u"
    and user: "user = u\<lparr>us_IsAdmin := ToLower (us_Email u) \<in> cf_AdminEmails cfg \<or> ToLower (us_SolanaAddress u) \<in> cf_AdminWallets cfg\<rparr>"
    using assms(5) unfolding Middleware_def by (auto split: if_splits sum.splits)
  obtain p c payload claims where p: "SplitChar CHR ''.'' (TrimSpace (tokenFromRequest header)) = [p, c]"
    "base64Decode True False c = Some (sl_hmac lib (sm_secret (ay_sessions s)) p)" "base64Decode True False p = Some payload"
    "sl_unmarshal lib payload = Some claims" "UnixOf now < sc_ExpiresAt claims" "us_Email u = []"
    "us_SolanaAddress u = sc_SolanaAddress claims"
    using u by (rule ParseToken_accepts)
  then obtain l where l: "l \<in> set (ay_logins s)" "p = hd (SplitChar CHR ''.'' (lg_token l))"
    using assms(4) by (auto simp: unforged_def signedPayloads_def)
  with assms(1) have "loginOK env (set (ay_issued s)) l" "tokenOK lib (ay_sessions s) l"
    by (auto simp: sessInv_def list_all_iff)
  then obtain usr where usr: "us_SolanaAddress usr = lg_wallet l" "lg_token l = fst (IssueToken lib (ay_sessions s) usr (lg_issuedAt l))"
      "0 \<le> lg_issuedAt l" "ge_parseKey env (us_SolanaAddress usr) \<noteq> None"
    by (auto simp: tokenOK_def loginOK_def)
  then have "p = tokenPayload lib usr (lg_issuedAt l)"
    using l(2) by (simp add: IssueToken_def Let_def tokenPayload_def SplitChar_at base64_no_dot)
  then have "claims = claimsOf usr (lg_issuedAt l)"
    using p(3,4) claims_read_back [OF assms(2) usr(4,3)] by (simp add: tokenPayload_def base64_roundtrip)
  then show ?thesis using l(1) p(5-7) user usr(1) assms(3)
    by (auto simp: requestOK_def claimsOf_def ToLower_def intro!: bexI [of _ l])
qed

lemma request_forged:
  assumes "Middleware lib cfg (Some sm) header now = Inr (Some user)"
  shows "forgeryOK lib (sm_secret sm) (user, now, header)"
    "[] \<notin> cf_AdminEmails cfg \<Longrightarrow> us_IsAdmin user \<Longrightarrow> ToLower (us_SolanaAddress user) \<in> cf_AdminWallets cfg"
proof -
  obtain u where u: "ParseToken lib sm (tokenFromRequest header) now = Inr u"
    and user: "user = u\<lparr>us_IsAdmin := ToLower (us_Email u) \<in> cf_AdminEmails cfg \<or> ToLower (us_SolanaAddress u) \<in> cf_AdminWallets cfg\<rparr>"
    using assms unfolding Middleware_def by (auto split: if_splits sum.splits)
  obtain p c payload claims where p: "SplitChar CHR ''.'' (TrimSpace (tokenFromRequest header)) = [p, c]"
    "base64Decode True False c = Some (sl_hmac lib (sm_secret sm) p)" "base64Decode True False p = Some payload"
    "sl_unmarshal lib payload = Some claims" "UnixOf now < sc_ExpiresAt claims" "us_Email u = []"
    "us_SolanaAddress u = sc_SolanaAddress claims"
    using u by (rule ParseToken_accepts)
  from p(1,2) show "forgeryOK lib (sm_secret sm) (user, now, header)" by (auto simp: forgeryOK_def)
  show "[] \<notin> cf_AdminEmails cfg \<Longrightarrow> us_IsAdmin user \<Longrightarrow> ToLower (us_SolanaAddress user) \<in> cf_AdminWallets cfg"
    using user p(6) by (auto simp: ToLower_def)
qed

section \<open>Tickets\<close>

definition rowsOK :: "(string \<times> string) set \<Rightarrow> string set \<Rightarrow> (string \<rightharpoonup> string \<times> int) \<Rightarrow> bool" where
  "rowsOK I used rows \<longleftrightarrow> (\<forall>k w d. rows k = Some (w, d) \<longrightarrow> (\<exists>u. k = ticketKey u \<and> (u, w) \<in> I \<and> u \<notin> used))"

definition tickInv :: "authSystem \<Rightarrow> bool" where
  "tickInv s \<longleftrightarrow> distinct (ay_uuids s) \<and> map fst (ay_issuedTickets s) = ay_uuids s
     \<and> rowsOK (set (ay_issuedTickets s)) (fst ` set (ay_sockets s)) (tk_rows (ay_tickets s))
     \<and> distinct (map fst (ay_sockets s)) \<and> set (ay_sockets s) \<subseteq> set (ay_issuedTickets s)
     \<and> snd ` set (ay_issuedTickets s) \<subseteq> (\<lambda>r. TrimSpace (us_SolanaAddress (fst r))) ` passed s"

lemma handleCreateWSTicket_rows:
  assumes "handleCreateWSTicket env (Some user) uuid now answer (Some store) = (r, Some store')"
  shows "tk_rows store' = tk_rows store \<or>
    (\<exists>d. tk_rows store' = (tk_rows store)(ticketKey uuid \<mapsto> (TrimSpace (us_SolanaAddress user), d)))"
  using assms
  by (auto simp: handleCreateWSTicket_def resolveAuthenticatedWalletAddress_def Issue_def NewTicketStore_def Let_def
      split: if_splits sum.splits)

lemma consumeTicket_rows:
  assumes "consumeTicket t now answer (Some store) = (r, Some store')"
  obtains "tk_rows store' = tk_rows store" "\<exists>e. r = Inl e"
  | "tk_rows store' = (tk_rows store)(ticketKey (TrimSpace t) := None)"
    "\<And>wallet. r = Inr wallet \<Longrightarrow> \<exists>w d. tk_rows store (ticketKey (TrimSpace t)) = Some (w, d) \<and> wallet = TrimSpace w"
  using assms unfolding consumeTicket_def Consume_def Let_def
  by (auto split: if_splits option.splits)

lemma ticketKey_inject [simp]: "ticketKey u = ticketKey v \<longleftrightarrow> u = v"
  by (simp add: ticketKey_def)

lemma rowsOK_mono: "rowsOK I U m \<Longrightarrow> I \<subseteq> J \<Longrightarrow> rowsOK J U m"
  unfolding rowsOK_def by (meson subsetD)

lemma rowsOK_remove: "rowsOK I U m \<Longrightarrow> rowsOK I (insert u U) (m(ticketKey u := None))"
  unfolding rowsOK_def by (metis fun_upd_apply insert_iff option.distinct(1))

lemma rowsOK_add: "rowsOK I U m \<Longrightarrow> (u, w) \<in> I \<Longrightarrow> u \<notin> U \<Longrightarrow> rowsOK I U (m(ticketKey u \<mapsto> (w, d)))"
  unfolding rowsOK_def by (metis fun_upd_apply option.inject prod.inject)

lemma tickInv_ticket:
  assumes s: "tickInv s" and u: "(user, t0) \<in> passed s" "uuid \<notin> set (ay_uuids s)"
    and c: "handleCreateWSTicket env (Some user) uuid now answer (Some (ay_tickets s)) = (r, Some tickets)"
  shows "tickInv (s\<lparr>ay_tickets := tickets, ay_uuids := uuid # ay_uuids s,
    ay_issuedTickets := (uuid, TrimSpace (us_SolanaAddress user)) # ay_issuedTickets s\<rparr>)"
proof -
  let ?i = "(uuid, TrimSpace (us_SolanaAddress user))"
  have ok: "rowsOK (set (?i # ay_issuedTickets s)) (fst ` set (ay_sockets s)) (tk_rows (ay_tickets s))"
    by (rule rowsOK_mono [where I = "set (ay_issuedTickets s)"]) (use s in \<open>auto simp: tickInv_def\<close>)
  have "fst ` set (ay_sockets s) \<subseteq> fst ` set (ay_issuedTickets s)" using s unfolding tickInv_def by (intro image_mono) blast
  moreover have "fst ` set (ay_issuedTickets s) = set (ay_uuids s)" using s unfolding tickInv_def by (metis set_map)
  ultimately have new: "uuid \<notin> fst ` set (ay_sockets s)" using s u(2) by (auto simp: tickInv_def)
  have "rowsOK (set (?i # ay_issuedTickets s)) (fst ` set (ay_sockets s)) (tk_rows tickets)"
    using handleCreateWSTicket_rows [OF c]
  proof (elim disjE exE)
    assume "tk_rows tickets = tk_rows (ay_tickets s)"
    then show ?thesis using ok by (simp only:)
  next
    fix d assume "tk_rows tickets = (tk_rows (ay_tickets s))(ticketKey uuid \<mapsto> (TrimSpace (us_SolanaAddress user), d))"
    then show ?thesis by (simp only:) (rule rowsOK_add [OF ok _ new], simp)
  qed
  moreover have "TrimSpace (us_SolanaAddress user) \<in> (\<lambda>r. TrimSpace (us_SolanaAddress (fst r))) ` passed s"
    using u(1) by (intro image_eqI [of _ _ "(user, t0)"]) simp_all
  ultimately show ?thesis using s u(2) unfolding tickInv_def by auto
qed

lemma tickInv_socket:
  assumes s: "tickInv s" and c: "consumeTicket t now answer (Some (ay_tickets s)) = (r, Some tickets)"
  shows "tickInv (s\<lparr>ay_tickets := tickets,
    ay_sockets := (case r of Inl e \<Rightarrow> ay_sockets s | Inr wallet \<Rightarrow> (TrimSpace t, wallet) # ay_sockets s)\<rparr>)"
proof -
  have trimmed: "TrimSpace w = w" if "(u, w) \<in> set (ay_issuedTickets s)" for u w
    using that s by (force simp: tickInv_def)
  note ok = s [unfolded tickInv_def]
  show ?thesis
  proof (cases rule: consumeTicket_rows [OF c])
    case 1
    with s show ?thesis by (auto simp: tickInv_def)
  next
    case 2
    have less: "rowsOK (set (ay_issuedTickets s)) (insert (TrimSpace t) (fst ` set (ay_sockets s))) (tk_rows tickets)"
      using ok 2(1) rowsOK_remove by simp
    show ?thesis
    proof (cases r)
      case (Inl e)
      moreover have "rowsOK (set (ay_issuedTickets s)) (fst ` set (ay_sockets s)) (tk_rows tickets)"
        using ok 2(1) unfolding rowsOK_def by (auto split: if_splits)
      ultimately show ?thesis using s by (simp add: tickInv_def)
    next
      case (Inr wallet)
      then obtain w d where w: "tk_rows (ay_tickets s) (ticketKey (TrimSpace t)) = Some (w, d)" "wallet = TrimSpace w"
        using 2(2) by auto
      then have i: "(TrimSpace t, w) \<in> set (ay_issuedTickets s)" "TrimSpace t \<notin> fst ` set (ay_sockets s)"
        using ok unfolding rowsOK_def by (metis ticketKey_inject)+
      then show ?thesis using s less w(2) trimmed [OF i(1)] Inr by (auto simp: tickInv_def)
    qed
  qed
qed

end
