(* ===== verification/AuthProps.thy ===== *)
theory AuthProps
  imports AuthLaws SettlementLaws
begin

text \<open>
  The properties of sessions and tickets over every run, on the run of a wallet that logs in and makes a request.
\<close>

section \<open>Challenge messages\<close>

lemma first_line: "c \<notin> set p \<Longrightarrow> c \<notin> set q \<Longrightarrow> p @ c # r = q @ c # s \<longleftrightarrow> p = q \<and> r = s"
  by (induction p arbitrary: q) (case_tac q; auto)+

lemma id_one_line: "CHR 0x0A \<notin> set (FormatUint10 n)"
  using isSpace_digits [of "CHR 0x0A"] by (auto simp: FormatUint10_def isSpace_def)

text \<open>A key has no line break in it, as base 58 has none.\<close>

definition oneLineKeys :: "GatewayEnv \<Rightarrow> bool" where
  "oneLineKeys env \<longleftrightarrow> (\<forall>w. ge_parseKey env w \<noteq> None \<longrightarrow> CHR 0x0A \<notin> set w)"

lemma message_tells:
  assumes "CHR 0x0A \<notin> set w" "CHR 0x0A \<notin> set w'" "CHR 0x0A \<notin> set i" "CHR 0x0A \<notin> set i'"
    "challengeMessage lib w i t e = challengeMessage lib w' i' t' e'"
  shows "w = w' \<and> i = i'"
  using assms by (auto simp: challengeMessage_def first_line)

lemma issued_unique:
  assumes "oneLineKeys env" "sessInv env lib cfg s" "(ch, w, t) \<in> set (ay_issued s)" "(ch', w', t') \<in> set (ay_issued s)"
    "ch_Message ch = ch_Message ch'"
  shows "(ch, w, t) = (ch', w', t')"
proof -
  have "ch_ID (fst i) \<in> FormatUint10 ` set (ay_ids s)" if "i \<in> set (ay_issued s)" for i
    using assms(2) that unfolding sessInv_def by (metis imageI set_map)
  then have line: "CHR 0x0A \<notin> set (ch_ID (fst i))" if "i \<in> set (ay_issued s)" for i
    using that id_one_line by fastforce
  have ok: "issuedOK env lib (ch, w, t)" "issuedOK env lib (ch', w', t')"
    using assms(2-4) by (auto simp: sessInv_def list_all_iff)
  have "ch_ID ch = ch_ID ch'"
    using message_tells [of w w' "ch_ID ch" "ch_ID ch'" lib] ok assms(1,5) line [OF assms(3)] line [OF assms(4)]
    by (auto simp: issuedOK_def oneLineKeys_def)
  moreover have "distinct (map (\<lambda>i. ch_ID (fst i)) (ay_issued s))"
    using assms(2) by (simp add: sessInv_def distinct_map inj_on_def)
  ultimately show ?thesis using assms(3,4) unfolding distinct_map inj_on_def by fastforce
qed

section \<open>Every run\<close>

definition authInv :: "GatewayEnv \<Rightarrow> SessionLib \<Rightarrow> AuthConfig \<Rightarrow> authSystem \<Rightarrow> bool" where
  "authInv env lib cfg s \<longleftrightarrow> sessInv env lib cfg s \<and> list_all (requestOK cfg (set (ay_logins s))) (ay_requests s)
     \<and> list_all (forgeryOK lib (sm_secret (ay_sessions s))) (ay_forgeries s)
     \<and> set (ay_admins s) \<subseteq> {r \<in> passed s. ToLower (us_SolanaAddress (fst r)) \<in> cf_AdminWallets cfg} \<and> tickInv s"

lemma requestOK_mono: "requestOK cfg L r \<Longrightarrow> L \<subseteq> M \<Longrightarrow> requestOK cfg M r"
  unfolding requestOK_def by blast

lemma sessInv_refused:
  assumes "sessInv env lib cfg s" "VerifyChallenge env lib cid wallet sig t1 t2 t3 (ay_sessions s) = (Inl e, sm)"
  shows "sessInv env lib cfg (s\<lparr>ay_sessions := sm\<rparr>)"
  using assms(2)
proof (rule VerifyChallenge_step)
  fix m assume "sm = (ay_sessions s)\<lparr>sm_challenges := m\<rparr>" "m \<subseteq>\<^sub>m sm_challenges (ay_sessions s)"
  then show ?thesis using assms(1) by (auto simp: sessInv_def intro: challengesOK_less)
qed

lemma passRequest_frame:
  "ay_sessions (passRequest lib header now u s) = ay_sessions s" "ay_ids (passRequest lib header now u s) = ay_ids s"
  "ay_issued (passRequest lib header now u s) = ay_issued s" "ay_logins (passRequest lib header now u s) = ay_logins s"
  "ay_tickets (passRequest lib header now u s) = ay_tickets s" "ay_uuids (passRequest lib header now u s) = ay_uuids s"
  "ay_issuedTickets (passRequest lib header now u s) = ay_issuedTickets s" "ay_sockets (passRequest lib header now u s) = ay_sockets s"
  "passed s \<subseteq> passed (passRequest lib header now u s)"
  by (auto simp: passRequest_def passed_def Let_def split: sum.split)

lemma authInv_request:
  assumes "authInv env lib cfg s" "goodJson env lib" "[] \<notin> cf_AdminEmails cfg"
    "Middleware lib cfg (Some (ay_sessions s)) header now = Inr u"
  shows "authInv env lib cfg (passRequest lib header now u s)"
proof -
  note inv = assms(1) [unfolded authInv_def]
  have t: "tickInv (passRequest lib header now u s)"
    using inv passRequest_frame(9) [of s lib header now u] unfolding tickInv_def passRequest_frame by blast
  show ?thesis
  proof (cases u)
    case None
    then show ?thesis using assms(1) by (simp add: passRequest_def RequireUser_def RequireAdmin_def)
  next
    case (Some user)
    note f = request_forged [OF assms(4) [unfolded Some]]
    have r: "requestOK cfg (set (ay_logins s)) (user, now)" if "unforged lib s header"
      using inv by (intro request_logged_in [OF _ assms(2,3) that assms(4) [unfolded Some]]) blast
    have a: "set (ay_admins (passRequest lib header now u s)) \<subseteq>
        {r \<in> passed (passRequest lib header now u s). ToLower (us_SolanaAddress (fst r)) \<in> cf_AdminWallets cfg}"
      using inv f(2) [OF assms(3)] by (auto simp: passRequest_def passed_def Some RequireUser_def RequireAdmin_def Let_def)
    show ?thesis using inv t a r f(1)
      unfolding authInv_def sessInv_def passRequest_frame by (auto simp: passRequest_def Some RequireUser_def Let_def)
  qed
qed

lemma authInv_step:
  assumes "authStep env lib cfg s s'" "authInv env lib cfg s" "goodJson env lib" "[] \<notin> cf_AdminEmails cfg"
  shows "authInv env lib cfg s'"
  using assms
proof (induction rule: authStep.induct)
  case (challenge wallet n issuedAt now s ch sm)
  then have "sm_secret sm = sm_secret (ay_sessions s)" by (auto elim: CreateChallenge_step)
  with challenge show ?case using sessInv_challenge by (auto simp: authInv_def tickInv_def)
next
  case (login challengeID wallet signature t1 t2 t3 s r sm)
  then have "sm_secret sm = sm_secret (ay_sessions s)" by (auto elim: VerifyChallenge_step)
  with login show ?case using sessInv_login [OF _ login(2,1)]
    by (auto simp: authInv_def tickInv_def list_all_iff intro: requestOK_mono)
next
  case (refusedLogin challengeID wallet signature t1 t2 t3 s e sm)
  then have "sm_secret sm = sm_secret (ay_sessions s)" by (auto elim: VerifyChallenge_step)
  with refusedLogin show ?case using sessInv_refused by (auto simp: authInv_def tickInv_def)
next
  case (request s header now u)
  then show ?case by (intro authInv_request)
next
  case (ticket user now0 s uuid now answer r tickets)
  then show ?case using tickInv_ticket by (auto simp: authInv_def sessInv_def)
next
  case (socket t now answer s r tickets)
  then show ?case using tickInv_socket by (auto simp: authInv_def sessInv_def)
next
  case (restart s)
  then show ?case by (auto simp: authInv_def sessInv_def tickInv_def challengesOK_def)
qed

lemma authInv_reachable:
  assumes "authReachable env lib cfg s" "goodJson env lib" "[] \<notin> cf_AdminEmails cfg"
  shows "authInv env lib cfg s"
proof -
  obtain sm where "NewSessionManager True cfg = Some sm" "(authStep env lib cfg)\<^sup>*\<^sup>* (newAuthSystem sm) s"
    using assms(1) by (auto simp: authReachable_def)
  from this(2) show ?thesis
  proof (induction rule: rtranclp_induct)
    case base
    then show ?case using \<open>NewSessionManager True cfg = Some sm\<close>
      by (auto simp: NewSessionManager_def Let_def newAuthSystem_def authInv_def sessInv_def tickInv_def challengesOK_def rowsOK_def
          NewTicketStore_def passed_def)
  qed (use authInv_step assms(2,3) in blast)
qed

section \<open>The properties\<close>

text \<open>C38: what a session rests on.  In every run of the session manager, with requests, failing and succeeding logins and
  restarts in any order: no challenge is used for two logins; a login was made within 24 hours with a signature that
  Ed25519 accepts for the key of the wallet, under the message of a challenge created for that wallet, and no two challenges
  have the same message; and a request with a token that a login signed is let through as a wallet only within 7
  days after a login of that wallet.  The other requests that are let through carry a payload under the very
  code that the service computes for it, which needs the secret.  With either, a request is an admin's, and
  reaches the admin routes, only when the lower-cased wallet is in the set of lower-cased admin wallets.\<close>
theorem requests_rest_on_signatures:
  assumes "authReachable env lib cfg s" "goodJson env lib" "oneLineKeys env" "cf_AdminEmails cfg = csvSet emails"
  shows "distinct (map lg_challenge (ay_logins s))
    \<and> list_all (loginOK env (set (ay_issued s))) (ay_logins s)
    \<and> inj_on (\<lambda>i. ch_Message (fst i)) (set (ay_issued s))
    \<and> list_all (requestOK cfg (set (ay_logins s))) (ay_requests s)
    \<and> list_all (forgeryOK lib (sm_secret (ay_sessions s))) (ay_forgeries s)
    \<and> set (ay_admins s) \<subseteq> {r \<in> passed s. ToLower (us_SolanaAddress (fst r)) \<in> cf_AdminWallets cfg}"
proof -
  have inv: "authInv env lib cfg s" by (rule authInv_reachable) (use assms csvSet_no_empty in auto)
  moreover have "inj_on (\<lambda>i. ch_Message (fst i)) (set (ay_issued s))"
    by (rule inj_onI) (use inv issued_unique [OF assms(3)] in \<open>fastforce simp: authInv_def\<close>)
  ultimately show ?thesis by (auto simp: authInv_def sessInv_def)
qed

text \<open>Every websocket was opened with a ticket of its own, which was issued to a request that passed as the wallet it shows.\<close>

theorem tickets_open_once:
  assumes "authReachable env lib cfg s" "goodJson env lib" "cf_AdminEmails cfg = csvSet emails"
  shows "distinct (map fst (ay_sockets s)) \<and> set (ay_sockets s) \<subseteq> set (ay_issuedTickets s)
    \<and> (\<forall>t w. (t, w) \<in> set (ay_sockets s) \<longrightarrow> (\<exists>r \<in> passed s. w = TrimSpace (us_SolanaAddress (fst r))))"
proof -
  have "authInv env lib cfg s" by (rule authInv_reachable) (use assms csvSet_no_empty in auto)
  then have t: "tickInv s" by (simp add: authInv_def)
  then have "snd ` set (ay_sockets s) \<subseteq> (\<lambda>r. TrimSpace (us_SolanaAddress (fst r))) ` passed s"
    unfolding tickInv_def by (meson image_mono order_trans)
  then have "\<exists>r \<in> passed s. w = TrimSpace (us_SolanaAddress (fst r))" if "(u, w) \<in> set (ay_sockets s)" for u w
    using that by (metis (no_types, lifting) imageE image_eqI snd_conv subset_iff)
  with t show ?thesis unfolding tickInv_def by blast
qed

text \<open>The token of a login opens the routes until it expires, and only until then.\<close>

theorem session_until_expiry:
  assumes "goodJson env lib" "ge_parseKey env (us_SolanaAddress user) \<noteq> None" "0 \<le> t" "cf_AdminEmails cfg = csvSet emails"
  shows "Middleware lib cfg (Some sm) (''Bearer '' @ fst (IssueToken lib sm user t)) now =
    (if UnixOf (t + defaultTokenTTL) \<le> UnixOf now then Inl AuthTokenExpired
     else Inr (Some \<lparr>us_Subject = us_SolanaAddress user, us_Email = [], us_SolanaAddress = us_SolanaAddress user,
       us_IsAdmin = (ToLower (us_SolanaAddress user) \<in> cf_AdminWallets cfg)\<rparr>))"
proof -
  have "fst (IssueToken lib sm user t) \<noteq> []" by (simp add: IssueToken_def Let_def)
  then show ?thesis
    using ParseToken_IssueToken [OF assms(1-3), of sm sm now] csvSet_no_empty [of emails] assms(4)
    unfolding Middleware_def bearer_token by (simp add: ToLower_def)
qed

section \<open>A sample run\<close>

text \<open>One wallet, \<open>W\<close>, is a key and the admin; a signature is 64 times the length of its message, a code one byte, and
  the claims are written as two numerals.\<close>

definition sampleAuthEnv :: GatewayEnv where
  "sampleAuthEnv = \<lparr>ge_ProgramID = [], ge_parseKey = (\<lambda>w. if w = ''W'' then Some (replicate 32 0) else None), ge_keccak = (\<lambda>m. m),
     ge_verify = (\<lambda>k m sig. sig = replicate 64 (of_nat (length m)))\<rparr>"

definition sampleAuthLib :: SessionLib where
  "sampleAuthLib = \<lparr>sl_hmac = (\<lambda>secret p. [0]),
     sl_marshal = (\<lambda>c. map (\<lambda>x. of_nat (of_char x)) (digitsBase 10 (nat (sc_IssuedAt c)) @ ''.'' @ digitsBase 10 (nat (sc_ExpiresAt c)))),
     sl_unmarshal = (\<lambda>b. case SplitChar CHR ''.'' (map (\<lambda>x. char_of (unat x)) b) of
        [i, e] \<Rightarrow> Some \<lparr>sc_Subject = ''W'', sc_SolanaAddress = ''W'', sc_IssuedAt = int (valueBase 10 i), sc_ExpiresAt = int (valueBase 10 e)\<rparr>
      | _ \<Rightarrow> None),
     sl_rfc3339 = (\<lambda>t. ''now'')\<rparr>"

definition sampleAuthConfig :: AuthConfig where
  "sampleAuthConfig = \<lparr>cf_AdminEmails = csvSet [], cf_AdminWallets = csvSet ''W'', cf_AuthTokenSecret = ''key''\<rparr>"

definition sampleSessions :: SessionManager where
  "sampleSessions = \<lparr>sm_cfg = sampleAuthConfig, sm_secret = ''key'', sm_challenges = Map.empty\<rparr>"

definition sampleChallenge :: Challenge where
  "sampleChallenge = \<lparr>ch_ID = ''7'', ch_Message = challengeMessage sampleAuthLib ''W'' ''7'' 0 defaultChallengeTTL,
     ch_ExpiresAt = defaultChallengeTTL\<rparr>"

definition sampleSignature :: bytes where
  "sampleSignature = replicate 64 (of_nat (length (ch_Message sampleChallenge)))"

definition sampleUser :: User where
  "sampleUser = \<lparr>us_Subject = ''W'', us_Email = [], us_SolanaAddress = ''W'', us_IsAdmin = True\<rparr>"

definition sampleLogin :: login where
  "sampleLogin = \<lparr>lg_challenge = ''7'', lg_wallet = ''W'', lg_signature = sampleSignature, lg_checkedAt = 0, lg_issuedAt = 0,
     lg_token = fst (IssueToken sampleAuthLib sampleSessions sampleUser 0)\<rparr>"

definition sampleAuth :: authSystem where
  "sampleAuth = \<lparr>ay_sessions = sampleSessions, ay_tickets = NewTicketStore (45 * second) Map.empty, ay_ids = [7], ay_uuids = [],
     ay_issued = [(sampleChallenge, ''W'', 0)], ay_logins = [sampleLogin], ay_requests = [(sampleUser, 0)], ay_forgeries = [],
     ay_admins = [(sampleUser, 0)], ay_issuedTickets = [], ay_sockets = []\<rparr>"

lemma digits_no_dot: "CHR ''.'' \<notin> set (digitsBase 10 n)"
proof (induction "10 :: nat" n rule: digitsBase.induct)
  case (1 n)
  have "CHR ''.'' \<noteq> digitChar d" if "d < 10" for d
    using that by (auto simp: digitChar_def dest: arg_cong [where f = "of_char :: char \<Rightarrow> nat"])
  then show ?case using 1 by (subst digitsBase.simps) auto
qed

lemma byte_char [simp]: "char_of (unat (of_nat (of_char c :: nat) :: u8)) = c"
proof -
  have "(of_char c :: nat) < 2 ^ LENGTH(8)" by simp
  then show ?thesis by (simp add: unsigned_of_nat take_bit_nat_eq_self)
qed

lemma sample_chars: "char_of (46 :: nat) = CHR ''.''" "char_of (55 :: nat) = CHR ''7''"
  by code_simp+

lemma sample_json: "goodJson sampleAuthEnv sampleAuthLib"
  by (simp add: goodJson_def sampleAuthEnv_def sampleAuthLib_def SplitChar_at SplitChar_none digits_no_dot valueBase_digitsBase comp_def sample_chars)

lemma sample_admin: "ToLower ''W'' \<in> cf_AdminWallets sampleAuthConfig"
  by (simp add: sampleAuthConfig_def csvSet_def TrimSpace_def isSpace_def)

lemma sample_challenge_step:
  "CreateChallenge sampleAuthEnv sampleAuthLib ''W'' (Some 7) 0 0 sampleSessions = (Inr sampleChallenge,
     sampleSessions\<lparr>sm_challenges := [''7'' \<mapsto> \<lparr>st_Challenge = sampleChallenge, st_WalletAddress = ''W''\<rparr>]\<rparr>)"
proof -
  have "FormatUint10 7 = ''7''" by (simp add: FormatUint10_def digitsBase.simps digitChar_def sample_chars)
  then show ?thesis
    by (simp add: CreateChallenge_def TrimSpace_def isSpace_def sampleAuthEnv_def sampleChallenge_def sampleSessions_def
        cleanupExpiredChallenges_def Let_def)
qed

lemma sample_login_step:
  "VerifyChallenge sampleAuthEnv sampleAuthLib ''7'' ''W'' (base64Encode False True sampleSignature) 0 0 0
     (sampleSessions\<lparr>sm_challenges := [''7'' \<mapsto> \<lparr>st_Challenge = sampleChallenge, st_WalletAddress = ''W''\<rparr>]\<rparr>) =
   (Inr (sampleUser, lg_token sampleLogin, defaultTokenTTL), sampleSessions)"
proof -
  have sig: "decodeBase64Signature (base64Encode False True sampleSignature) = Inr sampleSignature"
    by (simp add: decodeBase64Signature_def base64_roundtrip sampleSignature_def)
  have text1: "base64Encode False True sampleSignature \<noteq> []" using base64_roundtrip [of False True sampleSignature]
    by (auto simp: sampleSignature_def base64Decode_def)
  have m: "cleanupExpiredChallenges 0 [''7'' \<mapsto> \<lparr>st_Challenge = sampleChallenge, st_WalletAddress = ''W''\<rparr>] =
      [''7'' \<mapsto> \<lparr>st_Challenge = sampleChallenge, st_WalletAddress = ''W''\<rparr>]"
    by (rule ext) (simp add: cleanupExpiredChallenges_def sampleChallenge_def defaultChallengeTTL_def)
  show ?thesis
    using sample_admin sig text1
    by (simp add: VerifyChallenge_def Let_def m base64_trimmed TrimSpace_def [of "''7''"] TrimSpace_def [of "''W''"] isSpace_def
        sampleAuthEnv_def sampleLogin_def sampleSessions_def sampleUser_def IssueToken_def tokenPayload_def claimsOf_def)
       (simp add: sampleSignature_def sampleChallenge_def defaultChallengeTTL_def)
qed

lemma sample_request_step:
  "Middleware sampleAuthLib sampleAuthConfig (Some sampleSessions) (''Bearer '' @ lg_token sampleLogin) 0 = Inr (Some sampleUser)"
  using session_until_expiry [OF sample_json, of sampleUser 0 sampleAuthConfig "[]" sampleSessions 0] sample_admin
  by (simp add: sampleLogin_def sampleUser_def sampleAuthEnv_def sampleAuthConfig_def UnixOf_def defaultTokenTTL_def)

lemma sample_auth_reachable: "authReachable sampleAuthEnv sampleAuthLib sampleAuthConfig sampleAuth"
proof -
  let ?step = "authStep sampleAuthEnv sampleAuthLib sampleAuthConfig"
  let ?s0 = "newAuthSystem sampleSessions"
  let ?s1 = "?s0\<lparr>ay_sessions := sampleSessions\<lparr>sm_challenges := [''7'' \<mapsto> \<lparr>st_Challenge = sampleChallenge, st_WalletAddress = ''W''\<rparr>]\<rparr>,
     ay_ids := [7], ay_issued := [(sampleChallenge, ''W'', 0)]\<rparr>"
  let ?s2 = "?s1\<lparr>ay_sessions := sampleSessions, ay_logins := [sampleLogin]\<rparr>"
  have w: "TrimSpace ''W'' = ''W''" "TrimSpace ''7'' = ''7''" by (simp_all add: TrimSpace_def isSpace_def)
  have "?step ?s0 ?s1"
    using authStep.challenge [where s = ?s0 and wallet = "''W''" and n = 7 and issuedAt = 0 and now = 0, of sampleAuthEnv sampleAuthLib]
      sample_challenge_step w by (simp add: newAuthSystem_def)
  moreover have "logIn sampleAuthEnv ''7'' (base64Encode False True sampleSignature) 0 0 (sampleUser, lg_token sampleLogin, defaultTokenTTL)
      = sampleLogin"
    by (simp add: logIn_def w base64_trimmed decodeBase64Signature_def base64_roundtrip sampleLogin_def sampleUser_def)
       (simp add: sampleSignature_def)
  then have "?step ?s1 ?s2"
    using authStep.login [where s = ?s1 and wallet = "''W''" and challengeID = "''7''" and ?t1.0 = 0 and ?t2.0 = 0 and ?t3.0 = 0
        and signature = "base64Encode False True sampleSignature" and sm = sampleSessions
        and r = "(sampleUser, lg_token sampleLogin, defaultTokenTTL)", of sampleAuthEnv sampleAuthLib] sample_login_step
    by (simp add: newAuthSystem_def)
  moreover have "?step ?s2 sampleAuth"
  proof -
    have tok: "tokenFromRequest (''Bearer '' @ lg_token sampleLogin) = lg_token sampleLogin"
      "TrimSpace (lg_token sampleLogin) = lg_token sampleLogin"
      by (simp_all only: sampleLogin_def login.simps bearer_token token_trimmed)
    have "unforged sampleAuthLib ?s2 (''Bearer '' @ lg_token sampleLogin)"
      unfolding unforged_def tok
      by (simp add: sampleLogin_def IssueToken_def Let_def tokenPayload_def SplitChar_at SplitChar_none base64_no_dot signedPayloads_def)
    with authStep.request [where s = ?s2 and header = "''Bearer '' @ lg_token sampleLogin" and now = 0 and u = "Some sampleUser"
        and cfg = sampleAuthConfig and env = sampleAuthEnv and lib = sampleAuthLib] sample_request_step
    show ?thesis by (simp add: newAuthSystem_def sampleAuth_def passRequest_def RequireUser_def RequireAdmin_def sampleUser_def)
  qed
  moreover have "NewSessionManager True sampleAuthConfig = Some sampleSessions"
    by (simp add: NewSessionManager_def sampleAuthConfig_def sampleSessions_def TrimSpace_def isSpace_def Let_def)
  ultimately show ?thesis
    unfolding authReachable_def by (meson rtranclp.rtrancl_into_rtrancl rtranclp.rtrancl_refl)
qed

theorem requests_rest_on_signatures_witness:
  "distinct (map lg_challenge (ay_logins sampleAuth))
    \<and> list_all (loginOK sampleAuthEnv (set (ay_issued sampleAuth))) (ay_logins sampleAuth)
    \<and> inj_on (\<lambda>i. ch_Message (fst i)) (set (ay_issued sampleAuth))
    \<and> list_all (requestOK sampleAuthConfig (set (ay_logins sampleAuth))) (ay_requests sampleAuth)
    \<and> set (ay_admins sampleAuth) \<subseteq> {r \<in> passed sampleAuth. ToLower (us_SolanaAddress (fst r)) \<in> cf_AdminWallets sampleAuthConfig}
    \<and> ay_admins sampleAuth \<noteq> []"
  using requests_rest_on_signatures [OF sample_auth_reachable sample_json, of "[]"]
  by (simp add: oneLineKeys_def sampleAuthEnv_def sampleAuthConfig_def sampleAuth_def)

end
