(* ===== verification/Spec2Isabelle.thy ===== *)
theory Spec2Isabelle
  imports BookRuns FundsProps FundsRaces FundsRestart Snowflake PreparedPayload MatcherProps SettlementProps GatewayLaws WriterLaws Hub
    MarketProps RouterProps AuthProps
begin

text \<open>
  Verification of the trading back end of BlinkPredict, the Go code under \<open>src/Banckend\<close>.  Paths below are relative to
  \<open>src/Banckend/internal\<close>.

  \<^bold>\<open>The program.\<close>  A wallet signs an order for a binary market (YES and NO lots, prices of 1 to 99 cents).  The
  gateway (\<open>http/server.go\<close>) checks the session and the signed intent, turns every order into one on the YES book and
  publishes a command on the message bus.  The funds service (\<open>funds\<close>) reserves what the order needs and publishes it
  as reserved.  The matcher (\<open>matching\<close>) feeds it to the book of its market, collects the fills of several commands in a
  batch, and publishes the batch twice: as a market delta for the read models and as an execution for funds and settlement.
  The settlement service (\<open>settlement\<close>) builds a transaction from the batch and the signed intents, submits one per market
  at a time, watches it, and publishes its outcome, on which the funds service delivers the lots or gives the units back.
  The writer (\<open>writer\<close>) keeps the order and trade tables, the websocket hub (\<open>pusher\<close>) a view of each market for its
  clients.  Deposits, withdrawals and the creation of markets enter as signatures of transactions that confirmation
  services (\<open>depositconfirm\<close>, \<open>withdrawconfirm\<close>, \<open>marketconfirm\<close>) look up on the chain, waiting with the help of a
  router of signature subscriptions (\<open>chainconfirm\<close>).

  \<^bold>\<open>How the code is modelled.\<close>  A struct is a record with the field names of the code (prefixed where two structs share a
  name), an enumeration a datatype, \<open>uint64\<close> a 64-bit word that wraps; errors and early returns are values of a sum or
  option type; a loop is a \<open>fun\<close>, or a \<open>partial_function\<close> where only an argument shows that it ends.  A goroutine is a rule
  of an \<open>inductive\<close> step relation, cut where another goroutine can run, so an invariant of the reachable states holds for
  every interleaving.  The bus, Postgres, Redis, the RPC node and the clock are not in the repository: their answers,
  failures included, are arguments of the steps; the cryptographic functions, base 58, \<open>solana-go\<close> and
  \<open>encoding/json\<close> are parameters, and what is assumed of them is a named hypothesis of the theorem that needs it.

  \<^bold>\<open>The theories.\<close>  Each opens with its own description.

    \<^item> \<open>Prelude\<close>, \<open>GoStrings\<close>, \<open>Bytes\<close>, \<open>Encodings\<close>, \<open>Assoc\<close>: words, the \<open>strings\<close>, \<open>strconv\<close>, \<open>binary\<close>, \<open>hex\<close> and
      \<open>base64\<close> functions that the code calls, association lists.

    \<^item> The book, \<open>matching/math.go\<close>, \<open>types.go\<close>, \<open>pool.go\<close>, \<open>batcher.go\<close>, \<open>book.go\<close>: \<open>LotMath\<close>, \<open>Orders\<close>,
      \<open>Batcher\<close>, \<open>Book\<close> hold the definitions; \<open>Matching\<close> and \<open>Sweep\<close> the two matching loops against a reference matcher on
      lists in price-time order; \<open>BookSpec\<close>, \<open>BookCommands\<close> and \<open>BookRuns\<close> the invariant \<open>book_ok\<close>, that every command
      keeps it, returns and leaves a well-formed batch; \<open>BookDepth\<close>, \<open>BookRows\<close>, \<open>BatchNames\<close> what the updates of a batch
      say about the book.

    \<^item> The matcher, \<open>matching/actor.go\<close>, \<open>manager.go\<close>, the registries and \<open>snowflake.go\<close>: \<open>MatcherEngine\<close>, \<open>Registries\<close>,
      \<open>Snowflake\<close>; \<open>MatcherLaws\<close> and \<open>MatcherProps\<close> show that commands reach the book once, that the engine never panics,
      the limits of a batch and what the checkpoint acknowledges.

    \<^item> The read models: \<open>Projection\<close> and \<open>ReadModels\<close> are locales for whatever follows the published deltas, with the run
      of the engine and tick loops behind it, which carries a flag for what a read model cannot follow (\<open>engineStep\<close>); \<open>Writer\<close> and \<open>WriterLaws\<close> (\<open>writer/writer.go\<close>), \<open>MarketView\<close> and \<open>Hub\<close>
      (\<open>pusher/market_state.go\<close>, \<open>hub.go\<close>) are their instances; \<open>SampleRun\<close> is the run of the witnesses.

    \<^item> Funds: \<open>FundsManager\<close> (\<open>manager.go\<close>), \<open>Inflight\<close> (\<open>inflight.go\<close>, \<open>pending_reserve.go\<close>), \<open>KeyStores\<close> (the stores of
      processed keys), \<open>FundsService\<close> (\<open>service.go\<close>); \<open>FundsLaws\<close>, \<open>FundsRuns\<close>, \<open>FundsSettle\<close>, \<open>FundsProps\<close> show conservation,
      that each message takes effect once in every run, and that settlement delivers or restores what the fills charged.
      A handler is one function there; \<open>FundsRaces\<close> cuts the handlers of a batch and of its outcome at the locks and
      tells, for every interleaving of the two, whether the outcome is applied or lost.
      \<open>FundsRecovery\<close> (\<open>projector.go\<close>, \<open>recovery_store.go\<close>, the start of \<open>service.go\<close>), \<open>FundsTouch\<close>, \<open>FundsRecoveryLaws\<close> and
      \<open>FundsRestart\<close> show that a restart reads back the state of the last committed flush.

    \<^item> Settlement: \<open>Intent\<close>, \<open>TxEstimator\<close>, \<open>Submission\<close>, \<open>PreparedPayload\<close>, \<open>SettlementRepo\<close>, \<open>SettlementService\<close> are
      the files of the same names; \<open>SubmissionLaws\<close>, \<open>SettlementLaws\<close>, \<open>SettlementProps\<close> show that what the matcher freezes can
      be built, sized and stored, and the life of a submission over all interleavings of the service's loops.
      A statement may be committed although its caller is told of an error (\<open>DoneUnreported\<close>); the ghost set \<open>unreported\<close>
      holds the markets in which that freed the lane of a submitted row.

    \<^item> The gateway: \<open>Protocol\<close> (\<open>protocol\<close>, \<open>matching/adapter.go\<close>), \<open>Gateway\<close> and \<open>GatewayLaws\<close>; sessions and websocket
      tickets in \<open>Auth\<close>, \<open>AuthLaws\<close>, \<open>AuthProps\<close> (\<open>auth/auth.go\<close>, \<open>pusher/ticket_store.go\<close>).
      A request may carry any token; the ghost list \<open>ay_forgeries\<close> holds those with a valid code that no login made.

    \<^item> Confirmation: \<open>Waiter\<close>, \<open>Router\<close>, \<open>RouterLaws\<close>, \<open>RouterProps\<close> (\<open>chainconfirm\<close>); \<open>Confirm\<close>, \<open>ConfirmService\<close>,
      \<open>ConfirmLaws\<close>, \<open>ConfirmProps\<close> (\<open>depositconfirm\<close>, \<open>withdrawconfirm\<close>, whose common shape is the record \<open>confirmFlow\<close>);
      \<open>MarketConfirm\<close>, \<open>MarketLaws\<close>, \<open>MarketProps\<close> (\<open>marketconfirm\<close>, \<open>markets\<close>).

  \<^bold>\<open>Where components meet.\<close>  A contract that several operations or components share is a locale, interpreted on the
  definitions of the provider: the key stores, the depth views, the order tables, the projections and the confirmation
  checks.  Across components: a batch the matcher freezes is accepted by the settlement builder and has the size the
  estimator predicted (\<open>SubmissionLaws\<close>); a published order converts to a command of the matcher and passes the
  comparison of intent and execution (\<open>GatewayLaws\<close>); the rows of the writer and the snapshots of the hub show the book after
  a run of the engine (\<open>WriterLaws\<close>, \<open>MarketView\<close>, \<open>Hub\<close>); the balances of the funds service grow by what the chain
  holds (\<open>ConfirmProps\<close>).

  \<^bold>\<open>Bounds.\<close>  The loops of the book end for any price array; the facts with arithmetic assume that quantity times price and
  spend times 100 fit in 64 bits, which is what \<open>safeTaker\<close> and \<open>safeMaker\<close> say.  The balances of \<open>FundsSettle\<close> are assumed below 2 to the power 63, as sums of the batch's charges.  Counters that the code never resets
  (sequence numbers of the hub, request numbers of the router) are assumed to stay below 2 to the power 64, a batch below
  65536 orders.  The snowflake generator waits on its clock: its model takes the list of clock readings, and \<open>None\<close> says
  that the list ended first.

  \<^bold>\<open>Not modelled.\<close>  Connections, tickers, back-off times, fetch loops, logging and the decoding of JSON and SQL columns: the
  model starts with the decoded value.  Two stores of one request that are no transaction in the code are modelled as the
  code orders them, with the failure of each.  JetStream's own deduplication and the handler of released orders are not
  part of the run behind the order table; neither is the unlocked access of the expiry ticker to the book, whose tick
  is one step.  The title, description and category of a market are what the metadata gateway answered, and JSON and
  time columns are read as they were written.  The client of \<open>Hub\<close> is hypothetical.  The Redis copies and the routes that only read them, the faucet, the
  webhook receivers (nothing constructs the projector behind them), the market cache, the start-up coordinator, the
  configuration, the RPC polling of block hashes and of account existence, and the indexers, which nothing constructs, are
  left out; so are the contract and the front end, which are not Go.

  \<^bold>\<open>What modelling showed.\<close>  Several theorems show a run in which the code does not do what it means to: an overtaken command
  is dropped and a duplicate acknowledged before its batch is published (\<open>MatcherProps\<close>), an order below the minimum
  notional can never settle (\<open>GatewayLaws\<close>), two connections of the router answered with one number misroute an outcome and
  a late subscriber is stranded (\<open>RouterProps\<close>), an outcome that arrives while its batch is being registered is
  lost (\<open>FundsRaces\<close>), an update to submitted that committed while reporting an error lets a second transaction of
  the market go out (\<open>SettlementProps\<close>), a delta that the writer passed over is never stored (\<open>WriterLaws\<close>), a confirmation delivered late opens a resolved market again
  (\<open>MarketProps\<close>), an event of funds handled after a flush with a larger number is lost at a restart (\<open>FundsRestart\<close>).
\<close>

end
